(* ===== verification/Prelude.thy ===== *)
theory Prelude
  imports Complex_Main "HOL-Library.AList" "HOL-Library.Multiset"
    "HOL-Library.Char_ord" "HOL-Library.List_Lexorder"
begin

text \<open>
  Shared vocabulary of the development: Python exceptions as values, dictionaries as
  insertion-ordered association lists, statements that mutate an object and may raise,
  loops over lists, and the generic lemmas the component theories use.
\<close>

section \<open>Lemma collections\<close>

named_theorems dict_simps \<open>lookups and key sets of dictionaries after an update\<close>
named_theorems act_simps \<open>unfolding of stateful actions\<close>

section \<open>Exceptions\<close>

text \<open>
  One constructor per exception class the modelled code raises. Messages are not modelled.
\<close>

datatype exn =
    ValueError | KeyError | IndexError | ZeroDivisionError | AssertionError | PermissionError
  | IllegalTransitionError | DuplicateClientOrderIdError | BrokerTimeoutError
  | BrokerDisconnectedError | UnauthorizedOrderError | OrderTamperError | IntegrityError
  | EnvironmentMismatchError | NoStopPlanError | SizingRejected
  | InsufficientCapitalError | DuplicateReservationError | UnknownReservationError
  | CellShortSellError | CellOverdrawError | DuplicateIntentIdError | UnknownCellError
  | DuplicateStopIdError | UnknownStopError | OversellError | DuplicateSellReservationError
  | UnknownSellReservationError | InsufficientDataError | BrokerFailoverForbiddenError
  | ResumeForbiddenError | StagePromotionError | ValidationError | MarketDataUnavailable
  | MalformedMonitorError | MalformedAuditError | MalformedDecisionError | AuditUnavailableError
  | LLMUnavailableError | LLMCallError | SnapshotTamperError | TypeError | AttributeError

text \<open>
  A pure computation that may raise is a value of \<open>exn + 'a\<close>. A method that mutates its
  object and may raise is an action: on an exception the mutations made before it stay.
\<close>

type_synonym ('s, 'a) act = "'s \<Rightarrow> (exn + 'a) \<times> 's"

definition ret :: "'a \<Rightarrow> ('s, 'a) act" where
  [act_simps]: "ret x = (\<lambda>s. (Inr x, s))"

definition throw :: "exn \<Rightarrow> ('s, 'a) act" where
  [act_simps]: "throw e = (\<lambda>s. (Inl e, s))"

definition bind_act :: "('s, 'a) act \<Rightarrow> ('a \<Rightarrow> ('s, 'b) act) \<Rightarrow> ('s, 'b) act" where
  "bind_act m k = (\<lambda>s. case m s of (Inl e, s') \<Rightarrow> (Inl e, s') | (Inr x, s') \<Rightarrow> k x s')"

text \<open>A \<open>for\<close> statement over a list, stopping at the first exception.\<close>

fun for_each :: "('a \<Rightarrow> ('s, unit) act) \<Rightarrow> 'a list \<Rightarrow> ('s, unit) act" where
  "for_each f [] s = (Inr (), s)"
| "for_each f (x # xs) s =
     (case f x s of (Inl e, s') \<Rightarrow> (Inl e, s') | (Inr _, s') \<Rightarrow> for_each f xs s')"

text \<open>The same for pure loop bodies.\<close>

fun fold_res :: "('a \<Rightarrow> 's \<Rightarrow> exn + 's) \<Rightarrow> 'a list \<Rightarrow> 's \<Rightarrow> exn + 's" where
  "fold_res f [] s = Inr s"
| "fold_res f (x # xs) s = (case f x s of Inl e \<Rightarrow> Inl e | Inr s' \<Rightarrow> fold_res f xs s')"

definition is_ok :: "exn + 'a \<Rightarrow> bool" where
  "is_ok r = (case r of Inl _ \<Rightarrow> False | Inr _ \<Rightarrow> True)"

lemma is_ok_simps [simp]: "is_ok (Inr x)" "\<not> is_ok (Inl e)"
  by (simp_all add: is_ok_def)

lemma bind_act_simps [act_simps]:
  "m s = (Inl e, s') \<Longrightarrow> bind_act m k s = (Inl e, s')"
  "m s = (Inr x, s') \<Longrightarrow> bind_act m k s = k x s'"
  by (simp_all add: bind_act_def)

text \<open>An invariant of the loop body is an invariant of the loop, whether or not it raises.\<close>

lemma for_each_invariant:
  assumes "\<And>x s r s'. x \<in> set xs \<Longrightarrow> P s \<Longrightarrow> f x s = (r, s') \<Longrightarrow> P s'"
    and "P s" and "for_each f xs s = (r, s')"
  shows "P s'"
  using assms
proof (induction xs arbitrary: s)
  case Nil
  then show ?case by simp
next
  case (Cons x xs)
  obtain q t where q: "f x s = (q, t)" by (cases "f x s")
  with Cons.prems(1,2) have t: "P t" by (meson list.set_intros(1))
  show ?case
  proof (cases q)
    case (Inl e)
    with q t Cons.prems(3) show ?thesis by simp
  next
    case (Inr u)
    with q Cons.prems(3) have "for_each f xs t = (r, s')" by simp
    with Cons.prems(1) t show ?thesis by (intro Cons.IH) (auto intro: list.set_intros(2))
  qed
qed

lemma fold_res_append:
  "fold_res f (xs @ ys) s =
     (case fold_res f xs s of Inl e \<Rightarrow> Inl e | Inr s' \<Rightarrow> fold_res f ys s')"
  by (induction xs arbitrary: s) (auto split: sum.splits)

lemma fold_res_invariant:
  assumes "\<And>x s s'. x \<in> set xs \<Longrightarrow> P s \<Longrightarrow> f x s = Inr s' \<Longrightarrow> P s'"
    and "P s" and "fold_res f xs s = Inr s'"
  shows "P s'"
  using assms
proof (induction xs arbitrary: s)
  case Nil
  then show ?case by simp
next
  case (Cons x xs)
  then obtain t where "f x s = Inr t" "fold_res f xs t = Inr s'"
    by (auto split: sum.splits)
  then show ?case using Cons.IH [of t] Cons.prems by (metis list.set_intros(1,2))
qed

section \<open>Preservation\<close>

text \<open>
  An action keeps a property when it holds in the state it leaves, whether or not the action
  raised. The rules follow the structure of a method body.
\<close>

definition keeps :: "('s \<Rightarrow> bool) \<Rightarrow> ('s, 'a) act \<Rightarrow> bool" where
  "keeps P f \<longleftrightarrow> (\<forall>s. P s \<longrightarrow> P (snd (f s)))"

named_theorems keeps_intros \<open>preservation of a property by the parts of a method\<close>

lemma keepsI: "(\<And>s r s'. P s \<Longrightarrow> f s = (r, s') \<Longrightarrow> P s') \<Longrightarrow> keeps P f"
  by (metis keeps_def prod.collapse)

lemma keepsD: "keeps P f \<Longrightarrow> P s \<Longrightarrow> f s = (r, s') \<Longrightarrow> P s'"
  by (metis keeps_def snd_conv)

lemma keeps_ret [keeps_intros]: "keeps P (ret x)"
  by (simp add: keeps_def ret_def)

lemma keeps_throw [keeps_intros]: "keeps P (throw e)"
  by (simp add: keeps_def throw_def)

lemma keeps_bind [keeps_intros]:
  "keeps P m \<Longrightarrow> (\<And>x. keeps P (k x)) \<Longrightarrow> keeps P (bind_act m k)"
  by (auto simp: keeps_def bind_act_def split: prod.splits sum.splits)

lemma keeps_for_each [keeps_intros]: "(\<And>x. keeps P (f x)) \<Longrightarrow> keeps P (for_each f xs)"
  by (rule keepsI, erule for_each_invariant [where P = P, rotated]) (auto dest: keepsD)

lemma keeps_if [keeps_intros]: "keeps P f \<Longrightarrow> keeps P g \<Longrightarrow> keeps P (if b then f else g)"
  by simp

section \<open>Dictionaries\<close>

text \<open>
  A Python \<open>dict\<close> keeps insertion order: assigning to a present key keeps its position,
  a new key goes to the end. That is \<open>AList.update\<close> on association lists.
\<close>

type_synonym ('k, 'v) dict = "('k \<times> 'v) list"

definition dget :: "('k, 'v) dict \<Rightarrow> 'k \<Rightarrow> 'v option" where
  "dget d k = map_of d k"

definition dput :: "('k, 'v) dict \<Rightarrow> 'k \<Rightarrow> 'v \<Rightarrow> ('k, 'v) dict" where
  "dput d k v = AList.update k v d"

definition ddel :: "('k, 'v) dict \<Rightarrow> 'k \<Rightarrow> ('k, 'v) dict" where
  "ddel d k = AList.delete k d"

definition dkeys :: "('k, 'v) dict \<Rightarrow> 'k list" where
  "dkeys d = map fst d"

definition dvals :: "('k, 'v) dict \<Rightarrow> 'v list" where
  "dvals d = map snd d"

definition dhas :: "('k, 'v) dict \<Rightarrow> 'k \<Rightarrow> bool" where
  "dhas d k = (dget d k \<noteq> None)"

text \<open>\<open>d.get(k, default)\<close>\<close>

definition dget_or :: "('k, 'v) dict \<Rightarrow> 'k \<Rightarrow> 'v \<Rightarrow> 'v" where
  "dget_or d k v = (case dget d k of None \<Rightarrow> v | Some x \<Rightarrow> x)"

text \<open>A dictionary never holds a key twice.\<close>

definition dict_ok :: "('k, 'v) dict \<Rightarrow> bool" where
  "dict_ok d = distinct (map fst d)"

lemma dget_simps [simp]: "dget [] k = None" "dget ((a, b) # d) k = (if a = k then Some b else dget d k)"
  by (auto simp: dget_def)

lemma dput_simps [simp]:
  "dput [] k v = [(k, v)]"
  "dput ((a, b) # d) k v = (if a = k then (k, v) # d else (a, b) # dput d k v)"
  by (auto simp: dput_def)

lemma ddel_simps [simp]:
  "ddel [] k = []"
  "ddel ((a, b) # d) k = (if a = k then ddel d k else (a, b) # ddel d k)"
  by (auto simp: ddel_def)

lemma dget_dput [dict_simps]: "dget (dput d k v) k' = (if k' = k then Some v else dget d k')"
  by (auto simp: dget_def dput_def update_conv')

lemma dget_ddel [dict_simps]: "dget (ddel d k) k' = (if k' = k then None else dget d k')"
  by (auto simp: dget_def ddel_def delete_conv')

lemma dict_ok_Nil [simp]: "dict_ok []"
  by (simp add: dict_ok_def)

lemma dict_ok_Cons [simp]: "dict_ok ((k, v) # d) \<longleftrightarrow> dget d k = None \<and> dict_ok d"
  by (auto simp: dict_ok_def dget_def map_of_eq_None_iff)

lemma dict_ok_dput [simp, intro]: "dict_ok d \<Longrightarrow> dict_ok (dput d k v)"
  by (simp add: dict_ok_def dput_def distinct_update)

lemma dict_ok_ddel [simp, intro]: "dict_ok d \<Longrightarrow> dict_ok (ddel d k)"
  by (simp add: dict_ok_def ddel_def distinct_delete)

lemma dget_in_vals: "dget d k = Some v \<Longrightarrow> v \<in> set (dvals d)"
  by (force simp: dget_def dvals_def dest: map_of_SomeD)

lemma dget_in_set: "dget d k = Some v \<Longrightarrow> (k, v) \<in> set d"
  by (simp add: dget_def map_of_SomeD)

lemma in_set_dget: "dict_ok d \<Longrightarrow> (k, v) \<in> set d \<longleftrightarrow> dget d k = Some v"
  by (simp add: dget_def dict_ok_def)

lemma dget_None_iff: "dget d k = None \<longleftrightarrow> k \<notin> set (dkeys d)"
  by (simp add: dget_def dkeys_def map_of_eq_None_iff)

lemma ddel_absent [simp]: "dget d k = None \<Longrightarrow> ddel d k = d"
  by (simp add: dget_def ddel_def map_of_eq_None_iff)

lemma dput_absent: "dget d k = None \<Longrightarrow> dput d k v = d @ [(k, v)]"
  by (induction d) (auto split: if_splits)

lemma set_dvals_dput: "set (dvals (dput d k v)) \<subseteq> insert v (set (dvals d))"
  unfolding dvals_def by (induction d) (force split: if_splits)+

lemma set_dvals_ddel: "set (dvals (ddel d k)) \<subseteq> set (dvals d)"
  unfolding dvals_def by (induction d) (force split: if_splits)+

text \<open>Sums over the values of a dictionary, the shape of most bookkeeping totals.\<close>

definition dsum :: "('v \<Rightarrow> 'n::comm_monoid_add) \<Rightarrow> ('k, 'v) dict \<Rightarrow> 'n" where
  "dsum f d = sum_list (map f (dvals d))"

lemma dsum_Nil [simp]: "dsum f [] = 0"
  by (simp add: dsum_def dvals_def)

lemma dsum_Cons [simp]: "dsum f ((k, v) # d) = f v + dsum f d"
  by (simp add: dsum_def dvals_def)

lemma dsum_append [simp]: "dsum f (d @ d') = dsum f d + dsum f d'"
  by (simp add: dsum_def dvals_def)

lemma dsum_dput:
  fixes f :: "'v \<Rightarrow> 'n::ab_group_add"
  shows "dsum f (dput d k v) =
    dsum f d + f v - (case dget d k of None \<Rightarrow> 0 | Some w \<Rightarrow> f w)"
  by (induction d) (auto split: option.splits simp: algebra_simps)

lemma dsum_ddel:
  fixes f :: "'v \<Rightarrow> 'n::ab_group_add"
  assumes "dict_ok d"
  shows "dsum f (ddel d k) = dsum f d - (case dget d k of None \<Rightarrow> 0 | Some w \<Rightarrow> f w)"
  using assms by (induction d) (auto split: option.splits simp: algebra_simps)

lemma dsum_nonneg:
  fixes f :: "'v \<Rightarrow> 'n::ordered_comm_monoid_add"
  shows "(\<And>v. v \<in> set (dvals d) \<Longrightarrow> 0 \<le> f v) \<Longrightarrow> 0 \<le> dsum f d"
  by (induction d) (auto simp: dvals_def)

lemma dsum_dget_le:
  fixes f :: "'v \<Rightarrow> real"
  assumes "\<And>v. v \<in> set (dvals d) \<Longrightarrow> 0 \<le> f v" and "dget d k = Some v"
  shows "f v \<le> dsum f d"
  using assms
proof (induction d)
  case Nil
  then show ?case by simp
next
  case (Cons p d)
  obtain a w where p: "p = (a, w)" by (cases p)
  have nn: "0 \<le> dsum f d"
    using Cons.prems(1) by (intro dsum_nonneg) (simp add: dvals_def)
  have w: "0 \<le> f w"
    using Cons.prems(1) p by (simp add: dvals_def)
  show ?case
  proof (cases "a = k")
    case True
    then show ?thesis using Cons.prems(2) p nn by simp
  next
    case False
    then have "f v \<le> dsum f d"
      using Cons p by (simp add: dvals_def)
    with w p show ?thesis by simp
  qed
qed

text \<open>Totals per key, \<open>d[k] = d.get(k, 0.0) + x\<close> over a list of pairs.\<close>

definition add_to :: "('k, real) dict \<Rightarrow> 'k \<Rightarrow> real \<Rightarrow> ('k, real) dict" where
  "add_to d k x = dput d k (dget_or d k 0 + x)"

fun tally :: "('k \<times> real) list \<Rightarrow> ('k, real) dict \<Rightarrow> ('k, real) dict" where
  "tally [] d = d"
| "tally ((k, x) # xs) d = tally xs (add_to d k x)"

lemma tally_append [simp]: "tally (xs @ ys) d = tally ys (tally xs d)"
  by (induction xs arbitrary: d) auto

definition key_total :: "'k \<Rightarrow> ('k \<times> real) list \<Rightarrow> real" where
  "key_total k xs = (\<Sum>(j, x)\<leftarrow>xs. if j = k then x else 0)"

lemma key_total_simps [simp]:
  "key_total k [] = 0"
  "key_total k ((j, x) # xs) = (if j = k then x else 0) + key_total k xs"
  "key_total k (xs @ ys) = key_total k xs + key_total k ys"
  by (simp_all add: key_total_def)

lemma dget_tally:
  "dget (tally xs d) k =
    (if k \<in> fst ` set xs then Some (dget_or d k 0 + key_total k xs) else dget d k)"
proof (induction xs arbitrary: d)
  case Nil
  then show ?case by simp
next
  case (Cons a xs)
  obtain j x where a: "a = (j, x)" by (cases a)
  have "key_total k xs = 0" if "k \<notin> fst ` set xs"
    using that by (induction xs) auto
  then show ?case
    using Cons [of "add_to d j x"] a by (auto simp: add_to_def dict_simps dget_or_def)
qed

lemma tally_ok [simp]: "dict_ok d \<Longrightarrow> dict_ok (tally xs d)"
  by (induction xs d rule: tally.induct) (auto simp: add_to_def)

section \<open>Lists\<close>

lemma sum_list_nonneg_map:
  fixes f :: "'a \<Rightarrow> real"
  shows "(\<And>x. x \<in> set xs \<Longrightarrow> 0 \<le> f x) \<Longrightarrow> 0 \<le> sum_list (map f xs)"
  by (induction xs) auto

lemma sum_list_map_sort_key [simp]:
  fixes f :: "'a \<Rightarrow> real"
  shows "sum_list (map f (sort_key g xs)) = sum_list (map f xs)"
proof -
  have "mset (map f (sort_key g xs)) = mset (map f xs)" by simp
  then show ?thesis by (metis sum_mset_sum_list)
qed

lemma sum_list_map_perm:
  fixes f :: "'a \<Rightarrow> 'b::comm_monoid_add"
  assumes "mset xs = mset ys"
  shows "sum_list (map f xs) = sum_list (map f ys)"
proof -
  have "mset (map f xs) = mset (map f ys)" using assms by simp
  then show ?thesis by (metis sum_mset_sum_list)
qed

text \<open>Sorting by a key that is unique does not depend on the order of the input.\<close>

lemma filter_eq_replicate: "filter ((=) k) zs = replicate (count (mset zs) k) k"
  by (induction zs) auto

lemma filter_key_unique:
  assumes "inj_on g (set zs)" and "k \<in> set zs"
  shows "filter (\<lambda>x. g k = g x) zs = replicate (count (mset zs) k) k"
proof -
  have "filter (\<lambda>x. g k = g x) zs = filter ((=) k) zs"
    using assms by (intro filter_cong) (auto dest: inj_onD)
  then show ?thesis by (simp add: filter_eq_replicate)
qed

lemma sort_key_perm_unique:
  fixes g :: "'a \<Rightarrow> 'k::linorder"
  assumes perm: "mset xs = mset ys" and inj: "inj_on g (set xs)"
  shows "sort_key g xs = sort_key g ys"
proof (rule properties_for_sort_key)
  show "mset (sort_key g ys) = mset xs" using perm by simp
  show "sorted (map g (sort_key g ys))" by simp
  have same: "set (sort_key g ys) = set xs"
    using perm by (metis set_sort set_mset_mset)
  fix k assume "k \<in> set (sort_key g ys)"
  then have k: "k \<in> set xs" using same by simp
  have inj': "inj_on g (set (sort_key g ys))" using inj same by simp
  have "filter (\<lambda>x. g k = g x) (sort_key g ys) = replicate (count (mset (sort_key g ys)) k) k"
    by (rule filter_key_unique [OF inj']) (use k same in simp)
  also have "\<dots> = filter (\<lambda>x. g k = g x) xs"
    using filter_key_unique [OF inj k] perm by simp
  finally show "filter (\<lambda>x. g k = g x) (sort_key g ys) = filter (\<lambda>x. g k = g x) xs" .
qed

end
