(* ===== verification/PyNum.thy ===== *)
theory PyNum
  imports Prelude
begin

text \<open>
  Python numbers. A finite \<open>float\<close> is modelled by the real number it denotes, and float
  arithmetic by exact real arithmetic: rounding errors of single operations are not
  modelled, the tolerances of the code are. Inputs that the code tests for NaN or
  infinity are \<open>pyfloat\<close>s. \<open>round\<close>, \<open>int\<close> and the \<open>.10g\<close> format are
  the functions of the language on the exact value.
\<close>

section \<open>Tolerances\<close>

text \<open>The literal \<open>1e-9\<close> of the source.\<close>

definition eps :: real where
  "eps = 1 / 1000000000"

text \<open>The literal \<open>1e-6\<close>.\<close>

definition eps6 :: real where
  "eps6 = 1 / 1000000"

lemma eps_pos [simp]: "0 < eps" "0 \<le> eps" "\<not> eps \<le> 0" "\<not> eps < 0" "- eps \<le> 0" "- eps < 0"
  by (simp_all add: eps_def)

lemma eps6_pos [simp]: "0 < eps6" "0 \<le> eps6"
  by (simp_all add: eps6_def)

section \<open>Non-finite floats\<close>

datatype pyfloat = Fin real | PosInf | NegInf | NaN

fun isfinite :: "pyfloat \<Rightarrow> bool" where
  "isfinite (Fin _) = True"
| "isfinite _ = False"

text \<open>Comparison of IEEE floats: false as soon as a NaN is involved.\<close>

fun fle :: "pyfloat \<Rightarrow> pyfloat \<Rightarrow> bool" where
  "fle NaN _ = False"
| "fle _ NaN = False"
| "fle NegInf _ = True"
| "fle _ PosInf = True"
| "fle (Fin x) (Fin y) = (x \<le> y)"
| "fle _ _ = False"

fun flt :: "pyfloat \<Rightarrow> pyfloat \<Rightarrow> bool" where
  "flt NaN _ = False"
| "flt _ NaN = False"
| "flt NegInf NegInf = False"
| "flt NegInf _ = True"
| "flt PosInf _ = False"
| "flt (Fin x) (Fin y) = (x < y)"
| "flt (Fin _) PosInf = True"
| "flt (Fin _) NegInf = False"

section \<open>Rounding\<close>

text \<open>\<open>round(x)\<close>: to the nearest integer, ties to even.\<close>

definition round_half_even :: "real \<Rightarrow> int" where
  "round_half_even x =
     (let f = \<lfloor>x\<rfloor>; d = x - of_int f
      in if d < 1/2 then f else if d > 1/2 then f + 1 else if even f then f else f + 1)"

text \<open>\<open>round(x, n)\<close>\<close>

definition py_round :: "nat \<Rightarrow> real \<Rightarrow> real" where
  "py_round n x = of_int (round_half_even (x * 10 ^ n)) / 10 ^ n"

text \<open>\<open>int(x)\<close> cuts off towards zero.\<close>

definition py_int :: "real \<Rightarrow> int" where
  "py_int x = (if 0 \<le> x then \<lfloor>x\<rfloor> else \<lceil>x\<rceil>)"

text \<open>\<open>a or b\<close> on an optional float: \<open>None\<close> and \<open>0.0\<close> are falsy.\<close>

definition or_float :: "real option \<Rightarrow> real option \<Rightarrow> real option" where
  "or_float a b = (case a of None \<Rightarrow> b | Some x \<Rightarrow> if x = 0 then b else a)"

lemma round_half_even_bounds:
  "of_int (round_half_even x) \<le> x + 1/2" "x - 1/2 \<le> of_int (round_half_even x)"
proof -
  have f: "of_int \<lfloor>x\<rfloor> \<le> x" "x < of_int \<lfloor>x\<rfloor> + 1" by linarith+
  show "of_int (round_half_even x) \<le> x + 1/2" "x - 1/2 \<le> of_int (round_half_even x)"
    unfolding round_half_even_def Let_def using f by (auto split: if_split; linarith)+
qed

lemma round_half_even_of_int [simp]: "round_half_even (of_int k) = k"
  by (simp add: round_half_even_def)

lemma round_half_even_ge: "of_int k \<le> x \<Longrightarrow> k \<le> round_half_even x"
proof -
  assume "of_int k \<le> x"
  then have "k \<le> \<lfloor>x\<rfloor>" by (simp add: le_floor_iff)
  then show ?thesis unfolding round_half_even_def Let_def by auto
qed

lemma round_half_even_le:
  assumes "x \<le> of_int k" shows "round_half_even x \<le> k"
proof (cases "x = of_int k")
  case True
  then show ?thesis by simp
next
  case False
  with assms have "\<lfloor>x\<rfloor> < k" by (simp add: floor_less_iff)
  then show ?thesis unfolding round_half_even_def Let_def by auto
qed

lemma round_half_even_mono: "x \<le> y \<Longrightarrow> round_half_even x \<le> round_half_even y"
proof (cases "\<lfloor>x\<rfloor> = \<lfloor>y\<rfloor>")
  case True
  assume "x \<le> y"
  with True show ?thesis unfolding round_half_even_def Let_def by auto
next
  case False
  assume "x \<le> y"
  with False have "\<lfloor>x\<rfloor> + 1 \<le> \<lfloor>y\<rfloor>" by (meson floor_mono le_less zless_imp_add1_zle)
  then have "round_half_even x \<le> \<lfloor>y\<rfloor>" "\<lfloor>y\<rfloor> \<le> round_half_even y"
    unfolding round_half_even_def Let_def by auto
  then show ?thesis by simp
qed

lemma py_round_error: "\<bar>py_round n x - x\<bar> \<le> 1 / (2 * 10 ^ n)"
proof -
  have "\<bar>of_int (round_half_even (x * 10 ^ n)) - x * 10 ^ n\<bar> \<le> 1/2"
    using round_half_even_bounds [of "x * 10 ^ n"] by linarith
  then have "\<bar>of_int (round_half_even (x * 10 ^ n)) - x * 10 ^ n\<bar> / 10 ^ n \<le> (1/2) / 10 ^ n"
    by (intro divide_right_mono) auto
  moreover have "\<bar>of_int (round_half_even (x * 10 ^ n)) - x * 10 ^ n\<bar> / 10 ^ n =
      \<bar>py_round n x - x\<bar>"
    using abs_divide [of "of_int (round_half_even (x * 10 ^ n)) - x * 10 ^ n" "10 ^ n"]
    by (simp add: py_round_def diff_divide_distrib)
  ultimately show ?thesis by simp
qed

lemma py_round_mono: "x \<le> y \<Longrightarrow> py_round n x \<le> py_round n y"
  unfolding py_round_def
  by (intro divide_right_mono) (auto intro: round_half_even_mono mult_right_mono)

lemma py_round_0 [simp]: "py_round n 0 = 0"
  using round_half_even_of_int [of 0] by (simp add: py_round_def)

lemma py_round_1 [simp]: "py_round n 1 = 1"
  using round_half_even_of_int [of "10 ^ n"] by (simp add: py_round_def)

lemma py_round_nonneg: "0 \<le> x \<Longrightarrow> 0 \<le> py_round n x"
  using py_round_mono [of 0 x n] by simp

lemma py_round_le_1: "x \<le> 1 \<Longrightarrow> py_round n x \<le> 1"
  using py_round_mono [of x 1 n] by simp

lemma py_round_idem [simp]: "py_round n (py_round n x) = py_round n x"
  by (simp add: py_round_def)

lemma py_int_le: "0 \<le> x \<Longrightarrow> of_int (py_int x) \<le> x"
  by (simp add: py_int_def)

lemma py_int_nonneg: "0 \<le> x \<Longrightarrow> 0 \<le> py_int x"
  by (simp add: py_int_def)

section \<open>Decimal text\<close>

text \<open>\<open>str(n)\<close> of an integer.\<close>

definition digit_char :: "int \<Rightarrow> char" where
  "digit_char d = char_of (48 + d)"

function pos_digits :: "int \<Rightarrow> string" where
  "pos_digits k = (if k < 10 then [digit_char k] else pos_digits (k div 10) @ [digit_char (k mod 10)])"
  by pat_completeness auto
termination
  by (relation "measure nat") auto

declare pos_digits.simps [simp del]

definition str_int :: "int \<Rightarrow> string" where
  "str_int k = (if k < 0 then ''-'' @ pos_digits (- k) else pos_digits k)"

text \<open>Left padding with zeros, as in the formats \<open>:04d\<close> and \<open>:02d\<close>.\<close>

definition pad0 :: "nat \<Rightarrow> string \<Rightarrow> string" where
  "pad0 w s = replicate (w - length s) (CHR ''0'') @ s"

fun drop_zeros :: "string \<Rightarrow> string" where
  "drop_zeros [] = []"
| "drop_zeros (c # cs) = (if c = CHR ''0'' then drop_zeros cs else c # cs)"

definition strip_zeros :: "string \<Rightarrow> string" where
  "strip_zeros s = rev (drop_zeros (rev s))"

text \<open>
  The decimal exponent of a positive number: steps of a factor ten towards \<open>[1, 10)\<close>.
  A finite float has at most 324 such steps, so the fuel 400 of \<open>sig10\<close> is enough.
\<close>

fun norm10 :: "nat \<Rightarrow> real \<Rightarrow> int \<Rightarrow> real \<times> int" where
  "norm10 0 x e = (x, e)"
| "norm10 (Suc n) x e =
     (if 10 \<le> x then norm10 n (x / 10) (e + 1)
      else if x < 1 then norm10 n (x * 10) (e - 1) else (x, e))"

text \<open>Ten significant digits \<open>m\<close> and the exponent \<open>e\<close>, so \<open>x \<approx> m * 10 ^ (e - 9)\<close>.\<close>

definition sig10 :: "real \<Rightarrow> int \<times> int" where
  "sig10 x = (let (y, e) = norm10 400 x 0; m = round_half_even (y * 10 ^ 9)
              in if m = 10 ^ 10 then (10 ^ 9, e + 1) else (m, e))"

definition with_fraction :: "string \<Rightarrow> string \<Rightarrow> string" where
  "with_fraction i f = (let f' = strip_zeros f in if f' = [] then i else i @ ''.'' @ f')"

text \<open>\<open>f"{x:.10g}"\<close> on a finite float.\<close>

definition fmt_10g :: "real \<Rightarrow> string" where
  "fmt_10g x =
     (if x = 0 then ''0''
      else let (m, e) = sig10 \<bar>x\<bar>; ds = str_int m; sign = (if x < 0 then ''-'' else '''')
        in if - 4 \<le> e \<and> e < 10
           then (if 0 \<le> e
                 then sign @ with_fraction (take (nat e + 1) ds) (drop (nat e + 1) ds)
                 else sign @ with_fraction ''0'' (replicate (nat (- e) - 1) (CHR ''0'') @ ds))
           else sign @ with_fraction (take 1 ds) (drop 1 ds) @ ''e'' @
                (if e < 0 then ''-'' else ''+'') @ pad0 2 (str_int \<bar>e\<bar>))"

section \<open>Means\<close>

definition mean :: "real list \<Rightarrow> real" where
  "mean xs = sum_list xs / real (length xs)"

lemma sum_list_minus_const:
  "(\<Sum>x\<leftarrow>xs. f x - c) = (\<Sum>x\<leftarrow>xs. f x) - real (length xs) * (c::real)"
  by (induction xs) (auto simp: algebra_simps)

lemma sum_list_dev_mean: "xs \<noteq> [] \<Longrightarrow> (\<Sum>x\<leftarrow>xs. x - mean xs) = 0"
  using sum_list_minus_const [of "\<lambda>x. x" "mean xs" xs] by (simp add: mean_def)

lemma mean_le: "xs \<noteq> [] \<Longrightarrow> (\<And>x. x \<in> set xs \<Longrightarrow> x \<le> c) \<Longrightarrow> mean xs \<le> c"
proof -
  assume "xs \<noteq> []" and le: "\<And>x. x \<in> set xs \<Longrightarrow> x \<le> c"
  have "sum_list (map (\<lambda>x. x) xs) \<le> sum_list (map (\<lambda>_. c) xs)"
    using le by (intro sum_list_mono) auto
  then show ?thesis using \<open>xs \<noteq> []\<close>
    by (simp add: mean_def sum_list_triv divide_le_eq mult.commute)
qed

lemma mean_ge: "xs \<noteq> [] \<Longrightarrow> (\<And>x. x \<in> set xs \<Longrightarrow> c \<le> x) \<Longrightarrow> c \<le> mean xs"
proof -
  assume "xs \<noteq> []" and le: "\<And>x. x \<in> set xs \<Longrightarrow> c \<le> x"
  have "sum_list (map (\<lambda>_. c) xs) \<le> sum_list (map (\<lambda>x. x) xs)"
    using le by (intro sum_list_mono) auto
  then show ?thesis using \<open>xs \<noteq> []\<close>
    by (simp add: mean_def sum_list_triv le_divide_eq mult.commute)
qed

end
