(* ===== verification/Clock.thy ===== *)
theory Clock
  imports PyNum
begin

text \<open>
  \<open>packages/common/clock.py\<close>, \<open>packages/common/environment.py\<close> and
  \<open>packages/common/pit_store.py\<close>: timestamps, the injectable clock, environments and the
  point-in-time store. A \<open>datetime\<close> is an instant in microseconds since the epoch that
  is either timezone-aware or naive; \<open>datetime.now(timezone.utc)\<close> is an argument.
\<close>

section \<open>Timestamps\<close>

datatype pydt = Naive int | Aware int

type_synonym instant = int

fun ensure_utc :: "pydt \<Rightarrow> exn + instant" where
  "ensure_utc (Naive _) = Inl ValueError"
| "ensure_utc (Aware t) = Inr t"

definition seconds_us :: int where "seconds_us = 1000000"
definition minutes_us :: int where "minutes_us = 60 * 1000000"
definition days_us :: int where "days_us = 24 * 60 * 60 * 1000000"

text \<open>\<open>(a - b).total_seconds()\<close>\<close>

definition total_seconds :: "int \<Rightarrow> real" where
  "total_seconds d = of_int d / 1000000"

record event_times =
  et_event :: instant
  et_source :: instant
  et_received :: instant
  et_processed :: "instant option"

text \<open>\<open>EventTimes.__post_init__\<close>: the fields are normalised in the order of the loop.\<close>

definition mk_event_times ::
    "pydt \<Rightarrow> pydt \<Rightarrow> pydt \<Rightarrow> pydt option \<Rightarrow> exn + event_times" where
  "mk_event_times ev src rcv prc =
     (case ensure_utc ev of Inl e \<Rightarrow> Inl e | Inr ev' \<Rightarrow>
      case ensure_utc src of Inl e \<Rightarrow> Inl e | Inr src' \<Rightarrow>
      case ensure_utc rcv of Inl e \<Rightarrow> Inl e | Inr rcv' \<Rightarrow>
      case prc of
        None \<Rightarrow> Inr \<lparr>et_event = ev', et_source = src', et_received = rcv', et_processed = None\<rparr>
      | Some p \<Rightarrow>
          (case ensure_utc p of Inl e \<Rightarrow> Inl e | Inr p' \<Rightarrow>
             Inr \<lparr>et_event = ev', et_source = src', et_received = rcv', et_processed = Some p'\<rparr>))"

definition with_processed :: "event_times \<Rightarrow> pydt option \<Rightarrow> instant \<Rightarrow> exn + event_times" where
  "with_processed t a_t utcnow =
     mk_event_times (Aware (et_event t)) (Aware (et_source t)) (Aware (et_received t))
       (Some (case a_t of Some a \<Rightarrow> a | None \<Rightarrow> Aware utcnow))"

definition ingest_latency_sec :: "event_times \<Rightarrow> real" where
  "ingest_latency_sec t = total_seconds (et_received t - et_event t)"

definition is_future_leak :: "event_times \<Rightarrow> bool" where
  "is_future_leak t = (et_event t > et_received t)"

text \<open>\<open>FrozenClock\<close>; \<open>timedelta(seconds=s)\<close> rounds to microseconds.\<close>

definition frozen_now :: "pydt \<Rightarrow> exn + instant" where
  "frozen_now current = ensure_utc current"

definition frozen_advance :: "pydt \<Rightarrow> real \<Rightarrow> pydt" where
  "frozen_advance current s =
     (case current of
        Naive t \<Rightarrow> Naive (t + round_half_even (s * 1000000))
      | Aware t \<Rightarrow> Aware (t + round_half_even (s * 1000000)))"

text \<open>\<open>ensure_utc(at) if at else utcnow()\<close>\<close>

definition at_or_now :: "pydt option \<Rightarrow> instant \<Rightarrow> exn + instant" where
  "at_or_now a_t utcnow = (case a_t of None \<Rightarrow> Inr utcnow | Some d \<Rightarrow> ensure_utc d)"

text \<open>\<open>not s.strip()\<close>: only whitespace.\<close>

definition is_blank :: "string \<Rightarrow> bool" where
  "is_blank s = list_all (\<lambda>c. (of_char c :: nat) \<in> {9,10,11,12,13,28,29,30,31,32,133,160}) s"

lemma ensure_utc_Inr: "ensure_utc d = Inr t \<longleftrightarrow> d = Aware t"
  by (cases d) auto

section \<open>Environments\<close>

datatype environment = RESEARCH | PAPER | LIVE

fun env_value :: "environment \<Rightarrow> string" where
  "env_value RESEARCH = ''RESEARCH''"
| "env_value PAPER = ''PAPER''"
| "env_value LIVE = ''LIVE''"

definition is_live :: "environment \<Rightarrow> bool" where
  "is_live e = (e = LIVE)"

text \<open>\<open>str.lower\<close> on ASCII text.\<close>

definition lower_char :: "char \<Rightarrow> char" where
  "lower_char c = (if CHR ''A'' \<le> c \<and> c \<le> CHR ''Z'' then char_of (of_char c + (32::nat)) else c)"

definition str_lower :: "string \<Rightarrow> string" where
  "str_lower s = map lower_char s"

definition namespace :: "environment \<Rightarrow> string \<Rightarrow> string" where
  "namespace e table = str_lower (env_value e) @ ''_'' @ table"

text \<open>\<open>require_same_environment(first, *rest)\<close>\<close>

definition require_same_environment :: "environment list \<Rightarrow> exn + environment" where
  "require_same_environment envs =
     (if length (remdups envs) \<noteq> 1 then Inl EnvironmentMismatchError else Inr (hd envs))"

lemma require_same_environment_ok:
  "require_same_environment envs = Inr e \<longleftrightarrow> envs \<noteq> [] \<and> (\<forall>x \<in> set envs. x = e)"
proof -
  have "length (remdups envs) = card (set envs)" by (simp add: length_remdups_card_conv)
  moreover have "card (set envs) = 1 \<longleftrightarrow> (\<exists>x. set envs = {x})" by (auto simp: card_1_singleton_iff)
  ultimately show ?thesis
    by (cases envs) (auto simp: require_same_environment_def)
qed

text \<open>Table names of different environments never coincide.\<close>

lemma namespace_env: "str_lower (env_value e) =
    (case e of RESEARCH \<Rightarrow> ''research'' | PAPER \<Rightarrow> ''paper'' | LIVE \<Rightarrow> ''live'')"
proof (cases e)
  case RESEARCH
  show ?thesis unfolding RESEARCH by code_simp
next
  case PAPER
  show ?thesis unfolding PAPER by code_simp
next
  case LIVE
  show ?thesis unfolding LIVE by code_simp
qed

lemma namespace_inj: "namespace e t = namespace e' t' \<Longrightarrow> e = e' \<and> t = t'"
  unfolding namespace_def namespace_env by (cases e; cases e') simp_all

section \<open>Point-in-time store\<close>

record 'v pit_record =
  pit_key :: string
  pit_value :: 'v
  pit_event :: instant
  pit_received :: instant
  pit_source :: string

type_synonym 'v pit_store = "(string, 'v pit_record list) dict"

definition pit_put ::
    "'v pit_store \<Rightarrow> string \<Rightarrow> 'v \<Rightarrow> pydt \<Rightarrow> pydt \<Rightarrow> string \<Rightarrow> exn + 'v pit_store" where
  "pit_put st key v event_time received_time source =
     (case ensure_utc event_time of Inl e \<Rightarrow> Inl e | Inr ev \<Rightarrow>
      case ensure_utc received_time of Inl e \<Rightarrow> Inl e | Inr rcv \<Rightarrow>
      let r = \<lparr>pit_key = key, pit_value = v, pit_event = ev, pit_received = rcv, pit_source = source\<rparr>
      in Inr (dput st key (sort_key pit_received (dget_or st key [] @ [r]))))"

fun pit_scan :: "'v pit_record option \<Rightarrow> instant \<Rightarrow> 'v pit_record list \<Rightarrow> 'v pit_record option" where
  "pit_scan best as_of [] = best"
| "pit_scan best as_of (r # rs) =
     (if pit_received r \<le> as_of then pit_scan (Some r) as_of rs else best)"

definition get_as_of :: "'v pit_store \<Rightarrow> string \<Rightarrow> pydt \<Rightarrow> exn + 'v pit_record option" where
  "get_as_of st key as_of =
     (case ensure_utc as_of of Inl e \<Rightarrow> Inl e | Inr t \<Rightarrow> Inr (pit_scan None t (dget_or st key [])))"

definition pit_history :: "'v pit_store \<Rightarrow> string \<Rightarrow> 'v pit_record list" where
  "pit_history st key = dget_or st key []"

text \<open>Every list of a store is sorted by the time of receipt.\<close>

definition pit_inv :: "'v pit_store \<Rightarrow> bool" where
  "pit_inv st \<longleftrightarrow> (\<forall>k rs. dget st k = Some rs \<longrightarrow> sorted (map pit_received rs))"

lemma pit_inv_Nil [simp]: "pit_inv []"
  by (simp add: pit_inv_def)

lemma pit_inv_put: "pit_inv st \<Longrightarrow> pit_put st k v ev rc src = Inr st' \<Longrightarrow> pit_inv st'"
  by (auto simp: pit_inv_def pit_put_def Let_def dget_dput split: sum.splits if_splits)

lemma pit_inv_get_or: "pit_inv st \<Longrightarrow> sorted (map pit_received (dget_or st k []))"
  by (auto simp: pit_inv_def dget_or_def split: option.splits)

text \<open>On a sorted list the scan finds the last record received by \<open>as_of\<close>.\<close>

lemma pit_scan_sorted:
  assumes "sorted (map pit_received rs)"
  shows "pit_scan b t rs =
    (let vis = filter (\<lambda>r. pit_received r \<le> t) rs in if vis = [] then b else Some (last vis))"
  using assms
proof (induction rs arbitrary: b)
  case Nil
  then show ?case by simp
next
  case (Cons r rs)
  show ?case
  proof (cases "pit_received r \<le> t")
    case True
    then show ?thesis using Cons by (simp add: Let_def)
  next
    case False
    then have "filter (\<lambda>r. pit_received r \<le> t) rs = []"
      using Cons.prems by (auto simp: filter_empty_conv)
    with False show ?thesis by simp
  qed
qed

lemma filter_sort_key_commute: "filter P (sort_key f xs) = sort_key f (filter P xs)"
  by (simp add: filter_sort)

lemma pit_scan_later_put:
  assumes "sorted (map pit_received rs)" and "t < pit_received r"
  shows "pit_scan b t (sort_key pit_received (rs @ [r])) = pit_scan b t rs"
proof -
  have "filter (\<lambda>r. pit_received r \<le> t) (sort_key pit_received (rs @ [r])) =
      sort_key pit_received (filter (\<lambda>r. pit_received r \<le> t) rs)"
    using assms(2) by (simp add: filter_sort_key_commute)
  also have "\<dots> = filter (\<lambda>r. pit_received r \<le> t) rs"
    using assms(1) by (intro sort_key_id_if_sorted sorted_filter)
  finally show ?thesis
    using assms(1) by (simp add: pit_scan_sorted)
qed

end
