(* ===== verification/Schemas.thy ===== *)
theory Schemas
  imports Clock
begin

text \<open>
  \<open>packages/schemas/core.py\<close>, \<open>packages/schemas/audit.py\<close> and
  \<open>packages/schemas/capital_cell.py\<close>. A pydantic model is a record; constructing it runs
  the field constraints and the \<open>model_validator\<close>, and every failure of either is a
  \<open>ValidationError\<close>. Records that are parsed from outside (market data, AI output) have
  \<open>pyfloat\<close> fields before validation and real fields after it; records that the program
  builds itself hold reals, so \<open>allow_inf_nan=False\<close> is their type. \<open>sha256(...)\<close> in
  hex is a parameter.
\<close>

section \<open>Field constraints\<close>

fun fval :: "pyfloat \<Rightarrow> real" where
  "fval (Fin x) = x"
| "fval _ = 0"

definition gt0 :: "pyfloat \<Rightarrow> bool" where
  "gt0 f \<longleftrightarrow> isfinite f \<and> 0 < fval f"

definition in_unit :: "pyfloat \<Rightarrow> bool" where
  "in_unit f \<longleftrightarrow> isfinite f \<and> 0 \<le> fval f \<and> fval f \<le> 1"

lemma gt0_Fin [simp]: "gt0 (Fin x) \<longleftrightarrow> 0 < x"
  by (simp add: gt0_def)

lemma in_unit_Fin [simp]: "in_unit (Fin x) \<longleftrightarrow> 0 \<le> x \<and> x \<le> 1"
  by (simp add: in_unit_def)

lemma nan_rejected [simp]: "\<not> gt0 NaN" "\<not> in_unit NaN"
  by (simp_all add: gt0_def in_unit_def)

section \<open>Market data\<close>

record 'f bar =
  bar_symbol :: string
  bar_ts :: instant
  bar_open :: 'f
  bar_high :: 'f
  bar_low :: 'f
  bar_close :: 'f
  bar_volume :: int
  bar_vwap :: "'f option"
  bar_source :: string
  bar_version :: string

definition mk_bar :: "pyfloat bar \<Rightarrow> exn + real bar" where
  "mk_bar b =
     (if gt0 (bar_open b) \<and> gt0 (bar_high b) \<and> gt0 (bar_low b) \<and> gt0 (bar_close b)
         \<and> 0 \<le> bar_volume b \<and> (case bar_vwap b of None \<Rightarrow> True | Some w \<Rightarrow> gt0 w)
         \<and> (fle (bar_low b) (bar_open b) \<and> fle (bar_open b) (bar_high b)
            \<and> fle (bar_low b) (bar_close b) \<and> fle (bar_close b) (bar_high b))
      then Inr \<lparr>bar_symbol = bar_symbol b, bar_ts = bar_ts b, bar_open = fval (bar_open b),
                bar_high = fval (bar_high b), bar_low = fval (bar_low b),
                bar_close = fval (bar_close b), bar_volume = bar_volume b,
                bar_vwap = map_option fval (bar_vwap b), bar_source = bar_source b,
                bar_version = bar_version b\<rparr>
      else Inl ValidationError)"

definition bar_ok :: "real bar \<Rightarrow> bool" where
  "bar_ok b \<longleftrightarrow> 0 < bar_low b \<and> bar_low b \<le> bar_open b \<and> bar_open b \<le> bar_high b
     \<and> bar_low b \<le> bar_close b \<and> bar_close b \<le> bar_high b \<and> 0 \<le> bar_volume b"

lemma isfinite_Fin: "isfinite f \<longleftrightarrow> f = Fin (fval f)"
  by (cases f) auto

lemma fle_finite: "isfinite f \<Longrightarrow> isfinite g \<Longrightarrow> fle f g \<longleftrightarrow> fval f \<le> fval g"
  by (cases f; cases g) auto

lemma mk_bar_ok: "mk_bar b = Inr b' \<Longrightarrow> bar_ok b'"
  by (auto simp: mk_bar_def bar_ok_def gt0_def fle_finite split: if_splits)

record 'f quote =
  q_symbol :: string
  q_ts :: instant
  q_bid :: 'f
  q_ask :: 'f
  q_bid_size :: int
  q_ask_size :: int
  q_halted :: bool
  q_source :: string

definition mk_quote :: "pyfloat quote \<Rightarrow> exn + real quote" where
  "mk_quote q =
     (if gt0 (q_bid q) \<and> gt0 (q_ask q) \<and> 0 \<le> q_bid_size q \<and> 0 \<le> q_ask_size q
      then Inr \<lparr>q_symbol = q_symbol q, q_ts = q_ts q, q_bid = fval (q_bid q),
                q_ask = fval (q_ask q), q_bid_size = q_bid_size q, q_ask_size = q_ask_size q,
                q_halted = q_halted q, q_source = q_source q\<rparr>
      else Inl ValidationError)"

definition quote_mid :: "real quote \<Rightarrow> real" where
  "quote_mid q = (q_bid q + q_ask q) / 2"

definition quote_spread :: "real quote \<Rightarrow> real" where
  "quote_spread q = q_ask q - q_bid q"

definition quote_crossed :: "real quote \<Rightarrow> bool" where
  "quote_crossed q \<longleftrightarrow> q_ask q < q_bid q"

definition quote_ok :: "real quote \<Rightarrow> bool" where
  "quote_ok q \<longleftrightarrow> 0 < q_bid q \<and> 0 < q_ask q"

lemma mk_quote_ok: "mk_quote q = Inr q' \<Longrightarrow> quote_ok q'"
  by (auto simp: mk_quote_def quote_ok_def gt0_def split: if_splits)

lemma quote_mid_pos: "quote_ok q \<Longrightarrow> 0 < quote_mid q"
  by (simp add: quote_ok_def quote_mid_def)

section \<open>Decisions and proposals\<close>

datatype action = BUY | SELL

fun action_value :: "action \<Rightarrow> string" where
  "action_value BUY = ''BUY''"
| "action_value SELL = ''SELL''"

datatype decision_action = D_BUY | D_SELL | D_HOLD | D_WAIT | D_NO_TRADE | D_AVOID

definition is_order :: "decision_action \<Rightarrow> bool" where
  "is_order a \<longleftrightarrow> a \<in> {D_BUY, D_SELL}"

definition to_order_side :: "decision_action \<Rightarrow> exn + action" where
  "to_order_side a =
     (if \<not> is_order a then Inl ValueError else Inr (if a = D_BUY then BUY else SELL))"

record 'f scenario_case =
  sc_description :: string
  sc_target :: 'f
  sc_prob :: 'f

definition mk_scenario_case :: "pyfloat scenario_case \<Rightarrow> exn + real scenario_case" where
  "mk_scenario_case c =
     (if gt0 (sc_target c) \<and> in_unit (sc_prob c)
      then Inr \<lparr>sc_description = sc_description c, sc_target = fval (sc_target c),
                sc_prob = fval (sc_prob c)\<rparr>
      else Inl ValidationError)"

record 'f decision_output =
  do_symbol :: string
  do_action :: decision_action
  do_confidence :: 'f
  do_horizon :: string
  do_range :: "'f \<times> 'f"
  do_bull :: "'f scenario_case"
  do_base :: "'f scenario_case"
  do_bear :: "'f scenario_case"
  do_key_evidence :: "string list"
  do_counter_evidence :: "string list"
  do_risk_factors :: "string list"
  do_invalidation :: "string list"
  do_unknowns :: "string list"
  do_version :: string

definition mk_decision_output :: "pyfloat decision_output \<Rightarrow> exn + real decision_output" where
  "mk_decision_output d =
     (case (mk_scenario_case (do_bull d), mk_scenario_case (do_base d),
            mk_scenario_case (do_bear d)) of
        (Inr bull, Inr base, Inr bear) \<Rightarrow>
          (let (lo, hi) = do_range d; total_p = sc_prob bull + sc_prob base + sc_prob bear in
           if 1 \<le> length (do_symbol d) \<and> length (do_symbol d) \<le> 12 \<and> in_unit (do_confidence d)
              \<and> (isfinite lo \<and> isfinite hi) \<and> \<not> flt hi lo
              \<and> (99/100 \<le> total_p \<and> total_p \<le> 101/100)
           then Inr \<lparr>do_symbol = do_symbol d, do_action = do_action d,
                     do_confidence = fval (do_confidence d), do_horizon = do_horizon d,
                     do_range = (fval lo, fval hi), do_bull = bull, do_base = base,
                     do_bear = bear, do_key_evidence = do_key_evidence d,
                     do_counter_evidence = do_counter_evidence d,
                     do_risk_factors = do_risk_factors d, do_invalidation = do_invalidation d,
                     do_unknowns = do_unknowns d, do_version = do_version d\<rparr>
           else Inl ValidationError)
      | _ \<Rightarrow> Inl ValidationError)"

record skeptic_output =
  sk_symbol :: string
  sk_objections :: "string list"
  sk_severity :: real
  sk_veto :: bool
  sk_family :: string

datatype proposal_source = FROM_AI | FROM_HUMAN

record trade_proposal =
  tp_id :: string
  tp_symbol :: string
  tp_side :: action
  tp_source :: proposal_source
  tp_decision :: "real decision_output"
  tp_skeptic :: "skeptic_output option"
  tp_created :: instant

definition mk_trade_proposal :: "trade_proposal \<Rightarrow> exn + trade_proposal" where
  "mk_trade_proposal p =
     (if \<not> is_order (do_action (tp_decision p)) then Inl ValidationError
      else if to_order_side (do_action (tp_decision p)) \<noteq> Inr (tp_side p) then Inl ValidationError
      else Inr p)"

lemma mk_trade_proposal_iff:
  "mk_trade_proposal p = Inr p' \<longleftrightarrow> p' = p \<and>
     (do_action (tp_decision p) = D_BUY \<and> tp_side p = BUY \<or>
      do_action (tp_decision p) = D_SELL \<and> tp_side p = SELL)"
  by (cases "do_action (tp_decision p)"; cases "tp_side p")
     (auto simp: mk_trade_proposal_def is_order_def to_order_side_def)

record final_trade_thesis =
  th_id :: string
  th_decision_id :: string
  th_skeptic_id :: string
  th_disagreement :: real
  th_proposal :: trade_proposal
  th_created :: instant

definition mk_final_trade_thesis :: "final_trade_thesis \<Rightarrow> exn + final_trade_thesis" where
  "mk_final_trade_thesis t =
     (if th_decision_id t \<noteq> [] \<and> th_skeptic_id t \<noteq> []
         \<and> 0 \<le> th_disagreement t \<and> th_disagreement t \<le> 1
         \<and> tp_skeptic (th_proposal t) \<noteq> None
      then Inr t else Inl ValidationError)"

datatype stop_type = HARD | ATR | VOLATILITY | THESIS | FLOW | NEWS | TIME | TRAILING | PORTFOLIO_STOP

record stop_plan =
  sp_entry :: real
  sp_stop :: real
  sp_type :: stop_type
  sp_reason :: string
  sp_horizon :: string
  sp_thesis :: string
  sp_invalidation :: string
  sp_target :: real
  sp_gap :: real

definition mk_stop_plan :: "stop_plan \<Rightarrow> exn + stop_plan" where
  "mk_stop_plan p =
     (if 0 < sp_entry p \<and> 0 < sp_stop p \<and> sp_reason p \<noteq> [] \<and> sp_thesis p \<noteq> []
         \<and> sp_invalidation p \<noteq> [] \<and> 0 < sp_target p \<and> 0 \<le> sp_gap p \<and> sp_gap p \<le> 1
         \<and> \<not> sp_entry p \<le> sp_stop p
      then Inr p else Inl ValidationError)"

definition stop_distance :: "stop_plan \<Rightarrow> real" where
  "stop_distance p = sp_entry p - sp_stop p"

lemma mk_stop_plan_ok:
  "mk_stop_plan p = Inr p' \<Longrightarrow> p' = p \<and> 0 < sp_stop p \<and> sp_stop p < sp_entry p"
  by (auto simp: mk_stop_plan_def split: if_splits)

record sized_proposal =
  szp_proposal :: trade_proposal
  szp_plan :: stop_plan
  szp_qty :: real
  szp_risk :: real
  szp_notional :: real
  szp_confidence :: real
  szp_version :: string

definition mk_sized_proposal :: "sized_proposal \<Rightarrow> exn + sized_proposal" where
  "mk_sized_proposal p =
     (if 0 < szp_qty p \<and> 0 \<le> szp_risk p \<and> 0 < szp_notional p
         \<and> 0 \<le> szp_confidence p \<and> szp_confidence p \<le> 1
      then Inr p else Inl ValidationError)"

section \<open>Orders and risk approval\<close>

datatype order_state = CREATED | RISK_APPROVED | SUBMITTED | ACKNOWLEDGED | PARTIALLY_FILLED
  | FILLED | CANCEL_REQUESTED | CANCELLED | REJECTED | EXPIRED | UNKNOWN

datatype order_type = MARKET | LIMIT | STOP

fun order_type_value :: "order_type \<Rightarrow> string" where
  "order_type_value MARKET = ''MARKET''"
| "order_type_value LIMIT = ''LIMIT''"
| "order_type_value STOP = ''STOP''"

record order_intent =
  oi_id :: string
  oi_proposal :: string
  oi_symbol :: string
  oi_side :: action
  oi_qty :: real
  oi_type :: order_type
  oi_limit :: "real option"
  oi_stop :: "real option"
  oi_env :: environment
  oi_protective :: bool
  oi_created :: instant

definition opt_gt0 :: "real option \<Rightarrow> bool" where
  "opt_gt0 x = (case x of None \<Rightarrow> True | Some v \<Rightarrow> 0 < v)"

definition intent_ok :: "order_intent \<Rightarrow> bool" where
  "intent_ok i \<longleftrightarrow> 8 \<le> length (oi_id i) \<and> 0 < oi_qty i \<and> opt_gt0 (oi_limit i) \<and> opt_gt0 (oi_stop i)"

definition mk_order_intent :: "order_intent \<Rightarrow> exn + order_intent" where
  "mk_order_intent i = (if intent_ok i then Inr i else Inl ValidationError)"

text \<open>\<open>"|".join(...)\<close>\<close>

fun join_bar :: "string list \<Rightarrow> string" where
  "join_bar [] = []"
| "join_bar [s] = s"
| "join_bar (s # ss) = s @ CHR ''|'' # join_bar ss"

definition fmt_opt :: "real option \<Rightarrow> string" where
  "fmt_opt x = (case x of None \<Rightarrow> [] | Some v \<Rightarrow> fmt_10g v)"

definition canonical_order_payload ::
    "string \<Rightarrow> action \<Rightarrow> real \<Rightarrow> order_type \<Rightarrow> real option \<Rightarrow> real option \<Rightarrow> real option
      \<Rightarrow> string \<Rightarrow> string \<Rightarrow> string" where
  "canonical_order_payload symbol side qty otype limit_price stop_price take_profit tif cid =
     join_bar [symbol, action_value side, fmt_10g qty, order_type_value otype,
               fmt_opt limit_price, fmt_opt stop_price, fmt_opt take_profit, tif, cid]"

text \<open>The hash of an intent, with \<open>take_profit=None\<close> and \<open>time_in_force="DAY"\<close> as defaults.\<close>

definition order_payload :: "order_intent \<Rightarrow> real option \<Rightarrow> string \<Rightarrow> string" where
  "order_payload i take_profit tif =
     canonical_order_payload (oi_symbol i) (oi_side i) (oi_qty i) (oi_type i) (oi_limit i)
       (oi_stop i) take_profit tif (oi_id i)"

definition order_intent_hash :: "(string \<Rightarrow> string) \<Rightarrow> order_intent \<Rightarrow> string" where
  "order_intent_hash sha i = sha (order_payload i None ''DAY'')"

record risk_check =
  rc_name :: string
  rc_passed :: bool

record risk_approval =
  ap_id :: string
  ap_cid :: string
  ap_symbol :: string
  ap_side :: action
  ap_qty :: real
  ap_hash :: string
  ap_checks :: "risk_check list"
  ap_state :: string
  ap_at :: instant
  ap_sig :: string

record risk_rejection =
  rj_cid :: string
  rj_checks :: "risk_check list"
  rj_reasons :: "string list"
  rj_at :: instant

record approved_order =
  ao_intent :: order_intent
  ao_approval :: risk_approval

definition mk_approved_order ::
    "(string \<Rightarrow> string) \<Rightarrow> order_intent \<Rightarrow> risk_approval \<Rightarrow> exn + approved_order" where
  "mk_approved_order sha i a =
     (if (ap_cid a, ap_symbol a, ap_side a, ap_qty a) \<noteq> (oi_id i, oi_symbol i, oi_side i, oi_qty i)
      then Inl ValidationError
      else if ap_hash a \<noteq> order_intent_hash sha i then Inl ValidationError
      else Inr \<lparr>ao_intent = i, ao_approval = a\<rparr>)"

section \<open>The broker layer\<close>

record broker_request =
  br_cid :: string
  br_symbol :: string
  br_side :: action
  br_qty :: real
  br_type :: order_type
  br_limit :: "real option"
  br_stop :: "real option"

definition mk_broker_request :: "broker_request \<Rightarrow> exn + broker_request" where
  "mk_broker_request r = (if 0 < br_qty r then Inr r else Inl ValidationError)"

record broker_ack =
  ack_cid :: string
  ack_broker_id :: string
  ack_accepted :: bool

record broker_fill =
  bf_id :: string
  bf_cid :: string
  bf_symbol :: string
  bf_side :: action
  bf_qty :: real
  bf_price :: real
  bf_fees :: real
  bf_ts :: instant

definition mk_broker_fill :: "broker_fill \<Rightarrow> exn + broker_fill" where
  "mk_broker_fill f =
     (if 0 < bf_qty f \<and> 0 < bf_price f \<and> 0 \<le> bf_fees f then Inr f else Inl ValidationError)"

record broker_status =
  bs_cid :: string
  bs_broker_id :: string
  bs_state :: order_state
  bs_filled :: real
  bs_remaining :: real

record broker_position =
  bp_symbol :: string
  bp_qty :: real
  bp_avg :: real

definition mk_broker_position :: "broker_position \<Rightarrow> exn + broker_position" where
  "mk_broker_position p = (if 0 \<le> bp_avg p then Inr p else Inl ValidationError)"

record broker_cash =
  bc_settled :: real
  bc_unsettled :: real

definition mk_broker_cash :: "real \<Rightarrow> real \<Rightarrow> exn + broker_cash" where
  "mk_broker_cash s u =
     (if 0 \<le> s \<and> 0 \<le> u then Inr \<lparr>bc_settled = s, bc_unsettled = u\<rparr> else Inl ValidationError)"

definition buying_power :: "broker_cash \<Rightarrow> real" where
  "buying_power b = bc_settled b"

section \<open>The approved order snapshot\<close>

record order_snapshot =
  ss_cid :: string
  ss_intent_id :: string
  ss_symbol :: string
  ss_side :: action
  ss_qty :: real
  ss_type :: order_type
  ss_limit :: "real option"
  ss_stop :: "real option"
  ss_take_profit :: "real option"
  ss_tif :: string
  ss_strategy :: string
  ss_decision :: string
  ss_skeptic :: string
  ss_approval :: string
  ss_audit :: string
  ss_created :: instant
  ss_hash :: string

definition compute_hash ::
    "(string \<Rightarrow> string) \<Rightarrow> string \<Rightarrow> action \<Rightarrow> real \<Rightarrow> order_type \<Rightarrow> real option \<Rightarrow> real option
      \<Rightarrow> real option \<Rightarrow> string \<Rightarrow> string \<Rightarrow> string" where
  "compute_hash sha symbol side qty otype limit_price stop_price take_profit tif cid =
     sha (canonical_order_payload symbol side qty otype limit_price stop_price take_profit tif cid)"

definition from_approved ::
    "(string \<Rightarrow> string) \<Rightarrow> approved_order \<Rightarrow> string \<Rightarrow> string \<Rightarrow> real option \<Rightarrow> string \<Rightarrow> string
      \<Rightarrow> instant option \<Rightarrow> exn + order_snapshot" where
  "from_approved sha order decision_id audit_id take_profit strategy_id skeptic_id a_t =
     (let i = ao_intent order;
          h = compute_hash sha (oi_symbol i) (oi_side i) (oi_qty i) (oi_type i) (oi_limit i)
                (oi_stop i) take_profit ''DAY'' (oi_id i)
      in if 0 < oi_qty i
         then Inr \<lparr>ss_cid = oi_id i, ss_intent_id = oi_proposal i, ss_symbol = oi_symbol i,
                ss_side = oi_side i, ss_qty = oi_qty i, ss_type = oi_type i,
                ss_limit = oi_limit i, ss_stop = oi_stop i, ss_take_profit = take_profit,
                ss_tif = ''DAY'', ss_strategy = strategy_id, ss_decision = decision_id,
                ss_skeptic = skeptic_id, ss_approval = ap_id (ao_approval order),
                ss_audit = audit_id,
                ss_created = (case a_t of None \<Rightarrow> oi_created i | Some t \<Rightarrow> t), ss_hash = h\<rparr>
         else Inl ValidationError)"

definition matches_intent :: "(string \<Rightarrow> string) \<Rightarrow> order_snapshot \<Rightarrow> order_intent \<Rightarrow> bool" where
  "matches_intent sha s i =
     (compute_hash sha (oi_symbol i) (oi_side i) (oi_qty i) (oi_type i) (oi_limit i) (oi_stop i)
        (ss_take_profit s) (ss_tif s) (oi_id i) = ss_hash s)"

lemma from_approved_matches:
  "from_approved sha order d a tp st sk t = Inr s \<Longrightarrow> matches_intent sha s (ao_intent order)"
  by (auto simp: from_approved_def matches_intent_def Let_def split: if_splits)

section \<open>Audit verdicts\<close>

datatype audit_verdict = PASS | REJECT | REVIEW

section \<open>Capital cells\<close>

datatype cell_status = ACTIVE | PAUSED | RETIRED

record capital_cell =
  cc_id :: string
  cc_name :: string
  cc_hypothesis :: string
  cc_status :: cell_status

definition mk_capital_cell :: "capital_cell \<Rightarrow> exn + capital_cell" where
  "mk_capital_cell c =
     (if cc_id c \<noteq> [] \<and> cc_name c \<noteq> [] \<and> cc_hypothesis c \<noteq> [] then Inr c
      else Inl ValidationError)"

record cell_intent =
  ci_id :: string
  ci_cell :: string
  ci_symbol :: string
  ci_side :: action
  ci_qty :: real
  ci_created :: instant

definition cell_intent_ok :: "cell_intent \<Rightarrow> bool" where
  "cell_intent_ok i \<longleftrightarrow> ci_id i \<noteq> [] \<and> ci_cell i \<noteq> [] \<and> ci_symbol i \<noteq> [] \<and> 0 < ci_qty i"

definition mk_cell_intent :: "cell_intent \<Rightarrow> exn + cell_intent" where
  "mk_cell_intent i = (if cell_intent_ok i then Inr i else Inl ValidationError)"

datatype stop_scope = CELL | SYMBOL | PORTFOLIO

record cell_stop_plan =
  cs_id :: string
  cs_cell :: string
  cs_symbol :: string
  cs_price :: real
  cs_scope :: stop_scope
  cs_reason :: string

definition mk_cell_stop_plan :: "cell_stop_plan \<Rightarrow> exn + cell_stop_plan" where
  "mk_cell_stop_plan p =
     (if cs_id p \<noteq> [] \<and> cs_cell p \<noteq> [] \<and> cs_symbol p \<noteq> [] \<and> 0 < cs_price p \<and> cs_reason p \<noteq> []
      then Inr p else Inl ValidationError)"

end
