(* ===== verification/LongOnlyBook.thy ===== *)
theory LongOnlyBook
  imports Schemas
begin

text \<open>
  The interface that the master ledger and a capital cell's virtual ledger share: a book of
  cash and long positions that is changed by fills. The laws are what both classes promise
  (\<open>packages/common/ledger.py\<close>, \<open>services/capital_cells/ledger.py\<close>); the lemmas are
  what their clients use. Both classes are interpretations.
\<close>

section \<open>Position lots\<close>

record lot =
  lot_symbol :: string
  lot_qty :: real
  lot_cost :: real

type_synonym lots = "(string, lot) dict"

text \<open>\<open>position_qty\<close>\<close>

definition qty_of :: "lots \<Rightarrow> string \<Rightarrow> real" where
  "qty_of ps sy = (case dget ps sy of None \<Rightarrow> 0 | Some l \<Rightarrow> lot_qty l)"

definition cost_basis :: "lots \<Rightarrow> real" where
  "cost_basis ps = dsum (\<lambda>l. lot_qty l * lot_cost l) ps"

text \<open>Lots are stored under their symbol, hold more than the dust the code removes, and cost nothing negative.\<close>

definition lots_ok :: "lots \<Rightarrow> bool" where
  "lots_ok ps \<longleftrightarrow> dict_ok ps \<and>
     (\<forall>k l. dget ps k = Some l \<longrightarrow> lot_symbol l = k \<and> 0 < lot_qty l \<and> 0 \<le> lot_cost l)"

lemma lots_ok_Nil [simp]: "lots_ok []"
  by (simp add: lots_ok_def)

lemma lots_ok_dict [dest]: "lots_ok ps \<Longrightarrow> dict_ok ps"
  by (simp add: lots_ok_def)

lemma lots_okD:
  assumes "lots_ok ps" and "dget ps k = Some l"
  shows "lot_symbol l = k" "0 < lot_qty l" "0 \<le> lot_cost l"
  using assms by (auto simp: lots_ok_def)

lemma lots_ok_dput:
  "lots_ok ps \<Longrightarrow> lot_symbol l = k \<Longrightarrow> 0 < lot_qty l \<Longrightarrow> 0 \<le> lot_cost l \<Longrightarrow> lots_ok (dput ps k l)"
  by (auto simp: lots_ok_def dict_simps)

lemma lots_ok_ddel: "lots_ok ps \<Longrightarrow> lots_ok (ddel ps k)"
  by (auto simp: lots_ok_def dict_simps)

lemma qty_of_nonneg: "lots_ok ps \<Longrightarrow> 0 \<le> qty_of ps sy"
  by (auto simp: qty_of_def lots_ok_def less_imp_le split: option.splits)

lemma qty_of_dput [dict_simps]: "qty_of (dput ps k l) sy = (if sy = k then lot_qty l else qty_of ps sy)"
  by (simp add: qty_of_def dict_simps)

lemma qty_of_ddel [dict_simps]: "qty_of (ddel ps k) sy = (if sy = k then 0 else qty_of ps sy)"
  by (simp add: qty_of_def dict_simps)

text \<open>
  The part of \<open>record_fill\<close> and \<open>_apply_fill\<close> that computes the new lot: the first six
  statements are the same in both classes. The result is the realised profit and the new lot,
  \<open>None\<close> where the position is removed.
\<close>

definition fill_lot ::
    "exn \<Rightarrow> lot option \<Rightarrow> string \<Rightarrow> real \<Rightarrow> real \<Rightarrow> exn + real \<times> lot option" where
  "fill_lot short_error l sy side_qty price =
     (if 0 < side_qty then
        (let held = (case l of None \<Rightarrow> 0 | Some l \<Rightarrow> lot_qty l);
             basis = (case l of None \<Rightarrow> 0 | Some l \<Rightarrow> lot_qty l * lot_cost l);
             new_qty = held + side_qty
         in if new_qty = 0 then Inl ZeroDivisionError
            else Inr (0, Some \<lparr>lot_symbol = sy, lot_qty = new_qty,
                               lot_cost = (basis + side_qty * price) / new_qty\<rparr>))
      else
        (let sell_qty = - side_qty in
         case l of
           None \<Rightarrow> Inl short_error
         | Some l \<Rightarrow>
             if lot_qty l + eps < sell_qty then Inl short_error
             else let remaining = lot_qty l - sell_qty in
               Inr ((price - lot_cost l) * sell_qty,
                    if remaining \<le> eps then None
                    else Some \<lparr>lot_symbol = sy, lot_qty = remaining, lot_cost = lot_cost l\<rparr>)))"

definition put_lot :: "lots \<Rightarrow> string \<Rightarrow> lot option \<Rightarrow> lots" where
  "put_lot ps sy nl = (case nl of None \<Rightarrow> ddel ps sy | Some l \<Rightarrow> dput ps sy l)"

text \<open>What a sale leaves behind when it removes the position: at most the tolerance.\<close>

definition dust_of :: "lots \<Rightarrow> string \<Rightarrow> real \<Rightarrow> real" where
  "dust_of ps sy side_qty =
     (let r = qty_of ps sy + side_qty in if side_qty \<le> 0 \<and> r \<le> eps then r else 0)"

text \<open>The three ways in which the lot computation succeeds.\<close>

lemma fill_lot_cases:
  assumes "lots_ok ps" and "fill_lot e (dget ps sy) sy q price = Inr (realized, nl)"
  obtains (open_lot) "0 < q" "dget ps sy = None" "realized = 0" "dust_of ps sy q = 0"
      "nl = Some \<lparr>lot_symbol = sy, lot_qty = q, lot_cost = price\<rparr>"
  | (add_lot) l where "0 < q" "dget ps sy = Some l" "realized = 0" "dust_of ps sy q = 0"
      "0 < lot_qty l" "0 \<le> lot_cost l"
      "nl = Some \<lparr>lot_symbol = sy, lot_qty = lot_qty l + q,
                  lot_cost = (lot_qty l * lot_cost l + q * price) / (lot_qty l + q)\<rparr>"
  | (remove_lot) l where "q \<le> 0" "dget ps sy = Some l" "realized = (lot_cost l - price) * q"
      "0 < lot_qty l" "0 \<le> lot_cost l" "nl = None"
      "dust_of ps sy q = lot_qty l + q" "lot_qty l + q \<le> eps" "- eps \<le> lot_qty l + q"
  | (reduce_lot) l where "q \<le> 0" "dget ps sy = Some l" "realized = (lot_cost l - price) * q"
      "0 < lot_qty l" "0 \<le> lot_cost l" "dust_of ps sy q = 0" "eps < lot_qty l + q"
      "nl = Some \<lparr>lot_symbol = sy, lot_qty = lot_qty l + q, lot_cost = lot_cost l\<rparr>"
proof (cases "dget ps sy")
  case None
  show ?thesis
  proof (cases "0 < q")
    case True
    with None assms(2) show ?thesis
      by (intro open_lot) (auto simp: fill_lot_def Let_def dust_of_def)
  next
    case False
    with None assms(2) show ?thesis by (simp add: fill_lot_def Let_def)
  qed
next
  case (Some l)
  with assms(1) have l: "0 < lot_qty l" "0 \<le> lot_cost l" by (auto dest: lots_okD)
  show ?thesis
  proof (cases "0 < q")
    case True
    with Some l assms(2) show ?thesis
      by (intro add_lot [of l]) (auto simp: fill_lot_def Let_def dust_of_def)
  next
    case False
    note sell = this
    from sell Some assms(2) have ge: "- eps \<le> lot_qty l + q"
      by (simp add: fill_lot_def Let_def split: if_splits)
    have r: "realized = (lot_cost l - price) * q"
      using sell Some assms(2) by (auto simp: fill_lot_def Let_def algebra_simps split: if_splits)
    show ?thesis
    proof (cases "lot_qty l + q \<le> eps")
      case True
      with sell Some assms(2) have "nl = None"
        by (simp add: fill_lot_def Let_def split: if_splits)
      moreover have "dust_of ps sy q = lot_qty l + q"
        using sell True Some by (simp add: dust_of_def qty_of_def)
      ultimately show ?thesis using sell Some l r True ge
        by (intro remove_lot [of l]) auto
    next
      case False
      with sell Some assms(2)
      have "nl = Some \<lparr>lot_symbol = sy, lot_qty = lot_qty l + q, lot_cost = lot_cost l\<rparr>"
        by (simp add: fill_lot_def Let_def split: if_splits)
      moreover have "dust_of ps sy q = 0"
        using False Some by (simp add: dust_of_def qty_of_def Let_def)
      ultimately show ?thesis using sell Some l r False
        by (intro reduce_lot [of l]) auto
    qed
  qed
qed

lemma put_lot_simps [simp]:
  "put_lot ps sy None = ddel ps sy"
  "put_lot ps sy (Some l) = dput ps sy l"
  by (simp_all add: put_lot_def)

lemma fill_lot_ok:
  assumes ok: "lots_ok ps" and "0 \<le> price"
    and fill: "fill_lot e (dget ps sy) sy q price = Inr (realized, nl)"
  shows "lots_ok (put_lot ps sy nl)"
proof (rule fill_lot_cases [OF ok fill])
qed (use assms(2) ok eps_pos(1) in \<open>auto intro!: lots_ok_dput lots_ok_ddel
       intro: less_trans [OF eps_pos(1)]\<close>)

lemma fill_lot_qty:
  assumes ok: "lots_ok ps" and fill: "fill_lot e (dget ps sy) sy q price = Inr (realized, nl)"
  shows "qty_of (put_lot ps sy nl) sy = qty_of ps sy + q - dust_of ps sy q"
  by (rule fill_lot_cases [OF ok fill]) (simp_all add: dict_simps qty_of_def)

lemma fill_lot_qty_other:
  "fill_lot e (dget ps sy) sy q price = Inr (realized, nl) \<Longrightarrow> s \<noteq> sy \<Longrightarrow>
    qty_of (put_lot ps sy nl) s = qty_of ps s"
  by (simp add: put_lot_def dict_simps split: option.splits)

lemma fill_lot_short:
  "fill_lot e (dget ps sy) sy q price = Inr (realized, nl) \<Longrightarrow> q \<le> 0 \<Longrightarrow>
    - q \<le> qty_of ps sy + eps"
  by (auto simp: fill_lot_def Let_def qty_of_def split: option.splits if_splits)

lemma dust_of_bound:
  assumes ok: "lots_ok ps" and fill: "fill_lot e (dget ps sy) sy q price = Inr (realized, nl)"
  shows "\<bar>dust_of ps sy q\<bar> \<le> eps"
  by (rule fill_lot_cases [OF ok fill]) (auto simp: abs_le_iff)

text \<open>A fill is accepted by the lot computation exactly when it does not sell short.\<close>

lemma fill_lot_succeeds_iff:
  assumes "lots_ok ps"
  shows "(\<exists>r. fill_lot e (dget ps sy) sy q price = Inr r) \<longleftrightarrow>
    0 < q \<or> (dget ps sy \<noteq> None \<and> - q \<le> qty_of ps sy + eps)"
  using assms
  by (cases "dget ps sy") (auto simp: fill_lot_def Let_def qty_of_def dest!: lots_okD(2))

lemma fill_lot_error:
  assumes "lots_ok ps" and "fill_lot e (dget ps sy) sy q price = Inl x"
  shows "x = e"
  using assms
  by (auto simp: fill_lot_def Let_def split: option.splits if_splits dest!: lots_okD(2))

text \<open>Cost basis: a purchase adds its value, a sale takes out the value it realises less its profit.\<close>

lemma fill_lot_basis:
  assumes ok: "lots_ok ps" and fill: "fill_lot e (dget ps sy) sy q price = Inr (realized, nl)"
  shows "cost_basis (put_lot ps sy nl) = cost_basis ps + q * price + realized
    - dust_of ps sy q * (case dget ps sy of None \<Rightarrow> 0 | Some l \<Rightarrow> lot_cost l)"
proof (rule fill_lot_cases [OF ok fill])
  fix l
  assume l: "0 < q" "0 < lot_qty l" "dget ps sy = Some l" "dust_of ps sy q = 0" "realized = 0"
    and nl: "nl = Some \<lparr>lot_symbol = sy, lot_qty = lot_qty l + q,
                  lot_cost = (lot_qty l * lot_cost l + q * price) / (lot_qty l + q)\<rparr>"
  from l have "lot_qty l + q \<noteq> 0" by linarith
  then have "(lot_qty l + q) * ((lot_qty l * lot_cost l + q * price) / (lot_qty l + q)) =
      lot_qty l * lot_cost l + q * price" by simp
  with l nl show ?thesis by (simp add: cost_basis_def dsum_dput)
qed (use lots_ok_dict [OF ok] in
      \<open>auto simp: cost_basis_def dsum_dput dsum_ddel algebra_simps\<close>)

section \<open>The interface\<close>

text \<open>
  \<open>fill s sy q p f\<close> is the book after a fill of \<open>q\<close> shares (negative: a sale) at price
  \<open>p\<close> with fees \<open>f\<close>, \<open>None\<close> where the class raises.
\<close>

text \<open>The legs of a batch: a symbol, a signed quantity, a price and fees.\<close>

definition sale_leg :: "string \<times> real \<times> real \<times> real \<Rightarrow> bool" where
  "sale_leg x = (case x of (sy, q, p, f) \<Rightarrow> 2 * eps < - q \<and> 0 \<le> p \<and> 0 \<le> f \<and> f \<le> - q * p)"

definition purchase_leg :: "string \<times> real \<times> real \<times> real \<Rightarrow> bool" where
  "purchase_leg x = (case x of (sy, q, p, f) \<Rightarrow> 0 < q \<and> 0 \<le> p \<and> 0 \<le> f)"

locale long_only_book =
  fixes inv :: "'s \<Rightarrow> bool"
    and cash :: "'s \<Rightarrow> real"
    and held :: "'s \<Rightarrow> string \<Rightarrow> real"
    and has_lot :: "'s \<Rightarrow> string \<Rightarrow> bool"
    and fill :: "'s \<Rightarrow> string \<Rightarrow> real \<Rightarrow> real \<Rightarrow> real \<Rightarrow> 's option"
  assumes inv_cash: "inv s \<Longrightarrow> - eps \<le> cash s"
    and inv_held: "inv s \<Longrightarrow> 0 \<le> held s sy"
    and fill_inv: "inv s \<Longrightarrow> 0 \<le> p \<Longrightarrow> 0 \<le> f \<Longrightarrow> fill s sy q p f = Some s' \<Longrightarrow> inv s'"
    and fill_cash: "fill s sy q p f = Some s' \<Longrightarrow> cash s' = cash s - q * p - f"
    and fill_held: "inv s \<Longrightarrow> fill s sy q p f = Some s' \<Longrightarrow>
      \<bar>held s' sy - (held s sy + q)\<bar> \<le> eps"
    and fill_exact: "inv s \<Longrightarrow> fill s sy q p f = Some s' \<Longrightarrow>
      0 < q \<or> eps < held s sy + q \<or> held s sy + q = 0 \<Longrightarrow> held s' sy = held s sy + q"
    and fill_other: "fill s sy q p f = Some s' \<Longrightarrow> t \<noteq> sy \<Longrightarrow> held s' t = held s t"
    and fill_long: "fill s sy q p f = Some s' \<Longrightarrow> - q \<le> held s sy + eps \<or> 0 < q"
    and fill_succeeds: "inv s \<Longrightarrow> 0 \<le> f \<Longrightarrow>
      0 < q \<or> (has_lot s sy \<and> - q \<le> held s sy + eps) \<Longrightarrow>
      q * p + f \<le> cash s + eps \<Longrightarrow> \<exists>s'. fill s sy q p f = Some s'"
    and held_lot: "inv s \<Longrightarrow> 0 < held s sy \<Longrightarrow> has_lot s sy"
    and fill_paid: "0 \<le> f \<Longrightarrow> fill s sy q p f = Some s' \<Longrightarrow> q * p + f \<le> cash s + eps"
begin

text \<open>A sequence of fills, as a client books them, stopping at the first one that is refused.\<close>

fun fill_all :: "(string \<times> real \<times> real \<times> real) list \<Rightarrow> 's \<Rightarrow> 's option" where
  "fill_all [] s = Some s"
| "fill_all ((sy, q, p, f) # xs) s =
     (case fill s sy q p f of None \<Rightarrow> None | Some s' \<Rightarrow> fill_all xs s')"

lemma fill_all_inv:
  "inv s \<Longrightarrow> (\<And>sy q p f. (sy, q, p, f) \<in> set xs \<Longrightarrow> 0 \<le> p \<and> 0 \<le> f) \<Longrightarrow>
    fill_all xs s = Some s' \<Longrightarrow> inv s'"
proof (induction xs arbitrary: s)
  case Nil
  then show ?case by simp
next
  case (Cons x xs)
  obtain sy q p f where x: "x = (sy, q, p, f)" by (cases x)
  with Cons.prems(2) have pf: "0 \<le> p" "0 \<le> f" by auto
  from Cons.prems(3) x obtain t where t: "fill s sy q p f = Some t" "fill_all xs t = Some s'"
    by (auto split: option.splits)
  have "inv t" by (rule fill_inv [OF Cons.prems(1) pf t(1)])
  moreover have "\<And>sy q p f. (sy, q, p, f) \<in> set xs \<Longrightarrow> 0 \<le> p \<and> 0 \<le> f"
    using Cons.prems(2) by auto
  ultimately show ?case using Cons.IH t(2) by blast
qed

lemma fill_all_cash:
  "fill_all xs s = Some s' \<Longrightarrow>
    cash s' = cash s - (\<Sum>(sy, q, p, f)\<leftarrow>xs. q * p + f)"
proof (induction xs arbitrary: s)
  case Nil
  then show ?case by simp
next
  case (Cons x xs)
  obtain sy q p f where x: "x = (sy, q, p, f)" by (cases x)
  from Cons.prems x obtain t where t: "fill s sy q p f = Some t" "fill_all xs t = Some s'"
    by (auto split: option.splits)
  show ?case using Cons.IH [OF t(2)] fill_cash [OF t(1)] x by simp
qed

text \<open>The drift of a position against the sum of its fills is at most one tolerance per fill.\<close>

lemma fill_all_held:
  "inv s \<Longrightarrow> (\<And>sy q p f. (sy, q, p, f) \<in> set xs \<Longrightarrow> 0 \<le> p \<and> 0 \<le> f) \<Longrightarrow>
    fill_all xs s = Some s' \<Longrightarrow>
    \<bar>held s' t - (held s t + (\<Sum>(sy, q, p, f)\<leftarrow>xs. if sy = t then q else 0))\<bar>
      \<le> real (length xs) * eps"
proof (induction xs arbitrary: s)
  case Nil
  then show ?case by simp
next
  case (Cons x xs)
  obtain sy q p f where x: "x = (sy, q, p, f)" by (cases x)
  with Cons.prems(2) have pf: "0 \<le> p" "0 \<le> f" by auto
  from Cons.prems(3) x obtain u where u: "fill s sy q p f = Some u" "fill_all xs u = Some s'"
    by (auto split: option.splits)
  have "inv u" by (rule fill_inv [OF Cons.prems(1) pf u(1)])
  moreover have "\<And>sy q p f. (sy, q, p, f) \<in> set xs \<Longrightarrow> 0 \<le> p \<and> 0 \<le> f"
    using Cons.prems(2) by auto
  ultimately have IH: "\<bar>held s' t - (held u t + (\<Sum>(sy, q, p, f)\<leftarrow>xs. if sy = t then q else 0))\<bar>
      \<le> real (length xs) * eps" using Cons.IH u(2) by blast
  have step: "\<bar>held u t - (held s t + (if sy = t then q else 0))\<bar> \<le> eps"
    using fill_held [OF Cons.prems(1) u(1)] fill_other [OF u(1)] by (cases "sy = t") auto
  have "(\<Sum>(sy, q, p, f)\<leftarrow>x # xs. if sy = t then q else 0) =
      (if sy = t then q else 0) + (\<Sum>(sy, q, p, f)\<leftarrow>xs. if sy = t then q else 0)"
    using x by simp
  moreover have "real (length (x # xs)) * eps = real (length xs) * eps + eps"
    by (simp add: algebra_simps)
  ultimately show ?case using IH step by linarith
qed

text \<open>Buying and selling the same quantity at the same price costs the fees and nothing else.\<close>

lemma buy_then_sell:
  assumes "inv s" and "0 < q" and "0 \<le> p" "0 \<le> f" "0 \<le> g"
    and "fill s sy q p f = Some t" and "fill t sy (- q) p g = Some u"
    and "eps < held s sy \<or> held s sy = 0"
  shows "cash u = cash s - f - g" and "held u sy = held s sy"
proof -
  show "cash u = cash s - f - g"
    using fill_cash [OF assms(6)] fill_cash [OF assms(7)] by simp
  have t: "held t sy = held s sy + q" by (rule fill_exact [OF assms(1,6)]) (use assms(2) in simp)
  have "inv t" by (rule fill_inv [OF assms(1,3,4,6)])
  from fill_exact [OF this assms(7)] t assms(8) show "held u sy = held s sy" by auto
qed

text \<open>
  A batch of sales goes through when each of them is more than twice the tolerance, together
  they sell no more than is held, and none costs more in fees than it earns.
\<close>

definition sold :: "(string \<times> real \<times> real \<times> real) list \<Rightarrow> string \<Rightarrow> real" where
  "sold xs t = (\<Sum>(sy, q, p, f)\<leftarrow>xs. if sy = t then - q else 0)"

lemma sold_Cons: "sold ((sy, q, p, f) # xs) t = (if sy = t then - q else 0) + sold xs t"
  by (simp add: sold_def)

lemma sold_cases: "\<forall>x \<in> set xs. sale_leg x \<Longrightarrow> sold xs t = 0 \<or> 2 * eps < sold xs t"
proof (induction xs)
  case Nil
  then show ?case by (simp add: sold_def)
next
  case (Cons x xs)
  obtain sy q p f where x: "x = (sy, q, p, f)" by (cases x)
  from Cons have v: "sold xs t = 0 \<or> 2 * eps < sold xs t" "2 * eps < - q"
    by (auto simp: x sale_leg_def)
  have "2 * eps < sold xs t - q" if "2 * eps < sold xs t" using that v(2) eps_pos(1) by linarith
  with v show ?case by (auto simp: x sold_Cons)
qed

lemma sells_succeed:
  "inv s \<Longrightarrow> \<forall>x \<in> set xs. sale_leg x \<Longrightarrow> (\<And>t. sold xs t \<le> held s t + eps) \<Longrightarrow>
    \<exists>s'. fill_all xs s = Some s'"
proof (induction xs arbitrary: s)
  case Nil
  then show ?case by simp
next
  case (Cons x xs)
  obtain sy q p f where x: "x = (sy, q, p, f)" by (cases x)
  have v: "2 * eps < - q" "0 \<le> p" "0 \<le> f" "f \<le> - q * p"
    using Cons.prems(2) by (auto simp: x sale_leg_def)
  have rest: "\<forall>x \<in> set xs. sale_leg x" using Cons.prems(2) by simp
  have le: "- q + sold xs sy \<le> held s sy + eps"
    using Cons.prems(3) [of sy] by (simp add: x sold_Cons)
  have nn: "0 \<le> sold xs sy" using sold_cases [OF rest, of sy] eps_pos(1) by linarith
  have "0 < held s sy" using le nn v(1) eps_pos(1) by linarith
  then have "has_lot s sy \<and> - q \<le> held s sy + eps"
    using held_lot [OF Cons.prems(1)] le nn by auto
  moreover have "q * p + f \<le> cash s + eps"
    using v(4) inv_cash [OF Cons.prems(1)] by (simp add: algebra_simps)
  ultimately obtain t where t: "fill s sy q p f = Some t"
    using fill_succeeds [OF Cons.prems(1) v(3)] by blast
  have "inv t" by (rule fill_inv [OF Cons.prems(1) v(2,3) t])
  moreover have "sold xs u \<le> held t u + eps" for u
  proof (cases "u = sy")
    case False
    then show ?thesis using Cons.prems(3) [of u] fill_other [OF t] by (simp add: x sold_Cons)
  next
    case True
    show ?thesis
    proof (cases "sold xs sy = 0")
      case True
      then show ?thesis
        using inv_held [OF \<open>inv t\<close>, of sy] \<open>u = sy\<close> by simp
    next
      case False
      then have "2 * eps < sold xs sy" using sold_cases [OF rest] by blast
      then have "eps < held s sy + q" using le by linarith
      then have "held t sy = held s sy + q" using fill_exact [OF Cons.prems(1) t] by blast
      then show ?thesis using le True by simp
    qed
  qed
  ultimately show ?case using Cons.IH rest t by (simp add: x)
qed

text \<open>A batch of purchases goes through when the cash covers all of them.\<close>

definition cost :: "(string \<times> real \<times> real \<times> real) list \<Rightarrow> real" where
  "cost xs = (\<Sum>(sy, q, p, f)\<leftarrow>xs. q * p + f)"

lemma cost_Cons: "cost ((sy, q, p, f) # xs) = q * p + f + cost xs"
  by (simp add: cost_def)

lemma cost_nonneg: "\<forall>x \<in> set xs. purchase_leg x \<Longrightarrow> 0 \<le> cost xs"
  by (induction xs) (auto simp: cost_def purchase_leg_def)

lemma buys_succeed:
  "inv s \<Longrightarrow> \<forall>x \<in> set xs. purchase_leg x \<Longrightarrow> cost xs \<le> cash s + eps \<Longrightarrow>
    \<exists>s'. fill_all xs s = Some s'"
proof (induction xs arbitrary: s)
  case Nil
  then show ?case by simp
next
  case (Cons x xs)
  obtain sy q p f where x: "x = (sy, q, p, f)" by (cases x)
  have v: "0 < q" "0 \<le> p" "0 \<le> f" using Cons.prems(2) by (auto simp: x purchase_leg_def)
  have rest: "\<forall>x \<in> set xs. purchase_leg x" using Cons.prems(2) by simp
  have "q * p + f \<le> cash s + eps"
    using Cons.prems(3) cost_nonneg [OF rest] by (simp add: x cost_Cons)
  then obtain t where t: "fill s sy q p f = Some t"
    using fill_succeeds [OF Cons.prems(1) v(3)] v(1) by blast
  have "inv t" by (rule fill_inv [OF Cons.prems(1) v(2,3) t])
  moreover have "cost xs \<le> cash t + eps"
    using Cons.prems(3) fill_cash [OF t] by (simp add: x cost_Cons)
  ultimately show ?case using Cons.IH rest t by (simp add: x)
qed

lemma fill_all_append:
  "fill_all (xs @ ys) s = (case fill_all xs s of None \<Rightarrow> None | Some t \<Rightarrow> fill_all ys t)"
  by (induction xs arbitrary: s) (auto split: option.splits)

text \<open>Sales first, then purchases: the order in which both clients book a batch.\<close>

lemma sells_then_buys:
  assumes "inv s" and sells: "\<forall>x \<in> set xs. sale_leg x" and buys: "\<forall>x \<in> set ys. purchase_leg x"
    and "\<And>t. sold xs t \<le> held s t + eps" and "cost (xs @ ys) \<le> cash s + eps"
  shows "\<exists>s'. fill_all (xs @ ys) s = Some s'"
proof -
  obtain t where t: "fill_all xs s = Some t" using sells_succeed [OF assms(1) sells assms(4)] by blast
  have "inv t" using fill_all_inv [OF assms(1) _ t] sells by (force simp: sale_leg_def)
  moreover have "cost ys \<le> cash t + eps"
    using fill_all_cash [OF t] assms(5) by (simp add: cost_def)
  ultimately show ?thesis using buys_succeed [OF _ buys] t by (simp add: fill_all_append)
qed

end

section \<open>Two books\<close>

text \<open>A transfer from one book to another at one price and without fees, as an internal cross.\<close>

context long_only_book
begin

definition transfer :: "string \<Rightarrow> real \<Rightarrow> real \<Rightarrow> 's \<Rightarrow> 's \<Rightarrow> ('s \<times> 's) option" where
  "transfer sy q p buyer seller =
     (case fill seller sy (- q) p 0 of
        None \<Rightarrow> None
      | Some seller' \<Rightarrow> (case fill buyer sy q p 0 of
          None \<Rightarrow> None
        | Some buyer' \<Rightarrow> Some (buyer', seller')))"

lemma transfer_cash:
  "transfer sy q p b s = Some (b', s') \<Longrightarrow> cash b' + cash s' = cash b + cash s"
  by (auto simp: transfer_def dest!: fill_cash split: option.splits)

lemma transfer_held:
  assumes "inv b" "inv s" and "transfer sy q p b s = Some (b', s')"
    and "0 < q" and "eps < held s sy - q \<or> held s sy = q"
  shows "held b' sy + held s' sy = held b sy + held s sy"
proof -
  from assms(3) have f: "fill s sy (- q) p 0 = Some s'" "fill b sy q p 0 = Some b'"
    by (auto simp: transfer_def split: option.splits)
  show ?thesis
    using fill_exact [OF assms(2) f(1)] fill_exact [OF assms(1) f(2)] assms(4,5) by auto
qed

end

end
