(* ===== verification/MasterLedger.thy ===== *)
theory MasterLedger
  imports LongOnlyBook
begin

text \<open>
  \<open>packages/common/ledger.py\<close>: the accounting ledger of the master account. Every mutation
  is an action on the ledger object, so what an exception leaves behind is part of the model.
  The text of notes and the random \<open>entry_id\<close> are not modelled.
\<close>

section \<open>State\<close>

datatype entry_kind = CASH | TRADE | FEE | DIVIDEND | FX | CORPORATE_ACTION

record ledger_entry =
  le_at :: instant
  le_kind :: entry_kind
  le_amount :: real
  le_symbol :: "string option"
  le_qty :: real
  le_price :: real
  le_realized :: real

record ledger =
  lg_cash :: real
  lg_lots :: lots
  lg_realized :: real
  lg_fees :: real
  lg_initial :: real
  lg_hwm :: real
  lg_entries :: "ledger_entry list"

section \<open>Mutations\<close>

definition lg_append :: "ledger_entry \<Rightarrow> (ledger, unit) act" where
  "lg_append e s =
     (let candidate_cash = lg_cash s + le_amount e in
      if candidate_cash < - eps then (Inl ValueError, s)
      else (Inr (), s\<lparr>lg_entries := lg_entries s @ [e], lg_cash := candidate_cash,
              lg_fees := lg_fees s + (if le_kind e = FEE then - le_amount e else 0),
              lg_realized := lg_realized s + le_realized e\<rparr>))"

definition deposit :: "real \<Rightarrow> pydt option \<Rightarrow> instant \<Rightarrow> (ledger, unit) act" where
  "deposit amount a_t utcnow s =
     (case at_or_now a_t utcnow of
        Inl e \<Rightarrow> (Inl e, s)
      | Inr t \<Rightarrow> lg_append \<lparr>le_at = t, le_kind = CASH, le_amount = amount, le_symbol = None,
                            le_qty = 0, le_price = 0, le_realized = 0\<rparr> s)"

text \<open>\<open>Ledger(initial_cash)\<close>\<close>

definition mk_ledger :: "real \<Rightarrow> instant \<Rightarrow> exn + ledger" where
  "mk_ledger initial_cash utcnow =
     (if initial_cash \<le> 0 then Inl ValueError
      else case deposit initial_cash None utcnow
                  \<lparr>lg_cash = 0, lg_lots = [], lg_realized = 0, lg_fees = 0,
                   lg_initial = initial_cash, lg_hwm = initial_cash, lg_entries = []\<rparr> of
             (Inl e, _) \<Rightarrow> Inl e
           | (Inr _, s) \<Rightarrow> Inr s)"

definition record_fill ::
    "string \<Rightarrow> real \<Rightarrow> real \<Rightarrow> real \<Rightarrow> pydt \<Rightarrow> (ledger, unit) act" where
  "record_fill symbol side_qty price fees a_t s =
     (case ensure_utc a_t of Inl e \<Rightarrow> (Inl e, s) | Inr t \<Rightarrow>
      case fill_lot ValueError (dget (lg_lots s) symbol) symbol side_qty price of
        Inl e \<Rightarrow> (Inl e, s)
      | Inr (realized, new_lot) \<Rightarrow>
          (let trade_amount = - side_qty * price in
           if lg_cash s + trade_amount - fees < - eps then (Inl ValueError, s)
           else
             bind_act
               (lg_append \<lparr>le_at = t, le_kind = TRADE, le_amount = trade_amount,
                           le_symbol = Some symbol, le_qty = side_qty, le_price = price,
                           le_realized = realized\<rparr>)
               (\<lambda>_. if fees \<noteq> 0
                    then lg_append \<lparr>le_at = t, le_kind = FEE, le_amount = - fees,
                                    le_symbol = Some symbol, le_qty = 0, le_price = 0,
                                    le_realized = 0\<rparr>
                    else ret ())
               (s\<lparr>lg_lots := put_lot (lg_lots s) symbol new_lot\<rparr>)))"

definition rebase_high_water_mark ::
    "string \<Rightarrow> pydt option \<Rightarrow> instant \<Rightarrow> (ledger, real) act" where
  "rebase_high_water_mark approved_by a_t utcnow s =
     (if is_blank approved_by then (Inl ValueError, s)
      else let s' = s\<lparr>lg_hwm := max (lg_cash s) 0\<rparr> in
        case at_or_now a_t utcnow of
          Inl e \<Rightarrow> (Inl e, s')
        | Inr t \<Rightarrow> (Inr (lg_hwm s'), s'\<lparr>lg_entries := lg_entries s' @
              [\<lparr>le_at = t, le_kind = CASH, le_amount = 0, le_symbol = None, le_qty = 0,
                le_price = 0, le_realized = 0\<rparr>]\<rparr>))"

section \<open>Views\<close>

definition position_qty :: "ledger \<Rightarrow> string \<Rightarrow> real" where
  "position_qty s symbol = qty_of (lg_lots s) symbol"

fun positions_value_loop :: "(string, real) dict \<Rightarrow> lots \<Rightarrow> real \<Rightarrow> exn + real" where
  "positions_value_loop prices [] tot = Inr tot"
| "positions_value_loop prices ((k, l) # ps) tot =
     (case dget prices k of
        None \<Rightarrow> Inl KeyError
      | Some px \<Rightarrow> positions_value_loop prices ps (tot + lot_qty l * px))"

definition positions_value :: "ledger \<Rightarrow> (string, real) dict \<Rightarrow> exn + real" where
  "positions_value s prices = positions_value_loop prices (lg_lots s) 0"

definition equity :: "ledger \<Rightarrow> (string, real) dict \<Rightarrow> exn + real" where
  "equity s prices =
     (case positions_value s prices of Inl e \<Rightarrow> Inl e | Inr v \<Rightarrow> Inr (lg_cash s + v))"

record equity_snapshot =
  es_cash :: real
  es_positions :: real
  es_equity :: real
  es_hwm :: real
  es_drawdown :: real

definition liabilities :: "equity_snapshot \<Rightarrow> real" where
  "liabilities _ = 0"

definition snapshot :: "(string, real) dict \<Rightarrow> (ledger, equity_snapshot) act" where
  "snapshot prices s =
     (case equity s prices of
        Inl e \<Rightarrow> (Inl e, s)
      | Inr eq \<Rightarrow>
          (let s' = (if lg_hwm s < eq then s\<lparr>lg_hwm := eq\<rparr> else s);
               dd = (if lg_hwm s' \<le> 0 then 0 else max 0 (1 - eq / lg_hwm s'))
           in (Inr \<lparr>es_cash = lg_cash s', es_positions = eq - lg_cash s', es_equity = eq,
                    es_hwm = lg_hwm s', es_drawdown = dd\<rparr>, s')))"

definition minimum_operable_equity :: "real \<Rightarrow> real \<Rightarrow> bool \<Rightarrow> real \<Rightarrow> real" where
  "minimum_operable_equity min_order_value typical_fee fractional_shares min_share_price =
     (let fl = min_order_value + typical_fee * 10 in
      if \<not> fractional_shares then max fl (min_share_price + typical_fee * 10) else fl)"

section \<open>Invariant\<close>

text \<open>
  The fields are the totals of the entry log (\<open>entries can be replayed\<close>), the cash is not
  negative beyond the tolerance, and the lots are well formed.
\<close>

definition replay_cash :: "ledger_entry list \<Rightarrow> real" where
  "replay_cash es = (\<Sum>e\<leftarrow>es. le_amount e)"

definition replay_fees :: "ledger_entry list \<Rightarrow> real" where
  "replay_fees es = (\<Sum>e\<leftarrow>es. if le_kind e = FEE then - le_amount e else 0)"

definition replay_realized :: "ledger_entry list \<Rightarrow> real" where
  "replay_realized es = (\<Sum>e\<leftarrow>es. le_realized e)"

definition log_ok :: "ledger \<Rightarrow> bool" where
  "log_ok s \<longleftrightarrow> lg_cash s = replay_cash (lg_entries s) \<and> lg_fees s = replay_fees (lg_entries s)
     \<and> lg_realized s = replay_realized (lg_entries s)"

definition ledger_inv :: "ledger \<Rightarrow> bool" where
  "ledger_inv s \<longleftrightarrow> - eps \<le> lg_cash s \<and> log_ok s \<and> lots_ok (lg_lots s)"

lemma lg_append_log: "log_ok s \<Longrightarrow> lg_append e s = (r, s') \<Longrightarrow> log_ok s'"
  by (auto simp: lg_append_def log_ok_def replay_cash_def replay_fees_def replay_realized_def Let_def
      split: if_splits)

lemma lg_append_inv: "ledger_inv s \<Longrightarrow> lg_append e s = (r, s') \<Longrightarrow> ledger_inv s'"
  using lg_append_log [of s e r s']
  by (auto simp: ledger_inv_def lg_append_def Let_def split: if_splits)

lemma lg_append_error: "lg_append e s = (Inl x, s') \<Longrightarrow> s' = s"
  by (simp add: lg_append_def Let_def split: if_splits)

lemma deposit_inv: "ledger_inv s \<Longrightarrow> deposit a t u s = (r, s') \<Longrightarrow> ledger_inv s'"
  by (auto simp: deposit_def dest: lg_append_inv split: sum.splits)

lemma log_ok_lots [simp]: "log_ok (s\<lparr>lg_lots := ps\<rparr>) = log_ok s"
  by (simp add: log_ok_def)

lemma rebase_inv: "ledger_inv s \<Longrightarrow> rebase_high_water_mark who t u s = (r, s') \<Longrightarrow> ledger_inv s'"
  by (auto simp: rebase_high_water_mark_def Let_def ledger_inv_def log_ok_def replay_cash_def
      replay_fees_def replay_realized_def split: if_splits sum.splits)

lemma snapshot_inv: "ledger_inv s \<Longrightarrow> snapshot prices s = (r, s') \<Longrightarrow> ledger_inv s'"
  by (auto simp: snapshot_def Let_def ledger_inv_def log_ok_def split: if_splits sum.splits)

text \<open>
  What a successful fill does to the ledger. Both appends succeed because the cash after trade
  and fees was checked: this needs fees that are not negative.
\<close>

definition filled :: "string \<Rightarrow> real \<Rightarrow> real \<Rightarrow> real \<Rightarrow> instant \<Rightarrow> real \<Rightarrow> lot option \<Rightarrow> ledger \<Rightarrow> ledger" where
  "filled symbol side_qty price fees t realized nl s =
     s\<lparr>lg_lots := put_lot (lg_lots s) symbol nl,
       lg_cash := lg_cash s - side_qty * price - fees,
       lg_fees := lg_fees s + fees,
       lg_realized := lg_realized s + realized,
       lg_entries := lg_entries s @
         [\<lparr>le_at = t, le_kind = TRADE, le_amount = - side_qty * price, le_symbol = Some symbol,
           le_qty = side_qty, le_price = price, le_realized = realized\<rparr>] @
         (if fees \<noteq> 0 then [\<lparr>le_at = t, le_kind = FEE, le_amount = - fees,
           le_symbol = Some symbol, le_qty = 0, le_price = 0, le_realized = 0\<rparr>] else [])\<rparr>"

lemma record_fill_cases:
  assumes "0 \<le> fees"
  shows "record_fill symbol q price fees a_t s =
    (case ensure_utc a_t of Inl e \<Rightarrow> (Inl e, s) | Inr t \<Rightarrow>
     case fill_lot ValueError (dget (lg_lots s) symbol) symbol q price of
       Inl e \<Rightarrow> (Inl e, s)
     | Inr (realized, nl) \<Rightarrow>
         if lg_cash s - q * price - fees < - eps then (Inl ValueError, s)
         else (Inr (), filled symbol q price fees t realized nl s))"
  using assms
  by (auto simp: record_fill_def filled_def lg_append_def bind_act_def ret_def Let_def
      split: sum.splits)

lemma record_fill_filled:
  assumes "0 \<le> fees" and "record_fill symbol q price fees a_t s = (Inr u, s')"
  obtains t realized nl where "a_t = Aware t"
    "fill_lot ValueError (dget (lg_lots s) symbol) symbol q price = Inr (realized, nl)"
    "- eps \<le> lg_cash s - q * price - fees" "s' = filled symbol q price fees t realized nl s"
  using assms(2) unfolding record_fill_cases [OF assms(1)]
  by (auto simp: ensure_utc_Inr split: sum.splits prod.splits if_splits)

lemma record_fill_error:
  assumes "0 \<le> fees" and "record_fill symbol q price fees a_t s = (Inl e, s')"
  shows "s' = s"
  using assms(2) unfolding record_fill_cases [OF assms(1)]
  by (auto split: sum.splits prod.splits if_splits)

lemma record_fill_inv:
  assumes inv: "ledger_inv s" and nn: "0 \<le> fees" "0 \<le> price"
    and fill: "record_fill symbol q price fees a_t s = (r, s')"
  shows "ledger_inv s'"
proof (cases r)
  case (Inl e)
  have "s' = s" by (rule record_fill_error [OF nn(1) fill [unfolded Inl]])
  with inv show ?thesis by simp
next
  case (Inr u)
  obtain t realized nl where "a_t = Aware t"
    and fl: "fill_lot ValueError (dget (lg_lots s) symbol) symbol q price = Inr (realized, nl)"
    and cash: "- eps \<le> lg_cash s - q * price - fees"
    and s': "s' = filled symbol q price fees t realized nl s"
    by (rule record_fill_filled [OF nn(1) fill [unfolded Inr]])
  have "lots_ok (lg_lots s')"
    using fill_lot_ok [OF _ nn(2) fl] inv s' by (simp add: filled_def ledger_inv_def)
  moreover have "log_ok s'"
    using inv s' by (auto simp: filled_def ledger_inv_def log_ok_def replay_cash_def
        replay_fees_def replay_realized_def)
  ultimately show ?thesis using cash s' by (simp add: ledger_inv_def filled_def)
qed

lemma mk_ledger_Inr:
  "mk_ledger c u = Inr s \<longleftrightarrow> 0 < c \<and>
    s = \<lparr>lg_cash = c, lg_lots = [], lg_realized = 0, lg_fees = 0, lg_initial = c, lg_hwm = c,
         lg_entries = [\<lparr>le_at = u, le_kind = CASH, le_amount = c, le_symbol = None, le_qty = 0,
           le_price = 0, le_realized = 0\<rparr>]\<rparr>"
proof (cases "0 < c")
  case True
  then have "\<not> c < - eps" using eps_pos(1) by linarith
  with True show ?thesis
    by (auto simp: mk_ledger_def deposit_def at_or_now_def lg_append_def Let_def)
next
  case False
  then show ?thesis by (simp add: mk_ledger_def)
qed

lemma mk_ledger_inv: "mk_ledger c u = Inr s \<Longrightarrow> ledger_inv s"
proof -
  assume "mk_ledger c u = Inr s"
  moreover have "- eps \<le> c" if "0 < c" using that eps_pos(1) by linarith
  ultimately show ?thesis
    by (simp add: mk_ledger_Inr ledger_inv_def log_ok_def replay_cash_def replay_fees_def
        replay_realized_def)
qed

text \<open>A new ledger with the given cash, funded at time 0.\<close>

definition the_ledger :: "real \<Rightarrow> ledger" where
  "the_ledger c = \<lparr>lg_cash = c, lg_lots = [], lg_realized = 0, lg_fees = 0, lg_initial = c,
     lg_hwm = c, lg_entries = [\<lparr>le_at = 0, le_kind = CASH, le_amount = c, le_symbol = None,
       le_qty = 0, le_price = 0, le_realized = 0\<rparr>]\<rparr>"

section \<open>Values\<close>

lemma positions_value_loop_sum:
  "positions_value_loop prices ps tot = Inr v \<Longrightarrow>
    v = tot + (\<Sum>(k, l)\<leftarrow>ps. lot_qty l * the (dget prices k))"
proof (induction ps arbitrary: tot)
  case Nil
  then show ?case by simp
next
  case (Cons x ps)
  obtain k l where x: "x = (k, l)" by (cases x)
  from Cons.prems x obtain px where "dget prices k = Some px"
    "positions_value_loop prices ps (tot + lot_qty l * px) = Inr v"
    by (auto split: option.splits)
  with Cons.IH x show ?case by fastforce
qed

lemma positions_value_loop_ok:
  "is_ok (positions_value_loop prices ps tot) \<longleftrightarrow> (\<forall>k \<in> set (dkeys ps). dhas prices k)"
  by (induction ps arbitrary: tot) (force simp: dkeys_def dhas_def split: option.splits)+

lemma positions_value_loop_error:
  "positions_value_loop prices ps tot = Inl e \<Longrightarrow> e = KeyError"
  by (induction ps arbitrary: tot) (auto split: option.splits)

definition marked :: "(string, real) dict \<Rightarrow> lots \<Rightarrow> real" where
  "marked prices ps = (\<Sum>(k, l)\<leftarrow>ps. lot_qty l * the (dget prices k))"

lemma equity_marked: "equity s prices = Inr v \<Longrightarrow> v = lg_cash s + marked prices (lg_lots s)"
  by (auto simp: equity_def positions_value_def marked_def dest!: positions_value_loop_sum
      split: sum.splits)

lemma marked_dput:
  "marked prices (dput ps k l) = marked prices ps +
    (lot_qty l - qty_of ps k) * the (dget prices k)"
  by (induction ps) (auto simp: marked_def qty_of_def algebra_simps)

lemma marked_ddel:
  "dict_ok ps \<Longrightarrow> marked prices (ddel ps k) = marked prices ps - qty_of ps k * the (dget prices k)"
  by (induction ps) (auto simp: marked_def qty_of_def algebra_simps)

text \<open>A fill at the mark price changes the equity by its fees and by the dust it removes.\<close>

lemma marked_put_lot:
  assumes "lots_ok ps" and "fill_lot e (dget ps sy) sy q price = Inr (realized, nl)"
  shows "marked prices (put_lot ps sy nl) =
    marked prices ps + (q - dust_of ps sy q) * the (dget prices sy)"
proof (rule fill_lot_cases [OF assms])
qed (use lots_ok_dict [OF assms(1)] in
      \<open>auto simp: marked_dput marked_ddel qty_of_def algebra_simps\<close>)

section \<open>The ledger as a long-only book\<close>

definition ledger_fill :: "instant \<Rightarrow> ledger \<Rightarrow> string \<Rightarrow> real \<Rightarrow> real \<Rightarrow> real \<Rightarrow> ledger option" where
  "ledger_fill t s symbol q p f =
     (if f < 0 then None
      else case record_fill symbol q p f (Aware t) s of (Inl _, _) \<Rightarrow> None | (Inr _, s') \<Rightarrow> Some s')"

lemma ledger_fill_Some:
  assumes "ledger_fill t s symbol q p f = Some s'"
  obtains realized nl where "0 \<le> f"
    "fill_lot ValueError (dget (lg_lots s) symbol) symbol q p = Inr (realized, nl)"
    "- eps \<le> lg_cash s - q * p - f" "s' = filled symbol q p f t realized nl s"
proof -
  from assms have f: "0 \<le> f" by (simp add: ledger_fill_def split: if_splits)
  from assms obtain u where "record_fill symbol q p f (Aware t) s = (Inr u, s')"
    by (auto simp: ledger_fill_def split: if_splits prod.splits sum.splits)
  from record_fill_filled [OF f this] f that show ?thesis by (metis pydt.inject(2))
qed

interpretation master_book: long_only_book ledger_inv lg_cash position_qty
  "\<lambda>s k. dhas (lg_lots s) k" "ledger_fill t" for t
proof (unfold_locales, goal_cases)
  case (1 s)
  then show ?case by (simp add: ledger_inv_def)
next
  case (2 s sy)
  then show ?case by (simp add: ledger_inv_def position_qty_def qty_of_nonneg)
next
  case (3 s p f sy q s')
  from 3(4) obtain u where "record_fill sy q p f (Aware t) s = (Inr u, s')"
    by (auto simp: ledger_fill_def split: if_splits prod.splits sum.splits)
  from record_fill_inv [OF 3(1,3,2) this] show ?case .
next
  case (4 s sy q p f s')
  then show ?case by (auto elim!: ledger_fill_Some simp: filled_def)
next
  case (5 s sy q p f s')
  from 5(1) have ok: "lots_ok (lg_lots s)" by (simp add: ledger_inv_def)
  show ?case
    by (rule ledger_fill_Some [OF 5(2)])
      (use fill_lot_qty [OF ok] dust_of_bound [OF ok] in \<open>simp add: filled_def position_qty_def\<close>)
next
  case (6 s sy q p f s')
  from 6(1) have "lots_ok (lg_lots s)" by (simp add: ledger_inv_def)
  moreover have "dust_of (lg_lots s) sy q = 0"
    using 6(3) by (auto simp: dust_of_def position_qty_def Let_def)
  ultimately show ?case
    using 6(2) by (auto elim!: ledger_fill_Some simp: filled_def position_qty_def fill_lot_qty)
next
  case (7 s sy q p f s' k)
  then show ?case
    by (auto elim!: ledger_fill_Some simp: filled_def position_qty_def fill_lot_qty_other)
next
  case (8 s sy q p f s')
  then show ?case
    by (auto elim!: ledger_fill_Some simp: position_qty_def dest!: fill_lot_short)
next
  case (9 s f q sy p)
  from 9(1) have "lots_ok (lg_lots s)" by (simp add: ledger_inv_def)
  with 9(3) obtain realized nl where
    "fill_lot ValueError (dget (lg_lots s) sy) sy q p = Inr (realized, nl)"
    by (metis fill_lot_succeeds_iff dhas_def position_qty_def surj_pair)
  moreover have "\<not> lg_cash s - q * p - f < - eps" using 9(4) by linarith
  ultimately have "record_fill sy q p f (Aware t) s = (Inr (), filled sy q p f t realized nl s)"
    using 9(2) by (simp add: record_fill_cases)
  with 9(2) show ?case by (simp add: ledger_fill_def)
next
  case (10 s sy)
  then show ?case by (auto simp: position_qty_def qty_of_def dhas_def split: option.splits)
next
  case (11 f s sy q p s')
  then show ?case by (auto elim!: ledger_fill_Some)
qed

section \<open>Histories\<close>

text \<open>Operations of the ledger as they are called, to speak about every history.\<close>

datatype ledger_op =
    OpDeposit real "pydt option"
  | OpFill string real real real pydt
  | OpRebase string "pydt option"
  | OpSnapshot "(string, real) dict"

fun ledger_step :: "instant \<Rightarrow> ledger_op \<Rightarrow> ledger \<Rightarrow> ledger" where
  "ledger_step u (OpDeposit a t) s = snd (deposit a t u s)"
| "ledger_step u (OpFill k q p f t) s = snd (record_fill k q p f t s)"
| "ledger_step u (OpRebase who t) s = snd (rebase_high_water_mark who t u s)"
| "ledger_step u (OpSnapshot prices) s = snd (snapshot prices s)"

fun fill_sane :: "ledger_op \<Rightarrow> bool" where
  "fill_sane (OpFill k q p f t) \<longleftrightarrow> 0 \<le> p \<and> 0 \<le> f"
| "fill_sane _ \<longleftrightarrow> True"

lemma ledger_step_inv: "ledger_inv s \<Longrightarrow> fill_sane op \<Longrightarrow> ledger_inv (ledger_step u op s)"
  by (cases op) (auto intro: deposit_inv record_fill_inv rebase_inv snapshot_inv
      surjective_pairing)

lemma ledger_run_inv:
  "ledger_inv s \<Longrightarrow> \<forall>op \<in> set ops. fill_sane op \<Longrightarrow> ledger_inv (fold (ledger_step u) ops s)"
  by (induction ops arbitrary: s) (auto intro: ledger_step_inv)

section \<open>Properties\<close>

text \<open>
  C10. From construction on, whatever deposits, fills, rebasings and snapshots are made and
  whichever of them raise, the cash never falls below minus the tolerance (no margin), no
  position is negative (no short), and cash, fees and realised profit are the totals of the
  append-only entry log.
\<close>

theorem ledger_always_solvent:
  assumes "mk_ledger c u = Inr s0" and "\<forall>op \<in> set ops. fill_sane op"
    and "s = fold (ledger_step u) ops s0"
  shows "- eps \<le> lg_cash s \<and> 0 \<le> position_qty s k \<and> lg_cash s = replay_cash (lg_entries s) \<and>
    lg_fees s = replay_fees (lg_entries s) \<and> lg_realized s = replay_realized (lg_entries s)"
proof -
  have inv: "ledger_inv s"
    using ledger_run_inv [OF mk_ledger_inv [OF assms(1)] assms(2)] assms(3) by blast
  then show ?thesis
    using master_book.inv_held [OF inv] by (simp add: ledger_inv_def log_ok_def)
qed

lemma ledger_always_solvent_witness:
  "let s = fold (ledger_step 0)
             [OpFill ''ABC'' 2 30 1 (Aware 5), OpFill ''ABC'' 9 30 1 (Aware 6),
              OpFill ''ABC'' (- 1) 40 1 (Aware 7)] (the_ledger 100)
   in - eps \<le> lg_cash s \<and> 0 \<le> position_qty s ''ABC'' \<and> lg_cash s = replay_cash (lg_entries s) \<and>
     lg_fees s = replay_fees (lg_entries s) \<and> lg_realized s = replay_realized (lg_entries s)"
proof -
  have "mk_ledger 100 0 = Inr (the_ledger 100)" by (simp add: mk_ledger_Inr the_ledger_def)
  then show ?thesis unfolding Let_def by (rule ledger_always_solvent [OF _ _ refl]) simp
qed

text \<open>
  A fill is all or nothing. It is booked exactly when its time is aware, it does not sell
  more than is held and the cash covers it; then cash plus cost basis less realised profit
  plus fees is unchanged up to the cost of the dust that removing a position writes off.
  Otherwise the ledger is untouched.
\<close>

theorem record_fill_all_or_nothing:
  assumes "ledger_inv s" and "0 \<le> fees" "0 \<le> price"
    and "record_fill k q price fees a_t s = (r, s')"
  shows "(if (\<exists>t. a_t = Aware t) \<and>
             (0 < q \<or> dhas (lg_lots s) k \<and> - q \<le> position_qty s k + eps) \<and>
             q * price + fees \<le> lg_cash s + eps
          then is_ok r \<and> lg_cash s' = lg_cash s - q * price - fees \<and>
            lg_cash s' + cost_basis (lg_lots s') - lg_realized s' + lg_fees s' =
              lg_cash s + cost_basis (lg_lots s) - lg_realized s + lg_fees s
              - dust_of (lg_lots s) k q * (case dget (lg_lots s) k of None \<Rightarrow> 0 | Some l \<Rightarrow> lot_cost l)
          else (r = Inl ValueError \<and> s' = s))"
proof -
  have ok: "lots_ok (lg_lots s)" using assms(1) by (simp add: ledger_inv_def)
  note r = assms(4) [unfolded record_fill_cases [OF assms(2)]]
  show ?thesis
  proof (cases a_t)
    case (Naive t)
    with r show ?thesis by simp
  next
    case (Aware t)
    show ?thesis
    proof (cases "fill_lot ValueError (dget (lg_lots s) k) k q price")
      case (Inl e)
      with fill_lot_error [OF ok Inl] fill_lot_succeeds_iff [OF ok, of ValueError k q price] r Aware
      show ?thesis by (auto simp: dhas_def position_qty_def)
    next
      case (Inr x)
      obtain realized nl where x: "x = (realized, nl)" by (cases x)
      have "0 < q \<or> dhas (lg_lots s) k \<and> - q \<le> position_qty s k + eps"
        using fill_lot_succeeds_iff [OF ok, of ValueError k q price] Inr
        by (auto simp: dhas_def position_qty_def)
      with r Aware Inr x fill_lot_basis [OF ok Inr [unfolded x]] show ?thesis
        by (auto simp: filled_def split: if_splits)
    qed
  qed
qed

lemma record_fill_all_or_nothing_witness:
  "record_fill ''ABC'' 2 30 1 (Aware 5) (the_ledger 100) =
     (Inr (), snd (record_fill ''ABC'' 2 30 1 (Aware 5) (the_ledger 100))) \<and>
   lg_cash (snd (record_fill ''ABC'' 2 30 1 (Aware 5) (the_ledger 100))) = 39"
proof -
  have inv: "ledger_inv (the_ledger 100)"
    by (rule mk_ledger_inv [of 100 0]) (simp add: mk_ledger_Inr the_ledger_def)
  have "61 \<le> 100 + eps" using eps_pos(1) by linarith
  then show ?thesis
    using record_fill_all_or_nothing [OF inv, of 1 30 "''ABC''" 2 "Aware 5"
        "fst (record_fill ''ABC'' 2 30 1 (Aware 5) (the_ledger 100))"
        "snd (record_fill ''ABC'' 2 30 1 (Aware 5) (the_ledger 100))"]
    by (auto simp: the_ledger_def is_ok_def prod_eq_iff split: sum.splits)
qed

text \<open>
  Marked to market, trading at the mark is free up to fees: after an accepted fill the
  equity is the equity before it less the fees and less the removed dust at the mark. A
  snapshot then reports exactly that equity, never lets the high-water mark fall below it or
  below its old value, and the drawdown lies between 0 and 1.
\<close>

theorem fill_then_snapshot:
  assumes "ledger_inv s" and "0 \<le> fees" "dget prices k = Some price" "0 \<le> price"
    and "record_fill k q price fees a_t s = (Inr u, s')"
    and "equity s prices = Inr before" "0 < lg_hwm s"
    and "snapshot prices s' = (Inr snap, s'')" "0 \<le> es_equity snap"
  shows "es_equity snap = before - fees - dust_of (lg_lots s) k q * price \<and>
    es_hwm snap = max (lg_hwm s) (es_equity snap) \<and> lg_hwm s'' = es_hwm snap \<and>
    es_equity snap = es_hwm snap * (1 - es_drawdown snap) \<and>
    0 \<le> es_drawdown snap \<and> es_drawdown snap \<le> 1"
proof -
  have ok: "lots_ok (lg_lots s)" using assms(1) by (simp add: ledger_inv_def)
  obtain t realized nl where "a_t = Aware t"
    and fl: "fill_lot ValueError (dget (lg_lots s) k) k q price = Inr (realized, nl)"
    and cash: "- eps \<le> lg_cash s - q * price - fees"
    and s': "s' = filled k q price fees t realized nl s"
    by (rule record_fill_filled [OF assms(2,5)])
  from assms(8) obtain eq where eq: "equity s' prices = Inr eq"
    by (auto simp: snapshot_def split: sum.splits)
  have "eq = lg_cash s' + marked prices (lg_lots s')" by (rule equity_marked [OF eq])
  also have "\<dots> = before - fees - dust_of (lg_lots s) k q * price"
    using equity_marked [OF assms(6)] marked_put_lot [OF ok fl, of prices] s'
    by (simp add: filled_def assms(3) left_diff_distrib)
  finally have e: "eq = before - fees - dust_of (lg_lots s) k q * price" .
  have h: "lg_hwm s' = lg_hwm s" using s' by (simp add: filled_def)
  from assms(8) eq have snap: "es_equity snap = eq" "es_hwm snap = max (lg_hwm s') eq"
    "lg_hwm s'' = max (lg_hwm s') eq"
    "es_drawdown snap = max 0 (1 - eq / max (lg_hwm s') eq)"
    using h assms(7) by (auto simp: snapshot_def Let_def max_def split: if_splits)
  let ?h = "max (lg_hwm s) eq"
  have pos: "0 < ?h" "0 \<le> eq" "eq \<le> ?h" using assms(7,9) snap(1) by auto
  then have q: "0 \<le> eq / ?h" "eq / ?h \<le> 1" by (auto simp: divide_le_eq_1)
  then have dd: "es_drawdown snap = 1 - eq / ?h" using snap(4) h by simp
  have "?h * (1 - es_drawdown snap) = eq" using pos(1) by (simp add: dd)
  then show ?thesis using snap(1-3) h e q dd by auto
qed

lemma fill_then_snapshot_witness:
  "let s' = snd (record_fill ''ABC'' 2 30 1 (Aware 5) (the_ledger 100));
       (r, s'') = snapshot [(''ABC'', 30)] s'
   in is_ok r \<and> lg_hwm s'' = 100 \<and> es_equity (projr r) = 99"
proof -
  let ?s = "the_ledger 100"
  let ?f = "record_fill ''ABC'' 2 30 1 (Aware 5) ?s"
  let ?n = "snapshot [(''ABC'', 30)] (snd ?f)"
  have inv: "ledger_inv ?s"
    by (rule mk_ledger_inv [of 100 0]) (simp add: mk_ledger_Inr the_ledger_def)
  have "\<not> 39 < - eps" using eps_pos(1) by linarith
  then have f: "?f = (Inr (), snd ?f)" and
    sn: "?n = (Inr (projr (fst ?n)), snd ?n)" and eq: "es_equity (projr (fst ?n)) = 99"
    by (auto simp: record_fill_cases the_ledger_def fill_lot_def filled_def snapshot_def
        equity_def positions_value_def Let_def)
  have e: "equity ?s [(''ABC'', 30)] = Inr 100"
    by (simp add: equity_def positions_value_def the_ledger_def)
  from fill_then_snapshot [OF inv _ _ _ f e _ sn] eq
  have "es_hwm (projr (fst ?n)) = max 100 99 \<and> lg_hwm (snd ?n) = es_hwm (projr (fst ?n))"
    by (simp add: the_ledger_def)
  moreover have "is_ok (fst ?n)" by (subst sn) simp
  ultimately show ?thesis using eq by (simp add: Let_def split_def)
qed

section \<open>Where the code departs from its comments\<close>

text \<open>
  \<open>record_fill\<close> says \<open>commit: every leg above is now known to succeed\<close>. With negative fees
  (a rebate) the check of the sum passes and the trade leg alone is still refused, after the
  position was written.
\<close>

lemma negative_fees_leave_an_unpaid_position:
  "record_fill ''ABC'' 1 1 (- 1) (Aware 0) (the_ledger 0) =
     (Inl ValueError, (the_ledger 0)\<lparr>lg_lots := [(''ABC'', \<lparr>lot_symbol = ''ABC'', lot_qty = 1,
        lot_cost = 1\<rparr>)]\<rparr>)"
proof -
  have "(- 1 :: real) < - eps" by (simp add: eps_def)
  then show ?thesis
    by (simp add: record_fill_def fill_lot_def the_ledger_def lg_append_def bind_act_def Let_def)
qed

text \<open>
  \<open>rebase_high_water_mark\<close> promises to \<open>reset the drawdown baseline to current equity\<close>; it
  resets it to the cash, so an invested book is at a new high with the next snapshot.
\<close>

lemma rebase_ignores_positions:
  "is_blank who = False \<Longrightarrow>
    lg_hwm (snd (rebase_high_water_mark who None u s)) = max (lg_cash s) 0"
  by (simp add: rebase_high_water_mark_def at_or_now_def Let_def)

end
