(* ===== verification/Calendar.thy ===== *)
theory Calendar
  imports Schemas
begin

text \<open>
  \<open>packages/common/calendar.py\<close>, \<open>packages/common/risk_config.py\<close> and
  \<open>packages/common/settlement.py\<close>: trading days and session status, the risk limits, and
  settled cash. Dates are the proleptic Gregorian dates of \<open>datetime.date\<close>; the conversion
  of an instant to New York wall time (\<open>zoneinfo\<close> data) and the calendar provider are
  parameters, with \<open>StaticCalendarProvider\<close> as one provider.
\<close>

section \<open>Dates\<close>

datatype date = Date (yr: int) (mon: int) (dayno: int)

definition is_leap :: "int \<Rightarrow> bool" where
  "is_leap y \<longleftrightarrow> y mod 4 = 0 \<and> (y mod 100 \<noteq> 0 \<or> y mod 400 = 0)"

definition days_in_month :: "int \<Rightarrow> int \<Rightarrow> int" where
  "days_in_month y m =
     (if m = 2 then (if is_leap y then 29 else 28) else if m \<in> {4, 6, 9, 11} then 30 else 31)"

fun next_day :: "date \<Rightarrow> date" where
  "next_day (Date y m d) =
     (if d < days_in_month y m then Date y m (d + 1)
      else if m < 12 then Date y (m + 1) 1 else Date (y + 1) 1 1)"

definition days_before_month :: "int \<Rightarrow> int \<Rightarrow> int" where
  "days_before_month y m = sum_list (map (days_in_month y) [1..m - 1])"

text \<open>\<open>date.toordinal\<close> and \<open>date.weekday\<close> (Monday is 0).\<close>

fun to_ordinal :: "date \<Rightarrow> int" where
  "to_ordinal (Date y m d) =
     (let p = y - 1 in 365 * p + p div 4 - p div 100 + p div 400 + days_before_month y m + d)"

definition weekday :: "date \<Rightarrow> int" where
  "weekday d = (to_ordinal d + 6) mod 7"

section \<open>The trading calendar\<close>

datatype session_status = OPEN | CLOSED | HALTED

fun session_value :: "session_status \<Rightarrow> string" where
  "session_value OPEN = ''OPEN''"
| "session_value CLOSED = ''CLOSED''"
| "session_value HALTED = ''HALTED''"

text \<open>Times of day in microseconds.\<close>

definition hhmm :: "int \<Rightarrow> int \<Rightarrow> int" where
  "hhmm h m = (h * 60 + m) * 60 * 1000000"

record session_hours =
  open_et :: int
  close_et :: int

definition REGULAR :: session_hours where
  "REGULAR = \<lparr>open_et = hhmm 9 30, close_et = hhmm 16 0\<rparr>"

definition EARLY_CLOSE :: session_hours where
  "EARLY_CLOSE = \<lparr>open_et = hhmm 9 30, close_et = hhmm 13 0\<rparr>"

record provider =
  holidays :: "int \<Rightarrow> exn + date list"
  early_closes :: "int \<Rightarrow> date list"

definition static_holidays :: "int \<Rightarrow> exn + date list" where
  "static_holidays y =
     (if y = 2025 then Inr [Date 2025 1 1, Date 2025 1 20, Date 2025 2 17, Date 2025 4 18,
        Date 2025 5 26, Date 2025 6 19, Date 2025 7 4, Date 2025 9 1, Date 2025 11 27,
        Date 2025 12 25]
      else if y = 2026 then Inr [Date 2026 1 1, Date 2026 1 19, Date 2026 2 16, Date 2026 4 3,
        Date 2026 5 25, Date 2026 6 19, Date 2026 7 3, Date 2026 9 7, Date 2026 11 26,
        Date 2026 12 25]
      else Inl ValueError)"

definition static_early :: "int \<Rightarrow> date list" where
  "static_early y =
     (if y = 2025 then [Date 2025 7 3, Date 2025 11 28, Date 2025 12 24]
      else if y = 2026 then [Date 2026 11 27, Date 2026 12 24] else [])"

definition static_provider :: provider where
  "static_provider = \<lparr>holidays = static_holidays, early_closes = static_early\<rparr>"

record trading_calendar =
  cal_provider :: provider
  circuit_breaker :: bool

definition is_trading_day :: "provider \<Rightarrow> date \<Rightarrow> exn + bool" where
  "is_trading_day p d =
     (if \<not> weekday d < 5 then Inr False
      else case holidays p (yr d) of Inl e \<Rightarrow> Inl e | Inr hs \<Rightarrow> Inr (d \<notin> set hs))"

definition hours_of :: "provider \<Rightarrow> date \<Rightarrow> exn + session_hours option" where
  "hours_of p d =
     (case is_trading_day p d of
        Inl e \<Rightarrow> Inl e
      | Inr False \<Rightarrow> Inr None
      | Inr True \<Rightarrow> Inr (Some (if d \<in> set (early_closes p (yr d)) then EARLY_CLOSE else REGULAR)))"

text \<open>\<open>status(at)\<close>; \<open>to_et\<close> is \<open>astimezone(ET)\<close> as date and time of day.\<close>

definition status :: "(instant \<Rightarrow> date \<times> int) \<Rightarrow> trading_calendar \<Rightarrow> instant \<Rightarrow> exn + session_status" where
  "status to_et c t =
     (if circuit_breaker c then Inr HALTED
      else let (d, now_t) = to_et t in
        case hours_of (cal_provider c) d of
          Inl e \<Rightarrow> Inl e
        | Inr None \<Rightarrow> Inr CLOSED
        | Inr (Some h) \<Rightarrow>
            Inr (if open_et h \<le> now_t \<and> now_t < close_et h then OPEN else CLOSED))"

definition is_open :: "(instant \<Rightarrow> date \<times> int) \<Rightarrow> trading_calendar \<Rightarrow> instant \<Rightarrow> exn + bool" where
  "is_open to_et c t = (case status to_et c t of Inl e \<Rightarrow> Inl e | Inr st \<Rightarrow> Inr (st = OPEN))"

text \<open>
  The \<open>while\<close> loop of \<open>next_trading_day\<close> with a bound on its iterations: \<open>None\<close> stands for
  a loop that is still running after that many days.
\<close>

fun next_trading_from :: "provider \<Rightarrow> nat \<Rightarrow> date \<Rightarrow> (exn + date) option" where
  "next_trading_from p 0 d = None"
| "next_trading_from p (Suc n) d =
     (case is_trading_day p d of
        Inl e \<Rightarrow> Some (Inl e)
      | Inr True \<Rightarrow> Some (Inr d)
      | Inr False \<Rightarrow> next_trading_from p n (next_day d))"

definition next_trading_day :: "provider \<Rightarrow> nat \<Rightarrow> date \<Rightarrow> (exn + date) option" where
  "next_trading_day p n d = next_trading_from p n (next_day d)"

text \<open>With enough fuel the result does not depend on it, and it is the first trading day.\<close>

lemma next_trading_from_mono:
  "next_trading_from p n d = Some r \<Longrightarrow> n \<le> m \<Longrightarrow> next_trading_from p m d = Some r"
proof (induction n arbitrary: d m)
  case 0
  then show ?case by simp
next
  case (Suc n)
  then obtain m' where "m = Suc m'" "n \<le> m'" by (cases m) auto
  with Suc show ?case by (auto split: sum.splits bool.splits)
qed

lemma next_trading_from_first:
  "next_trading_from p n d = Some (Inr r) \<Longrightarrow>
    \<exists>k < n. r = (next_day ^^ k) d \<and> is_trading_day p r = Inr True \<and>
      (\<forall>j < k. is_trading_day p ((next_day ^^ j) d) = Inr False)"
proof (induction n arbitrary: d)
  case 0
  then show ?case by simp
next
  case (Suc n)
  show ?case
  proof (cases "is_trading_day p d")
    case (Inl e)
    with Suc.prems show ?thesis by simp
  next
    case (Inr b)
    show ?thesis
    proof (cases b)
      case True
      with Suc.prems Inr show ?thesis by (intro exI [of _ 0]) auto
    next
      case False
      with Suc.prems Inr have "next_trading_from p n (next_day d) = Some (Inr r)" by simp
      from Suc.IH [OF this] obtain k where k: "k < n" "r = (next_day ^^ k) (next_day d)"
        "is_trading_day p r = Inr True"
        "\<forall>j < k. is_trading_day p ((next_day ^^ j) (next_day d)) = Inr False" by blast
      have "is_trading_day p ((next_day ^^ j) d) = Inr False" if "j < Suc k" for j
        using that k(4) Inr False by (cases j) (auto simp: funpow_swap1)
      with k show ?thesis by (intro exI [of _ "Suc k"]) (auto simp: funpow_swap1)
    qed
  qed
qed

text \<open>Every day of the two years the repository ships data for.\<close>

definition days_of :: "int \<Rightarrow> date list" where
  "days_of y = concat (map (\<lambda>m. map (Date y m) [1..days_in_month y m]) [1..12])"

definition loop_ends :: "date \<Rightarrow> bool" where
  "loop_ends d = (next_trading_day static_provider 5 d \<noteq> None)"

lemma loop_ends_2025: "list_all loop_ends (days_of 2025)"
  by code_simp

lemma loop_ends_2026: "list_all loop_ends (days_of 2026)"
  by code_simp

section \<open>Risk configuration\<close>

record risk_config =
  per_trade_risk_budget_pct :: real
  max_position_pct :: real
  max_theme_exposure_pct :: real
  max_adv_participation :: real
  correlation_penalty_threshold :: real
  correlation_penalty_factor :: real
  max_total_exposure_pct :: real
  max_leverage :: real
  dd_reduced_size_at :: real
  dd_no_new_entry_at :: real
  dd_safe_mode_at :: real
  reduced_size_factor :: real
  max_gap_risk_score :: real
  max_spread_pct :: real
  stale_order_after_sec :: real
  exposure_cap_stage :: real

definition risk_params :: "risk_config \<Rightarrow> real list" where
  "risk_params c = map (\<lambda>f. f c)
     [per_trade_risk_budget_pct, max_position_pct, max_theme_exposure_pct, max_adv_participation,
      correlation_penalty_threshold, correlation_penalty_factor, max_total_exposure_pct,
      max_leverage, dd_reduced_size_at, dd_no_new_entry_at, dd_safe_mode_at, reduced_size_factor,
      max_gap_risk_score, max_spread_pct, stale_order_after_sec, exposure_cap_stage]"

definition mk_risk_config :: "risk_config \<Rightarrow> exn + risk_config" where
  "mk_risk_config c =
     (if 1 < max_leverage c then Inl ValueError
      else if 1 < max_total_exposure_pct c then Inl ValueError
      else if list_ex (\<lambda>v. v < 0) (risk_params c) then Inl ValueError
      else Inr c)"

definition DEFAULT_RISK_CONFIG :: risk_config where
  "DEFAULT_RISK_CONFIG =
    \<lparr>per_trade_risk_budget_pct = 1/100, max_position_pct = 1/4, max_theme_exposure_pct = 2/5,
     max_adv_participation = 1/100, correlation_penalty_threshold = 7/10,
     correlation_penalty_factor = 1/2, max_total_exposure_pct = 1, max_leverage = 1,
     dd_reduced_size_at = 1/10, dd_no_new_entry_at = 1/5, dd_safe_mode_at = 3/10,
     reduced_size_factor = 1/2, max_gap_risk_score = 3/4, max_spread_pct = 1/100,
     stale_order_after_sec = 300, exposure_cap_stage = 1\<rparr>"

definition config_ok :: "risk_config \<Rightarrow> bool" where
  "config_ok c \<longleftrightarrow> max_leverage c \<le> 1 \<and> max_total_exposure_pct c \<le> 1 \<and> list_all (\<lambda>v. 0 \<le> v) (risk_params c)"

lemma mk_risk_config_ok: "mk_risk_config c = Inr c' \<Longrightarrow> c' = c \<and> config_ok c"
  by (auto simp: mk_risk_config_def config_ok_def list_ex_iff list_all_iff not_less split: if_splits)

lemma default_config_ok: "config_ok DEFAULT_RISK_CONFIG"
  by (simp add: config_ok_def risk_params_def DEFAULT_RISK_CONFIG_def)

section \<open>Settlement\<close>

record pending_settlement =
  ps_amount :: real
  ps_at :: instant

record settlement =
  sm_settled :: real
  sm_pending :: "pending_settlement list"

definition SETTLEMENT_LAG :: int where
  "SETTLEMENT_LAG = days_us"

definition on_buy :: "real \<Rightarrow> pydt \<Rightarrow> (settlement, unit) act" where
  "on_buy cost a_t s =
     (case ensure_utc a_t of Inl e \<Rightarrow> (Inl e, s) | Inr _ \<Rightarrow>
      if sm_settled s + eps < cost then (Inl ValueError, s)
      else (Inr (), s\<lparr>sm_settled := sm_settled s - cost\<rparr>))"

definition on_sell :: "real \<Rightarrow> pydt \<Rightarrow> (settlement, unit) act" where
  "on_sell proceeds a_t s =
     (case ensure_utc a_t of Inl e \<Rightarrow> (Inl e, s) | Inr t \<Rightarrow>
      (Inr (), s\<lparr>sm_pending := sm_pending s @ [\<lparr>ps_amount = proceeds, ps_at = t + SETTLEMENT_LAG\<rparr>]\<rparr>))"

fun settle_loop :: "instant \<Rightarrow> pending_settlement list \<Rightarrow> real \<Rightarrow> pending_settlement list
    \<Rightarrow> real \<times> pending_settlement list" where
  "settle_loop now [] settled keep = (settled, keep)"
| "settle_loop now (p # ps) settled keep =
     (if ps_at p \<le> now then settle_loop now ps (settled + ps_amount p) keep
      else settle_loop now ps settled (keep @ [p]))"

definition process_settlements :: "pydt \<Rightarrow> (settlement, real) act" where
  "process_settlements now s =
     (case ensure_utc now of Inl e \<Rightarrow> (Inl e, s) | Inr t \<Rightarrow>
      (let (settled, keep) = settle_loop t (sm_pending s) 0 []
       in (Inr settled, s\<lparr>sm_pending := keep, sm_settled := sm_settled s + settled\<rparr>)))"

definition unsettled_cash :: "settlement \<Rightarrow> real" where
  "unsettled_cash s = (\<Sum>p\<leftarrow>sm_pending s. ps_amount p)"

definition balance :: "settlement \<Rightarrow> exn + broker_cash" where
  "balance s = mk_broker_cash (max 0 (sm_settled s)) (unsettled_cash s)"

definition reconcile_against_broker :: "settlement \<Rightarrow> broker_cash \<Rightarrow> real \<Rightarrow> bool" where
  "reconcile_against_broker s b tolerance \<longleftrightarrow>
     \<bar>bc_settled b - sm_settled s\<bar> \<le> tolerance \<and> \<bar>bc_unsettled b - unsettled_cash s\<bar> \<le> tolerance"

lemma settle_loop_eq:
  "settle_loop now ps x keep =
    (x + (\<Sum>p\<leftarrow>filter (\<lambda>p. ps_at p \<le> now) ps. ps_amount p), keep @ filter (\<lambda>p. \<not> ps_at p \<le> now) ps)"
  by (induction ps arbitrary: x keep) auto

lemma sum_filter_split:
  fixes f :: "'a \<Rightarrow> real"
  shows "(\<Sum>p\<leftarrow>filter P xs. f p) + (\<Sum>p\<leftarrow>filter (\<lambda>p. \<not> P p) xs. f p) = (\<Sum>p\<leftarrow>xs. f p)"
  by (induction xs) (auto simp: algebra_simps)

text \<open>Settling moves money from unsettled to settled and creates none.\<close>

lemma process_settlements_total:
  assumes "process_settlements now s = (r, s')"
  shows "sm_settled s' + unsettled_cash s' = sm_settled s + unsettled_cash s"
proof (cases now)
  case (Naive t)
  with assms show ?thesis by (simp add: process_settlements_def)
next
  case (Aware t)
  with assms show ?thesis
    using sum_filter_split [of ps_amount "\<lambda>p. ps_at p \<le> t" "sm_pending s"]
    by (auto simp: process_settlements_def settle_loop_eq unsettled_cash_def)
qed

section \<open>Histories of the settlement account\<close>

datatype settle_op = SBuy real pydt | SSell real pydt | STick pydt

fun settle_step :: "settle_op \<Rightarrow> settlement \<Rightarrow> settlement" where
  "settle_step (SBuy c t) s = snd (on_buy c t s)"
| "settle_step (SSell c t) s = snd (on_sell c t s)"
| "settle_step (STick t) s = snd (process_settlements t s)"

fun settle_sane :: "settle_op \<Rightarrow> bool" where
  "settle_sane (SSell c t) \<longleftrightarrow> 0 \<le> c"
| "settle_sane _ \<longleftrightarrow> True"

definition settlement_inv :: "settlement \<Rightarrow> bool" where
  "settlement_inv s \<longleftrightarrow> - eps \<le> sm_settled s \<and> (\<forall>p \<in> set (sm_pending s). 0 \<le> ps_amount p)"

lemma settle_step_inv:
  assumes "settlement_inv s" and "settle_sane op"
  shows "settlement_inv (settle_step op s)"
proof (cases op)
  case (SBuy c t)
  with assms show ?thesis
    by (auto simp: settlement_inv_def on_buy_def split: sum.splits)
next
  case (SSell c t)
  with assms show ?thesis
    by (auto simp: settlement_inv_def on_sell_def split: sum.splits)
next
  case (STick now)
  show ?thesis
  proof (cases now)
    case (Naive t)
    with STick assms show ?thesis by (simp add: process_settlements_def)
  next
    case (Aware t)
    have "0 \<le> (\<Sum>p\<leftarrow>filter (\<lambda>p. ps_at p \<le> t) (sm_pending s). ps_amount p)"
      using assms(1) by (intro sum_list_nonneg_map) (auto simp: settlement_inv_def)
    moreover have "- eps \<le> sm_settled s" using assms(1) by (simp add: settlement_inv_def)
    ultimately have "- eps \<le> sm_settled s +
        (\<Sum>p\<leftarrow>filter (\<lambda>p. ps_at p \<le> t) (sm_pending s). ps_amount p)" by linarith
    with STick Aware assms(1) show ?thesis
      by (auto simp: settlement_inv_def process_settlements_def settle_loop_eq)
  qed
qed

lemma settle_run_inv:
  "settlement_inv s \<Longrightarrow> \<forall>op \<in> set ops. settle_sane op \<Longrightarrow> settlement_inv (fold settle_step ops s)"
  by (induction ops arbitrary: s) (auto intro: settle_step_inv)

text \<open>
  C12. Whatever is bought, sold and settled in whatever order, the settled cash never goes
  below minus the tolerance; and the proceeds of a sale stay out of it at every settlement
  run before a day has passed and are in it at the first run after.
\<close>

theorem settled_cash_is_safe:
  assumes "0 \<le> sm_settled s0" and "sm_pending s0 = []" and "\<forall>op \<in> set ops. settle_sane op"
    and "s = fold settle_step ops s0"
  shows "- eps \<le> sm_settled s \<and>
    (now < t + SETTLEMENT_LAG \<longrightarrow>
      sm_settled (snd (process_settlements (Aware now) (snd (on_sell c (Aware t) s)))) =
      sm_settled (snd (process_settlements (Aware now) s))) \<and>
    (t + SETTLEMENT_LAG \<le> now \<longrightarrow>
      sm_settled (snd (process_settlements (Aware now) (snd (on_sell c (Aware t) s)))) =
      sm_settled (snd (process_settlements (Aware now) s)) + c)"
proof -
  have "- eps \<le> sm_settled s0" using assms(1) eps_pos(1) by linarith
  with assms(2) have "settlement_inv s0" by (simp add: settlement_inv_def)
  then have "settlement_inv s" using settle_run_inv assms(3,4) by blast
  then show ?thesis
    by (auto simp: settlement_inv_def process_settlements_def settle_loop_eq on_sell_def)
qed

lemma settled_cash_is_safe_witness:
  "let s = fold settle_step [SBuy 40 (Aware 0), SSell 10 (Aware 1), SBuy 70 (Aware 2)]
             \<lparr>sm_settled = 100, sm_pending = []\<rparr>
   in - eps \<le> sm_settled s \<and>
    sm_settled (snd (process_settlements (Aware 5) (snd (on_sell 7 (Aware 3) s)))) =
      sm_settled (snd (process_settlements (Aware 5) s)) \<and>
    sm_settled (snd (process_settlements (Aware 86400000003) (snd (on_sell 7 (Aware 3) s)))) =
      sm_settled (snd (process_settlements (Aware 86400000003) s)) + 7"
proof -
  let ?s0 = "\<lparr>sm_settled = 100, sm_pending = []\<rparr>"
  let ?ops = "[SBuy 40 (Aware 0), SSell 10 (Aware 1), SBuy 70 (Aware 2)]"
  have h: "0 \<le> sm_settled ?s0" "sm_pending ?s0 = []" "\<forall>op \<in> set ?ops. settle_sane op" by simp_all
  show ?thesis
    using settled_cash_is_safe [OF h refl, of 5 3 7]
      settled_cash_is_safe [OF h refl, of 86400000003 3 7]
    unfolding Let_def by (simp add: SETTLEMENT_LAG_def days_us_def)
qed

text \<open>
  With the calendar data of the repository the search for the next trading day ends within
  five steps for every day of 2025 and 2026, and a day it returns is the first trading day
  after the given one; it raises only where the loop runs into a year without data.
\<close>

theorem next_trading_day_total:
  assumes "d \<in> set (days_of 2025) \<union> set (days_of 2026)"
  shows "\<exists>r. next_trading_day static_provider 5 d = Some r \<and>
    (\<forall>t. r = Inr t \<longrightarrow> is_trading_day static_provider t = Inr True \<and>
      (\<exists>k \<ge> 1. t = (next_day ^^ k) d \<and>
        (\<forall>j. 1 \<le> j \<and> j < k \<longrightarrow> is_trading_day static_provider ((next_day ^^ j) d) = Inr False)))"
proof -
  from assms loop_ends_2025 loop_ends_2026 have "loop_ends d" by (auto simp: list_all_iff)
  then obtain r where r: "next_trading_from static_provider 5 (next_day d) = Some r"
    by (auto simp: loop_ends_def next_trading_day_def)
  have "is_trading_day static_provider t = Inr True \<and> (\<exists>k \<ge> 1. t = (next_day ^^ k) d \<and>
        (\<forall>j. 1 \<le> j \<and> j < k \<longrightarrow> is_trading_day static_provider ((next_day ^^ j) d) = Inr False))"
    if "r = Inr t" for t
  proof -
    from next_trading_from_first [OF r [unfolded that]] obtain k where k:
      "t = (next_day ^^ k) (next_day d)" "is_trading_day static_provider t = Inr True"
      "\<forall>j < k. is_trading_day static_provider ((next_day ^^ j) (next_day d)) = Inr False" by blast
    have "is_trading_day static_provider ((next_day ^^ j) d) = Inr False"
      if "1 \<le> j \<and> j < Suc k" for j
      using that k(3) by (cases j) (auto simp: funpow_swap1)
    with k(1,2) show ?thesis by (intro conjI exI [of _ "Suc k"]) (auto simp: funpow_swap1)
  qed
  with r show ?thesis by (auto simp: next_trading_day_def)
qed

lemma next_trading_day_total_witness:
  "next_trading_day static_provider 5 (Date 2025 7 3) = Some (Inr (Date 2025 7 7)) \<and>
   is_trading_day static_provider (Date 2025 7 7) = Inr True"
proof -
  have "Date 2025 7 3 \<in> set (days_of 2025)" by code_simp
  then have m: "Date 2025 7 3 \<in> set (days_of 2025) \<union> set (days_of 2026)" by blast
  have e: "next_trading_day static_provider 5 (Date 2025 7 3) = Some (Inr (Date 2025 7 7))"
    by code_simp
  obtain r where r: "next_trading_day static_provider 5 (Date 2025 7 3) = Some r"
    "\<forall>t. r = Inr t \<longrightarrow> is_trading_day static_provider t = Inr True"
    using next_trading_day_total [OF m] by blast
  with e have "r = Inr (Date 2025 7 7)" by (simp only: option.inject)
  with r(2) e show ?thesis by blast
qed

end
