(* ===== verification/OrderMachine.thy ===== *)
theory OrderMachine
  imports Schemas
begin

text \<open>
  \<open>services/execution/state_machine.py\<close>: the whitelisted order state machine and its event
  log. Reasons and broker payloads of transitions are not modelled; \<open>clock.now()\<close> is an
  argument.
\<close>

section \<open>States\<close>

fun allowed :: "order_state \<Rightarrow> order_state set" where
  "allowed CREATED = {RISK_APPROVED, REJECTED}"
| "allowed RISK_APPROVED = {SUBMITTED, EXPIRED, REJECTED}"
| "allowed SUBMITTED = {ACKNOWLEDGED, REJECTED, UNKNOWN}"
| "allowed ACKNOWLEDGED = {PARTIALLY_FILLED, FILLED, CANCEL_REQUESTED, EXPIRED, REJECTED, UNKNOWN}"
| "allowed PARTIALLY_FILLED = {FILLED, CANCEL_REQUESTED, UNKNOWN}"
| "allowed CANCEL_REQUESTED = {CANCELLED, FILLED, PARTIALLY_FILLED, UNKNOWN}"
| "allowed UNKNOWN = {ACKNOWLEDGED, PARTIALLY_FILLED, FILLED, CANCELLED, REJECTED, EXPIRED}"
| "allowed FILLED = {}"
| "allowed CANCELLED = {}"
| "allowed REJECTED = {}"
| "allowed EXPIRED = {}"

definition terminal_states :: "order_state set" where
  "terminal_states = {FILLED, CANCELLED, REJECTED, EXPIRED}"

record state_transition =
  st_cid :: string
  st_from :: order_state
  st_to :: order_state
  st_at :: instant

record order_record =
  or_cid :: string
  or_state :: order_state
  or_version :: int
  or_transitions :: "state_transition list"

record machine =
  om_orders :: "(string, order_record) dict"
  om_log :: "state_transition list"

definition empty_machine :: machine where
  "empty_machine = \<lparr>om_orders = [], om_log = []\<rparr>"

section \<open>Operations\<close>

definition om_restore :: "string \<Rightarrow> order_state \<Rightarrow> (machine, order_record) act" where
  "om_restore cid st m =
     (if dhas (om_orders m) cid then (Inl IllegalTransitionError, m)
      else let r = \<lparr>or_cid = cid, or_state = st, or_version = 1, or_transitions = []\<rparr>
        in (Inr r, m\<lparr>om_orders := dput (om_orders m) cid r\<rparr>))"

definition om_create :: "string \<Rightarrow> (machine, order_record) act" where
  "om_create cid m =
     (if dhas (om_orders m) cid then (Inl IllegalTransitionError, m)
      else let r = \<lparr>or_cid = cid, or_state = CREATED, or_version = 1, or_transitions = []\<rparr>
        in (Inr r, m\<lparr>om_orders := dput (om_orders m) cid r\<rparr>))"

definition om_get :: "machine \<Rightarrow> string \<Rightarrow> exn + order_record" where
  "om_get m cid = (case dget (om_orders m) cid of None \<Rightarrow> Inl KeyError | Some r \<Rightarrow> Inr r)"

definition om_transition :: "string \<Rightarrow> order_state \<Rightarrow> instant \<Rightarrow> (machine, order_record) act" where
  "om_transition cid to_state now m =
     (case om_get m cid of
        Inl e \<Rightarrow> (Inl e, m)
      | Inr r \<Rightarrow>
          if to_state \<notin> allowed (or_state r) then (Inl IllegalTransitionError, m)
          else let t = \<lparr>st_cid = cid, st_from = or_state r, st_to = to_state, st_at = now\<rparr>;
                   r' = r\<lparr>or_transitions := or_transitions r @ [t], or_state := to_state,
                          or_version := or_version r + 1\<rparr>
               in (Inr r', m\<lparr>om_orders := dput (om_orders m) cid r', om_log := om_log m @ [t]\<rparr>))"

definition orders_in_state :: "order_state list \<Rightarrow> machine \<Rightarrow> order_record list" where
  "orders_in_state sts m = filter (\<lambda>r. or_state r \<in> set sts) (dvals (om_orders m))"

definition has_unknown :: "machine \<Rightarrow> bool" where
  "has_unknown m = (orders_in_state [UNKNOWN] m \<noteq> [])"

text \<open>The state of an order, where it exists.\<close>

definition state_of :: "machine \<Rightarrow> string \<Rightarrow> order_state option" where
  "state_of m cid = map_option or_state (dget (om_orders m) cid)"

lemma terminal_iff: "allowed s = {} \<longleftrightarrow> s \<in> terminal_states"
  by (cases s) (simp_all add: terminal_states_def)

lemma om_transition_state:
  "om_transition cid st now m = (r, m') \<Longrightarrow>
    state_of m' k = (if is_ok r \<and> k = cid then Some st else state_of m k)"
  by (auto simp: om_transition_def om_get_def state_of_def Let_def dict_simps
      split: sum.splits option.splits if_splits)

lemma om_transition_ok_iff:
  "is_ok (fst (om_transition cid st now m)) \<longleftrightarrow> (\<exists>s. state_of m cid = Some s \<and> st \<in> allowed s)"
  by (auto simp: om_transition_def om_get_def state_of_def Let_def
      split: sum.splits option.splits if_splits)

lemma om_create_state:
  "om_create cid m = (r, m') \<Longrightarrow>
    state_of m' k = (if is_ok r \<and> k = cid then Some CREATED else state_of m k)"
  by (auto simp: om_create_def state_of_def Let_def dict_simps split: if_splits)

lemma om_create_ok_iff: "is_ok (fst (om_create cid m)) \<longleftrightarrow> state_of m cid = None"
  by (auto simp: om_create_def state_of_def Let_def dhas_def)

lemma om_restore_state:
  "om_restore cid st m = (r, m') \<Longrightarrow>
    state_of m' k = (if is_ok r \<and> k = cid then Some st else state_of m k)"
  by (auto simp: om_restore_def state_of_def Let_def dict_simps split: if_splits)

section \<open>Steps and reachable machines\<close>

inductive om_step :: "machine \<Rightarrow> machine \<Rightarrow> bool" where
  create: "om_create cid m = (r, m') \<Longrightarrow> om_step m m'"
| restore: "om_restore cid st m = (r, m') \<Longrightarrow> om_step m m'"
| trans_to: "om_transition cid st now m = (r, m') \<Longrightarrow> om_step m m'"

inductive_cases om_stepE: "om_step m m'"

inductive om_reach :: "machine \<Rightarrow> bool" where
  init: "om_reach empty_machine"
| step: "om_reach m \<Longrightarrow> om_step m m' \<Longrightarrow> om_reach m'"

text \<open>A list of transitions that starts in one state, ends in another and uses the whitelist.\<close>

fun chain :: "order_state \<Rightarrow> state_transition list \<Rightarrow> order_state \<Rightarrow> bool" where
  "chain a [] b \<longleftrightarrow> a = b"
| "chain a (t # ts) b \<longleftrightarrow> st_from t = a \<and> st_to t \<in> allowed a \<and> chain (st_to t) ts b"

lemma chain_snoc:
  "chain a (ts @ [t]) b \<longleftrightarrow> chain a ts (st_from t) \<and> st_to t = b \<and> b \<in> allowed (st_from t)"
  by (induction ts arbitrary: a) auto

definition record_ok :: "state_transition list \<Rightarrow> string \<Rightarrow> order_record \<Rightarrow> bool" where
  "record_ok lg cid r \<longleftrightarrow> or_cid r = cid \<and> or_version r = 1 + int (length (or_transitions r))
     \<and> or_transitions r = filter (\<lambda>t. st_cid t = cid) lg
     \<and> (\<exists>a. chain a (or_transitions r) (or_state r))"

definition machine_inv :: "machine \<Rightarrow> bool" where
  "machine_inv m \<longleftrightarrow> dict_ok (om_orders m)
     \<and> (\<forall>cid r. dget (om_orders m) cid = Some r \<longrightarrow> record_ok (om_log m) cid r)
     \<and> (\<forall>t \<in> set (om_log m). st_to t \<in> allowed (st_from t) \<and> dhas (om_orders m) (st_cid t))"

lemma record_ok_other: "st_cid t \<noteq> cid \<Longrightarrow> record_ok (lg @ [t]) cid r = record_ok lg cid r"
  by (simp add: record_ok_def)

lemma machine_inv_new:
  assumes "machine_inv m" and "dget (om_orders m) cid = None"
  shows "machine_inv (m\<lparr>om_orders := dput (om_orders m) cid
    \<lparr>or_cid = cid, or_state = st, or_version = 1, or_transitions = []\<rparr>\<rparr>)"
proof -
  have "filter (\<lambda>t. st_cid t = cid) (om_log m) = []"
    using assms by (force simp: machine_inv_def filter_empty_conv dhas_def)
  then have "record_ok (om_log m) cid
      \<lparr>or_cid = cid, or_state = st, or_version = 1, or_transitions = []\<rparr>"
    by (simp add: record_ok_def)
  then show ?thesis
    using assms by (auto simp: machine_inv_def dict_simps dhas_def)
qed

lemma machine_inv_transition:
  assumes inv: "machine_inv m" and tr: "om_transition cid st now m = (r, m')"
  shows "machine_inv m'"
proof (cases "\<exists>x. dget (om_orders m) cid = Some x \<and> st \<in> allowed (or_state x)")
  case False
  with tr have "m' = m" by (auto simp: om_transition_def om_get_def split: option.splits if_splits)
  with inv show ?thesis by simp
next
  case True
  then obtain x where x: "dget (om_orders m) cid = Some x" "st \<in> allowed (or_state x)" by blast
  let ?t = "\<lparr>st_cid = cid, st_from = or_state x, st_to = st, st_at = now\<rparr>"
  let ?x = "x\<lparr>or_transitions := or_transitions x @ [?t], or_state := st, or_version := or_version x + 1\<rparr>"
  from tr x have m': "m' = m\<lparr>om_orders := dput (om_orders m) cid ?x, om_log := om_log m @ [?t]\<rparr>"
    by (auto simp: om_transition_def om_get_def Let_def)
  have "record_ok (om_log m) cid x" using inv x(1) by (simp add: machine_inv_def)
  then have "record_ok (om_log m @ [?t]) cid ?x"
    using x(2) unfolding record_ok_def by (auto simp: chain_snoc)
  moreover have "record_ok (om_log m @ [?t]) k y"
    if "dget (om_orders m) k = Some y" "k \<noteq> cid" for k y
    using inv that by (simp add: machine_inv_def record_ok_other)
  ultimately show ?thesis
    using inv x unfolding machine_inv_def m' by (auto simp: dict_simps dhas_def)
qed

lemma om_reach_inv: "om_reach m \<Longrightarrow> machine_inv m"
proof (induction rule: om_reach.induct)
  case init
  then show ?case by (simp add: machine_inv_def empty_machine_def)
next
  case (step m m')
  from step.hyps(2) show ?case
  proof (cases rule: om_step.cases)
    case (create cid r)
    with machine_inv_new [OF step.IH] step.IH show ?thesis
      by (auto simp: om_create_def Let_def dhas_def split: if_splits)
  next
    case (restore cid st r)
    with machine_inv_new [OF step.IH] step.IH show ?thesis
      by (auto simp: om_restore_def Let_def dhas_def split: if_splits)
  next
    case (trans_to cid st now r)
    with machine_inv_transition [OF step.IH] show ?thesis by blast
  qed
qed

text \<open>Steps never forget an order and never take one out of a terminal state.\<close>

lemma om_step_terminal:
  assumes "om_step m m'" and "state_of m cid = Some s" and "s \<in> terminal_states"
  shows "state_of m' cid = Some s"
  using assms(1)
proof (cases rule: om_step.cases)
  case (create k r)
  with om_create_state [of k m r m' cid] om_create_ok_iff [of k m] assms(2) show ?thesis
    by (auto split: if_splits)
next
  case (restore k st r)
  with om_restore_state [of k st m r m' cid] assms(2) show ?thesis
    by (auto simp: om_restore_def state_of_def dhas_def split: if_splits)
next
  case (trans_to k st now r)
  have "allowed s = {}" using assms(3) by (simp add: terminal_iff)
  then show ?thesis
    using om_transition_state [OF trans_to, of cid] om_transition_ok_iff [of k st now m]
      assms(2) trans_to by (auto split: if_splits)
qed

lemma om_steps_terminal:
  "om_step\<^sup>*\<^sup>* m m' \<Longrightarrow> state_of m cid = Some s \<Longrightarrow> s \<in> terminal_states \<Longrightarrow> state_of m' cid = Some s"
  by (induction rule: rtranclp_induct) (auto intro: om_step_terminal)

text \<open>How many transitions an order can still make before it must be in a final state or cycles.\<close>

definition can_end :: "order_state \<Rightarrow> bool" where
  "can_end s \<longleftrightarrow> s \<in> terminal_states \<or> (\<exists>t \<in> allowed s. t \<in> terminal_states \<or>
     (\<exists>u \<in> allowed t. u \<in> terminal_states \<or> (\<exists>v \<in> allowed u. v \<in> terminal_states)))"

lemma every_order_can_end: "can_end s"
  by (cases s) (auto simp: can_end_def terminal_states_def)

section \<open>Properties\<close>

text \<open>
  C11. In every machine the operations can reach, each order's record, its version and the
  shared event log agree: the version counts the transitions, the log restricted to the order
  is its history, and the history is a path of whitelisted transitions that ends in the
  current state.
\<close>

theorem order_log_is_history:
  assumes "om_reach m" and "dget (om_orders m) cid = Some r"
  shows "or_cid r = cid \<and> or_version r = 1 + int (length (or_transitions r)) \<and>
    or_transitions r = filter (\<lambda>t. st_cid t = cid) (om_log m) \<and>
    (\<exists>a. chain a (or_transitions r) (or_state r)) \<and>
    (\<forall>t \<in> set (om_log m). st_to t \<in> allowed (st_from t))"
proof -
  have "machine_inv m" by (rule om_reach_inv [OF assms(1)])
  moreover from this assms(2) have "record_ok (om_log m) cid r" by (simp add: machine_inv_def)
  ultimately show ?thesis unfolding machine_inv_def record_ok_def by blast
qed

lemma order_log_is_history_witness:
  "let m = snd (om_transition ''cid-0001'' RISK_APPROVED 7 (snd (om_create ''cid-0001'' empty_machine)));
       r = \<lparr>or_cid = ''cid-0001'', or_state = RISK_APPROVED, or_version = 2, or_transitions =
             [\<lparr>st_cid = ''cid-0001'', st_from = CREATED, st_to = RISK_APPROVED, st_at = 7\<rparr>]\<rparr>
   in dget (om_orders m) ''cid-0001'' = Some r \<and> or_transitions r = om_log m \<and>
     (\<exists>a. chain a (or_transitions r) (or_state r))"
proof -
  let ?c = "om_create ''cid-0001'' empty_machine"
  let ?t = "om_transition ''cid-0001'' RISK_APPROVED 7 (snd ?c)"
  have r: "om_reach (snd ?t)"
    by (rule om_reach.step [OF om_reach.step [OF om_reach.init]])
      (rule om_step.create [OF surjective_pairing], rule om_step.trans_to [OF surjective_pairing])
  have e: "dget (om_orders (snd ?t)) ''cid-0001'' = Some \<lparr>or_cid = ''cid-0001'',
      or_state = RISK_APPROVED, or_version = 2, or_transitions =
        [\<lparr>st_cid = ''cid-0001'', st_from = CREATED, st_to = RISK_APPROVED, st_at = 7\<rparr>]\<rparr>"
    and l: "om_log (snd ?t) =
        [\<lparr>st_cid = ''cid-0001'', st_from = CREATED, st_to = RISK_APPROVED, st_at = 7\<rparr>]"
    by (simp_all add: om_create_def om_transition_def om_get_def empty_machine_def dhas_def Let_def)
  from order_log_is_history [OF r e] e l show ?thesis by (simp add: Let_def)
qed

text \<open>
  A filled, cancelled, rejected or expired order stays what it is: no sequence of creates,
  restores and transitions changes its state, and exactly these four states have no way out,
  while from every state an end is at most three transitions away.
\<close>

theorem terminal_states_are_final:
  assumes "om_step\<^sup>*\<^sup>* m m'" and "state_of m cid = Some s"
  shows "(s \<in> terminal_states \<longrightarrow> state_of m' cid = Some s) \<and>
    (s \<in> terminal_states \<longleftrightarrow> (\<forall>st now. \<not> is_ok (fst (om_transition cid st now m)))) \<and> can_end s"
  using om_steps_terminal [OF assms] assms(2) every_order_can_end
  by (auto simp: om_transition_ok_iff terminal_iff [symmetric])

lemma terminal_states_are_final_witness:
  "let m = snd (om_restore ''cid-0001'' FILLED empty_machine);
       m' = snd (om_transition ''cid-0001'' CANCELLED 3 m)
   in state_of m' ''cid-0001'' = Some FILLED"
proof -
  let ?m = "snd (om_restore ''cid-0001'' FILLED empty_machine)"
  let ?m' = "snd (om_transition ''cid-0001'' CANCELLED 3 ?m)"
  have "om_step\<^sup>*\<^sup>* ?m ?m'"
    by (intro r_into_rtranclp om_step.trans_to [OF surjective_pairing])
  moreover have "state_of ?m ''cid-0001'' = Some FILLED"
    by (simp add: om_restore_def empty_machine_def dhas_def state_of_def Let_def)
  ultimately show ?thesis
    using terminal_states_are_final [of ?m ?m' "''cid-0001''" FILLED]
    by (simp add: terminal_states_def Let_def)
qed

end
