(* ===== verification/MarketData.thy ===== *)
theory MarketData
  imports Calendar
begin

text \<open>
  \<open>services/data_validation/integrity.py\<close>, \<open>services/market_data/service.py\<close> (\<open>atr\<close>),
  \<open>services/risk/gap_risk.py\<close>, \<open>services/market_data/universe.py\<close>,
  \<open>services/regime/engine.py\<close> and \<open>services/quant/scanner.py\<close>: the checks and statistics
  on market data that feed the risk gate. Issue details (text) are not modelled.
\<close>

section \<open>Data integrity\<close>

datatype severity = WARNING | CRITICAL

datatype data_health = OK | DEGRADED | HALT_ENTRIES

record integrity_issue =
  ii_check :: string
  ii_severity :: severity
  ii_symbol :: string

record integrity_engine =
  ie_max_move :: real
  ie_stale_after :: int
  ie_max_volume :: int
  ie_issues :: "integrity_issue list"

definition default_integrity :: integrity_engine where
  "default_integrity = \<lparr>ie_max_move = 1/2, ie_stale_after = 15 * minutes_us,
     ie_max_volume = 10000000000, ie_issues = []\<rparr>"

definition ie_add :: "string \<Rightarrow> severity \<Rightarrow> string \<Rightarrow> integrity_engine \<Rightarrow> integrity_engine" where
  "ie_add check sev symbol e =
     e\<lparr>ie_issues := ie_issues e @ [\<lparr>ii_check = check, ii_severity = sev, ii_symbol = symbol\<rparr>]\<rparr>"

text \<open>One round of the loop over the bars: the issues, the timestamps seen and the previous close.\<close>

definition bar_extreme :: "integrity_engine \<Rightarrow> real option \<Rightarrow> real bar \<Rightarrow> bool" where
  "bar_extreme e prev b = (case prev of None \<Rightarrow> False | Some pc \<Rightarrow>
     0 < pc \<and> ie_max_move e < \<bar>bar_close b - pc\<bar> / pc)"

definition bar_checks :: "string \<Rightarrow> instant list \<Rightarrow> real option \<Rightarrow> real bar \<Rightarrow> integrity_engine
    \<Rightarrow> integrity_engine" where
  "bar_checks symbol seen prev b e =
     (let e = (if bar_symbol b \<noteq> symbol then ie_add ''symbol_mismatch'' CRITICAL symbol e else e);
          e = (if bar_ts b \<in> set seen then ie_add ''duplicate_data'' WARNING symbol e else e);
          e = (if bar_extreme e prev b then ie_add ''extreme_price'' CRITICAL symbol e else e)
      in if ie_max_volume e < bar_volume b
         then ie_add ''impossible_volume'' CRITICAL symbol e else e)"

fun bars_loop :: "string \<Rightarrow> instant list \<Rightarrow> real option \<Rightarrow> real bar list \<Rightarrow> integrity_engine
    \<Rightarrow> integrity_engine" where
  "bars_loop symbol seen prev [] e = e"
| "bars_loop symbol seen prev (b # bs) e =
     bars_loop symbol (bar_ts b # seen) (Some (bar_close b)) bs (bar_checks symbol seen prev b e)"

definition validate_bars ::
    "string \<Rightarrow> real bar list \<Rightarrow> integrity_engine \<Rightarrow> integrity_issue list \<times> integrity_engine" where
  "validate_bars symbol bars e0 =
     (let before = length (ie_issues e0) in
      if bars = [] then
        (let e = ie_add ''missing_data'' CRITICAL symbol e0 in (drop before (ie_issues e), e))
      else
        (let e = bars_loop symbol [] None bars e0;
             ts_list = map bar_ts bars;
             e = (if ts_list \<noteq> sort ts_list
                  then ie_add ''timestamp_anomaly'' CRITICAL symbol e else e)
         in (drop before (ie_issues e), e)))"

definition validate_quote ::
    "real quote \<Rightarrow> pydt \<Rightarrow> integrity_engine \<Rightarrow> (exn + integrity_issue list) \<times> integrity_engine" where
  "validate_quote q now e0 =
     (let before = length (ie_issues e0);
          e = (if quote_crossed q then ie_add ''bid_gt_ask'' CRITICAL (q_symbol q) e0 else e0)
      in case ensure_utc now of
           Inl x \<Rightarrow> (Inl x, e)
         | Inr t \<Rightarrow>
             (let age = t - q_ts q;
                  e = (if ie_stale_after e < age then ie_add ''stale_feed'' CRITICAL (q_symbol q) e else e);
                  e = (if age < 0 then ie_add ''timestamp_anomaly'' CRITICAL (q_symbol q) e else e)
              in (Inr (drop before (ie_issues e)), e)))"

definition check_secondary_disagreement ::
    "string \<Rightarrow> real \<Rightarrow> real \<Rightarrow> real \<Rightarrow> integrity_engine \<Rightarrow> integrity_engine" where
  "check_secondary_disagreement symbol primary_px secondary_px tolerance e =
     (if primary_px \<le> 0 \<or> secondary_px \<le> 0 then e
      else if tolerance < \<bar>primary_px - secondary_px\<bar> / primary_px
      then ie_add ''secondary_source_disagreement'' CRITICAL symbol e else e)"

definition health :: "integrity_engine \<Rightarrow> data_health" where
  "health e = (if list_ex (\<lambda>i. ii_severity i = CRITICAL) (ie_issues e) then HALT_ENTRIES
     else if ie_issues e \<noteq> [] then DEGRADED else OK)"

definition clear_resolved :: "integrity_engine \<Rightarrow> integrity_engine" where
  "clear_resolved e = e\<lparr>ie_issues := []\<rparr>"

text \<open>What makes a bar series unusable, stated on the series itself.\<close>

fun some_extreme :: "real \<Rightarrow> real option \<Rightarrow> real bar list \<Rightarrow> bool" where
  "some_extreme m prev [] = False"
| "some_extreme m prev (b # bs) =
     ((case prev of None \<Rightarrow> False | Some pc \<Rightarrow> 0 < pc \<and> m < \<bar>bar_close b - pc\<bar> / pc)
      \<or> some_extreme m (Some (bar_close b)) bs)"

definition bars_critical :: "integrity_engine \<Rightarrow> string \<Rightarrow> real bar list \<Rightarrow> bool" where
  "bars_critical e symbol bars \<longleftrightarrow> bars = [] \<or> (\<exists>b \<in> set bars. bar_symbol b \<noteq> symbol)
     \<or> some_extreme (ie_max_move e) None bars \<or> (\<exists>b \<in> set bars. ie_max_volume e < bar_volume b)
     \<or> \<not> sorted (map bar_ts bars)"

definition has_critical :: "integrity_engine \<Rightarrow> bool" where
  "has_critical e \<longleftrightarrow> (\<exists>i \<in> set (ie_issues e). ii_severity i = CRITICAL)"

lemma ie_add_simps [simp]:
  "ie_max_move (ie_add c s k e) = ie_max_move e"
  "ie_stale_after (ie_add c s k e) = ie_stale_after e"
  "ie_max_volume (ie_add c s k e) = ie_max_volume e"
  "has_critical (ie_add c s k e) \<longleftrightarrow> s = CRITICAL \<or> has_critical e"
  "ie_issues (ie_add c s k e) = ie_issues e @ [\<lparr>ii_check = c, ii_severity = s, ii_symbol = k\<rparr>]"
  by (auto simp: ie_add_def has_critical_def)

lemma bar_checks_params [simp]:
  "ie_max_move (bar_checks symbol seen prev b e) = ie_max_move e"
  "ie_max_volume (bar_checks symbol seen prev b e) = ie_max_volume e"
  by (simp_all add: bar_checks_def Let_def)

lemma bar_checks_critical [simp]:
  "has_critical (bar_checks symbol seen prev b e) \<longleftrightarrow> has_critical e \<or> bar_symbol b \<noteq> symbol
     \<or> bar_extreme e prev b \<or> ie_max_volume e < bar_volume b"
  by (auto simp: bar_checks_def Let_def bar_extreme_def split: option.splits)

lemma bar_checks_issues: "\<exists>xs. ie_issues (bar_checks symbol seen prev b e) = ie_issues e @ xs"
  by (simp add: bar_checks_def Let_def)

lemma bars_loop_critical:
  "has_critical (bars_loop symbol seen prev bs e) \<longleftrightarrow>
     has_critical e \<or> (\<exists>b \<in> set bs. bar_symbol b \<noteq> symbol) \<or> some_extreme (ie_max_move e) prev bs
     \<or> (\<exists>b \<in> set bs. ie_max_volume e < bar_volume b)"
  by (induction bs arbitrary: seen prev e) (auto simp: bar_extreme_def)

lemma bars_loop_issues: "\<exists>xs. ie_issues (bars_loop symbol seen prev bs e) = ie_issues e @ xs"
proof (induction bs arbitrary: seen prev e)
  case Nil
  then show ?case by simp
next
  case (Cons b bs)
  obtain xs where "ie_issues (bar_checks symbol seen prev b e) = ie_issues e @ xs"
    using bar_checks_issues by blast
  with Cons.IH [of "bar_ts b # seen" "Some (bar_close b)" "bar_checks symbol seen prev b e"]
  show ?case by auto
qed

lemma health_iff: "health e = HALT_ENTRIES \<longleftrightarrow> has_critical e"
  by (auto simp: health_def has_critical_def list_ex_iff)

lemma sort_eq_iff: "(xs = sort xs) \<longleftrightarrow> sorted xs"
  by (metis sorted_sort sort_key_id_if_sorted list.map_ident)

section \<open>True range\<close>

fun true_ranges :: "real bar list \<Rightarrow> real list" where
  "true_ranges (prev # cur # bs) =
     max (bar_high cur - bar_low cur)
       (max \<bar>bar_high cur - bar_close prev\<bar> \<bar>bar_low cur - bar_close prev\<bar>)
     # true_ranges (cur # bs)"
| "true_ranges _ = []"

text \<open>\<open>xs[-n:]\<close> for a positive \<open>n\<close>\<close>

definition last_n :: "nat \<Rightarrow> 'a list \<Rightarrow> 'a list" where
  "last_n n xs = drop (length xs - n) xs"

definition atr :: "real bar list \<Rightarrow> nat \<Rightarrow> exn + real" where
  "atr bars period =
     (if length bars < 2 then Inl ValueError
      else let window = last_n period (true_ranges bars) in Inr (mean window))"

lemma true_ranges_nonneg: "x \<in> set (true_ranges bars) \<Longrightarrow> 0 \<le> x"
  by (induction bars rule: true_ranges.induct) auto

lemma true_ranges_length: "length (true_ranges bars) = length bars - 1"
  by (induction bars rule: true_ranges.induct) auto

lemma set_last_n: "set (last_n n xs) \<subseteq> set xs"
  by (simp add: last_n_def set_drop_subset)

lemma last_n_nonempty: "xs \<noteq> [] \<Longrightarrow> 0 < n \<Longrightarrow> last_n n xs \<noteq> []"
  by (cases xs) (auto simp: last_n_def not_le)

lemma atr_nonneg: "atr bars period = Inr a \<Longrightarrow> 0 < period \<Longrightarrow> 0 \<le> a"
proof -
  assume a: "atr bars period = Inr a" and p: "0 < period"
  then have "true_ranges bars \<noteq> []"
    using true_ranges_length [of bars] by (auto simp: atr_def split: if_splits)
  with p have "last_n period (true_ranges bars) \<noteq> []" by (rule last_n_nonempty [rotated])
  then have "0 \<le> mean (last_n period (true_ranges bars))"
    using set_last_n [of period "true_ranges bars"] true_ranges_nonneg by (intro mean_ge) blast+
  with a show ?thesis by (simp add: atr_def Let_def split: if_splits)
qed

section \<open>Gap risk\<close>

fun gaps :: "real bar list \<Rightarrow> real list" where
  "gaps (prev # cur # bs) =
     (if 0 < bar_close prev then \<bar>bar_open cur - bar_close prev\<bar> / bar_close prev # gaps (cur # bs)
      else gaps (cur # bs))"
| "gaps _ = []"

definition gap_risk_score :: "real bar list \<Rightarrow> bool \<Rightarrow> exn + real" where
  "gap_risk_score bars has_event =
     (if length bars < 3 then Inr 1
      else let gs = sort (gaps bars) in
        if gs = [] then Inl IndexError
        else let p95 = gs ! nat (min (int (length gs) - 1) (py_int (real (length gs) * 95 / 100)));
                 score = min 1 (p95 / (1/10));
                 score = (if has_event then min 1 (score + 35/100) else score)
             in Inr (py_round 4 score))"

lemma gaps_nonneg: "x \<in> set (gaps bars) \<Longrightarrow> 0 \<le> x"
  by (induction bars rule: gaps.induct) (auto split: if_splits)

lemma gap_index:
  assumes "gs \<noteq> []"
  shows "nat (min (int (length gs) - 1) (py_int (real (length gs) * 95 / 100))) < length gs"
  using assms by (cases gs) auto

section \<open>The universe\<close>

instantiation date :: linorder
begin

definition less_eq_date :: "date \<Rightarrow> date \<Rightarrow> bool" where
  "less_eq_date a b \<longleftrightarrow> yr a < yr b \<or> yr a = yr b \<and> (mon a < mon b \<or> mon a = mon b \<and> dayno a \<le> dayno b)"

definition less_date :: "date \<Rightarrow> date \<Rightarrow> bool" where
  "less_date a b \<longleftrightarrow> yr a < yr b \<or> yr a = yr b \<and> (mon a < mon b \<or> mon a = mon b \<and> dayno a < dayno b)"

instance
  by standard (auto simp: less_eq_date_def less_date_def intro: date.expand)

end

record universe_symbol =
  us_symbol :: string
  us_listed :: date
  us_delisted :: "date option"

definition active_on :: "universe_symbol \<Rightarrow> date \<Rightarrow> bool" where
  "active_on s d =
     (if d < us_listed s then False
      else (case us_delisted s of None \<Rightarrow> True | Some x \<Rightarrow> d < x))"

type_synonym universe = "(string, universe_symbol) dict"

definition universe_add :: "universe \<Rightarrow> universe_symbol \<Rightarrow> universe" where
  "universe_add u s = dput u (us_symbol s) s"

definition symbols_as_of :: "universe \<Rightarrow> date \<Rightarrow> string list" where
  "symbols_as_of u d = sort (map us_symbol (filter (\<lambda>s. active_on s d) (dvals u)))"

definition is_tradeable :: "universe \<Rightarrow> string \<Rightarrow> date \<Rightarrow> bool" where
  "is_tradeable u symbol d = (case dget u symbol of None \<Rightarrow> False | Some s \<Rightarrow> active_on s d)"

definition all_ever :: "universe \<Rightarrow> string list" where
  "all_ever u = sort (dkeys u)"

definition universe_ok :: "universe \<Rightarrow> bool" where
  "universe_ok u \<longleftrightarrow> dict_ok u \<and> (\<forall>k s. dget u k = Some s \<longrightarrow> us_symbol s = k)"

lemma universe_ok_add: "universe_ok u \<Longrightarrow> universe_ok (universe_add u s)"
  by (auto simp: universe_ok_def universe_add_def dict_simps)

lemma symbols_as_of_iff:
  assumes "universe_ok u"
  shows "k \<in> set (symbols_as_of u d) \<longleftrightarrow> is_tradeable u k d"
proof
  assume "k \<in> set (symbols_as_of u d)"
  then obtain k' s where "(k', s) \<in> set u" "active_on s d" "us_symbol s = k"
    by (auto simp: symbols_as_of_def dvals_def)
  moreover from this assms have "dget u k' = Some s" "us_symbol s = k'"
    by (auto simp: universe_ok_def in_set_dget)
  ultimately show "is_tradeable u k d" by (simp add: is_tradeable_def)
next
  assume "is_tradeable u k d"
  then obtain s where s: "dget u k = Some s" "active_on s d"
    by (auto simp: is_tradeable_def split: option.splits)
  with assms have "us_symbol s = k" "s \<in> set (dvals u)"
    by (auto simp: universe_ok_def dget_in_vals)
  with s(2) show "k \<in> set (symbols_as_of u d)" by (auto simp: symbols_as_of_def)
qed

section \<open>Market regime\<close>

datatype regime = BULL | BEAR | RANGE | HIGH_VOLATILITY | LOW_VOLATILITY | PANIC | EUPHORIA

record regime_engine =
  re_panic_vol :: real
  re_euphoria :: real
  re_high_vol :: real
  re_low_vol :: real
  re_trend :: real

definition default_regime :: regime_engine where
  "default_regime = \<lparr>re_panic_vol = 4/100, re_euphoria = 15/100, re_high_vol = 25/1000,
     re_low_vol = 8/1000, re_trend = 3/100\<rparr>"

record regime_reading =
  rr_primary :: regime
  rr_volatility :: regime
  rr_trend :: real
  rr_vol :: real

fun returns :: "real list \<Rightarrow> real list" where
  "returns (c1 # c2 # cs) = (c2 / c1 - 1) # returns (c2 # cs)"
| "returns _ = []"

text \<open>The population standard deviation as the code writes it.\<close>

definition pstdev :: "real list \<Rightarrow> real" where
  "pstdev xs = sqrt ((\<Sum>r\<leftarrow>xs. (r - mean xs)\<^sup>2) / real (length xs))"

definition classify_primary :: "regime_engine \<Rightarrow> real \<Rightarrow> real \<Rightarrow> regime" where
  "classify_primary c trend vol =
     (if re_panic_vol c \<le> vol \<and> trend < 0 then PANIC
      else if re_euphoria c \<le> trend then EUPHORIA
      else if re_trend c \<le> trend then BULL
      else if trend \<le> - re_trend c then BEAR else RANGE)"

definition classify :: "regime_engine \<Rightarrow> real bar list \<Rightarrow> exn + regime_reading" where
  "classify c bars =
     (if length bars < 21 then Inl ValueError
      else let closes = last_n 21 (map bar_close bars);
               trend = last closes / hd closes - 1;
               vol = pstdev (returns closes)
           in Inr \<lparr>rr_primary = classify_primary c trend vol,
                   rr_volatility = (if re_high_vol c \<le> vol then HIGH_VOLATILITY
                     else if vol \<le> re_low_vol c then LOW_VOLATILITY else RANGE),
                   rr_trend = trend, rr_vol = vol\<rparr>)"

type_synonym regime_pnl = "(string \<times> regime, real list) dict"

definition record_alpha_result :: "regime_pnl \<Rightarrow> string \<Rightarrow> regime \<Rightarrow> real \<Rightarrow> regime_pnl" where
  "record_alpha_result d alpha rg pnl = dput d (alpha, rg) (dget_or d (alpha, rg) [] @ [pnl])"

definition alpha_regime_performance :: "regime_pnl \<Rightarrow> string \<Rightarrow> (regime, real) dict" where
  "alpha_regime_performance d alpha =
     fold (\<lambda>((a, rg), pnls) out. if a = alpha \<and> pnls \<noteq> [] then dput out rg (mean pnls) else out) d []"

section \<open>The scanner\<close>

record scan_result =
  sr_symbol :: string
  sr_close :: real
  sr_momentum :: real
  sr_dollar_volume :: real
  sr_volatility :: real
  sr_score :: real
  sr_bars :: "real bar list"

record scanner =
  sn_min_dollar :: real
  sn_min_price :: real
  sn_basic :: nat
  sn_advanced :: nat

record funnel =
  fu_scanned :: nat
  fu_basic :: nat
  fu_advanced :: nat
  fu_unavailable :: nat

text \<open>
  One symbol of the first stage. \<open>fetch\<close> is \<open>md.bars\<close>, \<open>None\<close> where it raises
  \<open>MarketDataUnavailable\<close>.
\<close>

definition scan_symbol :: "scanner \<Rightarrow> string \<Rightarrow> real bar list \<Rightarrow> scan_result option" where
  "scan_symbol c k bars =
     (if length bars < 21 then None
      else let close = bar_close (last bars) in
        if close < sn_min_price c then None
        else let dollar_vol = (\<Sum>b\<leftarrow>last_n 20 bars. bar_close b * of_int (bar_volume b)) / 20 in
          if dollar_vol < sn_min_dollar c then None
          else let closes = map bar_close (last_n 21 bars);
                   momentum = close / hd closes - 1;
                   vol = pstdev (returns closes)
               in Some \<lparr>sr_symbol = k, sr_close = close, sr_momentum = momentum,
                        sr_dollar_volume = dollar_vol, sr_volatility = vol,
                        sr_score = momentum / (vol + eps), sr_bars = bars\<rparr>)"

fun scan_stage1 :: "scanner \<Rightarrow> (string \<Rightarrow> real bar list option) \<Rightarrow> string list \<Rightarrow> nat \<times> scan_result list" where
  "scan_stage1 c fetch [] = (0, [])"
| "scan_stage1 c fetch (k # ks) =
     (let (u, rs) = scan_stage1 c fetch ks in
      case fetch k of
        None \<Rightarrow> (u + 1, rs)
      | Some bars \<Rightarrow> (u, (case scan_symbol c k bars of None \<Rightarrow> rs | Some r \<Rightarrow> r # rs)))"

text \<open>\<open>sort(key=score, reverse=True)\<close> is stable.\<close>

definition scan :: "scanner \<Rightarrow> (string \<Rightarrow> real bar list option) \<Rightarrow> string list \<Rightarrow> scan_result list \<times> funnel" where
  "scan c fetch symbols =
     (let (u, stage1) = scan_stage1 c fetch symbols;
          passed = length stage1;
          ranked = take (sn_basic c) (sort_key (\<lambda>r. - sr_score r) stage1);
          stage2 = take (sn_advanced c)
            (filter (\<lambda>r. 0 < sr_momentum r \<and> sr_volatility r < 6/100) ranked)
      in (stage2, \<lparr>fu_scanned = length symbols, fu_basic = passed, fu_advanced = length stage2,
                   fu_unavailable = u\<rparr>))"

lemma scan_stage1_sound:
  "r \<in> set (snd (scan_stage1 c fetch ks)) \<Longrightarrow>
    \<exists>k bars. k \<in> set ks \<and> fetch k = Some bars \<and> scan_symbol c k bars = Some r"
  by (induction ks) (auto simp: Let_def split: prod.splits option.splits if_splits)

lemma scan_symbol_sound:
  "scan_symbol c k bars = Some r \<Longrightarrow> sr_symbol r = k \<and> sn_min_price c \<le> sr_close r \<and>
    sn_min_dollar c \<le> sr_dollar_volume r \<and> sr_bars r = bars \<and> 21 \<le> length bars"
  by (auto simp: scan_symbol_def Let_def split: if_splits)

section \<open>Properties\<close>

text \<open>
  Validating the bars of a symbol on a healthy engine halts new entries exactly when the
  series is empty, holds a bar of another symbol, has a daily move beyond the limit, an
  impossible volume or timestamps out of order; and the verdict lasts until it is cleared.
\<close>

theorem validate_bars_halts_iff:
  assumes "health e \<noteq> HALT_ENTRIES" and "validate_bars symbol bars e = (new, e')"
  shows "(health e' = HALT_ENTRIES \<longleftrightarrow> bars_critical e symbol bars) \<and>
    ie_issues e' = ie_issues e @ new \<and> health (clear_resolved e') = OK"
proof -
  have nc: "\<not> has_critical e" using assms(1) by (simp add: health_iff)
  have "health (clear_resolved e') = OK" by (simp add: clear_resolved_def health_def)
  moreover have "health e' = HALT_ENTRIES \<longleftrightarrow> bars_critical e symbol bars"
    using assms(2) nc unfolding health_iff
    by (auto simp: validate_bars_def Let_def bars_critical_def bars_loop_critical sort_eq_iff
        split: if_splits)
  moreover have "ie_issues e' = ie_issues e @ new"
    using assms(2) bars_loop_issues [of symbol "[]" None bars e] by (auto simp: validate_bars_def Let_def split: if_splits)
  ultimately show ?thesis by simp
qed

definition flat_bar :: "int \<Rightarrow> real \<Rightarrow> real bar" where
  "flat_bar t px = \<lparr>bar_symbol = ''ABC'', bar_ts = t, bar_open = px, bar_high = px, bar_low = px,
     bar_close = px, bar_volume = 1000, bar_vwap = None, bar_source = ''mock'', bar_version = ''1''\<rparr>"

lemma validate_bars_halts_iff_witness:
  "health (snd (validate_bars ''ABC'' [flat_bar 1 10, flat_bar 2 16] default_integrity)) = HALT_ENTRIES"
proof -
  have "health default_integrity \<noteq> HALT_ENTRIES" by (simp add: health_def default_integrity_def)
  from validate_bars_halts_iff [OF this surjective_pairing, of "''ABC''" "[flat_bar 1 10, flat_bar 2 16]"]
  show ?thesis by (simp add: bars_critical_def default_integrity_def flat_bar_def)
qed

text \<open>
  The gap risk score is always between 0 and 1, is 1 for a history that is too short, and
  a scheduled event never lowers it.
\<close>

lemma gap_risk_score_bounds:
  assumes "gap_risk_score bars has_event = Inr score"
  shows "0 \<le> score \<and> score \<le> 1 \<and> (length bars < 3 \<longrightarrow> score = 1) \<and>
    (\<forall>s. gap_risk_score bars False = Inr s \<longrightarrow> s \<le> score)"
proof (cases "length bars < 3")
  case True
  with assms show ?thesis by (simp add: gap_risk_score_def)
next
  case False
  let ?gs = "sort (gaps bars)"
  from assms False have ne: "?gs \<noteq> []" by (simp add: gap_risk_score_def Let_def split: if_splits)
  define p95 where "p95 = ?gs ! nat (min (int (length ?gs) - 1) (py_int (real (length ?gs) * 95 / 100)))"
  have "p95 \<in> set ?gs" unfolding p95_def by (rule nth_mem [OF gap_index [OF ne]])
  then have p: "0 \<le> p95" using gaps_nonneg by simp
  define a where "a = min 1 (p95 / (1/10))"
  define b where "b = (if has_event then min 1 (a + 35/100) else a)"
  have ab: "0 \<le> a" "a \<le> b" "b \<le> 1" using p by (auto simp: a_def b_def)
  have s: "score = py_round 4 b"
    using assms False ne unfolding a_def b_def p95_def
    by (cases has_event) (auto simp: gap_risk_score_def Let_def)
  have "gap_risk_score bars False = Inr (py_round 4 a)"
    using False ne unfolding a_def p95_def by (simp add: gap_risk_score_def Let_def)
  then show ?thesis
    using s ab py_round_mono [OF ab(2)] False
      py_round_nonneg [of b 4] py_round_le_1 [OF ab(3)] by auto
qed

end
