(* ===== verification/RiskGate.thy ===== *)
theory RiskGate
  imports MarketData
begin

text \<open>
  \<open>services/risk/master_controller.py\<close>: the deterministic gate every order passes, and the
  signature that binds an approval to its order. \<open>sha256\<close>, \<open>hmac\<close> and the shortest
  \<open>repr\<close> of a float are parameters (\<open>prims\<close>); the clock, the random approval id and the
  conversion to New York time are arguments. The text of check details is not modelled.
\<close>

section \<open>Primitives\<close>

record prims =
  pr_sha :: "string \<Rightarrow> string"
  pr_hmac :: "string \<Rightarrow> string \<Rightarrow> string"
  pr_repr :: "real \<Rightarrow> string"
  pr_to_et :: "instant \<Rightarrow> date \<times> int"

section \<open>States and throttle\<close>

datatype risk_state = NORMAL | HALT_NEW_ENTRIES | SAFE_EXIT | FULL_BROKER_DISCONNECT

fun risk_state_value :: "risk_state \<Rightarrow> string" where
  "risk_state_value NORMAL = ''NORMAL''"
| "risk_state_value HALT_NEW_ENTRIES = ''HALT_NEW_ENTRIES''"
| "risk_state_value SAFE_EXIT = ''SAFE_EXIT''"
| "risk_state_value FULL_BROKER_DISCONNECT = ''FULL_BROKER_DISCONNECT''"

datatype throttle = T_NORMAL | REDUCED_SIZE | NO_NEW_ENTRY | REVIEW_SAFE_MODE

definition throttle_level :: "real \<Rightarrow> risk_config \<Rightarrow> throttle" where
  "throttle_level drawdown cfg =
     (if dd_safe_mode_at cfg \<le> drawdown then REVIEW_SAFE_MODE
      else if dd_no_new_entry_at cfg \<le> drawdown then NO_NEW_ENTRY
      else if dd_reduced_size_at cfg \<le> drawdown then REDUCED_SIZE
      else T_NORMAL)"

definition throttle_factor :: "throttle \<Rightarrow> risk_config \<Rightarrow> real" where
  "throttle_factor level cfg = (if level = REDUCED_SIZE then reduced_size_factor cfg else 1)"

text \<open>The ladder of drawdown levels is ordered by severity.\<close>

instantiation throttle :: linorder
begin

fun throttle_rank :: "throttle \<Rightarrow> nat" where
  "throttle_rank T_NORMAL = 0"
| "throttle_rank REDUCED_SIZE = 1"
| "throttle_rank NO_NEW_ENTRY = 2"
| "throttle_rank REVIEW_SAFE_MODE = 3"

definition less_eq_throttle :: "throttle \<Rightarrow> throttle \<Rightarrow> bool" where
  "less_eq_throttle a b \<longleftrightarrow> throttle_rank a \<le> throttle_rank b"

definition less_throttle :: "throttle \<Rightarrow> throttle \<Rightarrow> bool" where
  "less_throttle a b \<longleftrightarrow> throttle_rank a < throttle_rank b"

lemma throttle_rank_inj: "throttle_rank a = throttle_rank b \<longleftrightarrow> a = b"
  by (cases a; cases b) simp_all

instance
  by standard (auto simp: less_eq_throttle_def less_throttle_def throttle_rank_inj [symmetric])

end

lemma throttle_level_mono: "d \<le> d' \<Longrightarrow> throttle_level d cfg \<le> throttle_level d' cfg"
  by (auto simp: throttle_level_def less_eq_throttle_def)

section \<open>What the gate judges\<close>

record risk_view =
  rv_equity :: real
  rv_settled :: real
  rv_exposure :: real
  rv_position_notional :: "(string, real) dict"
  rv_position_qty :: "(string, real) dict"
  rv_theme_exposure :: "(string, real) dict"
  rv_symbol_themes :: "(string, string list) dict"
  rv_drawdown :: real
  rv_stop_plan :: bool
  rv_gap :: real
  rv_adv :: real
  rv_correlation :: real
  rv_reconciled :: bool
  rv_health :: data_health
  rv_connected :: bool
  rv_spread :: real
  rv_known_ids :: "string list"
  rv_signal_age :: real
  rv_margin :: real

record controller =
  mc_config :: risk_config
  mc_calendar :: trading_calendar
  mc_state :: risk_state
  mc_key :: string
  mc_log :: "(risk_rejection + risk_approval) list"

definition set_state :: "risk_state \<Rightarrow> controller \<Rightarrow> controller" where
  "set_state st c = c\<lparr>mc_state := st\<rparr>"

definition entry_allowed_by_state :: "controller \<Rightarrow> throttle \<Rightarrow> bool" where
  "entry_allowed_by_state c level =
     (if mc_state c = FULL_BROKER_DISCONNECT then False
      else if mc_state c \<in> {HALT_NEW_ENTRIES, SAFE_EXIT} then False
      else if level \<in> {NO_NEW_ENTRY, REVIEW_SAFE_MODE} then False
      else True)"

definition exit_allowed_by_state :: "controller \<Rightarrow> bool" where
  "exit_allowed_by_state c = (if mc_state c = FULL_BROKER_DISCONNECT then False else True)"

section \<open>Signatures\<close>

definition sign_message :: "prims \<Rightarrow> string \<Rightarrow> string \<Rightarrow> string \<Rightarrow> action \<Rightarrow> real \<Rightarrow> string \<Rightarrow> string" where
  "sign_message pr approval_id cid symbol side qty intent_hash =
     join_bar [approval_id, cid, symbol, action_value side, pr_repr pr qty, intent_hash]"

definition sign_order :: "prims \<Rightarrow> controller \<Rightarrow> order_intent \<Rightarrow> string \<Rightarrow> string \<Rightarrow> string" where
  "sign_order pr c i approval_id intent_hash =
     pr_hmac pr (mc_key c)
       (sign_message pr approval_id (oi_id i) (oi_symbol i) (oi_side i) (oi_qty i) intent_hash)"

definition approval_message :: "prims \<Rightarrow> risk_approval \<Rightarrow> string" where
  "approval_message pr a =
     sign_message pr (ap_id a) (ap_cid a) (ap_symbol a) (ap_side a) (ap_qty a) (ap_hash a)"

definition verify_signature :: "prims \<Rightarrow> controller \<Rightarrow> risk_approval \<Rightarrow> bool" where
  "verify_signature pr c a \<longleftrightarrow> pr_hmac pr (mc_key c) (approval_message pr a) = ap_sig a"

section \<open>The gate\<close>

definition the_or0 :: "real option \<Rightarrow> real" where
  "the_or0 x = (case x of None \<Rightarrow> 0 | Some v \<Rightarrow> v)"

text \<open>\<open>entry_price or intent.limit_price or intent.stop_price or 0.0\<close>\<close>

definition reference_price :: "order_intent \<Rightarrow> real option \<Rightarrow> real" where
  "reference_price i entry_price =
     the_or0 (or_float (or_float (or_float entry_price (oi_limit i)) (oi_stop i)) (Some 0))"

fun theme_loop :: "real \<Rightarrow> real \<Rightarrow> (string, real) dict \<Rightarrow> string list \<Rightarrow> bool \<Rightarrow> bool" where
  "theme_loop cap order_value exposure [] ok = ok"
| "theme_loop cap order_value exposure (th # ths) ok =
     (let t_after = dget_or exposure th 0 + order_value
      in theme_loop cap order_value exposure ths (if cap + eps < t_after then False else ok))"

text \<open>The checks of \<open>review\<close>, in the order of the code; \<open>st\<close> is the session status.\<close>

definition gate_checks ::
    "controller \<Rightarrow> order_intent \<Rightarrow> risk_view \<Rightarrow> real option \<Rightarrow> session_status \<Rightarrow> risk_check list" where
  "gate_checks c i v entry_price st =
     (let cfg = mc_config c;
          is_exit = (oi_side i = SELL \<and> oi_protective i);
          px = reference_price i entry_price;
          order_value = oi_qty i * px;
          buy = (oi_side i = BUY);
          level = throttle_level (rv_drawdown v) cfg;
          ck = (\<lambda>n ok. \<lparr>rc_name = n, rc_passed = ok\<rparr>)
      in [ck ''priceable_order'' (\<not> (buy \<and> px \<le> 0)),
          ck ''risk_state'' (if is_exit then exit_allowed_by_state c else entry_allowed_by_state c level),
          ck ''leverage'' (buy \<longrightarrow>
            fle (if 0 < rv_equity v then Fin ((rv_exposure v + order_value) / rv_equity v) else PosInf)
                (Fin (max_leverage cfg + eps))),
          (if buy then ck ''cash_settled'' (order_value \<le> rv_settled v + eps)
           else ck ''no_short'' (oi_qty i \<le> dget_or (rv_position_qty v) (oi_symbol i) 0 + eps)),
          ck ''total_exposure'' (buy \<longrightarrow> rv_exposure v + order_value \<le>
            rv_equity v * max_total_exposure_pct cfg * exposure_cap_stage cfg + eps),
          ck ''position_size'' (buy \<longrightarrow> order_value \<le> rv_equity v * max_position_pct cfg + eps),
          ck ''liquidity'' (buy \<longrightarrow> oi_qty i \<le> rv_adv v * max_adv_participation cfg + eps),
          ck ''stop_exists'' (is_exit \<or> rv_stop_plan v),
          ck ''theme_concentration'' (buy \<longrightarrow>
            theme_loop (rv_equity v * max_theme_exposure_pct cfg) order_value (rv_theme_exposure v)
              (dget_or (rv_symbol_themes v) (oi_symbol i) []) True),
          ck ''gap_risk'' (is_exit \<or> rv_gap v \<le> max_gap_risk_score cfg),
          ck ''broker_connected'' (rv_connected v),
          ck ''reconciliation'' (is_exit \<or> rv_reconciled v),
          ck ''market_open'' (st = OPEN \<or> (is_exit \<and> st \<noteq> HALTED)),
          ck ''data_health'' (is_exit \<or> rv_health v \<noteq> HALT_ENTRIES),
          ck ''no_margin'' (\<bar>rv_margin v\<bar> \<le> eps),
          ck ''duplicate_order'' (oi_id i \<notin> set (rv_known_ids v)),
          ck ''stale_order'' (is_exit \<or> rv_signal_age v \<le> stale_order_after_sec cfg),
          ck ''spread'' (is_exit \<or> rv_spread v \<le> max_spread_pct cfg)])"

text \<open>
  \<open>review\<close>. A calendar without data for the year raises before anything is logged.
\<close>

definition review ::
    "prims \<Rightarrow> instant \<Rightarrow> string \<Rightarrow> order_intent \<Rightarrow> risk_view \<Rightarrow> real option
      \<Rightarrow> (controller, risk_rejection + risk_approval) act" where
  "review pr now uuid i v entry_price c =
     (case status (pr_to_et pr) (mc_calendar c) now of
        Inl e \<Rightarrow> (Inl e, c)
      | Inr st \<Rightarrow>
          (let checks = gate_checks c i v entry_price st;
               failed = filter (\<lambda>k. \<not> rc_passed k) checks
           in if failed \<noteq> [] then
                (let r = Inl \<lparr>rj_cid = oi_id i, rj_checks = checks,
                              rj_reasons = map rc_name failed, rj_at = now\<rparr>
                 in (Inr r, c\<lparr>mc_log := mc_log c @ [r]\<rparr>))
              else
                (let h = order_intent_hash (pr_sha pr) i;
                     r = Inr \<lparr>ap_id = uuid, ap_cid = oi_id i, ap_symbol = oi_symbol i,
                              ap_side = oi_side i, ap_qty = oi_qty i, ap_hash = h,
                              ap_checks = checks, ap_state = risk_state_value (mc_state c),
                              ap_at = now, ap_sig = sign_order pr c i uuid h\<rparr>
                 in (Inr r, c\<lparr>mc_log := mc_log c @ [r]\<rparr>))))"

definition approves ::
    "prims \<Rightarrow> instant \<Rightarrow> string \<Rightarrow> order_intent \<Rightarrow> risk_view \<Rightarrow> real option \<Rightarrow> controller \<Rightarrow> bool" where
  "approves pr now uuid i v entry_price c =
     (case fst (review pr now uuid i v entry_price c) of Inr (Inr _) \<Rightarrow> True | _ \<Rightarrow> False)"

section \<open>The policy the gate implements\<close>

text \<open>Stated from the documents, without reference to the list of checks.\<close>

definition entry_policy ::
    "controller \<Rightarrow> order_intent \<Rightarrow> risk_view \<Rightarrow> real option \<Rightarrow> session_status \<Rightarrow> bool" where
  "entry_policy c i v entry_price st \<longleftrightarrow>
     mc_state c = NORMAL \<and> rv_drawdown v < dd_no_new_entry_at (mc_config c) \<and>
     rv_drawdown v < dd_safe_mode_at (mc_config c) \<and> rv_connected v \<and> rv_reconciled v \<and>
     st = OPEN \<and> rv_health v \<noteq> HALT_ENTRIES \<and> rv_stop_plan v \<and> \<bar>rv_margin v\<bar> \<le> eps \<and>
     oi_id i \<notin> set (rv_known_ids v) \<and> rv_gap v \<le> max_gap_risk_score (mc_config c) \<and>
     rv_signal_age v \<le> stale_order_after_sec (mc_config c) \<and>
     rv_spread v \<le> max_spread_pct (mc_config c)"

definition buy_limits :: "controller \<Rightarrow> order_intent \<Rightarrow> risk_view \<Rightarrow> real option \<Rightarrow> bool" where
  "buy_limits c i v entry_price \<longleftrightarrow>
     (let px = reference_price i entry_price; cost = oi_qty i * px; cfg = mc_config c in
      0 < px \<and> 0 < rv_equity v \<and> (rv_exposure v + cost) / rv_equity v \<le> max_leverage cfg + eps \<and>
      cost \<le> rv_settled v + eps \<and>
      rv_exposure v + cost \<le> rv_equity v * max_total_exposure_pct cfg * exposure_cap_stage cfg + eps \<and>
      cost \<le> rv_equity v * max_position_pct cfg + eps \<and>
      oi_qty i \<le> rv_adv v * max_adv_participation cfg + eps \<and>
      (\<forall>th \<in> set (dget_or (rv_symbol_themes v) (oi_symbol i) []).
         dget_or (rv_theme_exposure v) th 0 + cost \<le> rv_equity v * max_theme_exposure_pct cfg + eps))"

definition exit_policy :: "controller \<Rightarrow> order_intent \<Rightarrow> risk_view \<Rightarrow> session_status \<Rightarrow> bool" where
  "exit_policy c i v st \<longleftrightarrow>
     mc_state c \<noteq> FULL_BROKER_DISCONNECT \<and> rv_connected v \<and> st \<noteq> HALTED \<and> \<bar>rv_margin v\<bar> \<le> eps \<and>
     oi_id i \<notin> set (rv_known_ids v)"

definition not_short :: "order_intent \<Rightarrow> risk_view \<Rightarrow> bool" where
  "not_short i v \<longleftrightarrow> oi_qty i \<le> dget_or (rv_position_qty v) (oi_symbol i) 0 + eps"

lemma theme_loop_iff:
  "theme_loop cap val ex ths ok \<longleftrightarrow> ok \<and> (\<forall>th \<in> set ths. dget_or ex th 0 + val \<le> cap + eps)"
  by (induction ths arbitrary: ok) (auto simp: Let_def)

lemma entry_allowed_iff:
  "entry_allowed_by_state c (throttle_level d cfg) \<longleftrightarrow>
     mc_state c = NORMAL \<and> d < dd_no_new_entry_at cfg \<and> d < dd_safe_mode_at cfg"
  by (cases "mc_state c") (auto simp: entry_allowed_by_state_def throttle_level_def)

lemma fle_leverage:
  "fle (if 0 < e then Fin (x / e) else PosInf) (Fin b) \<longleftrightarrow> 0 < e \<and> x / e \<le> b"
  by simp

text \<open>All checks pass exactly under the policy.\<close>

lemma gate_buy_iff:
  assumes "oi_side i = BUY"
  shows "list_all rc_passed (gate_checks c i v entry_price st) \<longleftrightarrow>
    entry_policy c i v entry_price st \<and> buy_limits c i v entry_price"
  using assms
  by (simp add: gate_checks_def Let_def fle_leverage entry_allowed_iff theme_loop_iff
      entry_policy_def buy_limits_def not_le del: fle.simps) blast

lemma gate_exit_iff:
  assumes "oi_side i = SELL" "oi_protective i"
  shows "list_all rc_passed (gate_checks c i v entry_price st) \<longleftrightarrow>
    exit_policy c i v st \<and> not_short i v"
  using assms
  by (cases st) (auto simp: gate_checks_def Let_def exit_allowed_by_state_def exit_policy_def
      not_short_def)

lemma gate_sell_iff:
  assumes "oi_side i = SELL" "\<not> oi_protective i"
  shows "list_all rc_passed (gate_checks c i v entry_price st) \<longleftrightarrow>
    entry_policy c i v entry_price st \<and> not_short i v"
  using assms
  by (simp add: gate_checks_def Let_def entry_allowed_iff entry_policy_def not_short_def) blast

lemma filter_not_Nil_iff: "filter (\<lambda>k. \<not> P k) xs = [] \<longleftrightarrow> list_all P xs"
  by (induction xs) auto

lemma approves_iff:
  "approves pr now uuid i v entry_price c \<longleftrightarrow>
    (\<exists>st. status (pr_to_et pr) (mc_calendar c) now = Inr st \<and>
      list_all rc_passed (gate_checks c i v entry_price st))"
  by (auto simp: approves_def review_def Let_def filter_not_Nil_iff split: sum.splits)

lemma review_approval:
  assumes "review pr now uuid i v entry_price c = (Inr (Inr a), c')"
  shows "ap_id a = uuid" "ap_cid a = oi_id i" "ap_symbol a = oi_symbol i" "ap_side a = oi_side i"
    "ap_qty a = oi_qty i" "ap_hash a = order_intent_hash (pr_sha pr) i"
    "ap_sig a = sign_order pr c i uuid (order_intent_hash (pr_sha pr) i)"
    "c' = c\<lparr>mc_log := mc_log c @ [Inr a]\<rparr>"
  using assms by (auto simp: review_def Let_def split: sum.splits if_splits)

lemma approval_message_review:
  assumes "review pr now uuid i v entry_price c = (Inr (Inr a), c')"
  shows "ap_sig a = pr_hmac pr (mc_key c) (approval_message pr a)"
  using review_approval [OF assms] by (simp add: sign_order_def approval_message_def)

section \<open>The payload determines the order\<close>

text \<open>
  Fields without a bar can be read back from a joined string, so equal payloads mean equal
  fields. Identifiers of the program never contain a bar.
\<close>

definition bar_free :: "string \<Rightarrow> bool" where
  "bar_free s = (CHR ''|'' \<notin> set s)"

lemma append_bar_inj:
  "bar_free a \<Longrightarrow> bar_free b \<Longrightarrow> a @ CHR ''|'' # x = b @ CHR ''|'' # y \<Longrightarrow> a = b \<and> x = y"
proof (induction a arbitrary: b)
  case Nil
  then show ?case by (cases b) (auto simp: bar_free_def)
next
  case (Cons c a)
  then show ?case by (cases b) (auto simp: bar_free_def)
qed

lemma join_bar_Cons2: "join_bar (s # t # ss) = s @ CHR ''|'' # join_bar (t # ss)"
  by simp

lemma join_bar_inj:
  "list_all bar_free xs \<Longrightarrow> list_all bar_free ys \<Longrightarrow> length xs = length ys \<Longrightarrow>
    join_bar xs = join_bar ys \<Longrightarrow> xs = ys"
proof (induction xs arbitrary: ys rule: join_bar.induct)
  case 1
  then show ?case by simp
next
  case (2 s)
  then show ?case by (cases ys) auto
next
  case (3 s t ss)
  then obtain s' t' ss' where ys: "ys = s' # t' # ss'"
    by (cases ys; cases "tl ys") auto
  have eq: "s @ CHR ''|'' # join_bar (t # ss) = s' @ CHR ''|'' # join_bar (t' # ss')"
    using "3.prems"(4) unfolding ys join_bar_Cons2 .
  have "s = s' \<and> join_bar (t # ss) = join_bar (t' # ss')"
    by (rule append_bar_inj [OF _ _ eq]) (use "3.prems"(1,2) ys in auto)
  moreover from this have "t # ss = t' # ss'"
    by (intro "3.IH") (use "3.prems"(1-3) ys in auto)
  ultimately show ?case using ys by simp
qed

lemma bar_free_simps [simp]:
  "bar_free []"
  "bar_free (ch # s) \<longleftrightarrow> ch \<noteq> CHR ''|'' \<and> bar_free s"
  "bar_free (a @ b) \<longleftrightarrow> bar_free a \<and> bar_free b"
  by (auto simp: bar_free_def)

lemma digit_char_not_bar: "0 \<le> d \<Longrightarrow> d < 10 \<Longrightarrow> digit_char d \<noteq> CHR ''|''"
proof
  assume d: "0 \<le> d" "d < 10" and eq: "digit_char d = CHR ''|''"
  have "of_char (digit_char d) = (48 + d) mod 256" by (simp add: digit_char_def)
  moreover have "(48 + d) mod 256 = 48 + d" using d by simp
  moreover have "of_char (CHR ''|'') = (124 :: int)" by simp
  ultimately show False using eq d by simp
qed

lemma bar_free_pos_digits: "0 \<le> k \<Longrightarrow> bar_free (pos_digits k)"
proof (induction k rule: pos_digits.induct)
  case (1 k)
  have "bar_free [digit_char (k mod 10)]" "k < 10 \<Longrightarrow> bar_free [digit_char k]"
    using digit_char_not_bar [of "k mod 10"] digit_char_not_bar [of k] "1.prems"
    by (auto simp: bar_free_def)
  with 1 show ?case by (subst pos_digits.simps) auto
qed

lemma bar_free_str_int: "bar_free (str_int k)"
  using bar_free_pos_digits [of k] bar_free_pos_digits [of "- k"]
  by (auto simp: str_int_def bar_free_def)

lemma set_drop_zeros: "set (drop_zeros s) \<subseteq> set s"
  by (induction s) auto

lemma bar_free_strip_zeros: "bar_free s \<Longrightarrow> bar_free (strip_zeros s)"
  using set_drop_zeros [of "rev s"] by (auto simp: strip_zeros_def bar_free_def)

lemma bar_free_take_drop: "bar_free s \<Longrightarrow> bar_free (take n s)" "bar_free s \<Longrightarrow> bar_free (drop n s)"
  by (auto simp: bar_free_def dest: in_set_takeD in_set_dropD)

lemma bar_free_with_fraction: "bar_free i \<Longrightarrow> bar_free f \<Longrightarrow> bar_free (with_fraction i f)"
  using bar_free_strip_zeros [of f] by (auto simp: with_fraction_def Let_def bar_free_def)

lemma bar_free_fmt_10g: "bar_free (fmt_10g x)"
proof (cases "x = 0")
  case True
  then show ?thesis by (simp add: fmt_10g_def bar_free_def)
next
  case False
  have lits: "bar_free []" "bar_free ''-''" "bar_free (replicate n (CHR ''0''))"
    "bar_free ''0''" "bar_free ''e''" "bar_free ''+''" for n
    by (auto simp: bar_free_def)
  show ?thesis
    using False lits bar_free_str_int bar_free_take_drop [OF bar_free_str_int]
    by (auto simp: fmt_10g_def Let_def split_def pad0_def intro!: bar_free_with_fraction)
qed

lemma bar_free_fmt_opt: "bar_free (fmt_opt x)"
  by (cases x) (simp_all add: fmt_opt_def bar_free_fmt_10g)

lemma bar_free_values: "bar_free (action_value s)" "bar_free (order_type_value t)"
  by (cases s; simp add: bar_free_def) (cases t; simp add: bar_free_def)

lemma action_value_inj: "action_value a = action_value b \<longleftrightarrow> a = b"
  by (cases a; cases b) simp_all

lemma order_type_value_inj: "order_type_value a = order_type_value b \<longleftrightarrow> a = b"
  by (cases a; cases b) simp_all

lemma order_payload_inj:
  assumes "bar_free (oi_symbol i)" "bar_free (oi_id i)" "bar_free (oi_symbol j)" "bar_free (oi_id j)"
    and "bar_free tif" "bar_free tif'" and "order_payload i tp tif = order_payload j tp' tif'"
  shows "oi_symbol i = oi_symbol j \<and> oi_side i = oi_side j \<and> fmt_10g (oi_qty i) = fmt_10g (oi_qty j)
    \<and> oi_type i = oi_type j \<and> fmt_opt (oi_limit i) = fmt_opt (oi_limit j)
    \<and> fmt_opt (oi_stop i) = fmt_opt (oi_stop j) \<and> fmt_opt tp = fmt_opt tp' \<and> tif = tif'
    \<and> oi_id i = oi_id j"
proof -
  have "[oi_symbol i, action_value (oi_side i), fmt_10g (oi_qty i), order_type_value (oi_type i),
      fmt_opt (oi_limit i), fmt_opt (oi_stop i), fmt_opt tp, tif, oi_id i] =
    [oi_symbol j, action_value (oi_side j), fmt_10g (oi_qty j), order_type_value (oi_type j),
      fmt_opt (oi_limit j), fmt_opt (oi_stop j), fmt_opt tp', tif', oi_id j]"
    by (rule join_bar_inj)
      (use assms in \<open>simp_all add: order_payload_def canonical_order_payload_def bar_free_fmt_10g
        bar_free_fmt_opt bar_free_values\<close>)
  then show ?thesis by (simp add: action_value_inj order_type_value_inj)
qed

definition approval_clean :: "prims \<Rightarrow> risk_approval \<Rightarrow> bool" where
  "approval_clean pr a \<longleftrightarrow>
     list_all bar_free [ap_id a, ap_cid a, ap_symbol a, pr_repr pr (ap_qty a), ap_hash a]"

lemma approval_message_inj:
  assumes "approval_clean pr a" "approval_clean pr b"
    and "approval_message pr a = approval_message pr b"
  shows "ap_id a = ap_id b \<and> ap_cid a = ap_cid b \<and> ap_symbol a = ap_symbol b \<and> ap_side a = ap_side b
    \<and> pr_repr pr (ap_qty a) = pr_repr pr (ap_qty b) \<and> ap_hash a = ap_hash b"
proof -
  have "[ap_id a, ap_cid a, ap_symbol a, action_value (ap_side a), pr_repr pr (ap_qty a), ap_hash a] =
    [ap_id b, ap_cid b, ap_symbol b, action_value (ap_side b), pr_repr pr (ap_qty b), ap_hash b]"
    by (rule join_bar_inj)
      (use assms in \<open>simp_all add: approval_message_def sign_message_def approval_clean_def
        bar_free_values\<close>)
  then show ?thesis by (simp add: action_value_inj)
qed

section \<open>Properties\<close>

text \<open>
  C7. The gate implements the risk policy exactly. With a known session status it approves a
  BUY if and only if the entry policy and all limits on leverage, settled cash, exposure,
  position size, liquidity and themes hold at a positive price; a protective SELL if and only
  if the broker can be reached, trading is not halted and the shares are held; and any other
  SELL if and only if the entry policy holds and the shares are held.
\<close>

theorem gate_implements_policy:
  assumes "status (pr_to_et pr) (mc_calendar c) now = Inr st"
  shows "approves pr now uuid i v entry_price c \<longleftrightarrow>
    (if oi_side i = BUY then entry_policy c i v entry_price st \<and> buy_limits c i v entry_price
     else if oi_protective i then exit_policy c i v st \<and> not_short i v
     else entry_policy c i v entry_price st \<and> not_short i v)"
  using assms gate_buy_iff gate_exit_iff gate_sell_iff
  by (cases "oi_side i") (auto simp: approves_iff)

definition demo_calendar :: trading_calendar where
  "demo_calendar = \<lparr>cal_provider = static_provider, circuit_breaker = False\<rparr>"

definition demo_prims :: prims where
  "demo_prims = \<lparr>pr_sha = (\<lambda>s. ''5ha''), pr_hmac = (\<lambda>k m. k @ ''/'' @ m), pr_repr = (\<lambda>x. ''2.0''),
     pr_to_et = (\<lambda>t. (Date 2025 7 7, t))\<rparr>"

definition demo_controller :: controller where
  "demo_controller = \<lparr>mc_config = DEFAULT_RISK_CONFIG, mc_calendar = demo_calendar,
     mc_state = NORMAL, mc_key = ''key'', mc_log = []\<rparr>"

definition demo_view :: risk_view where
  "demo_view = \<lparr>rv_equity = 1000, rv_settled = 1000, rv_exposure = 0, rv_position_notional = [],
     rv_position_qty = [(''ABC'', 5)], rv_theme_exposure = [], rv_symbol_themes = [(''ABC'', [''ai''])],
     rv_drawdown = 0, rv_stop_plan = True, rv_gap = 1/4, rv_adv = 1000000, rv_correlation = 0,
     rv_reconciled = True, rv_health = OK, rv_connected = True, rv_spread = 1/1000,
     rv_known_ids = [], rv_signal_age = 1, rv_margin = 0\<rparr>"

definition demo_intent :: "action \<Rightarrow> order_intent" where
  "demo_intent side = \<lparr>oi_id = ''paper-0001'', oi_proposal = ''prop'', oi_symbol = ''ABC'',
     oi_side = side, oi_qty = 2, oi_type = MARKET, oi_limit = None, oi_stop = None,
     oi_env = PAPER, oi_protective = False, oi_created = 0\<rparr>"

text \<open>10:00 in New York on Monday, 7 July 2025.\<close>

lemma demo_status: "status (pr_to_et demo_prims) demo_calendar (hhmm 10 0) = Inr OPEN"
proof -
  have h: "hours_of static_provider (Date 2025 7 7) = Inr (Some REGULAR)" by code_simp
  have t: "open_et REGULAR \<le> hhmm 10 0 \<and> hhmm 10 0 < close_et REGULAR" by code_simp
  show ?thesis using t by (simp add: status_def demo_calendar_def demo_prims_def h)
qed

lemma gate_implements_policy_witness:
  "approves demo_prims (hhmm 10 0) ''u1'' (demo_intent BUY) demo_view (Some 100) demo_controller \<and>
   \<not> approves demo_prims (hhmm 10 0) ''u1'' (demo_intent BUY) demo_view (Some 200) demo_controller"
proof -
  have st: "status (pr_to_et demo_prims) (mc_calendar demo_controller) (hhmm 10 0) = Inr OPEN"
    using demo_status by (simp add: demo_controller_def)
  show ?thesis
    unfolding gate_implements_policy [OF st]
    by (simp add: demo_intent_def demo_view_def demo_controller_def DEFAULT_RISK_CONFIG_def
        entry_policy_def buy_limits_def reference_price_def or_float_def the_or0_def dget_or_def
        Let_def eps_def)
qed

text \<open>
  MASTER STOP. In any state but NORMAL, or with the drawdown at the no-new-entry level,
  nothing but a protective exit is approved; with the broker disconnected nothing is. A
  protective exit is approved in every other state and at every drawdown exactly as it is in
  the state NORMAL.
\<close>

theorem master_stop_semantics:
  "((mc_state c \<noteq> NORMAL \<or> dd_no_new_entry_at (mc_config c) \<le> rv_drawdown v) \<and>
      \<not> (oi_side i = SELL \<and> oi_protective i) \<longrightarrow> \<not> approves pr now uuid i v entry_price c) \<and>
   (mc_state c = FULL_BROKER_DISCONNECT \<longrightarrow> \<not> approves pr now uuid i v entry_price c) \<and>
   (oi_side i = SELL \<and> oi_protective i \<and> mc_state c \<noteq> FULL_BROKER_DISCONNECT \<longrightarrow>
      approves pr now uuid i v entry_price c =
      approves pr now uuid' i (v\<lparr>rv_drawdown := 0\<rparr>) None (set_state NORMAL c))"
proof -
  consider (buy) "oi_side i = BUY" | (ex) "oi_side i = SELL" "oi_protective i"
    | (sell) "oi_side i = SELL" "\<not> oi_protective i" by (cases "oi_side i") auto
  then show ?thesis
    by cases (auto simp: approves_iff gate_buy_iff gate_sell_iff gate_exit_iff
        entry_policy_def exit_policy_def not_short_def set_state_def)
qed

lemma master_stop_semantics_witness:
  "\<not> approves demo_prims (hhmm 10 0) ''u1'' (demo_intent BUY) demo_view (Some 100)
       (set_state SAFE_EXIT demo_controller) \<and>
   approves demo_prims (hhmm 10 0) ''u1'' ((demo_intent SELL)\<lparr>oi_protective := True\<rparr>) demo_view None
       (set_state SAFE_EXIT demo_controller)"
proof -
  have st: "status (pr_to_et demo_prims) (mc_calendar demo_controller) (hhmm 10 0) = Inr OPEN"
    using demo_status by (simp add: demo_controller_def)
  have n: "approves demo_prims (hhmm 10 0) ''u1'' ((demo_intent SELL)\<lparr>oi_protective := True\<rparr>)
      (demo_view\<lparr>rv_drawdown := 0\<rparr>) None (set_state NORMAL (set_state SAFE_EXIT demo_controller))"
    using st by (simp add: approves_iff gate_exit_iff demo_intent_def demo_view_def exit_policy_def
        not_short_def demo_controller_def set_state_def dget_or_def add_nonneg_nonneg)
  show ?thesis
    using n master_stop_semantics [of "set_state SAFE_EXIT demo_controller" demo_view "demo_intent BUY"
        demo_prims "hhmm 10 0" "''u1''" "Some 100" "''u1''"]
      master_stop_semantics [of "set_state SAFE_EXIT demo_controller" demo_view
        "(demo_intent SELL)\<lparr>oi_protective := True\<rparr>" demo_prims "hhmm 10 0" "''u1''" None "''u1''"]
    by (simp add: demo_intent_def set_state_def)
qed

text \<open>
  C8. An approved BUY has passed every limit of the gate. Under a validated configuration the
  exposure after the order is at most the equity (to the tolerance), and at most what the
  capital stage admits; the order is priced, covered by settled cash, within the position limit, the
  participation in the average daily volume and each theme limit of its symbol; gap risk,
  spread and age of the signal are within their bounds, no margin is used, a stop is planned;
  the controller is in its normal state below both drawdown thresholds, the broker is connected
  and reconciled, the data is not in a halt, the client id is new and the session is open.
\<close>

theorem approved_buy_is_covered:
  assumes "mk_risk_config cfg = Inr (mc_config c)" and "oi_side i = BUY"
    and "approves pr now uuid i v entry_price c"
    and "cost = oi_qty i * reference_price i entry_price"
  shows "0 < reference_price i entry_price \<and> rv_exposure v + cost \<le> rv_equity v * (1 + eps) \<and>
    rv_exposure v + cost \<le> rv_equity v * max_total_exposure_pct (mc_config c)
      * exposure_cap_stage (mc_config c) + eps \<and>
    cost \<le> rv_settled v + eps \<and> cost \<le> rv_equity v * max_position_pct (mc_config c) + eps \<and>
    oi_qty i \<le> rv_adv v * max_adv_participation (mc_config c) + eps \<and>
    rv_gap v \<le> max_gap_risk_score (mc_config c) \<and> rv_spread v \<le> max_spread_pct (mc_config c) \<and>
    rv_signal_age v \<le> stale_order_after_sec (mc_config c) \<and> \<bar>rv_margin v\<bar> \<le> eps \<and>
    rv_stop_plan v \<and> rv_health v \<noteq> HALT_ENTRIES \<and> oi_id i \<notin> set (rv_known_ids v) \<and>
    mc_state c = NORMAL \<and> rv_drawdown v < dd_no_new_entry_at (mc_config c) \<and>
    rv_drawdown v < dd_safe_mode_at (mc_config c) \<and> rv_connected v \<and> rv_reconciled v \<and>
    status (pr_to_et pr) (mc_calendar c) now = Inr OPEN \<and>
    (\<forall>th \<in> set (dget_or (rv_symbol_themes v) (oi_symbol i) []).
      dget_or (rv_theme_exposure v) th 0 + cost \<le> rv_equity v * max_theme_exposure_pct (mc_config c) + eps)"
proof -
  have cfg: "max_leverage (mc_config c) \<le> 1"
    using mk_risk_config_ok [OF assms(1)] by (simp add: config_ok_def)
  from assms(2,3) obtain st where
    p: "entry_policy c i v entry_price st" "buy_limits c i v entry_price"
    and st: "status (pr_to_et pr) (mc_calendar c) now = Inr st"
    by (auto simp: approves_iff gate_buy_iff)
  then have e: "0 < rv_equity v" and
    l: "(rv_exposure v + cost) / rv_equity v \<le> max_leverage (mc_config c) + eps"
    using assms(4) by (auto simp: buy_limits_def Let_def)
  from l cfg have "(rv_exposure v + cost) / rv_equity v \<le> 1 + eps" by linarith
  then have "rv_exposure v + cost \<le> rv_equity v * (1 + eps)"
    using e by (simp add: pos_divide_le_eq mult.commute)
  then show ?thesis
    using p st assms(4) by (simp add: buy_limits_def entry_policy_def Let_def)
qed

lemma demo_config: "mk_risk_config DEFAULT_RISK_CONFIG = Inr (mc_config demo_controller)"
  by (simp add: mk_risk_config_def demo_controller_def DEFAULT_RISK_CONFIG_def risk_params_def)

lemma demo_approves:
  "approves demo_prims (hhmm 10 0) ''u1'' (demo_intent BUY) demo_view (Some 100) demo_controller"
proof -
  have st: "status (pr_to_et demo_prims) (mc_calendar demo_controller) (hhmm 10 0) = Inr OPEN"
    using demo_status by (simp add: demo_controller_def)
  then show ?thesis
    by (simp add: approves_iff gate_buy_iff demo_intent_def demo_view_def demo_controller_def
        DEFAULT_RISK_CONFIG_def entry_policy_def buy_limits_def reference_price_def or_float_def
        the_or0_def dget_or_def Let_def eps_def)
qed

lemma approved_buy_is_covered_witness:
  "rv_exposure demo_view + 2 * reference_price (demo_intent BUY) (Some 100) \<le> rv_equity demo_view * (1 + eps) \<and>
   oi_qty (demo_intent BUY) \<le> rv_adv demo_view * max_adv_participation (mc_config demo_controller) + eps \<and>
   rv_signal_age demo_view \<le> stale_order_after_sec (mc_config demo_controller)"
proof -
  have s: "oi_side (demo_intent BUY) = BUY" by (simp add: demo_intent_def)
  from approved_buy_is_covered [OF demo_config s demo_approves refl] show ?thesis
    by (simp add: demo_intent_def)
qed

text \<open>
  C9. An approval binds the order it was minted for. If an order is accepted together with an
  approval that carries the signature of a reviewed one and verifies, then client id, symbol,
  side, quantity, order type and, to the ten digits of the canonical form, limit and stop
  price are those that were reviewed. The hypotheses are that the two messages and the two
  payloads concerned do not collide under HMAC and SHA-256, that distinct floats print
  differently, and that identifiers contain no bar.
\<close>

theorem approval_binds_order:
  assumes "review pr now uuid i v entry_price c = (Inr (Inr a), c')"
    and "mk_approved_order (pr_sha pr) j b = Inr order" and "verify_signature pr c' b"
    and "ap_sig b = ap_sig a"
    and hmac: "pr_hmac pr (mc_key c) (approval_message pr b) = pr_hmac pr (mc_key c) (approval_message pr a)
      \<Longrightarrow> approval_message pr b = approval_message pr a"
    and sha: "pr_sha pr (order_payload j None ''DAY'') = pr_sha pr (order_payload i None ''DAY'')
      \<Longrightarrow> order_payload j None ''DAY'' = order_payload i None ''DAY''"
    and repr: "pr_repr pr (ap_qty b) = pr_repr pr (ap_qty a) \<Longrightarrow> ap_qty b = ap_qty a"
    and clean: "approval_clean pr a" "approval_clean pr b"
  shows "oi_id j = oi_id i \<and> oi_symbol j = oi_symbol i \<and> oi_side j = oi_side i \<and> oi_qty j = oi_qty i \<and>
    oi_type j = oi_type i \<and> fmt_opt (oi_limit j) = fmt_opt (oi_limit i) \<and>
    fmt_opt (oi_stop j) = fmt_opt (oi_stop i) \<and> ap_id b = uuid"
proof -
  note a = review_approval [OF assms(1)]
  have "mc_key c' = mc_key c" using a(8) by simp
  with assms(3,4) approval_message_review [OF assms(1)]
  have "approval_message pr b = approval_message pr a"
    by (intro hmac) (simp add: verify_signature_def)
  from approval_message_inj [OF clean(2,1) this] repr
  have ab: "ap_id b = ap_id a" "ap_cid b = ap_cid a" "ap_symbol b = ap_symbol a"
    "ap_side b = ap_side a" "ap_qty b = ap_qty a" "ap_hash b = ap_hash a" by auto
  from assms(2) have j: "ap_cid b = oi_id j" "ap_symbol b = oi_symbol j" "ap_side b = oi_side j"
    "ap_qty b = oi_qty j" "ap_hash b = order_intent_hash (pr_sha pr) j"
    by (auto simp: mk_approved_order_def split: if_splits)
  have "order_payload j None ''DAY'' = order_payload i None ''DAY''"
    using ab(6) j(5) a(6) by (intro sha) (simp add: order_intent_hash_def)
  moreover have "bar_free (oi_symbol i)" "bar_free (oi_id i)"
    using clean(1) a(2,3) by (auto simp: approval_clean_def)
  moreover have "bar_free (oi_symbol j)" "bar_free (oi_id j)"
    using clean(2) j(1,2) by (auto simp: approval_clean_def)
  moreover have "bar_free ''DAY''" by (simp add: bar_free_def)
  ultimately have "oi_type j = oi_type i \<and> fmt_opt (oi_limit j) = fmt_opt (oi_limit i) \<and>
    fmt_opt (oi_stop j) = fmt_opt (oi_stop i)"
    using order_payload_inj [of j i "''DAY''" "''DAY''" None None] by blast
  with ab j a(1-5) show ?thesis by auto
qed

lemma approval_binds_order_witness:
  "\<exists>a c' order. review demo_prims (hhmm 10 0) ''u1'' (demo_intent BUY) demo_view (Some 100) demo_controller
      = (Inr (Inr a), c') \<and> mk_approved_order (pr_sha demo_prims) (demo_intent BUY) a = Inr order \<and>
    verify_signature demo_prims c' a \<and> ap_id a = ''u1''"
proof -
  let ?r = "review demo_prims (hhmm 10 0) ''u1'' (demo_intent BUY) demo_view (Some 100) demo_controller"
  obtain a where "fst ?r = Inr (Inr a)"
    using demo_approves by (auto simp: approves_def split: sum.splits)
  then have r: "?r = (Inr (Inr a), snd ?r)" by (simp add: prod_eq_iff)
  note a = review_approval [OF r]
  have o: "mk_approved_order (pr_sha demo_prims) (demo_intent BUY) a =
      Inr \<lparr>ao_intent = demo_intent BUY, ao_approval = a\<rparr>"
    using a by (simp add: mk_approved_order_def)
  have "mc_key (snd ?r) = mc_key demo_controller" using a(8) by simp
  then have v: "verify_signature demo_prims (snd ?r) a"
    using approval_message_review [OF r] by (simp add: verify_signature_def)
  have "approval_clean demo_prims a"
    using a by (simp add: approval_clean_def demo_prims_def demo_intent_def bar_free_def
        order_intent_hash_def)
  from approval_binds_order [OF r o v refl _ _ _ this this] have "ap_id a = ''u1''" by blast
  with r o v show ?thesis by blast
qed

end
