(* ===== verification/Broker.thy ===== *)
theory Broker
  imports Schemas
begin

text \<open>
  \<open>packages/broker_adapters/base.py\<close> and \<open>packages/broker_adapters/paper.py\<close>: the adapter
  interface as a record of operations on an abstract broker, the contract its client relies
  on as a locale, and the paper broker as the interpretation. The paper broker's quotes,
  clock and random ids are components of its state; a fault is the injected one.
\<close>

section \<open>The adapter interface\<close>

record 'b adapter =
  ad_submit :: "broker_request \<Rightarrow> ('b, broker_ack) act"
  ad_cancel :: "string \<Rightarrow> ('b, broker_ack) act"
  ad_status :: "string \<Rightarrow> 'b \<Rightarrow> exn + broker_status"
  ad_positions :: "'b \<Rightarrow> exn + broker_position list"
  ad_cash :: "'b \<Rightarrow> exn + broker_cash"
  ad_open_orders :: "'b \<Rightarrow> exn + broker_status list"
  ad_fills :: "instant \<Rightarrow> 'b \<Rightarrow> exn + broker_fill list"
  ad_poll :: "('b, broker_fill list) act"

text \<open>What a fill total is: the quantity an order has filled so far.\<close>

definition filled_total :: "string \<Rightarrow> broker_fill list \<Rightarrow> real" where
  "filled_total cid fs = (\<Sum>f\<leftarrow>filter (\<lambda>f. bf_cid f = cid) fs. bf_qty f)"

locale broker_contract =
  fixes A :: "'b adapter"
    and binv :: "'b \<Rightarrow> bool"
    and req_of :: "'b \<Rightarrow> string \<Rightarrow> broker_request option"
    and fills_of :: "'b \<Rightarrow> broker_fill list"
  assumes submit_inv: "binv b \<Longrightarrow> 0 < br_qty r \<Longrightarrow> ad_submit A r b = (x, b') \<Longrightarrow> binv b'"
    and cancel_inv: "binv b \<Longrightarrow> ad_cancel A cid b = (y, b') \<Longrightarrow> binv b'"
    and poll_inv: "binv b \<Longrightarrow> ad_poll A b = (z, b') \<Longrightarrow> binv b'"
    and submit_req: "ad_submit A r b = (x, b') \<Longrightarrow>
      b' = b \<or> (req_of b (br_cid r) = None \<and> req_of b' = (req_of b)(br_cid r \<mapsto> r))"
    and cancel_req: "ad_cancel A cid b = (y, b') \<Longrightarrow> req_of b' = req_of b"
    and poll_req: "ad_poll A b = (z, b') \<Longrightarrow> req_of b' = req_of b"
    and duplicate: "req_of b (br_cid r) \<noteq> None \<Longrightarrow> \<exists>e. ad_submit A r b = (Inl e, b)"
    and no_overfill: "binv b \<Longrightarrow> req_of b cid = Some r \<Longrightarrow> filled_total cid (fills_of b) \<le> br_qty r"
    and fill_of_order: "binv b \<Longrightarrow> f \<in> set (fills_of b) \<Longrightarrow>
      \<exists>r. req_of b (bf_cid f) = Some r \<and> bf_symbol f = br_symbol r \<and> bf_side f = br_side r"
begin

text \<open>However often the same request is sent, the broker holds the order at most once.\<close>

lemma resubmission_is_refused:
  assumes "ad_submit A r b = (x, b')" and "b' \<noteq> b"
  shows "\<exists>e. ad_submit A r b' = (Inl e, b')"
  using submit_req [OF assms(1)] assms(2) by (intro duplicate) auto

end

section \<open>The paper broker\<close>

datatype fault = NO_FAULT | TIMEOUT | DISCONNECT | PARTIAL_FILL

record paper_order =
  po_req :: broker_request
  po_id :: string
  po_state :: order_state
  po_filled :: real
  po_fills :: "broker_fill list"

record paper =
  pb_quote :: "string \<Rightarrow> exn + real quote"
  pb_now :: instant
  pb_uuid :: "nat \<Rightarrow> string"
  pb_n :: nat
  pb_settled :: real
  pb_unsettled :: real
  pb_fee_bps :: real
  pb_slip_bps :: real
  pb_orders :: "(string, paper_order) dict"
  pb_positions :: "(string, broker_position) dict"
  pb_fills :: "broker_fill list"
  pb_fault :: fault

definition check_disconnect :: "paper \<Rightarrow> bool" where
  "check_disconnect s \<longleftrightarrow> pb_fault s = DISCONNECT"

definition fill_price :: "paper \<Rightarrow> broker_request \<Rightarrow> real quote \<Rightarrow> exn + real option" where
  "fill_price s r q =
     (let slip = quote_mid q * pb_slip_bps s / 10000 in
      case br_type r of
        MARKET \<Rightarrow> Inr (Some (if br_side r = BUY then q_ask q + slip else max (1/100) (q_bid q - slip)))
      | LIMIT \<Rightarrow>
          (case br_limit r of
             None \<Rightarrow> Inl AssertionError
           | Some lmt \<Rightarrow>
               if br_side r = BUY \<and> q_ask q \<le> lmt then Inr (Some (q_ask q))
               else if br_side r = SELL \<and> lmt \<le> q_bid q then Inr (Some (q_bid q))
               else Inr None)
      | STOP \<Rightarrow>
          (case br_stop r of
             None \<Rightarrow> Inl AssertionError
           | Some stp \<Rightarrow>
               if br_side r = SELL \<and> q_bid q \<le> stp then Inr (Some (max (1/100) (q_bid q - slip)))
               else Inr None))"

definition put_order :: "string \<Rightarrow> paper_order \<Rightarrow> paper \<Rightarrow> paper" where
  "put_order cid po s = s\<lparr>pb_orders := dput (pb_orders s) cid po\<rparr>"

text \<open>The last statements of \<open>_execute\<close>: the fill is created, logged and counted.\<close>

definition book_fill :: "string \<Rightarrow> paper_order \<Rightarrow> real \<Rightarrow> real \<Rightarrow> real \<Rightarrow> (paper, unit) act" where
  "book_fill cid po qty px fees s =
     (let r = po_req po in
      case mk_broker_fill \<lparr>bf_id = pb_uuid s (pb_n s), bf_cid = br_cid r, bf_symbol = br_symbol r,
             bf_side = br_side r, bf_qty = qty, bf_price = py_round 6 px, bf_fees = py_round 6 fees,
             bf_ts = pb_now s\<rparr> of
        Inl e \<Rightarrow> (Inl e, s)
      | Inr f \<Rightarrow>
          (let filled = po_filled po + qty
           in (Inr (), put_order cid (po\<lparr>po_fills := po_fills po @ [f], po_filled := filled,
                 po_state := (if br_qty r - eps \<le> filled then FILLED else PARTIALLY_FILLED)\<rparr>)
               (s\<lparr>pb_n := pb_n s + 1, pb_fills := pb_fills s @ [f]\<rparr>))))"

definition cannot_fill :: "string \<Rightarrow> paper_order \<Rightarrow> (paper, unit) act" where
  "cannot_fill cid po s =
     (Inr (), if po_filled po \<le> eps then put_order cid (po\<lparr>po_state := REJECTED\<rparr>) s else s)"

definition execute_buy :: "string \<Rightarrow> paper_order \<Rightarrow> real \<Rightarrow> real \<Rightarrow> real \<Rightarrow> real \<Rightarrow> (paper, unit) act" where
  "execute_buy cid po qty px cost fees s =
     (let r = po_req po in
      if pb_settled s + eps < cost + fees then cannot_fill cid po s
      else
        (let s1 = s\<lparr>pb_settled := pb_settled s - (cost + fees)\<rparr>;
             pos = dget (pb_positions s) (br_symbol r);
             held = (case pos of None \<Rightarrow> 0 | Some p \<Rightarrow> bp_qty p);
             basis = (case pos of None \<Rightarrow> 0 | Some p \<Rightarrow> bp_qty p * bp_avg p);
             new_qty = held + qty
         in if new_qty = 0 then (Inl ZeroDivisionError, s1)
            else case mk_broker_position \<lparr>bp_symbol = br_symbol r, bp_qty = new_qty,
                        bp_avg = py_round 6 ((basis + cost) / new_qty)\<rparr> of
                   Inl e \<Rightarrow> (Inl e, s1)
                 | Inr p \<Rightarrow> book_fill cid po qty px fees
                     (s1\<lparr>pb_positions := dput (pb_positions s) (br_symbol r) p\<rparr>)))"

definition execute_sell :: "string \<Rightarrow> paper_order \<Rightarrow> real \<Rightarrow> real \<Rightarrow> real \<Rightarrow> real \<Rightarrow> (paper, unit) act" where
  "execute_sell cid po qty px cost fees s =
     (let r = po_req po in
      case dget (pb_positions s) (br_symbol r) of
        None \<Rightarrow> cannot_fill cid po s
      | Some pos \<Rightarrow>
          if bp_qty pos + eps < qty then cannot_fill cid po s
          else
            (let remaining = bp_qty pos - qty;
                 upd = (\<lambda>ps. s\<lparr>pb_positions := ps, pb_unsettled := pb_unsettled s + (cost - fees)\<rparr>)
             in if remaining \<le> eps
                then book_fill cid po qty px fees (upd (ddel (pb_positions s) (br_symbol r)))
                else case mk_broker_position \<lparr>bp_symbol = br_symbol r, bp_qty = remaining,
                            bp_avg = bp_avg pos\<rparr> of
                       Inl e \<Rightarrow> (Inl e, s)
                     | Inr p \<Rightarrow> book_fill cid po qty px fees
                         (upd (dput (pb_positions s) (br_symbol r) p))))"

definition execute :: "string \<Rightarrow> (paper, unit) act" where
  "execute cid s =
     (case dget (pb_orders s) cid of
        None \<Rightarrow> (Inr (), s)
      | Some po \<Rightarrow>
          (let r = po_req po in
           case pb_quote s (br_symbol r) of
             Inl e \<Rightarrow> (Inl e, s)
           | Inr q \<Rightarrow>
               (case fill_price s r q of
                  Inl e \<Rightarrow> (Inl e, s)
                | Inr None \<Rightarrow> (Inr (), s)
                | Inr (Some px) \<Rightarrow>
                    (let remaining = br_qty r - po_filled po in
                     if remaining \<le> eps then (Inr (), s)
                     else
                       (let qty = (if pb_fault s = PARTIAL_FILL then remaining / 2 else remaining);
                            cost = qty * px;
                            fees = cost * pb_fee_bps s / 10000
                        in (if br_side r = BUY then execute_buy cid po qty px cost fees s
                            else execute_sell cid po qty px cost fees s))))))"

definition pb_submit :: "broker_request \<Rightarrow> (paper, broker_ack) act" where
  "pb_submit r s =
     (if check_disconnect s then (Inl BrokerDisconnectedError, s)
      else if dhas (pb_orders s) (br_cid r) then (Inl DuplicateClientOrderIdError, s)
      else
        (let bid = pb_uuid s (pb_n s);
             s1 = put_order (br_cid r) \<lparr>po_req = r, po_id = bid, po_state = ACKNOWLEDGED,
                    po_filled = 0, po_fills = []\<rparr> (s\<lparr>pb_n := pb_n s + 1\<rparr>)
         in case execute (br_cid r) s1 of
              (Inl e, s2) \<Rightarrow> (Inl e, s2)
            | (Inr _, s2) \<Rightarrow>
                if pb_fault s = TIMEOUT then (Inl BrokerTimeoutError, s2)
                else (Inr \<lparr>ack_cid = br_cid r, ack_broker_id = bid, ack_accepted = True\<rparr>, s2)))"

definition settle :: "paper \<Rightarrow> paper" where
  "settle s = s\<lparr>pb_settled := pb_settled s + pb_unsettled s, pb_unsettled := 0\<rparr>"

definition resting :: "order_state \<Rightarrow> bool" where
  "resting st \<longleftrightarrow> st \<in> {ACKNOWLEDGED, PARTIALLY_FILLED}"

text \<open>One order of \<open>poll_resting_orders\<close>; its state is read when its turn comes.\<close>

definition poll_one :: "string \<Rightarrow> (paper, unit) act" where
  "poll_one cid s =
     (case dget (pb_orders s) cid of
        None \<Rightarrow> (Inr (), s)
      | Some po \<Rightarrow> if resting (po_state po) then execute cid s else (Inr (), s))"

definition poll_resting_orders :: "(paper, broker_fill list) act" where
  "poll_resting_orders s =
     (if check_disconnect s then (Inl BrokerDisconnectedError, s)
      else case for_each poll_one (dkeys (pb_orders s)) s of
             (Inl e, s') \<Rightarrow> (Inl e, s')
           | (Inr _, s') \<Rightarrow> (Inr (drop (length (pb_fills s)) (pb_fills s')), s'))"

definition pb_cancel :: "string \<Rightarrow> (paper, broker_ack) act" where
  "pb_cancel cid s =
     (if check_disconnect s then (Inl BrokerDisconnectedError, s)
      else case dget (pb_orders s) cid of
             None \<Rightarrow> (Inr \<lparr>ack_cid = cid, ack_broker_id = [], ack_accepted = False\<rparr>, s)
           | Some po \<Rightarrow>
               if resting (po_state po)
               then (Inr \<lparr>ack_cid = cid, ack_broker_id = po_id po, ack_accepted = True\<rparr>,
                     put_order cid (po\<lparr>po_state := CANCELLED\<rparr>) s)
               else (Inr \<lparr>ack_cid = cid, ack_broker_id = po_id po, ack_accepted = False\<rparr>, s))"

definition order_status :: "string \<Rightarrow> paper_order \<Rightarrow> broker_status" where
  "order_status cid po = \<lparr>bs_cid = cid, bs_broker_id = po_id po, bs_state = po_state po,
     bs_filled = po_filled po, bs_remaining = max 0 (br_qty (po_req po) - po_filled po)\<rparr>"

definition pb_status :: "string \<Rightarrow> paper \<Rightarrow> exn + broker_status" where
  "pb_status cid s =
     (if check_disconnect s then Inl BrokerDisconnectedError
      else case dget (pb_orders s) cid of None \<Rightarrow> Inl KeyError | Some po \<Rightarrow> Inr (order_status cid po))"

definition pb_get_positions :: "paper \<Rightarrow> exn + broker_position list" where
  "pb_get_positions s =
     (if check_disconnect s then Inl BrokerDisconnectedError else Inr (dvals (pb_positions s)))"

definition pb_get_cash :: "paper \<Rightarrow> exn + broker_cash" where
  "pb_get_cash s =
     (if check_disconnect s then Inl BrokerDisconnectedError
      else mk_broker_cash (py_round 6 (pb_settled s)) (py_round 6 (pb_unsettled s)))"

definition pb_get_open_orders :: "paper \<Rightarrow> exn + broker_status list" where
  "pb_get_open_orders s =
     (if check_disconnect s then Inl BrokerDisconnectedError
      else Inr (map (\<lambda>(cid, po). order_status cid po)
        (filter (\<lambda>(cid, po). po_state po \<in> {SUBMITTED, ACKNOWLEDGED, PARTIALLY_FILLED}) (pb_orders s))))"

definition pb_get_fills :: "instant \<Rightarrow> paper \<Rightarrow> exn + broker_fill list" where
  "pb_get_fills since s =
     (if check_disconnect s then Inl BrokerDisconnectedError
      else Inr (filter (\<lambda>f. since \<le> bf_ts f) (pb_fills s)))"

definition paper_adapter :: "paper adapter" where
  "paper_adapter = \<lparr>ad_submit = pb_submit, ad_cancel = pb_cancel, ad_status = pb_status,
     ad_positions = pb_get_positions, ad_cash = pb_get_cash, ad_open_orders = pb_get_open_orders,
     ad_fills = pb_get_fills, ad_poll = poll_resting_orders\<rparr>"

section \<open>Invariant\<close>

definition paper_order_ok :: "broker_fill list \<Rightarrow> string \<Rightarrow> paper_order \<Rightarrow> bool" where
  "paper_order_ok fs cid po \<longleftrightarrow>
     br_cid (po_req po) = cid \<and> 0 < br_qty (po_req po) \<and> 0 \<le> po_filled po \<and>
     po_filled po \<le> br_qty (po_req po) \<and> po_fills po = filter (\<lambda>f. bf_cid f = cid) fs \<and>
     po_filled po = (\<Sum>f\<leftarrow>po_fills po. bf_qty f) \<and>
     (po_state po = FILLED \<longrightarrow> br_qty (po_req po) - eps \<le> po_filled po) \<and>
     (\<forall>f \<in> set (po_fills po). bf_symbol f = br_symbol (po_req po) \<and> bf_side f = br_side (po_req po))"

definition positions_ok :: "paper \<Rightarrow> bool" where
  "positions_ok s \<longleftrightarrow> dict_ok (pb_positions s) \<and>
     (\<forall>k p. dget (pb_positions s) k = Some p \<longrightarrow> bp_symbol p = k \<and> 0 < bp_qty p \<and> 0 \<le> bp_avg p)"

definition orders_ok :: "paper \<Rightarrow> bool" where
  "orders_ok s \<longleftrightarrow> dict_ok (pb_orders s) \<and>
     (\<forall>cid po. dget (pb_orders s) cid = Some po \<longrightarrow> paper_order_ok (pb_fills s) cid po) \<and>
     (\<forall>f \<in> set (pb_fills s). dhas (pb_orders s) (bf_cid f))"

definition cash_ok :: "paper \<Rightarrow> bool" where
  "cash_ok s \<longleftrightarrow> - eps \<le> pb_settled s \<and> 0 \<le> pb_unsettled s"

text \<open>Fees between 0 and 100 percent, slippage not negative, and quotes that are valid quotes.\<close>

definition setup_ok :: "paper \<Rightarrow> bool" where
  "setup_ok s \<longleftrightarrow> 0 \<le> pb_fee_bps s \<and> pb_fee_bps s \<le> 10000 \<and> 0 \<le> pb_slip_bps s \<and>
     (\<forall>k q. pb_quote s k = Inr q \<longrightarrow> quote_ok q)"

definition paper_inv :: "paper \<Rightarrow> bool" where
  "paper_inv s \<longleftrightarrow> setup_ok s \<and> orders_ok s \<and> positions_ok s \<and> cash_ok s"

lemma fill_price_pos:
  assumes "setup_ok s" "quote_ok q" "fill_price s r q = Inr (Some px)"
  shows "0 < px"
proof -
  have "0 \<le> quote_mid q * pb_slip_bps s / 10000"
    using assms(1,2) quote_mid_pos [of q] by (simp add: setup_ok_def)
  then show ?thesis
    using assms(2,3) by (auto simp: fill_price_def Let_def quote_ok_def split: order_type.splits
        option.splits if_splits)
qed

text \<open>An order that is replaced by one with the same request and fills keeps the orders well formed.\<close>

lemma orders_ok_put:
  assumes "orders_ok s" "paper_order_ok (pb_fills s) cid po"
  shows "orders_ok (put_order cid po s)"
  using assms by (auto simp: orders_ok_def put_order_def dict_simps dhas_def)

lemma orders_ok_put_state:
  assumes "orders_ok s" "dget (pb_orders s) cid = Some po" "st \<noteq> FILLED"
  shows "orders_ok (put_order cid (po\<lparr>po_state := st\<rparr>) s)"
proof (rule orders_ok_put [OF assms(1)])
  have "paper_order_ok (pb_fills s) cid po" using assms(1,2) by (simp add: orders_ok_def)
  then show "paper_order_ok (pb_fills s) cid (po\<lparr>po_state := st\<rparr>)"
    using assms(3) unfolding paper_order_ok_def by auto
qed

lemma orders_ok_new:
  assumes "orders_ok s" "dget (pb_orders s) cid = None" "br_cid r = cid" "0 < br_qty r" "st \<noteq> FILLED"
  shows "orders_ok (put_order cid \<lparr>po_req = r, po_id = i, po_state = st, po_filled = 0, po_fills = []\<rparr> s)"
proof (rule orders_ok_put [OF assms(1)])
  have "filter (\<lambda>f. bf_cid f = cid) (pb_fills s) = []"
    using assms(1,2) by (force simp: orders_ok_def dhas_def filter_empty_conv)
  then show "paper_order_ok (pb_fills s) cid
      \<lparr>po_req = r, po_id = i, po_state = st, po_filled = 0, po_fills = []\<rparr>"
    using assms(3-5) by (simp add: paper_order_ok_def)
qed

lemma orders_ok_cong:
  "pb_orders s' = pb_orders s \<Longrightarrow> pb_fills s' = pb_fills s \<Longrightarrow> orders_ok s' = orders_ok s"
  by (simp add: orders_ok_def)

lemma paper_order_ok_other:
  "bf_cid f \<noteq> cid \<Longrightarrow> paper_order_ok (fs @ [f]) cid po = paper_order_ok fs cid po"
  by (simp add: paper_order_ok_def)

lemma book_fill_orders:
  assumes ok: "orders_ok s" and po: "dget (pb_orders s) cid = Some po"
    and q: "0 < qty" "po_filled po + qty \<le> br_qty (po_req po)"
    and run: "book_fill cid po qty px fees s = (x, s')"
  shows "orders_ok s'"
proof (cases x)
  case (Inl e)
  with run have "s' = s" by (auto simp: book_fill_def Let_def split: sum.splits)
  with ok show ?thesis by simp
next
  case (Inr u)
  define f where "f = \<lparr>bf_id = pb_uuid s (pb_n s), bf_cid = br_cid (po_req po),
    bf_symbol = br_symbol (po_req po), bf_side = br_side (po_req po), bf_qty = qty,
    bf_price = py_round 6 px, bf_fees = py_round 6 fees, bf_ts = pb_now s\<rparr>"
  define po' where "po' = po\<lparr>po_fills := po_fills po @ [f], po_filled := po_filled po + qty,
      po_state := (if br_qty (po_req po) - eps \<le> po_filled po + qty then FILLED else PARTIALLY_FILLED)\<rparr>"
  from ok po have pok: "paper_order_ok (pb_fills s) cid po" by (simp add: orders_ok_def)
  then have cid: "bf_cid f = cid" by (simp add: f_def paper_order_ok_def)
  from run Inr have s': "s' = put_order cid po' (s\<lparr>pb_n := pb_n s + 1, pb_fills := pb_fills s @ [f]\<rparr>)"
    by (simp add: book_fill_def Let_def mk_broker_fill_def f_def po'_def split: if_splits)
  have new: "paper_order_ok (pb_fills s @ [f]) cid po'"
    using pok q unfolding paper_order_ok_def po'_def by (auto simp: f_def)
  have old: "paper_order_ok (pb_fills s @ [f]) k p" if "dget (pb_orders s) k = Some p" "k \<noteq> cid" for k p
    using ok that cid by (simp add: orders_ok_def paper_order_ok_other)
  show ?thesis
    using ok new old cid po unfolding s' orders_ok_def put_order_def
    by (auto simp: dict_simps dhas_def)
qed

lemma book_fill_frame:
  "book_fill cid po qty px fees s = (x, s') \<Longrightarrow>
    pb_settled s' = pb_settled s \<and> pb_unsettled s' = pb_unsettled s \<and>
    pb_positions s' = pb_positions s \<and> pb_fee_bps s' = pb_fee_bps s \<and>
    pb_slip_bps s' = pb_slip_bps s \<and> pb_quote s' = pb_quote s"
  by (auto simp: book_fill_def Let_def put_order_def split: sum.splits)

lemma book_fill_inv:
  assumes "paper_inv s" and "dget (pb_orders s) cid = Some po"
    and "0 < qty" "po_filled po + qty \<le> br_qty (po_req po)"
    and "book_fill cid po qty px fees s = (x, s')"
  shows "paper_inv s'"
  using assms(1) book_fill_orders [OF _ assms(2-5)] book_fill_frame [OF assms(5)]
  by (simp add: paper_inv_def setup_ok_def positions_ok_def cash_ok_def)

lemma cannot_fill_inv:
  "paper_inv s \<Longrightarrow> dget (pb_orders s) cid = Some po \<Longrightarrow> cannot_fill cid po s = (x, s') \<Longrightarrow> paper_inv s'"
  using orders_ok_put_state [of s cid po REJECTED]
  by (auto simp: cannot_fill_def paper_inv_def setup_ok_def positions_ok_def cash_ok_def put_order_def
      split: if_splits)

lemma execute_buy_inv:
  assumes inv: "paper_inv s" and po: "dget (pb_orders s) cid = Some po"
    and q: "0 < qty" "po_filled po + qty \<le> br_qty (po_req po)"
    and c: "0 \<le> cost" "0 \<le> fees" and run: "execute_buy cid po qty px cost fees s = (x, s')"
  shows "paper_inv s'"
proof (cases "pb_settled s + eps < cost + fees")
  case True
  with run cannot_fill_inv [OF inv po] show ?thesis by (simp add: execute_buy_def Let_def)
next
  case False
  let ?k = "br_symbol (po_req po)"
  let ?s1 = "s\<lparr>pb_settled := pb_settled s - (cost + fees)\<rparr>"
  define held where "held = (case dget (pb_positions s) ?k of None \<Rightarrow> 0 | Some p \<Rightarrow> bp_qty p)"
  define basis where "basis = (case dget (pb_positions s) ?k of None \<Rightarrow> 0 | Some p \<Rightarrow> bp_qty p * bp_avg p)"
  have h: "0 \<le> held" "0 \<le> basis"
    using inv by (auto simp: held_def basis_def paper_inv_def positions_ok_def less_imp_le split: option.splits)
  have n: "0 < held + qty" using h q by simp
  let ?p = "\<lparr>bp_symbol = ?k, bp_qty = held + qty, bp_avg = py_round 6 ((basis + cost) / (held + qty))\<rparr>"
  have avg: "0 \<le> py_round 6 ((basis + cost) / (held + qty))"
    using h c n by (intro py_round_nonneg) simp
  then have "mk_broker_position ?p = Inr ?p" by (simp add: mk_broker_position_def)
  with False n run have run': "book_fill cid po qty px fees
      (?s1\<lparr>pb_positions := dput (pb_positions s) ?k ?p\<rparr>) = (x, s')"
    by (simp add: execute_buy_def Let_def held_def basis_def)
  have "paper_inv (?s1\<lparr>pb_positions := dput (pb_positions s) ?k ?p\<rparr>)"
    using inv n avg False
    by (auto simp: paper_inv_def setup_ok_def positions_ok_def cash_ok_def dict_simps
        orders_ok_def)
  from book_fill_inv [OF this _ q run'] po show ?thesis by simp
qed

lemma execute_sell_inv:
  assumes inv: "paper_inv s" and po: "dget (pb_orders s) cid = Some po"
    and q: "0 < qty" "po_filled po + qty \<le> br_qty (po_req po)"
    and c: "fees \<le> cost" and run: "execute_sell cid po qty px cost fees s = (x, s')"
  shows "paper_inv s'"
proof (cases "dget (pb_positions s) (br_symbol (po_req po))")
  case None
  with run cannot_fill_inv [OF inv po] show ?thesis by (simp add: execute_sell_def Let_def)
next
  case (Some pos)
  let ?k = "br_symbol (po_req po)"
  show ?thesis
  proof (cases "bp_qty pos + eps < qty")
    case True
    with Some run cannot_fill_inv [OF inv po] show ?thesis by (simp add: execute_sell_def Let_def)
  next
    case False
    from inv Some have p: "0 \<le> bp_avg pos" by (simp add: paper_inv_def positions_ok_def)
    let ?p = "\<lparr>bp_symbol = ?k, bp_qty = bp_qty pos - qty, bp_avg = bp_avg pos\<rparr>"
    let ?ps = "if bp_qty pos - qty \<le> eps then ddel (pb_positions s) ?k
               else dput (pb_positions s) ?k ?p"
    let ?s1 = "s\<lparr>pb_positions := ?ps, pb_unsettled := pb_unsettled s + (cost - fees)\<rparr>"
    have run': "book_fill cid po qty px fees ?s1 = (x, s')"
      using Some False run p by (simp add: execute_sell_def Let_def mk_broker_position_def split: if_splits)
    have "0 < bp_qty pos - qty" if "\<not> bp_qty pos - qty \<le> eps"
      using that eps_pos(1) by linarith
    then have "paper_inv ?s1"
      using inv c p
      by (auto simp: paper_inv_def setup_ok_def positions_ok_def cash_ok_def dict_simps
          orders_ok_def)
    from book_fill_inv [OF this _ q run'] po show ?thesis by simp
  qed
qed

lemma execute_inv:
  assumes inv: "paper_inv s" and run: "execute cid s = (x, s')"
  shows "paper_inv s'"
proof (cases "\<exists>po q px. dget (pb_orders s) cid = Some po \<and> pb_quote s (br_symbol (po_req po)) = Inr q
    \<and> fill_price s (po_req po) q = Inr (Some px) \<and> eps < br_qty (po_req po) - po_filled po")
  case False
  with run have "s' = s"
    by (auto simp: execute_def Let_def not_le split: option.splits sum.splits if_splits)
  with inv show ?thesis by simp
next
  case True
  then obtain po q px where po: "dget (pb_orders s) cid = Some po"
    and qt: "pb_quote s (br_symbol (po_req po)) = Inr q"
    and px: "fill_price s (po_req po) q = Inr (Some px)"
    and rem: "eps < br_qty (po_req po) - po_filled po" by blast
  have set: "setup_ok s" using inv by (simp add: paper_inv_def)
  have "0 < px" by (rule fill_price_pos [OF set _ px]) (use set qt in \<open>auto simp: setup_ok_def\<close>)
  let ?rem = "br_qty (po_req po) - po_filled po"
  define qty where "qty = (if pb_fault s = PARTIAL_FILL then ?rem / 2 else ?rem)"
  define fees where "fees = qty * px * pb_fee_bps s / 10000"
  have rem0: "0 < ?rem" using rem eps_pos(1) by linarith
  then have q: "0 < qty" "po_filled po + qty \<le> br_qty (po_req po)"
    using rem0 by (auto simp: qty_def field_simps)
  have cost: "0 \<le> qty * px" using q(1) \<open>0 < px\<close> by simp
  have "0 \<le> fees" using cost set by (simp add: fees_def setup_ok_def)
  have "qty * px * pb_fee_bps s \<le> qty * px * 10000"
    using cost set by (intro mult_left_mono) (auto simp: setup_ok_def)
  then have "fees \<le> qty * px" by (simp add: fees_def)
  have run': "(if br_side (po_req po) = BUY then execute_buy cid po qty px (qty * px) fees s
       else execute_sell cid po qty px (qty * px) fees s) = (x, s')"
    using run po qt px rem by (simp add: execute_def Let_def qty_def fees_def not_le split: if_splits)
  show ?thesis
    using run' execute_buy_inv [OF inv po q cost \<open>0 \<le> fees\<close>] execute_sell_inv [OF inv po q \<open>fees \<le> qty * px\<close>]
    by (simp split: if_splits)
qed

lemma poll_one_inv: "paper_inv s \<Longrightarrow> poll_one cid s = (x, s') \<Longrightarrow> paper_inv s'"
  by (auto simp: poll_one_def dest: execute_inv split: option.splits if_splits)

text \<open>What every single execution preserves, the polling round preserves.\<close>

lemma poll_resting_preserves:
  assumes "\<And>cid t y t'. P t \<Longrightarrow> poll_one cid t = (y, t') \<Longrightarrow> P t'"
    and "P s" and run: "poll_resting_orders s = (x, s')"
  shows "P s'"
proof -
  obtain y s2 where e: "for_each poll_one (dkeys (pb_orders s)) s = (y, s2)"
    by (cases "for_each poll_one (dkeys (pb_orders s)) s")
  have "P s2" by (rule for_each_invariant [where P = P, OF _ assms(2) e]) (rule assms(1))
  moreover have "s' = s \<or> s' = s2"
    using run e by (auto simp: poll_resting_orders_def split: sum.splits if_splits)
  ultimately show ?thesis using assms(2) by blast
qed

lemma poll_resting_inv: "paper_inv s \<Longrightarrow> poll_resting_orders s = (x, s') \<Longrightarrow> paper_inv s'"
  by (rule poll_resting_preserves [OF poll_one_inv])

lemma pb_cancel_inv: "paper_inv s \<Longrightarrow> pb_cancel cid s = (x, s') \<Longrightarrow> paper_inv s'"
  using orders_ok_put_state [of s cid _ CANCELLED]
  by (auto simp: pb_cancel_def paper_inv_def setup_ok_def positions_ok_def cash_ok_def put_order_def
      split: option.splits if_splits)

lemma pb_submit_inv:
  assumes inv: "paper_inv s" and q: "0 < br_qty r" and run: "pb_submit r s = (x, s')"
  shows "paper_inv s'"
proof (cases "check_disconnect s \<or> dhas (pb_orders s) (br_cid r)")
  case True
  with run inv show ?thesis by (auto simp: pb_submit_def split: if_splits)
next
  case False
  let ?s1 = "put_order (br_cid r) \<lparr>po_req = r, po_id = pb_uuid s (pb_n s), po_state = ACKNOWLEDGED,
    po_filled = 0, po_fills = []\<rparr> (s\<lparr>pb_n := pb_n s + 1\<rparr>)"
  have "orders_ok (s\<lparr>pb_n := pb_n s + 1\<rparr>)" using inv by (simp add: paper_inv_def orders_ok_def)
  then have "orders_ok ?s1"
    by (rule orders_ok_new) (use False q in \<open>auto simp: dhas_def\<close>)
  then have "paper_inv ?s1"
    using inv by (simp add: paper_inv_def setup_ok_def positions_ok_def cash_ok_def put_order_def)
  moreover obtain y s2 where e: "execute (br_cid r) ?s1 = (y, s2)" by (cases "execute (br_cid r) ?s1")
  ultimately have "paper_inv s2" by (blast intro: execute_inv)
  moreover have "s' = s2"
    using run False e by (auto simp: pb_submit_def Let_def split: sum.splits if_splits)
  ultimately show ?thesis by simp
qed

lemma settle_inv: "paper_inv s \<Longrightarrow> paper_inv (settle s)"
  by (auto simp: paper_inv_def settle_def setup_ok_def positions_ok_def cash_ok_def orders_ok_def)

section \<open>The broker keeps the requests it was given\<close>

definition paper_req :: "paper \<Rightarrow> string \<Rightarrow> broker_request option" where
  "paper_req s cid = map_option po_req (dget (pb_orders s) cid)"

lemma paper_req_put:
  "paper_req (put_order cid po s) k = (if k = cid then Some (po_req po) else paper_req s k)"
  by (simp add: paper_req_def put_order_def dict_simps)

lemma paper_req_same:
  "dget (pb_orders s) cid = Some po \<Longrightarrow> po_req po' = po_req po \<Longrightarrow>
    paper_req (put_order cid po' s) = paper_req s"
  by (auto simp: paper_req_put fun_eq_iff) (simp add: paper_req_def)

lemma paper_req_cong: "pb_orders s' = pb_orders s \<Longrightarrow> paper_req s' = paper_req s"
  by (simp add: paper_req_def fun_eq_iff)

lemma book_fill_req:
  assumes "dget (pb_orders s) cid = Some po" and "book_fill cid po qty px fees s = (x, s')"
  shows "paper_req s' = paper_req s"
proof -
  have "paper_req (put_order cid po' (s\<lparr>pb_n := n, pb_fills := fs\<rparr>)) = paper_req s"
    if "po_req po' = po_req po" for po' n fs
    using paper_req_same [of "s\<lparr>pb_n := n, pb_fills := fs\<rparr>" cid po po'] assms(1) that
      paper_req_cong [of "s\<lparr>pb_n := n, pb_fills := fs\<rparr>" s] by simp
  then show ?thesis
    using assms(2) by (auto simp: book_fill_def Let_def split: sum.splits)
qed

lemma cannot_fill_req:
  "dget (pb_orders s) cid = Some po \<Longrightarrow> cannot_fill cid po s = (x, s') \<Longrightarrow> paper_req s' = paper_req s"
  using paper_req_same [of s cid po "po\<lparr>po_state := REJECTED\<rparr>"]
  by (auto simp: cannot_fill_def split: if_splits)

lemma execute_buy_req:
  assumes "dget (pb_orders s) cid = Some po" and "execute_buy cid po qty px cost fees s = (x, s')"
  shows "paper_req s' = paper_req s"
  using assms(2) assms(1) cannot_fill_req [OF assms(1)]
  by (auto simp: execute_buy_def Let_def paper_req_def dest!: book_fill_req [rotated]
      split: if_splits sum.splits)

lemma execute_sell_req:
  assumes "dget (pb_orders s) cid = Some po" and "execute_sell cid po qty px cost fees s = (x, s')"
  shows "paper_req s' = paper_req s"
  using assms(2) assms(1) cannot_fill_req [OF assms(1)]
  by (auto simp: execute_sell_def Let_def paper_req_def dest!: book_fill_req [rotated]
      split: if_splits sum.splits option.splits)

lemma execute_req: "execute cid s = (x, s') \<Longrightarrow> paper_req s' = paper_req s"
  by (auto simp: execute_def Let_def dest: execute_buy_req execute_sell_req
      split: option.splits sum.splits if_splits)

lemma poll_one_req: "poll_one cid s = (x, s') \<Longrightarrow> paper_req s' = paper_req s"
  by (auto simp: poll_one_def dest: execute_req split: option.splits if_splits)

lemma poll_resting_req: "poll_resting_orders s = (x, s') \<Longrightarrow> paper_req s' = paper_req s"
  by (rule poll_resting_preserves [where P = "\<lambda>t. paper_req t = paper_req s"])
    (auto dest: poll_one_req)

lemma pb_cancel_req: "pb_cancel cid s = (x, s') \<Longrightarrow> paper_req s' = paper_req s"
  by (auto simp: pb_cancel_def paper_req_same split: option.splits if_splits)

lemma pb_submit_req:
  assumes "pb_submit r s = (x, s')"
  shows "s' = s \<or> (paper_req s (br_cid r) = None \<and> paper_req s' = (paper_req s)(br_cid r \<mapsto> r))"
proof (cases "check_disconnect s \<or> dhas (pb_orders s) (br_cid r)")
  case True
  with assms show ?thesis by (auto simp: pb_submit_def split: if_splits)
next
  case False
  let ?s1 = "put_order (br_cid r) \<lparr>po_req = r, po_id = pb_uuid s (pb_n s), po_state = ACKNOWLEDGED,
    po_filled = 0, po_fills = []\<rparr> (s\<lparr>pb_n := pb_n s + 1\<rparr>)"
  obtain y s2 where e: "execute (br_cid r) ?s1 = (y, s2)" by (cases "execute (br_cid r) ?s1")
  have "s' = s2"
    using assms False e by (auto simp: pb_submit_def Let_def split: sum.splits if_splits)
  moreover have "paper_req ?s1 = (paper_req s)(br_cid r \<mapsto> r)"
    by (auto simp: paper_req_put fun_eq_iff) (simp add: paper_req_def)
  ultimately show ?thesis
    using execute_req [OF e] False by (auto simp: paper_req_def dhas_def)
qed

interpretation paper_broker: broker_contract paper_adapter paper_inv paper_req pb_fills
proof (unfold_locales, goal_cases)
  case (1 b r x b')
  then show ?case by (simp add: paper_adapter_def pb_submit_inv)
next
  case (2 b cid y b')
  then show ?case by (simp add: paper_adapter_def pb_cancel_inv)
next
  case (3 b z b')
  then show ?case by (simp add: paper_adapter_def poll_resting_inv)
next
  case (4 r b x b')
  then show ?case by (simp add: paper_adapter_def pb_submit_req)
next
  case (5 cid b y b')
  then show ?case by (simp add: paper_adapter_def pb_cancel_req)
next
  case (6 b z b')
  then show ?case by (simp add: paper_adapter_def poll_resting_req)
next
  case (7 b r)
  then show ?case by (auto simp: paper_adapter_def pb_submit_def paper_req_def dhas_def)
next
  case (8 b cid r)
  then obtain po where "dget (pb_orders b) cid = Some po" "po_req po = r"
    by (auto simp: paper_req_def)
  moreover from this 8(1) have "paper_order_ok (pb_fills b) cid po"
    by (simp add: paper_inv_def orders_ok_def)
  ultimately show ?case by (auto simp: paper_order_ok_def filled_total_def)
next
  case (9 b f)
  then obtain po where po: "dget (pb_orders b) (bf_cid f) = Some po"
    by (auto simp: paper_inv_def orders_ok_def dhas_def)
  with 9(1) have ok: "paper_order_ok (pb_fills b) (bf_cid f) po"
    by (simp add: paper_inv_def orders_ok_def)
  then have "f \<in> set (po_fills po)" using 9(2) by (simp add: paper_order_ok_def)
  with ok po show ?case by (auto simp: paper_order_ok_def paper_req_def)
qed

section \<open>Histories\<close>

datatype paper_op =
    PSubmit broker_request | PCancel string | PPoll | PSettle | PTime instant | PFault fault
  | PQuote string "exn + real quote"

fun paper_step :: "paper_op \<Rightarrow> paper \<Rightarrow> paper" where
  "paper_step (PSubmit r) s = snd (pb_submit r s)"
| "paper_step (PCancel cid) s = snd (pb_cancel cid s)"
| "paper_step PPoll s = snd (poll_resting_orders s)"
| "paper_step PSettle s = settle s"
| "paper_step (PTime t) s = s\<lparr>pb_now := t\<rparr>"
| "paper_step (PFault f) s = s\<lparr>pb_fault := f\<rparr>"
| "paper_step (PQuote k x) s = s\<lparr>pb_quote := (pb_quote s)(k := x)\<rparr>"

text \<open>A price of at least one unit in the sixth decimal, the precision of the fills.\<close>

definition tick_ok :: "real quote \<Rightarrow> bool" where
  "tick_ok q \<longleftrightarrow> 1 / 1000000 \<le> q_bid q \<and> 1 / 1000000 \<le> q_ask q"

lemma tick_quote_ok: "tick_ok q \<Longrightarrow> quote_ok q"
  by (simp add: tick_ok_def quote_ok_def)

fun paper_sane :: "paper_op \<Rightarrow> bool" where
  "paper_sane (PSubmit r) \<longleftrightarrow> 0 < br_qty r"
| "paper_sane (PQuote k x) \<longleftrightarrow> (case x of Inl e \<Rightarrow> True | Inr q \<Rightarrow> tick_ok q)"
| "paper_sane _ \<longleftrightarrow> True"

definition new_paper :: "(string \<Rightarrow> exn + real quote) \<Rightarrow> (nat \<Rightarrow> string) \<Rightarrow> real \<Rightarrow> real \<Rightarrow> real \<Rightarrow> paper" where
  "new_paper quote_fn uuid initial_cash fee_bps slippage_bps =
     \<lparr>pb_quote = quote_fn, pb_now = 0, pb_uuid = uuid, pb_n = 0, pb_settled = initial_cash,
      pb_unsettled = 0, pb_fee_bps = fee_bps, pb_slip_bps = slippage_bps, pb_orders = [],
      pb_positions = [], pb_fills = [], pb_fault = NO_FAULT\<rparr>"

lemma new_paper_inv:
  assumes "0 \<le> c" "0 \<le> f" "f \<le> 10000" "0 \<le> sl" "\<And>k q. quote_fn k = Inr q \<Longrightarrow> quote_ok q"
  shows "paper_inv (new_paper quote_fn uuid c f sl)"
proof -
  have "- eps \<le> c" using assms(1) eps_pos(1) by linarith
  with assms show ?thesis
    by (simp add: paper_inv_def new_paper_def setup_ok_def orders_ok_def positions_ok_def cash_ok_def)
qed

lemma paper_step_inv: "paper_inv s \<Longrightarrow> paper_sane op \<Longrightarrow> paper_inv (paper_step op s)"
proof (cases op)
  case (PSubmit r)
  then show "paper_inv s \<Longrightarrow> paper_sane op \<Longrightarrow> ?thesis"
    by (auto intro: pb_submit_inv surjective_pairing)
next
  case (PCancel cid)
  then show "paper_inv s \<Longrightarrow> ?thesis" by (auto intro: pb_cancel_inv surjective_pairing)
next
  case PPoll
  then show "paper_inv s \<Longrightarrow> ?thesis" by (auto intro: poll_resting_inv surjective_pairing)
next
  case PSettle
  then show "paper_inv s \<Longrightarrow> ?thesis" by (simp add: settle_inv)
qed (auto simp: paper_inv_def setup_ok_def orders_ok_def positions_ok_def cash_ok_def intro: tick_quote_ok)

lemma paper_run_inv:
  "paper_inv s \<Longrightarrow> \<forall>op \<in> set ops. paper_sane op \<Longrightarrow> paper_inv (fold paper_step ops s)"
  by (induction ops arbitrary: s) (auto intro: paper_step_inv)

section \<open>The books agree with the fills\<close>

text \<open>
  What a fill means for the cash and the shares, read off the fill as it is reported. The broker
  moves the unrounded amounts and reports price and fees to six decimals; the slack of a fill is
  that rounding. A sale that leaves at most \<open>eps\<close> shares deletes the position.
\<close>

definition fill_cash :: "broker_fill \<Rightarrow> real" where
  "fill_cash f = (if bf_side f = BUY then - (bf_qty f * bf_price f + bf_fees f)
     else bf_qty f * bf_price f - bf_fees f)"

definition fill_slack :: "broker_fill \<Rightarrow> real" where
  "fill_slack f = (bf_qty f + 1) / 2000000"

definition fill_shares :: "string \<Rightarrow> broker_fill \<Rightarrow> real" where
  "fill_shares k f = (if bf_symbol f \<noteq> k then 0 else if bf_side f = BUY then bf_qty f else - bf_qty f)"

definition fill_dust :: "string \<Rightarrow> broker_fill \<Rightarrow> real" where
  "fill_dust k f = (if bf_symbol f = k \<and> bf_side f \<noteq> BUY then eps else 0)"

definition held :: "paper \<Rightarrow> string \<Rightarrow> real" where
  "held s k = (case dget (pb_positions s) k of None \<Rightarrow> 0 | Some p \<Rightarrow> bp_qty p)"

definition total_cash :: "paper \<Rightarrow> real" where
  "total_cash s = pb_settled s + pb_unsettled s"

definition books_ok :: "real \<Rightarrow> paper \<Rightarrow> bool" where
  "books_ok c0 s \<longleftrightarrow>
     \<bar>total_cash s - (c0 + (\<Sum>f\<leftarrow>pb_fills s. fill_cash f))\<bar> \<le> (\<Sum>f\<leftarrow>pb_fills s. fill_slack f) \<and>
     (\<forall>k. \<bar>held s k - (\<Sum>f\<leftarrow>pb_fills s. fill_shares k f)\<bar> \<le> (\<Sum>f\<leftarrow>pb_fills s. fill_dust k f))"

definition ticks_ok :: "paper \<Rightarrow> bool" where
  "ticks_ok s \<longleftrightarrow> (\<forall>k q. pb_quote s k = Inr q \<longrightarrow> tick_ok q)"

definition book_inv :: "real \<Rightarrow> paper \<Rightarrow> bool" where
  "book_inv c0 s \<longleftrightarrow> paper_inv s \<and> ticks_ok s \<and> books_ok c0 s"

lemma sum_fill_shares:
  "(\<Sum>f\<leftarrow>fs. fill_shares k f) = (\<Sum>f\<leftarrow>filter (\<lambda>f. bf_symbol f = k) fs.
     if bf_side f = BUY then bf_qty f else - bf_qty f)"
  "(\<Sum>f\<leftarrow>fs. fill_dust k f) = eps * real (length (filter (\<lambda>f. bf_symbol f = k \<and> bf_side f \<noteq> BUY) fs))"
  by (induction fs) (auto simp: fill_shares_def fill_dust_def algebra_simps)

lemmas books_ok_eq =
  books_ok_def [unfolded sum_fill_shares fill_cash_def [abs_def] fill_slack_def [abs_def] total_cash_def]

lemma books_ok_cong:
  "total_cash s' = total_cash s \<Longrightarrow> pb_positions s' = pb_positions s \<Longrightarrow> pb_fills s' = pb_fills s \<Longrightarrow>
    books_ok c0 s' = books_ok c0 s"
  by (simp add: books_ok_def held_def)

lemma books_ok_fill:
  assumes "books_ok c0 s" "pb_fills s' = pb_fills s @ [f]"
    and "\<bar>total_cash s' - total_cash s - fill_cash f\<bar> \<le> fill_slack f"
    and h: "\<And>k. \<bar>held s' k - held s k - fill_shares k f\<bar> \<le> fill_dust k f"
  shows "books_ok c0 s'"
proof -
  have "\<bar>held s' k - (\<Sum>f\<leftarrow>pb_fills s'. fill_shares k f)\<bar> \<le> (\<Sum>f\<leftarrow>pb_fills s'. fill_dust k f)" for k
  proof -
    have "\<bar>held s k - (\<Sum>f\<leftarrow>pb_fills s. fill_shares k f)\<bar> \<le> (\<Sum>f\<leftarrow>pb_fills s. fill_dust k f)"
      using assms(1) by (simp add: books_ok_def)
    with h [of k] assms(2) show ?thesis by simp
  qed
  moreover have "\<bar>total_cash s - (c0 + (\<Sum>f\<leftarrow>pb_fills s. fill_cash f))\<bar> \<le> (\<Sum>f\<leftarrow>pb_fills s. fill_slack f)"
    using assms(1) by (simp add: books_ok_def)
  ultimately show ?thesis using assms(2,3) unfolding books_ok_def by simp
qed

lemma py_round_6_pos: "1 / 1000000 \<le> x \<Longrightarrow> 0 < py_round 6 x"
  using py_round_error [of 6 x] unfolding abs_le_iff by simp

lemma book_fill_books:
  assumes bk: "books_ok c0 s" and q: "0 < qty" "1 / 1000000 \<le> px" "0 \<le> fees"
    and cash: "total_cash s1 = total_cash s +
      (if br_side (po_req po) = BUY then - (qty * px + fees) else qty * px - fees)"
    and sh: "\<And>k. \<bar>held s1 k - held s k - (if br_symbol (po_req po) \<noteq> k then 0
        else if br_side (po_req po) = BUY then qty else - qty)\<bar> \<le>
      (if br_symbol (po_req po) = k \<and> br_side (po_req po) \<noteq> BUY then eps else 0)"
    and fs: "pb_fills s1 = pb_fills s"
    and run: "book_fill cid po qty px fees s1 = (x, s')"
  shows "books_ok c0 s'"
proof -
  define f where "f = \<lparr>bf_id = pb_uuid s1 (pb_n s1), bf_cid = br_cid (po_req po),
    bf_symbol = br_symbol (po_req po), bf_side = br_side (po_req po), bf_qty = qty,
    bf_price = py_round 6 px, bf_fees = py_round 6 fees, bf_ts = pb_now s1\<rparr>"
  have "mk_broker_fill f = Inr f"
    using q py_round_6_pos [of px] py_round_nonneg [of fees 6] by (simp add: mk_broker_fill_def f_def)
  with run have s': "pb_fills s' = pb_fills s @ [f]" "total_cash s' = total_cash s1" "held s' = held s1"
    using fs by (auto simp: book_fill_def f_def Let_def put_order_def total_cash_def held_def fun_eq_iff)
  have "\<bar>py_round 6 px - px\<bar> \<le> 1 / 2000000" using py_round_error [of 6 px] by simp
  then have "qty * \<bar>py_round 6 px - px\<bar> \<le> qty * (1 / 2000000)"
    using q(1) by (intro mult_left_mono) simp_all
  then have "\<bar>qty * py_round 6 px - qty * px\<bar> \<le> qty / 2000000"
    using q(1) by (simp add: abs_mult right_diff_distrib [symmetric])
  moreover have "\<bar>py_round 6 fees - fees\<bar> \<le> 1 / 2000000" using py_round_error [of 6 fees] by simp
  ultimately have "\<bar>total_cash s1 - total_cash s - fill_cash f\<bar> \<le> qty / 2000000 + 1 / 2000000"
    unfolding cash fill_cash_def f_def abs_le_iff by simp
  then have "\<bar>total_cash s1 - total_cash s - fill_cash f\<bar> \<le> fill_slack f"
    by (simp add: fill_slack_def f_def add_divide_distrib)
  moreover have "\<bar>held s1 k - held s k - fill_shares k f\<bar> \<le> fill_dust k f" for k
    using sh [of k] by (simp only: fill_shares_def fill_dust_def f_def broker_fill.select_convs)
  ultimately show ?thesis
    using s' by (intro books_ok_fill [OF bk s'(1)]) simp_all
qed

lemma cannot_fill_books:
  "books_ok c0 s \<Longrightarrow> cannot_fill cid po s = (x, s') \<Longrightarrow> books_ok c0 s'"
  using books_ok_cong [of "put_order cid (po\<lparr>po_state := REJECTED\<rparr>) s" s c0]
  by (auto simp: cannot_fill_def put_order_def total_cash_def split: if_splits)

lemma held_put:
  "held (s\<lparr>pb_settled := c, pb_positions := dput ps k p\<rparr>) j =
    (if j = k then bp_qty p else held (s\<lparr>pb_positions := ps\<rparr>) j)"
  "held (s\<lparr>pb_positions := dput ps k p, pb_unsettled := c\<rparr>) j =
    (if j = k then bp_qty p else held (s\<lparr>pb_positions := ps\<rparr>) j)"
  by (simp_all add: held_def dict_simps)

lemma execute_buy_books:
  assumes inv: "paper_inv s" and bk: "books_ok c0 s" and b: "br_side (po_req po) = BUY"
    and q: "0 < qty" "1 / 1000000 \<le> px" "0 \<le> fees"
    and run: "execute_buy cid po qty px (qty * px) fees s = (x, s')"
  shows "books_ok c0 s'"
proof (cases "pb_settled s + eps < qty * px + fees")
  case True
  with run cannot_fill_books [OF bk] show ?thesis by (simp add: execute_buy_def Let_def)
next
  case False
  let ?k = "br_symbol (po_req po)"
  define basis where "basis = (case dget (pb_positions s) ?k of None \<Rightarrow> 0 | Some p \<Rightarrow> bp_qty p * bp_avg p)"
  have h: "0 \<le> held s ?k" "0 \<le> basis"
    using inv by (auto simp: held_def basis_def paper_inv_def positions_ok_def less_imp_le split: option.splits)
  have "0 \<le> qty * px" using q by simp
  then have "0 \<le> py_round 6 ((basis + qty * px) / (held s ?k + qty))"
    using h q(1) by (intro py_round_nonneg divide_nonneg_pos) linarith+
  then have run': "book_fill cid po qty px fees (s\<lparr>pb_settled := pb_settled s - (qty * px + fees),
      pb_positions := dput (pb_positions s) ?k \<lparr>bp_symbol = ?k, bp_qty = held s ?k + qty,
        bp_avg = py_round 6 ((basis + qty * px) / (held s ?k + qty))\<rparr>\<rparr>) = (x, s')"
    using run False h q(1) by (simp add: execute_buy_def Let_def mk_broker_position_def held_def basis_def)
  show ?thesis
    by (rule book_fill_books [OF bk q _ _ _ run']) (simp_all add: b total_cash_def held_put)
qed

lemma execute_sell_books:
  assumes inv: "paper_inv s" and bk: "books_ok c0 s" and b: "br_side (po_req po) \<noteq> BUY"
    and q: "0 < qty" "1 / 1000000 \<le> px" "0 \<le> fees"
    and run: "execute_sell cid po qty px (qty * px) fees s = (x, s')"
  shows "books_ok c0 s'"
proof (cases "\<exists>pos. dget (pb_positions s) (br_symbol (po_req po)) = Some pos \<and> qty \<le> bp_qty pos + eps")
  case False
  with run cannot_fill_books [OF bk] show ?thesis
    by (auto simp: execute_sell_def Let_def split: option.splits if_splits)
next
  case True
  then obtain pos where pos: "dget (pb_positions s) (br_symbol (po_req po)) = Some pos"
    and le: "qty \<le> bp_qty pos + eps" by blast
  let ?k = "br_symbol (po_req po)"
  have avg: "0 \<le> bp_avg pos" using inv pos by (simp add: paper_inv_def positions_ok_def)
  have ok: "dict_ok (pb_positions s)" using inv by (simp add: paper_inv_def positions_ok_def)
  let ?ps = "if bp_qty pos - qty \<le> eps then ddel (pb_positions s) ?k
     else dput (pb_positions s) ?k \<lparr>bp_symbol = ?k, bp_qty = bp_qty pos - qty, bp_avg = bp_avg pos\<rparr>"
  let ?s1 = "s\<lparr>pb_positions := ?ps, pb_unsettled := pb_unsettled s + (qty * px - fees)\<rparr>"
  have run': "book_fill cid po qty px fees ?s1 = (x, s')"
    using pos le run avg by (simp add: execute_sell_def Let_def mk_broker_position_def split: if_splits)
  have "\<bar>held ?s1 k - held s k - (if ?k \<noteq> k then 0 else if br_side (po_req po) = BUY then qty else - qty)\<bar> \<le>
      (if ?k = k \<and> br_side (po_req po) \<noteq> BUY then eps else 0)" for k
    using pos le b ok eps_pos(1) by (auto simp: held_def dict_simps split: option.splits)
  then show ?thesis
    by (intro book_fill_books [OF bk q _ _ _ run']) (simp_all add: b total_cash_def)
qed

lemma fill_price_tick:
  assumes "setup_ok s" "tick_ok q" "fill_price s r q = Inr (Some px)"
  shows "1 / 1000000 \<le> px"
proof -
  have "0 \<le> quote_mid q * pb_slip_bps s / 10000"
    using assms(1) quote_mid_pos [OF tick_quote_ok [OF assms(2)]] by (simp add: setup_ok_def)
  then show ?thesis
    using assms(2,3) by (auto simp: fill_price_def Let_def tick_ok_def le_max_iff_disj
        split: order_type.splits option.splits if_splits)
qed

lemma execute_quotes: "execute cid s = (x, s') \<Longrightarrow> pb_quote s' = pb_quote s"
  by (auto simp: execute_def execute_buy_def execute_sell_def cannot_fill_def put_order_def Let_def
      dest!: book_fill_frame split: option.splits sum.splits if_splits)

lemma execute_books:
  assumes inv: "paper_inv s" "ticks_ok s" "books_ok c0 s" and run: "execute cid s = (x, s')"
  shows "books_ok c0 s'"
proof (cases "\<exists>po q px. dget (pb_orders s) cid = Some po \<and> pb_quote s (br_symbol (po_req po)) = Inr q
    \<and> fill_price s (po_req po) q = Inr (Some px) \<and> eps < br_qty (po_req po) - po_filled po")
  case False
  with run have "s' = s"
    by (auto simp: execute_def Let_def not_le split: option.splits sum.splits if_splits)
  with inv show ?thesis by simp
next
  case True
  then obtain po q px where po: "dget (pb_orders s) cid = Some po"
    and qt: "pb_quote s (br_symbol (po_req po)) = Inr q"
    and px: "fill_price s (po_req po) q = Inr (Some px)"
    and rem: "eps < br_qty (po_req po) - po_filled po" by blast
  have set: "setup_ok s" using inv by (simp add: paper_inv_def)
  have p: "1 / 1000000 \<le> px"
    by (rule fill_price_tick [OF set _ px]) (use inv(2) qt in \<open>auto simp: ticks_ok_def\<close>)
  let ?rem = "br_qty (po_req po) - po_filled po"
  define qty where "qty = (if pb_fault s = PARTIAL_FILL then ?rem / 2 else ?rem)"
  define fees where "fees = qty * px * pb_fee_bps s / 10000"
  have "0 < ?rem" using rem eps_pos(1) by linarith
  then have q: "0 < qty" by (simp add: qty_def)
  have f: "0 \<le> fees" using q p set by (simp add: fees_def setup_ok_def)
  have run': "(if br_side (po_req po) = BUY then execute_buy cid po qty px (qty * px) fees s
       else execute_sell cid po qty px (qty * px) fees s) = (x, s')"
    using run po qt px rem by (simp add: execute_def Let_def qty_def fees_def not_le split: if_splits)
  show ?thesis
    using run' execute_buy_books [OF inv(1,3) _ q p f] execute_sell_books [OF inv(1,3) _ q p f]
    by (simp split: if_splits)
qed

lemma execute_book_inv: "book_inv c0 s \<Longrightarrow> execute cid s = (x, s') \<Longrightarrow> book_inv c0 s'"
  using execute_inv execute_books execute_quotes by (auto simp: book_inv_def ticks_ok_def)

lemma pb_submit_book_inv:
  assumes inv: "book_inv c0 s" and q: "0 < br_qty r" and run: "pb_submit r s = (x, s')"
  shows "book_inv c0 s'"
proof (cases "check_disconnect s \<or> dhas (pb_orders s) (br_cid r)")
  case True
  with run inv show ?thesis by (auto simp: pb_submit_def split: if_splits)
next
  case False
  let ?s1 = "put_order (br_cid r) \<lparr>po_req = r, po_id = pb_uuid s (pb_n s), po_state = ACKNOWLEDGED,
    po_filled = 0, po_fills = []\<rparr> (s\<lparr>pb_n := pb_n s + 1\<rparr>)"
  have "orders_ok (s\<lparr>pb_n := pb_n s + 1\<rparr>)" using inv by (simp add: book_inv_def paper_inv_def orders_ok_def)
  then have "orders_ok ?s1"
    by (rule orders_ok_new) (use False q in \<open>auto simp: dhas_def\<close>)
  then have "paper_inv ?s1"
    using inv by (simp add: book_inv_def paper_inv_def setup_ok_def positions_ok_def cash_ok_def put_order_def)
  moreover have "books_ok c0 ?s1"
    using inv books_ok_cong [of ?s1 s c0] by (simp add: book_inv_def put_order_def total_cash_def)
  ultimately have s1: "book_inv c0 ?s1" using inv by (simp add: book_inv_def ticks_ok_def put_order_def)
  obtain y s2 where e: "execute (br_cid r) ?s1 = (y, s2)" by (cases "execute (br_cid r) ?s1")
  have "s' = s2"
    using run False e by (auto simp: pb_submit_def Let_def split: sum.splits if_splits)
  with execute_book_inv [OF s1 e] show ?thesis by simp
qed

lemma poll_one_book_inv: "book_inv c0 s \<Longrightarrow> poll_one cid s = (x, s') \<Longrightarrow> book_inv c0 s'"
  by (auto simp: poll_one_def dest: execute_book_inv split: option.splits if_splits)

lemma pb_cancel_frame:
  "pb_cancel cid s = (x, s') \<Longrightarrow> pb_settled s' = pb_settled s \<and> pb_unsettled s' = pb_unsettled s \<and>
    pb_positions s' = pb_positions s \<and> pb_fills s' = pb_fills s \<and> pb_quote s' = pb_quote s"
  by (auto simp: pb_cancel_def put_order_def split: option.splits if_splits)

lemma paper_step_books:
  assumes "book_inv c0 s" "paper_sane op"
  shows "book_inv c0 (paper_step op s)"
proof (cases op)
  case (PSubmit r)
  with assms pb_submit_book_inv [OF assms(1) _ surjective_pairing] show ?thesis by simp
next
  case PPoll
  with poll_resting_preserves [where P = "book_inv c0", OF poll_one_book_inv assms(1) surjective_pairing]
  show ?thesis by simp
next
  case (PCancel cid)
  note fr = pb_cancel_frame [OF surjective_pairing, of cid s]
  then have "books_ok c0 (snd (pb_cancel cid s)) = books_ok c0 s"
    by (intro books_ok_cong) (simp_all add: total_cash_def)
  with fr PCancel assms paper_step_inv [OF _ assms(2), of s] show ?thesis
    by (simp add: book_inv_def ticks_ok_def)
next
  case PSettle
  with assms paper_step_inv [OF _ assms(2), of s] books_ok_cong [of "settle s" s c0] show ?thesis
    by (simp add: book_inv_def ticks_ok_def settle_def total_cash_def)
next
  case (PTime t)
  with assms paper_step_inv [OF _ assms(2), of s] books_ok_cong [of "s\<lparr>pb_now := t\<rparr>" s c0] show ?thesis
    by (simp add: book_inv_def ticks_ok_def total_cash_def)
next
  case (PFault f)
  with assms paper_step_inv [OF _ assms(2), of s] books_ok_cong [of "s\<lparr>pb_fault := f\<rparr>" s c0] show ?thesis
    by (simp add: book_inv_def ticks_ok_def total_cash_def)
next
  case (PQuote k y)
  with assms paper_step_inv [OF _ assms(2), of s]
    books_ok_cong [of "s\<lparr>pb_quote := (pb_quote s)(k := y)\<rparr>" s c0]
  show ?thesis by (auto simp: book_inv_def ticks_ok_def total_cash_def)
qed

lemma paper_run_books:
  "book_inv c0 s \<Longrightarrow> \<forall>op \<in> set ops. paper_sane op \<Longrightarrow> book_inv c0 (fold paper_step ops s)"
  by (induction ops arbitrary: s) (auto intro: paper_step_books)

lemma new_paper_books:
  assumes "0 \<le> c" "0 \<le> f" "f \<le> 10000" "0 \<le> sl" "\<And>k q. quote_fn k = Inr q \<Longrightarrow> tick_ok q"
  shows "book_inv c (new_paper quote_fn uuid c f sl)"
  using new_paper_inv [of c f sl quote_fn uuid] tick_quote_ok assms
  by (simp add: book_inv_def ticks_ok_def books_ok_def new_paper_def total_cash_def held_def)

section \<open>Properties\<close>

text \<open>
  C15. Whatever is submitted, cancelled, polled and settled, under every injected fault and
  every change of a quote between the calls, the paper broker's books are those of its fills.
  Its cash, settled and unsettled, is the initial cash less price and fees of every purchase plus
  the proceeds less fees of every sale it reports, up to the rounding of the reported price and
  fees to six decimals; its holding of each symbol is the shares bought less the shares sold, up
  to \<open>eps\<close> for each sale. It never spends more settled cash than it has, never holds a short
  position, and never fills an order beyond its quantity: the fills it reports for an order sum
  to what the order records, and none belongs to another symbol or side. Quotes are at least one
  unit in the sixth decimal; below that a fill's price rounds to zero.
\<close>

theorem paper_broker_is_sound:
  assumes "0 \<le> cash" "0 \<le> fee_bps" "fee_bps \<le> 10000" "0 \<le> slip_bps"
    and "\<And>k q. quote_fn k = Inr q \<Longrightarrow> tick_ok q"
    and "\<forall>op \<in> set ops. paper_sane op"
    and "s = fold paper_step ops (new_paper quote_fn uuid cash fee_bps slip_bps)"
  shows "\<bar>pb_settled s + pb_unsettled s -
      (cash + (\<Sum>f\<leftarrow>pb_fills s. if bf_side f = BUY then - (bf_qty f * bf_price f + bf_fees f)
         else bf_qty f * bf_price f - bf_fees f))\<bar> \<le> (\<Sum>f\<leftarrow>pb_fills s. (bf_qty f + 1) / 2000000) \<and>
    (\<forall>k. \<bar>held s k - (\<Sum>f\<leftarrow>filter (\<lambda>f. bf_symbol f = k) (pb_fills s).
         if bf_side f = BUY then bf_qty f else - bf_qty f)\<bar> \<le>
       eps * real (length (filter (\<lambda>f. bf_symbol f = k \<and> bf_side f \<noteq> BUY) (pb_fills s)))) \<and>
    - eps \<le> pb_settled s \<and> 0 \<le> pb_unsettled s \<and>
    (\<forall>k p. dget (pb_positions s) k = Some p \<longrightarrow> 0 < bp_qty p) \<and>
    (\<forall>cid po. dget (pb_orders s) cid = Some po \<longrightarrow>
      filled_total cid (pb_fills s) = po_filled po \<and> po_filled po \<le> br_qty (po_req po) \<and>
      (po_state po = FILLED \<longrightarrow> br_qty (po_req po) - eps \<le> po_filled po)) \<and>
    (\<forall>f \<in> set (pb_fills s). \<exists>r. paper_req s (bf_cid f) = Some r \<and>
      bf_symbol f = br_symbol r \<and> bf_side f = br_side r)"
proof -
  have all: "book_inv cash s"
    unfolding assms(7) by (rule paper_run_books [OF new_paper_books assms(6)]) (use assms(1-5) in auto)
  then have inv: "paper_inv s" and bk: "books_ok cash s" by (simp_all add: book_inv_def)
  note books = bk [unfolded books_ok_eq]
  have "\<forall>cid po. dget (pb_orders s) cid = Some po \<longrightarrow> paper_order_ok (pb_fills s) cid po"
    using inv by (simp add: paper_inv_def orders_ok_def)
  then have o: "\<forall>cid po. dget (pb_orders s) cid = Some po \<longrightarrow>
      filled_total cid (pb_fills s) = po_filled po \<and> po_filled po \<le> br_qty (po_req po) \<and>
      (po_state po = FILLED \<longrightarrow> br_qty (po_req po) - eps \<le> po_filled po)"
    unfolding paper_order_ok_def filled_total_def by metis
  have c: "- eps \<le> pb_settled s" "0 \<le> pb_unsettled s"
    using inv by (simp_all add: paper_inv_def cash_ok_def)
  have p: "\<forall>k p. dget (pb_positions s) k = Some p \<longrightarrow> 0 < bp_qty p"
    using inv by (simp add: paper_inv_def positions_ok_def)
  have g: "\<forall>f \<in> set (pb_fills s). \<exists>r. paper_req s (bf_cid f) = Some r \<and>
      bf_symbol f = br_symbol r \<and> bf_side f = br_side r"
    using paper_broker.fill_of_order [OF inv] by blast
  show ?thesis
    by (intro conjI conjunct1 [OF books] conjunct2 [OF books] c p o g)
qed

definition demo_quote :: "string \<Rightarrow> exn + real quote" where
  "demo_quote k = (if k = ''ABC'' then Inr \<lparr>q_symbol = k, q_ts = 0, q_bid = 99, q_ask = 101,
     q_bid_size = 500, q_ask_size = 500, q_halted = False, q_source = ''mock''\<rparr>
   else Inl MarketDataUnavailable)"

definition demo_request :: broker_request where
  "demo_request = \<lparr>br_cid = ''paper-0001'', br_symbol = ''ABC'', br_side = BUY, br_qty = 4,
     br_type = MARKET, br_limit = None, br_stop = None\<rparr>"

lemma demo_quote_ok: "demo_quote k = Inr q \<Longrightarrow> quote_ok q"
  by (auto simp: demo_quote_def quote_ok_def split: if_splits)

lemma demo_quote_tick: "demo_quote k = Inr q \<Longrightarrow> tick_ok q"
  by (auto simp: demo_quote_def tick_ok_def split: if_splits)

lemma paper_broker_is_sound_witness:
  "let s = fold paper_step [PFault PARTIAL_FILL, PSubmit demo_request]
             (new_paper demo_quote (\<lambda>n. ''id'') 1000 1 2)
   in - eps \<le> pb_settled s \<and> filled_total ''paper-0001'' (pb_fills s) = 2"
proof -
  let ?ops = "[PFault PARTIAL_FILL, PSubmit demo_request]"
  let ?s = "fold paper_step ?ops (new_paper demo_quote (\<lambda>n. ''id'') 1000 1 2)"
  have ops: "\<forall>op \<in> set ?ops. paper_sane op" by (simp add: demo_request_def)
  have all: "- eps \<le> pb_settled ?s"
    "\<forall>cid po. dget (pb_orders ?s) cid = Some po \<longrightarrow> filled_total cid (pb_fills ?s) = po_filled po"
    using paper_broker_is_sound [where quote_fn = demo_quote, OF _ _ _ _ _ ops refl,
        of 1000 1 2 "\<lambda>n. ''id''"] demo_quote_tick by simp_all
  have "\<exists>po. dget (pb_orders ?s) ''paper-0001'' = Some po \<and> po_filled po = 2"
    by (simp add: new_paper_def pb_submit_def check_disconnect_def dhas_def execute_def put_order_def
        demo_request_def demo_quote_def fill_price_def quote_mid_def execute_buy_def book_fill_def
        mk_broker_position_def mk_broker_fill_def cannot_fill_def py_round_def
        round_half_even_def Let_def eps_def)
  with all show ?thesis unfolding Let_def by metis
qed

text \<open>
  Below the tick the books do drift: a market order at an ask of a ten-millionth is paid for and
  booked, then its fill at price zero fails validation, and no fill is reported.
\<close>

lemma dust_price_is_booked_without_fill:
  "let s = new_paper (\<lambda>k. Inr \<lparr>q_symbol = k, q_ts = 0, q_bid = 1 / 10000000, q_ask = 1 / 10000000,
         q_bid_size = 500, q_ask_size = 500, q_halted = False, q_source = ''mock''\<rparr>) (\<lambda>n. ''id'') 1000 0 0;
       (x, s') = pb_submit demo_request s
   in x = Inl ValidationError \<and> pb_settled s' < 1000 \<and> held s' ''ABC'' = 4 \<and> pb_fills s' = []"
  by (simp add: new_paper_def pb_submit_def check_disconnect_def dhas_def execute_def put_order_def
      demo_request_def fill_price_def quote_mid_def execute_buy_def book_fill_def held_def
      mk_broker_position_def mk_broker_fill_def py_round_def round_half_even_def Let_def eps_def dict_simps)

end
