(* ===== verification/Store.thy ===== *)
theory Store
  imports OrderMachine
begin

text \<open>
  \<open>packages/common/durable_store.py\<close>: the durable tables behind idempotency and audit. A
  database is its tables by name, a table its rows by primary key in the order of insertion.
  The JSON form of a snapshot and the ISO form of a time are read back as they were written.
\<close>

section \<open>The order table\<close>

record order_row =
  ow_cid :: string
  ow_decision :: string
  ow_approval :: string
  ow_snapshot :: order_snapshot
  ow_state :: order_state
  ow_env :: environment
  ow_created :: instant
  ow_updated :: instant

type_synonym 'r tables = "(string, (string, 'r) dict) dict"

record durable_orders =
  ds_env :: environment
  ds_db :: "order_row tables"

definition orders_table :: "durable_orders \<Rightarrow> string" where
  "orders_table d = namespace (ds_env d) ''orders''"

definition rows_of :: "durable_orders \<Rightarrow> (string, order_row) dict" where
  "rows_of d = dget_or (ds_db d) (orders_table d) []"

definition open_orders :: "environment \<Rightarrow> order_row tables \<Rightarrow> durable_orders" where
  "open_orders env db =
     (let t = namespace env ''orders'' in
      \<lparr>ds_env = env, ds_db = (if dhas db t then db else dput db t [])\<rparr>)"

definition record_submission ::
    "string \<Rightarrow> string \<Rightarrow> string \<Rightarrow> order_snapshot \<Rightarrow> order_state \<Rightarrow> instant \<Rightarrow> (durable_orders, unit) act" where
  "record_submission cid decision_id approval_id snap st a_t d =
     (if dhas (rows_of d) cid then (Inl DuplicateClientOrderIdError, d)
      else (Inr (), d\<lparr>ds_db := dput (ds_db d) (orders_table d) (dput (rows_of d) cid
        \<lparr>ow_cid = cid, ow_decision = decision_id, ow_approval = approval_id, ow_snapshot = snap,
         ow_state = st, ow_env = ds_env d, ow_created = a_t, ow_updated = a_t\<rparr>)\<rparr>))"

definition update_state :: "string \<Rightarrow> order_state \<Rightarrow> instant \<Rightarrow> (durable_orders, unit) act" where
  "update_state cid st a_t d =
     (case dget (rows_of d) cid of
        None \<Rightarrow> (Inl KeyError, d)
      | Some row \<Rightarrow> (Inr (), d\<lparr>ds_db := dput (ds_db d) (orders_table d)
          (dput (rows_of d) cid (row\<lparr>ow_state := st, ow_updated := a_t\<rparr>))\<rparr>))"

definition is_known :: "durable_orders \<Rightarrow> string \<Rightarrow> bool" where
  "is_known d cid \<longleftrightarrow> dhas (rows_of d) cid"

definition get_order :: "durable_orders \<Rightarrow> string \<Rightarrow> order_row option" where
  "get_order d cid = dget (rows_of d) cid"

definition all_orders :: "durable_orders \<Rightarrow> order_row list" where
  "all_orders d = dvals (rows_of d)"

section \<open>The audit table\<close>

record audit_row =
  aw_cid :: string
  aw_decision :: string
  aw_json :: string
  aw_env :: environment
  aw_created :: instant
  aw_updated :: instant

record durable_audit =
  da_env :: environment
  da_db :: "audit_row tables"

definition audit_rows :: "durable_audit \<Rightarrow> (string, audit_row) dict" where
  "audit_rows d = dget_or (da_db d) (namespace (da_env d) ''pre_trade_audit'') []"

text \<open>On a conflict only the JSON and the time of the update change.\<close>

definition upsert :: "string \<Rightarrow> string \<Rightarrow> string \<Rightarrow> instant \<Rightarrow> durable_audit \<Rightarrow> durable_audit" where
  "upsert cid decision_id json a_t d =
     (let row = (case dget (audit_rows d) cid of
          None \<Rightarrow> \<lparr>aw_cid = cid, aw_decision = decision_id, aw_json = json, aw_env = da_env d,
                   aw_created = a_t, aw_updated = a_t\<rparr>
        | Some r \<Rightarrow> r\<lparr>aw_json := json, aw_updated := a_t\<rparr>)
      in d\<lparr>da_db := dput (da_db d) (namespace (da_env d) ''pre_trade_audit'')
            (dput (audit_rows d) cid row)\<rparr>)"

definition get_audit :: "durable_audit \<Rightarrow> string \<Rightarrow> audit_row option" where
  "get_audit d cid = dget (audit_rows d) cid"

definition all_audits :: "durable_audit \<Rightarrow> audit_row list" where
  "all_audits d = dvals (audit_rows d)"

lemma rows_of_dput [simp]:
  "rows_of (d\<lparr>ds_db := dput (ds_db d) (orders_table d) rows\<rparr>) = rows"
  by (simp add: rows_of_def orders_table_def dget_or_def dict_simps)

lemma get_audit_upsert:
  "get_audit (upsert cid dec json t d) cid =
    Some (case get_audit d cid of
        None \<Rightarrow> \<lparr>aw_cid = cid, aw_decision = dec, aw_json = json, aw_env = da_env d,
                 aw_created = t, aw_updated = t\<rparr>
      | Some r \<Rightarrow> r\<lparr>aw_json := json, aw_updated := t\<rparr>)"
  by (simp add: get_audit_def upsert_def audit_rows_def dget_or_def dict_simps Let_def)

lemma get_audit_upsert_other:
  "k \<noteq> cid \<Longrightarrow> get_audit (upsert cid dec json t d) k = get_audit d k"
  by (simp add: get_audit_def upsert_def audit_rows_def dget_or_def dict_simps Let_def)

section \<open>The contract behind idempotency\<close>

text \<open>
  What the execution engine relies on: recording an identifier makes it known for good, and
  recording a known one is refused.
\<close>

locale submission_store =
  fixes known :: "'s \<Rightarrow> string \<Rightarrow> bool"
    and record_new :: "string \<Rightarrow> 'row \<Rightarrow> ('s, unit) act"
    and update :: "string \<Rightarrow> order_state \<Rightarrow> instant \<Rightarrow> ('s, unit) act"
  assumes record_fresh: "\<not> known s cid \<Longrightarrow> record_new cid row s = (r, s') \<Longrightarrow> is_ok r \<and> known s' cid"
    and record_known: "known s cid \<Longrightarrow> record_new cid row s = (Inl DuplicateClientOrderIdError, s)"
    and record_mono: "known s k \<Longrightarrow> record_new cid row s = (r, s') \<Longrightarrow> known s' k"
    and update_mono: "known s k \<Longrightarrow> update cid st t s = (r', s') \<Longrightarrow> known s' k"
    and update_known: "is_ok (fst (update cid st t s)) \<longleftrightarrow> known s cid"
begin

fun run_store :: "(string \<times> 'row + string \<times> order_state \<times> instant) list \<Rightarrow> 's \<Rightarrow> 's" where
  "run_store [] s = s"
| "run_store (Inl (cid, row) # ops) s = run_store ops (snd (record_new cid row s))"
| "run_store (Inr (cid, st, t) # ops) s = run_store ops (snd (update cid st t s))"

lemma known_forever: "known s k \<Longrightarrow> known (run_store ops s) k"
proof (induction ops s rule: run_store.induct)
  case (2 cid row ops s)
  then show ?case using record_mono [OF _ surjective_pairing] by simp
next
  case (3 cid st t ops s)
  then show ?case using update_mono [OF _ surjective_pairing] by simp
qed simp

lemma recorded_once:
  assumes "record_new cid row s = (Inr u, s')"
  shows "record_new cid row' (run_store ops s') =
    (Inl DuplicateClientOrderIdError, run_store ops s')"
proof -
  have "\<not> known s cid" using record_known [of s cid row] assms by auto
  then have "known s' cid" using record_fresh assms by blast
  then show ?thesis by (intro record_known known_forever)
qed

end

interpretation durable: submission_store is_known
  "\<lambda>cid (dec, ap, snap, st, t). record_submission cid dec ap snap st t" update_state
  by unfold_locales
    (auto simp: is_known_def record_submission_def update_state_def dhas_def dict_simps
      split: if_splits option.splits)

text \<open>Tables of different environments do not see each other.\<close>

lemma other_environment_untouched:
  assumes "e \<noteq> ds_env d" and "record_submission cid dec ap snap st t d = (r, d')"
  shows "is_known \<lparr>ds_env = e, ds_db = ds_db d'\<rparr> k = is_known \<lparr>ds_env = e, ds_db = ds_db d\<rparr> k"
proof -
  have "namespace e ''orders'' \<noteq> namespace (ds_env d) ''orders''"
    using assms(1) namespace_inj by blast
  then show ?thesis
    using assms(2) by (auto simp: record_submission_def is_known_def rows_of_def orders_table_def
        dget_or_def dict_simps split: if_splits)
qed

section \<open>Properties\<close>

text \<open>
  Idempotency is durable: once a submission is recorded, then whatever submissions and
  state changes are written afterwards, recording the same client order id again is refused
  without a change, in the environment it was recorded in; the tables of the other
  environments of the same file never learn about it.
\<close>

theorem submissions_are_recorded_once:
  assumes "record_submission cid dec ap snap st t d = (Inr u, d')" and "e \<noteq> ds_env d"
  shows "record_submission cid dec' ap' snap' st' t' (durable.run_store ops d') =
      (Inl DuplicateClientOrderIdError, durable.run_store ops d') \<and>
    is_known \<lparr>ds_env = e, ds_db = ds_db d'\<rparr> cid = is_known \<lparr>ds_env = e, ds_db = ds_db d\<rparr> cid"
  using durable.recorded_once [of cid "(dec, ap, snap, st, t)" d u d' "(dec', ap', snap', st', t')" ops]
    other_environment_untouched [OF assms(2,1)] assms(1) by simp

definition demo_snapshot :: order_snapshot where
  "demo_snapshot = \<lparr>ss_cid = ''paper-0001'', ss_intent_id = ''prop'', ss_symbol = ''ABC'',
     ss_side = BUY, ss_qty = 2, ss_type = MARKET, ss_limit = None, ss_stop = None,
     ss_take_profit = None, ss_tif = ''DAY'', ss_strategy = [], ss_decision = [], ss_skeptic = [],
     ss_approval = ''u1'', ss_audit = [], ss_created = 0, ss_hash = ''5ha''\<rparr>"

lemma submissions_are_recorded_once_witness:
  "let d = open_orders PAPER [];
       d' = snd (record_submission ''paper-0001'' [] ''u1'' demo_snapshot SUBMITTED 3 d);
       d'' = durable.run_store [Inr (''paper-0001'', FILLED, 4)] d'
   in record_submission ''paper-0001'' [] ''u2'' demo_snapshot SUBMITTED 5 d'' =
        (Inl DuplicateClientOrderIdError, d'') \<and>
      \<not> is_known \<lparr>ds_env = LIVE, ds_db = ds_db d'\<rparr> ''paper-0001''"
proof -
  let ?d = "open_orders PAPER []"
  let ?r = "record_submission ''paper-0001'' [] ''u1'' demo_snapshot SUBMITTED 3 ?d"
  have n: "ds_env ?d = PAPER" "rows_of ?d = []"
    by (simp_all add: open_orders_def rows_of_def orders_table_def dget_or_def dhas_def Let_def)
  then have r: "?r = (Inr (), snd ?r)" by (simp add: record_submission_def dhas_def)
  have "namespace LIVE ''orders'' \<noteq> namespace PAPER ''orders''" using namespace_inj by blast
  then have l: "\<not> is_known \<lparr>ds_env = LIVE, ds_db = ds_db ?d\<rparr> ''paper-0001''"
    by (simp add: is_known_def rows_of_def orders_table_def open_orders_def dget_or_def dhas_def Let_def)
  have e: "LIVE \<noteq> ds_env ?d" using n by simp
  show ?thesis
    using submissions_are_recorded_once [OF r e, of "[]" "''u2''" demo_snapshot SUBMITTED 5
        "[Inr (''paper-0001'', FILLED, 4)]"] l
    unfolding Let_def by blast
qed

end
