(* ===== verification/Execution.thy ===== *)
theory Execution
  imports Broker Store RiskGate
begin

text \<open>
  \<open>services/execution/engine.py\<close>: the execution engine. The broker is any adapter on a broker
  state; the engine's own state is a record with the broker, the risk controller, the order
  machine and the durable store as components. \<open>now\<close> is the clock reading of an operation and
  \<open>since\<close> its \<open>replace(year=2000)\<close>. Calls of \<open>on_fill\<close> are logged in the order they are made.
\<close>

section \<open>State\<close>

record 'b engine =
  en_broker :: 'b
  en_risk :: controller
  en_machine :: machine
  en_env :: environment
  en_has_on_fill :: bool
  en_delivered :: "broker_fill list"
  en_store :: "durable_orders option"
  en_submitted :: "(string, approved_order) dict"
  en_snapshots :: "(string, order_snapshot) dict"

definition on_machine :: "(machine, 'a) act \<Rightarrow> ('b engine, 'a) act" where
  "on_machine f e = (let (r, m) = f (en_machine e) in (r, e\<lparr>en_machine := m\<rparr>))"

text \<open>\<open>if self.store is not None: self.store.f(...)\<close>\<close>

definition on_store :: "(durable_orders, unit) act \<Rightarrow> ('b engine, unit) act" where
  "on_store f e =
     (case en_store e of
        None \<Rightarrow> (Inr (), e)
      | Some d \<Rightarrow> (let (r, d') = f d in (r, e\<lparr>en_store := Some d'\<rparr>)))"

definition modify :: "('s \<Rightarrow> 's) \<Rightarrow> ('s, unit) act" where
  "modify f s = (Inr (), f s)"

section \<open>Operations\<close>

definition sync_store :: "string \<Rightarrow> order_state \<Rightarrow> instant \<Rightarrow> ('b engine, unit) act" where
  "sync_store cid st now = on_store (update_state cid st now)"

definition store_knows :: "'b engine \<Rightarrow> string \<Rightarrow> bool" where
  "store_knows e cid = (case en_store e of None \<Rightarrow> False | Some d \<Rightarrow> is_known d cid)"

definition deliver_fills :: "'b adapter \<Rightarrow> string \<Rightarrow> instant \<Rightarrow> ('b engine, unit) act" where
  "deliver_fills A cid since e =
     (case ad_fills A since (en_broker e) of
        Inl x \<Rightarrow> (Inl x, e)
      | Inr fs \<Rightarrow> (Inr (), e\<lparr>en_delivered := en_delivered e @ filter (\<lambda>f. bf_cid f = cid) fs\<rparr>))"

definition state_now :: "string \<Rightarrow> ('b engine, order_state) act" where
  "state_now cid e = (case om_get (en_machine e) cid of Inl x \<Rightarrow> (Inl x, e) | Inr r \<Rightarrow> (Inr (or_state r), e))"

text \<open>Settling the machine on a reported state and routing the fills of the order.\<close>

definition adopt :: "'b adapter \<Rightarrow> string \<Rightarrow> order_state \<Rightarrow> instant \<Rightarrow> instant \<Rightarrow> ('b engine, unit) act" where
  "adopt A cid st now since =
     bind_act (on_machine (om_transition cid st now)) (\<lambda>_.
     bind_act (sync_store cid st now) (\<lambda>_ e.
       if st \<in> {PARTIALLY_FILLED, FILLED} \<and> en_has_on_fill e then deliver_fills A cid since e
       else (Inr (), e)))"

definition poll_order :: "'b adapter \<Rightarrow> instant \<Rightarrow> instant \<Rightarrow> string \<Rightarrow> ('b engine, order_state) act" where
  "poll_order A now since cid e =
     (case ad_status A cid (en_broker e) of
        Inl x \<Rightarrow> (Inl x, e)
      | Inr report \<Rightarrow>
          bind_act (state_now cid) (\<lambda>current.
          bind_act (if bs_state report \<noteq> current \<and>
                       bs_state report \<in> {PARTIALLY_FILLED, FILLED, CANCELLED, REJECTED, EXPIRED}
                    then adopt A cid (bs_state report) now since else ret ()) (\<lambda>_.
            state_now cid)) e)"

definition request_of :: "order_snapshot \<Rightarrow> broker_request" where
  "request_of s = \<lparr>br_cid = ss_cid s, br_symbol = ss_symbol s, br_side = ss_side s, br_qty = ss_qty s,
     br_type = ss_type s, br_limit = ss_limit s, br_stop = ss_stop s\<rparr>"

text \<open>The two \<open>except\<close> clauses of \<open>submit\<close>.\<close>

definition outcome_unknown ::
    "string \<Rightarrow> risk_state \<Rightarrow> instant \<Rightarrow> ('b engine, order_state) act" where
  "outcome_unknown cid rs now =
     bind_act (on_machine (om_transition cid UNKNOWN now)) (\<lambda>_.
     bind_act (sync_store cid UNKNOWN now) (\<lambda>_.
     bind_act (modify (\<lambda>e. e\<lparr>en_risk := set_state rs (en_risk e)\<rparr>)) (\<lambda>_.
       ret UNKNOWN)))"

definition send ::
    "'b adapter \<Rightarrow> instant \<Rightarrow> instant \<Rightarrow> string \<Rightarrow> broker_request \<Rightarrow> ('b engine, order_state) act" where
  "send A now since cid req e =
     (let (res, b) = ad_submit A req (en_broker e); e1 = e\<lparr>en_broker := b\<rparr> in
      case res of
        Inl x \<Rightarrow>
          if x = BrokerTimeoutError then outcome_unknown cid HALT_NEW_ENTRIES now e1
          else if x = BrokerDisconnectedError then outcome_unknown cid FULL_BROKER_DISCONNECT now e1
          else (Inl x, e1)
      | Inr ack \<Rightarrow>
          if \<not> ack_accepted ack then
            bind_act (on_machine (om_transition cid REJECTED now)) (\<lambda>_.
            bind_act (sync_store cid REJECTED now) (\<lambda>_. ret REJECTED)) e1
          else
            bind_act (on_machine (om_transition cid ACKNOWLEDGED now)) (\<lambda>_.
            bind_act (sync_store cid ACKNOWLEDGED now) (\<lambda>_. poll_order A now since cid)) e1)"

text \<open>The checks of \<open>submit\<close> before any state is touched, in their order.\<close>

definition submit_guard ::
    "prims \<Rightarrow> approved_order \<Rightarrow> order_snapshot option \<Rightarrow> 'b engine \<Rightarrow> exn + order_snapshot" where
  "submit_guard pr order snap e =
     (let i = ao_intent order in
      if \<not> verify_signature pr (en_risk e) (ao_approval order) then Inl UnauthorizedOrderError
      else if oi_env i \<noteq> en_env e then Inl UnauthorizedOrderError
      else if dhas (en_submitted e) (oi_id i) \<or> store_knows e (oi_id i)
        then Inl DuplicateClientOrderIdError
      else case snap of
          None \<Rightarrow> Inl OrderTamperError
        | Some s \<Rightarrow>
            if ss_approval s \<noteq> ap_id (ao_approval order) then Inl OrderTamperError
            else if \<not> matches_intent (pr_sha pr) s i then Inl OrderTamperError
            else Inr s)"

text \<open>From registering the snapshot to recording the submission, up to the broker call.\<close>

definition prepare ::
    "instant \<Rightarrow> approved_order \<Rightarrow> order_snapshot \<Rightarrow> ('b engine, broker_request) act" where
  "prepare now order s =
     (let i = ao_intent order; cid = oi_id i in
      bind_act (modify (\<lambda>e. e\<lparr>en_snapshots := dput (en_snapshots e) cid s\<rparr>)) (\<lambda>_.
      bind_act (on_machine (om_create cid)) (\<lambda>_.
      bind_act (on_machine (om_transition cid RISK_APPROVED now)) (\<lambda>_.
      bind_act (modify (\<lambda>e. e\<lparr>en_submitted := dput (en_submitted e) cid order\<rparr>)) (\<lambda>_.
      case mk_broker_request (request_of s) of
        Inl x \<Rightarrow> throw x
      | Inr req \<Rightarrow>
          bind_act (on_machine (om_transition cid SUBMITTED now)) (\<lambda>_.
          bind_act (on_store (record_submission cid (ss_decision s) (ap_id (ao_approval order)) s
                      SUBMITTED now)) (\<lambda>_. ret req)))))))"

definition submit_body ::
    "'b adapter \<Rightarrow> instant \<Rightarrow> instant \<Rightarrow> approved_order \<Rightarrow> order_snapshot \<Rightarrow> ('b engine, order_state) act" where
  "submit_body A now since order s =
     bind_act (prepare now order s) (send A now since (oi_id (ao_intent order)))"

definition submit ::
    "prims \<Rightarrow> 'b adapter \<Rightarrow> instant \<Rightarrow> instant \<Rightarrow> approved_order \<Rightarrow> order_snapshot option
      \<Rightarrow> ('b engine, order_state) act" where
  "submit pr A now since order snap e =
     (case submit_guard pr order snap e of
        Inl x \<Rightarrow> (Inl x, e)
      | Inr s \<Rightarrow> submit_body A now since order s e)"

text \<open>One order of \<open>sync_open_orders\<close>.\<close>

definition sync_one :: "'b adapter \<Rightarrow> instant \<Rightarrow> instant \<Rightarrow> string \<Rightarrow> ('b engine, unit) act" where
  "sync_one A now since cid e =
     (case state_of (en_machine e) cid of
        None \<Rightarrow> (Inr (), e)
      | Some st \<Rightarrow>
          if st \<in> {ACKNOWLEDGED, PARTIALLY_FILLED}
          then bind_act (poll_order A now since cid) (\<lambda>_. ret ()) e else (Inr (), e))"

definition poll_broker :: "'b adapter \<Rightarrow> ('b engine, broker_fill list) act" where
  "poll_broker A e = (let (r, b) = ad_poll A (en_broker e) in (r, e\<lparr>en_broker := b\<rparr>))"

definition sync_open_orders :: "'b adapter \<Rightarrow> instant \<Rightarrow> instant \<Rightarrow> ('b engine, broker_fill list) act" where
  "sync_open_orders A now since e =
     (case bind_act (poll_broker A) (\<lambda>fs e.
             bind_act (for_each (sync_one A now since) (dkeys (om_orders (en_machine e)))) (\<lambda>_. ret fs) e) e of
        (Inl x, e') \<Rightarrow>
          if x = BrokerDisconnectedError
          then (Inr [], e'\<lparr>en_risk := set_state FULL_BROKER_DISCONNECT (en_risk e')\<rparr>)
          else (Inl x, e')
      | (Inr fs, e') \<Rightarrow> (Inr fs, e'))"

definition resolve_unknown ::
    "'b adapter \<Rightarrow> instant \<Rightarrow> instant \<Rightarrow> string \<Rightarrow> ('b engine, order_state) act" where
  "resolve_unknown A now since cid e =
     (case ad_status A cid (en_broker e) of
        Inl x \<Rightarrow> if x \<in> {BrokerDisconnectedError, KeyError} then (Inr UNKNOWN, e) else (Inl x, e)
      | Inr report \<Rightarrow>
          bind_act (state_now cid) (\<lambda>st.
          bind_act (if st = UNKNOWN then adopt A cid (bs_state report) now since else ret ()) (\<lambda>_.
            state_now cid)) e)"

text \<open>One row of \<open>recover_from_store\<close>; the counter is the second component.\<close>

definition recover_row :: "order_row \<Rightarrow> 'b engine \<times> nat \<Rightarrow> 'b engine \<times> nat" where
  "recover_row row en =
     (let (e, n) = en in
      case dget (om_orders (en_machine e)) (ow_cid row) of
        Some _ \<Rightarrow> (e, n)
      | None \<Rightarrow>
          (e\<lparr>en_machine := snd (om_restore (ow_cid row) (ow_state row) (en_machine e)),
             en_snapshots := dput (en_snapshots e) (ow_cid row) (ow_snapshot row)\<rparr>, n + 1))"

definition recover_from_store :: "'b engine \<Rightarrow> 'b engine \<times> nat" where
  "recover_from_store e =
     (case en_store e of None \<Rightarrow> (e, 0) | Some d \<Rightarrow> fold recover_row (all_orders d) (e, 0))"

definition cancel_order :: "'b adapter \<Rightarrow> string \<Rightarrow> ('b engine, broker_ack) act" where
  "cancel_order A cid e = (let (r, b) = ad_cancel A cid (en_broker e) in (r, e\<lparr>en_broker := b\<rparr>))"

definition is_stale :: "instant \<Rightarrow> controller \<Rightarrow> order_state \<Rightarrow> approved_order \<Rightarrow> bool" where
  "is_stale now c st order \<longleftrightarrow> st = ACKNOWLEDGED \<and> \<not> oi_protective (ao_intent order) \<and>
     stale_order_after_sec (mc_config c) < total_seconds (now - oi_created (ao_intent order))"

fun stale_loop :: "'b adapter \<Rightarrow> instant \<Rightarrow> instant \<Rightarrow> (string \<times> approved_order) list \<Rightarrow> string list
    \<Rightarrow> ('b engine, string list) act" where
  "stale_loop A now since [] stale e = (Inr stale, e)"
| "stale_loop A now since ((cid, order) # os) stale e =
     bind_act (state_now cid) (\<lambda>st e1.
       if is_stale now (en_risk e1) st order then
         bind_act (cancel_order A cid) (\<lambda>_.
         bind_act (on_machine (om_transition cid CANCEL_REQUESTED now)) (\<lambda>_.
         bind_act (poll_order A now since cid) (\<lambda>_.
           stale_loop A now since os (stale @ [cid])))) e1
       else stale_loop A now since os stale e1) e"

definition check_stale_orders :: "'b adapter \<Rightarrow> instant \<Rightarrow> instant \<Rightarrow> ('b engine, string list) act" where
  "check_stale_orders A now since e = stale_loop A now since (en_submitted e) [] e"

section \<open>Preservation through the operations\<close>

text \<open>A property that is about other fields than the ones an operation writes.\<close>

lemma keeps_on_machine [keeps_intros]:
  "(\<And>e m. P e \<Longrightarrow> P (e\<lparr>en_machine := m\<rparr>)) \<Longrightarrow> keeps P (on_machine f)"
  by (auto simp: keeps_def on_machine_def split: prod.splits)

lemma keeps_modify [keeps_intros]: "(\<And>e. P e \<Longrightarrow> P (f e)) \<Longrightarrow> keeps P (modify f)"
  by (simp add: keeps_def modify_def)

lemma keeps_on_store [keeps_intros]:
  "(\<And>e d r d'. P e \<Longrightarrow> en_store e = Some d \<Longrightarrow> f d = (r, d') \<Longrightarrow> P (e\<lparr>en_store := Some d'\<rparr>)) \<Longrightarrow>
    keeps P (on_store f)"
  by (auto simp: keeps_def on_store_def split: prod.splits option.splits)

lemma keeps_state_now [keeps_intros]: "keeps P (state_now cid)"
  by (auto simp: keeps_def state_now_def split: sum.splits)

lemma keeps_deliver [keeps_intros]:
  "(\<And>e fs. P e \<Longrightarrow> P (e\<lparr>en_delivered := fs\<rparr>)) \<Longrightarrow> keeps P (deliver_fills A cid since)"
  by (auto simp: keeps_def deliver_fills_def split: sum.splits)

text \<open>
  The frame of the engine: a property that survives every change of the machine, the
  deliveries, the risk state and the state columns of the store survives everything but a
  submission and a broker call.
\<close>

definition framed :: "('b engine \<Rightarrow> bool) \<Rightarrow> bool" where
  "framed P \<longleftrightarrow> (\<forall>e m. P e \<longrightarrow> P (e\<lparr>en_machine := m\<rparr>)) \<and>
     (\<forall>e fs. P e \<longrightarrow> P (e\<lparr>en_delivered := fs\<rparr>)) \<and>
     (\<forall>e ss. P e \<longrightarrow> P (e\<lparr>en_snapshots := ss\<rparr>)) \<and>
     (\<forall>e rs. P e \<longrightarrow> P (e\<lparr>en_risk := set_state rs (en_risk e)\<rparr>)) \<and>
     (\<forall>e d cid st t. P e \<longrightarrow> en_store e = Some d \<longrightarrow>
        P (e\<lparr>en_store := Some (snd (update_state cid st t d))\<rparr>))"

lemma framed_machine: "framed P \<Longrightarrow> P e \<Longrightarrow> P (e\<lparr>en_machine := m\<rparr>)"
  and framed_delivered: "framed P \<Longrightarrow> P e \<Longrightarrow> P (e\<lparr>en_delivered := fs\<rparr>)"
  and framed_snapshots: "framed P \<Longrightarrow> P e \<Longrightarrow> P (e\<lparr>en_snapshots := ss\<rparr>)"
  and framed_risk: "framed P \<Longrightarrow> P e \<Longrightarrow> P (e\<lparr>en_risk := set_state rs (en_risk e)\<rparr>)"
  and framed_update: "framed P \<Longrightarrow> P e \<Longrightarrow> en_store e = Some d \<Longrightarrow>
    P (e\<lparr>en_store := Some (snd (update_state cid st t d))\<rparr>)"
  by (auto simp: framed_def)

lemma keeps_sync_store: "framed P \<Longrightarrow> keeps P (sync_store cid st now)"
  unfolding sync_store_def
  by (rule keeps_on_store) (metis framed_update snd_conv)

lemma keeps_transition: "framed P \<Longrightarrow> keeps P (on_machine f)"
  by (rule keeps_on_machine) (rule framed_machine)

lemma keeps_adopt: "framed P \<Longrightarrow> keeps P (adopt A cid st now since)"
  unfolding adopt_def
  by (intro keeps_bind keeps_transition keeps_sync_store, assumption, assumption)
    (auto simp: keeps_def deliver_fills_def framed_delivered split: sum.splits)

lemma keeps_poll_order: "framed P \<Longrightarrow> keeps P (poll_order A now since cid)"
proof (rule keepsI)
  fix e r e'
  assume f: "framed P" and P: "P e" and run: "poll_order A now since cid e = (r, e')"
  show "P e'"
  proof (cases "ad_status A cid (en_broker e)")
    case (Inl x)
    with run P show ?thesis by (simp add: poll_order_def)
  next
    case (Inr report)
    let ?body = "bind_act (state_now cid) (\<lambda>current.
          bind_act (if bs_state report \<noteq> current \<and>
                       bs_state report \<in> {PARTIALLY_FILLED, FILLED, CANCELLED, REJECTED, EXPIRED}
                    then adopt A cid (bs_state report) now since else ret ()) (\<lambda>_. state_now cid))"
    have "keeps P ?body" by (intro keeps_bind keeps_state_now keeps_if keeps_adopt f keeps_ret)
    moreover have "?body e = (r, e')" using run Inr by (simp add: poll_order_def)
    ultimately show ?thesis by (rule keepsD [where P = P, OF _ P])
  qed
qed

lemma keeps_outcome_unknown:
  assumes f: "framed P" shows "keeps P (outcome_unknown cid rs now)"
  unfolding outcome_unknown_def
  by (intro keeps_bind keeps_transition [OF f] keeps_sync_store [OF f] keeps_modify keeps_ret)
    (rule framed_risk [OF f])

text \<open>A submission touches the broker exactly once, with the request it was given.\<close>

lemma send_keeps:
  assumes f: "framed P" and run: "send A now since cid req e = (r, e')"
    and P: "P (e\<lparr>en_broker := snd (ad_submit A req (en_broker e))\<rparr>)"
  shows "P e'"
proof -
  obtain res b where s: "ad_submit A req (en_broker e) = (res, b)"
    by (cases "ad_submit A req (en_broker e)")
  let ?e1 = "e\<lparr>en_broker := b\<rparr>"
  have P1: "P ?e1" using P s by simp
  let ?rej = "bind_act (on_machine (om_transition cid REJECTED now)) (\<lambda>_.
            bind_act (sync_store cid REJECTED now) (\<lambda>_. ret REJECTED))"
  let ?ack = "bind_act (on_machine (om_transition cid ACKNOWLEDGED now)) (\<lambda>_.
            bind_act (sync_store cid ACKNOWLEDGED now) (\<lambda>_. poll_order A now since cid))"
  have k: "keeps P ?rej" "keeps P ?ack" "\<And>rs. keeps P (outcome_unknown cid rs now)"
    by (intro keeps_bind keeps_transition keeps_sync_store keeps_ret keeps_poll_order
        keeps_outcome_unknown f)+
  have "?rej ?e1 = (r, e') \<or> ?ack ?e1 = (r, e') \<or> outcome_unknown cid HALT_NEW_ENTRIES now ?e1 = (r, e')
      \<or> outcome_unknown cid FULL_BROKER_DISCONNECT now ?e1 = (r, e') \<or> e' = ?e1"
    using run s by (auto simp: send_def Let_def split: sum.splits if_splits)
  then show ?thesis
    using P1 keepsD [OF k(1) P1] keepsD [OF k(2) P1] keepsD [OF k(3) P1] by blast
qed

text \<open>The preparation changes neither the broker nor the rules it is checked against.\<close>

lemma keeps_prepare:
  assumes f: "framed P"
    and reg: "\<And>e. P e \<Longrightarrow> P (e\<lparr>en_submitted := dput (en_submitted e) (oi_id (ao_intent order)) order\<rparr>)"
    and recd: "\<And>e d dec ap snap st r d'. P e \<Longrightarrow> en_store e = Some d \<Longrightarrow>
      record_submission (oi_id (ao_intent order)) dec ap snap st now d = (r, d') \<Longrightarrow>
      P (e\<lparr>en_store := Some d'\<rparr>)"
  shows "keeps P (prepare now order s)"
  unfolding prepare_def Let_def
  by (intro keeps_bind keeps_modify keeps_transition [OF f] keeps_throw keeps_ret keeps_on_store
      framed_snapshots [OF f] reg recd; (assumption)?)
    (auto split: sum.split intro!: keeps_bind keeps_transition [OF f] keeps_throw keeps_ret
      keeps_on_store recd)

lemma prepare_result:
  assumes "prepare now order s e = (Inr req, e')"
  shows "req = request_of s \<and> 0 < br_qty req \<and>
    dget (en_submitted e') (oi_id (ao_intent order)) = Some order \<and> en_broker e' = en_broker e \<and>
    mc_key (en_risk e') = mc_key (en_risk e)"
  using assms
  by (auto simp: prepare_def Let_def bind_act_def modify_def on_machine_def on_store_def throw_def
      ret_def mk_broker_request_def dict_simps split: prod.splits sum.splits option.splits if_splits)

lemma keeps_sync_one: "framed P \<Longrightarrow> keeps P (sync_one A now since cid)"
proof (rule keepsI)
  fix e r e'
  assume f: "framed P" and P: "P e" and run: "sync_one A now since cid e = (r, e')"
  have "keeps P (bind_act (poll_order A now since cid) (\<lambda>_. ret ()))"
    by (intro keeps_bind keeps_poll_order f keeps_ret)
  then have "bind_act (poll_order A now since cid) (\<lambda>_. ret ()) e = (r, e') \<Longrightarrow> P e'"
    using P by (rule keepsD [where P = P])
  then show "P e'" using run P by (auto simp: sync_one_def split: option.splits if_splits)
qed

lemma sync_open_orders_keeps:
  assumes f: "framed P" and run: "sync_open_orders A now since e = (r, e')"
    and P: "P (e\<lparr>en_broker := snd (ad_poll A (en_broker e))\<rparr>)"
  shows "P e'"
proof -
  obtain x b where b: "ad_poll A (en_broker e) = (x, b)" by (cases "ad_poll A (en_broker e)")
  let ?e1 = "e\<lparr>en_broker := b\<rparr>"
  have P1: "P ?e1" using P b by simp
  show ?thesis
  proof (cases x)
    case (Inl ex)
    with run b P1 framed_risk [OF f P1] show ?thesis
      by (auto simp: sync_open_orders_def bind_act_def poll_broker_def split: if_splits)
  next
    case (Inr fs)
    obtain y e2 where y: "bind_act (for_each (sync_one A now since)
        (dkeys (om_orders (en_machine ?e1)))) (\<lambda>_. ret fs) ?e1 = (y, e2)"
      by (cases "bind_act (for_each (sync_one A now since)
        (dkeys (om_orders (en_machine ?e1)))) (\<lambda>_. ret fs) ?e1")
    have "keeps P (bind_act (for_each (sync_one A now since)
        (dkeys (om_orders (en_machine ?e1)))) (\<lambda>_. ret fs))"
      by (intro keeps_bind keeps_for_each keeps_sync_one f keeps_ret)
    from keepsD [where P = P, OF this P1 y] have "P e2" .
    moreover have "e' = e2 \<or> e' = e2\<lparr>en_risk := set_state FULL_BROKER_DISCONNECT (en_risk e2)\<rparr>"
      using run b Inr y
      by (auto simp: sync_open_orders_def bind_act_def [of "poll_broker A"] poll_broker_def
          split: sum.splits if_splits)
    ultimately show ?thesis using framed_risk [OF f] by blast
  qed
qed

lemma resolve_unknown_keeps:
  assumes f: "framed P" and P: "P e" and run: "resolve_unknown A now since cid e = (r, e')"
  shows "P e'"
proof (cases "ad_status A cid (en_broker e)")
  case (Inl x)
  with run P show ?thesis by (auto simp: resolve_unknown_def split: if_splits)
next
  case (Inr report)
  let ?body = "bind_act (state_now cid) (\<lambda>st.
      bind_act (if st = UNKNOWN then adopt A cid (bs_state report) now since else ret ()) (\<lambda>_.
        state_now cid))"
  have "keeps P ?body" by (intro keeps_bind keeps_state_now keeps_if keeps_adopt f keeps_ret)
  moreover have "?body e = (r, e')" using run Inr by (simp add: resolve_unknown_def)
  ultimately show ?thesis by (rule keepsD [where P = P, OF _ P])
qed

lemma recover_keeps:
  assumes f: "framed P" and P: "P e"
  shows "P (fst (recover_from_store e))"
proof (cases "en_store e")
  case None
  with P show ?thesis by (simp add: recover_from_store_def)
next
  case (Some d)
  have "P (fst (fold recover_row rows (e, n)))" for rows n
    using P
  proof (induction rows arbitrary: e n)
    case Nil
    then show ?case by simp
  next
    case (Cons row rows)
    have "P (fst (recover_row row (e, n)))"
      using Cons.prems framed_snapshots [OF f framed_machine [OF f Cons.prems]]
      by (auto simp: recover_row_def split: option.splits)
    then show ?case using Cons.IH [of "fst (recover_row row (e, n))" "snd (recover_row row (e, n))"]
      by simp
  qed
  with Some show ?thesis by (simp add: recover_from_store_def)
qed

lemma keeps_cond: "keeps P f \<Longrightarrow> keeps P g \<Longrightarrow> keeps P (\<lambda>s. if b s then f s else g s)"
  by (auto simp: keeps_def)

lemma keeps_stale_loop:
  assumes f: "framed P" and c: "\<And>cid. keeps P (cancel_order A cid)"
  shows "keeps P (stale_loop A now since os stale)"
proof (induction os arbitrary: stale)
  case Nil
  then show ?case by (simp add: keeps_def)
next
  case (Cons x os)
  obtain cid order where x: "x = (cid, order)" by (cases x)
  have "stale_loop A now since (x # os) stale = bind_act (state_now cid) (\<lambda>st e1.
       if is_stale now (en_risk e1) st order then
         bind_act (cancel_order A cid) (\<lambda>_.
         bind_act (on_machine (om_transition cid CANCEL_REQUESTED now)) (\<lambda>_.
         bind_act (poll_order A now since cid) (\<lambda>_.
           stale_loop A now since os (stale @ [cid])))) e1
       else stale_loop A now since os stale e1)"
    by (rule ext) (simp add: x)
  moreover have "keeps P \<dots>"
    by (intro keeps_bind keeps_state_now keeps_cond c keeps_transition [OF f]
        keeps_poll_order [OF f] Cons.IH)
  ultimately show ?case by simp
qed

section \<open>Histories\<close>

text \<open>
  The calls a process makes on the engine, with the moves the broker's world makes in between.
\<close>

datatype 'o engine_op =
    ESubmit approved_order "order_snapshot option"
  | EPoll string
  | ESync
  | EResolve string
  | ERecover
  | EStale
  | EWorld 'o

fun engine_step ::
    "prims \<Rightarrow> 'b adapter \<Rightarrow> ('o \<Rightarrow> 'b \<Rightarrow> 'b) \<Rightarrow> instant \<times> instant \<times> 'o engine_op \<Rightarrow> 'b engine \<Rightarrow> 'b engine" where
  "engine_step pr A w (now, since, ESubmit order snap) e = snd (submit pr A now since order snap e)"
| "engine_step pr A w (now, since, EPoll cid) e = snd (poll_order A now since cid e)"
| "engine_step pr A w (now, since, ESync) e = snd (sync_open_orders A now since e)"
| "engine_step pr A w (now, since, EResolve cid) e = snd (resolve_unknown A now since cid e)"
| "engine_step pr A w (now, since, ERecover) e = fst (recover_from_store e)"
| "engine_step pr A w (now, since, EStale) e = snd (check_stale_orders A now since e)"
| "engine_step pr A w (now, since, EWorld x) e = e\<lparr>en_broker := w x (en_broker e)\<rparr>"

lemma engine_step_keeps:
  assumes f: "framed P" and P: "P e"
    and sub: "\<And>order snap r e'. op = ESubmit order snap \<Longrightarrow>
      submit pr A now since order snap e = (r, e') \<Longrightarrow> P e'"
    and poll: "\<And>e. P e \<Longrightarrow> P (e\<lparr>en_broker := snd (ad_poll A (en_broker e))\<rparr>)"
    and canc: "\<And>e cid. P e \<Longrightarrow> P (e\<lparr>en_broker := snd (ad_cancel A cid (en_broker e))\<rparr>)"
    and world: "\<And>x. op = EWorld x \<Longrightarrow> P (e\<lparr>en_broker := w x (en_broker e)\<rparr>)"
  shows "P (engine_step pr A w (now, since, op) e)"
proof -
  have c: "keeps P (cancel_order A cid)" for cid
    using canc by (auto simp: keeps_def cancel_order_def Let_def split_def)
  show ?thesis
  proof (cases op)
    case (ESubmit order snap)
    then show ?thesis by (auto intro: sub [OF _ surjective_pairing])
  next
    case (EPoll cid)
    then show ?thesis using keepsD [where P = P, OF keeps_poll_order [OF f] P surjective_pairing] by simp
  next
    case ESync
    then show ?thesis using sync_open_orders_keeps [where P = P, OF f surjective_pairing poll [OF P]] by simp
  next
    case (EResolve cid)
    then show ?thesis using resolve_unknown_keeps [where P = P, OF f P surjective_pairing] by simp
  next
    case ERecover
    then show ?thesis using recover_keeps [OF f P] by simp
  next
    case EStale
    then show ?thesis
      using keepsD [where P = P, OF keeps_stale_loop [OF f c] P surjective_pairing]
      by (simp add: check_stale_orders_def)
  next
    case (EWorld x)
    then show ?thesis using world by simp
  qed
qed

section \<open>Only authorised orders reach the broker\<close>

definition request_matches :: "broker_request \<Rightarrow> order_intent \<Rightarrow> bool" where
  "request_matches r i \<longleftrightarrow> br_cid r = oi_id i \<and> br_symbol r = oi_symbol i \<and> br_side r = oi_side i \<and>
     br_qty r = oi_qty i \<and> br_type r = oi_type i \<and> br_limit r = oi_limit i \<and> br_stop r = oi_stop i"

definition authorised ::
    "prims \<Rightarrow> ('b \<Rightarrow> string \<Rightarrow> broker_request option) \<Rightarrow> 'b engine \<Rightarrow> bool" where
  "authorised pr req_of e \<longleftrightarrow> (\<forall>cid r. req_of (en_broker e) cid = Some r \<longrightarrow>
     (\<exists>ord. dget (en_submitted e) cid = Some ord \<and>
        verify_signature pr (en_risk e) (ao_approval ord) \<and> request_matches r (ao_intent ord)))"

text \<open>A snapshot that was frozen from the order carries the order's fields.\<close>

definition genuine :: "approved_order \<Rightarrow> order_snapshot \<Rightarrow> bool" where
  "genuine order s \<longleftrightarrow> request_matches (request_of s) (ao_intent order)"

lemma from_approved_genuine:
  "from_approved sha order d a tp st sk t = Inr s \<Longrightarrow> genuine order s"
  by (auto simp: from_approved_def genuine_def request_matches_def request_of_def Let_def
      split: if_splits)

text \<open>Histories in which snapshots are frozen by \<open>from_approved\<close> and the world moves within \<open>W\<close>.\<close>

fun sane_op :: "'o set \<Rightarrow> instant \<times> instant \<times> 'o engine_op \<Rightarrow> bool" where
  "sane_op W (now, since, ESubmit order (Some s)) \<longleftrightarrow> genuine order s"
| "sane_op W (now, since, EWorld x) \<longleftrightarrow> x \<in> W"
| "sane_op W _ \<longleftrightarrow> True"

lemma verify_set_state [simp]: "verify_signature pr (set_state rs c) a = verify_signature pr c a"
  by (simp add: verify_signature_def set_state_def)

lemma authorised_framed:
  "framed (\<lambda>e. I (en_broker e) \<and> authorised pr req_of e)"
  by (simp add: framed_def authorised_def)

lemma framed_conj: "framed P \<Longrightarrow> framed Q \<Longrightarrow> framed (\<lambda>e. P e \<and> Q e)"
  by (simp add: framed_def)

lemma store_knows_broker [simp]: "store_knows (e\<lparr>en_broker := b\<rparr>) k = store_knows e k"
  by (simp add: store_knows_def)

lemma submit_guard_broker: "submit_guard pr order snap (e\<lparr>en_broker := b\<rparr>) = submit_guard pr order snap e"
  unfolding submit_guard_def Let_def by simp

lemma submit_guard_ok:
  assumes "submit_guard pr order snap e = Inr s"
  shows "verify_signature pr (en_risk e) (ao_approval order)" "oi_env (ao_intent order) = en_env e"
    "dget (en_submitted e) (oi_id (ao_intent order)) = None"
    "\<not> store_knows e (oi_id (ao_intent order))" "snap = Some s"
    "ss_approval s = ap_id (ao_approval order)" "matches_intent (pr_sha pr) s (ao_intent order)"
  using assms by (auto simp: submit_guard_def Let_def dhas_def split: if_splits option.splits)

lemma submit_guarded:
  "submit_guard pr order snap e = Inl x \<Longrightarrow> submit pr A now since order snap e = (Inl x, e)"
  by (simp add: submit_def)

lemma submit_cases:
  assumes "submit pr A now since order snap e = (r, e')"
  obtains (refused) x where "submit_guard pr order snap e = Inl x" "r = Inl x" "e' = e"
  | (stopped) s x where "submit_guard pr order snap e = Inr s" "prepare now order s e = (Inl x, e')"
      "r = Inl x"
  | (sent) s e1 where "submit_guard pr order snap e = Inr s"
      "prepare now order s e = (Inr (request_of s), e1)" "0 < ss_qty s"
      "send A now since (oi_id (ao_intent order)) (request_of s) e1 = (r, e')"
proof (cases "submit_guard pr order snap e")
  case (Inl x)
  then have "submit pr A now since order snap e = (Inl x, e)" by (rule submit_guarded)
  with assms show ?thesis by (intro refused [OF Inl]) simp_all
next
  case (Inr s)
  obtain q e1 where p: "prepare now order s e = (q, e1)" by (cases "prepare now order s e")
  show ?thesis
  proof (cases q)
    case (Inl x)
    have "submit pr A now since order snap e = (Inl x, e1)"
      using \<open>submit_guard pr order snap e = Inr s\<close> p Inl
      by (simp add: submit_def submit_body_def bind_act_def)
    with assms have "r = Inl x" "e1 = e'" by simp_all
    with p Inl show ?thesis
      by (intro stopped [OF \<open>submit_guard pr order snap e = Inr s\<close>]) simp_all
  next
    case (Inr req)
    have p': "prepare now order s e = (Inr req, e1)" using p Inr by simp
    from prepare_result [OF p'] have req: "req = request_of s" "0 < br_qty req" by blast+
    then have "0 < ss_qty s" by (simp add: request_of_def)
    have "send A now since (oi_id (ao_intent order)) req e1 = (r, e')"
      using assms \<open>submit_guard pr order snap e = Inr s\<close> p'
      by (simp add: submit_def submit_body_def bind_act_def)
    with p' req \<open>0 < ss_qty s\<close> show ?thesis
      by (intro sent [OF \<open>submit_guard pr order snap e = Inr s\<close>]) simp_all
  qed
qed

lemma authorised_register:
  assumes "authorised pr req_of t" and "dget (en_submitted t) cid \<in> {None, Some order}"
  shows "authorised pr req_of (t\<lparr>en_submitted := dput (en_submitted t) cid order\<rparr>)"
  unfolding authorised_def
proof (intro allI impI)
  fix k r assume "req_of (en_broker (t\<lparr>en_submitted := dput (en_submitted t) cid order\<rparr>)) k = Some r"
  then obtain ord where "dget (en_submitted t) k = Some ord"
    "verify_signature pr (en_risk t) (ao_approval ord)" "request_matches r (ao_intent ord)"
    using assms(1) by (auto simp: authorised_def)
  then show "\<exists>ord. dget (en_submitted (t\<lparr>en_submitted := dput (en_submitted t) cid order\<rparr>)) k = Some ord \<and>
      verify_signature pr (en_risk (t\<lparr>en_submitted := dput (en_submitted t) cid order\<rparr>)) (ao_approval ord) \<and>
      request_matches r (ao_intent ord)"
    using assms(2) by (auto simp: dict_simps)
qed

lemma authorised_store [simp]: "authorised pr req_of (t\<lparr>en_store := d\<rparr>) = authorised pr req_of t"
  by (simp add: authorised_def)

context broker_contract
begin

lemma submit_authorised:
  assumes inv: "binv (en_broker e)" "authorised pr req_of e"
    and gen: "\<And>s. snap = Some s \<Longrightarrow> genuine order s"
    and run: "submit pr A now since order snap e = (r, e')"
  shows "binv (en_broker e') \<and> authorised pr req_of e'"
  using run
proof (cases rule: submit_cases)
  case (refused x)
  with inv show ?thesis by simp
next
  case (stopped s x)
  let ?cid = "oi_id (ao_intent order)"
  let ?Q = "\<lambda>t. (binv (en_broker t) \<and> authorised pr req_of t) \<and>
    dget (en_submitted t) ?cid \<in> {None, Some order}"
  have f: "framed ?Q" by (rule framed_conj [OF authorised_framed]) (simp add: framed_def)
  have "keeps ?Q (prepare now order s)"
    by (rule keeps_prepare [OF f]) (auto simp: authorised_register dict_simps)
  moreover have "?Q e" using inv submit_guard_ok(3) [OF stopped(1)] by simp
  ultimately have "?Q e'" using stopped(2) by (rule keepsD)
  then show ?thesis by simp
next
  case (sent s e1)
  let ?cid = "oi_id (ao_intent order)"
  let ?v = "\<lambda>t. verify_signature pr (en_risk t) (ao_approval order)"
  let ?Q = "\<lambda>t. ((binv (en_broker t) \<and> authorised pr req_of t) \<and>
    dget (en_submitted t) ?cid \<in> {None, Some order}) \<and> ?v t"
  have f: "framed ?Q"
    by (intro framed_conj authorised_framed) (simp_all add: framed_def)
  have "keeps ?Q (prepare now order s)"
    by (rule keeps_prepare [OF f]) (auto simp: authorised_register dict_simps)
  moreover have "?Q e" using inv submit_guard_ok [OF sent(1)] by simp
  ultimately have Q1: "?Q e1" using sent(2) by (rule keepsD)
  have sub: "dget (en_submitted e1) ?cid = Some order" using prepare_result [OF sent(2)] by simp
  let ?b = "snd (ad_submit A (request_of s) (en_broker e1))"
  have g: "request_matches (request_of s) (ao_intent order)"
    using gen submit_guard_ok(5) [OF sent(1)] by (simp add: genuine_def)
  have "binv ?b"
    using submit_inv [OF _ _ surjective_pairing] Q1 sent(3) by (simp add: request_of_def)
  moreover have "authorised pr req_of (e1\<lparr>en_broker := ?b\<rparr>)"
    using submit_req [OF surjective_pairing, of "request_of s" "en_broker e1"] Q1 sub g
    by (auto simp: authorised_def request_matches_def split: if_splits)
  ultimately show ?thesis
    by (intro send_keeps [OF authorised_framed sent(4)]) simp
qed

text \<open>
  Every history of calls, with a world that keeps the broker's invariant and its requests.
\<close>

lemma engine_run_authorised:
  assumes "\<And>x b. x \<in> W \<Longrightarrow> binv b \<Longrightarrow> binv (w x b) \<and> req_of (w x b) = req_of b"
    and "\<forall>x \<in> set ops. sane_op W x"
    and "binv (en_broker e)" "authorised pr req_of e"
  shows "binv (en_broker (fold (engine_step pr A w) ops e)) \<and>
    authorised pr req_of (fold (engine_step pr A w) ops e)"
  using assms(2-)
proof (induction ops arbitrary: e)
  case Nil
  then show ?case by simp
next
  case (Cons x ops)
  obtain now since op where x: "x = (now, since, op)" by (cases x)
  let ?P = "\<lambda>e. binv (en_broker e) \<and> authorised pr req_of e"
  have "?P (engine_step pr A w (now, since, op) e)"
  proof (rule engine_step_keeps [OF authorised_framed])
    show "?P e" using Cons.prems by simp
    fix order snap r e'
    assume op: "op = ESubmit order snap" and run: "submit pr A now since order snap e = (r, e')"
    have "genuine order s" if "snap = Some s" for s
      using Cons.prems(1) x op that by simp
    with Cons.prems(2,3) run show "?P e'" by (intro submit_authorised)
  next
    fix e assume "?P e"
    then show "?P (e\<lparr>en_broker := snd (ad_poll A (en_broker e))\<rparr>)"
      using poll_inv [OF _ surjective_pairing] poll_req [OF surjective_pairing]
      by (simp add: authorised_def)
  next
    fix e cid assume "?P e"
    then show "?P (e\<lparr>en_broker := snd (ad_cancel A cid (en_broker e))\<rparr>)"
      using cancel_inv [OF _ surjective_pairing] cancel_req [OF surjective_pairing]
      by (simp add: authorised_def)
  next
    fix y assume "op = EWorld y"
    then show "?P (e\<lparr>en_broker := w y (en_broker e)\<rparr>)"
      using Cons.prems(1) assms(1) [of y "en_broker e"] Cons.prems(2,3) x
      by (simp add: authorised_def)
  qed
  with Cons.prems(1) have "binv (en_broker (fold (engine_step pr A w) ops (engine_step pr A w x e))) \<and>
      authorised pr req_of (fold (engine_step pr A w) ops (engine_step pr A w x e))"
    by (intro Cons.IH) (auto simp: x)
  then show ?case by simp
qed

end

section \<open>What one submission does\<close>

lemma send_broker:
  assumes "send A now since cid req e = (r, e')"
  shows "en_broker e' = snd (ad_submit A req (en_broker e))"
proof -
  have "framed (\<lambda>t. en_broker t = snd (ad_submit A req (en_broker e)))" by (simp add: framed_def)
  from send_keeps [OF this assms] show ?thesis by simp
qed

lemma prepare_broker: "prepare now order s e = (q, e1) \<Longrightarrow> en_broker e1 = en_broker e"
proof -
  assume p: "prepare now order s e = (q, e1)"
  have "keeps (\<lambda>t. en_broker t = en_broker e) (prepare now order s)"
    by (rule keeps_prepare) (simp_all add: framed_def)
  from keepsD [OF this _ p] show ?thesis by simp
qed

section \<open>Every call of the broker, across restarts\<close>

text \<open>
  An adapter that keeps the list of the requests its \<open>submit_order\<close> was called with, in the
  order of the calls, whatever came of them.
\<close>

definition logged :: "'b adapter \<Rightarrow> ('b \<times> broker_request list) adapter" where
  "logged A = \<lparr>
     ad_submit = (\<lambda>r (b, l). let (x, b') = ad_submit A r b in (x, (b', l @ [r]))),
     ad_cancel = (\<lambda>cid (b, l). let (x, b') = ad_cancel A cid b in (x, (b', l))),
     ad_status = (\<lambda>cid (b, l). ad_status A cid b),
     ad_positions = (\<lambda>(b, l). ad_positions A b),
     ad_cash = (\<lambda>(b, l). ad_cash A b),
     ad_open_orders = (\<lambda>(b, l). ad_open_orders A b),
     ad_fills = (\<lambda>since (b, l). ad_fills A since b),
     ad_poll = (\<lambda>(b, l). let (x, b') = ad_poll A b in (x, (b', l)))\<rparr>"

definition sent_ids :: "('b \<times> broker_request list) engine \<Rightarrow> string list" where
  "sent_ids e = map br_cid (snd (en_broker e))"

text \<open>
  The life of a deployment: calls of the engine, and restarts, in which a new process with a new
  controller has only the broker and the durable store.
\<close>

datatype 'o life_event = Call "instant \<times> instant \<times> 'o engine_op" | Restart controller

definition restarted :: "controller \<Rightarrow> 'b engine \<Rightarrow> 'b engine" where
  "restarted c e = e\<lparr>en_risk := c, en_machine := empty_machine, en_delivered := [],
     en_submitted := [], en_snapshots := []\<rparr>"

fun life_step ::
    "prims \<Rightarrow> 'b adapter \<Rightarrow> ('o \<Rightarrow> 'b \<Rightarrow> 'b) \<Rightarrow> 'o life_event
      \<Rightarrow> ('b \<times> broker_request list) engine \<Rightarrow> ('b \<times> broker_request list) engine" where
  "life_step pr A w (Call x) e = engine_step pr (logged A) (\<lambda>x (b, l). (w x b, l)) x e"
| "life_step pr A w (Restart c) e = restarted c e"

text \<open>A snapshot carries the id of the order it is submitted with, as \<open>from_approved\<close> makes it.\<close>

fun own_snapshot :: "'o life_event \<Rightarrow> bool" where
  "own_snapshot (Call (now, since, ESubmit order (Some s))) \<longleftrightarrow> ss_cid s = oi_id (ao_intent order)"
| "own_snapshot _ \<longleftrightarrow> True"

fun is_restart :: "'o life_event \<Rightarrow> bool" where
  "is_restart (Restart c) \<longleftrightarrow> True"
| "is_restart (Call x) \<longleftrightarrow> False"

text \<open>What the duplicate check consults that will still be there: the store, if there is one.\<close>

definition known_id :: "'b engine \<Rightarrow> string \<Rightarrow> bool" where
  "known_id e cid \<longleftrightarrow> (if en_store e = None then dhas (en_submitted e) cid else store_knows e cid)"

definition sent_once :: "bool \<Rightarrow> ('b \<times> broker_request list) engine \<Rightarrow> bool" where
  "sent_once durable e \<longleftrightarrow> (durable \<longrightarrow> en_store e \<noteq> None) \<and> distinct (sent_ids e) \<and>
     (\<forall>cid \<in> set (sent_ids e). known_id e cid)"

lemma is_known_record:
  "is_known d k \<Longrightarrow> record_submission cid dec ap s st now d = (q, d') \<Longrightarrow> is_known d' k"
  using durable.record_mono [of d k cid "(dec, ap, s, st, now)" q d'] by simp

lemma sent_ids_same [simp]:
  "sent_ids (e\<lparr>en_machine := m\<rparr>) = sent_ids e" "sent_ids (e\<lparr>en_delivered := fs\<rparr>) = sent_ids e"
  "sent_ids (e\<lparr>en_snapshots := ss\<rparr>) = sent_ids e" "sent_ids (e\<lparr>en_risk := c\<rparr>) = sent_ids e"
  "sent_ids (e\<lparr>en_store := d\<rparr>) = sent_ids e" "sent_ids (e\<lparr>en_submitted := sm\<rparr>) = sent_ids e"
  by (simp_all add: sent_ids_def)

lemma known_id_same [simp]:
  "known_id (e\<lparr>en_machine := m\<rparr>) k = known_id e k" "known_id (e\<lparr>en_delivered := fs\<rparr>) k = known_id e k"
  "known_id (e\<lparr>en_snapshots := ss\<rparr>) k = known_id e k" "known_id (e\<lparr>en_risk := c\<rparr>) k = known_id e k"
  "known_id (e\<lparr>en_broker := b\<rparr>) k = known_id e k"
  by (simp_all add: known_id_def store_knows_def)

lemma known_id_store:
  "en_store e = Some d \<Longrightarrow> (\<And>k. is_known d k \<Longrightarrow> is_known d' k) \<Longrightarrow> known_id e k \<Longrightarrow>
    known_id (e\<lparr>en_store := Some d'\<rparr>) k"
  by (simp add: known_id_def store_knows_def)

lemma known_id_submitted: "known_id e k \<Longrightarrow> known_id (e\<lparr>en_submitted := dput (en_submitted e) c ord\<rparr>) k"
  by (auto simp: known_id_def store_knows_def dhas_def dict_simps)

lemma sent_once_framed: "framed (sent_once durable)"
  unfolding framed_def sent_once_def
  by (auto intro: known_id_store durable.update_mono [OF _ surjective_pairing])

lemma prepare_known:
  assumes "prepare now order s e = (Inr req, e1)"
  shows "known_id e1 (oi_id (ao_intent order))"
  using assms
  by (auto simp: prepare_def Let_def bind_act_def modify_def on_machine_def on_store_def throw_def
      ret_def known_id_def store_knows_def is_known_def record_submission_def dhas_def dict_simps
      split: prod.splits sum.splits option.splits if_splits)

lemma prepare_sent_once:
  assumes "sent_once durable e" and "prepare now order s e = (x, e1)"
  shows "sent_once durable e1"
proof -
  have "keeps (sent_once durable) (prepare now order s)"
    by (rule keeps_prepare [OF sent_once_framed])
      (auto simp: sent_once_def intro: known_id_store known_id_submitted is_known_record)
  then show ?thesis using assms by (rule keepsD)
qed

lemma known_is_refused:
  assumes "known_id e (oi_id (ao_intent order))"
  shows "\<exists>x. submit pr A now since order snap e = (Inl x, e)"
  using assms by (auto simp: submit_def submit_guard_def Let_def known_id_def split: if_splits)

lemma guard_unknown: "submit_guard pr order snap e = Inr s \<Longrightarrow> \<not> known_id e (oi_id (ao_intent order))"
  by (auto simp: known_id_def dhas_def dest: submit_guard_ok(3,4))

lemma submit_sent_once:
  assumes inv: "sent_once durable e" and own: "\<And>s. snap = Some s \<Longrightarrow> ss_cid s = oi_id (ao_intent order)"
    and run: "submit pr (logged A) now since order snap e = (r, e')"
  shows "sent_once durable e'"
  using run
proof (cases rule: submit_cases)
  case (refused x)
  with inv show ?thesis by simp
next
  case (stopped s x)
  with inv prepare_sent_once show ?thesis by blast
next
  case (sent s e1)
  let ?cid = "oi_id (ao_intent order)"
  have "?cid \<notin> set (sent_ids e)"
    using inv guard_unknown [OF sent(1)] by (auto simp: sent_once_def)
  then have new: "?cid \<notin> set (sent_ids e1)"
    using prepare_broker [OF sent(2)] by (simp add: sent_ids_def)
  let ?e2 = "e1\<lparr>en_broker := snd (ad_submit (logged A) (request_of s) (en_broker e1))\<rparr>"
  have "br_cid (request_of s) = ?cid"
    using own submit_guard_ok(5) [OF sent(1)] by (simp add: request_of_def)
  then have "sent_ids ?e2 = sent_ids e1 @ [?cid]"
    by (simp add: sent_ids_def logged_def split_def Let_def)
  then have "sent_once durable ?e2"
    using prepare_sent_once [OF inv sent(2)] new prepare_known [OF sent(2)] by (simp add: sent_once_def)
  then show ?thesis by (rule send_keeps [OF sent_once_framed sent(4)])
qed

lemma logged_calls [simp]:
  "snd (snd (ad_poll (logged A) b)) = snd b" "snd (snd (ad_cancel (logged A) cid b)) = snd b"
  by (simp_all add: logged_def split_def Let_def)

lemma sent_once_broker:
  "sent_once durable e \<Longrightarrow> snd b = snd (en_broker e) \<Longrightarrow> sent_once durable (e\<lparr>en_broker := b\<rparr>)"
  by (simp add: sent_once_def sent_ids_def)

lemma life_step_sent_once:
  assumes "sent_once durable e" "own_snapshot x" "is_restart x \<longrightarrow> durable"
  shows "sent_once durable (life_step pr A w x e)"
proof (cases x)
  case (Restart c)
  with assms show ?thesis
    by (auto simp: sent_once_def restarted_def known_id_def store_knows_def sent_ids_def)
next
  case (Call y)
  obtain now since op where y: "y = (now, since, op)" by (cases y)
  have "sent_once durable (engine_step pr (logged A) (\<lambda>x (b, l). (w x b, l)) (now, since, op) e)"
  proof (rule engine_step_keeps [OF sent_once_framed assms(1)])
    fix order snap r e'
    assume op: "op = ESubmit order snap" and run: "submit pr (logged A) now since order snap e = (r, e')"
    have "ss_cid s = oi_id (ao_intent order)" if "snap = Some s" for s
      using assms(2) Call y op that by simp
    from submit_sent_once [OF assms(1) this run] show "sent_once durable e'" .
  qed (use assms(1) in \<open>auto intro!: sent_once_broker simp: split_def\<close>)
  with Call y show ?thesis by simp
qed

lemma life_sent_once:
  "sent_once durable e \<Longrightarrow> \<forall>x \<in> set xs. own_snapshot x \<and> (is_restart x \<longrightarrow> durable) \<Longrightarrow>
    sent_once durable (fold (life_step pr A w) xs e)"
proof (induction xs arbitrary: e)
  case (Cons x xs)
  then have "sent_once durable (life_step pr A w x e)" by (intro life_step_sent_once) auto
  then have "sent_once durable (fold (life_step pr A w) xs (life_step pr A w x e))"
    by (rule Cons.IH) (use Cons.prems in auto)
  then show ?case by simp
qed simp

text \<open>What holds of a submission that reached the broker, whatever snapshot it was given.\<close>

lemma sent_under_guard:
  assumes "submit pr A now since order (Some s) e = (r, e')" and "en_broker e' \<noteq> en_broker e"
  shows "verify_signature pr (en_risk e) (ao_approval order) \<and>
    oi_env (ao_intent order) = en_env e \<and> dget (en_submitted e) (oi_id (ao_intent order)) = None \<and>
    \<not> store_knows e (oi_id (ao_intent order)) \<and> ss_approval s = ap_id (ao_approval order) \<and>
    matches_intent (pr_sha pr) s (ao_intent order) \<and>
    en_broker e' = snd (ad_submit A (request_of s) (en_broker e))"
  using assms(1)
proof (cases rule: submit_cases)
  case (refused x)
  with assms(2) show ?thesis by simp
next
  case (stopped s' x)
  with assms(2) prepare_broker [OF stopped(2)] show ?thesis by simp
next
  case (sent s' e1)
  with submit_guard_ok [OF sent(1)] prepare_broker [OF sent(2)] send_broker [OF sent(4)]
  show ?thesis by auto
qed

section \<open>A submission on concrete data\<close>

definition demo_approval :: risk_approval where
  "demo_approval = \<lparr>ap_id = ''u1'', ap_cid = ''paper-0001'', ap_symbol = ''ABC'', ap_side = BUY,
     ap_qty = 2, ap_hash = ''5ha'', ap_checks = [], ap_state = ''NORMAL'', ap_at = 0,
     ap_sig = sign_order demo_prims demo_controller (demo_intent BUY) ''u1'' ''5ha''\<rparr>"

definition demo_order :: approved_order where
  "demo_order = \<lparr>ao_intent = demo_intent BUY, ao_approval = demo_approval\<rparr>"

definition demo_engine :: "paper engine" where
  "demo_engine = \<lparr>en_broker = new_paper demo_quote (\<lambda>n. ''id'') 1000 1 2, en_risk = demo_controller,
     en_machine = empty_machine, en_env = PAPER, en_has_on_fill = True, en_delivered = [],
     en_store = Some \<lparr>ds_env = PAPER, ds_db = [(''paper_orders'', [])]\<rparr>, en_submitted = [], en_snapshots = []\<rparr>"

lemma paper_table: "namespace PAPER ''orders'' = ''paper_orders''"
  by (simp add: namespace_def namespace_env del: env_value.simps)

lemmas store_defs = rows_of_def orders_table_def paper_table dget_or_def

lemma demo_guard: "submit_guard demo_prims demo_order (Some demo_snapshot) demo_engine = Inr demo_snapshot"
  by (simp add: submit_guard_def demo_order_def demo_engine_def demo_approval_def demo_snapshot_def
      verify_signature_def approval_message_def sign_order_def demo_intent_def matches_intent_def
      compute_hash_def demo_prims_def demo_controller_def store_knows_def is_known_def store_defs
      dhas_def Let_def)

definition demo_result :: "(exn + order_state) \<times> paper engine" where
  "demo_result = submit demo_prims paper_adapter 5 0 demo_order (Some demo_snapshot) demo_engine"

lemmas submit_defs = submit_def submit_body_def prepare_def send_def poll_order_def adopt_def
  sync_store_def state_now_def deliver_fills_def on_machine_def on_store_def modify_def
  bind_act_def ret_def throw_def om_create_def om_transition_def om_get_def empty_machine_def
  mk_broker_request_def request_of_def record_submission_def update_state_def

lemmas paper_defs = paper_adapter_def pb_submit_def pb_status_def pb_get_fills_def new_paper_def
  check_disconnect_def execute_def put_order_def fill_price_def quote_mid_def execute_buy_def
  book_fill_def mk_broker_position_def mk_broker_fill_def cannot_fill_def order_status_def

lemma demo_submits:
  "fst demo_result = Inr FILLED \<and> pb_fills (en_broker (snd demo_result)) =
    [\<lparr>bf_id = ''id'', bf_cid = ''paper-0001'', bf_symbol = ''ABC'', bf_side = BUY, bf_qty = 2,
      bf_price = 10102 / 100, bf_fees = 20204 / 1000000, bf_ts = 0\<rparr>]"
  unfolding demo_result_def submit_def demo_guard sum.case
  by (simp add: submit_defs paper_defs store_defs demo_order_def demo_engine_def demo_snapshot_def
      demo_intent_def demo_quote_def demo_approval_def dhas_def Let_def py_round_def
      round_half_even_def eps_def)

section \<open>Properties\<close>

text \<open>
  C18. Nothing reaches the broker without an authority for it. Let the snapshot be one that
  \<open>from_approved\<close> froze, from whatever approved order. A submission changes the broker only if
  the signature of the order's approval verifies under the engine's controller, the approval
  names the client id, symbol, side, quantity and hash of the intent, the environment is the
  engine's, the client order id was neither submitted nor recorded, and the snapshot was frozen
  against this approval. Then the broker is called once, and the request it gets has the client
  id, symbol, side and order type of the intent and, to the ten digits of the canonical form, its
  quantity, limit and stop price; frozen from the order itself it has them exactly. The
  hypotheses are that the two hashed payloads do not collide under SHA-256 and that symbols and
  ids contain no bar. For a snapshot object that was put together otherwise the engine compares
  nothing but the hash with the intent; see \<open>forged_snapshot_is_executed\<close> below.
\<close>

theorem submit_needs_authority:
  assumes "submit pr A now since order (Some s) e = (r, e')" and "en_broker e' \<noteq> en_broker e"
    and "mk_approved_order (pr_sha pr) i a = Inr order"
    and "from_approved (pr_sha pr) order0 did aid tp strat sk t = Inr s"
    and sha: "pr_sha pr (order_payload i tp ''DAY'') = pr_sha pr (order_payload (ao_intent order0) tp ''DAY'')
      \<Longrightarrow> order_payload i tp ''DAY'' = order_payload (ao_intent order0) tp ''DAY''"
    and "list_all bar_free [oi_symbol i, oi_id i, oi_symbol (ao_intent order0), oi_id (ao_intent order0)]"
  shows "verify_signature pr (en_risk e) a \<and>
    (ap_cid a, ap_symbol a, ap_side a, ap_qty a) = (oi_id i, oi_symbol i, oi_side i, oi_qty i) \<and>
    ap_hash a = order_intent_hash (pr_sha pr) i \<and> oi_env i = en_env e \<and>
    dget (en_submitted e) (oi_id i) = None \<and> \<not> store_knows e (oi_id i) \<and> ss_approval s = ap_id a \<and>
    (\<exists>req. en_broker e' = snd (ad_submit A req (en_broker e)) \<and>
      br_cid req = oi_id i \<and> br_symbol req = oi_symbol i \<and> br_side req = oi_side i \<and>
      br_type req = oi_type i \<and> fmt_10g (br_qty req) = fmt_10g (oi_qty i) \<and>
      fmt_opt (br_limit req) = fmt_opt (oi_limit i) \<and> fmt_opt (br_stop req) = fmt_opt (oi_stop i) \<and>
      (order0 = order \<longrightarrow> br_qty req = oi_qty i \<and> br_limit req = oi_limit i \<and> br_stop req = oi_stop i))"
proof -
  from assms(3) have o: "order = \<lparr>ao_intent = i, ao_approval = a\<rparr>"
    "(ap_cid a, ap_symbol a, ap_side a, ap_qty a) = (oi_id i, oi_symbol i, oi_side i, oi_qty i)"
    "ap_hash a = order_intent_hash (pr_sha pr) i"
    by (auto simp: mk_approved_order_def split: if_splits)
  note g = sent_under_guard [OF assms(1,2)]
  have m: "request_matches (request_of s) (ao_intent order0)"
    using from_approved_genuine [OF assms(4)] by (simp add: genuine_def)
  have f: "ss_take_profit s = tp" "ss_tif s = ''DAY''"
    "ss_hash s = pr_sha pr (order_payload (ao_intent order0) tp ''DAY'')"
    using assms(4) by (auto simp: from_approved_def compute_hash_def order_payload_def Let_def split: if_splits)
  have "matches_intent (pr_sha pr) s i" using g by (simp add: o(1))
  then have "order_payload i tp ''DAY'' = order_payload (ao_intent order0) tp ''DAY''"
    using f by (intro sha) (simp add: matches_intent_def compute_hash_def order_payload_def)
  moreover have "bar_free ''DAY''" by (simp add: bar_free_def)
  ultimately have "oi_symbol i = oi_symbol (ao_intent order0) \<and> oi_side i = oi_side (ao_intent order0) \<and>
      fmt_10g (oi_qty i) = fmt_10g (oi_qty (ao_intent order0)) \<and> oi_type i = oi_type (ao_intent order0) \<and>
      fmt_opt (oi_limit i) = fmt_opt (oi_limit (ao_intent order0)) \<and>
      fmt_opt (oi_stop i) = fmt_opt (oi_stop (ao_intent order0)) \<and> oi_id i = oi_id (ao_intent order0)"
    using order_payload_inj [of i "ao_intent order0" "''DAY''" "''DAY''" tp tp] assms(6) by simp
  with m have "br_cid (request_of s) = oi_id i \<and> br_symbol (request_of s) = oi_symbol i \<and>
      br_side (request_of s) = oi_side i \<and> br_type (request_of s) = oi_type i \<and>
      fmt_10g (br_qty (request_of s)) = fmt_10g (oi_qty i) \<and>
      fmt_opt (br_limit (request_of s)) = fmt_opt (oi_limit i) \<and>
      fmt_opt (br_stop (request_of s)) = fmt_opt (oi_stop i) \<and>
      (order0 = order \<longrightarrow> br_qty (request_of s) = oi_qty i \<and> br_limit (request_of s) = oi_limit i \<and>
        br_stop (request_of s) = oi_stop i)"
    by (simp add: request_matches_def o(1))
  with g o show ?thesis by auto
qed

lemma demo_sent: "en_broker (snd demo_result) \<noteq> en_broker demo_engine"
proof -
  have "pb_fills (en_broker demo_engine) = []" by (simp add: demo_engine_def new_paper_def)
  with demo_submits show ?thesis by auto
qed

lemma submit_needs_authority_witness:
  "verify_signature demo_prims demo_controller demo_approval \<and>
   (\<exists>req. en_broker (snd demo_result) = snd (pb_submit req (en_broker demo_engine)) \<and>
     br_cid req = ''paper-0001'' \<and> br_qty req = 2)"
proof -
  have r: "submit demo_prims paper_adapter 5 0 demo_order (Some demo_snapshot) demo_engine =
      (fst demo_result, snd demo_result)" by (simp add: demo_result_def)
  have o: "mk_approved_order (pr_sha demo_prims) (demo_intent BUY) demo_approval = Inr demo_order"
    by (simp add: mk_approved_order_def demo_approval_def demo_intent_def demo_order_def
        order_intent_hash_def demo_prims_def)
  have s: "from_approved (pr_sha demo_prims) demo_order [] [] None [] [] None = Inr demo_snapshot"
    by (simp add: from_approved_def demo_order_def demo_approval_def demo_intent_def demo_snapshot_def
        compute_hash_def demo_prims_def)
  have b: "list_all bar_free [oi_symbol (demo_intent BUY), oi_id (demo_intent BUY),
      oi_symbol (ao_intent demo_order), oi_id (ao_intent demo_order)]"
    by (simp add: demo_order_def demo_intent_def bar_free_def)
  have c: "order_payload (demo_intent BUY) None ''DAY'' = order_payload (ao_intent demo_order) None ''DAY''"
    by (simp add: demo_order_def)
  from submit_needs_authority [OF r demo_sent o s c b] show ?thesis
    by (auto simp: demo_engine_def paper_adapter_def demo_intent_def)
qed

text \<open>
  End to end on the paper broker. In every history of submissions, polls, synchronisations,
  recoveries, stale-order sweeps, faults, settlements and quote or time changes, every fill the
  broker reports belongs to an order that was submitted with a verified risk approval, has its
  symbol and side, and all fills of the order together do not exceed the approved quantity.
\<close>

definition world_moves :: "paper_op set" where
  "world_moves = {x. paper_sane x \<and> (\<forall>r. x \<noteq> PSubmit r)}"

theorem fills_are_authorised:
  assumes "paper_inv (en_broker e0)" "pb_orders (en_broker e0) = []"
    and "\<forall>x \<in> set ops. sane_op world_moves x"
    and "e = fold (engine_step pr paper_adapter paper_step) ops e0"
    and "f \<in> set (pb_fills (en_broker e))"
  shows "\<exists>ord. dget (en_submitted e) (bf_cid f) = Some ord \<and>
    verify_signature pr (en_risk e) (ao_approval ord) \<and>
    bf_symbol f = oi_symbol (ao_intent ord) \<and> bf_side f = oi_side (ao_intent ord) \<and>
    filled_total (bf_cid f) (pb_fills (en_broker e)) \<le> oi_qty (ao_intent ord)"
proof -
  have w: "paper_inv (paper_step x b) \<and> paper_req (paper_step x b) = paper_req b"
    if "x \<in> world_moves" "paper_inv b" for x b
  proof -
    have "paper_sane x" using that(1) by (cases x) (auto simp: world_moves_def)
    moreover have "paper_req (paper_step x b) = paper_req b"
      using that(1) pb_cancel_req [OF surjective_pairing] poll_resting_req [OF surjective_pairing]
      by (cases x) (auto simp: world_moves_def settle_def intro: paper_req_cong)
    ultimately show ?thesis using paper_step_inv that(2) by blast
  qed
  have "authorised pr paper_req e0"
    using assms(2) by (simp add: authorised_def paper_req_def)
  then have inv: "paper_inv (en_broker e)" and auth: "authorised pr paper_req e"
    unfolding assms(4)
    using paper_broker.engine_run_authorised [where w = paper_step, OF _ assms(3,1), of pr] w by blast+
  from paper_broker.fill_of_order [OF inv assms(5)] obtain r where r:
    "paper_req (en_broker e) (bf_cid f) = Some r" "bf_symbol f = br_symbol r" "bf_side f = br_side r"
    by blast
  with auth obtain ord where "dget (en_submitted e) (bf_cid f) = Some ord"
    "verify_signature pr (en_risk e) (ao_approval ord)" "request_matches r (ao_intent ord)"
    by (auto simp: authorised_def)
  with r paper_broker.no_overfill [OF inv r(1)] show ?thesis by (auto simp: request_matches_def)
qed

lemma fills_are_authorised_witness:
  "\<exists>ord. dget (en_submitted (snd demo_result)) ''paper-0001'' = Some ord \<and>
    verify_signature demo_prims (en_risk (snd demo_result)) (ao_approval ord) \<and>
    filled_total ''paper-0001'' (pb_fills (en_broker (snd demo_result))) \<le> oi_qty (ao_intent ord)"
proof -
  have inv: "paper_inv (en_broker demo_engine)"
    using new_paper_inv [of 1000 1 2 demo_quote "\<lambda>n. ''id''"] demo_quote_ok by (simp add: demo_engine_def)
  have o: "pb_orders (en_broker demo_engine) = []" by (simp add: demo_engine_def new_paper_def)
  have s: "\<forall>x \<in> set [(5, 0, ESubmit demo_order (Some demo_snapshot))]. sane_op world_moves x"
    by (simp add: genuine_def request_matches_def request_of_def demo_order_def demo_snapshot_def
        demo_intent_def)
  have r: "snd demo_result = fold (engine_step demo_prims paper_adapter paper_step)
      [(5, 0, ESubmit demo_order (Some demo_snapshot))] demo_engine"
    by (simp add: demo_result_def)
  from demo_submits obtain f where f: "f \<in> set (pb_fills (en_broker (snd demo_result)))"
    "bf_cid f = ''paper-0001''" by auto
  from fills_are_authorised [OF inv o s r f(1)] f(2) show ?thesis by auto
qed

text \<open>
  C19. No client order id is sent to the broker twice. Let the engine run through any sequence of
  submissions, polls, synchronisations, recoveries, sweeps of stale orders and moves of the
  broker's world, with any adapter, any outcome of its calls and any controller, and let every
  snapshot carry the id of the order it is submitted with, as \<open>from_approved\<close> makes it. Then the
  ids of the requests the broker was called with are pairwise distinct, and any further
  submission of an intent with one of these ids raises and changes nothing. Within one process
  this needs no durable store; with one it holds also across restarts that lose everything but
  the broker and the store.
\<close>

theorem no_second_submission:
  assumes "snd (en_broker e0) = []" and "\<forall>x \<in> set events. own_snapshot x"
    and "en_store e0 \<noteq> None \<or> (\<forall>x \<in> set events. \<not> is_restart x)"
    and "e = fold (life_step pr A w) events e0"
  shows "distinct (map br_cid (snd (en_broker e))) \<and>
    (\<forall>req \<in> set (snd (en_broker e)). \<forall>now since order snap. oi_id (ao_intent order) = br_cid req \<longrightarrow>
      (\<exists>x. submit pr (logged A) now since order snap e = (Inl x, e)))"
proof -
  have "sent_once (en_store e0 \<noteq> None) e0" using assms(1) by (simp add: sent_once_def sent_ids_def)
  then have s: "sent_once (en_store e0 \<noteq> None) e"
    unfolding assms(4) by (rule life_sent_once) (use assms(2,3) in auto)
  then have "known_id e (br_cid req)" if "req \<in> set (snd (en_broker e))" for req
    using that by (auto simp: sent_once_def sent_ids_def)
  then have "\<forall>req \<in> set (snd (en_broker e)). \<forall>now since order snap. oi_id (ao_intent order) = br_cid req \<longrightarrow>
      (\<exists>x. submit pr (logged A) now since order snap e = (Inl x, e))"
    using known_is_refused by metis
  with s show ?thesis by (simp add: sent_once_def sent_ids_def)
qed

definition demo_life :: "(paper \<times> broker_request list) engine" where
  "demo_life = \<lparr>en_broker = (new_paper demo_quote (\<lambda>n. ''id'') 1000 1 2, []), en_risk = demo_controller,
     en_machine = empty_machine, en_env = PAPER, en_has_on_fill = True, en_delivered = [],
     en_store = Some \<lparr>ds_env = PAPER, ds_db = [(''paper_orders'', [])]\<rparr>, en_submitted = [], en_snapshots = []\<rparr>"

lemma demo_life_sends:
  "snd (en_broker (life_step demo_prims paper_adapter paper_step
      (Call (5, 0, ESubmit demo_order (Some demo_snapshot))) demo_life)) = [request_of demo_snapshot]"
proof -
  have g: "submit_guard demo_prims demo_order (Some demo_snapshot) demo_life = Inr demo_snapshot"
    using demo_guard by (simp add: submit_guard_def demo_engine_def demo_life_def store_knows_def Let_def
        split: if_splits)
  obtain r e' where run: "submit demo_prims (logged paper_adapter) 5 0 demo_order (Some demo_snapshot) demo_life
      = (r, e')" by fastforce
  obtain q e1 where p: "prepare 5 demo_order demo_snapshot demo_life = (q, e1)" by fastforce
  have "\<exists>e1. prepare 5 demo_order demo_snapshot demo_life = (Inr (request_of demo_snapshot), e1)"
    by (simp add: submit_defs store_defs demo_order_def demo_life_def demo_snapshot_def
        demo_intent_def demo_approval_def dhas_def Let_def)
  with p have "q = Inr (request_of demo_snapshot)" by simp
  with p run g have s: "send (logged paper_adapter) 5 0 (oi_id (ao_intent demo_order)) (request_of demo_snapshot) e1
      = (r, e')" by (simp add: submit_def submit_body_def bind_act_def)
  have "snd (en_broker e') = snd (en_broker demo_life) @ [request_of demo_snapshot]"
    using send_broker [OF s] prepare_broker [OF p] by (simp add: logged_def split_def Let_def)
  with run show ?thesis by (simp add: demo_life_def)
qed

lemma no_second_submission_witness:
  "let e = fold (life_step demo_prims paper_adapter paper_step)
       [Call (5, 0, ESubmit demo_order (Some demo_snapshot)), Restart demo_controller] demo_life
   in map br_cid (snd (en_broker e)) = [''paper-0001''] \<and>
     (\<exists>x. submit demo_prims (logged paper_adapter) 9 0 demo_order (Some demo_snapshot) e = (Inl x, e))"
proof -
  let ?ev = "[Call (5, 0, ESubmit demo_order (Some demo_snapshot)), Restart demo_controller]"
  let ?e = "fold (life_step demo_prims paper_adapter paper_step) ?ev demo_life"
  have l: "snd (en_broker ?e) = [request_of demo_snapshot]"
    using demo_life_sends by (simp add: restarted_def)
  have own: "\<forall>x \<in> set ?ev. own_snapshot x" by (simp add: demo_snapshot_def demo_order_def demo_intent_def)
  have st: "en_store demo_life \<noteq> None \<or> (\<forall>x \<in> set ?ev. \<not> is_restart x)" by (simp add: demo_life_def)
  have n: "snd (en_broker demo_life) = []" by (simp add: demo_life_def)
  have id: "oi_id (ao_intent demo_order) = br_cid (request_of demo_snapshot)"
    by (simp add: demo_snapshot_def demo_order_def demo_intent_def request_of_def)
  from no_second_submission [OF n own st refl] l id
  have "\<exists>x. submit demo_prims (logged paper_adapter) 9 0 demo_order (Some demo_snapshot) ?e = (Inl x, ?e)"
    by (metis list.set_intros(1))
  with l show ?thesis unfolding Let_def by (simp add: request_of_def demo_snapshot_def)
qed

text \<open>
  A lost acknowledgement is never retried. When an admitted submission of a new order times
  out at the broker, the engine returns UNKNOWN with the order in that state, new entries are
  halted, and the broker was called once.
\<close>

theorem timeout_halts_entries:
  assumes "submit_guard pr order snap e = Inr s" and "0 < ss_qty s"
    and "state_of (en_machine e) (oi_id (ao_intent order)) = None"
    and "ad_submit A (request_of s) (en_broker e) = (Inl BrokerTimeoutError, b)"
  shows "\<exists>e'. submit pr A now since order snap e = (Inr UNKNOWN, e') \<and> en_broker e' = b \<and>
    mc_state (en_risk e') = HALT_NEW_ENTRIES \<and>
    state_of (en_machine e') (oi_id (ao_intent order)) = Some UNKNOWN"
proof -
  have nk: "\<not> store_knows e (oi_id (ao_intent order))" by (rule submit_guard_ok(4) [OF assms(1)])
  show ?thesis
    using assms nk
    by (cases "en_store e")
      (simp_all add: submit_defs outcome_unknown_def Let_def dhas_def state_of_def dict_simps
        store_knows_def is_known_def set_state_def)
qed

lemma timeout_halts_entries_witness:
  "\<exists>e'. submit demo_prims paper_adapter 5 0 demo_order (Some demo_snapshot)
      (demo_engine\<lparr>en_broker := (en_broker demo_engine)\<lparr>pb_fault := TIMEOUT\<rparr>\<rparr>) = (Inr UNKNOWN, e') \<and>
    mc_state (en_risk e') = HALT_NEW_ENTRIES"
proof -
  let ?e = "demo_engine\<lparr>en_broker := (en_broker demo_engine)\<lparr>pb_fault := TIMEOUT\<rparr>\<rparr>"
  have g: "submit_guard demo_prims demo_order (Some demo_snapshot) ?e = Inr demo_snapshot"
    using demo_guard by (simp add: submit_guard_broker)
  have q: "0 < ss_qty demo_snapshot" by (simp add: demo_snapshot_def)
  have m: "state_of (en_machine ?e) (oi_id (ao_intent demo_order)) = None"
    by (simp add: demo_engine_def state_of_def empty_machine_def)
  have "fst (ad_submit paper_adapter (request_of demo_snapshot) (en_broker ?e)) = Inl BrokerTimeoutError"
    by (simp add: paper_defs request_of_def demo_engine_def demo_snapshot_def demo_quote_def dhas_def
        Let_def py_round_def round_half_even_def eps_def)
  then have "ad_submit paper_adapter (request_of demo_snapshot) (en_broker ?e) =
      (Inl BrokerTimeoutError, snd (ad_submit paper_adapter (request_of demo_snapshot) (en_broker ?e)))"
    by (simp add: prod_eq_iff)
  from timeout_halts_entries [OF g q m this] show ?thesis by blast
qed

section \<open>Where the code departs from its comments\<close>

text \<open>
  \<open>submit\<close> checks that the intent hashes to the snapshot's hash, and then builds the broker
  request from the other fields of the snapshot, which nothing compares with that hash. A
  snapshot with the right hash and approval id but nine shares instead of two is accepted, and
  nine shares are bought on an approval for two.
\<close>

lemma forged_snapshot_is_executed:
  "ap_qty demo_approval = 2 \<and>
   (let e = snd (submit demo_prims paper_adapter 5 0 demo_order (Some (demo_snapshot\<lparr>ss_qty := 9\<rparr>)) demo_engine)
    in map bf_qty (pb_fills (en_broker e)) = [9])"
proof -
  have g: "submit_guard demo_prims demo_order (Some (demo_snapshot\<lparr>ss_qty := 9\<rparr>)) demo_engine =
      Inr (demo_snapshot\<lparr>ss_qty := 9\<rparr>)"
    using demo_guard by (simp add: submit_guard_def matches_intent_def Let_def split: if_splits)
  show ?thesis
    unfolding submit_def g sum.case
    by (simp add: submit_defs paper_defs store_defs demo_order_def demo_engine_def demo_snapshot_def
        demo_intent_def demo_quote_def demo_approval_def dhas_def Let_def py_round_def
        round_half_even_def eps_def)
qed

end
