(* ===== verification/CellLedger.thy ===== *)
theory CellLedger
  imports LongOnlyBook
begin

text \<open>
  \<open>services/capital_cells/ledger.py\<close>: the virtual ledger of one capital cell, the second
  instance of the long-only book. It takes its share of real fills with
  \<open>record_broker_fill\<close> and virtual transfers between cells with \<open>record_internal_cross\<close>.
  Notes and the random \<open>entry_id\<close> are left out.
\<close>

section \<open>State\<close>

datatype cell_entry_kind = ALLOCATION | BROKER_FILL | BROKER_FEE | INTERNAL_CROSS

record cell_entry =
  ce_at :: instant
  ce_cell :: string
  ce_kind :: cell_entry_kind
  ce_amount :: real
  ce_symbol :: "string option"
  ce_qty :: real
  ce_price :: real
  ce_realized :: real

record cell_ledger =
  cl_id :: string
  cl_entries :: "cell_entry list"
  cl_cash :: real
  cl_lots :: lots
  cl_realized :: real

definition mk_cell_ledger :: "string \<Rightarrow> cell_ledger" where
  "mk_cell_ledger cell_id =
     \<lparr>cl_id = cell_id, cl_entries = [], cl_cash = 0, cl_lots = [], cl_realized = 0\<rparr>"

section \<open>Operations\<close>

definition allocate_cash :: "real \<Rightarrow> pydt option \<Rightarrow> instant \<Rightarrow> (cell_ledger, unit) act" where
  "allocate_cash amount a_t utcnow s =
     (case at_or_now a_t utcnow of
        Inl e \<Rightarrow> (Inl e, s)
      | Inr t \<Rightarrow>
          (let candidate = cl_cash s + amount in
           if candidate < - eps then (Inl CellOverdrawError, s)
           else (Inr (), s\<lparr>cl_entries := cl_entries s @
                    [\<lparr>ce_at = t, ce_cell = cl_id s, ce_kind = ALLOCATION, ce_amount = amount,
                      ce_symbol = None, ce_qty = 0, ce_price = 0, ce_realized = 0\<rparr>],
                  cl_cash := candidate\<rparr>)))"

definition apply_fill ::
    "cell_entry_kind \<Rightarrow> string \<Rightarrow> real \<Rightarrow> real \<Rightarrow> real \<Rightarrow> pydt \<Rightarrow> (cell_ledger, unit) act" where
  "apply_fill kind symbol side_qty price fees a_t s =
     (case ensure_utc a_t of Inl e \<Rightarrow> (Inl e, s) | Inr t \<Rightarrow>
      case fill_lot CellShortSellError (dget (cl_lots s) symbol) symbol side_qty price of
        Inl e \<Rightarrow> (Inl e, s)
      | Inr (realized, new_lot) \<Rightarrow>
          (let trade_amount = - side_qty * price in
           if cl_cash s + trade_amount - fees < - eps then (Inl CellOverdrawError, s)
           else
             (let s1 = s\<lparr>cl_lots := put_lot (cl_lots s) symbol new_lot,
                         cl_cash := cl_cash s + trade_amount,
                         cl_realized := cl_realized s + realized,
                         cl_entries := cl_entries s @
                           [\<lparr>ce_at = t, ce_cell = cl_id s, ce_kind = kind,
                             ce_amount = trade_amount, ce_symbol = Some symbol,
                             ce_qty = side_qty, ce_price = price, ce_realized = realized\<rparr>]\<rparr>
              in (Inr (),
                  if fees \<noteq> 0
                  then s1\<lparr>cl_cash := cl_cash s1 - fees,
                          cl_entries := cl_entries s1 @
                            [\<lparr>ce_at = t, ce_cell = cl_id s, ce_kind = BROKER_FEE,
                              ce_amount = - fees, ce_symbol = Some symbol, ce_qty = 0,
                              ce_price = 0, ce_realized = 0\<rparr>]\<rparr>
                  else s1))))"

definition record_broker_fill ::
    "string \<Rightarrow> real \<Rightarrow> real \<Rightarrow> real \<Rightarrow> pydt \<Rightarrow> (cell_ledger, unit) act" where
  "record_broker_fill symbol side_qty price fees a_t =
     apply_fill BROKER_FILL symbol side_qty price fees a_t"

definition record_internal_cross ::
    "string \<Rightarrow> real \<Rightarrow> real \<Rightarrow> pydt \<Rightarrow> (cell_ledger, unit) act" where
  "record_internal_cross symbol side_qty price a_t =
     apply_fill INTERNAL_CROSS symbol side_qty price 0 a_t"

definition cell_qty :: "cell_ledger \<Rightarrow> string \<Rightarrow> real" where
  "cell_qty s symbol = qty_of (cl_lots s) symbol"

section \<open>Invariant\<close>

text \<open>
  Cash and realised profit are the totals of the entries, every entry belongs to the cell,
  fees are charged on real fills only, and the lots are well formed.
\<close>

definition cell_log_ok :: "cell_ledger \<Rightarrow> bool" where
  "cell_log_ok s \<longleftrightarrow> cl_cash s = (\<Sum>e\<leftarrow>cl_entries s. ce_amount e) \<and>
     cl_realized s = (\<Sum>e\<leftarrow>cl_entries s. ce_realized e) \<and>
     (\<forall>e \<in> set (cl_entries s). ce_cell e = cl_id s)"

definition cell_inv :: "cell_ledger \<Rightarrow> bool" where
  "cell_inv s \<longleftrightarrow> - eps \<le> cl_cash s \<and> cell_log_ok s \<and> lots_ok (cl_lots s)"

lemma mk_cell_ledger_inv [simp]: "cell_inv (mk_cell_ledger k)"
  by (simp add: cell_inv_def cell_log_ok_def mk_cell_ledger_def)

lemma allocate_cash_inv: "cell_inv s \<Longrightarrow> allocate_cash a t u s = (r, s') \<Longrightarrow> cell_inv s'"
  by (auto simp: allocate_cash_def cell_inv_def cell_log_ok_def Let_def split: sum.splits if_splits)

text \<open>What an accepted fill leaves.\<close>

definition cell_filled ::
    "cell_entry_kind \<Rightarrow> string \<Rightarrow> real \<Rightarrow> real \<Rightarrow> real \<Rightarrow> instant \<Rightarrow> real \<Rightarrow> lot option \<Rightarrow>
     cell_ledger \<Rightarrow> cell_ledger" where
  "cell_filled kind symbol q p f t realized nl s =
     s\<lparr>cl_lots := put_lot (cl_lots s) symbol nl, cl_cash := cl_cash s - q * p - f,
       cl_realized := cl_realized s + realized,
       cl_entries := cl_entries s @
         [\<lparr>ce_at = t, ce_cell = cl_id s, ce_kind = kind, ce_amount = - q * p,
           ce_symbol = Some symbol, ce_qty = q, ce_price = p, ce_realized = realized\<rparr>] @
         (if f \<noteq> 0 then [\<lparr>ce_at = t, ce_cell = cl_id s, ce_kind = BROKER_FEE, ce_amount = - f,
           ce_symbol = Some symbol, ce_qty = 0, ce_price = 0, ce_realized = 0\<rparr>] else [])\<rparr>"

lemma apply_fill_eq:
  "apply_fill kind symbol q p f a_t s =
     (case ensure_utc a_t of Inl e \<Rightarrow> (Inl e, s) | Inr t \<Rightarrow>
      case fill_lot CellShortSellError (dget (cl_lots s) symbol) symbol q p of
        Inl e \<Rightarrow> (Inl e, s)
      | Inr (realized, nl) \<Rightarrow>
          if cl_cash s - q * p - f < - eps then (Inl CellOverdrawError, s)
          else (Inr (), cell_filled kind symbol q p f t realized nl s))"
  by (auto simp: apply_fill_def cell_filled_def Let_def split: sum.splits)

lemma apply_fill_filled:
  assumes "apply_fill kind symbol q p f a_t s = (Inr u, s')"
  obtains t realized nl where "a_t = Aware t"
    "fill_lot CellShortSellError (dget (cl_lots s) symbol) symbol q p = Inr (realized, nl)"
    "- eps \<le> cl_cash s - q * p - f" "s' = cell_filled kind symbol q p f t realized nl s"
  using assms unfolding apply_fill_eq
  by (auto simp: ensure_utc_Inr split: sum.splits prod.splits if_splits)

lemma apply_fill_error: "apply_fill kind symbol q p f a_t s = (Inl e, s') \<Longrightarrow> s' = s"
  unfolding apply_fill_eq by (auto split: sum.splits prod.splits if_splits)

lemma cell_filled_log:
  "cell_log_ok s \<Longrightarrow> cell_log_ok (cell_filled kind symbol q p f t realized nl s)"
  by (auto simp: cell_log_ok_def cell_filled_def)

lemma cell_filled_simps [simp]:
  "cl_cash (cell_filled kind symbol q p f t realized nl s) = cl_cash s - q * p - f"
  "cl_lots (cell_filled kind symbol q p f t realized nl s) = put_lot (cl_lots s) symbol nl"
  "cl_id (cell_filled kind symbol q p f t realized nl s) = cl_id s"
  "cl_realized (cell_filled kind symbol q p f t realized nl s) = cl_realized s + realized"
  by (simp_all add: cell_filled_def)

lemma apply_fill_inv:
  assumes inv: "cell_inv s" and "0 \<le> p"
    and fill: "apply_fill kind symbol q p f a_t s = (r, s')"
  shows "cell_inv s'"
proof (cases r)
  case (Inl e)
  with apply_fill_error fill inv show ?thesis by blast
next
  case (Inr u)
  obtain t realized nl where "a_t = Aware t"
    and fl: "fill_lot CellShortSellError (dget (cl_lots s) symbol) symbol q p = Inr (realized, nl)"
    and cash: "- eps \<le> cl_cash s - q * p - f"
    and s': "s' = cell_filled kind symbol q p f t realized nl s"
    by (rule apply_fill_filled [OF fill [unfolded Inr]])
  from fill_lot_ok [OF _ assms(2) fl] cash s' inv cell_filled_log show ?thesis
    by (simp add: cell_inv_def)
qed

section \<open>The cell ledger as a long-only book\<close>

definition cell_fill ::
    "cell_entry_kind \<Rightarrow> instant \<Rightarrow> cell_ledger \<Rightarrow> string \<Rightarrow> real \<Rightarrow> real \<Rightarrow> real \<Rightarrow> cell_ledger option" where
  "cell_fill kind t s symbol q p f =
     (case apply_fill kind symbol q p f (Aware t) s of (Inl _, _) \<Rightarrow> None | (Inr _, s') \<Rightarrow> Some s')"

lemma cell_fill_Some:
  assumes "cell_fill kind t s symbol q p f = Some s'"
  obtains realized nl where
    "fill_lot CellShortSellError (dget (cl_lots s) symbol) symbol q p = Inr (realized, nl)"
    "- eps \<le> cl_cash s - q * p - f" "s' = cell_filled kind symbol q p f t realized nl s"
proof -
  from assms obtain u where "apply_fill kind symbol q p f (Aware t) s = (Inr u, s')"
    by (auto simp: cell_fill_def split: prod.splits sum.splits)
  from apply_fill_filled [OF this] that show ?thesis by (metis pydt.inject(2))
qed

interpretation cell_book: long_only_book cell_inv cl_cash cell_qty
  "\<lambda>s k. dhas (cl_lots s) k" "cell_fill kind t" for kind t
proof (unfold_locales, goal_cases)
  case (1 s)
  then show ?case by (simp add: cell_inv_def)
next
  case (2 s sy)
  then show ?case by (simp add: cell_inv_def cell_qty_def qty_of_nonneg)
next
  case (3 s p f sy q s')
  from 3(4) obtain u where "apply_fill kind sy q p f (Aware t) s = (Inr u, s')"
    by (auto simp: cell_fill_def split: prod.splits sum.splits)
  from apply_fill_inv [OF 3(1,2) this] show ?case .
next
  case (4 s sy q p f s')
  then show ?case by (auto elim!: cell_fill_Some)
next
  case (5 s sy q p f s')
  from 5(1) have ok: "lots_ok (cl_lots s)" by (simp add: cell_inv_def)
  show ?case
    by (rule cell_fill_Some [OF 5(2)])
      (use fill_lot_qty [OF ok] dust_of_bound [OF ok] in \<open>simp add: cell_qty_def\<close>)
next
  case (6 s sy q p f s')
  from 6(1) have "lots_ok (cl_lots s)" by (simp add: cell_inv_def)
  moreover have "dust_of (cl_lots s) sy q = 0"
    using 6(3) by (auto simp: dust_of_def cell_qty_def Let_def)
  ultimately show ?case
    using 6(2) by (auto elim!: cell_fill_Some simp: cell_qty_def fill_lot_qty)
next
  case (7 s sy q p f s' k)
  then show ?case
    by (auto elim!: cell_fill_Some simp: cell_qty_def fill_lot_qty_other)
next
  case (8 s sy q p f s')
  then show ?case
    by (auto elim!: cell_fill_Some simp: cell_qty_def dest!: fill_lot_short)
next
  case (9 s f q sy p)
  from 9(1) have "lots_ok (cl_lots s)" by (simp add: cell_inv_def)
  with 9(3) obtain realized nl where
    "fill_lot CellShortSellError (dget (cl_lots s) sy) sy q p = Inr (realized, nl)"
    by (metis fill_lot_succeeds_iff dhas_def cell_qty_def surj_pair)
  moreover have "\<not> cl_cash s - q * p - f < - eps" using 9(4) by linarith
  ultimately show ?case by (simp add: cell_fill_def apply_fill_eq)
next
  case (10 s sy)
  then show ?case by (auto simp: cell_qty_def qty_of_def dhas_def split: option.splits)
next
  case (11 f s sy q p s')
  then show ?case by (auto elim!: cell_fill_Some)
qed

section \<open>Histories\<close>

datatype cell_op =
    COpAllocate real "pydt option"
  | COpFill string real real real pydt
  | COpCross string real real pydt

fun cell_step :: "instant \<Rightarrow> cell_op \<Rightarrow> cell_ledger \<Rightarrow> cell_ledger" where
  "cell_step u (COpAllocate a t) s = snd (allocate_cash a t u s)"
| "cell_step u (COpFill k q p f t) s = snd (record_broker_fill k q p f t s)"
| "cell_step u (COpCross k q p t) s = snd (record_internal_cross k q p t s)"

fun cell_op_sane :: "cell_op \<Rightarrow> bool" where
  "cell_op_sane (COpFill k q p f t) \<longleftrightarrow> 0 \<le> p"
| "cell_op_sane (COpCross k q p t) \<longleftrightarrow> 0 \<le> p"
| "cell_op_sane _ \<longleftrightarrow> True"

lemma cell_step_inv: "cell_inv s \<Longrightarrow> cell_op_sane op \<Longrightarrow> cell_inv (cell_step u op s)"
  by (cases op) (auto simp: record_broker_fill_def record_internal_cross_def
      intro: allocate_cash_inv apply_fill_inv surjective_pairing)

text \<open>The cash that crosses moved, and the fees, as the entries show them.\<close>

definition kind_cash :: "cell_entry_kind \<Rightarrow> cell_ledger \<Rightarrow> real" where
  "kind_cash k s = (\<Sum>e\<leftarrow>filter (\<lambda>e. ce_kind e = k) (cl_entries s). ce_amount e)"

text \<open>The cash an operation moves when it is accepted, by the kind it is booked under.\<close>

fun op_cash :: "cell_entry_kind \<Rightarrow> cell_op \<Rightarrow> real" where
  "op_cash k (COpAllocate a t) = (if k = ALLOCATION then a else 0)"
| "op_cash k (COpFill sy q p f t) =
     (if k = BROKER_FILL then - q * p else if k = BROKER_FEE then - f else 0)"
| "op_cash k (COpCross sy q p t) = (if k = INTERNAL_CROSS then - q * p else 0)"

lemma cell_step_kind_cash:
  "kind_cash k (cell_step u op s) = kind_cash k s \<or>
   kind_cash k (cell_step u op s) = kind_cash k s + op_cash k op"
  by (cases op)
    (auto simp: kind_cash_def allocate_cash_def record_broker_fill_def record_internal_cross_def
      apply_fill_eq cell_filled_def Let_def split: sum.splits)

lemma cell_run_inv:
  "cell_inv s \<Longrightarrow> \<forall>op \<in> set ops. cell_op_sane op \<Longrightarrow> cell_inv (fold (cell_step u) ops s)"
  by (induction ops arbitrary: s) (auto intro: cell_step_inv)

lemma cross_only_fees:
  "\<forall>op \<in> set ops. (\<exists>k q p t. op = COpCross k q p t) \<Longrightarrow> kind \<noteq> INTERNAL_CROSS \<Longrightarrow>
    kind_cash kind (fold (cell_step u) ops s) = kind_cash kind s"
proof (induction ops arbitrary: s)
  case Nil
  then show ?case by simp
next
  case (Cons op ops)
  then obtain k q p t where op: "op = COpCross k q p t" by auto
  have "kind_cash kind (cell_step u op s) = kind_cash kind s"
    using cell_step_kind_cash [of kind u op s] op Cons.prems(2) by auto
  with Cons show ?case by simp
qed

section \<open>Properties\<close>

text \<open>
  C20. Whatever sequence of allocations, broker fills and internal crosses a cell goes
  through, and whichever of them raise, its virtual cash stays above minus the tolerance, it
  is never short, its cash and realised profit are the totals of its own entries; and a run of
  internal crosses alone creates no allocation, no broker fill and no broker fee.
\<close>

theorem cell_ledger_sound:
  assumes "\<forall>op \<in> set ops. cell_op_sane op" and "s = fold (cell_step u) ops (mk_cell_ledger k)"
    and "\<forall>op \<in> set xs. \<exists>sy q p t. op = COpCross sy q p t" and "kind \<noteq> INTERNAL_CROSS"
  shows "- eps \<le> cl_cash s \<and> 0 \<le> cell_qty s sy \<and>
    cl_cash s = (\<Sum>e\<leftarrow>cl_entries s. ce_amount e) \<and>
    cl_realized s = (\<Sum>e\<leftarrow>cl_entries s. ce_realized e) \<and>
    kind_cash kind (fold (cell_step u) xs s) = kind_cash kind s"
proof -
  have inv: "cell_inv s" using cell_run_inv [OF mk_cell_ledger_inv assms(1)] assms(2) by blast
  then show ?thesis
    using cell_book.inv_held [OF inv] cross_only_fees [OF assms(3,4)]
    by (simp add: cell_inv_def cell_log_ok_def)
qed

definition demo_cell :: "string \<Rightarrow> real \<Rightarrow> cell_ledger" where
  "demo_cell k c = fold (cell_step 0) [COpAllocate c None] (mk_cell_ledger k)"

lemma cell_ledger_sound_witness:
  "let s = fold (cell_step 0) [COpAllocate 100 None, COpFill ''ABC'' 2 30 1 (Aware 5),
             COpFill ''ABC'' (- 5) 30 1 (Aware 6)] (mk_cell_ledger ''c1'')
   in - eps \<le> cl_cash s \<and> 0 \<le> cell_qty s ''ABC'' \<and>
     cl_cash s = (\<Sum>e\<leftarrow>cl_entries s. ce_amount e) \<and>
     cl_realized s = (\<Sum>e\<leftarrow>cl_entries s. ce_realized e) \<and>
     kind_cash BROKER_FEE (fold (cell_step 0) [COpCross ''ABC'' (- 1) 31 (Aware 7)] s) =
       kind_cash BROKER_FEE s"
  unfolding Let_def by (rule cell_ledger_sound [OF _ refl]) auto

text \<open>
  A cell books a fill or raises and is untouched. The first reason that applies decides:
  a naive time is a \<open>ValueError\<close>, selling more than the cell's own position a
  \<open>CellShortSellError\<close>, spending more than its cash a \<open>CellOverdrawError\<close>.
\<close>

theorem cell_fill_all_or_nothing:
  assumes "cell_inv s" and "apply_fill kind k q p f a_t s = (r, s')"
  shows "r = (case a_t of Naive t \<Rightarrow> Inl ValueError | Aware t \<Rightarrow>
       if q \<le> 0 \<and> (\<not> dhas (cl_lots s) k \<or> cell_qty s k + eps < - q) then Inl CellShortSellError
       else if cl_cash s + eps < q * p + f then Inl CellOverdrawError
       else Inr ()) \<and>
    (if is_ok r
     then cl_cash s' = cl_cash s - q * p - f \<and> \<bar>cell_qty s' k - (cell_qty s k + q)\<bar> \<le> eps \<and>
       (\<forall>k'. k' \<noteq> k \<longrightarrow> cell_qty s' k' = cell_qty s k') \<and>
       cl_cash s' + cost_basis (cl_lots s') - cl_realized s' =
         cl_cash s + cost_basis (cl_lots s) - cl_realized s - f
         - dust_of (cl_lots s) k q * (case dget (cl_lots s) k of None \<Rightarrow> 0 | Some l \<Rightarrow> lot_cost l)
     else s' = s)"
proof -
  have ok: "lots_ok (cl_lots s)" using assms(1) by (simp add: cell_inv_def)
  note r = assms(2) [unfolded apply_fill_eq]
  have neg: "cl_cash s - q * p - f < - eps \<longleftrightarrow> cl_cash s + eps < q * p + f" by linarith
  show ?thesis
  proof (cases a_t)
    case (Naive t)
    with r show ?thesis by auto
  next
    case (Aware t)
    note it = fill_lot_succeeds_iff [OF ok, of CellShortSellError k q p]
    show ?thesis
    proof (cases "fill_lot CellShortSellError (dget (cl_lots s) k) k q p")
      case (Inl e)
      with it have "q \<le> 0 \<and> (\<not> dhas (cl_lots s) k \<or> cell_qty s k + eps < - q)"
        by (auto simp: dhas_def cell_qty_def)
      with fill_lot_error [OF ok Inl] r Aware Inl show ?thesis by auto
    next
      case (Inr x)
      obtain realized nl where x: "x = (realized, nl)" by (cases x)
      note fl = Inr [unfolded x]
      have "\<not> (q \<le> 0 \<and> (\<not> dhas (cl_lots s) k \<or> cell_qty s k + eps < - q))"
        using it Inr by (auto simp: dhas_def cell_qty_def)
      with r Aware Inr x neg fill_lot_basis [OF ok fl] fill_lot_qty [OF ok fl] dust_of_bound [OF ok fl]
        fill_lot_qty_other [OF fl]
      show ?thesis by (auto simp: cell_qty_def split: if_splits)
    qed
  qed
qed

lemma cell_fill_all_or_nothing_witness:
  "fst (apply_fill BROKER_FILL ''ABC'' (- 1) 30 0 (Aware 5) (demo_cell ''c1'' 100)) =
     Inl CellShortSellError \<and>
   snd (apply_fill BROKER_FILL ''ABC'' (- 1) 30 0 (Aware 5) (demo_cell ''c1'' 100)) =
     demo_cell ''c1'' 100"
proof -
  let ?s = "demo_cell ''c1'' 100"
  have inv: "cell_inv ?s" unfolding demo_cell_def by (rule cell_run_inv) simp_all
  have none: "\<not> dhas (cl_lots ?s) ''ABC''"
    by (simp add: demo_cell_def allocate_cash_def at_or_now_def mk_cell_ledger_def Let_def dhas_def)
  show ?thesis
    using cell_fill_all_or_nothing [OF inv surjective_pairing, of BROKER_FILL "''ABC''" "- 1" 30 0 "Aware 5"]
      none by auto
qed

end
