(* ===== verification/Reservation.thy ===== *)
theory Reservation
  imports Schemas
begin

text \<open>
  \<open>services/capital_cells/reservation.py\<close> and the interface it shares with the sell
  reservations of \<open>services/capital_cells/stops.py\<close>: a table of reservations under unique
  ids, each drawing on a pool of limited capacity.
\<close>

section \<open>The interface\<close>

text \<open>What the reservations of a table take out of one pool.\<close>

definition pool_sum :: "('r \<Rightarrow> 'p) \<Rightarrow> ('r \<Rightarrow> real) \<Rightarrow> 'p \<Rightarrow> (string, 'r) dict \<Rightarrow> real" where
  "pool_sum pool amount p d = dsum (\<lambda>r. if pool r = p then amount r else 0) d"

lemma pool_sum_Nil [simp]: "pool_sum pool amount p [] = 0"
  by (simp add: pool_sum_def)

lemma pool_sum_dput_new:
  "dget d k = None \<Longrightarrow> pool_sum pool amount p (dput d k r) =
    pool_sum pool amount p d + (if pool r = p then amount r else 0)"
  by (simp add: pool_sum_def dsum_dput)

lemma pool_sum_ddel:
  "dict_ok d \<Longrightarrow> dget d k = Some r \<Longrightarrow> pool_sum pool amount p (ddel d k) =
    pool_sum pool amount p d - (if pool r = p then amount r else 0)"
  by (simp add: pool_sum_def dsum_ddel)

locale reservation_book =
  fixes entries :: "'s \<Rightarrow> (string, 'r) dict"
    and amount :: "'r \<Rightarrow> real"
    and pool :: "'r \<Rightarrow> 'p"
    and capacity :: "'s \<Rightarrow> 'p \<Rightarrow> real"
    and book :: "string \<Rightarrow> 'r \<Rightarrow> ('s, 'r) act"
    and drop_entry :: "string \<Rightarrow> ('s, unit) act"
  assumes book_ok: "book k r s = (Inr x, s') \<Longrightarrow> x = r \<and> 0 < amount r \<and>
      dget (entries s) k = None \<and> entries s' = dput (entries s) k r \<and> capacity s' = capacity s"
    and book_fits: "book k r s = (Inr x, s') \<Longrightarrow> eps < amount r \<Longrightarrow>
      pool_sum pool amount (pool r) (entries s) + amount r \<le> capacity s (pool r) + eps"
    and book_error: "book k r s = (Inl e, s') \<Longrightarrow> s' = s"
    and book_succeeds: "0 < amount r \<Longrightarrow> dget (entries s) k = None \<Longrightarrow>
      pool_sum pool amount (pool r) (entries s) + amount r \<le> capacity s (pool r) + eps \<Longrightarrow>
      is_ok (fst (book k r s))"
    and drop_ok: "drop_entry k s = (Inr u, s') \<Longrightarrow> dhas (entries s) k \<and>
      entries s' = ddel (entries s) k \<and> capacity s' = capacity s"
    and drop_error: "drop_entry k s = (Inl e, s') \<Longrightarrow> s' = s \<and> \<not> dhas (entries s) k"
begin

text \<open>No id twice, only positive amounts, and no pool is overdrawn by more than the tolerance.\<close>

definition book_inv :: "'s \<Rightarrow> bool" where
  "book_inv s \<longleftrightarrow> dict_ok (entries s) \<and> (\<forall>k r. dget (entries s) k = Some r \<longrightarrow> 0 < amount r)"

definition solvent :: "'s \<Rightarrow> bool" where
  "solvent s \<longleftrightarrow> (\<forall>p. pool_sum pool amount p (entries s) \<le> max 0 (capacity s p) + eps)"

lemma book_inv_step: "book_inv s \<Longrightarrow> book k r s = (x, s') \<Longrightarrow> book_inv s'"
  using book_ok [of k r s _ s'] book_error [of k r s _ s']
  by (cases x) (auto simp: book_inv_def dict_simps)

lemma drop_inv_step: "book_inv s \<Longrightarrow> drop_entry k s = (x, s') \<Longrightarrow> book_inv s'"
  using drop_ok [of k s _ s'] drop_error [of k s _ s']
  by (cases x) (auto simp: book_inv_def dict_simps)

lemma book_within:
  assumes "solvent s" and "eps < amount r" and b: "book k r s = (x, s')"
  shows "solvent s'"
proof (cases x)
  case (Inl e)
  with book_error b assms(1) show ?thesis by blast
next
  case (Inr y)
  note ok = book_ok [OF b [unfolded Inr]] and fits = book_fits [OF b [unfolded Inr] assms(2)]
  show ?thesis
    unfolding solvent_def
  proof
    fix p
    show "pool_sum pool amount p (entries s') \<le> max 0 (capacity s' p) + eps"
      using ok fits assms(1) by (cases "pool r = p") (auto simp: pool_sum_dput_new solvent_def)
  qed
qed

lemma drop_within:
  assumes "book_inv s" and "solvent s" and d: "drop_entry k s = (x, s')"
  shows "solvent s'"
proof (cases x)
  case (Inl e)
  with drop_error d assms(2) show ?thesis by blast
next
  case (Inr u)
  note ok = drop_ok [OF d [unfolded Inr]]
  then obtain r where r: "dget (entries s) k = Some r" by (auto simp: dhas_def)
  then have "0 < amount r" "dict_ok (entries s)" using assms(1) by (auto simp: book_inv_def)
  moreover have "pool_sum pool amount p (entries s) \<le> max 0 (capacity s p) + eps" for p
    using assms(2) by (simp add: solvent_def)
  ultimately show ?thesis
    using ok r unfolding solvent_def by (auto simp: pool_sum_ddel) (smt (verit))
qed

text \<open>Booking and dropping again leaves the table as it was; a second booking is refused.\<close>

lemma book_then_drop:
  assumes "book k r s = (Inr x, t)"
  shows "\<exists>u. drop_entry k t = (Inr (), u) \<and> entries u = entries s \<and> capacity u = capacity s"
proof -
  note ok = book_ok [OF assms]
  obtain y u where d: "drop_entry k t = (y, u)" by (cases "drop_entry k t")
  have has: "dhas (entries t) k" using ok by (simp add: dhas_def dict_simps)
  show ?thesis
  proof (cases y)
    case (Inl e)
    with drop_error d has show ?thesis by blast
  next
    case (Inr z)
    have "ddel (dput d k r) k = d" if "dget d k = None" for d
      using that by (induction d) (auto split: if_splits)
    with drop_ok [OF d [unfolded Inr]] ok d Inr show ?thesis by auto
  qed
qed

lemma book_twice: "book k r s = (Inr x, t) \<Longrightarrow> \<exists>e. book k r' t = (Inl e, t)"
  by (cases "book k r' t"; cases "fst (book k r' t)")
    (auto dest!: book_ok book_error simp: dict_simps)

lemma drop_unknown: "\<not> dhas (entries s) k \<Longrightarrow> \<exists>e. drop_entry k s = (Inl e, s)"
  by (cases "drop_entry k s"; cases "fst (drop_entry k s)") (auto dest: drop_ok drop_error)

end

text \<open>A book whose check holds for every amount, however small.\<close>

locale strict_reservation_book = reservation_book +
  assumes book_strict: "book k r s = (Inr x, s') \<Longrightarrow>
    pool_sum pool amount (pool r) (entries s) + amount r \<le> capacity s (pool r) + eps"
begin

lemma booked_within:
  "book k r s = (Inr x, s') \<Longrightarrow>
    pool_sum pool amount (pool r) (entries s') \<le> capacity s' (pool r) + eps"
  using book_strict [of k r s x s'] book_ok [of k r s x s'] by (auto simp: pool_sum_dput_new)

lemma book_iff:
  "is_ok (fst (book k r s)) \<longleftrightarrow> 0 < amount r \<and> dget (entries s) k = None \<and>
    pool_sum pool amount (pool r) (entries s) + amount r \<le> capacity s (pool r) + eps"
proof
  assume "is_ok (fst (book k r s))"
  then obtain x s' where b: "book k r s = (Inr x, s')"
    by (cases "book k r s"; cases "fst (book k r s)") auto
  from book_ok [OF b] book_strict [OF b]
  show "0 < amount r \<and> dget (entries s) k = None \<and>
    pool_sum pool amount (pool r) (entries s) + amount r \<le> capacity s (pool r) + eps" by blast
qed (auto intro: book_succeeds)

end

section \<open>Capital reservations\<close>

record capital_reservation =
  cr_cell :: string
  cr_amount :: real

record capital_book =
  cb_total :: real
  cb_table :: "(string, capital_reservation) dict"

definition reserved_cash :: "capital_book \<Rightarrow> real" where
  "reserved_cash s = dsum cr_amount (cb_table s)"

definition available_cash :: "capital_book \<Rightarrow> real" where
  "available_cash s = cb_total s - reserved_cash s"

definition cell_reserved_capital :: "string \<Rightarrow> capital_book \<Rightarrow> real" where
  "cell_reserved_capital cell s =
     (\<Sum>r\<leftarrow>filter (\<lambda>r. cr_cell r = cell) (dvals (cb_table s)). cr_amount r)"

definition pending_orders :: "string \<Rightarrow> capital_book \<Rightarrow> nat" where
  "pending_orders cell s = length (filter (\<lambda>r. cr_cell r = cell) (dvals (cb_table s)))"

definition sync_total_cash :: "real \<Rightarrow> capital_book \<Rightarrow> capital_book" where
  "sync_total_cash v s = s\<lparr>cb_total := v\<rparr>"

definition reserve ::
    "string \<Rightarrow> string \<Rightarrow> real \<Rightarrow> (capital_book, capital_reservation) act" where
  "reserve rid cell amount s =
     (if amount \<le> 0 then (Inl ValueError, s)
      else if dhas (cb_table s) rid then (Inl DuplicateReservationError, s)
      else if available_cash s + eps < amount then (Inl InsufficientCapitalError, s)
      else (let r = \<lparr>cr_cell = cell, cr_amount = amount\<rparr> in
            (Inr r, s\<lparr>cb_table := dput (cb_table s) rid r\<rparr>)))"

definition release :: "string \<Rightarrow> (capital_book, unit) act" where
  "release rid s =
     (if \<not> dhas (cb_table s) rid then (Inl UnknownReservationError, s)
      else (Inr (), s\<lparr>cb_table := ddel (cb_table s) rid\<rparr>))"

text \<open>All capital reservations draw on one pool, the total cash.\<close>

definition reserve_capital :: "string \<Rightarrow> capital_reservation \<Rightarrow> (capital_book, capital_reservation) act" where
  "reserve_capital rid r = reserve rid (cr_cell r) (cr_amount r)"

lemma reserved_cash_pool: "reserved_cash s = pool_sum (\<lambda>_. ()) cr_amount () (cb_table s)"
  by (simp add: reserved_cash_def pool_sum_def)

lemma capital_reservation_eta [simp]: "\<lparr>cr_cell = cr_cell r, cr_amount = cr_amount r\<rparr> = r"
  by simp

interpretation capital: strict_reservation_book cb_table cr_amount "\<lambda>_. ()"
  "\<lambda>s _. cb_total s" reserve_capital release
  by unfold_locales
    (auto simp: reserve_capital_def reserve_def release_def available_cash_def reserved_cash_pool
      dhas_def Let_def split: if_splits)

section \<open>Histories\<close>

datatype capital_op = CReserve string string real | CRelease string | CSync real

fun capital_step :: "capital_op \<Rightarrow> capital_book \<Rightarrow> capital_book" where
  "capital_step (CReserve k c a) s = snd (reserve k c a s)"
| "capital_step (CRelease k) s = snd (release k s)"
| "capital_step (CSync v) s = sync_total_cash v s"

lemma capital_step_inv: "capital.book_inv s \<Longrightarrow> capital.book_inv (capital_step op s)"
proof (cases op)
  case (CReserve k c a)
  assume "capital.book_inv s"
  then show ?thesis
    using capital.book_inv_step [of s k "\<lparr>cr_cell = c, cr_amount = a\<rparr>"] CReserve
    by (metis capital_step.simps(1) reserve_capital_def capital_reservation.select_convs
        prod.collapse)
next
  case (CRelease k)
  assume "capital.book_inv s"
  then show ?thesis using capital.drop_inv_step [of s k] CRelease by (metis capital_step.simps(2) prod.collapse)
next
  case (CSync v)
  assume "capital.book_inv s"
  then show ?thesis using CSync by (simp add: sync_total_cash_def capital.book_inv_def)
qed

lemma capital_run_inv: "capital.book_inv s \<Longrightarrow> capital.book_inv (fold capital_step ops s)"
  by (induction ops arbitrary: s) (auto intro: capital_step_inv)

text \<open>The cells' shares of the reserved capital add up to it.\<close>

lemma filter_partition_sum:
  "distinct cs \<Longrightarrow> (\<forall>x \<in> set xs. key x \<in> set cs) \<Longrightarrow>
    (\<Sum>c\<leftarrow>cs. \<Sum>x\<leftarrow>filter (\<lambda>x. key x = c) xs. f x) = (\<Sum>x\<leftarrow>xs. f x :: real)"
proof (induction xs)
  case Nil
  then show ?case by simp
next
  case (Cons a xs)
  have one: "(\<Sum>c\<leftarrow>cs. if key a = c then f a else 0) = f a"
    using Cons.prems by (subst sum_list_distinct_conv_sum_set) simp_all
  have "(\<Sum>c\<leftarrow>cs. \<Sum>x\<leftarrow>filter (\<lambda>x. key x = c) (a # xs). f x) =
      (\<Sum>c\<leftarrow>cs. (if key a = c then f a else 0) + (\<Sum>x\<leftarrow>filter (\<lambda>x. key x = c) xs. f x))"
    by (rule arg_cong [where f = sum_list], rule map_cong) auto
  also have "\<dots> = f a + (\<Sum>x\<leftarrow>xs. f x)"
    using Cons one by (simp add: sum_list_addf)
  finally show ?case by simp
qed

text \<open>
  The total cash is what the master account reports: a synchronisation can lower it below what is
  reserved. The syncs of a history are covered if none did; the peak is the highest total so far.
\<close>

fun covered_syncs :: "capital_op list \<Rightarrow> capital_book \<Rightarrow> bool" where
  "covered_syncs [] s \<longleftrightarrow> True"
| "covered_syncs (op # ops) s \<longleftrightarrow>
     (case op of CSync v \<Rightarrow> reserved_cash s \<le> v + eps | _ \<Rightarrow> True) \<and> covered_syncs ops (capital_step op s)"

fun total_peak :: "real \<Rightarrow> capital_op list \<Rightarrow> real" where
  "total_peak m [] = m"
| "total_peak m (op # ops) = total_peak (case op of CSync v \<Rightarrow> max m v | _ \<Rightarrow> m) ops"

lemma reserved_release:
  assumes "capital.book_inv s"
  shows "reserved_cash (snd (release k s)) \<le> reserved_cash s"
proof (cases "dget (cb_table s) k")
  case None
  then show ?thesis by (simp add: release_def dhas_def)
next
  case (Some r)
  with assms have "0 < cr_amount r" "dict_ok (cb_table s)" by (auto simp: capital.book_inv_def)
  with Some show ?thesis by (simp add: release_def dhas_def reserved_cash_pool pool_sum_ddel)
qed

text \<open>A reservation leaves the total alone, and the reserved cash too unless it fits into the total.\<close>

lemma reserved_reserve:
  assumes "reserve k c a s = (x, s')"
  shows "cb_total s' = cb_total s \<and> (s' = s \<or> reserved_cash s' \<le> cb_total s + eps)"
proof (cases x)
  case (Inl e)
  with assms show ?thesis by (auto simp: reserve_def Let_def split: if_splits)
next
  case (Inr r)
  have g: "reserve_capital k \<lparr>cr_cell = c, cr_amount = a\<rparr> s = (Inr r, s')"
    using assms Inr by (simp add: reserve_capital_def)
  have "cb_total s' = cb_total s" using assms by (auto simp: reserve_def Let_def split: if_splits)
  with capital.booked_within [OF g] show ?thesis by (simp add: reserved_cash_pool)
qed

lemma covered_step:
  assumes "capital.book_inv s" and "reserved_cash s \<le> cb_total s + eps" and "covered_syncs [op] s"
  shows "reserved_cash (capital_step op s) \<le> cb_total (capital_step op s) + eps"
proof (cases op)
  case (CReserve k c a)
  with reserved_reserve [OF surjective_pairing, of k c a s] assms(2) show ?thesis by auto
next
  case (CRelease k)
  with reserved_release [OF assms(1), of k] assms(2) show ?thesis
    by (simp add: release_def split: if_splits)
next
  case (CSync v)
  with assms(3) show ?thesis by (simp add: sync_total_cash_def reserved_cash_def)
qed

lemma covered_run:
  "capital.book_inv s \<Longrightarrow> reserved_cash s \<le> cb_total s + eps \<Longrightarrow> covered_syncs ops s \<Longrightarrow>
    reserved_cash (fold capital_step ops s) \<le> cb_total (fold capital_step ops s) + eps"
proof (induction ops arbitrary: s)
  case (Cons op ops)
  then show ?case using covered_step [of s op] capital_step_inv [of s op] by simp
qed simp

lemma peak_run:
  "capital.book_inv s \<Longrightarrow> reserved_cash s \<le> m + eps \<Longrightarrow> cb_total s \<le> m \<Longrightarrow>
    reserved_cash (fold capital_step ops s) \<le> total_peak m ops + eps"
proof (induction ops arbitrary: s m)
  case (Cons op ops)
  let ?m = "case op of CSync v \<Rightarrow> max m v | _ \<Rightarrow> m"
  have "reserved_cash (capital_step op s) \<le> ?m + eps \<and> cb_total (capital_step op s) \<le> ?m"
  proof (cases op)
    case (CReserve k c a)
    with reserved_reserve [OF surjective_pairing, of k c a s] Cons.prems show ?thesis by auto
  next
    case (CRelease k)
    with reserved_release [OF Cons.prems(1), of k] Cons.prems(2,3) show ?thesis
      by (simp add: release_def split: if_splits)
  next
    case (CSync v)
    with Cons.prems show ?thesis by (simp add: sync_total_cash_def reserved_cash_def)
  qed
  with Cons.IH [OF capital_step_inv [OF Cons.prems(1)]] show ?case by simp
qed simp

lemma total_peak_reserve: "total_peak m (ops @ [CReserve k cell a]) = total_peak m ops"
  by (induction ops arbitrary: m) simp_all

text \<open>What a granted reservation does to the book.\<close>

lemma granted_reservation:
  assumes g: "reserve_capital rid \<lparr>cr_cell = cell, cr_amount = amount\<rparr> s = (Inr x, s')"
  shows "reserved_cash s' = reserved_cash s + amount \<and> reserved_cash s' \<le> cb_total s' + eps \<and>
    (\<exists>e. reserve rid cell' amount' s' = (Inl e, s')) \<and>
    available_cash (snd (release rid s')) = available_cash s"
proof (intro conjI)
  show "reserved_cash s' = reserved_cash s + amount"
    using capital.book_ok [OF g] by (auto simp: reserved_cash_pool pool_sum_dput_new)
  show "reserved_cash s' \<le> cb_total s' + eps"
    using capital.booked_within [OF g] by (simp add: reserved_cash_pool)
  show "\<exists>e. reserve rid cell' amount' s' = (Inl e, s')"
    using capital.book_twice [OF g, of "\<lparr>cr_cell = cell', cr_amount = amount'\<rparr>"]
    by (simp add: reserve_capital_def)
  show "available_cash (snd (release rid s')) = available_cash s"
    using capital.book_then_drop [OF g]
    by (auto simp: available_cash_def reserved_cash_def fun_eq_iff)
qed

section \<open>Property\<close>

text \<open>
  C21. After any history of reservations, releases and updates of the total cash, a reservation
  is granted exactly when its amount is positive, its id is not in use and it fits, up to
  \<open>eps\<close>, into the total cash that is not reserved. When it is granted all reservations together
  are within the total cash of that moment up to \<open>eps\<close>; the shares of the cells add up to the
  reserved cash, the same id is refused from then on, and releasing it restores the available
  cash. A refused reservation changes nothing. Only an update of the total can leave the account
  overcommitted: as long as no update falls below what is reserved at that time, the reserved
  cash stays within the total up to \<open>eps\<close>, and in every history it stays within the highest
  total the account has had up to \<open>eps\<close>.
\<close>

theorem reservations_never_overcommit:
  assumes "0 \<le> c" and "s = fold capital_step ops \<lparr>cb_total = c, cb_table = []\<rparr>"
    and "reserve rid cell amount s = (r, s')"
    and "distinct cells" and "\<forall>x \<in> set (dvals (cb_table s')). cr_cell x \<in> set cells"
  shows "is_ok r = (0 < amount \<and> \<not> dhas (cb_table s) rid \<and> amount \<le> available_cash s + eps) \<and>
    (if is_ok r
     then reserved_cash s' = reserved_cash s + amount \<and> reserved_cash s' \<le> cb_total s' + eps \<and>
       (\<exists>e. reserve rid cell' amount' s' = (Inl e, s')) \<and>
       available_cash (snd (release rid s')) = available_cash s
     else s' = s) \<and>
    (\<Sum>x\<leftarrow>cells. cell_reserved_capital x s') = reserved_cash s' \<and> 0 \<le> reserved_cash s' \<and>
    (covered_syncs ops \<lparr>cb_total = c, cb_table = []\<rparr> \<longrightarrow>
      reserved_cash s \<le> cb_total s + eps \<and> reserved_cash s' \<le> cb_total s' + eps) \<and>
    reserved_cash s' \<le> total_peak c ops + eps"
proof -
  let ?r = "\<lparr>cr_cell = cell, cr_amount = amount\<rparr>" and ?s0 = "\<lparr>cb_total = c, cb_table = []\<rparr>"
  have b: "reserve_capital rid ?r s = (r, s')" using assms(3) by (simp add: reserve_capital_def)
  have i0: "capital.book_inv ?s0" "reserved_cash ?s0 = 0"
    by (simp_all add: capital.book_inv_def reserved_cash_def)
  then have inv: "capital.book_inv s" using capital_run_inv assms(2) by blast
  then have inv': "capital.book_inv s'" using capital.book_inv_step b by blast
  have shares: "(\<Sum>x\<leftarrow>cells. cell_reserved_capital x s') = reserved_cash s'"
    using filter_partition_sum [OF assms(4,5), of cr_amount]
    by (simp add: cell_reserved_capital_def reserved_cash_def dsum_def)
  have nn: "0 \<le> reserved_cash s'"
    unfolding reserved_cash_def using inv'
    by (intro dsum_nonneg) (auto simp: capital.book_inv_def dvals_def in_set_dget [symmetric]
        intro: less_imp_le)
  have e: "0 \<le> c + eps" using assms(1) eps_pos(1) by linarith
  then have cov: "covered_syncs ops ?s0 \<longrightarrow>
      reserved_cash s \<le> cb_total s + eps \<and> reserved_cash s' \<le> cb_total s' + eps"
    using covered_run [OF i0(1)] i0(2) assms(2) reserved_reserve [OF assms(3)] by auto
  have peak: "reserved_cash s' \<le> total_peak c ops + eps"
    using peak_run [OF i0(1), of c "ops @ [CReserve rid cell amount]"] i0(2) e assms(2,3)
      total_peak_reserve [of c ops rid cell amount] by simp
  have iff: "is_ok r = (0 < amount \<and> \<not> dhas (cb_table s) rid \<and> amount \<le> available_cash s + eps)"
    using capital.book_iff [of rid ?r s] b
    by (auto simp: available_cash_def reserved_cash_pool dhas_def)
  show ?thesis
  proof (cases r)
    case (Inl e)
    with capital.book_error b shares nn iff cov peak show ?thesis by auto
  next
    case (Inr x)
    then have "is_ok r" by simp
    then show ?thesis
      using granted_reservation [OF b [unfolded Inr], of cell' amount'] iff shares nn cov peak by auto
  qed
qed

lemma reservations_never_overcommit_witness:
  "let s = fold capital_step [CReserve ''r1'' ''c1'' 60] \<lparr>cb_total = 100, cb_table = []\<rparr>;
       (r, s') = reserve ''r2'' ''c2'' 50 s
   in \<not> is_ok r \<and> s' = s \<and> reserved_cash s \<le> cb_total s + eps \<and> (\<Sum>x\<leftarrow>[''c1'', ''c2'']. cell_reserved_capital x s') = 60"
proof -
  let ?s = "fold capital_step [CReserve ''r1'' ''c1'' 60] \<lparr>cb_total = 100, cb_table = []\<rparr>"
  let ?t = "\<lparr>cb_total = 100, cb_table = [(''r1'', \<lparr>cr_cell = ''c1'', cr_amount = 60\<rparr>)]\<rparr>"
  let ?b = "reserve ''r2'' ''c2'' 50 ?t"
  have "\<not> 100 + eps < 60" using eps_pos(1) by linarith
  then have s: "?t = ?s"
    by (simp add: reserve_def dhas_def available_cash_def reserved_cash_def Let_def)
  have av: "available_cash ?t = 40" "reserved_cash ?t = 60"
    by (simp_all add: available_cash_def reserved_cash_def)
  have no: "\<not> 50 \<le> available_cash ?t + eps" "available_cash ?t + eps < 50"
    unfolding av by (simp_all add: eps_def)
  have sb: "snd ?b = ?t" using no(2) by (simp add: reserve_def dhas_def)
  have cells: "\<forall>x \<in> set (dvals (cb_table (snd ?b))). cr_cell x \<in> set [''c1'', ''c2'']"
    unfolding sb by (simp add: dvals_def)
  have "(0 :: real) \<le> 100" by simp
  from reservations_never_overcommit [OF this s surjective_pairing _ cells] no(1) sb
  have "\<not> is_ok (fst ?b) \<and> snd ?b = ?t \<and> reserved_cash ?t \<le> cb_total ?t + eps \<and>
      (\<Sum>x\<leftarrow>[''c1'', ''c2'']. cell_reserved_capital x (snd ?b)) = reserved_cash ?t" by simp
  then show ?thesis unfolding s [symmetric] av(2) Let_def split_def by blast
qed

end
