(* ===== verification/CellBooks.thy ===== *)
theory CellBooks
  imports CellLedger
begin

text \<open>
  The cells of the account, \<open>cells: dict[str, CellLedger]\<close>, and what the netting and the
  fill allocation modules share: the checks of a whole batch against the cells, and posting
  the legs of a batch one after the other.
\<close>

type_synonym cells = "(string, cell_ledger) dict"

text \<open>\<open>cells[k].method(...)\<close>\<close>

definition on_cell :: "string \<Rightarrow> (cell_ledger, 'a) act \<Rightarrow> (cells, 'a) act" where
  "on_cell k m cs =
     (case dget cs k of
        None \<Rightarrow> (Inl KeyError, cs)
      | Some l \<Rightarrow> (case m l of (r, l') \<Rightarrow> (r, dput cs k l')))"

definition cells_ok :: "cells \<Rightarrow> bool" where
  "cells_ok cs \<longleftrightarrow> dict_ok cs \<and> (\<forall>k l. dget cs k = Some l \<longrightarrow> cell_inv l)"

lemma cells_okD: "cells_ok cs \<Longrightarrow> dget cs k = Some l \<Longrightarrow> cell_inv l"
  by (auto simp: cells_ok_def)

lemma cells_ok_dput: "cells_ok cs \<Longrightarrow> cell_inv l \<Longrightarrow> cells_ok (dput cs k l)"
  by (auto simp: cells_ok_def dict_simps)

text \<open>Above the tolerance is positive.\<close>

lemma above_eps: "eps < x \<Longrightarrow> 0 < x" "eps < x \<Longrightarrow> 0 \<le> x" "2 * eps < x \<Longrightarrow> 0 < x"
  using eps_pos(1) by linarith+

section \<open>Checks of a batch\<close>

text \<open>The loop over \<open>sell_qty.items()\<close>.\<close>

fun check_sells :: "cells \<Rightarrow> ((string \<times> string) \<times> real) list \<Rightarrow> exn + unit" where
  "check_sells cs [] = Inr ()"
| "check_sells cs (((k, sy), qty) # d) =
     (case dget cs k of
        None \<Rightarrow> Inl KeyError
      | Some l \<Rightarrow> if cell_qty l sy + eps < qty then Inl CellShortSellError else check_sells cs d)"

text \<open>The loop over \<open>cash_delta.items()\<close>.\<close>

fun check_cash :: "cells \<Rightarrow> (string \<times> real) list \<Rightarrow> exn + unit" where
  "check_cash cs [] = Inr ()"
| "check_cash cs ((k, delta) # d) =
     (case dget cs k of
        None \<Rightarrow> Inl KeyError
      | Some l \<Rightarrow> if cl_cash l + delta < - eps then Inl CellOverdrawError else check_cash cs d)"

lemma check_sells_cases:
  assumes "\<forall>x \<in> set d. dhas cs (fst (fst x))"
  shows "check_sells cs d =
    (if \<forall>x \<in> set d. snd x \<le> cell_qty (the (dget cs (fst (fst x)))) (snd (fst x)) + eps
     then Inr () else Inl CellShortSellError)"
  using assms by (induction cs d rule: check_sells.induct) (simp, force simp: dhas_def not_less)

lemma check_cash_cases:
  assumes "\<forall>x \<in> set d. dhas cs (fst x)"
  shows "check_cash cs d =
    (if \<forall>x \<in> set d. - eps \<le> cl_cash (the (dget cs (fst x))) + snd x
     then Inr () else Inl CellOverdrawError)"
  using assms by (induction cs d rule: check_cash.induct) (simp, force simp: dhas_def not_less)

lemma tally_keys:
  assumes "\<forall>x \<in> set xs. P (fst x)"
  shows "\<forall>x \<in> set (tally xs []). P (fst x)"
proof
  fix x assume "x \<in> set (tally xs [])"
  then have "dget (tally xs []) (fst x) = Some (snd x)"
    by (metis in_set_dget dict_ok_Nil prod.collapse tally_ok)
  then have "fst x \<in> fst ` set xs" by (auto simp: dget_tally split: if_splits)
  with assms show "P (fst x)" by auto
qed

text \<open>The checks, in terms of the pairs that were added up.\<close>

lemma in_set_tally: "x \<in> set (tally xs []) \<longleftrightarrow> fst x \<in> fst ` set xs \<and> snd x = key_total (fst x) xs"
proof -
  have "x \<in> set (tally xs []) \<longleftrightarrow> dget (tally xs []) (fst x) = Some (snd x)"
    by (metis in_set_dget dict_ok_Nil prod.collapse tally_ok)
  then show ?thesis by (auto simp: dget_tally dget_or_def)
qed

lemma set_tally: "set (tally xs []) = (\<lambda>k. (k, key_total k xs)) ` fst ` set xs"
  by (rule set_eqI, subst in_set_tally) (auto simp: image_iff prod_eq_iff)

lemma check_sells_tally_iff:
  assumes "\<forall>x \<in> set xs. dhas cs (fst (fst x))"
  shows "check_sells cs (tally xs []) =
    (if \<forall>(k, sy) \<in> fst ` set xs. key_total (k, sy) xs \<le> cell_qty (the (dget cs k)) sy + eps
     then Inr () else Inl CellShortSellError)"
proof -
  have "(\<forall>x \<in> set (tally xs []). snd x \<le> cell_qty (the (dget cs (fst (fst x)))) (snd (fst x)) + eps)
      \<longleftrightarrow> (\<forall>(k, sy) \<in> fst ` set xs. key_total (k, sy) xs \<le> cell_qty (the (dget cs k)) sy + eps)"
    by (simp add: set_tally split_def)
  with check_sells_cases [OF tally_keys [OF assms]] show ?thesis by simp
qed

lemma check_cash_tally_iff:
  assumes "\<forall>x \<in> set xs. dhas cs (fst x)"
  shows "check_cash cs (tally xs []) =
    (if \<forall>k \<in> fst ` set xs. - eps \<le> cl_cash (the (dget cs k)) + key_total k xs
     then Inr () else Inl CellOverdrawError)"
proof -
  have "(\<forall>x \<in> set (tally xs []). - eps \<le> cl_cash (the (dget cs (fst x))) + snd x)
      \<longleftrightarrow> (\<forall>k \<in> fst ` set xs. - eps \<le> cl_cash (the (dget cs k)) + key_total k xs)"
    by (simp add: set_tally split_def)
  with check_cash_cases [OF tally_keys [OF assms]] show ?thesis by simp
qed

lemma key_total_absent: "k \<notin> fst ` set xs \<Longrightarrow> key_total k xs = 0"
  by (induction xs) auto

text \<open>A passed check bounds the total of every key, also of those that do not occur.\<close>

lemma check_sells_tally:
  assumes "check_sells cs (tally xs []) = Inr ()" and "\<forall>x \<in> set xs. dhas cs (fst (fst x))"
    and "cells_ok cs" and "dget cs k = Some l"
  shows "key_total (k, sy) xs \<le> cell_qty l sy + eps"
proof (cases "(k, sy) \<in> fst ` set xs")
  case True
  with assms(1,4) check_sells_tally_iff [OF assms(2)] show ?thesis by (force split: if_splits)
next
  case False
  then show ?thesis
    using cell_book.inv_held [OF cells_okD [OF assms(3,4)], of sy] eps_pos(2)
    by (simp add: key_total_absent)
qed

lemma check_cash_tally:
  assumes "check_cash cs (tally xs []) = Inr ()" and "\<forall>x \<in> set xs. dhas cs (fst x)"
    and "cells_ok cs" and "dget cs k = Some l"
  shows "- eps \<le> cl_cash l + key_total k xs"
proof (cases "k \<in> fst ` set xs")
  case True
  with assms(1,4) check_cash_tally_iff [OF assms(2)] show ?thesis by (force split: if_splits)
next
  case False
  then show ?thesis
    using cell_book.inv_cash [OF cells_okD [OF assms(3,4)]] by (simp add: key_total_absent)
qed

section \<open>Posting\<close>

text \<open>A leg: the cell, the symbol, the signed quantity, the price and the fees.\<close>

type_synonym leg = "string \<times> string \<times> real \<times> real \<times> real"

definition post_leg :: "cell_entry_kind \<Rightarrow> pydt \<Rightarrow> leg \<Rightarrow> (cells, unit) act" where
  "post_leg kind a_t x = (case x of (k, sy, q, p, f) \<Rightarrow> on_cell k (apply_fill kind sy q p f a_t))"

definition legs_of :: "string \<Rightarrow> leg list \<Rightarrow> (string \<times> real \<times> real \<times> real) list" where
  "legs_of k xs = map snd (filter (\<lambda>x. fst x = k) xs)"

lemma legs_of_simps [simp]:
  "legs_of k [] = []"
  "legs_of k (x # xs) = (if fst x = k then snd x # legs_of k xs else legs_of k xs)"
  "legs_of k (xs @ ys) = legs_of k xs @ legs_of k ys"
  by (simp_all add: legs_of_def)

text \<open>Posting a batch is booking, in every cell, the legs that are its own.\<close>

lemma post_all_split:
  "\<forall>x \<in> set xs. dhas cs (fst x) \<Longrightarrow>
    (\<And>k l. dget cs k = Some l \<Longrightarrow> \<exists>l'. cell_book.fill_all kind t (legs_of k xs) l = Some l') \<Longrightarrow>
    \<exists>cs'. for_each (post_leg kind (Aware t)) xs cs = (Inr (), cs') \<and>
      (\<forall>k. dget cs' k = (case dget cs k of None \<Rightarrow> None
        | Some l \<Rightarrow> cell_book.fill_all kind t (legs_of k xs) l))"
proof (induction xs arbitrary: cs)
  case Nil
  then show ?case by (auto split: option.splits)
next
  case (Cons x xs)
  obtain k sy q p f where x: "x = (k, sy, q, p, f)" by (cases x)
  obtain l where l: "dget cs k = Some l" using Cons.prems(1) x by (auto simp: dhas_def)
  obtain m where m: "cell_fill kind t l sy q p f = Some m"
    "\<exists>l'. cell_book.fill_all kind t (legs_of k xs) m = Some l'"
    using Cons.prems(2) [OF l] x by (auto split: option.splits)
  from m(1) have post: "post_leg kind (Aware t) x cs = (Inr (), dput cs k m)"
    by (auto simp: x l post_leg_def on_cell_def cell_fill_def split: prod.splits sum.splits)
  have "\<forall>x \<in> set xs. dhas (dput cs k m) (fst x)"
    using Cons.prems(1) by (auto simp: dhas_def dict_simps)
  moreover have "\<exists>l'. cell_book.fill_all kind t (legs_of j xs) n = Some l'"
    if "dget (dput cs k m) j = Some n" for j n
    using that m(2) Cons.prems(2) [of j n] x by (auto simp: dict_simps split: if_splits)
  ultimately obtain cs' where
    "for_each (post_leg kind (Aware t)) xs (dput cs k m) = (Inr (), cs')"
    "\<forall>j. dget cs' j = (case dget (dput cs k m) j of None \<Rightarrow> None
        | Some l \<Rightarrow> cell_book.fill_all kind t (legs_of j xs) l)"
    using Cons.IH [of "dput cs k m"] by blast
  moreover have "(case dget (dput cs k m) j of None \<Rightarrow> None
        | Some l \<Rightarrow> cell_book.fill_all kind t (legs_of j xs) l) =
      (case dget cs j of None \<Rightarrow> None
        | Some l \<Rightarrow> cell_book.fill_all kind t (legs_of j (x # xs)) l)" for j
    using m(1) l x by (auto simp: dict_simps split: option.splits)
  ultimately show ?case using post by auto
qed

lemma post_leg_Inr:
  assumes "post_leg kind a_t (k, sy, q, p, f) cs = (Inr u, cs')"
  obtains t l l' where "a_t = Aware t" "dget cs k = Some l"
    "cell_fill kind t l sy q p f = Some l'" "cs' = dput cs k l'"
proof -
  from assms obtain l l' where l: "dget cs k = Some l" "cs' = dput cs k l'"
    and a: "apply_fill kind sy q p f a_t l = (Inr u, l')"
    by (auto simp: post_leg_def on_cell_def split: option.splits prod.splits)
  from a obtain t where t: "a_t = Aware t" by (rule apply_fill_filled)
  with a have "cell_fill kind t l sy q p f = Some l'" by (simp add: cell_fill_def)
  with l t that show ?thesis by blast
qed

text \<open>Totals over all cells.\<close>

definition cells_cash :: "cells \<Rightarrow> real" where
  "cells_cash cs = dsum cl_cash cs"

definition cells_qty :: "cells \<Rightarrow> string \<Rightarrow> real" where
  "cells_qty cs sy = dsum (\<lambda>l. cell_qty l sy) cs"

definition legs_cash :: "leg list \<Rightarrow> real" where
  "legs_cash xs = (\<Sum>(k, sy, q, p, f)\<leftarrow>xs. q * p + f)"

definition legs_qty :: "string \<Rightarrow> leg list \<Rightarrow> real" where
  "legs_qty t xs = (\<Sum>(k, sy, q, p, f)\<leftarrow>xs. if sy = t then q else 0)"

lemma legs_sums [simp]:
  "legs_cash [] = 0" "legs_cash ((k, sy, q, p, f) # xs) = q * p + f + legs_cash xs"
  "legs_qty t [] = 0" "legs_qty t ((k, sy, q, p, f) # xs) = (if sy = t then q else 0) + legs_qty t xs"
  by (simp_all add: legs_cash_def legs_qty_def)

lemma legs_append [simp]:
  "legs_cash (xs @ ys) = legs_cash xs + legs_cash ys"
  "legs_qty t (xs @ ys) = legs_qty t xs + legs_qty t ys"
  by (simp_all add: legs_cash_def legs_qty_def)

definition leg_sane :: "leg \<Rightarrow> bool" where
  "leg_sane x = (case x of (k, sy, q, p, f) \<Rightarrow> 0 \<le> p \<and> 0 \<le> f)"

lemma post_leg_totals:
  assumes ok: "cells_ok cs" and x: "x = (k, sy, q, p, f)" and "leg_sane x"
    and post: "post_leg kind a_t x cs = (Inr u, cs')"
  shows "cells_ok cs'" and "cells_cash cs' = cells_cash cs - (q * p + f)"
    and "\<bar>cells_qty cs' s - (cells_qty cs s + (if sy = s then q else 0))\<bar> \<le> eps"
proof -
  obtain t l l' where l: "dget cs k = Some l" and f: "cell_fill kind t l sy q p f = Some l'"
    and cs': "cs' = dput cs k l'"
    using post unfolding x by (rule post_leg_Inr)
  have inv: "cell_inv l" by (rule cells_okD [OF ok l])
  have pf: "0 \<le> p" "0 \<le> f" using assms(3) x by (auto simp: leg_sane_def)
  show "cells_ok cs'"
    unfolding cs' by (rule cells_ok_dput [OF ok cell_book.fill_inv [OF inv pf f]])
  show "cells_cash cs' = cells_cash cs - (q * p + f)"
    using cell_book.fill_cash [OF f] l by (simp add: cs' cells_cash_def dsum_dput)
  have "cells_qty cs' s = cells_qty cs s + cell_qty l' s - cell_qty l s"
    using l by (simp add: cs' cells_qty_def dsum_dput)
  moreover have "\<bar>cell_qty l' s - (cell_qty l s + (if sy = s then q else 0))\<bar> \<le> eps"
    using cell_book.fill_held [OF inv f] cell_book.fill_other [OF f] by (cases "sy = s") auto
  ultimately show "\<bar>cells_qty cs' s - (cells_qty cs s + (if sy = s then q else 0))\<bar> \<le> eps"
    by linarith
qed

lemma post_all_totals:
  "cells_ok cs \<Longrightarrow> \<forall>x \<in> set xs. leg_sane x \<Longrightarrow>
    for_each (post_leg kind a_t) xs cs = (Inr u, cs') \<Longrightarrow>
    cells_ok cs' \<and> cells_cash cs' = cells_cash cs - legs_cash xs \<and>
    \<bar>cells_qty cs' s - (cells_qty cs s + legs_qty s xs)\<bar> \<le> real (length xs) * eps"
proof (induction xs arbitrary: cs)
  case Nil
  then show ?case by simp
next
  case (Cons x xs)
  obtain k sy q p f where x: "x = (k, sy, q, p, f)" by (cases x)
  obtain v ds where post: "post_leg kind a_t x cs = (Inr v, ds)"
    and rest: "for_each (post_leg kind a_t) xs ds = (Inr u, cs')"
    using Cons.prems(3) by (auto split: prod.splits sum.splits)
  have "leg_sane x" using Cons.prems(2) by simp
  note one = post_leg_totals [OF Cons.prems(1) x this post]
  have IH: "cells_ok cs'" "cells_cash cs' = cells_cash ds - legs_cash xs"
    "\<bar>cells_qty cs' s - (cells_qty ds s + legs_qty s xs)\<bar> \<le> real (length xs) * eps"
    using Cons.IH [OF one(1) _ rest] Cons.prems(2) by auto
  have "real (length (x # xs)) * eps = real (length xs) * eps + eps"
    by (simp add: algebra_simps)
  with IH one(2) one(3) [of s] show ?case by (simp add: x)
qed

text \<open>
  A batch whose sales are covered by positions and whose net cost is covered by cash goes
  through completely, when sales come first and no sale is as small as twice the tolerance.
\<close>

lemma post_batch_succeeds:
  assumes ok: "cells_ok cs"
    and sells: "\<forall>x \<in> set xs. sale_leg (snd x)" and buys: "\<forall>x \<in> set ys. purchase_leg (snd x)"
    and known: "\<forall>x \<in> set (xs @ ys). dhas cs (fst x)"
    and "\<And>k l sy. dget cs k = Some l \<Longrightarrow> cell_book.sold (legs_of k xs) sy \<le> cell_qty l sy + eps"
    and "\<And>k l. dget cs k = Some l \<Longrightarrow> cell_book.cost (legs_of k (xs @ ys)) \<le> cl_cash l + eps"
  shows "\<exists>cs'. for_each (post_leg kind (Aware t)) (xs @ ys) cs = (Inr (), cs')"
proof -
  have "\<exists>l'. cell_book.fill_all kind t (legs_of k (xs @ ys)) l = Some l'"
    if l: "dget cs k = Some l" for k l
    using cell_book.sells_then_buys [OF cells_okD [OF ok l], of "legs_of k xs" "legs_of k ys"]
      sells buys assms(5,6) [OF l] by (auto simp: legs_of_def)
  from post_all_split [OF known this] show ?thesis by blast
qed

end
