(* ===== verification/Netting.thy ===== *)
theory Netting
  imports CellBooks
begin

text \<open>
  \<open>services/capital_cells/netting.py\<close>: crossing the order intents of the cells against
  each other inside the account and leaving one net order per symbol for the broker. The
  transfer price is a parameter (\<open>transfer_price_fn\<close>); there is one price method, so the
  method tag is left out.
\<close>

section \<open>Data\<close>

record internal_cross =
  ic_symbol :: string
  ic_buyer :: string
  ic_seller :: string
  ic_qty :: real
  ic_price :: real

record symbol_net =
  sn_symbol :: string
  sn_gross_buy :: real
  sn_gross_sell :: real
  sn_cross_qty :: real
  sn_side :: "action option"
  sn_qty :: real
  sn_crosses :: "internal_cross list"
  sn_contributing :: "cell_intent list"
  sn_residual :: "cell_intent list"

text \<open>\<open>SymbolNetResult.__post_init__\<close>\<close>

definition mk_symbol_net :: "symbol_net \<Rightarrow> exn + symbol_net" where
  "mk_symbol_net r =
     (let residual_total = (\<Sum>i\<leftarrow>sn_residual r. ci_qty i) in
      if eps6 < \<bar>residual_total - sn_qty r\<bar> then Inl ValueError else Inr r)"

type_synonym netting = "(string, symbol_net) dict"

definition gross_buy_flow :: "netting \<Rightarrow> real" where
  "gross_buy_flow n = dsum sn_gross_buy n"

definition gross_sell_flow :: "netting \<Rightarrow> real" where
  "gross_sell_flow n = dsum sn_gross_sell n"

definition internal_cross_volume :: "netting \<Rightarrow> real" where
  "internal_cross_volume n = dsum sn_cross_qty n"

definition net_broker_flow :: "netting \<Rightarrow> real" where
  "net_broker_flow n = dsum sn_qty n"

fun broker_orders :: "symbol_net list \<Rightarrow> (string \<times> action \<times> real) list" where
  "broker_orders [] = []"
| "broker_orders (r # rs) =
     (case sn_side r of
        Some side \<Rightarrow> if eps < sn_qty r then (sn_symbol r, side, sn_qty r) # broker_orders rs
                     else broker_orders rs
      | None \<Rightarrow> broker_orders rs)"

section \<open>Validation of a batch\<close>

text \<open>The loop over the intents: the ids seen and the sell demand per cell and symbol.\<close>

definition validate_intent ::
    "cells \<Rightarrow> cell_intent \<Rightarrow> string list \<times> ((string \<times> string) \<times> real) list \<Rightarrow>
     exn + string list \<times> ((string \<times> string) \<times> real) list" where
  "validate_intent cells i st =
     (let (seen, sell_demand) = st in
      if ci_id i \<in> set seen then Inl DuplicateIntentIdError
      else if \<not> dhas cells (ci_cell i) then Inl UnknownCellError
      else Inr (ci_id i # seen,
                if ci_side i = SELL then add_to sell_demand (ci_cell i, ci_symbol i) (ci_qty i)
                else sell_demand))"

definition validate_batch :: "cell_intent list \<Rightarrow> cells \<Rightarrow> exn + unit" where
  "validate_batch intents cells =
     (case fold_res (validate_intent cells) intents ([], []) of
        Inl e \<Rightarrow> Inl e
      | Inr (_, sell_demand) \<Rightarrow> check_sells cells sell_demand)"

section \<open>Matching\<close>

text \<open>
  The two-pointer loop. The pointers are the heads of the lists, the entries before them are
  returned with what remained of them when the pointer moved on.
\<close>

function cross_loop ::
    "string \<Rightarrow> real \<Rightarrow> (cell_intent \<times> real) list \<Rightarrow> (cell_intent \<times> real) list \<Rightarrow>
     internal_cross list \<times> (cell_intent \<times> real) list \<times> (cell_intent \<times> real) list" where
  "cross_loop sy price [] ss = ([], [], ss)"
| "cross_loop sy price (b # bs) [] = ([], b # bs, [])"
| "cross_loop sy price ((b, rb) # bs) ((s, rs) # ss) =
     (let q = min rb rs;
          here = (if eps < q
                  then [\<lparr>ic_symbol = sy, ic_buyer = ci_cell b, ic_seller = ci_cell s,
                         ic_qty = q, ic_price = price\<rparr>] else []);
          rb' = rb - q; rs' = rs - q;
          (cs, bs', ss') = cross_loop sy price
             (if rb' \<le> eps then bs else (b, rb') # bs)
             (if rs' \<le> eps then ss else (s, rs') # ss)
      in (here @ cs,
          if rb' \<le> eps then (b, rb') # bs' else bs',
          if rs' \<le> eps then (s, rs') # ss' else ss'))"
  by pat_completeness auto

termination
  by (relation "measure (\<lambda>(_, _, bs, ss). length bs + length ss)") (auto simp: min_def)

definition net_symbol ::
    "(string \<Rightarrow> real) \<Rightarrow> string \<Rightarrow> cell_intent list \<Rightarrow> exn + symbol_net" where
  "net_symbol price_fn sy intents =
     (let buys = sort_key ci_id (filter (\<lambda>i. ci_side i = BUY) intents);
          sells = sort_key ci_id (filter (\<lambda>i. ci_side i = SELL) intents);
          gross_buy = (\<Sum>i\<leftarrow>buys. ci_qty i);
          gross_sell = (\<Sum>i\<leftarrow>sells. ci_qty i);
          (crosses, bs', ss') = cross_loop sy (price_fn sy)
             (map (\<lambda>i. (i, ci_qty i)) buys) (map (\<lambda>i. (i, ci_qty i)) sells);
          net_qty = gross_buy - gross_sell;
          net_side = (if eps < net_qty then Some BUY
                      else if net_qty < - eps then Some SELL else None);
          leftovers = (if net_side = Some BUY then bs' else ss');
          residual = map (\<lambda>(i, r). i\<lparr>ci_qty := r\<rparr>) (filter (\<lambda>(i, r). eps < r) leftovers)
      in mk_symbol_net \<lparr>sn_symbol = sy, sn_gross_buy = gross_buy, sn_gross_sell = gross_sell,
           sn_cross_qty = (\<Sum>c\<leftarrow>crosses. ic_qty c), sn_side = net_side, sn_qty = \<bar>net_qty\<bar>,
           sn_crosses = crosses, sn_contributing = intents, sn_residual = residual\<rparr>)"

text \<open>\<open>by_symbol.setdefault(symbol, []).append(intent)\<close>\<close>

fun group_by_symbol :: "cell_intent list \<Rightarrow> (string, cell_intent list) dict \<Rightarrow>
    (string, cell_intent list) dict" where
  "group_by_symbol [] d = d"
| "group_by_symbol (i # is) d =
     group_by_symbol is (dput d (ci_symbol i) (dget_or d (ci_symbol i) [] @ [i]))"

fun net_all :: "(string \<Rightarrow> real) \<Rightarrow> (string, cell_intent list) dict \<Rightarrow> exn + netting" where
  "net_all price_fn [] = Inr []"
| "net_all price_fn ((sy, is) # d) =
     (case net_symbol price_fn sy is of Inl e \<Rightarrow> Inl e | Inr r \<Rightarrow>
      case net_all price_fn d of Inl e \<Rightarrow> Inl e | Inr n \<Rightarrow> Inr ((sy, r) # n))"

definition net :: "(string \<Rightarrow> real) \<Rightarrow> cell_intent list \<Rightarrow> cells \<Rightarrow> exn + netting" where
  "net price_fn intents cells =
     (case validate_batch intents cells of Inl e \<Rightarrow> Inl e
      | Inr _ \<Rightarrow> net_all price_fn (group_by_symbol intents []))"

section \<open>Applying the crosses\<close>

definition validate_cross ::
    "cells \<Rightarrow> internal_cross \<Rightarrow> ((string \<times> string) \<times> real) list \<times> (string \<times> real) list \<Rightarrow>
     exn + ((string \<times> string) \<times> real) list \<times> (string \<times> real) list" where
  "validate_cross cells c st =
     (let (sell_qty, cash_delta) = st in
      if \<not> dhas cells (ic_buyer c) \<or> \<not> dhas cells (ic_seller c) then Inl UnknownCellError
      else (let notional = ic_qty c * ic_price c in
            Inr (add_to sell_qty (ic_seller c, ic_symbol c) (ic_qty c),
                 add_to (add_to cash_delta (ic_buyer c) (- notional)) (ic_seller c) notional)))"

definition all_crosses :: "netting \<Rightarrow> internal_cross list" where
  "all_crosses n = concat (map sn_crosses (dvals n))"

definition validate_crosses :: "cells \<Rightarrow> netting \<Rightarrow> exn + unit" where
  "validate_crosses cells n =
     (case fold_res (validate_cross cells) (all_crosses n) ([], []) of
        Inl e \<Rightarrow> Inl e
      | Inr (sell_qty, cash_delta) \<Rightarrow>
          (case check_sells cells sell_qty of Inl e \<Rightarrow> Inl e
           | Inr _ \<Rightarrow> check_cash cells cash_delta))"

definition sell_legs :: "internal_cross list \<Rightarrow> (string \<times> real \<times> internal_cross) list" where
  "sell_legs cs = map (\<lambda>c. (ic_seller c, - ic_qty c, c)) cs"

definition buy_legs :: "internal_cross list \<Rightarrow> (string \<times> real \<times> internal_cross) list" where
  "buy_legs cs = map (\<lambda>c. (ic_buyer c, ic_qty c, c)) cs"

definition post_cross :: "pydt \<Rightarrow> string \<times> real \<times> internal_cross \<Rightarrow> (cells, unit) act" where
  "post_cross a_t x = (case x of (cell_id, signed_qty, c) \<Rightarrow>
     on_cell cell_id (record_internal_cross (ic_symbol c) signed_qty (ic_price c) a_t))"

definition apply_crosses_to_cells :: "netting \<Rightarrow> pydt \<Rightarrow> (cells, unit) act" where
  "apply_crosses_to_cells n a_t cells =
     (case validate_crosses cells n of
        Inl e \<Rightarrow> (Inl e, cells)
      | Inr _ \<Rightarrow> for_each (post_cross a_t)
                   (sell_legs (all_crosses n) @ buy_legs (all_crosses n)) cells)"

section \<open>The matching loop\<close>

definition rem_sum :: "(cell_intent \<Rightarrow> bool) \<Rightarrow> (cell_intent \<times> real) list \<Rightarrow> real" where
  "rem_sum P xs = (\<Sum>(i, r)\<leftarrow>xs. if P i then r else 0)"

lemma rem_sum_simps [simp]:
  "rem_sum P [] = 0"
  "rem_sum P ((i, r) # xs) = (if P i then r else 0) + rem_sum P xs"
  by (simp_all add: rem_sum_def)

definition cross_sum :: "(internal_cross \<Rightarrow> bool) \<Rightarrow> internal_cross list \<Rightarrow> real" where
  "cross_sum P cs = (\<Sum>c\<leftarrow>cs. if P c then ic_qty c else 0)"

lemma cross_sum_simps [simp]:
  "cross_sum P [] = 0"
  "cross_sum P (c # cs) = (if P c then ic_qty c else 0) + cross_sum P cs"
  "cross_sum P (cs @ ds) = cross_sum P cs + cross_sum P ds"
  by (simp_all add: cross_sum_def)

text \<open>Every entry still to be matched is larger than the tolerance: true at the start, kept by the loop.\<close>

definition above :: "(cell_intent \<times> real) list \<Rightarrow> bool" where
  "above xs \<longleftrightarrow> (\<forall>x \<in> set xs. eps < snd x)"

lemma above_simps [simp]: "above []" "above (x # xs) \<longleftrightarrow> eps < snd x \<and> above xs"
  by (auto simp: above_def)

definition spent :: "(cell_intent \<times> real) list \<Rightarrow> bool" where
  "spent xs \<longleftrightarrow> (\<forall>x \<in> set xs. snd x \<le> eps)"

text \<open>
  The loop takes every quantity of a cross from one buy and one sell intent, records it, and
  stops when one side is used up to the tolerance.
\<close>

lemma cross_loop_conserves:
  assumes "above bs" "above ss" and "cross_loop sy price bs ss = (cs, bs', ss')"
  shows "rem_sum (\<lambda>i. ci_cell i \<in> A) bs =
      cross_sum (\<lambda>c. ic_buyer c \<in> A) cs + rem_sum (\<lambda>i. ci_cell i \<in> A) bs'"
    and "rem_sum (\<lambda>i. ci_cell i \<in> A) ss =
      cross_sum (\<lambda>c. ic_seller c \<in> A) cs + rem_sum (\<lambda>i. ci_cell i \<in> A) ss'"
  using assms
proof (induction sy price bs ss arbitrary: cs bs' ss' rule: cross_loop.induct)
  case (3 sy price b rb bs s rs ss)
  {
    case 1
    then show ?case using 3(1) [OF refl refl refl refl]
      by (auto simp: Let_def min_def split: prod.splits if_splits)
  next
    case 2
    then show ?case using 3(2) [OF refl refl refl refl]
      by (auto simp: Let_def min_def split: prod.splits if_splits)
  }
qed auto

lemma above_nonneg: "above xs \<Longrightarrow> \<forall>x \<in> set xs. 0 \<le> snd x"
  unfolding above_def using eps_pos(1) by (meson less_imp_le less_trans)

lemma cross_loop_shape:
  assumes "above bs" "above ss" and "cross_loop sy price bs ss = (cs, bs', ss')"
  shows "map fst bs' = map fst bs \<and> map fst ss' = map fst ss \<and>
    (\<forall>x \<in> set bs'. 0 \<le> snd x) \<and> (\<forall>x \<in> set ss'. 0 \<le> snd x) \<and> (spent bs' \<or> spent ss') \<and>
    (\<forall>c \<in> set cs. eps < ic_qty c \<and> ic_symbol c = sy \<and> ic_price c = price \<and>
      ic_buyer c \<in> ci_cell ` fst ` set bs \<and> ic_seller c \<in> ci_cell ` fst ` set ss)"
  using assms
proof (induction sy price bs ss arbitrary: cs bs' ss' rule: cross_loop.induct)
  case (1 sy price ss)
  then show ?case using above_nonneg [of ss] by (auto simp: spent_def)
next
  case (2 sy price b bs)
  then have "above bs'" by auto
  with 2 show ?case using above_nonneg [of bs'] by (auto simp: spent_def)
next
  case (3 sy price b rb bs s rs ss)
  let ?bs = "if rb - min rb rs \<le> eps then bs else (b, rb - min rb rs) # bs"
  let ?ss = "if rs - min rb rs \<le> eps then ss else (s, rs - min rb rs) # ss"
  obtain ds es fs where rec: "cross_loop sy price ?bs ?ss = (ds, es, fs)"
    by (cases "cross_loop sy price ?bs ?ss")
  have above: "above ?bs" "above ?ss" using "3.prems" by auto
  note IH = "3.IH" [OF refl refl refl refl above rec]
  have q: "eps < min rb rs" using "3.prems" by simp
  have cs: "cs = \<lparr>ic_symbol = sy, ic_buyer = ci_cell b, ic_seller = ci_cell s,
      ic_qty = min rb rs, ic_price = price\<rparr> # ds"
    and bs': "bs' = (if rb - min rb rs \<le> eps then (b, rb - min rb rs) # es else es)"
    and ss': "ss' = (if rs - min rb rs \<le> eps then (s, rs - min rb rs) # fs else fs)"
    using "3.prems"(3) rec q by (auto simp: Let_def)
  have sets: "ci_cell ` fst ` set ?bs \<subseteq> ci_cell ` fst ` set ((b, rb) # bs)"
    "ci_cell ` fst ` set ?ss \<subseteq> ci_cell ` fst ` set ((s, rs) # ss)" by auto
  have cross: "\<forall>c \<in> set cs. eps < ic_qty c \<and> ic_symbol c = sy \<and> ic_price c = price \<and>
      ic_buyer c \<in> ci_cell ` fst ` set ((b, rb) # bs) \<and>
      ic_seller c \<in> ci_cell ` fst ` set ((s, rs) # ss)"
  proof
    fix c assume "c \<in> set cs"
    then consider (head) "c = \<lparr>ic_symbol = sy, ic_buyer = ci_cell b, ic_seller = ci_cell s,
      ic_qty = min rb rs, ic_price = price\<rparr>" | (rest) "c \<in> set ds" unfolding cs by auto
    then show "eps < ic_qty c \<and> ic_symbol c = sy \<and> ic_price c = price \<and>
      ic_buyer c \<in> ci_cell ` fst ` set ((b, rb) # bs) \<and>
      ic_seller c \<in> ci_cell ` fst ` set ((s, rs) # ss)"
    proof cases
      case head
      with q show ?thesis by simp
    next
      case rest
      with IH have "eps < ic_qty c" "ic_symbol c = sy" "ic_price c = price"
        "ic_buyer c \<in> ci_cell ` fst ` set ?bs" "ic_seller c \<in> ci_cell ` fst ` set ?ss" by blast+
      with sets show ?thesis by blast
    qed
  qed
  have i: "map fst es = map fst ?bs" "map fst fs = map fst ?ss" "\<forall>x \<in> set es. 0 \<le> snd x"
    "\<forall>x \<in> set fs. 0 \<le> snd x" "spent es \<or> spent fs"
    using IH by blast+
  have "map fst bs' = map fst ((b, rb) # bs)" "map fst ss' = map fst ((s, rs) # ss)"
    using i(1,2) unfolding bs' ss' by (simp_all split: if_splits)
  moreover have "\<forall>x \<in> set bs'. 0 \<le> snd x" "\<forall>x \<in> set ss'. 0 \<le> snd x"
    using i(3,4) unfolding bs' ss' by (simp_all split: if_splits)
  moreover have "spent bs' \<or> spent ss'"
    using i(5) unfolding bs' ss' spent_def by (simp split: if_splits) 
  ultimately show ?case using cross by blast
qed

section \<open>Validation\<close>

definition sell_pairs :: "cell_intent list \<Rightarrow> ((string \<times> string) \<times> real) list" where
  "sell_pairs xs = map (\<lambda>i. ((ci_cell i, ci_symbol i), ci_qty i)) (filter (\<lambda>i. ci_side i = SELL) xs)"

lemma sell_pairs_simps [simp]:
  "sell_pairs [] = []"
  "sell_pairs (i # xs) =
    (if ci_side i = SELL then ((ci_cell i, ci_symbol i), ci_qty i) # sell_pairs xs else sell_pairs xs)"
  by (simp_all add: sell_pairs_def)

lemma validate_intents_Inr:
  "fold_res (validate_intent cells) xs (seen, d) = Inr st \<longleftrightarrow>
    distinct (map ci_id xs) \<and> set (map ci_id xs) \<inter> set seen = {} \<and>
    (\<forall>i \<in> set xs. dhas cells (ci_cell i)) \<and>
    st = (rev (map ci_id xs) @ seen, tally (sell_pairs xs) d)"
  by (induction xs arbitrary: seen d) (auto simp: validate_intent_def)

lemma sell_pairs_known:
  "\<forall>i \<in> set xs. dhas cells (ci_cell i) \<Longrightarrow> \<forall>x \<in> set (sell_pairs xs). dhas cells (fst (fst x))"
  by (auto simp: sell_pairs_def)

lemma validate_batch_ok:
  "validate_batch xs cells = Inr u \<longleftrightarrow>
    distinct (map ci_id xs) \<and> (\<forall>i \<in> set xs. dhas cells (ci_cell i)) \<and>
    (\<forall>(k, sy) \<in> fst ` set (sell_pairs xs).
       key_total (k, sy) (sell_pairs xs) \<le> cell_qty (the (dget cells k)) sy + eps)"
proof (cases "fold_res (validate_intent cells) xs ([], [])")
  case (Inl e)
  then have "\<not> (distinct (map ci_id xs) \<and> (\<forall>i \<in> set xs. dhas cells (ci_cell i)))"
    using validate_intents_Inr [of cells xs "[]" "[]"] by (metis Int_empty_right Inl_Inr_False set_empty)
  with Inl show ?thesis by (auto simp: validate_batch_def)
next
  case (Inr st)
  then have st: "distinct (map ci_id xs)" "\<forall>i \<in> set xs. dhas cells (ci_cell i)"
    "snd st = tally (sell_pairs xs) []"
    by (simp_all add: validate_intents_Inr)
  with Inr check_sells_tally_iff [OF sell_pairs_known [OF st(2)]] show ?thesis
    by (cases st) (auto simp: validate_batch_def)
qed


text \<open>What validation looks at does not depend on the order of the intents.\<close>

lemma key_total_perm: "mset xs = mset ys \<Longrightarrow> key_total k xs = key_total k ys"
  unfolding key_total_def by (rule sum_list_map_perm)

lemma validate_batch_perm:
  assumes "mset xs = mset ys"
  shows "is_ok (validate_batch xs cells) = is_ok (validate_batch ys cells)"
proof -
  have "mset (sell_pairs xs) = mset (sell_pairs ys)"
    using assms by (simp add: sell_pairs_def)
  then have "key_total k (sell_pairs xs) = key_total k (sell_pairs ys)" for k
    by (rule key_total_perm)
  moreover have "set (sell_pairs xs) = set (sell_pairs ys)" by (rule mset_eq_setD) fact
  moreover have "set xs = set ys" using assms by (rule mset_eq_setD)
  moreover have "distinct (map ci_id xs) = distinct (map ci_id ys)"
    by (rule mset_eq_imp_distinct_iff) (simp add: assms)
  ultimately have "(validate_batch xs cells = Inr ()) = (validate_batch ys cells = Inr ())"
    by (simp add: validate_batch_ok)
  then show ?thesis by (auto simp: is_ok_def split: sum.splits)
qed

section \<open>Grouping\<close>

lemma dget_group:
  "dget (group_by_symbol xs d) sy =
    (if sy \<in> ci_symbol ` set xs then Some (dget_or d sy [] @ filter (\<lambda>i. ci_symbol i = sy) xs)
     else dget d sy)"
proof (induction xs arbitrary: d)
  case Nil
  then show ?case by simp
next
  case (Cons i xs)
  have "filter (\<lambda>i. ci_symbol i = sy) xs = []" if "sy \<notin> ci_symbol ` set xs"
    using that by (auto simp: filter_empty_conv)
  then show ?case using Cons by (auto simp: dict_simps dget_or_def)
qed

lemma net_all_Inr:
  assumes "net_all p d = Inr n"
  shows "dget n sy = (case dget d sy of None \<Rightarrow> None
    | Some is \<Rightarrow> (case net_symbol p sy is of Inl _ \<Rightarrow> None | Inr r \<Rightarrow> Some r))"
    and "dkeys n = dkeys d"
  using assms
  by (induction p d arbitrary: n rule: net_all.induct) (auto simp: dkeys_def split: sum.splits)

lemma net_all_ok:
  "(\<forall>(sy, is) \<in> set d. is_ok (net_symbol p sy is)) \<Longrightarrow> \<exists>n. net_all p d = Inr n"
  by (induction p d rule: net_all.induct) (auto simp: is_ok_def split: sum.splits)

section \<open>What a symbol's result accounts for\<close>

text \<open>What the intents of one side and of the cells \<open>A\<close> ask for, and what crosses give them.\<close>

definition asked :: "action \<Rightarrow> string set \<Rightarrow> cell_intent list \<Rightarrow> real" where
  "asked side A xs = (\<Sum>i\<leftarrow>xs. if ci_side i = side \<and> ci_cell i \<in> A then ci_qty i else 0)"

definition crossed :: "action \<Rightarrow> string set \<Rightarrow> internal_cross list \<Rightarrow> real" where
  "crossed side A cs =
     cross_sum (\<lambda>c. (if side = BUY then ic_buyer c else ic_seller c) \<in> A) cs"

definition side_list :: "action \<Rightarrow> cell_intent list \<Rightarrow> (cell_intent \<times> real) list" where
  "side_list side xs = map (\<lambda>i. (i, ci_qty i)) (sort_key ci_id (filter (\<lambda>i. ci_side i = side) xs))"

lemma sum_list_filter_if:
  fixes f :: "'a \<Rightarrow> real"
  shows "sum_list (map f (filter P xs)) = (\<Sum>x\<leftarrow>xs. if P x then f x else 0)"
  by (induction xs) auto

lemma rem_sum_side_list:
  "rem_sum (\<lambda>i. ci_cell i \<in> A) (side_list side xs) = asked side A xs"
  by (simp add: rem_sum_def side_list_def asked_def comp_def sum_list_filter_if split_def)
    (rule arg_cong [where f = sum_list], rule map_cong, auto)

lemma above_side_list: "\<forall>i \<in> set xs. eps < ci_qty i \<Longrightarrow> above (side_list side xs)"
  by (auto simp: above_def side_list_def)

lemma side_list_sides:
  assumes "map fst ys = map fst (side_list side xs)"
  shows "\<forall>x \<in> set ys. ci_side (fst x) = side"
proof
  fix x assume "x \<in> set ys"
  then have "fst x \<in> set (map fst ys)" by simp
  then show "ci_side (fst x) = side" unfolding assms by (auto simp: side_list_def)
qed

lemma length_sides: "length (side_list BUY xs) + length (side_list SELL xs) = length xs"
proof (induction xs)
  case (Cons i xs)
  then show ?case by (cases "ci_side i") (simp_all add: side_list_def)
qed (simp add: side_list_def)

text \<open>What is kept of the leftovers of one side.\<close>

definition kept :: "(cell_intent \<times> real) list \<Rightarrow> cell_intent list" where
  "kept xs = map (\<lambda>(i, r). i\<lparr>ci_qty := r\<rparr>) (filter (\<lambda>(i, r). eps < r) xs)"

lemma kept_simps [simp]:
  "kept [] = []"
  "kept ((i, r) # xs) = (if eps < r then i\<lparr>ci_qty := r\<rparr> # kept xs else kept xs)"
  by (simp_all add: kept_def)

lemma asked_simps [simp]:
  "asked side A [] = 0"
  "asked side A (i # xs) =
    (if ci_side i = side \<and> ci_cell i \<in> A then ci_qty i else 0) + asked side A xs"
  by (simp_all add: asked_def)

lemma eps_grow: "a \<le> b \<Longrightarrow> a \<le> eps + b"
  by (simp add: add_increasing)


lemma asked_kept:
  assumes "\<forall>x \<in> set xs. ci_side (fst x) = side \<and> 0 \<le> snd x"
  shows "asked side A (kept xs) \<le> rem_sum (\<lambda>i. ci_cell i \<in> A) xs"
    and "rem_sum (\<lambda>i. ci_cell i \<in> A) xs \<le> asked side A (kept xs) + real (length xs) * eps"
    and "side' \<noteq> side \<Longrightarrow> asked side' A (kept xs) = 0"
    and "(\<Sum>i\<leftarrow>kept xs. ci_qty i) = asked side UNIV (kept xs)"
    and "0 \<le> asked side A (kept xs)"
  using assms by (induction xs) (auto simp: algebra_simps intro: eps_grow)

lemma rem_sum_bounds:
  assumes "\<forall>x \<in> set xs. 0 \<le> snd x"
  shows "0 \<le> rem_sum P xs" and "rem_sum P xs \<le> rem_sum (\<lambda>_. True) xs"
    and "spent xs \<Longrightarrow> rem_sum P xs \<le> real (length xs) * eps"
  using assms by (induction xs) (auto simp: spent_def algebra_simps)

text \<open>
  The side that does not get the broker order is used up: what is left of it in total is dust.
\<close>

lemma other_side_dust:
  assumes "\<forall>x \<in> set bs. 0 \<le> snd x" "\<forall>x \<in> set ss. 0 \<le> snd x" and "spent bs \<or> spent ss"
    and "rem_sum (\<lambda>_. True) bs - rem_sum (\<lambda>_. True) ss \<le> eps"
  shows "rem_sum P bs \<le> real (length bs + length ss) * eps"
proof (cases "spent bs")
  case True
  then have "rem_sum P bs \<le> real (length bs) * eps" by (rule rem_sum_bounds(3) [OF assms(1)])
  then show ?thesis by (simp add: distrib_right add_increasing2)
next
  case False
  then have "bs \<noteq> []" by (auto simp: spent_def)
  then have "eps \<le> real (length bs) * eps"
    using mult_right_mono [of 1 "real (length bs)" eps] by (simp add: Suc_le_eq)
  moreover have "rem_sum (\<lambda>_. True) ss \<le> real (length ss) * eps"
    using False assms(3) rem_sum_bounds(3) [OF assms(2)] by blast
  ultimately show ?thesis
    using assms(4) rem_sum_bounds(2) [OF assms(1), of P]
    unfolding of_nat_add distrib_right by linarith
qed

definition net_of :: "string \<Rightarrow> cell_intent list \<Rightarrow> internal_cross list \<Rightarrow>
    (cell_intent \<times> real) list \<Rightarrow> (cell_intent \<times> real) list \<Rightarrow> symbol_net" where
  "net_of sy xs cs bs' ss' =
     (let net_qty = asked BUY UNIV xs - asked SELL UNIV xs;
          net_side = (if eps < net_qty then Some BUY
                      else if net_qty < - eps then Some SELL else None)
      in \<lparr>sn_symbol = sy, sn_gross_buy = asked BUY UNIV xs, sn_gross_sell = asked SELL UNIV xs,
           sn_cross_qty = (\<Sum>c\<leftarrow>cs. ic_qty c), sn_side = net_side, sn_qty = \<bar>net_qty\<bar>,
           sn_crosses = cs, sn_contributing = xs,
           sn_residual = kept (if net_side = Some BUY then bs' else ss')\<rparr>)"

lemma gross_asked:
  "(\<Sum>i\<leftarrow>sort_key ci_id (filter (\<lambda>i. ci_side i = side) xs). ci_qty i) = asked side UNIV xs"
  by (simp add: asked_def sum_list_filter_if)

lemma net_symbol_eq:
  assumes "cross_loop sy (p sy) (side_list BUY xs) (side_list SELL xs) = (cs, bs', ss')"
  shows "net_symbol p sy xs = mk_symbol_net (net_of sy xs cs bs' ss')"
  unfolding net_symbol_def net_of_def Let_def gross_asked kept_def side_list_def [symmetric]
    assms prod.case ..

text \<open>
  Completeness of one symbol's result: for every side and every set of cells, what the intents
  asked for is crossed or owed by the broker order, up to one tolerance per intent.
\<close>

lemma net_symbol_complete:
  assumes big: "\<forall>i \<in> set xs. eps < ci_qty i" and few: "length xs \<le> 1000"
    and loop: "cross_loop sy (p sy) (side_list BUY xs) (side_list SELL xs) = (cs, bs', ss')"
    and r: "r = net_of sy xs cs bs' ss'"
  shows "net_symbol p sy xs = Inr r"
    and "crossed side A cs + asked side A (sn_residual r) \<le> asked side A xs"
    and "asked side A xs \<le>
      crossed side A cs + asked side A (sn_residual r) + real (length xs) * eps"
proof -
  note ab = above_side_list [OF big]
  note shape = cross_loop_shape [OF ab ab loop]
  have bsh: "map fst bs' = map fst (side_list BUY xs)" and ssh: "map fst ss' = map fst (side_list SELL xs)"
    and nn: "\<forall>x \<in> set bs'. 0 \<le> snd x" "\<forall>x \<in> set ss'. 0 \<le> snd x" and sp: "spent bs' \<or> spent ss'"
    using shape by blast+
  have cons: "asked BUY A xs = crossed BUY A cs + rem_sum (\<lambda>i. ci_cell i \<in> A) bs'"
    "asked SELL A xs = crossed SELL A cs + rem_sum (\<lambda>i. ci_cell i \<in> A) ss'" for A
    using cross_loop_conserves [OF ab ab loop, of A] by (simp_all add: rem_sum_side_list crossed_def)
  have len: "length bs' + length ss' = length xs"
    using length_sides [of xs] map_eq_imp_length_eq [OF bsh] map_eq_imp_length_eq [OF ssh] by simp
  have sides: "\<forall>x \<in> set bs'. ci_side (fst x) = BUY \<and> 0 \<le> snd x"
    "\<forall>x \<in> set ss'. ci_side (fst x) = SELL \<and> 0 \<le> snd x"
    using nn side_list_sides [OF bsh] side_list_sides [OF ssh] by blast+
  let ?b = "rem_sum (\<lambda>_. True) bs'" and ?s = "rem_sum (\<lambda>_. True) ss'"
  let ?n = "asked BUY UNIV xs - asked SELL UNIV xs" and ?d = "real (length xs) * eps"
  have net: "?n = ?b - ?s" using cons [of UNIV] by (simp add: crossed_def)
  have bdust: "rem_sum P bs' \<le> ?d" if "?n \<le> eps" for P
    using other_side_dust [OF nn sp, of P] that net len by simp
  have sdust: "rem_sum P ss' \<le> ?d" if "- eps \<le> ?n" for P
    using other_side_dust [OF nn(2,1) disj_commute [THEN iffD1, OF sp], of P] that net len
    by (simp add: add.commute)
  have part: "real (length bs') * eps \<le> ?d" "real (length ss') * eps \<le> ?d"
    unfolding len [symmetric] by (simp_all add: distrib_right)
  note kb = asked_kept [OF sides(1)] and ks = asked_kept [OF sides(2)]
  note bb = rem_sum_bounds [OF nn(1)] and sb = rem_sum_bounds [OF nn(2)]
  have res: "sn_residual r = kept (if eps < ?n then bs' else ss')"
    using r by (simp add: net_of_def Let_def)
  have B: "asked BUY A (sn_residual r) \<le> rem_sum (\<lambda>i. ci_cell i \<in> A) bs' \<and>
      rem_sum (\<lambda>i. ci_cell i \<in> A) bs' \<le> asked BUY A (sn_residual r) + ?d \<and>
      asked SELL A (sn_residual r) \<le> rem_sum (\<lambda>i. ci_cell i \<in> A) ss' \<and>
      rem_sum (\<lambda>i. ci_cell i \<in> A) ss' \<le> asked SELL A (sn_residual r) + ?d" for A
  proof (cases "eps < ?n")
    case True
    then have "- eps \<le> ?n" using eps_pos(1) by linarith
    note d = sdust [OF this, of "\<lambda>i. ci_cell i \<in> A"]
    have rr: "sn_residual r = kept bs'" using res True by simp
    have "asked SELL A (kept bs') = 0" by (rule kb(3)) simp
    then show ?thesis
      unfolding rr using kb(1,2) [of A] d sb(1) [of "\<lambda>i. ci_cell i \<in> A"] part by linarith
  next
    case False
    then have n: "?n \<le> eps" by simp
    note d = bdust [OF n, of "\<lambda>i. ci_cell i \<in> A"]
    have rr: "sn_residual r = kept ss'" using res False by simp
    have "asked BUY A (kept ss') = 0" by (rule ks(3)) simp
    then show ?thesis
      unfolding rr using ks(1,2) [of A] d bb(1) [of "\<lambda>i. ci_cell i \<in> A"] part by linarith
  qed
  show "crossed side A cs + asked side A (sn_residual r) \<le> asked side A xs"
    "asked side A xs \<le> crossed side A cs + asked side A (sn_residual r) + ?d"
    using B [of A] cons [of A] by (cases side; simp)+
  have "?d \<le> 1000 * eps" using few by (intro mult_right_mono) simp_all
  then have d6: "?d \<le> eps6" by (simp add: eps_def eps6_def)
  have one: "eps \<le> ?d" if "0 < ?n"
  proof -
    have "xs \<noteq> []" using that by auto
    then show ?thesis
      using mult_right_mono [of 1 "real (length xs)" eps] by (simp add: Suc_le_eq)
  qed
  have "\<bar>(\<Sum>i\<leftarrow>sn_residual r. ci_qty i) - \<bar>?n\<bar>\<bar> \<le> ?d"
  proof (cases "eps < ?n")
    case True
    then have "(\<Sum>i\<leftarrow>sn_residual r. ci_qty i) = asked BUY UNIV (kept bs')"
      using res kb(4) by simp
    moreover have n: "- eps \<le> ?n" using True eps_pos(1) by linarith
    moreover note kb(1,2) [of UNIV, simplified] sdust [OF n, of "\<lambda>_. True"]
      sb(1) [of "\<lambda>_. True"] part
    moreover have a: "\<bar>?n\<bar> = ?n" using True eps_pos(1) by linarith
    ultimately show ?thesis unfolding a abs_le_iff using True net by linarith
  next
    case False
    then have n: "?n \<le> eps" by simp
    have x: "(\<Sum>i\<leftarrow>sn_residual r. ci_qty i) = asked SELL UNIV (kept ss')"
      using res ks(4) False by simp
    have "0 \<le> ?d" by simp
    then have "?n \<le> ?d" using one n by (cases "0 < ?n") linarith+
    then show ?thesis
      unfolding x using ks(1,2,5) [of UNIV, simplified] bdust [OF n, of "\<lambda>_. True"]
        bb(1) [of "\<lambda>_. True"] part net by linarith
  qed
  with d6 have "\<bar>(\<Sum>i\<leftarrow>sn_residual r. ci_qty i) - \<bar>?n\<bar>\<bar> \<le> eps6" by linarith
  moreover have "sn_qty r = \<bar>?n\<bar>" using r by (simp add: net_of_def Let_def)
  ultimately show "net_symbol p sy xs = Inr r"
    using net_symbol_eq [of sy p xs cs bs' ss', OF loop] r by (simp add: mk_symbol_net_def Let_def)
qed


lemma net_of_simps [simp]:
  "sn_crosses (net_of sy xs cs bs' ss') = cs"
  "sn_gross_buy (net_of sy xs cs bs' ss') = asked BUY UNIV xs"
  "sn_gross_sell (net_of sy xs cs bs' ss') = asked SELL UNIV xs"
  "sn_qty (net_of sy xs cs bs' ss') = \<bar>asked BUY UNIV xs - asked SELL UNIV xs\<bar>"
  "sn_symbol (net_of sy xs cs bs' ss') = sy"
  by (simp_all add: net_of_def Let_def)

lemma net_dget:
  assumes "net p xs cells = Inr n"
  shows "dget n sy = (if sy \<in> ci_symbol ` set xs
    then case net_symbol p sy (filter (\<lambda>i. ci_symbol i = sy) xs) of Inl _ \<Rightarrow> None | Inr r \<Rightarrow> Some r
    else None)"
proof -
  from assms have "net_all p (group_by_symbol xs []) = Inr n"
    by (auto simp: net_def split: sum.splits)
  from net_all_Inr(1) [OF this, of sy] show ?thesis by (simp add: dget_group dget_or_def)
qed


lemma group_dict_ok: "dict_ok d \<Longrightarrow> dict_ok (group_by_symbol xs d)"
  by (induction xs d rule: group_by_symbol.induct) auto

lemma net_succeeds_iff:
  "is_ok (net p xs cells) \<longleftrightarrow> is_ok (validate_batch xs cells) \<and>
    (\<forall>sy \<in> ci_symbol ` set xs. is_ok (net_symbol p sy (filter (\<lambda>i. ci_symbol i = sy) xs)))"
proof -
  have entry: "(sy, is) \<in> set (group_by_symbol xs []) \<longleftrightarrow>
      sy \<in> ci_symbol ` set xs \<and> is = filter (\<lambda>i. ci_symbol i = sy) xs" for sy "is"
    using in_set_dget [OF group_dict_ok [OF dict_ok_Nil, of xs], of sy "is"]
    by (auto simp: dget_group dget_or_def split: if_splits)
  have entry': "e \<in> set (group_by_symbol xs []) \<longleftrightarrow>
      e \<in> (\<lambda>sy. (sy, filter (\<lambda>i. ci_symbol i = sy) xs)) ` ci_symbol ` set xs" for e
    using entry by (cases e) auto
  have all: "is_ok (net_all p d) \<longleftrightarrow> (\<forall>(sy, is) \<in> set d. is_ok (net_symbol p sy is))" for d
    by (induction p d rule: net_all.induct) (fastforce simp: is_ok_def split: sum.splits)+
  have "is_ok (net_all p (group_by_symbol xs [])) \<longleftrightarrow>
      (\<forall>sy \<in> ci_symbol ` set xs. is_ok (net_symbol p sy (filter (\<lambda>i. ci_symbol i = sy) xs)))"
    unfolding all set_eqI [of "set (group_by_symbol xs [])", OF entry'] by simp
  then show ?thesis by (auto simp: net_def is_ok_def split: sum.splits)
qed

text \<open>The result of a symbol without the intents that contributed to it.\<close>

definition plan_of :: "symbol_net \<Rightarrow> symbol_net" where
  "plan_of r = r\<lparr>sn_contributing := []\<rparr>"

lemma side_list_perm:
  assumes "mset xs = mset ys" and "distinct (map ci_id xs)"
  shows "side_list side xs = side_list side ys"
proof -
  have "inj_on ci_id (set (filter (\<lambda>i. ci_side i = side) xs))"
    using assms(2) by (auto simp: distinct_map intro: inj_on_subset)
  moreover have "mset (filter (\<lambda>i. ci_side i = side) xs) = mset (filter (\<lambda>i. ci_side i = side) ys)"
    using assms(1) by (metis mset_filter)
  ultimately have "sort_key ci_id (filter (\<lambda>i. ci_side i = side) xs) =
      sort_key ci_id (filter (\<lambda>i. ci_side i = side) ys)" by (intro sort_key_perm_unique)
  then show ?thesis by (simp add: side_list_def)
qed

lemma asked_perm: "mset xs = mset ys \<Longrightarrow> asked side A xs = asked side A ys"
  unfolding asked_def by (rule sum_list_map_perm)

lemma net_symbol_perm:
  assumes "mset xs = mset ys" and "distinct (map ci_id xs)"
  shows "map_sum id plan_of (net_symbol p sy xs) = map_sum id plan_of (net_symbol p sy ys)"
proof -
  obtain cs bs' ss' where
    l: "cross_loop sy (p sy) (side_list BUY xs) (side_list SELL xs) = (cs, bs', ss')"
    by (cases "cross_loop sy (p sy) (side_list BUY xs) (side_list SELL xs)")
  then have "cross_loop sy (p sy) (side_list BUY ys) (side_list SELL ys) = (cs, bs', ss')"
    by (simp add: side_list_perm [OF assms])
  with l show ?thesis
    by (auto simp: net_symbol_eq mk_symbol_net_def plan_of_def net_of_def Let_def
        asked_perm [OF assms(1)])
qed

section \<open>Properties of netting\<close>






text \<open>
  C23. Netting is deterministic: the outcome does not depend on the order in which the intents
  are given. A permutation of an accepted batch is accepted, and every symbol gets the same
  crosses, the same broker order and the same residual intents.
\<close>

theorem netting_is_deterministic:
  assumes "mset xs = mset ys" and "net p xs cells = Inr n"
  shows "\<exists>m. net p ys cells = Inr m \<and>
    (\<forall>sy. map_option plan_of (dget m sy) = map_option plan_of (dget n sy))"
proof -
  have d: "distinct (map ci_id xs)"
    using assms(2) by (auto simp: net_def validate_batch_ok split: sum.splits)
  let ?f = "\<lambda>sy zs. filter (\<lambda>i. ci_symbol i = sy) zs"
  have perm: "mset (?f sy xs) = mset (?f sy ys)" for sy using assms(1) by (metis mset_filter)
  have dd: "distinct (map ci_id (?f sy xs))" for sy using d by (rule distinct_map_filter)
  have same: "map_sum id plan_of (net_symbol p sy (?f sy xs)) =
      map_sum id plan_of (net_symbol p sy (?f sy ys))" for sy
    by (rule net_symbol_perm [OF perm dd])
  have ok: "is_ok (net_symbol p sy (?f sy xs)) = is_ok (net_symbol p sy (?f sy ys))" for sy
    using same [of sy]
    by (cases "net_symbol p sy (?f sy xs)"; cases "net_symbol p sy (?f sy ys)") auto
  have set: "set xs = set ys" using assms(1) by (rule mset_eq_setD)
  have "is_ok (net p ys cells)"
    using assms(2) net_succeeds_iff [of p xs cells] net_succeeds_iff [of p ys cells]
      validate_batch_perm [OF assms(1)] ok set by simp
  then obtain m where m: "net p ys cells = Inr m" by (auto simp: is_ok_def split: sum.splits)
  have "map_option plan_of (dget m sy) = map_option plan_of (dget n sy)" for sy
    using same [of sy] by (auto simp: net_dget [OF m] net_dget [OF assms(2)] set split: sum.splits)
  with m show ?thesis by blast
qed

section \<open>Applying crosses\<close>

definition cross_pairs :: "internal_cross list \<Rightarrow> ((string \<times> string) \<times> real) list" where
  "cross_pairs cs = map (\<lambda>c. ((ic_seller c, ic_symbol c), ic_qty c)) cs"

definition cash_pairs :: "internal_cross list \<Rightarrow> (string \<times> real) list" where
  "cash_pairs cs = concat (map (\<lambda>c. [(ic_buyer c, - (ic_qty c * ic_price c)),
     (ic_seller c, ic_qty c * ic_price c)]) cs)"

lemma pairs_simps [simp]:
  "cross_pairs [] = []" "cross_pairs (c # cs) = ((ic_seller c, ic_symbol c), ic_qty c) # cross_pairs cs"
  "cash_pairs [] = []" "cash_pairs (c # cs) = (ic_buyer c, - (ic_qty c * ic_price c)) #
     (ic_seller c, ic_qty c * ic_price c) # cash_pairs cs"
  by (simp_all add: cross_pairs_def cash_pairs_def)

lemma validate_cross_fold:
  "fold_res (validate_cross cells) cs (a, b) =
    (if \<forall>c \<in> set cs. dhas cells (ic_buyer c) \<and> dhas cells (ic_seller c)
     then Inr (tally (cross_pairs cs) a, tally (cash_pairs cs) b) else Inl UnknownCellError)"
  by (induction cs arbitrary: a b) (auto simp: validate_cross_def Let_def)

text \<open>A batch of crosses passes validation exactly when each of these holds, in this order.\<close>

lemma validate_crosses_cases:
  "validate_crosses cells n =
    (let cs = all_crosses n in
     if \<not> (\<forall>c \<in> set cs. dhas cells (ic_buyer c) \<and> dhas cells (ic_seller c))
     then Inl UnknownCellError
     else if \<not> (\<forall>(k, sy) \<in> fst ` set (cross_pairs cs).
         key_total (k, sy) (cross_pairs cs) \<le> cell_qty (the (dget cells k)) sy + eps)
     then Inl CellShortSellError
     else if \<not> (\<forall>k \<in> fst ` set (cash_pairs cs).
         - eps \<le> cl_cash (the (dget cells k)) + key_total k (cash_pairs cs))
     then Inl CellOverdrawError
     else Inr ())"
proof (cases "\<forall>c \<in> set (all_crosses n). dhas cells (ic_buyer c) \<and> dhas cells (ic_seller c)")
  case True
  then have "\<forall>x \<in> set (cross_pairs (all_crosses n)). dhas cells (fst (fst x))"
    "\<forall>x \<in> set (cash_pairs (all_crosses n)). dhas cells (fst x)"
    by (auto simp: cross_pairs_def cash_pairs_def)
  from check_sells_tally_iff [OF this(1)] check_cash_tally_iff [OF this(2)] True show ?thesis
    by (simp add: validate_crosses_def validate_cross_fold Let_def)
next
  case False
  then show ?thesis
    by (simp only: validate_crosses_def validate_cross_fold Let_def if_False sum.case
        not_False_eq_True if_True)
qed

text \<open>The legs of the crosses as legs of the cells.\<close>

definition cross_sells :: "internal_cross list \<Rightarrow> leg list" where
  "cross_sells cs = map (\<lambda>c. (ic_seller c, ic_symbol c, - ic_qty c, ic_price c, 0)) cs"

definition cross_buys :: "internal_cross list \<Rightarrow> leg list" where
  "cross_buys cs = map (\<lambda>c. (ic_buyer c, ic_symbol c, ic_qty c, ic_price c, 0)) cs"

lemma for_each_map: "for_each f (map g xs) s = for_each (\<lambda>x. f (g x)) xs s"
  by (induction xs arbitrary: s) (auto split: prod.splits sum.splits)

lemma for_each_append:
  "for_each f (xs @ ys) s =
     (case for_each f xs s of (Inl e, t) \<Rightarrow> (Inl e, t) | (Inr _, t) \<Rightarrow> for_each f ys t)"
  by (induction xs arbitrary: s) (auto split: prod.splits sum.splits)

lemma post_cross_legs:
  "for_each (post_cross a_t) (sell_legs cs @ buy_legs cs) cells =
   for_each (post_leg INTERNAL_CROSS a_t) (cross_sells cs @ cross_buys cs) cells"
  by (simp only: for_each_append sell_legs_def buy_legs_def cross_sells_def cross_buys_def
      for_each_map post_cross_def post_leg_def record_internal_cross_def prod.case)

lemma legs_of_cross:
  "legs_of k (cross_sells cs) =
     map (\<lambda>c. (ic_symbol c, - ic_qty c, ic_price c, 0)) (filter (\<lambda>c. ic_seller c = k) cs)"
  "legs_of k (cross_buys cs) =
     map (\<lambda>c. (ic_symbol c, ic_qty c, ic_price c, 0)) (filter (\<lambda>c. ic_buyer c = k) cs)"
  by (simp_all add: legs_of_def cross_sells_def cross_buys_def filter_map comp_def)

lemma sold_cross: "cell_book.sold (legs_of k (cross_sells cs)) sy = key_total (k, sy) (cross_pairs cs)"
  unfolding legs_of_cross by (induction cs) (auto simp: cell_book.sold_def)

lemma cost_cross:
  "cell_book.cost (legs_of k (cross_sells cs @ cross_buys cs)) = - key_total k (cash_pairs cs)"
  unfolding legs_of_simps(3) legs_of_cross by (induction cs) (auto simp: cell_book.cost_def)

lemma legs_cross_totals:
  "legs_cash (cross_sells cs @ cross_buys cs) = 0"
  "legs_qty s (cross_sells cs @ cross_buys cs) = 0"
  "length (cross_sells cs @ cross_buys cs) = 2 * length cs"
  by (induction cs) (auto simp: cross_sells_def cross_buys_def)

text \<open>
  C24. Applying crosses is all or nothing and neutral for the account. A batch that fails its
  validation changes no cell; a batch that passes it, with no cross as small as 2e-9 shares and
  no negative price, goes through completely: the virtual cash of all cells together is what it
  was, and so are the shares of every symbol up to the tolerance per leg.
\<close>

theorem crosses_are_neutral:
  assumes "cells_ok cells" and "apply_crosses_to_cells n (Aware t) cells = (r, cells')"
    and "\<forall>c \<in> set (all_crosses n). 2 * eps < ic_qty c \<and> 0 \<le> ic_price c"
  shows "r = validate_crosses cells n \<and> cells_ok cells' \<and>
    cells_cash cells' = cells_cash cells \<and>
    \<bar>cells_qty cells' s - cells_qty cells s\<bar> \<le> 2 * real (length (all_crosses n)) * eps \<and>
    (\<not> is_ok r \<longrightarrow> cells' = cells)"
proof (cases "validate_crosses cells n")
  case (Inl e)
  then show ?thesis using assms(1,2) by (auto simp: apply_crosses_to_cells_def)
next
  case (Inr u)
  let ?cs = "all_crosses n"
  let ?legs = "cross_sells ?cs @ cross_buys ?cs"
  from Inr have v: "\<forall>c \<in> set ?cs. dhas cells (ic_buyer c) \<and> dhas cells (ic_seller c)"
    "check_sells cells (tally (cross_pairs ?cs) []) = Inr ()"
    "check_cash cells (tally (cash_pairs ?cs) []) = Inr ()"
    by (auto simp: validate_crosses_def validate_cross_fold split: if_splits sum.splits)
  have k1: "\<forall>x \<in> set (cross_pairs ?cs). dhas cells (fst (fst x))"
    and k2: "\<forall>x \<in> set (cash_pairs ?cs). dhas cells (fst x)"
    using v(1) by (auto simp: cross_pairs_def cash_pairs_def)
  have pos: "\<forall>c \<in> set ?cs. 0 < ic_qty c \<and> 0 \<le> ic_qty c"
    using assms(3) above_eps(3) less_imp_le by blast
  have leg: "\<forall>x \<in> set (cross_sells ?cs). sale_leg (snd x)"
    "\<forall>x \<in> set (cross_buys ?cs). purchase_leg (snd x)" "\<forall>x \<in> set ?legs. leg_sane x"
    using assms(3) pos
    by (auto simp: cross_sells_def cross_buys_def sale_leg_def purchase_leg_def leg_sane_def
        intro!: mult_nonneg_nonneg)
  have "\<forall>x \<in> set ?legs. dhas cells (fst x)"
    using v(1) by (auto simp: cross_sells_def cross_buys_def)
  moreover have "cell_book.sold (legs_of k (cross_sells ?cs)) sy \<le> cell_qty l sy + eps"
    if "dget cells k = Some l" for k l sy
    unfolding sold_cross by (rule check_sells_tally [OF v(2) k1 assms(1) that])
  moreover have "cell_book.cost (legs_of k ?legs) \<le> cl_cash l + eps"
    if "dget cells k = Some l" for k l
    unfolding cost_cross using check_cash_tally [OF v(3) k2 assms(1) that] by simp
  ultimately obtain ds where ds: "for_each (post_leg INTERNAL_CROSS (Aware t)) ?legs cells = (Inr (), ds)"
    using post_batch_succeeds [OF assms(1) leg(1,2)] by blast
  then have r: "r = Inr ()" "cells' = ds"
    using assms(2) Inr by (simp_all add: apply_crosses_to_cells_def post_cross_legs)
  note tot = post_all_totals [OF assms(1) leg(3) ds, of s, unfolded legs_cross_totals]
  with r Inr show ?thesis by auto
qed

text \<open>Two cells, one of which holds five shares, and a batch of two intents.\<close>

definition demo_cells :: cells where
  "demo_cells = [(''a'', fold (cell_step 0)
      [COpAllocate 100 None, COpFill ''X'' 5 1 0 (Aware 0)] (mk_cell_ledger ''a'')),
    (''b'', demo_cell ''b'' 100)]"

lemma demo_cells_ok: "cells_ok demo_cells"
proof -
  have "cell_inv (fold (cell_step 0) [COpAllocate 100 None, COpFill ''X'' 5 1 0 (Aware 0)]
      (mk_cell_ledger ''a''))" "cell_inv (demo_cell ''b'' 100)"
    unfolding demo_cell_def by (rule cell_run_inv; simp)+
  then show ?thesis by (auto simp: cells_ok_def demo_cells_def)
qed

lemma demo_cells_simps:
  "dhas demo_cells ''a''" "dhas demo_cells ''b''" "cell_qty (the (dget demo_cells ''a'')) ''X'' = 5"
  "cl_cash (the (dget demo_cells ''a'')) = 95" "cl_cash (the (dget demo_cells ''b'')) = 100"
proof -
  have "\<not> 95 < - eps" "\<not> 100 < - eps" using eps_pos(1) by linarith+
  then show "dhas demo_cells ''a''" "dhas demo_cells ''b''"
    "cell_qty (the (dget demo_cells ''a'')) ''X'' = 5"
    "cl_cash (the (dget demo_cells ''a'')) = 95" "cl_cash (the (dget demo_cells ''b'')) = 100"
    by (simp_all add: demo_cells_def demo_cell_def dhas_def allocate_cash_def at_or_now_def
        mk_cell_ledger_def record_broker_fill_def apply_fill_eq fill_lot_def cell_filled_def
        cell_qty_def qty_of_def Let_def)
qed

definition demo_intent :: "string \<Rightarrow> string \<Rightarrow> action \<Rightarrow> real \<Rightarrow> cell_intent" where
  "demo_intent i c side q = \<lparr>ci_id = i, ci_cell = c, ci_symbol = ''X'', ci_side = side, ci_qty = q,
     ci_created = 0\<rparr>"

definition demo_batch :: "cell_intent list" where
  "demo_batch = [demo_intent ''i1'' ''a'' SELL 5, demo_intent ''i2'' ''b'' BUY 3]"

lemma demo_big: "\<forall>i \<in> set demo_batch. eps < ci_qty i"
  by (simp add: demo_batch_def demo_intent_def eps_def)

lemma demo_net_ok: "is_ok (net (\<lambda>_. 2) demo_batch demo_cells)"
proof -
  have "5 \<le> 5 + eps" by simp
  then have "validate_batch demo_batch demo_cells = Inr ()"
    by (simp add: validate_batch_ok demo_batch_def demo_intent_def demo_cells_simps)
  moreover have "ci_symbol ` set demo_batch = {''X''}"
    "filter (\<lambda>i. ci_symbol i = ''X'') demo_batch = demo_batch"
    by (simp_all add: demo_batch_def demo_intent_def)
  moreover have "is_ok (net_symbol (\<lambda>_. 2) ''X'' demo_batch)"
  proof -
    obtain cs bs' ss' where "cross_loop ''X'' ((\<lambda>_. 2) ''X'') (side_list BUY demo_batch)
        (side_list SELL demo_batch) = (cs, bs', ss')" by (metis prod_cases3)
    from net_symbol_complete(1) [where p = "\<lambda>_. 2", OF demo_big _ this refl] show ?thesis
      by (simp add: demo_batch_def)
  qed
  ultimately show ?thesis unfolding net_succeeds_iff by simp
qed


lemma netting_is_deterministic_witness:
  "\<exists>n m. net (\<lambda>_. 2) demo_batch demo_cells = Inr n \<and> net (\<lambda>_. 2) (rev demo_batch) demo_cells = Inr m \<and>
    map_option plan_of (dget m ''X'') = map_option plan_of (dget n ''X'')"
proof -
  obtain n where n: "net (\<lambda>_. 2) demo_batch demo_cells = Inr n"
    using demo_net_ok by (auto simp: is_ok_def split: sum.splits)
  have "mset demo_batch = mset (rev demo_batch)" by simp
  from netting_is_deterministic [OF this n] n show ?thesis by blast
qed

definition cross_x :: "real \<Rightarrow> internal_cross" where
  "cross_x q = \<lparr>ic_symbol = ''X'', ic_buyer = ''b'', ic_seller = ''a'', ic_qty = q, ic_price = 1\<rparr>"

definition only_crosses :: "internal_cross list \<Rightarrow> netting" where
  "only_crosses cs = [(''X'', \<lparr>sn_symbol = ''X'', sn_gross_buy = 0, sn_gross_sell = 0,
     sn_cross_qty = 0, sn_side = None, sn_qty = 0, sn_crosses = cs, sn_contributing = [],
     sn_residual = []\<rparr>)]"

lemma crosses_are_neutral_witness:
  "let (r, cells') = apply_crosses_to_cells (only_crosses [cross_x 3]) (Aware 0) demo_cells
   in is_ok r \<and> cells_cash cells' = cells_cash demo_cells"
proof -
  let ?n = "only_crosses [cross_x 3]"
  have ac: "all_crosses ?n = [cross_x 3]" by (simp add: all_crosses_def only_crosses_def dvals_def)
  have v: "validate_crosses demo_cells ?n = Inr ()"
    unfolding validate_crosses_cases ac
    by (simp add: cross_x_def demo_cells_simps Let_def) (simp add: eps_def)
  have "\<forall>c \<in> set (all_crosses ?n). 2 * eps < ic_qty c \<and> 0 \<le> ic_price c"
    unfolding ac by (simp add: cross_x_def eps_def)
  from crosses_are_neutral [OF demo_cells_ok surjective_pairing this] v
  show ?thesis by (simp add: split_def Let_def)
qed

text \<open>
  \<open>apply_crosses_to_cells\<close> says that once validated \<open>nothing here can raise\<close>. It can, when
  a leg is as small as the tolerance: the first leg leaves dust, the position is removed, and
  the second leg finds none, after the first was booked.
\<close>

definition holder :: "string \<Rightarrow> real \<Rightarrow> real \<Rightarrow> cell_ledger" where
  "holder k c q = \<lparr>cl_id = k, cl_entries = [], cl_cash = c,
     cl_lots = (if 0 < q then [(''X'', \<lparr>lot_symbol = ''X'', lot_qty = q, lot_cost = 1\<rparr>)] else []),
     cl_realized = 0\<rparr>"

lemma crosses_can_stop_half_way:
  "let cells = [(''a'', holder ''a'' 10 1), (''b'', holder ''b'' 10 0)];
       (r, cells') = apply_crosses_to_cells
          (only_crosses [cross_x (1 - eps / 2), cross_x (6 * eps / 5)]) (Aware 0) cells
   in r = Inl CellShortSellError \<and> cells_cash cells' \<noteq> cells_cash cells"
proof -
  let ?cells = "[(''a'', holder ''a'' 10 1), (''b'', holder ''b'' 10 0)]"
  let ?n = "only_crosses [cross_x (1 - eps / 2), cross_x (6 * eps / 5)]"
  have ac: "all_crosses ?n = [cross_x (1 - eps / 2), cross_x (6 * eps / 5)]"
    by (simp add: all_crosses_def only_crosses_def dvals_def)
  have v: "validate_crosses ?cells ?n = Inr ()"
    unfolding validate_crosses_cases ac
    by (simp add: cross_x_def holder_def dhas_def cell_qty_def qty_of_def Let_def)
      (simp add: eps_def)
  show ?thesis
    unfolding Let_def apply_crosses_to_cells_def v ac
    by (simp add: sell_legs_def buy_legs_def post_cross_def on_cell_def record_internal_cross_def
        apply_fill_eq fill_lot_def cell_filled_def cells_cash_def cross_x_def holder_def Let_def
        eps_def)
qed

end
