(* ===== verification/FillAlloc.thy ===== *)
theory FillAlloc
  imports Netting
begin

text \<open>
  \<open>services/capital_cells/fill_allocation.py\<close>: sharing a real broker fill out among the
  cells that are owed it, pro rata with six decimals and the last intent taking the rest, and
  posting the shares. There is one rule, \<open>PRO_RATA_V1\<close>, so the rule tag is left out.
\<close>

section \<open>Allocation\<close>

record fill_share =
  fa_cell :: string
  fa_symbol :: string
  fa_side :: action
  fa_qty :: real
  fa_price :: real
  fa_fees :: real

definition share_of :: "real \<Rightarrow> real \<Rightarrow> real \<Rightarrow> cell_intent \<Rightarrow> real \<Rightarrow> fill_share list" where
  "share_of fill_qty fill_price fill_fees i qty =
     (if qty \<le> eps then []
      else [\<lparr>fa_cell = ci_cell i, fa_symbol = ci_symbol i, fa_side = ci_side i, fa_qty = qty,
             fa_price = fill_price, fa_fees = fill_fees * (qty / fill_qty)\<rparr>])"

text \<open>The loop over the ordered intents; the last one takes what is left of the fill.\<close>

fun alloc_loop :: "real \<Rightarrow> real \<Rightarrow> real \<Rightarrow> real \<Rightarrow> cell_intent list \<Rightarrow> real \<Rightarrow> fill_share list" where
  "alloc_loop fill_qty fill_price fill_fees tot [] allocated = []"
| "alloc_loop fill_qty fill_price fill_fees tot [i] allocated =
     share_of fill_qty fill_price fill_fees i (fill_qty - allocated)"
| "alloc_loop fill_qty fill_price fill_fees tot (i # j # is) allocated =
     (let qty = py_round 6 (ci_qty i / tot * fill_qty) in
      share_of fill_qty fill_price fill_fees i qty @
      alloc_loop fill_qty fill_price fill_fees tot (j # is) (allocated + qty))"

definition allocate :: "cell_intent list \<Rightarrow> real \<Rightarrow> real \<Rightarrow> real \<Rightarrow> exn + fill_share list" where
  "allocate residual fill_qty fill_price fill_fees =
     (if residual = [] \<or> fill_qty \<le> 0 then Inr []
      else if 1 < length (remdups (map ci_symbol residual)) \<or> 1 < length (remdups (map ci_side residual))
      then Inl ValueError
      else (let total_requested = (\<Sum>i\<leftarrow>residual. ci_qty i) in
        if total_requested \<le> 0 then Inr []
        else if total_requested + eps6 < fill_qty then Inl ValueError
        else Inr (alloc_loop fill_qty fill_price fill_fees total_requested
                    (sort_key ci_id residual) 0)))"

section \<open>Posting\<close>

definition validate_share ::
    "cells \<Rightarrow> fill_share \<Rightarrow> ((string \<times> string) \<times> real) list \<times> (string \<times> real) list \<Rightarrow>
     exn + ((string \<times> string) \<times> real) list \<times> (string \<times> real) list" where
  "validate_share cells a st =
     (let (sell_qty, cash_delta) = st in
      if \<not> dhas cells (fa_cell a) then Inl KeyError
      else if fa_side a = SELL
      then Inr (add_to sell_qty (fa_cell a, fa_symbol a) (fa_qty a),
                add_to cash_delta (fa_cell a) (fa_qty a * fa_price a - fa_fees a))
      else Inr (sell_qty, add_to cash_delta (fa_cell a) (- (fa_qty a * fa_price a) - fa_fees a)))"

definition validate_allocations :: "cells \<Rightarrow> fill_share list \<Rightarrow> exn + unit" where
  "validate_allocations cells as =
     (case fold_res (validate_share cells) as ([], []) of
        Inl e \<Rightarrow> Inl e
      | Inr (sell_qty, cash_delta) \<Rightarrow>
          (case check_sells cells sell_qty of Inl e \<Rightarrow> Inl e
           | Inr _ \<Rightarrow> check_cash cells cash_delta))"

definition post_share :: "pydt \<Rightarrow> fill_share \<Rightarrow> (cells, unit) act" where
  "post_share a_t a =
     on_cell (fa_cell a) (record_broker_fill (fa_symbol a)
       (if fa_side a = BUY then fa_qty a else - fa_qty a) (fa_price a) (fa_fees a) a_t)"

definition apply_allocations_to_cells :: "fill_share list \<Rightarrow> pydt \<Rightarrow> (cells, unit) act" where
  "apply_allocations_to_cells as a_t cells =
     (case validate_allocations cells as of
        Inl e \<Rightarrow> (Inl e, cells)
      | Inr _ \<Rightarrow> for_each (post_share a_t)
          (filter (\<lambda>a. fa_side a = SELL) as @ filter (\<lambda>a. fa_side a = BUY) as) cells)"

section \<open>The shares\<close>

definition shares_qty :: "fill_share list \<Rightarrow> real" where
  "shares_qty as = (\<Sum>a\<leftarrow>as. fa_qty a)"

definition shares_fees :: "fill_share list \<Rightarrow> real" where
  "shares_fees as = (\<Sum>a\<leftarrow>as. fa_fees a)"

lemma shares_simps [simp]:
  "shares_qty [] = 0" "shares_qty (a # as) = fa_qty a + shares_qty as"
  "shares_fees [] = 0" "shares_fees (a # as) = fa_fees a + shares_fees as"
  "shares_qty (as @ bs) = shares_qty as + shares_qty bs"
  "shares_fees (as @ bs) = shares_fees as + shares_fees bs"
  by (simp_all add: shares_qty_def shares_fees_def)

definition unit6 :: real where "unit6 = 1 / (2 * 10 ^ 6)"

lemma unit6_bounds: "eps \<le> unit6" "0 < unit6" "0 \<le> unit6"
  by (simp_all add: unit6_def eps_def)

lemma share_of_props:
  "a \<in> set (share_of fq p f i q) \<Longrightarrow> eps < fa_qty a \<and> fa_qty a = q \<and> fa_price a = p \<and>
    fa_fees a = f * (fa_qty a / fq) \<and> fa_cell a = ci_cell i \<and> fa_symbol a = ci_symbol i \<and>
    fa_side a = ci_side i"
  "q \<le> eps \<Longrightarrow> share_of fq p f i q = []"
  "eps < q \<Longrightarrow> shares_qty (share_of fq p f i q) = q"
  by (auto simp: share_of_def split: if_splits)

text \<open>Fees follow the quantities, whatever was skipped.\<close>

lemma alloc_loop_fees:
  "shares_fees (alloc_loop fq p f tot is al) = f / fq * shares_qty (alloc_loop fq p f tot is al)"
  by (induction fq p f tot "is" al rule: alloc_loop.induct)
    (auto simp: share_of_def Let_def distrib_left)

lemma alloc_loop_legs:
  "a \<in> set (alloc_loop fq p f tot is al) \<Longrightarrow>
    eps < fa_qty a \<and> fa_price a = p \<and> fa_fees a = f * (fa_qty a / fq) \<and>
    (\<exists>i \<in> set is. fa_cell a = ci_cell i \<and> fa_symbol a = ci_symbol i \<and> fa_side a = ci_side i)"
  by (induction fq p f tot "is" al rule: alloc_loop.induct)
    (auto simp: Let_def dest!: share_of_props(1))

text \<open>
  Every share but the last is the pro-rata share to six decimals. The last takes the rest, so
  the shares add up to the fill unless one of them is too small to be booked.
\<close>

lemma round_share: "\<bar>py_round 6 x - x\<bar> \<le> unit6"
  using py_round_error [of 6 x] by (simp add: unit6_def)

definition demand :: "cell_intent list \<Rightarrow> real" where
  "demand is = (\<Sum>i\<leftarrow>is. ci_qty i)"

lemma demand_simps [simp]: "demand [] = 0" "demand (i # is) = ci_qty i + demand is"
  by (simp_all add: demand_def)

lemma demand_nonneg: "\<forall>i \<in> set is. 0 < ci_qty i \<Longrightarrow> 0 \<le> demand is"
  by (induction "is") auto

lemma alloc_loop_total:
  assumes "is \<noteq> []" and "\<forall>i \<in> set is. 0 < ci_qty i" and "0 < tot" "0 < fq"
    and "\<bar>fq - al - demand is / tot * fq\<bar> \<le> real k * unit6"
  shows "\<bar>shares_qty (alloc_loop fq p f tot is al) - (fq - al)\<bar> \<le> real (k + 2 * length is) * unit6 \<and>
    (length (alloc_loop fq p f tot is al) = length is \<longrightarrow>
      shares_qty (alloc_loop fq p f tot is al) = fq - al) \<and>
    length (alloc_loop fq p f tot is al) \<le> length is"
  using assms
proof (induction fq p f tot "is" al arbitrary: k rule: alloc_loop.induct)
  case (1 fq p f tot al)
  then show ?case by simp
next
  case (2 fq p f tot i al)
  have share: "0 < ci_qty i / tot * fq" using "2.prems"(2-4) by simp
  have "- (real k * unit6) \<le> fq - al" using "2.prems"(5) share by (simp add: abs_le_iff)
  moreover have "shares_qty (share_of fq p f i (fq - al)) = 0 \<and> fq - al \<le> eps \<or>
      shares_qty (share_of fq p f i (fq - al)) = fq - al"
    by (simp add: share_of_def)
  moreover have "real (k + 2 * length [i]) * unit6 = real k * unit6 + 2 * unit6"
    by (simp add: distrib_right)
  moreover have "0 \<le> real k * unit6" using unit6_bounds(3) by simp
  ultimately have "\<bar>shares_qty (share_of fq p f i (fq - al)) - (fq - al)\<bar> \<le>
      real (k + 2 * length [i]) * unit6"
    using unit6_bounds by linarith
  then show ?case by (simp add: share_of_def)
next
  case (3 fq p f tot i j "is" al)
  let ?x = "ci_qty i / tot * fq" and ?q = "py_round 6 (ci_qty i / tot * fq)"
  let ?rest = "alloc_loop fq p f tot (j # is) (al + ?q)"
  let ?one = "share_of fq p f i ?q"
  have x: "0 < ?x" using "3.prems"(2-4) by simp
  then have q: "0 \<le> ?q" using py_round_nonneg [of ?x 6] by simp
  have "demand (i # j # is) / tot * fq = ?x + demand (j # is) / tot * fq"
    by (simp add: add_divide_distrib distrib_right)
  then have k: "\<bar>fq - (al + ?q) - demand (j # is) / tot * fq\<bar> \<le> real (Suc k) * unit6"
    using "3.prems"(5) round_share [of ?x] by (simp add: distrib_right abs_le_iff)
  have pos: "\<forall>i \<in> set (j # is). 0 < ci_qty i" using "3.prems"(2) by simp
  note IH = "3.IH" [OF refl _ pos "3.prems"(3,4) k]
  have one: "shares_qty ?one = (if ?q \<le> eps then 0 else ?q)" "length ?one = (if ?q \<le> eps then 0 else 1)"
    by (simp_all add: share_of_def)
  have e: "alloc_loop fq p f tot (i # j # is) al = ?one @ ?rest" by (simp add: Let_def)
  have "\<bar>shares_qty ?one - ?q\<bar> \<le> unit6" using one(1) q unit6_bounds by (auto simp: unit6_bounds(3))
  moreover have "\<bar>shares_qty ?rest - (fq - (al + ?q))\<bar> \<le> real (Suc k + 2 * length (j # is)) * unit6"
    using IH by simp
  moreover have "real (k + 2 * length (i # j # is)) * unit6 =
      real (Suc k + 2 * length (j # is)) * unit6 + unit6" by (simp add: distrib_right)
  ultimately have "\<bar>shares_qty (?one @ ?rest) - (fq - al)\<bar> \<le> real (k + 2 * length (i # j # is)) * unit6"
    by (simp only: shares_simps abs_le_iff) linarith
  moreover have "length (?one @ ?rest) \<le> length (i # j # is)"
    using IH one(2) by (simp split: if_splits)
  moreover have "shares_qty (?one @ ?rest) = fq - al" if "length (?one @ ?rest) = length (i # j # is)"
  proof -
    have r: "length ?rest \<le> length (j # is)" using IH by simp
    with that one(2) have "\<not> ?q \<le> eps" "length ?rest = length (j # is)" by (auto split: if_splits)
    then show ?thesis using IH one(1) by simp
  qed
  ultimately show ?case unfolding e by blast
qed

section \<open>Posting the shares\<close>

definition share_sells :: "fill_share list \<Rightarrow> ((string \<times> string) \<times> real) list" where
  "share_sells as = map (\<lambda>a. ((fa_cell a, fa_symbol a), fa_qty a)) (filter (\<lambda>a. fa_side a = SELL) as)"

definition share_cash :: "fill_share list \<Rightarrow> (string \<times> real) list" where
  "share_cash as = map (\<lambda>a. (fa_cell a, (if fa_side a = SELL then fa_qty a * fa_price a
     else - (fa_qty a * fa_price a)) - fa_fees a)) as"

lemma validate_share_fold:
  "fold_res (validate_share cells) as (x, y) =
    (if \<forall>a \<in> set as. dhas cells (fa_cell a)
     then Inr (tally (share_sells as) x, tally (share_cash as) y) else Inl KeyError)"
  by (induction as arbitrary: x y)
    (auto simp: validate_share_def share_sells_def share_cash_def Let_def)

text \<open>The leg of a share.\<close>

definition share_leg :: "fill_share \<Rightarrow> leg" where
  "share_leg a = (fa_cell a, fa_symbol a, if fa_side a = BUY then fa_qty a else - fa_qty a,
     fa_price a, fa_fees a)"

lemma post_share_leg: "post_share a_t a = post_leg BROKER_FILL a_t (share_leg a)"
  by (simp add: post_share_def post_leg_def share_leg_def record_broker_fill_def)

definition legs_by_side :: "action \<Rightarrow> fill_share list \<Rightarrow> leg list" where
  "legs_by_side side as = map share_leg (filter (\<lambda>a. fa_side a = side) as)"

lemma post_shares_legs:
  "for_each (post_share a_t) (filter (\<lambda>a. fa_side a = SELL) as @ filter (\<lambda>a. fa_side a = BUY) as) cells =
   for_each (post_leg BROKER_FILL a_t) (legs_by_side SELL as @ legs_by_side BUY as) cells"
  unfolding legs_by_side_def map_append [symmetric] for_each_map post_share_leg [symmetric] ..

text \<open>What a list of shares moves.\<close>

definition signed_qty :: "string \<Rightarrow> fill_share list \<Rightarrow> real" where
  "signed_qty sy as = (\<Sum>a\<leftarrow>as. if fa_symbol a = sy
     then if fa_side a = BUY then fa_qty a else - fa_qty a else 0)"

definition signed_cost :: "fill_share list \<Rightarrow> real" where
  "signed_cost as = (\<Sum>a\<leftarrow>as. (if fa_side a = BUY then fa_qty a else - fa_qty a) * fa_price a + fa_fees a)"

lemma legs_share_totals:
  "legs_cash (legs_by_side SELL as @ legs_by_side BUY as) = signed_cost as"
  "legs_qty sy (legs_by_side SELL as @ legs_by_side BUY as) = signed_qty sy as"
  "length (legs_by_side SELL as @ legs_by_side BUY as) = length as"
proof (induction as)
  case (Cons a as)
  {
    case 1
    then show ?case using Cons(1)
      by (cases "fa_side a") (simp_all add: legs_by_side_def share_leg_def signed_cost_def)
  next
    case 2
    then show ?case using Cons(2)
      by (cases "fa_side a") (simp_all add: legs_by_side_def share_leg_def signed_qty_def)
  next
    case 3
    then show ?case using Cons(3)
      by (cases "fa_side a") (simp_all add: legs_by_side_def)
  }
qed (simp_all add: legs_by_side_def signed_cost_def signed_qty_def)

lemma sold_share:
  "cell_book.sold (legs_of k (legs_by_side SELL as)) sy = key_total (k, sy) (share_sells as)"
  by (induction as) (auto simp: legs_by_side_def share_leg_def share_sells_def cell_book.sold_def)

lemma action_cases_sum: "(if s = SELL then x else - x) = (if s = BUY then - x else (x :: real))"
  by (cases s) auto

lemma cost_share:
  "cell_book.cost (legs_of k (legs_by_side SELL as @ legs_by_side BUY as)) =
    - key_total k (share_cash as)"
proof (induction as)
  case (Cons a as)
  then show ?case
    by (cases "fa_side a")
      (auto simp: legs_by_side_def share_leg_def share_cash_def cell_book.cost_def)
qed (simp add: legs_by_side_def share_cash_def cell_book.cost_def)

section \<open>Properties\<close>

lemma allocation_shares:
  assumes "residual \<noteq> []" and "0 < fill_qty" and "\<forall>i \<in> set residual. 0 < ci_qty i"
    and "\<forall>i \<in> set residual. ci_symbol i = sy \<and> ci_side i = side"
    and "fill_qty \<le> demand residual + eps6"
  shows "\<exists>as. allocate residual fill_qty p f = Inr as \<and>
    (\<forall>a \<in> set as. eps < fa_qty a \<and> fa_price a = p \<and> fa_symbol a = sy \<and> fa_side a = side \<and>
       fa_cell a \<in> ci_cell ` set residual) \<and>
    shares_fees as * fill_qty = f * shares_qty as \<and>
    \<bar>shares_qty as - fill_qty\<bar> \<le> real (length residual) / 10 ^ 6 \<and>
    (length as = length residual \<longrightarrow> shares_qty as = fill_qty \<and> shares_fees as = f)"
proof -
  let ?is = "sort_key ci_id residual" and ?tot = "\<Sum>i\<leftarrow>residual. ci_qty i"
  let ?as = "alloc_loop fill_qty p f ?tot ?is 0"
  have one: "length (remdups (map g residual)) \<le> 1" if "\<forall>i \<in> set residual. g i = c"
    for g :: "cell_intent \<Rightarrow> 'b" and c
  proof -
    have "set (remdups (map g residual)) \<subseteq> {c}" using that by auto
    then have "card (set (remdups (map g residual))) \<le> card {c}" by (intro card_mono) auto
    then show ?thesis by (subst (asm) distinct_card) auto
  qed
  have tot: "0 < ?tot"
    using assms(1,3) demand_nonneg [of "tl residual"]
    by (cases residual) (auto simp: demand_def)
  have "length (remdups (map ci_symbol residual)) \<le> 1" "length (remdups (map ci_side residual)) \<le> 1"
    using one [of ci_symbol sy] one [of ci_side side] assms(4) by auto
  then have al: "allocate residual fill_qty p f = Inr ?as"
    using assms(1,2,5) tot by (auto simp: allocate_def demand_def Let_def)
  have ne: "?is \<noteq> []" using assms(1) by (metis set_sort set_empty)
  have d: "demand ?is = ?tot" by (simp add: demand_def)
  have "\<bar>fill_qty - 0 - demand ?is / ?tot * fill_qty\<bar> \<le> real 0 * unit6" using tot d by simp
  from alloc_loop_total [OF _ _ tot assms(2) this, of p f]
  have total: "\<bar>shares_qty ?as - fill_qty\<bar> \<le> real (2 * length residual) * unit6"
    "length ?as = length residual \<longrightarrow> shares_qty ?as = fill_qty"
    using assms(1,3) ne by auto
  have u: "real (2 * length residual) * unit6 = real (length residual) / 10 ^ 6"
    by (simp add: unit6_def)
  have fees: "shares_fees ?as * fill_qty = f * shares_qty ?as"
    using assms(2) by (simp add: alloc_loop_fees)
  then have "shares_fees ?as = f" if "shares_qty ?as = fill_qty" using that assms(2) by simp
  moreover have "\<forall>a \<in> set ?as. eps < fa_qty a \<and> fa_price a = p \<and> fa_symbol a = sy \<and>
      fa_side a = side \<and> fa_cell a \<in> ci_cell ` set residual"
    using alloc_loop_legs assms(4) by fastforce
  ultimately show ?thesis using al total [unfolded u] fees by blast
qed

text \<open>The same facts for a client that holds the allocation.\<close>

lemma allocation_total:
  assumes "residual \<noteq> []" and "0 < fill_qty" and "\<forall>i \<in> set residual. 0 < ci_qty i"
    and "\<forall>i \<in> set residual. ci_symbol i = sy \<and> ci_side i = side"
    and "fill_qty \<le> demand residual + eps6"
    and "allocate residual fill_qty p f = Inr as" and "length as = length residual"
  shows "(\<forall>a \<in> set as. eps < fa_qty a \<and> fa_price a = p \<and> fa_symbol a = sy \<and> fa_side a = side) \<and>
    shares_qty as = fill_qty \<and> shares_fees as = f"
  using allocation_shares [OF assms(1-5), of p f] assms(6,7) by auto

lemma allocation_fees:
  assumes "0 < fill_qty" and "0 \<le> f" and "allocate residual fill_qty p f = Inr as"
  shows "\<forall>a \<in> set as. 0 \<le> fa_fees a"
proof
  fix a assume "a \<in> set as"
  then have "eps < fa_qty a \<and> fa_fees a = f * (fa_qty a / fill_qty)"
    using assms(3) alloc_loop_legs
    by (fastforce simp: allocate_def Let_def split: if_splits)
  then show "0 \<le> fa_fees a" using assms(1,2) above_eps(2) by simp
qed

text \<open>
  A fill is shared out faithfully. When the residual intents of one broker order are
  allocated a fill of at most their demand, then every share is booked at the fill's price on
  the symbol and side of one of the intents and is larger than the tolerance; the shares carry
  fees in proportion; their total differs from the fill by at most half a millionth of a share
  per rounding, and not at all when no share was too small to be booked.
\<close>

theorem allocation_is_faithful:
  assumes "residual \<noteq> []" and "0 < fill_qty" and "\<forall>i \<in> set residual. 0 < ci_qty i"
    and "\<forall>i \<in> set residual. ci_symbol i = sy \<and> ci_side i = side"
    and "fill_qty \<le> demand residual + eps6"
  shows "\<exists>as. allocate residual fill_qty p f = Inr as \<and>
    (\<forall>a \<in> set as. eps < fa_qty a \<and> fa_price a = p \<and> fa_symbol a = sy \<and> fa_side a = side \<and>
       fa_cell a \<in> ci_cell ` set residual) \<and>
    shares_fees as * fill_qty = f * shares_qty as \<and>
    \<bar>shares_qty as - fill_qty\<bar> \<le> real (length residual) / 10 ^ 6 \<and>
    (length as = length residual \<longrightarrow> shares_qty as = fill_qty \<and> shares_fees as = f)"
  by (rule allocation_shares [OF assms])

definition owed :: "string \<Rightarrow> string \<Rightarrow> real \<Rightarrow> cell_intent" where
  "owed i c q = demo_intent i c BUY q"

lemma allocation_is_faithful_witness:
  "\<exists>as. allocate [owed ''i2'' ''a'' 1, owed ''i1'' ''b'' 2] 2 30 1 = Inr as \<and>
    \<bar>shares_qty as - 2\<bar> \<le> 2 / 10 ^ 6 \<and> shares_fees as * 2 = shares_qty as"
  using allocation_is_faithful [of "[owed ''i2'' ''a'' 1, owed ''i1'' ''b'' 2]" 2 "''X''" BUY 30 1]
  by (simp add: owed_def demo_intent_def demand_def eps6_def) blast

text \<open>
  The allocation does not depend on the order in which the residual intents are given.
\<close>

lemma allocation_is_deterministic:
  assumes "mset xs = mset ys" and "distinct (map ci_id xs)"
  shows "allocate xs fill_qty p f = allocate ys fill_qty p f"
proof -
  have set: "set xs = set ys" using assms(1) by (rule mset_eq_setD)
  have "inj_on ci_id (set xs)" using assms(2) by (simp add: distinct_map)
  then have s: "sort_key ci_id xs = sort_key ci_id ys"
    using assms(1) by (rule sort_key_perm_unique [rotated])
  have t: "(\<Sum>i\<leftarrow>xs. ci_qty i) = (\<Sum>i\<leftarrow>ys. ci_qty i)"
    using assms(1) by (rule sum_list_map_perm)
  have l: "length (remdups (map g xs)) = length (remdups (map g ys))" for g :: "cell_intent \<Rightarrow> 'b"
    using set by (simp add: length_remdups_card_conv)
  have e: "xs = [] \<longleftrightarrow> ys = []" using assms(1) by auto
  show ?thesis unfolding allocate_def Let_def s t l e ..
qed

text \<open>
  Posting a fill's shares is all or nothing: shares that fail the validation change no
  cell; shares that pass it are all booked, when sales are larger than 2e-9 shares and pay
  their own fees, and the cash and shares of all cells together move by what the shares say,
  the latter up to the tolerance per share.
\<close>

theorem allocations_all_or_nothing:
  assumes "cells_ok cells" and "apply_allocations_to_cells as (Aware t) cells = (r, cells')"
    and "\<forall>a \<in> set as. 0 < fa_qty a \<and> 0 \<le> fa_price a \<and> 0 \<le> fa_fees a"
    and "\<forall>a \<in> set as. fa_side a = SELL \<longrightarrow> 2 * eps < fa_qty a \<and> fa_fees a \<le> fa_qty a * fa_price a"
  shows "r = validate_allocations cells as \<and> cells_ok cells' \<and>
    (if is_ok r
     then cells_cash cells' = cells_cash cells - signed_cost as \<and>
       \<bar>cells_qty cells' sy - (cells_qty cells sy + signed_qty sy as)\<bar> \<le> real (length as) * eps
     else cells' = cells)"
proof (cases "validate_allocations cells as")
  case (Inl e)
  with assms(2) have "r = Inl e" "cells' = cells" by (simp_all add: apply_allocations_to_cells_def)
  with Inl assms(1) show ?thesis by simp
next
  case (Inr u)
  let ?legs = "legs_by_side SELL as @ legs_by_side BUY as"
  from Inr have v: "\<forall>a \<in> set as. dhas cells (fa_cell a)"
    "check_sells cells (tally (share_sells as) []) = Inr ()"
    "check_cash cells (tally (share_cash as) []) = Inr ()"
    by (auto simp: validate_allocations_def validate_share_fold split: if_splits sum.splits)
  have k1: "\<forall>x \<in> set (share_sells as). dhas cells (fst (fst x))"
    and k2: "\<forall>x \<in> set (share_cash as). dhas cells (fst x)"
    using v(1) by (auto simp: share_sells_def share_cash_def)
  have leg: "\<forall>x \<in> set (legs_by_side SELL as). sale_leg (snd x)"
    "\<forall>x \<in> set (legs_by_side BUY as). purchase_leg (snd x)" "\<forall>x \<in> set ?legs. leg_sane x"
    using assms(3,4)
    by (auto simp: legs_by_side_def share_leg_def sale_leg_def purchase_leg_def leg_sane_def)
  have "\<forall>x \<in> set ?legs. dhas cells (fst x)"
    using v(1) by (auto simp: legs_by_side_def share_leg_def)
  moreover have "cell_book.sold (legs_of k (legs_by_side SELL as)) s \<le> cell_qty l s + eps"
    if "dget cells k = Some l" for k l s
    unfolding sold_share by (rule check_sells_tally [OF v(2) k1 assms(1) that])
  moreover have "cell_book.cost (legs_of k ?legs) \<le> cl_cash l + eps"
    if "dget cells k = Some l" for k l
    unfolding cost_share using check_cash_tally [OF v(3) k2 assms(1) that] by simp
  ultimately obtain ds where ds: "for_each (post_leg BROKER_FILL (Aware t)) ?legs cells = (Inr (), ds)"
    using post_batch_succeeds [OF assms(1) leg(1,2)] by blast
  then have r: "r = Inr ()" "cells' = ds"
    using assms(2) Inr by (simp_all add: apply_allocations_to_cells_def post_shares_legs)
  note tot = post_all_totals [OF assms(1) leg(3) ds, of sy, unfolded legs_share_totals]
  with r Inr show ?thesis by auto
qed

definition demo_share :: "string \<Rightarrow> real \<Rightarrow> fill_share" where
  "demo_share c q = \<lparr>fa_cell = c, fa_symbol = ''X'', fa_side = BUY, fa_qty = q, fa_price = 30,
     fa_fees = 1\<rparr>"

lemma allocations_all_or_nothing_witness:
  "let (r, cells') = apply_allocations_to_cells [demo_share ''a'' 1, demo_share ''b'' 2] (Aware 0)
     demo_cells
   in is_ok r \<and> cells_cash cells' = cells_cash demo_cells - 92"
proof -
  let ?as = "[demo_share ''a'' 1, demo_share ''b'' 2]"
  have pre: "\<forall>a \<in> set ?as. 0 < fa_qty a \<and> 0 \<le> fa_price a \<and> 0 \<le> fa_fees a"
    "\<forall>a \<in> set ?as. fa_side a = SELL \<longrightarrow> 2 * eps < fa_qty a \<and> fa_fees a \<le> fa_qty a * fa_price a"
    by (simp_all add: demo_share_def)
  have v: "validate_allocations demo_cells ?as = Inr ()"
  proof -
    have known: "\<forall>x \<in> set (share_cash ?as). dhas demo_cells (fst x)"
      by (simp add: share_cash_def demo_share_def demo_cells_simps)
    have "check_cash demo_cells (tally (share_cash ?as) []) = Inr ()"
      unfolding check_cash_tally_iff [OF known]
      by (simp add: share_cash_def demo_share_def demo_cells_simps) (simp add: eps_def)
    then show ?thesis
      unfolding validate_allocations_def validate_share_fold
      by (simp add: demo_share_def demo_cells_simps share_sells_def)
  qed
  have "signed_cost ?as = 92" by (simp add: signed_cost_def demo_share_def)
  with allocations_all_or_nothing [OF demo_cells_ok surjective_pairing pre] v
  show ?thesis by (simp add: split_def Let_def)
qed

text \<open>
  The docstring says that the shares \<open>always sum EXACTLY\<close> to the fill. They do not when the
  last share comes out below the tolerance: ten equal intents and a fill of six millionths
  give nine rounded shares of one millionth each.
\<close>

lemma rounded_shares_exceed_the_fill:
  "py_round 6 (1 / 10 * (6 / 10 ^ 6)) = 1 / 10 ^ 6"
proof -
  have "round_half_even (3 / 5) = 1" by (simp add: round_half_even_def Let_def)
  then show ?thesis by (simp add: py_round_def)
qed

end
