(* ===== verification/Reconcile.thy ===== *)
theory Reconcile
  imports RiskGate Broker MasterLedger FillAlloc
begin

text \<open>
  \<open>services/reconciliation/engine.py\<close>: the ledger against the broker, and
  \<open>services/capital_cells/reconciliation.py\<close>: the cells against the ledger. Both stop new
  entries on a mismatch. Details of a mismatch are texts and are left out; symbols are kept.
\<close>

section \<open>Broker against ledger\<close>

datatype mismatch =
    BrokerUnreachable | CashMismatch | MissingAtBroker string | QtyMismatch string
  | MissingInLedger string

record recon_tolerance =
  rt_cash :: real
  rt_qty :: real

text \<open>The defaults \<open>cash_tolerance = 0.05\<close> and \<open>qty_tolerance = 1e-4\<close>.\<close>

definition default_tolerance :: recon_tolerance where
  "default_tolerance = \<lparr>rt_cash = 5 / 100, rt_qty = 1 / 10 ^ 4\<rparr>"

definition index_positions :: "broker_position list \<Rightarrow> (string, broker_position) dict" where
  "index_positions ps = fold (\<lambda>p d. dput d (bp_symbol p) p) ps []"

definition cash_mismatch :: "recon_tolerance \<Rightarrow> broker_cash \<Rightarrow> ledger \<Rightarrow> mismatch list" where
  "cash_mismatch tol bc l =
     (let broker_total = bc_settled bc + bc_unsettled bc in
      if rt_cash tol < \<bar>broker_total - lg_cash l\<bar> then [CashMismatch] else [])"

fun ledger_side :: "recon_tolerance \<Rightarrow> (string, broker_position) dict \<Rightarrow> lots \<Rightarrow> mismatch list" where
  "ledger_side tol bps [] = []"
| "ledger_side tol bps ((sy, l) # ls) =
     (case dget bps sy of
        None \<Rightarrow> [MissingAtBroker sy]
      | Some bp \<Rightarrow> if rt_qty tol < \<bar>bp_qty bp - lot_qty l\<bar> then [QtyMismatch sy] else [])
     @ ledger_side tol bps ls"

definition broker_side :: "(string, broker_position) dict \<Rightarrow> lots \<Rightarrow> mismatch list" where
  "broker_side bps ls = map MissingInLedger (filter (\<lambda>sy. \<not> dhas ls sy) (dkeys bps))"

definition reconcile ::
    "'b adapter \<Rightarrow> 'b \<Rightarrow> recon_tolerance \<Rightarrow> ledger \<Rightarrow> (controller, mismatch list) act" where
  "reconcile A b tol l c =
     (case ad_cash A b of
        Inl e \<Rightarrow>
          if e = BrokerDisconnectedError
          then (Inr [BrokerUnreachable], set_state FULL_BROKER_DISCONNECT c) else (Inl e, c)
      | Inr bc \<Rightarrow> (case ad_positions A b of
          Inl e \<Rightarrow>
            if e = BrokerDisconnectedError
            then (Inr [BrokerUnreachable], set_state FULL_BROKER_DISCONNECT c) else (Inl e, c)
        | Inr ps \<Rightarrow>
            (let bps = index_positions ps;
                 report = cash_mismatch tol bc l @ ledger_side tol bps (lg_lots l)
                   @ broker_side bps (lg_lots l)
             in (Inr report, if report \<noteq> [] then set_state HALT_NEW_ENTRIES c else c))))"

text \<open>The positions agree: the same symbols on both sides, and quantities within the tolerance.\<close>

definition positions_agree :: "real \<Rightarrow> (string, broker_position) dict \<Rightarrow> lots \<Rightarrow> bool" where
  "positions_agree tol bps ls \<longleftrightarrow> (\<forall>sy. dhas bps sy = dhas ls sy) \<and>
     (\<forall>sy bp l. dget bps sy = Some bp \<and> dget ls sy = Some l \<longrightarrow> \<bar>bp_qty bp - lot_qty l\<bar> \<le> tol)"

lemma ledger_side_empty:
  "ledger_side tol bps ls = [] \<longleftrightarrow>
    (\<forall>(sy, l) \<in> set ls. case dget bps sy of None \<Rightarrow> False
      | Some bp \<Rightarrow> \<bar>bp_qty bp - lot_qty l\<bar> \<le> rt_qty tol)"
  by (induction tol bps ls rule: ledger_side.induct) (auto split: option.splits)

lemma dhas_keys: "dhas d k \<longleftrightarrow> k \<in> set (dkeys d)"
  using dget_None_iff [of d k] by (auto simp: dhas_def)

lemma broker_side_empty: "broker_side bps ls = [] \<longleftrightarrow> (\<forall>sy. dhas bps sy \<longrightarrow> dhas ls sy)"
  by (auto simp: broker_side_def filter_empty_conv dhas_keys)

lemma sides_agree:
  assumes "dict_ok ls"
  shows "ledger_side tol bps ls = [] \<and> broker_side bps ls = [] \<longleftrightarrow>
    positions_agree (rt_qty tol) bps ls"
proof -
  have "ledger_side tol bps ls = [] \<longleftrightarrow>
      (\<forall>sy l. dget ls sy = Some l \<longrightarrow> (\<exists>bp. dget bps sy = Some bp \<and> \<bar>bp_qty bp - lot_qty l\<bar> \<le> rt_qty tol))"
    unfolding ledger_side_empty using in_set_dget [OF assms]
    by (fastforce split: option.splits)
  then show ?thesis
    unfolding broker_side_empty positions_agree_def by (auto simp: dhas_def) force+
qed

text \<open>
  Reconciliation finds every difference and nothing else. It reports consistency exactly
  when the broker answers, cash agrees within the tolerance, both sides hold the same symbols
  and every quantity agrees within the tolerance; then the risk state is left alone. Otherwise
  no level of the throttle allows a new entry afterwards, and when the broker cannot be reached
  exits stop too.
\<close>

theorem reconciliation_is_exact:
  assumes "ledger_inv l" and "reconcile A b tol l c = (Inr report, c')"
  shows "(report = [] \<longleftrightarrow> (\<exists>bc ps. ad_cash A b = Inr bc \<and> ad_positions A b = Inr ps \<and>
      \<bar>bc_settled bc + bc_unsettled bc - lg_cash l\<bar> \<le> rt_cash tol \<and>
      positions_agree (rt_qty tol) (index_positions ps) (lg_lots l))) \<and>
    (if report = [] then c' = c else \<not> entry_allowed_by_state c' level) \<and>
    (BrokerUnreachable \<in> set report \<longrightarrow> \<not> exit_allowed_by_state c')"
proof -
  have ok: "dict_ok (lg_lots l)" using assms(1) by (auto simp: ledger_inv_def)
  show ?thesis
  proof (cases "\<exists>bc ps. ad_cash A b = Inr bc \<and> ad_positions A b = Inr ps")
    case True
    then obtain bc ps where ans: "ad_cash A b = Inr bc" "ad_positions A b = Inr ps" by blast
    let ?bps = "index_positions ps"
    let ?R = "cash_mismatch tol bc l @ ledger_side tol ?bps (lg_lots l) @ broker_side ?bps (lg_lots l)"
    have eq: "reconcile A b tol l c = (Inr ?R, if ?R \<noteq> [] then set_state HALT_NEW_ENTRIES c else c)"
      unfolding reconcile_def ans sum.case Let_def ..
    note eq' = trans [OF assms(2) [symmetric] eq]
    have rep: "report = ?R" by (rule Pair_inject [OF eq']) (simp only: sum.inject)
    have c': "c' = (if report \<noteq> [] then set_state HALT_NEW_ENTRIES c else c)"
      unfolding rep by (rule Pair_inject [OF eq'])
    have "report = [] \<longleftrightarrow> \<bar>bc_settled bc + bc_unsettled bc - lg_cash l\<bar> \<le> rt_cash tol \<and>
        positions_agree (rt_qty tol) ?bps (lg_lots l)"
      using sides_agree [OF ok, of tol ?bps] by (auto simp: rep cash_mismatch_def Let_def)
    moreover have "BrokerUnreachable \<notin> set report"
    proof -
      have "BrokerUnreachable \<notin> set (ledger_side tol ?bps ls)" for ls
        by (induction ls) (auto split: option.splits prod.splits)
      then show ?thesis by (auto simp: rep cash_mismatch_def broker_side_def Let_def)
    qed
    ultimately show ?thesis
      using ans c' by (auto simp: entry_allowed_by_state_def set_state_def)
  next
    case False
    then have "report = [BrokerUnreachable]" "c' = set_state FULL_BROKER_DISCONNECT c"
      using assms(2) by (auto simp: reconcile_def Let_def split: sum.splits if_splits)
    with False show ?thesis
      by (auto simp: entry_allowed_by_state_def exit_allowed_by_state_def set_state_def)
  qed
qed

section \<open>Cells against ledger\<close>

datatype cell_mismatch = CellCash | CellPosition string

record cell_recon =
  rc_unallocated :: real
  rc_adjustments :: real
  rc_cash_tol :: real
  rc_qty_tol :: real

text \<open>The defaults \<open>cash_tolerance = 0.01\<close> and \<open>qty_tolerance = 1e-6\<close>.\<close>

definition default_cell_recon :: cell_recon where
  "default_cell_recon = \<lparr>rc_unallocated = 0, rc_adjustments = 0, rc_cash_tol = 1 / 100,
     rc_qty_tol = 1 / 10 ^ 6\<rparr>"

definition all_symbols :: "ledger \<Rightarrow> cells \<Rightarrow> string list" where
  "all_symbols l cs = remdups (dkeys (lg_lots l) @ concat (map (\<lambda>c. dkeys (cl_lots c)) (dvals cs)))"

definition cell_reconcile ::
    "cell_recon \<Rightarrow> ledger \<Rightarrow> cells \<Rightarrow> controller option \<Rightarrow> cell_mismatch list \<times> controller option" where
  "cell_reconcile cfg l cs c =
     (let cell_cash_total = (\<Sum>x\<leftarrow>dvals cs. cl_cash x);
          expected_cash = cell_cash_total + rc_unallocated cfg + rc_adjustments cfg;
          cash = (if rc_cash_tol cfg < \<bar>expected_cash - lg_cash l\<bar> then [CellCash] else []);
          pos = filter (\<lambda>sy. rc_qty_tol cfg <
            \<bar>(\<Sum>x\<leftarrow>dvals cs. cell_qty x sy) - position_qty l sy\<bar>) (all_symbols l cs);
          report = cash @ map CellPosition pos
      in (report, if report \<noteq> [] then map_option (set_state HALT_NEW_ENTRIES) c else c))"

text \<open>What the account is short of in the cells.\<close>

definition cash_gap :: "cell_recon \<Rightarrow> ledger \<Rightarrow> cells \<Rightarrow> real" where
  "cash_gap cfg l cs = cells_cash cs + rc_unallocated cfg + rc_adjustments cfg - lg_cash l"

definition qty_gap :: "ledger \<Rightarrow> cells \<Rightarrow> string \<Rightarrow> real" where
  "qty_gap l cs sy = cells_qty cs sy - position_qty l sy"

lemma qty_zero_outside:
  assumes "sy \<notin> set (all_symbols l cs)"
  shows "cells_qty cs sy = 0" "position_qty l sy = 0"
proof -
  have "dget (lg_lots l) sy = None" "\<forall>c \<in> set (dvals cs). dget (cl_lots c) sy = None"
    using assms by (auto simp: all_symbols_def dget_None_iff)
  then show "cells_qty cs sy = 0" "position_qty l sy = 0"
    by (simp_all add: cells_qty_def dsum_def cell_qty_def position_qty_def qty_of_def cong: map_cong)
qed

lemma cell_reconcile_consistent:
  assumes "0 \<le> rc_qty_tol cfg"
  shows "fst (cell_reconcile cfg l cs c) = [] \<longleftrightarrow>
    \<bar>cash_gap cfg l cs\<bar> \<le> rc_cash_tol cfg \<and> (\<forall>sy. \<bar>qty_gap l cs sy\<bar> \<le> rc_qty_tol cfg)"
proof -
  have "\<bar>qty_gap l cs sy\<bar> \<le> rc_qty_tol cfg" if "sy \<notin> set (all_symbols l cs)" for sy
    using qty_zero_outside [OF that] assms by (simp add: qty_gap_def)
  then show ?thesis
    by (auto simp: cell_reconcile_def Let_def cash_gap_def qty_gap_def cells_cash_def cells_qty_def
        dsum_def filter_empty_conv not_less)
qed

section \<open>The account and its cells in motion\<close>

text \<open>
  The two ways in which shares move between the market, the account and its cells, as
  \<open>docs/capital_cell_architecture.md\<close> describes them: crosses between cells, and a broker
  fill that is booked in the master ledger and shared out among the cells it is owed to.
\<close>

datatype account_op =
    ACross netting instant
  | AFill "cell_intent list" string action real real real instant

definition signed :: "action \<Rightarrow> real \<Rightarrow> real" where
  "signed side q = (if side = BUY then q else - q)"

fun account_step :: "account_op \<Rightarrow> ledger \<times> cells \<Rightarrow> (ledger \<times> cells) option" where
  "account_step (ACross n t) (l, cs) =
     (case apply_crosses_to_cells n (Aware t) cs of
        (Inl _, _) \<Rightarrow> None | (Inr _, cs') \<Rightarrow> Some (l, cs'))"
| "account_step (AFill residual sy side q p f t) (l, cs) =
     (case record_fill sy (signed side q) p f (Aware t) l of
        (Inl _, _) \<Rightarrow> None
      | (Inr _, l') \<Rightarrow> (case allocate residual q p f of
          Inl _ \<Rightarrow> None
        | Inr as \<Rightarrow>
            if length as \<noteq> length residual then None
            else (case apply_allocations_to_cells as (Aware t) cs of
              (Inl _, _) \<Rightarrow> None | (Inr _, cs') \<Rightarrow> Some (l', cs'))))"

fun account_run :: "account_op list \<Rightarrow> ledger \<times> cells \<Rightarrow> (ledger \<times> cells) option" where
  "account_run [] s = Some s"
| "account_run (op # ops) s =
     (case account_step op s of None \<Rightarrow> None | Some s' \<Rightarrow> account_run ops s')"

text \<open>Prices and fees are not negative, and a fill answers one order of the intents it is shared among.\<close>

fun account_op_sane :: "account_op \<Rightarrow> bool" where
  "account_op_sane (ACross n t) \<longleftrightarrow> (\<forall>c \<in> set (all_crosses n). 0 \<le> ic_price c)"
| "account_op_sane (AFill residual sy side q p f t) \<longleftrightarrow>
     residual \<noteq> [] \<and> 0 < q \<and> 0 \<le> p \<and> 0 \<le> f \<and> q \<le> demand residual + eps6 \<and>
     (\<forall>i \<in> set residual. 0 < ci_qty i \<and> ci_symbol i = sy \<and> ci_side i = side)"

fun op_legs :: "account_op \<Rightarrow> nat" where
  "op_legs (ACross n t) = 2 * length (all_crosses n)"
| "op_legs (AFill residual sy side q p f t) = Suc (length residual)"

lemma crosses_applied:
  assumes "cells_ok cs" and "apply_crosses_to_cells n a_t cs = (Inr u, cs')"
    and "\<forall>c \<in> set (all_crosses n). 0 \<le> ic_price c"
  shows "cells_ok cs' \<and> cells_cash cs' = cells_cash cs \<and>
    \<bar>cells_qty cs' sy - cells_qty cs sy\<bar> \<le> real (2 * length (all_crosses n)) * eps"
proof -
  let ?legs = "cross_sells (all_crosses n) @ cross_buys (all_crosses n)"
  have "for_each (post_leg INTERNAL_CROSS a_t) ?legs cs = (Inr u, cs')"
    using assms(2) by (auto simp: apply_crosses_to_cells_def post_cross_legs split: sum.splits)
  moreover have "\<forall>x \<in> set ?legs. leg_sane x"
    using assms(3) by (auto simp: cross_sells_def cross_buys_def leg_sane_def)
  ultimately show ?thesis
    using post_all_totals [OF assms(1), of ?legs, unfolded legs_cross_totals] by simp
qed

lemma shares_applied:
  assumes "cells_ok cs" and "apply_allocations_to_cells as a_t cs = (Inr u, cs')"
    and "\<forall>a \<in> set as. 0 \<le> fa_price a \<and> 0 \<le> fa_fees a"
  shows "cells_ok cs' \<and> cells_cash cs' = cells_cash cs - signed_cost as \<and>
    \<bar>cells_qty cs' sy - (cells_qty cs sy + signed_qty sy as)\<bar> \<le> real (length as) * eps"
proof -
  let ?legs = "legs_by_side SELL as @ legs_by_side BUY as"
  have "for_each (post_leg BROKER_FILL a_t) ?legs cs = (Inr u, cs')"
    using assms(2)
    by (auto simp: apply_allocations_to_cells_def post_shares_legs split: sum.splits)
  moreover have "\<forall>x \<in> set ?legs. leg_sane x"
    using assms(3) by (auto simp: legs_by_side_def share_leg_def leg_sane_def)
  ultimately show ?thesis
    using post_all_totals [OF assms(1), of ?legs, unfolded legs_share_totals] by simp
qed

text \<open>Shares of one order add up to the order.\<close>

lemma one_order_totals:
  assumes "\<forall>a \<in> set as. fa_symbol a = sy \<and> fa_side a = side \<and> fa_price a = p"
  shows "signed_cost as = signed side (shares_qty as) * p + shares_fees as"
    and "signed_qty t as = (if t = sy then signed side (shares_qty as) else 0)"
  using assms by (induction as) (auto simp: signed_cost_def signed_qty_def signed_def algebra_simps)

lemma account_step_gaps:
  assumes "ledger_inv l" and "cells_ok cs" and "account_op_sane op"
    and "account_step op (l, cs) = Some (l', cs')"
  shows "ledger_inv l' \<and> cells_ok cs' \<and> cash_gap cfg l' cs' = cash_gap cfg l cs \<and>
    \<bar>qty_gap l' cs' sy - qty_gap l cs sy\<bar> \<le> real (op_legs op) * eps"
proof (cases op)
  case (ACross n t)
  with assms(4) obtain u where "apply_crosses_to_cells n (Aware t) cs = (Inr u, cs')" "l' = l"
    by (auto split: prod.splits sum.splits)
  with crosses_applied [OF assms(2) this(1), of sy] assms(1,3) ACross show ?thesis
    by (simp add: cash_gap_def qty_gap_def)
next
  case (AFill residual s side q p f t)
  from assms(4) AFill obtain u as v where
    fill: "record_fill s (signed side q) p f (Aware t) l = (Inr u, l')"
    and al: "allocate residual q p f = Inr as" and len: "length as = length residual"
    and app: "apply_allocations_to_cells as (Aware t) cs = (Inr v, cs')"
    by (auto split: prod.splits sum.splits if_splits)
  have sane: "residual \<noteq> []" "0 < q" "0 \<le> p" "0 \<le> f" "q \<le> demand residual + eps6"
    "\<forall>i \<in> set residual. 0 < ci_qty i" "\<forall>i \<in> set residual. ci_symbol i = s \<and> ci_side i = side"
    using assms(3) AFill by auto
  have shares: "\<forall>a \<in> set as. eps < fa_qty a \<and> fa_price a = p \<and> fa_symbol a = s \<and> fa_side a = side"
    "shares_qty as = q" "shares_fees as = f"
    using allocation_total [OF sane(1,2,6,7,5) al len] by auto
  have fees: "\<forall>a \<in> set as. 0 \<le> fa_price a \<and> 0 \<le> fa_fees a"
    using allocation_fees [OF sane(2,4) al] shares(1) sane(3) by simp
  have one: "\<forall>a \<in> set as. fa_symbol a = s \<and> fa_side a = side \<and> fa_price a = p"
    using shares(1) by blast
  note tot = one_order_totals [OF one, unfolded shares(2,3)]
  have f: "ledger_fill t l s (signed side q) p f = Some l'"
    using fill sane(4) by (simp add: ledger_fill_def)
  have inv: "ledger_inv l'" by (rule master_book.fill_inv [OF assms(1) sane(3,4) f])
  have "lg_cash l' = lg_cash l - signed side q * p - f" by (rule master_book.fill_cash [OF f])
  moreover note ap = shares_applied [OF assms(2) app fees, of sy]
  ultimately have cash: "cash_gap cfg l' cs' = cash_gap cfg l cs"
    using tot(1) by (simp add: cash_gap_def)
  have "\<bar>position_qty l' sy - (position_qty l sy + (if sy = s then signed side q else 0))\<bar> \<le> eps"
    using master_book.fill_held [OF assms(1) f] master_book.fill_other [OF f] by (cases "sy = s") auto
  moreover have "real (op_legs op) * eps = real (length as) * eps + eps"
    by (simp add: AFill len algebra_simps)
  ultimately have "\<bar>qty_gap l' cs' sy - qty_gap l cs sy\<bar> \<le> real (op_legs op) * eps"
    using ap tot(2) [of sy] by (simp add: qty_gap_def) linarith
  with inv ap cash show ?thesis by blast
qed

lemma account_run_gaps:
  "ledger_inv l \<Longrightarrow> cells_ok cs \<Longrightarrow> \<forall>op \<in> set ops. account_op_sane op \<Longrightarrow>
    account_run ops (l, cs) = Some (l', cs') \<Longrightarrow>
    cash_gap cfg l' cs' = cash_gap cfg l cs \<and>
    \<bar>qty_gap l' cs' sy - qty_gap l cs sy\<bar> \<le> real (sum_list (map op_legs ops)) * eps"
proof (induction ops arbitrary: l cs)
  case Nil
  then show ?case by simp
next
  case (Cons op ops)
  obtain m ds where step: "account_step op (l, cs) = Some (m, ds)"
    and run: "account_run ops (m, ds) = Some (l', cs')"
    using Cons.prems(4) by (auto split: option.splits)
  have "account_op_sane op" using Cons.prems(3) by simp
  note one = account_step_gaps [OF Cons.prems(1,2) this step]
  have rest: "\<forall>op \<in> set ops. account_op_sane op" using Cons.prems(3) by simp
  have "cash_gap cfg l' cs' = cash_gap cfg m ds \<and>
      \<bar>qty_gap l' cs' sy - qty_gap m ds sy\<bar> \<le> real (sum_list (map op_legs ops)) * eps"
    using Cons.IH [OF _ _ rest run] one [of cfg sy] by blast
  moreover have "real (sum_list (map op_legs (op # ops))) * eps =
      real (op_legs op) * eps + real (sum_list (map op_legs ops)) * eps" by (simp add: algebra_simps)
  ultimately show ?case using one [of cfg sy] by linarith
qed

text \<open>
  C25. The cells reconcile with the master account by construction. Starting from an account
  whose cells add up to it, whatever crosses are applied and whatever broker fills are booked in
  the ledger and shared out completely, the reconciliation of the cells reports nothing and the
  risk state is left alone, as long as the number of legs booked stays within the quantity
  tolerance (a thousand legs for the default of 1e-6).
\<close>

theorem cells_reconcile_with_master:
  assumes "ledger_inv l" and "cells_ok cs" and "\<forall>op \<in> set ops. account_op_sane op"
    and "account_run ops (l, cs) = Some (l', cs')"
    and "cash_gap cfg l cs = 0" and "\<forall>sy. qty_gap l cs sy = 0" and "0 \<le> rc_cash_tol cfg"
    and "real (sum_list (map op_legs ops)) * eps \<le> rc_qty_tol cfg"
  shows "cell_reconcile cfg l' cs' c = ([], c)"
proof -
  note gaps = account_run_gaps [OF assms(1-4)]
  have "\<bar>cash_gap cfg l' cs'\<bar> \<le> rc_cash_tol cfg" using gaps [of cfg] assms(5,7) by simp
  moreover have "\<bar>qty_gap l' cs' sy\<bar> \<le> rc_qty_tol cfg" for sy
    using gaps [of cfg sy] assms(6,8) by auto
  moreover have "0 \<le> rc_qty_tol cfg" using assms(8) by (rule order_trans [rotated]) simp
  ultimately have "fst (cell_reconcile cfg l' cs' c) = []" by (simp add: cell_reconcile_consistent)
  moreover have "cell_reconcile cfg l' cs' c = ([], c)" if "fst (cell_reconcile cfg l' cs' c) = []"
    using that by (simp add: cell_reconcile_def Let_def)
  ultimately show ?thesis by blast
qed

definition demo_account :: "ledger \<times> cells" where
  "demo_account = (the_ledger 100, [(''a'', demo_cell ''a'' 100)])"

lemma cells_reconcile_with_master_witness:
  "\<exists>l' cs'. account_run [AFill [owed ''i1'' ''a'' 2] ''X'' BUY 2 30 1 0] demo_account = Some (l', cs') \<and>
    cell_reconcile default_cell_recon l' cs' None = ([], None)"
proof -
  let ?op = "AFill [owed ''i1'' ''a'' 2] ''X'' BUY 2 30 1 0"
  let ?l = "the_ledger 100" and ?c = "demo_cell ''a'' 100"
  have "\<not> 100 < - eps" "\<not> 39 < - eps" using eps_pos(1) by linarith+
  then have c: "?c = \<lparr>cl_id = ''a'', cl_entries = [\<lparr>ce_at = 0, ce_cell = ''a'', ce_kind = ALLOCATION,
      ce_amount = 100, ce_symbol = None, ce_qty = 0, ce_price = 0, ce_realized = 0\<rparr>],
      cl_cash = 100, cl_lots = [], cl_realized = 0\<rparr>"
    and small: "\<not> 39 < - eps"
    by (simp_all add: demo_cell_def allocate_cash_def at_or_now_def mk_cell_ledger_def Let_def)
  have inv: "ledger_inv ?l" by (rule mk_ledger_inv [of 100 0]) (simp add: mk_ledger_Inr the_ledger_def)
  have "cell_inv ?c" unfolding demo_cell_def by (rule cell_run_inv) simp_all
  then have cok: "cells_ok [(''a'', ?c)]" by (simp add: cells_ok_def)
  have al: "allocate [owed ''i1'' ''a'' 2] 2 30 1 = Inr [\<lparr>fa_cell = ''a'', fa_symbol = ''X'',
      fa_side = BUY, fa_qty = 2, fa_price = 30, fa_fees = 1\<rparr>]"
    by (simp add: allocate_def owed_def demo_intent_def share_of_def eps6_def) (simp add: eps_def)
  have sane: "\<forall>op \<in> set [?op]. account_op_sane op"
    by (simp add: owed_def demo_intent_def demand_def eps6_def)
  have "validate_allocations [(''a'', ?c)] [\<lparr>fa_cell = ''a'', fa_symbol = ''X'',
      fa_side = BUY, fa_qty = 2, fa_price = 30, fa_fees = 1\<rparr>] = Inr ()"
    using small by (simp add: validate_allocations_def validate_share_def dhas_def add_to_def
        dget_or_def c)
  then obtain cs' where "apply_allocations_to_cells [\<lparr>fa_cell = ''a'', fa_symbol = ''X'',
      fa_side = BUY, fa_qty = 2, fa_price = 30, fa_fees = 1\<rparr>] (Aware 0) [(''a'', ?c)] = (Inr (), cs')"
    using small by (simp add: apply_allocations_to_cells_def post_share_def on_cell_def
        record_broker_fill_def apply_fill_eq fill_lot_def c Let_def)
  moreover obtain l' where "record_fill ''X'' 2 30 1 (Aware 0) ?l = (Inr (), l')"
    using small by (simp add: record_fill_cases the_ledger_def fill_lot_def Let_def)
  ultimately have run: "account_run [?op] (?l, [(''a'', ?c)]) = Some (l', cs')"
    by (simp add: signed_def al)
  have gap: "cash_gap default_cell_recon ?l [(''a'', ?c)] = 0"
    "\<forall>sy. qty_gap ?l [(''a'', ?c)] sy = 0"
    by (simp_all add: cash_gap_def qty_gap_def c the_ledger_def default_cell_recon_def cells_cash_def
        cells_qty_def cell_qty_def position_qty_def qty_of_def)
  have tol: "0 \<le> rc_cash_tol default_cell_recon"
    "real (sum_list (map op_legs [?op])) * eps \<le> rc_qty_tol default_cell_recon"
    by (simp_all add: default_cell_recon_def eps_def)
  show ?thesis
    using cells_reconcile_with_master [OF inv cok sane run gap tol] run
    unfolding demo_account_def by blast
qed

text \<open>Reconciliation against a broker that reports the same cash and no positions.\<close>

definition demo_adapter :: "real \<Rightarrow> unit adapter" where
  "demo_adapter c = \<lparr>ad_submit = (\<lambda>_ s. (Inl ValueError, s)), ad_cancel = (\<lambda>_ s. (Inl ValueError, s)),
     ad_status = (\<lambda>_ _. Inl ValueError), ad_positions = (\<lambda>_. Inr []),
     ad_cash = (\<lambda>_. Inr \<lparr>bc_settled = c, bc_unsettled = 0\<rparr>), ad_open_orders = (\<lambda>_. Inr []),
     ad_fills = (\<lambda>_ _. Inr []), ad_poll = (\<lambda>s. (Inr [], s))\<rparr>"

lemma reconciliation_is_exact_witness:
  "let (r, c') = reconcile (demo_adapter 90) () default_tolerance (the_ledger 100) demo_controller
   in r = Inr [CashMismatch] \<and> \<not> entry_allowed_by_state c' T_NORMAL"
proof -
  have r: "reconcile (demo_adapter 90) () default_tolerance (the_ledger 100) demo_controller =
      (Inr [CashMismatch], set_state HALT_NEW_ENTRIES demo_controller)"
    by (simp add: reconcile_def demo_adapter_def default_tolerance_def the_ledger_def
        cash_mismatch_def index_positions_def broker_side_def dkeys_def Let_def)
  have inv: "ledger_inv (the_ledger 100)"
    by (rule mk_ledger_inv [of 100 0]) (simp add: mk_ledger_Inr the_ledger_def)
  from reconciliation_is_exact [OF inv r, of T_NORMAL] r show ?thesis by simp
qed

end
