(* ===== verification/CellStops.thy ===== *)
theory CellStops
  imports Reservation Netting
begin

text \<open>
  \<open>services/capital_cells/stops.py\<close>: the stop plans of the cells, the exit intents a firing
  stop produces, and the sell reservations that keep overlapping exits from selling the same
  shares twice. The first eight hex digits of the \<open>n\<close>-th \<open>uuid4()\<close> are a parameter.
\<close>

section \<open>Sell reservations\<close>

record sell_reservation =
  sr_cell :: string
  sr_symbol :: string
  sr_qty :: real

record sell_book =
  sb_master :: "(string, real) dict"
  sb_table :: "(string, sell_reservation) dict"

definition sync_master_long_qty :: "string \<Rightarrow> real \<Rightarrow> sell_book \<Rightarrow> sell_book" where
  "sync_master_long_qty symbol qty s = s\<lparr>sb_master := dput (sb_master s) symbol qty\<rparr>"

definition reserved_qty :: "string \<Rightarrow> string option \<Rightarrow> sell_book \<Rightarrow> real" where
  "reserved_qty symbol cell s =
     dsum (\<lambda>r. if sr_symbol r = symbol \<and> (cell = None \<or> cell = Some (sr_cell r))
               then sr_qty r else 0) (sb_table s)"

definition available_to_reserve :: "string \<Rightarrow> sell_book \<Rightarrow> real" where
  "available_to_reserve symbol s =
     max 0 (dget_or (sb_master s) symbol 0 - reserved_qty symbol None s)"

definition check_can_reserve :: "string \<Rightarrow> real \<Rightarrow> sell_book \<Rightarrow> exn + unit" where
  "check_can_reserve symbol qty s =
     (if available_to_reserve symbol s + eps < qty then Inl OversellError else Inr ())"

definition reserve_sell ::
    "string \<Rightarrow> string \<Rightarrow> string \<Rightarrow> real \<Rightarrow> (sell_book, sell_reservation) act" where
  "reserve_sell rid cell symbol qty s =
     (if qty \<le> 0 then (Inl ValueError, s)
      else if dhas (sb_table s) rid then (Inl DuplicateSellReservationError, s)
      else case check_can_reserve symbol qty s of
          Inl e \<Rightarrow> (Inl e, s)
        | Inr _ \<Rightarrow>
            (let r = \<lparr>sr_cell = cell, sr_symbol = symbol, sr_qty = qty\<rparr>
             in (Inr r, s\<lparr>sb_table := dput (sb_table s) rid r\<rparr>)))"

definition release_sell :: "string \<Rightarrow> (sell_book, unit) act" where
  "release_sell rid s =
     (if \<not> dhas (sb_table s) rid then (Inl UnknownSellReservationError, s)
      else (Inr (), s\<lparr>sb_table := ddel (sb_table s) rid\<rparr>))"

text \<open>A book of reservations with one pool per symbol, the master's long position.\<close>

definition book_sell :: "string \<Rightarrow> sell_reservation \<Rightarrow> (sell_book, sell_reservation) act" where
  "book_sell rid r = reserve_sell rid (sr_cell r) (sr_symbol r) (sr_qty r)"

lemma reserved_qty_pool: "reserved_qty symbol None s = pool_sum sr_symbol sr_qty symbol (sb_table s)"
  by (simp add: reserved_qty_def pool_sum_def)

lemma sell_reservation_eta [simp]:
  "\<lparr>sr_cell = sr_cell r, sr_symbol = sr_symbol r, sr_qty = sr_qty r\<rparr> = r"
  by simp

interpretation sells: reservation_book sb_table sr_qty sr_symbol
  "\<lambda>s p. dget_or (sb_master s) p 0" book_sell release_sell
  by unfold_locales
    (auto simp: book_sell_def reserve_sell_def release_sell_def check_can_reserve_def
      available_to_reserve_def reserved_qty_pool dhas_def Let_def max_def split: if_splits)

section \<open>The stop registry\<close>

record stop_registry =
  sg_sells :: sell_book
  sg_stops :: "(string, cell_stop_plan) dict"

definition register_stop :: "cell_stop_plan \<Rightarrow> (stop_registry, cell_stop_plan) act" where
  "register_stop plan g =
     (if dhas (sg_stops g) (cs_id plan) then (Inl DuplicateStopIdError, g)
      else (Inr plan, g\<lparr>sg_stops := dput (sg_stops g) (cs_id plan) plan\<rparr>))"

definition get_stop :: "string \<Rightarrow> stop_registry \<Rightarrow> exn + cell_stop_plan" where
  "get_stop sid g = (case dget (sg_stops g) sid of None \<Rightarrow> Inl UnknownStopError | Some p \<Rightarrow> Inr p)"

definition cancel_stop :: "string \<Rightarrow> (stop_registry, unit) act" where
  "cancel_stop sid g =
     (if \<not> dhas (sg_stops g) sid then (Inl UnknownStopError, g)
      else (Inr (), g\<lparr>sg_stops := ddel (sg_stops g) sid\<rparr>))"

definition stops_for_cell :: "string \<Rightarrow> stop_registry \<Rightarrow> cell_stop_plan list" where
  "stops_for_cell cell g = filter (\<lambda>p. cs_cell p = cell) (dvals (sg_stops g))"

section \<open>Firing a stop\<close>

definition stop_targets :: "cell_stop_plan \<Rightarrow> cells \<Rightarrow> (string \<times> string) list" where
  "stop_targets plan cs =
     (case cs_scope plan of
        CELL \<Rightarrow> [(cs_cell plan, cs_symbol plan)]
      | SYMBOL \<Rightarrow> map (\<lambda>(cid, _). (cid, cs_symbol plan))
          (filter (\<lambda>(_, l). eps < cell_qty l (cs_symbol plan)) cs)
      | PORTFOLIO \<Rightarrow> concat (map (\<lambda>(cid, l). map (\<lambda>sy. (cid, sy))
          (filter (\<lambda>sy. eps < cell_qty l sy) (dkeys (cl_lots l)))) cs))"

fun plan_exits :: "cells \<Rightarrow> sell_book \<Rightarrow> (string \<times> string) list \<Rightarrow> (string \<times> string \<times> real) list" where
  "plan_exits cs s [] = []"
| "plan_exits cs s ((cid, sy) # ts) =
     (case dget cs cid of
        None \<Rightarrow> plan_exits cs s ts
      | Some l \<Rightarrow>
          (let exit_qty = cell_qty l sy - reserved_qty sy (Some cid) s in
           if exit_qty \<le> eps then plan_exits cs s ts
           else (cid, sy, exit_qty) # plan_exits cs s ts))"

fun check_demand :: "(string \<times> real) list \<Rightarrow> sell_book \<Rightarrow> exn + unit" where
  "check_demand [] s = Inr ()"
| "check_demand ((sy, q) # d) s =
     (case check_can_reserve sy q s of Inl e \<Rightarrow> Inl e | Inr _ \<Rightarrow> check_demand d s)"

definition exit_id :: "string \<Rightarrow> string \<Rightarrow> string \<Rightarrow> string \<Rightarrow> string" where
  "exit_id sid cid sy hex8 = sid @ '':'' @ cid @ '':'' @ sy @ '':'' @ hex8"

fun commit_exits ::
    "string \<Rightarrow> (nat \<Rightarrow> string) \<Rightarrow> instant \<Rightarrow> nat \<Rightarrow> (string \<times> string \<times> real) list \<Rightarrow>
     (sell_book, cell_intent list) act" where
  "commit_exits sid hex t n [] s = (Inr [], s)"
| "commit_exits sid hex t n ((cid, sy, q) # ps) s =
     (let rid = exit_id sid cid sy (hex n) in
      case reserve_sell rid cid sy q s of
        (Inl e, s') \<Rightarrow> (Inl e, s')
      | (Inr _, s') \<Rightarrow>
          (case mk_cell_intent \<lparr>ci_id = rid, ci_cell = cid, ci_symbol = sy, ci_side = SELL,
                               ci_qty = q, ci_created = t\<rparr> of
             Inl e \<Rightarrow> (Inl e, s')
           | Inr i \<Rightarrow> (case commit_exits sid hex t (Suc n) ps s' of
               (Inl e, s'') \<Rightarrow> (Inl e, s'')
             | (Inr is, s'') \<Rightarrow> (Inr (i # is), s''))))"

definition trigger ::
    "(nat \<Rightarrow> string) \<Rightarrow> string \<Rightarrow> cells \<Rightarrow> pydt \<Rightarrow> (stop_registry, cell_intent list) act" where
  "trigger hex sid cs a_t g =
     (case get_stop sid g of Inl e \<Rightarrow> (Inl e, g) | Inr plan \<Rightarrow>
      case ensure_utc a_t of Inl e \<Rightarrow> (Inl e, g) | Inr t \<Rightarrow>
        (let planned = plan_exits cs (sg_sells g) (stop_targets plan cs);
             demand = tally (map (\<lambda>(_, sy, q). (sy, q)) planned) []
         in case check_demand demand (sg_sells g) of
              Inl e \<Rightarrow> (Inl e, g)
            | Inr _ \<Rightarrow> (case commit_exits sid hex t 0 planned (sg_sells g) of
                (r, s') \<Rightarrow> (r, g\<lparr>sg_sells := s'\<rparr>))))"

section \<open>Planning\<close>

lemma plan_exits_in:
  "(cid, sy, q) \<in> set (plan_exits cs s ts) \<longleftrightarrow> (cid, sy) \<in> set ts \<and>
    (\<exists>l. dget cs cid = Some l \<and> q = cell_qty l sy - reserved_qty sy (Some cid) s \<and> eps < q)"
  by (induction cs s ts rule: plan_exits.induct) (auto simp: Let_def split: option.splits)

lemma plan_exits_length: "length (plan_exits cs s ts) \<le> length ts"
  by (induction ts) (auto simp: Let_def split: option.splits)

lemma plan_exits_distinct:
  "distinct ts \<Longrightarrow> distinct (map (\<lambda>(cid, sy, q). (cid, sy)) (plan_exits cs s ts))"
proof (induction cs s ts rule: plan_exits.induct)
  case (2 cs s cid sy ts)
  have "(cid, sy) \<notin> set (map (\<lambda>(cid, sy, q). (cid, sy)) (plan_exits cs s ts))"
    using "2.prems" by (auto simp: plan_exits_in)
  with 2 show ?case by (auto simp: Let_def split: option.splits)
qed simp

lemma stop_targets_distinct:
  assumes "cells_ok cs"
  shows "distinct (stop_targets plan cs)"
proof (cases "cs_scope plan")
  case CELL
  then show ?thesis by (simp add: stop_targets_def)
next
  case SYMBOL
  have "inj_on fst (set cs)" "distinct cs"
    using assms by (auto simp: cells_ok_def dict_ok_def distinct_map)
  then have "inj_on (\<lambda>(cid, l). (cid, cs_symbol plan)) (set cs)"
    by (simp add: inj_on_def split_def)
  with \<open>distinct cs\<close> SYMBOL show ?thesis
    by (auto simp: stop_targets_def distinct_map split_def intro: inj_on_subset)
next
  case PORTFOLIO
  have all: "distinct (concat (map (\<lambda>(cid, l). map (\<lambda>sy. (cid, sy))
          (filter (\<lambda>sy. eps < cell_qty l sy) (dkeys (cl_lots l)))) ds))"
    if "dict_ok ds" "\<And>k l. (k, l) \<in> set ds \<Longrightarrow> dict_ok (cl_lots l)" for ds
    using that
  proof (induction ds)
    case (Cons d ds)
    obtain k l where d: "d = (k, l)" by (cases d)
    let ?f = "\<lambda>(cid, l). map (\<lambda>sy. (cid, sy)) (filter (\<lambda>sy. eps < cell_qty l sy) (dkeys (cl_lots l)))"
    have "distinct (dkeys (cl_lots l))"
      using Cons.prems(2) [of k l] d by (simp add: dict_ok_def dkeys_def)
    then have "distinct (?f d)" by (simp add: d distinct_map inj_on_def)
    moreover have "k \<notin> fst ` set ds"
      using Cons.prems(1) d dget_None_iff [of ds k] by (auto simp: dkeys_def)
    then have "set (?f d) \<inter> set (concat (map ?f ds)) = {}" by (force simp: d)
    moreover have "distinct (concat (map ?f ds))"
      by (rule Cons.IH) (use Cons.prems d in auto)
    ultimately show ?case by simp
  qed simp
  have "dict_ok (cl_lots l)" if "(k, l) \<in> set cs" for k l
  proof -
    have "dget cs k = Some l" using that assms in_set_dget cells_ok_def by metis
    from cells_okD [OF assms this] show ?thesis by (auto simp: cell_inv_def)
  qed
  then have "distinct (concat (map (\<lambda>(cid, l). map (\<lambda>sy. (cid, sy))
      (filter (\<lambda>sy. eps < cell_qty l sy) (dkeys (cl_lots l)))) cs))"
    using assms by (intro all) (simp_all add: cells_ok_def)
  with PORTFOLIO show ?thesis by (simp add: stop_targets_def)
qed

section \<open>Committing\<close>

text \<open>
  The ids that \<open>uuid4\<close> gives in one call are new: from the \<open>a\<close>-th to before the \<open>b\<close>-th no
  two agree, and none is in use.
\<close>

definition fresh_ids :: "string \<Rightarrow> (nat \<Rightarrow> string) \<Rightarrow> nat \<Rightarrow> nat \<Rightarrow> sell_book \<Rightarrow> bool" where
  "fresh_ids sid hex a b s \<longleftrightarrow>
     (\<forall>m n c sy c' sy'. a \<le> m \<longrightarrow> m < n \<longrightarrow> n < b \<longrightarrow>
        exit_id sid c sy (hex m) \<noteq> exit_id sid c' sy' (hex n)) \<and>
     (\<forall>n c sy. a \<le> n \<longrightarrow> n < b \<longrightarrow> \<not> dhas (sb_table s) (exit_id sid c sy (hex n)))"

lemma fresh_ids_le: "fresh_ids sid hex a b s \<Longrightarrow> b' \<le> b \<Longrightarrow> fresh_ids sid hex a b' s"
  by (auto simp: fresh_ids_def)

lemma fresh_ids_used:
  "fresh_ids sid hex a b s \<Longrightarrow> a < b \<Longrightarrow>
    fresh_ids sid hex (Suc a) b (s\<lparr>sb_table := dput (sb_table s) (exit_id sid c sy (hex a)) r\<rparr>)"
  by (auto simp: fresh_ids_def dhas_def dict_simps) (metis Suc_le_eq le_refl)

definition demand_of :: "string \<Rightarrow> (string \<times> string \<times> real) list \<Rightarrow> real" where
  "demand_of t ps = (\<Sum>(cid, sy, q)\<leftarrow>ps. if sy = t then q else 0)"

lemma demand_of_simps [simp]:
  "demand_of t [] = 0"
  "demand_of t ((cid, sy, q) # ps) = (if sy = t then q else 0) + demand_of t ps"
  by (simp_all add: demand_of_def)

lemma demand_of_nonneg: "\<forall>x \<in> set ps. eps < snd (snd x) \<Longrightarrow> 0 \<le> demand_of t ps"
  by (induction ps) (auto intro!: add_nonneg_nonneg intro: above_eps(2))

lemma demand_of_key_total: "demand_of t ps = key_total t (map (\<lambda>(_, sy, q). (sy, q)) ps)"
  by (induction ps) auto

lemma check_demand_Inr:
  "check_demand d s = Inr () \<longleftrightarrow> (\<forall>x \<in> set d. snd x \<le> available_to_reserve (fst x) s + eps)"
  by (induction d s rule: check_demand.induct) (auto simp: check_can_reserve_def)

lemma check_demand_Inl: "check_demand d s = Inl e \<Longrightarrow> e = OversellError"
  by (induction d s rule: check_demand.induct)
    (auto simp: check_can_reserve_def split: sum.splits if_splits)

lemma tally_demand:
  assumes "check_demand (tally (map (\<lambda>(_, sy, q). (sy, q)) ps) []) s = Inr ()"
    and "\<forall>x \<in> set ps. eps < snd (snd x)"
  shows "demand_of t ps = 0 \<or>
    reserved_qty t None s + demand_of t ps \<le> dget_or (sb_master s) t 0 + eps"
proof (cases "t \<in> fst ` set (map (\<lambda>(_, sy, q). (sy, q)) ps)")
  case True
  have "(t, demand_of t ps) \<in> set (tally (map (\<lambda>(_, sy, q). (sy, q)) ps) [])"
    using True by (auto simp: set_tally demand_of_key_total)
  then have le: "demand_of t ps \<le> available_to_reserve t s + eps"
    using assms(1) by (auto simp: check_demand_Inr)
  from True obtain cid q where q: "(cid, t, q) \<in> set ps" by auto
  have "q \<le> demand_of t ps" using q assms(2)
  proof (induction ps)
    case (Cons a ps)
    obtain c sy r where a: "a = (c, sy, r)" by (cases a)
    have nn: "0 \<le> demand_of t ps" using Cons.prems(2) by (intro demand_of_nonneg) simp
    show ?case
    proof (cases "(cid, t, q) = a")
      case True
      with a nn show ?thesis by simp
    next
      case False
      with Cons have "q \<le> demand_of t ps" by auto
      moreover have "0 \<le> r" using Cons.prems(2) a above_eps(2) by auto
      ultimately show ?thesis by (simp add: a)
    qed
  qed simp
  moreover have "eps < q" using q assms(2) by force
  ultimately have "eps < available_to_reserve t s + eps" using le by linarith
  then have "available_to_reserve t s = dget_or (sb_master s) t 0 - reserved_qty t None s"
    by (simp add: available_to_reserve_def)
  with le show ?thesis by linarith
next
  case False
  then have "demand_of t ps = 0" by (simp add: demand_of_key_total key_total_absent)
  then show ?thesis ..
qed

lemma exit_id_nonempty: "exit_id sid c sy h \<noteq> []"
  by (simp add: exit_id_def)

definition intent_of :: "string \<Rightarrow> (nat \<Rightarrow> string) \<Rightarrow> instant \<Rightarrow> nat \<Rightarrow> string \<times> string \<times> real \<Rightarrow> cell_intent" where
  "intent_of sid hex t n x = (case x of (cid, sy, q) \<Rightarrow>
     \<lparr>ci_id = exit_id sid cid sy (hex n), ci_cell = cid, ci_symbol = sy, ci_side = SELL,
      ci_qty = q, ci_created = t\<rparr>)"

text \<open>
  When the demand of a plan fits, the commit records all of it: each exit gets its reservation
  and its intent, and the reservations grow by exactly the plan.
\<close>

lemma commit_exits_ok:
  assumes "\<forall>x \<in> set ps. eps < snd (snd x) \<and> fst x \<noteq> [] \<and> fst (snd x) \<noteq> []"
    and "\<And>t. demand_of t ps = 0 \<or>
      reserved_qty t None s + demand_of t ps \<le> dget_or (sb_master s) t 0 + eps"
    and "fresh_ids sid hex n (n + length ps) s"
  shows "\<exists>s'. commit_exits sid hex t n ps s =
      (Inr (map (\<lambda>(k, x). intent_of sid hex t k x) (enumerate n ps)), s') \<and>
    sb_master s' = sb_master s \<and>
    (\<forall>sy c. reserved_qty sy c s' = reserved_qty sy c s +
      (\<Sum>(cid, y, q)\<leftarrow>ps. if y = sy \<and> (c = None \<or> c = Some cid) then q else 0))"
  using assms
proof (induction ps arbitrary: n s)
  case Nil
  then show ?case by simp
next
  case (Cons p ps)
  obtain cid sy q where p: "p = (cid, sy, q)" by (cases p)
  have v: "eps < q" "cid \<noteq> []" "sy \<noteq> []" using Cons.prems(1) p by auto
  have rest: "\<forall>x \<in> set ps. eps < snd (snd x) \<and> fst x \<noteq> [] \<and> fst (snd x) \<noteq> []"
    using Cons.prems(1) by simp
  have nn: "0 \<le> demand_of t ps" for t using rest by (intro demand_of_nonneg) simp
  let ?rid = "exit_id sid cid sy (hex n)"
  let ?r = "\<lparr>sr_cell = cid, sr_symbol = sy, sr_qty = q\<rparr>"
  let ?s = "s\<lparr>sb_table := dput (sb_table s) ?rid ?r\<rparr>"
  have new: "dget (sb_table s) ?rid = None" using Cons.prems(3) by (auto simp: fresh_ids_def dhas_def)
  have "demand_of sy (p # ps) = q + demand_of sy ps" by (simp add: p)
  moreover have "0 < q" using v(1) by (rule above_eps(1))
  ultimately have "reserved_qty sy None s + (q + demand_of sy ps) \<le> dget_or (sb_master s) sy 0 + eps"
    using Cons.prems(2) [of sy] nn [of sy] by linarith
  then have "reserved_qty sy None s + q \<le> dget_or (sb_master s) sy 0 + eps"
    using nn [of sy] by linarith
  then have book: "reserve_sell ?rid cid sy q s = (Inr ?r, ?s)"
    using \<open>0 < q\<close> new
    by (simp add: reserve_sell_def check_can_reserve_def available_to_reserve_def dhas_def Let_def)
  have mk: "mk_cell_intent (intent_of sid hex t n p) = Inr (intent_of sid hex t n p)"
    using v \<open>0 < q\<close> by (simp add: mk_cell_intent_def cell_intent_ok_def intent_of_def p exit_id_def)
  have res: "reserved_qty y c ?s = reserved_qty y c s +
      (if sy = y \<and> (c = None \<or> c = Some cid) then q else 0)" for y c
    using new by (auto simp: reserved_qty_def dsum_dput)
  have d: "demand_of t ps = 0 \<or>
      reserved_qty t None ?s + demand_of t ps \<le> dget_or (sb_master ?s) t 0 + eps" for t
    using Cons.prems(2) [of t] nn [of t] res [of t None] \<open>0 < q\<close> by (auto simp: p)
  have "fresh_ids sid hex (Suc n) (n + length (p # ps)) ?s"
    by (rule fresh_ids_used [OF Cons.prems(3)]) simp
  then have f: "fresh_ids sid hex (Suc n) (Suc n + length ps) ?s" by simp
  obtain s' where rec: "commit_exits sid hex t (Suc n) ps ?s =
      (Inr (map (\<lambda>(k, x). intent_of sid hex t k x) (enumerate (Suc n) ps)), s')"
    "sb_master s' = sb_master ?s"
    "\<forall>sy c. reserved_qty sy c s' = reserved_qty sy c ?s +
      (\<Sum>(cid, y, q)\<leftarrow>ps. if y = sy \<and> (c = None \<or> c = Some cid) then q else 0)"
    using Cons.IH [OF rest d f] by blast
  have "commit_exits sid hex t n (p # ps) s =
      (Inr (map (\<lambda>(k, x). intent_of sid hex t k x) (enumerate n (p # ps))), s')"
    using book mk rec(1) by (simp add: p intent_of_def Let_def)
  with rec(2,3) res show ?case by (auto simp: p)
qed

section \<open>Property\<close>

text \<open>Whom a stop reaches.\<close>

definition scope_covers :: "cell_stop_plan \<Rightarrow> string \<Rightarrow> string \<Rightarrow> bool" where
  "scope_covers plan cid sy \<longleftrightarrow>
     (case cs_scope plan of
        CELL \<Rightarrow> cid = cs_cell plan \<and> sy = cs_symbol plan
      | SYMBOL \<Rightarrow> sy = cs_symbol plan
      | PORTFOLIO \<Rightarrow> True)"

lemma stop_targets_cover:
  assumes "cells_ok cs" and l: "dget cs cid = Some l" and "eps < cell_qty l sy"
  shows "(cid, sy) \<in> set (stop_targets plan cs) \<longleftrightarrow> scope_covers plan cid sy"
proof -
  have mem: "(cid, l') \<in> set cs \<longleftrightarrow> l' = l" for l'
    using in_set_dget [of cs cid l'] assms(1) l by (auto simp: cells_ok_def)
  have "dget (cl_lots l) sy \<noteq> None"
    using above_eps(1) [OF assms(3)] by (auto simp: cell_qty_def qty_of_def split: option.splits)
  then have "sy \<in> set (dkeys (cl_lots l))" using dget_None_iff [of "cl_lots l" sy] by auto
  with mem assms(3) show ?thesis
    by (cases "cs_scope plan") (auto simp: stop_targets_def scope_covers_def)
qed

lemma stop_targets_covered:
  "(cid, sy) \<in> set (stop_targets plan cs) \<Longrightarrow> scope_covers plan cid sy"
  by (cases "cs_scope plan") (auto simp: stop_targets_def scope_covers_def)

lemma planned_sum:
  assumes "distinct (map (\<lambda>(cid, sy, q). (cid, sy)) ps)"
  shows "(\<Sum>(c, y, q)\<leftarrow>ps. if y = sy \<and> (Some cid = None \<or> Some cid = Some c) then q else 0) =
    (case map_of (map (\<lambda>(c, y, q). ((c, y), q)) ps) (cid, sy) of None \<Rightarrow> 0 | Some q \<Rightarrow> (q :: real))"
  using assms
proof (induction ps)
  case (Cons p ps)
  obtain c y q where p: "p = (c, y, q)" by (cases p)
  have "map_of (map (\<lambda>(c, y, q). ((c, y), q)) ps) (c, y) = None"
    using Cons.prems by (force simp: p map_of_eq_None_iff)
  with Cons show ?case by (auto simp: p)
qed simp

lemma reserved_nonneg: "sells.book_inv s \<Longrightarrow> 0 \<le> reserved_qty sy c s"
  unfolding reserved_qty_def
  by (rule dsum_nonneg)
    (auto simp: sells.book_inv_def dvals_def in_set_dget [symmetric] intro: less_imp_le)

lemma exits_named:
  assumes "sells.book_inv s" and "\<forall>cid l. dget cs cid = Some l \<longrightarrow> cid \<noteq> [] \<and> dget (cl_lots l) [] = None"
  shows "\<forall>x \<in> set (plan_exits cs s ts). eps < snd (snd x) \<and> fst x \<noteq> [] \<and> fst (snd x) \<noteq> []"
proof
  fix x assume x: "x \<in> set (plan_exits cs s ts)"
  obtain cid sy q where e: "x = (cid, sy, q)" by (cases x)
  with x obtain l where l: "dget cs cid = Some l" "q = cell_qty l sy - reserved_qty sy (Some cid) s" "eps < q"
    by (auto simp: plan_exits_in)
  have "0 < cell_qty l sy" using l(2,3) reserved_nonneg [OF assms(1), of sy "Some cid"] eps_pos(1) by linarith
  then have "sy \<noteq> []" using assms(2) l(1) by (auto simp: cell_qty_def qty_of_def)
  with l assms(2) e show "eps < snd (snd x) \<and> fst x \<noteq> [] \<and> fst (snd x) \<noteq> []" by auto
qed

text \<open>The intents of a fired stop are its planned exits.\<close>

definition exit_intents :: "string \<Rightarrow> (nat \<Rightarrow> string) \<Rightarrow> instant \<Rightarrow> (string \<times> string \<times> real) list \<Rightarrow> cell_intent list" where
  "exit_intents sid hex t ps = map (\<lambda>(k, x). intent_of sid hex t k x) (enumerate 0 ps)"

lemma exit_intents_planned:
  assumes "i \<in> set (exit_intents sid hex t ps)"
  shows "(ci_cell i, ci_symbol i, ci_qty i) \<in> set ps \<and> ci_side i = SELL"
proof -
  from assms obtain k where "k < length ps" "i = intent_of sid hex t k (ps ! k)"
    by (auto simp: exit_intents_def in_set_enumerate_eq)
  moreover obtain c y q where e: "ps ! k = (c, y, q)" by (cases "ps ! k")
  ultimately have "(c, y, q) \<in> set ps" "i = intent_of sid hex t k (c, y, q)" using nth_mem by metis+
  then show ?thesis by (simp add: intent_of_def)
qed

lemma planned_exit_intents:
  assumes "(c, y, q) \<in> set ps"
  shows "\<exists>i \<in> set (exit_intents sid hex t ps). ci_cell i = c \<and> ci_symbol i = y"
proof -
  from assms obtain k where "k < length ps" "ps ! k = (c, y, q)" by (auto simp: in_set_conv_nth)
  then have "(k, (c, y, q)) \<in> set (enumerate 0 ps)" by (simp add: in_set_enumerate_eq)
  then have "intent_of sid hex t k (c, y, q) \<in> set (exit_intents sid hex t ps)" by (force simp: exit_intents_def)
  then show ?thesis by (rule bexI [rotated]) (simp add: intent_of_def)
qed

text \<open>Each position in the scope that is not being sold gets one intent, for what is left of it.\<close>

lemma exit_intents_each:
  assumes "cells_ok cs" and "sells.book_inv s" and l: "dget cs cid = Some l"
    and is_def: "is = exit_intents sid hex t (plan_exits cs s (stop_targets plan cs))"
  shows "(\<exists>i \<in> set is. ci_cell i = cid \<and> ci_symbol i = sy) =
      (scope_covers plan cid sy \<and> eps < cell_qty l sy - reserved_qty sy (Some cid) s)"
    and "\<forall>i \<in> set is. ci_cell i = cid \<and> ci_symbol i = sy \<longrightarrow>
      ci_side i = SELL \<and> ci_qty i = cell_qty l sy - reserved_qty sy (Some cid) s"
proof -
  let ?ps = "plan_exits cs s (stop_targets plan cs)"
  have covered: "(cid, sy) \<in> set (stop_targets plan cs) \<longleftrightarrow> scope_covers plan cid sy"
    if "eps < cell_qty l sy - reserved_qty sy (Some cid) s"
    using that reserved_nonneg [OF assms(2), of sy "Some cid"] by (intro stop_targets_cover [OF assms(1) l]) linarith
  have "(\<exists>i \<in> set is. ci_cell i = cid \<and> ci_symbol i = sy) \<longleftrightarrow> (\<exists>q. (cid, sy, q) \<in> set ?ps)"
    unfolding is_def using exit_intents_planned planned_exit_intents by metis
  also have "\<dots> \<longleftrightarrow> (cid, sy) \<in> set (stop_targets plan cs) \<and> eps < cell_qty l sy - reserved_qty sy (Some cid) s"
    using l by (simp add: plan_exits_in)
  finally show "(\<exists>i \<in> set is. ci_cell i = cid \<and> ci_symbol i = sy) =
      (scope_covers plan cid sy \<and> eps < cell_qty l sy - reserved_qty sy (Some cid) s)"
    using covered by blast
  show "\<forall>i \<in> set is. ci_cell i = cid \<and> ci_symbol i = sy \<longrightarrow>
      ci_side i = SELL \<and> ci_qty i = cell_qty l sy - reserved_qty sy (Some cid) s"
    unfolding is_def using exit_intents_planned l by (fastforce simp: plan_exits_in)
qed

text \<open>Once the planned exits are reserved, there is nothing left to plan.\<close>

lemma nothing_left_to_plan:
  assumes "cells_ok cs" and "ts = stop_targets plan cs" and "ps = plan_exits cs s ts"
    and res: "\<forall>sy c. reserved_qty sy c s' = reserved_qty sy c s +
        (\<Sum>(cid, y, q)\<leftarrow>ps. if y = sy \<and> (c = None \<or> c = Some cid) then q else 0)"
  shows "plan_exits cs s' ts = []"
proof (rule ccontr)
  have dist: "distinct (map (\<lambda>(cid, sy, q). (cid, sy)) ps)"
    unfolding assms(2,3) by (rule plan_exits_distinct [OF stop_targets_distinct [OF assms(1)]])
  have left: "cell_qty l sy - reserved_qty sy (Some cid) s' \<le> eps"
    if t: "(cid, sy) \<in> set ts" and l: "dget cs cid = Some l" for cid sy l
  proof (cases "map_of (map (\<lambda>(c, y, q). ((c, y), q)) ps) (cid, sy)")
    case None
    then have "\<nexists>q. (cid, sy, q) \<in> set ps" by (force simp: map_of_eq_None_iff)
    then show ?thesis
      using res planned_sum [OF dist, of sy cid] None t l unfolding assms(3) by (auto simp: plan_exits_in)
  next
    case (Some q)
    then have "(cid, sy, q) \<in> set ps" by (auto dest: map_of_SomeD)
    then show ?thesis
      using res planned_sum [OF dist, of sy cid] Some l unfolding assms(3) by (auto simp: plan_exits_in)
  qed
  assume "plan_exits cs s' ts \<noteq> []"
  then obtain cid sy q where "(cid, sy, q) \<in> set (plan_exits cs s' ts)"
    by (metis list.set_sel(1) prod_cases3)
  with left show False by (force simp: plan_exits_in)
qed

text \<open>An accepted demand is committed as a whole.\<close>

lemma commit_plan:
  assumes "cells_ok cs" and "sells.book_inv s" and "fresh_ids sid hex 0 (length ts) s"
    and "\<forall>cid l. dget cs cid = Some l \<longrightarrow> cid \<noteq> [] \<and> dget (cl_lots l) [] = None"
    and "ps = plan_exits cs s ts" and "check_demand (tally (map (\<lambda>(_, sy, q). (sy, q)) ps) []) s = Inr u"
  obtains s' where "commit_exits sid hex t 0 ps s = (Inr (exit_intents sid hex t ps), s')"
    and "\<forall>sy c. reserved_qty sy c s' = reserved_qty sy c s +
        (\<Sum>(cid, y, q)\<leftarrow>ps. if y = sy \<and> (c = None \<or> c = Some cid) then q else 0)"
    and "\<forall>sy. reserved_qty sy None s' = reserved_qty sy None s \<or>
        reserved_qty sy None s' \<le> dget_or (sb_master s) sy 0 + eps"
proof -
  have named: "\<forall>x \<in> set ps. eps < snd (snd x) \<and> fst x \<noteq> [] \<and> fst (snd x) \<noteq> []"
    unfolding assms(5) by (rule exits_named [OF assms(2,4)])
  have fit: "demand_of y ps = 0 \<or> reserved_qty y None s + demand_of y ps \<le> dget_or (sb_master s) y 0 + eps" for y
    using tally_demand assms(6) named by simp
  have "length ps \<le> length ts" unfolding assms(5) by (rule plan_exits_length)
  then have ids: "fresh_ids sid hex 0 (length ps) s" by (rule fresh_ids_le [OF assms(3)])
  obtain s' where c: "commit_exits sid hex t 0 ps s = (Inr (exit_intents sid hex t ps), s')"
    "\<forall>sy c. reserved_qty sy c s' = reserved_qty sy c s +
      (\<Sum>(cid, y, q)\<leftarrow>ps. if y = sy \<and> (c = None \<or> c = Some cid) then q else 0)"
    using commit_exits_ok [where n = 0 and sid = sid and hex = hex and t = t, OF named fit] ids
    by (auto simp: exit_intents_def)
  have "reserved_qty sy None s' = reserved_qty sy None s \<or>
      reserved_qty sy None s' \<le> dget_or (sb_master s) sy 0 + eps" for sy
    using fit [of sy] c(2) by (auto simp: demand_of_def split_def)
  with c that show thesis by blast
qed

text \<open>
  C26. Firing a stop is all or nothing, reaches exactly its scope and never sells a share twice.
  Either it raises \<open>OversellError\<close> and reserves nothing, or every cell in the scope gets one
  SELL intent for each of its positions that is not already being sold, sized to what is left of
  it; afterwards nothing in the scope is left unreserved, so that firing the same stop again
  produces nothing, and the reservations of every symbol it touched fit into the master's long
  position.
\<close>

theorem stop_trigger_all_or_nothing:
  assumes cok: "cells_ok cs" and "sells.book_inv (sg_sells g)" 
    and "fresh_ids sid hex 0 (length (stop_targets plan cs)) (sg_sells g)"
    and names: "\<forall>cid l. dget cs cid = Some l \<longrightarrow> cid \<noteq> [] \<and> dget (cl_lots l) [] = None"
    and plan: "get_stop sid g = Inr plan" and fire: "trigger hex sid cs (Aware t) g = (r, g')"
  shows "case r of
      Inl e \<Rightarrow> e = OversellError \<and> g' = g
    | Inr intents \<Rightarrow> sg_stops g' = sg_stops g \<and>
        (\<forall>cid l sy. dget cs cid = Some l \<longrightarrow>
          (let free = cell_qty l sy - reserved_qty sy (Some cid) (sg_sells g) in
           (\<exists>i \<in> set intents. ci_cell i = cid \<and> ci_symbol i = sy) =
             (scope_covers plan cid sy \<and> eps < free) \<and>
           (\<forall>i \<in> set intents. ci_cell i = cid \<and> ci_symbol i = sy \<longrightarrow>
             ci_side i = SELL \<and> ci_qty i = free))) \<and>
        (\<forall>sy. reserved_qty sy None (sg_sells g') = reserved_qty sy None (sg_sells g) \<or>
          reserved_qty sy None (sg_sells g') \<le> dget_or (sb_master (sg_sells g)) sy 0 + eps) \<and>
        trigger hex' sid cs (Aware t') g' = (Inr [], g')"
proof -
  let ?s = "sg_sells g" and ?ts = "stop_targets plan cs"
  let ?ps = "plan_exits cs ?s ?ts"
  let ?d = "tally (map (\<lambda>(_, sy, q). (sy, q)) ?ps) []"
  show ?thesis
  proof (cases "check_demand ?d ?s")
    case (Inl e)
    then have "r = Inl e \<and> g' = g" using fire plan by (simp add: trigger_def)
    with check_demand_Inl [OF Inl] show ?thesis by simp
  next
    case (Inr u)
    obtain s' where commit: "commit_exits sid hex t 0 ?ps ?s = (Inr (exit_intents sid hex t ?ps), s')"
      and res: "\<forall>sy c. reserved_qty sy c s' = reserved_qty sy c ?s +
        (\<Sum>(cid, y, q)\<leftarrow>?ps. if y = sy \<and> (c = None \<or> c = Some cid) then q else 0)"
      and caps: "\<forall>sy. reserved_qty sy None s' = reserved_qty sy None ?s \<or>
        reserved_qty sy None s' \<le> dget_or (sb_master ?s) sy 0 + eps"
      by (rule commit_plan [OF cok assms(2,3) names refl Inr])
    have r: "r = Inr (exit_intents sid hex t ?ps)" and g': "g' = g\<lparr>sg_sells := s'\<rparr>"
      using fire plan Inr commit by (simp_all add: trigger_def)
    have again: "trigger hex' sid cs (Aware t') g' = (Inr [], g')"
      using plan nothing_left_to_plan [OF cok refl refl res] by (simp add: trigger_def g' get_stop_def)
    have sel: "sg_stops g' = sg_stops g" "sg_sells g' = s'" by (simp_all add: g')
    show ?thesis
      unfolding r sum.case Let_def sel(2) using sel(1) exit_intents_each [OF cok assms(2) _ refl] caps again by blast
  qed
qed

definition demo_stop :: cell_stop_plan where
  "demo_stop = \<lparr>cs_id = ''s'', cs_cell = ''a'', cs_symbol = ''X'', cs_price = 90, cs_scope = CELL,
     cs_reason = ''thesis''\<rparr>"

definition demo_registry :: stop_registry where
  "demo_registry = \<lparr>sg_sells = \<lparr>sb_master = [(''X'', 5)], sb_table = []\<rparr>,
     sg_stops = [(''s'', demo_stop)]\<rparr>"

lemma stop_trigger_all_or_nothing_witness:
  "\<exists>is g'. trigger (\<lambda>_. ''00000000'') ''s'' demo_cells (Aware 0) demo_registry = (Inr is, g') \<and>
    (\<exists>i \<in> set is. ci_cell i = ''a'' \<and> ci_symbol i = ''X'' \<and> ci_qty i = 5) \<and>
    trigger (\<lambda>_. ''00000001'') ''s'' demo_cells (Aware 1) g' = (Inr [], g')"
proof -
  let ?hex = "\<lambda>_ :: nat. ''00000000''"
  let ?t = "trigger ?hex ''s'' demo_cells (Aware 0) demo_registry"
  have plan: "get_stop ''s'' demo_registry = Inr demo_stop"
    by (simp add: get_stop_def demo_registry_def)
  have ts: "stop_targets demo_stop demo_cells = [(''a'', ''X'')]"
    by (simp add: stop_targets_def demo_stop_def)
  have inv: "sells.book_inv (sg_sells demo_registry)"
    by (simp add: sells.book_inv_def demo_registry_def)
  have ids: "fresh_ids ''s'' ?hex 0 (length (stop_targets demo_stop demo_cells)) (sg_sells demo_registry)"
    by (simp add: ts fresh_ids_def demo_registry_def dhas_def)
  have names: "\<forall>cid l. dget demo_cells cid = Some l \<longrightarrow> cid \<noteq> [] \<and> dget (cl_lots l) [] = None"
    by (auto simp: demo_cells_def demo_cell_def allocate_cash_def record_broker_fill_def
        apply_fill_eq fill_lot_def mk_cell_ledger_def at_or_now_def Let_def cell_filled_def
        split: if_splits)
  have demand: "(''X'', 5) \<in> set [(''X'', 5 :: real)]" by simp
  have res: "reserved_qty ''X'' (Some ''a'') (sg_sells demo_registry) = 0"
    by (simp add: reserved_qty_def demo_registry_def)
  obtain l where l: "dget demo_cells ''a'' = Some l" "cell_qty l ''X'' = 5"
    using demo_cells_simps(1,3) by (auto simp: dhas_def)
  have big: "eps < 5" "\<not> 5 \<le> eps" "\<not> 5 + eps < 5" by (simp_all add: eps_def)
  let ?c = "commit_exits ''s'' ?hex 0 0 [(''a'', ''X'', 5)] (sg_sells demo_registry)"
  have pe: "plan_exits demo_cells (sg_sells demo_registry) [(''a'', ''X'')] = [(''a'', ''X'', 5)]"
    using l res big by simp
  have cd: "check_demand [(''X'', 5)] (sg_sells demo_registry) = Inr ()"
    using big by (simp add: check_can_reserve_def available_to_reserve_def demo_registry_def
        dget_or_def reserved_qty_def)
  have "is_ok (fst ?c)"
    using big by (simp add: reserve_sell_def check_can_reserve_def available_to_reserve_def
        demo_registry_def dget_or_def reserved_qty_def dhas_def mk_cell_intent_def cell_intent_ok_def
        exit_id_def Let_def)
  then obtain "is" where "fst ?c = Inr is" by (auto simp: is_ok_def split: sum.splits)
  moreover have "fst ?t = fst ?c"
    using pe cd by (simp add: trigger_def plan ts add_to_def dget_or_def split_def Let_def
        del: plan_exits.simps check_demand.simps commit_exits.simps)
  ultimately have i: "fst ?t = Inr is" by simp
  note all = stop_trigger_all_or_nothing [where hex = ?hex and t = 0 and
      hex' = "\<lambda>_. ''00000001''" and t' = 1,
      OF demo_cells_ok inv ids names plan surjective_pairing, unfolded i sum.case Let_def]
  note one = all [THEN conjunct2, THEN conjunct1, THEN spec, THEN spec, THEN spec, THEN mp, OF l(1),
      of "''X''", unfolded l(2) res]
  have th: "(\<exists>i \<in> set is. ci_cell i = ''a'' \<and> ci_symbol i = ''X'') =
      (scope_covers demo_stop ''a'' ''X'' \<and> eps < 5 - 0)"
    by (rule one [THEN conjunct1])
  have th': "\<forall>i \<in> set is. ci_cell i = ''a'' \<and> ci_symbol i = ''X'' \<longrightarrow>
      ci_side i = SELL \<and> ci_qty i = 5 - 0"
    by (rule one [THEN conjunct2])
  have again: "trigger (\<lambda>_. ''00000001'') ''s'' demo_cells (Aware 1) (snd ?t) = (Inr [], snd ?t)"
    by (rule all [THEN conjunct2, THEN conjunct2, THEN conjunct2])
  have "scope_covers demo_stop ''a'' ''X''" by (simp add: scope_covers_def demo_stop_def)
  then obtain j where j: "j \<in> set is" "ci_cell j = ''a''" "ci_symbol j = ''X''" using th big by auto
  with th' have "ci_qty j = 5" by simp
  with j have "\<exists>i \<in> set is. ci_cell i = ''a'' \<and> ci_symbol i = ''X'' \<and> ci_qty i = 5" by blast
  moreover have "?t = (Inr is, snd ?t)" using i by (metis prod.collapse)
  ultimately show ?thesis using again by blast
qed

end
