(* ===== verification/Sizing.thy ===== *)
theory Sizing
  imports RiskGate
begin

text \<open>
  \<open>services/loss_control/engine.py\<close>, \<open>services/position_sizing/engine.py\<close> and
  \<open>services/capital_allocation/engine.py\<close>: the exit is planned before the entry, the plan
  determines the size, and the sized candidates compete for the cash.
\<close>

section \<open>The exit plan\<close>

record loss_control =
  lc_multiple :: real
  lc_max_pct :: real
  lc_rr :: real

definition default_loss_control :: loss_control where
  "default_loss_control = \<lparr>lc_multiple = 2, lc_max_pct = 15 / 100, lc_rr = 2\<rparr>"

text \<open>\<open>sep.join(parts)\<close>\<close>

fun py_join :: "string \<Rightarrow> string list \<Rightarrow> string" where
  "py_join sep [] = []"
| "py_join sep [x] = x"
| "py_join sep (x # xs) = x @ sep @ py_join sep xs"

text \<open>The shortest decimal text of a float, \<open>repr\<close>, is a parameter.\<close>

definition exit_plan ::
    "(real \<Rightarrow> string) \<Rightarrow> loss_control \<Rightarrow> real decision_output \<Rightarrow> real \<Rightarrow> real \<Rightarrow> real \<Rightarrow> real \<Rightarrow> stop_plan" where
  "exit_plan repr cfg d a entry_price stop_price gap =
     (let profit_target = entry_price + lc_rr cfg * (entry_price - stop_price);
          invalidation = py_join ''; '' (do_invalidation d)
      in \<lparr>sp_entry = py_round 6 entry_price,
          sp_stop = py_round 6 stop_price,
          sp_type = ATR,
          sp_reason = repr (lc_multiple cfg) @ ''x ATR('' @ repr (py_round 4 a) @ '') below entry'',
          sp_horizon = do_horizon d,
          sp_thesis = sc_description (do_base d),
          sp_invalidation = (if invalidation = [] then ''thesis invalidated'' else invalidation),
          sp_target = py_round 6 profit_target,
          sp_gap = gap\<rparr>)"

definition plan_stop ::
    "(real \<Rightarrow> string) \<Rightarrow> loss_control \<Rightarrow> trade_proposal \<Rightarrow> real bar list \<Rightarrow> real \<Rightarrow> real \<Rightarrow> exn + stop_plan" where
  "plan_stop repr cfg proposal bars entry_price gap =
     (if entry_price \<le> 0 then Inl NoStopPlanError
      else case atr bars 14 of
        Inl e \<Rightarrow> Inl (if e = ValueError then NoStopPlanError else e)
      | Inr a \<Rightarrow>
         (let stop_price = entry_price - lc_multiple cfg * a in
          if stop_price \<le> 0 then Inl NoStopPlanError
          else let distance_pct = (entry_price - stop_price) / entry_price in
          if lc_max_pct cfg < distance_pct then Inl NoStopPlanError
          else mk_stop_plan (exit_plan repr cfg (tp_decision proposal) a entry_price stop_price gap)))"

section \<open>The size\<close>

record portfolio_context =
  pc_equity :: real
  pc_settled :: real
  pc_existing :: "(string, real) dict"
  pc_theme :: "(string, real) dict"
  pc_symbol_themes :: "(string, string list) dict"
  pc_correlation :: real
  pc_adv :: real
  pc_throttle :: real

record sizing_engine =
  sz_config :: risk_config
  sz_last_risk :: "real option"
  sz_last_loss :: bool
  sz_history :: "(string \<times> real \<times> real) list"

definition record_trade_result :: "real \<Rightarrow> real \<Rightarrow> sizing_engine \<Rightarrow> sizing_engine" where
  "record_trade_result realized_pnl risk_amount e =
     e\<lparr>sz_last_loss := realized_pnl < 0, sz_last_risk := Some risk_amount\<rparr>"

text \<open>The risk budget: throttled, scaled down by confidence, capped after a loss.\<close>

definition risk_budget :: "sizing_engine \<Rightarrow> portfolio_context \<Rightarrow> real \<Rightarrow> real" where
  "risk_budget e ctx confidence =
     (let risk = pc_equity ctx * per_trade_risk_budget_pct (sz_config e) * pc_throttle ctx;
          risk = risk * max (1/4) (min 1 confidence)
      in case sz_last_risk e of
           Some previous \<Rightarrow> if sz_last_loss e \<and> previous < risk then previous else risk
         | None \<Rightarrow> risk)"

fun theme_caps :: "risk_config \<Rightarrow> portfolio_context \<Rightarrow> string list \<Rightarrow> real \<Rightarrow> real" where
  "theme_caps cfg ctx [] cap = cap"
| "theme_caps cfg ctx (t # ts) cap =
     (let room = pc_equity ctx * max_theme_exposure_pct cfg - dget_or (pc_theme ctx) t 0
      in theme_caps cfg ctx ts (min cap (max 0 room)))"

definition notional_cap :: "risk_config \<Rightarrow> portfolio_context \<Rightarrow> string \<Rightarrow> real \<Rightarrow> real" where
  "notional_cap cfg ctx symbol entry =
     (let already_held = dget_or (pc_existing ctx) symbol 0;
          cap = max 0 (pc_equity ctx * max_position_pct cfg - already_held);
          cap = min cap (pc_settled ctx);
          cap = min cap (pc_adv ctx * max_adv_participation cfg * entry);
          cap = theme_caps cfg ctx (dget_or (pc_symbol_themes ctx) symbol []) cap
      in if correlation_penalty_threshold cfg < pc_correlation ctx
         then cap * correlation_penalty_factor cfg else cap)"

text \<open>\<open>float(int(qty * 10_000) / 10_000)\<close>\<close>

definition trunc4 :: "real \<Rightarrow> real" where
  "trunc4 q = of_int (py_int (q * 10000)) / 10000"

definition SIZING_VERSION :: string where
  "SIZING_VERSION = ''1.0.0''"

definition size_order ::
    "trade_proposal \<Rightarrow> stop_plan \<Rightarrow> real quote \<Rightarrow> portfolio_context \<Rightarrow> real \<Rightarrow>
     (sizing_engine, sized_proposal) act" where
  "size_order proposal stop quote ctx confidence e =
     (let cfg = sz_config e in
      if stop_distance stop \<le> 0 then (Inl SizingRejected, e)
      else
       let risk_amount = risk_budget e ctx confidence;
           qty = risk_amount / stop_distance stop;
           entry = sp_entry stop;
           max_notional = notional_cap cfg ctx (tp_symbol proposal) entry
       in if max_gap_risk_score cfg < sp_gap stop then (Inl SizingRejected, e)
       else
        let qty = (if max_notional < qty * entry then max_notional / entry else qty);
            qty = (if 1/100 < quote_spread quote / quote_mid quote then qty * (1/2) else qty);
            qty = trunc4 qty;
            notional = qty * entry
        in if qty \<le> 0 \<or> notional < 1 then (Inl SizingRejected, e)
        else
         let actual_risk = qty * stop_distance stop;
             e' = e\<lparr>sz_history := sz_history e @ [(tp_symbol proposal, qty, actual_risk)]\<rparr>
         in (mk_sized_proposal
               \<lparr>szp_proposal = proposal, szp_plan = stop, szp_qty = qty,
                szp_risk = py_round 6 actual_risk, szp_notional = py_round 6 notional,
                szp_confidence = confidence, szp_version = SIZING_VERSION\<rparr>, e'))"

section \<open>The allocation of cash\<close>

record cash_allocation =
  ca_accepted :: "sized_proposal list"
  ca_skipped :: "(sized_proposal \<times> bool) list"

definition edge :: "sized_proposal \<Rightarrow> real" where
  "edge sp = (let (lo, hi) = do_range (tp_decision (szp_proposal sp))
              in szp_confidence sp * (lo + hi) / 2)"

text \<open>A skipped candidate carries why: \<open>True\<close> for cash, \<open>False\<close> for the exposure cap.\<close>

fun allocate_loop ::
    "real \<Rightarrow> sized_proposal list \<Rightarrow> real \<Rightarrow> real \<Rightarrow> cash_allocation" where
  "allocate_loop max_total [] cash_left exposure = \<lparr>ca_accepted = [], ca_skipped = []\<rparr>"
| "allocate_loop max_total (sp # sps) cash_left exposure =
     (if cash_left + eps < szp_notional sp
      then (let r = allocate_loop max_total sps cash_left exposure
            in r\<lparr>ca_skipped := (sp, True) # ca_skipped r\<rparr>)
      else if max_total + eps < exposure + szp_notional sp
      then (let r = allocate_loop max_total sps cash_left exposure
            in r\<lparr>ca_skipped := (sp, False) # ca_skipped r\<rparr>)
      else (let r = allocate_loop max_total sps (cash_left - szp_notional sp)
                      (exposure + szp_notional sp)
            in r\<lparr>ca_accepted := sp # ca_accepted r\<rparr>))"

text \<open>\<open>sorted(candidates, key=edge, reverse=True)\<close> keeps equal candidates in their order.\<close>

definition allocate_cash_to ::
    "risk_config \<Rightarrow> sized_proposal list \<Rightarrow> real \<Rightarrow> real \<Rightarrow> real \<Rightarrow> cash_allocation" where
  "allocate_cash_to cfg candidates equity settled_cash current =
     (let ranked = sort_key (\<lambda>sp. - edge sp) candidates;
          max_total = equity * max_total_exposure_pct cfg * exposure_cap_stage cfg
      in allocate_loop max_total ranked settled_cash current)"

section \<open>A planned exit\<close>

text \<open>
  A plan that is made sits above zero and below the entry, no further away than the limit up to
  the six places the prices are rounded to.
\<close>

lemma plan_stop_cases:
  assumes "plan_stop repr cfg proposal bars entry_price gap = Inr p"
  obtains a where "0 < entry_price" "atr bars 14 = Inr a"
    "0 < entry_price - lc_multiple cfg * a"
    "(entry_price - (entry_price - lc_multiple cfg * a)) / entry_price \<le> lc_max_pct cfg"
    "mk_stop_plan p = Inr p"
    "p = exit_plan repr cfg (tp_decision proposal) a entry_price (entry_price - lc_multiple cfg * a) gap"
proof -
  have pos: "0 < entry_price" using assms by (auto simp: plan_stop_def not_le [symmetric])
  show ?thesis
  proof (cases "atr bars 14")
    case (Inl e)
    with assms pos show ?thesis by (simp add: plan_stop_def)
  next
    case (Inr a)
    let ?P = "exit_plan repr cfg (tp_decision proposal) a entry_price (entry_price - lc_multiple cfg * a) gap"
    have mk: "mk_stop_plan ?P = Inr p"
      and le: "0 < entry_price - lc_multiple cfg * a"
        "(entry_price - (entry_price - lc_multiple cfg * a)) / entry_price \<le> lc_max_pct cfg"
      using assms pos unfolding plan_stop_def Inr sum.case Let_def
      by (simp_all only: not_le [symmetric] split: if_split_asm) simp_all
    have "p = ?P" using mk_stop_plan_ok [OF mk] by simp
    with mk show ?thesis using pos Inr le by (intro that [of a]) auto
  qed
qed

lemma planned_stop_is_close:
  assumes "plan_stop repr cfg proposal bars entry_price gap = Inr p"
  shows "0 < sp_stop p" and "sp_stop p < sp_entry p"
    and "\<bar>sp_entry p - entry_price\<bar> \<le> 1 / (2 * 10 ^ 6)"
    and "stop_distance p \<le> lc_max_pct cfg * entry_price + 1 / 10 ^ 6"
proof -
  obtain a where a: "0 < entry_price" "0 < entry_price - lc_multiple cfg * a"
    "(entry_price - (entry_price - lc_multiple cfg * a)) / entry_price \<le> lc_max_pct cfg"
    "mk_stop_plan p = Inr p"
    "p = exit_plan repr cfg (tp_decision proposal) a entry_price (entry_price - lc_multiple cfg * a) gap"
    using assms by (rule plan_stop_cases)
  have entry: "sp_entry p = py_round 6 entry_price"
    and stop: "sp_stop p = py_round 6 (entry_price - lc_multiple cfg * a)"
    unfolding a(5) by (simp_all add: exit_plan_def Let_def)
  show "0 < sp_stop p" "sp_stop p < sp_entry p" using mk_stop_plan_ok [OF a(4)] by auto
  show near: "\<bar>sp_entry p - entry_price\<bar> \<le> 1 / (2 * 10 ^ 6)"
    unfolding entry by (rule py_round_error)
  have near': "\<bar>sp_stop p - (entry_price - lc_multiple cfg * a)\<bar> \<le> 1 / (2 * 10 ^ 6)"
    unfolding stop by (rule py_round_error)
  have "lc_multiple cfg * a \<le> lc_max_pct cfg * entry_price"
    using a(1,3) by (simp add: pos_divide_le_eq)
  with near near' show "stop_distance p \<le> lc_max_pct cfg * entry_price + 1 / 10 ^ 6"
    unfolding stop_distance_def abs_le_iff by simp
qed

text \<open>
  Bars that do not move give a stop at the entry price, which the schema refuses: the engine
  raises \<open>ValidationError\<close> and not the documented \<open>NoStopPlanError\<close>.
\<close>

lemma flat_bars_escape:
  assumes "0 < entry_price" and "0 \<le> lc_max_pct cfg" and "atr bars 14 = Inr 0"
  shows "plan_stop repr cfg proposal bars entry_price gap = Inl ValidationError"
  using assms by (simp add: plan_stop_def Let_def mk_stop_plan_def exit_plan_def)

section \<open>The limits on a size\<close>

lemma trunc4_le: "0 < trunc4 q \<Longrightarrow> trunc4 q \<le> q"
proof -
  assume pos: "0 < trunc4 q"
  have "0 \<le> q"
  proof (rule ccontr)
    assume "\<not> 0 \<le> q"
    then have "py_int (q * 10000) \<le> 0" by (auto simp: py_int_def)
    with pos show False by (simp add: trunc4_def)
  qed
  then show ?thesis using py_int_le [of "q * 10000"] by (simp add: trunc4_def)
qed

lemma theme_caps_le: "theme_caps cfg ctx ts cap \<le> cap"
proof (induction ts arbitrary: cap)
  case (Cons t ts)
  then show ?case unfolding theme_caps.simps Let_def by (rule order_trans) simp
qed simp

lemma theme_caps_room:
  assumes "t \<in> set ts" and "0 < theme_caps cfg ctx ts cap"
  shows "theme_caps cfg ctx ts cap \<le> pc_equity ctx * max_theme_exposure_pct cfg - dget_or (pc_theme ctx) t 0"
  using assms
proof (induction ts arbitrary: cap)
  case Nil
  then show ?case by simp
next
  case (Cons s ts)
  let ?room = "pc_equity ctx * max_theme_exposure_pct cfg - dget_or (pc_theme ctx) s 0"
  show ?case
  proof (cases "s = t")
    case True
    with Cons.prems(2) show ?thesis
      using theme_caps_le [of cfg ctx ts "min cap (max 0 ?room)"] by (auto simp: Let_def)
  next
    case False
    with Cons.prems show ?thesis by (auto simp: Let_def intro!: Cons.IH)
  qed
qed

text \<open>Everything a notional has to stay under.\<close>

definition within_caps :: "risk_config \<Rightarrow> portfolio_context \<Rightarrow> string \<Rightarrow> real \<Rightarrow> real \<Rightarrow> bool" where
  "within_caps cfg ctx symbol entry notional \<longleftrightarrow>
     notional \<le> pc_settled ctx
     \<and> dget_or (pc_existing ctx) symbol 0 + notional \<le> pc_equity ctx * max_position_pct cfg
     \<and> notional \<le> pc_adv ctx * max_adv_participation cfg * entry
     \<and> (\<forall>t \<in> set (dget_or (pc_symbol_themes ctx) symbol []).
          dget_or (pc_theme ctx) t 0 + notional \<le> pc_equity ctx * max_theme_exposure_pct cfg)"

lemma notional_cap_within:
  assumes "0 < x" and "x \<le> notional_cap cfg ctx symbol entry"
    and "0 \<le> correlation_penalty_factor cfg" and "correlation_penalty_factor cfg \<le> 1"
  shows "within_caps cfg ctx symbol entry x"
proof -
  let ?position = "pc_equity ctx * max_position_pct cfg - dget_or (pc_existing ctx) symbol 0"
  let ?liquid = "pc_adv ctx * max_adv_participation cfg * entry"
  let ?base = "min (min (max 0 ?position) (pc_settled ctx)) ?liquid"
  let ?themes = "dget_or (pc_symbol_themes ctx) symbol []"
  let ?cap = "theme_caps cfg ctx ?themes ?base"
  have le: "x \<le> ?cap"
  proof (cases "correlation_penalty_threshold cfg < pc_correlation ctx")
    case True
    then have c: "x \<le> ?cap * correlation_penalty_factor cfg"
      using assms(2) by (simp add: notional_cap_def Let_def)
    with assms(1,3) have "0 < ?cap" by (smt (verit) mult_nonpos_nonneg)
    then have "?cap * correlation_penalty_factor cfg \<le> ?cap * 1"
      using assms(4) by (intro mult_left_mono) auto
    with c show ?thesis by simp
  next
    case False
    with assms(2) show ?thesis by (simp add: notional_cap_def Let_def)
  qed
  with assms(1) have pos: "0 < ?cap" by simp
  have base: "x \<le> ?base" using le theme_caps_le [of cfg ctx ?themes ?base] by simp
  show ?thesis
    unfolding within_caps_def
  proof (intro conjI ballI)
    show "x \<le> pc_settled ctx" "x \<le> ?liquid" using base by auto
    show "dget_or (pc_existing ctx) symbol 0 + x \<le> pc_equity ctx * max_position_pct cfg"
      using base assms(1) by auto
    fix t assume "t \<in> set ?themes"
    from theme_caps_room [OF this pos] le
    show "dget_or (pc_theme ctx) t 0 + x \<le> pc_equity ctx * max_theme_exposure_pct cfg" by simp
  qed
qed

lemma risk_budget_le:
  assumes "0 < risk_budget e ctx confidence"
  shows "risk_budget e ctx confidence \<le>
      pc_equity ctx * per_trade_risk_budget_pct (sz_config e) * pc_throttle ctx * max (1/4) (min 1 confidence)"
    and "sz_last_loss e \<Longrightarrow> sz_last_risk e = Some r \<Longrightarrow> risk_budget e ctx confidence \<le> r"
  by (auto simp: risk_budget_def Let_def split: option.splits if_splits)

text \<open>The size after the cap, the cut for a wide spread and the truncation.\<close>

lemma cut_size_bounds:
  assumes "0 < d" and "0 < entry" and "q1 = risk / d" and "q2 = (if cap < q1 * entry then cap / entry else q1)"
    and "q3 = (if wide then q2 * (1/2) else q2)" and q: "0 < trunc4 q3"
  shows "trunc4 q3 * entry \<le> cap" and "trunc4 q3 * d \<le> risk" and "0 < risk"
proof -
  have "trunc4 q3 \<le> q3" using q by (rule trunc4_le)
  then have q2: "trunc4 q3 \<le> q2" using q assms(5) by (simp split: if_splits)
  have "q2 \<le> q1" using assms(2,4) by (simp add: pos_divide_le_eq)
  with q2 have "trunc4 q3 \<le> risk / d" using assms(3) by simp
  then show risk: "trunc4 q3 * d \<le> risk" using assms(1) by (simp only: pos_le_divide_eq)
  then show "0 < risk" using q assms(1) by (smt (verit) mult_pos_pos)
  have "q2 * entry \<le> cap" using assms(2,4) by simp
  moreover have "trunc4 q3 * entry \<le> q2 * entry" using q2 assms(2) by (intro mult_right_mono) auto
  ultimately show "trunc4 q3 * entry \<le> cap" by linarith
qed

text \<open>
  C27. The engine chooses a size within every limit or rejects the trade. For a valid exit plan
  and a calibrated confidence it either raises \<open>SizingRejected\<close> and stays as it was, or the
  size is positive, what the stop would lose is within the throttled risk budget and, after a
  loss, within what the previous trade risked, the notional is at least one unit of currency
  and fits the settled cash, the position limit, the liquidity limit and every theme limit, the
  gap risk is within its limit, and the trade is entered in the history.
\<close>

theorem sized_order_respects_limits:
  assumes "mk_stop_plan stop = Inr stop" and "config_ok (sz_config e)"
    and "correlation_penalty_factor (sz_config e) \<le> 1"
    and "0 \<le> confidence" and "confidence \<le> 1" and "quote_ok quote"
    and "size_order proposal stop quote ctx confidence e = (r, e')"
  shows "r = Inl SizingRejected \<and> e' = e \<or>
    (\<exists>p q. r = Inr p \<and> q = szp_qty p \<and> 0 < q \<and>
      q * stop_distance stop \<le> pc_equity ctx * per_trade_risk_budget_pct (sz_config e) *
        pc_throttle ctx * max (1/4) confidence \<and>
      (\<forall>previous. sz_last_loss e \<and> sz_last_risk e = Some previous \<longrightarrow>
        q * stop_distance stop \<le> previous) \<and>
      within_caps (sz_config e) ctx (tp_symbol proposal) (sp_entry stop) (q * sp_entry stop) \<and>
      1 \<le> q * sp_entry stop \<and> sp_gap stop \<le> max_gap_risk_score (sz_config e) \<and>
      szp_plan p = stop \<and> szp_notional p = py_round 6 (q * sp_entry stop) \<and>
      szp_risk p = py_round 6 (q * stop_distance stop) \<and>
      e' = e\<lparr>sz_history := sz_history e @ [(tp_symbol proposal, q, q * stop_distance stop)]\<rparr>)"
proof -
  have stop: "0 < sp_stop stop" "sp_stop stop < sp_entry stop"
    using mk_stop_plan_ok [OF assms(1)] by auto
  then have d: "0 < stop_distance stop" and entry: "0 < sp_entry stop"
    by (simp_all add: stop_distance_def)
  let ?risk = "risk_budget e ctx confidence"
  let ?cap = "notional_cap (sz_config e) ctx (tp_symbol proposal) (sp_entry stop)"
  let ?q1 = "?risk / stop_distance stop"
  let ?q2 = "if ?cap < ?q1 * sp_entry stop then ?cap / sp_entry stop else ?q1"
  let ?q3 = "if 1/100 < quote_spread quote / quote_mid quote then ?q2 * (1/2) else ?q2"
  let ?q = "trunc4 ?q3"
  show ?thesis
  proof (cases "max_gap_risk_score (sz_config e) < sp_gap stop \<or> ?q \<le> 0 \<or> ?q * sp_entry stop < 1")
    case True
    then have "size_order proposal stop quote ctx confidence e = (Inl SizingRejected, e)"
      unfolding size_order_def Let_def using d by auto
    with assms(7) show ?thesis by simp
  next
    case False
    let ?p = "\<lparr>szp_proposal = proposal, szp_plan = stop, szp_qty = ?q,
      szp_risk = py_round 6 (?q * stop_distance stop),
      szp_notional = py_round 6 (?q * sp_entry stop), szp_confidence = confidence,
      szp_version = SIZING_VERSION\<rparr>"
    have q: "0 < ?q" using False by simp
    have one: "1 \<le> ?q * sp_entry stop" using False by simp
    have "1 \<le> py_round 6 (?q * sp_entry stop)"
      using py_round_mono [OF one, of 6] by simp
    then have ok: "mk_sized_proposal ?p = Inr ?p"
      using q d assms(4,5) by (simp add: mk_sized_proposal_def py_round_nonneg)
    have eq: "size_order proposal stop quote ctx confidence e =
        (Inr ?p, e\<lparr>sz_history := sz_history e @ [(tp_symbol proposal, ?q, ?q * stop_distance stop)]\<rparr>)"
      unfolding size_order_def Let_def using d False ok by simp
    note bounds = cut_size_bounds [OF d entry refl refl refl q]
    have "within_caps (sz_config e) ctx (tp_symbol proposal) (sp_entry stop) (?q * sp_entry stop)"
      using one assms(2,3) by (intro notional_cap_within [OF _ bounds(1)])
        (auto simp: config_ok_def risk_params_def)
    moreover have "?q * stop_distance stop \<le> pc_equity ctx * per_trade_risk_budget_pct (sz_config e) *
        pc_throttle ctx * max (1/4) confidence"
      using bounds(2) risk_budget_le(1) [OF bounds(3)] assms(5) by (simp add: min_absorb2)
    moreover have "?q * stop_distance stop \<le> r" if "sz_last_loss e" "sz_last_risk e = Some r" for r
      using bounds(2) risk_budget_le(2) [OF bounds(3) that] by simp
    ultimately show ?thesis
      using eq assms(7) q one False by auto
  qed
qed

text \<open>A concrete trade: a plan at 100 with the stop at 95, and an account of 10000.\<close>

definition demo_decision :: "real decision_output" where
  "demo_decision =
    \<lparr>do_symbol = ''X'', do_action = D_BUY, do_confidence = 3/5, do_horizon = ''5d'',
     do_range = (1/100, 3/100),
     do_bull = \<lparr>sc_description = ''up'', sc_target = 110, sc_prob = 3/10\<rparr>,
     do_base = \<lparr>sc_description = ''on'', sc_target = 103, sc_prob = 4/10\<rparr>,
     do_bear = \<lparr>sc_description = ''no'', sc_target = 95, sc_prob = 3/10\<rparr>,
     do_key_evidence = [], do_counter_evidence = [], do_risk_factors = [],
     do_invalidation = [''gap down''], do_unknowns = [], do_version = ''1''\<rparr>"

definition demo_proposal :: trade_proposal where
  "demo_proposal = \<lparr>tp_id = ''p'', tp_symbol = ''X'', tp_side = BUY, tp_source = FROM_AI,
     tp_decision = demo_decision, tp_skeptic = None, tp_created = 0\<rparr>"

definition demo_plan :: stop_plan where
  "demo_plan = \<lparr>sp_entry = 100, sp_stop = 95, sp_type = ATR, sp_reason = ''2x ATR'',
     sp_horizon = ''5d'', sp_thesis = ''on'', sp_invalidation = ''gap down'', sp_target = 110,
     sp_gap = 1/5\<rparr>"

definition demo_quote :: "real quote" where
  "demo_quote = \<lparr>q_symbol = ''X'', q_ts = 0, q_bid = 999/10, q_ask = 100, q_bid_size = 1,
     q_ask_size = 1, q_halted = False, q_source = ''s''\<rparr>"

definition demo_context :: portfolio_context where
  "demo_context = \<lparr>pc_equity = 10000, pc_settled = 900, pc_existing = [], pc_theme = [(''t'', 1000)],
     pc_symbol_themes = [(''X'', [''t''])], pc_correlation = 0, pc_adv = 1000000, pc_throttle = 1\<rparr>"

definition demo_sizing :: sizing_engine where
  "demo_sizing = \<lparr>sz_config = DEFAULT_RISK_CONFIG, sz_last_risk = Some 70, sz_last_loss = True,
     sz_history = []\<rparr>"

lemmas demo_trade = demo_proposal_def demo_plan_def demo_quote_def demo_context_def demo_sizing_def
  DEFAULT_RISK_CONFIG_def stop_distance_def

lemma demo_size:
  "fst (size_order demo_proposal demo_plan demo_quote demo_context (3/5) demo_sizing) \<noteq> Inl SizingRejected"
  by (simp add: demo_trade size_order_def Let_def risk_budget_def notional_cap_def dget_or_def
    quote_spread_def quote_mid_def trunc4_def py_int_def mk_sized_proposal_def)

theorem sized_order_respects_limits_witness:
  "\<exists>p. fst (size_order demo_proposal demo_plan demo_quote demo_context (3/5) demo_sizing) = Inr p \<and>
    0 < szp_qty p \<and> szp_qty p * 5 \<le> 60 \<and> szp_qty p * 100 \<le> 900"
proof -
  let ?r = "fst (size_order demo_proposal demo_plan demo_quote demo_context (3/5) demo_sizing)"
  let ?e' = "snd (size_order demo_proposal demo_plan demo_quote demo_context (3/5) demo_sizing)"
  have stop: "mk_stop_plan demo_plan = Inr demo_plan"
    by (simp add: demo_plan_def mk_stop_plan_def)
  have cfg: "config_ok (sz_config demo_sizing)" "correlation_penalty_factor (sz_config demo_sizing) \<le> 1"
    using default_config_ok by (simp_all add: demo_sizing_def DEFAULT_RISK_CONFIG_def)
  have quote: "quote_ok demo_quote" by (simp add: quote_ok_def demo_quote_def)
  have vals: "stop_distance demo_plan = 5" "sp_entry demo_plan = 100" "pc_settled demo_context = 900"
    "pc_equity demo_context = 10000" "per_trade_risk_budget_pct (sz_config demo_sizing) = 1 / 100"
    "pc_throttle demo_context = 1"
    by (simp_all add: demo_trade)
  show ?thesis
    using sized_order_respects_limits [OF stop cfg _ _ quote, where confidence = "3/5"
        and proposal = demo_proposal and ctx = demo_context and r = ?r and e' = ?e'] demo_size
    by (auto simp: within_caps_def vals)
qed

section \<open>The limits on an allocation\<close>

lemma allocate_loop_skip [simp]:
  assumes "cash + eps < szp_notional sp \<or> m + eps < x + szp_notional sp"
  shows "ca_accepted (allocate_loop m (sp # sps) cash x) = ca_accepted (allocate_loop m sps cash x)"
    and "ca_skipped (allocate_loop m (sp # sps) cash x) =
      (sp, cash + eps < szp_notional sp) # ca_skipped (allocate_loop m sps cash x)"
  using assms by (auto simp: Let_def)

lemma allocate_loop_take [simp]:
  assumes "\<not> (cash + eps < szp_notional sp \<or> m + eps < x + szp_notional sp)"
  shows "ca_accepted (allocate_loop m (sp # sps) cash x) =
      sp # ca_accepted (allocate_loop m sps (cash - szp_notional sp) (x + szp_notional sp))"
    and "ca_skipped (allocate_loop m (sp # sps) cash x) =
      ca_skipped (allocate_loop m sps (cash - szp_notional sp) (x + szp_notional sp))"
  using assms by (auto simp: Let_def)

declare allocate_loop.simps(2) [simp del]

lemma allocate_loop_partition:
  "mset (ca_accepted (allocate_loop m sps cash x)) + mset (map fst (ca_skipped (allocate_loop m sps cash x)))
    = mset sps"
proof (induction m sps cash x rule: allocate_loop.induct)
  case (2 m sp sps cash x)
  then show ?case
    by (cases "cash + eps < szp_notional sp \<or> m + eps < x + szp_notional sp") auto
qed simp

lemma allocate_loop_accepts_some: "set (ca_accepted (allocate_loop m sps cash x)) \<subseteq> set sps"
  using allocate_loop_partition [of m sps cash x]
  by (metis mset_subset_eq_add_left set_mset_mono set_mset_mset)

lemma allocate_loop_sorted:
  "sorted_wrt R sps \<Longrightarrow> sorted_wrt R (ca_accepted (allocate_loop m sps cash x))"
proof (induction m sps cash x rule: allocate_loop.induct)
  case (2 m sp sps cash x)
  show ?case
  proof (cases "cash + eps < szp_notional sp \<or> m + eps < x + szp_notional sp")
    case True
    with 2 show ?thesis by auto
  next
    case False
    then show ?thesis
      unfolding allocate_loop_take(1) [OF False] sorted_wrt.simps
      using 2 allocate_loop_accepts_some [of m sps "cash - szp_notional sp" "x + szp_notional sp"]
      by (auto dest: subsetD)
  qed
qed simp

definition notional_total :: "sized_proposal list \<Rightarrow> real" where
  "notional_total sps = sum_list (map szp_notional sps)"

lemma notional_total_simps [simp]:
  "notional_total [] = 0" "notional_total (sp # sps) = szp_notional sp + notional_total sps"
  by (simp_all add: notional_total_def)

lemma allocate_loop_limits:
  "ca_accepted (allocate_loop m sps cash x) \<noteq> [] \<Longrightarrow>
    notional_total (ca_accepted (allocate_loop m sps cash x)) \<le> cash + eps \<and>
    x + notional_total (ca_accepted (allocate_loop m sps cash x)) \<le> m + eps"
proof (induction sps arbitrary: cash x)
  case (Cons sp sps)
  show ?case
  proof (cases "cash + eps < szp_notional sp \<or> m + eps < x + szp_notional sp")
    case True
    with Cons show ?thesis by simp
  next
    case False
    show ?thesis
    proof (cases "ca_accepted (allocate_loop m sps (cash - szp_notional sp) (x + szp_notional sp)) = []")
      case True
      with False show ?thesis by simp
    next
      case nonempty: False
      from Cons.IH [OF this] False show ?thesis by simp
    qed
  qed
qed simp

text \<open>Cash only shrinks: a candidate that was skipped would not fit at the end either.\<close>

lemma allocate_loop_nonneg:
  assumes "\<And>sp. sp \<in> set sps \<Longrightarrow> 0 < szp_notional sp"
  shows "0 \<le> notional_total (ca_accepted (allocate_loop m sps cash x))"
proof -
  have "0 \<le> sum_list (map szp_notional (ca_accepted (allocate_loop m sps cash x)))"
    using allocate_loop_accepts_some assms by (intro sum_list_nonneg_map) (meson less_imp_le subsetD)
  then show ?thesis by (simp add: notional_total_def)
qed

lemma allocate_loop_skips:
  assumes "\<And>sp. sp \<in> set sps \<Longrightarrow> 0 < szp_notional sp"
    and "(sp, why) \<in> set (ca_skipped (allocate_loop m sps cash x))"
  shows "if why then cash + eps < notional_total (ca_accepted (allocate_loop m sps cash x)) + szp_notional sp
    else m + eps < x + notional_total (ca_accepted (allocate_loop m sps cash x)) + szp_notional sp"
  using assms
proof (induction sps arbitrary: cash x)
  case (Cons s sps)
  have pos: "\<And>sp. sp \<in> set sps \<Longrightarrow> 0 < szp_notional sp" using Cons.prems(1) by simp
  show ?case
  proof (cases "cash + eps < szp_notional s \<or> m + eps < x + szp_notional s")
    case True
    note acc = allocate_loop_skip [OF True, of sps]
    consider "(sp, why) = (s, cash + eps < szp_notional s)"
      | "(sp, why) \<in> set (ca_skipped (allocate_loop m sps cash x))"
      using Cons.prems(2) acc(2) by auto
    then show ?thesis
    proof cases
      case 1
      then show ?thesis
        using True allocate_loop_nonneg [where sps = sps and m = m and cash = cash and x = x, OF pos] acc(1) by (auto split: if_splits)
    next
      case 2
      show ?thesis unfolding acc(1) by (rule Cons.IH [OF _ 2]) (rule pos)
    qed
  next
    case False
    have "(sp, why) \<in> set (ca_skipped (allocate_loop m sps (cash - szp_notional s) (x + szp_notional s)))"
      using Cons.prems(2) allocate_loop_take(2) [OF False, of sps] by simp
    note IH = Cons.IH [OF _ this]
    show ?thesis
      unfolding allocate_loop_take(1) [OF False] notional_total_simps
      using IH pos by (cases why) auto
  qed
qed simp

text \<open>
  Cash is allocated safely and to the best candidates. Every candidate is either accepted or
  skipped with its reason; the accepted ones come in the order of their edge; whenever one is
  accepted, together they fit into the settled cash and below the total exposure limit; and a
  candidate is skipped only when it would breach the stated limit on top of the accepted ones.
\<close>

theorem cash_allocation_is_safe:
  assumes "\<forall>sp \<in> set candidates. 0 < szp_notional sp"
    and "allocate_cash_to cfg candidates equity settled current = res"
  shows "mset (ca_accepted res) + mset (map fst (ca_skipped res)) = mset candidates \<and>
    sorted_wrt (\<lambda>a b. edge b \<le> edge a) (ca_accepted res) \<and>
    (ca_accepted res \<noteq> [] \<longrightarrow> notional_total (ca_accepted res) \<le> settled + eps \<and>
      current + notional_total (ca_accepted res)
        \<le> equity * max_total_exposure_pct cfg * exposure_cap_stage cfg + eps) \<and>
    (\<forall>(sp, why) \<in> set (ca_skipped res).
      if why then settled + eps < notional_total (ca_accepted res) + szp_notional sp
      else equity * max_total_exposure_pct cfg * exposure_cap_stage cfg + eps
        < current + notional_total (ca_accepted res) + szp_notional sp)"
proof -
  let ?ranked = "sort_key (\<lambda>sp. - edge sp) candidates"
  let ?m = "equity * max_total_exposure_pct cfg * exposure_cap_stage cfg"
  have res: "res = allocate_loop ?m ?ranked settled current"
    using assms(2) by (simp add: allocate_cash_to_def Let_def)
  have "sorted (map (\<lambda>sp. - edge sp) ?ranked)" by simp
  then have sorted: "sorted_wrt (\<lambda>a b. edge b \<le> edge a) ?ranked"
    unfolding sorted_wrt_map by simp
  have pos: "\<And>sp. sp \<in> set ?ranked \<Longrightarrow> 0 < szp_notional sp" using assms(1) by simp
  show ?thesis
  proof (intro conjI)
    show "mset (ca_accepted res) + mset (map fst (ca_skipped res)) = mset candidates"
      using allocate_loop_partition [of ?m ?ranked settled current] unfolding res by simp
    show "sorted_wrt (\<lambda>a b. edge b \<le> edge a) (ca_accepted res)"
      unfolding res by (rule allocate_loop_sorted [OF sorted])
    show "ca_accepted res \<noteq> [] \<longrightarrow> notional_total (ca_accepted res) \<le> settled + eps \<and>
        current + notional_total (ca_accepted res) \<le> ?m + eps"
      unfolding res by (intro impI allocate_loop_limits)
    show "\<forall>(sp, why) \<in> set (ca_skipped res).
        if why then settled + eps < notional_total (ca_accepted res) + szp_notional sp
        else ?m + eps < current + notional_total (ca_accepted res) + szp_notional sp"
      unfolding res by (intro ballI, clarify) (rule allocate_loop_skips [where sps = ?ranked, OF pos])
  qed
qed

definition demo_sized :: "real \<Rightarrow> real \<Rightarrow> sized_proposal" where
  "demo_sized confidence notional = \<lparr>szp_proposal = demo_proposal, szp_plan = demo_plan,
     szp_qty = notional / 100, szp_risk = notional / 20, szp_notional = notional,
     szp_confidence = confidence, szp_version = SIZING_VERSION\<rparr>"

theorem cash_allocation_is_safe_witness:
  "let res = allocate_cash_to DEFAULT_RISK_CONFIG
      [demo_sized (1/2) 700, demo_sized (4/5) 600, demo_sized (1/4) 100] 10000 1000 0
   in map szp_notional (ca_accepted res) = [600, 100] \<and> notional_total (ca_accepted res) \<le> 1000 + eps"
proof -
  let ?cs = "[demo_sized (1/2) 700, demo_sized (4/5) 600, demo_sized (1/4) 100]"
  let ?res = "allocate_cash_to DEFAULT_RISK_CONFIG ?cs 10000 1000 0"
  have "map szp_notional (ca_accepted ?res) = [600, 100]"
    by (simp add: allocate_cash_to_def Let_def demo_sized_def edge_def demo_proposal_def
      demo_decision_def DEFAULT_RISK_CONFIG_def eps_def allocate_loop.simps)
  moreover have "ca_accepted ?res \<noteq> [] \<longrightarrow> notional_total (ca_accepted ?res) \<le> 1000 + eps"
    using cash_allocation_is_safe [of ?cs DEFAULT_RISK_CONFIG 10000 1000 0 ?res]
    by (simp add: demo_sized_def)
  ultimately show ?thesis unfolding Let_def by auto
qed

end
