(* ===== verification/Estimation.thy ===== *)
theory Estimation
  imports PyNum Clock
begin

text \<open>
  \<open>services/capital_cells/estimation.py\<close>, \<open>capacity_tail_risk.py\<close> and
  \<open>scale_simulation.py\<close>: numbers that carry how far they can be trusted. An estimator
  raises \<open>InsufficientDataError\<close> rather than invent a number. Messages are left out.
\<close>

section \<open>Estimates\<close>

record point_estimate =
  pe_value :: real
  pe_conf :: real
  pe_samples :: int
  pe_method :: string
  pe_at :: instant

definition mk_point_estimate :: "point_estimate \<Rightarrow> exn + point_estimate" where
  "mk_point_estimate p =
     (if \<not> (0 \<le> pe_conf p \<and> pe_conf p \<le> 1) then Inl ValueError
      else if pe_samples p < 0 then Inl ValueError
      else Inr p)"

record range_estimate =
  re_low :: real
  re_base :: real
  re_high :: real
  re_conf :: real
  re_samples :: int
  re_method :: string
  re_at :: instant

definition mk_range_estimate :: "range_estimate \<Rightarrow> exn + range_estimate" where
  "mk_range_estimate r =
     (if \<not> (re_low r \<le> re_base r \<and> re_base r \<le> re_high r) then Inl ValueError
      else if \<not> (0 \<le> re_conf r \<and> re_conf r \<le> 1) then Inl ValueError
      else if re_samples r < 0 then Inl ValueError
      else Inr r)"

definition point_ok :: "point_estimate \<Rightarrow> bool" where
  "point_ok p \<longleftrightarrow> 0 \<le> pe_conf p \<and> pe_conf p \<le> 1 \<and> 0 \<le> pe_samples p"

definition range_ok :: "range_estimate \<Rightarrow> bool" where
  "range_ok r \<longleftrightarrow> re_low r \<le> re_base r \<and> re_base r \<le> re_high r \<and> 0 \<le> re_conf r \<and>
     re_conf r \<le> 1 \<and> 0 \<le> re_samples r"

lemma mk_point_estimate_ok: "mk_point_estimate p = Inr p' \<longleftrightarrow> p' = p \<and> point_ok p"
  by (auto simp: mk_point_estimate_def point_ok_def)

lemma mk_range_estimate_ok: "mk_range_estimate r = Inr r' \<longleftrightarrow> r' = r \<and> range_ok r"
  by (auto simp: mk_range_estimate_def range_ok_def)

definition require_sample_size :: "int \<Rightarrow> int \<Rightarrow> exn + unit" where
  "require_sample_size sample_size minimum =
     (if sample_size < minimum then Inl InsufficientDataError else Inr ())"

section \<open>Tail risk\<close>

definition TAIL_RISK_METHOD_VERSION :: string where
  "TAIL_RISK_METHOD_VERSION = ''HISTORICAL_VAR_ES_V1''"

record tail_risk =
  tr_level :: real
  tr_var :: real
  tr_shortfall :: real
  tr_samples :: int
  tr_method :: string
  tr_at :: instant

definition cvar :: "tail_risk \<Rightarrow> real" where
  "cvar m = tr_shortfall m"

definition compute_tail_risk :: "real list \<Rightarrow> real \<Rightarrow> instant \<Rightarrow> int \<Rightarrow> exn + tail_risk" where
  "compute_tail_risk rs level as_of min_sample_size =
     (case require_sample_size (int (length rs)) min_sample_size of Inl e \<Rightarrow> Inl e | Inr _ \<Rightarrow>
      if \<not> (0 < level \<and> level < 1) then Inl ValueError
      else
        (let n = length rs;
             ordered = sort rs;
             tail_count = max 1 (round_half_even ((1 - level) * real n));
             tail = take (nat tail_count) ordered
         in if tail = [] then Inl IndexError
            else Inr \<lparr>tr_level = level, tr_var = - List.last tail,
                      tr_shortfall = - (sum_list tail / real (length tail)),
                      tr_samples = int n, tr_method = TAIL_RISK_METHOD_VERSION, tr_at = as_of\<rparr>))"

section \<open>Risk contribution\<close>

definition RISK_CONTRIBUTION_METHOD_VERSION :: string where
  "RISK_CONTRIBUTION_METHOD_VERSION = ''COVARIANCE_BLOCK_RANGE_V1''"

text \<open>The sums of \<open>zip\<close>ped deviations, on non-empty lists.\<close>

definition comoment :: "real list \<Rightarrow> real list \<Rightarrow> real" where
  "comoment xs ys = (\<Sum>(x, y)\<leftarrow>zip xs ys. (x - mean xs) * (y - mean ys))"

definition risk_contribution_point :: "real list \<Rightarrow> real list \<Rightarrow> real" where
  "risk_contribution_point cell_pnl portfolio_pnl =
     (let n = real (length cell_pnl);
          cov = comoment cell_pnl portfolio_pnl / n;
          var_p = (\<Sum>p\<leftarrow>portfolio_pnl. (p - mean portfolio_pnl) ^ 2) / n
      in if var_p \<le> 1 / 10 ^ 15 then 0 else cov / var_p)"

text \<open>\<open>xs[a:b]\<close> for \<open>0 \<le> a \<le> b\<close>\<close>

definition slice :: "nat \<Rightarrow> nat \<Rightarrow> 'a list \<Rightarrow> 'a list" where
  "slice a b xs = take (b - a) (drop a xs)"

definition block_values :: "real list \<Rightarrow> real list \<Rightarrow> nat \<Rightarrow> nat \<Rightarrow> real list" where
  "block_values cell_pnl portfolio_pnl n_blocks block_size =
     map (\<lambda>i. let start = i * block_size;
                  stop = (if i < n_blocks - 1 then start + block_size else length cell_pnl)
              in risk_contribution_point (slice start stop cell_pnl) (slice start stop portfolio_pnl))
       [0..<n_blocks]"

definition estimate_risk_contribution ::
    "real list \<Rightarrow> real list \<Rightarrow> instant \<Rightarrow> int \<Rightarrow> int \<Rightarrow> exn + range_estimate" where
  "estimate_risk_contribution cell_pnl portfolio_pnl as_of n_blocks min_sample_size =
     (let n = length cell_pnl in
      if n \<noteq> length portfolio_pnl then Inl ValueError
      else case require_sample_size (int n) min_sample_size of Inl e \<Rightarrow> Inl e | Inr _ \<Rightarrow>
      if n = 0 \<or> n_blocks = 0 then Inl ZeroDivisionError
      else
        (let base = risk_contribution_point cell_pnl portfolio_pnl;
             block_size = int n div n_blocks
         in if block_size < 5
            then mk_range_estimate \<lparr>re_low = base, re_base = base, re_high = base, re_conf = 1 / 2,
                   re_samples = int n, re_method = RISK_CONTRIBUTION_METHOD_VERSION, re_at = as_of\<rparr>
            else let values = base # block_values cell_pnl portfolio_pnl (nat n_blocks) (nat block_size);
                     low = Min (set values); high = Max (set values); spread = high - low
                 in mk_range_estimate \<lparr>re_low = low, re_base = base, re_high = high,
                      re_conf = max 0 (1 - min 1 spread),
                      re_samples = int n, re_method = RISK_CONTRIBUTION_METHOD_VERSION, re_at = as_of\<rparr>))"

definition safe_side_risk_contribution :: "range_estimate \<Rightarrow> real \<Rightarrow> real" where
  "safe_side_risk_contribution e min_confidence =
     (if min_confidence \<le> re_conf e then re_base e else re_high e)"

section \<open>Capacity\<close>

definition CAPACITY_METHOD_VERSION :: string where
  "CAPACITY_METHOD_VERSION = ''ADV_PARTICIPATION_RATE_V1''"

definition estimate_capacity ::
    "(string, real) dict \<Rightarrow> instant \<Rightarrow> real \<Rightarrow> real \<Rightarrow> real \<Rightarrow> int \<Rightarrow> real \<Rightarrow> exn + range_estimate" where
  "estimate_capacity adv as_of low base high sample_size confidence =
     (if adv = [] then Inl InsufficientDataError
      else if \<not> (0 \<le> low \<and> low \<le> base \<and> base \<le> high) then Inl ValueError
      else let total_adv = sum_list (dvals adv) in
        mk_range_estimate \<lparr>re_low = total_adv * low, re_base = total_adv * base,
          re_high = total_adv * high, re_conf = confidence, re_samples = sample_size,
          re_method = CAPACITY_METHOD_VERSION, re_at = as_of\<rparr>)"

definition capacity_constrained_allocation :: "real \<Rightarrow> range_estimate \<Rightarrow> real \<Rightarrow> real" where
  "capacity_constrained_allocation requested capacity min_confidence =
     (let ceiling = (if min_confidence \<le> re_conf capacity then re_base capacity else re_low capacity)
      in min requested ceiling)"

section \<open>Marginal alpha\<close>

definition MARGINAL_ALPHA_METHOD_VERSION :: string where
  "MARGINAL_ALPHA_METHOD_VERSION = ''SAMPLE_MEAN_STANDARD_ERROR_V1''"

definition estimate_marginal_alpha ::
    "(real \<times> real) list \<Rightarrow> instant \<Rightarrow> int \<Rightarrow> real \<Rightarrow> exn + range_estimate" where
  "estimate_marginal_alpha observations as_of min_sample_size z =
     (case require_sample_size (int (length observations)) min_sample_size of Inl e \<Rightarrow> Inl e | Inr _ \<Rightarrow>
      if list_ex (\<lambda>(cap, _). cap = 0) observations then Inl ValueError
      else
        (let marginals = map (\<lambda>(cap, edge). edge / cap) observations;
             n = length marginals;
             m = mean marginals;
             variance = (\<Sum>x\<leftarrow>marginals. (x - m) ^ 2) / (real n - 1);
             standard_error = (if 1 < n then sqrt (variance / real n) else 0)
         in if n = 0 \<or> min_sample_size = 0 then Inl ZeroDivisionError
            else mk_range_estimate
              \<lparr>re_low = m - z * standard_error, re_base = m, re_high = m + z * standard_error,
               re_conf = min 1 (real n / real_of_int (min_sample_size * 3)), re_samples = int n,
               re_method = MARGINAL_ALPHA_METHOD_VERSION, re_at = as_of\<rparr>))"

section \<open>Scale simulation\<close>

definition SCALE_SIMULATION_METHOD_VERSION :: string where
  "SCALE_SIMULATION_METHOD_VERSION = ''LINEAR_OLS_V1''"

datatype scale_label = IN_SAMPLE | LOW_CONFIDENCE_EXTRAPOLATION

record scale_result =
  sl_observed :: "real \<times> real"
  sl_extrapolated :: "real \<times> real"
  sl_target :: real
  sl_projected :: real
  sl_conf :: real
  sl_label :: scale_label
  sl_method :: string
  sl_at :: instant

definition ols :: "real list \<Rightarrow> real list \<Rightarrow> real \<times> real" where
  "ols xs ys =
     (let mx = mean xs; my = mean ys;
          cov = comoment xs ys;
          var = (\<Sum>x\<leftarrow>xs. (x - mx) ^ 2)
      in if var \<le> 1 / 10 ^ 15 then (0, my)
         else let slope = cov / var in (slope, my - slope * mx))"

definition simulate_scale ::
    "real list \<Rightarrow> real list \<Rightarrow> real \<Rightarrow> instant \<Rightarrow> real \<Rightarrow> int \<Rightarrow> exn + scale_result" where
  "simulate_scale levels outcomes target as_of threshold min_sample_size =
     (case require_sample_size (int (length levels)) min_sample_size of Inl e \<Rightarrow> Inl e | Inr _ \<Rightarrow>
      if length levels \<noteq> length outcomes then Inl ValueError
      else if target \<le> 0 \<or> list_ex (\<lambda>c. c \<le> 0) levels then Inl ValueError
      else if levels = [] then Inl ValueError
      else
        (let lo = Min (set levels); hi = Max (set levels);
             (slope, intercept) = ols levels outcomes;
             projected = slope * target + intercept;
             excess = (if hi < target then target / hi else if target < lo then lo / target else 1);
             (label, confidence) =
               (if threshold < excess then (LOW_CONFIDENCE_EXTRAPOLATION, max 0 (1 / excess))
                else (IN_SAMPLE, 4 / 5))
         in Inr \<lparr>sl_observed = (lo, hi), sl_extrapolated = (min lo target, max hi target),
                 sl_target = target, sl_projected = projected, sl_conf = confidence,
                 sl_label = label, sl_method = SCALE_SIMULATION_METHOD_VERSION, sl_at = as_of\<rparr>))"

section \<open>Expected shortfall is at least the value at risk\<close>

lemma last_sorted_max: "sorted xs \<Longrightarrow> xs \<noteq> [] \<Longrightarrow> x \<in> set xs \<Longrightarrow> x \<le> List.last xs"
  by (induction xs) auto

lemma tail_risk_ordered:
  assumes "compute_tail_risk rs level as_of m = Inr t"
  shows "tr_var t \<le> tr_shortfall t" and "cvar t = tr_shortfall t"
    and "x \<in> set rs \<Longrightarrow> (\<And>y. y \<in> set rs \<Longrightarrow> x \<le> y) \<Longrightarrow> tr_shortfall t \<le> - x"
proof -
  let ?tail = "take (nat (max 1 (round_half_even ((1 - level) * real (length rs))))) (sort rs)"
  have t: "?tail \<noteq> []" "tr_var t = - List.last ?tail" "tr_shortfall t = - mean ?tail"
    using assms unfolding compute_tail_risk_def Let_def mean_def
    by (auto split: sum.splits if_split_asm)
  have "mean ?tail \<le> List.last ?tail"
    using t(1) by (intro mean_le last_sorted_max) (auto intro: sorted_wrt_take)
  with t(2,3) show "tr_var t \<le> tr_shortfall t" by simp
  show "cvar t = tr_shortfall t" by (simp add: cvar_def)
  show "tr_shortfall t \<le> - x" if "x \<in> set rs" "\<And>y. y \<in> set rs \<Longrightarrow> x \<le> y"
  proof -
    have "x \<le> mean ?tail"
      using t(1) that(2) by (intro mean_ge) (auto dest: in_set_takeD)
    with t(3) show ?thesis by simp
  qed
qed

section \<open>Estimators give well-formed estimates\<close>

lemma risk_contribution_range_ok:
  "estimate_risk_contribution c p t k m = Inr r \<Longrightarrow> range_ok r"
  by (auto simp: estimate_risk_contribution_def Let_def mk_range_estimate_ok split: sum.splits if_split_asm)

lemma capacity_range_ok: "estimate_capacity adv t l b h n c = Inr r \<Longrightarrow> range_ok r"
  by (auto simp: estimate_capacity_def Let_def mk_range_estimate_ok split: if_split_asm)

lemma marginal_alpha_range_ok: "estimate_marginal_alpha obs t m z = Inr r \<Longrightarrow> range_ok r"
  by (auto simp: estimate_marginal_alpha_def Let_def mk_range_estimate_ok split: sum.splits if_split_asm)

text \<open>Low confidence is read on the safe side: more risk, less capacity.\<close>

lemma safe_side_is_larger: "range_ok e \<Longrightarrow> re_base e \<le> safe_side_risk_contribution e c"
  by (simp add: range_ok_def safe_side_risk_contribution_def)

lemma capacity_is_never_exceeded:
  assumes "range_ok c"
  shows "capacity_constrained_allocation x c m \<le> re_base c"
    and "capacity_constrained_allocation x c m \<le> x"
    and "re_conf c < m \<Longrightarrow> capacity_constrained_allocation x c m \<le> re_low c"
  using assms by (auto simp: range_ok_def capacity_constrained_allocation_def Let_def)

text \<open>A block estimate that is made from enough data always succeeds.\<close>

lemma risk_contribution_succeeds:
  assumes "length c = length p" and "m \<le> int (length c)" and "c \<noteq> []" and "k \<noteq> 0"
  shows "\<exists>r. estimate_risk_contribution c p t k m = Inr r"
proof -
  have min_max: "Min (set (b # bs)) \<le> b" "b \<le> Max (set (b # bs))" for b :: real and bs
    by (auto intro: Min_le Max_ge)
  show ?thesis
    using assms min_max
    by (auto simp: estimate_risk_contribution_def require_sample_size_def Let_def mk_range_estimate_def
      simp del: List.set_simps)
qed

section \<open>Contributions add up\<close>

text \<open>The profit of the portfolio is that of its cells, day by day.\<close>

definition portfolio :: "nat \<Rightarrow> real list list \<Rightarrow> real list" where
  "portfolio n cells = foldr (map2 (+)) cells (replicate n 0)"

lemma length_portfolio: "(\<And>c. c \<in> set cells \<Longrightarrow> length c = n) \<Longrightarrow> length (portfolio n cells) = n"
  unfolding portfolio_def by (induction cells) auto

lemma sum_list_map2_add:
  fixes xs ys :: "real list"
  assumes "length xs = length ys"
  shows "sum_list (map2 (+) xs ys) = sum_list xs + sum_list ys"
  using assms by (induction xs ys rule: list_induct2) auto

lemma mean_map2_add: "length xs = length ys \<Longrightarrow> mean (map2 (+) xs ys) = mean xs + mean ys"
  by (simp add: mean_def sum_list_map2_add add_divide_distrib)

lemma zip_deviation_add:
  fixes xs ys zs :: "real list" and a b c :: real
  assumes "length xs = length ys" and "length ys = length zs"
  shows "(\<Sum>(x, z)\<leftarrow>zip (map2 (+) xs ys) zs. (x - (a + b)) * (z - c)) =
    (\<Sum>(x, z)\<leftarrow>zip xs zs. (x - a) * (z - c)) + (\<Sum>(y, z)\<leftarrow>zip ys zs. (y - b) * (z - c))"
  using assms by (induction xs ys zs rule: list_induct3) (auto simp: algebra_simps)

lemma comoment_add:
  assumes "length xs = length ys" and "length ys = length zs"
  shows "comoment (map2 (+) xs ys) zs = comoment xs zs + comoment ys zs"
  unfolding comoment_def mean_map2_add [OF assms(1)] using zip_deviation_add [OF assms] .

lemma comoment_zero [simp]: "comoment (replicate n 0) zs = 0"
proof -
  have "(\<Sum>(x, z)\<leftarrow>zip (replicate n 0) zs. (x - 0) * (z - c)) = 0" for c :: real
    by (induction n arbitrary: zs) (auto simp: zip_Cons1 split: list.splits)
  moreover have "mean (replicate n 0) = 0" by (simp add: mean_def sum_list_replicate)
  ultimately show ?thesis by (simp only: comoment_def)
qed

lemma comoment_portfolio:
  assumes "\<And>c. c \<in> set cells \<Longrightarrow> length c = n" and "length zs = n"
  shows "(\<Sum>c\<leftarrow>cells. comoment c zs) = comoment (portfolio n cells) zs"
  using assms
proof (induction cells)
  case Nil
  then show ?case by (simp add: portfolio_def)
next
  case (Cons c cells)
  have len: "length c = length (portfolio n cells)" "length (portfolio n cells) = length zs"
    using Cons.prems length_portfolio [of cells n] by auto
  have "portfolio n (c # cells) = map2 (+) c (portfolio n cells)" by (simp add: portfolio_def)
  with comoment_add [OF len] Cons show ?case by simp
qed

lemma comoment_self: "comoment xs xs = (\<Sum>x\<leftarrow>xs. (x - mean xs) ^ 2)"
proof -
  have "(\<Sum>(x, y)\<leftarrow>zip xs xs. (x - a) * (y - a)) = (\<Sum>x\<leftarrow>xs. (x - a) ^ 2)" for a
    by (induction xs) (auto simp: power2_eq_square)
  then show ?thesis unfolding comoment_def .
qed

lemma risk_contributions_sum_to_one:
  assumes "\<And>c. c \<in> set cells \<Longrightarrow> length c = n" and "0 < n"
    and "1 / 10 ^ 15 < comoment (portfolio n cells) (portfolio n cells) / real n"
  shows "(\<Sum>c\<leftarrow>cells. risk_contribution_point c (portfolio n cells)) = 1"
proof -
  let ?P = "portfolio n cells"
  let ?v = "comoment ?P ?P / real n"
  have "0 < ?v" using assms(3) by (rule less_trans [rotated]) simp
  then have nonzero: "comoment ?P ?P \<noteq> 0" by auto
  have each: "map (\<lambda>c. risk_contribution_point c ?P) cells = map (\<lambda>c. comoment c ?P / (real n * ?v)) cells"
    using assms comoment_self [of ?P]
    by (intro map_cong) (auto simp: risk_contribution_point_def Let_def)
  have "(\<Sum>c\<leftarrow>cells. comoment c ?P / (real n * ?v)) = (\<Sum>c\<leftarrow>cells. comoment c ?P) / (real n * ?v)"
    by (simp add: sum_list_const_mult divide_inverse flip: sum_list_mult_const)
  also have "\<dots> = comoment ?P ?P / (real n * ?v)"
    using comoment_portfolio [of cells n ?P] assms(1) length_portfolio [of cells n] by simp
  also have "\<dots> = 1"
    using assms(2) nonzero by simp
  finally show ?thesis unfolding each .
qed

section \<open>Projections\<close>

text \<open>Outcomes on a line are projected along it.\<close>

lemma ols_line:
  assumes "1 / 10 ^ 15 < comoment xs xs"
  shows "ols xs (map (\<lambda>x. a * x + b) xs) = (a, b)"
proof -
  have ne: "xs \<noteq> []" using assms by (auto simp: comoment_def)
  have sum: "sum_list (map (\<lambda>x. a * x + b) ys) = a * sum_list ys + real (length ys) * b" for ys
    by (induction ys) (auto simp: algebra_simps)
  have my: "mean (map (\<lambda>x. a * x + b) xs) = a * mean xs + b"
    using ne by (simp add: mean_def sum add_divide_distrib)
  have zip: "(\<Sum>(x, y)\<leftarrow>zip ys (map (\<lambda>x. a * x + b) ys). (x - m) * (y - (a * m + b))) =
      a * (\<Sum>x\<leftarrow>ys. (x - m) ^ 2)" for ys m
    by (induction ys) (auto simp: algebra_simps power2_eq_square)
  have "comoment xs (map (\<lambda>x. a * x + b) xs) = a * comoment xs xs"
    unfolding comoment_self unfolding comoment_def my using zip [of "mean xs" xs] .
  moreover have "\<not> comoment xs xs \<le> 1 / 10 ^ 15" "comoment xs xs \<noteq> 0"
    using assms by (auto simp: not_le intro: less_trans)
  ultimately show ?thesis by (simp add: ols_def Let_def comoment_self [symmetric] my)
qed

lemma scale_confidence_bounds:
  assumes "simulate_scale xs ys target t threshold m = Inr r"
  shows "0 \<le> sl_conf r" and "sl_conf r \<le> 1"
    and "fst (sl_extrapolated r) \<le> target" and "target \<le> snd (sl_extrapolated r)"
proof -
  let ?lo = "Min (set xs)" and ?hi = "Max (set xs)"
  let ?excess = "if ?hi < target then target / ?hi else if target < ?lo then ?lo / target else 1"
  have pos: "0 < target" "\<And>x. x \<in> set xs \<Longrightarrow> 0 < x" "xs \<noteq> []"
    using assms by (auto simp: simulate_scale_def list_ex_iff not_le split: sum.splits if_split_asm)
  then have "0 < ?lo" "0 < ?hi" by auto
  then have excess: "1 \<le> ?excess" using pos(1) by (auto simp: le_divide_eq)
  obtain slope intercept where ols: "ols xs ys = (slope, intercept)" by (cases "ols xs ys")
  have r: "sl_conf r = (if threshold < ?excess then max 0 (1 / ?excess) else 4 / 5)"
    "sl_extrapolated r = (min ?lo target, max ?hi target)"
    using assms unfolding simulate_scale_def ols Let_def prod.case
    by (auto simp only: split: sum.splits if_split_asm prod.splits) simp_all
  show "0 \<le> sl_conf r" "sl_conf r \<le> 1" using excess unfolding r by (auto simp: divide_le_eq)
  show "fst (sl_extrapolated r) \<le> target" "target \<le> snd (sl_extrapolated r)" unfolding r by auto
qed

end
