(* ===== verification/Governor.thy ===== *)
theory Governor
  imports Estimation
begin

text \<open>
  \<open>services/capital_cells/allocation_governor.py\<close> and \<open>common_mode.py\<close>: which cells
  get capital, whether a new cell may be created, and what may fail over by itself. Reasons are
  kept as tags, their texts are left out.
\<close>

section \<open>The score of a cell\<close>

definition ALLOCATION_SCORE_METHOD_VERSION :: string where
  "ALLOCATION_SCORE_METHOD_VERSION = ''UNCERTAINTY_ADJUSTED_EDGE_V1''"

record cell_inputs =
  al_cell :: string
  al_edge :: range_estimate
  al_stability :: real
  al_capacity :: range_estimate
  al_tail :: tail_risk
  al_correlation :: real
  al_drawdown :: real
  al_cost :: real

definition mk_cell_inputs :: "cell_inputs \<Rightarrow> exn + cell_inputs" where
  "mk_cell_inputs i =
     (if \<not> (0 \<le> al_stability i \<and> al_stability i \<le> 1) then Inl ValueError
      else if \<not> (0 \<le> al_correlation i \<and> al_correlation i \<le> 1) then Inl ValueError
      else if \<not> (0 \<le> al_drawdown i \<and> al_drawdown i \<le> 1) then Inl ValueError
      else Inr i)"

definition quality :: "cell_inputs \<Rightarrow> real" where
  "quality i = al_stability i * (1 - al_correlation i) * (1 - al_drawdown i)"

definition net_of_cost :: "cell_inputs \<Rightarrow> real \<Rightarrow> real" where
  "net_of_cost i threshold =
     (let edge = (if re_conf (al_edge i) < threshold then re_low (al_edge i) else re_base (al_edge i))
      in edge - al_cost i)"

definition score_value :: "cell_inputs \<Rightarrow> real \<Rightarrow> real" where
  "score_value i threshold =
     (let net = net_of_cost i threshold;
          tail_factor = 1 + max 0 (tr_shortfall (al_tail i))
      in if 0 \<le> net then net * quality i / tail_factor
         else net * (2 - quality i) * tail_factor)"

definition uncertainty_adjusted_score :: "cell_inputs \<Rightarrow> instant \<Rightarrow> real \<Rightarrow> exn + point_estimate" where
  "uncertainty_adjusted_score i as_of threshold =
     (let confidence = min (min (re_conf (al_edge i)) (re_conf (al_capacity i))) (al_stability i);
          sample_size = min (min (re_samples (al_edge i)) (re_samples (al_capacity i)))
            (tr_samples (al_tail i))
      in mk_point_estimate \<lparr>pe_value = score_value i threshold, pe_conf = confidence,
           pe_samples = sample_size, pe_method = ALLOCATION_SCORE_METHOD_VERSION, pe_at = as_of\<rparr>)"

fun score_all :: "cell_inputs list \<Rightarrow> instant \<Rightarrow> exn + (string \<times> point_estimate) list" where
  "score_all [] as_of = Inr []"
| "score_all (i # is) as_of =
     (case uncertainty_adjusted_score i as_of (6/10) of Inl e \<Rightarrow> Inl e | Inr s \<Rightarrow>
      case score_all is as_of of Inl e \<Rightarrow> Inl e | Inr r \<Rightarrow> Inr ((al_cell i, s) # r))"

definition rank_cells :: "cell_inputs list \<Rightarrow> instant \<Rightarrow> exn + (string \<times> point_estimate) list" where
  "rank_cells inputs as_of =
     (case score_all inputs as_of of Inl e \<Rightarrow> Inl e
      | Inr scored \<Rightarrow> Inr (sort_key (\<lambda>p. - pe_value (snd p)) scored))"

section \<open>Capital and reserves\<close>

record allocation_reserve =
  ar_total :: real
  ar_unallocated :: real
  ar_cash :: real
  ar_risk :: real

definition allocatable_to_cells :: "allocation_reserve \<Rightarrow> real" where
  "allocatable_to_cells r = ar_total r - ar_unallocated r - ar_cash r - ar_risk r"

definition mk_allocation_reserve :: "allocation_reserve \<Rightarrow> exn + allocation_reserve" where
  "mk_allocation_reserve r = (if allocatable_to_cells r < - eps then Inl ValueError else Inr r)"

definition allocate_with_reserve ::
    "real \<Rightarrow> (string \<times> point_estimate) list \<Rightarrow> real \<Rightarrow> real \<Rightarrow> real \<Rightarrow>
     exn + (string, real) dict \<times> allocation_reserve" where
  "allocate_with_reserve total_capital ranked min_score cash_fraction risk_fraction =
     (if \<not> (0 \<le> cash_fraction \<and> cash_fraction \<le> 1) then Inl ValueError
      else if \<not> (0 \<le> risk_fraction \<and> risk_fraction \<le> 1) then Inl ValueError
      else if 1 < cash_fraction + risk_fraction then Inl ValueError
      else
        (let cash_reserve = total_capital * cash_fraction;
             risk_reserve = total_capital * risk_fraction;
             allocatable = total_capital - cash_reserve - risk_reserve;
             qualifying = filter (\<lambda>p. min_score \<le> pe_value (snd p)) ranked
         in if qualifying = []
            then (case mk_allocation_reserve \<lparr>ar_total = total_capital, ar_unallocated = allocatable,
                        ar_cash = cash_reserve, ar_risk = risk_reserve\<rparr> of
                    Inl e \<Rightarrow> Inl e | Inr r \<Rightarrow> Inr ([], r))
            else let per_cell = allocatable / real (length qualifying);
                     allocations = fold (\<lambda>p d. dput d (fst p) per_cell) qualifying []
                 in case mk_allocation_reserve \<lparr>ar_total = total_capital, ar_unallocated = 0,
                           ar_cash = cash_reserve, ar_risk = risk_reserve\<rparr> of
                      Inl e \<Rightarrow> Inl e | Inr r \<Rightarrow> Inr (allocations, r)))"

section \<open>New cells\<close>

record cell_proposal =
  cp_id :: string
  cp_hypothesis :: string
  cp_existing :: "string list"
  cp_opportunity :: point_estimate
  cp_independence :: point_estimate
  cp_value :: range_estimate
  cp_capacity :: bool

datatype cell_objection =
    NotDistinct | OpportunityUncertain | IndependenceUncertain | ValueNotPositive | NoOperationalCapacity

record cell_decision =
  cd_approved :: bool
  cd_reasons :: "cell_objection list"

text \<open>\<open>str.strip\<close>\<close>

definition is_space :: "char \<Rightarrow> bool" where
  "is_space c = is_blank [c]"

definition py_strip :: "string \<Rightarrow> string" where
  "py_strip s = rev (dropWhile is_space (rev (dropWhile is_space s)))"

definition normalised :: "string \<Rightarrow> string" where
  "normalised h = str_lower (py_strip h)"

definition review_cell :: "real \<Rightarrow> real \<Rightarrow> cell_proposal \<Rightarrow> cell_decision" where
  "review_cell min_confidence min_value p =
     (let r1 = (if normalised (cp_hypothesis p) \<in> normalised ` set (cp_existing p)
                then [NotDistinct] else []);
          r2 = (if pe_conf (cp_opportunity p) < min_confidence then [OpportunityUncertain] else []);
          r3 = (if pe_conf (cp_independence p) < min_confidence then [IndependenceUncertain] else []);
          v = (if re_conf (cp_value p) < min_confidence then re_low (cp_value p) else re_base (cp_value p));
          r4 = (if v < min_value then [ValueNotPositive] else []);
          r5 = (if \<not> cp_capacity p then [NoOperationalCapacity] else []);
          reasons = r1 @ r2 @ r3 @ r4 @ r5
      in \<lparr>cd_approved = (reasons = []), cd_reasons = reasons\<rparr>)"

section \<open>Common-mode failure\<close>

datatype dependency_kind = MARKET_DATA_FEED | EXECUTION_BROKER

record concentration =
  dc_kind :: dependency_kind
  dc_dependency :: string
  dc_cells :: "string list"
  dc_ratio :: real
  dc_at :: instant

definition by_dependency :: "(string, string) dict \<Rightarrow> (string, string list) dict" where
  "by_dependency deps = fold (\<lambda>p d. dput d (snd p) (dget_or d (snd p) [] @ [fst p])) deps []"

definition detect_concentration ::
    "dependency_kind \<Rightarrow> (string, string) dict \<Rightarrow> instant \<Rightarrow> real \<Rightarrow> exn + concentration list" where
  "detect_concentration kind deps t threshold =
     (if deps = [] then Inr []
      else if \<not> (0 < threshold \<and> threshold \<le> 1) then Inl ValueError
      else Inr (map (\<lambda>(dep, cells). \<lparr>dc_kind = kind, dc_dependency = dep, dc_cells = sort cells,
                  dc_ratio = real (length cells) / real (length deps), dc_at = t\<rparr>)
                (filter (\<lambda>(dep, cells). threshold \<le> real (length cells) / real (length deps))
                   (sort_key fst (by_dependency deps)))))"

record failover_procedure =
  fp_id :: string
  fp_tested :: instant
  fp_passed :: bool

record failover_approval =
  fa_by :: string
  fa_at :: instant
  fa_reconciled :: bool
  fa_procedure :: failover_procedure

definition authorize_data_failover :: "concentration \<Rightarrow> failover_procedure \<Rightarrow> exn + bool" where
  "authorize_data_failover c procedure =
     (if dc_kind c \<noteq> MARKET_DATA_FEED then Inl ValueError else Inr (fp_passed procedure))"

definition authorize_broker_failover :: "concentration \<Rightarrow> failover_approval option \<Rightarrow> exn + unit" where
  "authorize_broker_failover c approval =
     (if dc_kind c \<noteq> EXECUTION_BROKER then Inl ValueError
      else case approval of
        None \<Rightarrow> Inl BrokerFailoverForbiddenError
      | Some a \<Rightarrow>
          (if is_blank (fa_by a) then Inl BrokerFailoverForbiddenError
           else if \<not> fp_passed (fa_procedure a) then Inl BrokerFailoverForbiddenError
           else if \<not> fa_reconciled a then Inl BrokerFailoverForbiddenError
           else Inr ()))"

section \<open>Risk never improves a score\<close>

definition inputs_ok :: "cell_inputs \<Rightarrow> bool" where
  "inputs_ok i \<longleftrightarrow> 0 \<le> al_stability i \<and> al_stability i \<le> 1 \<and> 0 \<le> al_correlation i \<and>
     al_correlation i \<le> 1 \<and> 0 \<le> al_drawdown i \<and> al_drawdown i \<le> 1"

lemma mk_cell_inputs_ok: "mk_cell_inputs i = Inr i' \<longleftrightarrow> i' = i \<and> inputs_ok i"
  by (auto simp: mk_cell_inputs_def inputs_ok_def)

text \<open>One cell is no better than another: less net edge, and at least as much risk everywhere.\<close>

definition no_better :: "real \<Rightarrow> cell_inputs \<Rightarrow> cell_inputs \<Rightarrow> bool" where
  "no_better threshold j i \<longleftrightarrow> net_of_cost j threshold \<le> net_of_cost i threshold \<and>
     al_stability j \<le> al_stability i \<and> al_correlation i \<le> al_correlation j \<and>
     al_drawdown i \<le> al_drawdown j \<and> tr_shortfall (al_tail i) \<le> tr_shortfall (al_tail j)"

lemma quality_bounds:
  assumes "inputs_ok i" shows "0 \<le> quality i" and "quality i \<le> 1"
proof -
  show "0 \<le> quality i" using assms by (simp add: quality_def inputs_ok_def)
  have "al_stability i * (1 - al_correlation i) \<le> 1 * 1"
    using assms by (intro mult_mono) (auto simp: inputs_ok_def)
  moreover have "0 \<le> al_stability i * (1 - al_correlation i)"
    using assms by (simp add: inputs_ok_def)
  ultimately have "al_stability i * (1 - al_correlation i) * (1 - al_drawdown i) \<le> 1 * 1"
    using assms by (intro mult_mono) (auto simp: inputs_ok_def)
  then show "quality i \<le> 1" by (simp add: quality_def)
qed

lemma quality_mono:
  assumes "inputs_ok i" and "inputs_ok j" and "no_better threshold j i"
  shows "quality j \<le> quality i"
proof -
  have "al_stability j * (1 - al_correlation j) \<le> al_stability i * (1 - al_correlation i)"
    using assms by (intro mult_mono) (auto simp: inputs_ok_def no_better_def)
  moreover have "0 \<le> al_stability i * (1 - al_correlation i)"
    using assms by (simp add: inputs_ok_def)
  ultimately show ?thesis
    unfolding quality_def using assms by (intro mult_mono) (auto simp: inputs_ok_def no_better_def)
qed

lemma score_sign: "0 \<le> quality i \<Longrightarrow> quality i \<le> 1 \<Longrightarrow> 0 \<le> score_value i t \<or> net_of_cost i t < 0"
  by (auto simp: score_value_def Let_def)

lemma score_mono:
  assumes "inputs_ok i" and "inputs_ok j" and "no_better threshold j i"
  shows "score_value j threshold \<le> score_value i threshold"
proof -
  let ?n = "\<lambda>k. net_of_cost k threshold" and ?t = "\<lambda>k. 1 + max 0 (tr_shortfall (al_tail k))"
  have q: "0 \<le> quality i" "quality i \<le> 1" "0 \<le> quality j" "quality j \<le> quality i"
    using quality_bounds [OF assms(1)] quality_bounds [OF assms(2)] quality_mono [OF assms] by auto
  have t: "1 \<le> ?t i" "?t i \<le> ?t j" and n: "?n j \<le> ?n i"
    using assms(3) by (auto simp: no_better_def)
  consider "0 \<le> ?n j" | "?n j < 0" "0 \<le> ?n i" | "?n j < 0" "?n i < 0" by linarith
  then show ?thesis
  proof cases
    case 1
    have "?n j * quality j \<le> ?n i * quality i" using 1 n q by (intro mult_mono) auto
    then have "?n j * quality j / ?t j \<le> ?n i * quality i / ?t i"
      using 1 n q t by (intro frac_le) auto
    with 1 n show ?thesis by (simp add: score_value_def Let_def)
  next
    case 2
    then have "?n j * (2 - quality j) * ?t j \<le> 0"
      using q t by (intro mult_nonpos_nonneg) auto
    moreover have "0 \<le> ?n i * quality i / ?t i" using 2 q t by auto
    ultimately show ?thesis using 2 by (simp add: score_value_def Let_def)
  next
    case 3
    have "(- ?n i) * ((2 - quality i) * ?t i) \<le> (- ?n j) * ((2 - quality j) * ?t j)"
      using 3 n q t by (intro mult_mono) auto
    with 3 show ?thesis by (simp add: score_value_def Let_def mult.assoc)
  qed
qed

lemma score_all_scores:
  "score_all inputs t = Inr r \<Longrightarrow>
    map (\<lambda>p. (fst p, pe_value (snd p))) r = map (\<lambda>i. (al_cell i, score_value i (6/10))) inputs \<and>
    (\<forall>p \<in> set r. point_ok (snd p))"
proof (induction inputs arbitrary: r)
  case (Cons i inputs)
  then show ?case
    by (auto simp: uncertainty_adjusted_score_def mk_point_estimate_ok Let_def split: sum.splits)
qed simp

section \<open>Capital is conserved\<close>

lemma equal_shares:
  fixes x :: real
  assumes "distinct (map fst ps)"
  shows "fold (\<lambda>p d. dput d (fst p) x) ps [] = map (\<lambda>p. (fst p, x)) ps"
proof -
  have "fold (\<lambda>p d. dput d (fst p) x) ps d = d @ map (\<lambda>p. (fst p, x)) ps"
    if "distinct (map fst ps)" "\<forall>p \<in> set ps. dget d (fst p) = None" for d :: "('a, real) dict"
    using that
  proof (induction ps arbitrary: d)
    case (Cons p ps)
    have none: "\<forall>r \<in> set ps. dget (d @ [(fst p, x)]) (fst r) = None"
      using Cons.prems by (auto simp: dget_None_iff dkeys_def image_iff)
    show ?case using Cons none by (simp add: dput_absent)
  qed simp
  from this [of "[]"] assms show ?thesis by simp
qed

lemma allocation_cases:
  assumes "distinct (map fst ranked)"
    and "allocate_with_reserve capital ranked min_score cash risk = Inr (alloc, r)"
  defines "qual \<equiv> filter (\<lambda>p. min_score \<le> pe_value (snd p)) ranked"
    and "free \<equiv> capital - capital * cash - capital * risk"
  shows "0 \<le> cash" and "0 \<le> risk" and "cash + risk \<le> 1"
    and "alloc = map (\<lambda>p. (fst p, free / real (length qual))) qual"
    and "ar_cash r = capital * cash" and "ar_risk r = capital * risk"
    and "ar_unallocated r = (if qual = [] then free else 0)"
proof -
  show frac: "0 \<le> cash" "0 \<le> risk" "cash + risk \<le> 1"
    using assms(2) by (auto simp: allocate_with_reserve_def split: if_splits)
  have dist: "distinct (map fst qual)" unfolding qual_def using assms(1) by (rule distinct_map_filter)
  have guards: "\<not> \<not> (0 \<le> cash \<and> cash \<le> 1)" "\<not> \<not> (0 \<le> risk \<and> risk \<le> 1)" "\<not> 1 < cash + risk"
    using frac by auto
  show "alloc = map (\<lambda>p. (fst p, free / real (length qual))) qual"
    "ar_cash r = capital * cash" "ar_risk r = capital * risk"
    "ar_unallocated r = (if qual = [] then free else 0)"
    using assms(2) equal_shares [OF dist, of "free / real (length qual)"]
    unfolding allocate_with_reserve_def Let_def qual_def [symmetric] free_def [symmetric]
    by (auto simp: guards mk_allocation_reserve_def split: if_split_asm sum.splits)
qed

lemma funded_iff:
  assumes "distinct (map fst ranked)"
    and "allocate_with_reserve capital ranked min_score cash risk = Inr (alloc, r)"
    and "(cell, s) \<in> set ranked"
  shows "dhas alloc cell \<longleftrightarrow> min_score \<le> pe_value s"
proof -
  have "fst p = cell \<Longrightarrow> p \<in> set ranked \<Longrightarrow> p = (cell, s)" for p
    using assms(1,3) by (metis eq_key_imp_eq_value prod.collapse)
  with assms(3) show ?thesis
    unfolding allocation_cases(4) [OF assms(1,2)] dhas_def dget_None_iff dkeys_def
    by (auto simp: image_iff)
qed

text \<open>
  Capital is handed out completely and only to cells that earned it. When every cell is
  ranked once and the capital is not negative, the allocations and the reserves add up to the
  total capital; each cell whose score clears the bar gets the same non-negative share and no
  other cell gets any; and when no cell clears the bar everything that is not reserved stays
  unallocated.
\<close>

theorem capital_is_conserved:
  assumes "distinct (map fst ranked)" and "0 \<le> capital"
    and "allocate_with_reserve capital ranked min_score cash risk = Inr (alloc, r)"
  shows "dsum id alloc + ar_unallocated r + ar_cash r + ar_risk r = capital \<and>
    (\<forall>cell s. (cell, s) \<in> set ranked \<longrightarrow> (dhas alloc cell \<longleftrightarrow> min_score \<le> pe_value s)) \<and>
    (\<forall>cell x. dget alloc cell = Some x \<longrightarrow> 0 \<le> x \<and> cell \<in> fst ` set ranked \<and>
       x * real (length alloc) = capital - ar_cash r - ar_risk r) \<and>
    (alloc = [] \<longleftrightarrow> (\<forall>(_, s) \<in> set ranked. pe_value s < min_score)) \<and>
    (alloc = [] \<longrightarrow> ar_unallocated r = capital - ar_cash r - ar_risk r)"
proof -
  let ?qual = "filter (\<lambda>p. min_score \<le> pe_value (snd p)) ranked"
  let ?free = "capital - capital * cash - capital * risk"
  let ?share = "?free / real (length ?qual)"
  note frac = allocation_cases(1-3) [OF assms(1,3)] and res = allocation_cases(4-7) [OF assms(1,3)]
  have "capital * (cash + risk) \<le> capital * 1" using frac assms(2) by (intro mult_left_mono) auto
  then have free: "0 \<le> ?free" by (simp add: algebra_simps)
  have "dsum id alloc = (if ?qual = [] then 0 else ?free)"
    unfolding res(1) by (simp add: dsum_def dvals_def comp_def sum_list_triv)
  then have "dsum id alloc + ar_unallocated r + ar_cash r + ar_risk r = capital"
    using res by simp
  moreover have "dhas alloc cell \<longleftrightarrow> min_score \<le> pe_value s" if "(cell, s) \<in> set ranked" for cell s
    using that by (rule funded_iff [OF assms(1,3)])
  moreover have "0 \<le> x \<and> cell \<in> fst ` set ranked \<and> x * real (length alloc) = capital - ar_cash r - ar_risk r"
    if "dget alloc cell = Some x" for cell x
  proof -
    from dget_in_set [OF that] obtain s where s: "(cell, s) \<in> set ?qual" and x: "x = ?share"
      unfolding res(1) by auto
    have "0 < length ?qual" using s by (rule length_pos_if_in_set)
    then have "0 \<le> x" "x * real (length ?qual) = ?free" using x free by auto
    with s show ?thesis unfolding res by (force simp: res(1))
  qed
  moreover have "alloc = [] \<longleftrightarrow> (\<forall>(_, s) \<in> set ranked. pe_value s < min_score)"
    unfolding res(1) by (auto simp: filter_empty_conv not_le)
  moreover have "alloc = [] \<longrightarrow> ar_unallocated r = capital - ar_cash r - ar_risk r"
    using res by auto
  ultimately show ?thesis by (intro conjI allI impI) auto
qed

text \<open>
  C28. Risk is never rewarded. The ranking lists every cell once, by descending score; a cell
  that has no more net edge than another and is at least as unstable, correlated, drawn down and
  fat-tailed never scores higher, not even when both lose money; so capital never goes to such a
  cell unless the better one is funded as well.
\<close>

theorem risk_is_never_rewarded:
  assumes "\<forall>i \<in> set inputs. inputs_ok i" and "distinct (map al_cell inputs)"
    and "rank_cells inputs t = Inr ranked"
    and "allocate_with_reserve capital ranked min_score cash risk = Inr (alloc, r)"
  shows "mset (map fst ranked) = mset (map al_cell inputs) \<and>
    sorted_wrt (\<lambda>p q. pe_value (snd q) \<le> pe_value (snd p)) ranked \<and>
    (\<forall>i \<in> set inputs. \<forall>j \<in> set inputs. no_better (6/10) j i \<longrightarrow>
      score_value j (6/10) \<le> score_value i (6/10) \<and>
      (dhas alloc (al_cell j) \<longrightarrow> dhas alloc (al_cell i)))"
proof -
  obtain scored where scored: "score_all inputs t = Inr scored"
    "ranked = sort_key (\<lambda>p. - pe_value (snd p)) scored"
    using assms(3) by (auto simp: rank_cells_def split: sum.splits)
  let ?f = "\<lambda>p. (fst p, pe_value (snd p))" and ?g = "\<lambda>i. (al_cell i, score_value i (6/10))"
  have same: "map ?f scored = map ?g inputs" using score_all_scores [OF scored(1)] ..
  have "map fst (map ?f scored) = map fst (map ?g inputs)" unfolding same ..
  then have fst_eq: "map fst scored = map al_cell inputs" by (simp add: comp_def)
  have perm: "mset (map fst ranked) = mset (map al_cell inputs)"
    unfolding scored(2) by (simp add: fst_eq [symmetric])
  then have dist: "distinct (map fst ranked)"
    using assms(2) by (metis mset_eq_imp_distinct_iff)
  have "sorted (map (\<lambda>p. - pe_value (snd p)) ranked)" unfolding scored(2) by simp
  then have sorted: "sorted_wrt (\<lambda>p q. pe_value (snd q) \<le> pe_value (snd p)) ranked"
    by (simp add: sorted_wrt_map)
  have entry: "\<exists>s. (al_cell i, s) \<in> set ranked \<and> pe_value s = score_value i (6/10)" if "i \<in> set inputs" for i
  proof -
    have "?g i \<in> set (map ?f scored)" unfolding same using that by simp
    then show ?thesis unfolding scored(2) by force
  qed
  have "score_value j (6/10) \<le> score_value i (6/10) \<and> (dhas alloc (al_cell j) \<longrightarrow> dhas alloc (al_cell i))"
    if ij: "i \<in> set inputs" "j \<in> set inputs" "no_better (6/10) j i" for i j
  proof -
    have le: "score_value j (6/10) \<le> score_value i (6/10)"
      using assms(1) ij by (intro score_mono) auto
    moreover obtain si sj where "(al_cell i, si) \<in> set ranked" "pe_value si = score_value i (6/10)"
      "(al_cell j, sj) \<in> set ranked" "pe_value sj = score_value j (6/10)"
      using entry ij by metis
    ultimately show ?thesis using funded_iff [OF dist assms(4)] by fastforce
  qed
  with perm sorted show ?thesis by blast
qed

section \<open>The remaining gates\<close>

text \<open>A new cell needs every piece of evidence, and a broker is only changed by a named human.\<close>

lemma review_cell_approves_iff:
  "cd_approved (review_cell c v p) \<longleftrightarrow>
    normalised (cp_hypothesis p) \<notin> normalised ` set (cp_existing p) \<and>
    c \<le> pe_conf (cp_opportunity p) \<and> c \<le> pe_conf (cp_independence p) \<and>
    v \<le> (if re_conf (cp_value p) < c then re_low (cp_value p) else re_base (cp_value p)) \<and>
    cp_capacity p"
  by (auto simp: review_cell_def Let_def)

lemma broker_failover_needs_all:
  "authorize_broker_failover c approval = Inr () \<longleftrightarrow> dc_kind c = EXECUTION_BROKER \<and>
    (\<exists>a. approval = Some a \<and> \<not> is_blank (fa_by a) \<and> fp_passed (fa_procedure a) \<and> fa_reconciled a)"
  by (auto simp: authorize_broker_failover_def split: option.splits)

text \<open>The detection of a concentration counts every cell once.\<close>

lemma by_dependency_cells:
  "dget_or (by_dependency deps) dep [] = map fst (filter (\<lambda>p. snd p = dep) deps)"
proof -
  have "dget_or (fold (\<lambda>p d. dput d (snd p) (dget_or d (snd p) [] @ [fst p])) deps d) dep [] =
      dget_or d dep [] @ map fst (filter (\<lambda>p. snd p = dep) deps)" for d
    by (induction deps arbitrary: d) (auto simp: dget_or_def dict_simps)
  from this [of "[]"] show ?thesis by (simp add: by_dependency_def dget_or_def)
qed

lemma by_dependency_ok: "dict_ok (by_dependency deps)"
proof -
  have "dict_ok d \<Longrightarrow> dict_ok (fold (\<lambda>p d. dput d (snd p) (dget_or d (snd p) [] @ [fst p])) deps d)" for d
    by (induction deps arbitrary: d) auto
  then show ?thesis by (simp add: by_dependency_def)
qed

lemma detected_concentration:
  assumes "detect_concentration kind deps t threshold = Inr cs" and "c \<in> set cs"
  shows "dc_cells c = sort (map fst (filter (\<lambda>p. snd p = dc_dependency c) deps))"
    and "dc_ratio c = real (length (dc_cells c)) / real (length deps)"
    and "threshold \<le> dc_ratio c" and "dc_ratio c \<le> 1"
proof -
  obtain dep cells where mem: "(dep, cells) \<in> set (by_dependency deps)" and "deps \<noteq> []"
    and c: "threshold \<le> real (length cells) / real (length deps)"
      "c = \<lparr>dc_kind = kind, dc_dependency = dep, dc_cells = sort cells,
            dc_ratio = real (length cells) / real (length deps), dc_at = t\<rparr>"
    using assms by (auto simp: detect_concentration_def split: if_split_asm)
  have cells: "cells = map fst (filter (\<lambda>p. snd p = dep) deps)"
    using by_dependency_cells [of deps dep] mem
    by (simp add: in_set_dget [OF by_dependency_ok] dget_or_def)
  have "real (length cells) \<le> real (length deps)" unfolding cells by simp
  then show "dc_ratio c \<le> 1" using \<open>deps \<noteq> []\<close> by (simp add: c(2))
  show "dc_cells c = sort (map fst (filter (\<lambda>p. snd p = dc_dependency c) deps))"
    "dc_ratio c = real (length (dc_cells c)) / real (length deps)" "threshold \<le> dc_ratio c"
    using c cells by simp_all
qed

section \<open>Witnesses\<close>

definition demo_score :: "real \<Rightarrow> point_estimate" where
  "demo_score v = \<lparr>pe_value = v, pe_conf = 1, pe_samples = 30, pe_method = ''m'', pe_at = 0\<rparr>"

theorem capital_is_conserved_witness:
  "\<exists>alloc r. allocate_with_reserve 1000 [(''A'', demo_score 5), (''B'', demo_score 2), (''C'', demo_score (-1))]
      0 (1/10) (1/10) = Inr (alloc, r) \<and> dsum id alloc = 800 \<and> dhas alloc ''B'' \<and> \<not> dhas alloc ''C''"
proof -
  let ?ranked = "[(''A'', demo_score 5), (''B'', demo_score 2), (''C'', demo_score (-1))]"
  let ?alloc = "[(''A'', 400), (''B'', 400)]"
  let ?r = "\<lparr>ar_total = 1000, ar_unallocated = 0, ar_cash = 100, ar_risk = 100\<rparr>"
  have eq: "allocate_with_reserve 1000 ?ranked 0 (1/10) (1/10) = Inr (?alloc, ?r)"
    by (simp add: allocate_with_reserve_def Let_def demo_score_def mk_allocation_reserve_def
      allocatable_to_cells_def eps_def)
  have d: "distinct (map fst ?ranked)" and nn: "(0::real) \<le> 1000" by simp_all
  show ?thesis using capital_is_conserved [OF d nn eq] eq by (auto simp: demo_score_def)
qed

definition demo_range :: "real \<Rightarrow> range_estimate" where
  "demo_range v = \<lparr>re_low = v - 1, re_base = v, re_high = v + 1, re_conf = 1, re_samples = 30,
     re_method = ''m'', re_at = 0\<rparr>"

definition demo_inputs :: "string \<Rightarrow> real \<Rightarrow> cell_inputs" where
  "demo_inputs cell drawdown = \<lparr>al_cell = cell, al_edge = demo_range (-2), al_stability = 1,
     al_capacity = demo_range 100,
     al_tail = \<lparr>tr_level = 19/20, tr_var = 1, tr_shortfall = 1, tr_samples = 30, tr_method = ''m'', tr_at = 0\<rparr>,
     al_correlation = 0, al_drawdown = drawdown, al_cost = 0\<rparr>"

theorem risk_is_never_rewarded_witness:
  "score_value (demo_inputs ''A'' (1/2)) (6/10) \<le> score_value (demo_inputs ''B'' 0) (6/10)"
proof -
  let ?i = "demo_inputs ''B'' 0" and ?j = "demo_inputs ''A'' (1/2)"
  have ok: "\<forall>i \<in> set [?i, ?j]. inputs_ok i" "distinct (map al_cell [?i, ?j])"
    by (simp_all add: inputs_ok_def demo_inputs_def)
  have worse: "no_better (6/10) ?j ?i"
    by (simp add: no_better_def net_of_cost_def demo_inputs_def Let_def)
  obtain ranked where ranked: "rank_cells [?i, ?j] 0 = Inr ranked"
    by (simp add: rank_cells_def uncertainty_adjusted_score_def Let_def mk_point_estimate_def
      demo_inputs_def demo_range_def)
  obtain alloc r where alloc: "allocate_with_reserve 0 ranked 0 0 0 = Inr (alloc, r)"
    by (cases "filter (\<lambda>p. 0 \<le> pe_value (snd p)) ranked = []")
      (simp_all add: allocate_with_reserve_def Let_def mk_allocation_reserve_def
        allocatable_to_cells_def eps_def)
  show ?thesis using risk_is_never_rewarded [OF ok ranked alloc] worse by simp
qed

end
