(* ===== verification/Correlation.thy ===== *)
theory Correlation
  imports Estimation
begin

text \<open>
  \<open>services/capital_cells/correlation.py\<close>: correlation per market regime and the overlap of
  alphas. A \<open>frozenset\<close> of two names is the ordered pair of them.
\<close>

section \<open>Pairs\<close>

definition pair_key :: "string \<Rightarrow> string \<Rightarrow> string \<times> string" where
  "pair_key a b = (if a \<le> b then (a, b) else (b, a))"

lemma pair_key_sym: "pair_key a b = pair_key b a"
  by (auto simp: pair_key_def)

lemma pair_key_eq: "pair_key a b = pair_key c d \<longleftrightarrow> {a, b} = {c, d}"
  by (auto simp: pair_key_def doubleton_eq_iff)

text \<open>\<open>for i, a in enumerate(ids): for b in ids[i + 1:]\<close>\<close>

fun all_pairs :: "'a list \<Rightarrow> ('a \<times> 'a) list" where
  "all_pairs [] = []"
| "all_pairs (x # xs) = map (Pair x) xs @ all_pairs xs"

section \<open>Correlation per regime\<close>

definition CORRELATION_METHOD_VERSION :: string where
  "CORRELATION_METHOD_VERSION = ''PEARSON_V1''"

datatype correlation_regime = C_NORMAL | C_DOWNSIDE | C_STRESS

record regime_correlation =
  rg_regime :: correlation_regime
  rg_pairwise :: "(string \<times> string, real) dict"
  rg_lookback :: int
  rg_halflife :: "real option"
  rg_samples :: int
  rg_at :: instant
  rg_method :: string

definition rg_get :: "regime_correlation \<Rightarrow> string \<Rightarrow> string \<Rightarrow> real" where
  "rg_get r a b = (if a = b then 1 else dget_or (rg_pairwise r) (pair_key a b) 0)"

definition rg_has :: "regime_correlation \<Rightarrow> string \<Rightarrow> string \<Rightarrow> bool" where
  "rg_has r a b \<longleftrightarrow> a = b \<or> dhas (rg_pairwise r) (pair_key a b)"

definition correlation_is_stale :: "regime_correlation \<Rightarrow> instant \<Rightarrow> real \<Rightarrow> bool" where
  "correlation_is_stale r now max_age_days \<longleftrightarrow>
     max_age_days * 86400 < real_of_int (now - rg_at r) / 1000000"

definition regime_of ::
    "(correlation_regime, regime_correlation) dict \<Rightarrow> correlation_regime \<Rightarrow> exn + regime_correlation" where
  "regime_of by_regime r =
     (case dget by_regime r of None \<Rightarrow> Inl InsufficientDataError | Some x \<Rightarrow> Inr x)"

definition weighted_mean :: "real list \<Rightarrow> real list \<Rightarrow> real" where
  "weighted_mean ws xs = (\<Sum>(w, x)\<leftarrow>zip ws xs. w * x) / sum_list ws"

definition weighted_square :: "real list \<Rightarrow> real list \<Rightarrow> real" where
  "weighted_square ws xs = (\<Sum>(w, x)\<leftarrow>zip ws xs. w * (x - weighted_mean ws xs) ^ 2)"

definition weighted_product :: "real list \<Rightarrow> real list \<Rightarrow> real list \<Rightarrow> real" where
  "weighted_product ws xs ys =
     (\<Sum>(w, x, y)\<leftarrow>zip ws (zip xs ys). w * (x - weighted_mean ws xs) * (y - weighted_mean ws ys))"

definition weighted_pearson :: "real list \<Rightarrow> real list \<Rightarrow> real list \<Rightarrow> real" where
  "weighted_pearson xs ys ws =
     (if sum_list ws \<le> 0 then 0
      else let cov = weighted_product ws xs ys;
               vx = weighted_square ws xs;
               vy = weighted_square ws ys
           in if vx \<le> 0 \<or> vy \<le> 0 then 0
              else max (- 1) (min 1 (cov / sqrt (vx * vy))))"

section \<open>The correlation engine\<close>

record correlation_engine =
  ce_min_samples :: int
  ce_stress_quantile :: real

definition default_correlation_engine :: correlation_engine where
  "default_correlation_engine = \<lparr>ce_min_samples = 20, ce_stress_quantile = 5 / 100\<rparr>"

definition base_weights :: "nat \<Rightarrow> real option \<Rightarrow> real list" where
  "base_weights n halflife =
     (case halflife of
        Some h \<Rightarrow> if h \<noteq> 0 then map (\<lambda>k. (1/2) powr ((real n - 1 - real k) / h)) [0..<n]
                  else replicate n 1
      | None \<Rightarrow> replicate n 1)"

definition stress_days :: "correlation_engine \<Rightarrow> real list \<Rightarrow> nat list" where
  "stress_days e market =
     (let n = length market;
          stress_count = (if n \<noteq> 0 then max 1 (round_half_even (ce_stress_quantile e * real n)) else 0);
          worst_first = sort_key (\<lambda>k. market ! k) [0..<n]
      in take (nat stress_count) worst_first)"

definition regime_masks ::
    "correlation_engine \<Rightarrow> real list \<Rightarrow> (correlation_regime \<times> bool list) list" where
  "regime_masks e market =
     (let n = length market; stress = stress_days e market
      in [(C_NORMAL, replicate n True),
          (C_DOWNSIDE, map (\<lambda>r. r < 0) market),
          (C_STRESS, map (\<lambda>k. k \<in> set stress) [0..<n])])"

definition masked :: "bool list \<Rightarrow> 'a list \<Rightarrow> 'a list" where
  "masked keep xs = map fst (filter snd (zip xs keep))"

definition regime_estimate ::
    "(string, real list) dict \<Rightarrow> real list \<Rightarrow> int \<Rightarrow> instant \<Rightarrow> real option \<Rightarrow>
     correlation_regime \<Rightarrow> bool list \<Rightarrow> regime_correlation" where
  "regime_estimate rets weights lookback as_of halflife reg keep =
     (let cell_ids = sort (dkeys rets);
          ws = masked keep weights;
          series = (\<lambda>a. masked keep (dget_or rets a []));
          pairwise = fold (\<lambda>(a, b) d. dput d (pair_key a b) (weighted_pearson (series a) (series b) ws))
            (all_pairs cell_ids) []
      in \<lparr>rg_regime = reg, rg_pairwise = pairwise, rg_lookback = lookback, rg_halflife = halflife,
          rg_samples = int (length (filter id keep)), rg_at = as_of,
          rg_method = CORRELATION_METHOD_VERSION\<rparr>)"

definition estimate_correlation ::
    "correlation_engine \<Rightarrow> (string, real list) dict \<Rightarrow> real list \<Rightarrow> int \<Rightarrow> instant \<Rightarrow> real option \<Rightarrow>
     exn + (correlation_regime, regime_correlation) dict" where
  "estimate_correlation e rets market lookback as_of halflife =
     (let n = length market in
      if list_ex (\<lambda>xs. length xs \<noteq> n) (dvals rets) then Inl ValueError
      else
        (let weights = base_weights n halflife;
             measured = filter (\<lambda>(_, keep). \<not> int (length (filter id keep)) < ce_min_samples e)
               (regime_masks e market);
             by_regime = map (\<lambda>(reg, keep).
               (reg, regime_estimate rets weights lookback as_of halflife reg keep)) measured
         in if by_regime = [] then Inl InsufficientDataError else Inr by_regime))"

section \<open>Overlap of alphas\<close>

definition ALPHA_OVERLAP_METHOD_VERSION :: string where
  "ALPHA_OVERLAP_METHOD_VERSION = ''EQUAL_WEIGHTED_7DIM_V1''"

definition MIN_ALPHA_OVERLAP_SAMPLES :: real where
  "MIN_ALPHA_OVERLAP_SAMPLES = 20"

record alpha_overlap =
  ao_feature :: real
  ao_signal :: real
  ao_return :: real
  ao_universe :: real
  ao_timing :: real
  ao_factor :: real
  ao_training :: real
  ao_count :: int

definition mk_alpha_overlap :: "alpha_overlap \<Rightarrow> exn + alpha_overlap" where
  "mk_alpha_overlap o1 =
     (if list_ex (\<lambda>v. \<not> (0 \<le> v \<and> v \<le> 1))
           [ao_feature o1, ao_universe o1, ao_timing o1, ao_factor o1, ao_training o1] then Inl ValueError
      else if list_ex (\<lambda>v. \<not> (- 1 \<le> v \<and> v \<le> 1)) [ao_signal o1, ao_return o1] then Inl ValueError
      else if ao_count o1 < 0 then Inl ValueError
      else Inr o1)"

definition composite_overlap :: "alpha_overlap \<Rightarrow> real" where
  "composite_overlap o1 =
     (let values = [ao_feature o1, \<bar>ao_signal o1\<bar>, \<bar>ao_return o1\<bar>, ao_universe o1, ao_timing o1,
                    ao_factor o1, ao_training o1]
      in sum_list values / real (length values))"

definition found_overlaps :: "string list \<Rightarrow> (string \<times> string, alpha_overlap) dict \<Rightarrow> alpha_overlap option list" where
  "found_overlaps cell_ids overlaps =
     map (\<lambda>(a, b). dget overlaps (pair_key a b)) (all_pairs cell_ids)"

fun overlap_missing :: "alpha_overlap option \<Rightarrow> bool" where
  "overlap_missing None = True"
| "overlap_missing (Some ov) = (ao_count ov = 0)"

definition average_overlap :: "alpha_overlap list \<Rightarrow> real" where
  "average_overlap used = sum_list (map composite_overlap used) / real (length used)"

definition weakest_confidence :: "alpha_overlap list \<Rightarrow> real" where
  "weakest_confidence used =
     Min (set (map (\<lambda>ov. min 1 (real_of_int (ao_count ov) / MIN_ALPHA_OVERLAP_SAMPLES)) used))"

definition effective_alpha_count ::
    "string list \<Rightarrow> (string \<times> string, alpha_overlap) dict \<Rightarrow> instant \<Rightarrow> exn + point_estimate" where
  "effective_alpha_count cell_ids overlaps as_of =
     (let n = length cell_ids in
      if n = 0 then Inl InsufficientDataError
      else if n = 1 then mk_point_estimate \<lparr>pe_value = 1, pe_conf = 1, pe_samples = 0,
        pe_method = ALPHA_OVERLAP_METHOD_VERSION, pe_at = as_of\<rparr>
      else
        (let found = found_overlaps cell_ids overlaps in
         if list_ex overlap_missing found then Inl InsufficientDataError
         else let used = map the found in
           mk_point_estimate
             \<lparr>pe_value = 1 + (real n - 1) * (1 - average_overlap used), pe_conf = weakest_confidence used,
              pe_samples = int (length used), pe_method = ALPHA_OVERLAP_METHOD_VERSION,
              pe_at = as_of\<rparr>))"

section \<open>Pearson's coefficient\<close>

lemma rg_get_sym: "rg_get r a b = rg_get r b a"
  by (simp add: rg_get_def pair_key_sym [of a b])

lemma rg_get_refl [simp]: "rg_get r a a = 1"
  by (simp add: rg_get_def)

lemma weighted_square_nonneg: "(\<And>w. w \<in> set ws \<Longrightarrow> 0 \<le> w) \<Longrightarrow> 0 \<le> weighted_square ws xs"
  unfolding weighted_square_def
  by (intro sum_list_nonneg_map) (auto dest: set_zip_leftD)

lemma weighted_product_sym:
  "weighted_product ws xs ys = weighted_product ws ys xs"
proof -
  have "(\<Sum>(w, x, y)\<leftarrow>zip ws (zip xs ys). w * (x - a) * (y - b)) =
      (\<Sum>(w, y, x)\<leftarrow>zip ws (zip ys xs). w * (y - b) * (x - a))" for a b :: real
  proof (induction ws arbitrary: xs ys)
    case (Cons w ws)
    then show ?case by (cases xs; cases ys) (auto simp: mult_ac)
  qed simp
  then show ?thesis unfolding weighted_product_def .
qed

lemma weighted_pearson_sym: "weighted_pearson xs ys ws = weighted_pearson ys xs ws"
  by (simp add: weighted_pearson_def Let_def weighted_product_sym [of ws xs ys] mult.commute disj_commute)

text \<open>The inequality of Cauchy and Schwarz on weighted lists.\<close>

lemma weighted_cauchy_schwarz:
  fixes ws xs ys :: "real list"
  assumes "\<And>w. w \<in> set ws \<Longrightarrow> 0 \<le> w" and "length xs = length ws" and "length ys = length ws"
  shows "(\<Sum>(w, x, y)\<leftarrow>zip ws (zip xs ys). w * (x - a) * (y - b)) ^ 2 \<le>
    (\<Sum>(w, x)\<leftarrow>zip ws xs. w * (x - a) ^ 2) * (\<Sum>(w, y)\<leftarrow>zip ws ys. w * (y - b) ^ 2)"
proof -
  let ?A = "\<Sum>(w, x)\<leftarrow>zip ws xs. w * (x - a) ^ 2" and ?C = "\<Sum>(w, y)\<leftarrow>zip ws ys. w * (y - b) ^ 2"
  let ?B = "\<Sum>(w, x, y)\<leftarrow>zip ws (zip xs ys). w * (x - a) * (y - b)"
  have quad: "(\<Sum>(w, x, y)\<leftarrow>zip ws (zip xs ys). w * (u * (x - a) + v * (y - b)) ^ 2) =
      u ^ 2 * ?A + 2 * u * v * ?B + v ^ 2 * ?C" for u v
    using assms(2,3)
  proof (induction ws arbitrary: xs ys)
    case (Cons w ws)
    then show ?case
      by (cases xs; cases ys) (auto simp: algebra_simps power2_eq_square)
  qed simp
  have "0 \<le> (\<Sum>(w, x, y)\<leftarrow>zip ws (zip xs ys). w * (u * (x - a) + v * (y - b)) ^ 2)" for u v
    using assms(1) by (intro sum_list_nonneg_map) (auto dest: set_zip_leftD)
  then have pos: "0 \<le> u ^ 2 * ?A + 2 * u * v * ?B + v ^ 2 * ?C" for u v by (simp only: quad)
  have A: "0 \<le> ?A" and C: "0 \<le> ?C" using pos [of 1 0] pos [of 0 1] by simp_all
  show ?thesis
  proof (cases "?C = 0")
    case True
    have "?B = 0"
    proof (rule ccontr)
      assume "?B \<noteq> 0"
      have "0 \<le> ?A + 2 * v * ?B" for v using pos [of 1 v] True by simp
      from this [of "- (?A + 1) / (2 * ?B)"] \<open>?B \<noteq> 0\<close> show False by (simp add: field_simps)
    qed
    then show ?thesis using True by simp
  next
    case False
    with C have "0 < ?C" by simp
    have "0 \<le> ?C * (?A * ?C - ?B ^ 2)"
      using pos [of ?C "- ?B"] by (simp add: algebra_simps power2_eq_square)
    with \<open>0 < ?C\<close> show ?thesis by (simp add: zero_le_mult_iff)
  qed
qed

text \<open>The clamp of the code never cuts anything off: it only guards against rounding.\<close>

lemma pearson_needs_no_clamp:
  assumes "\<And>w. w \<in> set ws \<Longrightarrow> 0 \<le> w" and "length xs = length ws" and "length ys = length ws"
  shows "\<bar>weighted_product ws xs ys\<bar> \<le> sqrt (weighted_square ws xs * weighted_square ws ys)"
proof -
  have "weighted_product ws xs ys ^ 2 \<le> weighted_square ws xs * weighted_square ws ys"
    unfolding weighted_product_def weighted_square_def by (rule weighted_cauchy_schwarz [OF assms])
  then show ?thesis using real_le_rsqrt [of "\<bar>weighted_product ws xs ys\<bar>"] by simp
qed

lemma pearson_bounds: "- 1 \<le> weighted_pearson xs ys ws" "weighted_pearson xs ys ws \<le> 1"
  by (auto simp: weighted_pearson_def Let_def)

lemma weighted_product_self: "weighted_product ws xs xs = weighted_square ws xs"
proof -
  have "(\<Sum>(w, x, y)\<leftarrow>zip ws (zip xs xs). w * (x - a) * (y - a)) = (\<Sum>(w, x)\<leftarrow>zip ws xs. w * (x - a) ^ 2)"
    for a :: real
  proof (induction ws arbitrary: xs)
    case (Cons w ws)
    then show ?case by (cases xs) (auto simp: power2_eq_square)
  qed simp
  then show ?thesis unfolding weighted_product_def weighted_square_def .
qed

lemma pearson_self:
  assumes "0 < sum_list ws" and "0 < weighted_square ws xs"
  shows "weighted_pearson xs xs ws = 1"
  using assms by (simp add: weighted_pearson_def Let_def weighted_product_self)

section \<open>What an estimate covers\<close>

lemma all_pairs_in: "a \<in> set xs \<Longrightarrow> b \<in> set xs \<Longrightarrow> a \<noteq> b \<Longrightarrow>
    (a, b) \<in> set (all_pairs xs) \<or> (b, a) \<in> set (all_pairs xs)"
  by (induction xs) auto

lemma all_pairs_subset: "(a, b) \<in> set (all_pairs xs) \<Longrightarrow> a \<in> set xs \<and> b \<in> set xs"
  by (induction xs) auto

lemma all_pairs_nonempty: "2 \<le> length xs \<Longrightarrow> all_pairs xs \<noteq> []"
  by (cases xs; cases "tl xs") auto

text \<open>The pairwise table after the loop: exactly the pairs of the list, each in \<open>[-1, 1]\<close>.\<close>

lemma pairwise_table:
  assumes "d' = fold (\<lambda>(a, b) d. dput d (pair_key a b) (f a b)) ps d"
    and "\<And>a b. P (f a b)" and "\<And>k v. dget d k = Some v \<Longrightarrow> P v"
  shows "dhas d' k \<longleftrightarrow> dhas d k \<or> k \<in> (\<lambda>(a, b). pair_key a b) ` set ps"
    and "dget d' k = Some v \<Longrightarrow> P v"
proof -
  let ?step = "\<lambda>(a, b) d. dput d (pair_key a b) (f a b)"
  have "dhas (fold ?step ps d) k \<longleftrightarrow> dhas d k \<or> k \<in> (\<lambda>(a, b). pair_key a b) ` set ps" for k d
  proof (induction ps arbitrary: d)
    case (Cons p ps)
    show ?case using Cons.IH [of "?step p d"] by (cases p) (auto simp: dhas_def dict_simps)
  qed simp
  then show "dhas d' k \<longleftrightarrow> dhas d k \<or> k \<in> (\<lambda>(a, b). pair_key a b) ` set ps" using assms(1) by simp
  have "\<forall>k v. dget (fold ?step ps d) k = Some v \<longrightarrow> P v" if "\<forall>k v. dget d k = Some v \<longrightarrow> P v" for d
    using that
  proof (induction ps arbitrary: d)
    case (Cons p ps)
    have "\<forall>k v. dget (?step p d) k = Some v \<longrightarrow> P v"
      using Cons.prems assms(2) by (cases p) (auto simp: dict_simps)
    from Cons.IH [OF this] show ?case by simp
  qed simp
  from this [of d] assms(3) show "dget d' k = Some v \<Longrightarrow> P v" unfolding assms(1) by blast
qed

lemma regime_estimate_covers:
  assumes r_def: "r = regime_estimate rets ws n t h reg keep"
    and "a \<in> set (dkeys rets)" and "b \<in> set (dkeys rets)"
  shows "rg_has r a b" and "- 1 \<le> rg_get r a b" and "rg_get r a b \<le> 1"
proof -
  let ?f = "\<lambda>a b. weighted_pearson (masked keep (dget_or rets a [])) (masked keep (dget_or rets b []))
    (masked keep ws)"
  let ?ps = "all_pairs (sort (dkeys rets))"
  have table: "rg_pairwise r = fold (\<lambda>(a, b) d. dput d (pair_key a b) (?f a b)) ?ps []"
    unfolding r_def regime_estimate_def by (simp add: Let_def)
  have P: "- 1 \<le> ?f a b \<and> ?f a b \<le> 1" for a b using pearson_bounds by blast
  note t = pairwise_table [where P = "\<lambda>v. - 1 \<le> v \<and> v \<le> 1", OF table P]
  show "rg_has r a b"
  proof (cases "a = b")
    case False
    with assms all_pairs_in [of a "sort (dkeys rets)" b]
    have "pair_key a b \<in> (\<lambda>(a, b). pair_key a b) ` set ?ps"
      by (auto simp: image_iff pair_key_sym [of a b] intro: bexI [of _ "(a, b)"] bexI [of _ "(b, a)"])
    with t(1) show ?thesis by (simp add: rg_has_def)
  qed (simp add: rg_has_def)
  have "- 1 \<le> rg_get r a b \<and> rg_get r a b \<le> 1"
    using t(2) [of "pair_key a b"] by (auto simp: rg_get_def dget_or_def split: option.split)
  then show "- 1 \<le> rg_get r a b" "rg_get r a b \<le> 1" by auto
qed

text \<open>
  The stress days are chosen by rank: as many as asked for, and every other day is at least as
  good as each of them, ties or not.
\<close>

lemma stress_days_rank:
  assumes "k \<in> set (stress_days e market)" and "j < length market" and "j \<notin> set (stress_days e market)"
  shows "k < length market" and "market ! k \<le> market ! j"
proof -
  let ?order = "sort_key (\<lambda>k. market ! k) [0..<length market]"
  obtain m where days: "stress_days e market = take m ?order"
    by (simp add: stress_days_def Let_def)
  show "k < length market" using assms(1) days by (auto dest!: in_set_takeD)
  have "j \<in> set ?order" using assms(2) by simp
  then have "j \<in> set (drop m ?order)"
    using assms(3) days by (metis Un_iff append_take_drop_id set_append)
  moreover have "sorted_wrt (\<lambda>a b. market ! a \<le> market ! b) (take m ?order @ drop m ?order)"
    using sorted_sort_key [of "\<lambda>k. market ! k" "[0..<length market]"] by (simp add: sorted_wrt_map)
  ultimately show "market ! k \<le> market ! j"
    using assms(1) days unfolding sorted_wrt_append by auto
qed

lemma stress_days_distinct: "distinct (stress_days e market)"
  by (simp add: stress_days_def Let_def distinct_take)

section \<open>The count of independent alphas\<close>

lemma composite_overlap_bounds:
  assumes "mk_alpha_overlap ov = Inr ov'"
  shows "0 \<le> composite_overlap ov" and "composite_overlap ov \<le> 1"
  using assms by (auto simp: mk_alpha_overlap_def composite_overlap_def Let_def split: if_splits)

text \<open>Between one and all of them, and never without a measurement of every pair.\<close>

lemma effective_alpha_count_bounds:
  assumes "effective_alpha_count ids ovs t = Inr p"
    and "\<And>k ov. dget ovs k = Some ov \<Longrightarrow> mk_alpha_overlap ov = Inr ov"
  shows "1 \<le> pe_value p" and "pe_value p \<le> real (length ids)"
    and "a \<in> set ids \<Longrightarrow> b \<in> set ids \<Longrightarrow> a \<noteq> b \<Longrightarrow> dhas ovs (pair_key a b)"
proof -
  let ?found = "found_overlaps ids ovs"
  let ?used = "map the ?found"
  have n: "1 \<le> length ids" using assms(1) by (cases ids) (auto simp: effective_alpha_count_def)
  have all: "1 \<le> pe_value p \<and> pe_value p \<le> real (length ids) \<and> (\<forall>x \<in> set ?found. x \<noteq> None)"
  proof (cases "length ids = 1")
    case True
    then obtain x where "ids = [x]" by (auto simp: length_Suc_conv)
    with assms(1) True show ?thesis
      by (auto simp: effective_alpha_count_def mk_point_estimate_ok found_overlaps_def)
  next
    case False
    with n have two: "2 \<le> length ids" by simp
    have nm: "\<not> list_ex overlap_missing ?found"
      and p: "pe_value p = 1 + (real (length ids) - 1) * (1 - average_overlap ?used)"
      using assms(1) two
      by (auto simp: effective_alpha_count_def Let_def mk_point_estimate_ok split: if_split_asm)
    have some: "\<forall>x \<in> set ?found. x \<noteq> None"
      using nm overlap_missing.simps(1) unfolding list_ex_iff by metis
    have "?used \<noteq> []" using all_pairs_nonempty [OF two] by (simp add: found_overlaps_def)
    moreover have "0 \<le> composite_overlap ov \<and> composite_overlap ov \<le> 1" if ov: "ov \<in> set ?used" for ov
    proof -
      obtain x where x: "x \<in> set ?found" "ov = the x" using ov by auto
      with some have "Some ov \<in> set ?found" by force
      then obtain a b where "dget ovs (pair_key a b) = Some ov" by (auto simp: found_overlaps_def)
      with assms(2) composite_overlap_bounds show ?thesis by blast
    qed
    ultimately have "0 \<le> mean (map composite_overlap ?used)" "mean (map composite_overlap ?used) \<le> 1"
      by (intro mean_ge mean_le; auto)+
    then have avg: "0 \<le> average_overlap ?used" "average_overlap ?used \<le> 1"
      by (simp_all add: mean_def average_overlap_def)
    then have "0 \<le> (real (length ids) - 1) * (1 - average_overlap ?used)"
      "(real (length ids) - 1) * (1 - average_overlap ?used) \<le> (real (length ids) - 1) * 1"
      using two by (auto intro!: mult_left_mono)
    with p some show ?thesis by simp
  qed
  then show "1 \<le> pe_value p" "pe_value p \<le> real (length ids)" by auto
  show "dhas ovs (pair_key a b)" if ab: "a \<in> set ids" "b \<in> set ids" "a \<noteq> b"
  proof -
    have "dget ovs (pair_key a b) \<in> set ?found"
      using all_pairs_in [OF ab] unfolding found_overlaps_def set_map
      by (metis (mono_tags, lifting) case_prod_conv image_eqI pair_key_sym)
    with all show ?thesis by (simp add: dhas_def)
  qed
qed

end
