(* ===== verification/Breadth.thy ===== *)
theory Breadth
  imports Correlation
begin

text \<open>
  \<open>services/capital_cells/breadth.py\<close>: how many of a number of things are independent. The
  clusters come from a union-find structure whose \<open>parent\<close> dictionary has every item as a
  key, and is a function here; its \<open>while\<close> loop is a partial function, so that not
  returning is \<open>None\<close>. Matrices are functions of their two indices.
\<close>

definition EIGENVALUE_METHOD_VERSION :: string where
  "EIGENVALUE_METHOD_VERSION = ''EIGENVALUE_EFFECTIVE_RANK_V1''"

definition CORRELATION_CLUSTER_METHOD_VERSION :: string where
  "CORRELATION_CLUSTER_METHOD_VERSION = ''CORRELATION_CLUSTER_COUNT_V1''"

definition FACTOR_CLUSTER_METHOD_VERSION :: string where
  "FACTOR_CLUSTER_METHOD_VERSION = ''RISK_FACTOR_CLUSTERING_V1''"

definition DEFAULT_CLUSTER_THRESHOLD :: real where
  "DEFAULT_CLUSTER_THRESHOLD = 7 / 10"

definition unmeasured :: "string list \<Rightarrow> regime_correlation \<Rightarrow> (string \<times> string) list" where
  "unmeasured item_ids r = filter (\<lambda>(a, b). \<not> rg_has r a b) (all_pairs item_ids)"

definition require_measured_pairs :: "string list \<Rightarrow> regime_correlation \<Rightarrow> exn + unit" where
  "require_measured_pairs item_ids r =
     (if unmeasured item_ids r \<noteq> [] then Inl InsufficientDataError else Inr ())"

section \<open>Union-find\<close>

partial_function (option) uf_find :: "(string \<Rightarrow> string) \<Rightarrow> string \<Rightarrow> ((string \<Rightarrow> string) \<times> string) option" where
  "uf_find parent x =
     (if parent x = x then Some (parent, x)
      else let parent' = parent(x := parent (parent x)) in uf_find parent' (parent' x))"

definition uf_union :: "(string \<Rightarrow> string) \<Rightarrow> string \<Rightarrow> string \<Rightarrow> (string \<Rightarrow> string) option" where
  "uf_union parent x y =
     (case uf_find parent x of None \<Rightarrow> None | Some (parent1, rx) \<Rightarrow>
      case uf_find parent1 y of None \<Rightarrow> None | Some (parent2, ry) \<Rightarrow>
        Some (if rx \<noteq> ry then parent2(rx := ry) else parent2))"

fun uf_links ::
    "(string \<Rightarrow> string \<Rightarrow> real) \<Rightarrow> real \<Rightarrow> (string \<times> string) list \<Rightarrow> (string \<Rightarrow> string) \<Rightarrow>
     (string \<Rightarrow> string) option" where
  "uf_links similarity threshold [] parent = Some parent"
| "uf_links similarity threshold ((a, b) # ps) parent =
     (if threshold \<le> similarity a b
      then (case uf_union parent a b of None \<Rightarrow> None
            | Some parent' \<Rightarrow> uf_links similarity threshold ps parent')
      else uf_links similarity threshold ps parent)"

fun uf_roots :: "string list \<Rightarrow> (string \<Rightarrow> string) \<Rightarrow> string list option" where
  "uf_roots [] parent = Some []"
| "uf_roots (x # xs) parent =
     (case uf_find parent x of None \<Rightarrow> None | Some (parent', r) \<Rightarrow>
      case uf_roots xs parent' of None \<Rightarrow> None | Some rs \<Rightarrow> Some (r # rs))"

definition component_count :: "string list \<Rightarrow> (string \<Rightarrow> string \<Rightarrow> real) \<Rightarrow> real \<Rightarrow> nat option" where
  "component_count item_ids similarity threshold =
     (case uf_links similarity threshold (all_pairs item_ids) (\<lambda>item. item) of None \<Rightarrow> None
      | Some parent \<Rightarrow> map_option (\<lambda>rs. length (remdups rs)) (uf_roots item_ids parent))"

section \<open>Eigenvalues\<close>

type_synonym matrix = "nat \<Rightarrow> nat \<Rightarrow> real"

definition mset_at :: "nat \<Rightarrow> nat \<Rightarrow> real \<Rightarrow> matrix \<Rightarrow> matrix" where
  "mset_at i j v a = a(i := (a i)(j := v))"

definition pivot :: "nat \<Rightarrow> matrix \<Rightarrow> nat \<times> nat \<times> real" where
  "pivot n a = fold (\<lambda>(i, j) (p, q, m). if m < \<bar>a i j\<bar> then (i, j, \<bar>a i j\<bar>) else (p, q, m))
     (all_pairs [0..<n]) (0, 1, 0)"

definition rotate_row :: "real \<Rightarrow> real \<Rightarrow> nat \<Rightarrow> nat \<Rightarrow> nat \<Rightarrow> matrix \<Rightarrow> matrix" where
  "rotate_row s r p q i a =
     (if i \<noteq> p \<and> i \<noteq> q
      then let aip = a i p; aiq = a i q;
               x = aip - s * (aiq + r * aip);
               y = aiq + s * (aip - r * aiq)
           in mset_at q i y (mset_at i q y (mset_at p i x (mset_at i p x a)))
      else a)"

definition rotation :: "real \<Rightarrow> real \<Rightarrow> real \<Rightarrow> real \<times> real \<times> real" where
  "rotation app aqq apq =
     (let tau = (aqq - app) / (2 * apq);
          t = (if 0 \<le> tau then 1 else - 1) / (\<bar>tau\<bar> + sqrt (1 + tau * tau));
          c = 1 / sqrt (1 + t * t);
          s = t * c
      in (t, c, s))"

definition rotate_at :: "nat \<Rightarrow> nat \<Rightarrow> nat \<Rightarrow> matrix \<Rightarrow> matrix" where
  "rotate_at n p q a =
     (let app = a p p; aqq = a q q; apq = a p q;
          (t, c, s) = rotation app aqq apq;
          a1 = mset_at q p 0 (mset_at p q 0 (mset_at q q (aqq + t * apq) (mset_at p p (app - t * apq) a)))
      in fold (rotate_row s (s / (1 + c)) p q) [0..<n] a1)"

fun jacobi :: "nat \<Rightarrow> real \<Rightarrow> nat \<Rightarrow> matrix \<Rightarrow> matrix" where
  "jacobi 0 tol n a = a"
| "jacobi (Suc max_iter) tol n a =
     (let (p, q, max_val) = pivot n a
      in if max_val < tol then a else jacobi max_iter tol n (rotate_at n p q a))"

definition symmetric_eigenvalues :: "nat \<Rightarrow> matrix \<Rightarrow> real list" where
  "symmetric_eigenvalues n a = (let d = jacobi 200 (1 / 10 ^ 10) n a in map (\<lambda>i. d i i) [0..<n])"

section \<open>The estimates\<close>

definition one_item :: "string \<Rightarrow> instant \<Rightarrow> int \<Rightarrow> exn + point_estimate" where
  "one_item version t samples = mk_point_estimate
     \<lparr>pe_value = 1, pe_conf = 1, pe_samples = samples, pe_method = version, pe_at = t\<rparr>"

definition counted ::
    "string \<Rightarrow> regime_correlation \<Rightarrow> instant \<Rightarrow> int \<Rightarrow> real \<Rightarrow> exn + point_estimate" where
  "counted version r t min_sample_size v =
     (if min_sample_size = 0 then Inl ZeroDivisionError
      else mk_point_estimate
        \<lparr>pe_value = v, pe_conf = min 1 (real_of_int (rg_samples r) / real_of_int min_sample_size),
         pe_samples = rg_samples r, pe_method = version, pe_at = t\<rparr>)"

definition correlation_matrix :: "string list \<Rightarrow> regime_correlation \<Rightarrow> matrix" where
  "correlation_matrix item_ids r i j = rg_get r (item_ids ! i) (item_ids ! j)"

definition participation :: "nat \<Rightarrow> real list \<Rightarrow> real" where
  "participation n eigenvalues =
     (let sum_sq = (\<Sum>e\<leftarrow>eigenvalues. e * e)
      in if 1 / 10 ^ 12 < sum_sq then real n * real n / sum_sq else 1)"

definition eigenvalue_effective_rank ::
    "string list \<Rightarrow> regime_correlation \<Rightarrow> instant \<Rightarrow> int \<Rightarrow> exn + point_estimate" where
  "eigenvalue_effective_rank item_ids r t min_sample_size =
     (let n = length item_ids in
      if n = 0 then Inl InsufficientDataError
      else if n = 1 then one_item EIGENVALUE_METHOD_VERSION t 0
      else case require_measured_pairs item_ids r of Inl e \<Rightarrow> Inl e | Inr _ \<Rightarrow>
        counted EIGENVALUE_METHOD_VERSION r t min_sample_size
          (max 1 (min (real n)
            (participation n (symmetric_eigenvalues n (correlation_matrix item_ids r))))))"

definition correlation_cluster_count ::
    "string list \<Rightarrow> regime_correlation \<Rightarrow> instant \<Rightarrow> real \<Rightarrow> int \<Rightarrow> (exn + point_estimate) option" where
  "correlation_cluster_count item_ids r t threshold min_sample_size =
     (let n = length item_ids in
      if n = 0 then Some (Inl InsufficientDataError)
      else if n = 1 then Some (one_item CORRELATION_CLUSTER_METHOD_VERSION t 0)
      else case require_measured_pairs item_ids r of Inl e \<Rightarrow> Some (Inl e) | Inr _ \<Rightarrow>
        map_option (\<lambda>count. counted CORRELATION_CLUSTER_METHOD_VERSION r t min_sample_size (real count))
          (component_count item_ids (\<lambda>a b. \<bar>rg_get r a b\<bar>) threshold))"

type_synonym exposures = "(string, (string, real) dict) dict"

definition cosine :: "exposures \<Rightarrow> string \<Rightarrow> string \<Rightarrow> real" where
  "cosine fx a b =
     (let va = dget_or fx a []; vb = dget_or fx b [];
          factors = remdups (dkeys va @ dkeys vb);
          dot = (\<Sum>f\<leftarrow>factors. dget_or va f 0 * dget_or vb f 0);
          na = sqrt (\<Sum>v\<leftarrow>dvals va. v * v);
          nb = sqrt (\<Sum>v\<leftarrow>dvals vb. v * v)
      in if na \<le> 0 \<or> nb \<le> 0 then 0 else dot / (na * nb))"

definition no_exposure :: "exposures \<Rightarrow> string \<Rightarrow> bool" where
  "no_exposure fx i = (case dget fx i of None \<Rightarrow> True | Some v \<Rightarrow> \<not> list_ex (\<lambda>x. x \<noteq> 0) (dvals v))"

definition risk_factor_cluster_count ::
    "string list \<Rightarrow> exposures \<Rightarrow> instant \<Rightarrow> real \<Rightarrow> int \<Rightarrow> real \<Rightarrow> (exn + point_estimate) option" where
  "risk_factor_cluster_count item_ids fx t threshold sample_size confidence =
     (let n = length item_ids in
      if n = 0 then Some (Inl InsufficientDataError)
      else if list_ex (no_exposure fx) item_ids then Some (Inl InsufficientDataError)
      else if n = 1 then Some (one_item FACTOR_CLUSTER_METHOD_VERSION t sample_size)
      else map_option (\<lambda>count. mk_point_estimate
             \<lparr>pe_value = real count, pe_conf = confidence, pe_samples = sample_size,
              pe_method = FACTOR_CLUSTER_METHOD_VERSION, pe_at = t\<rparr>)
           (component_count item_ids (\<lambda>a b. \<bar>cosine fx a b\<bar>) threshold))"

datatype count_method = EIGENVALUE_EFFECTIVE_RANK | CORRELATION_CLUSTER_COUNT | RISK_FACTOR_CLUSTERING

type_synonym effective_counts = "(count_method, point_estimate) dict"

definition count_by :: "effective_counts \<Rightarrow> count_method \<Rightarrow> exn + point_estimate" where
  "count_by by_method m =
     (case dget by_method m of None \<Rightarrow> Inl InsufficientDataError | Some e \<Rightarrow> Inr e)"

definition combine_regime ::
    "string list \<Rightarrow> regime_correlation option \<Rightarrow> instant \<Rightarrow> real \<Rightarrow> int \<Rightarrow> (exn + effective_counts) option" where
  "combine_regime item_ids regime t threshold min_sample_size =
     (case regime of None \<Rightarrow> Some (Inr []) | Some r \<Rightarrow>
      case eigenvalue_effective_rank item_ids r t min_sample_size of Inl e \<Rightarrow> Some (Inl e) | Inr rank \<Rightarrow>
      case correlation_cluster_count item_ids r t threshold min_sample_size of
        None \<Rightarrow> None
      | Some (Inl e) \<Rightarrow> Some (Inl e)
      | Some (Inr clusters) \<Rightarrow>
          Some (Inr [(EIGENVALUE_EFFECTIVE_RANK, rank), (CORRELATION_CLUSTER_COUNT, clusters)]))"

definition combine_estimates ::
    "string list \<Rightarrow> regime_correlation option \<Rightarrow> exposures option \<Rightarrow> instant \<Rightarrow> real \<Rightarrow> int \<Rightarrow>
     (exn + effective_counts) option" where
  "combine_estimates item_ids regime fx t threshold min_sample_size =
     (case combine_regime item_ids regime t threshold min_sample_size of
        None \<Rightarrow> None
      | Some (Inl e) \<Rightarrow> Some (Inl e)
      | Some (Inr by_method) \<Rightarrow>
         (case fx of
            None \<Rightarrow> Some (if by_method = [] then Inl InsufficientDataError else Inr by_method)
          | Some x \<Rightarrow> (case risk_factor_cluster_count item_ids x t threshold 0 1 of
              None \<Rightarrow> None
            | Some (Inl e) \<Rightarrow> Some (Inl e)
            | Some (Inr factors) \<Rightarrow> Some (Inr (by_method @ [(RISK_FACTOR_CLUSTERING, factors)])))))"

section \<open>Finding a root\<close>

text \<open>
  A forest on the items: a rank that falls on the way to the root makes the loop end, a root
  function says where it ends, and items only point to items they are connected with.
\<close>

definition forest ::
    "string set \<Rightarrow> (string \<times> string) set \<Rightarrow> (string \<Rightarrow> string) \<Rightarrow> (string \<Rightarrow> nat) \<Rightarrow> (string \<Rightarrow> string) \<Rightarrow> bool" where
  "forest I C parent rank rep \<longleftrightarrow> (\<forall>z \<in> I. parent z \<in> I \<and> (parent z \<noteq> z \<longrightarrow> rank (parent z) < rank z)
     \<and> rep (parent z) = rep z \<and> rep z \<in> I \<and> parent (rep z) = rep z
     \<and> (parent z = z \<longrightarrow> rep z = z) \<and> (z, parent z) \<in> C)"

lemma forest_halve:
  assumes "forest I C parent rank rep" and "x \<in> I" and "parent x \<noteq> x" and "trans C"
  shows "forest I C (parent(x := parent (parent x))) rank rep"
proof -
  have x: "parent x \<in> I" "parent (parent x) \<in> I" "rep (parent (parent x)) = rep x"
    "(x, parent (parent x)) \<in> C"
    using assms by (auto simp: forest_def intro: transD)
  have less: "rank (parent (parent x)) < rank x" "parent (parent x) \<noteq> x" "rep x \<noteq> x"
  proof -
    have "rank (parent x) < rank x" "rank (parent (parent x)) \<le> rank (parent x)"
      using assms(1-3) x(1) by (auto simp: forest_def) (metis less_imp_le_nat order_refl)
    then show "rank (parent (parent x)) < rank x" by simp
    then show "parent (parent x) \<noteq> x" by auto
    show "rep x \<noteq> x" using assms(1-3) by (auto simp: forest_def)
  qed
  show ?thesis
    unfolding forest_def
  proof (intro ballI)
    fix z assume z: "z \<in> I"
    then have "rep z \<noteq> x" using assms(1-3) by (auto simp: forest_def)
    with z assms(1) x less show "(parent(x := parent (parent x))) z \<in> I \<and>
        ((parent(x := parent (parent x))) z \<noteq> z \<longrightarrow> rank ((parent(x := parent (parent x))) z) < rank z) \<and>
        rep ((parent(x := parent (parent x))) z) = rep z \<and> rep z \<in> I \<and>
        (parent(x := parent (parent x))) (rep z) = rep z \<and>
        ((parent(x := parent (parent x))) z = z \<longrightarrow> rep z = z) \<and>
        (z, (parent(x := parent (parent x))) z) \<in> C"
      by (auto simp: forest_def)
  qed
qed

lemma uf_find_root:
  assumes "forest I C parent rank rep" and "x \<in> I" and "trans C"
  shows "\<exists>parent'. uf_find parent x = Some (parent', rep x) \<and> forest I C parent' rank rep"
  using assms
proof (induction "rank x" arbitrary: x parent rule: less_induct)
  case less
  show ?case
  proof (cases "parent x = x")
    case True
    then have "rep x = x" using less.prems by (auto simp: forest_def)
    with True less.prems(1) show ?thesis by (subst uf_find.simps) simp
  next
    case False
    let ?parent = "parent(x := parent (parent x))"
    have f: "forest I C ?parent rank rep" using less.prems False by (intro forest_halve) auto
    have in_I: "?parent x \<in> I" and r: "rep (?parent x) = rep x"
      using less.prems by (auto simp: forest_def)
    have "parent x \<in> I" "rank (parent x) < rank x" using less.prems False by (auto simp: forest_def)
    moreover have "rank (parent (parent x)) \<le> rank (parent x)"
      using less.prems \<open>parent x \<in> I\<close> by (auto simp: forest_def) (metis less_imp_le_nat order_refl)
    ultimately have "rank (?parent x) < rank x" by simp
    from less.hyps [OF this f in_I less.prems(3)] obtain parent' where
      "uf_find ?parent (?parent x) = Some (parent', rep x)" "forest I C parent' rank rep"
      unfolding r by blast
    then show ?thesis using False by (subst uf_find.simps) (simp add: Let_def)
  qed
qed

lemma forest_connected:
  assumes "forest I C parent rank rep" and "equiv I C" and "z \<in> I"
  shows "(z, rep z) \<in> C"
  using assms(3)
proof (induction "rank z" arbitrary: z rule: less_induct)
  case less
  show ?case
  proof (cases "parent z = z")
    case True
    then have "rep z = z" using assms(1) less.prems by (auto simp: forest_def)
    then show ?thesis using assms(2) less.prems by (auto simp: equiv_def refl_on_def)
  next
    case False
    have "parent z \<in> I" "rank (parent z) < rank z"
      using assms(1) less.prems False by (auto simp: forest_def)
    then have "(parent z, rep (parent z)) \<in> C" using less.hyps by blast
    moreover have "(z, parent z) \<in> C" "rep (parent z) = rep z"
      using assms(1) less.prems by (auto simp: forest_def)
    ultimately show ?thesis using assms(2) by (metis equiv_def transD)
  qed
qed

lemma forest_join:
  assumes f: "forest I C parent rank rep" and "u \<in> I" and "v \<in> I" and "rep u = u" and "rep v = v"
    and "u \<noteq> v" and "(u, v) \<in> C"
  shows "forest I C (parent(u := v)) (\<lambda>z. if rep z = u then rank z + rank v + 1 else rank z)
    (\<lambda>z. if rep z = u then v else rep z)"
proof -
  have roots: "parent u = u" "parent v = v"
    using f assms(2-5) by (auto simp: forest_def)
  show ?thesis
    unfolding forest_def
  proof (intro ballI)
    fix z assume "z \<in> I"
    with f have z: "parent z \<in> I" "parent z \<noteq> z \<longrightarrow> rank (parent z) < rank z" "rep (parent z) = rep z"
      "rep z \<in> I" "parent (rep z) = rep z" "parent z = z \<longrightarrow> rep z = z" "(z, parent z) \<in> C"
      by (auto simp: forest_def)
    show "(parent(u := v)) z \<in> I \<and>
      ((parent(u := v)) z \<noteq> z \<longrightarrow>
        (if rep ((parent(u := v)) z) = u then rank ((parent(u := v)) z) + rank v + 1
         else rank ((parent(u := v)) z)) < (if rep z = u then rank z + rank v + 1 else rank z)) \<and>
      (if rep ((parent(u := v)) z) = u then v else rep ((parent(u := v)) z)) =
        (if rep z = u then v else rep z) \<and>
      (if rep z = u then v else rep z) \<in> I \<and>
      (parent(u := v)) (if rep z = u then v else rep z) = (if rep z = u then v else rep z) \<and>
      ((parent(u := v)) z = z \<longrightarrow> (if rep z = u then v else rep z) = z) \<and>
      (z, (parent(u := v)) z) \<in> C"
    proof (cases "z = u")
      case True
      with z assms(2-7) roots show ?thesis by auto
    next
      case False
      with z assms(2-7) roots show ?thesis by auto
    qed
  qed
qed

lemma uf_union_joins:
  assumes f: "forest I C parent rank rep" and xy: "x \<in> I" "y \<in> I" "(x, y) \<in> C" and C: "equiv I C"
  shows "\<exists>parent' rank' rep'. uf_union parent x y = Some parent' \<and> forest I C parent' rank' rep' \<and>
    rep' x = rep' y \<and> (\<forall>a b. rep a = rep b \<longrightarrow> rep' a = rep' b)"
proof -
  have trans: "trans C" using C by (simp add: equiv_def)
  obtain p1 where p1: "uf_find parent x = Some (p1, rep x)" "forest I C p1 rank rep"
    using uf_find_root [OF f xy(1) trans] by blast
  obtain p2 where p2: "uf_find p1 y = Some (p2, rep y)" "forest I C p2 rank rep"
    using uf_find_root [OF p1(2) xy(2) trans] by blast
  show ?thesis
  proof (cases "rep x = rep y")
    case True
    then have "uf_union parent x y = Some p2" using p1 p2 by (simp add: uf_union_def)
    with p2(2) True show ?thesis by blast
  next
    case False
    then have u: "uf_union parent x y = Some (p2(rep x := rep y))"
      using p1 p2 by (simp add: uf_union_def)
    have reps: "rep x \<in> I" "rep y \<in> I" "rep (rep x) = rep x" "rep (rep y) = rep y"
      using p2(2) xy by (auto simp: forest_def)
    have "(x, rep x) \<in> C" "(y, rep y) \<in> C"
      using forest_connected [OF f C] xy by auto
    then have "(rep x, rep y) \<in> C" using xy(3) C by (metis equiv_def symD transD)
    note j = forest_join [OF p2(2) reps False this]
    let ?rep' = "\<lambda>z. if rep z = rep x then rep y else rep z"
    have "?rep' x = ?rep' y" and "\<forall>a b. rep a = rep b \<longrightarrow> ?rep' a = ?rep' b" by auto
    with u j show ?thesis by blast
  qed
qed

lemma uf_links_joins:
  assumes "forest I C parent rank rep" and "equiv I C"
    and "\<And>a b. (a, b) \<in> set ps \<Longrightarrow> a \<in> I \<and> b \<in> I \<and> (threshold \<le> sim a b \<longrightarrow> (a, b) \<in> C)"
  shows "\<exists>parent' rank' rep'. uf_links sim threshold ps parent = Some parent' \<and>
    forest I C parent' rank' rep' \<and> (\<forall>a b. rep a = rep b \<longrightarrow> rep' a = rep' b) \<and>
    (\<forall>(a, b) \<in> set ps. threshold \<le> sim a b \<longrightarrow> rep' a = rep' b)"
  using assms(1,3)
proof (induction ps arbitrary: parent rank rep)
  case Nil
  then show ?case by auto
next
  case (Cons p ps)
  obtain a b where p: "p = (a, b)" by (cases p)
  have ps: "\<And>a b. (a, b) \<in> set ps \<Longrightarrow> a \<in> I \<and> b \<in> I \<and> (threshold \<le> sim a b \<longrightarrow> (a, b) \<in> C)"
    using Cons.prems(2) by auto
  show ?case
  proof (cases "threshold \<le> sim a b")
    case True
    then have ab: "a \<in> I" "b \<in> I" "(a, b) \<in> C" using Cons.prems(2) [of a b] p by auto
    from uf_union_joins [OF Cons.prems(1) ab assms(2)] obtain parent1 rank1 rep1 where
      u: "uf_union parent a b = Some parent1" "forest I C parent1 rank1 rep1" "rep1 a = rep1 b"
        "\<forall>a b. rep a = rep b \<longrightarrow> rep1 a = rep1 b" by blast
    from Cons.IH [OF u(2) ps] obtain parent' rank' rep' where
      l: "uf_links sim threshold ps parent1 = Some parent'" "forest I C parent' rank' rep'"
        "\<forall>a b. rep1 a = rep1 b \<longrightarrow> rep' a = rep' b"
        "\<forall>(a, b) \<in> set ps. threshold \<le> sim a b \<longrightarrow> rep' a = rep' b" by blast
    have "uf_links sim threshold (p # ps) parent = Some parent'" using True u(1) l(1) p by simp
    moreover have "\<forall>a b. rep a = rep b \<longrightarrow> rep' a = rep' b" using u(4) l(3) by blast
    moreover have "rep' a = rep' b" using l(3) u(3) by blast
    then have "\<forall>(a, b) \<in> set (p # ps). threshold \<le> sim a b \<longrightarrow> rep' a = rep' b"
      using l(4) by (simp add: p)
    ultimately show ?thesis using l(2) by blast
  next
    case False
    from Cons.IH [OF Cons.prems(1) ps] obtain parent' rank' rep' where
      l: "uf_links sim threshold ps parent = Some parent'" "forest I C parent' rank' rep'"
        "\<forall>a b. rep a = rep b \<longrightarrow> rep' a = rep' b"
        "\<forall>(a, b) \<in> set ps. threshold \<le> sim a b \<longrightarrow> rep' a = rep' b" by blast
    have "uf_links sim threshold (p # ps) parent = Some parent'" using False l(1) p by simp
    moreover have "\<forall>(a, b) \<in> set (p # ps). threshold \<le> sim a b \<longrightarrow> rep' a = rep' b"
      using l(4) False by (simp add: p)
    ultimately show ?thesis using l(2,3) by blast
  qed
qed

lemma uf_roots_reps:
  assumes "forest I C parent rank rep" and "trans C" and "set xs \<subseteq> I"
  shows "uf_roots xs parent = Some (map rep xs)"
  using assms(1,3)
proof (induction xs arbitrary: parent)
  case (Cons x xs)
  obtain parent' where "uf_find parent x = Some (parent', rep x)" "forest I C parent' rank rep"
    using uf_find_root [OF Cons.prems(1) _ assms(2), of x] Cons.prems(2) by auto
  with Cons show ?case by simp
qed simp

section \<open>Counting components\<close>

text \<open>Items are connected when a chain of similar items leads from one to the other.\<close>

definition connected :: "string set \<Rightarrow> (string \<Rightarrow> string \<Rightarrow> real) \<Rightarrow> real \<Rightarrow> (string \<times> string) set" where
  "connected I sim threshold =
     {(a, b). a \<in> I \<and> b \<in> I \<and> (a, b) \<in> {(a, b). a \<in> I \<and> b \<in> I \<and> threshold \<le> sim a b}\<^sup>*}"

lemma connected_equiv:
  assumes "\<And>a b. sim a b = sim b a"
  shows "equiv I (connected I sim threshold)"
proof -
  have "sym {(a, b). a \<in> I \<and> b \<in> I \<and> threshold \<le> sim a b}"
    using assms by (auto intro: symI)
  then have "sym ({(a, b). a \<in> I \<and> b \<in> I \<and> threshold \<le> sim a b}\<^sup>*)" by (rule sym_rtrancl)
  note flip = symD [OF this]
  show ?thesis
    unfolding connected_def
  proof (intro equivI)
    let ?R = "{(a, b). a \<in> I \<and> b \<in> I \<and> threshold \<le> sim a b}\<^sup>*"
    show "{(a, b). a \<in> I \<and> b \<in> I \<and> (a, b) \<in> ?R} \<subseteq> I \<times> I" by auto
    show "refl_on I {(a, b). a \<in> I \<and> b \<in> I \<and> (a, b) \<in> ?R}" by (auto simp: refl_on_def)
    show "sym {(a, b). a \<in> I \<and> b \<in> I \<and> (a, b) \<in> ?R}" using flip by (blast intro: symI)
    show "trans {(a, b). a \<in> I \<and> b \<in> I \<and> (a, b) \<in> ?R}" by (blast intro: transI rtrancl_trans)
  qed
qed

lemma card_same_kernel:
  assumes "\<And>a b. a \<in> I \<Longrightarrow> b \<in> I \<Longrightarrow> f a = f b \<longleftrightarrow> g a = g b"
  shows "card (f ` I) = card (g ` I)"
proof -
  let ?h = "\<lambda>v. g (inv_into I f v)"
  have inv: "inv_into I f (f a) \<in> I" "f (inv_into I f (f a)) = f a" if "a \<in> I" for a
    using that by (auto intro: inv_into_into f_inv_into_f)
  have h: "?h (f a) = g a" if "a \<in> I" for a
    using inv [OF that] assms [of "inv_into I f (f a)" a] that by auto
  have "inj_on ?h (f ` I)" by (intro inj_onI) (auto simp: h assms)
  then have "card (?h ` f ` I) = card (f ` I)" by (rule card_image)
  moreover have "?h ` f ` I = g ` I" using h by (auto simp: image_image)
  ultimately show ?thesis by simp
qed

lemma component_count_exact:
  assumes sym: "\<And>a b. sim a b = sim b a"
  shows "component_count items sim threshold =
    Some (card (set items // connected (set items) sim threshold))"
proof -
  let ?I = "set items" and ?C = "connected (set items) sim threshold"
  have C: "equiv ?I ?C" by (rule connected_equiv) (rule sym)
  then have refl: "\<And>z. z \<in> ?I \<Longrightarrow> (z, z) \<in> ?C" and trans: "trans ?C"
    by (auto simp: equiv_def refl_on_def)
  have start: "forest ?I ?C (\<lambda>z. z) (\<lambda>_. 0) (\<lambda>z. z)" using refl by (simp add: forest_def)
  have edges: "a \<in> ?I \<and> b \<in> ?I \<and> (threshold \<le> sim a b \<longrightarrow> (a, b) \<in> ?C)"
    if "(a, b) \<in> set (all_pairs items)" for a b
    using all_pairs_subset [OF that] by (auto simp: connected_def intro!: r_into_rtrancl)
  from uf_links_joins [OF start C edges] obtain parent rank rep where
    l: "uf_links sim threshold (all_pairs items) (\<lambda>z. z) = Some parent" "forest ?I ?C parent rank rep"
      "\<forall>(a, b) \<in> set (all_pairs items). threshold \<le> sim a b \<longrightarrow> rep a = rep b" by blast
  have linked: "rep a = rep b" if "a \<in> ?I" "b \<in> ?I" "threshold \<le> sim a b" for a b
  proof (cases "a = b")
    case False
    from all_pairs_in [OF that(1,2) this] that(3) l(3) sym [of a b] show ?thesis by auto
  qed simp
  have kernel: "rep a = rep b \<longleftrightarrow> (a, b) \<in> ?C" if ab: "a \<in> ?I" "b \<in> ?I" for a b
  proof
    assume "rep a = rep b"
    moreover have "(a, rep a) \<in> ?C" "(b, rep b) \<in> ?C" using forest_connected [OF l(2) C] ab by auto
    ultimately show "(a, b) \<in> ?C" using C by (metis equiv_def symD transD)
  next
    assume "(a, b) \<in> ?C"
    then have "(a, b) \<in> {(a, b). a \<in> ?I \<and> b \<in> ?I \<and> threshold \<le> sim a b}\<^sup>*"
      by (simp add: connected_def)
    then show "rep a = rep b" by (induction rule: rtrancl_induct) (auto dest: linked)
  qed
  have "card (rep ` ?I) = card ((\<lambda>a. ?C `` {a}) ` ?I)"
    using kernel eq_equiv_class_iff [OF C] by (intro card_same_kernel) auto
  also have "(\<lambda>a. ?C `` {a}) ` ?I = ?I // ?C" by (auto simp: quotient_def)
  finally have "length (remdups (map rep items)) = card (?I // ?C)"
    by (simp add: length_remdups_card_conv)
  with uf_roots_reps [OF l(2) trans order_refl] l(1) show ?thesis by (simp add: component_count_def)
qed

lemma rg_has_sym: "rg_has r a b = rg_has r b a"
  by (auto simp: rg_has_def pair_key_sym [of a b])

lemma measured_iff: "unmeasured ids r = [] \<longleftrightarrow> (\<forall>a \<in> set ids. \<forall>b \<in> set ids. rg_has r a b)"
proof
  assume none: "unmeasured ids r = []"
  show "\<forall>a \<in> set ids. \<forall>b \<in> set ids. rg_has r a b"
  proof (intro ballI)
    fix a b assume ab: "a \<in> set ids" "b \<in> set ids"
    show "rg_has r a b"
    proof (cases "a = b")
      case False
      with all_pairs_in [OF ab] none rg_has_sym [of r a b] show ?thesis
        by (auto simp: unmeasured_def filter_empty_conv)
    qed (simp add: rg_has_def)
  qed
next
  assume "\<forall>a \<in> set ids. \<forall>b \<in> set ids. rg_has r a b"
  then show "unmeasured ids r = []"
    by (auto simp: unmeasured_def filter_empty_conv dest: all_pairs_subset)
qed

lemma component_card_bounds:
  assumes "equiv (set items) C" and "items \<noteq> []"
  shows "1 \<le> card (set items // C)" and "card (set items // C) \<le> length items"
proof -
  have q: "set items // C = (\<lambda>a. C `` {a}) ` set items" by (auto simp: quotient_def)
  show "1 \<le> card (set items // C)" using assms(2) unfolding q by (simp add: Suc_le_eq card_gt_0_iff)
  have "card (set items // C) \<le> card (set items)" unfolding q by (rule card_image_le) simp
  then show "card (set items // C) \<le> length items" using card_length [of items] by simp
qed

lemma counted_ok:
  assumes "0 < m" and "0 \<le> rg_samples r"
  shows "\<exists>p. counted version r t m v = Inr p \<and> pe_value p = v \<and> point_ok p"
  using assms by (auto simp: counted_def mk_point_estimate_def point_ok_def)

text \<open>
  C29. Counting clusters of correlated items returns, and counts exactly the groups of items that
  are connected by chains of correlations at or above the threshold. The search for a root always
  ends although it rewrites the links it follows, and a pair of items that was never measured is
  refused instead of being counted as independent.
\<close>

theorem cluster_count_is_exact:
  assumes "0 < m" and "0 \<le> rg_samples r"
  shows "\<exists>res. correlation_cluster_count ids r t threshold m = Some res \<and>
    (if ids = [] \<or> (\<exists>a \<in> set ids. \<exists>b \<in> set ids. \<not> rg_has r a b) then res = Inl InsufficientDataError
     else \<exists>p. res = Inr p \<and> point_ok p \<and> 1 \<le> pe_value p \<and> pe_value p \<le> real (length ids) \<and>
       pe_value p = real (card (set ids // connected (set ids) (\<lambda>a b. \<bar>rg_get r a b\<bar>) threshold)))"
proof -
  let ?sim = "\<lambda>a b. \<bar>rg_get r a b\<bar>"
  let ?n = "card (set ids // connected (set ids) ?sim threshold)"
  have sym: "?sim a b = ?sim b a" for a b by (simp add: rg_get_sym)
  note eq = connected_equiv [where sim = ?sim, OF sym, of "set ids" threshold]
  consider "ids = []" | a where "ids = [a]" | "2 \<le> length ids"
    by (cases ids; cases "tl ids") auto
  then show ?thesis
  proof cases
    case 1
    then show ?thesis by (simp add: correlation_cluster_count_def)
  next
    case (2 a)
    have one: "?n = 1" using component_card_bounds [OF eq] 2 by simp
    have "correlation_cluster_count ids r t threshold m = Some (Inr \<lparr>pe_value = 1, pe_conf = 1,
        pe_samples = 0, pe_method = CORRELATION_CLUSTER_METHOD_VERSION, pe_at = t\<rparr>)"
      using 2 by (simp add: correlation_cluster_count_def one_item_def mk_point_estimate_def)
    with one 2 show ?thesis by (simp add: rg_has_def point_ok_def)
  next
    case 3
    then have n: "length ids \<noteq> 0" "length ids \<noteq> 1" "ids \<noteq> []" by auto
    show ?thesis
    proof (cases "unmeasured ids r = []")
      case False
      then have "\<exists>a \<in> set ids. \<exists>b \<in> set ids. \<not> rg_has r a b" unfolding measured_iff by blast
      moreover have "correlation_cluster_count ids r t threshold m = Some (Inl InsufficientDataError)"
        using n False by (simp add: correlation_cluster_count_def Let_def require_measured_pairs_def)
      ultimately show ?thesis by simp
    next
      case True
      obtain p where p: "counted CORRELATION_CLUSTER_METHOD_VERSION r t m (real ?n) = Inr p"
        "pe_value p = real ?n" "point_ok p" using counted_ok [OF assms] by blast
      have "correlation_cluster_count ids r t threshold m = Some (Inr p)"
        using n True p(1) component_count_exact [where sim = ?sim, OF sym, of ids threshold]
        by (simp add: correlation_cluster_count_def Let_def require_measured_pairs_def)
      moreover have "\<not> (ids = [] \<or> (\<exists>a \<in> set ids. \<exists>b \<in> set ids. \<not> rg_has r a b))"
        using True n unfolding measured_iff by blast
      ultimately show ?thesis
        using p(2,3) component_card_bounds [OF eq n(3)] by simp
    qed
  qed
qed

text \<open>The same loop counts the clusters of risk factors.\<close>

lemma cosine_sym: "cosine fx a b = cosine fx b a"
proof -
  have "(\<Sum>f\<leftarrow>remdups (dkeys va @ dkeys vb). dget_or va f 0 * dget_or vb f 0) =
      (\<Sum>f\<leftarrow>remdups (dkeys vb @ dkeys va). dget_or vb f 0 * dget_or va f 0)" for va vb :: "(string, real) dict"
    by (simp add: sum_list_distinct_conv_sum_set Un_commute mult.commute)
  then show ?thesis by (auto simp: cosine_def Let_def mult.commute)
qed

lemma factor_clusters_return:
  "risk_factor_cluster_count ids fx t threshold samples confidence \<noteq> None"
  using component_count_exact [where sim = "\<lambda>a b. \<bar>cosine fx a b\<bar>" and items = ids and threshold = threshold]
  by (simp add: risk_factor_cluster_count_def Let_def cosine_sym)

text \<open>Three cells, two of which move together.\<close>

definition demo_regime :: regime_correlation where
  "demo_regime = \<lparr>rg_regime = C_NORMAL,
     rg_pairwise = [((''A'', ''B''), 8/10), ((''A'', ''C''), 1/10), ((''B'', ''C''), - (2/10))],
     rg_lookback = 60, rg_halflife = None, rg_samples = 60, rg_at = 0,
     rg_method = CORRELATION_METHOD_VERSION\<rparr>"

lemma demo_order: "''A'' \<le> ''B''" "''A'' \<le> ''C''" "''B'' \<le> ''C''"
  "\<not> ''B'' \<le> ''A''" "\<not> ''C'' \<le> ''A''" "\<not> ''C'' \<le> ''B''"
  by (simp_all add: less_eq_char_def)

theorem cluster_count_is_exact_witness:
  "\<exists>p. correlation_cluster_count [''A'', ''B'', ''C''] demo_regime 0 (7/10) 20 = Some (Inr p) \<and>
    pe_value p = real (card (set [''A'', ''B'', ''C''] //
      connected (set [''A'', ''B'', ''C'']) (\<lambda>a b. \<bar>rg_get demo_regime a b\<bar>) (7/10))) \<and> pe_value p \<le> 3"
proof -
  have all: "\<not> ([''A'', ''B'', ''C''] = [] \<or> (\<exists>a \<in> set [''A'', ''B'', ''C'']. \<exists>b \<in> set [''A'', ''B'', ''C''].
      \<not> rg_has demo_regime a b))"
    by (simp add: rg_has_def demo_regime_def pair_key_def demo_order dhas_def)
  have m: "(0::int) < 20" "0 \<le> rg_samples demo_regime" by (simp_all add: demo_regime_def)
  from cluster_count_is_exact [OF m, of "[''A'', ''B'', ''C'']" 0 "7/10"]
  show ?thesis unfolding if_not_P [OF all] by auto
qed

section \<open>Rotations keep trace and norm\<close>

lemma rotation_facts:
  assumes "apq \<noteq> 0" and "rotation app aqq apq = (t, c, s)"
  shows "t * t * apq + t * (aqq - app) = apq" and "c * c + s * s = 1" and "0 < c"
proof -
  define tau where "tau = (aqq - app) / (2 * apq)"
  let ?r = "sqrt (1 + tau * tau)"
  have tau: "2 * tau * apq = aqq - app" using assms(1) by (simp add: tau_def)
  have r: "?r * ?r = 1 + tau * tau" by (simp add: real_sqrt_mult_self abs_of_nonneg)
  have abs_less: "\<bar>tau\<bar> < ?r" by (rule real_less_rsqrt) (simp add: power2_eq_square)
  have t: "t = (if 0 \<le> tau then 1 else - 1) / (\<bar>tau\<bar> + ?r)"
    and c: "c = 1 / sqrt (1 + t * t)" and s: "s = t * c"
    using assms(2) by (auto simp: rotation_def Let_def tau_def)
  have inv: "1 / (\<bar>tau\<bar> + ?r) = ?r - \<bar>tau\<bar>"
  proof -
    have "(?r - \<bar>tau\<bar>) * (\<bar>tau\<bar> + ?r) = ?r * ?r - \<bar>tau\<bar> * \<bar>tau\<bar>" by (simp add: algebra_simps)
    also have "\<dots> = 1" unfolding r by (simp add: abs_mult_self_eq)
    finally show ?thesis using abs_less by (intro divide_eq_eq [THEN iffD2]) auto
  qed
  have "t + tau = (if 0 \<le> tau then ?r else - ?r)"
  proof (cases "0 \<le> tau")
    case True
    with t inv show ?thesis by simp
  next
    case False
    have "t = - (1 / (\<bar>tau\<bar> + ?r))" using t False by simp
    then show ?thesis unfolding inv using False by simp
  qed
  then have "(t + tau) * (t + tau) = 1 + tau * tau" using r by (auto split: if_splits)
  then have "t * t + 2 * t * tau = 1" by (simp add: algebra_simps)
  then have "(t * t + 2 * t * tau) * apq = apq" by simp
  moreover have "(t * t + 2 * t * tau) * apq = t * t * apq + t * (2 * tau * apq)"
    by (simp add: algebra_simps)
  ultimately show "t * t * apq + t * (aqq - app) = apq" unfolding tau by simp
  have pos: "0 < 1 + t * t" by (simp add: add_pos_nonneg)
  then show "0 < c" unfolding c by simp
  have "c * c = 1 / (1 + t * t)" unfolding c using pos by (simp add: real_sqrt_mult_self)
  then have "c * c * (1 + t * t) = 1" using pos by simp
  then show "c * c + s * s = 1" unfolding s by (simp add: algebra_simps)
qed

text \<open>The entries after the rows have been rotated.\<close>

definition row_p :: "real \<Rightarrow> real \<Rightarrow> real \<Rightarrow> real \<Rightarrow> real" where
  "row_p s r aip aiq = aip - s * (aiq + r * aip)"

definition row_q :: "real \<Rightarrow> real \<Rightarrow> real \<Rightarrow> real \<Rightarrow> real" where
  "row_q s r aip aiq = aiq + s * (aip - r * aiq)"

lemma rotate_rows:
  assumes "p \<noteq> q" and "distinct xs"
  shows "fold (rotate_row s r p q) xs a i j =
    (if i \<in> set xs - {p, q} \<and> j = p then row_p s r (a i p) (a i q)
     else if i \<in> set xs - {p, q} \<and> j = q then row_q s r (a i p) (a i q)
     else if j \<in> set xs - {p, q} \<and> i = p then row_p s r (a j p) (a j q)
     else if j \<in> set xs - {p, q} \<and> i = q then row_q s r (a j p) (a j q)
     else a i j)"
  using assms(2)
proof (induction xs arbitrary: a)
  case Nil
  then show ?case by simp
next
  case (Cons k xs)
  show ?case
  proof (cases "k = p \<or> k = q")
    case True
    then have "rotate_row s r p q k a = a" by (auto simp: rotate_row_def)
    moreover have "set (k # xs) - {p, q} = set xs - {p, q}" using True by auto
    ultimately show ?thesis using Cons by simp
  next
    case False
    let ?b = "rotate_row s r p q k a"
    have b: "?b u v = (if u = k \<and> v = p then row_p s r (a k p) (a k q)
        else if u = k \<and> v = q then row_q s r (a k p) (a k q)
        else if v = k \<and> u = p then row_p s r (a k p) (a k q)
        else if v = k \<and> u = q then row_q s r (a k p) (a k q) else a u v)" for u v
      using False assms(1)
      by (auto simp: rotate_row_def mset_at_def row_p_def row_q_def Let_def)
    have k: "k \<notin> set xs" "distinct xs" using Cons.prems by auto
    have keep: "?b u p = a u p" "?b u q = a u q" if "u \<in> set xs - {p, q}" for u
      using b that k(1) False assms(1) by auto
    have other: "?b u v = a u v" if "u \<noteq> k" "v \<noteq> k" for u v using b that by auto
    show ?thesis
    proof (cases "i = k \<or> j = k")
      case True
      then have "\<not> (i \<in> set xs - {p, q} \<and> (j = p \<or> j = q))" "\<not> (j \<in> set xs - {p, q} \<and> (i = p \<or> i = q))"
        using k(1) False by auto
      then have "fold (rotate_row s r p q) xs ?b i j = ?b i j"
        unfolding Cons.IH [OF k(2), of ?b] by auto
      then show ?thesis unfolding fold.simps comp_apply using b [of i j] True False assms(1) by auto
    next
      case neither: False
      then have mem: "i \<in> set (k # xs) - {p, q} \<longleftrightarrow> i \<in> set xs - {p, q}"
        "j \<in> set (k # xs) - {p, q} \<longleftrightarrow> j \<in> set xs - {p, q}" by auto
      have "?b i j = a i j" using other neither by blast
      then show ?thesis
        unfolding fold.simps comp_apply Cons.IH [OF k(2), of ?b] mem using keep by presburger
    qed
  qed
qed

definition rotated :: "nat \<Rightarrow> nat \<Rightarrow> nat \<Rightarrow> real \<Rightarrow> real \<Rightarrow> real \<Rightarrow> matrix \<Rightarrow> matrix" where
  "rotated n p q t c s a = (\<lambda>i j.
     if i = p \<and> j = p then a p p - t * a p q
     else if i = q \<and> j = q then a q q + t * a p q
     else if i = p \<and> j = q \<or> i = q \<and> j = p then 0
     else if i < n \<and> j = p then c * a i p - s * a i q
     else if i < n \<and> j = q then c * a i q + s * a i p
     else if j < n \<and> i = p then c * a j p - s * a j q
     else if j < n \<and> i = q then c * a j q + s * a j p
     else a i j)"

lemma rotate_at_entries:
  assumes "p \<noteq> q" and "p < n" and "q < n" and "a p q \<noteq> 0"
    and rot: "rotation (a p p) (a q q) (a p q) = (t, c, s)"
  shows "rotate_at n p q a = rotated n p q t c s a"
proof -
  note f = rotation_facts [OF assms(4) rot]
  let ?a1 = "mset_at q p 0 (mset_at p q 0 (mset_at q q (a q q + t * a p q) (mset_at p p (a p p - t * a p q) a)))"
  let ?r = "s / (1 + c)"
  have "s * s = (1 - c) * (1 + c)" using f(2) by (simp add: algebra_simps)
  then have sr: "s * ?r = 1 - c" using f(3) by (simp add: divide_simps)
  have rp: "row_p s ?r x y = c * x - s * y" and rq: "row_q s ?r x y = c * y + s * x" for x y
  proof -
    have "row_p s ?r x y = x - s * y - (s * ?r) * x" by (simp add: row_p_def algebra_simps)
    then show "row_p s ?r x y = c * x - s * y" unfolding sr by (simp add: algebra_simps)
    have "row_q s ?r x y = y + s * x - (s * ?r) * y" by (simp add: row_q_def algebra_simps)
    then show "row_q s ?r x y = c * y + s * x" unfolding sr by (simp add: algebra_simps)
  qed
  define b where "b = ?a1"
  have in_block: "b p p = a p p - t * a p q" "b q q = a q q + t * a p q" "b p q = 0" "b q p = 0"
    and off_block: "u \<notin> {p, q} \<or> v \<notin> {p, q} \<Longrightarrow> b u v = a u v" for u v
    using assms(1) by (auto simp: b_def mset_at_def)
  have "rotate_at n p q a = fold (rotate_row s ?r p q) [0..<n] b"
    by (simp add: rotate_at_def Let_def rot b_def)
  moreover have "fold (rotate_row s ?r p q) [0..<n] b u v = rotated n p q t c s a u v" for u v
  proof -
    note rows = rotate_rows [OF assms(1) distinct_upt, of s ?r 0 n b u v, unfolded rp rq]
    consider "u \<in> {p, q}" "v \<in> {p, q}" | "u \<notin> {p, q}" "v \<in> {p, q}" | "u \<in> {p, q}" "v \<notin> {p, q}"
      | "u \<notin> {p, q}" "v \<notin> {p, q}" by blast
    then show ?thesis
    proof cases
      case 1
      then show ?thesis unfolding rows rotated_def using assms(1) in_block by auto
    next
      case 2
      then show ?thesis unfolding rows rotated_def using assms(1) off_block by auto
    next
      case 3
      then show ?thesis unfolding rows rotated_def using assms(1) off_block by auto
    next
      case 4
      then show ?thesis unfolding rows rotated_def using off_block by auto
    qed
  qed
  ultimately show ?thesis by (intro ext) simp
qed

definition symmetric_upto :: "nat \<Rightarrow> matrix \<Rightarrow> bool" where
  "symmetric_upto n a \<longleftrightarrow> (\<forall>i < n. \<forall>j < n. a i j = a j i)"

definition trace_of :: "nat \<Rightarrow> matrix \<Rightarrow> real" where
  "trace_of n a = (\<Sum>i<n. a i i)"

definition norm_sq :: "nat \<Rightarrow> matrix \<Rightarrow> real" where
  "norm_sq n a = (\<Sum>i<n. \<Sum>j<n. a i j * a i j)"

lemma sum_split_two:
  fixes f :: "nat \<Rightarrow> real"
  assumes "p < n" and "q < n" and "p \<noteq> q"
  shows "(\<Sum>i<n. f i) = f p + f q + sum f ({..<n} - {p, q})"
proof -
  have "{..<n} = insert p (insert q ({..<n} - {p, q}))" using assms by auto
  then have "(\<Sum>i<n. f i) = sum f (insert p (insert q ({..<n} - {p, q})))" by simp
  also have "\<dots> = f p + f q + sum f ({..<n} - {p, q})" using assms(3) by simp
  finally show ?thesis .
qed

lemma norm_sq_split:
  assumes "p < n" and "q < n" and "p \<noteq> q" and "symmetric_upto n a"
  shows "norm_sq n a = (\<Sum>i \<in> {..<n} - {p, q}. \<Sum>j \<in> {..<n} - {p, q}. a i j * a i j)
    + 2 * (\<Sum>i \<in> {..<n} - {p, q}. a i p * a i p + a i q * a i q)
    + (a p p * a p p + a q q * a q q + 2 * (a p q * a p q))"
proof -
  let ?R = "{..<n} - {p, q}"
  have sym: "a p i = a i p" "a q i = a i q" if "i \<in> ?R" for i
    using assms that by (auto simp: symmetric_upto_def)
  have "(\<Sum>j \<in> ?R. a p j * a p j) = (\<Sum>i \<in> ?R. a i p * a i p)"
    "(\<Sum>j \<in> ?R. a q j * a q j) = (\<Sum>i \<in> ?R. a i q * a i q)"
    by (simp_all add: sym)
  moreover have "a q p = a p q" using assms by (simp add: symmetric_upto_def)
  ultimately show ?thesis
    unfolding norm_sq_def sum_split_two [OF assms(1-3)]
    by (simp add: sum.distrib)
qed

lemma rotated_symmetric: "symmetric_upto n a \<Longrightarrow> symmetric_upto n (rotated n p q t c s a)"
  by (auto simp: symmetric_upto_def rotated_def)

lemma rotated_trace:
  assumes "p < n" and "q < n" and "p \<noteq> q"
  shows "trace_of n (rotated n p q t c s a) = trace_of n a"
proof -
  have "(\<Sum>i \<in> {..<n} - {p, q}. rotated n p q t c s a i i) = (\<Sum>i \<in> {..<n} - {p, q}. a i i)"
    by (intro sum.cong) (auto simp: rotated_def)
  then show ?thesis
    unfolding trace_of_def sum_split_two [OF assms] using assms(3) by (simp add: rotated_def)
qed

lemma rotated_norm:
  assumes "p < n" and "q < n" and "p \<noteq> q" and sym: "symmetric_upto n a"
    and t: "t * t * a p q + t * (a q q - a p p) = a p q" and cs: "c * c + s * s = 1"
  shows "norm_sq n (rotated n p q t c s a) = norm_sq n a"
proof -
  let ?R = "{..<n} - {p, q}" and ?b = "rotated n p q t c s a"
  have rest: "(\<Sum>i \<in> ?R. \<Sum>j \<in> ?R. ?b i j * ?b i j) = (\<Sum>i \<in> ?R. \<Sum>j \<in> ?R. a i j * a i j)"
    by (intro sum.cong) (auto simp: rotated_def)
  have row: "?b i p * ?b i p + ?b i q * ?b i q = a i p * a i p + a i q * a i q" if "i \<in> ?R" for i
  proof -
    have b: "?b i p = c * a i p - s * a i q" "?b i q = c * a i q + s * a i p"
      using that assms(3) by (auto simp: rotated_def)
    have "?b i p * ?b i p + ?b i q * ?b i q = (c * c + s * s) * (a i p * a i p + a i q * a i q)"
      unfolding b by (simp add: algebra_simps)
    then show ?thesis unfolding cs by simp
  qed
  have block: "?b p p * ?b p p + ?b q q * ?b q q + 2 * (?b p q * ?b p q) =
      a p p * a p p + a q q * a q q + 2 * (a p q * a p q)"
  proof -
    have b: "?b p p = a p p - t * a p q" "?b q q = a q q + t * a p q" "?b p q = 0"
      using assms(3) by (simp_all add: rotated_def)
    have "?b p p * ?b p p + ?b q q * ?b q q + 2 * (?b p q * ?b p q) =
        a p p * a p p + a q q * a q q + 2 * a p q * (t * t * a p q + t * (a q q - a p p))"
      unfolding b by (simp add: algebra_simps)
    then show ?thesis unfolding t by simp
  qed
  have rows: "(\<Sum>i \<in> ?R. ?b i p * ?b i p + ?b i q * ?b i q) =
      (\<Sum>i \<in> ?R. a i p * a i p + a i q * a i q)"
    by (intro sum.cong refl row)
  show ?thesis
    unfolding norm_sq_split [OF assms(1-3) rotated_symmetric [OF sym]] norm_sq_split [OF assms(1-4)]
      rest block rows ..
qed

section \<open>The iteration\<close>

lemma pivot_in_range:
  assumes "pivot n a = (p, q, m)" and "0 < m"
  shows "p < q" and "q < n" and "m = \<bar>a p q\<bar>"
proof -
  have pairs: "i < j \<and> j < n" if "(i, j) \<in> set (all_pairs [k..<n])" for i j k
    using that
  proof (induction "n - k" arbitrary: k)
    case 0
    then show ?case by simp
  next
    case (Suc d)
    then have "[k..<n] = k # [Suc k..<n]" by (metis Suc_neq_Zero upt_conv_Cons zero_less_diff zero_less_Suc)
    moreover have "d = n - Suc k" using Suc.hyps(2) by simp
    note Suc.hyps(1) [OF this]
    ultimately show ?case using Suc.prems by auto
  qed
  let ?f = "\<lambda>(i, j) (p, q, m). if m < \<bar>a i j\<bar> then (i, j, \<bar>a i j\<bar>) else (p, q, m)"
  have "0 < m' \<longrightarrow> p' < q' \<and> q' < n \<and> m' = \<bar>a p' q'\<bar>"
    if "fold ?f ps (p0, q0, m0) = (p', q', m')" "0 < m0 \<longrightarrow> p0 < q0 \<and> q0 < n \<and> m0 = \<bar>a p0 q0\<bar>"
      "\<forall>(i, j) \<in> set ps. i < j \<and> j < n" for ps p0 q0 m0 p' q' m'
    using that
  proof (induction ps arbitrary: p0 q0 m0)
    case (Cons x ps)
    obtain i j where x: "x = (i, j)" by (cases x)
    show ?case
    proof (cases "m0 < \<bar>a i j\<bar>")
      case True
      with Cons.prems x show ?thesis by (intro Cons.IH [of i j "\<bar>a i j\<bar>"]) auto
    next
      case False
      with Cons.prems x show ?thesis by (intro Cons.IH [of p0 q0 m0]) auto
    qed
  qed simp
  from this [of "all_pairs [0..<n]" 0 1 0 p q m] assms pairs [of _ _ 0]
  show "p < q" "q < n" "m = \<bar>a p q\<bar>" by (auto simp: pivot_def)
qed

lemma jacobi_keeps:
  assumes "symmetric_upto n a" and "0 < tol"
  shows "symmetric_upto n (jacobi k tol n a)" and "trace_of n (jacobi k tol n a) = trace_of n a"
    and "norm_sq n (jacobi k tol n a) = norm_sq n a"
proof -
  have "symmetric_upto n (jacobi k tol n a) \<and> trace_of n (jacobi k tol n a) = trace_of n a \<and>
    norm_sq n (jacobi k tol n a) = norm_sq n a"
    using assms(1)
  proof (induction k arbitrary: a)
    case (Suc k)
    obtain p q m where piv: "pivot n a = (p, q, m)" by (cases "pivot n a")
    show ?case
    proof (cases "m < tol")
      case True
      with Suc.prems piv show ?thesis by simp
    next
      case False
      with assms(2) have "0 < m" by simp
      note pq = pivot_in_range [OF piv this]
      with \<open>0 < m\<close> have ne: "p \<noteq> q" "p < n" "a p q \<noteq> 0" by auto
      obtain t c s where rot: "rotation (a p p) (a q q) (a p q) = (t, c, s)"
        by (cases "rotation (a p p) (a q q) (a p q)")
      note f = rotation_facts [OF ne(3) rot]
      have at: "rotate_at n p q a = rotated n p q t c s a"
        by (rule rotate_at_entries [OF ne(1,2) pq(2) ne(3) rot])
      have "jacobi (Suc k) tol n a = jacobi k tol n (rotated n p q t c s a)"
        using piv False at by simp
      with Suc.IH [OF rotated_symmetric [OF Suc.prems, of p q t c s]]
        rotated_trace [OF ne(2) pq(2) ne(1)] rotated_norm [OF ne(2) pq(2) ne(1) Suc.prems f(1,2)]
      show ?thesis by simp
    qed
  qed simp
  then show "symmetric_upto n (jacobi k tol n a)" "trace_of n (jacobi k tol n a) = trace_of n a"
    "norm_sq n (jacobi k tol n a) = norm_sq n a" by auto
qed

lemma eigenvalue_sums:
  assumes "symmetric_upto n a"
  shows "sum_list (symmetric_eigenvalues n a) = trace_of n a"
    and "(\<Sum>e\<leftarrow>symmetric_eigenvalues n a. e * e) \<le> norm_sq n a"
proof -
  let ?d = "jacobi 200 (1 / 10 ^ 10) n a"
  have k: "trace_of n ?d = trace_of n a" "norm_sq n ?d = norm_sq n a"
    using jacobi_keeps [OF assms, of "1 / 10 ^ 10" 200] by simp_all
  have list_sum: "(\<Sum>i\<leftarrow>[0..<n]. f i) = (\<Sum>i<n. f i)" for f :: "nat \<Rightarrow> real"
    by (simp add: interv_sum_list_conv_sum_set_nat atLeast0LessThan)
  show "sum_list (symmetric_eigenvalues n a) = trace_of n a"
    using k(1) list_sum [of "\<lambda>i. ?d i i"] by (simp add: symmetric_eigenvalues_def Let_def trace_of_def)
  have "(\<Sum>e\<leftarrow>symmetric_eigenvalues n a. e * e) = (\<Sum>i<n. ?d i i * ?d i i)"
    using list_sum [of "\<lambda>i. ?d i i * ?d i i"] by (simp add: symmetric_eigenvalues_def Let_def comp_def)
  also have "\<dots> \<le> (\<Sum>i<n. \<Sum>j<n. ?d i j * ?d i j)"
    by (intro sum_mono member_le_sum) auto
  also have "\<dots> = norm_sq n a" using k(2) by (simp add: norm_sq_def)
  finally show "(\<Sum>e\<leftarrow>symmetric_eigenvalues n a. e * e) \<le> norm_sq n a" .
qed

section \<open>The effective rank\<close>

lemma square_of_sum_le:
  fixes es :: "real list"
  shows "sum_list es * sum_list es \<le> real (length es) * (\<Sum>e\<leftarrow>es. e * e)"
proof -
  let ?n = "real (length es)" and ?s = "sum_list es"
  have expand: "(\<Sum>e\<leftarrow>es. (k * e - s) * (k * e - s)) =
      k * k * (\<Sum>e\<leftarrow>es. e * e) - 2 * k * s * sum_list es + real (length es) * s * s" for k s
    by (induction es) (auto simp: algebra_simps)
  have "0 \<le> (\<Sum>e\<leftarrow>es. (?n * e - ?s) * (?n * e - ?s))" by (intro sum_list_nonneg_map) simp
  then have "0 \<le> ?n * (?n * (\<Sum>e\<leftarrow>es. e * e) - ?s * ?s)" unfolding expand by (simp add: algebra_simps)
  then show ?thesis
    by (cases "es = []") (auto simp: zero_le_mult_iff)
qed

lemma ratio_bounds:
  fixes n S :: real
  assumes "0 < n" and "0 < S" and "S \<le> n * n" and "n \<le> S"
  shows "1 \<le> n * n / S" and "n * n / S \<le> n"
proof -
  show "1 \<le> n * n / S" using assms by (simp add: le_divide_eq)
  have "n * n \<le> n * S" using assms by (intro mult_left_mono) auto
  then show "n * n / S \<le> n" using assms(2) by (simp add: divide_le_eq)
qed

text \<open>
  C30. The effective rank of a correlation matrix needs no clamp. For two or more items with
  every pair measured in \<open>[-1, 1]\<close>, the rotations keep the trace and never lose any of the
  norm, so the eigenvalues found add up to the number of items and the ratio reported is exactly
  the participation ratio of these eigenvalues, which by itself lies between 1 and the number of
  items.
\<close>

theorem effective_rank_in_range:
  assumes "2 \<le> length ids" and "0 < m" and "0 \<le> rg_samples r"
    and "\<forall>a \<in> set ids. \<forall>b \<in> set ids. rg_has r a b \<and> \<bar>rg_get r a b\<bar> \<le> 1"
  shows "let es = symmetric_eigenvalues (length ids) (correlation_matrix ids r) in
    sum_list es = real (length ids) \<and>
    (\<exists>p. eigenvalue_effective_rank ids r t m = Inr p \<and> point_ok p \<and>
      pe_value p = (real (length ids))\<^sup>2 / (\<Sum>e\<leftarrow>es. e * e) \<and>
      1 \<le> pe_value p \<and> pe_value p \<le> real (length ids))"
proof -
  define es where "es = symmetric_eigenvalues (length ids) (correlation_matrix ids r)"
  let ?n = "length ids" and ?a = "correlation_matrix ids r" and ?S = "\<Sum>e\<leftarrow>es. e * e"
  have sym: "symmetric_upto ?n ?a"
    by (simp add: symmetric_upto_def correlation_matrix_def rg_get_sym)
  have sum: "sum_list es = real ?n"
    unfolding es_def eigenvalue_sums(1) [OF sym] by (simp add: trace_of_def correlation_matrix_def)
  have one: "?a i j * ?a i j \<le> 1" if "i < ?n" "j < ?n" for i j
  proof -
    have "\<bar>?a i j\<bar> \<le> 1" using assms(4) that by (simp add: correlation_matrix_def)
    then have "\<bar>?a i j\<bar> * \<bar>?a i j\<bar> \<le> 1 * 1" by (intro mult_mono) auto
    then show ?thesis by (simp add: abs_mult_self_eq)
  qed
  have "norm_sq ?n ?a \<le> (\<Sum>i<?n. \<Sum>j<?n. 1)" unfolding norm_sq_def using one by (intro sum_mono) auto
  then have upper: "?S \<le> real ?n * real ?n" using eigenvalue_sums(2) [OF sym] by (simp add: es_def)
  have len: "length es = ?n" by (simp add: es_def symmetric_eigenvalues_def Let_def)
  have n: "0 < real ?n" using assms(1) by (cases ids) auto
  have "real ?n * real ?n \<le> real ?n * ?S" using square_of_sum_le [of es] unfolding sum len .
  then have lower: "real ?n \<le> ?S" using n by simp
  moreover have "(2::real) \<le> real ?n" using assms(1) by linarith
  ultimately have S: "0 < ?S" "1 / 10 ^ 12 < ?S" by simp_all
  have part: "participation ?n es = real ?n * real ?n / ?S" using S(2) by (simp add: participation_def Let_def)
  have bounds: "1 \<le> real ?n * real ?n / ?S" "real ?n * real ?n / ?S \<le> real ?n"
    by (rule ratio_bounds [OF n S(1) upper lower])+
  have guards: "?n \<noteq> 0" "?n \<noteq> 1" using assms(1) by auto
  have "unmeasured ids r = []" unfolding measured_iff using assms(4) by blast
  then have "eigenvalue_effective_rank ids r t m =
      counted EIGENVALUE_METHOD_VERSION r t m (real ?n * real ?n / ?S)"
    using guards bounds
    by (simp add: eigenvalue_effective_rank_def Let_def require_measured_pairs_def part es_def [symmetric])
  moreover obtain p where "counted EIGENVALUE_METHOD_VERSION r t m (real ?n * real ?n / ?S) = Inr p"
    "pe_value p = real ?n * real ?n / ?S" "point_ok p"
    using counted_ok [OF assms(2,3)] by blast
  ultimately show ?thesis using sum bounds unfolding es_def [symmetric] Let_def by (simp add: power2_eq_square)
qed

lemma demo_gets:
  "rg_get demo_regime ''A'' ''B'' = 8/10" "rg_get demo_regime ''A'' ''C'' = 1/10"
  "rg_get demo_regime ''B'' ''C'' = - (2/10)" "rg_has demo_regime ''A'' ''B''"
  "rg_has demo_regime ''A'' ''C''" "rg_has demo_regime ''B'' ''C''"
  by (simp_all add: rg_has_def rg_get_def demo_regime_def pair_key_def demo_order dhas_def dget_or_def)

theorem effective_rank_in_range_witness:
  "\<exists>p. eigenvalue_effective_rank [''A'', ''B'', ''C''] demo_regime 0 20 = Inr p \<and>
    1 \<le> pe_value p \<and> pe_value p \<le> 3"
proof -
  have n: "2 \<le> length [''A'', ''B'', ''C'']" by simp
  have m: "(0::int) < 20" "0 \<le> rg_samples demo_regime" by (simp_all add: demo_regime_def)
  have all: "\<forall>a \<in> set [''A'', ''B'', ''C'']. \<forall>b \<in> set [''A'', ''B'', ''C''].
      rg_has demo_regime a b \<and> \<bar>rg_get demo_regime a b\<bar> \<le> 1"
    using demo_gets rg_get_sym [of demo_regime "''B''" "''A''"] rg_get_sym [of demo_regime "''C''" "''A''"]
      rg_get_sym [of demo_regime "''C''" "''B''"] rg_has_sym [of demo_regime "''B''" "''A''"]
      rg_has_sym [of demo_regime "''C''" "''A''"] rg_has_sym [of demo_regime "''C''" "''B''"]
    by (simp add: rg_has_def [of _ "''A''" "''A''"] rg_has_def [of _ "''B''" "''B''"] rg_has_def [of _ "''C''" "''C''"])
  obtain p where "eigenvalue_effective_rank [''A'', ''B'', ''C''] demo_regime 0 20 = Inr p"
    "1 \<le> pe_value p" "pe_value p \<le> real (length [''A'', ''B'', ''C''])"
    using effective_rank_in_range [OF n m all, of 0] unfolding Let_def by blast
  then show ?thesis by auto
qed

end
