(* ===== verification/CorporateActions.thy ===== *)
theory CorporateActions
  imports MasterLedger MarketData
begin

text \<open>
  \<open>services/market_data/corporate_actions.py\<close>: what splits, dividends, mergers and symbol
  changes do to the master ledger and to historical bars, and
  \<open>services/market_data/event_calendar.py\<close>: events known in advance. A ledger entry keeps
  the time of \<open>at\<close> and not whether it was naive.
\<close>

section \<open>Actions on the ledger\<close>

datatype ca_type = STOCK_SPLIT | REVERSE_SPLIT | CA_DIVIDEND | SECONDARY_OFFERING | RIGHTS
  | TENDER_OFFER | MERGER | ACQUISITION | DELISTING | SYMBOL_CHANGE

record corporate_action =
  ca_type :: ca_type
  ca_symbol :: string
  ca_date :: date
  ca_ratio :: real
  ca_cash :: real
  ca_new_symbol :: "string option"

record ca_engine =
  ce_ledger :: ledger
  ce_applied :: "corporate_action list"

fun time_of :: "pydt \<Rightarrow> instant" where
  "time_of (Naive t) = t"
| "time_of (Aware t) = t"

definition ca_entry :: "pydt \<Rightarrow> string \<Rightarrow> real \<Rightarrow> ledger_entry" where
  "ca_entry a_t symbol qty = \<lparr>le_at = time_of a_t, le_kind = CORPORATE_ACTION, le_amount = 0,
     le_symbol = Some symbol, le_qty = qty, le_price = 0, le_realized = 0\<rparr>"

definition log_entry :: "ledger_entry \<Rightarrow> ledger \<Rightarrow> ledger" where
  "log_entry e s = s\<lparr>lg_entries := lg_entries s @ [e]\<rparr>"

definition apply_split :: "corporate_action \<Rightarrow> pydt \<Rightarrow> (ledger, unit) act" where
  "apply_split a a_t s =
     (if ca_ratio a \<le> 0 then (Inl ValueError, s)
      else case dget (lg_lots s) (ca_symbol a) of
        None \<Rightarrow> (Inr (), s)
      | Some l \<Rightarrow>
         (if 0 < lot_qty l
          then let new_qty = lot_qty l * ca_ratio a; new_cost = lot_cost l / ca_ratio a in
            (Inr (), log_entry (ca_entry a_t (ca_symbol a) (new_qty - lot_qty l))
               (s\<lparr>lg_lots := dput (lg_lots s) (ca_symbol a) (l\<lparr>lot_qty := new_qty, lot_cost := new_cost\<rparr>)\<rparr>))
          else (Inr (), s)))"

definition apply_dividend :: "corporate_action \<Rightarrow> pydt \<Rightarrow> (ledger, unit) act" where
  "apply_dividend a a_t s =
     (let qty = position_qty s (ca_symbol a) in
      if 0 < qty \<and> 0 < ca_cash a
      then lg_append \<lparr>le_at = time_of a_t, le_kind = DIVIDEND, le_amount = qty * ca_cash a,
             le_symbol = Some (ca_symbol a), le_qty = 0, le_price = 0, le_realized = 0\<rparr> s
      else (Inr (), s))"

definition apply_cash_out :: "corporate_action \<Rightarrow> pydt \<Rightarrow> (ledger, unit) act" where
  "apply_cash_out a a_t s =
     (let qty = position_qty s (ca_symbol a) in
      if 0 < qty \<and> 0 < ca_cash a then record_fill (ca_symbol a) (- qty) (ca_cash a) 0 a_t s
      else (Inr (), s))"

definition apply_symbol_change :: "corporate_action \<Rightarrow> pydt \<Rightarrow> (ledger, unit) act" where
  "apply_symbol_change a a_t s =
     (case (dget (lg_lots s) (ca_symbol a), ca_new_symbol a) of
        (Some l, Some new) \<Rightarrow>
          (if 0 < lot_qty l \<and> new \<noteq> []
           then (Inr (), log_entry (ca_entry a_t new 0)
             (s\<lparr>lg_lots := dput (ddel (lg_lots s) (ca_symbol a)) new (l\<lparr>lot_symbol := new\<rparr>)\<rparr>))
           else (Inr (), s))
      | _ \<Rightarrow> (Inr (), s))"

definition ca_effect :: "corporate_action \<Rightarrow> pydt \<Rightarrow> (ledger, unit) act" where
  "ca_effect a a_t =
     (if ca_type a \<in> {STOCK_SPLIT, REVERSE_SPLIT} then apply_split a a_t
      else if ca_type a = CA_DIVIDEND then apply_dividend a a_t
      else if ca_type a \<in> {MERGER, ACQUISITION, TENDER_OFFER} then apply_cash_out a a_t
      else if ca_type a = SYMBOL_CHANGE then apply_symbol_change a a_t
      else if ca_type a = DELISTING
      then (\<lambda>s. (Inr (), log_entry (ca_entry a_t (ca_symbol a) 0) s))
      else ret ())"

definition apply_action :: "corporate_action \<Rightarrow> pydt \<Rightarrow> (ca_engine, unit) act" where
  "apply_action a a_t e =
     (case ca_effect a a_t (ce_ledger e) of
        (Inl x, s) \<Rightarrow> (Inl x, e\<lparr>ce_ledger := s\<rparr>)
      | (Inr _, s) \<Rightarrow> (Inr (), e\<lparr>ce_ledger := s, ce_applied := ce_applied e @ [a]\<rparr>))"

section \<open>Historical bars\<close>

text \<open>\<open>ts.date()\<close> by its ordinal: the epoch is day 719163.\<close>

definition ordinal_of :: "instant \<Rightarrow> int" where
  "ordinal_of t = 719163 + t div days_us"

text \<open>\<open>Bar(...)\<close> validates the adjusted prices and raises when one is out of order or not positive.\<close>

definition adjust_bar :: "corporate_action \<Rightarrow> real bar \<Rightarrow> exn + real bar" where
  "adjust_bar a b =
     (if ca_ratio a = 0 then Inl ZeroDivisionError
      else mk_bar \<lparr>bar_symbol = bar_symbol b, bar_ts = bar_ts b,
        bar_open = Fin (bar_open b / ca_ratio a), bar_high = Fin (bar_high b / ca_ratio a),
        bar_low = Fin (bar_low b / ca_ratio a), bar_close = Fin (bar_close b / ca_ratio a),
        bar_volume = py_int (real_of_int (bar_volume b) * ca_ratio a),
        bar_vwap = (case bar_vwap b of None \<Rightarrow> None
                    | Some v \<Rightarrow> if v \<noteq> 0 then Some (Fin (v / ca_ratio a)) else None),
        bar_source = bar_source b, bar_version = bar_version b @ ''+split''\<rparr>)"

fun adjust_loop :: "corporate_action \<Rightarrow> real bar list \<Rightarrow> exn + real bar list" where
  "adjust_loop a [] = Inr []"
| "adjust_loop a (b # bs) =
     (case (if ordinal_of (bar_ts b) < to_ordinal (ca_date a) then adjust_bar a b else Inr b) of
        Inl e \<Rightarrow> Inl e
      | Inr b' \<Rightarrow> (case adjust_loop a bs of Inl e \<Rightarrow> Inl e | Inr bs' \<Rightarrow> Inr (b' # bs')))"

definition adjust_bars_for_split :: "real bar list \<Rightarrow> corporate_action \<Rightarrow> exn + real bar list" where
  "adjust_bars_for_split bars a =
     (if ca_type a \<notin> {STOCK_SPLIT, REVERSE_SPLIT} then Inr bars else adjust_loop a bars)"

section \<open>The event calendar\<close>

datatype event_type = EARNINGS | ECONOMIC_RELEASE | FOMC | COMPANY_EVENT | FDA_DATE | HEARING | EXPIRATION

record risk_event =
  ev_type :: event_type
  ev_on :: date
  ev_symbol :: "string option"
  ev_description :: string

definition market_wide :: "risk_event \<Rightarrow> bool" where
  "market_wide e \<longleftrightarrow> ev_symbol e = None \<or> ev_type e \<in> {ECONOMIC_RELEASE, FOMC, EXPIRATION}"

definition event_add :: "risk_event \<Rightarrow> risk_event list \<Rightarrow> risk_event list" where
  "event_add e es = es @ [e]"

definition events_between :: "risk_event list \<Rightarrow> date \<Rightarrow> date \<Rightarrow> string option \<Rightarrow> risk_event list" where
  "events_between es start stop symbol =
     sort_key ev_on (filter (\<lambda>e. start \<le> ev_on e \<and> ev_on e \<le> stop \<and>
       (market_wide e \<or> symbol = None \<or> ev_symbol e = symbol)) es)"

text \<open>\<open>as_of + timedelta(days=n)\<close> for \<open>n \<ge> 0\<close>; no event lies in a horizon that ends before it starts.\<close>

definition has_event_before :: "risk_event list \<Rightarrow> string \<Rightarrow> date \<Rightarrow> int \<Rightarrow> bool" where
  "has_event_before es symbol as_of horizon_days =
     (if horizon_days < 0 then False
      else events_between es as_of ((next_day ^^ nat horizon_days) as_of) (Some symbol) \<noteq> [])"

section \<open>The ledger stays sound\<close>

lemma log_entry_inv:
  "ledger_inv s \<Longrightarrow> le_amount e = 0 \<Longrightarrow> le_realized e = 0 \<Longrightarrow> le_kind e \<noteq> FEE \<Longrightarrow> ledger_inv (log_entry e s)"
  by (simp add: ledger_inv_def log_ok_def log_entry_def replay_cash_def replay_fees_def replay_realized_def)

lemma ca_entry_inv: "ledger_inv s \<Longrightarrow> ledger_inv (log_entry (ca_entry a_t sy q) s)"
  by (rule log_entry_inv) (simp_all add: ca_entry_def)

lemma lots_inv: "ledger_inv s \<Longrightarrow> lots_ok ls \<Longrightarrow> ledger_inv (s\<lparr>lg_lots := ls\<rparr>)"
  by (simp add: ledger_inv_def)

lemma split_inv:
  assumes "ledger_inv s" and "apply_split a a_t s = (r, s')" shows "ledger_inv s'"
proof (cases "ca_ratio a \<le> 0 \<or> dget (lg_lots s) (ca_symbol a) = None")
  case True
  then have "s' = s" using assms(2) by (auto simp: apply_split_def split: if_splits)
  with assms(1) show ?thesis by simp
next
  case False
  then obtain l where l: "dget (lg_lots s) (ca_symbol a) = Some l" "0 < ca_ratio a" by auto
  have ok: "lots_ok (lg_lots s)" using assms(1) by (simp add: ledger_inv_def)
  note lot = lots_okD [OF ok l(1)]
  have "lots_ok (dput (lg_lots s) (ca_symbol a)
      (l\<lparr>lot_qty := lot_qty l * ca_ratio a, lot_cost := lot_cost l / ca_ratio a\<rparr>))"
    using ok lot l(2) by (intro lots_ok_dput) auto
  with assms l lot show ?thesis
    by (auto simp: apply_split_def Let_def intro!: ca_entry_inv lots_inv)
qed

lemma symbol_change_inv:
  assumes "ledger_inv s" and "apply_symbol_change a a_t s = (r, s')" shows "ledger_inv s'"
proof -
  have ok: "lots_ok (lg_lots s)" using assms(1) by (simp add: ledger_inv_def)
  have "lots_ok (dput (ddel (lg_lots s) (ca_symbol a)) new (l\<lparr>lot_symbol := new\<rparr>))"
    if "dget (lg_lots s) (ca_symbol a) = Some l" for l new
    using lots_okD [OF ok that] by (intro lots_ok_dput lots_ok_ddel [OF ok]) auto
  with assms show ?thesis
    by (auto simp: apply_symbol_change_def intro!: ca_entry_inv lots_inv split: option.splits if_splits)
qed

lemma ca_effect_inv:
  assumes "ledger_inv s" and "ca_effect a a_t s = (r, s')" shows "ledger_inv s'"
proof -
  have "ledger_inv s'" if "apply_dividend a a_t s = (r, s')"
    using that assms(1) lg_append_inv by (auto simp: apply_dividend_def Let_def split: if_splits)
  moreover have "ledger_inv s'" if "apply_cash_out a a_t s = (r, s')"
  proof (cases "0 < position_qty s (ca_symbol a) \<and> 0 < ca_cash a")
    case True
    with that have fill: "record_fill (ca_symbol a) (- position_qty s (ca_symbol a)) (ca_cash a) 0 a_t s = (r, s')"
      by (simp add: apply_cash_out_def)
    show ?thesis by (rule record_fill_inv [OF assms(1) _ _ fill]) (use True in auto)
  next
    case False
    with that assms(1) show ?thesis by (simp add: apply_cash_out_def)
  qed
  moreover have "ledger_inv s'" if "apply_split a a_t s = (r, s')"
    by (rule split_inv [OF assms(1) that])
  moreover have "ledger_inv s'" if "apply_symbol_change a a_t s = (r, s')"
    by (rule symbol_change_inv [OF assms(1) that])
  moreover have "ledger_inv (log_entry (ca_entry a_t (ca_symbol a) 0) s)"
    by (rule ca_entry_inv [OF assms(1)])
  ultimately show ?thesis
    using assms by (cases "ca_type a") (simp_all add: ca_effect_def ret_def)
qed

text \<open>A split changes neither cash nor what a position cost, nor its value at the adjusted price.\<close>

lemma marked_at_price:
  "dict_ok ls \<Longrightarrow> marked (dput prices sy p) ls = marked (dput prices sy 0) ls + qty_of ls sy * p"
proof (induction ls)
  case Nil
  then show ?case by (simp add: marked_def qty_of_def)
next
  case (Cons x ls)
  obtain k l where x: "x = (k, l)" by (cases x)
  show ?case
  proof (cases "k = sy")
    case True
    then have "qty_of ls sy = 0" using Cons.prems x by (simp add: qty_of_def)
    with Cons x True show ?thesis by (simp add: marked_def qty_of_def dict_simps)
  next
    case False
    with Cons x show ?thesis by (simp add: marked_def qty_of_def dict_simps)
  qed
qed

lemma split_keeps_value:
  assumes "apply_split a a_t s = (Inr u, s')" and ok: "lots_ok (lg_lots s)"
  shows "lg_cash s' = lg_cash s" and "cost_basis (lg_lots s') = cost_basis (lg_lots s)"
    and "marked (dput prices (ca_symbol a) (px / ca_ratio a)) (lg_lots s') =
      marked (dput prices (ca_symbol a) px) (lg_lots s)"
proof -
  let ?sy = "ca_symbol a" and ?p' = "px / ca_ratio a"
  have ratio: "0 < ca_ratio a" using assms(1) by (auto simp: apply_split_def not_le [symmetric])
  have dict: "dict_ok (lg_lots s)" using ok by auto
  consider "lg_lots s' = lg_lots s" "lg_cash s' = lg_cash s" "dget (lg_lots s) ?sy = None"
    | l where "dget (lg_lots s) ?sy = Some l" "lg_cash s' = lg_cash s" "lg_lots s' = dput (lg_lots s) ?sy
        (l\<lparr>lot_qty := lot_qty l * ca_ratio a, lot_cost := lot_cost l / ca_ratio a\<rparr>)"
    using assms(1) ratio lots_okD(2) [OF ok]
    by (auto simp: apply_split_def Let_def log_entry_def split: option.splits)
  then have "lg_cash s' = lg_cash s \<and> cost_basis (lg_lots s') = cost_basis (lg_lots s) \<and>
    marked (dput prices ?sy ?p') (lg_lots s') = marked (dput prices ?sy px) (lg_lots s)"
  proof cases
    case 1
    then show ?thesis
      using marked_at_price [OF dict, of prices ?sy px] marked_at_price [OF dict, of prices ?sy ?p']
      by (simp add: qty_of_def)
  next
    case (2 l)
    have "marked (dput prices ?sy ?p') (lg_lots s') =
        marked (dput prices ?sy 0) (lg_lots s) + lot_qty l * ?p' + (lot_qty l * ca_ratio a - lot_qty l) * ?p'"
      using 2 marked_at_price [OF dict, of prices ?sy ?p'] by (simp add: marked_dput qty_of_def dict_simps)
    also have "\<dots> = marked (dput prices ?sy 0) (lg_lots s) + lot_qty l * px"
      using ratio by (simp add: field_simps)
    also have "\<dots> = marked (dput prices ?sy px) (lg_lots s)"
      using 2(1) marked_at_price [OF dict, of prices ?sy px] by (simp add: qty_of_def)
    finally show ?thesis using 2 ratio by (simp add: cost_basis_def dsum_dput)
  qed
  then show "lg_cash s' = lg_cash s" "cost_basis (lg_lots s') = cost_basis (lg_lots s)"
    "marked (dput prices ?sy ?p') (lg_lots s') = marked (dput prices ?sy px) (lg_lots s)" by auto
qed

lemma symbol_change_moves:
  assumes "apply_symbol_change a a_t s = (Inr u, s')" and ok: "lots_ok (lg_lots s)"
    and "ca_new_symbol a = Some new" and "new \<noteq> []" and "new \<noteq> ca_symbol a"
  shows "qty_of (lg_lots s') (ca_symbol a) = 0"
    and "qty_of (lg_lots s') new =
      (if dhas (lg_lots s) (ca_symbol a) then qty_of (lg_lots s) (ca_symbol a) else qty_of (lg_lots s) new)"
    and "lg_cash s' = lg_cash s"
  using assms lots_okD(2) [OF ok]
  by (auto simp: apply_symbol_change_def log_entry_def qty_of_def dhas_def dict_simps split: option.splits)

text \<open>
  A symbol that is changed into one that is already held replaces that position: its shares are
  gone from the books.
\<close>

lemma symbol_change_overwrites_position:
  assumes "lots_ok (lg_lots s)" and "dget (lg_lots s) (ca_symbol a) = Some l"
    and "dget (lg_lots s) new = Some m" and "ca_new_symbol a = Some new" and "new \<noteq> []"
    and "new \<noteq> ca_symbol a" and "apply_symbol_change a a_t s = (Inr u, s')"
  shows "qty_of (lg_lots s') new = lot_qty l" and "0 < lot_qty m"
    and "qty_of (lg_lots s) (ca_symbol a) + qty_of (lg_lots s) new
      = qty_of (lg_lots s') (ca_symbol a) + qty_of (lg_lots s') new + lot_qty m"
  using symbol_change_moves [OF assms(7,1,4,5,6)] assms(2,3) lots_okD(2) [OF assms(1,3)]
  by (auto simp: qty_of_def dhas_def)

lemma ca_error: "ca_effect a a_t s = (Inl x, s') \<Longrightarrow> s' = s"
  using record_fill_error [of 0] lg_append_error
  by (cases "ca_type a")
    (auto simp: ca_effect_def ret_def apply_split_def apply_dividend_def apply_cash_out_def
      apply_symbol_change_def Let_def split: if_splits option.splits)

lemma dividend_pays:
  assumes "apply_dividend a a_t s = (Inr u, s')" and "lots_ok (lg_lots s)" and "0 < ca_cash a"
  shows "lg_cash s' = lg_cash s + position_qty s (ca_symbol a) * ca_cash a" and "lg_lots s' = lg_lots s"
  using assms qty_of_nonneg [OF assms(2), of "ca_symbol a"]
  by (auto simp: apply_dividend_def lg_append_def position_qty_def Let_def split: if_splits)

lemma cash_out_closes:
  assumes "apply_cash_out a a_t s = (Inr u, s')" and ok: "lots_ok (lg_lots s)" and "0 < ca_cash a"
  shows "lg_cash s' = lg_cash s + position_qty s (ca_symbol a) * ca_cash a"
    and "position_qty s' (ca_symbol a) = 0"
proof -
  let ?q = "position_qty s (ca_symbol a)"
  have nn: "0 \<le> ?q" using qty_of_nonneg [OF ok] by (simp add: position_qty_def)
  have "lg_cash s' = lg_cash s + ?q * ca_cash a \<and> position_qty s' (ca_symbol a) = 0"
  proof (cases "0 < ?q")
    case False
    with nn have "?q = 0" by simp
    with assms(1) False show ?thesis by (simp add: apply_cash_out_def)
  next
    case True
    with assms(1,3) have fill: "record_fill (ca_symbol a) (- ?q) (ca_cash a) 0 a_t s = (Inr u, s')"
      by (simp add: apply_cash_out_def)
    obtain t realized nl where
      lot: "fill_lot ValueError (dget (lg_lots s) (ca_symbol a)) (ca_symbol a) (- ?q) (ca_cash a)
          = Inr (realized, nl)"
      and s': "s' = filled (ca_symbol a) (- ?q) (ca_cash a) 0 t realized nl s"
      by (rule record_fill_filled [OF _ fill]) auto
    obtain l where l: "dget (lg_lots s) (ca_symbol a) = Some l" "?q = lot_qty l"
      using True by (auto simp: position_qty_def qty_of_def split: option.splits)
    then have "nl = None" using lot nn by (auto simp: fill_lot_def Let_def split: if_splits)
    then show ?thesis
      unfolding s' by (simp add: filled_def put_lot_def position_qty_def dict_simps)
  qed
  then show "lg_cash s' = lg_cash s + ?q * ca_cash a" "position_qty s' (ca_symbol a) = 0" by auto
qed

lemma split_keeps_account:
  assumes "apply_split a a_t s = (Inr u, s')" and "lots_ok (lg_lots s)"
  shows "lg_cash s' = lg_cash s \<and> cost_basis (lg_lots s') = cost_basis (lg_lots s) \<and>
    (\<forall>prices px. marked (dput prices (ca_symbol a) (px / ca_ratio a)) (lg_lots s') =
      marked (dput prices (ca_symbol a) px) (lg_lots s))"
  by (intro conjI allI) (rule split_keeps_value [OF assms])+

lemma symbol_change_renames:
  assumes change: "apply_symbol_change a a_t s = (Inr u, s')" and ok: "lots_ok (lg_lots s)"
    and new: "ca_new_symbol a = Some new" "new \<noteq> []" "\<not> dhas (lg_lots s) new"
  shows "position_qty s' (ca_symbol a) = 0 \<and> position_qty s' new = position_qty s (ca_symbol a)"
proof -
  have none: "qty_of (lg_lots s) k = 0" if "\<not> dhas (lg_lots s) k" for k
    using that by (simp add: qty_of_def dhas_def)
  show ?thesis
  proof (cases "new = ca_symbol a")
    case True
    with change new none show ?thesis
      by (auto simp: apply_symbol_change_def position_qty_def dhas_def split: option.splits)
  next
    case False
    show ?thesis
      using symbol_change_moves [OF change ok new(1,2) False] none new(3) by (auto simp: position_qty_def)
  qed
qed

text \<open>
  C31. Corporate actions keep the books sound. Whatever action is applied, the ledger still has
  cash that is not negative, long positions only, and totals that agree with its log; an action
  that raises changes nothing and is not recorded. A split or reverse split changes neither cash
  nor cost basis nor the value of the account at the split price; a dividend pays its amount per
  share and leaves the positions alone; a cash merger closes the position at the deal price; and
  a symbol change moves the position to a symbol that is not held.
\<close>

theorem corporate_actions_keep_books:
  assumes inv: "ledger_inv (ce_ledger e)" and app: "apply_action a a_t e = (r, e')"
  shows "ledger_inv (ce_ledger e') \<and>
    (case r of Inl _ \<Rightarrow> e' = e
     | Inr _ \<Rightarrow> ce_applied e' = ce_applied e @ [a] \<and>
        (ca_type a \<in> {STOCK_SPLIT, REVERSE_SPLIT} \<longrightarrow>
          lg_cash (ce_ledger e') = lg_cash (ce_ledger e) \<and>
          cost_basis (lg_lots (ce_ledger e')) = cost_basis (lg_lots (ce_ledger e)) \<and>
          (\<forall>prices px. marked (dput prices (ca_symbol a) (px / ca_ratio a)) (lg_lots (ce_ledger e')) =
            marked (dput prices (ca_symbol a) px) (lg_lots (ce_ledger e)))) \<and>
        (ca_type a = CA_DIVIDEND \<and> 0 < ca_cash a \<longrightarrow>
          lg_cash (ce_ledger e') =
            lg_cash (ce_ledger e) + position_qty (ce_ledger e) (ca_symbol a) * ca_cash a \<and>
          lg_lots (ce_ledger e') = lg_lots (ce_ledger e)) \<and>
        (ca_type a \<in> {MERGER, ACQUISITION, TENDER_OFFER} \<and> 0 < ca_cash a \<longrightarrow>
          lg_cash (ce_ledger e') =
            lg_cash (ce_ledger e) + position_qty (ce_ledger e) (ca_symbol a) * ca_cash a \<and>
          position_qty (ce_ledger e') (ca_symbol a) = 0) \<and>
        (\<forall>new. ca_type a = SYMBOL_CHANGE \<and> ca_new_symbol a = Some new \<and> new \<noteq> [] \<and>
            \<not> dhas (lg_lots (ce_ledger e)) new \<longrightarrow>
          position_qty (ce_ledger e') (ca_symbol a) = 0 \<and>
          position_qty (ce_ledger e') new = position_qty (ce_ledger e) (ca_symbol a)))"
proof -
  let ?s = "ce_ledger e"
  have ok: "lots_ok (lg_lots ?s)" using inv by (simp add: ledger_inv_def)
  obtain r' s' where eff: "ca_effect a a_t ?s = (r', s')" by (cases "ca_effect a a_t ?s")
  have inv': "ledger_inv s'" by (rule ca_effect_inv [OF inv eff])
  show ?thesis
  proof (cases r')
    case (Inl x)
    then have "s' = ?s" using ca_error eff by blast
    with app eff Inl have "r = Inl x" "e' = e" by (auto simp: apply_action_def)
    with inv show ?thesis by simp
  next
    case (Inr u)
    with app eff have e': "r = Inr ()" "ce_ledger e' = s'" "ce_applied e' = ce_applied e @ [a]"
      by (auto simp: apply_action_def)
    have split: "ca_type a \<in> {STOCK_SPLIT, REVERSE_SPLIT} \<longrightarrow> lg_cash s' = lg_cash ?s \<and>
        cost_basis (lg_lots s') = cost_basis (lg_lots ?s) \<and>
        (\<forall>prices px. marked (dput prices (ca_symbol a) (px / ca_ratio a)) (lg_lots s') =
          marked (dput prices (ca_symbol a) px) (lg_lots ?s))"
      using eff Inr by (intro impI split_keeps_account [OF _ ok]) (simp add: ca_effect_def)
    have dividend: "ca_type a = CA_DIVIDEND \<and> 0 < ca_cash a \<longrightarrow>
        lg_cash s' = lg_cash ?s + position_qty ?s (ca_symbol a) * ca_cash a \<and> lg_lots s' = lg_lots ?s"
      using eff Inr dividend_pays [OF _ ok, of a a_t u s'] by (auto simp: ca_effect_def)
    have cash_out: "ca_type a \<in> {MERGER, ACQUISITION, TENDER_OFFER} \<and> 0 < ca_cash a \<longrightarrow>
        lg_cash s' = lg_cash ?s + position_qty ?s (ca_symbol a) * ca_cash a \<and>
        position_qty s' (ca_symbol a) = 0"
      using eff Inr cash_out_closes [OF _ ok, of a a_t u s'] by (auto simp: ca_effect_def)
    have rename: "position_qty s' (ca_symbol a) = 0 \<and> position_qty s' new = position_qty ?s (ca_symbol a)"
      if "ca_type a = SYMBOL_CHANGE" "ca_new_symbol a = Some new" "new \<noteq> []" "\<not> dhas (lg_lots ?s) new" for new
      using that(1) eff Inr by (intro symbol_change_renames [OF _ ok that(2,3,4)]) (auto simp: ca_effect_def)
    show ?thesis
      unfolding e'(1) sum.case e'(2) using inv' e'(3) split dividend cash_out rename by blast
  qed
qed

text \<open>A two-for-one split of a position of ten shares.\<close>

definition demo_ca_engine :: ca_engine where
  "demo_ca_engine = \<lparr>ce_ledger = (the_ledger 100)\<lparr>lg_lots := [(''X'', \<lparr>lot_symbol = ''X'', lot_qty = 10,
     lot_cost = 5\<rparr>)]\<rparr>, ce_applied = []\<rparr>"

definition demo_split :: corporate_action where
  "demo_split = \<lparr>ca_type = STOCK_SPLIT, ca_symbol = ''X'', ca_date = Date 2025 6 2, ca_ratio = 2,
     ca_cash = 0, ca_new_symbol = None\<rparr>"

theorem corporate_actions_keep_books_witness:
  "let e' = snd (apply_action demo_split (Aware 5) demo_ca_engine) in
    ledger_inv (ce_ledger e') \<and> cost_basis (lg_lots (ce_ledger e')) = 50 \<and>
    position_qty (ce_ledger e') ''X'' = 20"
proof -
  let ?r = "fst (apply_action demo_split (Aware 5) demo_ca_engine)"
  let ?e' = "snd (apply_action demo_split (Aware 5) demo_ca_engine)"
  have inv: "ledger_inv (ce_ledger demo_ca_engine)"
    by (simp add: demo_ca_engine_def the_ledger_def ledger_inv_def log_ok_def replay_cash_def
      replay_fees_def replay_realized_def lots_ok_def eps_def)
  have app: "apply_action demo_split (Aware 5) demo_ca_engine = (?r, ?e')" by simp
  have r: "?r = Inr ()"
    and q: "position_qty (ce_ledger ?e') ''X'' = 20"
    by (simp_all add: apply_action_def ca_effect_def apply_split_def demo_split_def demo_ca_engine_def
      the_ledger_def Let_def log_entry_def position_qty_def qty_of_def)
  have "cost_basis (lg_lots (ce_ledger demo_ca_engine)) = 50"
    by (simp add: demo_ca_engine_def cost_basis_def)
  moreover have "ca_type demo_split \<in> {STOCK_SPLIT, REVERSE_SPLIT}" by (simp add: demo_split_def)
  ultimately show ?thesis
    using corporate_actions_keep_books [OF inv app] q unfolding r sum.case Let_def by simp
qed

end
