(* ===== verification/Governance.thy ===== *)
theory Governance
  imports RiskGate
begin

text \<open>
  \<open>packages/common/experiments.py\<close>, \<open>services/pdca/exit_optimizer.py\<close>,
  \<open>services/pdca/post_trade.py\<close>, \<open>services/supervisor/recovery.py\<close> and
  \<open>services/supervisor/heartbeat.py\<close>: how a change earns its way into production, and who may
  resume after a fault. Objects that are passed by reference are named by their position in the
  list that owns them; random experiment ids are arguments.
\<close>

section \<open>Experiments\<close>

datatype experiment_decision = PENDING | ADOPT | EXP_REJECT | ROLLED_BACK

datatype result_value = RNum real | RText string

record experiment_rec =
  ex_hypothesis :: string
  ex_change :: string
  ex_baseline :: string
  ex_challenger :: string
  ex_start :: pydt
  ex_end :: "pydt option"
  ex_data_refs :: "(string, result_value) dict"
  ex_result :: "(string, result_value) dict"
  ex_decision :: experiment_decision
  ex_decided_by :: string
  ex_rollback :: string

type_synonym registry = "(string, experiment_rec) dict"

definition register_experiment :: "string \<Rightarrow> experiment_rec \<Rightarrow> (registry, string) act" where
  "register_experiment eid x g =
     (if ex_rollback x = [] then (Inl ValueError, g) else (Inr eid, dput g eid x))"

definition record_result ::
    "string \<Rightarrow> (string, result_value) dict \<Rightarrow> pydt \<Rightarrow> (registry, unit) act" where
  "record_result eid result period_end g =
     (case dget g eid of
        None \<Rightarrow> (Inl KeyError, g)
      | Some x \<Rightarrow> (Inr (), dput g eid (x\<lparr>ex_result := result, ex_end := Some period_end\<rparr>)))"

definition decide :: "string \<Rightarrow> experiment_decision \<Rightarrow> string \<Rightarrow> (registry, unit) act" where
  "decide eid decision decided_by g =
     (if decision = ADOPT \<and> decided_by = [] then (Inl PermissionError, g)
      else case dget g eid of
        None \<Rightarrow> (Inl KeyError, g)
      | Some x \<Rightarrow>
          (if ex_result x = [] \<and> decision = ADOPT then (Inl ValueError, g)
           else (Inr (), dput g eid (x\<lparr>ex_decision := decision, ex_decided_by := decided_by\<rparr>))))"

definition pending_experiments :: "registry \<Rightarrow> experiment_rec list" where
  "pending_experiments g = filter (\<lambda>x. ex_decision x = PENDING) (dvals g)"

definition adopted_experiments :: "registry \<Rightarrow> experiment_rec list" where
  "adopted_experiments g = filter (\<lambda>x. ex_decision x = ADOPT) (dvals g)"

section \<open>Post-trade tracking\<close>

datatype stop_grade = GOOD_STOP | EARLY_STOP | LATE_STOP | NEUTRAL

record tracked_exit =
  te_symbol :: string
  te_price :: real
  te_at :: instant
  te_kind :: string
  te_later :: "(string, real) dict"
  te_grade :: "stop_grade option"

definition HORIZONS :: "(string \<times> int) list" where
  "HORIZONS = [(''1h'', 60 * minutes_us), (''24h'', days_us), (''3d'', 3 * days_us), (''1w'', 7 * days_us)]"

definition track_exit :: "string \<Rightarrow> real \<Rightarrow> pydt \<Rightarrow> string \<Rightarrow> (tracked_exit list, tracked_exit) act" where
  "track_exit symbol price a_t kind ts =
     (case ensure_utc a_t of Inl e \<Rightarrow> (Inl e, ts) | Inr t \<Rightarrow>
      (let x = \<lparr>te_symbol = symbol, te_price = price, te_at = t, te_kind = kind, te_later = [],
                te_grade = None\<rparr> in (Inr x, ts @ [x])))"

definition grade_move :: "real \<Rightarrow> stop_grade" where
  "grade_move move = (if move \<le> - 3/100 then GOOD_STOP else if 3/100 \<le> move then EARLY_STOP else NEUTRAL)"

definition later_prices :: "instant \<Rightarrow> (string \<Rightarrow> instant \<Rightarrow> real) \<Rightarrow> tracked_exit \<Rightarrow> (string, real) dict" where
  "later_prices now price_fn x =
     fold (\<lambda>(label, delta) d. if \<not> dhas d label \<and> te_at x + delta \<le> now
                              then dput d label (price_fn (te_symbol x) (te_at x + delta)) else d)
       HORIZONS (te_later x)"

definition evaluate_exit :: "instant \<Rightarrow> (string \<Rightarrow> instant \<Rightarrow> real) \<Rightarrow> (tracked_exit, unit) act" where
  "evaluate_exit now price_fn x =
     (let x = x\<lparr>te_later := later_prices now price_fn x\<rparr> in
      case dget (te_later x) ''1w'' of
        None \<Rightarrow> (Inr (), x)
      | Some week_px \<Rightarrow>
          (if te_grade x = None \<and> te_kind x = ''STOP''
           then (if te_price x = 0 then (Inl ZeroDivisionError, x)
                 else (Inr (), x\<lparr>te_grade := Some (grade_move ((week_px - te_price x) / te_price x))\<rparr>))
           else (Inr (), x)))"

fun evaluate_exits :: "instant \<Rightarrow> (string \<Rightarrow> instant \<Rightarrow> real) \<Rightarrow> (tracked_exit list, unit) act" where
  "evaluate_exits now price_fn [] = (Inr (), [])"
| "evaluate_exits now price_fn (x # xs) =
     (case evaluate_exit now price_fn x of
        (Inl e, x') \<Rightarrow> (Inl e, x' # xs)
      | (Inr _, x') \<Rightarrow> (case evaluate_exits now price_fn xs of (r, xs') \<Rightarrow> (r, x' # xs')))"

definition evaluate_tracked :: "pydt \<Rightarrow> (string \<Rightarrow> instant \<Rightarrow> real) \<Rightarrow> (tracked_exit list, unit) act" where
  "evaluate_tracked a_t price_fn ts =
     (case ensure_utc a_t of Inl e \<Rightarrow> (Inl e, ts) | Inr now \<Rightarrow> evaluate_exits now price_fn ts)"

section \<open>The exit optimizer\<close>

datatype exit_stage = RESEARCH_STAGE | BACKTEST_STAGE | WALK_FORWARD | SHADOW | JUDGED | PROMOTED | STAGE_REJECTED

definition STAGE_ORDER :: "exit_stage list" where
  "STAGE_ORDER = [RESEARCH_STAGE, BACKTEST_STAGE, WALK_FORWARD, SHADOW, JUDGED, PROMOTED]"

text \<open>\<open>_STAGE_ORDER[_STAGE_ORDER.index(stage) + 1]\<close>\<close>

fun next_stage :: "exit_stage \<Rightarrow> exit_stage list \<Rightarrow> exit_stage option" where
  "next_stage st (a # b # rest) = (if a = st then Some b else next_stage st (b # rest))"
| "next_stage st _ = None"

record exit_proposal =
  xp_name :: string
  xp_stop :: stop_type
  xp_change :: string
  xp_stage :: exit_stage
  xp_evidence :: "(string, real) dict"
  xp_experiment :: string
  xp_reason :: string

record optimizer =
  op_registry :: registry
  op_proposals :: "exit_proposal list"

definition analyze_stops :: "tracked_exit list \<Rightarrow> (string, real) dict" where
  "analyze_stops ts =
     (let graded = filter (\<lambda>x. te_grade x \<noteq> None) ts; n = real (length graded);
          rate = (\<lambda>g. real (length (filter (\<lambda>x. te_grade x = Some g) graded)) / n)
      in if graded = [] then []
         else [(''graded'', n), (''good_rate'', rate GOOD_STOP), (''early_rate'', rate EARLY_STOP),
               (''neutral_rate'', rate NEUTRAL)])"

definition propose :: "string \<Rightarrow> string \<Rightarrow> stop_type \<Rightarrow> string \<Rightarrow> pydt \<Rightarrow> (optimizer, exit_proposal) act" where
  "propose eid name stop change a_t o1 =
     (let x = \<lparr>ex_hypothesis = ''exit method '' @ name @ '' improves stop quality'', ex_change = change,
               ex_baseline = ''current exit rules'', ex_challenger = name, ex_start = a_t, ex_end = None, ex_data_refs = [],
               ex_result = [], ex_decision = PENDING, ex_decided_by = [],
               ex_rollback = ''revert to previous stop configuration version''\<rparr>
      in case register_experiment eid x (op_registry o1) of
           (Inl e, g) \<Rightarrow> (Inl e, o1\<lparr>op_registry := g\<rparr>)
         | (Inr i, g) \<Rightarrow>
             (let p = \<lparr>xp_name = name, xp_stop = stop, xp_change = change, xp_stage = RESEARCH_STAGE,
                       xp_evidence = [], xp_experiment = i, xp_reason = []\<rparr>
              in (Inr p, o1\<lparr>op_registry := g, op_proposals := op_proposals o1 @ [p]\<rparr>)))"

definition set_proposal :: "nat \<Rightarrow> exit_proposal \<Rightarrow> optimizer \<Rightarrow> optimizer" where
  "set_proposal i p o1 = o1\<lparr>op_proposals := (op_proposals o1)[i := p]\<rparr>"

definition advance_proposal :: "nat \<Rightarrow> string \<Rightarrow> real \<Rightarrow> (optimizer, exit_stage) act" where
  "advance_proposal i key v o1 =
     (let p = op_proposals o1 ! i in
      if xp_stage p \<in> {PROMOTED, STAGE_REJECTED} then (Inl StagePromotionError, o1)
      else
       (let p = p\<lparr>xp_evidence := dput (xp_evidence p) key v\<rparr>; o2 = set_proposal i p o1 in
        case next_stage (xp_stage p) STAGE_ORDER of
          None \<Rightarrow> (Inl IndexError, o2)
        | Some nxt \<Rightarrow>
            (if nxt = PROMOTED then (Inl StagePromotionError, o2)
             else (Inr nxt, set_proposal i (p\<lparr>xp_stage := nxt\<rparr>) o1))))"

definition on_registry :: "(registry, 'a) act \<Rightarrow> (optimizer, 'a) act" where
  "on_registry f o1 = (case f (op_registry o1) of (r, g) \<Rightarrow> (r, o1\<lparr>op_registry := g\<rparr>))"

definition promote_proposal ::
    "nat \<Rightarrow> string \<Rightarrow> (string, result_value) dict \<Rightarrow> pydt \<Rightarrow> (optimizer, unit) act" where
  "promote_proposal i decided_by result a_t o1 =
     (let p = op_proposals o1 ! i in
      if xp_stage p \<noteq> JUDGED then (Inl StagePromotionError, o1)
      else bind_act (on_registry (record_result (xp_experiment p) result a_t))
        (\<lambda>_. bind_act (on_registry (decide (xp_experiment p) ADOPT decided_by))
          (\<lambda>_ o2. (Inr (), set_proposal i (p\<lparr>xp_stage := PROMOTED\<rparr>) o2))) o1)"

definition reject_proposal :: "nat \<Rightarrow> string \<Rightarrow> (optimizer, unit) act" where
  "reject_proposal i reason o1 =
     (let p = (op_proposals o1 ! i)\<lparr>xp_stage := STAGE_REJECTED, xp_reason := reason\<rparr>;
          o2 = set_proposal i p o1
      in case dget (op_registry o2) (xp_experiment p) of
           None \<Rightarrow> (Inl KeyError, o2)
         | Some x \<Rightarrow>
             bind_act (on_registry (record_result (xp_experiment p) [(''rejected'', RText reason)] (ex_start x)))
               (\<lambda>_. on_registry (decide (xp_experiment p) EXP_REJECT ''optimizer'')) o2)"

section \<open>Incidents\<close>

datatype fault_severity = MINOR | MAJOR

datatype timeline_event = Detected instant string | Resumed instant bool

record incident =
  in_id :: string
  in_severity :: fault_severity
  in_service :: string
  in_description :: string
  in_detected :: instant
  in_timeline :: "timeline_event list"
  in_root_cause :: string
  in_damage :: string
  in_why :: string
  in_corrective :: string
  in_test :: string
  in_resolved :: bool
  in_approved :: bool

record recovery =
  rm_incidents :: "incident list"
  rm_seq :: int

definition report_fault :: "instant \<Rightarrow> string \<Rightarrow> string \<Rightarrow> fault_severity \<Rightarrow> recovery \<Rightarrow> incident \<times> recovery" where
  "report_fault now service description severity m =
     (let n = rm_seq m + 1;
          inc = \<lparr>in_id = ''INC-'' @ pad0 4 (str_int n), in_severity = severity, in_service = service,
                 in_description = description, in_detected = now,
                 in_timeline = [Detected now description], in_root_cause = [], in_damage = [],
                 in_why = [], in_corrective = [], in_test = [], in_resolved = False, in_approved = False\<rparr>
      in (inc, m\<lparr>rm_seq := n, rm_incidents := rm_incidents m @ [inc]\<rparr>))"

definition can_auto_resume :: "incident \<Rightarrow> bool" where
  "can_auto_resume i \<longleftrightarrow> in_severity i = MINOR"

definition resume :: "instant \<Rightarrow> nat \<Rightarrow> bool \<Rightarrow> (recovery, unit) act" where
  "resume now k human_approved m =
     (let i = rm_incidents m ! k in
      if in_severity i = MAJOR \<and> \<not> human_approved then (Inl ResumeForbiddenError, m)
      else (Inr (), m\<lparr>rm_incidents := (rm_incidents m)
        [k := i\<lparr>in_resolved := True, in_approved := human_approved,
                in_timeline := in_timeline i @ [Resumed now human_approved]\<rparr>]\<rparr>))"

definition or_text :: "string \<Rightarrow> string \<Rightarrow> string" where
  "or_text a b = (if a = [] then b else a)"

record postmortem_report =
  pm_id :: string
  pm_timeline :: "timeline_event list"
  pm_root_cause :: string
  pm_detection :: string
  pm_damage :: string
  pm_why :: string
  pm_corrective :: string
  pm_test :: string

definition postmortem :: "incident \<Rightarrow> postmortem_report" where
  "postmortem i =
     \<lparr>pm_id = in_id i, pm_timeline = in_timeline i,
      pm_root_cause = or_text (in_root_cause i) ''TODO: root cause analysis'',
      pm_detection = ''detected in service '' @ in_service i,
      pm_damage = or_text (in_damage i) ''TODO: quantify damage'',
      pm_why = or_text (in_why i) ''TODO'',
      pm_corrective = or_text (in_corrective i) ''TODO'',
      pm_test = or_text (in_test i) ''TODO: add to tests/failure/''\<rparr>"

definition open_major_incidents :: "recovery \<Rightarrow> incident list" where
  "open_major_incidents m = filter (\<lambda>i. in_severity i = MAJOR \<and> \<not> in_resolved i) (rm_incidents m)"

section \<open>Heartbeats\<close>

datatype service_status = HB_OK | HB_WARNING | HB_ERROR

record heartbeat =
  hb_service :: string
  hb_at :: pydt
  hb_status :: service_status
  hb_last_success :: pydt
  hb_latency_ms :: real
  hb_error_rate :: real
  hb_queue_depth :: int
  hb_data_age :: real

type_synonym heartbeats = "(string, heartbeat) dict"

definition hb_report :: "heartbeat \<Rightarrow> heartbeats \<Rightarrow> heartbeats" where
  "hb_report hb d = dput d (hb_service hb) hb"

definition hb_stale_after :: int where
  "hb_stale_after = 5 * minutes_us"

definition status_of :: "instant \<Rightarrow> int \<Rightarrow> heartbeats \<Rightarrow> string \<Rightarrow> exn + service_status" where
  "status_of now stale_after d service =
     (case dget d service of
        None \<Rightarrow> Inr HB_ERROR
      | Some hb \<Rightarrow> (case ensure_utc (hb_at hb) of Inl e \<Rightarrow> Inl e
          | Inr t \<Rightarrow> Inr (if stale_after < now - t then HB_ERROR else hb_status hb)))"

fun statuses :: "instant \<Rightarrow> int \<Rightarrow> heartbeats \<Rightarrow> string list \<Rightarrow> exn + (string \<times> service_status) list" where
  "statuses now stale_after d [] = Inr []"
| "statuses now stale_after d (s # ss) =
     (case status_of now stale_after d s of Inl e \<Rightarrow> Inl e | Inr st \<Rightarrow>
      case statuses now stale_after d ss of Inl e \<Rightarrow> Inl e | Inr r \<Rightarrow> Inr ((s, st) # r))"

definition overall :: "instant \<Rightarrow> int \<Rightarrow> heartbeats \<Rightarrow> exn + service_status" where
  "overall now stale_after d =
     (case statuses now stale_after d (dkeys d) of Inl e \<Rightarrow> Inl e
      | Inr r \<Rightarrow> (let sts = (if r = [] then [HB_ERROR] else map snd r) in
          Inr (if HB_ERROR \<in> set sts then HB_ERROR
               else if HB_WARNING \<in> set sts then HB_WARNING else HB_OK)))"

definition hb_snapshot :: "instant \<Rightarrow> int \<Rightarrow> heartbeats \<Rightarrow> exn + (string, service_status) dict" where
  "hb_snapshot now stale_after d = statuses now stale_after d (sort (dkeys d))"

section \<open>Grades\<close>

text \<open>Four grades are documented, three are ever given.\<close>

lemma evaluate_never_late:
  assumes "evaluate_exit now f x = (r, x')" and "te_grade x \<noteq> Some LATE_STOP"
  shows "te_grade x' \<noteq> Some LATE_STOP"
  using assms by (auto simp: evaluate_exit_def grade_move_def Let_def split: option.splits if_splits)

section \<open>Recovery\<close>

text \<open>No history of reports and resumptions resolves a major incident without a human.\<close>

inductive recovery_step :: "recovery \<Rightarrow> recovery \<Rightarrow> bool" where
  report: "recovery_step m (snd (report_fault now service description severity m))"
| resume: "k < length (rm_incidents m) \<Longrightarrow> recovery_step m (snd (resume now k approved m))"

lemma major_faults_need_a_human:
  assumes "recovery_step\<^sup>*\<^sup>* \<lparr>rm_incidents = [], rm_seq = 0\<rparr> m"
  shows "\<forall>i \<in> set (rm_incidents m). in_severity i = MAJOR \<and> in_resolved i \<longrightarrow> in_approved i"
  using assms
proof (induction rule: rtranclp_induct)
  case (step m m')
  from step(2) show ?case
  proof cases
    case (report now service description severity)
    with step.IH show ?thesis by (auto simp: report_fault_def Let_def)
  next
    case (resume k now approved)
    then show ?thesis
      using step.IH by (auto simp: resume_def Let_def dest!: set_update_subset_insert [THEN subsetD])
  qed
qed simp

text \<open>A service that does not report is failed.\<close>

lemma silent_is_failed:
  assumes "dget d s = None \<or> (\<exists>hb t. dget d s = Some hb \<and> hb_at hb = Aware t \<and> stale_after < now - t)"
  shows "status_of now stale_after d s = Inr HB_ERROR"
  using assms by (auto simp: status_of_def)

section \<open>Promotion\<close>

inductive opt_step :: "optimizer \<Rightarrow> optimizer \<Rightarrow> bool" where
  st_propose: "\<not> dhas (op_registry o1) eid \<Longrightarrow> propose eid name stop change t o1 = (r, o2) \<Longrightarrow> opt_step o1 o2"
| st_advance: "i < length (op_proposals o1) \<Longrightarrow> advance_proposal i key v o1 = (r', o2) \<Longrightarrow> opt_step o1 o2"
| st_promote: "i < length (op_proposals o1) \<Longrightarrow> promote_proposal i who result t o1 = (r'', o2) \<Longrightarrow> opt_step o1 o2"
| st_reject: "i < length (op_proposals o1) \<Longrightarrow> reject_proposal i reason o1 = (r'', o2) \<Longrightarrow> opt_step o1 o2"

definition empty_optimizer :: optimizer where
  "empty_optimizer = \<lparr>op_registry = [], op_proposals = []\<rparr>"

definition stage_of :: "optimizer \<Rightarrow> nat \<Rightarrow> exit_stage" where
  "stage_of o1 i = xp_stage (op_proposals o1 ! i)"

text \<open>
  Every proposal has an experiment of its own, which is adopted exactly when the proposal is
  promoted, and then names who decided it and carries a result.
\<close>

definition experiment_fits :: "registry \<Rightarrow> exit_proposal \<Rightarrow> bool" where
  "experiment_fits g p \<longleftrightarrow> (\<exists>x. dget g (xp_experiment p) = Some x \<and>
     (ex_decision x = ADOPT \<longleftrightarrow> xp_stage p = PROMOTED) \<and>
     (ex_decision x = ADOPT \<longrightarrow> ex_decided_by x \<noteq> [] \<and> ex_result x \<noteq> []))"

definition optimizer_ok :: "optimizer \<Rightarrow> bool" where
  "optimizer_ok o1 \<longleftrightarrow> distinct (map xp_experiment (op_proposals o1)) \<and>
     (\<forall>p \<in> set (op_proposals o1). experiment_fits (op_registry o1) p)"

text \<open>An operation on one proposal that only touches the experiment of that proposal.\<close>

lemma optimizer_ok_update:
  assumes ok: "optimizer_ok o1" and i: "i < length (op_proposals o1)"
    and "xp_experiment p = xp_experiment (op_proposals o1 ! i)"
    and "\<And>k. k \<noteq> xp_experiment p \<Longrightarrow> dget g k = dget (op_registry o1) k"
    and "experiment_fits g p"
  shows "optimizer_ok \<lparr>op_registry = g, op_proposals = (op_proposals o1)[i := p]\<rparr>"
proof -
  let ?ps = "op_proposals o1"
  have "map xp_experiment (?ps[i := p]) = map xp_experiment ?ps"
    using assms(3) i by (simp add: map_update list_update_id) (metis list_update_id nth_map)
  moreover have "experiment_fits g q" if q: "q \<in> set (?ps[i := p])" for q
  proof (cases "q = p")
    case False
    from q obtain j where j: "j < length ?ps" "q = ?ps[i := p] ! j" by (auto simp: in_set_conv_nth)
    with False i have "j \<noteq> i" by auto
    with j have "q = ?ps ! j" by simp
    moreover have "xp_experiment (?ps ! j) \<noteq> xp_experiment (?ps ! i)"
      using ok j(1) i \<open>j \<noteq> i\<close> unfolding optimizer_ok_def distinct_map
      by (metis distinct_map nth_eq_iff_index_eq inj_on_eq_iff nth_mem)
    ultimately show ?thesis
      using ok j(1) assms(3,4) unfolding optimizer_ok_def experiment_fits_def by (metis nth_mem)
  qed (use assms(5) in simp)
  ultimately show ?thesis using ok by (simp add: optimizer_ok_def)
qed

lemma advance_cases:
  assumes "advance_proposal i key v o1 = (r, o2)"
  obtains "o2 = o1" "stage_of o1 i \<in> {PROMOTED, STAGE_REJECTED}" "r = Inl StagePromotionError"
  | p where "o2 = set_proposal i p o1" "xp_experiment p = xp_experiment (op_proposals o1 ! i)"
      "xp_stage p = stage_of o1 i" "stage_of o1 i \<noteq> PROMOTED" "\<not> is_ok r"
      "next_stage (stage_of o1 i) STAGE_ORDER \<in> {None, Some PROMOTED}"
  | p nxt where "o2 = set_proposal i p o1" "xp_experiment p = xp_experiment (op_proposals o1 ! i)"
      "xp_stage p = nxt" "next_stage (stage_of o1 i) STAGE_ORDER = Some nxt" "nxt \<noteq> PROMOTED" "r = Inr nxt"
      "stage_of o1 i \<notin> {PROMOTED, STAGE_REJECTED}"
proof (cases "stage_of o1 i \<in> {PROMOTED, STAGE_REJECTED}")
  case True
  with assms have "o2 = o1" "r = Inl StagePromotionError"
    by (auto simp: advance_proposal_def stage_of_def Let_def)
  with True show ?thesis by (intro that(1))
next
  case False
  let ?p = "(op_proposals o1 ! i)\<lparr>xp_evidence := dput (xp_evidence (op_proposals o1 ! i)) key v\<rparr>"
  show ?thesis
  proof (cases "next_stage (stage_of o1 i) STAGE_ORDER \<in> {None, Some PROMOTED}")
    case True
    with False assms have "o2 = set_proposal i ?p o1" "\<not> is_ok r"
      by (auto simp: advance_proposal_def stage_of_def Let_def split: option.splits)
    with True False show ?thesis by (intro that(2) [of ?p]) (auto simp: stage_of_def)
  next
    case nx: False
    then obtain nxt where n: "next_stage (stage_of o1 i) STAGE_ORDER = Some nxt" "nxt \<noteq> PROMOTED" by auto
    with False assms have "o2 = set_proposal i (?p\<lparr>xp_stage := nxt\<rparr>) o1" "r = Inr nxt"
      by (auto simp: advance_proposal_def stage_of_def Let_def)
    with n False show ?thesis by (intro that(3) [of "?p\<lparr>xp_stage := nxt\<rparr>" nxt]) auto
  qed
qed

lemma promote_cases:
  assumes "promote_proposal i who result t o1 = (r, o2)" and "optimizer_ok o1"
    and "i < length (op_proposals o1)"
  obtains "o2 = o1" "stage_of o1 i \<noteq> JUDGED"
  | x where "stage_of o1 i = JUDGED" "dget (op_registry o1) (xp_experiment (op_proposals o1 ! i)) = Some x"
      "ex_decision x \<noteq> ADOPT" "\<not> is_ok r" "who = [] \<or> result = []"
      "o2 = o1\<lparr>op_registry := dput (op_registry o1) (xp_experiment (op_proposals o1 ! i))
        (x\<lparr>ex_result := result, ex_end := Some t\<rparr>)\<rparr>"
  | x where "stage_of o1 i = JUDGED" "who \<noteq> []" "result \<noteq> []" "r = Inr ()"
      "dget (op_registry o1) (xp_experiment (op_proposals o1 ! i)) = Some x"
      "o2 = set_proposal i ((op_proposals o1 ! i)\<lparr>xp_stage := PROMOTED\<rparr>)
        (o1\<lparr>op_registry := dput (dput (op_registry o1) (xp_experiment (op_proposals o1 ! i))
          (x\<lparr>ex_result := result, ex_end := Some t\<rparr>)) (xp_experiment (op_proposals o1 ! i))
          (x\<lparr>ex_result := result, ex_end := Some t, ex_decision := ADOPT, ex_decided_by := who\<rparr>)\<rparr>)"
proof (cases "stage_of o1 i = JUDGED")
  case False
  with assms(1) have "o2 = o1" by (auto simp: promote_proposal_def stage_of_def Let_def)
  with False show ?thesis by (intro that(1))
next
  case True
  let ?p = "op_proposals o1 ! i"
  have "experiment_fits (op_registry o1) ?p" using assms(2,3) by (simp add: optimizer_ok_def)
  then obtain x where x: "dget (op_registry o1) (xp_experiment ?p) = Some x" "ex_decision x \<noteq> ADOPT"
    using True by (auto simp: experiment_fits_def stage_of_def)
  show ?thesis
  proof (cases "who = [] \<or> result = []")
    case bad: True
    show ?thesis
      by (rule that(2) [OF True x])
        (use assms(1) True x bad in \<open>auto simp: promote_proposal_def stage_of_def Let_def bind_act_def
          on_registry_def record_result_def decide_def dict_simps split: if_splits\<close>)
  next
    case good: False
    show ?thesis
      by (rule that(3) [OF True _ _ _ x(1)])
        (use assms(1) True x good in \<open>auto simp: promote_proposal_def stage_of_def Let_def bind_act_def
          on_registry_def record_result_def decide_def dict_simps split: if_splits\<close>)
  qed
qed

lemma reject_result:
  assumes "reject_proposal i reason o1 = (r, o2)" and "optimizer_ok o1"
    and "i < length (op_proposals o1)"
  obtains x where "r = Inr ()"
    "dget (op_registry o1) (xp_experiment (op_proposals o1 ! i)) = Some x"
    "o2 = set_proposal i ((op_proposals o1 ! i)\<lparr>xp_stage := STAGE_REJECTED, xp_reason := reason\<rparr>)
      (o1\<lparr>op_registry := dput (dput (op_registry o1) (xp_experiment (op_proposals o1 ! i))
        (x\<lparr>ex_result := [(''rejected'', RText reason)], ex_end := Some (ex_start x)\<rparr>))
        (xp_experiment (op_proposals o1 ! i))
        (x\<lparr>ex_result := [(''rejected'', RText reason)], ex_end := Some (ex_start x),
           ex_decision := EXP_REJECT, ex_decided_by := ''optimizer''\<rparr>)\<rparr>)"
proof -
  have "experiment_fits (op_registry o1) (op_proposals o1 ! i)" using assms(2,3) by (simp add: optimizer_ok_def)
  then obtain x where "dget (op_registry o1) (xp_experiment (op_proposals o1 ! i)) = Some x"
    by (auto simp: experiment_fits_def)
  with assms(1) show ?thesis
    by (intro that [of x]) (auto simp: reject_proposal_def Let_def bind_act_def on_registry_def
      record_result_def decide_def dict_simps set_proposal_def)
qed

text \<open>What one step does to the stage of a proposal: at most one rung, or out.\<close>

definition one_rung :: "exit_stage \<Rightarrow> exit_stage \<Rightarrow> bool" where
  "one_rung a b \<longleftrightarrow> b = a \<or> b = STAGE_REJECTED \<or> next_stage a STAGE_ORDER = Some b"

lemma stage_of_set:
  "j < length (op_proposals o1) \<Longrightarrow> stage_of (set_proposal i p o1) j = (if j = i then xp_stage p else stage_of o1 j)"
  by (simp add: stage_of_def set_proposal_def nth_list_update)

lemma set_proposal_eta: "set_proposal i p o1 = \<lparr>op_registry = op_registry o1, op_proposals = (op_proposals o1)[i := p]\<rparr>"
  by (simp add: set_proposal_def)

lemma opt_step_ok:
  assumes "opt_step o1 o2" and ok: "optimizer_ok o1"
  shows "optimizer_ok o2" and "length (op_proposals o1) \<le> length (op_proposals o2)"
    and "j < length (op_proposals o1) \<Longrightarrow> one_rung (stage_of o1 j) (stage_of o2 j)"
proof -
  have "optimizer_ok o2 \<and> length (op_proposals o1) \<le> length (op_proposals o2) \<and>
    (\<forall>j < length (op_proposals o1). one_rung (stage_of o1 j) (stage_of o2 j))"
    using assms(1)
  proof cases
    case (st_propose eid name stop change t r)
    obtain x p where o2: "op_registry o2 = dput (op_registry o1) eid x"
        "op_proposals o2 = op_proposals o1 @ [p]"
      and p: "xp_experiment p = eid" "xp_stage p = RESEARCH_STAGE" and x: "ex_decision x = PENDING"
      using st_propose(2) by (auto simp: propose_def register_experiment_def Let_def)
    have old: "xp_experiment q \<noteq> eid" "experiment_fits (op_registry o1) q" if "q \<in> set (op_proposals o1)" for q
      using ok that st_propose(1) by (auto simp: optimizer_ok_def experiment_fits_def dhas_def)
    have "\<forall>q \<in> set (op_proposals o2). experiment_fits (op_registry o2) q"
      using old p x unfolding o2 by (auto simp: experiment_fits_def dict_simps)
    moreover have "distinct (map xp_experiment (op_proposals o2))"
    proof -
      have "eid \<notin> xp_experiment ` set (op_proposals o1)" using old(1) by blast
      then show ?thesis using p(1) ok unfolding o2 by (simp add: optimizer_ok_def)
    qed
    ultimately have "optimizer_ok o2" by (simp add: optimizer_ok_def)
    then show ?thesis using o2(2) by (simp add: stage_of_def nth_append one_rung_def)
  next
    case (st_advance i key v r)
    have fits: "experiment_fits (op_registry o1) (op_proposals o1 ! i)"
      using ok st_advance(1) by (simp add: optimizer_ok_def)
    show ?thesis
    proof (rule advance_cases [OF st_advance(2)], goal_cases)
      case 1
      with ok show ?thesis by (simp add: one_rung_def)
    next
      case (2 p)
      have "experiment_fits (op_registry o1) p"
        using fits 2 by (simp add: experiment_fits_def stage_of_def)
      with 2 ok st_advance(1) show ?thesis
        by (auto simp: stage_of_set one_rung_def set_proposal_eta intro!: optimizer_ok_update)
           (auto simp: set_proposal_eta [symmetric] stage_of_set)
    next
      case (3 p nxt)
      have "experiment_fits (op_registry o1) p"
        using fits 3 by (simp add: experiment_fits_def stage_of_def)
      with 3 ok st_advance(1) show ?thesis
        by (auto simp: stage_of_set one_rung_def set_proposal_eta intro!: optimizer_ok_update)
           (auto simp: set_proposal_eta [symmetric] stage_of_set)
    qed
  next
    case (st_promote i who result t r)
    have fits: "experiment_fits (op_registry o1) (op_proposals o1 ! i)"
      using ok st_promote(1) by (simp add: optimizer_ok_def)
    let ?p = "op_proposals o1 ! i"
    show ?thesis
    proof (rule promote_cases [OF st_promote(2) ok st_promote(1)], goal_cases)
      case 1
      with ok show ?thesis by (simp add: one_rung_def)
    next
      case (2 x)
      let ?g = "dput (op_registry o1) (xp_experiment ?p) (x\<lparr>ex_result := result, ex_end := Some t\<rparr>)"
      have f: "experiment_fits ?g ?p" using fits 2 by (auto simp: experiment_fits_def dict_simps)
      have "optimizer_ok \<lparr>op_registry = ?g, op_proposals = (op_proposals o1)[i := ?p]\<rparr>"
        by (rule optimizer_ok_update [OF ok st_promote(1) refl _ f]) (simp add: dict_simps)
      moreover have "o2 = \<lparr>op_registry = ?g, op_proposals = (op_proposals o1)[i := ?p]\<rparr>" using 2 by simp
      ultimately show ?thesis by (simp add: stage_of_def one_rung_def)
    next
      case (3 x)
      let ?x = "x\<lparr>ex_result := result, ex_end := Some t\<rparr>"
      let ?g = "dput (dput (op_registry o1) (xp_experiment ?p) ?x) (xp_experiment ?p)
        (?x\<lparr>ex_decision := ADOPT, ex_decided_by := who\<rparr>)"
      let ?q = "?p\<lparr>xp_stage := PROMOTED\<rparr>"
      have f: "experiment_fits ?g ?q" using 3 by (auto simp: experiment_fits_def dict_simps)
      have "optimizer_ok \<lparr>op_registry = ?g, op_proposals = (op_proposals o1)[i := ?q]\<rparr>"
        by (rule optimizer_ok_update [OF ok st_promote(1) _ _ f]) (simp_all add: dict_simps)
      moreover have o2: "o2 = \<lparr>op_registry = ?g, op_proposals = (op_proposals o1)[i := ?q]\<rparr>"
        using 3(6) by (simp add: set_proposal_def)
      moreover have "one_rung (stage_of o1 j) (stage_of o2 j)" if "j < length (op_proposals o1)" for j
      proof (cases "j = i")
        case True
        have "one_rung JUDGED PROMOTED" by (simp add: one_rung_def STAGE_ORDER_def)
        with 3(1) that show ?thesis unfolding True by (simp add: o2 stage_of_def)
      qed (simp add: o2 stage_of_def one_rung_def)
      ultimately show ?thesis by (simp add: o2)
    qed
  next
    case (st_reject i reason r)
    let ?p = "op_proposals o1 ! i"
    show ?thesis
    proof (rule reject_result [OF st_reject(2) ok st_reject(1)], goal_cases)
      case (1 x)
      let ?x = "x\<lparr>ex_result := [(''rejected'', RText reason)], ex_end := Some (ex_start x)\<rparr>"
      let ?g = "dput (dput (op_registry o1) (xp_experiment ?p) ?x) (xp_experiment ?p)
        (?x\<lparr>ex_decision := EXP_REJECT, ex_decided_by := ''optimizer''\<rparr>)"
      let ?q = "?p\<lparr>xp_stage := STAGE_REJECTED, xp_reason := reason\<rparr>"
      have f: "experiment_fits ?g ?q" by (auto simp: experiment_fits_def dict_simps)
      have "optimizer_ok \<lparr>op_registry = ?g, op_proposals = (op_proposals o1)[i := ?q]\<rparr>"
        by (rule optimizer_ok_update [OF ok st_reject(1) _ _ f]) (simp_all add: dict_simps)
      moreover have o2: "o2 = \<lparr>op_registry = ?g, op_proposals = (op_proposals o1)[i := ?q]\<rparr>"
        using 1(3) by (simp add: set_proposal_def)
      moreover have "one_rung (stage_of o1 j) (stage_of o2 j)" if "j < length (op_proposals o1)" for j
        using that by (cases "j = i") (simp_all add: o2 stage_of_def one_rung_def)
      ultimately show ?thesis by (simp add: o2)
    qed
  qed
  then show "optimizer_ok o2" "length (op_proposals o1) \<le> length (op_proposals o2)"
    "j < length (op_proposals o1) \<Longrightarrow> one_rung (stage_of o1 j) (stage_of o2 j)" by auto
qed

lemma reachable_ok: "opt_step\<^sup>*\<^sup>* empty_optimizer o1 \<Longrightarrow> optimizer_ok o1"
proof (induction rule: rtranclp_induct)
  case base
  show ?case by (simp add: empty_optimizer_def optimizer_ok_def)
next
  case (step o1 o2)
  show ?case by (rule opt_step_ok(1) [OF step(2,3)])
qed

text \<open>
  C32. Nothing is promoted without the whole ladder and a named human. In every history of the
  optimizer, whether operations succeed or raise: a step moves a proposal by at most one rung of
  the ladder or rejects it, so that only a judged proposal can become promoted; and the
  experiment of a proposal is adopted exactly when the proposal is promoted, in which case it
  names who decided and carries a result.
\<close>

theorem promotion_needs_the_ladder:
  assumes "opt_step\<^sup>*\<^sup>* empty_optimizer o1" and "opt_step o1 o2" and "i < length (op_proposals o1)"
  shows "one_rung (stage_of o1 i) (stage_of o2 i) \<and>
    (stage_of o2 i = PROMOTED \<longrightarrow> stage_of o1 i \<in> {JUDGED, PROMOTED}) \<and>
    (\<exists>x. dget (op_registry o2) (xp_experiment (op_proposals o2 ! i)) = Some x \<and>
      (ex_decision x = ADOPT \<longleftrightarrow> stage_of o2 i = PROMOTED) \<and>
      (ex_decision x = ADOPT \<longrightarrow> ex_decided_by x \<noteq> [] \<and> ex_result x \<noteq> []))"
proof -
  note ok = reachable_ok [OF assms(1)]
  note step = opt_step_ok [OF assms(2) ok]
  have rung: "one_rung (stage_of o1 i) (stage_of o2 i)" by (rule step(3) [OF assms(3)])
  then have "stage_of o2 i = PROMOTED \<longrightarrow> stage_of o1 i \<in> {JUDGED, PROMOTED}"
    by (cases "stage_of o1 i") (auto simp: one_rung_def STAGE_ORDER_def)
  moreover have "experiment_fits (op_registry o2) (op_proposals o2 ! i)"
    using step(1,2) assms(3) by (simp add: optimizer_ok_def)
  ultimately show ?thesis using rung by (simp add: experiment_fits_def stage_of_def)
qed

section \<open>The way up\<close>

lemma advance_climbs:
  assumes "optimizer_ok o1" and "i < length (op_proposals o1)"
    and "next_stage (stage_of o1 i) STAGE_ORDER = Some nxt" and "nxt \<noteq> PROMOTED"
    and "stage_of o1 i \<noteq> STAGE_REJECTED"
  shows "\<exists>o2. opt_step o1 o2 \<and> stage_of o2 i = nxt \<and> i < length (op_proposals o2) \<and> optimizer_ok o2"
proof -
  obtain r o2 where adv: "advance_proposal i ''k'' 0 o1 = (r, o2)" by (cases "advance_proposal i ''k'' 0 o1")
  have step: "opt_step o1 o2" by (rule st_advance [OF assms(2) adv])
  have "stage_of o1 i \<noteq> PROMOTED" using assms(3) by (auto simp: STAGE_ORDER_def)
  with assms adv have "stage_of o2 i = nxt"
    by (auto simp: advance_proposal_def stage_of_def Let_def set_proposal_def)
  with step opt_step_ok [OF step assms(1)] assms(2) show ?thesis by (intro exI [of _ o2]) simp
qed

lemma judged_is_promoted:
  assumes "optimizer_ok o1" and "i < length (op_proposals o1)" and "stage_of o1 i = JUDGED"
  shows "\<exists>o2. opt_step o1 o2 \<and> stage_of o2 i = PROMOTED"
proof -
  let ?res = "[(''r'', RNum 1)]"
  obtain r o2 where pr: "promote_proposal i ''h'' ?res (Aware 0) o1 = (r, o2)"
    by (cases "promote_proposal i ''h'' ?res (Aware 0) o1")
  have "stage_of o2 i = PROMOTED"
    by (rule promote_cases [OF pr assms(1,2)]) (use assms(2,3) in \<open>auto simp: stage_of_def set_proposal_def\<close>)
  with st_promote [OF assms(2) pr] show ?thesis by blast
qed

definition rungs_left :: "exit_stage \<Rightarrow> nat" where
  "rungs_left st = (case st of RESEARCH_STAGE \<Rightarrow> 5 | BACKTEST_STAGE \<Rightarrow> 4 | WALK_FORWARD \<Rightarrow> 3 | SHADOW \<Rightarrow> 2
     | JUDGED \<Rightarrow> 1 | _ \<Rightarrow> 0)"

text \<open>
  C33. The ladder can always be climbed. From every state that the optimizer can reach, each
  proposal that is neither promoted nor rejected can still be promoted, in exactly as many steps
  as there are rungs left, at most five.
\<close>

theorem promotion_is_reachable:
  assumes "opt_step\<^sup>*\<^sup>* empty_optimizer o1" and "i < length (op_proposals o1)"
    and "stage_of o1 i \<notin> {PROMOTED, STAGE_REJECTED}"
  shows "\<exists>o2. (opt_step ^^ rungs_left (stage_of o1 i)) o1 o2 \<and> stage_of o2 i = PROMOTED \<and>
    rungs_left (stage_of o1 i) \<le> 5"
proof -
  have climb: "\<exists>o2. (opt_step ^^ rungs_left (stage_of o1 i)) o1 o2 \<and> stage_of o2 i = PROMOTED"
    if "n = rungs_left (stage_of o1 i)" "optimizer_ok o1" "i < length (op_proposals o1)"
      "stage_of o1 i \<notin> {PROMOTED, STAGE_REJECTED}" for n o1
    using that
  proof (induction n arbitrary: o1)
    case 0
    then show ?case by (cases "stage_of o1 i") (auto simp: rungs_left_def)
  next
    case (Suc n)
    show ?case
    proof (cases "stage_of o1 i = JUDGED")
      case True
      from judged_is_promoted [OF Suc.prems(2,3) True] show ?thesis
        by (auto simp: True rungs_left_def)
    next
      case False
      then obtain nxt where n: "next_stage (stage_of o1 i) STAGE_ORDER = Some nxt" "nxt \<noteq> PROMOTED"
        "nxt \<noteq> STAGE_REJECTED" "rungs_left (stage_of o1 i) = Suc (rungs_left nxt)"
        using Suc.prems(4) by (cases "stage_of o1 i") (auto simp: STAGE_ORDER_def rungs_left_def)
      obtain o2 where o2: "opt_step o1 o2" "stage_of o2 i = nxt" "i < length (op_proposals o2)" "optimizer_ok o2"
        using advance_climbs [OF Suc.prems(2,3) n(1,2)] Suc.prems(4) by auto
      have "n = rungs_left (stage_of o2 i)" using Suc.prems(1) n(4) o2(2) by simp
      from Suc.IH [OF this o2(4,3)] n(2,3) o2(2) obtain o3 where
        "(opt_step ^^ rungs_left nxt) o2 o3" "stage_of o3 i = PROMOTED" by auto
      with o2(1) show ?thesis unfolding n(4) by (blast intro: relpowp_Suc_I2)
    qed
  qed
  have "rungs_left (stage_of o1 i) \<le> 5" by (simp add: rungs_left_def split: exit_stage.splits)
  with climb [OF refl reachable_ok [OF assms(1)] assms(2,3)] show ?thesis by blast
qed

section \<open>Witnesses\<close>

text \<open>One proposal, in research.\<close>

definition demo_optimizer :: optimizer where
  "demo_optimizer = snd (propose ''e1'' ''wider'' ATR ''3x ATR'' (Aware 0) empty_optimizer)"

lemma demo_step: "opt_step empty_optimizer demo_optimizer"
  unfolding demo_optimizer_def
  by (rule st_propose [of _ "''e1''" "''wider''" ATR "''3x ATR''" "Aware 0"])
    (simp_all add: empty_optimizer_def dhas_def prod_eq_iff)

lemma demo_optimizer_simps: "length (op_proposals demo_optimizer) = 1" "stage_of demo_optimizer 0 = RESEARCH_STAGE"
  by (simp_all add: demo_optimizer_def propose_def register_experiment_def empty_optimizer_def
    stage_of_def Let_def)

theorem promotion_needs_the_ladder_witness:
  "stage_of (snd (advance_proposal 0 ''k'' 1 demo_optimizer)) 0 \<noteq> PROMOTED"
proof -
  have reach: "opt_step\<^sup>*\<^sup>* empty_optimizer demo_optimizer" using demo_step by blast
  have "opt_step demo_optimizer (snd (advance_proposal 0 ''k'' 1 demo_optimizer))"
    by (rule st_advance [OF _ surjective_pairing]) (simp add: demo_optimizer_simps)
  from promotion_needs_the_ladder [OF reach this, of 0] show ?thesis
    by (simp add: demo_optimizer_simps)
qed

theorem promotion_is_reachable_witness:
  "\<exists>o2. (opt_step ^^ 5) demo_optimizer o2 \<and> stage_of o2 0 = PROMOTED"
proof -
  have reach: "opt_step\<^sup>*\<^sup>* empty_optimizer demo_optimizer" using demo_step by blast
  show ?thesis
    using promotion_is_reachable [OF reach, of 0] by (auto simp: demo_optimizer_simps rungs_left_def)
qed

end
