(* ===== verification/Decision.thy ===== *)
theory Decision
  imports Sizing Governance
begin

text \<open>
  \<open>services/decision\<close> without the language-model clients: the schema gate in front of the
  decision model, the deterministic decision and skeptic models the paper system runs on,
  confidence calibration (\<open>models.py\<close>), the final trade thesis (\<open>thesis.py\<close>), model disagreement
  (\<open>disagreement.py\<close>), the forecast tracker (\<open>forecast.py\<close>), human intents and overrides
  (\<open>human_intent.py\<close>) and the monitor (\<open>monitor.py\<close>, \<open>packages/schemas/monitor.py\<close>). The texts
  that a format string makes of a number are parameters; random ids are arguments.
\<close>

section \<open>The decision model behind its schema\<close>

definition DECISION_VERSION :: string where
  "DECISION_VERSION = ''1.0.0''"

text \<open>\<open>validate_decision\<close>: a raw answer is a decision only if the schema accepts it.\<close>

definition validate_decision :: "pyfloat decision_output \<Rightarrow> exn + real decision_output" where
  "validate_decision raw =
     (case mk_decision_output raw of
        Inl e \<Rightarrow> Inl (if e = ValidationError then MalformedDecisionError else e)
      | Inr d \<Rightarrow> Inr d)"

text \<open>Format strings: \<open>.1%\<close>, \<open>.2%\<close> and \<open>,.0f\<close>.\<close>

record texts =
  tx_pct1 :: "real \<Rightarrow> string"
  tx_pct2 :: "real \<Rightarrow> string"
  tx_money :: "real \<Rightarrow> string"

definition mock_action :: "scan_result \<Rightarrow> decision_action" where
  "mock_action s =
     (let buy = (2/100 < sr_momentum s \<and> sr_volatility s < 5/100)
      in if buy then D_BUY else if 2/100 < sr_momentum s then D_WAIT else D_NO_TRADE)"

definition mock_decide :: "texts \<Rightarrow> scan_result \<Rightarrow> pyfloat decision_output" where
  "mock_decide tx s =
     (let px = sr_close s;
          case_of = (\<lambda>text f p. \<lparr>sc_description = text, sc_target = Fin (py_round 4 (px * f)), sc_prob = Fin p\<rparr>)
      in \<lparr>do_symbol = sr_symbol s,
          do_action = mock_action s,
          do_confidence = Fin (min (9/10) (1/2 + sr_score s / 100)),
          do_horizon = ''1w'',
          do_range = (Fin (- 5/100), Fin (10/100)),
          do_bull = case_of (''momentum continuation (+'' @ tx_pct1 tx (sr_momentum s) @ ''/20d)'') (110/100) (30/100),
          do_base = case_of ''drift with market'' (102/100) (50/100),
          do_bear = case_of ''momentum reversal'' (94/100) (20/100),
          do_key_evidence = [''20d momentum '' @ tx_pct2 tx (sr_momentum s),
                             ''dollar volume '' @ tx_money tx (sr_dollar_volume s)],
          do_counter_evidence = [''momentum is a crowded factor''],
          do_risk_factors = [''gap risk'', ''regime shift''],
          do_invalidation = [''close below 20d low'', ''volume collapse''],
          do_unknowns = [''earnings timing not checked in V1''],
          do_version = DECISION_VERSION\<rparr>)"

definition mk_skeptic_output :: "skeptic_output \<Rightarrow> exn + skeptic_output" where
  "mk_skeptic_output k = (if 0 \<le> sk_severity k \<and> sk_severity k \<le> 1 then Inr k else Inl ValidationError)"

definition mock_critique :: "texts \<Rightarrow> real decision_output \<Rightarrow> scan_result \<Rightarrow> exn + skeptic_output" where
  "mock_critique tx d s =
     (let volatile = 4/100 < sr_volatility s; extreme = 30/100 < sr_momentum s;
          objections = (if volatile then [''volatility '' @ tx_pct2 tx (sr_volatility s) @ '' is elevated''] else [])
            @ (if extreme then [''momentum this extreme mean-reverts''] else []);
          severity = 2/10 + (if volatile then 2/10 else 0) + (if extreme then 3/10 else 0)
      in mk_skeptic_output
           \<lparr>sk_symbol = do_symbol d,
            sk_objections = (if objections = [] then [''no strong objection; base rates still apply''] else objections),
            sk_severity = min 1 severity,
            sk_veto = (7/10 \<le> severity),
            sk_family = ''mock-skeptic-family''\<rparr>)"

section \<open>Calibration\<close>

type_synonym calibration = "(real \<times> bool) list"

definition record_outcome :: "calibration \<Rightarrow> real \<Rightarrow> bool \<Rightarrow> calibration" where
  "record_outcome c predicted outcome_win = c @ [(predicted, outcome_win)]"

definition calibrate :: "calibration \<Rightarrow> real \<Rightarrow> real" where
  "calibrate c predicted =
     (if length c < 20 then 1/2 + (predicted - 1/2) * (1/2)
      else let wins = map snd (filter (\<lambda>(p, w). \<bar>p - predicted\<bar> < 15/100) c) in
        if wins = [] then 1/2
        else let hit_rate = real (length (filter id wins)) / real (length wins)
             in max 0 (min 1 hit_rate))"

section \<open>The final trade thesis\<close>

definition compute_disagreement_score :: "real decision_output \<Rightarrow> skeptic_output \<Rightarrow> real" where
  "compute_disagreement_score d k =
     py_round 6 (max 0 (min 1 (sk_severity k * (1/2 + 1/2 * do_confidence d))))"

definition build_final_trade_thesis ::
    "string \<Rightarrow> trade_proposal \<Rightarrow> string \<Rightarrow> string \<Rightarrow> exn + final_trade_thesis" where
  "build_final_trade_thesis uuid p decision_id skeptic_id =
     (case tp_skeptic p of
        None \<Rightarrow> Inl ValueError
      | Some k \<Rightarrow> mk_final_trade_thesis
          \<lparr>th_id = uuid, th_decision_id = decision_id, th_skeptic_id = skeptic_id,
           th_disagreement = compute_disagreement_score (tp_decision p) k, th_proposal = p,
           th_created = tp_created p\<rparr>)"

section \<open>Model disagreement\<close>

record disagreement_reading =
  dr_symbol :: string
  dr_views :: "(string, real) dict"
  dr_mean :: real
  dr_disagreement :: real

definition risk_multiplier :: "disagreement_reading \<Rightarrow> real" where
  "risk_multiplier r = 1 - 1/2 * dr_disagreement r"

definition clip1 :: "real \<Rightarrow> real" where
  "clip1 v = max (- 1) (min 1 v)"

definition measure_views :: "string \<Rightarrow> (string, real) dict \<Rightarrow> exn + disagreement_reading" where
  "measure_views symbol views =
     (if views = [] then Inl ValueError
      else let vals = map clip1 (dvals views); m = mean vals;
               mad = (\<Sum>v\<leftarrow>vals. \<bar>v - m\<bar>) / real (length vals)
           in Inr \<lparr>dr_symbol = symbol, dr_views = views, dr_mean = m, dr_disagreement = min 1 mad\<rparr>)"

section \<open>Forecasts\<close>

definition FORECAST_HORIZONS :: "(string, int) dict" where
  "FORECAST_HORIZONS = [(''1d'', days_us), (''1w'', 7 * days_us), (''1m'', 30 * days_us),
     (''3m'', 91 * days_us), (''6m'', 182 * days_us)]"

record forecast =
  fc_symbol :: string
  fc_made :: pydt
  fc_horizon :: string
  fc_price :: real
  fc_bear :: "real scenario_case"
  fc_base :: "real scenario_case"
  fc_bull :: "real scenario_case"
  fc_model :: string
  fc_resolved :: bool
  fc_actual :: "real option"
  fc_case :: "string option"

definition forecast_total :: "forecast \<Rightarrow> real" where
  "forecast_total f = sc_prob (fc_bear f) + sc_prob (fc_base f) + sc_prob (fc_bull f)"

definition mk_forecast :: "forecast \<Rightarrow> exn + forecast" where
  "mk_forecast f =
     (if \<not> dhas FORECAST_HORIZONS (fc_horizon f) then Inl ValueError
      else if \<not> (99/100 \<le> forecast_total f \<and> forecast_total f \<le> 101/100) then Inl ValueError
      else Inr f)"

definition due_at :: "forecast \<Rightarrow> exn + instant" where
  "due_at f =
     (case ensure_utc (fc_made f) of Inl e \<Rightarrow> Inl e | Inr t \<Rightarrow>
      case dget FORECAST_HORIZONS (fc_horizon f) of None \<Rightarrow> Inl KeyError | Some d \<Rightarrow> Inr (t + d))"

definition fc_cases :: "forecast \<Rightarrow> (string \<times> real scenario_case) list" where
  "fc_cases f = [(''bear'', fc_bear f), (''base'', fc_base f), (''bull'', fc_bull f)]"

text \<open>\<open>min(cases, key=...)\<close> takes the first of equal distances.\<close>

fun nearest :: "real \<Rightarrow> (string \<times> real scenario_case) \<Rightarrow> (string \<times> real scenario_case) list \<Rightarrow> string" where
  "nearest actual best [] = fst best"
| "nearest actual best (c # cs) =
     (if \<bar>sc_target (snd c) - actual\<bar> < \<bar>sc_target (snd best) - actual\<bar>
      then nearest actual c cs else nearest actual best cs)"

definition realized_case :: "forecast \<Rightarrow> real \<Rightarrow> string" where
  "realized_case f actual = nearest actual (hd (fc_cases f)) (tl (fc_cases f))"

definition resolve_one :: "(string \<Rightarrow> instant \<Rightarrow> real) \<Rightarrow> instant \<Rightarrow> forecast \<Rightarrow> forecast" where
  "resolve_one price_fn due f =
     (let actual = price_fn (fc_symbol f) due
      in f\<lparr>fc_actual := Some actual, fc_case := Some (realized_case f actual), fc_resolved := True\<rparr>)"

text \<open>The loop of \<open>resolve_due\<close>; the list is the tracker, the result the number resolved.\<close>

fun resolve_loop :: "(string \<Rightarrow> instant \<Rightarrow> real) \<Rightarrow> instant \<Rightarrow> (forecast list, nat) act" where
  "resolve_loop price_fn now [] = (Inr 0, [])"
| "resolve_loop price_fn now (f # fs) =
     (if fc_resolved f
      then (case resolve_loop price_fn now fs of (r, fs') \<Rightarrow> (r, f # fs'))
      else case due_at f of
        Inl e \<Rightarrow> (Inl e, f # fs)
      | Inr due \<Rightarrow>
          if now < due then (case resolve_loop price_fn now fs of (r, fs') \<Rightarrow> (r, f # fs'))
          else (case resolve_loop price_fn now fs of
                  (Inl e, fs') \<Rightarrow> (Inl e, resolve_one price_fn due f # fs')
                | (Inr n, fs') \<Rightarrow> (Inr (n + 1), resolve_one price_fn due f # fs')))"

definition resolve_due :: "pydt \<Rightarrow> (string \<Rightarrow> instant \<Rightarrow> real) \<Rightarrow> (forecast list, nat) act" where
  "resolve_due a_t price_fn fs =
     (case ensure_utc a_t of Inl e \<Rightarrow> (Inl e, fs) | Inr now \<Rightarrow> resolve_loop price_fn now fs)"

record case_calibration =
  kc_predicted :: real
  kc_realized :: real
  kc_gap :: real

definition calibrate_case :: "forecast list \<Rightarrow> string \<Rightarrow> (forecast \<Rightarrow> real scenario_case) \<Rightarrow> case_calibration" where
  "calibrate_case resolved name get =
     (let n = real (length resolved);
          predicted = (\<Sum>f\<leftarrow>resolved. sc_prob (get f)) / n;
          realized = real (length (filter (\<lambda>f. fc_case f = Some name) resolved)) / n
      in \<lparr>kc_predicted = py_round 4 predicted, kc_realized = py_round 4 realized,
          kc_gap = py_round 4 (realized - predicted)\<rparr>)"

definition calibration_report :: "forecast list \<Rightarrow> (string, case_calibration) dict" where
  "calibration_report fs =
     (let resolved = filter fc_resolved fs in
      if resolved = [] then []
      else [(''bear'', calibrate_case resolved ''bear'' fc_bear),
            (''base'', calibrate_case resolved ''base'' fc_base),
            (''bull'', calibrate_case resolved ''bull'' fc_bull)])"

section \<open>Human intents\<close>

datatype intent_action = WANT_BUY | WANT_SELL

record human_intent =
  hi_symbol :: string
  hi_action :: intent_action
  hi_reason :: string
  hi_at :: instant

record manual_analysis =
  ma_symbol :: string
  ma_price :: real
  ma_quant :: "(string, real) dict"
  ma_headlines :: "string list"
  ma_regime :: string
  ma_exposure :: real
  ma_forecast :: "(string, real scenario_case) dict"
  ma_horizons :: "string list"

definition analyze_intent ::
    "human_intent \<Rightarrow> scan_result \<Rightarrow> string \<Rightarrow> string list \<Rightarrow> real \<Rightarrow> exn + manual_analysis" where
  "analyze_intent i s rg headlines exposure =
     (let px = sr_close s;
          mk = (\<lambda>text f p. mk_scenario_case \<lparr>sc_description = text, sc_target = Fin (px * f), sc_prob = Fin p\<rparr>)
      in case mk ''downside'' (92/100) (25/100) of Inl e \<Rightarrow> Inl e | Inr bear \<Rightarrow>
         case mk ''base drift'' (102/100) (50/100) of Inl e \<Rightarrow> Inl e | Inr base \<Rightarrow>
         case mk ''upside'' (112/100) (25/100) of Inl e \<Rightarrow> Inl e | Inr bull \<Rightarrow>
           Inr \<lparr>ma_symbol = hi_symbol i, ma_price = px,
                ma_quant = [(''momentum_20d'', sr_momentum s), (''volatility'', sr_volatility s),
                            (''dollar_volume'', sr_dollar_volume s)],
                ma_headlines = headlines, ma_regime = rg, ma_exposure = exposure,
                ma_forecast = [(''bear'', bear), (''base'', base), (''bull'', bull)],
                ma_horizons = [''1d'', ''1w'', ''1m'', ''3m'', ''6m'']\<rparr>)"

definition to_raw_case :: "real scenario_case \<Rightarrow> pyfloat scenario_case" where
  "to_raw_case c = \<lparr>sc_description = sc_description c, sc_target = Fin (sc_target c), sc_prob = Fin (sc_prob c)\<rparr>"

definition human_decision ::
    "human_intent \<Rightarrow> real scenario_case \<Rightarrow> real scenario_case \<Rightarrow> real scenario_case \<Rightarrow> exn + real decision_output" where
  "human_decision i bull base bear =
     mk_decision_output
       \<lparr>do_symbol = hi_symbol i,
        do_action = (if hi_action i = WANT_BUY then D_BUY else D_SELL),
        do_confidence = Fin (1/2), do_horizon = ''1w'', do_range = (Fin (- 8/100), Fin (12/100)),
        do_bull = to_raw_case bull, do_base = to_raw_case base, do_bear = to_raw_case bear,
        do_key_evidence = [''human intent: '' @ hi_reason i], do_counter_evidence = [],
        do_risk_factors = [''human discretionary trade''],
        do_invalidation = [''human changes mind'', ''thesis invalidated''],
        do_unknowns = [''human rationale not modeled''], do_version = ''human-1.0''\<rparr>"

definition to_proposal ::
    "string \<Rightarrow> human_intent \<Rightarrow> manual_analysis \<Rightarrow> instant \<Rightarrow> exn + trade_proposal" where
  "to_proposal uuid i a t =
     (case (dget (ma_forecast a) ''bull'', dget (ma_forecast a) ''base'', dget (ma_forecast a) ''bear'') of
        (Some bull, Some base, Some bear) \<Rightarrow>
          (case human_decision i bull base bear of Inl e \<Rightarrow> Inl e | Inr d \<Rightarrow>
           case to_order_side (do_action d) of Inl e \<Rightarrow> Inl e | Inr side \<Rightarrow>
             mk_trade_proposal \<lparr>tp_id = uuid, tp_symbol = hi_symbol i, tp_side = side,
               tp_source = FROM_HUMAN, tp_decision = d, tp_skeptic = None, tp_created = t\<rparr>)
      | _ \<Rightarrow> Inl KeyError)"

record override_record =
  ov_symbol :: string
  ov_at :: instant
  ov_ai :: decision_action
  ov_human :: decision_action
  ov_ai_pnl :: "real option"
  ov_human_pnl :: "real option"

text \<open>\<open>summary()\<close>; the win rate is only reported when an override is resolved.\<close>

record override_summary =
  os_overrides :: nat
  os_resolved :: nat
  os_value_added :: real
  os_win_rate :: "real option"
  os_candidate :: bool

definition record_override :: "override_record \<Rightarrow> override_record list \<Rightarrow> override_record list" where
  "record_override r rs = rs @ [r]"

definition override_summary_of :: "override_record list \<Rightarrow> override_summary" where
  "override_summary_of rs =
     (let resolved = filter (\<lambda>r. ov_ai_pnl r \<noteq> None \<and> ov_human_pnl r \<noteq> None) rs;
          n = length resolved;
          delta = (\<Sum>r\<leftarrow>resolved. the_or0 (ov_human_pnl r) - the_or0 (ov_ai_pnl r));
          wins = length (filter (\<lambda>r. the_or0 (ov_ai_pnl r) < the_or0 (ov_human_pnl r)) resolved);
          rate = real wins / real n
      in if resolved = []
         then \<lparr>os_overrides = length rs, os_resolved = 0, os_value_added = 0, os_win_rate = None,
               os_candidate = False\<rparr>
         else \<lparr>os_overrides = length rs, os_resolved = n, os_value_added = py_round 6 delta,
               os_win_rate = Some rate, os_candidate = (10 \<le> n \<and> 6/10 < rate)\<rparr>)"

section \<open>The monitor\<close>

datatype recommendation = CONTINUE_MONITORING | NOTIFY | QUEUE_HUMAN_REVIEW | ESCALATE_SAFE_EXIT

fun recommendation_value :: "recommendation \<Rightarrow> string" where
  "recommendation_value CONTINUE_MONITORING = ''CONTINUE_MONITORING''"
| "recommendation_value NOTIFY = ''NOTIFY''"
| "recommendation_value QUEUE_HUMAN_REVIEW = ''QUEUE_HUMAN_REVIEW''"
| "recommendation_value ESCALATE_SAFE_EXIT = ''ESCALATE_SAFE_EXIT''"

definition parse_recommendation :: "string \<Rightarrow> recommendation option" where
  "parse_recommendation s =
     find (\<lambda>r. recommendation_value r = s) [CONTINUE_MONITORING, NOTIFY, QUEUE_HUMAN_REVIEW, ESCALATE_SAFE_EXIT]"

text \<open>The texts of findings are tags; a text that a model writes is \<open>Note\<close>.\<close>

datatype finding = Unhealthy "(string \<times> service_status) list" | SafeModeDrawdown real
  | ElevatedDrawdown real | RiskStateNot string | NearMissSeen string | NoAnomaly
  | ReviewUnavailable | ReviewMalformed | Note string

record ('f, 'r) monitor_output =
  mo_id :: string
  mo_at :: pydt
  mo_services :: "string list"
  mo_findings :: "finding list"
  mo_severity :: 'f
  mo_recommendation :: 'r
  mo_model :: string
  mo_family :: string

type_synonym raw_monitor = "(pyfloat, string) monitor_output"
type_synonym monitor_verdict = "(real, recommendation) monitor_output"

definition validate_monitor_output :: "raw_monitor \<Rightarrow> exn + monitor_verdict" where
  "validate_monitor_output raw =
     (case parse_recommendation (mo_recommendation raw) of
        None \<Rightarrow> Inl MalformedMonitorError
      | Some r \<Rightarrow>
         (if in_unit (mo_severity raw)
          then Inr \<lparr>mo_id = mo_id raw, mo_at = mo_at raw, mo_services = mo_services raw,
                    mo_findings = mo_findings raw, mo_severity = fval (mo_severity raw),
                    mo_recommendation = r, mo_model = mo_model raw, mo_family = mo_family raw\<rparr>
          else Inl MalformedMonitorError))"

record monitor_context =
  mn_now :: pydt
  mn_heartbeats :: "(string, service_status) dict"
  mn_risk_state :: string
  mn_drawdown :: real
  mn_positions :: "(string, real) dict"
  mn_near_misses :: "string list"

definition anomaly_present :: "monitor_context \<Rightarrow> real \<Rightarrow> bool" where
  "anomaly_present c review_at \<longleftrightarrow>
     list_ex (\<lambda>s. s \<noteq> HB_OK) (dvals (mn_heartbeats c)) \<or> review_at \<le> mn_drawdown c
     \<or> mn_risk_state c \<noteq> ''NORMAL'' \<or> mn_near_misses c \<noteq> []"

text \<open>The findings and the severity, in the order the mock collects them.\<close>

definition health_finding :: "monitor_context \<Rightarrow> (finding \<times> real) list" where
  "health_finding c =
     (let bad = filter (\<lambda>(s, st). st \<noteq> HB_OK) (mn_heartbeats c) in
      if bad = [] then []
      else [(Unhealthy (sort_key fst bad), if HB_ERROR \<in> set (map snd bad) then 9/10 else 1/2)])"

definition drawdown_finding :: "monitor_context \<Rightarrow> (finding \<times> real) list" where
  "drawdown_finding c =
     (if 30/100 \<le> mn_drawdown c then [(SafeModeDrawdown (mn_drawdown c), 1)]
      else if 20/100 \<le> mn_drawdown c then [(ElevatedDrawdown (mn_drawdown c), 6/10)] else [])"

definition state_finding :: "monitor_context \<Rightarrow> (finding \<times> real) list" where
  "state_finding c =
     (if mn_risk_state c \<noteq> ''NORMAL'' then [(RiskStateNot (mn_risk_state c), 7/10)] else [])"

definition mock_findings :: "monitor_context \<Rightarrow> (finding \<times> real) list" where
  "mock_findings c =
     health_finding c @ drawdown_finding c @ state_finding c @
     map (\<lambda>nm. (NearMissSeen nm, 4/10)) (mn_near_misses c)"

definition mock_review :: "string \<Rightarrow> monitor_context \<Rightarrow> exn + raw_monitor" where
  "mock_review uuid c =
     (let found = mock_findings c; severity = fold (\<lambda>(_, s) m. max m s) found 0;
          r = (if found = [] then CONTINUE_MONITORING
               else if 9/10 \<le> severity then ESCALATE_SAFE_EXIT
               else if 1/2 \<le> severity then QUEUE_HUMAN_REVIEW else NOTIFY)
      in Inr \<lparr>mo_id = uuid, mo_at = mn_now c, mo_services = sort (dkeys (mn_heartbeats c)),
           mo_findings = (if found = [] then [NoAnomaly] else map fst found),
             mo_severity = Fin severity, mo_recommendation = recommendation_value r,
             mo_model = ''mock-monitor'', mo_family = ''mock-monitor-family''\<rparr>)"

text \<open>
  \<open>MonitorSupervisor.review\<close> around any model: \<open>name\<close> and \<open>family\<close> are its attributes.
\<close>

definition fallback_verdict ::
    "string \<Rightarrow> instant \<Rightarrow> monitor_context \<Rightarrow> finding \<Rightarrow> real \<Rightarrow> string \<Rightarrow> string \<Rightarrow> monitor_verdict" where
  "fallback_verdict uuid now c f severity name family =
     \<lparr>mo_id = uuid, mo_at = Aware now, mo_services = sort (dkeys (mn_heartbeats c)), mo_findings = [f],
      mo_severity = severity, mo_recommendation = QUEUE_HUMAN_REVIEW, mo_model = name, mo_family = family\<rparr>"

definition supervise ::
    "string \<Rightarrow> string \<Rightarrow> string \<Rightarrow> (monitor_context \<Rightarrow> exn + raw_monitor) \<Rightarrow> monitor_context \<Rightarrow> exn + monitor_verdict" where
  "supervise uuid name family model c =
     (case ensure_utc (mn_now c) of Inl e \<Rightarrow> Inl e | Inr now \<Rightarrow>
      case model c of
        Inl e \<Rightarrow> Inr (fallback_verdict uuid now c ReviewUnavailable (7/10) name family)
      | Inr raw \<Rightarrow>
         (case validate_monitor_output raw of
            Inr v \<Rightarrow> Inr v
          | Inl e \<Rightarrow> if e = MalformedMonitorError
                    then Inr (fallback_verdict uuid now c ReviewMalformed (6/10) name family)
                    else Inl e))"

section \<open>Bounds of the scores\<close>

lemma calibrate_bounds:
  assumes "0 \<le> p" and "p \<le> 1"
  shows "0 \<le> calibrate c p" and "calibrate c p \<le> 1"
  using assms by (simp_all add: calibrate_def Let_def field_simps)

text \<open>Without a history a confidence moves half way to one half.\<close>

lemma calibrate_shrinks: "length c < 20 \<Longrightarrow> \<bar>calibrate c p - 1/2\<bar> = \<bar>p - 1/2\<bar> / 2"
  by (simp add: calibrate_def)

lemma disagreement_score_bounds:
  "0 \<le> compute_disagreement_score d k" "compute_disagreement_score d k \<le> 1"
  by (simp_all add: compute_disagreement_score_def py_round_nonneg py_round_le_1)

lemma thesis_needs_critique:
  "build_final_trade_thesis u p d k = Inr t \<Longrightarrow> tp_skeptic p \<noteq> None \<and> th_proposal t = p"
  by (auto simp: build_final_trade_thesis_def mk_final_trade_thesis_def split: option.splits if_splits)

lemma clip1_bounds: "- 1 \<le> clip1 v" "clip1 v \<le> 1"
  by (simp_all add: clip1_def)

text \<open>Views that agree show no disagreement, and only those.\<close>

lemma measure_views_bounds:
  assumes "measure_views symbol views = Inr r"
  shows "- 1 \<le> dr_mean r" and "dr_mean r \<le> 1" and "0 \<le> dr_disagreement r"
    and "dr_disagreement r \<le> 1" and "1/2 \<le> risk_multiplier r" and "risk_multiplier r \<le> 1"
    and "dr_disagreement r = 0 \<longleftrightarrow> (\<forall>v \<in> set (dvals views). clip1 v = dr_mean r)"
proof -
  let ?vals = "map clip1 (dvals views)"
  let ?mad = "(\<Sum>v\<leftarrow>?vals. \<bar>v - mean ?vals\<bar>) / real (length ?vals)"
  from assms have ne: "?vals \<noteq> []" and r: "dr_mean r = mean ?vals" "dr_disagreement r = min 1 ?mad"
    by (auto simp: measure_views_def Let_def dvals_def split: if_splits)
  show "- 1 \<le> dr_mean r" "dr_mean r \<le> 1"
    unfolding r(1) by (rule mean_ge [OF ne], auto simp: clip1_bounds) (rule mean_le [OF ne], auto simp: clip1_bounds)
  have nn: "0 \<le> (\<Sum>v\<leftarrow>?vals. \<bar>v - mean ?vals\<bar>)" by (rule sum_list_nonneg) auto
  then show b: "0 \<le> dr_disagreement r" "dr_disagreement r \<le> 1" unfolding r(2) by simp_all
  then show "1/2 \<le> risk_multiplier r" "risk_multiplier r \<le> 1" by (simp_all add: risk_multiplier_def)
  have "(\<Sum>v\<leftarrow>?vals. \<bar>v - mean ?vals\<bar>) = 0 \<longleftrightarrow> (\<forall>v \<in> set ?vals. v = mean ?vals)"
    by (subst sum_list_nonneg_eq_0_iff) auto
  moreover have "dr_disagreement r = 0 \<longleftrightarrow> (\<Sum>v\<leftarrow>?vals. \<bar>v - mean ?vals\<bar>) = 0"
    using ne nn unfolding r(2) by (auto simp: min_def)
  ultimately show "dr_disagreement r = 0 \<longleftrightarrow> (\<forall>v \<in> set (dvals views). clip1 v = dr_mean r)"
    by (simp add: r(1))
qed

section \<open>Human intents take the same road\<close>

text \<open>A human proposal passes the schema of every other and is on the side of the intent.\<close>

lemma human_proposal_is_checked:
  assumes "analyze_intent i s rg headlines exposure = Inr a" and "to_proposal uuid i a t = Inr p"
  shows "mk_trade_proposal p = Inr p \<and> tp_source p = FROM_HUMAN \<and> tp_skeptic p = None \<and>
    tp_symbol p = hi_symbol i \<and> do_confidence (tp_decision p) = 1/2 \<and>
    (tp_side p = BUY \<longleftrightarrow> hi_action i = WANT_BUY)"
  using assms(2)
  by (cases "hi_action i")
    (auto simp: to_proposal_def human_decision_def mk_decision_output_def to_order_side_def
      is_order_def mk_trade_proposal_def Let_def split: option.splits sum.splits if_splits)

lemma override_summary_resolved: "os_resolved (override_summary_of rs) \<le> os_overrides (override_summary_of rs)"
  by (simp add: override_summary_of_def Let_def)

section \<open>Forecasts\<close>

lemma nearest_minimal:
  "\<exists>c \<in> set (best # cs). fst c = nearest a best cs \<and>
    (\<forall>x \<in> set (best # cs). \<bar>sc_target (snd c) - a\<bar> \<le> \<bar>sc_target (snd x) - a\<bar>)"
proof (induction cs arbitrary: best)
  case Nil
  then show ?case by simp
next
  case (Cons d cs)
  show ?case
  proof (cases "\<bar>sc_target (snd d) - a\<bar> < \<bar>sc_target (snd best) - a\<bar>")
    case True
    obtain c where "c \<in> set (d # cs)" "fst c = nearest a d cs"
      "\<forall>x \<in> set (d # cs). \<bar>sc_target (snd c) - a\<bar> \<le> \<bar>sc_target (snd x) - a\<bar>"
      using Cons.IH by blast
    with True show ?thesis by (intro bexI [of _ c]) fastforce+
  next
    case False
    obtain c where "c \<in> set (best # cs)" "fst c = nearest a best cs"
      "\<forall>x \<in> set (best # cs). \<bar>sc_target (snd c) - a\<bar> \<le> \<bar>sc_target (snd x) - a\<bar>"
      using Cons.IH by blast
    with False show ?thesis by (intro bexI [of _ c]) fastforce+
  qed
qed

text \<open>The scenario a price is graded as is one whose target is nearest to it.\<close>

definition graded_right :: "forecast \<Rightarrow> bool" where
  "graded_right f \<longleftrightarrow> fc_resolved f \<and> (\<exists>actual name c. fc_actual f = Some actual \<and> fc_case f = Some name \<and>
     (name, c) \<in> set (fc_cases f) \<and>
     (\<forall>x \<in> set (fc_cases f). \<bar>sc_target c - actual\<bar> \<le> \<bar>sc_target (snd x) - actual\<bar>))"

lemma resolve_one_graded: "graded_right (resolve_one pf due f)"
proof -
  let ?a = "pf (fc_symbol f) due"
  obtain c where c: "c \<in> set (fc_cases f)" "fst c = realized_case f ?a"
    "\<forall>x \<in> set (fc_cases f). \<bar>sc_target (snd c) - ?a\<bar> \<le> \<bar>sc_target (snd x) - ?a\<bar>"
    using nearest_minimal [of "hd (fc_cases f)" "tl (fc_cases f)" ?a]
    unfolding realized_case_def by (auto simp only: fc_cases_def list.sel)
  have same: "fc_cases (resolve_one pf due f) = fc_cases f"
    by (simp add: fc_cases_def resolve_one_def Let_def)
  have "(realized_case f ?a, snd c) \<in> set (fc_cases f)" using c(1,2) by (metis prod.collapse)
  with c(3) have "\<exists>name c. Some (realized_case f ?a) = Some name \<and> (name, c) \<in> set (fc_cases f) \<and>
      (\<forall>x \<in> set (fc_cases f). \<bar>sc_target c - ?a\<bar> \<le> \<bar>sc_target (snd x) - ?a\<bar>)" by blast
  then show ?thesis
    unfolding graded_right_def same by (simp add: resolve_one_def Let_def)
qed

definition matured :: "instant \<Rightarrow> forecast \<Rightarrow> bool" where
  "matured now f \<longleftrightarrow> (\<exists>due. due_at f = Inr due \<and> due \<le> now)"

lemma resolve_loop_spec:
  "resolve_loop pf now fs = (Inr n, fs') \<Longrightarrow>
    n = length (filter (\<lambda>f. \<not> fc_resolved f \<and> matured now f) fs) \<and>
    list_all2 (\<lambda>f f'. if fc_resolved f \<or> \<not> matured now f then f' = f else graded_right f' \<and>
      fc_symbol f' = fc_symbol f \<and> fc_made f' = fc_made f \<and> fc_cases f' = fc_cases f) fs fs' \<and>
    resolve_loop pf' now fs' = (Inr 0, fs')"
proof (induction fs arbitrary: n fs')
  case Nil
  then show ?case by simp
next
  case (Cons f fs)
  obtain r ds where rest: "resolve_loop pf now fs = (r, ds)" by (cases "resolve_loop pf now fs")
  show ?case
  proof (cases "fc_resolved f")
    case True
    with Cons.prems rest have "r = Inr n" "fs' = f # ds" by auto
    with Cons.IH [of n ds] rest True show ?thesis by simp
  next
    case nr: False
    then obtain due where due: "due_at f = Inr due" using Cons.prems by (auto split: sum.splits)
    show ?thesis
    proof (cases "now < due")
      case True
      with Cons.prems rest nr due have "r = Inr n" "fs' = f # ds" by auto
      with Cons.IH [of n ds] rest nr due True show ?thesis by (simp add: matured_def)
    next
      case False
      with Cons.prems rest nr due obtain m where m: "r = Inr m" "n = m + 1"
        "fs' = resolve_one pf due f # ds" by (auto split: sum.splits)
      have "fc_resolved (resolve_one pf due f)" by (simp add: resolve_one_def Let_def)
      moreover have "fc_symbol (resolve_one pf due f) = fc_symbol f \<and> fc_made (resolve_one pf due f) = fc_made f
          \<and> fc_cases (resolve_one pf due f) = fc_cases f"
        by (simp add: resolve_one_def Let_def fc_cases_def)
      ultimately show ?thesis
        using Cons.IH [of m ds] rest nr due False m resolve_one_graded [of pf due f]
        by (simp add: matured_def)
    qed
  qed
qed

text \<open>
  Forecasts are graded exactly once. Resolving the tracker grades every matured forecast
  that was open, and only those; each gets as its outcome a scenario whose target is nearest to
  the price observed at its due time, the reported number counts them, and a second run at the
  same time grades nothing, whatever prices it is given.
\<close>

theorem forecasts_are_graded_once:
  assumes "resolve_due (Aware now) pf fs = (Inr n, fs')"
  shows "n = length (filter (\<lambda>f. \<not> fc_resolved f \<and> matured now f) fs) \<and>
    list_all2 (\<lambda>f f'. if fc_resolved f \<or> \<not> matured now f then f' = f else graded_right f' \<and>
      fc_symbol f' = fc_symbol f \<and> fc_made f' = fc_made f \<and> fc_cases f' = fc_cases f) fs fs' \<and>
    resolve_due (Aware now) pf' fs' = (Inr 0, fs')"
  using assms resolve_loop_spec [of pf now fs n fs' pf'] by (simp add: resolve_due_def)

definition demo_forecast :: forecast where
  "demo_forecast = \<lparr>fc_symbol = ''X'', fc_made = Aware 0, fc_horizon = ''1d'', fc_price = 100,
     fc_bear = \<lparr>sc_description = [], sc_target = 90, sc_prob = 1/4\<rparr>,
     fc_base = \<lparr>sc_description = [], sc_target = 102, sc_prob = 1/2\<rparr>,
     fc_bull = \<lparr>sc_description = [], sc_target = 112, sc_prob = 1/4\<rparr>,
     fc_model = ''m'', fc_resolved = False, fc_actual = None, fc_case = None\<rparr>"

lemma forecasts_are_graded_once_witness:
  "\<exists>f. resolve_due (Aware days_us) (\<lambda>_ _. 110) [demo_forecast] = (Inr 1, [f]) \<and>
    fc_case f = Some ''bull'' \<and> resolve_due (Aware days_us) (\<lambda>_ _. 5) [f] = (Inr 0, [f])"
proof -
  let ?f = "resolve_one (\<lambda>_ _. 110) days_us demo_forecast"
  have run: "resolve_due (Aware days_us) (\<lambda>_ _. 110) [demo_forecast] = (Inr 1, [?f])"
    by (simp add: resolve_due_def due_at_def FORECAST_HORIZONS_def demo_forecast_def)
  have "fc_case ?f = Some ''bull''"
    by (simp add: resolve_one_def realized_case_def fc_cases_def demo_forecast_def)
  then show ?thesis
    using run forecasts_are_graded_once [OF run, of "\<lambda>_ _. 5"] by auto
qed

section \<open>The monitor\<close>

lemma fold_max_ge: "x \<le> fold (\<lambda>(_, s) m. max m s) fs x" for x :: real
  by (induction fs arbitrary: x) (auto intro: order_trans [OF max.cobounded1])

lemma fold_max_iff:
  "c \<le> fold (\<lambda>(_, s) m. max m s) fs x \<longleftrightarrow> c \<le> x \<or> (\<exists>p \<in> set fs. c \<le> snd p)" for c x :: real
  by (induction fs arbitrary: x) (auto simp: le_max_iff_disj)

lemma fold_max_le:
  "x \<le> c \<Longrightarrow> (\<And>p. p \<in> set fs \<Longrightarrow> snd p \<le> c) \<Longrightarrow> fold (\<lambda>(_, s) m. max m s) fs x \<le> c" for c x :: real
proof (induction fs arbitrary: x)
  case (Cons p fs)
  have "snd p \<le> c" using Cons.prems(2) by simp
  with Cons show ?case by (cases p) simp
qed simp

lemma mock_findings_severe:
  "(\<exists>p \<in> set (mock_findings c). 9/10 \<le> snd p) \<longleftrightarrow>
    HB_ERROR \<in> set (dvals (mn_heartbeats c)) \<or> 30/100 \<le> mn_drawdown c"
proof -
  have h: "(\<exists>p \<in> set (health_finding c). 9/10 \<le> snd p) \<longleftrightarrow> HB_ERROR \<in> set (dvals (mn_heartbeats c))"
    by (force simp: health_finding_def Let_def dvals_def filter_empty_conv)
  have d: "(\<exists>p \<in> set (drawdown_finding c). 9/10 \<le> snd p) \<longleftrightarrow> 30/100 \<le> mn_drawdown c"
    by (simp add: drawdown_finding_def)
  have "\<not> (\<exists>p \<in> set (state_finding c @ map (\<lambda>nm. (NearMissSeen nm, 4/10)) (mn_near_misses c)). 9/10 \<le> snd p)"
    by (auto simp: state_finding_def)
  with h d show ?thesis unfolding mock_findings_def set_append bex_Un by blast
qed

lemma mock_findings_bounds: "p \<in> set (mock_findings c) \<Longrightarrow> snd p \<le> 1"
  by (auto simp: mock_findings_def health_finding_def drawdown_finding_def state_finding_def Let_def
      split: if_splits)

lemma health_finding_Nil: "health_finding c = [] \<longleftrightarrow> \<not> list_ex (\<lambda>s. s \<noteq> HB_OK) (dvals (mn_heartbeats c))"
  by (force simp: health_finding_def Let_def filter_empty_conv list_ex_iff dvals_def)

lemma mock_findings_Nil: "mock_findings c = [] \<longleftrightarrow> \<not> anomaly_present c (20/100)"
  unfolding mock_findings_def anomaly_present_def append_is_Nil_conv health_finding_Nil
  by (auto simp: drawdown_finding_def state_finding_def)

lemma parse_recommendation_value [simp]: "parse_recommendation (recommendation_value r) = Some r"
  by (cases r) (simp_all add: parse_recommendation_def)

lemma supervise_mock:
  assumes "mn_now c = Aware t"
  shows "\<exists>v. supervise uuid name family (mock_review u) c = Inr v \<and>
    mo_severity v = fold (\<lambda>(_, s) m. max m s) (mock_findings c) 0 \<and>
    (mo_recommendation v = CONTINUE_MONITORING \<longleftrightarrow> mock_findings c = []) \<and>
    (mo_recommendation v = ESCALATE_SAFE_EXIT \<longleftrightarrow>
       mock_findings c \<noteq> [] \<and> 9/10 \<le> fold (\<lambda>(_, s) m. max m s) (mock_findings c) 0)"
proof -
  have "0 \<le> fold (\<lambda>(_, s) m. max m s) (mock_findings c) (0 :: real)" by (rule fold_max_ge)
  moreover have "fold (\<lambda>(_, s) m. max m s) (mock_findings c) (0 :: real) \<le> 1"
    by (rule fold_max_le) (simp_all add: mock_findings_bounds)
  ultimately show ?thesis
    using assms by (simp add: supervise_def mock_review_def validate_monitor_output_def Let_def)
qed

text \<open>
  The monitor is never silent about an anomaly. Around any model the supervisor returns a
  verdict with a severity between 0 and 1, and recommends to carry on only if the model itself
  answered so: a failure or a malformed answer asks for a human. With the deterministic model,
  carrying on is recommended exactly when the deterministic check sees no anomaly, and the safe
  exit exactly when a service is in error or the drawdown has reached the safe-mode threshold.
\<close>

theorem monitor_is_never_silent:
  assumes "mn_now c = Aware t"
  shows "(\<exists>v. supervise uuid name family model c = Inr v \<and> 0 \<le> mo_severity v \<and> mo_severity v \<le> 1 \<and>
      (mo_recommendation v = CONTINUE_MONITORING \<longrightarrow>
        (\<exists>raw. model c = Inr raw \<and> mo_recommendation raw = ''CONTINUE_MONITORING''))) \<and>
    (\<exists>v. supervise uuid name family (mock_review u) c = Inr v \<and>
      (mo_recommendation v = CONTINUE_MONITORING \<longleftrightarrow> \<not> anomaly_present c (20/100)) \<and>
      (mo_recommendation v = ESCALATE_SAFE_EXIT \<longleftrightarrow>
        HB_ERROR \<in> set (dvals (mn_heartbeats c)) \<or> 30/100 \<le> mn_drawdown c))"
proof (rule conjI)
  show "\<exists>v. supervise uuid name family model c = Inr v \<and> 0 \<le> mo_severity v \<and> mo_severity v \<le> 1 \<and>
      (mo_recommendation v = CONTINUE_MONITORING \<longrightarrow>
        (\<exists>raw. model c = Inr raw \<and> mo_recommendation raw = ''CONTINUE_MONITORING''))"
  proof (cases "model c")
    case (Inl e)
    with assms show ?thesis by (simp add: supervise_def fallback_verdict_def)
  next
    case (Inr raw)
    show ?thesis
    proof (cases "validate_monitor_output raw")
      case e: (Inl e)
      then have "e = MalformedMonitorError"
        by (auto simp: validate_monitor_output_def split: option.splits if_splits)
      with Inr e assms show ?thesis by (simp add: supervise_def fallback_verdict_def)
    next
      case v: (Inr v)
      then have "0 \<le> mo_severity v \<and> mo_severity v \<le> 1 \<and>
          parse_recommendation (mo_recommendation raw) = Some (mo_recommendation v)"
        by (auto simp: validate_monitor_output_def in_unit_def split: option.splits if_splits)
      moreover have "s = ''CONTINUE_MONITORING''" if "parse_recommendation s = Some CONTINUE_MONITORING" for s
        using that by (auto simp: parse_recommendation_def split: if_splits)
      ultimately show ?thesis using Inr v assms by (auto simp: supervise_def)
    qed
  qed
next
  have pos: "mock_findings c \<noteq> []" if "\<exists>p \<in> set (mock_findings c). 9/10 \<le> snd p"
    using that by auto
  show "\<exists>v. supervise uuid name family (mock_review u) c = Inr v \<and>
      (mo_recommendation v = CONTINUE_MONITORING \<longleftrightarrow> \<not> anomaly_present c (20/100)) \<and>
      (mo_recommendation v = ESCALATE_SAFE_EXIT \<longleftrightarrow>
        HB_ERROR \<in> set (dvals (mn_heartbeats c)) \<or> 30/100 \<le> mn_drawdown c)"
    using supervise_mock [OF assms, of uuid name family u] pos mock_findings_severe [of c]
    unfolding fold_max_iff mock_findings_Nil by fastforce
qed

definition demo_monitor :: monitor_context where
  "demo_monitor = \<lparr>mn_now = Aware 0, mn_heartbeats = [(''scanner'', HB_WARNING)], mn_risk_state = ''NORMAL'',
     mn_drawdown = 0, mn_positions = [], mn_near_misses = []\<rparr>"

lemma monitor_is_never_silent_witness:
  "\<exists>v. supervise ''u'' ''m'' ''f'' (mock_review ''u'') demo_monitor = Inr v \<and>
    mo_recommendation v \<noteq> CONTINUE_MONITORING \<and> mo_recommendation v \<noteq> ESCALATE_SAFE_EXIT"
proof -
  have t: "mn_now demo_monitor = Aware 0" by (simp add: demo_monitor_def)
  have "anomaly_present demo_monitor (20/100)" "mn_drawdown demo_monitor < 30/100"
    "HB_ERROR \<notin> set (dvals (mn_heartbeats demo_monitor))"
    by (simp_all add: demo_monitor_def anomaly_present_def dvals_def)
  then show ?thesis
    using monitor_is_never_silent [OF t, of "''u''" "''m''" "''f''" "mock_review ''u''" "''u''"] by auto
qed

end
