(* ===== verification/PreTrade.thy ===== *)
theory PreTrade
  imports Decision
begin

text \<open>
  What stands between a sized proposal and the risk gate: the independent audit
  (\<open>services/decision/audit.py\<close>, the audit part of \<open>packages/schemas/audit.py\<close>), the pre-trade log
  with its near misses and the human review queue (\<open>services/pdca/audit_log.py\<close>), and the
  provenance of decisions (\<open>packages/common/provenance.py\<close>). Records that are filled in by
  reference are updated in the dictionary that owns them. Details of conflicts are texts; a
  conflict is represented by the name of its check.
\<close>

section \<open>Audit verdicts\<close>

fun verdict_value :: "audit_verdict \<Rightarrow> string" where
  "verdict_value PASS = ''PASS''"
| "verdict_value REJECT = ''REJECT''"
| "verdict_value REVIEW = ''REVIEW''"

definition parse_verdict :: "string \<Rightarrow> audit_verdict option" where
  "parse_verdict s = find (\<lambda>v. verdict_value v = s) [PASS, REJECT, REVIEW]"

record 'f detected_conflict =
  cf_check :: string
  cf_severity :: 'f

record ('f, 'v) audit_output =
  au_id :: string
  au_decision :: string
  au_cid :: string
  au_verdict :: 'v
  au_reasons :: "string list"
  au_conflicts :: "'f detected_conflict list"
  au_severity :: 'f
  au_model :: string
  au_family :: string
  au_forced :: bool
  au_at :: pydt

type_synonym raw_audit = "(pyfloat, string) audit_output"
type_synonym audit_result = "(real, audit_verdict) audit_output"

definition mk_conflict :: "pyfloat detected_conflict \<Rightarrow> real detected_conflict option" where
  "mk_conflict c = (if in_unit (cf_severity c)
     then Some \<lparr>cf_check = cf_check c, cf_severity = fval (cf_severity c)\<rparr> else None)"

definition validate_audit_output :: "raw_audit \<Rightarrow> exn + audit_result" where
  "validate_audit_output raw =
     (case parse_verdict (au_verdict raw) of
        None \<Rightarrow> Inl MalformedAuditError
      | Some v \<Rightarrow>
         (if in_unit (au_severity raw) \<and> list_all (\<lambda>c. mk_conflict c \<noteq> None) (au_conflicts raw)
          then Inr \<lparr>au_id = au_id raw, au_decision = au_decision raw, au_cid = au_cid raw,
                    au_verdict = v, au_reasons = au_reasons raw,
                    au_conflicts = List.map_filter mk_conflict (au_conflicts raw),
                    au_severity = fval (au_severity raw), au_model = au_model raw,
                    au_family = au_family raw, au_forced = au_forced raw, au_at = au_at raw\<rparr>
          else Inl MalformedAuditError))"

section \<open>The deterministic auditor\<close>

record audit_context =
  ac_now :: pydt
  ac_signal_age :: int
  ac_stale_after :: int

definition audit_context_at :: "pydt \<Rightarrow> audit_context" where
  "audit_context_at now = \<lparr>ac_now = now, ac_signal_age = 0, ac_stale_after = 30 * minutes_us\<rparr>"

definition HORIZON_MAX_STOP :: "(string, real) dict" where
  "HORIZON_MAX_STOP = [(''1d'', 6/100), (''1w'', 12/100), (''1m'', 20/100), (''3m'', 30/100), (''6m'', 40/100)]"

text \<open>\<open>decision.action != intent.side\<close> compares the texts of two enumerations.\<close>

definition same_side :: "decision_action \<Rightarrow> action \<Rightarrow> bool" where
  "same_side d a \<longleftrightarrow> to_order_side d = Inr a"

definition conflict_when :: "bool \<Rightarrow> string \<Rightarrow> real \<Rightarrow> real detected_conflict list" where
  "conflict_when b check severity = (if b then [\<lparr>cf_check = check, cf_severity = severity\<rparr>] else [])"

definition audit_conflicts ::
    "real decision_output \<Rightarrow> sized_proposal \<Rightarrow> order_intent \<Rightarrow> audit_context \<Rightarrow> real detected_conflict list" where
  "audit_conflicts d sized i ctx =
     (let stop = szp_plan sized; width = stop_distance stop / sp_entry stop in
      conflict_when (do_symbol d \<noteq> oi_symbol i \<or> tp_symbol (szp_proposal sized) \<noteq> oi_symbol i) ''symbol_match'' 1
      @ conflict_when (\<not> same_side (do_action d) (oi_side i)) ''side_match'' 1
      @ conflict_when (max (1/1000000) (szp_qty sized * (1/1000)) < \<bar>oi_qty i - szp_qty sized\<bar>)
          ''quantity_consistency'' 1
      @ conflict_when (szp_qty sized * 10 < oi_qty i) ''quantity_magnitude'' 1
      @ conflict_when (sp_entry stop \<le> sp_stop stop) ''stop_direction'' 1
      @ conflict_when (dget_or HORIZON_MAX_STOP (do_horizon d) (40/100) < width) ''horizon_stop_consistency'' (6/10)
      @ conflict_when (do_confidence d < 4/10 \<and> 0 < szp_notional sized \<and> 0 < szp_risk sized
          \<and> szp_confidence sized < 4/10) ''confidence_size_consistency'' (4/10)
      @ conflict_when (ac_stale_after ctx < ac_signal_age ctx) ''stale_signal'' (8/10)
      @ conflict_when (do_key_evidence d = []) ''thesis_consistency'' (1/2))"

definition max_severity :: "real detected_conflict list \<Rightarrow> real" where
  "max_severity cs = (if cs = [] then 0 else Max (set (map cf_severity cs)))"

definition mock_audit ::
    "string \<Rightarrow> real decision_output \<Rightarrow> sized_proposal \<Rightarrow> order_intent \<Rightarrow> audit_context \<Rightarrow> exn + raw_audit" where
  "mock_audit uuid d sized i ctx =
     (let conflicts = audit_conflicts d sized i ctx; sev = max_severity conflicts;
          verdict = (if 8/10 \<le> sev then ''REJECT'' else if 1/2 \<le> sev then ''REVIEW'' else ''PASS'')
      in Inr \<lparr>au_id = uuid, au_decision = tp_id (szp_proposal sized), au_cid = oi_id i,
              au_verdict = verdict,
              au_reasons = (if conflicts = [] then [''no conflicts detected''] else map cf_check conflicts),
              au_conflicts = map (\<lambda>c. \<lparr>cf_check = cf_check c, cf_severity = Fin (cf_severity c)\<rparr>) conflicts,
              au_severity = Fin sev, au_model = ''mock-audit'', au_family = ''mock-audit-family'',
              au_forced = False, au_at = ac_now ctx\<rparr>)"

section \<open>When an audit is mandatory, and what its failure means\<close>

record trigger_context =
  tg_notional :: real
  tg_volatility :: real
  tg_event :: bool
  tg_disagreement :: real
  tg_new_alpha :: bool
  tg_first_live :: bool
  tg_rapid_move :: bool
  tg_complex_stop :: bool
  tg_low_liquidity :: bool
  tg_risk_score :: real
  tg_data_uncertain :: bool

definition no_triggers :: trigger_context where
  "no_triggers = \<lparr>tg_notional = 1, tg_volatility = 0, tg_event = False, tg_disagreement = 0,
     tg_new_alpha = False, tg_first_live = False, tg_rapid_move = False, tg_complex_stop = False,
     tg_low_liquidity = False, tg_risk_score = 0, tg_data_uncertain = False\<rparr>"

definition audit_required :: "trigger_context \<Rightarrow> real \<Rightarrow> real \<Rightarrow> bool" where
  "audit_required t high_vol disagreement_limit \<longleftrightarrow>
     list_ex id [2 < tg_notional t, high_vol < tg_volatility t, tg_event t,
       disagreement_limit < tg_disagreement t, tg_new_alpha t, tg_first_live t, tg_rapid_move t,
       tg_complex_stop t, tg_low_liquidity t, 7/10 < tg_risk_score t, tg_data_uncertain t]"

text \<open>An audit model with its \<open>name\<close> and \<open>model_family\<close>.\<close>

record audit_model =
  am_name :: string
  am_family :: string
  am_audit :: "real decision_output \<Rightarrow> sized_proposal \<Rightarrow> order_intent \<Rightarrow> audit_context \<Rightarrow> exn + raw_audit"

record auditor =
  ad_model :: "audit_model option"
  ad_env :: environment
  ad_audit_all :: bool

definition is_mandatory :: "auditor \<Rightarrow> trigger_context \<Rightarrow> bool" where
  "is_mandatory a t = (if is_live (ad_env a) then True
     else ad_audit_all a \<or> audit_required t (4/100) (1/2))"

text \<open>A verdict the auditor writes itself.\<close>

definition own_verdict ::
    "string \<Rightarrow> sized_proposal \<Rightarrow> order_intent \<Rightarrow> instant \<Rightarrow> audit_verdict \<Rightarrow> string \<Rightarrow> real \<Rightarrow> string \<Rightarrow> string
      \<Rightarrow> bool \<Rightarrow> audit_result" where
  "own_verdict uuid sized i now v reason severity name family forced =
     \<lparr>au_id = uuid, au_decision = tp_id (szp_proposal sized), au_cid = oi_id i, au_verdict = v,
      au_reasons = [reason], au_conflicts = [], au_severity = severity, au_model = name,
      au_family = family, au_forced = forced, au_at = Aware now\<rparr>"

definition audit_order ::
    "string \<Rightarrow> auditor \<Rightarrow> real decision_output \<Rightarrow> sized_proposal \<Rightarrow> order_intent \<Rightarrow> audit_context
      \<Rightarrow> trigger_context \<Rightarrow> exn + audit_result" where
  "audit_order uuid a d sized i ctx triggers =
     (let mandatory = is_mandatory a triggers in
      case ensure_utc (ac_now ctx) of Inl e \<Rightarrow> Inl e | Inr now \<Rightarrow>
      case ad_model a of
        None \<Rightarrow>
          if mandatory then Inl AuditUnavailableError
          else Inr (own_verdict uuid sized i now PASS ''audit skipped: not required and model absent'' 0
                      ''none'' ''none'' False)
      | Some m \<Rightarrow>
         (case am_audit m d sized i ctx of
            Inl e \<Rightarrow> Inl (if mandatory then AuditUnavailableError else e)
          | Inr raw \<Rightarrow>
             (case validate_audit_output raw of
                Inl e \<Rightarrow>
                  if e = MalformedAuditError
                  then if is_live (ad_env a) then Inl AuditUnavailableError
                       else Inr (own_verdict uuid sized i now REJECT ''malformed audit output rejected (INV-20)''
                                   1 (am_name m) (am_family m) mandatory)
                  else Inl e
              | Inr out \<Rightarrow> Inr (out\<lparr>au_forced := mandatory\<rparr>))))"

section \<open>The pre-trade log\<close>

datatype near_miss_kind = WRONG_SIDE | QUANTITY_ERROR | DUPLICATE_ORDER | STALE_ORDER | SYMBOL_MISMATCH
  | NO_STOP | HASH_MISMATCH | OTHER

datatype log_stage = STAGE_AUDIT | STAGE_RISK | STAGE_EXECUTION

definition CONFLICT_TO_KIND :: "(string, near_miss_kind) dict" where
  "CONFLICT_TO_KIND = [(''side_match'', WRONG_SIDE), (''quantity_consistency'', QUANTITY_ERROR),
     (''quantity_magnitude'', QUANTITY_ERROR), (''symbol_match'', SYMBOL_MISMATCH),
     (''stop_exists'', NO_STOP), (''stale_signal'', STALE_ORDER)]"

record near_miss =
  nm_at :: instant
  nm_kind :: near_miss_kind
  nm_stage :: log_stage
  nm_decision :: string
  nm_cid :: string

record review_item =
  hr_at :: instant
  hr_cid :: string
  hr_decision :: string
  hr_reasons :: "string list"
  hr_severity :: real
  hr_by :: string
  hr_resolution :: string

text \<open>\<open>risk_result\<close>: passed with the approval id, or failed with the reasons.\<close>

datatype risk_result = RiskPassed string | RiskFailed "string list"

record pretrade_record =
  pt_cid :: string
  pt_decision :: string
  pt_created :: instant
  pt_symbol :: string
  pt_side :: action
  pt_qty :: real
  pt_audit :: "audit_result option"
  pt_risk :: "risk_result option"
  pt_hash :: string
  pt_submitted :: bool
  pt_fills :: "string list"
  pt_final :: "order_state option"
  pt_protective :: bool

record pretrade_log =
  pl_records :: "(string, pretrade_record) dict"
  pl_near :: "near_miss list"
  pl_queue :: "review_item list"

definition empty_log :: pretrade_log where
  "empty_log = \<lparr>pl_records = [], pl_near = [], pl_queue = []\<rparr>"

definition open_record ::
    "string \<Rightarrow> string \<Rightarrow> pydt \<Rightarrow> string \<Rightarrow> action \<Rightarrow> real \<Rightarrow> (pretrade_log, unit) act" where
  "open_record cid did a_t symbol side qty l =
     (case ensure_utc a_t of Inl e \<Rightarrow> (Inl e, l) | Inr t \<Rightarrow>
      (Inr (), l\<lparr>pl_records := dput (pl_records l) cid
         \<lparr>pt_cid = cid, pt_decision = did, pt_created = t, pt_symbol = symbol, pt_side = side, pt_qty = qty,
          pt_audit = None, pt_risk = None, pt_hash = [], pt_submitted = False, pt_fills = [],
          pt_final = None, pt_protective = False\<rparr>\<rparr>))"

text \<open>Filling in the record of an order through its reference.\<close>

definition fill_in :: "string \<Rightarrow> (pretrade_record \<Rightarrow> pretrade_record) \<Rightarrow> pretrade_log \<Rightarrow> pretrade_log" where
  "fill_in cid f l =
     (case dget (pl_records l) cid of None \<Rightarrow> l
      | Some r \<Rightarrow> l\<lparr>pl_records := dput (pl_records l) cid (f r)\<rparr>)"

definition traceable :: "pretrade_record \<Rightarrow> bool" where
  "traceable r \<longleftrightarrow>
     (if \<not> pt_submitted r then True
      else (pt_audit r \<noteq> None \<or> pt_protective r) \<and> pt_risk r \<noteq> None \<and> pt_hash r \<noteq> [] \<and> pt_final r \<noteq> None)"

definition is_fully_traceable :: "pretrade_log \<Rightarrow> string \<Rightarrow> exn + bool" where
  "is_fully_traceable l cid =
     (case dget (pl_records l) cid of None \<Rightarrow> Inl KeyError | Some r \<Rightarrow> Inr (traceable r))"

definition record_near_miss ::
    "log_stage \<Rightarrow> near_miss_kind \<Rightarrow> pydt \<Rightarrow> string \<Rightarrow> string \<Rightarrow> (pretrade_log, unit) act" where
  "record_near_miss stage kind a_t did cid l =
     (case ensure_utc a_t of Inl e \<Rightarrow> (Inl e, l) | Inr t \<Rightarrow>
      (Inr (), l\<lparr>pl_near := pl_near l @ [\<lparr>nm_at = t, nm_kind = kind, nm_stage = stage,
         nm_decision = did, nm_cid = cid\<rparr>]\<rparr>))"

definition queue_human_review ::
    "string \<Rightarrow> string \<Rightarrow> pydt \<Rightarrow> string list \<Rightarrow> real \<Rightarrow> (pretrade_log, unit) act" where
  "queue_human_review cid did a_t reasons severity l =
     (case ensure_utc a_t of Inl e \<Rightarrow> (Inl e, l) | Inr t \<Rightarrow>
      (Inr (), l\<lparr>pl_queue := pl_queue l @ [\<lparr>hr_at = t, hr_cid = cid, hr_decision = did,
         hr_reasons = reasons, hr_severity = severity, hr_by = [], hr_resolution = []\<rparr>]\<rparr>))"

fun resolve_first ::
    "string \<Rightarrow> string \<Rightarrow> string \<Rightarrow> review_item list \<Rightarrow> review_item list option" where
  "resolve_first cid by resolution [] = None"
| "resolve_first cid by resolution (i # is) =
     (if hr_cid i = cid \<and> hr_resolution i = []
      then Some (i\<lparr>hr_by := by, hr_resolution := resolution\<rparr> # is)
      else map_option (Cons i) (resolve_first cid by resolution is))"

definition resolve_human_review ::
    "string \<Rightarrow> string \<Rightarrow> string \<Rightarrow> (pretrade_log, unit) act" where
  "resolve_human_review cid by resolution l =
     (if by = [] then (Inl PermissionError, l)
      else case resolve_first cid by resolution (pl_queue l) of
        None \<Rightarrow> (Inl KeyError, l)
      | Some q \<Rightarrow> (Inr (), l\<lparr>pl_queue := q\<rparr>))"

definition pending_human_reviews :: "pretrade_log \<Rightarrow> review_item list" where
  "pending_human_reviews l = filter (\<lambda>i. hr_resolution i = []) (pl_queue l)"

text \<open>The kinds form a Python set, whose order is arbitrary; here it is that of the first mention.\<close>

definition conflict_kinds :: "audit_result \<Rightarrow> near_miss_kind list" where
  "conflict_kinds a =
     (let kinds = remdups (map (\<lambda>c. dget_or CONFLICT_TO_KIND (cf_check c) OTHER) (au_conflicts a))
      in if kinds = [] then [OTHER] else kinds)"

definition record_audit_rejection ::
    "audit_result \<Rightarrow> pydt \<Rightarrow> string \<Rightarrow> string \<Rightarrow> (pretrade_log, unit) act" where
  "record_audit_rejection a a_t did cid =
     for_each (\<lambda>kind. record_near_miss STAGE_AUDIT kind a_t did cid) (conflict_kinds a)"

text \<open>\<open>(at.year, at.month) == (year, month)\<close> in UTC; day 719163 is the first of the epoch.\<close>

definition month_start :: "int \<Rightarrow> int \<Rightarrow> instant" where
  "month_start y m = (to_ordinal (Date y m 1) - 719163) * days_us"

definition in_month :: "int \<Rightarrow> int \<Rightarrow> instant \<Rightarrow> bool" where
  "in_month y m t \<longleftrightarrow> 1 \<le> m \<and> m \<le> 12 \<and> month_start y m \<le> t \<and>
     t < (if m = 12 then month_start (y + 1) 1 else month_start y (m + 1))"

record safety_summary =
  sf_audits :: nat
  sf_pass :: nat
  sf_reject :: nat
  sf_prevented :: nat
  sf_by_kind :: "(near_miss_kind, nat) dict"
  sf_critical :: nat

definition count_kind :: "near_miss \<Rightarrow> (near_miss_kind, nat) dict \<Rightarrow> (near_miss_kind, nat) dict" where
  "count_kind n d = dput d (nm_kind n) (dget_or d (nm_kind n) 0 + 1)"

definition monthly_safety_summary :: "int \<Rightarrow> int \<Rightarrow> pretrade_log \<Rightarrow> safety_summary" where
  "monthly_safety_summary y m l =
     (let month_records = filter (\<lambda>r. in_month y m (pt_created r)) (dvals (pl_records l));
          audits = filter (\<lambda>r. pt_audit r \<noteq> None) month_records;
          with_verdict = (\<lambda>v. filter (\<lambda>r. map_option au_verdict (pt_audit r) = Some v) audits);
          misses = filter (\<lambda>n. in_month y m (nm_at n)) (pl_near l)
      in \<lparr>sf_audits = length audits, sf_pass = length (with_verdict PASS),
          sf_reject = length (with_verdict REJECT), sf_prevented = length misses,
          sf_by_kind = fold count_kind misses [],
          sf_critical = length (filter (\<lambda>r. pt_final r = Some UNKNOWN) month_records)\<rparr>)"

section \<open>Provenance\<close>

datatype prov_result = EndedIn order_state | RejectedMalformed | ModelUnavailable

record prov_record =
  pv_id :: string
  pv_env :: environment
  pv_created :: instant
  pv_features :: "(string, real) dict"
  pv_model :: string
  pv_version :: string
  pv_output :: "real decision_output option"
  pv_skeptic :: "skeptic_output option"
  pv_thesis :: "final_trade_thesis option"
  pv_risk :: "risk_result option"
  pv_stop :: "stop_plan option"
  pv_size :: "(real \<times> real \<times> real) option"
  pv_order :: "string option"
  pv_fills :: "string list"
  pv_result :: "prov_result option"

definition is_audit_complete :: "prov_record \<Rightarrow> bool" where
  "is_audit_complete r \<longleftrightarrow>
     (if pv_order r = None then pv_output r \<noteq> None \<and> pv_risk r \<noteq> None
      else pv_output r \<noteq> None \<and> pv_risk r \<noteq> None \<and> pv_stop r \<noteq> None \<and> pv_size r \<noteq> None)"

record provenance =
  ps_env :: environment
  ps_records :: "(string, prov_record) dict"

definition open_prov :: "string \<Rightarrow> instant \<Rightarrow> provenance \<Rightarrow> provenance" where
  "open_prov did utcnow p = p\<lparr>ps_records := dput (ps_records p) did
     \<lparr>pv_id = did, pv_env = ps_env p, pv_created = utcnow, pv_features = [], pv_model = [], pv_version = [],
      pv_output = None, pv_skeptic = None, pv_thesis = None, pv_risk = None, pv_stop = None,
      pv_size = None, pv_order = None, pv_fills = [], pv_result = None\<rparr>\<rparr>"

definition get_prov :: "provenance \<Rightarrow> string \<Rightarrow> exn + prov_record" where
  "get_prov p did = (case dget (ps_records p) did of None \<Rightarrow> Inl KeyError | Some r \<Rightarrow> Inr r)"

definition set_prov :: "string \<Rightarrow> (prov_record \<Rightarrow> prov_record) \<Rightarrow> provenance \<Rightarrow> provenance" where
  "set_prov did f p =
     (case dget (ps_records p) did of None \<Rightarrow> p
      | Some r \<Rightarrow> p\<lparr>ps_records := dput (ps_records p) did (f r)\<rparr>)"

definition audit_completeness :: "provenance \<Rightarrow> real" where
  "audit_completeness p =
     (let recs = filter (\<lambda>r. pv_order r \<noteq> None) (dvals (ps_records p))
      in if recs = [] then 1 else real (length (filter is_audit_complete recs)) / real (length recs))"

section \<open>An audit that cannot be had blocks the trade\<close>

lemma parse_verdict_value [simp]: "parse_verdict (verdict_value v) = Some v"
  by (cases v) (simp_all add: parse_verdict_def)

lemma parse_verdict_iff: "parse_verdict s = Some v \<longleftrightarrow> s = verdict_value v"
  by (cases v) (auto simp: parse_verdict_def)

lemma validate_audit_error: "validate_audit_output raw = Inl e \<Longrightarrow> e = MalformedAuditError"
  by (auto simp: validate_audit_output_def split: option.splits if_splits)

lemma validate_audit_sound:
  "validate_audit_output raw = Inr out \<Longrightarrow>
    au_verdict raw = verdict_value (au_verdict out) \<and> 0 \<le> au_severity out \<and> au_severity out \<le> 1"
  by (auto simp: validate_audit_output_def parse_verdict_iff in_unit_def split: option.splits if_splits)

text \<open>
  C16. A mandatory audit fails closed. When the audit is mandatory, which it always is in LIVE,
  a verdict is only returned if a model was asked and answered; a PASS is only returned if the
  answer of the model itself passes the schema and says PASS; in LIVE any verdict at all is the
  model's own. Everything else, no model, a failing model and in LIVE a malformed answer, is the
  error that blocks the trade.
\<close>

theorem mandatory_audit_fails_closed:
  assumes "is_mandatory a tr" and "ac_now ctx = Aware t"
  shows "(ad_env a = LIVE \<longrightarrow> is_mandatory a no_triggers) \<and>
    (case audit_order uuid a d sized i ctx tr of
      Inl e \<Rightarrow> e = AuditUnavailableError
    | Inr out \<Rightarrow> au_forced out \<and>
        (\<exists>m raw. ad_model a = Some m \<and> am_audit m d sized i ctx = Inr raw \<and>
          (au_verdict out = PASS \<or> ad_env a = LIVE \<longrightarrow>
            au_verdict raw = verdict_value (au_verdict out) \<and>
            validate_audit_output raw = Inr (out\<lparr>au_forced := au_forced raw\<rparr>))))"
proof (intro conjI)
  show "ad_env a = LIVE \<longrightarrow> is_mandatory a no_triggers" by (simp add: is_mandatory_def is_live_def)
  show "case audit_order uuid a d sized i ctx tr of
      Inl e \<Rightarrow> e = AuditUnavailableError
    | Inr out \<Rightarrow> au_forced out \<and>
        (\<exists>m raw. ad_model a = Some m \<and> am_audit m d sized i ctx = Inr raw \<and>
          (au_verdict out = PASS \<or> ad_env a = LIVE \<longrightarrow>
            au_verdict raw = verdict_value (au_verdict out) \<and>
            validate_audit_output raw = Inr (out\<lparr>au_forced := au_forced raw\<rparr>)))"
  proof (cases "ad_model a")
    case None
    with assms show ?thesis by (simp add: audit_order_def)
  next
    case (Some m)
    show ?thesis
    proof (cases "am_audit m d sized i ctx")
      case (Inl e)
      with Some assms show ?thesis by (simp add: audit_order_def)
    next
      case (Inr raw)
      show ?thesis
      proof (cases "validate_audit_output raw")
        case e: (Inl e)
        with Some Inr assms validate_audit_error [OF e] show ?thesis
          by (simp add: audit_order_def own_verdict_def is_live_def)
      next
        case v: (Inr out)
        have "au_forced out = au_forced raw"
          using v by (auto simp: validate_audit_output_def split: option.splits if_splits)
        with Some Inr v assms validate_audit_sound [OF v] show ?thesis
          by (simp add: audit_order_def)
      qed
    qed
  qed
qed

definition demo_decision :: "real decision_output" where
  "demo_decision = \<lparr>do_symbol = ''X'', do_action = D_BUY, do_confidence = 1/2, do_horizon = ''1w'',
     do_range = (0, 1), do_bull = \<lparr>sc_description = [], sc_target = 1, sc_prob = 1/4\<rparr>,
     do_base = \<lparr>sc_description = [], sc_target = 1, sc_prob = 1/2\<rparr>,
     do_bear = \<lparr>sc_description = [], sc_target = 1, sc_prob = 1/4\<rparr>,
     do_key_evidence = [''momentum''], do_counter_evidence = [], do_risk_factors = [], do_invalidation = [],
     do_unknowns = [], do_version = ''1''\<rparr>"

definition demo_sized :: sized_proposal where
  "demo_sized = \<lparr>szp_proposal = \<lparr>tp_id = ''p'', tp_symbol = ''X'', tp_side = BUY, tp_source = FROM_AI,
       tp_decision = demo_decision, tp_skeptic = None, tp_created = 0\<rparr>,
     szp_plan = \<lparr>sp_entry = 100, sp_stop = 95, sp_type = HARD, sp_reason = ''r'', sp_horizon = ''1w'',
       sp_thesis = ''t'', sp_invalidation = ''i'', sp_target = 110, sp_gap = 0\<rparr>,
     szp_qty = 2, szp_risk = 10, szp_notional = 200, szp_confidence = 1/2, szp_version = ''1''\<rparr>"

definition demo_buy :: order_intent where
  "demo_buy = \<lparr>oi_id = ''paper-0001'', oi_proposal = ''p'', oi_symbol = ''X'', oi_side = BUY, oi_qty = 2,
     oi_type = MARKET, oi_limit = None, oi_stop = None, oi_env = LIVE, oi_protective = False, oi_created = 0\<rparr>"

lemma mandatory_audit_fails_closed_witness:
  "audit_order ''u'' \<lparr>ad_model = None, ad_env = LIVE, ad_audit_all = False\<rparr> demo_decision demo_sized demo_buy
     (audit_context_at (Aware 0)) no_triggers = Inl AuditUnavailableError"
proof -
  let ?a = "\<lparr>ad_model = None, ad_env = LIVE, ad_audit_all = False\<rparr>"
  have m: "is_mandatory ?a no_triggers" by (simp add: is_mandatory_def is_live_def)
  have t: "ac_now (audit_context_at (Aware 0)) = Aware 0" by (simp add: audit_context_at_def)
  show ?thesis
    using mandatory_audit_fails_closed [OF m t, where uuid = "''u''" and d = demo_decision and
        sized = demo_sized and i = demo_buy]
    by (cases "audit_order ''u'' ?a demo_decision demo_sized demo_buy (audit_context_at (Aware 0)) no_triggers") simp_all
qed

section \<open>What a PASS of the deterministic auditor says\<close>

lemma set_conflict_when: "set (map cf_severity (conflict_when b n s)) = (if b then {s} else {})"
  by (simp add: conflict_when_def)

lemma max_severity_ge:
  "0 < x \<Longrightarrow> x \<le> max_severity cs \<longleftrightarrow> (\<exists>c \<in> set cs. x \<le> cf_severity c)"
  by (auto simp: max_severity_def Max_ge_iff)

lemma bex_conflict_when: "(\<exists>c \<in> set (conflict_when b n s). P c) \<longleftrightarrow> b \<and> P \<lparr>cf_check = n, cf_severity = s\<rparr>"
  by (simp add: conflict_when_def)

text \<open>A contradiction between decision and order, and a doubt about it.\<close>

definition contradicts :: "real decision_output \<Rightarrow> sized_proposal \<Rightarrow> order_intent \<Rightarrow> audit_context \<Rightarrow> bool" where
  "contradicts d sized i ctx \<longleftrightarrow>
     do_symbol d \<noteq> oi_symbol i \<or> tp_symbol (szp_proposal sized) \<noteq> oi_symbol i
     \<or> to_order_side (do_action d) \<noteq> Inr (oi_side i)
     \<or> max (1/1000000) (szp_qty sized / 1000) < \<bar>oi_qty i - szp_qty sized\<bar> \<or> szp_qty sized * 10 < oi_qty i
     \<or> sp_entry (szp_plan sized) \<le> sp_stop (szp_plan sized) \<or> ac_stale_after ctx < ac_signal_age ctx"

definition doubtful :: "real decision_output \<Rightarrow> sized_proposal \<Rightarrow> bool" where
  "doubtful d sized \<longleftrightarrow>
     dget_or HORIZON_MAX_STOP (do_horizon d) (40/100) <
       stop_distance (szp_plan sized) / sp_entry (szp_plan sized)
     \<or> do_key_evidence d = []"

lemma severity_at_least:
  assumes "0 < x"
  shows "x \<le> max_severity (audit_conflicts d sized i ctx) \<longleftrightarrow>
    x \<le> 1 \<and> (do_symbol d \<noteq> oi_symbol i \<or> tp_symbol (szp_proposal sized) \<noteq> oi_symbol i) \<or>
    x \<le> 1 \<and> \<not> same_side (do_action d) (oi_side i) \<or>
    x \<le> 1 \<and> max (1/1000000) (szp_qty sized * (1/1000)) < \<bar>oi_qty i - szp_qty sized\<bar> \<or>
    x \<le> 1 \<and> szp_qty sized * 10 < oi_qty i \<or>
    x \<le> 1 \<and> sp_entry (szp_plan sized) \<le> sp_stop (szp_plan sized) \<or>
    x \<le> 6/10 \<and> dget_or HORIZON_MAX_STOP (do_horizon d) (40/100) <
      stop_distance (szp_plan sized) / sp_entry (szp_plan sized) \<or>
    x \<le> 4/10 \<and> do_confidence d < 4/10 \<and> 0 < szp_notional sized \<and> 0 < szp_risk sized \<and>
      szp_confidence sized < 4/10 \<or>
    x \<le> 8/10 \<and> ac_stale_after ctx < ac_signal_age ctx \<or>
    x \<le> 1/2 \<and> do_key_evidence d = []"
  unfolding max_severity_ge [OF assms] audit_conflicts_def Let_def set_append bex_Un bex_conflict_when
    detected_conflict.select_convs
  by blast

lemma severity_hard: "8/10 \<le> max_severity (audit_conflicts d sized i ctx) \<longleftrightarrow> contradicts d sized i ctx"
  by (subst severity_at_least) (simp_all add: contradicts_def same_side_def del: max_less_iff_conj, blast)

lemma severity_soft:
  "1/2 \<le> max_severity (audit_conflicts d sized i ctx) \<longleftrightarrow> contradicts d sized i ctx \<or> doubtful d sized"
  by (subst severity_at_least)
    (simp_all add: contradicts_def same_side_def doubtful_def del: max_less_iff_conj, blast)

lemma audit_conflicts_unit: "c \<in> set (audit_conflicts d sized i ctx) \<Longrightarrow> 0 \<le> cf_severity c \<and> cf_severity c \<le> 1"
  by (simp add: audit_conflicts_def Let_def conflict_when_def split: if_splits) auto

lemma max_severity_unit:
  "(\<And>c. c \<in> set cs \<Longrightarrow> 0 \<le> cf_severity c \<and> cf_severity c \<le> 1) \<Longrightarrow> 0 \<le> max_severity cs \<and> max_severity cs \<le> 1"
  by (cases cs) (auto simp: max_severity_def Max_ge_iff)

lemma validate_mock_audit:
  "\<exists>raw out. mock_audit u d sized i ctx = Inr raw \<and> validate_audit_output raw = Inr out \<and>
    au_verdict out = (if contradicts d sized i ctx then REJECT
      else if doubtful d sized then REVIEW else PASS)"
proof -
  let ?cs = "audit_conflicts d sized i ctx"
  have "0 \<le> max_severity ?cs \<and> max_severity ?cs \<le> 1"
    by (rule max_severity_unit) (rule audit_conflicts_unit)
  moreover have "list_all (\<lambda>c. mk_conflict c \<noteq> None) (map (\<lambda>c. \<lparr>cf_check = cf_check c, cf_severity = Fin (cf_severity c)\<rparr>) ?cs)"
    using audit_conflicts_unit [of _ d sized i ctx] by (auto simp: list_all_iff mk_conflict_def)
  moreover have "parse_verdict (if 8/10 \<le> max_severity ?cs then ''REJECT'' else if 1/2 \<le> max_severity ?cs then ''REVIEW'' else ''PASS'')
      = Some (if contradicts d sized i ctx then REJECT else if doubtful d sized then REVIEW else PASS)"
    unfolding severity_hard severity_soft by (auto simp: parse_verdict_iff)
  ultimately show ?thesis
    unfolding mock_audit_def validate_audit_output_def Let_def by simp
qed

text \<open>
  What the deterministic auditor passes matches the decision. A symbol, side or quantity
  that differs from the decision or the sized proposal, a stop at or above the entry and a stale
  signal are rejected; a stop too wide for the stated horizon and a decision without evidence go
  to a human; exactly the other orders pass.
\<close>

theorem audited_order_matches_decision:
  assumes "ad_model a = Some m" and "am_audit m = mock_audit u" and "ac_now ctx = Aware t"
  shows "\<exists>out. audit_order uuid a d sized i ctx tr = Inr out \<and>
    (au_verdict out = REJECT \<longleftrightarrow> contradicts d sized i ctx) \<and>
    (au_verdict out = REVIEW \<longleftrightarrow> \<not> contradicts d sized i ctx \<and> doubtful d sized) \<and>
    (au_verdict out = PASS \<longrightarrow>
      do_symbol d = oi_symbol i \<and> to_order_side (do_action d) = Inr (oi_side i) \<and>
      \<bar>oi_qty i - szp_qty sized\<bar> \<le> max (1/1000000) (szp_qty sized / 1000) \<and>
      sp_stop (szp_plan sized) < sp_entry (szp_plan sized) \<and> ac_signal_age ctx \<le> ac_stale_after ctx)"
proof -
  obtain raw out where raw: "mock_audit u d sized i ctx = Inr raw" "validate_audit_output raw = Inr out"
    and v: "au_verdict out = (if contradicts d sized i ctx then REJECT
      else if doubtful d sized then REVIEW else PASS)"
    using validate_mock_audit [of u d sized i ctx] by blast
  have run: "audit_order uuid a d sized i ctx tr = Inr (out\<lparr>au_forced := is_mandatory a tr\<rparr>)"
    using assms raw by (simp add: audit_order_def)
  have "\<not> contradicts d sized i ctx \<longrightarrow>
      do_symbol d = oi_symbol i \<and> to_order_side (do_action d) = Inr (oi_side i) \<and>
      \<bar>oi_qty i - szp_qty sized\<bar> \<le> max (1/1000000) (szp_qty sized / 1000) \<and>
      sp_stop (szp_plan sized) < sp_entry (szp_plan sized) \<and> ac_signal_age ctx \<le> ac_stale_after ctx"
    unfolding contradicts_def de_Morgan_disj not_not not_less not_le by blast
  with run v show ?thesis by (simp split: if_splits)
qed

definition demo_auditor :: auditor where
  "demo_auditor = \<lparr>ad_model = Some \<lparr>am_name = ''mock-audit'', am_family = ''mock-audit-family'',
     am_audit = mock_audit ''u''\<rparr>, ad_env = LIVE, ad_audit_all = True\<rparr>"

lemma audited_order_matches_decision_witness:
  "\<exists>out. audit_order ''u'' demo_auditor demo_decision demo_sized (demo_buy\<lparr>oi_qty := 20\<rparr>)
     (audit_context_at (Aware 0)) no_triggers = Inr out \<and> au_verdict out = REJECT"
proof -
  have m: "ad_model demo_auditor = Some (the (ad_model demo_auditor))"
    "am_audit (the (ad_model demo_auditor)) = mock_audit ''u''"
    "ac_now (audit_context_at (Aware 0)) = Aware 0"
    by (simp_all add: demo_auditor_def audit_context_at_def)
  have "contradicts demo_decision demo_sized (demo_buy\<lparr>oi_qty := 20\<rparr>) (audit_context_at (Aware 0))"
    by (simp add: contradicts_def demo_sized_def demo_buy_def)
  then show ?thesis
    using audited_order_matches_decision [OF m, where uuid = "''u''" and d = demo_decision and
        sized = demo_sized and i = "demo_buy\<lparr>oi_qty := 20\<rparr>" and tr = no_triggers]
    by auto
qed

section \<open>The log\<close>

lemma record_audit_rejection_near:
  assumes "record_audit_rejection a (Aware t) did cid l = (r, l')"
  shows "r = Inr () \<and> pl_records l' = pl_records l \<and> pl_queue l' = pl_queue l \<and>
    map nm_kind (pl_near l') = map nm_kind (pl_near l) @ conflict_kinds a"
proof -
  have "for_each (\<lambda>kind. record_near_miss STAGE_AUDIT kind (Aware t) did cid) ks l = (r, l') \<Longrightarrow>
    r = Inr () \<and> pl_records l' = pl_records l \<and> pl_queue l' = pl_queue l \<and>
    map nm_kind (pl_near l') = map nm_kind (pl_near l) @ ks" for ks l
    by (induction ks arbitrary: l) (auto simp: record_near_miss_def)
  with assms show ?thesis by (auto simp: record_audit_rejection_def)
qed

text \<open>Resolving needs a name, settles one pending item and releases nothing.\<close>

lemma resolve_first_pending:
  "resolve_first cid by res q = Some q' \<Longrightarrow> res \<noteq> [] \<Longrightarrow>
    length (filter (\<lambda>i. hr_resolution i = []) q) = length (filter (\<lambda>i. hr_resolution i = []) q') + 1 \<and>
    map hr_cid q' = map hr_cid q"
  by (induction q arbitrary: q') (auto split: if_splits)

lemma human_review_resolution:
  assumes "resolve_human_review cid by res l = (r, l')"
  shows "pl_records l' = pl_records l \<and>
    (r = Inr () \<and> res \<noteq> [] \<longrightarrow> by \<noteq> [] \<and>
      length (pending_human_reviews l) = length (pending_human_reviews l') + 1) \<and>
    (\<not> is_ok r \<longrightarrow> l' = l)"
  using assms resolve_first_pending [of cid "by" res "pl_queue l"]
  by (auto simp: resolve_human_review_def pending_human_reviews_def split: if_splits option.splits)

text \<open>The counts by kind add up to the number of prevented errors.\<close>

lemma sum_dput_count:
  "sum_list (dvals (dput d x (dget_or d x 0 + 1))) = sum_list (dvals d) + (1 :: nat)"
proof (induction d)
  case (Cons p d)
  obtain k v where "p = (k, v)" by (cases p)
  with Cons show ?case by (simp add: dvals_def dget_or_def split: if_splits)
qed (simp add: dvals_def dget_or_def)

lemma sum_count_kind:
  "sum_list (dvals (fold count_kind ns d)) = sum_list (dvals d) + length ns"
  by (induction ns arbitrary: d) (simp_all add: count_kind_def sum_dput_count [simplified])

lemma safety_summary_adds_up:
  "sum_list (dvals (sf_by_kind (monthly_safety_summary y m l))) = sf_prevented (monthly_safety_summary y m l)"
  using sum_count_kind [of "filter (\<lambda>n. in_month y m (nm_at n)) (pl_near l)" "[]"]
  by (simp add: monthly_safety_summary_def Let_def dvals_def)

lemma audit_completeness_bounds: "0 \<le> audit_completeness p" "audit_completeness p \<le> 1"
  by (auto simp: audit_completeness_def Let_def divide_le_eq simp del: filter_filter)

end
