(* ===== verification/DecisionQuality.thy ===== *)
theory DecisionQuality
  imports PreTrade
begin

text \<open>
  \<open>services/pdca/decision_quality.py\<close>: every decision is recorded once, observed at fixed horizons
  and graded with outcome and process apart; the monthly report and its trend. A value of
  type \<open>Any\<close> in a snapshot is its JSON text. An
  evaluation is the object the engine holds for a decision, updated in its dictionary.
\<close>

section \<open>State\<close>

definition TRACK_HORIZONS :: "(string, int) dict" where
  "TRACK_HORIZONS = [(''1h'', 60 * minutes_us), (''1d'', days_us), (''3d'', 3 * days_us), (''1w'', 7 * days_us)]"

definition EXTENDED_HORIZONS :: "(string, int) dict" where
  "EXTENDED_HORIZONS = [(''1m'', 30 * days_us), (''3m'', 91 * days_us), (''6m'', 182 * days_us)]"

definition HORIZON_ALIASES :: "(string, int) dict" where
  "HORIZON_ALIASES = TRACK_HORIZONS @ EXTENDED_HORIZONS"

datatype outcome_class = OC_GOOD | OC_MIXED | OC_BAD | OC_PENDING

datatype avoidance_label = GOOD_AVOIDANCE | MISSED_OPPORTUNITY

record decision_snapshot =
  ds_id :: string
  ds_symbol :: string
  ds_ts :: pydt
  ds_price :: real
  ds_decision :: decision_action
  ds_confidence :: real
  ds_horizon :: string
  ds_range :: "real \<times> real"
  ds_scenarios :: "(string, real scenario_case) dict"
  ds_stop_plan :: "(string, string) dict option"
  ds_thesis :: string
  ds_invalidation :: "string list"
  ds_alphas :: "(string, real) dict"
  ds_news :: "string list"
  ds_institutional :: "string list"
  ds_regime :: string
  ds_portfolio :: "(string, string) dict"
  ds_model :: string
  ds_version :: string
  ds_prompt :: string
  ds_risk :: "(string, string) dict"
  ds_compliant :: bool
  ds_had_stop :: bool
  ds_skeptic :: bool
  ds_health :: bool

definition mk_decision_snapshot :: "decision_snapshot \<Rightarrow> exn + decision_snapshot" where
  "mk_decision_snapshot s =
     (if 0 < ds_price s \<and> 0 \<le> ds_confidence s \<and> ds_confidence s \<le> 1 then Inr s else Inl ValidationError)"

record observation =
  ob_price :: real
  ob_ret :: real
  ob_mae :: real
  ob_mfe :: real
  ob_at :: instant
  ob_bench :: real

record evaluation =
  ev_class :: outcome_class
  ev_label :: "avoidance_label option"
  ev_outcome :: real
  ev_process :: real
  ev_overall :: real
  ev_obs :: "(string, observation) dict"

definition new_evaluation :: evaluation where
  "new_evaluation = \<lparr>ev_class = OC_PENDING, ev_label = None, ev_outcome = 50, ev_process = 50,
     ev_overall = 50, ev_obs = []\<rparr>"

definition direction :: "decision_action \<Rightarrow> real" where
  "direction k = (if k \<in> {D_BUY, D_HOLD} then 1 else if k = D_SELL then - 1 else 0)"

record quality_engine =
  qe_snaps :: "(string, decision_snapshot) dict"
  qe_evals :: "(string, evaluation) dict"
  qe_good :: real
  qe_bad :: real
  qe_floor :: real

definition mk_quality_engine :: "real \<Rightarrow> real \<Rightarrow> real \<Rightarrow> quality_engine" where
  "mk_quality_engine good bad min_risk =
     \<lparr>qe_snaps = [], qe_evals = [], qe_good = good, qe_bad = bad, qe_floor = max min_risk eps\<rparr>"

section \<open>Recording\<close>

definition record_decision :: "decision_snapshot \<Rightarrow> (quality_engine, unit) act" where
  "record_decision s e =
     (case dget (qe_snaps e) (ds_id s) of
        Some old \<Rightarrow> (if old \<noteq> s then (Inl SnapshotTamperError, e) else (Inr (), e))
      | None \<Rightarrow> (Inr (), e\<lparr>qe_snaps := dput (qe_snaps e) (ds_id s) s,
                         qe_evals := dput (qe_evals e) (ds_id s) new_evaluation\<rparr>))"

section \<open>Tracking\<close>

definition observe ::
    "decision_snapshot \<Rightarrow> (string, observation) dict \<Rightarrow> instant \<Rightarrow> real \<Rightarrow> real \<Rightarrow> observation" where
  "observe s obs due px bench =
     (let r = px / ds_price s - 1;
          prior = filter (\<lambda>ob. ob_at ob \<le> due) (dvals obs);
          d = (if direction (ds_decision s) \<noteq> 0 then direction (ds_decision s) else 1);
          signed = r * d
      in \<lparr>ob_price = px, ob_ret = r,
          ob_mae = (if prior \<noteq> [] then fold (\<lambda>ob m. min m (ob_mae ob)) prior signed else min 0 signed),
          ob_mfe = (if prior \<noteq> [] then fold (\<lambda>ob m. max m (ob_mfe ob)) prior signed else max 0 signed),
          ob_at = due, ob_bench = bench\<rparr>)"

definition targets_of :: "bool \<Rightarrow> decision_snapshot \<Rightarrow> (string, int) dict" where
  "targets_of include_extended s =
     (let horizons = TRACK_HORIZONS @ (if include_extended then EXTENDED_HORIZONS else [])
      in case dget HORIZON_ALIASES (ds_horizon s) of
           None \<Rightarrow> horizons
         | Some d \<Rightarrow> horizons @ [(''expected'', d)])"

text \<open>The inner loop over the targets, counting what it observes.\<close>

fun observe_targets ::
    "instant \<Rightarrow> (string \<Rightarrow> instant \<Rightarrow> exn + real) \<Rightarrow> (instant \<Rightarrow> instant \<Rightarrow> exn + real) \<Rightarrow> decision_snapshot \<Rightarrow>
     (string \<times> int) list \<Rightarrow> nat \<Rightarrow> ((string, observation) dict, nat) act" where
  "observe_targets now price bench s [] n obs = (Inr n, obs)"
| "observe_targets now price bench s ((label, delta) # ts) n obs =
     (case ensure_utc (ds_ts s) of Inl e \<Rightarrow> (Inl e, obs) | Inr t \<Rightarrow>
      let due = t + delta in
      if dhas obs label \<or> now < due then observe_targets now price bench s ts n obs
      else case price (ds_symbol s) due of Inl e \<Rightarrow> (Inl e, obs) | Inr px \<Rightarrow>
           case bench t due of Inl e \<Rightarrow> (Inl e, obs) | Inr b \<Rightarrow>
             observe_targets now price bench s ts (n + 1) (dput obs label (observe s obs due px b)))"

section \<open>Grading\<close>

definition key_observation :: "(string, observation) dict \<Rightarrow> observation option" where
  "key_observation obs = (case dget obs ''expected'' of Some ob \<Rightarrow> Some ob | None \<Rightarrow> dget obs ''1w'')"

definition outcome_of ::
    "quality_engine \<Rightarrow> decision_action \<Rightarrow> observation \<Rightarrow> outcome_class \<times> avoidance_label option \<times> real" where
  "outcome_of e k ob =
     (let d = direction k in
      if d \<noteq> 0 then
        (let alpha_ret = ob_ret ob * d - ob_bench ob * d;
             cls = (if qe_good e \<le> alpha_ret then OC_GOOD else if alpha_ret \<le> - qe_bad e then OC_BAD else OC_MIXED);
             risk_taken = max \<bar>ob_mae ob\<bar> (qe_floor e);
             ratio = alpha_ret / risk_taken
         in (cls, None, max 0 (min 100 (50 + 50 * tanh (ratio / 3)))))
      else if ob_ret ob \<le> - qe_bad e then (OC_GOOD, Some GOOD_AVOIDANCE, min 100 (50 - 100 * ob_ret ob))
      else if qe_good e \<le> ob_ret ob then (OC_MIXED, Some MISSED_OPPORTUNITY, max 0 (50 - 100 * ob_ret ob))
      else (OC_MIXED, None, 50))"

definition process_score :: "decision_snapshot \<Rightarrow> real" where
  "process_score s =
     max 0 (100 - (if ds_compliant s then 0 else 60)
            - (if ds_decision s \<in> {D_BUY, D_SELL} \<and> \<not> ds_had_stop s then 30 else 0)
            - (if ds_skeptic s then 0 else 10)
            - (if ds_health s then 0 else 20))"

definition overall_score :: "decision_snapshot \<Rightarrow> real \<Rightarrow> real \<Rightarrow> real" where
  "overall_score s outcome process =
     (let v = 45/100 * outcome + 55/100 * process
      in py_round 2 (if ds_compliant s then v else min v 40))"

text \<open>A label once given stays when a later run gives none.\<close>

definition grade_decision :: "quality_engine \<Rightarrow> decision_snapshot \<Rightarrow> evaluation \<Rightarrow> evaluation" where
  "grade_decision e s v =
     (case key_observation (ev_obs v) of
        None \<Rightarrow> v\<lparr>ev_class := OC_PENDING\<rparr>
      | Some ob \<Rightarrow>
          (let (cls, lab, outcome) = outcome_of e (ds_decision s) ob; process = process_score s
           in v\<lparr>ev_class := cls, ev_label := (case lab of None \<Rightarrow> ev_label v | Some x \<Rightarrow> Some x),
                ev_outcome := outcome, ev_process := process, ev_overall := overall_score s outcome process\<rparr>))"

text \<open>One decision of the loop of \<open>track\<close>; observations made before an exception stay.\<close>

definition track_one ::
    "instant \<Rightarrow> (string \<Rightarrow> instant \<Rightarrow> exn + real) \<Rightarrow> bool \<Rightarrow> (instant \<Rightarrow> instant \<Rightarrow> exn + real) \<Rightarrow>
     string \<times> decision_snapshot \<Rightarrow> (quality_engine, nat) act" where
  "track_one now price ext bench p e =
     (let (did, s) = p in
      case dget (qe_evals e) did of
        None \<Rightarrow> (Inl KeyError, e)
      | Some v \<Rightarrow>
          (case observe_targets now price bench s (targets_of ext s) 0 (ev_obs v) of
             (Inl x, obs) \<Rightarrow> (Inl x, e\<lparr>qe_evals := dput (qe_evals e) did (v\<lparr>ev_obs := obs\<rparr>)\<rparr>)
           | (Inr n, obs) \<Rightarrow> (Inr n, e\<lparr>qe_evals := dput (qe_evals e) did (grade_decision e s (v\<lparr>ev_obs := obs\<rparr>))\<rparr>)))"

fun track_loop ::
    "instant \<Rightarrow> (string \<Rightarrow> instant \<Rightarrow> exn + real) \<Rightarrow> bool \<Rightarrow> (instant \<Rightarrow> instant \<Rightarrow> exn + real) \<Rightarrow>
     (string \<times> decision_snapshot) list \<Rightarrow> nat \<Rightarrow> (quality_engine, nat) act" where
  "track_loop now price ext bench [] n e = (Inr n, e)"
| "track_loop now price ext bench (p # ps) n e =
     (case track_one now price ext bench p e of
        (Inl x, e') \<Rightarrow> (Inl x, e')
      | (Inr m, e') \<Rightarrow> track_loop now price ext bench ps (n + m) e')"

text \<open>Without a benchmark function the benchmark is 0.\<close>

definition track_decisions ::
    "pydt \<Rightarrow> (string \<Rightarrow> instant \<Rightarrow> exn + real) \<Rightarrow> bool \<Rightarrow> (instant \<Rightarrow> instant \<Rightarrow> exn + real) option \<Rightarrow>
     (quality_engine, nat) act" where
  "track_decisions a_t price ext benchmark e =
     (case ensure_utc a_t of Inl x \<Rightarrow> (Inl x, e) | Inr now \<Rightarrow>
      track_loop now price ext (case benchmark of None \<Rightarrow> (\<lambda>_ _. Inr 0) | Some f \<Rightarrow> f) (qe_snaps e) 0 e)"

section \<open>The monthly report\<close>

definition bucket :: "real \<Rightarrow> string" where
  "bucket c = (if 9/10 \<le> c then ''>=90%'' else if 8/10 \<le> c then ''80-89%''
     else if 7/10 \<le> c then ''70-79%'' else ''<70%'')"

type_synonym 'k stats = "('k, nat \<times> nat) dict"

text \<open>\<open>setdefault(k, {"total": 0, "good": 0})["total"] += 1\<close>, and \<open>["good"] += 1\<close>.\<close>

definition tally_stat :: "'k stats \<Rightarrow> 'k \<Rightarrow> bool \<Rightarrow> 'k stats" where
  "tally_stat d k good =
     (let (n, g) = dget_or d k (0, 0) in dput d k (n + 1, g + (if good then 1 else 0)))"

record month_acc =
  ma_total :: nat
  ma_counts :: "(outcome_class, nat) dict"
  ma_kinds :: "decision_action stats"
  ma_confs :: "string stats"
  ma_regimes :: "string stats"
  ma_scores :: "real list"
  ma_good :: "real list"
  ma_bad :: "real list"
  ma_all :: "real list"
  ma_maes :: "real list"
  ma_mfes :: "real list"

definition empty_acc :: month_acc where
  "empty_acc = \<lparr>ma_total = 0, ma_counts = [], ma_kinds = [], ma_confs = [], ma_regimes = [], ma_scores = [],
     ma_good = [], ma_bad = [], ma_all = [], ma_maes = [], ma_mfes = []\<rparr>"

definition signed_return :: "decision_action \<Rightarrow> observation \<Rightarrow> real" where
  "signed_return k ob = (if direction k \<noteq> 0 then ob_ret ob * direction k else - ob_ret ob)"

definition month_step :: "decision_snapshot \<Rightarrow> evaluation \<Rightarrow> month_acc \<Rightarrow> month_acc" where
  "month_step s v a =
     (let good = (ev_class v = OC_GOOD);
          a = a\<lparr>ma_total := ma_total a + 1,
                ma_counts := dput (ma_counts a) (ev_class v) (dget_or (ma_counts a) (ev_class v) 0 + 1),
                ma_kinds := tally_stat (ma_kinds a) (ds_decision s) good,
                ma_confs := tally_stat (ma_confs a) (bucket (ds_confidence s)) good,
                ma_regimes := tally_stat (ma_regimes a) (ds_regime s) good\<rparr>
      in if ev_class v = OC_PENDING then a
         else (let a = a\<lparr>ma_scores := ma_scores a @ [ev_overall v]\<rparr> in
           case key_observation (ev_obs v) of
             None \<Rightarrow> a
           | Some ob \<Rightarrow>
               (let signed = signed_return (ds_decision s) ob in
                a\<lparr>ma_all := ma_all a @ [signed],
                  ma_good := (if good then ma_good a @ [signed] else ma_good a),
                  ma_bad := (if \<not> good \<and> ev_class v = OC_BAD then ma_bad a @ [signed] else ma_bad a),
                  ma_maes := ma_maes a @ [ob_mae ob], ma_mfes := ma_mfes a @ [ob_mfe ob]\<rparr>)))"

fun month_loop ::
    "int \<Rightarrow> int \<Rightarrow> quality_engine \<Rightarrow> (string \<times> decision_snapshot) list \<Rightarrow> month_acc \<Rightarrow> exn + month_acc" where
  "month_loop y m e [] a = Inr a"
| "month_loop y m e ((did, s) # ps) a =
     (case ensure_utc (ds_ts s) of Inl x \<Rightarrow> Inl x | Inr t \<Rightarrow>
      if \<not> in_month y m t then month_loop y m e ps a
      else case dget (qe_evals e) did of None \<Rightarrow> Inl KeyError
           | Some v \<Rightarrow> month_loop y m e ps (month_step s v a))"

record monthly_report =
  mr_total :: nat
  mr_counts :: "(outcome_class, nat) dict"
  mr_by_kind :: "(decision_action, nat \<times> real) dict"
  mr_average :: real
  mr_good_return :: real
  mr_bad_loss :: real
  mr_expected :: real
  mr_mae :: real
  mr_mfe :: real
  mr_confidence :: "(string, nat \<times> real) dict"
  mr_by_regime :: "(string, nat \<times> real) dict"

definition mean_or0 :: "real list \<Rightarrow> real" where
  "mean_or0 xs = (if xs = [] then 0 else mean xs)"

definition good_pct :: "'k stats \<Rightarrow> ('k, nat \<times> real) dict" where
  "good_pct d = map (\<lambda>(k, n, g). (k, n, if n = 0 then 0 else real g / real n)) d"

definition report_of :: "month_acc \<Rightarrow> monthly_report" where
  "report_of a =
     \<lparr>mr_total = ma_total a, mr_counts = ma_counts a, mr_by_kind = good_pct (ma_kinds a),
      mr_average = (if ma_scores a = [] then 0 else py_round 2 (mean (ma_scores a))),
      mr_good_return = mean_or0 (ma_good a), mr_bad_loss = mean_or0 (ma_bad a),
      mr_expected = mean_or0 (ma_all a), mr_mae = mean_or0 (ma_maes a), mr_mfe = mean_or0 (ma_mfes a),
      mr_confidence = good_pct (ma_confs a), mr_by_regime = good_pct (ma_regimes a)\<rparr>"

definition monthly :: "quality_engine \<Rightarrow> int \<Rightarrow> int \<Rightarrow> exn + monthly_report" where
  "monthly e y m = (case month_loop y m e (qe_snaps e) empty_acc of Inl x \<Rightarrow> Inl x | Inr a \<Rightarrow> Inr (report_of a))"

definition class_pct :: "monthly_report \<Rightarrow> outcome_class \<Rightarrow> real" where
  "class_pct r c = (if mr_total r = 0 then 0 else real (dget_or (mr_counts r) c 0) / real (mr_total r))"

record trend_point =
  tp_month :: "int \<times> int"
  tp_total :: nat
  tp_good_pct :: real
  tp_resolved_pct :: real
  tp_average :: real
  tp_by_regime :: "(string, nat \<times> real) dict"

definition trend_point_of :: "int \<times> int \<Rightarrow> monthly_report \<Rightarrow> trend_point" where
  "trend_point_of ym r =
     (let resolved = mr_total r - dget_or (mr_counts r) OC_PENDING 0; good = dget_or (mr_counts r) OC_GOOD 0
      in \<lparr>tp_month = ym, tp_total = mr_total r, tp_good_pct = class_pct r OC_GOOD,
          tp_resolved_pct = (if resolved = 0 then 0 else real good / real resolved),
          tp_average = mr_average r, tp_by_regime = mr_by_regime r\<rparr>)"

fun quality_trend :: "quality_engine \<Rightarrow> (int \<times> int) list \<Rightarrow> exn + trend_point list" where
  "quality_trend e [] = Inr []"
| "quality_trend e ((y, m) # yms) =
     (case monthly e y m of Inl x \<Rightarrow> Inl x | Inr r \<Rightarrow>
      case quality_trend e yms of Inl x \<Rightarrow> Inl x | Inr rest \<Rightarrow> Inr (trend_point_of (y, m) r # rest))"

section \<open>Excursions\<close>

lemma fold_min_le: "fold (\<lambda>ob m. min m (f ob)) obs x \<le> (x :: real)"
proof (induction obs arbitrary: x)
  case (Cons o1 obs)
  show ?case using Cons.IH [of "min x (f o1)"] by simp
qed simp

lemma fold_min_member: "ob \<in> set obs \<Longrightarrow> fold (\<lambda>ob m. min m (f ob)) obs x \<le> (f ob :: real)"
proof (induction obs arbitrary: x)
  case (Cons o1 obs)
  then show ?case using fold_min_le [of f obs "min x (f o1)"] by auto
qed simp

lemma le_fold_max: "(x :: real) \<le> fold (\<lambda>ob m. max m (f ob)) obs x"
proof (induction obs arbitrary: x)
  case (Cons o1 obs)
  show ?case using Cons.IH [of "max x (f o1)"] by simp
qed simp

lemma member_fold_max: "ob \<in> set obs \<Longrightarrow> (f ob :: real) \<le> fold (\<lambda>ob m. max m (f ob)) obs x"
proof (induction obs arbitrary: x)
  case (Cons o1 obs)
  then show ?case using le_fold_max [of "max x (f o1)" f obs] by auto
qed simp

text \<open>The return an observation has for the stance that was taken.\<close>

definition stance_return :: "decision_snapshot \<Rightarrow> observation \<Rightarrow> real" where
  "stance_return s ob = ob_ret ob * (if direction (ds_decision s) \<noteq> 0 then direction (ds_decision s) else 1)"

definition obs_ok :: "decision_snapshot \<Rightarrow> observation \<Rightarrow> bool" where
  "obs_ok s ob \<longleftrightarrow> ob_ret ob = ob_price ob / ds_price s - 1 \<and> ob_mae ob \<le> 0 \<and> 0 \<le> ob_mfe ob \<and> ob_mae ob \<le> stance_return s ob \<and> stance_return s ob \<le> ob_mfe ob"

lemma observe_ok:
  assumes "\<forall>ob \<in> set (dvals obs). obs_ok s ob"
  shows "obs_ok s (observe s obs due px b)"
proof (cases "filter (\<lambda>ob. ob_at ob \<le> due) (dvals obs)")
  case Nil
  then show ?thesis by (auto simp: observe_def obs_ok_def stance_return_def Let_def)
next
  case (Cons o1 os)
  define prior where "prior = o1 # os"
  define x where "x = (px / ds_price s - 1) * (if direction (ds_decision s) \<noteq> 0 then direction (ds_decision s) else 1)"
  have "o1 \<in> set (filter (\<lambda>ob. ob_at ob \<le> due) (dvals obs))" unfolding Cons by simp
  then have o1: "o1 \<in> set prior" "obs_ok s o1" using assms by (simp_all add: prior_def)
  have "fold (\<lambda>ob m. min m (ob_mae ob)) prior x \<le> ob_mae o1" "ob_mfe o1 \<le> fold (\<lambda>ob m. max m (ob_mfe ob)) prior x"
    by (rule fold_min_member [OF o1(1)], rule member_fold_max [OF o1(1)])
  with o1(2) show ?thesis
    using fold_min_le [of ob_mae prior x] le_fold_max [of x ob_mfe prior] Cons
    by (simp add: observe_def obs_ok_def stance_return_def Let_def prior_def [symmetric] x_def [symmetric])
qed

section \<open>Observations are made once, at their time\<close>

text \<open>Every observation is that of one of the horizons, taken at its due time.\<close>

definition timely :: "decision_snapshot \<Rightarrow> (string \<times> int) list \<Rightarrow> (string, observation) dict \<Rightarrow> bool" where
  "timely s ts obs \<longleftrightarrow> (\<forall>label ob. dget obs label = Some ob \<longrightarrow>
     obs_ok s ob \<and> (\<exists>t delta. ds_ts s = Aware t \<and> (label, delta) \<in> set ts \<and> ob_at ob = t + delta))"

lemma timely_vals: "timely s ts obs \<Longrightarrow> dict_ok obs \<Longrightarrow> \<forall>ob \<in> set (dvals obs). obs_ok s ob"
  by (force simp: timely_def dvals_def in_set_dget)

lemma timely_mono: "timely s ts obs \<Longrightarrow> set ts \<subseteq> set ts' \<Longrightarrow> timely s ts' obs"
  unfolding timely_def by blast

lemma observe_targets_spec:
  "observe_targets now price bench s ts n obs = (r, obs') \<Longrightarrow> timely s all obs \<Longrightarrow> dict_ok obs \<Longrightarrow>
    set ts \<subseteq> set all \<Longrightarrow>
    timely s all obs' \<and> dict_ok obs' \<and>
    (\<forall>label ob. dget obs label = Some ob \<longrightarrow> dget obs' label = Some ob) \<and>
    (\<forall>label ob. dget obs' label = Some ob \<longrightarrow> dget obs label = Some ob \<or> ob_at ob \<le> now)"
proof (induction ts arbitrary: n obs)
  case Nil
  then show ?case by simp
next
  case (Cons p ts)
  obtain label delta where p: "p = (label, delta)" by (cases p)
  have sub: "set ts \<subseteq> set all" "(label, delta) \<in> set all" using Cons.prems(4) p by auto
  show ?case
  proof (cases "ds_ts s")
    case (Naive x)
    with Cons.prems p show ?thesis by simp
  next
    case (Aware t)
    let ?due = "t + delta"
    show ?thesis
    proof (cases "dhas obs label \<or> now < ?due")
      case True
      with Cons.prems(1) Aware p have "observe_targets now price bench s ts n obs = (r, obs')" by simp
      from Cons.IH [OF this Cons.prems(2,3) sub(1)] show ?thesis .
    next
      case False
      then have new: "dget obs label = None" "?due \<le> now" by (auto simp: dhas_def)
      consider e where "price (ds_symbol s) ?due = Inl e \<or> bench t ?due = Inl e"
        | px b where "price (ds_symbol s) ?due = Inr px" "bench t ?due = Inr b"
        by (cases "price (ds_symbol s) ?due"; cases "bench t ?due") auto
      then show ?thesis
      proof cases
        case 1
        with Cons.prems(1) Aware False p have "obs' = obs" by (auto simp: Let_def split: sum.splits)
        with Cons.prems show ?thesis by simp
      next
        case 2
        let ?ob = "observe s obs ?due px b" and ?obs = "dput obs label (observe s obs ?due px b)"
        have run: "observe_targets now price bench s ts (n + 1) ?obs = (r, obs')"
          using Cons.prems(1) Aware False p 2 by simp
        have time: "ob_at ?ob = ?due" by (simp add: observe_def Let_def)
        have ok: "obs_ok s ?ob" using timely_vals [OF Cons.prems(2,3)] by (rule observe_ok)
        have "timely s all ?obs"
          using Cons.prems(2) sub(2) ok time Aware by (auto simp: timely_def dget_dput)
        moreover have "dict_ok ?obs" using Cons.prems(3) by (rule dict_ok_dput)
        ultimately have ih: "timely s all obs' \<and> dict_ok obs' \<and>
            (\<forall>label ob. dget ?obs label = Some ob \<longrightarrow> dget obs' label = Some ob) \<and>
            (\<forall>label ob. dget obs' label = Some ob \<longrightarrow> dget ?obs label = Some ob \<or> ob_at ob \<le> now)"
          using Cons.IH [OF run] sub(1) by blast
        have "dget obs' k = Some x" if "dget obs k = Some x" for k x
        proof -
          have "k \<noteq> label" using that new(1) by auto
          then have "dget ?obs k = Some x" using that by (simp add: dget_dput)
          with ih show ?thesis by blast
        qed
        moreover have "dget obs k = Some x \<or> ob_at x \<le> now" if "dget obs' k = Some x" for k x
        proof -
          have "dget ?obs k = Some x \<or> ob_at x \<le> now" using ih that by blast
          then show ?thesis using time new(2) by (auto simp: dget_dput split: if_splits)
        qed
        ultimately show ?thesis using ih by blast
      qed
    qed
  qed
qed

section \<open>Scores\<close>

lemma py_round_of_int: "py_round n (of_int k) = of_int k"
  using round_half_even_of_int [of "k * 10 ^ n"] by (simp add: py_round_def)

definition engine_sane :: "quality_engine \<Rightarrow> bool" where
  "engine_sane e \<longleftrightarrow> 0 \<le> qe_good e \<and> 0 \<le> qe_bad e \<and> 0 < qe_floor e"

lemma outcome_of_sound:
  assumes "engine_sane e" and "outcome_of e k ob = (cls, lab, out)"
  shows "0 \<le> out \<and> out \<le> 100 \<and> cls \<noteq> OC_PENDING \<and> (cls = OC_GOOD \<longrightarrow> 50 \<le> out) \<and> (cls = OC_BAD \<longrightarrow> out \<le> 50)"
proof (cases "direction k = 0")
  case True
  with assms show ?thesis
    by (auto simp: outcome_of_def Let_def engine_sane_def split: if_splits)
next
  case False
  define alpha where "alpha = ob_ret ob * direction k - ob_bench ob * direction k"
  define risk where "risk = max \<bar>ob_mae ob\<bar> (qe_floor e)"
  define t where "t = tanh (alpha / risk / 3)"
  have risk: "0 < risk" using assms(1) by (simp add: risk_def engine_sane_def less_max_iff_disj)
  have t: "- 1 < t" "t < 1" by (simp_all add: t_def tanh_real_gt_neg1 tanh_real_lt_1)
  have sign: "0 \<le> alpha \<Longrightarrow> 0 \<le> t" "alpha \<le> 0 \<Longrightarrow> t \<le> 0"
    using risk by (simp_all add: t_def divide_le_0_iff)
  have "outcome_of e k ob =
      (if qe_good e \<le> alpha then OC_GOOD else if alpha \<le> - qe_bad e then OC_BAD else OC_MIXED, None,
       max 0 (min 100 (50 + 50 * t)))"
    using False by (simp only: outcome_of_def Let_def alpha_def risk_def t_def not_False_eq_True if_True)
  with assms(2) have out: "out = max 0 (min 100 (50 + 50 * t))"
    and cls: "cls = (if qe_good e \<le> alpha then OC_GOOD else if alpha \<le> - qe_bad e then OC_BAD else OC_MIXED)"
    by auto
  have "50 \<le> out" if "cls = OC_GOOD"
  proof -
    have "0 \<le> alpha" using that cls assms(1) by (auto simp: engine_sane_def split: if_splits)
    with sign(1) out show ?thesis by simp
  qed
  moreover have "out \<le> 50" if "cls = OC_BAD"
  proof -
    have "alpha \<le> 0" using that cls assms(1) by (auto simp: engine_sane_def split: if_splits)
    with sign(2) out show ?thesis by simp
  qed
  moreover have "0 \<le> out" "out \<le> 100" "cls \<noteq> OC_PENDING" using out cls by (simp_all split: if_splits)
  ultimately show ?thesis by blast
qed

lemma process_score_bounds: "0 \<le> process_score s" "process_score s \<le> 100"
  by (simp_all add: process_score_def)

lemma overall_score_bounds:
  assumes "0 \<le> x" "x \<le> 100" "0 \<le> y" "y \<le> 100"
  shows "0 \<le> overall_score s x y" and "overall_score s x y \<le> 100"
    and "\<not> ds_compliant s \<Longrightarrow> overall_score s x y \<le> 40"
proof -
  let ?v = "45/100 * x + 55/100 * y"
  have v: "0 \<le> ?v" "?v \<le> 100" using assms by linarith+
  have "0 \<le> min ?v 40" "min ?v 40 \<le> 100" using v by simp_all
  with v show "0 \<le> overall_score s x y" "overall_score s x y \<le> 100"
    using py_round_mono [of "min ?v 40" 100 2] py_round_mono [of ?v 100 2] py_round_of_int [of 2 100]
    by (simp_all add: overall_score_def Let_def py_round_nonneg)
  show "overall_score s x y \<le> 40" if "\<not> ds_compliant s"
    using that py_round_mono [of "min ?v 40" 40 2] py_round_of_int [of 2 40]
    by (simp add: overall_score_def Let_def)
qed

section \<open>The invariant of the engine\<close>

definition scored :: "decision_snapshot \<Rightarrow> evaluation \<Rightarrow> bool" where
  "scored s v \<longleftrightarrow> 0 \<le> ev_outcome v \<and> ev_outcome v \<le> 100 \<and> 0 \<le> ev_process v \<and> ev_process v \<le> 100 \<and>
     0 \<le> ev_overall v \<and> ev_overall v \<le> 100 \<and>
     (ev_class v \<noteq> OC_PENDING \<and> \<not> ds_compliant s \<longrightarrow> ev_overall v \<le> 40) \<and>
     (ev_class v = OC_GOOD \<longrightarrow> 50 \<le> ev_outcome v) \<and> (ev_class v = OC_BAD \<longrightarrow> ev_outcome v \<le> 50)"

definition eval_ok :: "decision_snapshot \<Rightarrow> evaluation \<Rightarrow> bool" where
  "eval_ok s v \<longleftrightarrow> timely s (targets_of True s) (ev_obs v) \<and> dict_ok (ev_obs v) \<and> scored s v"

definition quality_inv :: "quality_engine \<Rightarrow> bool" where
  "quality_inv e \<longleftrightarrow> engine_sane e \<and> dict_ok (qe_snaps e) \<and>
     (\<forall>did s. dget (qe_snaps e) did = Some s \<longrightarrow> (\<exists>v. dget (qe_evals e) did = Some v \<and> eval_ok s v))"

lemma new_evaluation_ok: "eval_ok s new_evaluation"
  by (simp add: eval_ok_def timely_def scored_def new_evaluation_def)

lemma grade_decision_ok:
  assumes "engine_sane e" and "eval_ok s v"
  shows "eval_ok s (grade_decision e s v)"
proof (cases "key_observation (ev_obs v)")
  case None
  with assms(2) show ?thesis by (simp add: grade_decision_def eval_ok_def scored_def)
next
  case (Some ob)
  obtain cls lab x where o1: "outcome_of e (ds_decision s) ob = (cls, lab, x)" by (cases "outcome_of e (ds_decision s) ob")
  note out = outcome_of_sound [OF assms(1) o1] and proc = process_score_bounds [of s]
  show ?thesis
    using Some o1 assms(2) out proc overall_score_bounds [of x "process_score s" s]
    by (simp add: grade_decision_def eval_ok_def scored_def Let_def)
qed

lemma targets_subset: "set (targets_of ext s) \<subseteq> set (targets_of True s)"
  by (auto simp: targets_of_def Let_def split: option.splits)

text \<open>What one decision of the loop of \<open>track\<close> does to the others and to its own observations.\<close>

definition evolves :: "instant \<Rightarrow> evaluation \<Rightarrow> evaluation \<Rightarrow> bool" where
  "evolves now v v' \<longleftrightarrow>
     (\<forall>label ob. dget (ev_obs v) label = Some ob \<longrightarrow> dget (ev_obs v') label = Some ob) \<and>
     (\<forall>label ob. dget (ev_obs v') label = Some ob \<longrightarrow> dget (ev_obs v) label = Some ob \<or> ob_at ob \<le> now)"

lemma evolves_refl: "evolves now v v"
  by (simp add: evolves_def)

lemma evolves_trans: "evolves now u v \<Longrightarrow> evolves now v w \<Longrightarrow> evolves now u w"
  unfolding evolves_def by metis

lemma ev_obs_grade [simp]: "ev_obs (grade_decision e s v) = ev_obs v"
  by (simp add: grade_decision_def Let_def split: option.splits prod.splits)

lemma track_one_spec:
  assumes inv: "quality_inv e" and p: "dget (qe_snaps e) (fst p) = Some (snd p)"
    and run: "track_one now price ext bench p e = (r, e')"
  shows "quality_inv e' \<and> qe_snaps e' = qe_snaps e \<and>
    (\<forall>did v. dget (qe_evals e) did = Some v \<longrightarrow> (\<exists>v'. dget (qe_evals e') did = Some v' \<and> evolves now v v'))"
proof -
  obtain did s where ds: "p = (did, s)" by (cases p)
  obtain v where v: "dget (qe_evals e) did = Some v" "eval_ok s v"
    using inv p ds by (auto simp: quality_inv_def)
  obtain q obs where o1: "observe_targets now price bench s (targets_of ext s) 0 (ev_obs v) = (q, obs)"
    by (cases "observe_targets now price bench s (targets_of ext s) 0 (ev_obs v)")
  note spec = observe_targets_spec [OF o1, of "targets_of True s"]
  have ok: "eval_ok s (v\<lparr>ev_obs := obs\<rparr>)"
    using spec v(2) targets_subset [of ext s] by (simp add: eval_ok_def scored_def)
  have ev: "evolves now v (v\<lparr>ev_obs := obs\<rparr>)"
    using spec v(2) targets_subset [of ext s] by (simp add: eval_ok_def evolves_def)
  have sane: "engine_sane e" using inv by (simp add: quality_inv_def)
  obtain v' where v': "e' = e\<lparr>qe_evals := dput (qe_evals e) did v'\<rparr>" "eval_ok s v'" "evolves now v v'"
  proof (cases q)
    case (Inl x)
    with run ds v(1) o1 have "e' = e\<lparr>qe_evals := dput (qe_evals e) did (v\<lparr>ev_obs := obs\<rparr>)\<rparr>"
      by (simp add: track_one_def)
    with ok ev show ?thesis by (intro that)
  next
    case (Inr n)
    with run ds v(1) o1 have "e' = e\<lparr>qe_evals := dput (qe_evals e) did (grade_decision e s (v\<lparr>ev_obs := obs\<rparr>))\<rparr>"
      by (simp add: track_one_def)
    moreover have "evolves now v (grade_decision e s (v\<lparr>ev_obs := obs\<rparr>))" using ev by (simp add: evolves_def)
    ultimately show ?thesis using grade_decision_ok [OF sane ok] by (intro that)
  qed
  have "quality_inv e'"
    using inv v'(1,2) p ds by (auto simp: quality_inv_def engine_sane_def dget_dput)
  then show ?thesis using v' v(1) by (auto simp: dget_dput evolves_refl)
qed

lemma track_loop_spec:
  assumes "track_loop now price ext bench ps n e = (r, e')" and "quality_inv e"
    and "\<forall>p \<in> set ps. dget (qe_snaps e) (fst p) = Some (snd p)"
  shows "quality_inv e' \<and> qe_snaps e' = qe_snaps e \<and>
    (\<forall>did v. dget (qe_evals e) did = Some v \<longrightarrow> (\<exists>v'. dget (qe_evals e') did = Some v' \<and> evolves now v v'))"
  using assms
proof (induction ps arbitrary: n e)
  case Nil
  then show ?case by (auto simp: evolves_refl)
next
  case (Cons p ps)
  obtain q e1 where q: "track_one now price ext bench p e = (q, e1)" by (cases "track_one now price ext bench p e")
  have one: "quality_inv e1" "qe_snaps e1 = qe_snaps e"
    "\<And>did v. dget (qe_evals e) did = Some v \<Longrightarrow> \<exists>v'. dget (qe_evals e1) did = Some v' \<and> evolves now v v'"
    using track_one_spec [OF Cons.prems(2) _ q] Cons.prems(3) by auto
  show ?case
  proof (cases q)
    case (Inl x)
    with q Cons.prems(1) one show ?thesis by simp
  next
    case (Inr m)
    with q Cons.prems(1) have "track_loop now price ext bench ps (n + m) e1 = (r, e')" by simp
    from Cons.IH [OF this one(1)] Cons.prems(3) one(2) have rest: "quality_inv e'" "qe_snaps e' = qe_snaps e"
      "\<And>did v. dget (qe_evals e1) did = Some v \<Longrightarrow> \<exists>v'. dget (qe_evals e') did = Some v' \<and> evolves now v v'"
      by auto
    then show ?thesis using one(3) evolves_trans by metis
  qed
qed

lemma track_decisions_spec:
  assumes "quality_inv e" and "track_decisions a_t price ext bench e = (r, e')"
  shows "quality_inv e' \<and> qe_snaps e' = qe_snaps e \<and>
    (\<forall>now did v. a_t = Aware now \<longrightarrow> dget (qe_evals e) did = Some v \<longrightarrow>
      (\<exists>v'. dget (qe_evals e') did = Some v' \<and> evolves now v v'))"
proof (cases a_t)
  case (Naive t)
  with assms show ?thesis by (simp add: track_decisions_def)
next
  case (Aware now)
  have "\<forall>p \<in> set (qe_snaps e). dget (qe_snaps e) (fst p) = Some (snd p)"
    using assms(1) by (auto simp: quality_inv_def in_set_dget [symmetric])
  then show ?thesis
    using assms Aware track_loop_spec [of now price ext _ "qe_snaps e" 0 e r e']
    by (simp add: track_decisions_def)
qed

lemma record_decision_spec:
  assumes "quality_inv e" and "record_decision s e = (r, e')"
  shows "quality_inv e' \<and> (\<forall>did x. dget (qe_snaps e) did = Some x \<longrightarrow>
    dget (qe_snaps e') did = Some x \<and> dget (qe_evals e') did = dget (qe_evals e) did)"
  using assms new_evaluation_ok [of s]
  by (auto simp: record_decision_def quality_inv_def engine_sane_def dget_dput split: option.splits if_splits)

inductive quality_step :: "quality_engine \<Rightarrow> quality_engine \<Rightarrow> bool" where
  step_record: "mk_decision_snapshot s = Inr s' \<Longrightarrow> record_decision s' e = (r, e') \<Longrightarrow> quality_step e e'"
| step_track: "track_decisions a_t price ext bench e = (n, e') \<Longrightarrow> quality_step e e'"

lemma quality_step_inv: "quality_step e e' \<Longrightarrow> quality_inv e \<Longrightarrow> quality_inv e'"
  by (cases rule: quality_step.cases) (auto dest: record_decision_spec track_decisions_spec)

lemma quality_steps_inv: "quality_step\<^sup>*\<^sup>* e e' \<Longrightarrow> quality_inv e \<Longrightarrow> quality_inv e'"
  by (induction rule: rtranclp_induct) (auto intro: quality_step_inv)

lemma mk_quality_engine_inv: "0 \<le> good \<Longrightarrow> 0 \<le> bad \<Longrightarrow> quality_inv (mk_quality_engine good bad risk_floor)"
  by (simp add: quality_inv_def mk_quality_engine_def engine_sane_def less_max_iff_disj)

section \<open>The observation that decides the grade\<close>

text \<open>
  A graded decision carries the grade of its key observation, under the thresholds of the
  engine \<open>e0\<close>; a pending one has no observation at its expected horizon and the initial scores.
\<close>

definition follows :: "quality_engine \<Rightarrow> decision_snapshot \<Rightarrow> evaluation \<Rightarrow> bool" where
  "follows e0 s v \<longleftrightarrow>
     (if ev_class v = OC_PENDING
      then dget (ev_obs v) ''expected'' = None \<and> ev_outcome v = 50 \<and> ev_process v = 50 \<and> ev_overall v = 50
      else \<exists>ob lab. key_observation (ev_obs v) = Some ob \<and>
        outcome_of e0 (ds_decision s) ob = (ev_class v, lab, ev_outcome v) \<and>
        ev_process v = process_score s \<and> ev_overall v = overall_score s (ev_outcome v) (ev_process v) \<and>
        (lab \<noteq> None \<longrightarrow> ev_label v = lab))"

definition same_thresholds :: "quality_engine \<Rightarrow> quality_engine \<Rightarrow> bool" where
  "same_thresholds e0 e \<longleftrightarrow> qe_good e = qe_good e0 \<and> qe_bad e = qe_bad e0 \<and> qe_floor e = qe_floor e0"

definition follows_inv :: "quality_engine \<Rightarrow> quality_engine \<Rightarrow> bool" where
  "follows_inv e0 e \<longleftrightarrow> quality_inv e \<and> same_thresholds e0 e \<and>
     (\<forall>did s v. dget (qe_snaps e) did = Some s \<longrightarrow> dget (qe_evals e) did = Some v \<longrightarrow> follows e0 s v)"

lemma outcome_of_cong: "same_thresholds e0 e \<Longrightarrow> outcome_of e k ob = outcome_of e0 k ob"
  by (simp add: outcome_of_def same_thresholds_def Let_def)

lemma key_observation_kept:
  assumes "\<And>l. dget obs l \<noteq> None \<Longrightarrow> dget obs' l = dget obs l"
    and "dget obs' ''expected'' = dget obs ''expected''" and "key_observation obs = Some ob"
  shows "key_observation obs' = Some ob"
  using assms(1) [of "''1w''"] assms(2,3) by (auto simp: key_observation_def split: option.splits)

text \<open>
  The expected horizon is the last target: a run that raises has not observed it, and what was
  observed before stays, so the key observation of a graded decision is the same as before.
\<close>

lemma expected_is_last:
  "observe_targets now price bench s ts n obs = (Inl x, obs') \<Longrightarrow> ''expected'' \<notin> fst ` set (butlast ts) \<Longrightarrow>
    dget obs' ''expected'' = dget obs ''expected''"
proof (induction ts arbitrary: n obs)
  case (Cons p ts)
  obtain label delta where p: "p = (label, delta)" by (cases p)
  show ?case
  proof (cases ts)
    case Nil
    with Cons.prems(1) p show ?thesis by (auto simp: Let_def split: sum.splits if_splits)
  next
    case (Cons q qs)
    then have l: "label \<noteq> ''expected''" "''expected'' \<notin> fst ` set (butlast ts)"
      using Cons.prems(2) p by auto
    have k: "dget (dput obs label ob) ''expected'' = dget obs ''expected''" for ob
      using l(1) by (simp add: dget_dput)
    show ?thesis
      using Cons.prems(1) p Cons.IH [OF _ l(2)] k by (auto simp: Let_def split: sum.splits if_splits)
  qed
qed simp

lemma targets_expected_last: "''expected'' \<notin> fst ` set (butlast (targets_of ext s))"
  by (auto simp: targets_of_def TRACK_HORIZONS_def EXTENDED_HORIZONS_def Let_def butlast_append
      split: option.splits if_splits)

lemma follows_grade:
  assumes t: "same_thresholds e0 e" and f: "follows e0 s v" and sane: "engine_sane e"
    and keep: "\<And>l. dget (ev_obs v) l \<noteq> None \<Longrightarrow> dget obs l = dget (ev_obs v) l"
  shows "follows e0 s (grade_decision e s (v\<lparr>ev_obs := obs\<rparr>))"
proof (cases "key_observation obs")
  case None
  then have n: "dget obs ''expected'' = None" "dget obs ''1w'' = None"
    by (auto simp: key_observation_def split: option.splits)
  then have "dget (ev_obs v) ''expected'' = None" "dget (ev_obs v) ''1w'' = None" using keep by metis+
  then have "ev_class v = OC_PENDING"
    using f by (auto simp: follows_def key_observation_def split: if_splits)
  with f None n show ?thesis by (simp add: grade_decision_def follows_def)
next
  case (Some ob)
  obtain cls lab x where o1: "outcome_of e (ds_decision s) ob = (cls, lab, x)"
    by (cases "outcome_of e (ds_decision s) ob")
  then have o0: "outcome_of e0 (ds_decision s) ob = (cls, lab, x)" using outcome_of_cong [OF t] by simp
  have "cls \<noteq> OC_PENDING" using outcome_of_sound [OF sane o1] by blast
  with Some o1 o0 show ?thesis
    by (auto simp: grade_decision_def follows_def Let_def split: option.splits)
qed

lemma follows_raised:
  assumes f: "follows e0 s v" and keep: "\<And>l. dget (ev_obs v) l \<noteq> None \<Longrightarrow> dget obs l = dget (ev_obs v) l"
    and x: "dget obs ''expected'' = dget (ev_obs v) ''expected''"
  shows "follows e0 s (v\<lparr>ev_obs := obs\<rparr>)"
  using f x key_observation_kept [OF keep x] by (auto simp: follows_def)

lemma track_one_follows:
  assumes inv: "follows_inv e0 e" and p: "dget (qe_snaps e) (fst p) = Some (snd p)"
    and run: "track_one now price ext bench p e = (r, e')"
  shows "follows_inv e0 e'"
proof -
  have q: "quality_inv e" and t: "same_thresholds e0 e" using inv by (simp_all add: follows_inv_def)
  obtain did s where ds: "p = (did, s)" by (cases p)
  obtain v where v: "dget (qe_evals e) did = Some v" "eval_ok s v"
    using q p ds by (auto simp: quality_inv_def)
  have f: "follows e0 s v" using inv p ds v(1) by (simp add: follows_inv_def)
  obtain w obs where o1: "observe_targets now price bench s (targets_of ext s) 0 (ev_obs v) = (w, obs)"
    by (cases "observe_targets now price bench s (targets_of ext s) 0 (ev_obs v)")
  have keep: "dget obs l = dget (ev_obs v) l" if "dget (ev_obs v) l \<noteq> None" for l
    using observe_targets_spec [OF o1, of "targets_of True s"] v(2) targets_subset [of ext s] that
    by (auto simp: eval_ok_def)
  have sane: "engine_sane e" using q by (simp add: quality_inv_def)
  have "\<exists>v'. e' = e\<lparr>qe_evals := dput (qe_evals e) did v'\<rparr> \<and> follows e0 s v'"
  proof (cases w)
    case (Inl x)
    with run ds v(1) o1 have "e' = e\<lparr>qe_evals := dput (qe_evals e) did (v\<lparr>ev_obs := obs\<rparr>)\<rparr>"
      by (simp add: track_one_def)
    moreover have "dget obs ''expected'' = dget (ev_obs v) ''expected''"
      using expected_is_last [OF _ targets_expected_last] o1 Inl by blast
    ultimately show ?thesis using follows_raised [OF f keep] by blast
  next
    case (Inr n)
    with run ds v(1) o1 have "e' = e\<lparr>qe_evals := dput (qe_evals e) did (grade_decision e s (v\<lparr>ev_obs := obs\<rparr>))\<rparr>"
      by (simp add: track_one_def)
    with follows_grade [OF t f sane keep] show ?thesis by blast
  qed
  moreover have "quality_inv e'" using track_one_spec [OF q p run] by blast
  ultimately show ?thesis using inv p ds unfolding follows_inv_def same_thresholds_def
    by (auto simp: dget_dput split: if_splits)
qed

lemma track_loop_follows:
  "track_loop now price ext bench ps n e = (r, e') \<Longrightarrow> follows_inv e0 e \<Longrightarrow>
    \<forall>p \<in> set ps. dget (qe_snaps e) (fst p) = Some (snd p) \<Longrightarrow> follows_inv e0 e'"
proof (induction ps arbitrary: n e)
  case (Cons p ps)
  obtain q e1 where q: "track_one now price ext bench p e = (q, e1)" by (cases "track_one now price ext bench p e")
  have p: "dget (qe_snaps e) (fst p) = Some (snd p)" using Cons.prems(3) by simp
  have one: "follows_inv e0 e1" using track_one_follows [OF Cons.prems(2) p q] .
  have "qe_snaps e1 = qe_snaps e"
    using track_one_spec [OF _ p q] Cons.prems(2) by (auto simp: follows_inv_def)
  with one Cons.prems(1,3) q Cons.IH [OF _ one] show ?case by (auto split: sum.splits)
qed simp

lemma quality_step_follows: "quality_step e e' \<Longrightarrow> follows_inv e0 e \<Longrightarrow> follows_inv e0 e'"
proof (induction rule: quality_step.induct)
  case (step_record s s' e r e')
  have "follows e0 x new_evaluation" for x by (simp add: follows_def new_evaluation_def)
  moreover have "quality_inv e'" using record_decision_spec [OF _ step_record(2)] step_record(3)
    by (simp add: follows_inv_def)
  moreover have "e' = e \<or> e' = e\<lparr>qe_snaps := dput (qe_snaps e) (ds_id s') s',
      qe_evals := dput (qe_evals e) (ds_id s') new_evaluation\<rparr>"
    using step_record(2) by (auto simp: record_decision_def split: option.splits if_splits)
  ultimately show ?case
    using step_record(3) unfolding follows_inv_def same_thresholds_def
    by (auto simp: dget_dput split: if_splits)
next
  case (step_track a_t price ext bench e n e')
  have "\<forall>p \<in> set (qe_snaps e). dget (qe_snaps e) (fst p) = Some (snd p)"
    using step_track(2) by (auto simp: follows_inv_def quality_inv_def in_set_dget [symmetric])
  with step_track show ?case
    by (cases a_t) (auto simp: track_decisions_def intro: track_loop_follows)
qed

lemma quality_steps_follow: "quality_step\<^sup>*\<^sup>* e e' \<Longrightarrow> follows_inv e0 e \<Longrightarrow> follows_inv e0 e'"
  by (induction rule: rtranclp_induct) (auto intro: quality_step_follows)

lemma mk_quality_engine_follows:
  "0 \<le> good \<Longrightarrow> 0 \<le> bad \<Longrightarrow> follows_inv (mk_quality_engine good bad risk_floor) (mk_quality_engine good bad risk_floor)"
  using mk_quality_engine_inv [of good bad risk_floor]
  by (simp add: follows_inv_def same_thresholds_def mk_quality_engine_def)

text \<open>The outcome for a stance, and for staying out, in numbers.\<close>

lemma outcome_in_numbers:
  assumes "outcome_of (mk_quality_engine good bad risk_floor) k ob = (cls, lab, out)"
    and "0 \<le> good" "0 \<le> bad"
    and "alpha = (ob_ret ob - ob_bench ob) * direction k"
  shows "(direction k \<noteq> 0 \<longrightarrow>
      cls = (if good \<le> alpha then OC_GOOD else if alpha \<le> - bad then OC_BAD else OC_MIXED) \<and>
      out = 50 + 50 * tanh (alpha / max \<bar>ob_mae ob\<bar> (max risk_floor eps) / 3)) \<and>
    (direction k = 0 \<longrightarrow>
      cls = (if ob_ret ob \<le> - bad then OC_GOOD else OC_MIXED) \<and>
      out = (if ob_ret ob \<le> - bad then min 100 (50 - 100 * ob_ret ob)
             else if good \<le> ob_ret ob then max 0 (50 - 100 * ob_ret ob) else 50))"
proof -
  have a: "ob_ret ob * direction k - ob_bench ob * direction k = alpha"
    using assms(4) by (simp add: left_diff_distrib)
  have t: "max 0 (min 100 (50 + 50 * tanh (x :: real))) = 50 + 50 * tanh x" for x
    using tanh_real_lt_1 [of x] tanh_real_gt_neg1 [of x] by (simp add: min_def max_def)
  show ?thesis
    using assms(1) unfolding outcome_of_def Let_def a t
    by (auto simp: mk_quality_engine_def split: if_splits)
qed

lemma graded_in_numbers:
  assumes f: "follows (mk_quality_engine good bad risk_floor) s v" and "0 \<le> good" "0 \<le> bad"
    and g: "ev_class v \<noteq> OC_PENDING"
  shows "(\<exists>ob alpha. dget (ev_obs v) (if dhas (ev_obs v) ''expected'' then ''expected'' else ''1w'') = Some ob \<and>
      alpha = (ob_ret ob - ob_bench ob) * direction (ds_decision s) \<and>
      (direction (ds_decision s) \<noteq> 0 \<longrightarrow>
        ev_class v = (if good \<le> alpha then OC_GOOD else if alpha \<le> - bad then OC_BAD else OC_MIXED) \<and>
        ev_outcome v = 50 + 50 * tanh (alpha / max \<bar>ob_mae ob\<bar> (max risk_floor eps) / 3)) \<and>
      (direction (ds_decision s) = 0 \<longrightarrow>
        ev_class v = (if ob_ret ob \<le> - bad then OC_GOOD else OC_MIXED) \<and>
        ev_outcome v = (if ob_ret ob \<le> - bad then min 100 (50 - 100 * ob_ret ob)
          else if good \<le> ob_ret ob then max 0 (50 - 100 * ob_ret ob) else 50))) \<and>
    ev_process v = process_score s \<and>
    ev_overall v = py_round 2 (if ds_compliant s then 45/100 * ev_outcome v + 55/100 * ev_process v
      else min (45/100 * ev_outcome v + 55/100 * ev_process v) 40)"
proof -
  from f g obtain ob lab where k: "key_observation (ev_obs v) = Some ob"
    and o1: "outcome_of (mk_quality_engine good bad risk_floor) (ds_decision s) ob = (ev_class v, lab, ev_outcome v)"
    and r: "ev_process v = process_score s" "ev_overall v = overall_score s (ev_outcome v) (ev_process v)"
    by (auto simp: follows_def)
  have "dget (ev_obs v) (if dhas (ev_obs v) ''expected'' then ''expected'' else ''1w'') = Some ob"
    using k by (auto simp: key_observation_def dhas_def split: option.splits)
  with outcome_in_numbers [OF o1 assms(2,3) refl] r show ?thesis
    unfolding overall_score_def Let_def by blast
qed

text \<open>
  C17. Grades are sound whatever is recorded and tracked, and whatever prices are observed, also
  when a price lookup raises in the middle of a run. A graded decision is graded by the
  observation at its expected horizon, or by the one after a week while there is none: for a
  stance the class compares the return less the benchmark's, in the direction of the stance,
  with the two thresholds, and the outcome score is its ratio to the adverse excursion, or to
  the floor of the risk; for staying out, the class and score follow the plain return. The
  process score depends on the recorded facts only, and the overall score weighs the two, with at
  most 40 for a decision that broke a rule. A decision that is pending has its initial scores
  and no observation at its expected horizon. Every score stays between 0 and 100; class and
  score agree, a good outcome scores at least 50 and a bad one at most 50; each observation is
  the one of a horizon of that decision, taken exactly at its due time, with the return on the
  recorded price, an adverse excursion that is not positive, a favourable one that is not
  negative, and the return in between.
\<close>

theorem grades_are_sound:
  assumes "0 \<le> good" and "0 \<le> bad" and "quality_step\<^sup>*\<^sup>* (mk_quality_engine good bad risk_floor) e"
    and "dget (qe_snaps e) did = Some s"
  shows "\<exists>v. dget (qe_evals e) did = Some v \<and>
    (ev_class v \<noteq> OC_PENDING \<longrightarrow>
      (\<exists>ob alpha. dget (ev_obs v) (if dhas (ev_obs v) ''expected'' then ''expected'' else ''1w'') = Some ob \<and>
        alpha = (ob_ret ob - ob_bench ob) * direction (ds_decision s) \<and>
        (direction (ds_decision s) \<noteq> 0 \<longrightarrow>
          ev_class v = (if good \<le> alpha then OC_GOOD else if alpha \<le> - bad then OC_BAD else OC_MIXED) \<and>
          ev_outcome v = 50 + 50 * tanh (alpha / max \<bar>ob_mae ob\<bar> (max risk_floor eps) / 3)) \<and>
        (direction (ds_decision s) = 0 \<longrightarrow>
          ev_class v = (if ob_ret ob \<le> - bad then OC_GOOD else OC_MIXED) \<and>
          ev_outcome v = (if ob_ret ob \<le> - bad then min 100 (50 - 100 * ob_ret ob)
            else if good \<le> ob_ret ob then max 0 (50 - 100 * ob_ret ob) else 50))) \<and>
      ev_process v = process_score s \<and>
      ev_overall v = py_round 2 (if ds_compliant s then 45/100 * ev_outcome v + 55/100 * ev_process v
        else min (45/100 * ev_outcome v + 55/100 * ev_process v) 40)) \<and>
    (ev_class v = OC_PENDING \<longrightarrow> dget (ev_obs v) ''expected'' = None \<and>
      ev_outcome v = 50 \<and> ev_process v = 50 \<and> ev_overall v = 50) \<and>
    0 \<le> ev_outcome v \<and> ev_outcome v \<le> 100 \<and> 0 \<le> ev_process v \<and> ev_process v \<le> 100 \<and>
    0 \<le> ev_overall v \<and> ev_overall v \<le> 100 \<and>
    (ev_class v \<noteq> OC_PENDING \<and> \<not> ds_compliant s \<longrightarrow> ev_overall v \<le> 40) \<and>
    (ev_class v = OC_GOOD \<longrightarrow> 50 \<le> ev_outcome v) \<and> (ev_class v = OC_BAD \<longrightarrow> ev_outcome v \<le> 50) \<and>
    (\<forall>label ob. dget (ev_obs v) label = Some ob \<longrightarrow>
      (\<exists>t delta. ds_ts s = Aware t \<and> (label, delta) \<in> set (targets_of True s) \<and> ob_at ob = t + delta) \<and>
      ob_ret ob = ob_price ob / ds_price s - 1 \<and>
      ob_mae ob \<le> 0 \<and> 0 \<le> ob_mfe ob \<and> ob_mae ob \<le> stance_return s ob \<and> stance_return s ob \<le> ob_mfe ob)"
proof -
  have inv: "follows_inv (mk_quality_engine good bad risk_floor) e"
    by (rule quality_steps_follow [OF assms(3) mk_quality_engine_follows [OF assms(1,2)]])
  with assms(4) obtain v where v: "dget (qe_evals e) did = Some v" "eval_ok s v"
    unfolding follows_inv_def quality_inv_def by metis
  then have f: "follows (mk_quality_engine good bad risk_floor) s v"
    using inv assms(4) by (simp add: follows_inv_def)
  show ?thesis
  proof (intro exI [of _ v] conjI v(1) impI [OF graded_in_numbers [OF f assms(1,2)]])
    show "ev_class v = OC_PENDING \<longrightarrow> dget (ev_obs v) ''expected'' = None \<and>
      ev_outcome v = 50 \<and> ev_process v = 50 \<and> ev_overall v = 50"
      using f by (simp add: follows_def)
  qed (use v(2) in \<open>auto simp: eval_ok_def scored_def timely_def obs_ok_def\<close>)
qed

text \<open>
  What was decided, and what was seen of it, is never rewritten. Once a decision is recorded,
  its snapshot and each of its observations stay as they are through every later recording and
  tracking; recording the same content again changes nothing and recording other content under
  the same id is refused; and tracking at a time only adds observations that are due by then.
\<close>

theorem decisions_are_immutable:
  assumes "0 \<le> good" and "0 \<le> bad" and "quality_step\<^sup>*\<^sup>* (mk_quality_engine good bad risk_floor) e"
    and "dget (qe_snaps e) did = Some s" and "quality_step\<^sup>*\<^sup>* e e'"
  shows "dget (qe_snaps e') did = Some s \<and>
    (\<forall>s'. ds_id s' = did \<longrightarrow>
      record_decision s' e' = (if s' = s then (Inr (), e') else (Inl SnapshotTamperError, e'))) \<and>
    (\<exists>v v'. dget (qe_evals e) did = Some v \<and> dget (qe_evals e') did = Some v' \<and>
      (\<forall>label ob. dget (ev_obs v) label = Some ob \<longrightarrow> dget (ev_obs v') label = Some ob) \<and>
      (\<forall>now price ext bench r e''. track_decisions (Aware now) price ext bench e' = (r, e'') \<longrightarrow>
        (\<exists>v''. dget (qe_evals e'') did = Some v'' \<and>
          (\<forall>label ob. dget (ev_obs v'') label = Some ob \<longrightarrow>
            dget (ev_obs v') label = Some ob \<or> ob_at ob \<le> now))))"
proof -
  have inv: "quality_inv e" using quality_steps_inv [OF assms(3) mk_quality_engine_inv [OF assms(1,2)]] .
  then obtain v where v: "dget (qe_evals e) did = Some v"
    using assms(4) by (auto simp: quality_inv_def)
  have keep: "dget (qe_snaps e') did = Some s \<and> quality_inv e' \<and>
    (\<exists>v'. dget (qe_evals e') did = Some v' \<and>
      (\<forall>label ob. dget (ev_obs v) label = Some ob \<longrightarrow> dget (ev_obs v') label = Some ob))"
    using assms(5)
  proof (induction rule: rtranclp_induct)
    case base
    then show ?case using inv v assms(4) by simp
  next
    case (step e1 e2)
    then obtain v1 where v1: "dget (qe_evals e1) did = Some v1"
      "\<forall>label ob. dget (ev_obs v) label = Some ob \<longrightarrow> dget (ev_obs v1) label = Some ob" by blast
    have inv2: "quality_inv e2" using step quality_step_inv by blast
    from step(2) show ?case
    proof cases
      case (step_record s0 s' r)
      with record_decision_spec [of e1 s' r e2] step.IH v1 inv2 show ?thesis by auto
    next
      case (step_track a_t price ext bench n)
      have "\<exists>v'. dget (qe_evals e2) did = Some v' \<and>
        (\<forall>label ob. dget (ev_obs v1) label = Some ob \<longrightarrow> dget (ev_obs v') label = Some ob)"
      proof (cases a_t)
        case (Naive t)
        with step_track v1 show ?thesis by (simp add: track_decisions_def)
      next
        case (Aware now)
        with track_decisions_spec [OF _ step_track] step.IH v1(1) show ?thesis
          unfolding evolves_def by blast
      qed
      moreover have "qe_snaps e2 = qe_snaps e1" using track_decisions_spec [OF _ step_track] step.IH by blast
      ultimately show ?thesis using step.IH v1(2) inv2 by metis
    qed
  qed
  then obtain v' where v': "dget (qe_evals e') did = Some v'" "quality_inv e'" "dget (qe_snaps e') did = Some s"
    "\<forall>label ob. dget (ev_obs v) label = Some ob \<longrightarrow> dget (ev_obs v') label = Some ob" by blast
  have "\<exists>v''. dget (qe_evals e'') did = Some v'' \<and>
      (\<forall>label ob. dget (ev_obs v'') label = Some ob \<longrightarrow> dget (ev_obs v') label = Some ob \<or> ob_at ob \<le> now)"
    if "track_decisions (Aware now) price ext bench e' = (r, e'')" for now price ext bench r e''
    using track_decisions_spec [OF v'(2) that] v'(1) unfolding evolves_def by blast
  moreover have "record_decision s' e' = (if s' = s then (Inr (), e') else (Inl SnapshotTamperError, e'))"
    if "ds_id s' = did" for s' using that v'(3) by (auto simp: record_decision_def)
  ultimately show ?thesis using v v' by blast
qed

definition demo_snapshot_buy :: decision_snapshot where
  "demo_snapshot_buy = \<lparr>ds_id = ''X-1:BUY'', ds_symbol = ''X'', ds_ts = Aware 0, ds_price = 100,
     ds_decision = D_BUY, ds_confidence = 1/2, ds_horizon = ''1d'', ds_range = (0, 1), ds_scenarios = [],
     ds_stop_plan = None, ds_thesis = [], ds_invalidation = [], ds_alphas = [], ds_news = [], ds_institutional = [],
     ds_regime = ''BULL'', ds_portfolio = [], ds_model = ''m'', ds_version = ''1'', ds_prompt = [], ds_risk = [],
     ds_compliant = False, ds_had_stop = True, ds_skeptic = True, ds_health = True\<rparr>"

definition demo_quality :: quality_engine where
  "demo_quality = snd (record_decision demo_snapshot_buy (mk_quality_engine (2/100) (2/100) (2/100)))"

lemma demo_quality_reached: "quality_step\<^sup>*\<^sup>* (mk_quality_engine (2/100) (2/100) (2/100)) demo_quality"
proof -
  have "mk_decision_snapshot demo_snapshot_buy = Inr demo_snapshot_buy"
    by (simp add: mk_decision_snapshot_def demo_snapshot_buy_def)
  from step_record [OF this surjective_pairing] show ?thesis unfolding demo_quality_def by blast
qed

lemma demo_quality_has: "dget (qe_snaps demo_quality) ''X-1:BUY'' = Some demo_snapshot_buy"
  by (simp add: demo_quality_def record_decision_def mk_quality_engine_def demo_snapshot_buy_def)

text \<open>After a day the price has doubled; the decision broke a rule and scores at most 40.\<close>

lemma ob_ret_observe: "ob_ret (observe s obs due px b) = px / ds_price s - 1"
  and ob_bench_observe: "ob_bench (observe s obs due px b) = b"
  by (simp_all add: observe_def Let_def)

lemma demo_quality_graded:
  "\<exists>v. dget (qe_evals (snd (track_decisions (Aware (2 * days_us)) (\<lambda>_ _. Inr 200) False None demo_quality)))
      ''X-1:BUY'' = Some v \<and> ev_class v = OC_GOOD"
proof -
  let ?s = demo_snapshot_buy and ?now = "2 * days_us"
  have ts: "targets_of False ?s = TRACK_HORIZONS @ [(''expected'', days_us)]"
    by (simp add: targets_of_def demo_snapshot_buy_def HORIZON_ALIASES_def TRACK_HORIZONS_def Let_def)
  have s: "ds_ts ?s = Aware 0" "ds_decision ?s = D_BUY" "ds_price ?s = 100" "ds_id ?s = ''X-1:BUY''"
    by (simp_all add: demo_snapshot_buy_def)
  obtain obs ob where run: "observe_targets ?now (\<lambda>_ _. Inr 200) (\<lambda>_ _. Inr 0) ?s (targets_of False ?s) 0 [] = (Inr 3, obs)"
    and ob: "dget obs ''expected'' = Some ob" "ob_ret ob = 1" "ob_bench ob = 0"
    unfolding ts by (simp add: TRACK_HORIZONS_def s(1,3) dhas_def minutes_us_def days_us_def ob_ret_observe ob_bench_observe)
  have e: "dget (qe_evals demo_quality) ''X-1:BUY'' = Some new_evaluation"
    "qe_snaps demo_quality = [(''X-1:BUY'', ?s)]" "qe_good demo_quality = 2/100"
    by (simp_all add: demo_quality_def record_decision_def mk_quality_engine_def s(4))
  have "ev_class (grade_decision demo_quality ?s (new_evaluation\<lparr>ev_obs := obs\<rparr>)) = OC_GOOD"
    by (simp add: grade_decision_def key_observation_def ob outcome_of_def s(2) direction_def e(3) Let_def)
  then show ?thesis
    by (simp add: track_decisions_def e(1,2) track_one_def run new_evaluation_def [THEN arg_cong [where f = ev_obs]] dget_dput)
qed

lemma grades_are_sound_witness:
  "let e = snd (track_decisions (Aware (2 * days_us)) (\<lambda>_ _. Inr 200) False None demo_quality)
   in \<exists>v. dget (qe_evals e) ''X-1:BUY'' = Some v \<and> ev_class v = OC_GOOD \<and> ev_overall v \<le> 40"
proof -
  let ?e = "snd (track_decisions (Aware (2 * days_us)) (\<lambda>_ _. Inr 200) False None demo_quality)"
  have "quality_step demo_quality ?e" by (rule step_track [OF surjective_pairing])
  with demo_quality_reached have r: "quality_step\<^sup>*\<^sup>* (mk_quality_engine (2/100) (2/100) (2/100)) ?e" by simp
  have inv: "quality_inv demo_quality"
    using quality_steps_inv [OF demo_quality_reached] mk_quality_engine_inv by simp
  have s: "dget (qe_snaps ?e) ''X-1:BUY'' = Some demo_snapshot_buy"
    using track_decisions_spec [OF inv surjective_pairing] demo_quality_has by metis
  have n: "\<not> ds_compliant demo_snapshot_buy" by (simp add: demo_snapshot_buy_def)
  have z: "0 \<le> (2/100 :: real)" by simp
  obtain v where v: "dget (qe_evals ?e) ''X-1:BUY'' = Some v"
    "ev_class v \<noteq> OC_PENDING \<and> \<not> ds_compliant demo_snapshot_buy \<longrightarrow> ev_overall v \<le> 40"
    using grades_are_sound [OF z z r s] by (elim exE conjE)
  obtain w where w: "dget (qe_evals ?e) ''X-1:BUY'' = Some w" "ev_class w = OC_GOOD"
    using demo_quality_graded by blast
  from v(1) w(1) have "v = w" by simp
  with v w n show ?thesis unfolding Let_def by simp
qed

lemma decisions_are_immutable_witness:
  "record_decision (demo_snapshot_buy\<lparr>ds_confidence := 9/10\<rparr>) demo_quality = (Inl SnapshotTamperError, demo_quality)"
  using decisions_are_immutable [OF _ _ demo_quality_reached demo_quality_has rtranclp.rtrancl_refl]
  by (simp add: demo_snapshot_buy_def)

section \<open>The report adds up\<close>

lemma sum_tally_stat:
  "dsum fst (tally_stat d k g) = dsum fst d + 1"
  "dsum snd (tally_stat d k g) = dsum snd d + (if g then 1 else 0)"
proof (induction d)
  case (Cons p d)
  {
    case 1
    from Cons show ?case by (cases p) (auto simp: tally_stat_def dget_or_def split: option.splits prod.splits)
  next
    case 2
    from Cons show ?case by (cases p) (auto simp: tally_stat_def dget_or_def split: option.splits prod.splits)
  }
qed (simp_all add: tally_stat_def dget_or_def)

lemma sum_dput_count_dsum: "dsum id (dput d x (dget_or d x 0 + 1)) = dsum id d + (1 :: nat)"
  using sum_dput_count [of d x] by (simp add: dsum_def)

definition acc_ok :: "month_acc \<Rightarrow> bool" where
  "acc_ok a \<longleftrightarrow> dsum id (ma_counts a) = ma_total a \<and> dsum fst (ma_kinds a) = ma_total a \<and>
     dsum fst (ma_confs a) = ma_total a \<and> dsum fst (ma_regimes a) = ma_total a \<and>
     dsum snd (ma_kinds a) = dget_or (ma_counts a) OC_GOOD 0 \<and>
     dsum snd (ma_confs a) = dget_or (ma_counts a) OC_GOOD 0 \<and>
     dsum snd (ma_regimes a) = dget_or (ma_counts a) OC_GOOD 0"

lemma month_step_fields:
  "ma_total (month_step s v a) = ma_total a + 1"
  "ma_counts (month_step s v a) = dput (ma_counts a) (ev_class v) (dget_or (ma_counts a) (ev_class v) 0 + 1)"
  "ma_kinds (month_step s v a) = tally_stat (ma_kinds a) (ds_decision s) (ev_class v = OC_GOOD)"
  "ma_confs (month_step s v a) = tally_stat (ma_confs a) (bucket (ds_confidence s)) (ev_class v = OC_GOOD)"
  "ma_regimes (month_step s v a) = tally_stat (ma_regimes a) (ds_regime s) (ev_class v = OC_GOOD)"
  by (simp_all add: month_step_def Let_def split: option.splits)

lemma dget_or_dput: "dget_or (dput d k v) k' x = (if k' = k then v else dget_or d k' x)"
  by (simp add: dget_or_def dget_dput)

lemma month_step_ok: "acc_ok a \<Longrightarrow> acc_ok (month_step s v a) \<and> ma_total (month_step s v a) = ma_total a + 1"
  unfolding acc_ok_def month_step_fields sum_tally_stat sum_dput_count_dsum dget_or_dput
  by (cases "ev_class v = OC_GOOD") auto

lemma month_loop_ok:
  "month_loop y m e ps a = Inr b \<Longrightarrow> acc_ok a \<Longrightarrow>
    acc_ok b \<and> ma_total b = ma_total a +
      length (filter (\<lambda>(did, s). \<exists>t. ds_ts s = Aware t \<and> in_month y m t) ps)"
proof (induction ps arbitrary: a)
  case (Cons p ps)
  obtain did s where p: "p = (did, s)" by (cases p)
  then obtain t where t: "ds_ts s = Aware t" using Cons.prems(1) by (cases "ds_ts s") auto
  show ?case
  proof (cases "in_month y m t")
    case False
    with Cons p t show ?thesis by simp
  next
    case True
    with Cons.prems(1) p t obtain v where "month_loop y m e ps (month_step s v a) = Inr b"
      by (auto split: option.splits)
    from Cons.IH [OF this] month_step_ok [OF Cons.prems(2), of s v] True p t show ?thesis by simp
  qed
qed simp

text \<open>
  The monthly report counts each decision of its month once in every breakdown, and the good
  ones of every breakdown are the good ones of the month.
\<close>

lemma monthly_report_adds_up:
  assumes "monthly e y m = Inr r"
  shows "mr_total r = length (filter (\<lambda>(did, s). \<exists>t. ds_ts s = Aware t \<and> in_month y m t) (qe_snaps e)) \<and>
    dsum id (mr_counts r) = mr_total r \<and> dsum fst (mr_by_kind r) = mr_total r \<and>
    dsum fst (mr_confidence r) = mr_total r \<and> dsum fst (mr_by_regime r) = mr_total r"
proof -
  have g: "dsum fst (good_pct d) = dsum fst d" for d :: "'k stats"
    by (induction d) (auto simp: good_pct_def)
  obtain a where a: "month_loop y m e (qe_snaps e) empty_acc = Inr a" "r = report_of a"
    using assms by (auto simp: monthly_def split: sum.splits)
  have "acc_ok empty_acc" by (simp add: acc_ok_def empty_acc_def dget_or_def)
  from month_loop_ok [OF a(1) this] have "acc_ok a"
    and "ma_total a = length (filter (\<lambda>(did, s). \<exists>t. ds_ts s = Aware t \<and> in_month y m t) (qe_snaps e))"
    by (simp_all only: empty_acc_def month_acc.select_convs add_0)
  then show ?thesis
    unfolding a(2) report_of_def acc_ok_def monthly_report.select_convs g by blast
qed

end
