(* ===== verification/SessionServices.thy ===== *)
theory SessionServices
  imports MarketData
begin

text \<open>
  The services a trading session reads: the market data service with its deterministic provider
  (\<open>services/market_data/service.py\<close>), the universe composite of \<open>services/regime/engine.py\<close>,
  and the operating costs of \<open>services/cost_manager/engine.py\<close>. The first eight hexadecimal
  digits of a SHA-256 digest, read as a number, are an argument \<open>h\<close>. The memo table of the
  provider is part of its state; prices do not depend on it.
\<close>

section \<open>The deterministic provider\<close>

definition WALK_EPOCH :: int where
  "WALK_EPOCH = to_ordinal (Date 2025 1 1)"

record mock_provider =
  mp_lo :: real
  mp_hi :: real
  mp_walk :: "(string, (int, real) dict) dict"

definition new_provider :: "real \<Rightarrow> real \<Rightarrow> mock_provider" where
  "new_provider lo hi = \<lparr>mp_lo = lo, mp_hi = hi, mp_walk = []\<rparr>"

definition base_price :: "(string \<Rightarrow> int) \<Rightarrow> mock_provider \<Rightarrow> string \<Rightarrow> real" where
  "base_price h p symbol = mp_lo p + of_int (h symbol mod 10000) / 10000 * (mp_hi p - mp_lo p)"

definition daily_return :: "(string \<Rightarrow> int) \<Rightarrow> string \<Rightarrow> int \<Rightarrow> real" where
  "daily_return h symbol day =
     (let u = of_int (h (symbol @ '':'' @ str_int day)) / 4294967295;
          drift = of_int (h symbol mod 21 - 10) / 10000;
          vol_drag = (8/100)\<^sup>2 / 12 / 2
      in drift + vol_drag + (u - 1/2) * (8/100))"

text \<open>The while loop of \<open>_price_at\<close>, from day \<open>d\<close> at \<open>price\<close> up to \<open>day\<close>.\<close>

function walk_loop ::
    "(string \<Rightarrow> int) \<Rightarrow> string \<Rightarrow> int \<Rightarrow> int \<Rightarrow> real \<Rightarrow> (int, real) dict \<Rightarrow> real \<times> (int, real) dict" where
  "walk_loop h symbol day d price cache =
     (if d < day
      then (let d' = d + 1; price' = max (1/100) (price * (1 + daily_return h symbol d'))
            in walk_loop h symbol day d' price' (dput cache d' price'))
      else (price, cache))"
  by pat_completeness auto
termination by (relation "measure (\<lambda>(h, symbol, day, d, price, cache). nat (day - d))") auto

declare walk_loop.simps [simp del]

definition put_walk :: "string \<Rightarrow> (int, real) dict \<Rightarrow> mock_provider \<Rightarrow> mock_provider" where
  "put_walk symbol cache p = p\<lparr>mp_walk := dput (mp_walk p) symbol cache\<rparr>"

definition price_at :: "(string \<Rightarrow> int) \<Rightarrow> string \<Rightarrow> int \<Rightarrow> (mock_provider, real) act" where
  "price_at h symbol day p =
     (let cache = dget_or (mp_walk p) symbol [(WALK_EPOCH, base_price h p symbol)];
          p = put_walk symbol cache p
      in if day \<le> WALK_EPOCH
         then (case dget cache WALK_EPOCH of None \<Rightarrow> (Inl KeyError, p) | Some x \<Rightarrow> (Inr x, p))
         else case dget cache day of
           Some x \<Rightarrow> (Inr x, p)
         | None \<Rightarrow>
             (let known = filter (\<lambda>k. k \<le> day) (dkeys cache) in
              if known = [] then (Inl ValueError, p)
              else let d = Max (set known) in
                case dget cache d of
                  None \<Rightarrow> (Inl KeyError, p)
                | Some price \<Rightarrow>
                    (let (x, cache') = walk_loop h symbol day d price cache
                     in (Inr x, put_walk symbol cache' p))))"

definition day_of :: "instant \<Rightarrow> int" where
  "day_of t = t div days_us + 719163"

definition close_of_day :: "int \<Rightarrow> instant" where
  "close_of_day day = (day - 719163) * days_us + 20 * 60 * minutes_us"

definition provider_bar ::
    "(string \<Rightarrow> int) \<Rightarrow> string \<Rightarrow> int \<Rightarrow> real \<Rightarrow> real \<Rightarrow> exn + real bar" where
  "provider_bar h symbol day o1 c =
     (let r = daily_return h symbol day;
          hi = max o1 c * (1 + \<bar>r\<bar> / 2);
          lo = min o1 c * (1 - \<bar>r\<bar> / 2)
      in if day < 1 then Inl ValueError
         else mk_bar \<lparr>bar_symbol = symbol, bar_ts = close_of_day day, bar_open = Fin (py_round 4 o1),
           bar_high = Fin (py_round 4 hi), bar_low = Fin (py_round 4 lo), bar_close = Fin (py_round 4 c),
           bar_volume = 200000 + h (''v:'' @ symbol @ '':'' @ str_int day) mod 5000000,
           bar_vwap = Some (Fin (py_round 4 ((hi + lo + c) / 3))), bar_source = ''mock'',
           bar_version = ''1''\<rparr>)"

fun bars_from :: "(string \<Rightarrow> int) \<Rightarrow> string \<Rightarrow> int \<Rightarrow> nat \<Rightarrow> (mock_provider, real bar list) act" where
  "bars_from h symbol day 0 p = (Inr [], p)"
| "bars_from h symbol day (Suc n) p =
     bind_act (price_at h symbol (day - 1)) (\<lambda>o1.
     bind_act (price_at h symbol day) (\<lambda>c.
       case provider_bar h symbol day o1 c of
         Inl e \<Rightarrow> throw e
       | Inr b \<Rightarrow> bind_act (bars_from h symbol (day + 1) n) (\<lambda>bs. ret (b # bs)))) p"

definition get_bars :: "(string \<Rightarrow> int) \<Rightarrow> string \<Rightarrow> pydt \<Rightarrow> int \<Rightarrow> (mock_provider, real bar list) act" where
  "get_bars h symbol end_at n p =
     (case ensure_utc end_at of Inl e \<Rightarrow> (Inl e, p) | Inr t \<Rightarrow>
      bars_from h symbol (day_of t - n) (nat n) p)"

definition quote_of :: "string \<Rightarrow> instant \<Rightarrow> real \<Rightarrow> exn + real quote" where
  "quote_of symbol t px =
     (let spread = max (1/100) (px * (5/10000))
      in mk_quote \<lparr>q_symbol = symbol, q_ts = t, q_bid = Fin (py_round 4 (px - spread / 2)),
           q_ask = Fin (py_round 4 (px + spread / 2)), q_bid_size = 500, q_ask_size = 500,
           q_halted = False, q_source = ''mock''\<rparr>)"

definition get_quote :: "(string \<Rightarrow> int) \<Rightarrow> string \<Rightarrow> pydt \<Rightarrow> (mock_provider, real quote) act" where
  "get_quote h symbol a_t p =
     (case ensure_utc a_t of Inl e \<Rightarrow> (Inl e, p) | Inr t \<Rightarrow>
      bind_act (price_at h symbol (day_of t)) (\<lambda>px p. (quote_of symbol t px, p)) p)"

section \<open>Stamped bars\<close>

record stamped_bar =
  sb_bar :: "real bar"
  sb_times :: event_times

definition stamp_bar :: "instant \<Rightarrow> real bar \<Rightarrow> exn + stamped_bar" where
  "stamp_bar received b =
     (case mk_event_times (Aware (bar_ts b)) (Aware (bar_ts b)) (Aware received) None of
        Inl e \<Rightarrow> Inl e
      | Inr t \<Rightarrow>
          (case with_processed t (Some (Aware received)) received of
             Inl e \<Rightarrow> Inl e
           | Inr t' \<Rightarrow> Inr \<lparr>sb_bar = b, sb_times = t'\<rparr>))"

fun stamp_bars :: "instant \<Rightarrow> real bar list \<Rightarrow> exn + stamped_bar list" where
  "stamp_bars received [] = Inr []"
| "stamp_bars received (b # bs) =
     (case stamp_bar received b of Inl e \<Rightarrow> Inl e | Inr s \<Rightarrow>
      case stamp_bars received bs of Inl e \<Rightarrow> Inl e | Inr ss \<Rightarrow> Inr (s # ss))"

text \<open>\<open>MarketDataService.bars\<close> over a provider that returns bars or raises.\<close>

definition service_bars ::
    "(string \<Rightarrow> pydt \<Rightarrow> int \<Rightarrow> exn + real bar list) \<Rightarrow> string \<Rightarrow> pydt \<Rightarrow> int \<Rightarrow> pydt \<Rightarrow> exn + stamped_bar list" where
  "service_bars source symbol end_at n received_at =
     (case ensure_utc received_at of Inl e \<Rightarrow> Inl e | Inr t \<Rightarrow>
      case source symbol end_at n of Inl e \<Rightarrow> Inl e | Inr bs \<Rightarrow> stamp_bars t bs)"

lemma stamp_bars_total: "\<exists>ss. stamp_bars t bs = Inr ss \<and> map sb_bar ss = bs"
  by (induction bs) (auto simp: stamp_bar_def mk_event_times_def with_processed_def)

lemma service_bars_same:
  "service_bars source symbol end_at n (Aware t) =
     (case source symbol end_at n of Inl e \<Rightarrow> Inl e | Inr bs \<Rightarrow> stamp_bars t bs)"
  by (simp add: service_bars_def)

section \<open>The composite of the universe\<close>

definition UNIVERSE_COMPOSITE_SYMBOL :: string where
  "UNIVERSE_COMPOSITE_SYMBOL = ''UNIVERSE''"

text \<open>\<open>{b.ts: b.close for b in bars}\<close>: the last bar of a timestamp wins.\<close>

fun closes_by_ts :: "real bar list \<Rightarrow> (instant, real) dict \<Rightarrow> (instant, real) dict" where
  "closes_by_ts [] d = d"
| "closes_by_ts (b # bs) d = closes_by_ts bs (dput d (bar_ts b) (bar_close b))"

definition common_stamps :: "(string, real bar list) dict \<Rightarrow> instant list" where
  "common_stamps usable =
     (case dvals usable of
        [] \<Rightarrow> []
      | bs # rest \<Rightarrow>
          sort (remdups (filter (\<lambda>t. list_all (\<lambda>cs. t \<in> set (map bar_ts cs)) rest) (map bar_ts bs))))"

definition composite_level :: "(string, real bar list) dict \<Rightarrow> instant \<Rightarrow> instant \<Rightarrow> real" where
  "composite_level usable t0 t =
     (\<Sum>bs\<leftarrow>dvals usable. 100 * dget_or (closes_by_ts bs []) t 0 / dget_or (closes_by_ts bs []) t0 0)
       / real (length usable)"

fun composite_loop ::
    "(string, real bar list) dict \<Rightarrow> instant \<Rightarrow> instant list \<Rightarrow> exn + real bar list" where
  "composite_loop usable t0 [] = Inr []"
| "composite_loop usable t0 (t # ts) =
     (let x = composite_level usable t0 t in
      case mk_bar \<lparr>bar_symbol = UNIVERSE_COMPOSITE_SYMBOL, bar_ts = t, bar_open = Fin x, bar_high = Fin x,
             bar_low = Fin x, bar_close = Fin x, bar_volume = 0, bar_vwap = None,
             bar_source = ''composite'', bar_version = ''1''\<rparr> of
        Inl e \<Rightarrow> Inl e
      | Inr b \<Rightarrow> (case composite_loop usable t0 ts of Inl e \<Rightarrow> Inl e | Inr bs \<Rightarrow> Inr (b # bs)))"

definition universe_composite_bars :: "(string, real bar list) dict \<Rightarrow> nat \<Rightarrow> exn + real bar list" where
  "universe_composite_bars bars_by_symbol min_symbols =
     (let usable = filter (\<lambda>(s, bs). bs \<noteq> []) bars_by_symbol in
      if length usable < min_symbols then Inl ValueError
      else if usable = [] then Inl TypeError
      else let stamps = common_stamps usable in
        if length stamps < 21 then Inl ValueError
        else composite_loop usable (hd stamps) stamps)"

fun regime_value :: "regime \<Rightarrow> string" where
  "regime_value BULL = ''BULL''"
| "regime_value BEAR = ''BEAR''"
| "regime_value RANGE = ''RANGE''"
| "regime_value HIGH_VOLATILITY = ''HIGH_VOLATILITY''"
| "regime_value LOW_VOLATILITY = ''LOW_VOLATILITY''"
| "regime_value PANIC = ''PANIC''"
| "regime_value EUPHORIA = ''EUPHORIA''"

text \<open>The formats \<open>:+.2%\<close> and \<open>:.2%\<close> of a number are arguments.\<close>

definition describe_universe_regime ::
    "(real \<Rightarrow> string) \<Rightarrow> (real \<Rightarrow> string) \<Rightarrow> regime_reading \<Rightarrow> nat \<Rightarrow> string" where
  "describe_universe_regime signed_pct pct r n =
     regime_value (rr_primary r) @ '' / vol='' @ regime_value (rr_volatility r)
     @ '' (ESTIMATE: equal-weight composite of '' @ str_int (int n)
     @ '' traded symbols, not an official index; 20d trend '' @ signed_pct (rr_trend r)
     @ '', daily vol '' @ pct (rr_vol r) @ '')''"

section \<open>Operating costs\<close>

datatype cost_category = AI | MARKET_DATA | NEWS_FEED | INSTITUTIONAL | OPTIONS_DATA | SERVER | DB
  | MONITORING | BROKER_FEE | TRANSACTION_FEE | FX_COST

record cost_entry =
  ce_at :: instant
  ce_category :: cost_category
  ce_amount :: real
  ce_note :: string

definition in_trading_pnl :: "cost_category \<Rightarrow> bool" where
  "in_trading_pnl c \<longleftrightarrow> c \<in> {TRANSACTION_FEE, BROKER_FEE}"

definition record_cost :: "cost_entry \<Rightarrow> (cost_entry list, unit) act" where
  "record_cost c cs = (if ce_amount c < 0 then (Inl ValueError, cs) else (Inr (), cs @ [c]))"

definition record_transaction_fee :: "instant \<Rightarrow> real \<Rightarrow> string \<Rightarrow> (cost_entry list, unit) act" where
  "record_transaction_fee a_t amount note cs =
     (if amount \<le> 0 then (Inr (), cs)
      else record_cost \<lparr>ce_at = a_t, ce_category = TRANSACTION_FEE, ce_amount = amount, ce_note = note\<rparr> cs)"

definition total_costs :: "cost_entry list \<Rightarrow> real" where
  "total_costs cs = (\<Sum>c\<leftarrow>filter (\<lambda>c. \<not> in_trading_pnl (ce_category c)) cs. ce_amount c)"

definition trading_fees_total :: "cost_entry list \<Rightarrow> real" where
  "trading_fees_total cs = (\<Sum>c\<leftarrow>filter (\<lambda>c. in_trading_pnl (ce_category c)) cs. ce_amount c)"

definition by_category :: "cost_entry list \<Rightarrow> (cost_category, real) dict" where
  "by_category cs = tally (map (\<lambda>c. (ce_category c, ce_amount c)) cs) []"

record two_pnl =
  tw_trading :: real
  tw_costs :: real

definition project_net_pnl :: "two_pnl \<Rightarrow> real" where
  "project_net_pnl t = tw_trading t - tw_costs t"

definition two_pnl_of :: "cost_entry list \<Rightarrow> real \<Rightarrow> two_pnl" where
  "two_pnl_of cs trading_pnl = \<lparr>tw_trading = trading_pnl, tw_costs = total_costs cs\<rparr>"

datatype roi_verdict = ROI_KEEP | ROI_TESTING | ROI_DORMANT | ROI_CANCEL

record data_roi =
  di_min :: nat
  di_on :: "real list"
  di_off :: "real list"

definition record_session :: "real \<Rightarrow> real \<Rightarrow> data_roi \<Rightarrow> data_roi" where
  "record_session on_return off_return d =
     d\<lparr>di_on := di_on d @ [on_return], di_off := di_off d @ [off_return]\<rparr>"

definition evaluate_roi :: "data_roi \<Rightarrow> real \<Rightarrow> real \<Rightarrow> exn + roi_verdict" where
  "evaluate_roi d monthly_cost equity =
     (if length (di_on d) < di_min d then Inr ROI_TESTING
      else if di_on d = [] then Inl ZeroDivisionError
      else let incremental = (sum_list (di_on d) - sum_list (di_off d)) / real (length (di_on d));
               net = incremental * equity * 21 - monthly_cost
           in Inr (if monthly_cost < net then ROI_KEEP
                   else if 0 < net then ROI_TESTING
                   else if - monthly_cost / 2 < net then ROI_DORMANT
                   else ROI_CANCEL))"

text \<open>A fee is shown in the breakdown and not charged a second time.\<close>

lemma transaction_fee_is_not_charged:
  assumes "record_transaction_fee t amount note cs = (r, cs')"
  shows "is_ok r \<and> total_costs cs' = total_costs cs \<and>
    trading_fees_total cs' = trading_fees_total cs + max 0 amount \<and> two_pnl_of cs' x = two_pnl_of cs x"
  using assms by (auto simp: record_transaction_fee_def record_cost_def total_costs_def trading_fees_total_def
      two_pnl_of_def in_trading_pnl_def split: if_splits)

lemma dsum_tally: "dict_ok d \<Longrightarrow> dsum id (tally xs d) = dsum id d + (\<Sum>(k, x)\<leftarrow>xs. x)"
proof (induction xs d rule: tally.induct)
  case (2 k x xs d)
  have "dsum id (add_to d k x) = dsum id d + x"
    using dsum_dput [where f = id and d = d and k = k] by (simp add: add_to_def dget_or_def split: option.splits)
  with 2 show ?case by (simp add: add_to_def id_def)
qed simp

lemma by_category_total: "dsum id (by_category cs) = total_costs cs + trading_fees_total cs"
proof -
  have "(\<Sum>(k, x)\<leftarrow>map (\<lambda>c. (ce_category c, ce_amount c)) cs. x) = total_costs cs + trading_fees_total cs"
    by (induction cs) (simp_all add: total_costs_def trading_fees_total_def)
  then show ?thesis by (simp add: by_category_def dsum_tally)
qed

section \<open>Prices depend on the day alone\<close>

text \<open>The reference: the walk from the epoch, without a memo table.\<close>

primrec walk_ref :: "(string \<Rightarrow> int) \<Rightarrow> string \<Rightarrow> real \<Rightarrow> nat \<Rightarrow> real" where
  "walk_ref h symbol base 0 = base"
| "walk_ref h symbol base (Suc n) =
     max (1/100) (walk_ref h symbol base n * (1 + daily_return h symbol (WALK_EPOCH + int (Suc n))))"

definition price_ref :: "(string \<Rightarrow> int) \<Rightarrow> real \<Rightarrow> real \<Rightarrow> string \<Rightarrow> int \<Rightarrow> real" where
  "price_ref h lo hi symbol day = walk_ref h symbol (base_price h (new_provider lo hi) symbol) (nat (day - WALK_EPOCH))"

fun bars_ref :: "(string \<Rightarrow> int) \<Rightarrow> real \<Rightarrow> real \<Rightarrow> string \<Rightarrow> int \<Rightarrow> nat \<Rightarrow> exn + real bar list" where
  "bars_ref h lo hi symbol day 0 = Inr []"
| "bars_ref h lo hi symbol day (Suc n) =
     (case provider_bar h symbol day (price_ref h lo hi symbol (day - 1)) (price_ref h lo hi symbol day) of
        Inl e \<Rightarrow> Inl e
      | Inr b \<Rightarrow> (case bars_ref h lo hi symbol (day + 1) n of Inl e \<Rightarrow> Inl e | Inr bs \<Rightarrow> Inr (b # bs)))"

definition memo_ok :: "(string \<Rightarrow> int) \<Rightarrow> real \<Rightarrow> real \<Rightarrow> string \<Rightarrow> (int, real) dict \<Rightarrow> bool" where
  "memo_ok h lo hi symbol cache \<longleftrightarrow> dget cache WALK_EPOCH \<noteq> None \<and>
     (\<forall>d x. dget cache d = Some x \<longrightarrow> WALK_EPOCH \<le> d \<and> x = price_ref h lo hi symbol d)"

definition provider_ok :: "(string \<Rightarrow> int) \<Rightarrow> real \<Rightarrow> real \<Rightarrow> mock_provider \<Rightarrow> bool" where
  "provider_ok h lo hi p \<longleftrightarrow> mp_lo p = lo \<and> mp_hi p = hi \<and>
     (\<forall>symbol cache. dget (mp_walk p) symbol = Some cache \<longrightarrow> memo_ok h lo hi symbol cache)"

lemma price_ref_step:
  "WALK_EPOCH \<le> d \<Longrightarrow>
    price_ref h lo hi symbol (d + 1) = max (1/100) (price_ref h lo hi symbol d * (1 + daily_return h symbol (d + 1)))"
proof -
  assume "WALK_EPOCH \<le> d"
  then have "nat (d + 1 - WALK_EPOCH) = Suc (nat (d - WALK_EPOCH))" and "WALK_EPOCH + int (Suc (nat (d - WALK_EPOCH))) = d + 1"
    by simp_all
  then show ?thesis by (simp only: price_ref_def walk_ref.simps)
qed

lemma memo_ok_dput:
  "memo_ok h lo hi symbol cache \<Longrightarrow> WALK_EPOCH \<le> d \<Longrightarrow>
    memo_ok h lo hi symbol (dput cache d (price_ref h lo hi symbol d))"
  by (auto simp: memo_ok_def dget_dput)

lemma walk_loop_ref:
  "walk_loop h symbol day d price cache = (x, cache') \<Longrightarrow> memo_ok h lo hi symbol cache \<Longrightarrow> WALK_EPOCH \<le> d \<Longrightarrow>
    price = price_ref h lo hi symbol d \<Longrightarrow> d \<le> day \<Longrightarrow>
    x = price_ref h lo hi symbol day \<and> memo_ok h lo hi symbol cache'"
proof (induction h symbol day d price cache rule: walk_loop.induct)
  case (1 h symbol day d price cache)
  show ?case
  proof (cases "d < day")
    case False
    with 1 show ?thesis by (simp add: walk_loop.simps [of h symbol day d])
  next
    case True
    note step = price_ref_step [OF "1.prems"(3), of h lo hi symbol]
    show ?thesis
    proof (rule "1.IH" [OF True refl refl])
      show "walk_loop h symbol day (d + 1) (max (1/100) (price * (1 + daily_return h symbol (d + 1))))
        (dput cache (d + 1) (max (1/100) (price * (1 + daily_return h symbol (d + 1))))) = (x, cache')"
        using "1.prems"(1) True by (simp add: walk_loop.simps [of h symbol day d] Let_def)
      show "memo_ok h lo hi symbol (dput cache (d + 1) (max (1/100) (price * (1 + daily_return h symbol (d + 1)))))"
        using memo_ok_dput [OF "1.prems"(2), of "d + 1"] "1.prems"(3,4) step by simp
    qed (use "1.prems" True step in auto)
  qed
qed

lemma provider_ok_put:
  "provider_ok h lo hi p \<Longrightarrow> memo_ok h lo hi symbol cache \<Longrightarrow> provider_ok h lo hi (put_walk symbol cache p)"
  by (auto simp: provider_ok_def put_walk_def dget_dput)

lemma price_at_ref:
  assumes "provider_ok h lo hi p" and "price_at h symbol day p = (r, p')"
  shows "r = Inr (price_ref h lo hi symbol day) \<and> provider_ok h lo hi p'"
proof -
  define cache where "cache = dget_or (mp_walk p) symbol [(WALK_EPOCH, base_price h p symbol)]"
  define p1 where "p1 = put_walk symbol cache p"
  have "base_price h p symbol = price_ref h lo hi symbol WALK_EPOCH"
    using assms(1) by (simp add: price_ref_def base_price_def new_provider_def provider_ok_def)
  then have m: "memo_ok h lo hi symbol cache"
    using assms(1) by (auto simp: cache_def dget_or_def memo_ok_def provider_ok_def split: option.splits)
  have p1: "provider_ok h lo hi p1" unfolding p1_def by (rule provider_ok_put [OF assms(1) m])
  show ?thesis
  proof (cases "day \<le> WALK_EPOCH")
    case True
    obtain x where x: "dget cache WALK_EPOCH = Some x" using m unfolding memo_ok_def by blast
    then have "x = price_ref h lo hi symbol WALK_EPOCH" using m unfolding memo_ok_def by blast
    moreover have "price_ref h lo hi symbol WALK_EPOCH = price_ref h lo hi symbol day"
      using True by (simp add: price_ref_def)
    ultimately show ?thesis using assms(2) True p1 x
      by (auto simp: price_at_def Let_def simp flip: cache_def p1_def)
  next
    case after: False
    show ?thesis
    proof (cases "dget cache day")
      case (Some x)
      then have "x = price_ref h lo hi symbol day" using m unfolding memo_ok_def by blast
      with assms(2) after Some p1 show ?thesis by (auto simp: price_at_def Let_def simp flip: cache_def p1_def)
    next
      case None
      let ?known = "filter (\<lambda>k. k \<le> day) (dkeys cache)"
      define d where "d = Max {x \<in> set (dkeys cache). x \<le> day}"
      have "WALK_EPOCH \<in> set (dkeys cache)" using m dget_None_iff [of cache WALK_EPOCH] by (auto simp: memo_ok_def)
      then have ne: "?known \<noteq> []" using after by (auto simp: filter_empty_conv intro!: bexI [of _ WALK_EPOCH])
      then have "{x \<in> set (dkeys cache). x \<le> day} \<noteq> {}" by (auto simp: filter_empty_conv)
      then have "d \<in> {x \<in> set (dkeys cache). x \<le> day}" unfolding d_def by (intro Max_in) simp_all
      then have "d \<in> set (dkeys cache)" and "d \<le> day" by simp_all
      then obtain price where pr: "dget cache d = Some price" using dget_None_iff [of cache d] by auto
      then have ok: "WALK_EPOCH \<le> d" "price = price_ref h lo hi symbol d" using m unfolding memo_ok_def by blast+
      obtain x cache' where w: "walk_loop h symbol day d price cache = (x, cache')" by fastforce
      from walk_loop_ref [OF w m ok \<open>d \<le> day\<close>] have "x = price_ref h lo hi symbol day" "memo_ok h lo hi symbol cache'" by auto
      with assms(2) after None ne pr w p1 provider_ok_put [OF p1, of symbol cache'] show ?thesis
        by (auto simp: price_at_def Let_def p1_def simp flip: cache_def d_def)
    qed
  qed
qed

lemma bars_from_ref:
  "provider_ok h lo hi p \<Longrightarrow> bars_from h symbol day n p = (r, p') \<Longrightarrow>
    r = bars_ref h lo hi symbol day n \<and> provider_ok h lo hi p'"
proof (induction n arbitrary: day p r p')
  case (Suc n)
  obtain r1 p1 where 1: "price_at h symbol (day - 1) p = (r1, p1)" by fastforce
  note r1 = price_at_ref [OF Suc.prems(1) 1]
  obtain r2 p2 where 2: "price_at h symbol day p1 = (r2, p2)" by fastforce
  note r2 = price_at_ref [OF r1 [THEN conjunct2] 2]
  obtain r3 p3 where 3: "bars_from h symbol (day + 1) n p2 = (r3, p3)" by fastforce
  note r3 = Suc.IH [OF r2 [THEN conjunct2] 3]
  show ?case
    using Suc.prems(2) 1 2 3 r1 r2 r3 by (auto simp: bind_act_def throw_def ret_def split: sum.splits)
qed simp

lemma get_bars_ref:
  "provider_ok h lo hi p \<Longrightarrow> get_bars h symbol a_t n p = (r, p') \<Longrightarrow>
    r = (case ensure_utc a_t of Inl e \<Rightarrow> Inl e | Inr t \<Rightarrow> bars_ref h lo hi symbol (day_of t - n) (nat n)) \<and>
    provider_ok h lo hi p'"
  by (cases a_t) (auto simp: get_bars_def dest: bars_from_ref)

lemma get_quote_ref:
  assumes "provider_ok h lo hi p" and "get_quote h symbol a_t p = (r, p')"
  shows "r = (case ensure_utc a_t of Inl e \<Rightarrow> Inl e | Inr t \<Rightarrow> quote_of symbol t (price_ref h lo hi symbol (day_of t))) \<and>
    provider_ok h lo hi p'"
proof (cases a_t)
  case (Aware t)
  obtain r1 p1 where 1: "price_at h symbol (day_of t) p = (r1, p1)" by fastforce
  from price_at_ref [OF assms(1) 1] assms(2) Aware 1 show ?thesis by (simp add: get_quote_def bind_act_def)
qed (use assms in \<open>simp add: get_quote_def\<close>)

datatype data_request = AskBars string pydt int | AskQuote string pydt

fun serve :: "(string \<Rightarrow> int) \<Rightarrow> data_request \<Rightarrow> mock_provider \<Rightarrow> mock_provider" where
  "serve h (AskBars symbol a_t n) p = snd (get_bars h symbol a_t n p)"
| "serve h (AskQuote symbol a_t) p = snd (get_quote h symbol a_t p)"

lemma serve_ok: "provider_ok h lo hi p \<Longrightarrow> provider_ok h lo hi (serve h q p)"
  by (cases q) (use get_bars_ref get_quote_ref in \<open>metis serve.simps prod.collapse\<close>)+

lemma served_ok: "provider_ok h lo hi p \<Longrightarrow> provider_ok h lo hi (fold (serve h) qs p)"
  by (induction qs arbitrary: p) (auto intro: serve_ok)

text \<open>A longer request returns the shorter one as its end.\<close>

lemma bars_ref_suffix:
  "bars_ref h lo hi symbol day (m + k) = Inr bs \<Longrightarrow> bars_ref h lo hi symbol (day + int m) k = Inr (drop m bs)"
proof (induction m arbitrary: day bs)
  case (Suc m)
  then obtain b bs' where "bs = b # bs'" "bars_ref h lo hi symbol (day + 1) (m + k) = Inr bs'"
    by (auto split: sum.splits)
  with Suc.IH [of "day + 1" bs'] show ?case by (simp add: algebra_simps)
qed simp

text \<open>
  One price process. Whatever bars and quotes were asked for before, in whatever order, the
  provider answers a request for bars or a quote as the walk without a memo table does: the
  price of a day is a function of the symbol and the day.
\<close>

theorem prices_depend_on_the_day_alone:
  "let p = fold (serve h) qs (new_provider lo hi) in
     fst (get_bars h symbol (Aware t) n p) = bars_ref h lo hi symbol (day_of t - n) (nat n) \<and>
     fst (get_quote h symbol (Aware t) p) = quote_of symbol t (price_ref h lo hi symbol (day_of t))"
proof -
  define p where "p = fold (serve h) qs (new_provider lo hi)"
  have "provider_ok h lo hi (new_provider lo hi)" by (simp add: provider_ok_def new_provider_def)
  from served_ok [OF this] have ok: "provider_ok h lo hi p" unfolding p_def .
  have bars: "fst (get_bars h symbol (Aware t) n p) = bars_ref h lo hi symbol (day_of t - n) (nat n)" for n
    using get_bars_ref [OF ok surjective_pairing] by simp
  have quote: "fst (get_quote h symbol (Aware t) p) = quote_of symbol t (price_ref h lo hi symbol (day_of t))"
    using get_quote_ref [OF ok surjective_pairing] by simp
  with bars show ?thesis unfolding Let_def p_def by blast
qed

end
