(* ===== verification/Actions.thy ===== *)
theory Actions
  imports Prelude
begin

text \<open>
  Combinators for methods of a composed object, and triples for them: from a precondition to a
  postcondition of the result, and another one where an exception ends the method. The step
  theorems of the trading pipeline are proved with these rules.
\<close>

section \<open>Combinators\<close>

definition ask :: "('s \<Rightarrow> 'a) \<Rightarrow> ('s, 'a) act" where
  "ask f s = (Inr (f s), s)"

definition of_res :: "exn + 'a \<Rightarrow> ('s, 'a) act" where
  "of_res r s = (r, s)"

definition change :: "('s \<Rightarrow> 's) \<Rightarrow> ('s, unit) act" where
  "change f s = (Inr (), f s)"

text \<open>A method of a part of the object.\<close>

definition on_part :: "('s \<Rightarrow> 'p) \<Rightarrow> ('p \<Rightarrow> 's \<Rightarrow> 's) \<Rightarrow> ('p, 'a) act \<Rightarrow> ('s, 'a) act" where
  "on_part get put f s = (let (r, p) = f (get s) in (r, put p s))"

text \<open>\<open>try: x = m except \<dots>\<close>: the handler sees the exception and may raise it again.\<close>

definition attempt :: "('s, 'a) act \<Rightarrow> (exn \<Rightarrow> ('s, 'b) act) \<Rightarrow> ('a \<Rightarrow> ('s, 'b) act) \<Rightarrow> ('s, 'b) act" where
  "attempt m h k s = (case m s of (Inl e, s') \<Rightarrow> h e s' | (Inr x, s') \<Rightarrow> k x s')"

fun collect :: "('a \<Rightarrow> ('s, 'b) act) \<Rightarrow> 'a list \<Rightarrow> ('s, 'b list) act" where
  "collect f [] s = (Inr [], s)"
| "collect f (x # xs) s = bind_act (f x) (\<lambda>y. bind_act (collect f xs) (\<lambda>ys. ret (y # ys))) s"

section \<open>Triples\<close>

definition triple :: "('s \<Rightarrow> bool) \<Rightarrow> ('s, 'a) act \<Rightarrow> ('a \<Rightarrow> 's \<Rightarrow> bool) \<Rightarrow> ('s \<Rightarrow> bool) \<Rightarrow> bool" where
  "triple P f Q E \<longleftrightarrow> (\<forall>s. P s \<longrightarrow> (case f s of (Inl _, s') \<Rightarrow> E s' | (Inr x, s') \<Rightarrow> Q x s'))"

named_theorems triple_rules \<open>triples of the combinators\<close>

lemma tripleI:
  "(\<And>s x s'. P s \<Longrightarrow> f s = (Inr x, s') \<Longrightarrow> Q x s') \<Longrightarrow> (\<And>s e s'. P s \<Longrightarrow> f s = (Inl e, s') \<Longrightarrow> E s') \<Longrightarrow>
    triple P f Q E"
  by (auto simp: triple_def split: prod.splits sum.splits)

lemma tripleD:
  "triple P f Q E \<Longrightarrow> P s \<Longrightarrow> f s = (Inr x, s') \<Longrightarrow> Q x s'"
  "triple P f Q E \<Longrightarrow> P s \<Longrightarrow> f s = (Inl e, s') \<Longrightarrow> E s'"
  by (fastforce simp: triple_def)+

lemma triple_conseq:
  "triple P' f Q' E' \<Longrightarrow> (\<And>s. P s \<Longrightarrow> P' s) \<Longrightarrow> (\<And>x s. Q' x s \<Longrightarrow> Q x s) \<Longrightarrow> (\<And>s. E' s \<Longrightarrow> E s) \<Longrightarrow>
    triple P f Q E"
  by (fastforce simp: triple_def split: prod.splits sum.splits)

lemma triple_pre: "triple P' f Q E \<Longrightarrow> (\<And>s. P s \<Longrightarrow> P' s) \<Longrightarrow> triple P f Q E"
  by (erule triple_conseq)

lemma triple_post: "triple P f Q' E \<Longrightarrow> (\<And>x s. Q' x s \<Longrightarrow> Q x s) \<Longrightarrow> triple P f Q E"
  by (erule triple_conseq)

lemma triple_ret: "(\<And>s. P s \<Longrightarrow> Q x s) \<Longrightarrow> triple P (ret x) Q E"
  by (auto simp: triple_def ret_def)

lemma triple_throw: "(\<And>s. P s \<Longrightarrow> E s) \<Longrightarrow> triple P (throw e) Q E"
  by (auto simp: triple_def throw_def)

lemma triple_ask: "(\<And>s. P s \<Longrightarrow> Q (f s) s) \<Longrightarrow> triple P (ask f) Q E"
  by (auto simp: triple_def ask_def)

lemma triple_change: "(\<And>s. P s \<Longrightarrow> Q () (f s)) \<Longrightarrow> triple P (change f) Q E"
  by (auto simp: triple_def change_def)

lemma triple_of_res: "(\<And>s x. P s \<Longrightarrow> r = Inr x \<Longrightarrow> Q x s) \<Longrightarrow> (\<And>s. P s \<Longrightarrow> E s) \<Longrightarrow> triple P (of_res r) Q E"
  by (auto simp: triple_def of_res_def split: sum.splits)

lemma triple_bind:
  "triple P m R E \<Longrightarrow> (\<And>x. triple (R x) (k x) Q E) \<Longrightarrow> triple P (bind_act m k) Q E"
  unfolding triple_def bind_act_def by (fastforce split: prod.splits sum.splits)

lemma triple_attempt:
  "triple P m R F \<Longrightarrow> (\<And>e. triple F (h e) Q E) \<Longrightarrow> (\<And>x. triple (R x) (k x) Q E) \<Longrightarrow> triple P (attempt m h k) Q E"
  unfolding triple_def attempt_def by (fastforce split: prod.splits sum.splits)

lemma triple_if:
  "(b \<Longrightarrow> triple P f Q E) \<Longrightarrow> (\<not> b \<Longrightarrow> triple P g Q E) \<Longrightarrow> triple P (if b then f else g) Q E"
  by simp

lemma triple_option:
  "(x = None \<Longrightarrow> triple P f Q E) \<Longrightarrow> (\<And>y. x = Some y \<Longrightarrow> triple P (g y) Q E) \<Longrightarrow>
    triple P (case x of None \<Rightarrow> f | Some y \<Rightarrow> g y) Q E"
  by (cases x) auto

lemma triple_sum:
  "(\<And>y. x = Inl y \<Longrightarrow> triple P (f y) Q E) \<Longrightarrow> (\<And>y. x = Inr y \<Longrightarrow> triple P (g y) Q E) \<Longrightarrow>
    triple P (case x of Inl y \<Rightarrow> f y | Inr y \<Rightarrow> g y) Q E"
  by (cases x) auto

lemma triple_for_each:
  "(\<And>x. x \<in> set xs \<Longrightarrow> triple P (f x) (\<lambda>_. P) E) \<Longrightarrow> triple P (for_each f xs) (\<lambda>_. P) E"
proof (induction xs)
  case (Cons x xs)
  have "triple P (bind_act (f x) (\<lambda>_. for_each f xs)) (\<lambda>_. P) E"
    by (rule triple_bind) (use Cons in simp_all)
  then show ?case by (simp add: triple_def bind_act_def)
qed (simp add: triple_def)

lemma triple_on_part:
  assumes "\<And>s. P s \<Longrightarrow> triple (\<lambda>p. p = get s) f (\<lambda>x p. Q x (put p s)) (\<lambda>p. E (put p s))"
  shows "triple P (on_part get put f) Q E"
proof (rule tripleI)
  fix s x s'
  assume s: "P s" "on_part get put f s = (Inr x, s')"
  then obtain p where "f (get s) = (Inr x, p)" "s' = put p s" by (auto simp: on_part_def split: prod.splits)
  with tripleD(1) [OF assms [OF s(1)] refl] show "Q x s'" by simp
next
  fix s e s'
  assume s: "P s" "on_part get put f s = (Inl e, s')"
  then obtain p where "f (get s) = (Inl e, p)" "s' = put p s" by (auto simp: on_part_def split: prod.splits)
  with tripleD(2) [OF assms [OF s(1)] refl] show "E s'" by simp
qed

section \<open>Actions that leave a view of the state alone\<close>

definition still :: "('s \<Rightarrow> 'v) \<Rightarrow> ('s, 'a) act \<Rightarrow> bool" where
  "still v f \<longleftrightarrow> (\<forall>p. v (snd (f p)) = v p)"

named_theorems still_rules \<open>actions that leave a view of the state alone\<close>

lemma stillD: "still v f \<Longrightarrow> f p = (r, p') \<Longrightarrow> v p' = v p"
  by (metis still_def snd_conv)

lemma still_ret [still_rules]: "still v (ret x)"
  and still_throw [still_rules]: "still v (throw e)"
  and still_ask [still_rules]: "still v (ask f)"
  and still_of_res [still_rules]: "still v (of_res r)"
  and still_reader [still_rules]: "still v (\<lambda>p. (g p, p))"
  by (simp_all add: still_def ret_def throw_def ask_def of_res_def)

lemma still_bind [still_rules]: "still v f \<Longrightarrow> (\<And>x. still v (g x)) \<Longrightarrow> still v (bind_act f g)"
  by (auto simp: still_def bind_act_def split: prod.splits sum.splits) (metis snd_conv)+

lemma still_attempt [still_rules]:
  "still v m \<Longrightarrow> (\<And>e. still v (h e)) \<Longrightarrow> (\<And>x. still v (k x)) \<Longrightarrow> still v (attempt m h k)"
  by (auto simp: still_def attempt_def split: prod.splits sum.splits) (metis snd_conv)+

lemma still_if [still_rules]: "still v f \<Longrightarrow> still v g \<Longrightarrow> still v (if b then f else g)"
  by simp

lemma still_option [still_rules]:
  "still v f \<Longrightarrow> (\<And>y. still v (g y)) \<Longrightarrow> still v (case x of None \<Rightarrow> f | Some y \<Rightarrow> g y)"
  by (cases x) auto

lemma still_sum [still_rules]:
  "(\<And>y. still v (f y)) \<Longrightarrow> (\<And>y. still v (g y)) \<Longrightarrow> still v (case x of Inl y \<Rightarrow> f y | Inr y \<Rightarrow> g y)"
  by (cases x) auto

lemma still_case_prod [still_rules]: "(\<And>a b. still v (f a b)) \<Longrightarrow> still v (case x of (a, b) \<Rightarrow> f a b)"
  by (cases x) auto

lemma still_for_each [still_rules]: "(\<And>x. still v (f x)) \<Longrightarrow> still v (for_each f xs)"
proof (induction xs)
  case (Cons x xs)
  have "still v (bind_act (f x) (\<lambda>_. for_each f xs))" by (intro still_rules Cons)
  then show ?case by (simp add: still_def bind_act_def)
qed (simp add: still_def)

lemma still_collect [still_rules]: "(\<And>x. still v (f x)) \<Longrightarrow> still v (collect f xs)"
proof (induction xs)
  case (Cons x xs)
  have "still v (bind_act (f x) (\<lambda>y. bind_act (collect f xs) (\<lambda>ys. ret (y # ys))))" by (intro still_rules Cons)
  then show ?case by (simp add: still_def)
qed (simp add: still_def)

lemma still_change: "(\<And>p. v (f p) = v p) \<Longrightarrow> still v (change f)"
  by (simp add: still_def change_def)

lemma still_on_part: "(\<And>p x. v (put x p) = v p) \<Longrightarrow> still v (on_part get put f)"
  by (auto simp: still_def on_part_def split: prod.splits)

end
