(* ===== verification/Pipeline.thy ===== *)
theory Pipeline
  imports Actions MasterLedger Execution Sizing Governance DecisionQuality SessionServices
begin

text \<open>
  \<open>services/pipeline.py\<close>: one trading session, from the universe to the protective stop. The
  pipeline object is a record of its components; a method is an action on it, so that what was
  done before an exception stays done. The risk controller of the pipeline is the one of its
  execution engine, as the components are wired. The result object of a session and two local
  variables (marks and sized candidates) are kept in the record while the session runs. What
  comes from outside is the record \<open>world\<close>: market data, the language models, the broker, clocks,
  random identifiers and text formats. A source of market data either answers or raises
  \<open>MarketDataUnavailable\<close>, as its documentation demands. The time of a session is an aware
  datetime. A reason for not trading is a constructor instead of its text.
\<close>

section \<open>State\<close>

record decision_context =
  dc_scan :: scan_result
  dc_as_of :: instant
  dc_regime :: string
  dc_cash :: real

record 'b world =
  wd_prims :: prims
  wd_adapter :: "'b adapter"
  wd_bars :: "string \<Rightarrow> instant \<Rightarrow> int \<Rightarrow> real bar list option"
  wd_quote :: "string \<Rightarrow> instant \<Rightarrow> real quote option"
  wd_decide :: "decision_context \<Rightarrow> exn + pyfloat decision_output"
  wd_critique :: "real decision_output \<Rightarrow> decision_context \<Rightarrow> exn + skeptic_output"
  wd_model :: string
  wd_version :: string
  wd_skeptic :: "string option"
  wd_uuid :: "nat \<Rightarrow> string"
  wd_hex :: "nat \<Rightarrow> string"
  wd_wall :: "nat \<Rightarrow> instant"
  wd_clock :: instant
  wd_y2000 :: "instant \<Rightarrow> instant"
  wd_date :: "instant \<Rightarrow> date"
  wd_json :: "pretrade_record \<Rightarrow> string"
  wd_pct :: "real \<Rightarrow> string"
  wd_signed_pct :: "real \<Rightarrow> string"

datatype no_trade =
    NoCandidates
  | NoQuote string
  | NoQuoteAtAll
  | MalformedDecision string
  | ModelDown string
  | SellUnheld string
  | SkepticVeto string "string list"
  | NoStopPlan string
  | NotSized string
  | NothingSurvived
  | NotAllocated string bool
  | NoAudit string
  | InReview string "string list"
  | AuditRejected string "string list"
  | RiskRejected string "string list"
  | Unprotected string
  | EndedAs string order_state

record session_result =
  rt_scanned :: nat
  rt_candidates :: nat
  rt_decisions :: nat
  rt_vetoes :: nat
  rt_planned :: nat
  rt_stops_placed :: nat
  rt_stops_triggered :: nat
  rt_sized :: nat
  rt_allocated :: nat
  rt_audit_passed :: nat
  rt_audit_rejected :: nat
  rt_audit_review :: nat
  rt_risk_passed :: nat
  rt_risk_rejected :: nat
  rt_filled :: nat
  rt_reasons :: "no_trade list"
  rt_fills :: "broker_fill list"

definition new_result :: session_result where
  "new_result = \<lparr>rt_scanned = 0, rt_candidates = 0, rt_decisions = 0, rt_vetoes = 0, rt_planned = 0,
     rt_stops_placed = 0, rt_stops_triggered = 0, rt_sized = 0, rt_allocated = 0, rt_audit_passed = 0,
     rt_audit_rejected = 0, rt_audit_review = 0, rt_risk_passed = 0, rt_risk_rejected = 0,
     rt_filled = 0, rt_reasons = [], rt_fills = []\<rparr>"

definition traded :: "session_result \<Rightarrow> bool" where
  "traded r \<longleftrightarrow> 0 < rt_filled r"

record 'b pipeline =
  pp_env :: environment
  pp_universe :: universe
  pp_scanner :: scanner
  pp_integrity :: integrity_engine
  pp_calibration :: calibration
  pp_loss :: loss_control
  pp_sizing :: sizing_engine
  pp_alloc :: risk_config
  pp_engine :: "'b engine"
  pp_ledger :: ledger
  pp_prov :: provenance
  pp_auditor :: auditor
  pp_log :: pretrade_log
  pp_quality :: quality_engine
  pp_post :: "tracked_exit list"
  pp_costs :: "cost_entry list option"
  pp_themes :: "(string, string list) dict"
  pp_max_new :: nat
  pp_audit_store :: "durable_audit option"
  pp_regime :: regime_engine
  pp_session_regime :: string
  pp_seq :: nat
  pp_stops :: "(string, string \<times> stop_plan \<times> real \<times> real) dict"
  pp_theses :: "(string, final_trade_thesis) dict"
  pp_captured :: "(string, instant) dict"
  pp_ticks :: nat
  pp_result :: session_result
  pp_prices :: "(string, real) dict"
  pp_sized :: "sized_proposal list"

text \<open>\<open>__post_init__\<close>: pipeline, engine and auditor must share one environment.\<close>

definition mk_pipeline :: "'b pipeline \<Rightarrow> exn + 'b pipeline" where
  "mk_pipeline p =
     (case require_same_environment [pp_env p, en_env (pp_engine p), ad_env (pp_auditor p)] of
        Inl e \<Rightarrow> Inl e | Inr _ \<Rightarrow> Inr p)"

definition final_theses :: "'b pipeline \<Rightarrow> (string, final_trade_thesis) dict" where
  "final_theses p = pp_theses p"

section \<open>Parts of the pipeline\<close>

definition on_engine :: "('b engine, 'a) act \<Rightarrow> ('b pipeline, 'a) act" where
  "on_engine = on_part pp_engine (\<lambda>x p. p\<lparr>pp_engine := x\<rparr>)"

definition on_risk :: "(controller, 'a) act \<Rightarrow> ('b pipeline, 'a) act" where
  "on_risk f = on_engine (on_part en_risk (\<lambda>x e. e\<lparr>en_risk := x\<rparr>) f)"

definition on_ledger :: "(ledger, 'a) act \<Rightarrow> ('b pipeline, 'a) act" where
  "on_ledger = on_part pp_ledger (\<lambda>x p. p\<lparr>pp_ledger := x\<rparr>)"

definition on_log :: "(pretrade_log, 'a) act \<Rightarrow> ('b pipeline, 'a) act" where
  "on_log = on_part pp_log (\<lambda>x p. p\<lparr>pp_log := x\<rparr>)"

definition on_quality :: "(quality_engine, 'a) act \<Rightarrow> ('b pipeline, 'a) act" where
  "on_quality = on_part pp_quality (\<lambda>x p. p\<lparr>pp_quality := x\<rparr>)"

definition note_log :: "string \<Rightarrow> (pretrade_record \<Rightarrow> pretrade_record) \<Rightarrow> ('b pipeline, unit) act" where
  "note_log cid f = change (\<lambda>p. p\<lparr>pp_log := fill_in cid f (pp_log p)\<rparr>)"

definition note_prov :: "string \<Rightarrow> (prov_record \<Rightarrow> prov_record) \<Rightarrow> ('b pipeline, unit) act" where
  "note_prov did f = change (\<lambda>p. p\<lparr>pp_prov := set_prov did f (pp_prov p)\<rparr>)"

definition on_result :: "(session_result \<Rightarrow> session_result) \<Rightarrow> ('b pipeline, unit) act" where
  "on_result f = change (\<lambda>p. p\<lparr>pp_result := f (pp_result p)\<rparr>)"

definition explain :: "no_trade \<Rightarrow> ('b pipeline, unit) act" where
  "explain n = on_result (\<lambda>r. r\<lparr>rt_reasons := rt_reasons r @ [n]\<rparr>)"

text \<open>A number that names the next random identifier or reading of the wall clock.\<close>

definition tick :: "('b pipeline, nat) act" where
  "tick p = (Inr (pp_ticks p), p\<lparr>pp_ticks := pp_ticks p + 1\<rparr>)"

definition iso_date :: "date \<Rightarrow> string" where
  "iso_date d = pad0 4 (str_int (yr d)) @ ''-'' @ pad0 2 (str_int (mon d)) @ ''-'' @ pad0 2 (str_int (dayno d))"

definition decision_id_of :: "'b world \<Rightarrow> string \<Rightarrow> instant \<Rightarrow> string" where
  "decision_id_of w symbol now = symbol @ ''-'' @ iso_date (wd_date w now)"

definition make_client_order_id :: "environment \<Rightarrow> string \<Rightarrow> nat \<Rightarrow> string \<Rightarrow> string" where
  "make_client_order_id env proposal_id k hex =
     str_lower (env_value env) @ ''-'' @ take 8 proposal_id @ ''-'' @ str_int (int k) @ ''-'' @ hex"

section \<open>Market data\<close>

definition bars_of :: "'b world \<Rightarrow> string \<Rightarrow> instant \<Rightarrow> int \<Rightarrow> exn + real bar list" where
  "bars_of w symbol now n =
     map_sum id (map sb_bar) (service_bars
       (\<lambda>s t n. case t of Naive _ \<Rightarrow> Inl ValueError
          | Aware t \<Rightarrow> (case wd_bars w s t n of None \<Rightarrow> Inl MarketDataUnavailable | Some bs \<Rightarrow> Inr bs))
       symbol (Aware now) n (Aware now))"

definition quote_at :: "'b world \<Rightarrow> string \<Rightarrow> instant \<Rightarrow> exn + real quote" where
  "quote_at w symbol now = (case wd_quote w symbol now of None \<Rightarrow> Inl MarketDataUnavailable | Some q \<Rightarrow> Inr q)"

fun bars_by_symbol ::
    "'b world \<Rightarrow> instant \<Rightarrow> string list \<Rightarrow> (string, real bar list) dict \<Rightarrow> exn + (string, real bar list) dict" where
  "bars_by_symbol w now [] d = Inr d"
| "bars_by_symbol w now (s # ss) d =
     (case bars_of w s now 40 of Inl e \<Rightarrow> Inl e | Inr bs \<Rightarrow> bars_by_symbol w now ss (dput d s bs))"

text \<open>\<open>pydantic.ValidationError\<close> is a \<open>ValueError\<close>.\<close>

definition read_regime :: "'b world \<Rightarrow> string list \<Rightarrow> instant \<Rightarrow> ('b pipeline, string) act" where
  "read_regime w symbols now p =
     (let reading = (case bars_by_symbol w now symbols [] of Inl e \<Rightarrow> Inl e | Inr d \<Rightarrow>
                     case universe_composite_bars d 3 of Inl e \<Rightarrow> Inl e | Inr bs \<Rightarrow>
                     case classify (pp_regime p) bs of Inl e \<Rightarrow> Inl e | Inr r \<Rightarrow> Inr (r, length d))
      in case reading of
           Inl e \<Rightarrow>
             if e \<in> {ValueError, ValidationError, MarketDataUnavailable}
             then (Inr ''UNKNOWN'', p\<lparr>pp_session_regime := ''UNKNOWN''\<rparr>) else (Inl e, p)
         | Inr (r, n) \<Rightarrow>
             (Inr (describe_universe_regime (wd_signed_pct w) (wd_pct w) r n),
              p\<lparr>pp_session_regime := regime_value (rr_primary r)\<rparr>))"

definition adv_shares :: "'b world \<Rightarrow> string \<Rightarrow> instant \<Rightarrow> real" where
  "adv_shares w symbol now =
     (case bars_of w symbol now 20 of
        Inl _ \<Rightarrow> 0
      | Inr bs \<Rightarrow>
          if bs = [] then 0
          else let window = last_n 20 bs in (\<Sum>b\<leftarrow>window. of_int (bar_volume b)) / real (length window))"

fun mark_loop ::
    "'b world \<Rightarrow> instant \<Rightarrow> string list \<Rightarrow> (string, real) dict \<Rightarrow> exn + (string, real) dict" where
  "mark_loop w now [] prices = Inr prices"
| "mark_loop w now (s # ss) prices =
     (if dhas prices s then mark_loop w now ss prices
      else case quote_at w s now of Inl e \<Rightarrow> Inl e | Inr q \<Rightarrow> mark_loop w now ss (dput prices s (quote_mid q)))"

definition mark_prices :: "'b world \<Rightarrow> instant \<Rightarrow> (string, real) dict \<Rightarrow> ('b pipeline, (string, real) dict) act" where
  "mark_prices w now known p = (mark_loop w now (dkeys (lg_lots (pp_ledger p))) known, p)"

text \<open>The marks cover every position.\<close>

definition position_notional :: "(string, real) dict \<Rightarrow> lots \<Rightarrow> (string, real) dict" where
  "position_notional marks ps = map (\<lambda>(s, l). (s, lot_qty l * dget_or marks s 0)) ps"

definition theme_exposure_of :: "(string, string list) dict \<Rightarrow> (string, real) dict \<Rightarrow> (string, real) dict" where
  "theme_exposure_of themes notional =
     tally (concat (map (\<lambda>(s, x). map (\<lambda>t. (t, x)) (dget_or themes s [])) notional)) []"

definition spread_pct :: "'b world \<Rightarrow> string \<Rightarrow> instant \<Rightarrow> exn + real" where
  "spread_pct w symbol now =
     (case quote_at w symbol now of Inl e \<Rightarrow> Inl e
      | Inr q \<Rightarrow> Inr (if 0 < quote_mid q then quote_spread q / quote_mid q else 1))"

definition settled_cash :: "'b world \<Rightarrow> ('b pipeline, real) act" where
  "settled_cash w p =
     (case ad_cash (wd_adapter w) (en_broker (pp_engine p)) of
        Inl e \<Rightarrow> (if e = BrokerDisconnectedError then Inr 0 else Inl e, p)
      | Inr c \<Rightarrow> (Inr (bc_settled c), p))"

definition broker_connected :: "'b pipeline \<Rightarrow> bool" where
  "broker_connected p \<longleftrightarrow> mc_state (en_risk (pp_engine p)) \<noteq> FULL_BROKER_DISCONNECT"

section \<open>Books and records\<close>

definition persist_audit_record :: "'b world \<Rightarrow> string \<Rightarrow> instant \<Rightarrow> ('b pipeline, unit) act" where
  "persist_audit_record w cid now = change (\<lambda>p.
     case (pp_audit_store p, dget (pl_records (pp_log p)) cid) of
       (Some d, Some r) \<Rightarrow> p\<lparr>pp_audit_store := Some (upsert cid (pt_decision r) (wd_json w r) now d)\<rparr>
     | _ \<Rightarrow> p)"

definition on_costs :: "(cost_entry list, unit) act \<Rightarrow> ('b pipeline, unit) act" where
  "on_costs f p =
     (case pp_costs p of None \<Rightarrow> (Inr (), p) | Some cs \<Rightarrow>
      (let (r, cs') = f cs in (r, p\<lparr>pp_costs := Some cs'\<rparr>)))"

definition pipeline_fill ::
    "string \<Rightarrow> real \<Rightarrow> real \<Rightarrow> real \<Rightarrow> instant \<Rightarrow> string \<Rightarrow> ('b pipeline, unit) act" where
  "pipeline_fill symbol side_qty price fees ts note =
     bind_act (on_ledger (record_fill symbol side_qty price fees (Aware ts))) (\<lambda>_.
       on_costs (record_transaction_fee ts fees (if note = [] then symbol else note)))"

fun kind_value :: "decision_action \<Rightarrow> string" where
  "kind_value D_BUY = ''BUY''"
| "kind_value D_SELL = ''SELL''"
| "kind_value D_HOLD = ''HOLD''"
| "kind_value D_WAIT = ''WAIT''"
| "kind_value D_NO_TRADE = ''NO_TRADE''"
| "kind_value D_AVOID = ''AVOID''"

definition snapshot_of ::
    "'b world \<Rightarrow> 'b pipeline \<Rightarrow> string \<Rightarrow> string \<Rightarrow> decision_action \<Rightarrow> instant \<Rightarrow> real \<Rightarrow>
     real decision_output option \<Rightarrow> bool \<Rightarrow> bool \<Rightarrow> decision_snapshot" where
  "snapshot_of w p did symbol kind now price decision had_stop skeptic =
     \<lparr>ds_id = did @ '':'' @ kind_value kind, ds_symbol = symbol, ds_ts = Aware now, ds_price = price,
       ds_decision = kind, ds_confidence = (case decision of None \<Rightarrow> 1/2 | Some d \<Rightarrow> do_confidence d),
       ds_horizon = (case decision of None \<Rightarrow> ''1w'' | Some d \<Rightarrow> do_horizon d),
       ds_range = (case decision of None \<Rightarrow> (- 5/100, 5/100) | Some d \<Rightarrow> do_range d),
       ds_scenarios = (case decision of None \<Rightarrow> []
          | Some d \<Rightarrow> [(''bull'', do_bull d), (''base'', do_base d), (''bear'', do_bear d)]),
       ds_stop_plan = None,
       ds_thesis = (case decision of None \<Rightarrow> [] | Some d \<Rightarrow> sc_description (do_base d)),
       ds_invalidation = (case decision of None \<Rightarrow> [] | Some d \<Rightarrow> do_invalidation d),
       ds_alphas = [], ds_news = [], ds_institutional = [], ds_regime = pp_session_regime p,
       ds_portfolio = [], ds_model = wd_model w, ds_version = wd_version w, ds_prompt = [], ds_risk = [],
       ds_compliant = True, ds_had_stop = had_stop, ds_skeptic = skeptic,
       ds_health = (health (pp_integrity p) \<noteq> HALT_ENTRIES)\<rparr>"

definition log_decision ::
    "'b world \<Rightarrow> string \<Rightarrow> string \<Rightarrow> decision_action \<Rightarrow> instant \<Rightarrow> real \<Rightarrow> real decision_output option \<Rightarrow>
     bool \<Rightarrow> bool \<Rightarrow> ('b pipeline, unit) act" where
  "log_decision w did symbol kind now price decision had_stop skeptic =
     bind_act (ask (\<lambda>p. mk_decision_snapshot (snapshot_of w p did symbol kind now price decision had_stop skeptic)))
       (\<lambda>r. bind_act (of_res r) (\<lambda>s. on_quality (record_decision s)))"

section \<open>Views for the risk gate\<close>

text \<open>
  What the risk gate is shown: the equity at marks, where \<open>known\<close> marks are used before quotes.
  Taking the ledger snapshot moves its high-water mark.
\<close>

definition portfolio_view ::
    "'b world \<Rightarrow> instant \<Rightarrow> (string, real) dict \<Rightarrow> string \<Rightarrow> real \<Rightarrow> ('b pipeline, real) act \<Rightarrow>
     ('b pipeline, risk_view) act" where
  "portfolio_view w now known symbol gap age =
     bind_act (mark_prices w now known) (\<lambda>marks.
     bind_act (on_ledger (snapshot marks)) (\<lambda>snap.
     bind_act (settled_cash w) (\<lambda>cash.
     bind_act (of_res (spread_pct w symbol now)) (\<lambda>spread.
     bind_act age (\<lambda>signal_age.
       ask (\<lambda>p. let ps = lg_lots (pp_ledger p); notional = position_notional marks ps in
         \<lparr>rv_equity = es_equity snap, rv_settled = cash, rv_exposure = sum_list (dvals notional),
          rv_position_notional = notional, rv_position_qty = map (\<lambda>(s, l). (s, lot_qty l)) ps,
          rv_theme_exposure = theme_exposure_of (pp_themes p) notional, rv_symbol_themes = pp_themes p,
          rv_drawdown = es_drawdown snap, rv_stop_plan = True, rv_gap = gap,
          rv_adv = adv_shares w symbol now, rv_correlation = 0, rv_reconciled = True,
          rv_health = health (pp_integrity p), rv_connected = broker_connected p, rv_spread = spread,
          rv_known_ids = dkeys (en_submitted (pp_engine p)), rv_signal_age = signal_age, rv_margin = 0\<rparr>))))))"

definition exit_risk_view :: "'b world \<Rightarrow> string \<Rightarrow> instant \<Rightarrow> ('b pipeline, risk_view) act" where
  "exit_risk_view w symbol now = portfolio_view w now [] symbol 0 (ret 0)"

definition signal_age :: "'b world \<Rightarrow> string \<Rightarrow> ('b pipeline, real) act" where
  "signal_age w proposal_id =
     bind_act tick (\<lambda>n p.
       case dget (pp_captured p) proposal_id of
         None \<Rightarrow> (Inl KeyError, p)
       | Some t \<Rightarrow> (Inr (total_seconds (wd_wall w n - t)), p))"

definition entry_risk_view :: "'b world \<Rightarrow> sized_proposal \<Rightarrow> instant \<Rightarrow> ('b pipeline, risk_view) act" where
  "entry_risk_view w sized now =
     bind_act (ask pp_prices) (\<lambda>known.
       portfolio_view w now known (tp_symbol (szp_proposal sized)) (sp_gap (szp_plan sized))
         (signal_age w (tp_id (szp_proposal sized))))"

section \<open>Protective stops\<close>

definition next_order_id :: "'b world \<Rightarrow> string \<Rightarrow> ('b pipeline, string) act" where
  "next_order_id w proposal_id =
     bind_act (change (\<lambda>p. p\<lparr>pp_seq := pp_seq p + 1\<rparr>)) (\<lambda>_.
     bind_act tick (\<lambda>n.
       ask (\<lambda>p. make_client_order_id (pp_env p) proposal_id (pp_seq p) (wd_hex w n))))"

definition ask_risk :: "'b world \<Rightarrow> order_intent \<Rightarrow> risk_view \<Rightarrow> real option \<Rightarrow> ('b pipeline, risk_rejection + risk_approval) act" where
  "ask_risk w i v entry_price =
     bind_act tick (\<lambda>n. on_risk (review (wd_prims w) (wd_clock w) (wd_uuid w n) i v entry_price))"

definition submit_to_engine ::
    "'b world \<Rightarrow> approved_order \<Rightarrow> order_snapshot \<Rightarrow> ('b pipeline, order_state) act" where
  "submit_to_engine w order snap =
     on_engine (submit (wd_prims w) (wd_adapter w) (wd_clock w) (wd_y2000 w (wd_clock w)) order (Some snap))"

text \<open>From the approval of a protective stop to the broker, with its record in the log.\<close>

definition submit_stop ::
    "'b world \<Rightarrow> order_intent \<Rightarrow> risk_approval \<Rightarrow> instant \<Rightarrow> string \<Rightarrow> ('b pipeline, unit) act" where
  "submit_stop w i approval now did =
     bind_act (of_res (mk_approved_order (pr_sha (wd_prims w)) i approval)) (\<lambda>approved.
     bind_act (of_res (from_approved (pr_sha (wd_prims w)) approved did [] None [] [] None)) (\<lambda>snap.
     bind_act (on_log (open_record (oi_id i) did (Aware now) (oi_symbol i) SELL (oi_qty i))) (\<lambda>_.
     bind_act (note_log (oi_id i) (\<lambda>r. r\<lparr>pt_protective := True, pt_risk := Some (RiskPassed (ap_id approval)),
                 pt_hash := ss_hash snap, pt_submitted := True\<rparr>)) (\<lambda>_.
     bind_act (submit_to_engine w approved snap) (\<lambda>st.
     bind_act (note_log (oi_id i) (\<lambda>r. r\<lparr>pt_final := Some st\<rparr>)) (\<lambda>_.
       persist_audit_record w (oi_id i) now))))))"

definition place_protective_stop ::
    "'b world \<Rightarrow> string \<Rightarrow> real \<Rightarrow> stop_plan \<Rightarrow> instant \<Rightarrow> string \<Rightarrow> ('b pipeline, bool) act" where
  "place_protective_stop w symbol qty stop now did =
     (if qty \<le> 0 then ret False
      else
        bind_act (next_order_id w (''stop'' @ symbol)) (\<lambda>cid.
        bind_act (ask pp_env) (\<lambda>env.
        bind_act (of_res (mk_order_intent
          \<lparr>oi_id = cid, oi_proposal = ''protective-'' @ symbol, oi_symbol = symbol, oi_side = SELL,
           oi_qty = qty, oi_type = STOP, oi_limit = None, oi_stop = Some (sp_stop stop), oi_env = env,
           oi_protective = True, oi_created = now\<rparr>)) (\<lambda>i.
        bind_act (exit_risk_view w symbol now) (\<lambda>v.
        bind_act (ask_risk w i v None) (\<lambda>verdict.
        case verdict of
          Inl rejection \<Rightarrow>
            bind_act (on_log (record_near_miss STAGE_RISK NO_STOP (Aware now) did cid)) (\<lambda>_. ret False)
        | Inr approval \<Rightarrow>
            bind_act (submit_stop w i approval now did) (\<lambda>_.
            bind_act (change (\<lambda>p.
              let prior_risk = (case dget (pp_stops p) symbol of None \<Rightarrow> 0 | Some (_, _, _, r) \<Rightarrow> r)
              in p\<lparr>pp_stops := dput (pp_stops p) symbol
                   (cid, stop, sp_entry stop, prior_risk + qty * stop_distance stop)\<rparr>)) (\<lambda>_.
              ret True))))))))"

section \<open>Exit management\<close>

text \<open>A sale that a resting stop made: realized result, the anti-martingale guard, the grade of the stop.\<close>

definition close_out ::
    "'b world \<Rightarrow> instant \<Rightarrow> broker_fill \<Rightarrow> ('b pipeline, unit) act" where
  "close_out w now f =
     bind_act (ask (\<lambda>p. case dget (lg_lots (pp_ledger p)) (bf_symbol f) of
                 None \<Rightarrow> bf_price f | Some l \<Rightarrow> lot_cost l)) (\<lambda>avg_cost.
     bind_act (pipeline_fill (bf_symbol f) (- bf_qty f) (bf_price f) (bf_fees f) (bf_ts f) (bf_cid f)) (\<lambda>_.
     bind_act (ask (\<lambda>p. dget (pp_stops p) (bf_symbol f))) (\<lambda>entry.
     bind_act (case entry of None \<Rightarrow> ret ()
       | Some (_, _, _, risk_amount) \<Rightarrow>
           bind_act (change (\<lambda>p. p\<lparr>pp_sizing := record_trade_result
             ((bf_price f - avg_cost) * bf_qty f - bf_fees f) risk_amount (pp_sizing p)\<rparr>)) (\<lambda>_.
           bind_act (on_part pp_post (\<lambda>x p. p\<lparr>pp_post := x\<rparr>)
             (track_exit (bf_symbol f) (bf_price f) (Aware (bf_ts f)) ''STOP'')) (\<lambda>_.
             change (\<lambda>p. if position_qty (pp_ledger p) (bf_symbol f) \<le> eps
               then p\<lparr>pp_stops := ddel (pp_stops p) (bf_symbol f)\<rparr> else p)))) (\<lambda>_.
       log_decision w (''exit-'' @ bf_symbol f @ ''-'' @ iso_date (wd_date w (bf_ts f))) (bf_symbol f) D_SELL
         now (bf_price f) None True False))))"

fun manage_fills :: "'b world \<Rightarrow> instant \<Rightarrow> broker_fill list \<Rightarrow> nat \<Rightarrow> ('b pipeline, nat) act" where
  "manage_fills w now [] n p = (Inr n, p)"
| "manage_fills w now (f # fs) n p =
     (if bf_side f \<noteq> SELL
      then bind_act (pipeline_fill (bf_symbol f) (bf_qty f) (bf_price f) (bf_fees f) (bf_ts f) (bf_cid f))
             (\<lambda>_. manage_fills w now fs n) p
      else bind_act (close_out w now f) (\<lambda>_. manage_fills w now fs (n + 1)) p)"

definition manage_open_positions :: "'b world \<Rightarrow> instant \<Rightarrow> ('b pipeline, nat \<times> nat) act" where
  "manage_open_positions w now =
     bind_act (on_engine (sync_open_orders (wd_adapter w) (wd_clock w) (wd_y2000 w (wd_clock w)))) (\<lambda>fills.
     bind_act (manage_fills w now fills 0) (\<lambda>triggered. ret (triggered, length fills)))"

section \<open>From a candidate to a sized proposal\<close>

definition gate_one :: "'b world \<Rightarrow> instant \<Rightarrow> scan_result \<Rightarrow> ('b pipeline, scan_result option) act" where
  "gate_one w now s =
     bind_act (change (\<lambda>p. p\<lparr>pp_integrity := snd (validate_bars (sr_symbol s) (sr_bars s) (pp_integrity p))\<rparr>)) (\<lambda>_.
     case wd_quote w (sr_symbol s) now of
       None \<Rightarrow> bind_act (explain (NoQuote (sr_symbol s))) (\<lambda>_. ret None)
     | Some q \<Rightarrow>
         bind_act (on_part pp_integrity (\<lambda>x p. p\<lparr>pp_integrity := x\<rparr>) (validate_quote q (Aware now))) (\<lambda>_.
           ret (Some s)))"

text \<open>A decision other than a trade, or one that is stopped on its way, is recorded as such.\<close>

definition stand_aside ::
    "'b world \<Rightarrow> instant \<Rightarrow> scan_result \<Rightarrow> decision_action \<Rightarrow> real decision_output \<Rightarrow> bool \<Rightarrow> bool \<Rightarrow>
     ('b pipeline, unit) act" where
  "stand_aside w now s kind d had_stop skeptic =
     log_decision w (decision_id_of w (sr_symbol s) now) (sr_symbol s) kind now (sr_close s) (Some d) had_stop skeptic"

definition size_one ::
    "'b world \<Rightarrow> instant \<Rightarrow> scan_result \<Rightarrow> trade_proposal \<Rightarrow> stop_plan \<Rightarrow> real quote \<Rightarrow> ('b pipeline, unit) act" where
  "size_one w now s proposal stop q =
     bind_act (ask pp_prices) (\<lambda>known.
     bind_act (mark_prices w now known) (\<lambda>marks.
     bind_act (on_ledger (snapshot marks)) (\<lambda>snap.
     bind_act (settled_cash w) (\<lambda>cash.
     bind_act (ask (\<lambda>p. let cfg = mc_config (en_risk (pp_engine p)); ps = lg_lots (pp_ledger p);
                          notional = position_notional marks ps in
        (\<lparr>pc_equity = es_equity snap, pc_settled = cash, pc_existing = notional,
          pc_theme = theme_exposure_of (pp_themes p) notional, pc_symbol_themes = pp_themes p,
          pc_correlation = 0,
          pc_adv = (\<Sum>b\<leftarrow>last_n 20 (sr_bars s). of_int (bar_volume b)) / 20,
          pc_throttle = throttle_factor (throttle_level (es_drawdown snap) cfg) cfg\<rparr>,
         calibrate (pp_calibration p) (do_confidence (tp_decision proposal))))) (\<lambda>(ctx, confidence).
       attempt (on_part pp_sizing (\<lambda>x p. p\<lparr>pp_sizing := x\<rparr>) (size_order proposal stop q ctx confidence))
         (\<lambda>e. if e = SizingRejected
              then bind_act (explain (NotSized (sr_symbol s))) (\<lambda>_.
                stand_aside w now s D_AVOID (tp_decision proposal) True True)
              else throw e)
         (\<lambda>sized.
            bind_act (on_result (\<lambda>r. r\<lparr>rt_sized := rt_sized r + 1\<rparr>)) (\<lambda>_.
            bind_act (note_prov (decision_id_of w (sr_symbol s) now)
              (\<lambda>r. r\<lparr>pv_size := Some (szp_qty sized, szp_risk sized, szp_notional sized)\<rparr>)) (\<lambda>_.
              change (\<lambda>p. p\<lparr>pp_sized := pp_sized p @ [sized]\<rparr>)))))))))"

text \<open>Loss control before sizing.\<close>

definition plan_one ::
    "'b world \<Rightarrow> instant \<Rightarrow> scan_result \<Rightarrow> trade_proposal \<Rightarrow> ('b pipeline, unit) act" where
  "plan_one w now s proposal =
     bind_act (of_res (quote_at w (sr_symbol s) now)) (\<lambda>q.
     bind_act (change (\<lambda>p. p\<lparr>pp_prices := dput (pp_prices p) (sr_symbol s) (quote_mid q)\<rparr>)) (\<lambda>_.
     bind_act (of_res (gap_risk_score (sr_bars s) False)) (\<lambda>gap.
     attempt (\<lambda>p. (plan_stop (pr_repr (wd_prims w)) (pp_loss p) proposal (sr_bars s) (q_ask q) gap, p))
       (\<lambda>e. if e = NoStopPlanError
            then bind_act (explain (NoStopPlan (sr_symbol s))) (\<lambda>_.
              stand_aside w now s D_AVOID (tp_decision proposal) False True)
            else throw e)
       (\<lambda>stop.
          bind_act (on_result (\<lambda>r. r\<lparr>rt_planned := rt_planned r + 1\<rparr>)) (\<lambda>_.
          bind_act (note_prov (decision_id_of w (sr_symbol s) now) (\<lambda>r. r\<lparr>pv_stop := Some stop\<rparr>)) (\<lambda>_.
            size_one w now s proposal stop q))))))"

text \<open>The proposal with its thesis; the wall clock is read when the signal is captured.\<close>

definition propose_one ::
    "'b world \<Rightarrow> instant \<Rightarrow> scan_result \<Rightarrow> real decision_output \<Rightarrow> skeptic_output \<Rightarrow> ('b pipeline, unit) act" where
  "propose_one w now s d critique =
     (let did = decision_id_of w (sr_symbol s) now in
      bind_act tick (\<lambda>n.
      bind_act (of_res (mk_trade_proposal \<lparr>tp_id = wd_uuid w n, tp_symbol = sr_symbol s, tp_side = BUY,
        tp_source = FROM_AI, tp_decision = d, tp_skeptic = Some critique, tp_created = now\<rparr>)) (\<lambda>proposal.
      bind_act tick (\<lambda>k.
      bind_act (change (\<lambda>p. p\<lparr>pp_captured := dput (pp_captured p) (tp_id proposal) (wd_wall w k)\<rparr>)) (\<lambda>_.
      bind_act tick (\<lambda>m.
      bind_act (of_res (build_final_trade_thesis (wd_uuid w m) proposal did
        (case wd_skeptic w of None \<Rightarrow> sk_family critique | Some x \<Rightarrow> x))) (\<lambda>thesis.
      bind_act (change (\<lambda>p. p\<lparr>pp_theses := dput (pp_theses p) did thesis\<rparr>)) (\<lambda>_.
      bind_act (note_prov did (\<lambda>r. r\<lparr>pv_thesis := Some thesis\<rparr>)) (\<lambda>_.
        plan_one w now s proposal)))))))))"

definition consider_buy ::
    "'b world \<Rightarrow> instant \<Rightarrow> scan_result \<Rightarrow> decision_context \<Rightarrow> real decision_output \<Rightarrow> ('b pipeline, unit) act" where
  "consider_buy w now s ctx d =
     (let did = decision_id_of w (sr_symbol s) now in
      bind_act (on_result (\<lambda>r. r\<lparr>rt_decisions := rt_decisions r + 1\<rparr>)) (\<lambda>_.
      bind_act (of_res (wd_critique w d ctx)) (\<lambda>critique.
      bind_act (note_prov did (\<lambda>r. r\<lparr>pv_skeptic := Some critique\<rparr>)) (\<lambda>_.
      if sk_veto critique then
        bind_act (on_result (\<lambda>r. r\<lparr>rt_vetoes := rt_vetoes r + 1\<rparr>)) (\<lambda>_.
        bind_act (explain (SkepticVeto (sr_symbol s) (sk_objections critique))) (\<lambda>_.
          stand_aside w now s D_AVOID d False True))
      else propose_one w now s d critique))))"

definition act_on_decision ::
    "'b world \<Rightarrow> instant \<Rightarrow> scan_result \<Rightarrow> decision_context \<Rightarrow> real decision_output \<Rightarrow> ('b pipeline, unit) act" where
  "act_on_decision w now s ctx d =
     bind_act (note_prov (decision_id_of w (sr_symbol s) now) (\<lambda>r. r\<lparr>pv_output := Some d\<rparr>)) (\<lambda>_.
     bind_act (ask (\<lambda>p. position_qty (pp_ledger p) (sr_symbol s))) (\<lambda>held.
     if do_action d = D_SELL \<and> held \<le> 0 then
       bind_act (explain (SellUnheld (sr_symbol s))) (\<lambda>_.
       bind_act (on_log (record_near_miss STAGE_AUDIT WRONG_SIDE (Aware now)
         (decision_id_of w (sr_symbol s) now) [])) (\<lambda>_.
         stand_aside w now s D_AVOID d False False))
     else if do_action d \<noteq> D_BUY then stand_aside w now s D_NO_TRADE d False False
     else consider_buy w now s ctx d))"

definition decide_one :: "'b world \<Rightarrow> instant \<Rightarrow> string \<Rightarrow> scan_result \<Rightarrow> ('b pipeline, unit) act" where
  "decide_one w now regime_text s =
     (let did = decision_id_of w (sr_symbol s) now in
      bind_act (ask (\<lambda>p. \<lparr>dc_scan = s, dc_as_of = now, dc_regime = regime_text,
                        dc_cash = lg_cash (pp_ledger p)\<rparr>)) (\<lambda>ctx.
      bind_act (change (\<lambda>p. p\<lparr>pp_prov := open_prov did (wd_clock w) (pp_prov p)\<rparr>)) (\<lambda>_.
      bind_act (note_prov did (\<lambda>r. r\<lparr>pv_model := wd_model w, pv_version := wd_version w,
        pv_features := [(''momentum_20d'', sr_momentum s), (''volatility'', sr_volatility s),
                        (''dollar_volume'', sr_dollar_volume s)]\<rparr>)) (\<lambda>_.
      attempt (of_res (case wd_decide w ctx of Inl e \<Rightarrow> Inl e | Inr raw \<Rightarrow> validate_decision raw))
        (\<lambda>e. if e = MalformedDecisionError
             then bind_act (explain (MalformedDecision (sr_symbol s))) (\<lambda>_.
               note_prov did (\<lambda>r. r\<lparr>pv_result := Some RejectedMalformed\<rparr>))
             else if e = LLMCallError
             then bind_act (explain (ModelDown (sr_symbol s))) (\<lambda>_.
               note_prov did (\<lambda>r. r\<lparr>pv_result := Some ModelUnavailable\<rparr>))
             else throw e)
        (act_on_decision w now s ctx)))))"

section \<open>From an allocated proposal to the broker\<close>

definition skip_one :: "'b world \<Rightarrow> instant \<Rightarrow> sized_proposal \<times> bool \<Rightarrow> ('b pipeline, unit) act" where
  "skip_one w now x =
     (let sp = fst x; symbol = tp_symbol (szp_proposal sp); did = decision_id_of w symbol now in
      bind_act (explain (NotAllocated symbol (snd x))) (\<lambda>_.
      bind_act (ask (\<lambda>p. get_prov (pp_prov p) did)) (\<lambda>r.
      bind_act (of_res r) (\<lambda>_.
        log_decision w did symbol D_WAIT now (sp_entry (szp_plan sp)) (Some (tp_decision (szp_proposal sp)))
          True True))))"

definition stand_down ::
    "'b world \<Rightarrow> instant \<Rightarrow> sized_proposal \<Rightarrow> decision_action \<Rightarrow> ('b pipeline, unit) act" where
  "stand_down w now sized kind =
     (let symbol = tp_symbol (szp_proposal sized) in
      log_decision w (decision_id_of w symbol now) symbol kind now (sp_entry (szp_plan sized))
        (Some (tp_decision (szp_proposal sized))) True True)"

text \<open>The independent audit; only a \<open>PASS\<close> lets the order on.\<close>

definition audit_stage ::
    "'b world \<Rightarrow> instant \<Rightarrow> sized_proposal \<Rightarrow> order_intent \<Rightarrow> string \<Rightarrow> ('b pipeline, audit_result option) act" where
  "audit_stage w now sized i did =
     (let symbol = tp_symbol (szp_proposal sized); cid = oi_id i in
      attempt
        (bind_act tick (\<lambda>n p. (audit_order (wd_uuid w n) (pp_auditor p) (tp_decision (szp_proposal sized)) sized i
           (audit_context_at (Aware now)) no_triggers, p)))
        (\<lambda>e. if e = AuditUnavailableError then
               bind_act (explain (NoAudit symbol)) (\<lambda>_.
               bind_act (on_log (record_near_miss STAGE_AUDIT OTHER (Aware now) did cid)) (\<lambda>_.
               bind_act (stand_down w now sized D_AVOID) (\<lambda>_. ret None)))
             else throw e)
        (\<lambda>audit.
           bind_act (note_log cid (\<lambda>r. r\<lparr>pt_audit := Some audit\<rparr>)) (\<lambda>_.
           if au_verdict audit = PASS then
             bind_act (on_result (\<lambda>r. r\<lparr>rt_audit_passed := rt_audit_passed r + 1\<rparr>)) (\<lambda>_. ret (Some audit))
           else
             bind_act
               (if au_verdict audit = REVIEW then
                  bind_act (on_result (\<lambda>r. r\<lparr>rt_audit_review := rt_audit_review r + 1\<rparr>)) (\<lambda>_.
                  bind_act (on_log (queue_human_review cid did (Aware now) (au_reasons audit) (au_severity audit))) (\<lambda>_.
                    explain (InReview symbol (au_reasons audit))))
                else
                  bind_act (on_result (\<lambda>r. r\<lparr>rt_audit_rejected := rt_audit_rejected r + 1\<rparr>)) (\<lambda>_.
                  bind_act (explain (AuditRejected symbol (au_reasons audit))) (\<lambda>_.
                    on_log (record_audit_rejection audit (Aware now) did cid)))) (\<lambda>_.
             bind_act (stand_down w now sized D_AVOID) (\<lambda>_. ret None)))))"

text \<open>The risk gate, the final barrier.\<close>

definition risk_stage ::
    "'b world \<Rightarrow> instant \<Rightarrow> sized_proposal \<Rightarrow> order_intent \<Rightarrow> string \<Rightarrow> ('b pipeline, risk_approval option) act" where
  "risk_stage w now sized i did =
     (let symbol = tp_symbol (szp_proposal sized); cid = oi_id i in
      bind_act (entry_risk_view w sized now) (\<lambda>v.
      bind_act (ask_risk w i v (Some (sp_entry (szp_plan sized)))) (\<lambda>verdict.
      case verdict of
        Inl rejection \<Rightarrow>
          bind_act (on_result (\<lambda>r. r\<lparr>rt_risk_rejected := rt_risk_rejected r + 1\<rparr>)) (\<lambda>_.
          bind_act (explain (RiskRejected symbol (rj_reasons rejection))) (\<lambda>_.
          bind_act (note_prov did (\<lambda>r. r\<lparr>pv_risk := Some (RiskFailed (rj_reasons rejection))\<rparr>)) (\<lambda>_.
          bind_act (note_log cid (\<lambda>r. r\<lparr>pt_risk := Some (RiskFailed (rj_reasons rejection))\<rparr>)) (\<lambda>_.
          bind_act (on_log (record_near_miss STAGE_RISK OTHER (Aware now) did cid)) (\<lambda>_.
          bind_act (stand_down w now sized D_AVOID) (\<lambda>_. ret None))))))
      | Inr approval \<Rightarrow>
          bind_act (on_result (\<lambda>r. r\<lparr>rt_risk_passed := rt_risk_passed r + 1\<rparr>)) (\<lambda>_.
          bind_act (note_prov did (\<lambda>r. r\<lparr>pv_risk := Some (RiskPassed (ap_id approval))\<rparr>)) (\<lambda>_.
          bind_act (note_log cid (\<lambda>r. r\<lparr>pt_risk := Some (RiskPassed (ap_id approval))\<rparr>)) (\<lambda>_.
            ret (Some approval)))))))"

text \<open>The fills of one order are booked on the ledger; the filled quantity is returned.\<close>

fun book_fills :: "string \<Rightarrow> string \<Rightarrow> broker_fill list \<Rightarrow> real \<Rightarrow> ('b pipeline, real) act" where
  "book_fills cid did [] filled_qty p = (Inr filled_qty, p)"
| "book_fills cid did (f # fs) filled_qty p =
     (if bf_cid f = cid then
        bind_act (pipeline_fill (bf_symbol f) (if bf_side f = BUY then bf_qty f else - bf_qty f) (bf_price f)
                    (bf_fees f) (bf_ts f) cid) (\<lambda>_.
        bind_act (note_prov did (\<lambda>r. r\<lparr>pv_fills := pv_fills r @ [bf_id f]\<rparr>)) (\<lambda>_.
        bind_act (note_log cid (\<lambda>r. r\<lparr>pt_fills := pt_fills r @ [bf_id f]\<rparr>)) (\<lambda>_.
        bind_act (on_result (\<lambda>r. r\<lparr>rt_fills := rt_fills r @ [f]\<rparr>)) (\<lambda>_.
          book_fills cid did fs (filled_qty + bf_qty f))))) p
      else book_fills cid did fs filled_qty p)"

text \<open>The approved snapshot is recorded, the decision logged, and the order handed to the engine.\<close>

definition submit_entry ::
    "'b world \<Rightarrow> instant \<Rightarrow> sized_proposal \<Rightarrow> order_intent \<Rightarrow> string \<Rightarrow> audit_result \<Rightarrow> risk_approval \<Rightarrow>
     ('b pipeline, order_state) act" where
  "submit_entry w now sized i did audit approval =
     bind_act (of_res (mk_approved_order (pr_sha (wd_prims w)) i approval)) (\<lambda>approved.
     bind_act (ask (\<lambda>p. dget (pp_theses p) did)) (\<lambda>thesis.
     bind_act (of_res (from_approved (pr_sha (wd_prims w)) approved did (au_id audit)
       (Some (sp_target (szp_plan sized))) [] (case thesis of None \<Rightarrow> [] | Some t \<Rightarrow> th_skeptic_id t) None)) (\<lambda>snap.
     bind_act (note_log (oi_id i) (\<lambda>r. r\<lparr>pt_hash := ss_hash snap, pt_submitted := True\<rparr>)) (\<lambda>_.
     bind_act (stand_down w now sized D_BUY) (\<lambda>_.
     bind_act (submit_to_engine w approved snap) (\<lambda>st.
     bind_act (note_log (oi_id i) (\<lambda>r. r\<lparr>pt_final := Some st\<rparr>)) (\<lambda>_.
     bind_act (note_prov did (\<lambda>r. r\<lparr>pv_order := Some (oi_id i)\<rparr>)) (\<lambda>_. ret st))))))))"

definition settle_entry ::
    "'b world \<Rightarrow> instant \<Rightarrow> sized_proposal \<Rightarrow> order_intent \<Rightarrow> string \<Rightarrow> order_state \<Rightarrow> ('b pipeline, unit) act" where
  "settle_entry w now sized i did st =
     (let symbol = tp_symbol (szp_proposal sized); cid = oi_id i in
      if st \<in> {FILLED, PARTIALLY_FILLED} then
        bind_act (\<lambda>p. (ad_fills (wd_adapter w) (wd_y2000 w now) (en_broker (pp_engine p)), p)) (\<lambda>fs.
        bind_act (book_fills cid did fs 0) (\<lambda>filled_qty.
        bind_act (on_result (\<lambda>r. r\<lparr>rt_filled := rt_filled r + 1\<rparr>)) (\<lambda>_.
        bind_act (note_prov did (\<lambda>r. r\<lparr>pv_result := Some (EndedIn st)\<rparr>)) (\<lambda>_.
        bind_act (persist_audit_record w cid now) (\<lambda>_.
        bind_act (place_protective_stop w symbol filled_qty (szp_plan sized) now did) (\<lambda>placed.
          if placed then on_result (\<lambda>r. r\<lparr>rt_stops_placed := rt_stops_placed r + 1\<rparr>)
          else explain (Unprotected symbol)))))))
      else
        bind_act (note_prov did (\<lambda>r. r\<lparr>pv_result := Some (EndedIn st)\<rparr>)) (\<lambda>_.
        bind_act (persist_audit_record w cid now) (\<lambda>_.
          explain (EndedAs symbol st))))"

definition order_one :: "'b world \<Rightarrow> instant \<Rightarrow> sized_proposal \<Rightarrow> ('b pipeline, unit) act" where
  "order_one w now sized =
     (let symbol = tp_symbol (szp_proposal sized); did = decision_id_of w symbol now in
      bind_act (next_order_id w (tp_id (szp_proposal sized))) (\<lambda>cid.
      bind_act (ask pp_env) (\<lambda>env.
      bind_act (of_res (mk_order_intent
        \<lparr>oi_id = cid, oi_proposal = tp_id (szp_proposal sized), oi_symbol = symbol, oi_side = BUY,
         oi_qty = szp_qty sized, oi_type = MARKET, oi_limit = None, oi_stop = None, oi_env = env,
         oi_protective = False, oi_created = now\<rparr>)) (\<lambda>i.
      bind_act (ask (\<lambda>p. get_prov (pp_prov p) did)) (\<lambda>r.
      bind_act (of_res r) (\<lambda>_.
      bind_act (on_log (open_record cid did (Aware now) symbol BUY (szp_qty sized))) (\<lambda>_.
      bind_act (audit_stage w now sized i did) (\<lambda>audited.
      case audited of None \<Rightarrow> ret () | Some audit \<Rightarrow>
      bind_act (risk_stage w now sized i did) (\<lambda>approved.
      case approved of None \<Rightarrow> ret () | Some approval \<Rightarrow>
      bind_act (submit_entry w now sized i did audit approval) (\<lambda>st.
        settle_entry w now sized i did st))))))))))"

section \<open>The session\<close>

definition start_session :: "('b pipeline, unit) act" where
  "start_session = change (\<lambda>p. p\<lparr>pp_result := new_result, pp_theses := [], pp_captured := [],
     pp_prices := [], pp_sized := []\<rparr>)"

definition allocate_and_order :: "'b world \<Rightarrow> instant \<Rightarrow> ('b pipeline, unit) act" where
  "allocate_and_order w now =
     bind_act (ask (\<lambda>p. (pp_sized p, pp_prices p, pp_alloc p, pp_max_new p))) (\<lambda>(candidates, known, cfg, max_new).
     bind_act (mark_prices w now known) (\<lambda>marks.
     bind_act (on_ledger (snapshot marks)) (\<lambda>snap.
     bind_act (settled_cash w) (\<lambda>cash.
     (let alloc = allocate_cash_to cfg candidates (es_equity snap) cash (es_positions snap) in
      bind_act (for_each (skip_one w now) (ca_skipped alloc)) (\<lambda>_.
      bind_act (on_result (\<lambda>r. r\<lparr>rt_allocated := length (ca_accepted alloc)\<rparr>)) (\<lambda>_.
        for_each (order_one w now) (take max_new (ca_accepted alloc)))))))))"

definition decide_all :: "'b world \<Rightarrow> instant \<Rightarrow> string list \<Rightarrow> scan_result list \<Rightarrow> ('b pipeline, unit) act" where
  "decide_all w now symbols scans =
     bind_act (read_regime w symbols now) (\<lambda>regime_text.
     bind_act (ask pp_max_new) (\<lambda>max_new.
     bind_act (for_each (decide_one w now regime_text) (take (max_new * 3) scans)) (\<lambda>_.
     bind_act (ask (\<lambda>p. (pp_sized p, rt_reasons (pp_result p)))) (\<lambda>(sized, reasons).
     if sized = [] then (if reasons = [] then explain NothingSurvived else ret ())
     else allocate_and_order w now))))"

definition run_session :: "'b world \<Rightarrow> instant \<Rightarrow> ('b pipeline, session_result) act" where
  "run_session w now =
     bind_act start_session (\<lambda>_.
     bind_act (manage_open_positions w now) (\<lambda>(triggered, synced).
     bind_act (on_result (\<lambda>r. r\<lparr>rt_stops_triggered := triggered\<rparr>)) (\<lambda>_.
     bind_act (ask (\<lambda>p. let symbols = symbols_as_of (pp_universe p) (wd_date w now) in
                 (symbols, scan (pp_scanner p)
                    (\<lambda>k. case bars_of w k now 40 of Inl _ \<Rightarrow> None | Inr bs \<Rightarrow> Some bs) symbols)))
       (\<lambda>(symbols, scans, funnel).
     bind_act (on_result (\<lambda>r. r\<lparr>rt_scanned := fu_scanned funnel, rt_candidates := fu_advanced funnel\<rparr>)) (\<lambda>_.
     bind_act
       (if scans = [] then explain NoCandidates
        else
          bind_act (collect (gate_one w now) scans) (\<lambda>gated.
          let open_scans = List.map_filter id gated in
          if open_scans = [] then explain NoQuoteAtAll
          else decide_all w now symbols open_scans)) (\<lambda>_.
       ask pp_result))))))"

text \<open>
  A decision of a symbol is logged under its date. A second session of the same day that comes to
  the same kind of decision at another time therefore raises, and the session ends there.
\<close>

lemma second_session_of_a_day_raises:
  assumes "dget (qe_snaps (pp_quality p)) (did @ '':'' @ kind_value kind) = Some old" and "ds_ts old \<noteq> Aware now"
    and "0 < price" and "case d of None \<Rightarrow> True | Some d \<Rightarrow> 0 \<le> do_confidence d \<and> do_confidence d \<le> 1"
  shows "log_decision w did symbol kind now price d had_stop skeptic p = (Inl SnapshotTamperError, p)"
proof -
  let ?s = "snapshot_of w p did symbol kind now price d had_stop skeptic"
  have f: "ds_id ?s = did @ '':'' @ kind_value kind" "ds_ts ?s = Aware now" "ds_price ?s = price"
    "ds_confidence ?s = (case d of None \<Rightarrow> 1/2 | Some d \<Rightarrow> do_confidence d)"
    by (simp_all add: snapshot_of_def)
  from assms f have ok: "mk_decision_snapshot ?s = Inr ?s" by (auto simp: mk_decision_snapshot_def split: option.splits)
  have "old \<noteq> ?s" using assms(2) f(2) by metis
  with assms(1) f(1) have "record_decision ?s (pp_quality p) = (Inl SnapshotTamperError, pp_quality p)"
    by (simp add: record_decision_def)
  then show ?thesis by (simp add: log_decision_def bind_act_def ask_def of_res_def ok on_quality_def on_part_def)
qed

end
