(* ===== verification/PipelineSafety.thy ===== *)
theory PipelineSafety
  imports Pipeline
begin

text \<open>
  What reaches the broker through the trading pipeline. A state is traced when every order that
  the execution engine has taken on is in the pre-trade log, with a risk approval and either an
  audit that passed or the mark of a protective exit. The steps of a session keep this, also
  when they end in an exception: the log is written before the order is sent.
\<close>

section \<open>Order identifiers\<close>

definition digits_value :: "string \<Rightarrow> int" where
  "digits_value s = fold (\<lambda>c a. 10 * a + (of_char c - 48)) s 0"

lemma of_digit_char: "0 \<le> d \<Longrightarrow> d < 10 \<Longrightarrow> of_char (digit_char d) = (48 + d :: int)"
  by (simp add: digit_char_def take_bit_eq_mod)

lemma digits_value_pos: "0 \<le> k \<Longrightarrow> digits_value (pos_digits k) = k"
proof (induction k rule: pos_digits.induct)
  case (1 k)
  show ?case
  proof (cases "k < 10")
    case True
    then have "pos_digits k = [digit_char k]" by (simp add: pos_digits.simps)
    then show ?thesis using 1 True by (simp add: digits_value_def of_digit_char)
  next
    case False
    have "digits_value (pos_digits k) = 10 * digits_value (pos_digits (k div 10)) + k mod 10"
      using False by (subst pos_digits.simps) (simp add: digits_value_def of_digit_char)
    moreover have "digits_value (pos_digits (k div 10)) = k div 10" using "1.IH" [OF False] "1.prems" by simp
    ultimately show ?thesis by (simp only: mult_div_mod_eq)
  qed
qed

lemma str_int_inj: "str_int (int a) = str_int (int b) \<longleftrightarrow> a = b"
proof
  assume "str_int (int a) = str_int (int b)"
  then have "digits_value (pos_digits (int a)) = digits_value (pos_digits (int b))" by (simp add: str_int_def)
  then show "a = b" by (simp only: digits_value_pos of_nat_0_le_iff of_nat_eq_iff)
qed simp

lemma dash_free_pos_digits: "0 \<le> k \<Longrightarrow> CHR ''-'' \<notin> set (pos_digits k)"
proof (induction k rule: pos_digits.induct)
  case (1 k)
  have d: "digit_char d \<noteq> CHR ''-''" if "0 \<le> d" "d < 10" for d :: int
    using of_digit_char [OF that] that by auto
  show ?case
  proof (cases "k < 10")
    case True
    then show ?thesis using 1 d [of k] by (subst pos_digits.simps) auto
  next
    case False
    then show ?thesis using 1 d [of "k mod 10"] by (subst pos_digits.simps) auto
  qed
qed

lemma split_at_last:
  assumes "xs @ c # ys = us @ c # vs" and "c \<notin> set ys" and "c \<notin> set vs"
  shows "ys = vs"
proof -
  have "takeWhile ((\<noteq>) c) (rev (zs @ c # ws)) = rev ws" if "c \<notin> set ws" for zs ws
  proof -
    have "takeWhile ((\<noteq>) c) (rev ws @ c # rev zs) = rev ws @ takeWhile ((\<noteq>) c) (c # rev zs)"
      by (rule takeWhile_append2) (use that in auto)
    then show ?thesis by simp
  qed
  from this [OF assms(2), of xs] this [OF assms(3), of us] assms(1) show ?thesis by simp
qed

lemma order_ids_differ:
  assumes "make_client_order_id env a k g = make_client_order_id env b m h" and "length g = length h"
  shows "k = m"
proof -
  let ?x = "str_lower (env_value env) @ ''-'' @ take 8 a" and ?y = "str_lower (env_value env) @ ''-'' @ take 8 b"
  have "(?x @ CHR ''-'' # str_int (int k)) @ CHR ''-'' # g = (?y @ CHR ''-'' # str_int (int m)) @ CHR ''-'' # h"
    using assms(1) by (simp add: make_client_order_id_def)
  then have "?x @ CHR ''-'' # str_int (int k) = ?y @ CHR ''-'' # str_int (int m)"
    using assms(2) by (subst (asm) append_eq_append_conv) auto
  moreover have "CHR ''-'' \<notin> set (str_int (int k))" "CHR ''-'' \<notin> set (str_int (int m))"
    by (simp_all add: str_int_def dash_free_pos_digits)
  ultimately have "str_int (int k) = str_int (int m)" by (rule split_at_last)
  then show ?thesis by (simp add: str_int_inj)
qed

section \<open>The part of the state that matters\<close>

type_synonym 'b order_view = "(string, pretrade_record) dict \<times> (string, approved_order) dict \<times> 'b \<times> string \<times> nat \<times> environment"

definition order_view :: "'b pipeline \<Rightarrow> 'b order_view" where
  "order_view p = (pl_records (pp_log p), en_submitted (pp_engine p), en_broker (pp_engine p),
     mc_key (en_risk (pp_engine p)), pp_seq p, pp_env p)"

abbreviation quiet :: "('b pipeline, 'a) act \<Rightarrow> bool" where
  "quiet \<equiv> still order_view"

lemma quiet_parts [still_rules]:
  "quiet (on_ledger a)" "quiet (on_quality b)" "quiet (note_prov did f)" "quiet (on_result g)"
  "quiet (on_part pp_sizing (\<lambda>x p. p\<lparr>pp_sizing := x\<rparr>) s)"
  "quiet (on_part pp_post (\<lambda>x p. p\<lparr>pp_post := x\<rparr>) t)"
  "quiet (on_part pp_integrity (\<lambda>x p. p\<lparr>pp_integrity := x\<rparr>) u)"
  unfolding on_ledger_def on_quality_def note_prov_def on_result_def
  by (intro still_on_part still_change; simp add: order_view_def)+

lemma quiet_explain [still_rules]: "quiet (explain n)"
  unfolding explain_def by (intro still_rules)

lemma quiet_tick [still_rules]: "quiet tick"
  by (simp add: still_def tick_def order_view_def)

lemma quiet_reads [still_rules]: "quiet (mark_prices w now known)" "quiet (settled_cash w)" "quiet (read_regime w ss now)"
  by (auto simp: still_def mark_prices_def settled_cash_def read_regime_def order_view_def Let_def
      split: sum.splits prod.splits)

lemma quiet_costs [still_rules]: "quiet (on_costs f)"
  by (auto simp: still_def on_costs_def order_view_def split: option.splits prod.splits)

lemma quiet_persist [still_rules]: "quiet (persist_audit_record w cid now)"
  unfolding persist_audit_record_def
  by (rule still_change) (auto simp: order_view_def split: option.splits)

lemma quiet_fill [still_rules]: "quiet (pipeline_fill sy q px fees ts note)"
  unfolding pipeline_fill_def by (intro still_rules)

lemma quiet_log_decision [still_rules]: "quiet (log_decision w did sy kind now px d hs sk)"
  unfolding log_decision_def by (intro still_rules)

lemma quiet_stand [still_rules]: "quiet (stand_aside w now s kind d hs sk)" "quiet (stand_down w now sized kind)"
  unfolding stand_aside_def stand_down_def Let_def by (intro still_rules)+

text \<open>Reports to the log that open no record.\<close>

lemma near_miss_records: "pl_records (snd (record_near_miss st k t did cid l)) = pl_records l"
  by (cases t) (simp_all add: record_near_miss_def)

lemma quiet_near_miss [still_rules]: "quiet (on_log (record_near_miss st k t did cid))"
  using near_miss_records [of st k t did cid]
  by (auto simp: still_def on_log_def on_part_def order_view_def split: prod.splits) (metis snd_conv)

lemma quiet_review [still_rules]: "quiet (on_log (queue_human_review cid did t rs sev))"
  by (cases t) (auto simp: still_def on_log_def on_part_def order_view_def queue_human_review_def)

lemma quiet_rejection [still_rules]: "quiet (on_log (record_audit_rejection a t did cid))"
proof -
  have "pl_records (snd (record_audit_rejection a t did cid l)) = pl_records l" for l
  proof -
    have "keeps (\<lambda>x. pl_records x = pl_records l) (record_audit_rejection a t did cid)"
      unfolding record_audit_rejection_def
      by (intro keeps_for_each) (simp add: keeps_def near_miss_records)
    then show ?thesis by (simp add: keeps_def)
  qed
  then show ?thesis
    by (auto simp: still_def on_log_def on_part_def order_view_def split: prod.splits) (metis snd_conv)
qed

lemma review_key: "mc_key (snd (review pr now uuid i v px c)) = mc_key c"
  by (auto simp: review_def Let_def split: sum.splits)

lemma quiet_ask_risk [still_rules]: "quiet (ask_risk w i v px)"
proof -
  have "quiet (on_risk (review pr now uuid i v px))" for pr now uuid
    using review_key [of pr now uuid i v px]
    by (auto simp: still_def on_risk_def on_engine_def on_part_def order_view_def split: prod.splits)
      (metis snd_conv)
  then show ?thesis unfolding ask_risk_def by (intro still_rules)
qed

lemma quiet_view [still_rules]: "quiet age \<Longrightarrow> quiet (portfolio_view w now known sy gap age)"
  unfolding portfolio_view_def by (intro still_rules)

lemma quiet_signal_age [still_rules]: "quiet (signal_age w pid)"
  unfolding signal_age_def
  by (intro still_rules) (auto simp: still_def split: option.splits)

lemma quiet_views [still_rules]: "quiet (exit_risk_view w sy now)" "quiet (entry_risk_view w sized now)"
  unfolding exit_risk_view_def entry_risk_view_def by (intro still_rules)+

section \<open>The stages before an order is quiet\<close>

lemma quiet_small_changes [still_rules]:
  "quiet (change (\<lambda>p. p\<lparr>pp_sizing := f1 p\<rparr>))" "quiet (change (\<lambda>p. p\<lparr>pp_stops := f2 p\<rparr>))"
  "quiet (change (\<lambda>p. if c p then p\<lparr>pp_stops := f2 p\<rparr> else p))"
  "quiet (change (\<lambda>p. p\<lparr>pp_integrity := f3 p\<rparr>))" "quiet (change (\<lambda>p. p\<lparr>pp_prices := f4 p\<rparr>))"
  "quiet (change (\<lambda>p. p\<lparr>pp_sized := f5 p\<rparr>))" "quiet (change (\<lambda>p. p\<lparr>pp_captured := f6 p\<rparr>))"
  "quiet (change (\<lambda>p. p\<lparr>pp_theses := f7 p\<rparr>))" "quiet (change (\<lambda>p. p\<lparr>pp_prov := f8 p\<rparr>))"
  by (rule still_change; simp add: order_view_def)+

lemma quiet_close_out [still_rules]: "quiet (close_out w now f)"
  unfolding close_out_def by (intro still_rules)

lemma quiet_manage_fills [still_rules]: "quiet (manage_fills w now fs n)"
proof (induction fs arbitrary: n)
  case (Cons f fs)
  have "manage_fills w now (f # fs) n = (if bf_side f \<noteq> SELL
    then bind_act (pipeline_fill (bf_symbol f) (bf_qty f) (bf_price f) (bf_fees f) (bf_ts f) (bf_cid f))
           (\<lambda>_. manage_fills w now fs n)
    else bind_act (close_out w now f) (\<lambda>_. manage_fills w now fs (n + 1)))"
    by (rule ext) (simp add: manage_fills.simps)
  then show ?case by (simp only:) (intro still_rules Cons)
qed (simp add: still_def)

lemma quiet_gate_one [still_rules]: "quiet (gate_one w now s)"
  unfolding gate_one_def by (intro still_rules)

lemma quiet_size_one [still_rules]: "quiet (size_one w now s proposal stop q)"
  unfolding size_one_def by (intro still_rules)

lemma quiet_plan_one [still_rules]: "quiet (plan_one w now s proposal)"
  unfolding plan_one_def by (intro still_rules)

lemma quiet_propose_one [still_rules]: "quiet (propose_one w now s d critique)"
  unfolding propose_one_def Let_def by (intro still_rules)

lemma quiet_consider_buy [still_rules]: "quiet (consider_buy w now s ctx d)"
  unfolding consider_buy_def Let_def by (intro still_rules)

lemma quiet_act_on_decision [still_rules]: "quiet (act_on_decision w now s ctx d)"
  unfolding act_on_decision_def by (intro still_rules)

lemma quiet_decide_one [still_rules]: "quiet (decide_one w now rt s)"
  unfolding decide_one_def Let_def by (intro still_rules)

lemma quiet_skip_one [still_rules]: "quiet (skip_one w now x)"
  unfolding skip_one_def Let_def by (intro still_rules)

lemma quiet_start [still_rules]: "quiet start_session"
  unfolding start_session_def by (rule still_change) (simp add: order_view_def)

section \<open>Traced states\<close>

definition cleared :: "pretrade_record \<Rightarrow> approved_order \<Rightarrow> bool" where
  "cleared r ord \<longleftrightarrow> pt_submitted r \<and> pt_risk r = Some (RiskPassed (ap_id (ao_approval ord))) \<and>
     pt_symbol r = oi_symbol (ao_intent ord) \<and> pt_side r = oi_side (ao_intent ord) \<and>
     pt_qty r = oi_qty (ao_intent ord) \<and>
     (if oi_side (ao_intent ord) = BUY then \<exists>a. pt_audit r = Some a \<and> au_verdict a = PASS
      else oi_protective (ao_intent ord) \<and> pt_protective r)"

definition traced :: "'b pipeline \<Rightarrow> bool" where
  "traced p \<longleftrightarrow> (\<forall>cid ord. dget (en_submitted (pp_engine p)) cid = Some ord \<longrightarrow>
     oi_id (ao_intent ord) = cid \<and> (\<exists>r. dget (pl_records (pp_log p)) cid = Some r \<and> cleared r ord))"

definition ids_ahead :: "'b pipeline \<Rightarrow> bool" where
  "ids_ahead p \<longleftrightarrow> (\<forall>k proposal_id hex. pp_seq p < k \<longrightarrow> length hex = 6 \<longrightarrow>
     dget (pl_records (pp_log p)) (make_client_order_id (pp_env p) proposal_id k hex) = None)"

definition broker_sound :: "prims \<Rightarrow> paper pipeline \<Rightarrow> bool" where
  "broker_sound pr p \<longleftrightarrow> paper_inv (en_broker (pp_engine p)) \<and> authorised pr paper_req (pp_engine p)"

definition session_inv :: "prims \<Rightarrow> paper pipeline \<Rightarrow> bool" where
  "session_inv pr p \<longleftrightarrow> traced p \<and> ids_ahead p \<and> broker_sound pr p"

text \<open>An order that is in the log and not yet at the engine.\<close>

definition pending :: "prims \<Rightarrow> string \<Rightarrow> (pretrade_record \<Rightarrow> bool) \<Rightarrow> paper pipeline \<Rightarrow> bool" where
  "pending pr cid R p \<longleftrightarrow> session_inv pr p \<and> dget (en_submitted (pp_engine p)) cid = None \<and>
     (\<exists>r. dget (pl_records (pp_log p)) cid = Some r \<and> R r)"

definition fresh_id :: "prims \<Rightarrow> string \<Rightarrow> paper pipeline \<Rightarrow> bool" where
  "fresh_id pr cid p \<longleftrightarrow> session_inv pr p \<and> dget (pl_records (pp_log p)) cid = None \<and>
     (\<exists>proposal_id hex. length hex = 6 \<and> cid = make_client_order_id (pp_env p) proposal_id (pp_seq p) hex)"

lemma authorised_key:
  assumes "en_submitted e = en_submitted e'" and "en_broker e = en_broker e'"
    and "mc_key (en_risk e) = mc_key (en_risk e')"
  shows "authorised pr req_of e = authorised pr req_of e'"
  using assms by (simp add: authorised_def verify_signature_def)

lemma session_inv_view: "order_view p = order_view q \<Longrightarrow> session_inv pr p = session_inv pr q"
  using authorised_key [of "pp_engine p" "pp_engine q" pr paper_req]
  by (simp add: order_view_def session_inv_def traced_def ids_ahead_def broker_sound_def)

lemma pending_view: "order_view p = order_view q \<Longrightarrow> pending pr cid R p = pending pr cid R q"
  using session_inv_view [of p q pr] by (simp add: pending_def order_view_def)

lemma fresh_view: "order_view p = order_view q \<Longrightarrow> fresh_id pr cid p = fresh_id pr cid q"
  using session_inv_view [of p q pr] by (simp add: fresh_id_def order_view_def)

lemma quiet_triple:
  assumes "quiet f" and "\<And>p q. order_view p = order_view q \<Longrightarrow> P p = P q" and "\<And>p. P p \<Longrightarrow> E p"
  shows "triple P f (\<lambda>_. P) E"
  using assms(2,3) stillD [OF assms(1)] by (intro tripleI) blast+

lemma quiet_inv: "quiet f \<Longrightarrow> triple (session_inv pr) f (\<lambda>_. session_inv pr) (session_inv pr)"
  by (rule quiet_triple) (assumption, erule session_inv_view, assumption)

lemma quiet_pending: "quiet f \<Longrightarrow> triple (pending pr cid R) f (\<lambda>_. pending pr cid R) (session_inv pr)"
  by (rule quiet_triple) (assumption, erule pending_view, simp add: pending_def)

lemma quiet_fresh: "quiet f \<Longrightarrow> triple (fresh_id pr cid) f (\<lambda>_. fresh_id pr cid) (session_inv pr)"
  by (rule quiet_triple) (assumption, erule fresh_view, simp add: fresh_id_def)

lemma pending_inv: "pending pr cid R p \<Longrightarrow> session_inv pr p"
  by (simp add: pending_def)

section \<open>The log\<close>

lemma fill_in_records:
  "dget (pl_records (fill_in cid g l)) k =
     (if k = cid then map_option g (dget (pl_records l) cid) else dget (pl_records l) k)"
  by (auto simp: fill_in_def dget_dput split: option.splits)

lemma fill_in_None: "dget (pl_records (fill_in cid g l)) k = None \<longleftrightarrow> dget (pl_records l) k = None"
  by (simp add: fill_in_records)

lemma note_log_inv:
  assumes "\<And>r ord. cleared r ord \<Longrightarrow> cleared (g r) ord"
  shows "triple (session_inv pr) (note_log cid g) (\<lambda>_. session_inv pr) (session_inv pr)"
  unfolding note_log_def
proof (rule triple_change)
  fix p assume inv: "session_inv pr p"
  let ?p = "p\<lparr>pp_log := fill_in cid g (pp_log p)\<rparr>"
  have "traced ?p" using inv assms by (fastforce simp: session_inv_def traced_def fill_in_records)
  moreover have "ids_ahead ?p" using inv by (simp add: session_inv_def ids_ahead_def fill_in_None)
  ultimately show "session_inv pr ?p" using inv by (simp add: session_inv_def broker_sound_def)
qed

lemma note_log_pending:
  assumes "\<And>r. R r \<Longrightarrow> R' (g r)"
  shows "triple (pending pr cid R) (note_log cid g) (\<lambda>_. pending pr cid R') E"
  unfolding note_log_def
proof (rule triple_change)
  fix p assume p: "pending pr cid R p"
  let ?p = "p\<lparr>pp_log := fill_in cid g (pp_log p)\<rparr>"
  have "traced ?p" using p by (fastforce simp: pending_def session_inv_def traced_def fill_in_records)
  moreover have "ids_ahead ?p" using p by (simp add: pending_def session_inv_def ids_ahead_def fill_in_None)
  ultimately show "pending pr cid R' ?p"
    using p assms by (auto simp: pending_def session_inv_def broker_sound_def fill_in_records)
qed

lemma open_record_pending:
  "triple (fresh_id pr cid) (on_log (open_record cid did (Aware now) sy side q))
     (\<lambda>_. pending pr cid (\<lambda>r. pt_symbol r = sy \<and> pt_side r = side \<and> pt_qty r = q)) E"
  unfolding on_log_def
proof (rule triple_on_part)
  fix p assume f: "fresh_id pr cid p"
  let ?l = "snd (open_record cid did (Aware now) sy side q (pp_log p))"
  let ?p = "p\<lparr>pp_log := ?l\<rparr>"
  have recs: "dget (pl_records ?l) k = (if k = cid then dget (pl_records ?l) cid else dget (pl_records (pp_log p)) k)" for k
    by (simp add: open_record_def dget_dput)
  have r: "\<exists>r. dget (pl_records ?l) cid = Some r \<and> pt_symbol r = sy \<and> pt_side r = side \<and> pt_qty r = q"
    by (simp add: open_record_def dget_dput)
  have none: "dget (en_submitted (pp_engine p)) cid = None"
  proof (cases "dget (en_submitted (pp_engine p)) cid")
    case (Some ord)
    with f have "\<exists>r. dget (pl_records (pp_log p)) cid = Some r" unfolding fresh_id_def session_inv_def traced_def by blast
    with f show ?thesis by (simp add: fresh_id_def)
  qed
  have "traced ?p" unfolding traced_def
  proof (intro allI impI)
    fix k ord assume "dget (en_submitted (pp_engine ?p)) k = Some ord"
    moreover from this have "k \<noteq> cid" using none by auto
    ultimately show "oi_id (ao_intent ord) = k \<and> (\<exists>r. dget (pl_records (pp_log ?p)) k = Some r \<and> cleared r ord)"
      using f recs [of k] by (simp add: fresh_id_def session_inv_def traced_def)
  qed
  moreover have "ids_ahead ?p" unfolding ids_ahead_def
  proof (intro allI impI)
    fix k pid hex assume k: "pp_seq ?p < k" "length (hex :: string) = 6"
    let ?id = "make_client_order_id (pp_env ?p) pid k hex"
    obtain pid' hex' where "length hex' = 6" "cid = make_client_order_id (pp_env p) pid' (pp_seq p) hex'"
      using f by (auto simp: fresh_id_def)
    with order_ids_differ [of "pp_env p" pid' "pp_seq p" hex' pid k hex] k have "?id \<noteq> cid" by auto
    then show "dget (pl_records (pp_log ?p)) ?id = None"
      using f k recs [of ?id] by (simp add: fresh_id_def session_inv_def ids_ahead_def)
  qed
  ultimately have "pending pr cid (\<lambda>r. pt_symbol r = sy \<and> pt_side r = side \<and> pt_qty r = q) ?p"
    using f none r by (auto simp: pending_def fresh_id_def session_inv_def broker_sound_def)
  then show "triple (\<lambda>l. l = pp_log p) (open_record cid did (Aware now) sy side q)
      (\<lambda>x l. pending pr cid (\<lambda>r. pt_symbol r = sy \<and> pt_side r = side \<and> pt_qty r = q) (p\<lparr>pp_log := l\<rparr>))
      (\<lambda>l. E (p\<lparr>pp_log := l\<rparr>))"
    by (auto simp: triple_def open_record_def)
qed

lemma next_id_fresh:
  assumes "\<And>n. length (wd_hex w n) = 6"
  shows "triple (session_inv pr) (next_order_id w pid) (\<lambda>cid. fresh_id pr cid) (session_inv pr)"
proof (rule tripleI)
  fix p cid p'
  assume inv: "session_inv pr p" and run: "next_order_id w pid p = (Inr cid, p')"
  then have cid: "cid = make_client_order_id (pp_env p) pid (pp_seq p + 1) (wd_hex w (pp_ticks p))"
    and p': "pl_records (pp_log p') = pl_records (pp_log p)" "pp_engine p' = pp_engine p"
      "pp_seq p' = pp_seq p + 1" "pp_env p' = pp_env p"
    by (auto simp: next_order_id_def bind_act_def change_def tick_def ask_def)
  have "session_inv pr p'"
    using inv p' by (simp add: session_inv_def traced_def ids_ahead_def broker_sound_def)
  moreover have "dget (pl_records (pp_log p')) cid = None"
    using inv p' assms unfolding cid by (simp add: session_inv_def ids_ahead_def)
  ultimately show "fresh_id pr cid p'" using p' assms unfolding fresh_id_def cid by auto
next
  fix p e p'
  assume "session_inv pr p" and "next_order_id w pid p = (Inl e, p')"
  then show "session_inv pr p'" by (simp add: next_order_id_def bind_act_def change_def tick_def ask_def)
qed

section \<open>The engine\<close>

lemma submit_adds_one:
  assumes run: "submit pr A now since order snap e = (r, e')" and "dget (en_submitted e') k = Some ord"
  shows "dget (en_submitted e) k = Some ord \<or> k = oi_id (ao_intent order) \<and> ord = order"
proof -
  let ?Q = "\<lambda>t. \<forall>k ord. dget (en_submitted t) k = Some ord \<longrightarrow>
    dget (en_submitted e) k = Some ord \<or> k = oi_id (ao_intent order) \<and> ord = order"
  have f: "framed ?Q" by (simp add: framed_def)
  have prep: "keeps ?Q (prepare now order s)" for s
    by (rule keeps_prepare [OF f]) (auto simp: dget_dput)
  have Q: "?Q e" by simp
  from run have "?Q e'"
  proof (cases rule: submit_cases)
    case (refused x)
    with Q show ?thesis by simp
  next
    case (stopped s x)
    from keepsD [where P = ?Q, OF prep Q stopped(2)] show ?thesis .
  next
    case (sent s e1)
    from keepsD [where P = ?Q, OF prep Q sent(2)] have "?Q e1" .
    then show ?thesis by (intro send_keeps [OF f sent(4)]) simp
  qed
  with assms(2) show ?thesis by blast
qed

lemma submit_pending:
  assumes w: "wd_adapter w = paper_adapter" "wd_prims w = pr"
    and o: "oi_id (ao_intent order) = cid" "genuine order snap" "\<And>r. R r \<Longrightarrow> cleared r order"
  shows "triple (pending pr cid R) (submit_to_engine w order snap) (\<lambda>_. session_inv pr) (session_inv pr)"
proof -
  have "session_inv pr (p\<lparr>pp_engine := e'\<rparr>)"
    if p: "pending pr cid R p"
      and run: "submit pr paper_adapter t since order (Some snap) (pp_engine p) = (r, e')" for p t since r e'
  proof -
    have "paper_inv (en_broker e') \<and> authorised pr paper_req e'"
      by (rule paper_broker.submit_authorised [OF _ _ _ run])
        (use p o(2) in \<open>auto simp: pending_def session_inv_def broker_sound_def\<close>)
    moreover have "traced (p\<lparr>pp_engine := e'\<rparr>)" unfolding traced_def
    proof (intro allI impI)
      fix k ord assume "dget (en_submitted (pp_engine (p\<lparr>pp_engine := e'\<rparr>))) k = Some ord"
      then have "dget (en_submitted (pp_engine p)) k = Some ord \<or> k = cid \<and> ord = order"
        using submit_adds_one [OF run, of k ord] o(1) by simp
      then show "oi_id (ao_intent ord) = k \<and>
        (\<exists>r. dget (pl_records (pp_log (p\<lparr>pp_engine := e'\<rparr>))) k = Some r \<and> cleared r ord)"
        using p o(1,3) by (auto simp: pending_def session_inv_def traced_def)
    qed
    moreover have "ids_ahead (p\<lparr>pp_engine := e'\<rparr>)"
      using p by (simp add: pending_def session_inv_def ids_ahead_def)
    ultimately show ?thesis by (simp add: session_inv_def broker_sound_def)
  qed
  note step = this
  show ?thesis
    unfolding submit_to_engine_def on_engine_def w
    by (rule triple_on_part) (auto simp: triple_def intro: step split: prod.splits sum.splits)
qed

lemma sync_inv:
  assumes "wd_adapter w = paper_adapter"
  shows "triple (session_inv pr) (on_engine (sync_open_orders (wd_adapter w) t since)) (\<lambda>_. session_inv pr) (session_inv pr)"
proof -
  have "session_inv pr (p\<lparr>pp_engine := e'\<rparr>)"
    if p: "session_inv pr p" and run: "sync_open_orders paper_adapter t since (pp_engine p) = (r, e')" for p r e'
  proof -
    let ?S = "en_submitted (pp_engine p)"
    let ?Q = "\<lambda>e. (paper_inv (en_broker e) \<and> authorised pr paper_req e) \<and> en_submitted e = ?S"
    have f: "framed ?Q" by (rule framed_conj [OF authorised_framed]) (simp add: framed_def)
    have "?Q (pp_engine p\<lparr>en_broker := snd (ad_poll paper_adapter (en_broker (pp_engine p)))\<rparr>)"
      using p paper_broker.poll_inv [OF _ surjective_pairing] paper_broker.poll_req [OF surjective_pairing]
      by (simp add: session_inv_def broker_sound_def authorised_def)
    from sync_open_orders_keeps [OF f run this] show ?thesis
      using p by (simp add: session_inv_def broker_sound_def traced_def ids_ahead_def)
  qed
  note step = this
  show ?thesis
    unfolding on_engine_def assms
    by (rule triple_on_part) (auto simp: triple_def intro: step split: prod.splits sum.splits)
qed

section \<open>The steps of a session\<close>

definition world_ok :: "prims \<Rightarrow> paper world \<Rightarrow> bool" where
  "world_ok pr w \<longleftrightarrow> wd_adapter w = paper_adapter \<and> wd_prims w = pr \<and> (\<forall>n. length (wd_hex w n) = 6)"

lemma triple_of_res_bind:
  "(\<And>x. r = Inr x \<Longrightarrow> triple P (k x) Q E) \<Longrightarrow> (\<And>s. P s \<Longrightarrow> E s) \<Longrightarrow> triple P (bind_act (of_res r) k) Q E"
  by (cases r) (auto simp: triple_def bind_act_def of_res_def)

lemma triple_ask_bind: "(\<And>x. triple P (k x) Q E) \<Longrightarrow> triple P (bind_act (ask f) k) Q E"
  by (auto simp: triple_def bind_act_def ask_def)

lemma submit_stop_inv:
  assumes w: "world_ok pr w" and i: "oi_side i = SELL" "oi_protective i" "oi_id i = cid"
  shows "triple (fresh_id pr cid) (submit_stop w i approval now did) (\<lambda>_. session_inv pr) (session_inv pr)"
proof -
  let ?base = "\<lambda>r. pt_symbol r = oi_symbol i \<and> pt_side r = SELL \<and> pt_qty r = oi_qty i"
  let ?ready = "\<lambda>r. ?base r \<and> pt_protective r \<and> pt_risk r = Some (RiskPassed (ap_id approval)) \<and> pt_submitted r"
  have ap: "ao_intent order = i" "ao_approval order = approval"
    if "mk_approved_order sha i approval = Inr order" for sha order
    using that by (auto simp: mk_approved_order_def split: if_splits)
  show ?thesis
    unfolding submit_stop_def i(3)
  proof (intro triple_of_res_bind)
    fix approved snap
    assume a: "mk_approved_order (pr_sha (wd_prims w)) i approval = Inr approved"
      and s: "from_approved (pr_sha (wd_prims w)) approved did [] None [] [] None = Inr snap"
    show "triple (fresh_id pr cid)
      (bind_act (on_log (open_record cid did (Aware now) (oi_symbol i) SELL (oi_qty i))) (\<lambda>_.
       bind_act (note_log cid (\<lambda>r. r\<lparr>pt_protective := True, pt_risk := Some (RiskPassed (ap_id approval)),
                   pt_hash := ss_hash snap, pt_submitted := True\<rparr>)) (\<lambda>_.
       bind_act (submit_to_engine w approved snap) (\<lambda>st.
       bind_act (note_log cid (\<lambda>r. r\<lparr>pt_final := Some st\<rparr>)) (\<lambda>_.
         persist_audit_record w cid now))))) (\<lambda>_. session_inv pr) (session_inv pr)"
    proof (rule triple_bind [OF open_record_pending], rule triple_bind)
      show "triple (pending pr cid ?base)
        (note_log cid (\<lambda>r. r\<lparr>pt_protective := True, pt_risk := Some (RiskPassed (ap_id approval)),
           pt_hash := ss_hash snap, pt_submitted := True\<rparr>)) (\<lambda>_. pending pr cid ?ready) (session_inv pr)"
        by (rule note_log_pending) simp
      have sub: "triple (pending pr cid ?ready) (submit_to_engine w approved snap) (\<lambda>_. session_inv pr) (session_inv pr)"
        by (rule submit_pending)
          (use w i a ap s from_approved_genuine in \<open>auto simp: world_ok_def cleared_def\<close>)
      show "triple (pending pr cid ?ready)
        (bind_act (submit_to_engine w approved snap) (\<lambda>st.
         bind_act (note_log cid (\<lambda>r. r\<lparr>pt_final := Some st\<rparr>)) (\<lambda>_. persist_audit_record w cid now)))
        (\<lambda>_. session_inv pr) (session_inv pr)"
        by (intro triple_bind [OF sub] triple_bind [OF note_log_inv] quiet_inv still_rules) (simp add: cleared_def)
    qed
  qed (simp_all add: fresh_id_def)
qed

lemma place_protective_stop_inv:
  assumes w: "world_ok pr w"
  shows "triple (session_inv pr) (place_protective_stop w sy qty stop now did) (\<lambda>_. session_inv pr) (session_inv pr)"
proof (cases "qty \<le> 0")
  case True
  then show ?thesis by (simp add: place_protective_stop_def triple_ret)
next
  case False
  have hex: "\<And>n. length (wd_hex w n) = 6" using w by (simp add: world_ok_def)
  have inv: "\<And>p cid. fresh_id pr cid p \<Longrightarrow> session_inv pr p" by (simp add: fresh_id_def)
  have quiet_end: "triple (fresh_id pr cid) f (\<lambda>_. session_inv pr) (session_inv pr)" if "quiet f" for f :: "(paper pipeline, 'c) act" and cid
    by (rule triple_pre [OF quiet_inv [OF that] inv])
  show ?thesis
    unfolding place_protective_stop_def if_not_P [OF False]
  proof (rule triple_bind [OF next_id_fresh [OF hex]], intro triple_ask_bind triple_of_res_bind inv)
    fix cid env i
    assume i: "mk_order_intent \<lparr>oi_id = cid, oi_proposal = ''protective-'' @ sy, oi_symbol = sy, oi_side = SELL,
       oi_qty = qty, oi_type = STOP, oi_limit = None, oi_stop = Some (sp_stop stop), oi_env = env,
       oi_protective = True, oi_created = now\<rparr> = Inr i"
    then have "oi_side i = SELL" "oi_protective i" "oi_id i = cid"
      by (auto simp: mk_order_intent_def split: if_splits)
    note sub = submit_stop_inv [OF w this]
    show "triple (fresh_id pr cid)
      (bind_act (exit_risk_view w sy now) (\<lambda>v.
        bind_act (ask_risk w i v None) (\<lambda>verdict.
        case verdict of
          Inl rejection \<Rightarrow>
            bind_act (on_log (record_near_miss STAGE_RISK NO_STOP (Aware now) did cid)) (\<lambda>_. ret False)
        | Inr approval \<Rightarrow>
            bind_act (submit_stop w i approval now did) (\<lambda>_.
            bind_act (change (\<lambda>p.
              let prior_risk = (case dget (pp_stops p) sy of None \<Rightarrow> 0 | Some (_, _, _, r) \<Rightarrow> r)
              in p\<lparr>pp_stops := dput (pp_stops p) sy
                   (cid, stop, sp_entry stop, prior_risk + qty * stop_distance stop)\<rparr>)) (\<lambda>_.
              ret True))))) (\<lambda>_. session_inv pr) (session_inv pr)"
      unfolding Let_def
      by (rule triple_bind [OF quiet_fresh], rule still_rules, rule triple_bind [OF quiet_fresh], rule still_rules,
          intro triple_sum triple_bind [OF sub] quiet_end quiet_inv still_rules)
  qed
qed

lemma manage_inv:
  assumes "world_ok pr w"
  shows "triple (session_inv pr) (manage_open_positions w now) (\<lambda>_. session_inv pr) (session_inv pr)"
  unfolding manage_open_positions_def
  by (rule triple_bind [OF sync_inv]) (use assms in \<open>simp add: world_ok_def\<close>, intro quiet_inv still_rules)

abbreviation entry_base :: "sized_proposal \<Rightarrow> pretrade_record \<Rightarrow> bool" where
  "entry_base sized r \<equiv> pt_symbol r = tp_symbol (szp_proposal sized) \<and> pt_side r = BUY \<and> pt_qty r = szp_qty sized"

abbreviation entry_audited :: "sized_proposal \<Rightarrow> audit_result \<Rightarrow> pretrade_record \<Rightarrow> bool" where
  "entry_audited sized a r \<equiv> entry_base sized r \<and> pt_audit r = Some a \<and> au_verdict a = PASS"

abbreviation entry_approved :: "sized_proposal \<Rightarrow> audit_result \<Rightarrow> risk_approval \<Rightarrow> pretrade_record \<Rightarrow> bool" where
  "entry_approved sized a ap r \<equiv> entry_audited sized a r \<and> pt_risk r = Some (RiskPassed (ap_id ap))"

lemma audit_stage_pending:
  assumes "oi_id i = cid"
  shows "triple (pending pr cid (entry_base sized)) (audit_stage w now sized i did)
    (\<lambda>x p. case x of None \<Rightarrow> session_inv pr p | Some a \<Rightarrow> pending pr cid (entry_audited sized a) p)
    (session_inv pr)"
proof -
  have stop: "triple (pending pr cid R) (bind_act f (\<lambda>_. ret None))
      (\<lambda>x p. case x of None \<Rightarrow> session_inv pr p | Some a \<Rightarrow> pending pr cid (entry_audited sized a) p)
      (session_inv pr)" if "quiet f" for f :: "(paper pipeline, unit) act" and R
    by (rule triple_bind [OF quiet_pending [OF that]], rule triple_ret) (simp add: pending_def)
  show ?thesis
    unfolding audit_stage_def Let_def assms
  proof (rule triple_attempt)
    show "triple (pending pr cid (entry_base sized))
      (bind_act tick (\<lambda>n p. (audit_order (wd_uuid w n) (pp_auditor p) (tp_decision (szp_proposal sized)) sized i
         (audit_context_at (Aware now)) no_triggers, p))) (\<lambda>_. pending pr cid (entry_base sized)) (session_inv pr)"
      by (intro quiet_pending still_rules)
    fix e
    show "triple (session_inv pr)
      (if e = AuditUnavailableError
       then bind_act (explain (NoAudit (tp_symbol (szp_proposal sized)))) (\<lambda>_.
            bind_act (on_log (record_near_miss STAGE_AUDIT OTHER (Aware now) did cid)) (\<lambda>_.
            bind_act (stand_down w now sized D_AVOID) (\<lambda>_. ret None)))
       else throw e)
      (\<lambda>x p. case x of None \<Rightarrow> session_inv pr p | Some a \<Rightarrow> pending pr cid (entry_audited sized a) p) (session_inv pr)"
      by (intro triple_if triple_throw triple_bind [OF quiet_inv] triple_ret still_rules) simp_all
  next
    fix audit :: audit_result
    let ?noted = "\<lambda>r. entry_base sized r \<and> pt_audit r = Some audit"
    have passed: "triple (pending pr cid ?noted)
      (bind_act (on_result f) (\<lambda>_. ret (Some audit)))
      (\<lambda>x p. case x of None \<Rightarrow> session_inv pr p | Some a \<Rightarrow> pending pr cid (entry_audited sized a) p) (session_inv pr)"
      if "au_verdict audit = PASS" for f
      by (rule triple_bind [OF quiet_pending], rule still_rules, rule triple_ret)
        (use that in \<open>auto simp: pending_def\<close>)
    show "triple (pending pr cid (entry_base sized))
      (bind_act (note_log cid (\<lambda>r. r\<lparr>pt_audit := Some audit\<rparr>)) (\<lambda>_.
       if au_verdict audit = PASS then
         bind_act (on_result (\<lambda>r. r\<lparr>rt_audit_passed := rt_audit_passed r + 1\<rparr>)) (\<lambda>_. ret (Some audit))
       else
         bind_act
           (if au_verdict audit = REVIEW then
              bind_act (on_result (\<lambda>r. r\<lparr>rt_audit_review := rt_audit_review r + 1\<rparr>)) (\<lambda>_.
              bind_act (on_log (queue_human_review cid did (Aware now) (au_reasons audit) (au_severity audit))) (\<lambda>_.
                explain (InReview (tp_symbol (szp_proposal sized)) (au_reasons audit))))
            else
              bind_act (on_result (\<lambda>r. r\<lparr>rt_audit_rejected := rt_audit_rejected r + 1\<rparr>)) (\<lambda>_.
              bind_act (explain (AuditRejected (tp_symbol (szp_proposal sized)) (au_reasons audit))) (\<lambda>_.
                on_log (record_audit_rejection audit (Aware now) did cid)))) (\<lambda>_.
         bind_act (stand_down w now sized D_AVOID) (\<lambda>_. ret None))))
      (\<lambda>x p. case x of None \<Rightarrow> session_inv pr p | Some a \<Rightarrow> pending pr cid (entry_audited sized a) p) (session_inv pr)"
    proof (rule triple_bind [where R = "\<lambda>_. pending pr cid ?noted"])
      show "triple (pending pr cid (entry_base sized)) (note_log cid (\<lambda>r. r\<lparr>pt_audit := Some audit\<rparr>))
        (\<lambda>_. pending pr cid ?noted) (session_inv pr)"
        by (rule note_log_pending) simp
    qed (intro triple_if passed triple_bind [OF quiet_pending] stop still_rules, assumption)
  qed
qed

lemma risk_stage_pending:
  assumes "oi_id i = cid"
  shows "triple (pending pr cid (entry_audited sized a)) (risk_stage w now sized i did)
    (\<lambda>x p. case x of None \<Rightarrow> session_inv pr p | Some ap \<Rightarrow> pending pr cid (entry_approved sized a ap) p)
    (session_inv pr)"
  unfolding risk_stage_def Let_def assms
proof (rule triple_bind [OF quiet_pending], rule still_rules, rule triple_bind [OF quiet_pending], rule still_rules,
    rule triple_sum)
  fix rejection
  show "triple (pending pr cid (entry_audited sized a))
      (bind_act (on_result (\<lambda>r. r\<lparr>rt_risk_rejected := rt_risk_rejected r + 1\<rparr>)) (\<lambda>_.
       bind_act (explain (RiskRejected (tp_symbol (szp_proposal sized)) (rj_reasons rejection))) (\<lambda>_.
       bind_act (note_prov did (\<lambda>r. r\<lparr>pv_risk := Some (RiskFailed (rj_reasons rejection))\<rparr>)) (\<lambda>_.
       bind_act (note_log cid (\<lambda>r. r\<lparr>pt_risk := Some (RiskFailed (rj_reasons rejection))\<rparr>)) (\<lambda>_.
       bind_act (on_log (record_near_miss STAGE_RISK OTHER (Aware now) did cid)) (\<lambda>_.
       bind_act (stand_down w now sized D_AVOID) (\<lambda>_. ret None)))))))
      (\<lambda>x p. case x of None \<Rightarrow> session_inv pr p | Some ap \<Rightarrow> pending pr cid (entry_approved sized a ap) p)
      (session_inv pr)"
    by (rule triple_bind [OF quiet_pending], rule still_rules, rule triple_bind [OF quiet_pending], rule still_rules,
        rule triple_bind [OF quiet_pending], rule still_rules,
        rule triple_bind [OF note_log_pending [where R' = "\<lambda>_. True"]], simp,
        intro triple_bind [OF quiet_pending] still_rules triple_ret) (simp add: pending_def)
next
  fix approval
  show "triple (pending pr cid (entry_audited sized a))
      (bind_act (on_result (\<lambda>r. r\<lparr>rt_risk_passed := rt_risk_passed r + 1\<rparr>)) (\<lambda>_.
       bind_act (note_prov did (\<lambda>r. r\<lparr>pv_risk := Some (RiskPassed (ap_id approval))\<rparr>)) (\<lambda>_.
       bind_act (note_log cid (\<lambda>r. r\<lparr>pt_risk := Some (RiskPassed (ap_id approval))\<rparr>)) (\<lambda>_.
         ret (Some approval)))))
      (\<lambda>x p. case x of None \<Rightarrow> session_inv pr p | Some ap \<Rightarrow> pending pr cid (entry_approved sized a ap) p)
      (session_inv pr)"
    by (rule triple_bind [OF quiet_pending], rule still_rules, rule triple_bind [OF quiet_pending], rule still_rules,
        rule triple_bind [OF note_log_pending [where R' = "entry_approved sized a approval"]], simp,
        rule triple_ret) simp
qed

lemma submit_entry_inv:
  assumes w: "world_ok pr w"
    and i: "oi_id i = cid" "oi_symbol i = tp_symbol (szp_proposal sized)" "oi_side i = BUY" "oi_qty i = szp_qty sized"
  shows "triple (pending pr cid (entry_approved sized a ap)) (submit_entry w now sized i did a ap)
    (\<lambda>_. session_inv pr) (session_inv pr)"
proof -
  have io: "ao_intent order = i" "ao_approval order = ap"
    if "mk_approved_order sha i ap = Inr order" for sha order
    using that by (auto simp: mk_approved_order_def split: if_splits)
  let ?ready = "\<lambda>r. entry_approved sized a ap r \<and> pt_submitted r"
  show ?thesis
    unfolding submit_entry_def i(1)
  proof (intro triple_of_res_bind triple_ask_bind)
    fix approved thesis snap
    assume o: "mk_approved_order (pr_sha (wd_prims w)) i ap = Inr approved"
      and s: "from_approved (pr_sha (wd_prims w)) approved did (au_id a) (Some (sp_target (szp_plan sized))) []
        (case thesis of None \<Rightarrow> [] | Some t \<Rightarrow> th_skeptic_id t) None = Inr snap"
    have sub: "triple (pending pr cid ?ready) (submit_to_engine w approved snap) (\<lambda>_. session_inv pr) (session_inv pr)"
      by (rule submit_pending)
        (use w i o io s from_approved_genuine in \<open>auto simp: world_ok_def cleared_def\<close>)
    show "triple (pending pr cid (entry_approved sized a ap))
      (bind_act (note_log cid (\<lambda>r. r\<lparr>pt_hash := ss_hash snap, pt_submitted := True\<rparr>)) (\<lambda>_.
       bind_act (stand_down w now sized D_BUY) (\<lambda>_.
       bind_act (submit_to_engine w approved snap) (\<lambda>st.
       bind_act (note_log cid (\<lambda>r. r\<lparr>pt_final := Some st\<rparr>)) (\<lambda>_.
       bind_act (note_prov did (\<lambda>r. r\<lparr>pv_order := Some cid\<rparr>)) (\<lambda>_. ret st))))))
      (\<lambda>_. session_inv pr) (session_inv pr)"
      by (rule triple_bind [OF note_log_pending [where R' = ?ready]], simp,
          rule triple_bind [OF quiet_pending], rule still_rules,
          intro triple_bind [OF sub] triple_bind [OF note_log_inv] quiet_inv still_rules)
        (simp add: cleared_def)
  qed (simp_all add: pending_def)
qed

lemma book_fills_inv:
  "triple (session_inv pr) (book_fills cid did fs q) (\<lambda>_. session_inv pr) (session_inv pr)"
proof (induction fs arbitrary: q)
  case (Cons f fs)
  have noted: "triple (session_inv pr) (note_log cid (\<lambda>r. r\<lparr>pt_fills := pt_fills r @ [bf_id f]\<rparr>))
      (\<lambda>_. session_inv pr) (session_inv pr)"
    by (rule note_log_inv) (simp add: cleared_def)
  have "book_fills cid did (f # fs) q =
     (if bf_cid f = cid then
        bind_act (pipeline_fill (bf_symbol f) (if bf_side f = BUY then bf_qty f else - bf_qty f) (bf_price f)
                    (bf_fees f) (bf_ts f) cid) (\<lambda>_.
        bind_act (note_prov did (\<lambda>r. r\<lparr>pv_fills := pv_fills r @ [bf_id f]\<rparr>)) (\<lambda>_.
        bind_act (note_log cid (\<lambda>r. r\<lparr>pt_fills := pt_fills r @ [bf_id f]\<rparr>)) (\<lambda>_.
        bind_act (on_result (\<lambda>r. r\<lparr>rt_fills := rt_fills r @ [f]\<rparr>)) (\<lambda>_.
          book_fills cid did fs (q + bf_qty f)))))
      else book_fills cid did fs q :: (paper pipeline, real) act)"
    by (rule ext) simp
  then show ?case
    by (simp only:) (intro triple_if triple_bind [OF quiet_inv] triple_bind [OF noted] Cons still_rules)
qed (simp add: triple_def)

lemma settle_entry_inv:
  assumes w: "world_ok pr w"
  shows "triple (session_inv pr) (settle_entry w now sized i did st) (\<lambda>_. session_inv pr) (session_inv pr)"
  unfolding settle_entry_def Let_def
  by (intro triple_if triple_bind [OF book_fills_inv] triple_bind [OF place_protective_stop_inv [OF w]]
      triple_bind [OF quiet_inv] quiet_inv still_rules)

lemma order_one_inv:
  assumes w: "world_ok pr w"
  shows "triple (session_inv pr) (order_one w now sized) (\<lambda>_. session_inv pr) (session_inv pr)"
proof -
  have hex: "\<And>n. length (wd_hex w n) = 6" using w by (simp add: world_ok_def)
  have inv: "\<And>p cid. fresh_id pr cid p \<Longrightarrow> session_inv pr p" by (simp add: fresh_id_def)
  show ?thesis
    unfolding order_one_def Let_def
  proof (rule triple_bind [OF next_id_fresh [OF hex]], intro triple_ask_bind triple_of_res_bind inv)
    fix cid env i r x
    let ?did = "decision_id_of w (tp_symbol (szp_proposal sized)) now"
    assume i: "mk_order_intent
        \<lparr>oi_id = cid, oi_proposal = tp_id (szp_proposal sized), oi_symbol = tp_symbol (szp_proposal sized),
         oi_side = BUY, oi_qty = szp_qty sized, oi_type = MARKET, oi_limit = None, oi_stop = None, oi_env = env,
         oi_protective = False, oi_created = now\<rparr> = Inr i"
    then have i: "oi_id i = cid" "oi_symbol i = tp_symbol (szp_proposal sized)" "oi_side i = BUY" "oi_qty i = szp_qty sized"
      by (auto simp: mk_order_intent_def split: if_splits)
    have sub: "triple (pending pr cid (entry_approved sized a ap))
        (bind_act (submit_entry w now sized i ?did a ap) (settle_entry w now sized i ?did))
        (\<lambda>_. session_inv pr) (session_inv pr)" for a ap
      by (rule triple_bind [OF submit_entry_inv [OF w i] settle_entry_inv [OF w]])
    have risk: "triple (pending pr cid (entry_audited sized a))
        (bind_act (risk_stage w now sized i ?did) (\<lambda>approved. case approved of None \<Rightarrow> ret () | Some ap \<Rightarrow>
           bind_act (submit_entry w now sized i ?did a ap) (settle_entry w now sized i ?did)))
        (\<lambda>_. session_inv pr) (session_inv pr)" for a
    proof (rule triple_bind [OF risk_stage_pending [OF i(1)]])
      fix x
      show "triple (\<lambda>p. case x of None \<Rightarrow> session_inv pr p | Some ap \<Rightarrow> pending pr cid (entry_approved sized a ap) p)
        (case x of None \<Rightarrow> ret () | Some ap \<Rightarrow>
           bind_act (submit_entry w now sized i ?did a ap) (settle_entry w now sized i ?did))
        (\<lambda>_. session_inv pr) (session_inv pr)"
        using sub by (cases x) (auto intro: triple_ret)
    qed
    show "triple (fresh_id pr cid)
      (bind_act (on_log (open_record cid ?did (Aware now) (tp_symbol (szp_proposal sized)) BUY (szp_qty sized))) (\<lambda>_.
       bind_act (audit_stage w now sized i ?did) (\<lambda>audited.
       case audited of None \<Rightarrow> ret () | Some audit \<Rightarrow>
       bind_act (risk_stage w now sized i ?did) (\<lambda>approved.
       case approved of None \<Rightarrow> ret () | Some approval \<Rightarrow>
       bind_act (submit_entry w now sized i ?did audit approval) (settle_entry w now sized i ?did)))))
      (\<lambda>_. session_inv pr) (session_inv pr)"
    proof (rule triple_bind [OF open_record_pending], rule triple_bind [OF audit_stage_pending [OF i(1)]])
      fix x
      show "triple (\<lambda>p. case x of None \<Rightarrow> session_inv pr p | Some a \<Rightarrow> pending pr cid (entry_audited sized a) p)
        (case x of None \<Rightarrow> ret () | Some audit \<Rightarrow>
           bind_act (risk_stage w now sized i ?did) (\<lambda>approved. case approved of None \<Rightarrow> ret () | Some approval \<Rightarrow>
             bind_act (submit_entry w now sized i ?did audit approval) (settle_entry w now sized i ?did)))
        (\<lambda>_. session_inv pr) (session_inv pr)"
        using risk by (cases x) (auto intro: triple_ret)
    qed
  qed
qed

lemma run_session_inv:
  assumes w: "world_ok pr w"
  shows "triple (session_inv pr) (run_session w now) (\<lambda>_. session_inv pr) (session_inv pr)"
proof -
  have orders: "triple (session_inv pr) (allocate_and_order w now) (\<lambda>_. session_inv pr) (session_inv pr)"
    unfolding allocate_and_order_def case_prod_beta Let_def
    by (intro triple_ask_bind triple_bind [OF quiet_inv] triple_for_each order_one_inv [OF w] still_rules)
  have decide: "triple (session_inv pr) (decide_all w now symbols scans) (\<lambda>_. session_inv pr) (session_inv pr)" for symbols scans
    unfolding decide_all_def case_prod_beta
    by (intro triple_ask_bind triple_bind [OF quiet_inv] triple_if orders quiet_inv still_rules)
  show ?thesis
    unfolding run_session_def case_prod_beta Let_def
    by (rule triple_bind [OF quiet_inv [OF quiet_start]], rule triple_bind [OF manage_inv [OF w]],
        rule triple_bind [OF quiet_inv], rule still_rules, rule triple_ask_bind,
        rule triple_bind [OF quiet_inv], rule still_rules, rule triple_bind [where R = "\<lambda>_. session_inv pr"])
      (intro triple_if triple_bind [OF quiet_inv] decide quiet_inv still_rules)+
qed

section \<open>Histories\<close>

text \<open>
  Days: sessions, moves of the paper broker other than submissions (time, faults, settlement,
  polls, cancellations), new quotes, and an operator who sets the risk state.
\<close>

datatype day_event =
    Session "paper world" instant
  | Market paper_op
  | Quotes "string \<Rightarrow> exn + real quote"
  | Operator risk_state

fun day_step :: "day_event \<Rightarrow> paper pipeline \<Rightarrow> paper pipeline" where
  "day_step (Session w now) p = snd (run_session w now p)"
| "day_step (Market x) p =
     p\<lparr>pp_engine := (pp_engine p)\<lparr>en_broker := paper_step x (en_broker (pp_engine p))\<rparr>\<rparr>"
| "day_step (Quotes q) p =
     p\<lparr>pp_engine := (pp_engine p)\<lparr>en_broker := (en_broker (pp_engine p))\<lparr>pb_quote := q\<rparr>\<rparr>\<rparr>"
| "day_step (Operator st) p =
     p\<lparr>pp_engine := (pp_engine p)\<lparr>en_risk := set_state st (en_risk (pp_engine p))\<rparr>\<rparr>"

fun event_ok :: "prims \<Rightarrow> day_event \<Rightarrow> bool" where
  "event_ok pr (Session w now) \<longleftrightarrow> world_ok pr w"
| "event_ok pr (Market x) \<longleftrightarrow> x \<in> world_moves"
| "event_ok pr (Quotes q) \<longleftrightarrow> (\<forall>k x. q k = Inr x \<longrightarrow> quote_ok x)"
| "event_ok pr (Operator st) \<longleftrightarrow> True"

lemma paper_moves:
  "x \<in> world_moves \<Longrightarrow> paper_inv b \<Longrightarrow> paper_inv (paper_step x b) \<and> paper_req (paper_step x b) = paper_req b"
proof -
  assume x: "x \<in> world_moves" and inv: "paper_inv b"
  have "paper_sane x" using x by (cases x) (auto simp: world_moves_def)
  moreover have "paper_req (paper_step x b) = paper_req b"
    using x pb_cancel_req [OF surjective_pairing] poll_resting_req [OF surjective_pairing]
    by (cases x) (auto simp: world_moves_def settle_def intro: paper_req_cong)
  ultimately show ?thesis using paper_step_inv inv by blast
qed

lemma broker_change_inv:
  assumes "session_inv pr p" and "paper_inv b" and "paper_req b = paper_req (en_broker (pp_engine p))"
  shows "session_inv pr (p\<lparr>pp_engine := (pp_engine p)\<lparr>en_broker := b\<rparr>\<rparr>)"
  using assms by (simp add: session_inv_def broker_sound_def traced_def ids_ahead_def authorised_def)

lemma day_step_inv:
  assumes "event_ok pr x" and inv: "session_inv pr p"
  shows "session_inv pr (day_step x p)"
proof (cases x)
  case (Session w now)
  with run_session_inv [of pr w now] assms show ?thesis
    by (cases "run_session w now p") (auto simp: triple_def split: sum.splits)
next
  case (Market y)
  have "paper_inv (en_broker (pp_engine p))" using inv by (simp add: session_inv_def broker_sound_def)
  with assms Market paper_moves [of y "en_broker (pp_engine p)"] show ?thesis
    by (auto intro!: broker_change_inv)
next
  case (Quotes q)
  have "paper_inv ((en_broker (pp_engine p))\<lparr>pb_quote := q\<rparr>)"
    using assms Quotes
    by (simp add: session_inv_def broker_sound_def paper_inv_def setup_ok_def orders_ok_def positions_ok_def cash_ok_def)
  then show ?thesis using Quotes inv by (auto intro!: broker_change_inv simp: paper_req_def)
next
  case (Operator st)
  with inv show ?thesis
    by (simp add: session_inv_def broker_sound_def traced_def ids_ahead_def authorised_def)
qed

lemma days_inv: "\<forall>x \<in> set days. event_ok pr x \<Longrightarrow> session_inv pr p \<Longrightarrow> session_inv pr (fold day_step days p)"
  by (induction days arbitrary: p) (auto intro: day_step_inv)

text \<open>A pipeline that has not traded yet is in such a state.\<close>

lemma new_pipeline_inv:
  assumes "paper_inv (en_broker (pp_engine p))" and "pb_orders (en_broker (pp_engine p)) = []"
    and "en_submitted (pp_engine p) = []" and "pl_records (pp_log p) = []"
  shows "session_inv pr p"
  using assms by (simp add: session_inv_def traced_def ids_ahead_def broker_sound_def authorised_def paper_req_def)

text \<open>
  C1. Nothing reaches the broker without audit and approval. Through any days of sessions, also
  such that ended in an exception, market moves and operator commands, every fill that the paper
  broker reports belongs to an order for which the pre-trade log holds a record of the same
  symbol, side and quantity that is marked as submitted and carries the identifier of a verified
  risk approval. For a purchase the record holds an audit that passed; a sale is a protective
  exit. All fills of the order together do not exceed the recorded quantity.
\<close>

theorem fills_are_audited_and_approved:
  assumes "session_inv pr p0" and "\<forall>x \<in> set days. event_ok pr x" and "p = fold day_step days p0"
    and "f \<in> set (pb_fills (en_broker (pp_engine p)))"
  shows "\<exists>ord r. dget (en_submitted (pp_engine p)) (bf_cid f) = Some ord \<and>
    verify_signature pr (en_risk (pp_engine p)) (ao_approval ord) \<and>
    dget (pl_records (pp_log p)) (bf_cid f) = Some r \<and>
    pt_symbol r = bf_symbol f \<and> pt_side r = bf_side f \<and>
    filled_total (bf_cid f) (pb_fills (en_broker (pp_engine p))) \<le> pt_qty r \<and>
    pt_submitted r \<and> pt_risk r = Some (RiskPassed (ap_id (ao_approval ord))) \<and>
    (bf_side f = BUY \<longrightarrow> (\<exists>a. pt_audit r = Some a \<and> au_verdict a = PASS)) \<and>
    (bf_side f = SELL \<longrightarrow> pt_protective r)"
proof -
  have inv: "session_inv pr p" using days_inv [OF assms(2,1)] assms(3) by simp
  then have b: "paper_inv (en_broker (pp_engine p))" "authorised pr paper_req (pp_engine p)"
    by (simp_all add: session_inv_def broker_sound_def)
  from paper_broker.fill_of_order [OF b(1) assms(4)] obtain q where q:
    "paper_req (en_broker (pp_engine p)) (bf_cid f) = Some q" "bf_symbol f = br_symbol q" "bf_side f = br_side q"
    by blast
  with b(2) obtain ord where ord: "dget (en_submitted (pp_engine p)) (bf_cid f) = Some ord"
    "verify_signature pr (en_risk (pp_engine p)) (ao_approval ord)" "request_matches q (ao_intent ord)"
    by (auto simp: authorised_def)
  with inv obtain r where r: "dget (pl_records (pp_log p)) (bf_cid f) = Some r" "cleared r ord"
    unfolding session_inv_def traced_def by blast
  have "filled_total (bf_cid f) (pb_fills (en_broker (pp_engine p))) \<le> pt_qty r"
    using paper_broker.no_overfill [OF b(1) q(1)] ord(3) r(2) by (simp add: request_matches_def cleared_def)
  with q ord r show ?thesis
    by (intro exI [of _ ord] exI [of _ r]) (auto simp: request_matches_def cleared_def split: if_splits)
qed

section \<open>A pipeline with one order\<close>

definition demo_record :: pretrade_record where
  "demo_record = \<lparr>pt_cid = ''paper-0001'', pt_decision = ''ABC-1'', pt_created = 0, pt_symbol = ''ABC'',
     pt_side = BUY, pt_qty = 2, pt_audit = Some (own_verdict ''a'' PreTrade.demo_sized (demo_intent BUY) 0 PASS [] 0 [] [] True),
     pt_risk = Some (RiskPassed ''u1''), pt_hash = ''5ha'', pt_submitted = True, pt_fills = [''id''],
     pt_final = Some FILLED, pt_protective = False\<rparr>"

definition demo_pipeline :: "paper engine \<Rightarrow> pretrade_log \<Rightarrow> paper pipeline" where
  "demo_pipeline e l = \<lparr>pp_env = PAPER, pp_universe = [], pp_scanner = \<lparr>sn_min_dollar = 0, sn_min_price = 0,
     sn_basic = 50, sn_advanced = 10\<rparr>, pp_integrity = default_integrity, pp_calibration = [],
     pp_loss = default_loss_control, pp_sizing = \<lparr>sz_config = DEFAULT_RISK_CONFIG, sz_last_risk = None,
     sz_last_loss = False, sz_history = []\<rparr>, pp_alloc = DEFAULT_RISK_CONFIG, pp_engine = e,
     pp_ledger = the_ledger 1000, pp_prov = \<lparr>ps_env = PAPER, ps_records = []\<rparr>, pp_auditor = demo_auditor,
     pp_log = l, pp_quality = mk_quality_engine (2/100) (2/100) (2/100), pp_post = [], pp_costs = None,
     pp_themes = [], pp_max_new = 5, pp_audit_store = None, pp_regime = default_regime,
     pp_session_regime = ''UNKNOWN'', pp_seq = 0, pp_stops = [], pp_theses = [], pp_captured = [],
     pp_ticks = 0, pp_result = new_result, pp_prices = [], pp_sized = []\<rparr>"

lemma demo_pipeline_inv:
  "session_inv demo_prims (demo_pipeline (snd demo_result) (empty_log\<lparr>pl_records := [(''paper-0001'', demo_record)]\<rparr>))"
proof -
  let ?p = "demo_pipeline (snd demo_result) (empty_log\<lparr>pl_records := [(''paper-0001'', demo_record)]\<rparr>)"
  have p: "pp_engine ?p = snd demo_result" "pl_records (pp_log ?p) = [(''paper-0001'', demo_record)]" "pp_env ?p = PAPER"
    by (simp_all add: demo_pipeline_def)
  have b: "paper_inv (en_broker (snd demo_result)) \<and> authorised demo_prims paper_req (snd demo_result)"
  proof (rule paper_broker.submit_authorised [OF _ _ _ demo_result_def [symmetric, THEN trans, OF surjective_pairing]])
    show "paper_inv (en_broker demo_engine)"
      using new_paper_inv [of 1000 1 2 Broker.demo_quote "\<lambda>n. ''id''"] demo_quote_ok by (simp add: demo_engine_def)
    show "authorised demo_prims paper_req demo_engine"
      by (simp add: authorised_def paper_req_def demo_engine_def new_paper_def)
    show "genuine demo_order s" if "Some demo_snapshot = Some s" for s
      using that by (auto simp: genuine_def request_matches_def request_of_def demo_order_def demo_snapshot_def demo_intent_def)
  qed
  have o: "k = ''paper-0001'' \<and> ord = demo_order" if "dget (en_submitted (snd demo_result)) k = Some ord" for k ord
    using submit_adds_one [OF demo_result_def [symmetric, THEN trans, OF surjective_pairing] that]
    by (simp add: demo_engine_def demo_order_def demo_intent_def)
  have c: "cleared demo_record demo_order"
    by (simp add: cleared_def demo_record_def demo_order_def demo_approval_def demo_intent_def own_verdict_def)
  have n: "make_client_order_id PAPER pid k hex \<noteq> ''paper-0001''" if "length hex = 6" for pid k hex
  proof
    assume "make_client_order_id PAPER pid k hex = ''paper-0001''"
    then have "length (make_client_order_id PAPER pid k hex) = 10" by simp
    with that show False by (simp add: make_client_order_id_def str_lower_def)
  qed
  have "traced ?p" unfolding traced_def p
  proof (intro allI impI)
    fix k ord assume "dget (en_submitted (snd demo_result)) k = Some ord"
    from o [OF this] c show "oi_id (ao_intent ord) = k \<and>
        (\<exists>r. dget [(''paper-0001'', demo_record)] k = Some r \<and> cleared r ord)"
      by (simp add: demo_order_def demo_intent_def)
  qed
  moreover have "ids_ahead ?p" unfolding ids_ahead_def p
    using n by (auto simp del: dget_simps simp: dget_None_iff dkeys_def)
  ultimately show ?thesis using b by (simp add: session_inv_def broker_sound_def p)
qed

lemma fills_are_audited_and_approved_witness:
  "\<exists>ord r. dget (en_submitted (snd demo_result)) ''paper-0001'' = Some ord \<and>
    dget [(''paper-0001'', demo_record)] ''paper-0001'' = Some r \<and>
    pt_risk r = Some (RiskPassed (ap_id (ao_approval ord))) \<and> (\<exists>a. pt_audit r = Some a \<and> au_verdict a = PASS)"
proof -
  let ?p = "demo_pipeline (snd demo_result) (empty_log\<lparr>pl_records := [(''paper-0001'', demo_record)]\<rparr>)"
  let ?q = "fold day_step [Operator HALT_NEW_ENTRIES] ?p"
  have q: "en_broker (pp_engine ?q) = en_broker (snd demo_result)" "en_submitted (pp_engine ?q) = en_submitted (snd demo_result)"
    "pl_records (pp_log ?q) = [(''paper-0001'', demo_record)]"
    by (simp_all add: demo_pipeline_def)
  obtain f where f: "f \<in> set (pb_fills (en_broker (snd demo_result)))" "bf_cid f = ''paper-0001''" "bf_side f = BUY"
    using demo_submits by auto
  have "\<forall>x \<in> set [Operator HALT_NEW_ENTRIES]. event_ok demo_prims x" by simp
  from fills_are_audited_and_approved [OF demo_pipeline_inv this refl, of f] f show ?thesis
    unfolding q by metis
qed

end
