(* ===== verification/PipelineViews.thy ===== *)
theory PipelineViews
  imports Pipeline
begin

text \<open>
  Stages that only move the parts of the pipeline around a session: engine, books, logs, marks. Any
  view of the pipeline that does not look at these parts is left alone by them; the lemmas are proved
  once for all such views. A view that does not look at the result of the session either is also left
  alone by everything from the allocation of cash to the protective stop.
\<close>

locale session_view =
  fixes view :: "'b pipeline \<Rightarrow> 'v"
  assumes parts: "view (p\<lparr>pp_engine := e\<rparr>) = view p" "view (p\<lparr>pp_ledger := l\<rparr>) = view p" "view (p\<lparr>pp_log := g\<rparr>) = view p"
      "view (p\<lparr>pp_quality := q\<rparr>) = view p" "view (p\<lparr>pp_prov := pv\<rparr>) = view p" "view (p\<lparr>pp_sizing := sz\<rparr>) = view p"
      "view (p\<lparr>pp_post := te\<rparr>) = view p" "view (p\<lparr>pp_integrity := ie\<rparr>) = view p" "view (p\<lparr>pp_costs := ce\<rparr>) = view p"
    and books: "view (p\<lparr>pp_stops := st\<rparr>) = view p" "view (p\<lparr>pp_audit_store := au\<rparr>) = view p"
    and scratch: "view (p\<lparr>pp_prices := pr\<rparr>) = view p" "view (p\<lparr>pp_seq := sq\<rparr>) = view p" "view (p\<lparr>pp_ticks := n\<rparr>) = view p"
      "view (p\<lparr>pp_session_regime := sr\<rparr>) = view p"
begin

lemma kept_parts [still_rules]:
  "still view (on_engine a)" "still view (on_ledger b)" "still view (on_log c)" "still view (on_quality d)" "still view (note_log cid f)"
  "still view (note_prov did g)" "still view (on_part pp_sizing (\<lambda>x p. p\<lparr>pp_sizing := x\<rparr>) s)"
  "still view (on_part pp_post (\<lambda>x p. p\<lparr>pp_post := x\<rparr>) t)" "still view (on_part pp_integrity (\<lambda>x p. p\<lparr>pp_integrity := x\<rparr>) u)"
  unfolding on_engine_def on_ledger_def on_log_def on_quality_def note_log_def note_prov_def
  by (intro still_on_part still_change; simp add: parts)+

lemma kept_changes [still_rules]:
  "still view (change (\<lambda>p. p\<lparr>pp_sizing := f1 p\<rparr>))" "still view (change (\<lambda>p. p\<lparr>pp_stops := f2 p\<rparr>))"
  "still view (change (\<lambda>p. if c p then p\<lparr>pp_stops := f2 p\<rparr> else p))"
  "still view (change (\<lambda>p. p\<lparr>pp_integrity := f3 p\<rparr>))" "still view (change (\<lambda>p. p\<lparr>pp_prices := f4 p\<rparr>))"
  "still view (change (\<lambda>p. p\<lparr>pp_prov := f8 p\<rparr>))" "still view (change (\<lambda>p. p\<lparr>pp_seq := f9 p\<rparr>))"
  by (rule still_change; simp add: parts books scratch)+

lemma kept_reads [still_rules]:
  "still view tick" "still view (mark_prices w now known)" "still view (settled_cash w)" "still view (read_regime w ss now)"
  "still view (on_costs f)"
  by (auto simp: still_def tick_def mark_prices_def settled_cash_def read_regime_def on_costs_def parts scratch Let_def
      split: sum.splits prod.splits option.splits)

lemma kept_persist [still_rules]: "still view (persist_audit_record w cid now)"
  unfolding persist_audit_record_def by (rule still_change) (auto simp: books split: option.splits)

lemma kept_risk [still_rules]: "still view (on_risk f)"
  unfolding on_risk_def by (intro still_rules)

lemma kept_books [still_rules]:
  "still view (pipeline_fill sy q px fees ts note)" "still view (log_decision w did sy kind now px d hs sk)"
  unfolding pipeline_fill_def log_decision_def by (intro still_rules)+

lemma kept_stand [still_rules]: "still view (stand_aside w now s kind d hs sk)" "still view (stand_down w now sized kind)"
  unfolding stand_aside_def stand_down_def Let_def by (intro still_rules)+

lemma kept_signal_age [still_rules]: "still view (signal_age w pid)"
  unfolding signal_age_def by (intro still_rules) (auto simp: still_def split: option.splits)

lemma kept_view [still_rules]: "still view age \<Longrightarrow> still view (portfolio_view w now known sy gap age)"
  unfolding portfolio_view_def by (intro still_rules)

lemma kept_views [still_rules]: "still view (exit_risk_view w sy now)" "still view (entry_risk_view w sized now)"
  unfolding exit_risk_view_def entry_risk_view_def by (intro still_rules)+

lemma kept_orders [still_rules]:
  "still view (next_order_id w pid)" "still view (ask_risk w i v px)" "still view (submit_to_engine w order snap)"
  unfolding next_order_id_def ask_risk_def submit_to_engine_def by (intro still_rules)+

lemma kept_submissions [still_rules]:
  "still view (submit_stop w i ap now did)" "still view (submit_entry w now sized i did a ap)"
  unfolding submit_stop_def submit_entry_def by (intro still_rules)+

lemma kept_protective_stop [still_rules]: "still view (place_protective_stop w sy qty stop now did)"
  unfolding place_protective_stop_def Let_def by (intro still_rules)

lemma kept_close_out [still_rules]: "still view (close_out w now f)"
  unfolding close_out_def by (intro still_rules)

lemma kept_manage_fills [still_rules]: "still view (manage_fills w now fs n)"
proof (induction fs arbitrary: n)
  case (Cons f fs)
  have "manage_fills w now (f # fs) n = (if bf_side f \<noteq> SELL
    then bind_act (pipeline_fill (bf_symbol f) (bf_qty f) (bf_price f) (bf_fees f) (bf_ts f) (bf_cid f))
           (\<lambda>_. manage_fills w now fs n)
    else bind_act (close_out w now f) (\<lambda>_. manage_fills w now fs (n + 1)))"
    by (rule ext) simp
  then show ?case by (simp only:) (intro still_rules Cons)
qed (simp add: still_def)

lemma kept_manage [still_rules]: "still view (manage_open_positions w now)"
  unfolding manage_open_positions_def by (intro still_rules)

end

locale order_view = session_view view for view :: "'b pipeline \<Rightarrow> 'v" +
  assumes result: "view (p\<lparr>pp_result := r\<rparr>) = view p"
begin

lemma kept_result [still_rules]: "still view (on_result f)" "still view (explain x)"
  unfolding explain_def on_result_def by (rule still_change; simp add: result)+

lemma kept_gate [still_rules]: "still view (gate_one w now s)"
  unfolding gate_one_def by (intro still_rules)

lemma kept_skip [still_rules]: "still view (skip_one w now x)"
  unfolding skip_one_def Let_def by (intro still_rules)

lemma kept_audit_stage [still_rules]: "still view (audit_stage w now sized i did)"
  unfolding audit_stage_def Let_def by (intro still_rules)

lemma kept_risk_stage [still_rules]: "still view (risk_stage w now sized i did)"
  unfolding risk_stage_def Let_def by (intro still_rules)

lemma kept_book_fills [still_rules]: "still view (book_fills cid did fs q)"
proof (induction fs arbitrary: q)
  case (Cons f fs)
  have "book_fills cid did (f # fs) q =
     (if bf_cid f = cid then
        bind_act (pipeline_fill (bf_symbol f) (if bf_side f = BUY then bf_qty f else - bf_qty f) (bf_price f)
                    (bf_fees f) (bf_ts f) cid) (\<lambda>_.
        bind_act (note_prov did (\<lambda>r. r\<lparr>pv_fills := pv_fills r @ [bf_id f]\<rparr>)) (\<lambda>_.
        bind_act (note_log cid (\<lambda>r. r\<lparr>pt_fills := pt_fills r @ [bf_id f]\<rparr>)) (\<lambda>_.
        bind_act (on_result (\<lambda>r. r\<lparr>rt_fills := rt_fills r @ [f]\<rparr>)) (\<lambda>_.
          book_fills cid did fs (q + bf_qty f)))))
      else book_fills cid did fs q :: ('b pipeline, real) act)"
    by (rule ext) simp
  then show ?case by (simp only:) (intro still_rules Cons)
qed (simp add: still_def)

lemma kept_settle [still_rules]: "still view (settle_entry w now sized i did st)"
  unfolding settle_entry_def Let_def by (intro still_rules)

lemma kept_order [still_rules]: "still view (order_one w now sized)"
  unfolding order_one_def Let_def by (intro still_rules)

lemma kept_allocate [still_rules]: "still view (allocate_and_order w now)"
  unfolding allocate_and_order_def Let_def by (intro still_rules)

end

end
