(* ===== verification/PipelineFunnel.thy ===== *)
theory PipelineFunnel
  imports PipelineViews
begin

text \<open>
  The result object of a session: its counters agree with each other at every stage of the
  funnel, and a session that did not trade says why. The proofs follow the session with
  assertions about the result, the sized candidates and the limit of new positions only.
\<close>

section \<open>Assertions about the result\<close>

definition funnel_view :: "'b pipeline \<Rightarrow> session_result \<times> sized_proposal list \<times> nat" where
  "funnel_view p = (pp_result p, pp_sized p, pp_max_new p)"

abbreviation calm :: "('b pipeline, 'a) act \<Rightarrow> bool" where
  "calm \<equiv> still funnel_view"

definition holds :: "(session_result \<Rightarrow> sized_proposal list \<Rightarrow> nat \<Rightarrow> bool) \<Rightarrow> 'b pipeline \<Rightarrow> bool" where
  "holds A p = A (pp_result p) (pp_sized p) (pp_max_new p)"

abbreviation yields ::
    "(session_result \<Rightarrow> sized_proposal list \<Rightarrow> nat \<Rightarrow> bool) \<Rightarrow> ('b pipeline, 'a) act \<Rightarrow>
     ('a \<Rightarrow> session_result \<Rightarrow> sized_proposal list \<Rightarrow> nat \<Rightarrow> bool) \<Rightarrow> bool" where
  "yields A f B \<equiv> triple (holds A) f (\<lambda>x. holds (B x)) (\<lambda>_. True)"

lemma calm_yields: "calm f \<Longrightarrow> yields A f (\<lambda>_. A)"
  by (rule tripleI) (auto dest!: stillD simp: holds_def funnel_view_def)

lemma calm_weaken: "calm f \<Longrightarrow> (\<And>r z m. A r z m \<Longrightarrow> B r z m) \<Longrightarrow> yields A f (\<lambda>_. B)"
  by (rule triple_post [OF calm_yields]) (simp_all add: holds_def)

lemma yields_result: "(\<And>r z m. A r z m \<Longrightarrow> B (f r) z m) \<Longrightarrow> yields A (on_result f) (\<lambda>_. B)"
  unfolding on_result_def by (rule triple_change) (simp add: holds_def)

lemma yields_explain:
  "(\<And>r z m. A r z m \<Longrightarrow> B (r\<lparr>rt_reasons := rt_reasons r @ [n]\<rparr>) z m) \<Longrightarrow> yields A (explain n) (\<lambda>_. B)"
  unfolding explain_def by (rule yields_result)

lemma yields_ret: "(\<And>r z m. A r z m \<Longrightarrow> B x r z m) \<Longrightarrow> yields A (ret x) B"
  by (rule triple_ret) (simp add: holds_def)

lemma yields_throw: "yields A (throw e) B"
  by (rule triple_throw) simp

lemma yields_pre: "yields A f B \<Longrightarrow> (\<And>r z m. A' r z m \<Longrightarrow> A r z m) \<Longrightarrow> yields A' f B"
  by (erule triple_pre) (simp add: holds_def)

lemma yields_calm_bind: "calm f \<Longrightarrow> (\<And>x. yields A (g x) B) \<Longrightarrow> yields A (bind_act f g) B"
  by (rule triple_bind [OF calm_yields])

lemma yields_calm_attempt:
  assumes "calm m" and "\<And>e. yields A (h e) B" and "\<And>x. yields A (k x) B"
  shows "yields A (attempt m h k) B"
proof (rule triple_attempt [OF _ assms(2,3)])
  show "triple (holds A) m (\<lambda>_. holds A) (holds A)"
    using stillD [OF assms(1)] by (intro tripleI) (fastforce simp: holds_def funnel_view_def)+
qed

section \<open>Calm actions\<close>

interpretation funnel: session_view funnel_view
  by unfold_locales (simp_all add: funnel_view_def)

lemma calm_changes [still_rules]:
  "calm (change (\<lambda>p. p\<lparr>pp_captured := f6 p\<rparr>))" "calm (change (\<lambda>p. p\<lparr>pp_theses := f7 p\<rparr>))"
  by (rule still_change; simp add: funnel_view_def)+

section \<open>The decision stages\<close>

text \<open>The counters up to sizing, with a bound \<open>n\<close> of the candidates that were considered, out of \<open>C\<close>.\<close>

definition undecided :: "session_result \<Rightarrow> bool" where
  "undecided r \<longleftrightarrow> rt_allocated r = 0 \<and> rt_audit_passed r = 0 \<and> rt_audit_rejected r = 0 \<and> rt_audit_review r = 0 \<and>
     rt_risk_passed r = 0 \<and> rt_risk_rejected r = 0 \<and> rt_filled r = 0 \<and> rt_stops_placed r = 0 \<and> rt_fills r = []"

definition decided :: "nat \<Rightarrow> nat \<Rightarrow> nat \<Rightarrow> nat \<Rightarrow> nat \<Rightarrow> nat \<Rightarrow> session_result \<Rightarrow> sized_proposal list \<Rightarrow> nat \<Rightarrow> bool" where
  "decided M C n d v s r z m \<longleftrightarrow> undecided r \<and> m = M \<and> rt_candidates r = C \<and> C \<le> rt_scanned r \<and> rt_decisions r \<le> n \<and>
     rt_planned r + rt_vetoes r + d \<le> rt_decisions r \<and> rt_sized r + v \<le> rt_planned r \<and> rt_sized r = length z + s"

lemma size_one_yields: "yields (decided M C n 0 1 0) (size_one w now s proposal stop q) (\<lambda>_. decided M C n 0 0 0)"
proof -
  have rejected: "yields (decided M C n 0 1 0) (bind_act (explain x) (\<lambda>_. stand_aside w now s kind d hs sk)) (\<lambda>_. decided M C n 0 0 0)"
    for x kind d hs sk
    by (rule triple_bind [OF yields_explain calm_yields [OF funnel.kept_stand(1)]]) (simp add: decided_def undecided_def)
  have sized: "yields (decided M C n 0 1 0)
     (bind_act (on_result (\<lambda>r. r\<lparr>rt_sized := rt_sized r + 1\<rparr>)) (\<lambda>_.
      bind_act (note_prov did f) (\<lambda>_. change (\<lambda>p. p\<lparr>pp_sized := pp_sized p @ [sized]\<rparr>)))) (\<lambda>_. decided M C n 0 0 0)"
    for did f sized
    by (rule triple_bind [OF yields_result [where B = "decided M C n 0 0 1"]], simp add: decided_def undecided_def,
        rule yields_calm_bind, rule still_rules, rule triple_change) (simp add: holds_def decided_def undecided_def)
  show ?thesis
    unfolding size_one_def case_prod_beta
    by (intro rejected sized yields_throw yields_calm_bind yields_calm_attempt triple_if still_rules)
qed

lemma plan_one_yields: "yields (decided M C n 1 0 0) (plan_one w now s proposal) (\<lambda>_. decided M C n 0 0 0)"
proof -
  have rejected: "yields (decided M C n 1 0 0) (bind_act (explain x) (\<lambda>_. stand_aside w now s kind d hs sk)) (\<lambda>_. decided M C n 0 0 0)"
    for x kind d hs sk
    by (rule triple_bind [OF yields_explain calm_yields [OF funnel.kept_stand(1)]]) (simp add: decided_def undecided_def)
  have planned: "yields (decided M C n 1 0 0)
     (bind_act (on_result (\<lambda>r. r\<lparr>rt_planned := rt_planned r + 1\<rparr>)) (\<lambda>_.
      bind_act (note_prov did f) (\<lambda>_. size_one w now s proposal stop q))) (\<lambda>_. decided M C n 0 0 0)" for did f stop q
    by (rule triple_bind [OF yields_result [where B = "decided M C n 0 1 0"]], simp add: decided_def undecided_def)
      (intro size_one_yields yields_calm_bind still_rules)
  show ?thesis
    unfolding plan_one_def
    by (intro rejected planned yields_throw yields_calm_bind yields_calm_attempt triple_if still_rules)
qed

lemma consider_buy_yields: "yields (decided M C n 0 0 0) (consider_buy w now s ctx d) (\<lambda>_. decided M C (n + 1) 0 0 0)"
  unfolding consider_buy_def Let_def
proof (rule triple_bind [OF yields_result [where B = "decided M C (n + 1) 1 0 0"]])
  fix r z m assume "decided M C n 0 0 0 r z m"
  then show "decided M C (n + 1) 1 0 0 (r\<lparr>rt_decisions := rt_decisions r + 1\<rparr>) z m"
    by (simp add: decided_def undecided_def)
next
  have veto: "yields (decided M C (n + 1) 1 0 0) (bind_act (on_result (\<lambda>r. r\<lparr>rt_vetoes := rt_vetoes r + 1\<rparr>)) (\<lambda>_.
        bind_act (explain (SkepticVeto (sr_symbol s) (sk_objections k))) (\<lambda>_.
          stand_aside w now s D_AVOID d False True))) (\<lambda>_. decided M C (n + 1) 0 0 0)" for k
    by (rule triple_bind [OF yields_result [where B = "decided M C (n + 1) 0 0 0"]], simp add: decided_def undecided_def,
        rule triple_bind [OF yields_explain calm_yields [OF funnel.kept_stand(1)]]) (simp add: decided_def undecided_def)
  show "yields (decided M C (n + 1) 1 0 0) (bind_act (of_res (wd_critique w d ctx)) (\<lambda>critique.
      bind_act (note_prov (decision_id_of w (sr_symbol s) now) (\<lambda>r. r\<lparr>pv_skeptic := Some critique\<rparr>)) (\<lambda>_.
      if sk_veto critique then
        bind_act (on_result (\<lambda>r. r\<lparr>rt_vetoes := rt_vetoes r + 1\<rparr>)) (\<lambda>_.
        bind_act (explain (SkepticVeto (sr_symbol s) (sk_objections critique))) (\<lambda>_.
          stand_aside w now s D_AVOID d False True))
      else propose_one w now s d critique))) (\<lambda>_. decided M C (n + 1) 0 0 0)"
    unfolding propose_one_def Let_def
    by (intro veto plan_one_yields triple_if yields_calm_bind still_rules)
qed

lemma decided_mono: "decided M C n d v s r z m \<Longrightarrow> n \<le> n' \<Longrightarrow> decided M C n' d v s r z m"
  by (auto simp: decided_def)

lemma act_on_decision_yields:
  "yields (decided M C n 0 0 0) (act_on_decision w now s ctx d) (\<lambda>_. decided M C (n + 1) 0 0 0)"
proof -
  have calm: "yields (decided M C n 0 0 0) f (\<lambda>_. decided M C (n + 1) 0 0 0)" if "calm f" for f :: "('b pipeline, unit) act"
    by (rule calm_weaken [OF that]) (auto intro: decided_mono)
  have unheld: "yields (decided M C n 0 0 0) (bind_act (explain x) (\<lambda>_. f)) (\<lambda>_. decided M C (n + 1) 0 0 0)"
    if "calm f" for f :: "('b pipeline, unit) act" and x
    by (rule triple_bind [OF yields_explain calm_yields [OF that]]) (simp add: decided_def undecided_def)
  show ?thesis
    unfolding act_on_decision_def
    by (rule yields_calm_bind, rule still_rules, rule yields_calm_bind, rule still_rules,
        intro triple_if unheld consider_buy_yields calm still_rules)
qed

lemma decide_one_yields:
  "yields (decided M C n 0 0 0) (decide_one w now rt s) (\<lambda>_. decided M C (n + 1) 0 0 0)"
proof -
  have explained: "yields (decided M C n 0 0 0) (bind_act (explain x) (\<lambda>_. note_prov did f)) (\<lambda>_. decided M C (n + 1) 0 0 0)"
    for x did f
    by (rule triple_bind [OF yields_explain calm_yields [OF funnel.kept_parts(6)]]) (simp add: decided_def undecided_def)
  show ?thesis
    unfolding decide_one_def Let_def
    by (intro explained act_on_decision_yields yields_throw triple_if yields_calm_attempt yields_calm_bind still_rules)
qed

lemma decide_loop_yields:
  "yields (decided M C n 0 0 0) (for_each (decide_one w now rt) xs) (\<lambda>_. decided M C (n + length xs) 0 0 0)"
proof (induction xs arbitrary: n)
  case (Cons x xs)
  have "yields (decided M C n 0 0 0) (bind_act (decide_one w now rt x) (\<lambda>_. for_each (decide_one w now rt) xs))
      (\<lambda>_. decided M C (n + 1 + length xs) 0 0 0)"
    by (rule triple_bind [OF decide_one_yields Cons])
  then show ?case by (simp add: triple_def bind_act_def)
qed (simp add: triple_def)

section \<open>The order stages\<close>

definition explained :: "session_result \<Rightarrow> bool" where
  "explained r \<longleftrightarrow> 0 < rt_filled r \<or> rt_reasons r \<noteq> []"

text \<open>
  After \<open>n\<close> orders out of \<open>l\<close>, with an audited order not yet at the risk gate (\<open>a\<close>), an approved one not yet
  filled (\<open>f\<close>), one filled without its stop (\<open>t\<close>); \<open>g\<close> says that fills are
  being booked, \<open>b\<close> that something has been explained.
\<close>

definition ordered :: "nat \<Rightarrow> nat \<Rightarrow> nat \<Rightarrow> nat \<Rightarrow> nat \<Rightarrow> bool \<Rightarrow> bool \<Rightarrow> session_result \<Rightarrow> sized_proposal list \<Rightarrow> nat \<Rightarrow> bool" where
  "ordered l n a f t g b r z m \<longleftrightarrow> rt_candidates r \<le> rt_scanned r \<and> rt_decisions r \<le> rt_candidates r \<and>
     rt_planned r + rt_vetoes r \<le> rt_decisions r \<and> rt_sized r \<le> rt_planned r \<and> rt_allocated r \<le> rt_sized r \<and> rt_allocated r = l \<and>
     rt_audit_passed r + rt_audit_rejected r + rt_audit_review r \<le> n \<and>
     rt_risk_passed r + rt_risk_rejected r + a = rt_audit_passed r \<and> rt_filled r + f \<le> rt_risk_passed r \<and>
     rt_stops_placed r + t \<le> rt_filled r \<and> (rt_fills r \<noteq> [] \<and> \<not> g \<longrightarrow> 0 < rt_filled r) \<and>
     (b \<longrightarrow> explained r)"

lemma ordered_mono: "ordered l n a f t g b r z m \<Longrightarrow> n \<le> n' \<Longrightarrow> ordered l n' a f t g b r z m"
  by (auto simp: ordered_def)

lemma book_fills_yields:
  "yields (ordered l n 0 1 0 True b) (book_fills cid did fs q :: ('b pipeline, real) act) (\<lambda>_. ordered l n 0 1 0 True b)"
proof (induction fs arbitrary: q)
  case (Cons f fs)
  have noted: "yields (ordered l n 0 1 0 True b) (bind_act (on_result (\<lambda>r. r\<lparr>rt_fills := rt_fills r @ [f]\<rparr>)) (\<lambda>_.
      book_fills cid did fs q' :: ('b pipeline, real) act)) (\<lambda>_. ordered l n 0 1 0 True b)" for q'
    by (rule triple_bind [OF yields_result Cons]) (simp add: ordered_def explained_def)
  have "book_fills cid did (f # fs) q =
     (if bf_cid f = cid then
        bind_act (pipeline_fill (bf_symbol f) (if bf_side f = BUY then bf_qty f else - bf_qty f) (bf_price f)
                    (bf_fees f) (bf_ts f) cid) (\<lambda>_.
        bind_act (note_prov did (\<lambda>r. r\<lparr>pv_fills := pv_fills r @ [bf_id f]\<rparr>)) (\<lambda>_.
        bind_act (note_log cid (\<lambda>r. r\<lparr>pt_fills := pt_fills r @ [bf_id f]\<rparr>)) (\<lambda>_.
        bind_act (on_result (\<lambda>r. r\<lparr>rt_fills := rt_fills r @ [f]\<rparr>)) (\<lambda>_.
          book_fills cid did fs (q + bf_qty f)))))
      else book_fills cid did fs q :: ('b pipeline, real) act)"
    by (rule ext) simp
  then show ?case by (simp only:) (intro triple_if noted Cons yields_calm_bind still_rules)
qed (simp add: triple_def)

lemma settle_entry_yields:
  "yields (ordered l n 0 1 0 False b) (settle_entry w now sized i did st) (\<lambda>_. ordered l n 0 0 0 False True)"
proof -
  have stop: "yields (ordered l n 0 0 1 False True)
      (if placed then on_result (\<lambda>r. r\<lparr>rt_stops_placed := rt_stops_placed r + 1\<rparr>) else explain x)
      (\<lambda>_. ordered l n 0 0 0 False True)" for placed x
    by (intro triple_if yields_result yields_explain) (simp_all add: ordered_def explained_def)
  have filled: "yields (ordered l n 0 1 0 True b)
      (bind_act (on_result (\<lambda>r. r\<lparr>rt_filled := rt_filled r + 1\<rparr>)) (\<lambda>_.
        bind_act (note_prov did (\<lambda>r. r\<lparr>pv_result := Some (EndedIn st)\<rparr>)) (\<lambda>_.
        bind_act (persist_audit_record w cid now) (\<lambda>_.
        bind_act (place_protective_stop w sy filled_qty (szp_plan sized) now did) (\<lambda>placed.
          if placed then on_result (\<lambda>r. r\<lparr>rt_stops_placed := rt_stops_placed r + 1\<rparr>)
          else explain (Unprotected sy)))))) (\<lambda>_. ordered l n 0 0 0 False True)" for cid sy filled_qty
    by (rule triple_bind [OF yields_result [where B = "ordered l n 0 0 1 False True"]], simp add: ordered_def explained_def)
      (intro stop yields_calm_bind still_rules)
  have ended: "yields (ordered l n 0 1 0 False b)
      (bind_act (note_prov did (\<lambda>r. r\<lparr>pv_result := Some (EndedIn st)\<rparr>)) (\<lambda>_.
        bind_act (persist_audit_record w cid now) (\<lambda>_. explain (EndedAs sy st)))) (\<lambda>_. ordered l n 0 0 0 False True)"
    if "st \<notin> {FILLED, PARTIALLY_FILLED}" for cid sy
    by (rule yields_calm_bind, rule still_rules, rule yields_calm_bind, rule still_rules, rule yields_explain)
      (auto simp: ordered_def explained_def)
  show ?thesis
    unfolding settle_entry_def Let_def
    by (intro triple_if ended)
      (rule yields_calm_bind, rule still_rules,
        rule yields_pre [OF triple_bind [OF book_fills_yields filled]], simp add: ordered_def)
qed

lemma audit_stage_yields:
  "yields (ordered l n 0 0 0 False b) (audit_stage w now sized i did)
     (\<lambda>x. case x of None \<Rightarrow> ordered l (n + 1) 0 0 0 False True | Some _ \<Rightarrow> ordered l (n + 1) 1 0 0 False b)"
    (is "yields _ _ ?B")
proof -
  have stop: "yields (ordered l (n + 1) 0 0 0 False True) (bind_act (stand_down w now sized kind) (\<lambda>_. ret None)) ?B" for kind
    by (rule triple_bind [OF calm_yields [OF funnel.kept_stand(2)] yields_ret]) simp
  have unaudited: "yields (ordered l n 0 0 0 False b) (bind_act (explain x) (\<lambda>_. bind_act f (\<lambda>_.
      bind_act (stand_down w now sized kind) (\<lambda>_. ret None)))) ?B" if "calm f" for x f kind
    by (rule triple_bind [OF yields_explain [where B = "ordered l (n + 1) 0 0 0 False True"]],
        simp add: ordered_def explained_def) (intro stop yields_calm_bind that)
  have passed: "yields (ordered l n 0 0 0 False b)
      (bind_act (on_result (\<lambda>r. r\<lparr>rt_audit_passed := rt_audit_passed r + 1\<rparr>)) (\<lambda>_. ret (Some a))) ?B" for a
    by (rule triple_bind [OF yields_result [where B = "ordered l (n + 1) 1 0 0 False b"] yields_ret])
      (simp_all add: ordered_def explained_def)
  have review: "yields (ordered l n 0 0 0 False b)
      (bind_act (on_result (\<lambda>r. r\<lparr>rt_audit_review := rt_audit_review r + 1\<rparr>)) (\<lambda>_. bind_act f (\<lambda>_. explain x)))
      (\<lambda>_. ordered l (n + 1) 0 0 0 False True)" if "calm f" for f :: "('a pipeline, unit) act" and x
    by (rule triple_bind [OF yields_result [where B = "ordered l (n + 1) 0 0 0 False b"]],
        simp add: ordered_def explained_def, rule yields_calm_bind [OF that], rule yields_explain)
      (simp add: ordered_def explained_def)
  have rejected: "yields (ordered l n 0 0 0 False b)
      (bind_act (on_result (\<lambda>r. r\<lparr>rt_audit_rejected := rt_audit_rejected r + 1\<rparr>)) (\<lambda>_. bind_act (explain x) (\<lambda>_. f)))
      (\<lambda>_. ordered l (n + 1) 0 0 0 False True)" if "calm f" for f :: "('a pipeline, unit) act" and x
    by (rule triple_bind [OF yields_result [where B = "ordered l (n + 1) 0 0 0 False b"]],
        simp add: ordered_def explained_def,
        rule triple_bind [OF yields_explain [where B = "ordered l (n + 1) 0 0 0 False True"] calm_yields [OF that]])
      (simp add: ordered_def explained_def)
  have closed: "yields (ordered l n 0 0 0 False b) (bind_act f (\<lambda>_. bind_act (stand_down w now sized kind) (\<lambda>_. ret None))) ?B"
    if "yields (ordered l n 0 0 0 False b) f (\<lambda>_. ordered l (n + 1) 0 0 0 False True)" for f :: "('a pipeline, unit) act" and kind
    by (rule triple_bind [OF that stop])
  show ?thesis
    unfolding audit_stage_def Let_def
    by (rule yields_calm_attempt, intro still_rules)
      (intro unaudited passed closed review rejected yields_throw triple_if still_rules
        | rule yields_calm_bind, rule still_rules)+
qed

lemma risk_stage_yields:
  "yields (ordered l n 1 0 0 False b) (risk_stage w now sized i did)
     (\<lambda>x. case x of None \<Rightarrow> ordered l n 0 0 0 False True | Some _ \<Rightarrow> ordered l n 0 1 0 False b)"
    (is "yields _ _ ?B")
proof -
  have stop: "yields (ordered l n 0 0 0 False True) (bind_act (stand_down w now sized kind) (\<lambda>_. ret None)) ?B" for kind
    by (rule triple_bind [OF calm_yields [OF funnel.kept_stand(2)] yields_ret]) simp
  have rejected: "yields (ordered l n 1 0 0 False b)
      (bind_act (on_result (\<lambda>r. r\<lparr>rt_risk_rejected := rt_risk_rejected r + 1\<rparr>)) (\<lambda>_. bind_act (explain x) (\<lambda>_. f))) ?B"
    if "yields (ordered l n 0 0 0 False True) f ?B" for f x
    by (rule triple_bind [OF yields_result [where B = "ordered l n 0 0 0 False b"]],
        simp add: ordered_def explained_def,
        rule triple_bind [OF yields_explain [where B = "ordered l n 0 0 0 False True"] that])
      (simp add: ordered_def explained_def)
  have approved: "yields (ordered l n 1 0 0 False b)
      (bind_act (on_result (\<lambda>r. r\<lparr>rt_risk_passed := rt_risk_passed r + 1\<rparr>)) (\<lambda>_. bind_act f (\<lambda>_. bind_act g (\<lambda>_. ret (Some a))))) ?B"
    if "calm f" "calm g" for f g :: "('a pipeline, unit) act" and a
    by (rule triple_bind [OF yields_result [where B = "ordered l n 0 1 0 False b"]],
        simp add: ordered_def explained_def, rule yields_calm_bind [OF that(1)], rule yields_calm_bind [OF that(2)],
        rule yields_ret) simp
  show ?thesis
    unfolding risk_stage_def Let_def
    by (rule yields_calm_bind, rule still_rules, rule yields_calm_bind, rule still_rules,
        intro triple_sum rejected approved)
      (intro stop yields_calm_bind still_rules)+
qed

lemma order_one_yields:
  "yields (ordered l n 0 0 0 False b) (order_one w now sized) (\<lambda>_. ordered l (n + 1) 0 0 0 False True)"
proof -
  let ?did = "decision_id_of w (tp_symbol (szp_proposal sized)) now"
  have risk: "yields (ordered l (n + 1) 1 0 0 False b)
      (bind_act (risk_stage w now sized i ?did) (\<lambda>approved. case approved of None \<Rightarrow> ret () | Some ap \<Rightarrow>
         bind_act (submit_entry w now sized i ?did a ap) (\<lambda>st. settle_entry w now sized i ?did st)))
      (\<lambda>_. ordered l (n + 1) 0 0 0 False True)" for i a
  proof (rule triple_bind [OF risk_stage_yields])
    fix x
    show "yields (case x of None \<Rightarrow> ordered l (n + 1) 0 0 0 False True | Some _ \<Rightarrow> ordered l (n + 1) 0 1 0 False b)
      (case x of None \<Rightarrow> ret () | Some ap \<Rightarrow>
         bind_act (submit_entry w now sized i ?did a ap) (\<lambda>st. settle_entry w now sized i ?did st))
      (\<lambda>_. ordered l (n + 1) 0 0 0 False True)"
      by (cases x; simp only: option.case)
        (rule yields_ret, assumption, intro settle_entry_yields yields_calm_bind still_rules)
  qed
  have audit: "yields (ordered l n 0 0 0 False b)
      (bind_act (audit_stage w now sized i ?did) (\<lambda>audited. case audited of None \<Rightarrow> ret () | Some audit \<Rightarrow>
         bind_act (risk_stage w now sized i ?did) (\<lambda>approved. case approved of None \<Rightarrow> ret () | Some ap \<Rightarrow>
           bind_act (submit_entry w now sized i ?did audit ap) (\<lambda>st. settle_entry w now sized i ?did st))))
      (\<lambda>_. ordered l (n + 1) 0 0 0 False True)" for i
  proof (rule triple_bind [OF audit_stage_yields])
    fix x
    show "yields (case x of None \<Rightarrow> ordered l (n + 1) 0 0 0 False True | Some _ \<Rightarrow> ordered l (n + 1) 1 0 0 False b)
      (case x of None \<Rightarrow> ret () | Some audit \<Rightarrow>
         bind_act (risk_stage w now sized i ?did) (\<lambda>approved. case approved of None \<Rightarrow> ret () | Some ap \<Rightarrow>
           bind_act (submit_entry w now sized i ?did audit ap) (\<lambda>st. settle_entry w now sized i ?did st)))
      (\<lambda>_. ordered l (n + 1) 0 0 0 False True)"
      by (cases x; simp only: option.case) (rule yields_ret, assumption, rule risk)
  qed
  show ?thesis
    unfolding order_one_def Let_def
    by (intro audit yields_calm_bind still_rules)
qed

lemma order_loop_yields:
  "yields (ordered l n 0 0 0 False b) (for_each (order_one w now) xs)
     (\<lambda>_. ordered l (n + length xs) 0 0 0 False (b \<or> xs \<noteq> []))"
proof (induction xs arbitrary: n b)
  case (Cons x xs)
  have "yields (ordered l n 0 0 0 False b) (bind_act (order_one w now x) (\<lambda>_. for_each (order_one w now) xs))
      (\<lambda>_. ordered l (n + 1 + length xs) 0 0 0 False (True \<or> xs \<noteq> []))"
    by (rule triple_bind [OF order_one_yields Cons])
  then show ?case by (simp add: triple_def bind_act_def)
qed (simp add: triple_def)

text \<open>Skipped candidates are explained one by one.\<close>

lemma skip_loop_yields:
  assumes A: "\<And>r n. A r \<Longrightarrow> A (r\<lparr>rt_reasons := rt_reasons r @ [n]\<rparr>)"
  shows "yields (\<lambda>r z m. A r \<and> (b \<longrightarrow> explained r)) (for_each (skip_one w now) xs)
    (\<lambda>_ r z m. A r \<and> (b \<or> xs \<noteq> [] \<longrightarrow> explained r))"
proof (induction xs arbitrary: b)
  case (Cons x xs)
  have one: "yields (\<lambda>r z m. A r \<and> (b \<longrightarrow> explained r)) (skip_one w now x) (\<lambda>_ r z m. A r \<and> (True \<longrightarrow> explained r))"
    unfolding skip_one_def Let_def
    by (rule triple_bind [OF yields_explain [where B = "\<lambda>r z m. A r \<and> (True \<longrightarrow> explained r)"]])
      (use A in \<open>auto simp: explained_def\<close>, intro calm_yields still_rules)
  have "yields (\<lambda>r z m. A r \<and> (b \<longrightarrow> explained r)) (bind_act (skip_one w now x) (\<lambda>_. for_each (skip_one w now) xs))
    (\<lambda>_ r z m. A r \<and> (True \<or> xs \<noteq> [] \<longrightarrow> explained r))"
    by (rule triple_bind [OF one Cons])
  then show ?case by (simp add: triple_def bind_act_def)
qed (simp add: triple_def)

section \<open>The session\<close>

definition accounted :: "nat \<Rightarrow> session_result \<Rightarrow> bool" where
  "accounted M r \<longleftrightarrow> rt_candidates r \<le> rt_scanned r \<and> rt_decisions r \<le> rt_candidates r \<and>
     rt_planned r + rt_vetoes r \<le> rt_decisions r \<and> rt_sized r \<le> rt_planned r \<and> rt_allocated r \<le> rt_sized r \<and>
     rt_audit_passed r + rt_audit_rejected r + rt_audit_review r \<le> min M (rt_allocated r) \<and>
     rt_risk_passed r + rt_risk_rejected r = rt_audit_passed r \<and> rt_filled r \<le> rt_risk_passed r \<and>
     rt_stops_placed r \<le> rt_filled r \<and> (\<not> traded r \<longrightarrow> rt_fills r = [] \<and> rt_reasons r \<noteq> [])"

lemma decided_accounted:
  "decided M C n 0 0 0 r z m \<Longrightarrow> n \<le> C \<Longrightarrow> rt_reasons r \<noteq> [] \<Longrightarrow> accounted M r"
  by (auto simp: decided_def undecided_def accounted_def)

lemma ordered_accounted:
  "ordered l n 0 0 0 False True r z m \<Longrightarrow> n \<le> min M l \<Longrightarrow> accounted M r"
  by (auto simp: ordered_def accounted_def explained_def traded_def)

lemma yields_pure: "(c \<Longrightarrow> yields A f B) \<Longrightarrow> yields (\<lambda>r z m. A r z m \<and> c) f B"
  by (auto simp: triple_def holds_def)

lemma yields_ask_view:
  "(\<And>x. yields (\<lambda>r z m. A r z m \<and> x = (z, r, m)) (g x) B) \<Longrightarrow>
    yields A (bind_act (ask (\<lambda>p. (pp_sized p, pp_result p, pp_max_new p))) g) B"
  by (auto simp: triple_def holds_def bind_act_def ask_def)

lemma yields_ask_bind: "(\<And>p. holds A p \<Longrightarrow> yields (\<lambda>r z m. A r z m \<and> r = pp_result p \<and> z = pp_sized p \<and> m = pp_max_new p) (g (f p)) B) \<Longrightarrow>
    yields A (bind_act (ask f) g) B"
  by (auto simp: triple_def holds_def bind_act_def ask_def)

lemma allocation_lengths:
  "length (ca_accepted (allocate_cash_to cfg zs e c x)) + length (ca_skipped (allocate_cash_to cfg zs e c x)) = length zs"
proof -
  let ?zs = "sort_key (\<lambda>sp. - edge sp) zs" and ?m = "e * max_total_exposure_pct cfg * exposure_cap_stage cfg"
  have "size (mset (ca_accepted (allocate_loop ?m ?zs c x)) + mset (map fst (ca_skipped (allocate_loop ?m ?zs c x)))) = size (mset ?zs)"
    by (simp only: allocate_loop_partition)
  then show ?thesis by (simp add: allocate_cash_to_def)
qed

lemma allocate_yields:
  assumes "n \<le> C" and "M = 0 \<Longrightarrow> n = 0"
  shows "yields (\<lambda>r z m. decided M C n 0 0 0 r z m \<and> z \<noteq> []) (allocate_and_order w now) (\<lambda>_ r z m. accounted M r)"
  unfolding allocate_and_order_def
proof (rule yields_ask_bind, unfold case_prod_conv, intro yields_calm_bind still_rules, unfold Let_def)
  fix p :: "'a pipeline" and marks snap cash
  assume p: "holds (\<lambda>r z m. decided M C n 0 0 0 r z m \<and> z \<noteq> []) p"
  let ?alloc = "allocate_cash_to (pp_alloc p) (pp_sized p) (es_equity snap) cash (es_positions snap)"
  let ?l = "length (ca_accepted ?alloc)" and ?xs = "take (pp_max_new p) (ca_accepted ?alloc)"
  let ?A = "\<lambda>r. undecided r \<and> C \<le> rt_scanned r \<and> rt_candidates r = C \<and> rt_decisions r \<le> n \<and>
    rt_planned r + rt_vetoes r \<le> rt_decisions r \<and> rt_sized r \<le> rt_planned r \<and> rt_sized r = length (pp_sized p)"
  have M: "pp_max_new p = M" and z: "pp_sized p \<noteq> []" "length (pp_sized p) \<le> n"
    using p by (auto simp: holds_def decided_def)
  then have "0 < M" using assms(2) by (cases M) auto
  have len: "?l + length (ca_skipped ?alloc) = length (pp_sized p)" by (rule allocation_lengths)
  have flag: "ca_skipped ?alloc \<noteq> [] \<or> ?xs \<noteq> []"
    using len z(1) M \<open>0 < M\<close> by (cases "ca_accepted ?alloc"; cases M) auto
  have skip: "yields (\<lambda>r z m. ?A r \<and> (False \<longrightarrow> explained r)) (for_each (skip_one w now) (ca_skipped ?alloc))
      (\<lambda>_ r z m. ?A r \<and> (False \<or> ca_skipped ?alloc \<noteq> [] \<longrightarrow> explained r))"
    by (rule skip_loop_yields) (simp add: undecided_def)
  have set: "yields (\<lambda>r z m. ?A r \<and> (False \<or> ca_skipped ?alloc \<noteq> [] \<longrightarrow> explained r))
      (on_result (\<lambda>r. r\<lparr>rt_allocated := ?l\<rparr>)) (\<lambda>_. ordered ?l 0 0 0 0 False (ca_skipped ?alloc \<noteq> []))"
    by (rule yields_result) (use assms(1) len in \<open>auto simp: ordered_def undecided_def explained_def\<close>)
  have order: "yields (ordered ?l 0 0 0 0 False (ca_skipped ?alloc \<noteq> [])) (for_each (order_one w now) ?xs) (\<lambda>_ r z m. accounted M r)"
  proof (rule triple_post [OF order_loop_yields])
    fix x q
    assume "holds (ordered ?l (0 + length ?xs) 0 0 0 False (ca_skipped ?alloc \<noteq> [] \<or> ?xs \<noteq> [])) q"
    with flag M show "holds (\<lambda>r z m. accounted M r) q"
      unfolding holds_def by (intro ordered_accounted [of ?l "length ?xs"]) simp_all
  qed
  show "yields (\<lambda>r z m. (decided M C n 0 0 0 r z m \<and> z \<noteq> []) \<and> r = pp_result p \<and> z = pp_sized p \<and> m = pp_max_new p)
     (bind_act (for_each (skip_one w now) (ca_skipped ?alloc)) (\<lambda>_.
      bind_act (on_result (\<lambda>r. r\<lparr>rt_allocated := ?l\<rparr>)) (\<lambda>_. for_each (order_one w now) ?xs))) (\<lambda>_ r z m. accounted M r)"
    by (rule yields_pre [OF triple_bind [OF skip triple_bind [OF set order]]]) (auto simp: decided_def)
qed

lemma decide_all_yields:
  assumes "length scans \<le> C"
  shows "yields (decided M C 0 0 0 0) (decide_all w now symbols scans) (\<lambda>_ r z m. accounted M r)"
  unfolding decide_all_def
proof (rule yields_calm_bind, rule still_rules, rule yields_ask_bind)
  fix regime_text and p :: "'a pipeline"
  assume p: "holds (decided M C 0 0 0 0) p"
  let ?xs = "take (pp_max_new p * 3) scans"
  have M: "pp_max_new p = M" using p by (simp add: holds_def decided_def)
  have n: "length ?xs \<le> C" "M = 0 \<Longrightarrow> length ?xs = 0" using assms M by auto
  have rest: "yields (decided M C (length ?xs) 0 0 0)
      (bind_act (ask (\<lambda>p. (pp_sized p, rt_reasons (pp_result p)))) (\<lambda>(sized, reasons).
       if sized = [] then (if reasons = [] then explain NothingSurvived else ret ())
       else allocate_and_order w now)) (\<lambda>_ r z m. accounted M r)"
  proof (rule yields_ask_bind, unfold case_prod_conv, intro triple_if)
    fix q :: "'a pipeline"
    show "yields (\<lambda>r z m. decided M C (length ?xs) 0 0 0 r z m \<and> r = pp_result q \<and> z = pp_sized q \<and> m = pp_max_new q)
        (explain NothingSurvived) (\<lambda>_ r z m. accounted M r)"
      by (rule yields_explain, rule decided_accounted [OF _ n(1)]) (auto simp: decided_def undecided_def)
    show "yields (\<lambda>r z m. decided M C (length ?xs) 0 0 0 r z m \<and> r = pp_result q \<and> z = pp_sized q \<and> m = pp_max_new q)
        (ret ()) (\<lambda>_ r z m. accounted M r)" if "rt_reasons (pp_result q) \<noteq> []"
      by (rule yields_ret, rule decided_accounted [OF _ n(1)]) (use that in auto)
    show "yields (\<lambda>r z m. decided M C (length ?xs) 0 0 0 r z m \<and> r = pp_result q \<and> z = pp_sized q \<and> m = pp_max_new q)
        (allocate_and_order w now) (\<lambda>_ r z m. accounted M r)" if "pp_sized q \<noteq> []"
      by (rule yields_pre [OF allocate_yields [OF n]]) (use that in auto)
  qed
  show "yields (\<lambda>r z m. decided M C 0 0 0 0 r z m \<and> r = pp_result p \<and> z = pp_sized p \<and> m = pp_max_new p)
     (bind_act (for_each (decide_one w now regime_text) ?xs) (\<lambda>_.
      bind_act (ask (\<lambda>p. (pp_sized p, rt_reasons (pp_result p)))) (\<lambda>(sized, reasons).
      if sized = [] then (if reasons = [] then explain NothingSurvived else ret ())
      else allocate_and_order w now))) (\<lambda>_ r z m. accounted M r)"
    by (rule yields_pre [OF triple_bind [OF decide_loop_yields [where n = 0, unfolded add_0] rest]]) simp
qed

lemma gate_yields:
  "yields (decided M C 0 0 0 0) (collect (gate_one w now) xs) (\<lambda>ys r z m. decided M C 0 0 0 0 r z m \<and> length ys = length xs)"
proof (induction xs)
  case (Cons x xs)
  have unquoted: "yields (decided M C 0 0 0 0) (bind_act (explain y) (\<lambda>_. ret None)) (\<lambda>_. decided M C 0 0 0 0)" for y
    by (rule triple_bind [OF yields_explain yields_ret]) (simp_all add: decided_def undecided_def)
  have one: "yields (decided M C 0 0 0 0) (gate_one w now x) (\<lambda>_. decided M C 0 0 0 0)"
    unfolding gate_one_def
    by (rule yields_calm_bind, rule still_rules, intro triple_option unquoted calm_yields still_rules)
  have "yields (decided M C 0 0 0 0) (bind_act (gate_one w now x) (\<lambda>y. bind_act (collect (gate_one w now) xs) (\<lambda>ys. ret (y # ys))))
      (\<lambda>ys r z m. decided M C 0 0 0 0 r z m \<and> length ys = length (x # xs))"
    by (rule triple_bind [OF one triple_bind [OF Cons yields_ret]]) simp
  then show ?case by (simp add: triple_def)
qed (simp add: triple_def holds_def)

lemma scan_lengths:
  assumes "scan c fetch ks = (rs, f)"
  shows "length rs = fu_advanced f" and "fu_advanced f \<le> fu_scanned f"
proof -
  have s: "length (snd (scan_stage1 c fetch ks)) \<le> length ks"
    by (induction ks) (auto simp: Let_def split: prod.splits option.splits)
  have "length (filter P (take n (sort_key k xs))) \<le> length xs" for P n and k :: "scan_result \<Rightarrow> real" and xs
    using length_filter_le [of P "take n (sort_key k xs)"] by simp
  note this [of _ _ _ "snd (scan_stage1 c fetch ks)"]
  from order_trans [OF this s] show "length rs = fu_advanced f" and "fu_advanced f \<le> fu_scanned f"
    using assms by (auto simp: scan_def Let_def min_le_iff_disj split: prod.splits)
qed

lemma run_session_accounted:
  assumes "run_session w now p = (Inr r, p')"
  shows "rt_candidates r \<le> rt_scanned r \<and> rt_decisions r \<le> rt_candidates r \<and>
    rt_planned r + rt_vetoes r \<le> rt_decisions r \<and> rt_sized r \<le> rt_planned r \<and> rt_allocated r \<le> rt_sized r \<and>
    rt_audit_passed r + rt_audit_rejected r + rt_audit_review r \<le> min (pp_max_new p) (rt_allocated r) \<and>
    rt_risk_passed r + rt_risk_rejected r = rt_audit_passed r \<and> rt_filled r \<le> rt_risk_passed r \<and>
    rt_stops_placed r \<le> rt_filled r \<and> (\<not> traded r \<longrightarrow> rt_fills r = [] \<and> rt_reasons r \<noteq> [])"
proof -
  let ?M = "pp_max_new p"
  have started: "triple (\<lambda>q. q = p) start_session (\<lambda>_. holds (\<lambda>r z m. r = new_result \<and> z = [] \<and> m = ?M)) (\<lambda>_. True)"
    unfolding start_session_def by (rule triple_change) (simp add: holds_def)
  let ?S = "\<lambda>r z m. r\<lparr>rt_stops_triggered := 0\<rparr> = new_result \<and> z = [] \<and> m = ?M"
  have body: "yields ?S (bind_act (ask (\<lambda>p. let symbols = symbols_as_of (pp_universe p) (wd_date w now) in
                 (symbols, scan (pp_scanner p)
                    (\<lambda>k. case bars_of w k now 40 of Inl _ \<Rightarrow> None | Inr bs \<Rightarrow> Some bs) symbols)))
       (\<lambda>(symbols, scans, funnel).
     bind_act (on_result (\<lambda>r. r\<lparr>rt_scanned := fu_scanned funnel, rt_candidates := fu_advanced funnel\<rparr>)) (\<lambda>_.
     bind_act
       (if scans = [] then explain NoCandidates
        else
          bind_act (collect (gate_one w now) scans) (\<lambda>gated.
          let open_scans = List.map_filter id gated in
          if open_scans = [] then explain NoQuoteAtAll
          else decide_all w now symbols open_scans)) (\<lambda>_.
       ask pp_result)))) (\<lambda>x r z m. accounted ?M x)"
  proof (rule yields_ask_bind)
    fix q :: "'a pipeline"
    let ?symbols = "symbols_as_of (pp_universe q) (wd_date w now)"
    obtain scans funnel where s: "scan (pp_scanner q) (\<lambda>k. case bars_of w k now 40 of Inl _ \<Rightarrow> None | Inr bs \<Rightarrow> Some bs)
        ?symbols = (scans, funnel)" by fastforce
    let ?C = "fu_advanced funnel"
    note len = scan_lengths [OF s]
    have init: "yields (\<lambda>r z m. ?S r z m \<and> r = pp_result q \<and> z = pp_sized q \<and> m = pp_max_new q)
        (on_result (\<lambda>r. r\<lparr>rt_scanned := fu_scanned funnel, rt_candidates := ?C\<rparr>)) (\<lambda>_. decided ?M ?C 0 0 0 0)"
    proof (rule yields_result)
      fix r z m assume "?S r z m \<and> r = pp_result q \<and> z = pp_sized q \<and> m = pp_max_new q"
      then obtain t where "r = new_result\<lparr>rt_stops_triggered := t\<rparr>" "z = []" "m = ?M"
        by (metis session_result.surjective session_result.update_convs(7))
      with len(2) show "decided ?M ?C 0 0 0 0 (r\<lparr>rt_scanned := fu_scanned funnel, rt_candidates := ?C\<rparr>) z m"
        by (simp add: decided_def undecided_def new_result_def)
    qed
    have none: "yields (decided ?M ?C 0 0 0 0) (explain x) (\<lambda>_ r z m. accounted ?M r)" for x
      by (rule yields_explain, rule decided_accounted) (auto simp: decided_def undecided_def)
    have gated: "yields (decided ?M ?C 0 0 0 0)
        (bind_act (collect (gate_one w now) scans) (\<lambda>gated.
          if List.map_filter id gated = [] then explain NoQuoteAtAll
          else decide_all w now ?symbols (List.map_filter id gated))) (\<lambda>_ r z m. accounted ?M r)"
    proof (rule triple_bind [OF gate_yields])
      fix gated :: "scan_result option list"
      have "length (List.map_filter id gated) \<le> length gated" by (simp add: List.map_filter_def)
      then show "yields (\<lambda>r z m. decided ?M ?C 0 0 0 0 r z m \<and> length gated = length scans)
          (if List.map_filter id gated = [] then explain NoQuoteAtAll
           else decide_all w now ?symbols (List.map_filter id gated)) (\<lambda>_ r z m. accounted ?M r)"
        using len(1) by (intro yields_pure triple_if none decide_all_yields) simp
    qed
    have last: "yields (\<lambda>r z m. accounted ?M r) (ask pp_result) (\<lambda>x r z m. accounted ?M x)"
      by (rule triple_ask) (simp add: holds_def)
    show "yields (\<lambda>r z m. ?S r z m \<and> r = pp_result q \<and> z = pp_sized q \<and> m = pp_max_new q)
      ((\<lambda>(symbols, scans, funnel).
        bind_act (on_result (\<lambda>r. r\<lparr>rt_scanned := fu_scanned funnel, rt_candidates := fu_advanced funnel\<rparr>)) (\<lambda>_.
        bind_act
          (if scans = [] then explain NoCandidates
           else
             bind_act (collect (gate_one w now) scans) (\<lambda>gated.
             let open_scans = List.map_filter id gated in
             if open_scans = [] then explain NoQuoteAtAll
             else decide_all w now symbols open_scans)) (\<lambda>_.
          ask pp_result)))
        (let symbols = ?symbols in (symbols, scan (pp_scanner q)
            (\<lambda>k. case bars_of w k now 40 of Inl _ \<Rightarrow> None | Inr bs \<Rightarrow> Some bs) symbols)))
      (\<lambda>x r z m. accounted ?M x)"
      unfolding Let_def s case_prod_conv
      by (rule triple_bind [OF init triple_bind [OF _ last]]) (intro triple_if none gated)
  qed
  have "triple (\<lambda>q. q = p) (run_session w now) (\<lambda>x. holds (\<lambda>r z m. accounted ?M x)) (\<lambda>_. True)"
    unfolding run_session_def
    by (rule triple_bind [OF started], rule yields_calm_bind, rule still_rules, unfold case_prod_beta,
        rule triple_bind [OF yields_result [where B = ?S] body [unfolded case_prod_beta]]) (simp add: new_result_def)
  from tripleD(1) [OF this refl assms] show ?thesis by (simp add: holds_def accounted_def)
qed

text \<open>
  C2. A session accounts for everything. When a session returns, its counters agree along the
  funnel: candidates come from the scan, every sized proposal was planned and not vetoed, every
  allocated one is passed, rejected or queued by the audit at most once and at most as many as
  positions may be opened, every audited one is passed or rejected by the risk gate, and fills
  and stops only follow approvals. A session that filled nothing books no fill and gives at least
  one reason.
\<close>

theorem session_accounts_for_itself:
  assumes "run_session w now p = (Inr r, p')"
  shows "rt_candidates r \<le> rt_scanned r \<and> rt_decisions r \<le> rt_candidates r \<and>
    rt_planned r + rt_vetoes r \<le> rt_decisions r \<and> rt_sized r \<le> rt_planned r \<and> rt_allocated r \<le> rt_sized r \<and>
    rt_audit_passed r + rt_audit_rejected r + rt_audit_review r \<le> min (pp_max_new p) (rt_allocated r) \<and>
    rt_risk_passed r + rt_risk_rejected r = rt_audit_passed r \<and> rt_filled r \<le> rt_risk_passed r \<and>
    rt_stops_placed r \<le> rt_filled r \<and> (\<not> traded r \<longrightarrow> rt_fills r = [] \<and> rt_reasons r \<noteq> [])"
  using run_session_accounted [OF assms] .

end
