(* ===== verification/PipelineDemo.thy ===== *)
theory PipelineDemo
  imports PipelineSafety PipelineFunnel
begin

text \<open>
  A session on concrete data: one listed symbol, twenty-one bars that rise at the end, a decision
  to buy and a skeptic that vetoes it. It instantiates the account that a session gives of itself.
\<close>

definition demo_bar :: "real \<Rightarrow> real bar" where
  "demo_bar c = \<lparr>bar_symbol = ''ABC'', bar_ts = 0, bar_open = 100, bar_high = 101, bar_low = 99, bar_close = c,
     bar_volume = 1000000, bar_vwap = None, bar_source = ''demo'', bar_version = ''1''\<rparr>"

definition demo_bars :: "real bar list" where
  "demo_bars = replicate 20 (demo_bar 100) @ [demo_bar 101]"

definition demo_tick :: "real quote" where
  "demo_tick = \<lparr>q_symbol = ''ABC'', q_ts = hhmm 10 0, q_bid = 999/10, q_ask = 100, q_bid_size = 1, q_ask_size = 1,
     q_halted = False, q_source = ''demo''\<rparr>"

definition demo_raw :: "pyfloat decision_output" where
  "demo_raw = \<lparr>do_symbol = ''ABC'', do_action = D_BUY, do_confidence = Fin (3/5), do_horizon = ''1w'',
     do_range = (Fin (1/100), Fin (3/100)),
     do_bull = \<lparr>sc_description = ''up'', sc_target = Fin 110, sc_prob = Fin (3/10)\<rparr>,
     do_base = \<lparr>sc_description = ''on'', sc_target = Fin 103, sc_prob = Fin (4/10)\<rparr>,
     do_bear = \<lparr>sc_description = ''down'', sc_target = Fin 95, sc_prob = Fin (3/10)\<rparr>,
     do_key_evidence = [''momentum''], do_counter_evidence = [], do_risk_factors = [],
     do_invalidation = [''gap down''], do_unknowns = [], do_version = ''1''\<rparr>"

definition demo_skeptic :: skeptic_output where
  "demo_skeptic = \<lparr>sk_symbol = ''ABC'', sk_objections = [''base rates''], sk_severity = 9/10, sk_veto = True,
     sk_family = ''family''\<rparr>"

text \<open>The world around a skeptic.\<close>

definition demo_world_with ::
    "(real decision_output \<Rightarrow> decision_context \<Rightarrow> exn + skeptic_output) \<Rightarrow> paper world" where
  "demo_world_with crit = \<lparr>wd_prims = demo_prims, wd_adapter = paper_adapter, wd_bars = (\<lambda>s t n. Some demo_bars),
     wd_quote = (\<lambda>s t. Some demo_tick), wd_decide = (\<lambda>ctx. Inr demo_raw), wd_critique = crit,
     wd_model = ''model'', wd_version = ''1'', wd_skeptic = Some ''skeptic'', wd_uuid = (\<lambda>n. ''proposal''),
     wd_hex = (\<lambda>n. ''abcdef''), wd_wall = (\<lambda>n. 0), wd_clock = hhmm 10 0, wd_y2000 = (\<lambda>t. 0),
     wd_date = (\<lambda>t. Date 2025 7 7), wd_json = (\<lambda>r. []), wd_pct = (\<lambda>x. []), wd_signed_pct = (\<lambda>x. [])\<rparr>"

definition demo_world :: "paper world" where
  "demo_world = demo_world_with (\<lambda>d ctx. Inr demo_skeptic)"

definition demo_start :: "paper pipeline" where
  "demo_start = (demo_pipeline \<lparr>en_broker = new_paper (\<lambda>s. Inr demo_tick) (\<lambda>n. ''id'') 1000 0 0,
      en_risk = demo_controller, en_machine = empty_machine, en_env = PAPER, en_has_on_fill = False,
      en_delivered = [], en_store = None, en_submitted = [], en_snapshots = []\<rparr> empty_log)
     \<lparr>pp_universe := [(''ABC'', \<lparr>us_symbol = ''ABC'', us_listed = Date 2020 1 1, us_delisted = None\<rparr>)],
      pp_auditor := demo_auditor\<lparr>ad_env := PAPER\<rparr>\<rparr>"

section \<open>Stage by stage\<close>

lemma demo_bars_of: "bars_of (demo_world_with crit) s now n = Inr demo_bars"
  using stamp_bars_total [of now demo_bars]
  by (auto simp: bars_of_def service_bars_def demo_world_with_def)

lemma demo_closes: "map bar_close demo_bars = replicate 20 100 @ [101]" "length demo_bars = 21"
  by (simp_all add: demo_bars_def demo_bar_def)

lemma demo_returns: "returns (replicate 20 100 @ [101]) = replicate 19 0 @ [1/100 :: real]"
  by (simp add: numeral_eq_Suc)

lemma demo_vol: "pstdev (replicate 19 0 @ [1/100]) < 6/100"
proof -
  have m: "mean (replicate 19 0 @ [1/100 :: real]) = 1/2000" by (simp add: mean_def sum_list_replicate)
  have "(\<Sum>r\<leftarrow>replicate 19 0 @ [1/100]. (r - 1/2000)\<^sup>2) = (19 * (1/2000)\<^sup>2 + (19/2000)\<^sup>2 :: real)"
    by (simp add: sum_list_replicate map_replicate)
  then have "pstdev (replicate 19 0 @ [1/100]) = sqrt ((19 * (1/2000)\<^sup>2 + (19/2000)\<^sup>2) / 20)"
    by (simp add: pstdev_def m)
  also have "\<dots> < 6/100" by (rule real_less_lsqrt) (simp_all add: power2_eq_square)
  finally show ?thesis .
qed

definition demo_scan :: scan_result where
  "demo_scan = \<lparr>sr_symbol = ''ABC'', sr_close = 101, sr_momentum = 1/100, sr_dollar_volume = 100050000,
     sr_volatility = pstdev (replicate 19 0 @ [1/100]),
     sr_score = 1/100 / (pstdev (replicate 19 0 @ [1/100]) + eps), sr_bars = demo_bars\<rparr>"

lemma demo_scan_symbol: "scan_symbol (pp_scanner demo_start) ''ABC'' demo_bars = Some demo_scan"
proof -
  have l: "last_n 20 demo_bars = replicate 19 (demo_bar 100) @ [demo_bar 101]" "last_n 21 demo_bars = demo_bars"
    "bar_close (last demo_bars) = 101" "hd (replicate 20 100 @ [101 :: real]) = 100"
    by (simp_all add: last_n_def demo_bars_def demo_bar_def)
  have v: "(\<Sum>b\<leftarrow>replicate 19 (demo_bar 100) @ [demo_bar 101]. bar_close b * of_int (bar_volume b)) / 20 = (100050000 :: real)"
    by (simp add: map_replicate sum_list_replicate demo_bar_def)
  show ?thesis
    unfolding scan_symbol_def Let_def l demo_closes v demo_returns
    by (simp add: demo_scan_def demo_start_def demo_pipeline_def)
qed

lemma demo_scans: "scan (pp_scanner demo_start) (\<lambda>k. Some demo_bars) [''ABC''] = 
   ([demo_scan], \<lparr>fu_scanned = 1, fu_basic = 1, fu_advanced = 1, fu_unavailable = 0\<rparr>)"
proof -
  have "sn_basic (pp_scanner demo_start) = 50" "sn_advanced (pp_scanner demo_start) = 10"
    by (simp_all add: demo_start_def demo_pipeline_def)
  with demo_scan_symbol demo_vol show ?thesis by (simp add: scan_def demo_scan_def)
qed

lemma demo_universe: "symbols_as_of (pp_universe demo_start) (Date 2025 7 7) = [''ABC'']"
proof -
  have "\<not> Date 2025 7 7 < Date 2020 1 1" by code_simp
  then show ?thesis by (simp add: demo_start_def symbols_as_of_def demo_pipeline_def active_on_def dvals_def)
qed

lemma demo_manage: "manage_open_positions (demo_world_with crit) now demo_start = (Inr (0, 0), demo_start)"
  by (simp add: manage_open_positions_def on_engine_def on_part_def sync_open_orders_def demo_world_with_def
      poll_broker_def paper_adapter_def poll_resting_orders_def check_disconnect_def demo_start_def new_paper_def
      demo_pipeline_def bind_act_def ret_def empty_machine_def dkeys_def)

lemma demo_gate: "\<exists>i. gate_one (demo_world_with crit) (hhmm 10 0) demo_scan p = (Inr (Some demo_scan), p\<lparr>pp_integrity := i\<rparr>)"
proof -
  obtain r i where v: "validate_quote demo_tick (Aware (hhmm 10 0))
    (snd (validate_bars ''ABC'' demo_bars (pp_integrity p))) = (Inr r, i)"
    unfolding validate_quote_def Let_def by simp
  have s: "sr_symbol demo_scan = ''ABC''" "sr_bars demo_scan = demo_bars" "wd_quote (demo_world_with crit) k t = Some demo_tick" for k t
    by (simp_all add: demo_scan_def demo_world_with_def)
  show ?thesis
    unfolding gate_one_def bind_act_def change_def s by (auto simp: on_part_def ret_def v)
qed

abbreviation demo_id :: string where "demo_id \<equiv> ''ABC-2025-07-07''"

lemma demo_did: "decision_id_of (demo_world_with crit) ''ABC'' now = demo_id"
proof -
  have "iso_date (Date 2025 7 7) = ''2025-07-07''" by code_simp
  then show ?thesis by (simp add: decision_id_of_def demo_world_with_def)
qed

definition demo_out :: "real decision_output" where
  "demo_out = \<lparr>do_symbol = ''ABC'', do_action = D_BUY, do_confidence = 3/5, do_horizon = ''1w'',
     do_range = (1/100, 3/100), do_bull = \<lparr>sc_description = ''up'', sc_target = 110, sc_prob = 3/10\<rparr>,
     do_base = \<lparr>sc_description = ''on'', sc_target = 103, sc_prob = 4/10\<rparr>,
     do_bear = \<lparr>sc_description = ''down'', sc_target = 95, sc_prob = 3/10\<rparr>,
     do_key_evidence = [''momentum''], do_counter_evidence = [], do_risk_factors = [],
     do_invalidation = [''gap down''], do_unknowns = [], do_version = ''1''\<rparr>"

lemma demo_validates: "validate_decision demo_raw = Inr demo_out"
  by (simp add: validate_decision_def demo_raw_def demo_out_def mk_decision_output_def mk_scenario_case_def
      in_unit_def Let_def)

lemma demo_decide:
  assumes "qe_snaps (pp_quality p) = []" and veto: "\<And>ctx. crit demo_out ctx = Inr k" "sk_veto k"
  shows "\<exists>q. decide_one (demo_world_with crit) (hhmm 10 0) rgm demo_scan p = (Inr (), q) \<and> pp_sized q = pp_sized p \<and>
    pp_max_new q = pp_max_new p \<and>
    pp_result q = (pp_result p)\<lparr>rt_decisions := rt_decisions (pp_result p) + 1,
      rt_vetoes := rt_vetoes (pp_result p) + 1,
      rt_reasons := rt_reasons (pp_result p) @ [SkepticVeto ''ABC'' (sk_objections k)]\<rparr>"
proof -
  have w: "wd_decide (demo_world_with crit) ctx = Inr demo_raw" "wd_critique (demo_world_with crit) demo_out ctx = Inr k" for ctx
    by (simp_all add: demo_world_with_def veto)
  have s: "sr_symbol demo_scan = ''ABC''" "sr_close demo_scan = 101" by (simp_all add: demo_scan_def)
  have d: "do_action demo_out = D_BUY" "do_confidence demo_out = 3/5" by (simp_all add: demo_out_def)
  show ?thesis
    unfolding decide_one_def act_on_decision_def consider_buy_def attempt_def stand_aside_def log_decision_def s demo_did
    by (simp add: bind_act_def ask_def change_def note_prov_def of_res_def w demo_validates d veto on_result_def
        explain_def on_quality_def on_part_def record_decision_def snapshot_of_def mk_decision_snapshot_def Let_def assms(1))
qed

lemma demo_regime:
  assumes "qe_snaps (pp_quality p) = []"
  shows "\<exists>text0 q. read_regime (demo_world_with crit) [''ABC''] (hhmm 10 0) p = (Inr text0, q) \<and> pp_quality q = pp_quality p \<and>
    pp_sized q = pp_sized p \<and> pp_max_new q = pp_max_new p \<and> pp_result q = pp_result p"
  by (simp add: read_regime_def demo_bars_of universe_composite_bars_def Let_def)

text \<open>One candidate, one proposal to buy, and a skeptic that vetoes it.\<close>

lemma demo_session:
  assumes veto: "\<And>ctx. crit demo_out ctx = Inr k" "sk_veto k"
  shows "\<exists>r p'. run_session (demo_world_with crit) (hhmm 10 0) demo_start = (Inr r, p') \<and>
    rt_scanned r = 1 \<and> rt_candidates r = 1 \<and> rt_decisions r = 1 \<and> rt_vetoes r = 1 \<and>
    rt_reasons r = [SkepticVeto ''ABC'' (sk_objections k)]"
proof -
  define t where "t = hhmm 10 0"
  define p0 where "p0 = demo_start\<lparr>pp_result := new_result\<lparr>rt_stops_triggered := 0, rt_scanned := 1, rt_candidates := 1\<rparr>\<rparr>"
  have init: "start_session demo_start = (Inr (), demo_start)"
    by (simp add: start_session_def change_def demo_start_def demo_pipeline_def)
  have bars: "(\<lambda>k. case bars_of (demo_world_with crit) k t 40 of Inl _ \<Rightarrow> None | Inr bs \<Rightarrow> Some bs) = (\<lambda>k. Some demo_bars)"
    by (simp add: demo_bars_of)
  have date: "wd_date (demo_world_with crit) t = Date 2025 7 7" by (simp add: demo_world_with_def)
  have res: "on_result (\<lambda>r. r\<lparr>rt_scanned := 1, rt_candidates := 1\<rparr>)
      (snd (on_result (\<lambda>r. r\<lparr>rt_stops_triggered := 0\<rparr>) demo_start)) = (Inr (), p0)"
    "on_result (\<lambda>r. r\<lparr>rt_stops_triggered := 0\<rparr>) demo_start = (Inr (), demo_start)"
    by (simp_all add: on_result_def change_def p0_def demo_start_def demo_pipeline_def new_result_def)
  obtain i where g: "gate_one (demo_world_with crit) t demo_scan p0 = (Inr (Some demo_scan), p0\<lparr>pp_integrity := i\<rparr>)"
    using demo_gate unfolding t_def by blast
  have q0: "qe_snaps (pp_quality (p0\<lparr>pp_integrity := i\<rparr>)) = []" "pp_max_new p0 = 5" "pp_sized p0 = []"
    by (simp_all add: p0_def demo_start_def demo_pipeline_def mk_quality_engine_def)
  obtain text0 p1 where r: "read_regime (demo_world_with crit) [''ABC''] t (p0\<lparr>pp_integrity := i\<rparr>) = (Inr text0, p1)"
    and p1: "pp_quality p1 = pp_quality p0" "pp_sized p1 = []" "pp_max_new p1 = 5" "pp_result p1 = pp_result p0"
    using demo_regime [OF q0(1)] q0 unfolding t_def by fastforce
  have q1: "qe_snaps (pp_quality p1) = []" using p1(1) q0(1) by simp
  obtain p2 where d: "decide_one (demo_world_with crit) t text0 demo_scan p1 = (Inr (), p2)" and p2: "pp_sized p2 = []"
    "pp_result p2 = (pp_result p0)\<lparr>rt_decisions := 1, rt_vetoes := 1, rt_reasons := [SkepticVeto ''ABC'' (sk_objections k)]\<rparr>"
    using demo_decide [where crit = crit and k = k and p = p1 and rgm = text0] q1 veto p1 unfolding t_def by (auto simp: p0_def new_result_def)
  note act = bind_act_def ask_def ret_def prod.case sum.case
  have one: "for_each (decide_one (demo_world_with crit) t text0) (take (5 * 3) [demo_scan]) p1 = (Inr (), p2)"
    by (simp add: bind_act_def d ret_def)
  have all: "decide_all (demo_world_with crit) t [''ABC''] [demo_scan] (p0\<lparr>pp_integrity := i\<rparr>) = (Inr (), p2)"
    unfolding decide_all_def act r p1 one p2 by simp
  have gate: "collect (gate_one (demo_world_with crit) t) [demo_scan] p0 = (Inr [Some demo_scan], p0\<lparr>pp_integrity := i\<rparr>)"
    unfolding collect.simps act g by simp
  have run: "run_session (demo_world_with crit) t demo_start = (Inr (pp_result p2), p2)"
    unfolding run_session_def act init demo_manage res(2) Let_def date demo_universe bars demo_scans funnel.simps res(1) [unfolded res(2) snd_conv] gate
    by (simp add: g act List.map_filter_def all)
  show ?thesis
    unfolding t_def [symmetric] by (intro exI [of _ "pp_result p2"] exI [of _ p2]) (simp add: run p2 p0_def new_result_def)
qed

lemma session_accounts_for_itself_witness:
  "\<exists>r p'. run_session demo_world (hhmm 10 0) demo_start = (Inr r, p') \<and>
    rt_scanned r = 1 \<and> rt_candidates r = 1 \<and> rt_decisions r = 1 \<and> rt_vetoes r = 1 \<and>
    rt_reasons r = [SkepticVeto ''ABC'' [''base rates'']] \<and>
    rt_planned r + rt_vetoes r \<le> rt_decisions r \<and> rt_audit_passed r = 0 \<and> rt_fills r = []"
proof -
  obtain r p' where run: "run_session demo_world (hhmm 10 0) demo_start = (Inr r, p')"
    and r: "rt_scanned r = 1" "rt_candidates r = 1" "rt_decisions r = 1" "rt_vetoes r = 1"
      "rt_reasons r = [SkepticVeto ''ABC'' [''base rates'']]"
    using demo_session [of "\<lambda>d ctx. Inr demo_skeptic" demo_skeptic] by (auto simp: demo_skeptic_def demo_world_def)
  from session_accounts_for_itself [OF run] have "rt_planned r = 0" "rt_audit_passed r = 0"
    "rt_fills r = []"
    using r by (auto simp: traded_def)
  with run r show ?thesis by (intro exI [of _ r] exI [of _ p']) simp
qed

end
