(* ===== verification/PipelineTypes.thy ===== *)
theory PipelineTypes
  imports PipelineViews
begin

text \<open>
  The schemas as a type discipline. Every record is built by a constructor that validates it, and the
  models behind a session may answer anything; what a session keeps on file, also where it raises,
  is well typed, and every candidate has its thesis and the time of its signal.
\<close>

section \<open>Well-typed values\<close>

definition case_typed :: "real scenario_case \<Rightarrow> bool" where
  "case_typed c \<longleftrightarrow> 0 < sc_target c \<and> 0 \<le> sc_prob c \<and> sc_prob c \<le> 1"

definition decision_typed :: "real decision_output \<Rightarrow> bool" where
  "decision_typed d \<longleftrightarrow> 1 \<le> length (do_symbol d) \<and> length (do_symbol d) \<le> 12
     \<and> 0 \<le> do_confidence d \<and> do_confidence d \<le> 1 \<and> fst (do_range d) \<le> snd (do_range d)
     \<and> case_typed (do_bull d) \<and> case_typed (do_base d) \<and> case_typed (do_bear d)
     \<and> 99/100 \<le> sc_prob (do_bull d) + sc_prob (do_base d) + sc_prob (do_bear d)
     \<and> sc_prob (do_bull d) + sc_prob (do_base d) + sc_prob (do_bear d) \<le> 101/100"

text \<open>A purchase that the skeptic saw and did not veto.\<close>

definition proposal_typed :: "trade_proposal \<Rightarrow> bool" where
  "proposal_typed t \<longleftrightarrow> decision_typed (tp_decision t) \<and> do_action (tp_decision t) = D_BUY \<and> tp_side t = BUY
     \<and> tp_source t = FROM_AI \<and> (\<exists>k. tp_skeptic t = Some k \<and> \<not> sk_veto k)"

definition plan_typed :: "stop_plan \<Rightarrow> bool" where
  "plan_typed s \<longleftrightarrow> 0 < sp_stop s \<and> sp_stop s < sp_entry s \<and> 0 < sp_target s \<and> 0 \<le> sp_gap s \<and> sp_gap s \<le> 1
     \<and> sp_reason s \<noteq> [] \<and> sp_thesis s \<noteq> [] \<and> sp_invalidation s \<noteq> []"

definition sized_typed :: "sized_proposal \<Rightarrow> bool" where
  "sized_typed z \<longleftrightarrow> proposal_typed (szp_proposal z) \<and> plan_typed (szp_plan z) \<and> 0 < szp_qty z \<and> 0 \<le> szp_risk z
     \<and> 0 < szp_notional z \<and> 0 \<le> szp_confidence z \<and> szp_confidence z \<le> 1"

definition thesis_typed :: "string \<Rightarrow> final_trade_thesis \<Rightarrow> bool" where
  "thesis_typed did t \<longleftrightarrow> th_decision_id t = did \<and> th_skeptic_id t \<noteq> [] \<and> 0 \<le> th_disagreement t
     \<and> th_disagreement t \<le> 1 \<and> proposal_typed (th_proposal t)"

definition on_file :: "'b world \<Rightarrow> instant \<Rightarrow> trade_proposal \<Rightarrow> 'b pipeline \<Rightarrow> bool" where
  "on_file w now t p \<longleftrightarrow> dhas (pp_theses p) (decision_id_of w (tp_symbol t) now) \<and> dhas (pp_captured p) (tp_id t)"

definition session_typed :: "'b world \<Rightarrow> instant \<Rightarrow> 'b pipeline \<Rightarrow> bool" where
  "session_typed w now p \<longleftrightarrow>
     (\<forall>z \<in> set (pp_sized p). sized_typed z \<and> on_file w now (szp_proposal z) p)
     \<and> (\<forall>(did, t) \<in> set (pp_theses p). thesis_typed did t)"

section \<open>The constructors deliver the types\<close>

lemma parsed_case_typed: "mk_scenario_case c = Inr c' \<Longrightarrow> case_typed c'"
  by (cases "sc_target c"; cases "sc_prob c") (auto simp: mk_scenario_case_def case_typed_def gt0_def in_unit_def split: if_splits)

lemma validated_decision_typed:
  assumes "validate_decision raw = Inr d"
  shows "decision_typed d"
proof -
  have mk: "mk_decision_output raw = Inr d" using assms by (simp add: validate_decision_def split: sum.splits)
  obtain lo hi where range: "do_range raw = (lo, hi)" by (cases "do_range raw")
  from mk obtain bull base bear where parts: "mk_scenario_case (do_bull raw) = Inr bull"
    "mk_scenario_case (do_base raw) = Inr base" "mk_scenario_case (do_bear raw) = Inr bear"
    by (auto simp: mk_decision_output_def split: sum.splits)
  have "case_typed bull" "case_typed base" "case_typed bear" using parts by (simp_all add: parsed_case_typed)
  then show ?thesis
    using mk parts range by (cases lo; cases hi; cases "do_confidence raw")
      (auto simp: mk_decision_output_def decision_typed_def Let_def in_unit_def split: if_splits)
qed

lemma planned_typed: "plan_stop repr cfg t bars px gap = Inr s \<Longrightarrow> plan_typed s"
  by (auto simp: plan_stop_def Let_def mk_stop_plan_def plan_typed_def split: if_splits sum.splits)

lemma size_order_typed:
  assumes "size_order t s q ctx c e = (Inr z, e')" and "proposal_typed t" and "plan_typed s"
  shows "sized_typed z \<and> szp_proposal z = t"
  using assms by (auto simp: size_order_def Let_def mk_sized_proposal_def sized_typed_def split: if_splits)

lemma proposed_typed:
  assumes "mk_trade_proposal \<lparr>tp_id = i, tp_symbol = sy, tp_side = BUY, tp_source = FROM_AI, tp_decision = d,
      tp_skeptic = Some k, tp_created = now\<rparr> = Inr t" and "decision_typed d" and "\<not> sk_veto k"
  shows "proposal_typed t \<and> tp_symbol t = sy"
  using assms by (auto simp: mk_trade_proposal_iff proposal_typed_def)

lemma built_thesis_typed:
  "build_final_trade_thesis u t did k = Inr x \<Longrightarrow> proposal_typed t \<Longrightarrow> thesis_typed did x"
  by (auto simp: build_final_trade_thesis_def mk_final_trade_thesis_def thesis_typed_def split: option.splits if_splits)

section \<open>Steps that do not touch the file\<close>

definition file_view :: "'b pipeline \<Rightarrow> sized_proposal list \<times> (string, final_trade_thesis) dict \<times> (string, instant) dict" where
  "file_view p = (pp_sized p, pp_theses p, pp_captured p)"

interpretation files: order_view file_view
  by unfold_locales (simp_all add: file_view_def)

definition filed :: "'b world \<Rightarrow> instant \<Rightarrow> trade_proposal list \<Rightarrow> 'b pipeline \<Rightarrow> bool" where
  "filed w now ts p \<longleftrightarrow> session_typed w now p \<and> (\<forall>t \<in> set ts. on_file w now t p)"

abbreviation files_well :: "'b world \<Rightarrow> instant \<Rightarrow> trade_proposal list \<Rightarrow> ('b pipeline, 'a) act \<Rightarrow> bool" where
  "files_well w now ts f \<equiv> triple (filed w now ts) f (\<lambda>_. filed w now []) (filed w now [])"

lemma filed_view: "file_view p' = file_view p \<Longrightarrow> filed w now ts p' = filed w now ts p"
  by (simp add: file_view_def filed_def session_typed_def on_file_def)

lemma filed_less: "filed w now ts p \<Longrightarrow> filed w now [] p"
  by (simp add: filed_def)

lemma still_filed: "still file_view f \<Longrightarrow> triple (filed w now ts) f (\<lambda>_. filed w now ts) (filed w now ts)"
  by (rule tripleI) (auto dest!: stillD filed_view)

lemma files_bind:
  assumes "still file_view f" and "\<And>x. files_well w now ts (g x)"
  shows "files_well w now ts (bind_act f g)"
  by (rule triple_bind [where R = "\<lambda>_. filed w now ts"], rule triple_conseq [OF still_filed [OF assms(1), where ts = ts and w = w and now = now]])
    (use assms(2) in \<open>simp_all add: filed_less\<close>)

lemma files_still: "still file_view f \<Longrightarrow> files_well w now ts f"
  by (erule triple_conseq [OF still_filed [where ts = ts and w = w and now = now]]) (simp_all add: filed_less)

lemma files_of_res: "(\<And>x. r = Inr x \<Longrightarrow> files_well w now ts (g x)) \<Longrightarrow> files_well w now ts (bind_act (of_res r) g)"
  by (cases r) (auto simp: triple_def bind_act_def of_res_def dest: filed_less)

lemma files_attempt:
  assumes "still file_view m" and "\<And>e. files_well w now ts (h e)"
    and "\<And>x. (\<exists>p p'. m p = (Inr x, p')) \<Longrightarrow> files_well w now ts (k x)"
  shows "files_well w now ts (attempt m h k)"
proof -
  have "case attempt m h k p of (Inl _, p') \<Rightarrow> filed w now [] p' | (Inr _, p') \<Rightarrow> filed w now [] p'"
    if p: "filed w now ts p" for p
  proof -
    obtain r q where m: "m p = (r, q)" by (cases "m p")
    have q: "filed w now ts q" using p by (simp only: filed_view [OF stillD [OF assms(1) m]])
    show ?thesis
    proof (cases r)
      case (Inl e)
      then show ?thesis using m q assms(2) [of e] by (simp add: attempt_def triple_def)
    next
      case (Inr y)
      then have "files_well w now ts (k y)" using m by (intro assms(3)) blast
      then show ?thesis using m q Inr by (simp add: attempt_def triple_def)
    qed
  qed
  then show ?thesis by (simp add: triple_def)
qed

section \<open>Steps that file\<close>

lemma file_sized:
  assumes "sized_typed z" and "szp_proposal z = t"
  shows "files_well w now [t] (change (\<lambda>p. p\<lparr>pp_sized := pp_sized p @ [z]\<rparr>))"
  by (rule triple_change) (use assms in \<open>auto simp: filed_def session_typed_def on_file_def\<close>)

lemma size_one_files:
  assumes "proposal_typed t" and "plan_typed stop"
  shows "files_well w now [t] (size_one w now s t stop q)"
proof -
  have keep: "files_well w now [t] (bind_act (on_result f) (\<lambda>_. bind_act (note_prov did g) (\<lambda>_.
      change (\<lambda>p. p\<lparr>pp_sized := pp_sized p @ [z]\<rparr>))))"
    if "\<exists>p p'. on_part pp_sizing (\<lambda>x p. p\<lparr>pp_sizing := x\<rparr>) (size_order t stop q ctx c) p = (Inr z, p')" for f did g z ctx c
    using that size_order_typed [OF _ assms]
    by (intro files_bind file_sized still_rules) (fastforce simp: on_part_def split: prod.splits)+
  show ?thesis
    unfolding size_one_def case_prod_beta
    by (intro files_bind files_attempt keep triple_if files_still still_rules)
qed

lemma plan_one_files:
  assumes "proposal_typed t"
  shows "files_well w now [t] (plan_one w now s t)"
  unfolding plan_one_def
  by (intro files_bind files_attempt size_one_files assms triple_if still_rules) (auto intro: planned_typed files_still still_rules)


lemma on_file_put:
  "on_file w now t p \<Longrightarrow> on_file w now t (p\<lparr>pp_captured := dput (pp_captured p) i c\<rparr>)"
  "on_file w now t p \<Longrightarrow> on_file w now t (p\<lparr>pp_theses := dput (pp_theses p) did x\<rparr>)"
  by (auto simp: on_file_def dhas_def dict_simps)

lemma in_set_dput: "x \<in> set (dput d k v) \<Longrightarrow> x = (k, v) \<or> x \<in> set d"
  by (induction d) (auto split: if_splits)

text \<open>A proposal is put on file in two steps, with a reading of the clock between them.\<close>

lemma capture_files:
  assumes "triple (\<lambda>p. filed w now [] p \<and> dhas (pp_captured p) (tp_id t)) f (\<lambda>_. filed w now []) (filed w now [])"
  shows "files_well w now [] (bind_act (change (\<lambda>p. p\<lparr>pp_captured := dput (pp_captured p) (tp_id t) (c p)\<rparr>)) (\<lambda>_. f))"
  by (rule triple_bind [OF triple_change assms])
    (auto simp: filed_def session_typed_def dhas_def dict_simps intro: on_file_put)

lemma thesis_files:
  assumes "did = decision_id_of w (tp_symbol t) now" and "thesis_typed did x" and "\<And>y. files_well w now [t] (g y)"
  shows "triple (\<lambda>p. filed w now [] p \<and> dhas (pp_captured p) (tp_id t))
    (bind_act (change (\<lambda>p. p\<lparr>pp_theses := dput (pp_theses p) did x\<rparr>)) g) (\<lambda>_. filed w now []) (filed w now [])"
proof (rule triple_bind [OF triple_change assms(3)])
  fix p assume p: "filed w now [] p \<and> dhas (pp_captured p) (tp_id t)"
  have "thesis_typed k y" if "(k, y) \<in> set (dput (pp_theses p) did x)" for k y
    using that p assms(2) in_set_dput [OF that] by (auto simp: filed_def session_typed_def)
  then show "filed w now [t] (p\<lparr>pp_theses := dput (pp_theses p) did x\<rparr>)"
    using p assms(1) by (auto simp: filed_def session_typed_def on_file_put) (simp add: on_file_def dhas_def dict_simps)
qed


lemma propose_one_files:
  assumes "decision_typed d" and "\<not> sk_veto k"
  shows "files_well w now [] (propose_one w now s d k)"
  unfolding propose_one_def Let_def
proof (rule files_bind, rule files.kept_reads, rule files_of_res, rule files_bind, rule files.kept_reads, rule capture_files)
  fix n t
  assume t: "mk_trade_proposal \<lparr>tp_id = wd_uuid w n, tp_symbol = sr_symbol s, tp_side = BUY, tp_source = FROM_AI,
    tp_decision = d, tp_skeptic = Some k, tp_created = now\<rparr> = Inr t"
  note typed = proposed_typed [OF t assms]
  let ?P = "\<lambda>p. filed w now [] p \<and> dhas (pp_captured p) (tp_id t)"
  let ?did = "decision_id_of w (sr_symbol s) now"
  have ticked: "triple ?P tick (\<lambda>_. ?P) (filed w now [])"
    by (auto simp: triple_def tick_def filed_def session_typed_def on_file_def)
  have built: "triple ?P (bind_act (of_res (build_final_trade_thesis u t ?did sk)) (\<lambda>x.
      bind_act (change (\<lambda>p. p\<lparr>pp_theses := dput (pp_theses p) ?did x\<rparr>)) (\<lambda>_.
      bind_act (note_prov ?did (h x)) (\<lambda>_. plan_one w now s t)))) (\<lambda>_. filed w now []) (filed w now [])" for u sk h
  proof (rule triple_bind [OF triple_of_res [where Q = "\<lambda>x p. ?P p \<and> thesis_typed ?did x"]])
    fix x
    show "triple (\<lambda>p. ?P p \<and> thesis_typed ?did x) (bind_act (change (\<lambda>p. p\<lparr>pp_theses := dput (pp_theses p) ?did x\<rparr>)) (\<lambda>_.
      bind_act (note_prov ?did (h x)) (\<lambda>_. plan_one w now s t))) (\<lambda>_. filed w now []) (filed w now [])"
    proof (cases "thesis_typed ?did x")
      case True
      show ?thesis
        by (rule triple_pre [OF thesis_files [OF _ True]]) (use typed in \<open>auto intro!: files_bind plan_one_files still_rules\<close>)
    qed (simp add: triple_def)
  qed (use typed in \<open>auto intro: built_thesis_typed\<close>)
  show "triple ?P (bind_act tick (\<lambda>m. bind_act (of_res (build_final_trade_thesis (wd_uuid w m) t ?did
        (case wd_skeptic w of None \<Rightarrow> sk_family k | Some x \<Rightarrow> x))) (\<lambda>x.
      bind_act (change (\<lambda>p. p\<lparr>pp_theses := dput (pp_theses p) ?did x\<rparr>)) (\<lambda>_.
      bind_act (note_prov ?did (\<lambda>r. r\<lparr>pv_thesis := Some x\<rparr>)) (\<lambda>_. plan_one w now s t)))))
    (\<lambda>_. filed w now []) (filed w now [])"
    by (rule triple_bind [OF ticked built])
qed

section \<open>The whole session\<close>

lemma act_on_decision_files: "decision_typed d \<Longrightarrow> files_well w now [] (act_on_decision w now s ctx d)"
  unfolding act_on_decision_def consider_buy_def Let_def
  by (intro files_bind files_of_res triple_if propose_one_files files_still still_rules)

lemma decide_one_files: "files_well w now [] (decide_one w now rgm s)"
proof -
  have validated: "decision_typed d" if "\<exists>p p'. of_res (case wd_decide w ctx of Inl e \<Rightarrow> Inl e | Inr raw \<Rightarrow> validate_decision raw) p = (Inr d, p')"
    for ctx d
    using that by (auto simp: of_res_def intro: validated_decision_typed split: sum.splits)
  show ?thesis
    unfolding decide_one_def Let_def
    by (intro files_bind files_attempt act_on_decision_files validated triple_if files_still still_rules)
qed

lemma decide_all_files: "files_well w now [] (decide_all w now symbols scans)"
  unfolding decide_all_def
  by (intro files_bind triple_bind [OF triple_for_each [OF decide_one_files]] files_still still_rules)

text \<open>
  C3. What a session keeps is well typed. Whatever the models, the market data and the broker answered
  and whatever was kept before, after a session, finished or ended by an exception, every candidate
  is a purchase that the skeptic did not veto, made from a decision of the schema, with a stop below its
  entry, a positive size and a confidence between 0 and 1; its thesis is on file under its decision id and
  is well typed, and so is the time at which its signal was captured.
\<close>

theorem sessions_are_typed: "session_typed w now (snd (run_session w now p))"
proof -
  have start: "triple (\<lambda>_. True) start_session (\<lambda>_. filed w now []) (filed w now [])"
    unfolding start_session_def by (rule triple_change) (simp add: filed_def session_typed_def)
  have "triple (\<lambda>_. True) (run_session w now) (\<lambda>_. filed w now []) (filed w now [])"
    unfolding run_session_def case_prod_beta Let_def
    by (rule triple_bind [OF start], rule files_bind, rule still_rules, rule files_bind, rule still_rules,
        rule files_bind, rule still_rules, rule files_bind, rule still_rules, rule triple_bind [OF _ files_still [where ts = "[]"]])
      (intro files_bind triple_if decide_all_files files_still still_rules)+
  then have "filed w now [] p'" if "run_session w now p = (r, p')" for r p'
    using that by (cases r) (auto dest: tripleD)
  then show ?thesis by (metis filed_def surjective_pairing)
qed

end
