(* ===== verification/Research.thy ===== *)
theory Research
  imports MarketData
begin

text \<open>
  \<open>packages/strategy_sdk/validation.py\<close>, \<open>services/quant/backtest.py\<close> and
  \<open>services/alpha_factory/factory.py\<close>: splits and walk-forward windows, the simulated execution and
  the backtest, and the judge that decides how far a new strategy may get. \<open>h\<close> is the number that
  the code reads from the first digits of the SHA-256 hash of a text. Bars are validated bars, so
  that prices are positive. Reasons are tags.
\<close>

section \<open>Splits and windows\<close>

definition MIN_SAMPLE_TRADES :: nat where
  "MIN_SAMPLE_TRADES = 30"

record split3 =
  sl_train :: "int \<times> int"
  sl_validation :: "int \<times> int"
  sl_test :: "int \<times> int"

definition train_val_test_split :: "int \<Rightarrow> real \<Rightarrow> real \<Rightarrow> exn + split3" where
  "train_val_test_split n train_frac val_frac =
     (if n < 10 then Inl ValueError
      else let t_end = py_int (of_int n * train_frac); v_end = py_int (of_int n * (train_frac + val_frac))
        in Inr \<lparr>sl_train = (0, t_end), sl_validation = (t_end, v_end), sl_test = (v_end, n)\<rparr>)"

record wf_window =
  ww_train :: "int \<times> int"
  ww_test :: "int \<times> int"

text \<open>The loop need not end: \<open>None\<close> where it does not.\<close>

partial_function (option) wf_loop :: "int \<Rightarrow> int \<Rightarrow> int \<Rightarrow> int \<Rightarrow> int \<Rightarrow> wf_window list \<Rightarrow> wf_window list option" where
  "wf_loop n train_len test_len embargo start windows =
     (if start + train_len + embargo + test_len \<le> n
      then let t1 = start + train_len; s0 = t1 + embargo
        in wf_loop n train_len test_len embargo (start + test_len)
             (windows @ [\<lparr>ww_train = (start, t1), ww_test = (s0, s0 + test_len)\<rparr>])
      else Some windows)"

definition walk_forward_windows :: "int \<Rightarrow> int \<Rightarrow> int \<Rightarrow> int \<Rightarrow> (exn + wf_window list) option" where
  "walk_forward_windows n train_len test_len embargo =
     (case wf_loop n train_len test_len embargo 0 [] of None \<Rightarrow> None
      | Some windows \<Rightarrow> Some (if windows = [] then Inl ValueError else Inr windows))"

section \<open>Tests against luck\<close>

definition best_param :: "(real, real) dict \<Rightarrow> real" where
  "best_param d = foldl (\<lambda>m k. if dget_or d m 0 < dget_or d k 0 then k else m) (hd (dkeys d)) (tl (dkeys d))"

definition parameter_sensitivity :: "(real, real) dict \<Rightarrow> real \<Rightarrow> exn + bool" where
  "parameter_sensitivity returns_by_param tolerance =
     (if length returns_by_param < 3 then Inl ValueError
      else let p = best_param returns_by_param; best = dget_or returns_by_param p 0
        in if best \<le> 0 then Inr False
           else let params = sort (dkeys returns_by_param);
                    idx = length (takeWhile (\<lambda>q. q \<noteq> p) params);
                    neighbours = (if 0 < idx then [params ! (idx - 1)] else []) @
                      (if idx + 1 < length params then [params ! (idx + 1)] else [])
             in Inr (list_all (\<lambda>q. best * (1 - tolerance) \<le> dget_or returns_by_param q 0) neighbours))"

definition hash_float :: "(string \<Rightarrow> int) \<Rightarrow> string \<Rightarrow> nat \<Rightarrow> real" where
  "hash_float h seed i = of_int (h (seed @ '':'' @ str_int (int i))) / 4294967295"

definition shuffled_total :: "(string \<Rightarrow> int) \<Rightarrow> string \<Rightarrow> real list \<Rightarrow> nat \<Rightarrow> real" where
  "shuffled_total h seed trade_returns s =
     foldl (\<lambda>total (i, r).
       let sign = (if hash_float h (seed @ '':'' @ str_int (int s)) i < 1/2 then 1 else -1)
       in total + \<bar>r\<bar> * sign) 0 (zip [0..<length trade_returns] trade_returns)"

definition monte_carlo_p_value :: "(string \<Rightarrow> int) \<Rightarrow> real list \<Rightarrow> nat \<Rightarrow> string \<Rightarrow> exn + real" where
  "monte_carlo_p_value h trade_returns n_shuffles seed =
     (if length trade_returns < MIN_SAMPLE_TRADES then Inr 1
      else if n_shuffles = 0 then Inl ZeroDivisionError
      else let actual = sum_list trade_returns;
               beat = length (filter (\<lambda>s. actual \<le> shuffled_total h seed trade_returns s) [0..<n_shuffles])
        in Inr (real beat / real n_shuffles))"

definition bonferroni_threshold :: "real \<Rightarrow> int \<Rightarrow> exn + real" where
  "bonferroni_threshold alpha n_hypotheses =
     (if n_hypotheses < 1 then Inl ValueError else Inr (alpha / of_int n_hypotheses))"

section \<open>Simulated execution\<close>

record sim_fill =
  sf_symbol :: string
  sf_side :: action
  sf_qty :: real
  sf_price :: real
  sf_fees :: real
  sf_ts :: instant
  sf_partial :: bool

record simulator =
  sm_spread_bps :: real
  sm_slippage_bps :: real
  sm_fee_bps :: real
  sm_participation :: real
  sm_halted :: "string set"

definition default_simulator :: simulator where
  "default_simulator = \<lparr>sm_spread_bps = 5, sm_slippage_bps = 2, sm_fee_bps = 1, sm_participation = 1/100,
     sm_halted = {}\<rparr>"

definition simulate_fill :: "simulator \<Rightarrow> string \<Rightarrow> action \<Rightarrow> real \<Rightarrow> real bar \<Rightarrow> sim_fill option" where
  "simulate_fill sim symbol side qty next_bar =
     (if symbol \<in> sm_halted sim then None
      else let max_qty = of_int (bar_volume next_bar) * sm_participation sim; fill_qty = min qty max_qty
        in if fill_qty \<le> 0 then None
           else let half_spread = bar_open next_bar * sm_spread_bps sim / 20000;
                    slip = bar_open next_bar * sm_slippage_bps sim / 10000;
                    px = (if side = BUY then bar_open next_bar + half_spread + slip
                          else max (1/100) (bar_open next_bar - half_spread - slip));
                    fees = fill_qty * px * sm_fee_bps sim / 10000
             in Some \<lparr>sf_symbol = symbol, sf_side = side, sf_qty = fill_qty, sf_price = py_round 6 px,
                      sf_fees = py_round 6 fees, sf_ts = bar_ts next_bar, sf_partial = (fill_qty < qty)\<rparr>)"

section \<open>The backtest\<close>

record backtest_result =
  bk_trades :: nat
  bk_wins :: nat
  bk_total :: real
  bk_ideal :: real
  bk_drawdown :: real
  bk_curve :: "real list"
  bk_fees :: real

definition win_rate :: "backtest_result \<Rightarrow> real" where
  "win_rate r = (if bk_trades r = 0 then 0 else real (bk_wins r) / real (bk_trades r))"

definition execution_drag :: "backtest_result \<Rightarrow> real" where
  "execution_drag r = bk_ideal r - bk_total r"

text \<open>The variables of the loop.\<close>

record backtest =
  bt_cash :: real
  bt_ideal_cash :: real
  bt_qty :: real
  bt_ideal_qty :: real
  bt_entry :: real
  bt_peak :: real
  bt_result :: backtest_result

definition new_backtest :: "real \<Rightarrow> backtest" where
  "new_backtest c = \<lparr>bt_cash = c, bt_ideal_cash = c, bt_qty = 0, bt_ideal_qty = 0, bt_entry = 0, bt_peak = c,
     bt_result = \<lparr>bk_trades = 0, bk_wins = 0, bk_total = 0, bk_ideal = 0, bk_drawdown = 0, bk_curve = [], bk_fees = 0\<rparr>\<rparr>"

definition try_exit :: "simulator \<Rightarrow> real \<Rightarrow> real \<Rightarrow> string \<Rightarrow> real bar \<Rightarrow> backtest \<Rightarrow> backtest" where
  "try_exit sim stop_pct target_pct symbol nxt t =
     (let hit_stop = (bar_low nxt \<le> bt_entry t * (1 - stop_pct));
          hit_target = (bt_entry t * (1 + target_pct) \<le> bar_high nxt)
      in if hit_stop \<or> hit_target then
           (case simulate_fill sim symbol SELL (bt_qty t) nxt of
              None \<Rightarrow> t
            | Some f \<Rightarrow>
                let exit_px = (if hit_stop then bt_entry t * (1 - stop_pct) else bt_entry t * (1 + target_pct));
                    px = (if hit_stop then min (sf_price f) exit_px else exit_px);
                    r = bt_result t
                in t\<lparr>bt_cash := bt_cash t + (bt_qty t * px - sf_fees f),
                     bt_result := r\<lparr>bk_fees := bk_fees r + sf_fees f, bk_trades := bk_trades r + 1,
                       bk_wins := (if bt_entry t < px then bk_wins r + 1 else bk_wins r)\<rparr>,
                     bt_qty := 0, bt_ideal_cash := bt_ideal_cash t + bt_ideal_qty t * exit_px, bt_ideal_qty := 0\<rparr>)
         else t)"

definition try_entry :: "simulator \<Rightarrow> string \<Rightarrow> real bar \<Rightarrow> backtest \<Rightarrow> backtest" where
  "try_entry sim symbol nxt t =
     (case simulate_fill sim symbol BUY (bt_cash t * (95/100) / bar_open nxt) nxt of
        None \<Rightarrow> t
      | Some f \<Rightarrow>
          if sf_qty f * sf_price f + sf_fees f \<le> bt_cash t then
            let r = bt_result t; ideal_qty = bt_ideal_cash t * (95/100) / bar_open nxt
            in t\<lparr>bt_cash := bt_cash t - (sf_qty f * sf_price f + sf_fees f),
                 bt_result := r\<lparr>bk_fees := bk_fees r + sf_fees f\<rparr>,
                 bt_qty := sf_qty f, bt_entry := sf_price f, bt_ideal_qty := ideal_qty,
                 bt_ideal_cash := bt_ideal_cash t - ideal_qty * bar_open nxt\<rparr>
          else t)"

definition mark_equity :: "real bar \<Rightarrow> backtest \<Rightarrow> exn + backtest" where
  "mark_equity nxt t =
     (let equity = bt_cash t + bt_qty t * bar_close nxt; r = bt_result t; peak = max (bt_peak t) equity
      in if peak = 0 then Inl ZeroDivisionError
         else Inr (t\<lparr>bt_peak := peak,
           bt_result := r\<lparr>bk_curve := bk_curve r @ [equity],
             bk_drawdown := max (bk_drawdown r) (1 - equity / peak)\<rparr>\<rparr>))"

definition backtest_step ::
    "simulator \<Rightarrow> real \<Rightarrow> real \<Rightarrow> real bar \<Rightarrow> real bar \<Rightarrow> bool \<Rightarrow> backtest \<Rightarrow> exn + backtest" where
  "backtest_step sim stop_pct target_pct b nxt sig t =
     mark_equity nxt
       (if 0 < bt_qty t then try_exit sim stop_pct target_pct (bar_symbol b) nxt t
        else if sig then try_entry sim (bar_symbol b) nxt t else t)"

fun backtest_loop ::
    "simulator \<Rightarrow> real \<Rightarrow> real \<Rightarrow> real bar list \<Rightarrow> bool list \<Rightarrow> backtest \<Rightarrow> exn + backtest" where
  "backtest_loop sim stop_pct target_pct (b # nxt # bs) (x # xs) t =
     (case backtest_step sim stop_pct target_pct b nxt x t of
        Inl e \<Rightarrow> Inl e | Inr t' \<Rightarrow> backtest_loop sim stop_pct target_pct (nxt # bs) xs t')"
| "backtest_loop sim stop_pct target_pct _ _ t = Inr t"

definition run_backtest ::
    "simulator \<Rightarrow> real \<Rightarrow> real \<Rightarrow> real \<Rightarrow> real bar list \<Rightarrow> bool list \<Rightarrow> exn + backtest_result" where
  "run_backtest sim initial_cash stop_pct target_pct bars entry_signal =
     (if length entry_signal \<noteq> length bars then Inl ValueError
      else case backtest_loop sim stop_pct target_pct bars entry_signal (new_backtest initial_cash) of
        Inl e \<Rightarrow> Inl e
      | Inr t \<Rightarrow>
          let r = bt_result t; final = (if bk_curve r = [] then initial_cash else last (bk_curve r))
          in if bars = [] then Inl IndexError
             else let ideal_final = bt_ideal_cash t + bt_ideal_qty t * bar_close (last bars)
               in if initial_cash = 0 then Inl ZeroDivisionError
                  else Inr (r\<lparr>bk_total := final / initial_cash - 1, bk_ideal := ideal_final / initial_cash - 1\<rparr>))"

section \<open>Strategies and their judge\<close>

datatype alpha_stage = A_RESEARCH | A_BACKTEST | A_WALK_FORWARD | A_SHADOW | A_PROMOTED | A_REJECTED

datatype judge_recommendation = PROMOTE_RECOMMENDED | TO_SHADOW | RESEARCH_MORE | TO_DORMANT | TO_REJECT

record alpha =
  al_name :: string
  al_version :: string
  al_signal :: "real bar list \<Rightarrow> bool list"

definition return_since :: "nat \<Rightarrow> real bar list \<Rightarrow> nat \<Rightarrow> real" where
  "return_since lookback bars i = bar_close (bars ! i) / bar_close (bars ! (i - lookback)) - 1"

definition momentum_alpha :: "nat \<Rightarrow> real \<Rightarrow> alpha" where
  "momentum_alpha lookback threshold = \<lparr>al_name = ''momentum'', al_version = ''1.0.0'',
     al_signal = (\<lambda>bars. map (\<lambda>i. lookback \<le> i \<and> threshold < return_since lookback bars i) [0..<length bars])\<rparr>"

definition mean_reversion_alpha :: "nat \<Rightarrow> real \<Rightarrow> alpha" where
  "mean_reversion_alpha lookback fall = \<lparr>al_name = ''mean_reversion'', al_version = ''1.0.0'',
     al_signal = (\<lambda>bars. map (\<lambda>i. lookback \<le> i \<and> return_since lookback bars i < - fall) [0..<length bars])\<rparr>"

datatype judge_reason = InsufficientSample | NegativeReturn | NegativeOutOfSample | LikelyLuck | PassedAllGates

record judge_verdict =
  jv_alpha :: string
  jv_stage :: alpha_stage
  jv_reasons :: "judge_reason list"
  jv_backtest :: "backtest_result option"
  jv_oos :: real
  jv_p :: real
  jv_rec :: judge_recommendation

record alpha_judge =
  aj_max_p :: real
  aj_min_trades :: nat

definition default_judge :: alpha_judge where
  "default_judge = \<lparr>aj_max_p = 20/100, aj_min_trades = MIN_SAMPLE_TRADES\<rparr>"

definition part_of :: "int \<times> int \<Rightarrow> 'a list \<Rightarrow> 'a list" where
  "part_of w xs = take (nat (snd w - fst w)) (drop (nat (fst w)) xs)"

fun oos_returns :: "wf_window list \<Rightarrow> real bar list \<Rightarrow> bool list \<Rightarrow> exn + real list" where
  "oos_returns [] bars signal = Inr []"
| "oos_returns (w # ws) bars signal =
     (case run_backtest default_simulator 10000 (5/100) (10/100) (part_of (ww_test w) bars) (part_of (ww_test w) signal) of
        Inl e \<Rightarrow> Inl e
      | Inr r \<Rightarrow> (case oos_returns ws bars signal of Inl e \<Rightarrow> Inl e | Inr xs \<Rightarrow> Inr (bk_total r # xs)))"

definition per_trade :: "real list \<Rightarrow> real list" where
  "per_trade curve = filter (\<lambda>d. eps < \<bar>d\<bar>) (map (\<lambda>(r1, r2). r2 - r1) (zip (butlast curve) (tl curve)))"

definition judge_alpha :: "(string \<Rightarrow> int) \<Rightarrow> alpha_judge \<Rightarrow> alpha \<Rightarrow> real bar list \<Rightarrow> (exn + judge_verdict) option" where
  "judge_alpha h c a bars =
     (let signal = al_signal a bars;
          v = \<lparr>jv_alpha = al_name a, jv_stage = A_BACKTEST, jv_reasons = [], jv_backtest = None, jv_oos = 0,
               jv_p = 1, jv_rec = RESEARCH_MORE\<rparr>
      in case run_backtest default_simulator 10000 (5/100) (10/100) bars signal of
        Inl e \<Rightarrow> Some (Inl e)
      | Inr bt \<Rightarrow>
          let v = v\<lparr>jv_backtest := Some bt\<rparr> in
          if bk_trades bt < aj_min_trades c
          then Some (Inr (v\<lparr>jv_stage := A_REJECTED, jv_rec := RESEARCH_MORE, jv_reasons := [InsufficientSample]\<rparr>))
          else if bk_total bt \<le> 0
          then Some (Inr (v\<lparr>jv_stage := A_REJECTED, jv_rec := TO_REJECT, jv_reasons := [NegativeReturn]\<rparr>))
          else case walk_forward_windows (int (length bars)) (int (length bars) div 3) (int (length bars) div 6) 2 of
            None \<Rightarrow> None
          | Some (Inl e) \<Rightarrow> Some (Inl e)
          | Some (Inr windows) \<Rightarrow>
              (case oos_returns windows bars signal of
                 Inl e \<Rightarrow> Some (Inl e)
               | Inr xs \<Rightarrow>
                   let v = v\<lparr>jv_stage := A_WALK_FORWARD, jv_oos := sum_list xs / real (length xs)\<rparr> in
                   if jv_oos v \<le> 0
                   then Some (Inr (v\<lparr>jv_stage := A_REJECTED, jv_rec := TO_REJECT, jv_reasons := [NegativeOutOfSample]\<rparr>))
                   else case monte_carlo_p_value h (per_trade (bk_curve bt)) 500 ''mc'' of
                     Inl e \<Rightarrow> Some (Inl e)
                   | Inr p \<Rightarrow>
                       let v = v\<lparr>jv_p := p\<rparr> in
                       Some (Inr (if aj_max_p c < p
                         then v\<lparr>jv_stage := A_REJECTED, jv_rec := TO_DORMANT, jv_reasons := [LikelyLuck]\<rparr>
                         else v\<lparr>jv_stage := A_SHADOW, jv_rec := PROMOTE_RECOMMENDED, jv_reasons := [PassedAllGates]\<rparr>))))"

section \<open>Champion and challenger\<close>

datatype contest_reason = TooFewSessions | FirstChampion | NoPositiveRecord | BeatsChampion | DoesNotBeat

record contest =
  cc_champion :: "string option"
  cc_shadow :: "(string, real list) dict"
  cc_min_sessions :: nat

definition record_shadow :: "string \<Rightarrow> real \<Rightarrow> contest \<Rightarrow> contest" where
  "record_shadow a r c = c\<lparr>cc_shadow := dput (cc_shadow c) a (dget_or (cc_shadow c) a [] @ [r])\<rparr>"

definition consider_promotion :: "string \<Rightarrow> (contest, bool \<times> contest_reason) act" where
  "consider_promotion challenger c =
     (let runs = dget_or (cc_shadow c) challenger [] in
      if length runs < cc_min_sessions c then (Inr (False, TooFewSessions), c)
      else if runs = [] then (Inl ZeroDivisionError, c)
      else let challenger_mean = mean runs in
        case cc_champion c of
          None \<Rightarrow>
            if 0 < challenger_mean then (Inr (True, FirstChampion), c\<lparr>cc_champion := Some challenger\<rparr>)
            else (Inr (False, NoPositiveRecord), c)
        | Some old \<Rightarrow>
            let champ_runs = dget_or (cc_shadow c) old [];
                champ_mean = (if champ_runs = [] then 0 else mean champ_runs)
            in if champ_mean < challenger_mean then (Inr (True, BeatsChampion), c\<lparr>cc_champion := Some challenger\<rparr>)
               else (Inr (False, DoesNotBeat), c))"

section \<open>The backtest looks at nothing that is still to come\<close>

lemma trade_keeps:
  "bk_curve (bt_result (try_exit sim sp tp sy nxt t)) = bk_curve (bt_result t)"
  "bt_peak (try_exit sim sp tp sy nxt t) = bt_peak t"
  "bk_trades (bt_result (try_exit sim sp tp sy nxt t)) \<le> bk_trades (bt_result t) + 1"
  "bk_curve (bt_result (try_entry sim sy nxt t)) = bk_curve (bt_result t)"
  "bt_peak (try_entry sim sy nxt t) = bt_peak t"
  "bk_trades (bt_result (try_entry sim sy nxt t)) = bk_trades (bt_result t)"
  by (simp_all add: try_exit_def try_entry_def Let_def split: option.split)

lemma mark_equity_keeps:
  assumes "mark_equity nxt t = Inr t'"
  shows "\<exists>y. bk_curve (bt_result t') = bk_curve (bt_result t) @ [y]" and "bt_peak t \<le> bt_peak t'"
    and "bk_trades (bt_result t') = bk_trades (bt_result t)"
  using assms by (auto simp: mark_equity_def Let_def split: if_splits)

lemma mark_equity_total: "0 < bt_peak t \<Longrightarrow> \<exists>t'. mark_equity nxt t = Inr t'"
  by (auto simp: mark_equity_def Let_def max_def)

lemma backtest_step_curve:
  assumes "backtest_step sim sp tp b nxt x t = Inr t'"
  shows "\<exists>y. bk_curve (bt_result t') = bk_curve (bt_result t) @ [y]" and "bt_peak t \<le> bt_peak t'"
    and "bk_trades (bt_result t') \<le> bk_trades (bt_result t) + 1"
  using mark_equity_keeps [OF assms [unfolded backtest_step_def]] trade_keeps
  by (simp_all split: if_splits)

lemma backtest_loop_curve:
  assumes "backtest_loop sim sp tp bars xs t = Inr t'" and "length xs = length bars"
  shows "\<exists>ys. bk_curve (bt_result t') = bk_curve (bt_result t) @ ys \<and> length ys = length bars - 1"
    and "bk_trades (bt_result t') \<le> bk_trades (bt_result t) + (length bars - 1)"
  using assms
proof (induction sim sp tp bars xs t rule: backtest_loop.induct)
  case (1 sim sp tp b nxt bs x xs t)
  {
    case 1
    with 1 obtain u where u: "backtest_step sim sp tp b nxt x t = Inr u"
      "backtest_loop sim sp tp (nxt # bs) xs u = Inr t'" by (auto split: sum.splits)
    from "1.IH"(1) [OF u] 1(2) backtest_step_curve(1) [OF u(1)] show ?case by auto
  next
    case 2
    with 1 obtain u where u: "backtest_step sim sp tp b nxt x t = Inr u"
      "backtest_loop sim sp tp (nxt # bs) xs u = Inr t'" by (auto split: sum.splits)
    from "1.IH"(2) [OF u] 2(2) backtest_step_curve(3) [OF u(1)] show ?case by auto
  }
qed auto

lemma backtest_loop_causal:
  assumes "backtest_loop sim sp tp bars xs t = Inr u" and "backtest_loop sim sp tp bars' xs' t = Inr u'"
    and "length xs = length bars" and "length xs' = length bars'"
    and "take (Suc k) bars = take (Suc k) bars'" and "take k xs = take k xs'"
  shows "take (length (bk_curve (bt_result t)) + k) (bk_curve (bt_result u)) =
    take (length (bk_curve (bt_result t)) + k) (bk_curve (bt_result u'))"
  using assms
proof (induction k arbitrary: bars bars' xs xs' t)
  case 0
  then show ?case
    using backtest_loop_curve(1) [OF "0"(1,3)] backtest_loop_curve(1) [OF "0"(2,4)] by auto
next
  case (Suc k)
  show ?case
  proof (cases "length bars \<le> Suc 0 \<or> length bars' \<le> Suc 0")
    case True
    with Suc.prems(5) have "bars = bars'" "length bars \<le> Suc 0"
      by (auto simp: take_Suc_conv_app_nth split: if_splits)
    with Suc.prems show ?thesis by (cases bars) auto
  next
    case False
    then obtain b n bs b' n' bs' where b: "bars = b # n # bs" "bars' = b' # n' # bs'"
      by (metis Suc_le_length_iff le0 list.size(3) not_less_eq_eq)
    with Suc.prems(3,4) obtain x ys x' ys' where x: "xs = x # ys" "xs' = x' # ys'" by (cases xs; cases xs') auto
    from Suc.prems(5,6) b x have eq: "b = b'" "n = n'" "x = x'" "take (Suc k) (n # bs) = take (Suc k) (n' # bs')" "take k ys = take k ys'"
      by simp_all
    from Suc.prems(1,2) b x eq obtain s where s: "backtest_step sim sp tp b n x t = Inr s"
      "backtest_loop sim sp tp (n # bs) ys s = Inr u" "backtest_loop sim sp tp (n' # bs') ys' s = Inr u'"
      by (auto split: sum.splits)
    have "length (bk_curve (bt_result s)) = Suc (length (bk_curve (bt_result t)))"
      using backtest_step_curve(1) [OF s(1)] by auto
    moreover have "length ys = length (n # bs)" "length ys' = length (n' # bs')" using Suc.prems(3,4) b x by simp_all
    ultimately show ?thesis using Suc.IH [OF s(2,3) _ _ eq(4,5)] by simp
  qed
qed

lemma run_backtest_curve:
  assumes "run_backtest sim c sp tp bars xs = Inr r"
  shows "\<exists>t. backtest_loop sim sp tp bars xs (new_backtest c) = Inr t \<and> bk_curve r = bk_curve (bt_result t) \<and>
    bk_trades r = bk_trades (bt_result t) \<and> length xs = length bars"
  using assms by (auto simp: run_backtest_def Let_def split: if_splits sum.splits)

lemma backtest_loop_total:
  "0 < bt_peak t \<Longrightarrow> \<exists>u. backtest_loop sim sp tp bars xs t = Inr u"
proof (induction sim sp tp bars xs t rule: backtest_loop.induct)
  case (1 sim sp tp b nxt bs x xs t)
  have "\<exists>s. backtest_step sim sp tp b nxt x t = Inr s"
    unfolding backtest_step_def by (rule mark_equity_total) (simp add: 1(2) trade_keeps)
  then obtain s where s: "backtest_step sim sp tp b nxt x t = Inr s" by blast
  with 1 backtest_step_curve(2) [OF s] show ?case by fastforce
qed auto

lemma run_backtest_total:
  assumes "0 < c" and "length xs = length bars" and "bars \<noteq> []"
  shows "\<exists>r. run_backtest sim c sp tp bars xs = Inr r"
proof -
  have "0 < bt_peak (new_backtest c)" using assms(1) by (simp add: new_backtest_def)
  from backtest_loop_total [OF this] obtain u where "backtest_loop sim sp tp bars xs (new_backtest c) = Inr u" by blast
  with assms show ?thesis by (simp add: run_backtest_def Let_def)
qed

text \<open>
  C13. The backtest uses no information from the future: two runs over histories that agree up to
  bar \<open>k\<close>, with signals that agree on the \<open>k\<close> bars before, have the same equity on the first \<open>k\<close>
  points, whatever follows.
\<close>

theorem backtest_sees_no_future:
  assumes "run_backtest sim c sp tp bars xs = Inr r" and "run_backtest sim c sp tp bars' xs' = Inr r'"
    and "take (Suc k) bars = take (Suc k) bars'" and "take k xs = take k xs'"
  shows "take k (bk_curve r) = take k (bk_curve r') \<and> length (bk_curve r) = length bars - 1"
proof -
  obtain t where t: "backtest_loop sim sp tp bars xs (new_backtest c) = Inr t" "bk_curve r = bk_curve (bt_result t)"
    "length xs = length bars" using run_backtest_curve [OF assms(1)] by blast
  obtain t' where t': "backtest_loop sim sp tp bars' xs' (new_backtest c) = Inr t'" "bk_curve r' = bk_curve (bt_result t')"
    "length xs' = length bars'" using run_backtest_curve [OF assms(2)] by blast
  have "bk_curve (bt_result (new_backtest c)) = []" by (simp add: new_backtest_def)
  with backtest_loop_causal [OF t(1) t'(1) t(3) t'(3) assms(3,4)] backtest_loop_curve(1) [OF t(1,3)] t(2) t'(2)
  show ?thesis by auto
qed

definition research_bar :: "real \<Rightarrow> real bar" where
  "research_bar p = \<lparr>bar_symbol = ''ABC'', bar_ts = 0, bar_open = p, bar_high = p, bar_low = p, bar_close = p,
     bar_volume = 1000000, bar_vwap = None, bar_source = ''demo'', bar_version = ''1''\<rparr>"

lemma backtest_sees_no_future_witness:
  "\<exists>r r'. run_backtest default_simulator 10000 (5/100) (10/100) (map research_bar [100, 100, 120, 90]) [True, True, True, True] = Inr r \<and>
    run_backtest default_simulator 10000 (5/100) (10/100) (map research_bar [100, 100, 120, 150, 160]) [True, True, False, True, True] = Inr r' \<and>
    take 2 (bk_curve r) = take 2 (bk_curve r') \<and> length (bk_curve r) = 3"
proof -
  obtain r where r: "run_backtest default_simulator 10000 (5/100) (10/100) (map research_bar [100, 100, 120, 90]) [True, True, True, True] = Inr r"
    using run_backtest_total [of 10000 "[True, True, True, True]" "map research_bar [100, 100, 120, 90]" default_simulator "5/100" "10/100"] by (auto simp del: One_nat_def)
  obtain r' where r': "run_backtest default_simulator 10000 (5/100) (10/100) (map research_bar [100, 100, 120, 150, 160]) [True, True, False, True, True] = Inr r'"
    using run_backtest_total [of 10000 "[True, True, False, True, True]" "map research_bar [100, 100, 120, 150, 160]" default_simulator "5/100" "10/100"] by (auto simp del: One_nat_def)
  from backtest_sees_no_future [OF r r', of 2] r r' show ?thesis by simp
qed

text \<open>
  A stop or target sells the whole position, also where the simulated fill is partial: the
  participation limit does not hold for exits.
\<close>

lemma partial_exits_sell_everything:
  assumes "simulate_fill sim sy SELL (bt_qty t) nxt = Some f" and "bar_low nxt \<le> bt_entry t * (1 - sp)"
  shows "bt_qty (try_exit sim sp tp sy nxt t) = 0 \<and>
    bt_cash (try_exit sim sp tp sy nxt t) = bt_cash t + bt_qty t * min (sf_price f) (bt_entry t * (1 - sp)) - sf_fees f"
  using assms by (simp add: try_exit_def Let_def)

section \<open>Walk-forward windows do not leak\<close>

definition wf_at :: "int \<Rightarrow> int \<Rightarrow> int \<Rightarrow> int \<Rightarrow> wf_window" where
  "wf_at train_len test_len embargo start =
     \<lparr>ww_train = (start, start + train_len),
      ww_test = (start + train_len + embargo, start + train_len + embargo + test_len)\<rparr>"

lemma wf_loop_all:
  assumes "0 < test_len" and "k = nat ((n - start - train_len - embargo - test_len) div test_len + 1)"
  shows "wf_loop n train_len test_len embargo start ws =
    Some (ws @ map (\<lambda>j. wf_at train_len test_len embargo (start + int j * test_len)) [0..<k])"
  using assms(2)
proof (induction k arbitrary: start ws)
  case 0
  with assms(1) have "\<not> start + train_len + embargo + test_len \<le> n"
    using pos_imp_zdiv_nonneg_iff [OF assms(1), of "n - start - train_len - embargo - test_len"] by auto
  then show ?case by (simp add: wf_loop.simps)
next
  case (Suc k)
  let ?x = "n - start - train_len - embargo - test_len"
  from Suc.prems have d: "0 \<le> ?x div test_len" by linarith
  then have guard: "start + train_len + embargo + test_len \<le> n"
    using pos_imp_zdiv_nonneg_iff [OF assms(1), of ?x] by auto
  have "(?x + - 1 * test_len) div test_len = - 1 + ?x div test_len" using assms(1) by (intro div_mult_self1) simp
  moreover have "n - (start + test_len) - train_len - embargo - test_len = ?x + - 1 * test_len" by simp
  ultimately have "(n - (start + test_len) - train_len - embargo - test_len) div test_len = ?x div test_len - 1" by simp
  with Suc.prems d have "k = nat ((n - (start + test_len) - train_len - embargo - test_len) div test_len + 1)" by simp
  note IH = Suc.IH [OF this]
  have "map (\<lambda>j. wf_at train_len test_len embargo (start + int j * test_len)) [0..<Suc k] =
    wf_at train_len test_len embargo start #
    map (\<lambda>j. wf_at train_len test_len embargo (start + test_len + int j * test_len)) [0..<k]"
    by (simp only: upt_conv_Cons zero_less_Suc map_Suc_upt [symmetric] list.map map_map o_def)
      (simp add: algebra_simps)
  with guard show ?case
    by (simp add: wf_loop.simps [of n train_len test_len embargo start] Let_def IH) (simp add: wf_at_def)
qed

text \<open>With an empty test window the loop of the code does not end.\<close>

lemma empty_test_windows_never_end:
  assumes "start + train_len + embargo \<le> n"
  shows "wf_loop n train_len 0 embargo start ws = None"
proof (rule ccontr)
  assume "wf_loop n train_len 0 embargo start ws \<noteq> None"
  then obtain r where r: "wf_loop n train_len 0 embargo start ws = Some r" by blast
  have "test_len = 0 \<longrightarrow> n < start + train_len + embargo" if "wf_loop n train_len test_len embargo start ws = Some r" for test_len
    by (rule wf_loop.raw_induct [where P = "\<lambda>n train_len test_len embargo start ws r. test_len = 0 \<longrightarrow> n < start + train_len + embargo", OF _ that])
      (fastforce simp: Let_def split: if_splits)
  from this [OF r] assms show False by simp
qed

lemma windows_of:
  assumes "0 < test_len"
  shows "walk_forward_windows n train_len test_len embargo =
    Some (let k = nat ((n - train_len - embargo - test_len) div test_len + 1) in
      if k = 0 then Inl ValueError else Inr (map (\<lambda>j. wf_at train_len test_len embargo (int j * test_len)) [0..<k]))"
  using wf_loop_all [OF assms refl, of n train_len embargo 0 "[]"]
  by (simp add: walk_forward_windows_def Let_def)

lemma wf_ok:
  assumes "0 < test_len" and "0 \<le> train_len" and "0 \<le> embargo"
  shows "\<exists>r. walk_forward_windows n train_len test_len embargo = Some r \<and>
    (case r of
       Inl e \<Rightarrow> e = ValueError \<and> n < train_len + embargo + test_len
     | Inr ws \<Rightarrow> ws \<noteq> [] \<and>
         (\<forall>w \<in> set ws. 0 \<le> fst (ww_train w) \<and> snd (ww_train w) = fst (ww_train w) + train_len \<and>
            fst (ww_test w) = snd (ww_train w) + embargo \<and> snd (ww_test w) = fst (ww_test w) + test_len \<and>
            snd (ww_test w) \<le> n) \<and>
         (\<forall>i. Suc i < length ws \<longrightarrow> fst (ww_test (ws ! Suc i)) = snd (ww_test (ws ! i))) \<and>
         n < snd (ww_test (last ws)) + test_len)"
proof -
  let ?x = "n - train_len - embargo - test_len"
  let ?k = "nat (?x div test_len + 1)"
  let ?ws = "map (\<lambda>j. wf_at train_len test_len embargo (int j * test_len)) [0..<?k]"
  have mod: "?x = ?x div test_len * test_len + ?x mod test_len" "0 \<le> ?x mod test_len" "?x mod test_len < test_len"
    using assms(1) by (simp_all only: div_mult_mod_eq pos_mod_sign pos_mod_bound)
  show ?thesis
  proof (cases "?k = 0")
    case True
    then have "?x div test_len < 0" by linarith
    then have "?x < 0" using assms(1) pos_imp_zdiv_neg_iff by blast
    with True windows_of [OF assms(1)] show ?thesis by (simp add: Let_def)
  next
    case False
    have in_range: "snd (ww_test (wf_at train_len test_len embargo (int j * test_len))) \<le> n" if "j < ?k" for j
    proof -
      from that have "int j \<le> ?x div test_len" by linarith
      then have "int j * test_len \<le> ?x div test_len * test_len" using assms(1) by (intro mult_right_mono) auto
      with mod show ?thesis unfolding wf_at_def wf_window.simps snd_conv by linarith
    qed
    have last: "last ?ws = wf_at train_len test_len embargo (?x div test_len * test_len)"
    proof -
      have "int (?k - 1) = ?x div test_len" using False by linarith
      with False show ?thesis by (simp add: last_map)
    qed
    have full: "n < snd (ww_test (last ?ws)) + test_len"
      unfolding last unfolding wf_at_def wf_window.simps snd_conv using mod by linarith
    have adjacent: "\<forall>i. Suc i < length ?ws \<longrightarrow> fst (ww_test (?ws ! Suc i)) = snd (ww_test (?ws ! i))"
      by (simp add: wf_at_def algebra_simps)
    have each: "\<forall>w \<in> set ?ws. 0 \<le> fst (ww_train w) \<and> snd (ww_train w) = fst (ww_train w) + train_len \<and>
            fst (ww_test w) = snd (ww_train w) + embargo \<and> snd (ww_test w) = fst (ww_test w) + test_len \<and>
            snd (ww_test w) \<le> n"
      using in_range assms by (auto simp: wf_at_def)
    have returns: "walk_forward_windows n train_len test_len embargo = Some (Inr ?ws)" "?ws \<noteq> []"
      using False by (simp_all add: windows_of [OF assms(1)] Let_def)
    show ?thesis
      by (rule exI [of _ "Inr ?ws"]) (unfold sum.case, intro conjI returns each adjacent full)
  qed
qed

text \<open>
  With a non-empty test window the splitting returns. It raises exactly when the series is too
  short; otherwise the windows lie in the series, training ends before the test by the embargo, no
  two tests overlap and none is left out: each test starts where the one before ends, and one
  more would not fit.
\<close>

theorem windows_never_leak:
  assumes "0 < test_len" and "0 \<le> train_len" and "0 \<le> embargo"
  shows "\<exists>r. walk_forward_windows n train_len test_len embargo = Some r \<and>
    (case r of
       Inl e \<Rightarrow> e = ValueError \<and> n < train_len + embargo + test_len
     | Inr ws \<Rightarrow> ws \<noteq> [] \<and>
         (\<forall>w \<in> set ws. 0 \<le> fst (ww_train w) \<and> snd (ww_train w) = fst (ww_train w) + train_len \<and>
            fst (ww_test w) = snd (ww_train w) + embargo \<and> snd (ww_test w) = fst (ww_test w) + test_len \<and>
            snd (ww_test w) \<le> n) \<and>
         (\<forall>i. Suc i < length ws \<longrightarrow> fst (ww_test (ws ! Suc i)) = snd (ww_test (ws ! i))) \<and>
         n < snd (ww_test (last ws)) + test_len)"
  using wf_ok [OF assms] .

lemma windows_never_leak_witness:
  "\<exists>ws. walk_forward_windows 60 20 10 2 = Some (Inr ws) \<and> length ws = 3 \<and> 60 < snd (ww_test (last ws)) + 10 \<and>
    walk_forward_windows 31 20 10 2 = Some (Inl ValueError)"
proof -
  let ?ws = "map (\<lambda>j. wf_at 20 10 2 (int j * 10)) [0..<3]"
  have w: "walk_forward_windows 60 20 10 2 = Some (Inr ?ws)" "walk_forward_windows 31 20 10 2 = Some (Inl ValueError)"
    by (simp_all add: windows_of Let_def)
  with windows_never_leak [of 10 20 2 60] show ?thesis by (intro exI [of _ ?ws]) simp
qed

section \<open>The judge\<close>

lemma oos_returns_total:
  assumes "length signal = length bars"
    and "\<And>w. w \<in> set ws \<Longrightarrow> 0 \<le> fst (ww_test w) \<and> fst (ww_test w) < snd (ww_test w) \<and> snd (ww_test w) \<le> int (length bars)"
  shows "\<exists>xs. oos_returns ws bars signal = Inr xs \<and> length xs = length ws"
  using assms(2)
proof (induction ws)
  case (Cons w ws)
  have w: "0 \<le> fst (ww_test w)" "fst (ww_test w) < snd (ww_test w)" "snd (ww_test w) \<le> int (length bars)"
    using Cons.prems by simp_all
  then have "length (part_of (ww_test w) signal) = length (part_of (ww_test w) bars)" "part_of (ww_test w) bars \<noteq> []"
    using assms(1) by (auto simp: part_of_def)
  with run_backtest_total [of 10000 "part_of (ww_test w) signal" "part_of (ww_test w) bars"] obtain r where
    "run_backtest default_simulator 10000 (5/100) (10/100) (part_of (ww_test w) bars) (part_of (ww_test w) signal) = Inr r"
    by (metis zero_less_numeral)
  with Cons show ?case by fastforce
qed simp

lemma monte_carlo_range:
  "\<exists>p. monte_carlo_p_value h rs 500 seed = Inr p \<and> 0 \<le> p \<and> p \<le> 1"
proof -
  define beat where "beat = length (filter (\<lambda>s. sum_list rs \<le> shuffled_total h seed rs s) [0..<500])"
  have "beat \<le> 500" using length_filter_le [of _ "[0..<500]"] by (simp add: beat_def)
  moreover have "monte_carlo_p_value h rs 500 seed =
      Inr (if length rs < MIN_SAMPLE_TRADES then 1 else real beat / 500)"
    by (simp add: monte_carlo_p_value_def Let_def beat_def)
  ultimately show ?thesis by simp
qed

text \<open>
  The judge always comes to a verdict. It never promotes; its strongest recommendation is
  given exactly when all four gates are passed: enough trades, a profit after costs, a positive
  mean return over the walk-forward tests, and a luck test within its threshold. Otherwise the
  strategy is rejected.
\<close>

theorem judge_needs_every_gate:
  assumes "6 \<le> aj_min_trades c" and "length (al_signal a bars) = length bars" and "bars \<noteq> []"
  shows "\<exists>v bt. judge_alpha h c a bars = Some (Inr v) \<and>
    run_backtest default_simulator 10000 (5/100) (10/100) bars (al_signal a bars) = Inr bt \<and>
    jv_stage v = (if jv_rec v = PROMOTE_RECOMMENDED then A_SHADOW else A_REJECTED) \<and> jv_backtest v = Some bt \<and>
    (jv_rec v = PROMOTE_RECOMMENDED \<longleftrightarrow>
       aj_min_trades c \<le> bk_trades bt \<and> 0 < bk_total bt \<and>
       (\<exists>ws xs p. walk_forward_windows (int (length bars)) (int (length bars) div 3) (int (length bars) div 6) 2 = Some (Inr ws) \<and>
          oos_returns ws bars (al_signal a bars) = Inr xs \<and> length xs = length ws \<and> 0 < mean xs \<and>
          monte_carlo_p_value h (per_trade (bk_curve bt)) 500 ''mc'' = Inr p \<and> p \<le> aj_max_p c))"
proof -
  obtain bt where bt: "run_backtest default_simulator 10000 (5/100) (10/100) bars (al_signal a bars) = Inr bt"
    using run_backtest_total [of 10000 "al_signal a bars" bars] assms by fastforce
  obtain p where p: "monte_carlo_p_value h (per_trade (bk_curve bt)) 500 ''mc'' = Inr p"
    using monte_carlo_range by blast
  show ?thesis
  proof (cases "aj_min_trades c \<le> bk_trades bt \<and> 0 < bk_total bt")
    case False
    then show ?thesis by (auto simp: judge_alpha_def Let_def bt [simplified])
  next
    case True
    obtain t where t: "backtest_loop default_simulator (5/100) (10/100) bars (al_signal a bars) (new_backtest 10000) = Inr t"
      "bk_trades bt = bk_trades (bt_result t)" using run_backtest_curve [OF bt] by blast
    have n: "7 \<le> length bars"
      using backtest_loop_curve(2) [OF t(1) assms(2)] t(2) True assms(1) by (simp add: new_backtest_def) linarith
    let ?n = "int (length bars)"
    have len: "0 < ?n div 6" "0 \<le> ?n div 3" "?n div 3 + 2 + ?n div 6 \<le> ?n" using n by linarith+
    obtain r where r: "walk_forward_windows ?n (?n div 3) (?n div 6) 2 = Some r"
      "case r of Inl e \<Rightarrow> e = ValueError \<and> ?n < ?n div 3 + 2 + ?n div 6
       | Inr ws \<Rightarrow> ws \<noteq> [] \<and> (\<forall>w \<in> set ws. 0 \<le> fst (ww_test w) \<and> fst (ww_test w) < snd (ww_test w) \<and> snd (ww_test w) \<le> ?n)"
      using wf_ok [OF len(1,2), of 2 ?n] len(1) by (fastforce split: sum.splits)
    then obtain ws where ws: "r = Inr ws" "ws \<noteq> []" using len(3) by (cases r) auto
    with r(2) obtain xs where xs: "oos_returns ws bars (al_signal a bars) = Inr xs" "length xs = length ws"
      using oos_returns_total [OF assms(2), of ws] by auto
    show ?thesis
      using True ws xs by (simp add: judge_alpha_def Let_def bt [simplified] r(1) [unfolded ws(1)] p mean_def not_le not_less)
  qed
qed

lemma judge_needs_every_gate_witness:
  "\<exists>v. judge_alpha (\<lambda>s. 0) default_judge (momentum_alpha 20 (5/100)) (map research_bar [100, 101, 102]) = Some (Inr v) \<and>
    jv_rec v \<noteq> PROMOTE_RECOMMENDED \<and> jv_stage v = A_REJECTED"
proof -
  let ?bars = "map research_bar [100, 101, 102]" and ?a = "momentum_alpha 20 (5/100)"
  have "6 \<le> aj_min_trades default_judge" "length (al_signal ?a ?bars) = length ?bars" "?bars \<noteq> []"
    by (simp_all add: default_judge_def MIN_SAMPLE_TRADES_def momentum_alpha_def)
  from judge_needs_every_gate [OF this, of "\<lambda>s. 0"] obtain v bt where
    v: "judge_alpha (\<lambda>s. 0) default_judge ?a ?bars = Some (Inr v)"
    and bt: "run_backtest default_simulator 10000 (5/100) (10/100) ?bars (al_signal ?a ?bars) = Inr bt"
    and st: "jv_stage v = (if jv_rec v = PROMOTE_RECOMMENDED then A_SHADOW else A_REJECTED)"
    and gate: "jv_rec v = PROMOTE_RECOMMENDED \<longrightarrow> aj_min_trades default_judge \<le> bk_trades bt" by blast
  obtain t where t: "backtest_loop default_simulator (5/100) (10/100) ?bars (al_signal ?a ?bars) (new_backtest 10000) = Inr t"
    "bk_trades bt = bk_trades (bt_result t)" using run_backtest_curve [OF bt] by blast
  have "length (al_signal ?a ?bars) = length ?bars" by (simp add: momentum_alpha_def)
  from backtest_loop_curve(2) [OF t(1) this] t(2) have "bk_trades bt \<le> 2" by (simp add: new_backtest_def)
  with gate have "jv_rec v \<noteq> PROMOTE_RECOMMENDED" by (auto simp: default_judge_def MIN_SAMPLE_TRADES_def)
  with v st show ?thesis by auto
qed

section \<open>The champion\<close>

inductive contest_step :: "contest \<Rightarrow> contest \<Rightarrow> bool" where
  shadow: "contest_step c (record_shadow a r c)"
| promotion: "consider_promotion a c = (r, c') \<Longrightarrow> contest_step c c'"

definition new_contest :: "nat \<Rightarrow> contest" where
  "new_contest m = \<lparr>cc_champion = None, cc_shadow = [], cc_min_sessions = m\<rparr>"

definition contest_ok :: "nat \<Rightarrow> contest \<Rightarrow> bool" where
  "contest_ok m c \<longleftrightarrow> cc_min_sessions c = m \<and>
     (\<forall>a. cc_champion c = Some a \<longrightarrow> m \<le> length (dget_or (cc_shadow c) a []))"

text \<open>Without an incumbent the bar is zero.\<close>

definition bar_to_beat :: "contest \<Rightarrow> real" where
  "bar_to_beat c = (case cc_champion c of None \<Rightarrow> 0
     | Some b \<Rightarrow> (let runs = dget_or (cc_shadow c) b [] in if runs = [] then 0 else mean runs))"

lemma consider_promotion_eq:
  assumes "0 < cc_min_sessions c"
  shows "\<exists>why. consider_promotion a c =
    (let won = (cc_min_sessions c \<le> length (dget_or (cc_shadow c) a []) \<and> bar_to_beat c < mean (dget_or (cc_shadow c) a []))
     in (Inr (won, why), if won then c\<lparr>cc_champion := Some a\<rparr> else c))"
  using assms by (auto simp: consider_promotion_def bar_to_beat_def Let_def split: option.split)

lemma consider_promotion_ok:
  assumes "consider_promotion a c = (r, c')" and "contest_ok m c"
  shows "contest_ok m c'"
proof -
  have "snd (consider_promotion a c) = c \<or> snd (consider_promotion a c) = c\<lparr>cc_champion := Some a\<rparr> \<and>
      cc_min_sessions c \<le> length (dget_or (cc_shadow c) a [])"
    by (simp add: consider_promotion_def Let_def split: option.split)
  with assms show ?thesis by (auto simp: contest_ok_def)
qed

lemma contest_step_ok: "contest_step c c' \<Longrightarrow> contest_ok m c \<Longrightarrow> contest_ok m c'"
proof (induction rule: contest_step.induct)
  case (shadow c a r)
  have "length (dget_or (cc_shadow c) b []) \<le> length (dget_or (cc_shadow (record_shadow a r c)) b [])" for b
    by (simp add: record_shadow_def dget_or_def dict_simps)
  moreover have "cc_champion (record_shadow a r c) = cc_champion c" "cc_min_sessions (record_shadow a r c) = cc_min_sessions c"
    by (simp_all add: record_shadow_def)
  ultimately show ?case using shadow unfolding contest_ok_def by (metis order_trans)
qed (rule consider_promotion_ok)

lemma contest_steps_ok: "contest_step\<^sup>*\<^sup>* c c' \<Longrightarrow> contest_ok m c \<Longrightarrow> contest_ok m c'"
  by (induction rule: rtranclp_induct) (auto intro: contest_step_ok)

text \<open>
  In every history of shadow results and promotions the champion changes exactly when the
  challenger has the required number of shadow sessions and its mean return is above the mean of
  the incumbent, who has as many sessions at least, or above zero where there is none. Nothing
  else changes, and the question never raises.
\<close>

theorem champion_is_only_beaten:
  assumes "contest_step\<^sup>*\<^sup>* (new_contest m) c" and "0 < m" and "consider_promotion a c = (r, c')"
  shows "\<exists>won why. r = Inr (won, why) \<and>
    (let runs = (\<lambda>b. dget_or (cc_shadow c) b []) in
      (won \<longleftrightarrow> m \<le> length (runs a) \<and>
        (case cc_champion c of None \<Rightarrow> 0 < mean (runs a)
         | Some b \<Rightarrow> m \<le> length (runs b) \<and> mean (runs b) < mean (runs a)))) \<and>
    c' = (if won then c\<lparr>cc_champion := Some a\<rparr> else c)"
proof -
  have ok: "contest_ok m c" using contest_steps_ok [OF assms(1)] by (simp add: contest_ok_def new_contest_def)
  then have m: "cc_min_sessions c = m" and b: "m \<le> length (dget_or (cc_shadow c) b [])" if "cc_champion c = Some b" for b
    using that by (simp_all add: contest_ok_def)
  from ok have m: "cc_min_sessions c = m" by (simp add: contest_ok_def)
  have bar: "bar_to_beat c = (case cc_champion c of None \<Rightarrow> 0 | Some b \<Rightarrow> mean (dget_or (cc_shadow c) b []))"
    using b assms(2) by (fastforce simp: bar_to_beat_def Let_def split: option.split)
  obtain why where "consider_promotion a c =
    (let won = (m \<le> length (dget_or (cc_shadow c) a []) \<and> bar_to_beat c < mean (dget_or (cc_shadow c) a []))
     in (Inr (won, why), if won then c\<lparr>cc_champion := Some a\<rparr> else c))"
    using consider_promotion_eq [of c a] assms(2) unfolding m by blast
  with assms(3) b show ?thesis
    unfolding bar Let_def by (cases "cc_champion c") (simp_all only: prod.inject option.case, blast+)
qed

lemma champion_is_only_beaten_witness:
  "\<exists>c c'. contest_step\<^sup>*\<^sup>* (new_contest 1) c \<and> consider_promotion ''b'' c = (Inr (True, BeatsChampion), c') \<and>
     cc_champion c = Some ''a'' \<and> cc_champion c' = Some ''b''"
proof -
  let ?c1 = "record_shadow ''a'' (1/100) (new_contest 1)"
  let ?c2 = "snd (consider_promotion ''a'' ?c1)"
  let ?c3 = "record_shadow ''b'' (2/100) ?c2"
  have s: "contest_step (new_contest 1) ?c1" "contest_step ?c1 ?c2" "contest_step ?c2 ?c3"
    by (rule contest_step.intros surjective_pairing)+
  have p: "consider_promotion ''b'' ?c3 = (Inr (True, BeatsChampion), ?c3\<lparr>cc_champion := Some ''b''\<rparr>)"
    "cc_champion ?c3 = Some ''a''"
    by (simp_all add: consider_promotion_def record_shadow_def new_contest_def dget_or_def mean_def)
  have r: "contest_step\<^sup>*\<^sup>* (new_contest 1) ?c3" using s by (meson converse_rtranclp_into_rtranclp rtranclp.rtrancl_refl)
  define c where "c = ?c3"
  have "contest_step\<^sup>*\<^sup>* (new_contest 1) c" "consider_promotion ''b'' c = (Inr (True, BeatsChampion), c\<lparr>cc_champion := Some ''b''\<rparr>)"
    "cc_champion c = Some ''a''" using r p unfolding c_def by blast+
  with champion_is_only_beaten [OF this(1) _ this(2)] show ?thesis
    by (intro exI [of _ c] exI [of _ "c\<lparr>cc_champion := Some ''b''\<rparr>"] conjI) simp_all
qed

end
