(* ===== verification/Learning.thy ===== *)
theory Learning
  imports MarketData
begin

text \<open>
  \<open>services/feature_manager/store.py\<close>, \<open>services/institutional/engine.py\<close>,
  \<open>services/pdca/attribution.py\<close> and \<open>services/pdca/shadow.py\<close>: features with their life cycle,
  flow signals, the attribution of profit, and virtual portfolios. The values of features are of
  any type. Texts of reasons are kept where they enter a history, as tags.
\<close>

section \<open>Features\<close>

datatype feature_status = FT_ACTIVE | FT_REDUCED | FT_SHADOW | FT_DORMANT | FT_RETIRED

definition DEMOTION_ORDER :: "feature_status list" where
  "DEMOTION_ORDER = [FT_ACTIVE, FT_REDUCED, FT_SHADOW, FT_DORMANT]"

record 'v feature_value =
  fv_feature :: string
  fv_symbol :: string
  fv_value :: 'v
  fv_ts :: pydt
  fv_source :: string
  fv_calc_version :: string
  fv_data_version :: string

datatype status_reason = Registered | Drift real | Given string | HumanApproved string | Revival string

record feature_meta =
  fm_name :: string
  fm_purpose :: string
  fm_status :: feature_status
  fm_contributions :: "real list"
  fm_history :: "(feature_status \<times> status_reason) list"
  fm_revival :: string
  fm_demoted_at :: nat

record 'v feature_store =
  fs_values :: "'v feature_value list"
  fs_meta :: "(string, feature_meta) dict"

definition empty_store :: "'v feature_store" where
  "empty_store = \<lparr>fs_values = [], fs_meta = []\<rparr>"

definition register_feature :: "string \<Rightarrow> string \<Rightarrow> feature_status \<Rightarrow> ('v feature_store, feature_meta) act" where
  "register_feature name purpose st s =
     (let m = \<lparr>fm_name = name, fm_purpose = purpose, fm_status = st, fm_contributions = [],
               fm_history = [(st, Registered)], fm_revival = [], fm_demoted_at = 0\<rparr>
      in (Inr m, s\<lparr>fs_meta := dput (fs_meta s) name m\<rparr>))"

definition feature_meta_of :: "string \<Rightarrow> 'v feature_store \<Rightarrow> exn + feature_meta" where
  "feature_meta_of name s = (case dget (fs_meta s) name of None \<Rightarrow> Inl KeyError | Some m \<Rightarrow> Inr m)"

definition by_status :: "feature_status \<Rightarrow> 'v feature_store \<Rightarrow> feature_meta list" where
  "by_status st s = filter (\<lambda>m. fm_status m = st) (dvals (fs_meta s))"

definition put_feature :: "'v feature_value \<Rightarrow> ('v feature_store, unit) act" where
  "put_feature fv s =
     (if dhas (fs_meta s) (fv_feature fv) then (Inr (), s\<lparr>fs_values := fs_values s @ [fv]\<rparr>) else (Inl KeyError, s))"

fun feature_candidates ::
    "string \<Rightarrow> string \<Rightarrow> pydt option \<Rightarrow> 'v feature_value list \<Rightarrow> exn + 'v feature_value list" where
  "feature_candidates feature symbol as_of [] = Inr []"
| "feature_candidates feature symbol as_of (v # vs) =
     (let wanted = (if fv_feature v = feature \<and> fv_symbol v = symbol then
          (case as_of of None \<Rightarrow> Inr True
           | Some a \<Rightarrow> (case ensure_utc (fv_ts v) of Inl e \<Rightarrow> Inl e
              | Inr t \<Rightarrow> (case ensure_utc a of Inl e \<Rightarrow> Inl e | Inr u \<Rightarrow> Inr (t \<le> u))))
          else Inr False)
      in case wanted of Inl e \<Rightarrow> Inl e
       | Inr keep \<Rightarrow> (case feature_candidates feature symbol as_of vs of Inl e \<Rightarrow> Inl e
           | Inr rest \<Rightarrow> Inr (if keep then v # rest else rest)))"

text \<open>The order of Python: a naive and an aware time cannot be compared.\<close>

fun earlier :: "pydt \<Rightarrow> pydt \<Rightarrow> exn + bool" where
  "earlier (Aware a) (Aware b) = Inr (a < b)"
| "earlier (Naive a) (Naive b) = Inr (a < b)"
| "earlier _ _ = Inl TypeError"

fun latest_of :: "'v feature_value \<Rightarrow> 'v feature_value list \<Rightarrow> exn + 'v feature_value" where
  "latest_of best [] = Inr best"
| "latest_of best (v # vs) =
     (case earlier (fv_ts best) (fv_ts v) of Inl e \<Rightarrow> Inl e | Inr b \<Rightarrow> latest_of (if b then v else best) vs)"

definition latest_feature ::
    "string \<Rightarrow> string \<Rightarrow> pydt option \<Rightarrow> 'v feature_store \<Rightarrow> exn + 'v feature_value option" where
  "latest_feature feature symbol as_of s =
     (case feature_candidates feature symbol as_of (fs_values s) of
        Inl e \<Rightarrow> Inl e
      | Inr [] \<Rightarrow> Inr None
      | Inr (v # vs) \<Rightarrow> (case latest_of v vs of Inl e \<Rightarrow> Inl e | Inr x \<Rightarrow> Inr (Some x)))"

definition put_meta :: "string \<Rightarrow> feature_meta \<Rightarrow> 'v feature_store \<Rightarrow> 'v feature_store" where
  "put_meta name m s = s\<lparr>fs_meta := dput (fs_meta s) name m\<rparr>"

definition record_contribution :: "string \<Rightarrow> real \<Rightarrow> ('v feature_store, unit) act" where
  "record_contribution name x s =
     (case dget (fs_meta s) name of None \<Rightarrow> (Inl KeyError, s)
      | Some m \<Rightarrow> (Inr (), put_meta name (m\<lparr>fm_contributions := fm_contributions m @ [x]\<rparr>) s))"

text \<open>\<open>hist[-window:]\<close> is the whole list where the window is zero.\<close>

definition evaluate_drift :: "string \<Rightarrow> nat \<Rightarrow> real \<Rightarrow> ('v feature_store, feature_status) act" where
  "evaluate_drift name window demote_below s =
     (case dget (fs_meta s) name of
        None \<Rightarrow> (Inl KeyError, s)
      | Some m \<Rightarrow>
          let hist = (if window = 0 then fm_contributions m else last_n window (fm_contributions m)) in
          if length hist < window \<or> fm_status m \<in> {FT_DORMANT, FT_RETIRED} then (Inr (fm_status m), s)
          else if int (length (fm_contributions m)) - int (fm_demoted_at m) < int window then (Inr (fm_status m), s)
          else if hist = [] then (Inl ZeroDivisionError, s)
          else if mean hist < demote_below then
            let idx = length (takeWhile (\<lambda>x. x \<noteq> fm_status m) DEMOTION_ORDER) in
            if idx < length DEMOTION_ORDER - 1 then
              let new = DEMOTION_ORDER ! (idx + 1);
                  m' = m\<lparr>fm_status := new, fm_demoted_at := length (fm_contributions m),
                         fm_history := fm_history m @ [(new, Drift (mean hist))]\<rparr>
              in (Inr new, put_meta name m' s)
            else (Inr (fm_status m), s)
          else (Inr (fm_status m), s))"

definition promote_feature :: "string \<Rightarrow> feature_status \<Rightarrow> status_reason \<Rightarrow> ('v feature_store, unit) act" where
  "promote_feature name to_status reason s =
     (case dget (fs_meta s) name of None \<Rightarrow> (Inl KeyError, s)
      | Some m \<Rightarrow> (Inr (), put_meta name (m\<lparr>fm_status := to_status, fm_history := fm_history m @ [(to_status, reason)]\<rparr>) s))"

definition retire_feature :: "string \<Rightarrow> string \<Rightarrow> bool \<Rightarrow> ('v feature_store, unit) act" where
  "retire_feature name reason human_approved s =
     (if \<not> human_approved then (Inl PermissionError, s)
      else promote_feature name FT_RETIRED (HumanApproved reason) s)"

definition revive_feature :: "string \<Rightarrow> string \<Rightarrow> ('v feature_store, unit) act" where
  "revive_feature name reason s =
     (case dget (fs_meta s) name of None \<Rightarrow> (Inl KeyError, s)
      | Some m \<Rightarrow> if fm_status m = FT_DORMANT then promote_feature name FT_SHADOW (Revival reason) s else (Inr (), s))"

section \<open>Flow signals\<close>

datatype flow_feature =
    LARGE_TRADES | ORDER_FLOW_IMBALANCE | BLOCK_TRADES | OPTIONS_FLOW | FILING_13D | FILING_13G
  | OWNERSHIP_CHANGE | SHORT_INTEREST | ETF_FLOW | VOLUME_ANOMALY

record flow_observation =
  fo_symbol :: string
  fo_feature :: flow_feature
  fo_value :: real
  fo_at :: pydt
  fo_source :: string

record flow_signal =
  fl_symbol :: string
  fl_score :: real
  fl_contributing :: "flow_feature list"

definition actionable :: "flow_signal \<Rightarrow> bool" where
  "actionable g \<longleftrightarrow> 2 \<le> length (fl_contributing g) \<and> 3/10 \<le> \<bar>fl_score g\<bar>"

type_synonym flow_engine = "(string, flow_observation list) dict"

definition ingest_flow :: "flow_observation \<Rightarrow> flow_engine \<Rightarrow> flow_engine" where
  "ingest_flow x e = dput e (fo_symbol x) (dget_or e (fo_symbol x) [] @ [x])"

fun latest_by_feature :: "flow_observation list \<Rightarrow> (flow_feature, real) dict \<Rightarrow> (flow_feature, real) dict" where
  "latest_by_feature [] d = d"
| "latest_by_feature (x # xs) d = latest_by_feature xs (dput d (fo_feature x) (fo_value x))"

definition flow_signal_of :: "string \<Rightarrow> flow_engine \<Rightarrow> flow_signal option" where
  "flow_signal_of symbol e =
     (case dget_or e symbol [] of
        [] \<Rightarrow> None
      | xs \<Rightarrow>
          let by_feature = latest_by_feature xs [];
              contributing = map fst (filter (\<lambda>(f, v). 2/10 \<le> \<bar>v\<bar>) by_feature)
          in if contributing = [] then Some \<lparr>fl_symbol = symbol, fl_score = 0, fl_contributing = []\<rparr>
             else let score = (\<Sum>f\<leftarrow>contributing. dget_or by_feature f 0) / real (length contributing)
               in Some \<lparr>fl_symbol = symbol, fl_score = max (- 1) (min 1 score), fl_contributing = contributing\<rparr>)"

section \<open>Attribution of profit\<close>

record trade_record =
  tr_symbol :: string
  tr_qty :: real
  tr_entry :: real
  tr_exit :: real
  tr_market :: real
  tr_slippage :: real
  tr_fees :: real
  tr_alpha :: string

record attribution =
  at_total :: real
  at_beta :: real
  at_alpha :: real
  at_slippage :: real
  at_fees :: real

definition attribution_dict :: "attribution \<Rightarrow> (string, real) dict" where
  "attribution_dict a = [(''total'', at_total a), (''market_beta'', at_beta a), (''alpha'', at_alpha a),
     (''slippage'', - at_slippage a), (''fees'', - at_fees a)]"

definition attribute_trade :: "trade_record \<Rightarrow> real \<Rightarrow> attribution" where
  "attribute_trade t beta =
     (let gross = tr_qty t * (tr_exit t - tr_entry t); notional = tr_qty t * tr_entry t;
          market_pnl = notional * tr_market t * beta
      in \<lparr>at_total = gross - tr_slippage t - tr_fees t, at_beta = market_pnl, at_alpha = gross - market_pnl,
          at_slippage = tr_slippage t, at_fees = tr_fees t\<rparr>)"

datatype profit_source = REPEATABLE_EDGE | MARKET_LIFT | LUCKY_OUTLIER | NO_PROFIT

definition profit_quality :: "attribution list \<Rightarrow> real \<Rightarrow> profit_source \<times> real" where
  "profit_quality xs outlier_share =
     (let total = (\<Sum>a\<leftarrow>xs. at_total a) in
      if total \<le> 0 \<or> xs = [] then (NO_PROFIT, 0)
      else let alpha_total = (\<Sum>a\<leftarrow>xs. at_alpha a); beta_total = (\<Sum>a\<leftarrow>xs. at_beta a);
               biggest = Max (set (map at_total xs))
        in if outlier_share \<le> biggest / total \<and> 3 < length xs then (LUCKY_OUTLIER, 2/10)
           else if beta_total < alpha_total then (REPEATABLE_EDGE, min 1 (1/2 + alpha_total / (\<bar>total\<bar> + eps) / 2))
           else (MARKET_LIFT, 4/10))"

section \<open>Shadow portfolios\<close>

datatype shadow_variant =
    V_FULL | V_NO_NEWS | V_NO_INSTITUTIONAL | V_NO_LLM | V_QUANT_ONLY | V_NO_REGIME | V_MOONSHOT_ONLY | V_BENCHMARK

definition all_variants :: "shadow_variant list" where
  "all_variants = [V_FULL, V_NO_NEWS, V_NO_INSTITUTIONAL, V_NO_LLM, V_QUANT_ONLY, V_NO_REGIME, V_MOONSHOT_ONLY, V_BENCHMARK]"

record shadow_portfolio =
  sd_variant :: shadow_variant
  sd_equity :: real
  sd_history :: "real list"
  sd_initial :: real

definition new_shadow :: "shadow_variant \<Rightarrow> real \<Rightarrow> shadow_portfolio" where
  "new_shadow v equity = \<lparr>sd_variant = v, sd_equity = equity, sd_history = [], sd_initial = equity\<rparr>"

definition mark_shadow :: "real \<Rightarrow> shadow_portfolio \<Rightarrow> shadow_portfolio" where
  "mark_shadow r p =
     (let e = sd_equity p * (1 + r) in p\<lparr>sd_equity := e, sd_history := sd_history p @ [e]\<rparr>)"

definition shadow_return :: "shadow_portfolio \<Rightarrow> exn + real" where
  "shadow_return p = (if sd_initial p = 0 then Inl ZeroDivisionError else Inr (sd_equity p / sd_initial p - 1))"

type_synonym shadow_manager = "(shadow_variant, shadow_portfolio) dict"

definition new_shadow_manager :: "real \<Rightarrow> shadow_variant list \<Rightarrow> shadow_manager" where
  "new_shadow_manager equity variants =
     foldl (\<lambda>d v. dput d v (new_shadow v equity)) [] (if variants = [] then all_variants else variants)"

definition record_shadow_session :: "(shadow_variant, real) dict \<Rightarrow> (shadow_manager, unit) act" where
  "record_shadow_session rs =
     for_each (\<lambda>(v, r) d. case dget d v of None \<Rightarrow> (Inl KeyError, d) | Some p \<Rightarrow> (Inr (), dput d v (mark_shadow r p))) rs"

fun shadow_returns :: "shadow_manager \<Rightarrow> exn + (shadow_variant \<times> real) list" where
  "shadow_returns [] = Inr []"
| "shadow_returns ((v, p) # d) =
     (case shadow_return p of Inl e \<Rightarrow> Inl e | Inr x \<Rightarrow>
      case shadow_returns d of Inl e \<Rightarrow> Inl e | Inr xs \<Rightarrow> Inr ((v, x) # xs))"

definition shadow_ranking :: "shadow_manager \<Rightarrow> exn + (shadow_variant \<times> real) list" where
  "shadow_ranking d = map_sum id (sort_key (\<lambda>(v, x). - x)) (shadow_returns d)"

section \<open>Ablation\<close>

text \<open>A frozen set of names is its sorted list.\<close>

definition frozen :: "string list \<Rightarrow> string list" where
  "frozen xs = sort (remdups xs)"

type_synonym ablation = "(string list, real) dict"

definition record_ablation :: "string list \<Rightarrow> real \<Rightarrow> ablation \<Rightarrow> ablation" where
  "record_ablation disabled x d = dput d (frozen disabled) x"

definition feature_contribution :: "string \<Rightarrow> ablation \<Rightarrow> real option" where
  "feature_contribution f d =
     (case (dget d (frozen []), dget d (frozen [f])) of (Some full, Some without) \<Rightarrow> Some (full - without) | _ \<Rightarrow> None)"

definition removable_candidates :: "real \<Rightarrow> ablation \<Rightarrow> string list" where
  "removable_candidates threshold d =
     (case dget d (frozen []) of None \<Rightarrow> []
      | Some full \<Rightarrow> map (\<lambda>(k, x). hd k) (filter (\<lambda>(k, x). length k = 1 \<and> full - threshold \<le> x) d))"

definition pairwise_check :: "string \<Rightarrow> string \<Rightarrow> ablation \<Rightarrow> real option" where
  "pairwise_check f1 f2 d = dget d (frozen [f1, f2])"

section \<open>Features decline step by step\<close>

inductive feature_step :: "'v feature_store \<Rightarrow> 'v feature_store \<Rightarrow> bool" where
  step_register: "register_feature name purpose st s = (r, s') \<Longrightarrow> feature_step s s'"
| step_put: "put_feature fv s = (r, s') \<Longrightarrow> feature_step s s'"
| step_contribution: "record_contribution name x s = (r, s') \<Longrightarrow> feature_step s s'"
| step_drift: "evaluate_drift name w th s = (r, s') \<Longrightarrow> feature_step s s'"
| step_promote: "promote_feature name st reason s = (r, s') \<Longrightarrow> feature_step s s'"
| step_retire: "retire_feature name text0 approved s = (r, s') \<Longrightarrow> feature_step s s'"
| step_revive: "revive_feature name text0 s = (r, s') \<Longrightarrow> feature_step s s'"

definition meta_ok :: "feature_meta \<Rightarrow> bool" where
  "meta_ok m \<longleftrightarrow> fm_demoted_at m \<le> length (fm_contributions m) \<and> fm_history m \<noteq> [] \<and>
     fst (last (fm_history m)) = fm_status m"

definition features_ok :: "'v feature_store \<Rightarrow> bool" where
  "features_ok s \<longleftrightarrow> (\<forall>k m. dget (fs_meta s) k = Some m \<longrightarrow> meta_ok m) \<and>
     (\<forall>v \<in> set (fs_values s). dhas (fs_meta s) (fv_feature v))"

lemma features_ok_meta:
  "features_ok s \<Longrightarrow> dget (fs_meta s) k = Some m \<Longrightarrow> meta_ok m"
  by (simp add: features_ok_def)

lemma put_meta_ok: "features_ok s \<Longrightarrow> meta_ok m \<Longrightarrow> features_ok (put_meta k m s)"
  by (auto simp: features_ok_def put_meta_def dict_simps dhas_def split: if_splits)

lemma promote_ok: "promote_feature name st reason s = (r, s') \<Longrightarrow> features_ok s \<Longrightarrow> features_ok s'"
  by (auto simp: promote_feature_def meta_ok_def dest: features_ok_meta intro!: put_meta_ok split: option.splits)

lemma drift_ok: "evaluate_drift name w th s = (r, s') \<Longrightarrow> features_ok s \<Longrightarrow> features_ok s'"
  by (auto simp: evaluate_drift_def Let_def meta_ok_def dest: features_ok_meta intro!: put_meta_ok
      split: option.splits if_splits)

lemma feature_step_ok: "feature_step s s' \<Longrightarrow> features_ok s \<Longrightarrow> features_ok s'"
proof (induction rule: feature_step.induct)
  case (step_register name purpose st s r s')
  then have "s' = put_meta name \<lparr>fm_name = name, fm_purpose = purpose, fm_status = st, fm_contributions = [],
       fm_history = [(st, Registered)], fm_revival = [], fm_demoted_at = 0\<rparr> s"
    by (auto simp: register_feature_def put_meta_def Let_def)
  with step_register show ?case by (auto intro!: put_meta_ok simp: meta_ok_def)
next
  case (step_put fv s r s')
  then show ?case by (auto simp: put_feature_def features_ok_def split: if_splits)
next
  case (step_contribution name x s r s')
  then show ?case
    by (auto simp: record_contribution_def meta_ok_def dest: features_ok_meta intro!: put_meta_ok split: option.splits)
next
  case (step_retire name text0 approved s r s')
  then show ?case by (auto simp: retire_feature_def intro: promote_ok split: if_splits)
next
  case (step_revive name text0 s r s')
  then show ?case by (auto simp: revive_feature_def intro: promote_ok split: if_splits option.splits)
qed (auto intro: promote_ok drift_ok)

lemma feature_steps_ok: "feature_step\<^sup>*\<^sup>* s s' \<Longrightarrow> features_ok s \<Longrightarrow> features_ok s'"
  by (induction rule: rtranclp_induct) (auto intro: feature_step_ok)

text \<open>The level of a status on the way down.\<close>

fun level :: "feature_status \<Rightarrow> nat" where
  "level FT_ACTIVE = 0"
| "level FT_REDUCED = 1"
| "level FT_SHADOW = 2"
| "level FT_DORMANT = 3"
| "level FT_RETIRED = 4"

definition must_demote :: "nat \<Rightarrow> real \<Rightarrow> feature_meta \<Rightarrow> bool" where
  "must_demote w th m \<longleftrightarrow> level (fm_status m) < 3 \<and> fm_demoted_at m + w \<le> length (fm_contributions m) \<and>
     mean (last_n w (fm_contributions m)) < th"

definition demoted :: "nat \<Rightarrow> feature_meta \<Rightarrow> feature_meta" where
  "demoted w m = (let new = DEMOTION_ORDER ! (level (fm_status m) + 1) in
     m\<lparr>fm_status := new, fm_demoted_at := length (fm_contributions m),
       fm_history := fm_history m @ [(new, Drift (mean (last_n w (fm_contributions m))))]\<rparr>)"

lemma evaluate_drift_eq:
  assumes "dget (fs_meta s) name = Some m" and "0 < w" and "meta_ok m"
  shows "evaluate_drift name w th s =
    (if must_demote w th m then (Inr (fm_status (demoted w m)), put_meta name (demoted w m) s) else (Inr (fm_status m), s))"
proof -
  have l: "length (last_n w (fm_contributions m)) = min w (length (fm_contributions m))" by (simp add: last_n_def)
  then have ne: "last_n w (fm_contributions m) \<noteq> []" if "w \<le> length (fm_contributions m)" using that assms(2) by auto
  show ?thesis
    using assms(1,2) ne
    by (cases "fm_status m")
      (auto simp: evaluate_drift_def Let_def must_demote_def demoted_def l DEMOTION_ORDER_def)
qed

text \<open>
  In every history of the feature store an evaluation of drift returns. It demotes a feature
  exactly when the feature is not yet dormant, a whole window of contributions arrived since the
  last demotion, and the mean of the last window is below the threshold; then it goes down by one
  level. To evaluate again without new contributions changes nothing.
\<close>

theorem drift_demotes_one_step:
  assumes "feature_step\<^sup>*\<^sup>* empty_store s" and "dget (fs_meta s) name = Some m" and "0 < w"
    and "evaluate_drift name w th s = (r, s')"
  shows "\<exists>m'. dget (fs_meta s') name = Some m' \<and> r = Inr (fm_status m') \<and>
    (if must_demote w th m then level (fm_status m') = level (fm_status m) + 1 else s' = s) \<and>
    (\<forall>k. k \<noteq> name \<longrightarrow> dget (fs_meta s') k = dget (fs_meta s) k) \<and> fm_contributions m' = fm_contributions m \<and>
    evaluate_drift name w th s' = (r, s')"
proof -
  have "features_ok (empty_store :: 'a feature_store)" by (simp add: features_ok_def empty_store_def)
  with feature_steps_ok [OF assms(1)] have ok: "features_ok s" .
  note m = features_ok_meta [OF ok assms(2)]
  show ?thesis
  proof (cases "must_demote w th m")
    case False
    with evaluate_drift_eq [OF assms(2,3) m] assms(2,4) show ?thesis by simp
  next
    case True
    with evaluate_drift_eq [OF assms(2,3) m, of th] assms(4) have r: "r = Inr (fm_status (demoted w m))"
      and s': "s' = put_meta name (demoted w m) s" by simp_all
    have g: "dget (fs_meta s') name = Some (demoted w m)" by (simp add: s' put_meta_def dict_simps)
    have "features_ok s'" using drift_ok [OF assms(4) ok] .
    from features_ok_meta [OF this g] have ok': "meta_ok (demoted w m)" .
    have "\<not> must_demote w th (demoted w m)" using assms(3) by (simp add: must_demote_def demoted_def Let_def)
    with evaluate_drift_eq [OF g assms(3) ok', of th] r have again: "evaluate_drift name w th s' = (r, s')" by simp
    have "level (fm_status (demoted w m)) = level (fm_status m) + 1" "fm_contributions (demoted w m) = fm_contributions m"
      using True by (cases "fm_status m"; simp add: must_demote_def demoted_def DEMOTION_ORDER_def Let_def)+
    with True g r again show ?thesis by (auto simp: s' put_meta_def dict_simps)
  qed
qed

lemma drift_demotes_one_step_witness:
  "\<exists>(s :: nat feature_store) s'. feature_step\<^sup>*\<^sup>* empty_store s \<and> evaluate_drift ''f'' 2 0 s = (Inr FT_REDUCED, s') \<and>
     evaluate_drift ''f'' 2 0 s' = (Inr FT_REDUCED, s')"
proof -
  define s1 s2 s3 :: "nat feature_store" where "s1 = snd (register_feature ''f'' ''p'' FT_ACTIVE empty_store)"
    and "s2 = snd (record_contribution ''f'' (- 1) s1)" and "s3 = snd (record_contribution ''f'' (- 2) s2)"
  have "feature_step empty_store s1" "feature_step s1 s2" "feature_step s2 s3"
    unfolding s1_def s2_def s3_def by (rule step_register step_contribution, rule surjective_pairing)+
  then have r: "feature_step\<^sup>*\<^sup>* empty_store s3" by (meson converse_rtranclp_into_rtranclp rtranclp.rtrancl_refl)
  have m: "dget (fs_meta s3) ''f'' = Some \<lparr>fm_name = ''f'', fm_purpose = ''p'', fm_status = FT_ACTIVE,
      fm_contributions = [- 1, - 2], fm_history = [(FT_ACTIVE, Registered)], fm_revival = [], fm_demoted_at = 0\<rparr>"
    by (simp add: s1_def s2_def s3_def register_feature_def record_contribution_def put_meta_def empty_store_def Let_def)
  obtain q s' where q: "evaluate_drift ''f'' 2 0 s3 = (q, s')" by fastforce
  have "q = Inr FT_REDUCED"
    using q m by (simp add: evaluate_drift_def Let_def last_n_def mean_def DEMOTION_ORDER_def)
  with drift_demotes_one_step [OF r m _ q] q r show ?thesis by (intro exI [of _ s3] exI [of _ s']) auto
qed

text \<open>
  The documentation calls \<open>RETIRED\<close> terminal and demands a human for it; \<open>promote\<close> sets it without
  one and leaves it again.
\<close>

lemma promotion_needs_no_human:
  assumes "dget (fs_meta s) k = Some m"
  shows "\<exists>m'. dget (fs_meta (snd (promote_feature k st reason s))) k = Some m' \<and> fm_status m' = st"
  using assms by (simp add: promote_feature_def put_meta_def dict_simps)

section \<open>Features are read as of a point in time\<close>

lemma feature_candidates_sound:
  assumes "feature_candidates f sy (Some a) vs = Inr ws"
  shows "ws = filter (\<lambda>v. fv_feature v = f \<and> fv_symbol v = sy \<and> (\<exists>t u. fv_ts v = Aware t \<and> a = Aware u \<and> t \<le> u)) vs"
  using assms
proof (induction vs arbitrary: ws)
  case (Cons v vs)
  show ?case
  proof (cases "fv_feature v = f \<and> fv_symbol v = sy")
    case True
    then show ?thesis using Cons by (cases "fv_ts v"; cases a) (auto split: sum.splits if_splits)
  qed (use Cons in \<open>auto split: sum.splits\<close>)
qed simp

lemma latest_of_sound:
  assumes "latest_of b vs = Inr x" and "\<forall>v \<in> set (b # vs). \<exists>t. fv_ts v = Aware t"
  shows "x \<in> set (b # vs) \<and> (\<forall>v \<in> set (b # vs). \<forall>t u. fv_ts v = Aware t \<longrightarrow> fv_ts x = Aware u \<longrightarrow> t \<le> u)"
  using assms
proof (induction vs arbitrary: b)
  case (Cons v vs)
  from Cons.prems(2) obtain t u where t: "fv_ts b = Aware t" "fv_ts v = Aware u" by auto
  let ?c = "if t < u then v else b"
  from Cons.prems(1) t have "latest_of ?c vs = Inr x" by (simp split: if_splits)
  from Cons.IH [OF this] Cons.prems(2) have x: "x \<in> set (?c # vs)"
    "\<forall>w \<in> set (?c # vs). \<forall>t u. fv_ts w = Aware t \<longrightarrow> fv_ts x = Aware u \<longrightarrow> t \<le> u" by auto
  from x(1) Cons.prems(2) obtain y where "fv_ts x = Aware y" by (auto split: if_splits)
  with x t show ?case by (auto split: if_splits)
qed auto

text \<open>
  C14. What the feature store reports as of a time is the latest value that was known then: it is
  for the feature and the symbol, not later than the time, and no other such value is later. It
  reports nothing only if there is none.
\<close>

theorem features_are_point_in_time:
  assumes "latest_feature f sy (Some a) s = Inr r"
  shows "let known = (\<lambda>v t. v \<in> set (fs_values s) \<and> fv_feature v = f \<and> fv_symbol v = sy \<and> fv_ts v = Aware t \<and>
            (\<exists>u. a = Aware u \<and> t \<le> u))
    in (case r of None \<Rightarrow> \<nexists>v t. known v t | Some x \<Rightarrow> \<exists>t. known x t \<and> (\<forall>v t'. known v t' \<longrightarrow> t' \<le> t))"
proof -
  obtain ws where ws: "feature_candidates f sy (Some a) (fs_values s) = Inr ws"
    and r: "(case ws of [] \<Rightarrow> Inr None | v # vs \<Rightarrow> (case latest_of v vs of Inl e \<Rightarrow> Inl e | Inr x \<Rightarrow> Inr (Some x))) = Inr r"
    using assms by (auto simp: latest_feature_def split: sum.splits)
  have mem: "\<forall>w. w \<in> set ws \<longleftrightarrow> w \<in> set (fs_values s) \<and> fv_feature w = f \<and> fv_symbol w = sy \<and>
      (\<exists>t u. fv_ts w = Aware t \<and> a = Aware u \<and> t \<le> u)"
    unfolding feature_candidates_sound [OF ws] by auto
  show ?thesis
  proof (cases ws)
    case Nil
    with r have "r = None" by simp
    with mem Nil show ?thesis unfolding Let_def by simp
  next
    case (Cons v vs)
    with r obtain x where x: "latest_of v vs = Inr x" "r = Some x" by (auto split: sum.splits)
    have "\<forall>w \<in> set ws. \<exists>t. fv_ts w = Aware t" using mem by metis
    from latest_of_sound [OF x(1) this [unfolded Cons]] have l: "x \<in> set ws"
      "\<forall>w \<in> set ws. \<forall>t u. fv_ts w = Aware t \<longrightarrow> fv_ts x = Aware u \<longrightarrow> t \<le> u" unfolding Cons by blast+
    from l(1) mem obtain t u where t: "fv_ts x = Aware t" "a = Aware u" "t \<le> u" by blast
    have "t' \<le> t" if "v' \<in> set (fs_values s)" "fv_feature v' = f" "fv_symbol v' = sy" "fv_ts v' = Aware t'" "t' \<le> u" for v' t'
      using that mem t l(2) by blast
    with l(1) mem t show ?thesis unfolding Let_def x(2) option.case by (intro exI [of _ t]) auto
  qed
qed

lemma features_are_point_in_time_witness:
  "\<exists>x. latest_feature ''f'' ''ABC'' (Some (Aware 5))
     \<lparr>fs_values = map (\<lambda>t. \<lparr>fv_feature = ''f'', fv_symbol = ''ABC'', fv_value = t, fv_ts = Aware t, fv_source = [],
        fv_calc_version = [], fv_data_version = []\<rparr>) [3, 1, 7], fs_meta = []\<rparr> = Inr (Some x) \<and> fv_value x = 3 \<and>
     (\<exists>t. fv_ts x = Aware t \<and> t \<le> 5)"
proof -
  let ?v = "\<lambda>t. \<lparr>fv_feature = ''f'', fv_symbol = ''ABC'', fv_value = t, fv_ts = Aware t, fv_source = [],
        fv_calc_version = [], fv_data_version = []\<rparr>"
  have "latest_feature ''f'' ''ABC'' (Some (Aware 5)) \<lparr>fs_values = map ?v [3, 1, 7], fs_meta = []\<rparr> = Inr (Some (?v 3))"
    by (simp add: latest_feature_def)
  with features_are_point_in_time [OF this] show ?thesis by (intro exI [of _ "?v 3"]) simp
qed

section \<open>A single feature is never traded\<close>

definition last_value :: "flow_observation list \<Rightarrow> flow_feature \<Rightarrow> real option" where
  "last_value xs f = (case filter (\<lambda>x. fo_feature x = f) xs of [] \<Rightarrow> None | ys \<Rightarrow> Some (fo_value (last ys)))"

lemma latest_by_feature_get:
  "dget (latest_by_feature xs d) f = (case last_value xs f of None \<Rightarrow> dget d f | Some v \<Rightarrow> Some v)"
  by (induction xs arbitrary: d) (auto simp: last_value_def dict_simps split: list.split)

lemma latest_by_feature_ok: "dict_ok d \<Longrightarrow> dict_ok (latest_by_feature xs d)"
  by (induction xs arbitrary: d) auto

text \<open>
  The score of a flow signal lies between -1 and 1. A signal is only actionable when at least
  two different features contribute, each of which was last observed with a strength of at least
  0.2; however often one feature is observed, it is not enough.
\<close>

theorem single_feature_never_acts:
  assumes "flow_signal_of symbol e = Some g"
  shows "- 1 \<le> fl_score g \<and> fl_score g \<le> 1 \<and>
    (actionable g \<longrightarrow> 3/10 \<le> \<bar>fl_score g\<bar> \<and>
      (\<exists>f1 f2 v1 v2. f1 \<noteq> f2 \<and> last_value (dget_or e symbol []) f1 = Some v1 \<and> 2/10 \<le> \<bar>v1\<bar> \<and>
         last_value (dget_or e symbol []) f2 = Some v2 \<and> 2/10 \<le> \<bar>v2\<bar>))"
proof -
  let ?xs = "dget_or e symbol []"
  let ?d = "latest_by_feature ?xs []"
  let ?c = "map fst (filter (\<lambda>(f, v). 2/10 \<le> \<bar>v\<bar>) ?d)"
  have ok: "dict_ok ?d" by (rule latest_by_feature_ok) simp
  let ?s = "(\<Sum>f\<leftarrow>?c. dget_or ?d f 0) / real (length ?c)"
  have "g = (if ?c = [] then \<lparr>fl_symbol = symbol, fl_score = 0, fl_contributing = []\<rparr>
      else \<lparr>fl_symbol = symbol, fl_score = max (- 1) (min 1 ?s), fl_contributing = ?c\<rparr>)"
    using assms unfolding flow_signal_of_def Let_def by (cases "?xs") (simp_all only: list.case option.inject option.distinct if_distrib [of Some, symmetric])
  then have g: "fl_contributing g = ?c" "- 1 \<le> fl_score g" "fl_score g \<le> 1" by simp_all
  have pair: "\<exists>f1 f2 v1 v2. f1 \<noteq> f2 \<and> last_value ?xs f1 = Some v1 \<and> 2/10 \<le> \<bar>v1\<bar> \<and>
         last_value ?xs f2 = Some v2 \<and> 2/10 \<le> \<bar>v2\<bar>" if two: "2 \<le> length ?c"
  proof -
    from two obtain f1 f2 rest where c: "?c = f1 # f2 # rest"
      by (metis One_nat_def Suc_1 Suc_le_length_iff)
    have "distinct ?c" using ok by (auto simp: dict_ok_def dkeys_def intro: distinct_map_filter)
    with c have ne: "f1 \<noteq> f2" by simp
    have val: "\<exists>v. last_value ?xs f = Some v \<and> 2/10 \<le> \<bar>v\<bar>" if "f \<in> set ?c" for f
    proof -
      from that obtain v where "(f, v) \<in> set ?d" "2/10 \<le> \<bar>v\<bar>" by auto
      with ok have "dget ?d f = Some v" by (auto simp: dict_ok_def dkeys_def dget_def)
      with \<open>2/10 \<le> \<bar>v\<bar>\<close> show ?thesis by (auto simp: latest_by_feature_get split: option.splits)
    qed
    have "f1 \<in> set ?c" "f2 \<in> set ?c" unfolding c by simp_all
    from val [OF this(1)] val [OF this(2)] ne show ?thesis by (elim exE) (intro exI conjI; elim conjE; assumption)
  qed
  have "3/10 \<le> \<bar>fl_score g\<bar>" "2 \<le> length ?c" if "actionable g"
    using that unfolding actionable_def g(1) by blast+
  with pair show ?thesis by (intro conjI impI g(2,3)) blast+
qed

definition flow_demo :: "flow_feature \<Rightarrow> real \<Rightarrow> flow_observation" where
  "flow_demo f v = \<lparr>fo_symbol = ''ABC'', fo_feature = f, fo_value = v, fo_at = Aware 0, fo_source = []\<rparr>"

lemma single_feature_never_acts_witness:
  "\<exists>g. flow_signal_of ''ABC'' (ingest_flow (flow_demo ETF_FLOW (6/10)) (ingest_flow (flow_demo BLOCK_TRADES 1) [])) = Some g \<and>
     actionable g \<and> fl_score g = 8/10 \<and>
     (\<exists>f1 f2. f1 \<noteq> f2 \<and> f1 \<in> set (fl_contributing g) \<and> f2 \<in> set (fl_contributing g))"
proof -
  let ?e = "ingest_flow (flow_demo ETF_FLOW (6/10)) (ingest_flow (flow_demo BLOCK_TRADES 1) [])"
  let ?g = "\<lparr>fl_symbol = ''ABC'', fl_score = 8/10, fl_contributing = [BLOCK_TRADES, ETF_FLOW]\<rparr>"
  have g: "flow_signal_of ''ABC'' ?e = Some ?g"
    by (simp add: flow_signal_of_def ingest_flow_def flow_demo_def dget_or_def Let_def)
  from single_feature_never_acts [OF g] g show ?thesis by (intro exI [of _ ?g]) (auto simp: actionable_def)
qed

text \<open>Two features that disagree are enough, though the documentation asks for agreement.\<close>

lemma disagreeing_features_act:
  "\<exists>g. flow_signal_of ''ABC'' (ingest_flow (flow_demo ETF_FLOW (- 3/10)) (ingest_flow (flow_demo BLOCK_TRADES 1) [])) = Some g \<and>
     actionable g"
  by (simp add: flow_signal_of_def ingest_flow_def flow_demo_def dget_or_def Let_def actionable_def)

section \<open>Where profit comes from\<close>

lemma attribution_adds_up:
  "at_total (attribute_trade t beta) = at_beta (attribute_trade t beta) + at_alpha (attribute_trade t beta)
     - at_slippage (attribute_trade t beta) - at_fees (attribute_trade t beta)"
  by (simp add: attribute_trade_def Let_def)

lemma attribution_totals:
  "(\<Sum>t\<leftarrow>ts. at_total (attribute_trade t beta)) = (\<Sum>t\<leftarrow>ts. at_beta (attribute_trade t beta)) +
     (\<Sum>t\<leftarrow>ts. at_alpha (attribute_trade t beta)) - (\<Sum>t\<leftarrow>ts. tr_slippage t + tr_fees t)"
  by (induction ts) (simp_all add: attribute_trade_def Let_def)

text \<open>
  The quality of the profit of a list of trades whose costs are not negative lies between 0
  and 1. There is none without a profit; a repeatable edge scores at least one half and needs an
  alpha that is positive and above the market's part; a single trade that carries the given share
  of more than three trades is called luck.
\<close>

theorem profit_quality_in_range:
  assumes "\<And>t. t \<in> set ts \<Longrightarrow> 0 \<le> tr_slippage t + tr_fees t"
    and "profit_quality (map (\<lambda>t. attribute_trade t beta) ts) share = (source, score)"
  shows "0 \<le> score \<and> score \<le> 1 \<and>
    (source = NO_PROFIT \<longleftrightarrow> (\<Sum>t\<leftarrow>ts. at_total (attribute_trade t beta)) \<le> 0) \<and>
    (source = REPEATABLE_EDGE \<longrightarrow> 1/2 \<le> score \<and> 0 < (\<Sum>t\<leftarrow>ts. at_alpha (attribute_trade t beta)) \<and>
       (\<Sum>t\<leftarrow>ts. at_beta (attribute_trade t beta)) < (\<Sum>t\<leftarrow>ts. at_alpha (attribute_trade t beta))) \<and>
    (source = LUCKY_OUTLIER \<longrightarrow> 3 < length ts \<and>
       (\<exists>t \<in> set ts. share * (\<Sum>t\<leftarrow>ts. at_total (attribute_trade t beta)) \<le> at_total (attribute_trade t beta)))"
proof -
  let ?total = "\<Sum>t\<leftarrow>ts. at_total (attribute_trade t beta)"
  let ?alpha = "\<Sum>t\<leftarrow>ts. at_alpha (attribute_trade t beta)" and ?beta = "\<Sum>t\<leftarrow>ts. at_beta (attribute_trade t beta)"
  have costs: "0 \<le> (\<Sum>t\<leftarrow>ts. tr_slippage t + tr_fees t)" using assms(1) by (intro sum_list_nonneg) auto
  have split: "?total = ?beta + ?alpha - (\<Sum>t\<leftarrow>ts. tr_slippage t + tr_fees t)" by (rule attribution_totals)
  have q: "profit_quality (map (\<lambda>t. attribute_trade t beta) ts) share =
    (if ?total \<le> 0 \<or> ts = [] then (NO_PROFIT, 0)
     else if share \<le> Max (set (map (\<lambda>t. at_total (attribute_trade t beta)) ts)) / ?total \<and> 3 < length ts then (LUCKY_OUTLIER, 2/10)
     else if ?beta < ?alpha then (REPEATABLE_EDGE, min 1 (1/2 + ?alpha / (\<bar>?total\<bar> + eps) / 2))
     else (MARKET_LIFT, 4/10))"
    by (simp add: profit_quality_def Let_def o_def)
  show ?thesis
  proof (cases "?total \<le> 0 \<or> ts = []")
    case True
    with q assms(2) show ?thesis by auto
  next
    case False
    then have pos: "0 < ?total" "ts \<noteq> []" by auto
    have edge: "0 < ?alpha" if "?beta < ?alpha" using split costs pos(1) that by linarith
    have score: "0 \<le> ?alpha / (\<bar>?total\<bar> + eps) / 2" if "?beta < ?alpha"
      using edge [OF that] by (simp add: add_nonneg_pos less_imp_le)
    have "Max (set (map (\<lambda>t. at_total (attribute_trade t beta)) ts)) \<in> set (map (\<lambda>t. at_total (attribute_trade t beta)) ts)"
      using pos(2) by (intro Max_in) simp_all
    then obtain t where t: "t \<in> set ts" "Max (set (map (\<lambda>t. at_total (attribute_trade t beta)) ts)) = at_total (attribute_trade t beta)"
      by (metis (no_types, lifting) imageE set_map)
    show ?thesis
    proof (cases "share \<le> Max (set (map (\<lambda>t. at_total (attribute_trade t beta)) ts)) / ?total \<and> 3 < length ts")
      case True
      with q assms(2) pos have "source = LUCKY_OUTLIER" "score = 2/10" by auto
      moreover have "share * ?total \<le> at_total (attribute_trade t beta)"
        using True pos(1) unfolding t(2) by (simp add: pos_le_divide_eq)
      ultimately show ?thesis using True t(1) pos by auto
    next
      case False
      with q assms(2) pos have s: "(source, score) =
        (if ?beta < ?alpha then (REPEATABLE_EDGE, min 1 (1/2 + ?alpha / (\<bar>?total\<bar> + eps) / 2)) else (MARKET_LIFT, 4/10))"
        by (simp only: if_False simp_thms) (metis (no_types, lifting) not_le)
      show ?thesis
      proof (cases "?beta < ?alpha")
        case True
        then show ?thesis using s edge score pos by (auto simp: min_def)
      qed (use s pos in auto)
    qed
  qed
qed

lemma profit_quality_in_range_witness:
  "profit_quality (map (\<lambda>t. attribute_trade t 1) [\<lparr>tr_symbol = ''ABC'', tr_qty = 10, tr_entry = 100, tr_exit = 110,
      tr_market = 2/100, tr_slippage = 1, tr_fees = 1, tr_alpha = ''momentum''\<rparr>]) (1/2) = (REPEATABLE_EDGE, 1/2 + 80 / (98 + eps) / 2) \<and>
   1/2 \<le> 1/2 + 80 / (98 + eps) / 2 \<and> 1/2 + 80 / (98 + eps) / 2 \<le> 1"
proof -
  let ?ts = "[\<lparr>tr_symbol = ''ABC'', tr_qty = 10, tr_entry = 100, tr_exit = 110,
      tr_market = 2/100, tr_slippage = 1, tr_fees = 1, tr_alpha = ''momentum''\<rparr>]"
  have "0 < 196 + eps * 2" using eps_pos(1) by linarith
  then have "80 / (196 + eps * 2) \<le> 1 / 2" by (subst pos_divide_le_eq) simp_all
  then have "1 / 2 + 80 / (196 + eps * 2) \<le> 1" by linarith
  then have q: "profit_quality (map (\<lambda>t. attribute_trade t 1) ?ts) (1/2) = (REPEATABLE_EDGE, 1/2 + 80 / (98 + eps) / 2)"
    by (auto simp: profit_quality_def attribute_trade_def Let_def min_def intro: antisym)
  from profit_quality_in_range [OF _ q] show ?thesis unfolding q by simp
qed

section \<open>Virtual portfolios and ablation\<close>

lemma record_shadow_session_get:
  assumes "record_shadow_session rs d = (Inr (), d')" and "dict_ok rs"
  shows "dget d' v = (case dget d v of None \<Rightarrow> None
    | Some p \<Rightarrow> Some (case dget rs v of None \<Rightarrow> p | Some r \<Rightarrow> mark_shadow r p))"
  using assms unfolding record_shadow_session_def
proof (induction rs arbitrary: d)
  case Nil
  then show ?case by (auto split: option.split)
next
  case (Cons x rs)
  obtain u r where x: "x = (u, r)" by force
  from Cons.prems(1) x obtain p where p: "dget d u = Some p" "for_each (\<lambda>(v, r) d. case dget d v of None \<Rightarrow> (Inl KeyError, d)
      | Some p \<Rightarrow> (Inr (), dput d v (mark_shadow r p))) rs (dput d u (mark_shadow r p)) = (Inr (), d')"
    by (auto split: option.splits)
  have ok: "dict_ok rs" "dget rs u = None" using Cons.prems(2) x by (auto simp: dict_ok_def dkeys_def dget_def map_of_eq_None_iff)
  from Cons.IH [OF p(2) ok(1)] p(1) ok(2) show ?case by (auto simp: x dict_simps split: option.split)
qed

lemma shadow_returns_keys: "shadow_returns d = Inr xs \<Longrightarrow> map fst xs = dkeys d"
  by (induction d arbitrary: xs) (auto simp: dkeys_def split: sum.splits)

lemma shadow_ranking_sorted:
  assumes "shadow_ranking d = Inr xs"
  shows "sorted (map (\<lambda>(v, x). - x) xs) \<and> mset (map fst xs) = mset (dkeys d)"
proof -
  from assms obtain ys where ys: "shadow_returns d = Inr ys" "xs = sort_key (\<lambda>(v, x). - x) ys"
    by (auto simp: shadow_ranking_def map_sum_def split: sum.splits)
  then have "mset xs = mset ys" by simp
  then have "mset (map fst xs) = mset (map fst ys)" by (metis mset_map)
  with shadow_returns_keys [OF ys(1)] ys(2) show ?thesis by simp
qed

text \<open>A feature is a candidate for removal exactly when its measured contribution is within the threshold.\<close>

lemma removable_iff:
  assumes "dict_ok d" and "\<And>k. k \<in> set (dkeys d) \<Longrightarrow> frozen k = k"
  shows "f \<in> set (removable_candidates th d) \<longleftrightarrow> (\<exists>c. feature_contribution f d = Some c \<and> c \<le> th)"
proof -
  have single: "frozen [f] = [f]" "frozen [] = []" by (simp_all add: frozen_def)
  have "(k, x) \<in> set d \<longleftrightarrow> dget d k = Some x" for k x
    using assms(1) by (auto simp: dict_ok_def dkeys_def dget_def)
  then have "f \<in> set (removable_candidates th d) \<longleftrightarrow>
      (\<exists>full k x. dget d [] = Some full \<and> dget d k = Some x \<and> length k = 1 \<and> hd k = f \<and> full - th \<le> x)"
    by (force simp: removable_candidates_def single split: option.split)
  also have "\<dots> \<longleftrightarrow> (\<exists>full x. dget d [] = Some full \<and> dget d [f] = Some x \<and> full - th \<le> x)"
    by (auto simp: length_Suc_conv intro!: exI [of _ "[f]"])
  finally show ?thesis by (auto simp: feature_contribution_def single split: option.split)
qed

end
