(* ===== verification/Replay.thy ===== *)
theory Replay
  imports PipelineDemo Calendar
begin

text \<open>
  \<open>services/quant/replay.py\<close> and \<open>services/pdca/review.py\<close>: sessions replayed day by day, and the
  review of a day. The hook of a day and the settlement between the days are part of the setup.
  The search for the next trading day takes a bound on its steps, as in \<open>Calendar\<close>. The lines of a
  narrative are tags; the target multiple of the reference pace is positive.
\<close>

section \<open>Replay\<close>

record replay_day =
  rd_day :: date
  rd_result :: session_result
  rd_equity :: real
  rd_drawdown :: real

definition total_sessions :: "replay_day list \<Rightarrow> nat" where
  "total_sessions ds = length ds"

definition sessions_traded :: "replay_day list \<Rightarrow> nat" where
  "sessions_traded ds = length (filter (\<lambda>d. traded (rd_result d)) ds)"

definition final_equity :: "replay_day list \<Rightarrow> real" where
  "final_equity ds = (if ds = [] then 0 else rd_equity (last ds))"

definition max_drawdown :: "replay_day list \<Rightarrow> real" where
  "max_drawdown ds = (if ds = [] then 0 else Max (set (map rd_drawdown ds)))"

definition all_sessions_accounted :: "replay_day list \<Rightarrow> bool" where
  "all_sessions_accounted ds = list_all (\<lambda>d. traded (rd_result d) \<or> rt_reasons (rd_result d) \<noteq> []) ds"

text \<open>A clock without \<open>current\<close> is left alone, a broker without \<open>settle\<close> too.\<close>

record 'b replay =
  rp_world :: "'b world"
  rp_provider :: provider
  rp_frozen :: bool
  rp_hook :: "(date \<Rightarrow> ('b pipeline, unit) act) option"
  rp_settle :: "('b \<Rightarrow> 'b) option"

definition session_time :: "date \<Rightarrow> int \<Rightarrow> exn + instant" where
  "session_time d hour =
     (if 0 \<le> hour \<and> hour < 24 then Inr ((to_ordinal d - 719163) * days_us + hour * 60 * minutes_us) else Inl ValueError)"

definition replay_one :: "'b replay \<Rightarrow> int \<Rightarrow> date \<Rightarrow> ('b pipeline, replay_day) act" where
  "replay_one e hour d =
     bind_act (of_res (session_time d hour)) (\<lambda>a_t.
     (let w = (if rp_frozen e then (rp_world e)\<lparr>wd_clock := a_t\<rparr> else rp_world e) in
      bind_act (case rp_hook e of None \<Rightarrow> ret () | Some f \<Rightarrow> f d) (\<lambda>_.
      bind_act (run_session w a_t) (\<lambda>result.
      bind_act (case rp_settle e of None \<Rightarrow> ret ()
        | Some f \<Rightarrow> on_engine (change (\<lambda>g. g\<lparr>en_broker := f (en_broker g)\<rparr>))) (\<lambda>_.
      bind_act (mark_prices w a_t []) (\<lambda>prices.
      bind_act (on_ledger (snapshot prices)) (\<lambda>snap.
        ret \<lparr>rd_day = d, rd_result = result, rd_equity = es_equity snap, rd_drawdown = es_drawdown snap\<rparr>)))))))"

fun replay_loop ::
    "'b replay \<Rightarrow> nat \<Rightarrow> int \<Rightarrow> date \<Rightarrow> nat \<Rightarrow> replay_day list \<Rightarrow> 'b pipeline \<Rightarrow>
     ((exn + replay_day list) \<times> 'b pipeline) option" where
  "replay_loop e bound hour d 0 days p = Some (Inr days, p)"
| "replay_loop e bound hour d (Suc n) days p =
     (case next_trading_from (rp_provider e) bound d of
        None \<Rightarrow> None
      | Some (Inl x) \<Rightarrow> Some (Inl x, p)
      | Some (Inr t) \<Rightarrow>
          (case replay_one e hour t p of
             (Inl x, p') \<Rightarrow> Some (Inl x, p')
           | (Inr day, p') \<Rightarrow> replay_loop e bound hour (next_day t) n (days @ [day]) p'))"

definition run_replay ::
    "'b replay \<Rightarrow> nat \<Rightarrow> date \<Rightarrow> nat \<Rightarrow> int \<Rightarrow> 'b pipeline \<Rightarrow> ((exn + replay_day list) \<times> 'b pipeline) option" where
  "run_replay e bound start sessions hour p = replay_loop e bound hour start sessions [] p"

section \<open>Daily review\<close>

datatype grade = GRADE_A | GRADE_B | GRADE_C | GRADE_D | GRADE_F

text \<open>The position in \<open>FDCBA\<close>.\<close>

fun grade_rank :: "grade \<Rightarrow> nat" where
  "grade_rank GRADE_F = 0"
| "grade_rank GRADE_D = 1"
| "grade_rank GRADE_C = 2"
| "grade_rank GRADE_B = 3"
| "grade_rank GRADE_A = 4"

record daily_review =
  dr_day :: date
  dr_pnl :: real
  dr_equity :: real
  dr_start :: real
  dr_target :: real
  dr_horizon :: int
  dr_index :: int
  dr_result :: "session_result option"
  dr_violations :: int
  dr_issues :: int
  dr_grades :: "(string, grade) dict"

definition theoretical_pace :: "daily_review \<Rightarrow> exn + real" where
  "theoretical_pace r =
     (if dr_horizon r = 0 then Inl ZeroDivisionError
      else let daily_growth = dr_target r powr (1 / of_int (dr_horizon r))
        in Inr (dr_start r * daily_growth powr of_int (dr_index r)))"

definition single_grades :: "daily_review \<Rightarrow> (string, grade) dict" where
  "single_grades r =
     [(''risk_compliance'', if dr_violations r = 0 then GRADE_A else GRADE_F),
      (''data_quality'', if dr_issues r = 0 then GRADE_A else if dr_issues r < 3 then GRADE_C else GRADE_F)] @
     (case dr_result r of None \<Rightarrow> []
      | Some t \<Rightarrow>
          [(''opportunity_quality'', if 0 < rt_risk_passed t then GRADE_A
              else if 0 < rt_decisions t then GRADE_B else GRADE_C),
           (''execution_quality'', if rt_filled t = rt_risk_passed t then GRADE_A
              else if 0 < rt_filled t then GRADE_B else GRADE_C)]) @
     [(''pnl'', if 0 < dr_pnl r then GRADE_A else if dr_pnl r = 0 then GRADE_B else GRADE_C)]"

definition worst_grade :: "grade list \<Rightarrow> grade" where
  "worst_grade gs = foldl (\<lambda>m g. if grade_rank g < grade_rank m then g else m) (hd gs) (tl gs)"

definition compute_grades :: "daily_review \<Rightarrow> (string, grade) dict \<times> daily_review" where
  "compute_grades r =
     (let g = single_grades r; g' = dput g ''overall'' (worst_grade (dvals g)) in (g', r\<lparr>dr_grades := g'\<rparr>))"

datatype narrative_line =
    WhyProfit real nat
  | WhyLoss real
  | WhyNoTrade "no_trade option"
  | WhatWasMissed nat
  | Reference real real

definition narrative :: "daily_review \<Rightarrow> exn + narrative_line list" where
  "narrative r =
     (case theoretical_pace r of Inl e \<Rightarrow> Inl e
      | Inr pace \<Rightarrow> Inr (
         (if 0 < dr_pnl r then [WhyProfit (dr_pnl r) (case dr_result r of None \<Rightarrow> 0 | Some t \<Rightarrow> rt_filled t)]
          else if dr_pnl r < 0 then [WhyLoss (dr_pnl r)] else []) @
         (case dr_result r of None \<Rightarrow> []
          | Some t \<Rightarrow>
              (if \<not> traded t then [WhyNoTrade (case rt_reasons t of [] \<Rightarrow> None | x # _ \<Rightarrow> Some x)] else []) @
              (if rt_vetoes t \<noteq> 0 then [WhatWasMissed (rt_vetoes t)] else [])) @
         [Reference pace (dr_equity r)]))"

section \<open>Every replayed session is accounted for\<close>

lemma replay_one_accounted:
  assumes "replay_one e hour d p = (Inr x, p')"
  shows "rd_day x = d \<and> (traded (rd_result x) \<or> rt_reasons (rd_result x) \<noteq> []) \<and>
    rt_filled (rd_result x) \<le> rt_risk_passed (rd_result x) \<and> rt_risk_passed (rd_result x) \<le> rt_scanned (rd_result x) \<and>
    0 \<le> rd_drawdown x"
proof -
  let ?Q = "\<lambda>r :: session_result. (traded r \<or> rt_reasons r \<noteq> []) \<and> rt_filled r \<le> rt_risk_passed r \<and> rt_risk_passed r \<le> rt_scanned r"
  have run: "triple (\<lambda>_. True) (run_session w t) (\<lambda>r _. ?Q r) (\<lambda>_. True)" for w :: "'a world" and t
  proof (rule tripleI)
    fix s r s' assume "run_session w t s = (Inr r, s')"
    from run_session_accounted [OF this] show "?Q r" by auto
  qed simp
  have snap: "triple (\<lambda>_. c) (on_ledger (snapshot prices)) (\<lambda>s _. 0 \<le> es_drawdown s \<and> c) (\<lambda>_. True :: bool)"
    for prices c
    by (rule tripleI)
      (auto simp: on_ledger_def on_part_def snapshot_def Let_def split: prod.splits sum.splits if_splits)
  have any: "triple (\<lambda>_. c) f (\<lambda>_ _. c) (\<lambda>_. True)" for c and f :: "('a pipeline, 'c) act"
    by (simp add: triple_def split: prod.splits sum.splits)
  have "triple (\<lambda>_. True) (replay_one e hour d) (\<lambda>x _. rd_day x = d \<and> ?Q (rd_result x) \<and> 0 \<le> rd_drawdown x) (\<lambda>_. True)"
    unfolding replay_one_def Let_def
    by (rule triple_bind [OF any], rule triple_bind [OF any], rule triple_bind [OF run], rule triple_bind [OF any],
        rule triple_bind [OF any], rule triple_bind [OF snap]) (auto intro!: triple_ret)
  from tripleD(1) [OF this _ assms] show ?thesis by auto
qed

definition trading :: "provider \<Rightarrow> date \<Rightarrow> bool" where
  "trading q d \<longleftrightarrow> is_trading_day q d = Inr True"

lemma days_until:
  assumes "t = (next_day ^^ k) d" and "trading q t" and "\<forall>j < k. is_trading_day q ((next_day ^^ j) d) = Inr False"
  shows "filter (trading q) (map (\<lambda>j. (next_day ^^ j) d) [0..<Suc k + n]) =
    t # filter (trading q) (map (\<lambda>j. (next_day ^^ j) (next_day t)) [0..<n])"
proof -
  have "[0..<Suc k + n] = [0..<k] @ k # map (\<lambda>j. j + Suc k) [0..<n]"
    by (metis add.commute append_Cons append_Nil append_assoc le_add1 map_add_upt upt_Suc upt_add_eq_append zero_le)
  moreover have "filter (trading q) (map (\<lambda>j. (next_day ^^ j) d) [0..<k]) = []"
    using assms(3) by (auto simp: filter_empty_conv trading_def)
  moreover have "(next_day ^^ (j + Suc k)) d = (next_day ^^ j) (next_day t)" for j
    by (simp add: assms(1) funpow_add funpow_swap1)
  ultimately show ?thesis using assms(1,2) by (simp add: o_def)
qed

lemma replay_loop_accounted:
  assumes "replay_loop e bound hour d n days p = Some (Inr ds, p')"
  shows "\<exists>new m. ds = days @ new \<and> length new = n \<and> all_sessions_accounted new \<and> list_all (\<lambda>x. 0 \<le> rd_drawdown x) new \<and>
    map rd_day new = filter (trading (rp_provider e)) (map (\<lambda>k. (next_day ^^ k) d) [0..<m])"
  using assms
proof (induction n arbitrary: d days p)
  case 0
  then show ?case by (intro exI [of _ "[]"] exI [of _ 0]) (simp add: all_sessions_accounted_def)
next
  case (Suc n)
  from Suc.prems obtain t day q where t: "next_trading_from (rp_provider e) bound d = Some (Inr t)"
    and day: "replay_one e hour t p = (Inr day, q)"
    and rest: "replay_loop e bound hour (next_day t) n (days @ [day]) q = Some (Inr ds, p')"
    by (auto split: option.splits sum.splits prod.splits)
  from Suc.IH [OF rest] obtain new m where new: "ds = days @ [day] @ new" "length new = n" "all_sessions_accounted new"
    "list_all (\<lambda>x. 0 \<le> rd_drawdown x) new"
    "map rd_day new = filter (trading (rp_provider e)) (map (\<lambda>k. (next_day ^^ k) (next_day t)) [0..<m])" by auto
  from next_trading_from_first [OF t] obtain k where k: "t = (next_day ^^ k) d" "trading (rp_provider e) t"
    "\<forall>j < k. is_trading_day (rp_provider e) ((next_day ^^ j) d) = Inr False" by (auto simp: trading_def)
  note one = replay_one_accounted [OF day]
  show ?case
    using new one days_until [OF k, of m]
    by (intro exI [of _ "day # new"] exI [of _ "Suc k + m"]) (auto simp: all_sessions_accounted_def)
qed

text \<open>
  C4. A replay that returns has run exactly the requested number of sessions, on the first trading
  days from the start on, none left out and none twice. Every session has traded or gives a
  reason, as the report claims, and no drawdown is negative.
\<close>

theorem replay_is_accounted:
  assumes "run_replay e bound start sessions hour p = Some (Inr ds, p')"
  shows "total_sessions ds = sessions \<and> all_sessions_accounted ds \<and> sessions_traded ds \<le> sessions \<and> 0 \<le> max_drawdown ds \<and>
    (\<exists>m. map rd_day ds = filter (\<lambda>d. is_trading_day (rp_provider e) d = Inr True) (map (\<lambda>k. (next_day ^^ k) start) [0..<m]))"
proof -
  from replay_loop_accounted [OF assms [unfolded run_replay_def]] obtain m where ds: "length ds = sessions"
    "all_sessions_accounted ds" "list_all (\<lambda>x. 0 \<le> rd_drawdown x) ds"
    "map rd_day ds = filter (trading (rp_provider e)) (map (\<lambda>k. (next_day ^^ k) start) [0..<m])" by auto
  have "0 \<le> max_drawdown ds"
  proof (cases ds)
    case (Cons x xs)
    then have "0 \<le> rd_drawdown x" "rd_drawdown x \<le> Max (set (map rd_drawdown ds))" using ds(3) by (auto intro!: Max_ge)
    moreover have "max_drawdown ds = Max (set (map rd_drawdown ds))" using Cons by (simp only: max_drawdown_def list.distinct if_False)
    ultimately show ?thesis by linarith
  qed (simp add: max_drawdown_def)
  moreover have "trading (rp_provider e) = (\<lambda>d. is_trading_day (rp_provider e) d = Inr True)"
    by (simp add: trading_def fun_eq_iff)
  ultimately show ?thesis
    using ds length_filter_le [of "\<lambda>d. traded (rd_result d)" ds] by (auto simp: total_sessions_def sessions_traded_def)
qed

section \<open>A replay on the shipped calendar ends\<close>

definition valid_day :: "date \<Rightarrow> bool" where
  "valid_day d \<longleftrightarrow> 1 \<le> mon d \<and> mon d \<le> 12 \<and> 1 \<le> dayno d \<and> dayno d \<le> days_in_month (yr d) (mon d)"

lemma next_day_valid: "valid_day d \<Longrightarrow> valid_day (next_day d)"
  by (cases d) (auto simp: valid_day_def days_in_month_def)

lemma next_days_valid: "valid_day d \<Longrightarrow> valid_day ((next_day ^^ k) d)"
  by (induction k) (auto intro: next_day_valid)

lemma days_of_iff: "d \<in> set (days_of y) \<longleftrightarrow> valid_day d \<and> yr d = y"
  by (cases d) (auto simp: days_of_def valid_day_def image_iff)

lemma shipped_day:
  "is_trading_day static_provider d = Inr True \<Longrightarrow> valid_day d \<Longrightarrow> d \<in> set (days_of 2025) \<union> set (days_of 2026)"
  by (auto simp: is_trading_day_def static_provider_def static_holidays_def days_of_iff split: if_splits)

lemma search_ends:
  assumes "d \<in> set (days_of 2025) \<union> set (days_of 2026)" and "6 \<le> bound"
  shows "next_trading_from static_provider bound d \<noteq> None" and "next_trading_from static_provider bound (next_day d) \<noteq> None"
proof -
  from assms loop_ends_2025 loop_ends_2026 have "loop_ends d" by (auto simp: list_all_iff)
  then obtain r where r: "next_trading_from static_provider 5 (next_day d) = Some r"
    by (auto simp: loop_ends_def next_trading_day_def)
  have "next_trading_from static_provider (Suc 5) d \<noteq> None"
    unfolding next_trading_from.simps r by (auto split: sum.split bool.split)
  then obtain q where "next_trading_from static_provider 6 d = Some q" by (auto simp: numeral_eq_Suc)
  from next_trading_from_mono [OF this assms(2)] show "next_trading_from static_provider bound d \<noteq> None" by simp
  from next_trading_from_mono [OF r] assms(2) show "next_trading_from static_provider bound (next_day d) \<noteq> None" by simp
qed

lemma replay_loop_ends:
  assumes "rp_provider e = static_provider" and "6 \<le> bound" and "valid_day d"
    and "next_trading_from static_provider bound d \<noteq> None"
  shows "replay_loop e bound hour d n days p \<noteq> None"
  using assms(3,4)
proof (induction n arbitrary: d days p)
  case (Suc n)
  then obtain r where r: "next_trading_from static_provider bound d = Some r" by auto
  show ?case
  proof (cases r)
    case (Inr t)
    from next_trading_from_first [OF r [unfolded Inr]] obtain k where "t = (next_day ^^ k) d"
      "is_trading_day static_provider t = Inr True" by blast
    with Suc.prems(1) have t: "valid_day t" "t \<in> set (days_of 2025) \<union> set (days_of 2026)"
      using next_days_valid shipped_day by blast+
    from Suc.IH [OF next_day_valid [OF t(1)] search_ends(2) [OF t(2) assms(2)]]
    show ?thesis by (auto simp: r Inr assms(1) split: prod.split sum.split)
  qed (simp add: r assms(1))
qed simp

text \<open>
  On the calendar data of the repository a replay that starts in a year of the data always
  ends, with a result or an exception, when each search for a trading day is given six steps.
\<close>

theorem replay_ends:
  assumes "rp_provider e = static_provider" and "start \<in> set (days_of 2025) \<union> set (days_of 2026)" and "6 \<le> bound"
  shows "\<exists>r p'. run_replay e bound start sessions hour p = Some (r, p')"
proof -
  have "valid_day start" using assms(2) by (auto simp: days_of_iff)
  from replay_loop_ends [OF assms(1,3) this search_ends(1) [OF assms(2,3)]] show ?thesis
    by (fastforce simp: run_replay_def)
qed

section \<open>The review\<close>

lemma worst_grade_least:
  assumes "gs \<noteq> []"
  shows "worst_grade gs \<in> set gs \<and> (\<forall>g \<in> set gs. grade_rank (worst_grade gs) \<le> grade_rank g)"
proof -
  have "foldl (\<lambda>m g. if grade_rank g < grade_rank m then g else m) x xs \<in> set (x # xs) \<and>
    (\<forall>g \<in> set (x # xs). grade_rank (foldl (\<lambda>m g. if grade_rank g < grade_rank m then g else m) x xs) \<le> grade_rank g)" for x xs
    by (induction xs arbitrary: x) (fastforce split: if_splits)+
  with assms show ?thesis by (cases gs) (simp_all add: worst_grade_def)
qed

lemma rank_F: "grade_rank g = 0 \<longleftrightarrow> g = GRADE_F"
  by (cases g) auto

text \<open>
  The overall grade of a day is the worst of its grades, whatever the profit: a violation of a
  risk rule or three data issues make it the lowest. And when the session of the day returned
  without a fill, the review names a reason that the session itself gave.
\<close>

theorem review_is_honest:
  assumes "run_session w now p = (Inr t, p')" and "dr_result r = Some t" and "dr_horizon r \<noteq> 0"
  shows "\<exists>overall lines. dget (fst (compute_grades r)) ''overall'' = Some overall \<and> narrative r = Inr lines \<and>
    (\<forall>g \<in> set (dvals (single_grades r)). grade_rank overall \<le> grade_rank g) \<and> overall \<in> set (dvals (single_grades r)) \<and>
    (overall = GRADE_F \<longleftrightarrow> dr_violations r \<noteq> 0 \<or> 3 \<le> dr_issues r) \<and>
    (\<not> traded t \<longrightarrow> (\<exists>x \<in> set (rt_reasons t). WhyNoTrade (Some x) \<in> set lines)) \<and>
    WhyNoTrade None \<notin> set lines"
proof -
  let ?gs = "dvals (single_grades r)" and ?o = "worst_grade (dvals (single_grades r))"
  have gs: "?gs \<noteq> []" "GRADE_F \<in> set ?gs \<longleftrightarrow> dr_violations r \<noteq> 0 \<or> 3 \<le> dr_issues r"
    by (auto simp: single_grades_def dvals_def assms(2))
  note worst = worst_grade_least [OF gs(1)]
  have F: "?o = GRADE_F \<longleftrightarrow> GRADE_F \<in> set ?gs"
    using worst rank_F by (metis grade_rank.simps(1) le_zero_eq)
  obtain pace where pace: "theoretical_pace r = Inr pace" using assms(3) by (simp add: theoretical_pace_def Let_def)
  have o: "dget (fst (compute_grades r)) ''overall'' = Some ?o"
    by (simp add: compute_grades_def Let_def dict_simps)
  from run_session_accounted [OF assms(1)] have why: "\<not> traded t \<longrightarrow> rt_reasons t \<noteq> []" by blast
  define lines where "lines = (case narrative r of Inr x \<Rightarrow> x | Inl _ \<Rightarrow> [])"
  have n: "narrative r = Inr lines" by (simp add: lines_def narrative_def pace)
  have "\<not> traded t \<longrightarrow> (\<exists>x \<in> set (rt_reasons t). WhyNoTrade (Some x) \<in> set lines)" "WhyNoTrade None \<notin> set lines"
    using why by (auto simp: lines_def narrative_def pace assms(2) split: list.split)
  with o n worst F gs(2) show ?thesis by (intro exI [of _ ?o] exI [of _ lines]) blast
qed

section \<open>Concrete replays\<close>

definition idle :: "paper pipeline \<Rightarrow> bool" where
  "idle p \<longleftrightarrow> pp_universe p = [] \<and> om_orders (en_machine (pp_engine p)) = [] \<and> pb_orders (en_broker (pp_engine p)) = [] \<and>
     pb_fault (en_broker (pp_engine p)) = NO_FAULT \<and> lg_lots (pp_ledger p) = []"

lemma idle_session:
  assumes "idle p"
  shows "\<exists>r p'. run_session demo_world t p = (Inr r, p') \<and> idle p' \<and> rt_reasons r = [NoCandidates] \<and> \<not> traded r"
proof -
  define q where "q = p\<lparr>pp_result := new_result, pp_theses := [], pp_captured := [], pp_prices := [], pp_sized := []\<rparr>"
  have q: "start_session p = (Inr (), q)" "pp_universe q = []" "pp_result q = new_result" "idle q"
    using assms by (simp_all add: start_session_def change_def q_def idle_def)
  have poll: "poll_resting_orders (en_broker (pp_engine q)) = (Inr [], en_broker (pp_engine q))"
    using q(4) by (simp add: idle_def poll_resting_orders_def check_disconnect_def bind_act_def ret_def dkeys_def)
  have manage: "manage_open_positions demo_world t q = (Inr (0, 0), q)"
    using q(4) poll by (simp add: idle_def manage_open_positions_def on_engine_def on_part_def sync_open_orders_def
        demo_world_def demo_world_with_def poll_broker_def paper_adapter_def bind_act_def ret_def dkeys_def)
  have u: "symbols_as_of [] d = []" for d by (simp add: symbols_as_of_def dvals_def)
  show ?thesis
    using q(4)
    by (simp add: run_session_def q(1-3) bind_act_def manage on_result_def change_def ask_def u scan_def
        new_result_def ret_def explain_def idle_def traded_def)
qed

definition demo_replay :: "paper replay" where
  "demo_replay = \<lparr>rp_world = demo_world, rp_provider = static_provider, rp_frozen = False, rp_hook = None, rp_settle = Some settle\<rparr>"

lemma idle_day:
  assumes "idle p"
  shows "\<exists>x p'. replay_one demo_replay 15 d p = (Inr x, p') \<and> idle p'"
proof -
  obtain a_t where a: "session_time d 15 = Inr a_t" by (simp add: session_time_def)
  obtain r q where q: "run_session demo_world a_t p = (Inr r, q)" "idle q" using idle_session [OF assms] by blast
  let ?q = "q\<lparr>pp_engine := (pp_engine q)\<lparr>en_broker := settle (en_broker (pp_engine q))\<rparr>\<rparr>"
  have m: "mark_prices demo_world a_t [] ?q = (Inr [], ?q)"
    using q(2) by (simp add: idle_def mark_prices_def dkeys_def)
  have "\<exists>s l. snapshot [] (pp_ledger ?q) = (Inr s, l) \<and> lg_lots l = []"
    using q(2) by (simp add: idle_def snapshot_def equity_def positions_value_def Let_def)
  then obtain s l where s: "snapshot [] (pp_ledger ?q) = (Inr s, l)" "lg_lots l = []" by blast
  have "replay_one demo_replay 15 d p = (Inr \<lparr>rd_day = d, rd_result = r, rd_equity = es_equity s, rd_drawdown = es_drawdown s\<rparr>, ?q\<lparr>pp_ledger := l\<rparr>)"
    using m s by (simp add: replay_one_def bind_act_def of_res_def a demo_replay_def Let_def ret_def q on_engine_def
        on_part_def change_def on_ledger_def)
  moreover have "idle (?q\<lparr>pp_ledger := l\<rparr>)" using q(2) s(2) by (simp add: idle_def settle_def)
  ultimately show ?thesis by blast
qed

lemma demo_idle: "idle (demo_start\<lparr>pp_universe := []\<rparr>)"
  by (simp add: idle_def demo_start_def demo_pipeline_def new_paper_def empty_machine_def the_ledger_def)

lemma demo_days:
  "next_trading_from static_provider 6 (Date 2025 7 4) = Some (Inr (Date 2025 7 7))"
  "next_trading_from static_provider 6 (Date 2025 7 8) = Some (Inr (Date 2025 7 8))"
  by code_simp+

lemma demo_replay_returns:
  "\<exists>ds p'. run_replay demo_replay 6 (Date 2025 7 4) 2 15 (demo_start\<lparr>pp_universe := []\<rparr>) = Some (Inr ds, p') \<and>
     map rd_day ds = [Date 2025 7 7, Date 2025 7 8]"
proof -
  have day: "rd_day x = d" if "replay_one demo_replay 15 d p = (Inr x, q)" for x d p q
    using replay_one_accounted [OF that] by blast
  obtain x q where x: "replay_one demo_replay 15 (Date 2025 7 7) (demo_start\<lparr>pp_universe := []\<rparr>) = (Inr x, q)" "idle q"
    using idle_day [OF demo_idle] by blast
  obtain y q' where y: "replay_one demo_replay 15 (Date 2025 7 8) q = (Inr y, q')" using idle_day [OF x(2)] by blast
  have d: "rp_provider demo_replay = static_provider" "next_day (Date 2025 7 7) = Date 2025 7 8"
    by (simp_all add: demo_replay_def days_in_month_def)
  show ?thesis
    using demo_days by (simp add: run_replay_def numeral_2_eq_2 d x(1) y del: next_day.simps add: day [OF x(1)] day [OF y])
qed

lemma replay_is_accounted_witness:
  "\<exists>ds p'. run_replay demo_replay 6 (Date 2025 7 4) 2 15 (demo_start\<lparr>pp_universe := []\<rparr>) = Some (Inr ds, p') \<and>
     map rd_day ds = [Date 2025 7 7, Date 2025 7 8] \<and> all_sessions_accounted ds \<and> 0 \<le> max_drawdown ds"
proof -
  obtain ds p' where ds: "run_replay demo_replay 6 (Date 2025 7 4) 2 15 (demo_start\<lparr>pp_universe := []\<rparr>) = Some (Inr ds, p')"
    "map rd_day ds = [Date 2025 7 7, Date 2025 7 8]" using demo_replay_returns by (elim exE conjE) (rule that)
  from replay_is_accounted [OF ds(1)] show ?thesis
    by (intro exI [of _ ds] exI [of _ p'] conjI ds) (elim conjE, assumption)+
qed

lemma replay_ends_witness:
  "\<exists>r p'. run_replay demo_replay 6 (Date 2025 7 4) 250 15 demo_start = Some (r, p')"
proof (rule replay_ends)
  show "Date 2025 7 4 \<in> set (days_of 2025) \<union> set (days_of 2026)" by (simp add: days_of_iff valid_day_def days_in_month_def)
qed (simp_all add: demo_replay_def)

lemma review_is_honest_witness:
  "\<exists>t r lines. dr_result r = Some t \<and> dr_pnl r = 100 \<and> dget (fst (compute_grades r)) ''overall'' = Some GRADE_F \<and>
     narrative r = Inr lines \<and> WhyNoTrade (Some NoCandidates) \<in> set lines"
proof -
  obtain t p' where t: "run_session demo_world 0 (demo_start\<lparr>pp_universe := []\<rparr>) = (Inr t, p')"
    "rt_reasons t = [NoCandidates]" "\<not> traded t" using idle_session [OF demo_idle] by blast
  define r where "r = \<lparr>dr_day = Date 2025 7 7, dr_pnl = 100, dr_equity = 1100, dr_start = 1000, dr_target = 100,
    dr_horizon = 250, dr_index = 1, dr_result = Some t, dr_violations = 1, dr_issues = 0, dr_grades = []\<rparr>"
  have "dr_result r = Some t" "dr_horizon r \<noteq> 0" "dr_violations r \<noteq> 0" "dr_pnl r = 100" by (simp_all add: r_def)
  with review_is_honest [OF t(1) this(1,2)] t(2,3) show ?thesis by (intro exI [of _ t] exI [of _ r]) auto
qed

end
