(* ===== verification/Json.thy ===== *)
theory Json
  imports Clock
begin

text \<open>
  JSON values as \<open>json.loads\<close> returns them, and the parts of Python that the program applies to
  them: truth value, \<open>.get\<close>, indexing, \<open>float\<close> and \<open>int\<close>. Each raises what Python raises for a
  value of the wrong type. Numbers are reals; the literals \<open>NaN\<close> and \<open>Infinity\<close>, which are not
  JSON, are outside. Reading a number from a text is a parameter.
\<close>

datatype json =
    JNull
  | JBool bool
  | JNum real
  | JStr string
  | JArr "json list"
  | JObj "(string \<times> json) list"

fun truthy :: "json \<Rightarrow> bool" where
  "truthy JNull = False"
| "truthy (JBool b) = b"
| "truthy (JNum x) = (x \<noteq> 0)"
| "truthy (JStr s) = (s \<noteq> [])"
| "truthy (JArr xs) = (xs \<noteq> [])"
| "truthy (JObj d) = (d \<noteq> [])"

text \<open>A step that may raise, followed by the rest.\<close>

definition then_res :: "exn + 'a \<Rightarrow> ('a \<Rightarrow> exn + 'b) \<Rightarrow> exn + 'b" where
  "then_res r f = (case r of Inl e \<Rightarrow> Inl e | Inr x \<Rightarrow> f x)"

lemma then_res_simps [simp]: "then_res (Inl e) f = Inl e" "then_res (Inr x) f = f x"
  by (simp_all add: then_res_def)

lemma then_res_Inr: "then_res r f = Inr y \<longleftrightarrow> (\<exists>x. r = Inr x \<and> f x = Inr y)"
  by (cases r) simp_all

text \<open>\<open>v.get(k)\<close>: only objects have the method; \<open>JNull\<close> is the default \<open>None\<close>.\<close>

fun jget :: "json \<Rightarrow> string \<Rightarrow> exn + json" where
  "jget (JObj d) k = Inr (dget_or d k JNull)"
| "jget _ k = Inl AttributeError"

text \<open>\<open>v[k]\<close> with a text as key.\<close>

fun jkey :: "json \<Rightarrow> string \<Rightarrow> exn + json" where
  "jkey (JObj d) k = (case dget d k of None \<Rightarrow> Inl KeyError | Some v \<Rightarrow> Inr v)"
| "jkey _ k = Inl TypeError"

text \<open>\<open>v[i]\<close> with a number: of a list, the characters of a text, and no key of an object.\<close>

fun jindex :: "json \<Rightarrow> nat \<Rightarrow> exn + json" where
  "jindex (JArr xs) i = (if i < length xs then Inr (xs ! i) else Inl IndexError)"
| "jindex (JStr s) i = (if i < length s then Inr (JStr [s ! i]) else Inl IndexError)"
| "jindex (JObj d) i = Inl KeyError"
| "jindex _ i = Inl TypeError"

text \<open>\<open>float(v)\<close>\<close>

fun jfloat :: "(string \<Rightarrow> real option) \<Rightarrow> json \<Rightarrow> exn + real" where
  "jfloat num (JNum x) = Inr x"
| "jfloat num (JBool b) = Inr (if b then 1 else 0)"
| "jfloat num (JStr s) = (case num s of None \<Rightarrow> Inl ValueError | Some x \<Rightarrow> Inr x)"
| "jfloat num _ = Inl TypeError"

text \<open>\<open>int(v)\<close>; \<open>int\<close> of a text accepts digits only.\<close>

fun jint :: "(string \<Rightarrow> int option) \<Rightarrow> json \<Rightarrow> exn + int" where
  "jint num (JNum x) = Inr (py_int x)"
| "jint num (JBool b) = Inr (if b then 1 else 0)"
| "jint num (JStr s) = (case num s of None \<Rightarrow> Inl ValueError | Some i \<Rightarrow> Inr i)"
| "jint num _ = Inl TypeError"

text \<open>\<open>list.extend(v)\<close>: the elements of a list, the keys of an object, the characters of a text.\<close>

fun jiter :: "json \<Rightarrow> exn + json list" where
  "jiter (JArr xs) = Inr xs"
| "jiter (JObj d) = Inr (map JStr (dkeys d))"
| "jiter (JStr s) = Inr (map (\<lambda>c. JStr [c]) s)"
| "jiter _ = Inl TypeError"

text \<open>\<open>v or w\<close>\<close>

definition jor :: "json \<Rightarrow> json \<Rightarrow> json" where
  "jor v w = (if truthy v then v else w)"

end
