(* ===== verification/LLMClient.thy ===== *)
theory LLMClient
  imports Json
begin

text \<open>
  Which agent runs on which model, and what it costs: \<open>packages/common/llm_client.py\<close> and
  \<open>packages/common/llm_usage.py\<close>. The environment variables, the installed packages and the
  constructors of the vendors' clients are parameters. A client is only ever called; a call
  returns a reply or raises.
\<close>

section \<open>Agents\<close>

datatype llm_provider = ANTHROPIC | OPENAI

fun provider_value :: "llm_provider \<Rightarrow> string" where
  "provider_value ANTHROPIC = ''anthropic''"
| "provider_value OPENAI = ''openai''"

datatype agent_role = DECISION | SKEPTIC | PRE_TRADE_AUDIT | MONITOR | JUDGE | BUILDER

fun role_value :: "agent_role \<Rightarrow> string" where
  "role_value DECISION = ''DECISION''"
| "role_value SKEPTIC = ''SKEPTIC''"
| "role_value PRE_TRADE_AUDIT = ''PRE_TRADE_AUDIT''"
| "role_value MONITOR = ''MONITOR''"
| "role_value JUDGE = ''JUDGE''"
| "role_value BUILDER = ''BUILDER''"

record agent_model =
  ag_role :: agent_role
  ag_provider :: llm_provider
  ag_model :: string
  ag_max_tokens :: int

definition agent_id :: "agent_model \<Rightarrow> string" where
  "agent_id a = str_lower (role_value (ag_role a)) @ '':'' @ provider_value (ag_provider a) @ '':'' @ ag_model a"

text \<open>\<open>os.environ\<close>\<close>

type_synonym environ = "string \<Rightarrow> string option"

definition env_or :: "environ \<Rightarrow> string \<Rightarrow> string \<Rightarrow> string" where
  "env_or env name dflt = (case env name of None \<Rightarrow> dflt | Some v \<Rightarrow> v)"

definition OPENAI_DECISION_MODEL :: "environ \<Rightarrow> string" where
  "OPENAI_DECISION_MODEL env = env_or env ''QUANT_OPENAI_DECISION_MODEL'' ''gpt-5.6-sol''"

record model_config =
  lc_decision :: agent_model
  lc_skeptic :: agent_model
  lc_audit :: agent_model
  lc_monitor :: agent_model
  lc_judge :: agent_model
  lc_builder :: agent_model

definition claude_agent :: "environ \<Rightarrow> agent_role \<Rightarrow> string \<Rightarrow> string \<Rightarrow> int \<Rightarrow> agent_model" where
  "claude_agent env role name dflt tokens =
     \<lparr>ag_role = role, ag_provider = ANTHROPIC, ag_model = env_or env name dflt, ag_max_tokens = tokens\<rparr>"

text \<open>\<open>LLMModelConfig()\<close>: every default reads the environment.\<close>

definition default_models :: "environ \<Rightarrow> model_config" where
  "default_models env =
     \<lparr>lc_decision = claude_agent env DECISION ''QUANT_DECISION_MODEL'' ''claude-opus-5'' 4096,
      lc_skeptic = claude_agent env SKEPTIC ''QUANT_SKEPTIC_MODEL'' ''claude-opus-5'' 4096,
      lc_audit = claude_agent env PRE_TRADE_AUDIT ''QUANT_AUDIT_MODEL'' ''claude-opus-5'' 4096,
      lc_monitor = claude_agent env MONITOR ''QUANT_MONITOR_MODEL'' ''claude-opus-5'' 2048,
      lc_judge = claude_agent env JUDGE ''QUANT_JUDGE_MODEL'' ''claude-opus-5'' 2048,
      lc_builder = claude_agent env BUILDER ''QUANT_BUILDER_MODEL'' ''claude-fable-5'' 4096\<rparr>"

fun for_role :: "model_config \<Rightarrow> agent_role \<Rightarrow> agent_model" where
  "for_role c DECISION = lc_decision c"
| "for_role c SKEPTIC = lc_skeptic c"
| "for_role c PRE_TRADE_AUDIT = lc_audit c"
| "for_role c MONITOR = lc_monitor c"
| "for_role c JUDGE = lc_judge c"
| "for_role c BUILDER = lc_builder c"

definition distinct_agents :: "model_config \<Rightarrow> string set" where
  "distinct_agents c =
     agent_id ` {lc_decision c, lc_skeptic c, lc_audit c, lc_monitor c, lc_judge c, lc_builder c}"

section \<open>Clients\<close>

text \<open>
  What the construction of a client depends on: the environment, whether
  \<open>~/.config/anthropic\<close> exists, the installed packages, and the vendors' constructors, the
  Anthropic one with the key it is given, if any.
\<close>

record 'c sdk =
  sd_env :: environ
  sd_config_dir :: bool
  sd_installed :: "llm_provider \<Rightarrow> bool"
  sd_anthropic :: "string option \<Rightarrow> 'c"
  sd_openai :: 'c

definition env_set :: "environ \<Rightarrow> string \<Rightarrow> bool" where
  "env_set env name \<longleftrightarrow> env_or env name [] \<noteq> []"

fun credentials_available :: "'c sdk \<Rightarrow> llm_provider \<Rightarrow> bool" where
  "credentials_available w OPENAI = env_set (sd_env w) ''OPENAI_API_KEY''"
| "credentials_available w ANTHROPIC =
     (env_set (sd_env w) ''MY_ANTHROPIC_API_KEY'' \<or> env_set (sd_env w) ''ANTHROPIC_AUTH_TOKEN''
      \<or> env_set (sd_env w) ''ANTHROPIC_PROFILE'' \<or> sd_config_dir w)"

fun build_client :: "'c sdk \<Rightarrow> llm_provider \<Rightarrow> exn + 'c" where
  "build_client w OPENAI =
     (if \<not> sd_installed w OPENAI then Inl LLMUnavailableError
      else if \<not> credentials_available w OPENAI then Inl LLMUnavailableError
      else Inr (sd_openai w))"
| "build_client w ANTHROPIC =
     (if \<not> sd_installed w ANTHROPIC then Inl LLMUnavailableError
      else if \<not> credentials_available w ANTHROPIC then Inl LLMUnavailableError
      else Inr (sd_anthropic w (if env_set (sd_env w) ''MY_ANTHROPIC_API_KEY''
                                then sd_env w ''MY_ANTHROPIC_API_KEY'' else None)))"

text \<open>
  \<open>lru_cache\<close> keys on the arguments as they are written: \<open>get_client()\<close> and
  \<open>get_client(Provider.ANTHROPIC)\<close> are two entries. With two providers there are at most three,
  so that the bound of four never evicts one. An exception is not cached.
\<close>

definition get_client :: "'c sdk \<Rightarrow> llm_provider option \<Rightarrow> ((llm_provider option, 'c) dict, 'c) act" where
  "get_client w arg cache =
     (case dget cache arg of
        Some c \<Rightarrow> (Inr c, cache)
      | None \<Rightarrow>
         (case build_client w (case arg of None \<Rightarrow> ANTHROPIC | Some p \<Rightarrow> p) of
            Inl e \<Rightarrow> (Inl e, cache)
          | Inr c \<Rightarrow> (Inr c, dput cache arg c)))"

definition resolve_decision_agent :: "'c sdk \<Rightarrow> model_config option \<Rightarrow> agent_model" where
  "resolve_decision_agent w config =
     (let cfg = (case config of None \<Rightarrow> default_models (sd_env w) | Some c \<Rightarrow> c) in
      if credentials_available w OPENAI
      then \<lparr>ag_role = DECISION, ag_provider = OPENAI, ag_model = OPENAI_DECISION_MODEL (sd_env w),
            ag_max_tokens = ag_max_tokens (lc_decision cfg)\<rparr>
      else lc_decision cfg)"

section \<open>Usage\<close>

record agent_usage =
  us_agent :: string
  us_model :: string
  us_calls :: int
  us_failures :: int
  us_in :: int
  us_out :: int
  us_cost :: "real option"

definition new_usage :: "string \<Rightarrow> string \<Rightarrow> agent_usage" where
  "new_usage a m = \<lparr>us_agent = a, us_model = m, us_calls = 0, us_failures = 0, us_in = 0, us_out = 0,
     us_cost = None\<rparr>"

text \<open>\<open>prices_from_env\<close>: \<open>loads\<close> is \<open>json.loads\<close>, \<open>num\<close> the reading of a number by \<open>float\<close>.\<close>

definition price_of :: "(string \<Rightarrow> real option) \<Rightarrow> json \<Rightarrow> exn + (real \<times> real)" where
  "price_of num p =
     (case jindex p 0 of Inl e \<Rightarrow> Inl e | Inr a \<Rightarrow>
      case jfloat num a of Inl e \<Rightarrow> Inl e | Inr x \<Rightarrow>
      case jindex p 1 of Inl e \<Rightarrow> Inl e | Inr b \<Rightarrow>
      case jfloat num b of Inl e \<Rightarrow> Inl e | Inr y \<Rightarrow> Inr (x, y))"

fun prices_of ::
    "(string \<Rightarrow> real option) \<Rightarrow> (string \<times> json) list \<Rightarrow> (string, real \<times> real) dict \<Rightarrow>
      exn + (string, real \<times> real) dict" where
  "prices_of num [] d = Inr d"
| "prices_of num ((m, p) # ps) d =
     (case price_of num p of Inl e \<Rightarrow> Inl e | Inr x \<Rightarrow> prices_of num ps (dput d m x))"

definition prices_from_env ::
    "(string \<Rightarrow> json option) \<Rightarrow> (string \<Rightarrow> real option) \<Rightarrow> environ \<Rightarrow> exn + (string, real \<times> real) dict" where
  "prices_from_env loads num env =
     (let raw = env_or env ''QUANT_LLM_PRICES'' [] in
      if raw = [] then Inr []
      else let parsed = (case loads raw of
               None \<Rightarrow> Inl ValueError
             | Some (JObj ps) \<Rightarrow> prices_of num ps []
             | Some _ \<Rightarrow> Inl AttributeError)
        in case parsed of
          Inl e \<Rightarrow> (if e \<in> {ValueError, TypeError, KeyError, IndexError} then Inr [] else Inl e)
        | Inr d \<Rightarrow> Inr d)"

text \<open>
  \<open>ul_costs\<close> are the calls of \<open>on_cost\<close> in their order, none if there is no listener.
\<close>

record usage_ledger =
  ul_prices :: "(string, real \<times> real) dict"
  ul_listening :: bool
  ul_costs :: "(instant \<times> string \<times> real) list"
  ul_agents :: "(string, agent_usage) dict"

definition mk_usage_ledger ::
    "(string \<Rightarrow> json option) \<Rightarrow> (string \<Rightarrow> real option) \<Rightarrow> environ \<Rightarrow> (string, real \<times> real) dict option \<Rightarrow> bool
      \<Rightarrow> exn + usage_ledger" where
  "mk_usage_ledger loads num env prices listening =
     (case (case prices of Some d \<Rightarrow> Inr d | None \<Rightarrow> prices_from_env loads num env) of
        Inl e \<Rightarrow> Inl e
      | Inr d \<Rightarrow> Inr \<lparr>ul_prices = d, ul_listening = listening, ul_costs = [], ul_agents = []\<rparr>)"

definition usage_row :: "usage_ledger \<Rightarrow> string \<Rightarrow> string \<Rightarrow> agent_usage" where
  "usage_row l a m = dget_or (ul_agents l) a (new_usage a m)"

definition call_cost :: "real \<times> real \<Rightarrow> int \<Rightarrow> int \<Rightarrow> real" where
  "call_cost price i out = (of_int i * fst price + of_int out * snd price) / 1000000"

definition the_cost :: "real option \<Rightarrow> real" where
  "the_cost c = (case c of None \<Rightarrow> 0 | Some x \<Rightarrow> x)"

lemma the_cost_simps [simp]: "the_cost None = 0" "the_cost (Some x) = x"
  by (simp_all add: the_cost_def)

definition record_call :: "instant \<Rightarrow> string \<Rightarrow> string \<Rightarrow> int \<Rightarrow> int \<Rightarrow> usage_ledger \<Rightarrow> usage_ledger" where
  "record_call now a m i out l =
     (let row = usage_row l a m;
          row' = row\<lparr>us_calls := us_calls row + 1, us_in := us_in row + i, us_out := us_out row + out\<rparr>
      in case dget (ul_prices l) m of
        None \<Rightarrow> l\<lparr>ul_agents := dput (ul_agents l) a row'\<rparr>
      | Some price \<Rightarrow>
          let cost = call_cost price i out in
          l\<lparr>ul_agents := dput (ul_agents l) a (row'\<lparr>us_cost := Some (the_cost (us_cost row') + cost)\<rparr>),
            ul_costs := (if ul_listening l then ul_costs l @ [(now, a, cost)] else ul_costs l)\<rparr>)"

definition record_failure :: "string \<Rightarrow> string \<Rightarrow> usage_ledger \<Rightarrow> usage_ledger" where
  "record_failure a m l =
     (let row = usage_row l a m
      in l\<lparr>ul_agents := dput (ul_agents l) a (row\<lparr>us_failures := us_failures row + 1\<rparr>)\<rparr>)"

definition usage_snapshot :: "usage_ledger \<Rightarrow> agent_usage list" where
  "usage_snapshot l = sort_key us_agent (dvals (ul_agents l))"

definition total_cost_usd :: "usage_ledger \<Rightarrow> real option" where
  "total_cost_usd l =
     (let costs = List.map_filter us_cost (dvals (ul_agents l))
      in if costs = [] then None else Some (sum_list costs))"

text \<open>The usage object of a reply: its attributes that are integers.\<close>

type_synonym usage = "string \<Rightarrow> int option"

fun pick :: "usage \<Rightarrow> string list \<Rightarrow> int" where
  "pick u [] = 0"
| "pick u (n # ns) = (case u n of Some v \<Rightarrow> v | None \<Rightarrow> pick u ns)"

definition tokens :: "usage \<Rightarrow> int \<times> int" where
  "tokens u = (pick u [''input_tokens'', ''prompt_tokens''], pick u [''output_tokens'', ''completion_tokens''])"

record 'p reply =
  rp_usage :: "usage option"
  rp_body :: 'p

text \<open>\<open>MeteredClient._wrap_call\<close> around the outcome of one call of the inner client.\<close>

definition metered_call ::
    "instant \<Rightarrow> string \<Rightarrow> string \<Rightarrow> exn + 'p reply \<Rightarrow> (usage_ledger, 'p reply) act" where
  "metered_call now a m outcome l =
     (case outcome of
        Inl e \<Rightarrow> (Inl e, record_failure a m l)
      | Inr r \<Rightarrow>
         (case rp_usage r of
            None \<Rightarrow> (Inr r, l)
          | Some u \<Rightarrow> (case tokens u of (i, out) \<Rightarrow> (Inr r, record_call now a m i out l))))"

section \<open>What the ledger says\<close>

text \<open>A history of metered calls: time, agent, model and outcome of each.\<close>

type_synonym 'p llm_call = "instant \<times> string \<times> string \<times> (exn + 'p reply)"

fun meter_all :: "'p llm_call list \<Rightarrow> usage_ledger \<Rightarrow> usage_ledger" where
  "meter_all [] l = l"
| "meter_all ((now, a, m, r) # cs) l = meter_all cs (snd (metered_call now a m r l))"

fun reported :: "'p llm_call \<Rightarrow> (int \<times> int) option" where
  "reported (now, a, m, Inl e) = None"
| "reported (now, a, m, Inr r) = map_option tokens (rp_usage r)"

fun failed_of :: "string \<Rightarrow> 'p llm_call \<Rightarrow> bool" where
  "failed_of b (now, a, m, r) = (a = b \<and> \<not> is_ok r)"

definition reports_of :: "string \<Rightarrow> 'p llm_call list \<Rightarrow> (int \<times> int) list" where
  "reports_of a cs = List.map_filter reported (filter (\<lambda>c. fst (snd c) = a) cs)"

fun charge :: "(string, real \<times> real) dict \<Rightarrow> 'p llm_call \<Rightarrow> (instant \<times> string \<times> real) option" where
  "charge prices (now, a, m, r) =
     (case (reported (now, a, m, r), dget prices m) of
        (Some (i, out), Some p) \<Rightarrow> Some (now, a, call_cost p i out)
      | _ \<Rightarrow> None)"

definition charges :: "(string, real \<times> real) dict \<Rightarrow> 'p llm_call list \<Rightarrow> (instant \<times> string \<times> real) list" where
  "charges prices cs = List.map_filter (charge prices) cs"

definition costs_of :: "string \<Rightarrow> (instant \<times> string \<times> real) list \<Rightarrow> real list" where
  "costs_of a ch = map (\<lambda>(t, b, c). c) (filter (\<lambda>(t, b, c). b = a) ch)"

definition sum_or_unknown :: "real list \<Rightarrow> real option" where
  "sum_or_unknown xs = (if xs = [] then None else Some (sum_list xs))"

definition new_ledger :: "(string, real \<times> real) dict \<Rightarrow> usage_ledger" where
  "new_ledger prices = \<lparr>ul_prices = prices, ul_listening = True, ul_costs = [], ul_agents = []\<rparr>"

lemma meter_all_snoc: "meter_all (cs @ [(now, a, m, r)]) l = snd (metered_call now a m r (meter_all cs l))"
  by (induction cs l rule: meter_all.induct) auto

lemma reports_of_snoc:
  "reports_of b (cs @ [c]) = reports_of b cs @
     (if fst (snd c) = b then (case reported c of None \<Rightarrow> [] | Some x \<Rightarrow> [x]) else [])"
  by (auto simp: reports_of_def List.map_filter_def split: option.splits)

lemma charges_snoc:
  "charges prices (cs @ [c]) = charges prices cs @ (case charge prices c of None \<Rightarrow> [] | Some x \<Rightarrow> [x])"
  by (auto simp: charges_def List.map_filter_def split: option.splits)

lemma costs_of_snoc: "costs_of b (ch @ [(t, a, c)]) = costs_of b ch @ (if a = b then [c] else [])"
  by (simp add: costs_of_def)

lemma costs_of_Nil [simp]: "costs_of b [] = []"
  by (simp add: costs_of_def)

lemma sum_or_unknown_snoc: "sum_or_unknown (xs @ [x]) = Some (the_cost (sum_or_unknown xs) + x)"
  by (simp add: sum_or_unknown_def the_cost_def)

definition row_says :: "(string, real \<times> real) dict \<Rightarrow> 'p llm_call list \<Rightarrow> string \<Rightarrow> agent_usage \<Rightarrow> bool" where
  "row_says prices cs a r \<longleftrightarrow>
     us_calls r = int (length (reports_of a cs))
     \<and> us_failures r = int (length (filter (failed_of a) cs))
     \<and> us_in r = sum_list (map fst (reports_of a cs))
     \<and> us_out r = sum_list (map snd (reports_of a cs))
     \<and> us_cost r = sum_or_unknown (costs_of a (charges prices cs))"

definition books_say :: "(string, real \<times> real) dict \<Rightarrow> 'p llm_call list \<Rightarrow> usage_ledger \<Rightarrow> bool" where
  "books_say prices cs l \<longleftrightarrow>
     ul_prices l = prices \<and> ul_listening l \<and> dict_ok (ul_agents l) \<and> ul_costs l = charges prices cs
     \<and> (\<forall>a m. row_says prices cs a (usage_row l a m))
     \<and> dsum (\<lambda>r. the_cost (us_cost r)) (ul_agents l) = sum_list (map (\<lambda>(t, b, c). c) (charges prices cs))"

lemma usage_row_put:
  "usage_row (l\<lparr>ul_agents := dput (ul_agents l) a r\<rparr>) b m = (if b = a then r else usage_row l b m)"
  "usage_row (l\<lparr>ul_agents := dput (ul_agents l) a r, ul_costs := cs\<rparr>) b m = (if b = a then r else usage_row l b m)"
  by (auto simp: usage_row_def dget_or_def dict_simps)

lemma dsum_row:
  "dsum (\<lambda>r. the_cost (us_cost r)) (dput (ul_agents l) a r) =
     dsum (\<lambda>r. the_cost (us_cost r)) (ul_agents l) + the_cost (us_cost r) - the_cost (us_cost (usage_row l a m))"
  by (auto simp: dsum_dput usage_row_def dget_or_def new_usage_def the_cost_def split: option.splits)

lemma books_say_step:
  assumes "books_say prices cs l"
  shows "books_say prices (cs @ [(now, a, m, r)]) (snd (metered_call now a m r l))"
proof (cases r)
  case (Inl e)
  have row: "us_cost (usage_row l a m\<lparr>us_failures := f\<rparr>) = us_cost (usage_row l a m)" for f by simp
  show ?thesis
    using assms Inl
    by (auto simp: books_say_def row_says_def metered_call_def record_failure_def Let_def usage_row_put
        reports_of_snoc charges_snoc dsum_row [where m = m])
next
  case (Inr p)
  show ?thesis
  proof (cases "rp_usage p")
    case None
    then show ?thesis
      using assms Inr by (auto simp: books_say_def row_says_def metered_call_def reports_of_snoc charges_snoc)
  next
    case (Some u)
    obtain i out where t: "tokens u = (i, out)" by (cases "tokens u")
    show ?thesis
    proof (cases "dget prices m")
      case None
      then show ?thesis
        using assms Inr Some t
        by (auto simp: books_say_def row_says_def metered_call_def record_call_def Let_def usage_row_put
            reports_of_snoc charges_snoc dsum_row [where m = m])
    next
      case (Some price)
      then show ?thesis
        using assms Inr \<open>rp_usage p = Some u\<close> t
        by (auto simp: books_say_def row_says_def metered_call_def record_call_def Let_def usage_row_put
            reports_of_snoc charges_snoc costs_of_snoc sum_or_unknown_snoc dsum_row [where m = m])
    qed
  qed
qed

lemma books_say_all: "books_say prices cs (meter_all cs (new_ledger prices))"
proof (induction cs rule: rev_induct)
  case Nil
  then show ?case
    by (simp add: books_say_def row_says_def new_ledger_def usage_row_def new_usage_def dget_or_def reports_of_def
        charges_def List.map_filter_def sum_or_unknown_def)
next
  case (snoc c cs)
  then show ?case by (cases c) (auto simp: meter_all_snoc intro: books_say_step)
qed

lemma sum_known_costs:
  "sum_list (List.map_filter us_cost (dvals d)) = dsum (\<lambda>r. the_cost (us_cost r)) d"
  by (induction d) (auto simp: List.map_filter_simps dvals_def the_cost_def split: option.splits)

lemma some_cost_known:
  assumes "books_say prices cs l"
  shows "List.map_filter us_cost (dvals (ul_agents l)) = [] \<longleftrightarrow> charges prices cs = []"
proof -
  have known: "us_cost r = sum_or_unknown (costs_of a (charges prices cs))" if "dget (ul_agents l) a = Some r" for a r
    using assms that by (auto simp: books_say_def row_says_def usage_row_def dget_or_def split: option.splits)
  have "(\<exists>r \<in> set (dvals (ul_agents l)). us_cost r \<noteq> None) \<longleftrightarrow> charges prices cs \<noteq> []"
  proof
    assume "\<exists>r \<in> set (dvals (ul_agents l)). us_cost r \<noteq> None"
    then obtain a r where "(a, r) \<in> set (ul_agents l)" "us_cost r \<noteq> None" by (auto simp: dvals_def)
    then show "charges prices cs \<noteq> []"
      using assms known in_set_dget [of "ul_agents l" a r]
      by (auto simp: books_say_def sum_or_unknown_def)
  next
    assume "charges prices cs \<noteq> []"
    then obtain t a c rest where ch: "charges prices cs = (t, a, c) # rest" by (metis neq_Nil_conv prod_cases3)
    have "us_cost (usage_row l a []) \<noteq> None"
      using assms ch by (auto simp: books_say_def row_says_def sum_or_unknown_def costs_of_def)
    then obtain r where "dget (ul_agents l) a = Some r" "us_cost r \<noteq> None"
      by (auto simp: usage_row_def dget_or_def new_usage_def split: option.splits)
    then show "\<exists>r \<in> set (dvals (ul_agents l)). us_cost r \<noteq> None" by (blast dest: dget_in_vals)
  qed
  then show ?thesis by (auto simp: List.map_filter_def filter_empty_conv)
qed

text \<open>
  C40. The ledger of model usage. After any history of metered calls, the row of an agent counts
  its failures, the replies that carried usage and their tokens; its cost is the sum of what its
  calls cost at the price of the model of each call, and unknown, not zero, when none of them had a
  price; the listener was told exactly these costs; and the total is the sum over all agents.
\<close>

theorem usage_is_accounted:
  "(\<forall>a m. row_says prices cs a (usage_row (meter_all cs (new_ledger prices)) a m))
   \<and> ul_costs (meter_all cs (new_ledger prices)) = charges prices cs
   \<and> total_cost_usd (meter_all cs (new_ledger prices)) = sum_or_unknown (map (\<lambda>(t, a, c). c) (charges prices cs))"
proof -
  let ?l = "meter_all cs (new_ledger prices)"
  have b: "books_say prices cs ?l" by (rule books_say_all)
  have "total_cost_usd ?l = sum_or_unknown (map (\<lambda>(t, a, c). c) (charges prices cs))"
    using b some_cost_known [OF b] by (auto simp: total_cost_usd_def Let_def sum_or_unknown_def sum_known_costs books_say_def)
  then show ?thesis using b by (simp add: books_say_def)
qed


section \<open>Agents and clients\<close>

text \<open>The role stands before the first colon of an id, so that a shared model never merges two agents.\<close>

lemma role_slug:
  "str_lower (role_value r) =
     (case r of DECISION \<Rightarrow> ''decision'' | SKEPTIC \<Rightarrow> ''skeptic'' | PRE_TRADE_AUDIT \<Rightarrow> ''pre_trade_audit''
      | MONITOR \<Rightarrow> ''monitor'' | JUDGE \<Rightarrow> ''judge'' | BUILDER \<Rightarrow> ''builder'')"
  by (cases r) (simp_all, code_simp+)

lemma role_prefix:
  "agent_id a = agent_id b \<Longrightarrow> ag_role a = ag_role b"
proof -
  have colon: "takeWhile (\<lambda>c. c \<noteq> CHR '':'') (agent_id x) = str_lower (role_value (ag_role x))" for x
    by (cases "ag_role x") (simp_all add: agent_id_def role_slug del: role_value.simps)
  assume "agent_id a = agent_id b"
  then have "str_lower (role_value (ag_role a)) = str_lower (role_value (ag_role b))" by (metis colon)
  then show ?thesis
    by (cases "ag_role a"; cases "ag_role b") (simp_all add: role_slug del: role_value.simps)
qed

lemma role_of_default: "ag_role (for_role (default_models env) r) = r"
  by (cases r) (simp_all add: default_models_def claude_agent_def)

lemma distinct_agents_roles:
  "distinct_agents c = (\<lambda>r. agent_id (for_role c r)) ` {DECISION, SKEPTIC, PRE_TRADE_AUDIT, MONITOR, JUDGE, BUILDER}"
  by (auto simp: distinct_agents_def)

lemma role_of_resolved: "ag_role (resolve_decision_agent w None) = DECISION"
  by (simp add: resolve_decision_agent_def default_models_def claude_agent_def Let_def)

text \<open>
  Roles are separate agents. Whatever the environment says, also when every role runs on the
  same model, the six roles have six different agent ids, and the agent that decides, of whichever
  provider, is neither the skeptic nor the pre-trade auditor nor the monitor.
\<close>

theorem agents_are_distinct:
  "card (distinct_agents (default_models (sd_env w))) = 6
   \<and> agent_id (resolve_decision_agent w None) \<notin>
       agent_id ` for_role (default_models (sd_env w)) ` {SKEPTIC, PRE_TRADE_AUDIT, MONITOR, JUDGE, BUILDER}"
proof -
  let ?c = "default_models (sd_env w)"
  let ?id = "\<lambda>r. agent_id (for_role ?c r)" and ?all = "{DECISION, SKEPTIC, PRE_TRADE_AUDIT, MONITOR, JUDGE, BUILDER}"
  have "inj_on ?id ?all" by (rule inj_onI) (metis role_prefix role_of_default)
  then have "card (?id ` ?all) = card ?all" by (rule card_image)
  also have "card ?all = 6" by simp
  finally have six: "card (distinct_agents ?c) = 6" unfolding distinct_agents_roles .
  have other: "agent_id (resolve_decision_agent w None) \<noteq> ?id r" if "r \<noteq> DECISION" for r
    using that role_prefix [of "resolve_decision_agent w None" "for_role ?c r"] role_of_default role_of_resolved
    by metis
  have "agent_id (resolve_decision_agent w None) \<notin> agent_id ` for_role ?c ` {SKEPTIC, PRE_TRADE_AUDIT, MONITOR, JUDGE, BUILDER}"
  proof
    assume "agent_id (resolve_decision_agent w None) \<in> agent_id ` for_role ?c ` {SKEPTIC, PRE_TRADE_AUDIT, MONITOR, JUDGE, BUILDER}"
    then obtain r where "r \<in> {SKEPTIC, PRE_TRADE_AUDIT, MONITOR, JUDGE, BUILDER}" "agent_id (resolve_decision_agent w None) = ?id r"
      by blast
    then show False using other [of r] by blast
  qed
  with six show ?thesis by blast
qed

text \<open>Two spellings of the default provider are two entries of the cache, hence two clients.\<close>

lemma default_client_is_built_twice:
  assumes "build_client w ANTHROPIC = Inr c"
  shows "get_client w None [] = (Inr c, [(None, c)])"
    and "get_client w (Some ANTHROPIC) [(None, c)] = (Inr c, [(None, c), (Some ANTHROPIC, c)])"
  using assms by (simp_all add: get_client_def)

text \<open>A cached client is returned whatever happened to the credentials.\<close>

lemma client_is_cached:
  "fst (get_client w arg cache) = Inr c \<Longrightarrow> fst (get_client w' arg (snd (get_client w arg cache))) = Inr c"
  by (cases "dget cache arg"; cases "build_client w (case arg of None \<Rightarrow> ANTHROPIC | Some p \<Rightarrow> p)")
    (simp_all add: get_client_def dict_simps)

text \<open>
  \<open>prices_from_env\<close> promises that a malformed price configuration does not break trading. A
  JSON value that is not an object has no \<open>items\<close>; the \<open>AttributeError\<close> is not among the caught ones.
\<close>

lemma malformed_prices_raise:
  assumes "env ''QUANT_LLM_PRICES'' = Some raw" "raw \<noteq> []" "loads raw = Some (JArr xs)"
  shows "prices_from_env loads num env = Inl AttributeError"
  using assms by (simp add: prices_from_env_def env_or_def)

end
