(* ===== verification/LLMSession.thy ===== *)
theory LLMSession
  imports LLMAdapters PipelineDemo
begin

text \<open>
  Language models inside a session: the pipeline's decision and skeptic are the adapters of a
  stack. A skeptic that cannot be reached vetoes every proposal, so that a session in which it is
  down opens no position, whatever the decision model says.
\<close>

text \<open>The context that the pipeline hands to both models; it carries no news.\<close>

definition model_context :: "decision_context \<Rightarrow> llm_context" where
  "model_context c =
     \<lparr>lx_scan = dc_scan c, lx_as_of = Some (Aware (dc_as_of c)), lx_regime = dc_regime c, lx_news = [],
      lx_summary = [(''cash'', dc_cash c)]\<rparr>"

definition with_claude_skeptic ::
    "formats \<Rightarrow> claude adapter_of \<Rightarrow> instant \<Rightarrow> usage_ledger \<Rightarrow> 'b world \<Rightarrow> 'b world" where
  "with_claude_skeptic fm ap t l w =
     w\<lparr>wd_critique := (\<lambda>d c. fst (claude_critique fm ap t d (model_context c) l))\<rparr>"

section \<open>A session whose skeptic always vetoes\<close>

definition vetoing :: "'b world \<Rightarrow> bool" where
  "vetoing w \<longleftrightarrow> (\<forall>d c k. wd_critique w d c = Inr k \<longrightarrow> sk_veto k)"

text \<open>Nothing planned and nothing sized; \<open>n\<close> decisions not yet vetoed.\<close>

definition barren :: "nat \<Rightarrow> session_result \<Rightarrow> sized_proposal list \<Rightarrow> nat \<Rightarrow> bool" where
  "barren n r z m \<longleftrightarrow> z = [] \<and> rt_planned r = 0 \<and> rt_decisions r = rt_vetoes r + n"

lemma barren_explain: "yields (barren n) (explain x) (\<lambda>_. barren n)"
  by (rule yields_explain) (simp add: barren_def)

lemma barren_calm: "calm f \<Longrightarrow> yields (barren n) f (\<lambda>_. barren n)"
  by (rule calm_yields)

lemma barren_explain_then:
  "calm f \<Longrightarrow> yields (barren n) (bind_act (explain x) (\<lambda>_. f)) (\<lambda>_. barren n)"
  by (rule triple_bind [OF barren_explain barren_calm])

lemma consider_buy_barren:
  assumes "vetoing w"
  shows "yields (barren 0) (consider_buy w now s ctx d) (\<lambda>_. barren 0)"
  unfolding consider_buy_def Let_def
proof (rule triple_bind [OF yields_result [where B = "barren 1"]], simp add: barren_def)
  have veto: "yields (barren 1) (bind_act (on_result (\<lambda>r. r\<lparr>rt_vetoes := rt_vetoes r + 1\<rparr>)) (\<lambda>_.
        bind_act (explain (SkepticVeto (sr_symbol s) (sk_objections k))) (\<lambda>_.
          stand_aside w now s D_AVOID d False True))) (\<lambda>_. barren 0)" for k
    by (rule triple_bind [OF yields_result [where B = "barren 0"]], simp add: barren_def)
      (intro barren_explain_then still_rules)
  show "yields (barren 1) (bind_act (of_res (wd_critique w d ctx)) (\<lambda>critique.
      bind_act (note_prov (decision_id_of w (sr_symbol s) now) (\<lambda>r. r\<lparr>pv_skeptic := Some critique\<rparr>)) (\<lambda>_.
      if sk_veto critique then
        bind_act (on_result (\<lambda>r. r\<lparr>rt_vetoes := rt_vetoes r + 1\<rparr>)) (\<lambda>_.
        bind_act (explain (SkepticVeto (sr_symbol s) (sk_objections critique))) (\<lambda>_.
          stand_aside w now s D_AVOID d False True))
      else propose_one w now s d critique))) (\<lambda>_. barren 0)"
  proof (rule triple_bind [OF triple_of_res [where Q = "\<lambda>k p. holds (barren 1) p \<and> sk_veto k"]])
    fix p k assume "holds (barren 1) p" "wd_critique w d ctx = Inr k"
    then show "holds (barren 1) p \<and> sk_veto k" using assms by (simp add: vetoing_def)
  next
    fix k :: skeptic_output
    show "triple (\<lambda>p. holds (barren 1) p \<and> sk_veto k) (bind_act (note_prov (decision_id_of w (sr_symbol s) now) (\<lambda>r. r\<lparr>pv_skeptic := Some k\<rparr>)) (\<lambda>_.
      if sk_veto k then
        bind_act (on_result (\<lambda>r. r\<lparr>rt_vetoes := rt_vetoes r + 1\<rparr>)) (\<lambda>_.
        bind_act (explain (SkepticVeto (sr_symbol s) (sk_objections k))) (\<lambda>_.
          stand_aside w now s D_AVOID d False True))
      else propose_one w now s d k)) (\<lambda>_. holds (barren 0)) (\<lambda>_. True)"
    proof (cases "sk_veto k")
      case True
      have "yields (barren 1) (bind_act (note_prov (decision_id_of w (sr_symbol s) now) (\<lambda>r. r\<lparr>pv_skeptic := Some k\<rparr>)) (\<lambda>_.
        bind_act (on_result (\<lambda>r. r\<lparr>rt_vetoes := rt_vetoes r + 1\<rparr>)) (\<lambda>_.
        bind_act (explain (SkepticVeto (sr_symbol s) (sk_objections k))) (\<lambda>_.
          stand_aside w now s D_AVOID d False True)))) (\<lambda>_. barren 0)"
        by (intro yields_calm_bind veto still_rules)
      with True show ?thesis by (simp add: triple_pre)
    next
      case False
      then show ?thesis by (simp add: triple_def)
    qed
  qed simp
qed

lemma decide_one_barren:
  assumes "vetoing w"
  shows "yields (barren 0) (decide_one w now rt s) (\<lambda>_. barren 0)"
  unfolding decide_one_def act_on_decision_def Let_def
  by (intro barren_explain_then consider_buy_barren [OF assms] barren_calm yields_throw triple_if yields_calm_attempt
      yields_calm_bind still_rules)

lemma decide_all_barren:
  assumes "vetoing w"
  shows "yields (barren 0) (decide_all w now ss scans) (\<lambda>_. barren 0)"
proof -
  have rest: "yields (barren 0) (bind_act (ask (\<lambda>p. (pp_sized p, rt_reasons (pp_result p)))) (\<lambda>(sized, reasons).
     if sized = [] then (if reasons = [] then explain NothingSurvived else ret ())
     else allocate_and_order w now)) (\<lambda>_. barren 0)"
  proof (rule triple_bind [OF triple_ask [where Q = "\<lambda>x p. holds (barren 0) p \<and> fst x = []"]])
    fix p :: "'a pipeline" assume "holds (barren 0) p"
    then show "holds (barren 0) p \<and> fst (pp_sized p, rt_reasons (pp_result p)) = []"
      by (simp add: holds_def barren_def)
  next
    fix x :: "sized_proposal list \<times> no_trade list"
    obtain z rs where x: "x = (z, rs)" by (cases x)
    have empty: "yields (barren 0) (if rs = [] then explain NothingSurvived else ret ()) (\<lambda>_. barren 0)"
      by (intro triple_if barren_explain barren_calm still_rules)
    show "triple (\<lambda>p. holds (barren 0) p \<and> fst x = []) (case x of (sized, reasons) \<Rightarrow>
       if sized = [] then (if reasons = [] then explain NothingSurvived else ret ())
       else allocate_and_order w now) (\<lambda>_. holds (barren 0)) (\<lambda>_. True)"
    proof (cases "z = []")
      case True
      have "triple (\<lambda>p. holds (barren 0) p \<and> fst x = []) (if rs = [] then explain NothingSurvived else ret ())
          (\<lambda>_. holds (barren 0)) (\<lambda>_. True)"
        by (rule triple_pre [OF empty]) simp
      then show ?thesis unfolding x case_prod_conv True by (simp only: if_True simp_thms refl)
    next
      case False
      with x show ?thesis by (simp add: triple_def)
    qed
  qed
  show ?thesis
    unfolding decide_all_def
    by (rule yields_calm_bind, rule still_rules, rule yields_calm_bind, rule still_rules,
        rule triple_bind [OF triple_for_each [OF decide_one_barren [OF assms]] rest])
qed

lemma gate_barren: "yields (barren 0) (gate_one w now s) (\<lambda>_. barren 0)"
  unfolding gate_one_def
  by (rule yields_calm_bind, rule still_rules, intro triple_option barren_explain_then barren_calm still_rules)

lemma gates_barren: "yields (barren 0) (collect (gate_one w now) xs) (\<lambda>_. barren 0)"
proof (induction xs)
  case (Cons x xs)
  have "yields (barren 0) (bind_act (gate_one w now x) (\<lambda>y. bind_act (collect (gate_one w now) xs) (\<lambda>ys. ret (y # ys)))) (\<lambda>_. barren 0)"
    by (rule triple_bind [OF gate_barren triple_bind [OF Cons barren_calm]]) (rule still_rules)
  then show ?case by (simp add: triple_def)
qed (simp add: triple_def)

lemma run_session_barren:
  assumes "vetoing w"
  shows "triple (\<lambda>_. True) (run_session w now) (\<lambda>r _. rt_planned r = 0 \<and> rt_decisions r = rt_vetoes r) (\<lambda>_. True)"
proof -
  have start: "triple (\<lambda>_. True) start_session (\<lambda>_. holds (barren 0)) (\<lambda>_. True)"
    unfolding start_session_def by (rule triple_change) (simp add: holds_def barren_def new_result_def)
  have count: "yields (barren 0) (on_result (\<lambda>r. r\<lparr>rt_stops_triggered := n\<rparr>)) (\<lambda>_. barren 0)"
    "yields (barren 0) (on_result (\<lambda>r. r\<lparr>rt_scanned := i, rt_candidates := j\<rparr>)) (\<lambda>_. barren 0)" for n i j
    by (rule yields_result, simp add: barren_def)+
  have last: "triple (holds (barren 0)) (ask pp_result) (\<lambda>r _. rt_planned r = 0 \<and> rt_decisions r = rt_vetoes r) (\<lambda>_. True)"
    by (rule triple_ask) (simp add: holds_def barren_def)
  have gated: "yields (barren 0) (bind_act (collect (gate_one w now) scans) (\<lambda>gated.
      if List.map_filter id gated = [] then explain NoQuoteAtAll
      else decide_all w now ss (List.map_filter id gated))) (\<lambda>_. barren 0)" for scans ss
    by (rule triple_bind [OF gates_barren]) (intro triple_if barren_explain decide_all_barren assms)
  show ?thesis
    unfolding run_session_def Let_def case_prod_beta
    by (rule triple_bind [OF start], rule triple_bind [OF barren_calm], rule still_rules, rule triple_bind [OF count(1)],
        rule triple_bind [OF barren_calm], rule still_rules, rule triple_bind [OF count(2)], rule triple_bind [OF _ last],
        intro triple_if barren_explain gated)
qed

text \<open>
  C5. A silent skeptic stops every entry. In a session whose skeptic is the Claude adapter and whose
  skeptic model never answers (no credentials, an outage, a refusal), every decision to buy is vetoed;
  nothing is planned, sized or filled, and the session says why it did not trade.
\<close>

theorem silent_skeptic_stops_entries:
  assumes "\<And>t. answer_of ap cl_skeptic SkepticPrompt t = None"
    and "run_session (with_claude_skeptic fm ap t l w) now p = (Inr r, p')"
  shows "rt_vetoes r = rt_decisions r \<and> rt_planned r = 0 \<and> rt_sized r = 0 \<and> rt_filled r = 0 \<and> rt_fills r = []
    \<and> rt_reasons r \<noteq> []"
proof -
  have "sk_veto k" if "fst (claude_critique fm ap t d c l) = Inr k" for d c k
    using that assms(1) by (cases rule: answer_cases [of ap t cl_skeptic SkepticPrompt "build_skeptic_prompt fm d c" l])
      (auto simp: claude_critique_def mk_skeptic_output_def)
  then have "vetoing (with_claude_skeptic fm ap t l w)" by (simp add: vetoing_def with_claude_skeptic_def)
  from tripleD(1) [OF run_session_barren [OF this] TrueI assms(2)]
  have zero: "rt_planned r = 0" "rt_decisions r = rt_vetoes r" by simp_all
  with run_session_accounted [OF assms(2)] show ?thesis by (auto simp: traded_def)
qed


theorem silent_skeptic_stops_entries_witness:
  "\<exists>r p'. run_session (with_claude_skeptic sample_formats sample_adapter 0 (new_ledger []) demo_world) (hhmm 10 0) demo_start
      = (Inr r, p') \<and> rt_decisions r = 1 \<and> rt_vetoes r = 1 \<and> rt_filled r = 0"
proof -
  let ?crit = "\<lambda>d c. fst (claude_critique sample_formats sample_adapter 0 d (model_context c) (new_ledger []))"
  let ?w = "with_claude_skeptic sample_formats sample_adapter 0 (new_ledger []) demo_world"
  let ?k = "\<lparr>sk_symbol = do_symbol demo_out, sk_objections = [''Skeptic AI unavailable '' @ em_dash @ '' treating as veto''],
    sk_severity = 1, sk_veto = True, sk_family = model_family sample_adapter\<rparr>"
  have none: "answer_of sample_adapter cl_skeptic SkepticPrompt t = None" for t
    by (simp add: answer_of_def sample_adapter_def claude_adapter_def sample_claude_def)
  have k: "?crit demo_out c = Inr ?k" for c
    using none by (cases rule: answer_cases [of sample_adapter 0 cl_skeptic SkepticPrompt
          "build_skeptic_prompt sample_formats demo_out (model_context c)" "new_ledger []"])
      (simp_all add: claude_critique_def mk_skeptic_output_def)
  have w: "?w = demo_world_with ?crit"
    by (simp add: with_claude_skeptic_def demo_world_def demo_world_with_def)
  obtain r p' where run: "run_session ?w (hhmm 10 0) demo_start = (Inr r, p')" and r: "rt_decisions r = 1"
    unfolding w using demo_session [of ?crit ?k] k by fastforce
  from silent_skeptic_stops_entries [OF none run] r show ?thesis
    by (intro exI [of _ r] exI [of _ p']) (simp add: run)
qed

end
