(* ===== verification/News.thy ===== *)
theory News
  imports Clock
begin

text \<open>
  \<open>services/news/engine.py\<close>: articles are deduplicated, clustered by tickers and day, and turned
  into signals. Article texts are bytes in UTF-8. \<open>str.lower\<close>, the hash of a normalised title and
  the text of a date are parameters. The patterns that detect instructions in a text match finitely
  many strings each; they are written out, so that \<open>re.search\<close> is the search for a part.
\<close>

section \<open>Articles and signals\<close>

datatype source_tier = SEC_PRIMARY | COMPANY_IR | RELIABLE_WIRE | MAJOR_MEDIA | ANALYST | SNS

fun tier_value :: "source_tier \<Rightarrow> nat" where
  "tier_value SEC_PRIMARY = 1"
| "tier_value COMPANY_IR = 2"
| "tier_value RELIABLE_WIRE = 3"
| "tier_value MAJOR_MEDIA = 4"
| "tier_value ANALYST = 5"
| "tier_value SNS = 6"

fun RELIABILITY :: "source_tier \<Rightarrow> real" where
  "RELIABILITY SEC_PRIMARY = 1"
| "RELIABILITY COMPANY_IR = 9/10"
| "RELIABILITY RELIABLE_WIRE = 8/10"
| "RELIABILITY MAJOR_MEDIA = 6/10"
| "RELIABILITY ANALYST = 5/10"
| "RELIABILITY SNS = 2/10"

definition INJECTION_PATTERNS :: "string list" where
  "INJECTION_PATTERNS =
     [[CHR 0xE3, CHR 0x82, CHR 0xB7, CHR 0xE3, CHR 0x82, CHR 0xB9, CHR 0xE3, CHR 0x83, CHR 0x86, CHR 0xE3, CHR 0x83,
       CHR 0xA0, CHR 0xE8, CHR 0xA8, CHR 0xAD, CHR 0xE5, CHR 0xAE, CHR 0x9A, CHR 0xE3, CHR 0x82, CHR 0x92, CHR 0xE5,
       CHR 0xA4, CHR 0x89, CHR 0xE6, CHR 0x9B, CHR 0xB4],
      [CHR 0xE3, CHR 0x81, CHR 0x93, CHR 0xE3, CHR 0x81, CHR 0xAE, CHR 0xE6, CHR 0xB3, CHR 0xA8, CHR 0xE6, CHR 0x96,
       CHR 0x87, CHR 0xE3, CHR 0x82, CHR 0x92, CHR 0xE5, CHR 0xAE, CHR 0x9F, CHR 0xE8, CHR 0xA1, CHR 0x8C],
      ''ignore previous instructions'', ''ignore prior instructions'', ''ignore all previous instructions'',
      ''ignore all prior instructions'',
      ''execute this order'', ''execute this trade'', ''execute the order'', ''execute the trade'',
      ''change risk settings'', ''change risk rules'', ''change the risk settings'', ''change the risk rules'',
      ''apikey'', ''api_key'', ''api key'', ''disregard your instructions'']"

definition POSITIVE :: "string list" where
  "POSITIVE = [''beat'', ''beats'', ''record'', ''upgrade'', ''approval'', ''approved'', ''surge'', ''guidance raised'',
     ''buyback'', ''acquisition'', [CHR 0xE5, CHR 0xA5, CHR 0x91, CHR 0xE7, CHR 0xB4, CHR 0x84],
     [CHR 0xE4, CHR 0xB8, CHR 0x8A, CHR 0xE6, CHR 0x96, CHR 0xB9, CHR 0xE4, CHR 0xBF, CHR 0xAE, CHR 0xE6, CHR 0xAD, CHR 0xA3]]"

definition NEGATIVE :: "string list" where
  "NEGATIVE = [''miss'', ''misses'', ''downgrade'', ''recall'', ''investigation'', ''lawsuit'', ''guidance cut'',
     ''bankruptcy'', ''delisting'',
     [CHR 0xE4, CHR 0xB8, CHR 0x8B, CHR 0xE6, CHR 0x96, CHR 0xB9, CHR 0xE4, CHR 0xBF, CHR 0xAE, CHR 0xE6, CHR 0xAD, CHR 0xA3],
     [CHR 0xE7, CHR 0xA0, CHR 0xB4, CHR 0xE7, CHR 0x94, CHR 0xA3]]"

definition HIGH_IMPACT :: "string list" where
  "HIGH_IMPACT = [''fda'', ''merger'', ''acquisition'', ''bankruptcy'', ''sec charges'', ''halt'', ''guidance'', ''earnings'']"

record news_item =
  ni_title :: string
  ni_text :: string
  ni_url :: string
  ni_source :: string
  ni_tier :: source_tier
  ni_at :: pydt
  ni_tickers :: "string list"

record news_signal =
  ns_cluster :: string
  ns_tickers :: "string list"
  ns_headline :: string
  ns_tier :: source_tier
  ns_reliability :: real
  ns_novelty :: real
  ns_impact :: real
  ns_direction :: real
  ns_sns_only :: bool
  ns_flagged :: bool
  ns_urls :: "string list"
  ns_at :: "instant option"

definition tradeable :: "news_signal \<Rightarrow> bool" where
  "tradeable s \<longleftrightarrow> \<not> ns_sns_only s \<and> \<not> ns_flagged s"

section \<open>Texts\<close>

record text_ops =
  tx_lower :: "string \<Rightarrow> string"
  tx_title_hash :: "string \<Rightarrow> string"
  tx_date :: "instant \<Rightarrow> string"

definition starts_with :: "string \<Rightarrow> string \<Rightarrow> bool" where
  "starts_with w t \<longleftrightarrow> take (length w) t = w"

text \<open>\<open>w in t\<close>\<close>

fun contains :: "string \<Rightarrow> string \<Rightarrow> bool" where
  "contains w [] = (w = [])"
| "contains w (c # t) = (starts_with w (c # t) \<or> contains w t)"

text \<open>\<open>t.count(w)\<close> of a non-empty \<open>w\<close>: occurrences that do not overlap.\<close>

function count_of :: "string \<Rightarrow> string \<Rightarrow> nat" where
  "count_of w t =
     (if w = [] \<or> t = [] then 0
      else if starts_with w t then Suc (count_of w (drop (length w) t))
      else count_of w (tl t))"
  by pat_completeness auto
termination by (relation "measure (\<lambda>(w, t). length t)") auto

declare count_of.simps [simp del]

fun join_space :: "string list \<Rightarrow> string" where
  "join_space [] = []"
| "join_space [s] = s"
| "join_space (s # ss) = s @ '' '' @ join_space ss"

fun join_tickers :: "string list \<Rightarrow> string" where
  "join_tickers [] = []"
| "join_tickers [s] = s"
| "join_tickers (s # ss) = s @ '','' @ join_tickers ss"

definition detect_injection :: "text_ops \<Rightarrow> string \<Rightarrow> bool" where
  "detect_injection tx t = (let lower = tx_lower tx t in list_ex (\<lambda>p. contains p lower) INJECTION_PATTERNS)"

definition body :: "news_item \<Rightarrow> string" where
  "body i = ni_title i @ '' '' @ ni_text i"

section \<open>The engine\<close>

record news_engine =
  nw_window :: int
  nw_seen :: "(string, instant) dict"
  nw_counts :: "(string, nat) dict"

definition new_news_engine :: "int \<Rightarrow> news_engine" where
  "new_news_engine window = \<lparr>nw_window = window, nw_seen = [], nw_counts = []\<rparr>"

definition content_hash :: "text_ops \<Rightarrow> news_item \<Rightarrow> string" where
  "content_hash tx i = tx_title_hash tx (ni_title i)"

definition is_duplicate :: "text_ops \<Rightarrow> int \<Rightarrow> (string, instant) dict \<Rightarrow> news_item \<Rightarrow> instant \<Rightarrow> bool" where
  "is_duplicate tx window seen i published =
     (case dget seen (content_hash tx i) of None \<Rightarrow> False | Some t \<Rightarrow> \<bar>published - t\<bar> \<le> window)"

definition cluster_key :: "text_ops \<Rightarrow> news_item \<Rightarrow> instant \<Rightarrow> string" where
  "cluster_key tx i published = join_tickers (sort (ni_tickers i)) @ '':'' @ tx_date tx published"

text \<open>The first loop: what has been seen, and the clusters of this batch.\<close>

fun gather ::
    "text_ops \<Rightarrow> int \<Rightarrow> news_item list \<Rightarrow> (string, instant) dict \<Rightarrow> (string, news_item list) dict
      \<Rightarrow> (exn + (string, news_item list) dict) \<times> (string, instant) dict" where
  "gather tx window [] seen clusters = (Inr clusters, seen)"
| "gather tx window (i # is) seen clusters =
     (case ensure_utc (ni_at i) of Inl e \<Rightarrow> (Inl e, seen) | Inr published \<Rightarrow>
      if is_duplicate tx window seen i published then gather tx window is seen clusters
      else let key = cluster_key tx i published in
        gather tx window is (dput seen (content_hash tx i) published)
          (dput clusters key (dget_or clusters key [] @ [i])))"

text \<open>\<open>min(cluster, key=...)\<close>: the first of the most trusted.\<close>

fun best_of :: "news_item \<Rightarrow> news_item list \<Rightarrow> news_item" where
  "best_of b [] = b"
| "best_of b (i # is) = (if tier_value (ni_tier i) < tier_value (ni_tier b) then best_of i is else best_of b is)"

definition text_of :: "text_ops \<Rightarrow> news_item list \<Rightarrow> string" where
  "text_of tx cluster = tx_lower tx (join_space (map body cluster))"

definition direction_of :: "string \<Rightarrow> real" where
  "direction_of t =
     (let pos = (\<Sum>w\<leftarrow>POSITIVE. count_of w t); neg = (\<Sum>w\<leftarrow>NEGATIVE. count_of w t)
      in if pos + neg = 0 then 0 else (real pos - real neg) / (real pos + real neg))"

definition impact_of :: "string \<Rightarrow> real" where
  "impact_of t = min 1 (2/10 + 2/10 * real (length (filter (\<lambda>w. contains w t) HIGH_IMPACT)))"

definition signal_of :: "text_ops \<Rightarrow> string \<Rightarrow> news_item list \<Rightarrow> nat \<Rightarrow> exn + news_signal" where
  "signal_of tx key cluster k =
     (let best = best_of (hd cluster) (tl cluster); t = text_of tx cluster in
      case ensure_utc (ni_at best) of Inl e \<Rightarrow> Inl e | Inr published \<Rightarrow>
      Inr \<lparr>ns_cluster = key, ns_tickers = ni_tickers best, ns_headline = ni_title best, ns_tier = ni_tier best,
           ns_reliability = RELIABILITY (ni_tier best), ns_novelty = 1 / real k, ns_impact = impact_of t,
           ns_direction = direction_of t, ns_sns_only = list_all (\<lambda>i. ni_tier i = SNS) cluster,
           ns_flagged = list_ex (\<lambda>i. detect_injection tx (body i)) cluster, ns_urls = map ni_url cluster,
           ns_at = Some published\<rparr>)"

fun emit :: "text_ops \<Rightarrow> (string, news_item list) dict \<Rightarrow> ((string, nat) dict, news_signal list) act" where
  "emit tx [] counts = (Inr [], counts)"
| "emit tx ((key, cluster) # cs) counts =
     (let k = dget_or counts key 0 + 1; counts' = dput counts key k in
      case signal_of tx key cluster k of Inl e \<Rightarrow> (Inl e, counts') | Inr s \<Rightarrow>
      case emit tx cs counts' of (Inl e, c) \<Rightarrow> (Inl e, c) | (Inr ss, c) \<Rightarrow> (Inr (s # ss), c))"

definition process_news :: "text_ops \<Rightarrow> news_item list \<Rightarrow> (news_engine, news_signal list) act" where
  "process_news tx items n =
     (case gather tx (nw_window n) items (nw_seen n) [] of
        (Inl e, seen) \<Rightarrow> (Inl e, n\<lparr>nw_seen := seen\<rparr>)
      | (Inr clusters, seen) \<Rightarrow>
          (case emit tx clusters (nw_counts n) of (r, counts) \<Rightarrow> (r, n\<lparr>nw_seen := seen, nw_counts := counts\<rparr>)))"

text \<open>\<open>sorted(..., reverse=True)[:n]\<close> for \<open>0 \<le> n\<close>; a reversed sort is stable.\<close>

definition top_news :: "news_signal list \<Rightarrow> nat \<Rightarrow> news_signal list" where
  "top_news signals n = take n (sort_key (\<lambda>s. - (ns_reliability s * ns_impact s * ns_novelty s)) signals)"

section \<open>What becomes a signal\<close>

text \<open>The articles of a batch that are not duplicates, with their times.\<close>

fun accepted ::
    "text_ops \<Rightarrow> int \<Rightarrow> news_item list \<Rightarrow> (string, instant) dict \<Rightarrow> (news_item \<times> instant) list" where
  "accepted tx window [] seen = []"
| "accepted tx window (i # is) seen =
     (case ensure_utc (ni_at i) of Inl e \<Rightarrow> [] | Inr published \<Rightarrow>
      if is_duplicate tx window seen i published then accepted tx window is seen
      else (i, published) # accepted tx window is (dput seen (content_hash tx i) published))"

lemma mset_dput_append:
  "mset (concat (dvals (dput d k (dget_or d k [] @ [x])))) = add_mset x (mset (concat (dvals d)))"
  by (induction d) (auto simp: dvals_def dget_or_def)

lemma dput_append_nonempty:
  assumes "[] \<notin> set (dvals d)" shows "[] \<notin> set (dvals (dput d k (ys @ [x])))"
  using set_dvals_dput [of d k "ys @ [x]"] assms by auto

lemma gather_accepted:
  assumes "gather tx window items seen clusters = (Inr cs, seen')"
  shows "mset (concat (dvals cs)) = mset (concat (dvals clusters)) + mset (map fst (accepted tx window items seen))"
    and "[] \<notin> set (dvals clusters) \<Longrightarrow> [] \<notin> set (dvals cs)"
  using assms
  by (induction tx window items seen clusters rule: gather.induct)
    (auto simp: Let_def mset_dput_append dput_append_nonempty split: sum.splits if_splits)

lemma accepted_aware: "(i, t) \<in> set (accepted tx window items seen) \<Longrightarrow> i \<in> set items \<and> ni_at i = Aware t"
proof (induction tx window items seen rule: accepted.induct)
  case (2 tx window j js seen)
  then show ?case by (cases "ni_at j") (auto split: if_splits)
qed simp

lemma best_of_cases: "best_of b is \<in> set (b # is)"
  by (induction b "is" rule: best_of.induct) auto

lemma best_of_least: "i \<in> set (b # is) \<Longrightarrow> tier_value (ni_tier (best_of b is)) \<le> tier_value (ni_tier i)"
  by (induction b "is" arbitrary: i rule: best_of.induct) (auto split: if_splits, fastforce+)

lemma tier_below_sns: "tier_value t < 6 \<longleftrightarrow> t \<noteq> SNS"
  by (cases t) simp_all

lemma direction_bounds: "- 1 \<le> direction_of t \<and> direction_of t \<le> 1"
proof -
  have r: "- 1 \<le> (real p - real n) / (real p + real n) \<and> (real p - real n) / (real p + real n) \<le> 1" if "p + n \<noteq> 0" for p n :: nat
    using that by (simp add: divide_le_eq le_divide_eq)
  define p where "p = (\<Sum>w\<leftarrow>POSITIVE. count_of w t)"
  define n where "n = (\<Sum>w\<leftarrow>NEGATIVE. count_of w t)"
  have d: "direction_of t = (if p + n = 0 then 0 else (real p - real n) / (real p + real n))"
    by (simp add: direction_of_def Let_def p_def n_def)
  show ?thesis
  proof (cases "p + n = 0")
    case True
    then show ?thesis unfolding d by simp
  next
    case False
    then show ?thesis unfolding d if_not_P [OF False] by (rule r)
  qed
qed

lemma impact_bounds: "2/10 \<le> impact_of t \<and> impact_of t \<le> 1"
  by (simp add: impact_of_def)

definition sound_for :: "text_ops \<Rightarrow> news_item list \<Rightarrow> news_signal \<Rightarrow> bool" where
  "sound_for tx cluster s \<longleftrightarrow>
     cluster \<noteq> [] \<and> ns_urls s = map ni_url cluster
     \<and> ns_tier s \<in> ni_tier ` set cluster \<and> (\<forall>i \<in> set cluster. tier_value (ns_tier s) \<le> tier_value (ni_tier i))
     \<and> 0 < ns_reliability s \<and> ns_reliability s \<le> 1 \<and> 0 < ns_novelty s \<and> ns_novelty s \<le> 1
     \<and> 2/10 \<le> ns_impact s \<and> ns_impact s \<le> 1 \<and> - 1 \<le> ns_direction s \<and> ns_direction s \<le> 1
     \<and> tradeable s = (ns_tier s \<noteq> SNS \<and> (\<forall>i \<in> set cluster. \<not> detect_injection tx (body i)))"

lemma signal_sound:
  assumes "signal_of tx key cluster k = Inr s" "cluster \<noteq> []" "1 \<le> k"
  shows "sound_for tx cluster s"
proof -
  let ?b = "best_of (hd cluster) (tl cluster)"
  have c: "hd cluster # tl cluster = cluster" using assms(2) by simp
  have b: "?b \<in> set cluster" "\<And>i. i \<in> set cluster \<Longrightarrow> tier_value (ni_tier ?b) \<le> tier_value (ni_tier i)"
    using best_of_cases [of "hd cluster" "tl cluster"] best_of_least [of _ "hd cluster" "tl cluster"] c by simp_all
  have sns: "list_all (\<lambda>i. ni_tier i = SNS) cluster \<longleftrightarrow> ni_tier ?b = SNS"
    using b tier_below_sns by (auto simp: list_all_iff) (metis leD leI order_le_less_trans)
  have rel: "0 < RELIABILITY t \<and> RELIABILITY t \<le> 1" for t by (cases t) simp_all
  have "ns_tier s = ni_tier ?b" using assms(1) by (auto simp: signal_of_def Let_def split: sum.splits)
  then have "ns_tier s \<in> ni_tier ` set cluster" using b(1) by (metis imageI)
  then show ?thesis
    using assms b sns rel [of "ni_tier ?b"] direction_bounds [of "text_of tx cluster"] impact_bounds [of "text_of tx cluster"]
    by (auto simp: sound_for_def signal_of_def Let_def tradeable_def list_ex_iff divide_le_eq split: sum.splits)
qed

lemma emit_sound:
  assumes "emit tx clusters counts = (Inr ss, counts')" "[] \<notin> set (dvals clusters)"
  shows "list_all2 (sound_for tx) (dvals clusters) ss"
  using assms
proof (induction tx clusters counts arbitrary: ss counts' rule: emit.induct)
  case (2 tx key cluster cs counts)
  let ?k = "dget_or counts key 0 + 1"
  from 2(2) obtain s ss' where s: "signal_of tx key cluster ?k = Inr s" "ss = s # ss'"
    "emit tx cs (dput counts key ?k) = (Inr ss', counts')"
    by (auto simp: Let_def split: sum.splits prod.splits)
  with 2 have "list_all2 (sound_for tx) (dvals cs) ss'" by (simp add: dvals_def)
  moreover have "cluster \<noteq> []" using 2(3) by (auto simp: dvals_def)
  moreover have "1 \<le> ?k" by simp
  ultimately show ?case using s(2) signal_sound [OF s(1)] by (simp add: dvals_def)
qed (simp add: dvals_def)

lemma sound_urls: "list_all2 (sound_for tx) clusters ss \<Longrightarrow> concat (map ns_urls ss) = map ni_url (concat clusters)"
  by (induction rule: list_all2_induct) (auto simp: sound_for_def)

lemma process_sound:
  assumes "process_news tx items n = (Inr ss, n')"
  shows "\<exists>clusters. list_all2 (sound_for tx) clusters ss
     \<and> mset (concat clusters) = mset (map fst (accepted tx (nw_window n) items (nw_seen n)))"
proof -
  obtain cs seen counts where g: "gather tx (nw_window n) items (nw_seen n) [] = (Inr cs, seen)"
    and e: "emit tx cs (nw_counts n) = (Inr ss, counts)"
    using assms by (auto simp: process_news_def split: prod.splits sum.splits)
  have "[] \<notin> set (dvals cs)" using gather_accepted(2) [OF g] by (simp add: dvals_def)
  from emit_sound [OF e this] gather_accepted(1) [OF g] show ?thesis
    by (intro exI [of _ "dvals cs"]) (simp add: dvals_def)
qed

text \<open>
  What a signal may claim. The signals of a batch share out its accepted articles: each comes
  from a cluster of them, represents it by its most trusted tier, and has reliability, novelty, impact
  and direction in their ranges; it is tradeable exactly when the cluster does not rest on social media
  alone and none of its articles contains an instruction.
\<close>

theorem signals_are_sound:
  assumes "process_news tx items n = (Inr ss, n')"
  shows "\<exists>clusters. mset (concat clusters) = mset (map fst (accepted tx (nw_window n) items (nw_seen n)))
    \<and> concat (map ns_urls ss) = map ni_url (concat clusters) \<and> list_all2 (sound_for tx) clusters ss"
  using process_sound [OF assms] sound_urls by blast

section \<open>Stories over time\<close>

text \<open>Batches one after the other; an exception ends the run.\<close>

fun run_news :: "text_ops \<Rightarrow> news_item list list \<Rightarrow> (news_engine, news_signal list) act" where
  "run_news tx [] n = (Inr [], n)"
| "run_news tx (b # bs) n =
     (case process_news tx b n of (Inl e, n') \<Rightarrow> (Inl e, n') | (Inr ss, n') \<Rightarrow>
      case run_news tx bs n' of (Inl e, n'') \<Rightarrow> (Inl e, n'') | (Inr ss', n'') \<Rightarrow> (Inr (ss @ ss'), n''))"

definition all_aware :: "news_item list \<Rightarrow> bool" where
  "all_aware is \<longleftrightarrow> list_all (\<lambda>i. is_ok (ensure_utc (ni_at i))) is"

definition time_of :: "news_item \<Rightarrow> instant" where
  "time_of i = (case ni_at i of Naive t \<Rightarrow> t | Aware t \<Rightarrow> t)"

lemma aware_time: "is_ok (ensure_utc (ni_at i)) \<Longrightarrow> ensure_utc (ni_at i) = Inr (time_of i)"
  by (cases "ni_at i") (simp_all add: time_of_def)

lemma gather_seen:
  assumes "gather tx window items seen clusters = (Inr cs, seen')"
  shows "accepted tx window (items @ rest) seen = accepted tx window items seen @ accepted tx window rest seen'"
    and "all_aware items"
  using assms
  by (induction tx window items seen clusters rule: gather.induct)
    (auto simp: Let_def all_aware_def split: sum.splits if_splits)

lemma process_state:
  assumes "process_news tx b n = (Inr ss, n')"
  shows "nw_window n' = nw_window n" "all_aware b"
    "accepted tx (nw_window n) (b @ rest) (nw_seen n) = accepted tx (nw_window n) b (nw_seen n) @ accepted tx (nw_window n) rest (nw_seen n')"
proof -
  obtain cs seen counts where g: "gather tx (nw_window n) b (nw_seen n) [] = (Inr cs, seen)"
    "n' = n\<lparr>nw_seen := seen, nw_counts := counts\<rparr>"
    using assms by (auto simp: process_news_def split: prod.splits sum.splits)
  with gather_seen [OF g(1)] show "nw_window n' = nw_window n" "all_aware b"
    "accepted tx (nw_window n) (b @ rest) (nw_seen n) = accepted tx (nw_window n) b (nw_seen n) @ accepted tx (nw_window n) rest (nw_seen n')"
    by simp_all
qed

lemma run_news_accepted:
  "run_news tx bs n = (Inr ss, n') \<Longrightarrow>
     mset (concat (map ns_urls ss)) = mset (map (\<lambda>x. ni_url (fst x)) (accepted tx (nw_window n) (concat bs) (nw_seen n)))
     \<and> all_aware (concat bs)"
proof (induction bs arbitrary: n ss)
  case (Cons b bs)
  obtain ss1 n1 ss2 where r: "process_news tx b n = (Inr ss1, n1)" "run_news tx bs n1 = (Inr ss2, n')" "ss = ss1 @ ss2"
    using Cons.prems by (auto split: prod.splits sum.splits)
  obtain cl where cl: "list_all2 (sound_for tx) cl ss1"
    "mset (concat cl) = mset (map fst (accepted tx (nw_window n) b (nw_seen n)))"
    using process_sound [OF r(1)] by blast
  have "mset (concat (map ns_urls ss1)) = image_mset ni_url (mset (concat cl))" using sound_urls [OF cl(1)] by simp
  then have first: "mset (concat (map ns_urls ss1)) = mset (map (\<lambda>x. ni_url (fst x)) (accepted tx (nw_window n) b (nw_seen n)))"
    unfolding cl(2) by (simp add: multiset.map_comp comp_def flip: mset_map)
  note st = process_state [OF r(1)]
  from Cons.IH [OF r(2)] first st(1,2) st(3) [of "concat bs"] r(3) show ?case by (auto simp: all_aware_def)
qed (simp add: all_aware_def)

lemma accepted_apart:
  assumes "sorted (map time_of items)" and "\<And>h s i. dget seen h = Some s \<Longrightarrow> i \<in> set items \<Longrightarrow> s \<le> time_of i"
  shows "sorted_wrt (\<lambda>(i, s) (j, t). content_hash tx i = content_hash tx j \<longrightarrow> s + window < t) (accepted tx window items seen)
    \<and> (\<forall>(i, t) \<in> set (accepted tx window items seen). \<forall>s. dget seen (content_hash tx i) = Some s \<longrightarrow> s + window < t)"
  using assms
proof (induction items arbitrary: seen)
  case (Cons i "is")
  show ?case
  proof (cases "ensure_utc (ni_at i)")
    case (Inr p)
    then have p: "p = time_of i" by (cases "ni_at i") (simp_all add: time_of_def)
    show ?thesis
    proof (cases "is_duplicate tx window seen i p")
      case True
      with Cons Inr show ?thesis by simp
    next
      case False
      let ?h = "content_hash tx i" and ?seen = "dput seen (content_hash tx i) p"
      have le: "s \<le> time_of j" if "dget ?seen h = Some s" "j \<in> set is" for h s j
        using that Cons.prems p by (auto simp: dict_simps split: if_splits)
      have IH: "sorted_wrt (\<lambda>(i, s) (j, t). content_hash tx i = content_hash tx j \<longrightarrow> s + window < t) (accepted tx window is ?seen)"
        "\<And>j t s. (j, t) \<in> set (accepted tx window is ?seen) \<Longrightarrow> dget ?seen (content_hash tx j) = Some s \<Longrightarrow> s + window < t"
      proof -
        have "sorted_wrt (\<lambda>(i, s) (j, t). content_hash tx i = content_hash tx j \<longrightarrow> s + window < t) (accepted tx window is ?seen)
          \<and> (\<forall>(i, t) \<in> set (accepted tx window is ?seen). \<forall>s. dget ?seen (content_hash tx i) = Some s \<longrightarrow> s + window < t)"
          by (rule Cons.IH [OF _ le]) (use Cons.prems(1) in auto)
        then show "sorted_wrt (\<lambda>(i, s) (j, t). content_hash tx i = content_hash tx j \<longrightarrow> s + window < t) (accepted tx window is ?seen)"
          "\<And>j t s. (j, t) \<in> set (accepted tx window is ?seen) \<Longrightarrow> dget ?seen (content_hash tx j) = Some s \<Longrightarrow> s + window < t"
          by blast+
      qed
      have new: "s + window < p" if "dget seen ?h = Some s" for s
        using that False Cons.prems(2) [of ?h s i] p by (auto simp: is_duplicate_def)
      have later: "s + window < t" if "(j, t) \<in> set (accepted tx window is ?seen)" "dget seen (content_hash tx j) = Some s" for j t s
      proof (cases "content_hash tx j = ?h")
        case True
        then have "p + window < t" using IH(2) [OF that(1)] by (simp add: dict_simps)
        moreover have "s \<le> p" using that(2) True Cons.prems(2) [of ?h s i] p by simp
        ultimately show ?thesis by simp
      next
        case False
        then show ?thesis using IH(2) [OF that(1)] that(2) by (simp add: dict_simps)
      qed
      have "accepted tx window (i # is) seen = (i, p) # accepted tx window is ?seen" using Inr False by simp
      moreover have "p + window < t" if "(j, t) \<in> set (accepted tx window is ?seen)" "?h = content_hash tx j" for j t
        using IH(2) [OF that(1)] that(2) by (simp add: dict_simps)
      ultimately show ?thesis using IH(1) new later by auto
    qed
  qed simp
qed simp

lemma accepted_covers:
  assumes "all_aware items" and "0 \<le> window" and "i \<in> set items"
  shows "(\<exists>(j, s) \<in> set (accepted tx window items seen). content_hash tx j = content_hash tx i \<and> \<bar>time_of i - s\<bar> \<le> window)
    \<or> (\<exists>s. dget seen (content_hash tx i) = Some s \<and> \<bar>time_of i - s\<bar> \<le> window)"
  using assms
proof (induction items arbitrary: seen)
  case (Cons k ks)
  have k: "ensure_utc (ni_at k) = Inr (time_of k)" using Cons.prems(1) by (intro aware_time) (simp add: all_aware_def)
  have ks: "all_aware ks" using Cons.prems(1) by (simp add: all_aware_def)
  show ?case
  proof (cases "is_duplicate tx window seen k (time_of k)")
    case True
    show ?thesis
    proof (cases "i \<in> set ks")
      case True
      with Cons.IH [OF ks Cons.prems(2) True, of seen] k \<open>is_duplicate tx window seen k (time_of k)\<close> show ?thesis by simp
    next
      case False
      then have "i = k" using Cons.prems(3) by simp
      with True show ?thesis by (auto simp: is_duplicate_def split: option.splits)
    qed
  next
    case False
    let ?seen = "dput seen (content_hash tx k) (time_of k)"
    have a: "accepted tx window (k # ks) seen = (k, time_of k) # accepted tx window ks ?seen" using k False by simp
    show ?thesis
    proof (cases "i = k")
      case True
      then show ?thesis unfolding a using Cons.prems(2) by auto
    next
      case False
      then have "i \<in> set ks" using Cons.prems(3) by simp
      from Cons.IH [OF ks Cons.prems(2) this, of ?seen] show ?thesis unfolding a by (auto simp: dict_simps split: if_splits)
    qed
  qed
qed simp

definition told_once :: "text_ops \<Rightarrow> int \<Rightarrow> news_item list \<Rightarrow> (news_item \<times> instant) list \<Rightarrow> bool" where
  "told_once tx window items told \<longleftrightarrow>
     (\<forall>(i, t) \<in> set told. i \<in> set items \<and> ni_at i = Aware t)
     \<and> sorted_wrt (\<lambda>(i, s) (j, t). content_hash tx i = content_hash tx j \<longrightarrow> s + window < t) told
     \<and> (\<forall>i \<in> set items. \<exists>(j, s) \<in> set told. content_hash tx j = content_hash tx i \<and> \<bar>time_of i - s\<bar> \<le> window)"

text \<open>
  C36. Every story is told once. Over any sequence of batches that are published in order of time,
  the signals together cite a selection of the articles in which two of the same title are more than
  the novelty window apart, and from which no story is missing: every article has one of the same title
  within the window of it.
\<close>

theorem stories_are_told_once:
  assumes "run_news tx bs (new_news_engine window) = (Inr ss, n')" and "0 \<le> window"
    and "sorted (map time_of (concat bs))"
  shows "\<exists>told. mset (concat (map ns_urls ss)) = mset (map (\<lambda>x. ni_url (fst x)) told) \<and> told_once tx window (concat bs) told"
proof -
  let ?told = "accepted tx window (concat bs) []"
  have r: "mset (concat (map ns_urls ss)) = mset (map (\<lambda>x. ni_url (fst x)) ?told)" "all_aware (concat bs)"
    using run_news_accepted [OF assms(1)] by (simp_all add: new_news_engine_def)
  have "told_once tx window (concat bs) ?told"
    unfolding told_once_def
    using accepted_aware [of _ _ tx window "concat bs" "[]"] accepted_apart [OF assms(3), of "[]" tx window]
      accepted_covers [OF r(2) assms(2), of _ tx "[]"] by auto
  with r(1) show ?thesis by blast
qed

text \<open>
  Only the last accepted time of a title is remembered. When an older article is delivered again
  after a newer one of the same title, it is news once more, although it was seen before.
\<close>

lemma redelivered_story_is_news_again:
  assumes "ni_at a = Aware 0" "ni_at b = Aware t" "content_hash tx a = content_hash tx b" "window < t" "0 \<le> window"
  shows "accepted tx window [a, b, a] [] = [(a, 0), (b, t), (a, 0)]"
  using assms by (simp add: is_duplicate_def)

section \<open>A concrete feed\<close>

definition demo_texts :: text_ops where
  "demo_texts = \<lparr>tx_lower = str_lower, tx_title_hash = (\<lambda>t. t), tx_date = (\<lambda>t. ''day'')\<rparr>"

definition demo_item :: "string \<Rightarrow> string \<Rightarrow> source_tier \<Rightarrow> instant \<Rightarrow> news_item" where
  "demo_item title url tier t = \<lparr>ni_title = title, ni_text = [], ni_url = url, ni_source = ''feed'', ni_tier = tier,
     ni_at = Aware t, ni_tickers = [''A'']\<rparr>"

definition demo_feed :: "news_item list list" where
  "demo_feed = [[demo_item ''X'' ''u1'' SNS 0], [demo_item ''X'' ''u2'' ANALYST 5]]"

lemma demo_dates: "tx_title_hash demo_texts t = t" "tx_date demo_texts s = ''day''"
  by (simp_all add: demo_texts_def)

lemma demo_batches:
  "\<exists>s n'. process_news demo_texts (hd demo_feed) (new_news_engine 10) = (Inr [s], n')
     \<and> run_news demo_texts demo_feed (new_news_engine 10) = (Inr [s], n') \<and> ns_urls s = [''u1''] \<and> ns_sns_only s"
  by (simp add: demo_feed_def demo_item_def process_news_def new_news_engine_def is_duplicate_def content_hash_def
      demo_dates cluster_key_def signal_of_def Let_def dget_or_def)

theorem signals_are_sound_witness:
  "\<exists>s n'. process_news demo_texts (hd demo_feed) (new_news_engine 10) = (Inr [s], n') \<and> ns_novelty s \<le> 1 \<and> \<not> tradeable s"
proof -
  obtain s n' where s: "process_news demo_texts (hd demo_feed) (new_news_engine 10) = (Inr [s], n')" "ns_sns_only s"
    using demo_batches by blast
  from signals_are_sound [OF s(1)] obtain c where "sound_for demo_texts c s" by (auto simp: list_all2_Cons2)
  then have "ns_novelty s \<le> 1" by (simp add: sound_for_def)
  with s show ?thesis by (auto simp: tradeable_def)
qed

theorem stories_are_told_once_witness:
  "\<exists>told. mset [''u1''] = mset (map (\<lambda>x. ni_url (fst x)) told) \<and> told_once demo_texts 10 (concat demo_feed) told"
proof -
  obtain s n' where s: "run_news demo_texts demo_feed (new_news_engine 10) = (Inr [s], n')" "ns_urls s = [''u1'']"
    using demo_batches by blast
  have "sorted (map time_of (concat demo_feed))" by (simp add: demo_feed_def demo_item_def time_of_def)
  from stories_are_told_once [OF s(1) _ this] s(2) show ?thesis by simp
qed

end
