(* ===== verification/Alpaca.thy ===== *)
theory Alpaca
  imports Json MarketData
begin

text \<open>
  \<open>services/market_data/alpaca_provider.py\<close>: daily bars and quotes from a vendor's data API. The
  server is a parameter: a function from requests to answers that may change its own state. Addresses
  and headers of the requests are left out. \<open>json.loads\<close>, the reading of numbers and of ISO times, and
  the clock are parameters; a time that is read has its calendar date, in its own zone, and its
  value. Calendar days are days since the epoch.
\<close>

section \<open>Requests\<close>

datatype alpaca_request = BarsRequest string int int "json option" | QuoteRequest string

datatype http_outcome = HttpOk string | HttpStatus int | HttpFailed

text \<open>\<open>_urllib_get\<close>: every failure of the transport, and a body that is not JSON, is one exception.\<close>

definition urllib_get :: "(string \<Rightarrow> json option) \<Rightarrow> http_outcome \<Rightarrow> exn + json" where
  "urllib_get loads r =
     (case r of
        HttpOk body \<Rightarrow> (case loads body of None \<Rightarrow> Inl MarketDataUnavailable | Some v \<Rightarrow> Inr v)
      | HttpStatus code \<Rightarrow> Inl MarketDataUnavailable
      | HttpFailed \<Rightarrow> Inl MarketDataUnavailable)"

definition utc_day :: "instant \<Rightarrow> int" where
  "utc_day t = t div days_us"

definition SOURCE :: string where
  "SOURCE = ''alpaca-iex''"

definition BAR_CLOSE_HOUR_UTC :: int where
  "BAR_CLOSE_HOUR_UTC = 20"

definition MAX_QUOTE_AGE :: int where
  "MAX_QUOTE_AGE = days_us"

text \<open>What the language reads for the program: \<open>float\<close> and \<open>int\<close> of a text, and \<open>fromisoformat\<close>.\<close>

record readers =
  rd_float :: "string \<Rightarrow> real option"
  rd_int :: "string \<Rightarrow> int option"
  rd_iso :: "string \<Rightarrow> (int \<times> pydt) option"

record 'w alpaca =
  al_server :: 'w
  al_cache :: "(string \<times> int \<times> int, real bar list) dict"

definition mk_alpaca :: "string \<Rightarrow> string \<Rightarrow> 'w \<Rightarrow> exn + 'w alpaca" where
  "mk_alpaca key secret w =
     (if key = [] \<or> secret = [] then Inl MarketDataUnavailable else Inr \<lparr>al_server = w, al_cache = []\<rparr>)"

definition alpaca_from_env :: "(string \<Rightarrow> string option) \<Rightarrow> 'w \<Rightarrow> exn + 'w alpaca" where
  "alpaca_from_env env w =
     (let value = (\<lambda>name. case env name of None \<Rightarrow> [] | Some v \<Rightarrow> v)
      in mk_alpaca (value ''APCA_API_KEY_ID'') (value ''APCA_API_SECRET_KEY'') w)"

section \<open>Bars\<close>

text \<open>\<open>r["t"].replace("Z", "+00:00")\<close> of a text, and the time it denotes.\<close>

definition replace_zulu :: "string \<Rightarrow> string" where
  "replace_zulu t = concat (map (\<lambda>c. if c = CHR ''Z'' then ''+00:00'' else [c]) t)"

definition read_time :: "readers \<Rightarrow> json \<Rightarrow> exn + (int \<times> pydt)" where
  "read_time rd v =
     (case v of
        JStr t \<Rightarrow> (case rd_iso rd (replace_zulu t) of None \<Rightarrow> Inl ValueError | Some x \<Rightarrow> Inr x)
      | _ \<Rightarrow> Inl AttributeError)"

text \<open>The pages of one answer; a server that always names a next page keeps the loop going.\<close>

partial_function (option) fetch_pages ::
    "(alpaca_request \<Rightarrow> ('w, json) act) \<Rightarrow> string \<Rightarrow> int \<Rightarrow> int \<Rightarrow> json \<Rightarrow> json list \<Rightarrow> 'w
      \<Rightarrow> ((exn + json list) \<times> 'w) option" where
  "fetch_pages http symbol start_day end_day token raw w =
     (case http (BarsRequest symbol start_day end_day (if truthy token then Some token else None)) w of
        (Inl e, w') \<Rightarrow> Some (Inl e, w')
      | (Inr page, w') \<Rightarrow>
         (case jget page ''bars'' of Inl e \<Rightarrow> Some (Inl e, w') | Inr bs \<Rightarrow>
          case jiter (jor bs (JArr [])) of Inl e \<Rightarrow> Some (Inl e, w') | Inr new \<Rightarrow>
          case jget page ''next_page_token'' of Inl e \<Rightarrow> Some (Inl e, w') | Inr next_token \<Rightarrow>
          if truthy next_token then fetch_pages http symbol start_day end_day next_token (raw @ new) w'
          else Some (Inr (raw @ new), w')))"

text \<open>The fields of a bar; \<open>pydantic\<close> reads its floats from numbers and from texts of numbers.\<close>

definition bar_fields :: "readers \<Rightarrow> string \<Rightarrow> instant \<Rightarrow> json \<Rightarrow> exn + real bar" where
  "bar_fields rd symbol ts r =
     (let field = (\<lambda>k. then_res (jkey r k) (jfloat (rd_float rd))) in
      then_res (field ''o'') (\<lambda>op. then_res (field ''h'') (\<lambda>hi. then_res (field ''l'') (\<lambda>lo. then_res (field ''c'') (\<lambda>cl.
      then_res (then_res (jkey r ''v'') (jint (rd_int rd))) (\<lambda>vol.
      then_res (jget r ''vw'') (\<lambda>vw.
      then_res (if truthy vw then then_res (jfloat (rd_float rd) vw) (\<lambda>x. Inr (Some (Fin x))) else Inr None) (\<lambda>vwap.
        mk_bar \<lparr>bar_symbol = symbol, bar_ts = ts, bar_open = Fin op, bar_high = Fin hi, bar_low = Fin lo,
          bar_close = Fin cl, bar_volume = vol, bar_vwap = vwap, bar_source = SOURCE, bar_version = ''1''\<rparr>))))))))"

text \<open>\<open>None\<close> is \<open>continue\<close>: a bar of the day of the request or later. A \<open>ValidationError\<close> is a \<open>ValueError\<close>.\<close>

definition parse_bar :: "readers \<Rightarrow> string \<Rightarrow> int \<Rightarrow> json \<Rightarrow> exn + real bar option" where
  "parse_bar rd symbol end_day r =
     (case jkey r ''t'' of Inl e \<Rightarrow> Inl e | Inr t \<Rightarrow>
      case read_time rd t of Inl e \<Rightarrow> Inl e | Inr (day, _) \<Rightarrow>
      let ts = day * days_us + BAR_CLOSE_HOUR_UTC * 60 * minutes_us in
      if end_day \<le> day then Inr None
      else case bar_fields rd symbol ts r of
        Inl e \<Rightarrow> Inl (if e \<in> {KeyError, ValueError, ValidationError, TypeError} then MarketDataUnavailable else e)
      | Inr b \<Rightarrow> Inr (Some b))"

fun parse_bars :: "readers \<Rightarrow> string \<Rightarrow> int \<Rightarrow> json list \<Rightarrow> exn + real bar list" where
  "parse_bars rd symbol end_day [] = Inr []"
| "parse_bars rd symbol end_day (r # rs) =
     (case parse_bar rd symbol end_day r of Inl e \<Rightarrow> Inl e | Inr b \<Rightarrow>
      case parse_bars rd symbol end_day rs of Inl e \<Rightarrow> Inl e | Inr bs \<Rightarrow>
      Inr (case b of None \<Rightarrow> bs | Some x \<Rightarrow> x # bs))"

text \<open>\<open>xs[-n:]\<close>\<close>

definition py_tail :: "int \<Rightarrow> 'a list \<Rightarrow> 'a list" where
  "py_tail n xs = (if 0 < n then drop (length xs - nat n) xs else drop (nat (- n)) xs)"

definition start_day :: "instant \<Rightarrow> int \<Rightarrow> int" where
  "start_day t days = utc_day (t - (py_int (of_int days * 7 / 5) + 10) * days_us)"

definition alpaca_bars ::
    "readers \<Rightarrow> (alpaca_request \<Rightarrow> ('w, json) act) \<Rightarrow> string \<Rightarrow> pydt \<Rightarrow> int \<Rightarrow> 'w alpaca
      \<Rightarrow> ((exn + real bar list) \<times> 'w alpaca) option" where
  "alpaca_bars rd http symbol a_t days p =
     (case ensure_utc a_t of Inl e \<Rightarrow> Some (Inl e, p) | Inr t \<Rightarrow>
      let key = (symbol, utc_day t, days) in
      case dget (al_cache p) key of
        Some bs \<Rightarrow> Some (Inr bs, p)
      | None \<Rightarrow>
         (case fetch_pages http symbol (start_day t days) (utc_day t) JNull [] (al_server p) of
            None \<Rightarrow> None
          | Some (Inl e, w) \<Rightarrow> Some (Inl e, p\<lparr>al_server := w\<rparr>)
          | Some (Inr raw, w) \<Rightarrow>
             (case parse_bars rd symbol (utc_day t) raw of
                Inl e \<Rightarrow> Some (Inl e, p\<lparr>al_server := w\<rparr>)
              | Inr parsed \<Rightarrow>
                  let bars = py_tail days (sort_key bar_ts parsed) in
                  if bars = [] then Some (Inl MarketDataUnavailable, p\<lparr>al_server := w\<rparr>)
                  else Some (Inr bars, p\<lparr>al_server := w, al_cache := dput (al_cache p) key bars\<rparr>))))"

section \<open>Quotes\<close>

text \<open>A value that is compared with a number: texts and containers raise.\<close>

fun jcompare :: "json \<Rightarrow> exn + real" where
  "jcompare (JNum x) = Inr x"
| "jcompare (JBool b) = Inr (if b then 1 else 0)"
| "jcompare _ = Inl TypeError"

definition no_valid_book :: "json \<Rightarrow> json \<Rightarrow> exn + bool" where
  "no_valid_book bid ask =
     (case jcompare bid of Inl e \<Rightarrow> Inl e | Inr b \<Rightarrow>
      if b \<le> 0 then Inr True
      else case jcompare ask of Inl e \<Rightarrow> Inl e | Inr a \<Rightarrow> Inr (a \<le> 0 \<or> a < b))"

definition quote_time :: "readers \<Rightarrow> json \<Rightarrow> exn + instant" where
  "quote_time rd q =
     (case then_res (jkey q ''t'') (read_time rd) of
        Inl e \<Rightarrow> Inl (if e \<in> {KeyError, ValueError} then MarketDataUnavailable else e)
      | Inr x \<Rightarrow> ensure_utc (snd x))"

definition quote_fields :: "readers \<Rightarrow> string \<Rightarrow> json \<Rightarrow> exn + real quote" where
  "quote_fields rd symbol q =
     then_res (jget q ''bp'') (\<lambda>bp. then_res (jget q ''ap'') (\<lambda>ap.
     (let bid = jor bp (JNum 0); ask = jor ap (JNum 0) in
      then_res (no_valid_book bid ask) (\<lambda>bad.
      if bad then Inl MarketDataUnavailable
      else
        then_res (quote_time rd q) (\<lambda>ts.
        then_res (jfloat (rd_float rd) bid) (\<lambda>b. then_res (jfloat (rd_float rd) ask) (\<lambda>a.
        then_res (jget q ''bs'') (\<lambda>bs. then_res (jint (rd_int rd) (jor bs (JNum 0))) (\<lambda>bid_size.
        then_res (jget q ''as'') (\<lambda>as. then_res (jint (rd_int rd) (jor as (JNum 0))) (\<lambda>ask_size.
          mk_quote \<lparr>q_symbol = symbol, q_ts = ts, q_bid = Fin b, q_ask = Fin a, q_bid_size = bid_size,
            q_ask_size = ask_size, q_halted = False, q_source = SOURCE\<rparr>)))))))))))"

definition alpaca_quote ::
    "readers \<Rightarrow> (alpaca_request \<Rightarrow> ('w, json) act) \<Rightarrow> instant \<Rightarrow> string \<Rightarrow> pydt \<Rightarrow> ('w alpaca, real quote) act" where
  "alpaca_quote rd http now symbol a_t p =
     (case ensure_utc a_t of Inl e \<Rightarrow> (Inl e, p) | Inr t \<Rightarrow>
      if MAX_QUOTE_AGE < \<bar>now - t\<bar> then (Inl MarketDataUnavailable, p)
      else case http (QuoteRequest symbol) (al_server p) of
        (Inl e, w) \<Rightarrow> (Inl e, p\<lparr>al_server := w\<rparr>)
      | (Inr page, w) \<Rightarrow>
          ((case jget page ''quote'' of Inl e \<Rightarrow> Inl e | Inr q \<Rightarrow> quote_fields rd symbol (jor q (JObj []))),
           p\<lparr>al_server := w\<rparr>))"

section \<open>No bar of the future\<close>

definition bars_ok :: "string \<Rightarrow> int \<Rightarrow> int \<Rightarrow> real bar list \<Rightarrow> bool" where
  "bars_ok symbol day days bs \<longleftrightarrow>
     bs \<noteq> [] \<and> sorted (map bar_ts bs) \<and> (0 < days \<longrightarrow> length bs \<le> nat days)
     \<and> (\<forall>b \<in> set bs. bar_symbol b = symbol \<and> bar_source b = SOURCE \<and> bar_ok b \<and> utc_day (bar_ts b) < day)"

definition cache_ok :: "'w alpaca \<Rightarrow> bool" where
  "cache_ok p \<longleftrightarrow> (\<forall>s d n bs. dget (al_cache p) (s, d, n) = Some bs \<longrightarrow> bars_ok s d n bs)"

lemma bar_fields_ok:
  assumes "bar_fields rd symbol ts r = Inr b"
  shows "bar_ok b \<and> bar_symbol b = symbol \<and> bar_source b = SOURCE \<and> bar_ts b = ts"
proof -
  obtain raw where "mk_bar raw = Inr b" "bar_symbol raw = symbol" "bar_source raw = SOURCE" "bar_ts raw = ts"
    using assms by (auto simp: bar_fields_def Let_def then_res_Inr)
  moreover from this have "bar_symbol b = symbol" "bar_source b = SOURCE" "bar_ts b = ts"
    by (auto simp: mk_bar_def split: if_splits)
  ultimately show ?thesis using mk_bar_ok by blast
qed

lemma utc_day_close: "utc_day (day * days_us + BAR_CLOSE_HOUR_UTC * 60 * minutes_us) = day"
  by (simp add: utc_day_def days_us_def minutes_us_def BAR_CLOSE_HOUR_UTC_def)

lemma parse_bar_ok:
  assumes "parse_bar rd symbol end_day r = Inr (Some b)"
  shows "bar_ok b \<and> bar_symbol b = symbol \<and> bar_source b = SOURCE \<and> utc_day (bar_ts b) < end_day"
proof -
  obtain day where "day < end_day" "bar_fields rd symbol (day * days_us + BAR_CLOSE_HOUR_UTC * 60 * minutes_us) r = Inr b"
    using assms by (auto simp: parse_bar_def Let_def not_le split: sum.splits if_splits prod.splits)
  with bar_fields_ok [OF this(2)] utc_day_close [of day] show ?thesis by simp
qed

lemma parse_bars_ok:
  "parse_bars rd symbol end_day rs = Inr bs \<Longrightarrow> b \<in> set bs \<Longrightarrow>
     bar_ok b \<and> bar_symbol b = symbol \<and> bar_source b = SOURCE \<and> utc_day (bar_ts b) < end_day"
proof (induction rs arbitrary: bs)
  case (Cons r rs)
  then show ?case using parse_bar_ok [of rd symbol end_day r] by (auto split: sum.splits option.splits)
qed simp

lemma py_tail_sub: "set (py_tail n xs) \<subseteq> set xs"
  by (auto simp: py_tail_def dest: in_set_dropD)

lemma py_tail_sorted: "sorted (map f xs) \<Longrightarrow> sorted (map f (py_tail n xs))"
  by (auto simp: py_tail_def drop_map [symmetric] sorted_wrt_drop)

lemma py_tail_length: "0 < n \<Longrightarrow> length (py_tail n xs) \<le> nat n"
  by (simp add: py_tail_def)

lemma fresh_bars_ok:
  assumes "parse_bars rd symbol day raw = Inr parsed" "py_tail days (sort_key bar_ts parsed) \<noteq> []"
  shows "bars_ok symbol day days (py_tail days (sort_key bar_ts parsed))"
  using assms py_tail_sub [of days "sort_key bar_ts parsed"] py_tail_length [of days "sort_key bar_ts parsed"]
    py_tail_sorted [of bar_ts "sort_key bar_ts parsed" days] parse_bars_ok [OF assms(1)]
  by (auto simp: bars_ok_def)

lemma alpaca_bars_cases:
  assumes "alpaca_bars rd http symbol (Aware t) days p = Some (r, p')" "cache_ok p"
  shows "cache_ok p' \<and> (\<forall>bs. r = Inr bs \<longrightarrow> bars_ok symbol (utc_day t) days bs \<and>
     dget (al_cache p') (symbol, utc_day t, days) = Some bs)"
proof (cases "dget (al_cache p) (symbol, utc_day t, days)")
  case (Some bs)
  then show ?thesis using assms by (auto simp: alpaca_bars_def Let_def cache_ok_def)
next
  case None
  note fetch = assms(1) [unfolded alpaca_bars_def ensure_utc.simps sum.case Let_def None option.case]
  obtain f w where pages: "fetch_pages http symbol (start_day t days) (utc_day t) JNull [] (al_server p) = Some (f, w)"
    using fetch by (auto split: option.splits)
  show ?thesis
  proof (cases f)
    case (Inl e)
    then show ?thesis using fetch pages assms(2) by (auto simp: cache_ok_def)
  next
    case (Inr raw)
    show ?thesis
    proof (cases "parse_bars rd symbol (utc_day t) raw")
      case (Inl e)
      then show ?thesis using fetch pages Inr assms(2) by (auto simp: cache_ok_def)
    next
      case (Inr parsed)
      let ?bars = "py_tail days (sort_key bar_ts parsed)"
      show ?thesis
      proof (cases "?bars = []")
        case True
        then show ?thesis using fetch pages \<open>f = Inr raw\<close> Inr assms(2) by (auto simp: cache_ok_def)
      next
        case False
        then have "r = Inr ?bars" "p' = p\<lparr>al_server := w, al_cache := dput (al_cache p) (symbol, utc_day t, days) ?bars\<rparr>"
          using fetch pages \<open>f = Inr raw\<close> Inr by auto
        with fresh_bars_ok [OF Inr False] assms(2) show ?thesis by (auto simp: cache_ok_def dict_simps split: if_splits)
      qed
    qed
  qed
qed

lemma alpaca_quote_cache: "al_cache (snd (alpaca_quote rd http now symbol a_t p)) = al_cache p"
  by (auto simp: alpaca_quote_def split: sum.splits prod.splits)

text \<open>A history of questions to the provider; \<open>None\<close> if one of them never returned.\<close>

datatype question = AskBars string pydt int | AskQuote instant string pydt

fun run_alpaca ::
    "readers \<Rightarrow> (alpaca_request \<Rightarrow> ('w, json) act) \<Rightarrow> question list \<Rightarrow> 'w alpaca \<Rightarrow> 'w alpaca option" where
  "run_alpaca rd http [] p = Some p"
| "run_alpaca rd http (AskBars s a_t n # qs) p =
     (case alpaca_bars rd http s a_t n p of None \<Rightarrow> None | Some (r, p') \<Rightarrow> run_alpaca rd http qs p')"
| "run_alpaca rd http (AskQuote now s a_t # qs) p = run_alpaca rd http qs (snd (alpaca_quote rd http now s a_t p))"

lemma run_alpaca_cache: "run_alpaca rd http qs p = Some p' \<Longrightarrow> cache_ok p \<Longrightarrow> cache_ok p'"
proof (induction rd http qs p rule: run_alpaca.induct)
  case (2 rd http s a_t n qs p)
  then obtain r q where q: "alpaca_bars rd http s a_t n p = Some (r, q)" "run_alpaca rd http qs q = Some p'"
    by (auto split: option.splits prod.splits)
  have "cache_ok q"
  proof (cases a_t)
    case (Naive x)
    with q 2 show ?thesis by (simp add: alpaca_bars_def)
  next
    case (Aware t)
    with alpaca_bars_cases [of rd http s t n p r q] q 2 show ?thesis by simp
  qed
  with 2 q show ?case by auto
next
  case (3 rd http now s a_t qs p)
  have "cache_ok (snd (alpaca_quote rd http now s a_t p))"
    using 3(3) by (simp add: cache_ok_def alpaca_quote_cache)
  with 3 show ?case by auto
qed auto

lemma day_before: "utc_day s < utc_day t \<Longrightarrow> s < t"
  by (metis utc_day_def linorder_not_le not_less zdiv_mono1 days_us_def zero_less_numeral mult_pos_pos)

text \<open>
  C37. The vendor's bars hold no future. Whatever was asked before and whatever the server says, the
  bars that the provider returns for a time are completed days before the day of that time: well formed,
  of the symbol, labelled with their source, in order, and at most as many as asked for; and the same
  question gets the same answer afterwards without asking the server.
\<close>

theorem alpaca_sees_no_future:
  assumes "mk_alpaca key secret w = Inr p0" and "run_alpaca rd http qs p0 = Some p"
    and "alpaca_bars rd http symbol (Aware t) days p = Some (Inr bars, p')"
  shows "bars_ok symbol (utc_day t) days bars \<and> (\<forall>b \<in> set bars. bar_ts b < t)
    \<and> alpaca_bars rd http symbol (Aware t) days p' = Some (Inr bars, p')"
proof -
  have "cache_ok p0" using assms(1) by (auto simp: mk_alpaca_def cache_ok_def split: if_splits)
  from run_alpaca_cache [OF assms(2) this] alpaca_bars_cases [OF assms(3)]
  have b: "bars_ok symbol (utc_day t) days bars" "dget (al_cache p') (symbol, utc_day t, days) = Some bars" by auto
  then have "bar_ts x < t" if "x \<in> set bars" for x using that by (auto simp: bars_ok_def intro: day_before)
  with b show ?thesis by (simp add: alpaca_bars_def)
qed

section \<open>No fabricated quote\<close>

lemma jcompare_float: "jcompare v = Inr x \<Longrightarrow> jfloat num v = Inr x"
  by (cases v) auto

lemma valid_book:
  assumes "no_valid_book bid ask = Inr False"
  shows "\<exists>b a. jfloat num bid = Inr b \<and> jfloat num ask = Inr a \<and> 0 < b \<and> b \<le> a"
  using assms by (auto simp: no_valid_book_def jcompare_float split: sum.splits if_splits)

lemma quote_fields_ok:
  assumes "quote_fields rd symbol v = Inr q"
  shows "q_symbol q = symbol \<and> q_source q = SOURCE \<and> \<not> q_halted q \<and> 0 < q_bid q \<and> q_bid q \<le> q_ask q
    \<and> 0 \<le> q_bid_size q \<and> 0 \<le> q_ask_size q"
proof -
  obtain bid ask ts b a bs as where book: "no_valid_book bid ask = Inr False" "jfloat (rd_float rd) bid = Inr b"
    "jfloat (rd_float rd) ask = Inr a" and q: "mk_quote \<lparr>q_symbol = symbol, q_ts = ts, q_bid = Fin b, q_ask = Fin a,
      q_bid_size = bs, q_ask_size = as, q_halted = False, q_source = SOURCE\<rparr> = Inr q"
    using assms unfolding quote_fields_def Let_def by (auto simp: then_res_Inr split: if_splits)
  from valid_book [OF book(1), of "rd_float rd"] book(2,3) have "0 < b" "b \<le> a" by auto
  with q show ?thesis by (auto simp: mk_quote_def split: if_splits)
qed

text \<open>
  A quote is never made up. A quote that the provider returns is for the symbol, has a positive
  bid not above the ask and sizes that are not negative, and was asked for at most a day from now;
  anything else raises.
\<close>

theorem alpaca_quotes_are_real:
  assumes "alpaca_quote rd http now symbol (Aware t) p = (Inr q, p')"
  shows "q_symbol q = symbol \<and> q_source q = SOURCE \<and> \<not> q_halted q \<and> 0 < q_bid q \<and> q_bid q \<le> q_ask q
    \<and> 0 \<le> q_bid_size q \<and> 0 \<le> q_ask_size q \<and> \<bar>now - t\<bar> \<le> MAX_QUOTE_AGE"
  using assms quote_fields_ok [of rd symbol _ q]
  by (auto simp: alpaca_quote_def split: if_splits sum.splits prod.splits)

section \<open>Paging ends when the pages do\<close>

text \<open>
  The page a download comes to after the one it asks for with a token: the token that a sound page
  names, if it names one, and the server after it. The server may keep state or answer from the
  token alone.
\<close>

definition next_page ::
    "(alpaca_request \<Rightarrow> ('w, json) act) \<Rightarrow> string \<Rightarrow> int \<Rightarrow> int \<Rightarrow> json \<times> 'w \<Rightarrow> (json \<times> 'w) option" where
  "next_page http symbol d1 d2 tw =
     (let (token, w) = tw in
      case http (BarsRequest symbol d1 d2 (if truthy token then Some token else None)) w of
        (Inl e, w') \<Rightarrow> None
      | (Inr page, w') \<Rightarrow>
         (case then_res (jget page ''bars'') (\<lambda>bs. jiter (jor bs (JArr []))) of
            Inl e \<Rightarrow> None
          | Inr new \<Rightarrow>
              (case jget page ''next_page_token'' of
                 Inl e \<Rightarrow> None
               | Inr v \<Rightarrow> if truthy v then Some (v, w') else None)))"

fun page_at ::
    "(alpaca_request \<Rightarrow> ('w, json) act) \<Rightarrow> string \<Rightarrow> int \<Rightarrow> int \<Rightarrow> nat \<Rightarrow> json \<times> 'w \<Rightarrow> (json \<times> 'w) option" where
  "page_at http symbol d1 d2 0 tw = Some tw"
| "page_at http symbol d1 d2 (Suc n) tw =
     (case next_page http symbol d1 d2 tw of None \<Rightarrow> None | Some tw' \<Rightarrow> page_at http symbol d1 d2 n tw')"

text \<open>A server with a count of the requests it was sent.\<close>

definition counted_http :: "(alpaca_request \<Rightarrow> ('w, json) act) \<Rightarrow> alpaca_request \<Rightarrow> ('w \<times> nat, json) act" where
  "counted_http http rq wk = (let (w, k) = wk; (x, w') = http rq w in (x, (w', k + 1)))"

lemma fetch_last:
  assumes "next_page http symbol d1 d2 (token, w) = None"
  shows "\<exists>r w'. fetch_pages (counted_http http) symbol d1 d2 token raw (w, k) = Some (r, (w', k + 1))"
  using assms
  by (subst fetch_pages.simps)
    (auto simp: next_page_def counted_http_def then_res_def split: prod.splits sum.splits if_splits)

lemma fetch_next:
  assumes "next_page http symbol d1 d2 (token, w) = Some (v, w')"
  shows "\<exists>new. fetch_pages (counted_http http) symbol d1 d2 token raw (w, k) =
    fetch_pages (counted_http http) symbol d1 d2 v (raw @ new) (w', k + 1)"
  using assms
  by (subst fetch_pages.simps)
    (auto simp: next_page_def counted_http_def then_res_def split: prod.splits sum.splits if_splits)

lemma fetch_ends:
  "page_at http symbol d1 d2 n (token, w) = None \<Longrightarrow> \<forall>m < n. page_at http symbol d1 d2 m (token, w) \<noteq> None \<Longrightarrow>
    \<exists>r w'. fetch_pages (counted_http http) symbol d1 d2 token raw (w, k) = Some (r, (w', k + n))"
proof (induction n arbitrary: token w raw k)
  case (Suc n)
  show ?case
  proof (cases "next_page http symbol d1 d2 (token, w)")
    case None
    then have "\<not> 1 < Suc n" using Suc.prems(2) by auto
    with fetch_last [OF None] show ?thesis by simp
  next
    case (Some q)
    obtain v w' where q: "q = (v, w')" by (cases q)
    have "page_at http symbol d1 d2 m (v, w') \<noteq> None" if "m < n" for m
      using Suc.prems(2) that Some q by (auto dest: spec [of _ "Suc m"])
    then have "\<exists>r w''. fetch_pages (counted_http http) symbol d1 d2 v new (w', k + 1) = Some (r, (w'', k + 1 + n))" for new
      using Suc.prems(1) Some q by (intro Suc.IH) auto
    with fetch_next [of http symbol d1 d2 token w v w' raw k] Some q show ?thesis
      by (metis add.commute add_Suc_right plus_1_eq_Suc)
  qed
qed simp

lemma fetch_ended:
  "fetch_pages http symbol d1 d2 token raw w = Some r \<Longrightarrow> \<exists>n. page_at http symbol d1 d2 n (token, w) = None"
proof (induction rule: fetch_pages.raw_induct [rotated, consumes 1])
  case (1 fetch http symbol d1 d2 token raw w r)
  show ?case
  proof (cases "next_page http symbol d1 d2 (token, w)")
    case None
    then have "page_at http symbol d1 d2 1 (token, w) = None" by simp
    then show ?thesis by blast
  next
    case (Some q)
    obtain v w' where q: "q = (v, w')" by (cases q)
    obtain new where "fetch http symbol d1 d2 v (raw @ new) w' = Some r"
      using 1(2) Some q
      by (auto simp: next_page_def then_res_def split: prod.splits sum.splits if_splits)
    then obtain n where "page_at http symbol d1 d2 n (v, w') = None" using 1(1) by blast
    with Some q have "page_at http symbol d1 d2 (Suc n) (token, w) = None" by simp
    then show ?thesis by blast
  qed
qed

lemma next_page_counted:
  "next_page (counted_http http) symbol d1 d2 (token, (w, k)) =
     map_option (\<lambda>(v, w'). (v, (w', k + 1))) (next_page http symbol d1 d2 (token, w))"
  by (auto simp: next_page_def counted_http_def split: prod.splits sum.splits)

lemma page_at_counted:
  "page_at (counted_http http) symbol d1 d2 n (token, (w, k)) = None \<longleftrightarrow> page_at http symbol d1 d2 n (token, w) = None"
  by (induction n arbitrary: token w k) (auto simp: next_page_counted split: option.splits)

lemma bars_of_pages:
  assumes "dget (al_cache p) (symbol, utc_day t, days) = None"
  shows "(alpaca_bars rd http symbol (Aware t) days p = None \<longleftrightarrow>
      fetch_pages http symbol (start_day t days) (utc_day t) JNull [] (al_server p) = None) \<and>
    (\<forall>r w'. fetch_pages http symbol (start_day t days) (utc_day t) JNull [] (al_server p) = Some (r, w') \<longrightarrow>
      (\<exists>x p'. alpaca_bars rd http symbol (Aware t) days p = Some (x, p') \<and> al_server p' = w'))"
  using assms by (auto simp: alpaca_bars_def Let_def split: option.splits sum.splits)

text \<open>
  C38. A download ends exactly when the server's pages do. Let the pages be those a reader comes to
  who follows the next-page tokens from the first page, on a server that keeps any state or none. A
  question for bars returns if and only if it is answered from the cache or the pages come to an
  end, at a page that names no next one or is not sound; then a question that is not in the cache
  has sent exactly as many requests as there are pages, and one that is has sent none and changed
  nothing.
\<close>

theorem alpaca_bars_return:
  assumes "al_server p = (w, k)"
    and "pages = (\<lambda>n. page_at http symbol (start_day t days) (utc_day t) n (JNull, w))"
  shows "((\<exists>r p'. alpaca_bars rd (counted_http http) symbol (Aware t) days p = Some (r, p')) \<longleftrightarrow>
      dhas (al_cache p) (symbol, utc_day t, days) \<or> (\<exists>n. pages n = None)) \<and>
    (\<forall>r p'. alpaca_bars rd (counted_http http) symbol (Aware t) days p = Some (r, p') \<longrightarrow>
      (if dhas (al_cache p) (symbol, utc_day t, days) then p' = p
       else \<exists>n. pages n = None \<and> (\<forall>m < n. pages m \<noteq> None) \<and> snd (al_server p') = k + n))"
proof (cases "dget (al_cache p) (symbol, utc_day t, days)")
  case (Some bs)
  then show ?thesis by (auto simp: alpaca_bars_def Let_def dhas_def)
next
  case None
  let ?fetch = "fetch_pages (counted_http http) symbol (start_day t days) (utc_day t) JNull [] (w, k)"
  note bars = bars_of_pages [OF None, of rd "counted_http http", unfolded assms(1)]
  have ended: "\<exists>n. pages n = None" if "?fetch = Some x" for x
    using fetch_ended [OF that] by (simp add: assms(2) page_at_counted)
  have ends: "\<exists>n r p'. pages n = None \<and> (\<forall>m < n. pages m \<noteq> None) \<and>
      alpaca_bars rd (counted_http http) symbol (Aware t) days p = Some (r, p') \<and> snd (al_server p') = k + n"
    if some: "\<exists>n. pages n = None"
  proof -
    obtain n where n: "pages n = None" "\<forall>m < n. pages m \<noteq> None"
      using some exists_least_iff [of "\<lambda>n. pages n = None"] by blast
    then obtain r w' where "?fetch = Some (r, (w', k + n))"
      using fetch_ends [of http symbol "start_day t days" "utc_day t" n JNull w "[]" k] assms(2) by auto
    with bars obtain x p' where "alpaca_bars rd (counted_http http) symbol (Aware t) days p = Some (x, p')"
      "al_server p' = (w', k + n)" by blast
    with n show ?thesis by auto
  qed
  have conv: "\<exists>n. pages n = None" if "alpaca_bars rd (counted_http http) symbol (Aware t) days p = Some y" for y
    using bars ended that by (cases ?fetch) auto
  show ?thesis
    using ends conv None by (auto simp: dhas_def)
qed

text \<open>
  The documentation promises \<open>MarketDataUnavailable\<close> for malformed data. The time of a bar is read
  outside the \<open>try\<close>: a bar without it raises \<open>KeyError\<close>, which callers do not expect.
\<close>

lemma bar_without_time_raises: "parse_bar rd symbol end_day (JObj []) = Inl KeyError"
  by (simp add: parse_bar_def)

section \<open>A concrete server\<close>

definition demo_readers :: readers where
  "demo_readers = \<lparr>rd_float = (\<lambda>_. None), rd_int = (\<lambda>_. None), rd_iso = (\<lambda>_. Some (10, Aware (10 * days_us)))\<rparr>"

definition demo_bar_json :: json where
  "demo_bar_json = JObj [(''t'', JStr ''1970-01-11''), (''o'', JNum 10), (''h'', JNum 12), (''l'', JNum 9),
     (''c'', JNum 11), (''v'', JNum 100)]"

fun demo_http :: "alpaca_request \<Rightarrow> (unit, json) act" where
  "demo_http (BarsRequest s a b tok) w = (Inr (JObj [(''bars'', JArr [demo_bar_json])]), w)"
| "demo_http (QuoteRequest s) w =
     (Inr (JObj [(''quote'', JObj [(''bp'', JNum 10), (''ap'', JNum 11), (''t'', JStr ''1970-01-11'')])]), w)"

definition demo_alpaca_bar :: "real bar" where
  "demo_alpaca_bar = \<lparr>bar_symbol = ''A'', bar_ts = 10 * days_us + BAR_CLOSE_HOUR_UTC * 60 * minutes_us, bar_open = 10,
     bar_high = 12, bar_low = 9, bar_close = 11, bar_volume = 100, bar_vwap = None, bar_source = SOURCE, bar_version = ''1''\<rparr>"

lemma demo_pages: "fetch_pages demo_http s a b JNull [] () = Some (Inr [demo_bar_json], ())"
  by (subst fetch_pages.simps) (simp add: dget_or_def jor_def)

lemma demo_parsed: "parse_bars demo_readers ''A'' 20 [demo_bar_json] = Inr [demo_alpaca_bar]"
  by (simp add: parse_bar_def demo_bar_json_def read_time_def demo_readers_def bar_fields_def dget_or_def mk_bar_def
      demo_alpaca_bar_def py_int_def)

lemma demo_download:
  "alpaca_bars demo_readers demo_http ''A'' (Aware (20 * days_us)) 5 \<lparr>al_server = (), al_cache = []\<rparr> =
     Some (Inr [demo_alpaca_bar], \<lparr>al_server = (), al_cache = [((''A'', 20, 5), [demo_alpaca_bar])]\<rparr>)"
proof -
  have "utc_day (20 * days_us) = 20" by (simp add: utc_day_def days_us_def)
  then show ?thesis by (simp add: alpaca_bars_def demo_pages demo_parsed py_tail_def Let_def del: parse_bars.simps)
qed

theorem alpaca_sees_no_future_witness:
  "bars_ok ''A'' 20 5 [demo_alpaca_bar] \<and> bar_ts demo_alpaca_bar < 20 * days_us"
proof -
  have start: "mk_alpaca ''k'' ''s'' () = Inr \<lparr>al_server = (), al_cache = []\<rparr>" by (simp add: mk_alpaca_def)
  have "utc_day (20 * days_us) = 20" by (simp add: utc_day_def days_us_def)
  with alpaca_sees_no_future [OF start _ demo_download, of "[]"] show ?thesis by simp
qed

lemma demo_ask:
  "\<exists>q. alpaca_quote demo_readers demo_http 0 ''A'' (Aware 0) \<lparr>al_server = (), al_cache = []\<rparr> =
     (Inr q, \<lparr>al_server = (), al_cache = []\<rparr>)"
  by (simp add: alpaca_quote_def MAX_QUOTE_AGE_def days_us_def dget_or_def jor_def quote_fields_def no_valid_book_def
      quote_time_def read_time_def demo_readers_def mk_quote_def py_int_def Let_def)

theorem alpaca_quotes_are_real_witness:
  "\<exists>q. fst (alpaca_quote demo_readers demo_http 0 ''A'' (Aware 0) \<lparr>al_server = (), al_cache = []\<rparr>) = Inr q
     \<and> 0 < q_bid q \<and> q_bid q \<le> q_ask q"
proof -
  obtain q where q: "alpaca_quote demo_readers demo_http 0 ''A'' (Aware 0) \<lparr>al_server = (), al_cache = []\<rparr> =
     (Inr q, \<lparr>al_server = (), al_cache = []\<rparr>)" using demo_ask by blast
  from alpaca_quotes_are_real [OF q] q show ?thesis by simp
qed

text \<open>A server without state of its own that names a second page on the first.\<close>

fun paged_http :: "alpaca_request \<Rightarrow> (unit, json) act" where
  "paged_http (BarsRequest s a b None) w =
     (Inr (JObj [(''bars'', JArr [demo_bar_json]), (''next_page_token'', JStr ''p2'')]), w)"
| "paged_http (BarsRequest s a b (Some tok)) w = (Inr (JObj [(''bars'', JArr [demo_bar_json])]), w)"
| "paged_http (QuoteRequest s) w = (Inl MarketDataUnavailable, w)"

lemma paged_pages:
  "page_at paged_http s a b 0 (JNull, ()) = Some (JNull, ())"
  "page_at paged_http s a b 1 (JNull, ()) = Some (JStr ''p2'', ())"
  "page_at paged_http s a b 2 (JNull, ()) = None"
  by (simp_all add: numeral_2_eq_2 next_page_def dget_or_def jor_def then_res_def)

theorem alpaca_bars_return_witness:
  "\<exists>r p'. alpaca_bars demo_readers (counted_http paged_http) ''A'' (Aware 0) 5 \<lparr>al_server = ((), 0), al_cache = []\<rparr> =
     Some (r, p') \<and> snd (al_server p') = 2"
proof -
  let ?p = "\<lparr>al_server = ((), 0), al_cache = []\<rparr> :: (unit \<times> nat) alpaca"
  have s: "al_server ?p = ((), 0)" and d: "\<not> dhas (al_cache ?p) (''A'', utc_day 0, 5)" by (simp_all add: dhas_def)
  note ret = alpaca_bars_return [OF s refl, where http = paged_http and symbol = "''A''" and t = 0 and days = 5
      and rd = demo_readers]
  obtain r p' where r: "alpaca_bars demo_readers (counted_http paged_http) ''A'' (Aware 0) 5 ?p = Some (r, p')"
    using ret paged_pages(3) by blast
  then obtain n where n: "page_at paged_http ''A'' (start_day 0 5) (utc_day 0) n (JNull, ()) = None"
    "\<forall>m < n. page_at paged_http ''A'' (start_day 0 5) (utc_day 0) m (JNull, ()) \<noteq> None"
    "snd (al_server p') = n"
    using ret d by (simp split: if_splits) blast
  have "\<not> 2 < n" using n(2) paged_pages(3) by blast
  moreover have "n \<noteq> 0" "n \<noteq> 1" using n(1) paged_pages(1,2) by (metis option.distinct(1))+
  ultimately have "n = 2" by linarith
  with r n(3) show ?thesis by blast
qed

end
