(* ===== verification/StatusApi.thy ===== *)
theory StatusApi
  imports PipelineDemo Learning LLMClient
begin

text \<open>
  \<open>apps/api/main.py\<close>: the read-only backend of the dashboard. The application holds the pipeline,
  the feature store, the usage ledger, the monitor and the heartbeats; a route is an action on it. The
  static page, the JSON encoding and the texts of times are left out; a near miss is reported by its
  kind. The monitor is a function of the context that may use a language model.
\<close>

section \<open>The application\<close>

record ('b, 'v) app =
  sa_pipeline :: "'b pipeline"
  sa_features :: "'v feature_store"
  sa_usage :: usage_ledger
  sa_review :: "monitor_context \<Rightarrow> (usage_ledger, monitor_verdict) act"
  sa_beats :: "heartbeats option"
  sa_last :: "session_result option"
  sa_series :: "(instant \<times> real) list"

text \<open>The pipeline and the API share one cost engine.\<close>

definition create_app ::
    "'b pipeline \<Rightarrow> cost_entry list option \<Rightarrow> 'v feature_store option \<Rightarrow> usage_ledger
      \<Rightarrow> (monitor_context \<Rightarrow> (usage_ledger, monitor_verdict) act) \<Rightarrow> heartbeats option \<Rightarrow> ('b, 'v) app" where
  "create_app p costs features usage reviewer beats =
     (let entries = (case costs of None \<Rightarrow> [] | Some c \<Rightarrow> c) in
      \<lparr>sa_pipeline = (case pp_costs p of Some _ \<Rightarrow> p | None \<Rightarrow> p\<lparr>pp_costs := Some entries\<rparr>),
       sa_features = (case features of None \<Rightarrow> empty_store | Some f \<Rightarrow> f),
       sa_usage = usage, sa_review = reviewer, sa_beats = beats, sa_last = None, sa_series = []\<rparr>)"

definition app_costs :: "('b, 'v) app \<Rightarrow> cost_entry list" where
  "app_costs a = (case pp_costs (sa_pipeline a) of None \<Rightarrow> [] | Some c \<Rightarrow> c)"

definition app_ledger :: "('b, 'v) app \<Rightarrow> ledger" where
  "app_ledger a = pp_ledger (sa_pipeline a)"

definition app_risk :: "('b, 'v) app \<Rightarrow> controller" where
  "app_risk a = en_risk (pp_engine (sa_pipeline a))"

text \<open>\<open>_prices()\<close>: the mid of every held symbol now.\<close>

fun mids :: "'b world \<Rightarrow> instant \<Rightarrow> string list \<Rightarrow> exn + (string, real) dict" where
  "mids w now [] = Inr []"
| "mids w now (s # ss) =
     (case quote_at w s now of Inl e \<Rightarrow> Inl e | Inr q \<Rightarrow>
      case mids w now ss of Inl e \<Rightarrow> Inl e | Inr d \<Rightarrow> Inr ((s, quote_mid q) # d))"

definition held_prices :: "'b world \<Rightarrow> ('b, 'v) app \<Rightarrow> exn + (string, real) dict" where
  "held_prices w a = mids w (wd_clock w) (dkeys (lg_lots (app_ledger a)))"

text \<open>\<open>pipeline.ledger.snapshot(prices)\<close>, which may raise the high-water mark.\<close>

definition app_snapshot :: "(string, real) dict \<Rightarrow> (('b, 'v) app, equity_snapshot) act" where
  "app_snapshot prices a =
     (case snapshot prices (app_ledger a) of (r, l) \<Rightarrow> (r, a\<lparr>sa_pipeline := (sa_pipeline a)\<lparr>pp_ledger := l\<rparr>\<rparr>))"

definition with_prices :: "'b world \<Rightarrow> ((string, real) dict \<Rightarrow> (('b, 'v) app, 'r) act) \<Rightarrow> (('b, 'v) app, 'r) act" where
  "with_prices w f a = (case held_prices w a of Inl e \<Rightarrow> (Inl e, a) | Inr px \<Rightarrow> f px a)"

definition with_snapshot :: "'b world \<Rightarrow> (equity_snapshot \<Rightarrow> (('b, 'v) app, 'r) act) \<Rightarrow> (('b, 'v) app, 'r) act" where
  "with_snapshot w f = with_prices w (\<lambda>px. bind_act (app_snapshot px) f)"

text \<open>\<open>record_session\<close>, called by the session runner.\<close>

definition app_record_session :: "'b world \<Rightarrow> session_result \<Rightarrow> (('b, 'v) app, unit) act" where
  "app_record_session w r =
     bind_act (change (\<lambda>a. a\<lparr>sa_last := Some r\<rparr>)) (\<lambda>_.
     with_snapshot w (\<lambda>snap. change (\<lambda>a. a\<lparr>sa_series := sa_series a @ [(wd_clock w, es_equity snap)]\<rparr>)))"

section \<open>Routes\<close>

record health_panel =
  hp_env :: environment
  hp_state :: risk_state
  hp_data :: data_health
  hp_stop_available :: bool
  hp_drawdown :: real
  hp_throttle :: throttle
  hp_blocked :: bool
  hp_human :: bool

definition health_route :: "'b world \<Rightarrow> (('b, 'v) app, health_panel) act" where
  "health_route w =
     with_snapshot w (\<lambda>snap. ask (\<lambda>a.
       let throttle = throttle_level (es_drawdown snap) (mc_config (app_risk a));
           blocked = throttle \<in> {NO_NEW_ENTRY, REVIEW_SAFE_MODE}
       in \<lparr>hp_env = pp_env (sa_pipeline a), hp_state = mc_state (app_risk a),
           hp_data = health (pp_integrity (sa_pipeline a)), hp_stop_available = True,
           hp_drawdown = es_drawdown snap, hp_throttle = throttle, hp_blocked = blocked,
           hp_human = (blocked \<and> lg_lots (app_ledger a) = [])\<rparr>))"

record portfolio_panel =
  fp_env :: environment
  fp_equity :: real
  fp_start :: real
  fp_pnl :: real
  fp_pnl_pct :: real
  fp_hwm :: real
  fp_drawdown :: real
  fp_target :: real
  fp_progress :: real
  fp_costs :: real
  fp_net :: real
  fp_fees :: real
  fp_breakdown :: "(cost_category, real) dict"

definition portfolio_route :: "'b world \<Rightarrow> (('b, 'v) app, portfolio_panel) act" where
  "portfolio_route w =
     with_snapshot w (\<lambda>snap a.
       (let start = lg_initial (app_ledger a); pnl = es_equity snap - start; two = two_pnl_of (app_costs a) pnl in
        if start = 0 then (Inl ZeroDivisionError, a)
        else (Inr \<lparr>fp_env = pp_env (sa_pipeline a), fp_equity = es_equity snap, fp_start = start, fp_pnl = pnl,
          fp_pnl_pct = pnl / start, fp_hwm = es_hwm snap, fp_drawdown = es_drawdown snap, fp_target = start * 100,
          fp_progress = es_equity snap / (start * 100), fp_costs = tw_costs two, fp_net = project_net_pnl two,
          fp_fees = trading_fees_total (app_costs a), fp_breakdown = by_category (app_costs a)\<rparr>, a)))"

definition chart_route :: "(('b, 'v) app, (instant \<times> real) list) act" where
  "chart_route = ask sa_series"

record holding =
  ho_ticker :: string
  ho_themes :: "string list"
  ho_entry :: real
  ho_current :: real
  ho_qty :: real
  ho_pnl :: real
  ho_pnl_pct :: real
  ho_notional :: real

definition holding_of :: "(string, string list) dict \<Rightarrow> string \<Rightarrow> lot \<Rightarrow> real \<Rightarrow> holding" where
  "holding_of themes s l cur =
     \<lparr>ho_ticker = s, ho_themes = dget_or themes s [], ho_entry = lot_cost l, ho_current = cur, ho_qty = lot_qty l,
      ho_pnl = (cur - lot_cost l) * lot_qty l,
      ho_pnl_pct = (if lot_cost l \<noteq> 0 then cur / lot_cost l - 1 else 0), ho_notional = lot_qty l * cur\<rparr>"

fun holdings_of ::
    "(string, string list) dict \<Rightarrow> (string, real) dict \<Rightarrow> (string \<times> lot) list \<Rightarrow> exn + holding list" where
  "holdings_of themes px [] = Inr []"
| "holdings_of themes px ((s, l) # ls) =
     (case dget px s of None \<Rightarrow> Inl KeyError | Some cur \<Rightarrow>
      case holdings_of themes px ls of Inl e \<Rightarrow> Inl e | Inr hs \<Rightarrow> Inr (holding_of themes s l cur # hs))"

definition holdings_route :: "'b world \<Rightarrow> (('b, 'v) app, holding list) act" where
  "holdings_route w =
     with_prices w (\<lambda>px a. (holdings_of (pp_themes (sa_pipeline a)) px (lg_lots (app_ledger a)), a))"

fun theme_totals ::
    "(string, string list) dict \<Rightarrow> (string, real) dict \<Rightarrow> (string \<times> lot) list \<Rightarrow> (string, real) dict
      \<Rightarrow> exn + (string, real) dict" where
  "theme_totals themes px [] d = Inr d"
| "theme_totals themes px ((s, l) # ls) d =
     (case dget px s of None \<Rightarrow> Inl KeyError | Some cur \<Rightarrow>
      theme_totals themes px ls (tally (map (\<lambda>t. (t, lot_qty l * cur)) (dget_or themes s [''Other''])) d))"

definition themes_route :: "'b world \<Rightarrow> (('b, 'v) app, (string, real) dict) act" where
  "themes_route w =
     with_prices w (\<lambda>px. bind_act (app_snapshot px) (\<lambda>snap a.
       (case theme_totals (pp_themes (sa_pipeline a)) px (lg_lots (app_ledger a)) [] of
          Inl e \<Rightarrow> (Inl e, a)
        | Inr exposure \<Rightarrow>
            let eq = es_equity snap; pct = (if eq \<noteq> 0 then map (\<lambda>(t, v). (t, v / eq)) exposure else [])
            in (Inr (dput pct ''Cash'' (if eq \<noteq> 0 then es_cash snap / eq else 0)), a))))"

record session_panel =
  np_scanned :: nat
  np_candidates :: nat
  np_decisions :: nat
  np_risk_passed :: nat
  np_filled :: nat
  np_traded :: bool
  np_reasons :: "no_trade list"

definition session_route :: "(('b, 'v) app, session_panel option) act" where
  "session_route = ask (\<lambda>a. map_option (\<lambda>r.
     \<lparr>np_scanned = rt_scanned r, np_candidates = rt_candidates r, np_decisions = rt_decisions r,
      np_risk_passed = rt_risk_passed r, np_filled = rt_filled r, np_traded = traded r, np_reasons = rt_reasons r\<rparr>)
     (sa_last a))"

definition features_route :: "(('b, 'v) app, (feature_status \<times> string list) list) act" where
  "features_route = ask (\<lambda>a. map (\<lambda>st. (st, map fm_name (by_status st (sa_features a))))
     [FT_ACTIVE, FT_REDUCED, FT_SHADOW, FT_DORMANT, FT_RETIRED])"

text \<open>The four months up to the current one, oldest first.\<close>

fun months_back :: "nat \<Rightarrow> int \<Rightarrow> int \<Rightarrow> (int \<times> int) list" where
  "months_back 0 y m = []"
| "months_back (Suc n) y m = (y, m) # (if m - 1 = 0 then months_back n (y - 1) 12 else months_back n y (m - 1))"

definition decision_quality_route :: "'b world \<Rightarrow> (('b, 'v) app, monthly_report \<times> trend_point list) act" where
  "decision_quality_route w a =
     (let d = wd_date w (wd_clock w); e = pp_quality (sa_pipeline a) in
      case monthly e (yr d) (mon d) of Inl x \<Rightarrow> (Inl x, a) | Inr r \<Rightarrow>
      case quality_trend e (rev (months_back 4 (yr d) (mon d))) of Inl x \<Rightarrow> (Inl x, a) | Inr t \<Rightarrow> (Inr (r, t), a))"

definition order_safety_route :: "'b world \<Rightarrow> (('b, 'v) app, safety_summary \<times> string) act" where
  "order_safety_route w = ask (\<lambda>a.
     let d = wd_date w (wd_clock w); st = risk_state_value (mc_state (app_risk a))
     in (monthly_safety_summary (yr d) (mon d) (pp_log (sa_pipeline a)), if st = ''NORMAL'' then ''OK'' else st))"

record thesis_panel =
  ep_decision :: string
  ep_skeptic :: string
  ep_symbol :: string
  ep_action :: decision_action
  ep_confidence :: real
  ep_disagreement :: real
  ep_severity :: "real option"
  ep_objections :: "string list"
  ep_created :: instant

definition thesis_panel_of :: "final_trade_thesis \<Rightarrow> thesis_panel" where
  "thesis_panel_of t =
     (let d = tp_decision (th_proposal t); k = tp_skeptic (th_proposal t) in
      \<lparr>ep_decision = th_decision_id t, ep_skeptic = th_skeptic_id t, ep_symbol = tp_symbol (th_proposal t),
       ep_action = do_action d, ep_confidence = do_confidence d, ep_disagreement = th_disagreement t,
       ep_severity = map_option sk_severity k,
       ep_objections = (case k of None \<Rightarrow> [] | Some s \<Rightarrow> sk_objections s), ep_created = th_created t\<rparr>)"

definition theses_route :: "(('b, 'v) app, thesis_panel list) act" where
  "theses_route = ask (\<lambda>a. sort_key (\<lambda>t. - ep_created t) (map thesis_panel_of (dvals (final_theses (sa_pipeline a)))))"

fun near_miss_value :: "near_miss_kind \<Rightarrow> string" where
  "near_miss_value WRONG_SIDE = ''WRONG_SIDE''"
| "near_miss_value QUANTITY_ERROR = ''QUANTITY_ERROR''"
| "near_miss_value DUPLICATE_ORDER = ''DUPLICATE''"
| "near_miss_value STALE_ORDER = ''STALE_ORDER''"
| "near_miss_value SYMBOL_MISMATCH = ''SYMBOL_MISMATCH''"
| "near_miss_value NO_STOP = ''NO_STOP''"
| "near_miss_value HASH_MISMATCH = ''HASH_MISMATCH''"
| "near_miss_value OTHER = ''OTHER''"

text \<open>The monitor is consulted on an anomaly only; its context holds copies.\<close>

datatype monitor_panel = NotConsulted string real | Consulted monitor_verdict

definition monitor_context_of ::
    "'b world \<Rightarrow> ('b, 'v) app \<Rightarrow> equity_snapshot \<Rightarrow> (string, service_status) dict \<Rightarrow> monitor_context" where
  "monitor_context_of w a snap beats =
     \<lparr>mn_now = Aware (wd_clock w), mn_heartbeats = beats, mn_risk_state = risk_state_value (mc_state (app_risk a)),
      mn_drawdown = es_drawdown snap, mn_positions = map (\<lambda>(s, l). (s, lot_qty l)) (lg_lots (app_ledger a)),
      mn_near_misses = map (\<lambda>n. near_miss_value (nm_kind n)) (last_n 5 (pl_near (pp_log (sa_pipeline a))))\<rparr>"

definition beats_of :: "'b world \<Rightarrow> ('b, 'v) app \<Rightarrow> exn + (string, service_status) dict" where
  "beats_of w a = (case sa_beats a of None \<Rightarrow> Inr [] | Some d \<Rightarrow> hb_snapshot (wd_clock w) hb_stale_after d)"

definition consult :: "monitor_context \<Rightarrow> (('b, 'v) app, monitor_panel) act" where
  "consult c a =
     (if \<not> anomaly_present c (20/100) then (Inr (NotConsulted (mn_risk_state c) (mn_drawdown c)), a)
      else case sa_review a c (sa_usage a) of
        (Inl e, u) \<Rightarrow> (Inl e, a\<lparr>sa_usage := u\<rparr>)
      | (Inr v, u) \<Rightarrow> (Inr (Consulted v), a\<lparr>sa_usage := u\<rparr>))"

definition monitor_route :: "'b world \<Rightarrow> (('b, 'v) app, monitor_panel) act" where
  "monitor_route w =
     with_snapshot w (\<lambda>snap a.
       (case beats_of w a of Inl e \<Rightarrow> (Inl e, a) | Inr beats \<Rightarrow> consult (monitor_context_of w a snap beats) a))"

definition llm_usage_route :: "(('b, 'v) app, agent_usage list \<times> real option) act" where
  "llm_usage_route = ask (\<lambda>a. (usage_snapshot (sa_usage a), total_cost_usd (sa_usage a)))"

definition risk_config_route :: "(('b, 'v) app, real list) act" where
  "risk_config_route = ask (\<lambda>a. let c = mc_config (app_risk a) in
     [per_trade_risk_budget_pct c, max_position_pct c, max_total_exposure_pct c, max_leverage c, exposure_cap_stage c])"

section \<open>What a request can change\<close>

datatype route = R_Health | R_Portfolio | R_Chart | R_Holdings | R_Themes | R_Session | R_Features | R_DecisionQuality
  | R_OrderSafety | R_Theses | R_Monitor | R_LlmUsage | R_RiskConfig

text \<open>The application after a request, answered or failed.\<close>

fun after_request :: "'b world \<Rightarrow> route \<Rightarrow> ('b, 'v) app \<Rightarrow> ('b, 'v) app" where
  "after_request w R_Health a = snd (health_route w a)"
| "after_request w R_Portfolio a = snd (portfolio_route w a)"
| "after_request w R_Chart a = snd (chart_route a)"
| "after_request w R_Holdings a = snd (holdings_route w a)"
| "after_request w R_Themes a = snd (themes_route w a)"
| "after_request w R_Session a = snd (session_route a)"
| "after_request w R_Features a = snd (features_route a)"
| "after_request w R_DecisionQuality a = snd (decision_quality_route w a)"
| "after_request w R_OrderSafety a = snd (order_safety_route w a)"
| "after_request w R_Theses a = snd (theses_route a)"
| "after_request w R_Monitor a = snd (monitor_route w a)"
| "after_request w R_LlmUsage a = snd (llm_usage_route a)"
| "after_request w R_RiskConfig a = snd (risk_config_route a)"

text \<open>Nothing but a higher high-water mark, and the usage of models.\<close>

definition watched :: "('b, 'v) app \<Rightarrow> ('b, 'v) app \<Rightarrow> bool" where
  "watched a a' \<longleftrightarrow>
     sa_pipeline a' = (sa_pipeline a)\<lparr>pp_ledger := (app_ledger a)\<lparr>lg_hwm := lg_hwm (app_ledger a')\<rparr>\<rparr>
     \<and> lg_hwm (app_ledger a) \<le> lg_hwm (app_ledger a')
     \<and> sa_features a' = sa_features a \<and> sa_review a' = sa_review a \<and> sa_beats a' = sa_beats a
     \<and> sa_last a' = sa_last a \<and> sa_series a' = sa_series a"

lemma watched_refl [simp]: "watched a a"
  by (simp add: watched_def app_ledger_def)

lemma watched_trans:
  assumes "watched a b" "watched b c" shows "watched a c"
proof -
  have b: "sa_pipeline b = (sa_pipeline a)\<lparr>pp_ledger := (pp_ledger (sa_pipeline a))\<lparr>lg_hwm := lg_hwm (app_ledger b)\<rparr>\<rparr>"
    using assms(1) by (simp add: watched_def app_ledger_def)
  have c: "sa_pipeline c = (sa_pipeline b)\<lparr>pp_ledger := (pp_ledger (sa_pipeline b))\<lparr>lg_hwm := lg_hwm (app_ledger c)\<rparr>\<rparr>"
    using assms(2) by (simp add: watched_def app_ledger_def)
  have "sa_pipeline c = (sa_pipeline a)\<lparr>pp_ledger := (pp_ledger (sa_pipeline a))\<lparr>lg_hwm := lg_hwm (app_ledger c)\<rparr>\<rparr>"
    by (subst c, subst b, subst b) simp
  then show ?thesis using assms by (simp add: watched_def app_ledger_def)
qed

lemma watched_same:
  assumes "watched a b"
  shows "lg_initial (app_ledger b) = lg_initial (app_ledger a)" "app_risk b = app_risk a"
proof -
  obtain h where "sa_pipeline b = (sa_pipeline a)\<lparr>pp_ledger := (app_ledger a)\<lparr>lg_hwm := h\<rparr>\<rparr>"
    using assms unfolding watched_def by blast
  then show "lg_initial (app_ledger b) = lg_initial (app_ledger a)" "app_risk b = app_risk a"
    by (simp_all add: app_ledger_def app_risk_def)
qed

lemma watched_usage [simp]: "watched a (b\<lparr>sa_usage := u\<rparr>) = watched a b"
  by (simp add: watched_def app_ledger_def)

lemma snapshot_mark: "snapshot prices l = (r, l') \<Longrightarrow> l' = l\<lparr>lg_hwm := lg_hwm l'\<rparr> \<and> lg_hwm l \<le> lg_hwm l'"
  by (auto simp: snapshot_def Let_def split: sum.splits if_splits)

lemma app_snapshot_watched: "watched a (snd (app_snapshot prices a))" "sa_usage (snd (app_snapshot prices a)) = sa_usage a"
proof -
  obtain r l where l: "snapshot prices (app_ledger a) = (r, l)" by (cases "snapshot prices (app_ledger a)")
  with snapshot_mark [OF l] show "watched a (snd (app_snapshot prices a))"
    and "sa_usage (snd (app_snapshot prices a)) = sa_usage a"
    by (auto simp: app_snapshot_def watched_def app_ledger_def)
qed

lemma with_snapshot_watched:
  assumes "\<And>snap b. watched b (snd (f snap b))"
  shows "watched a (snd (with_snapshot w f a))"
proof -
  have "watched a (snd (bind_act (app_snapshot px) f a))" for px
  proof -
    obtain r b where b: "app_snapshot px a = (r, b)" by (cases "app_snapshot px a")
    then have "watched a b" using app_snapshot_watched(1) [of a px] by simp
    then show ?thesis using b watched_trans [OF _ assms] by (cases r) (auto simp: bind_act_def)
  qed
  then show ?thesis by (auto simp: with_snapshot_def with_prices_def split: sum.splits)
qed

lemma with_snapshot_usage:
  assumes "\<And>snap b. sa_usage (snd (f snap b)) = sa_usage b"
  shows "sa_usage (snd (with_snapshot w f a)) = sa_usage a"
proof -
  have "sa_usage (snd (bind_act (app_snapshot px) f a)) = sa_usage a" for px
    using app_snapshot_watched(2) [of px a] assms
    by (cases "app_snapshot px a"; cases "fst (app_snapshot px a)") (auto simp: bind_act_def)
  then show ?thesis by (auto simp: with_snapshot_def with_prices_def split: sum.splits)
qed

lemma themes_as_snapshot:
  "snd (themes_route w a) = snd (with_snapshot w (\<lambda>snap a. (Inr (), a)) a)"
  by (auto simp: themes_route_def with_snapshot_def with_prices_def bind_act_def Let_def split: sum.splits prod.splits)

lemma route_watched: "watched a (after_request w rq a)"
  by (cases rq)
    (auto simp: health_route_def portfolio_route_def chart_route_def holdings_route_def themes_as_snapshot session_route_def
      features_route_def decision_quality_route_def order_safety_route_def theses_route_def monitor_route_def
      llm_usage_route_def risk_config_route_def ask_def Let_def with_prices_def consult_def
      intro!: with_snapshot_watched split: sum.splits prod.splits)

lemma route_usage: "rq \<noteq> R_Monitor \<Longrightarrow> sa_usage (after_request w rq a) = sa_usage a"
  by (cases rq)
    (auto simp: health_route_def portfolio_route_def chart_route_def holdings_route_def themes_as_snapshot session_route_def
      features_route_def decision_quality_route_def order_safety_route_def theses_route_def
      llm_usage_route_def risk_config_route_def ask_def Let_def with_prices_def
      intro!: with_snapshot_usage split: sum.splits prod.splits)

text \<open>
  C39. The API changes nothing that trades. Any sequence of requests, answered or failed, leaves the
  whole application as it was, positions, cash, orders, risk rules and logs included, but for a
  high-water mark that may have risen; and only the monitor route can spend a call of a model.
\<close>

theorem requests_are_read_only:
  "watched a (fold (after_request w) rqs a)
   \<and> sa_usage (fold (after_request w) (filter (\<lambda>rq. rq \<noteq> R_Monitor) rqs) a) = sa_usage a"
proof
  show "watched a (fold (after_request w) rqs a)"
    by (induction rqs arbitrary: a) (auto intro: watched_trans route_watched)
  show "sa_usage (fold (after_request w) (filter (\<lambda>rq. rq \<noteq> R_Monitor) rqs) a) = sa_usage a"
    by (induction rqs arbitrary: a) (auto simp: route_usage)
qed

section \<open>What the panels say\<close>

lemma mids_keys: "mids w now ss = Inr d \<Longrightarrow> map fst d = ss"
  by (induction ss arbitrary: d) (auto split: sum.splits)

lemma holdings_value:
  "holdings_of themes px ls = Inr hs \<Longrightarrow> positions_value_loop px ls tot = Inr (tot + sum_list (map ho_notional hs))"
proof (induction ls arbitrary: hs tot)
  case (Cons x ls)
  then show ?case by (cases x) (auto simp: holding_of_def algebra_simps split: option.splits sum.splits)
qed simp

lemma with_snapshot_result:
  assumes "with_snapshot w f a = (Inr x, a')"
  shows "\<exists>px snap b. held_prices w a = Inr px \<and> app_snapshot px a = (Inr snap, b) \<and> f snap b = (Inr x, a')"
  using assms by (auto simp: with_snapshot_def with_prices_def bind_act_def split: sum.splits prod.splits)

lemma app_snapshot_equity:
  assumes "app_snapshot px a = (Inr snap, b)"
  shows "equity (app_ledger a) px = Inr (es_equity snap)" "watched a b" "app_risk b = app_risk a"
proof -
  show "equity (app_ledger a) px = Inr (es_equity snap)"
    using assms by (auto simp: app_snapshot_def snapshot_def Let_def split: sum.splits prod.splits if_splits)
  show w: "watched a b" using app_snapshot_watched(1) [of a px] assms by simp
  then show "app_risk b = app_risk a" by (rule watched_same)
qed

text \<open>
  The panels tell the truth. The equity of the portfolio panel is the cash plus the notionals of
  the holdings panel, its profit is measured from the first deposit and its net result is the profit
  less the operating costs. By the health panel new entries pass the state of the risk gate exactly when
  the panel shows the normal state and does not show entries as blocked.
\<close>

theorem panels_tell_the_truth:
  assumes "holdings_route w a = (Inr hs, a1)" and "portfolio_route w a = (Inr pf, a2)" and "health_route w a = (Inr hp, a3)"
  shows "fp_equity pf = lg_cash (app_ledger a) + sum_list (map ho_notional hs)
    \<and> fp_pnl pf = fp_equity pf - lg_initial (app_ledger a) \<and> fp_net pf = fp_pnl pf - fp_costs pf
    \<and> entry_allowed_by_state (app_risk a) (hp_throttle hp) = (hp_state hp = NORMAL \<and> \<not> hp_blocked hp)"
proof -
  obtain px where px: "held_prices w a = Inr px" and hs: "holdings_of (pp_themes (sa_pipeline a)) px (lg_lots (app_ledger a)) = Inr hs"
    using assms(1) by (auto simp: holdings_route_def with_prices_def split: sum.splits)
  from with_snapshot_result [OF assms(2) [unfolded portfolio_route_def]] px obtain snap b where
    s: "app_snapshot px a = (Inr snap, b)" and pf: "fp_equity pf = es_equity snap" "fp_start pf = lg_initial (app_ledger b)"
      "fp_pnl pf = fp_equity pf - fp_start pf" "fp_net pf = fp_pnl pf - fp_costs pf"
    by (auto simp: Let_def two_pnl_of_def project_net_pnl_def split: if_splits)
  have eq: "es_equity snap = lg_cash (app_ledger a) + sum_list (map ho_notional hs)"
    using app_snapshot_equity(1) [OF s] holdings_value [OF hs, of 0] by (simp add: equity_def positions_value_def)
  have init: "lg_initial (app_ledger b) = lg_initial (app_ledger a)"
    by (rule watched_same [OF app_snapshot_equity(2) [OF s]])
  from with_snapshot_result [OF assms(3) [unfolded health_route_def]] obtain px' snap' b' where
    h: "app_snapshot px' a = (Inr snap', b')" and hp: "hp_state hp = mc_state (app_risk b')"
      "hp_blocked hp = (hp_throttle hp \<in> {NO_NEW_ENTRY, REVIEW_SAFE_MODE})"
    by (auto simp: ask_def Let_def)
  have "entry_allowed_by_state (app_risk a) (hp_throttle hp) = (hp_state hp = NORMAL \<and> \<not> hp_blocked hp)"
    using hp app_snapshot_equity(3) [OF h] by (cases "mc_state (app_risk a)") (auto simp: entry_allowed_by_state_def)
  with pf eq init show ?thesis by simp
qed

text \<open>
  The high-water mark is read by the risk gate. A status request at the top of a price spike raises
  it for good: afterwards the same portfolio has a drawdown that it would not have had unobserved.
\<close>

lemma polling_creates_drawdown:
  assumes "equity l hi = Inr 200" "equity l lo = Inr 100" "lg_hwm l = 100"
    and "equity (l\<lparr>lg_hwm := 200\<rparr>) lo = Inr 100"
  shows "map_sum id es_drawdown (fst (snapshot lo (snd (snapshot hi l)))) = Inr (1/2)"
    and "map_sum id es_drawdown (fst (snapshot lo l)) = Inr 0"
  using assms by (simp_all add: snapshot_def Let_def)


section \<open>A concrete application\<close>

definition demo_review :: "monitor_context \<Rightarrow> (usage_ledger, monitor_verdict) act" where
  "demo_review c u = (Inl LLMCallError, u)"

definition demo_book :: ledger where
  "demo_book = (the_ledger 1000)\<lparr>lg_cash := 900, lg_lots := [(''ABC'', \<lparr>lot_symbol = ''ABC'', lot_qty = 1, lot_cost = 100\<rparr>)]\<rparr>"

definition demo_app :: "(paper, nat) app" where
  "demo_app = create_app (demo_start\<lparr>pp_ledger := demo_book\<rparr>) None None (new_ledger []) demo_review None"

lemma demo_held: "held_prices demo_world demo_app = Inr [(''ABC'', 1999/20)]"
  by (simp add: held_prices_def demo_app_def create_app_def demo_start_def demo_pipeline_def demo_book_def app_ledger_def
      dkeys_def quote_at_def demo_world_def demo_world_with_def demo_tick_def quote_mid_def)

lemma demo_marks:
  "\<exists>snap b. app_snapshot [(''ABC'', 1999/20)] demo_app = (Inr snap, b) \<and> lg_initial (app_ledger b) = 1000"
  by (auto simp: app_snapshot_def snapshot_def equity_def positions_value_def demo_app_def create_app_def demo_start_def
      demo_pipeline_def demo_book_def app_ledger_def the_ledger_def Let_def)

theorem panels_tell_the_truth_witness:
  "\<exists>hs pf hp. fst (holdings_route demo_world demo_app) = Inr hs \<and> fst (portfolio_route demo_world demo_app) = Inr pf
     \<and> fst (health_route demo_world demo_app) = Inr hp
     \<and> fp_equity pf = lg_cash (app_ledger demo_app) + sum_list (map ho_notional hs)"
proof -
  obtain snap b where s: "app_snapshot [(''ABC'', 1999/20)] demo_app = (Inr snap, b)" "lg_initial (app_ledger b) = 1000"
    using demo_marks by blast
  have lots: "lg_lots (app_ledger demo_app) = [(''ABC'', \<lparr>lot_symbol = ''ABC'', lot_qty = 1, lot_cost = 100\<rparr>)]"
    by (simp add: demo_app_def create_app_def demo_start_def demo_pipeline_def demo_book_def app_ledger_def)
  obtain hs where hs: "holdings_route demo_world demo_app = (Inr hs, demo_app)"
    by (simp add: holdings_route_def with_prices_def demo_held lots)
  obtain pf where pf: "portfolio_route demo_world demo_app = (Inr pf, b)"
    using s by (simp add: portfolio_route_def with_snapshot_def with_prices_def demo_held bind_act_def Let_def)
  obtain hp where hp: "health_route demo_world demo_app = (Inr hp, b)"
    using s by (simp add: health_route_def with_snapshot_def with_prices_def demo_held bind_act_def Let_def ask_def)
  from panels_tell_the_truth [OF hs pf hp] hs pf hp show ?thesis by (intro exI [of _ hs] exI [of _ pf] exI [of _ hp]) simp
qed

end
