(* ===== verification/Spec2Isabelle.thy ===== *)
theory Spec2Isabelle
  imports Prelude PyNum Clock Schemas LongOnlyBook MasterLedger Calendar OrderMachine MarketData
    RiskGate Broker Store Execution CellLedger Reservation CellBooks Netting FillAlloc Reconcile CellStops
    Sizing Estimation Governor Correlation Breadth CorporateActions Governance Decision PreTrade
    DecisionQuality SessionServices Actions Pipeline PipelineSafety PipelineViews PipelineFunnel
    PipelineDemo PipelineTypes
    Research Learning Replay
    Json LLMClient LLMAdapters LLMSession News Alpaca StatusApi
begin

text \<open>
  A model of an autonomous trading system: its accounting, risk control, order execution,
  capital cells, governance, and the trading session that composes them. The program is the Python
  code under \<open>src/\<close>. A trade runs through its parts in this order: market data is validated and scanned; a proposal gets an exit
  plan, a size and a share of the cash; the order passes the risk gate, which signs an approval;
  the execution engine turns the approval into a snapshot, sends it to a broker and keeps track
  of it in a durable store; fills are booked in the master ledger. Capital cells are virtual
  accounts over that one master account: their intents are netted, crossed internally, and the
  fills of the rest are shared out; reconciliation compares cells, ledger and broker and halts
  new entries when they differ.

  Conventions. A Python exception is a constructor of \<open>exn\<close>; a computation that may raise has
  type \<open>exn + 'a\<close>; a method that mutates its object and may raise is an action
  \<open>'s \<Rightarrow> (exn + 'a) \<times> 's\<close>, so that mutations made before an exception are kept. A dictionary is
  an insertion-ordered association list. Finite floats are real numbers with exact arithmetic;
  \<open>round\<close>, \<open>int\<close> and the tolerances of the code are modelled; values that the code tests for
  NaN or infinity are \<open>pyfloat\<close>s. Instants are microseconds since the epoch. Hashes, HMAC,
  random identifiers, the wall clock, time-zone data, quotes and the texts of floats are arguments.
  Messages and notes are left out.

  Theories, the code they model, and what their lemmas show.

  Foundations.
  \<^item> \<open>Prelude\<close>, \<open>PyNum\<close>: exceptions, actions and their preservation rules, dictionaries with sums
    and tallies, sorting by a unique key; rounding, decimal text, means.
  \<^item> \<open>Clock\<close> (\<open>packages/common/clock.py\<close>, \<open>environment.py\<close>, \<open>pit_store.py\<close>): timestamps,
    environments, the point-in-time store.
  \<^item> \<open>Schemas\<close> (\<open>packages/schemas\<close>): every record with the validation that constructs it.

  Accounting.
  \<^item> \<open>LongOnlyBook\<close>: the locale of a book of cash and long positions. Master ledger and cell
    ledger are its interpretations; its lemmas say when sequences of fills succeed and what they
    cost.
  \<^item> \<open>MasterLedger\<close> (\<open>packages/common/ledger.py\<close>): the ledger is solvent in every history; a fill
    is booked completely or not at all; the snapshot reports what the books say.
  \<^item> \<open>CorporateActions\<close> (\<open>services/market_data/corporate_actions.py\<close>, \<open>event_calendar.py\<close>):
    actions keep the books sound and have their documented effect on cash, positions and value.
  \<^item> \<open>Calendar\<close> (\<open>calendar.py\<close>, \<open>risk_config.py\<close>, \<open>settlement.py\<close>): trading days, limits, settled
    cash. The search for the next trading day takes a bound on its steps as an argument, and
    five steps are shown to be enough for every day of the shipped data.

  From data to order.
  \<^item> \<open>MarketData\<close> (\<open>services/data_validation\<close>, \<open>services/market_data\<close>, \<open>services/regime\<close>,
    \<open>services/quant/scanner.py\<close>, \<open>services/risk/gap_risk.py\<close>): entries halt exactly on the
    documented defects.
  \<^item> \<open>Sizing\<close> (\<open>services/loss_control\<close>, \<open>services/position_sizing\<close>, \<open>services/capital_allocation\<close>):
    a size respects the risk budget and every cap; cash goes to the best candidates within its
    limits.
  \<^item> \<open>RiskGate\<close> (\<open>services/risk/master_controller.py\<close>): the checks implement the policy; an approval
    binds one order.
  \<^item> \<open>OrderMachine\<close> (\<open>services/execution/state_machine.py\<close>): the record of an order is the path
    its log tells.
  \<^item> \<open>Broker\<close> (\<open>packages/broker_adapters\<close>), \<open>Store\<close> (\<open>packages/common/durable_store.py\<close>),
    \<open>Execution\<close> (\<open>services/execution/engine.py\<close>): the books of the paper broker are those of its
    fills, to the rounding of the fills, for quotes of at least a millionth; a submission is
    recorded once; with snapshots as \<open>from_approved\<close> freezes them nothing reaches the broker without
    an authority that binds the order, and no client id twice, also across restarts with a store.
    \<open>logged\<close> and \<open>life_step\<close> wrap an adapter and an engine to speak of all its calls; they model no
    code.

  Capital cells (\<open>services/capital_cells\<close>).
  \<^item> \<open>CellLedger\<close>, \<open>CellBooks\<close>: the virtual account of a cell, and batches of legs over all cells.
  \<^item> \<open>Reservation\<close>: the locale of a table of reservations over a pool; capital reservations
    here and sell reservations in \<open>CellStops\<close> are its interpretations. A grant fits into the total
    cash of its moment; only a later update of the total can leave more reserved than there is.
  \<^item> \<open>Netting\<close>, \<open>FillAlloc\<close>: netting loses no share and does not depend on the order of the
    intents; crosses are neutral; fills are shared out in proportion.
  \<^item> \<open>Reconcile\<close> (\<open>services/reconciliation\<close>, \<open>reconciliation.py\<close>): differences are found exactly;
    cells that are operated in step with the ledger reconcile.
  \<^item> \<open>CellStops\<close>: a fired stop reserves all its exits or none.
  \<^item> \<open>Estimation\<close>, \<open>Correlation\<close>, \<open>Breadth\<close>, \<open>Governor\<close>: estimates, correlation per regime, the
    number of independent cells (a union-find structure and Jacobi rotations, at most 200 of
    them, as in the code), and the allocation of capital to cells. The while loop of union-find is
    a partial function that is shown to return.

  Governance.
  \<^item> \<open>Governance\<close> (\<open>packages/common/experiments.py\<close>, \<open>services/pdca/exit_optimizer.py\<close>,
    \<open>post_trade.py\<close>, \<open>services/supervisor\<close>): a change is promoted only up the whole ladder and by
    a named human, and always can be; a major fault is resumed only by a human.

  Decisions and their audit.
  \<^item> \<open>Decision\<close> (\<open>services/decision\<close>): the deterministic decision and skeptic models, the thesis,
    disagreement, calibration, forecasts, human intents and the monitor: an anomaly is never
    silent, and each forecast is graded once.
  \<^item> \<open>PreTrade\<close> (\<open>services/decision/audit.py\<close>, \<open>services/pdca/audit_log.py\<close>,
    \<open>packages/common/provenance.py\<close>): the independent audit fails closed where it is mandatory;
    the log of an order says whether it can be traced.
  \<^item> \<open>DecisionQuality\<close> (\<open>services/pdca/decision_quality.py\<close>): decisions are immutable, observed at
    fixed horizons, graded within range and by the observation of their own horizon; the monthly
    report adds up.

  The session.
  \<^item> \<open>SessionServices\<close> (\<open>services/market_data/service.py\<close>, the composite index of
    \<open>services/regime/engine.py\<close>, \<open>services/cost_manager\<close>): the mock market, whose memo is never
    seen from outside; operating costs and the two results.
  \<^item> \<open>Actions\<close>: methods of a composed object, and triples for them with one postcondition for the
    result and one for an exception.
  \<^item> \<open>Pipeline\<close> (\<open>services/pipeline.py\<close>): one trading session. Its record holds the state of every
    component above; each definition is one stage of \<open>run_session\<close> or one method, in the order of
    the code; what comes from outside is the record \<open>world\<close>.
  \<^item> \<open>PipelineSafety\<close>: an invariant of the whole pipeline that every stage keeps, also where it
    raises, and from it the safety of every history of sessions: what the broker executed was
    audited and approved, or is an approved protective exit. The sound paper broker, the
    authority of the engine and the log of the audit meet here.
  \<^item> \<open>PipelineViews\<close>: the locales of views of the pipeline that most stages leave alone; the views of
    the next two theories are their interpretations.
  \<^item> \<open>PipelineFunnel\<close>, \<open>PipelineDemo\<close>: the account a session gives of itself adds up, and a
    concrete session.
  \<^item> \<open>PipelineTypes\<close>: whatever the models answer, what a session keeps on file is well typed.

  Research and learning.
  \<^item> \<open>Research\<close> (\<open>packages/strategy_sdk/validation.py\<close>, \<open>services/quant/backtest.py\<close>,
    \<open>services/alpha_factory\<close>): the backtest sees no future; walk-forward windows do not leak, and
    their loop, a partial function, returns for every non-empty test window; the judge never
    promotes; a champion is only replaced by a better one.
  \<^item> \<open>Learning\<close> (\<open>services/feature_manager\<close>, \<open>services/institutional\<close>, \<open>services/pdca/attribution.py\<close>,
    \<open>shadow.py\<close>): features are read as of a point in time and decline step by step; a single flow
    feature never acts; where profit comes from.
  \<^item> \<open>Replay\<close> (\<open>services/quant/replay.py\<close>, \<open>services/pdca/review.py\<close>): replayed sessions are all
    accounted for, and on the shipped calendar six steps per search for a trading day are enough;
    the review of a day.

  Outside data, language models and the dashboard.
  \<^item> \<open>Json\<close>: values of \<open>json.loads\<close> and the Python operations on them, each with its exception.
  \<^item> \<open>News\<close> (\<open>services/news/engine.py\<close>): signals are in range and built from the articles of one
    feed only; a story is told once per novelty window.
  \<^item> \<open>Alpaca\<close> (\<open>services/market_data/alpaca_provider.py\<close>): no bar of the day asked about or later,
    no crossed or empty quote, whatever the server answers and whatever was cached. The loop over
    pages is a partial function that returns exactly when the pages come to an end.
  \<^item> \<open>LLMClient\<close> (\<open>packages/common/llm_client.py\<close>, \<open>llm_usage.py\<close>): which agent runs on which model;
    the usage ledger counts every call and charges known prices only.
  \<^item> \<open>LLMAdapters\<close> (\<open>services/decision/prompts.py\<close>, \<open>claude_adapters.py\<close>, \<open>openai_adapters.py\<close>): the
    prompts and the adapters around a vendor's client, which is a function from requests to
    typed replies or exceptions. Both decision adapters make the same decision of replies that say the
    same and meter the same usage, each under its own agent; a decision comes back through the
    schema as it was answered; an audit is bound to its order whatever the model answers; a failing skeptic vetoes.
  \<^item> \<open>LLMSession\<close>: these adapters inside a session. While the skeptic cannot be reached, a session
    opens no position.
  \<^item> \<open>StatusApi\<close> (\<open>apps/api/main.py\<close>): the routes of the dashboard. A request changes nothing but
    the high-water mark of the ledger and the usage of models.

  Not modelled: the HTTP transport, the wording of the system prompts, the static page of the
  dashboard and the start scripts under \<open>scripts/\<close>, which construct and print.
\<close>

end
